(* ===== verification/Prelude.thy ===== *)
theory Prelude
  imports Main "HOL-Library.Word" "HOL-Library.Multiset"
begin

text \<open>
  Shared vocabulary of the development: the machine types of the C code, the model of
  allocation outcomes, the in-place exchange of two array cells and the lemmas on lists,
  multisets and words that several component theories use.

  A C array is a list whose length is the number of allocated cells; \<open>xs ! i\<close> and
  \<open>xs[i := v]\<close> are used at indices that the component's invariant keeps below that length.
  A pointer that may be \<open>NULL\<close> is an \<open>option\<close>.
\<close>

named_theorems array_simps \<open>reads and writes of array cells\<close>
named_theorems frame_simps \<open>fields an operation leaves alone\<close>

type_synonym u8 = "8 word"
type_synonym u16 = "16 word"
type_synonym u32 = "32 word"
type_synonym u64 = "64 word"

text \<open>
  Whether an allocation succeeds is decided outside the program. An operation that allocates
  takes an \<open>alloc_outcome\<close>: \<open>ok i\<close> tells whether the \<open>i\<close>-th allocation it performs (from 0)
  returns memory (\<open>True\<close>) or \<open>NULL\<close>.
\<close>

type_synonym alloc_outcome = "nat \<Rightarrow> bool"

text \<open>The three assignments \<open>tmp = a[i]; a[i] = a[j]; a[j] = tmp\<close>.\<close>

definition swap_cells :: "'a list \<Rightarrow> nat \<Rightarrow> nat \<Rightarrow> 'a list" where
  "swap_cells xs i j = (let tmp = xs ! i; ys = xs[i := xs ! j] in ys[j := tmp])"

lemma length_swap_cells [simp]: "length (swap_cells xs i j) = length xs"
  by (simp add: swap_cells_def Let_def)

lemma nth_swap_cells [array_simps]:
  "i < length xs \<Longrightarrow> j < length xs \<Longrightarrow> k < length xs \<Longrightarrow>
   swap_cells xs i j ! k = (if k = j then xs ! i else if k = i then xs ! j else xs ! k)"
  by (auto simp: swap_cells_def Let_def nth_list_update)

lemma take_swap_cells:
  assumes "i < n" "j < n" "n \<le> length xs"
  shows "take n (swap_cells xs i j) = swap_cells (take n xs) i j"
  using assms by (intro nth_equalityI) (auto simp: nth_swap_cells)

lemma mset_swap_cells [simp]:
  assumes "i < length xs" "j < length xs"
  shows "mset (swap_cells xs i j) = mset xs"
  using assms by (simp add: swap_cells_def Let_def mset_swap)

lemma mset_take_swap_cells:
  assumes "i < n" "j < n" "n \<le> length xs"
  shows "mset (take n (swap_cells xs i j)) = mset (take n xs)"
  using assms by (simp add: take_swap_cells)

lemma mset_take_Suc:
  "n < length xs \<Longrightarrow> mset (take (Suc n) xs) = add_mset (xs ! n) (mset (take n xs))"
  by (simp add: take_Suc_conv_app_nth)

section \<open>Computations that may have undefined behaviour\<close>

text \<open>
  Where a C function can run into undefined behaviour its model returns \<open>Inl\<close> of the fault that
  happens first. Functions are composed with \<open>bind_run\<close>; \<open>map_run\<close> and \<open>fold_run\<close> are loops
  over a list of indices, in order.
\<close>

datatype fault = Null_Deref | Use_After_Free | Out_Of_Bounds | Zero_Divide | Bad_Free | Bad_Convert

type_synonym 'a run = "fault + 'a"

definition bind_run :: "'a run \<Rightarrow> ('a \<Rightarrow> 'b run) \<Rightarrow> 'b run" where
  "bind_run m f = (case m of Inl e \<Rightarrow> Inl e | Inr x \<Rightarrow> f x)"

lemma bind_run_simps [simp]: "bind_run (Inl e) f = Inl e" "bind_run (Inr x) f = f x"
  by (simp_all add: bind_run_def)

lemma bind_run_InrE [elim!]:
  assumes "bind_run m f = Inr y"
  obtains x where "m = Inr x" "f x = Inr y"
  using assms by (cases m) auto

lemma bind_run_eq_Inr: "bind_run m f = Inr y \<longleftrightarrow> (\<exists>x. m = Inr x \<and> f x = Inr y)"
  by (cases m) auto

fun map_run :: "('a \<Rightarrow> 'b run) \<Rightarrow> 'a list \<Rightarrow> 'b list run" where
  "map_run f [] = Inr []"
| "map_run f (x # xs) = bind_run (f x) (\<lambda>y. bind_run (map_run f xs) (\<lambda>ys. Inr (y # ys)))"

fun fold_run :: "('a \<Rightarrow> 's \<Rightarrow> 's run) \<Rightarrow> 'a list \<Rightarrow> 's \<Rightarrow> 's run" where
  "fold_run f [] s = Inr s"
| "fold_run f (x # xs) s = bind_run (f x s) (fold_run f xs)"

lemma map_run_Inr: "(\<And>x. x \<in> set xs \<Longrightarrow> f x = Inr (g x)) \<Longrightarrow> map_run f xs = Inr (map g xs)"
  by (induction xs) auto

lemma fold_run_Inr:
  "(\<And>x s. x \<in> set xs \<Longrightarrow> f x s = Inr (g x s)) \<Longrightarrow> fold_run f xs s = Inr (fold g xs s)"
  by (induction xs arbitrary: s) auto

lemma fold_run_append: "fold_run f (xs @ ys) s = bind_run (fold_run f xs s) (fold_run f ys)"
  by (induction xs arbitrary: s) (auto simp: bind_run_def split: sum.split)

lemma fold_run_cong: "(\<And>x s. x \<in> set xs \<Longrightarrow> f x s = g x s) \<Longrightarrow> fold_run f xs s = fold_run g xs s"
  by (induction xs arbitrary: s) (auto simp: bind_run_def split: sum.split)

lemma index_unique: "a * c + b = a' * c + b' \<Longrightarrow> b < c \<Longrightarrow> b' < c \<Longrightarrow> a = a' \<and> b = (b' :: nat)"
  by (metis add.commute div_less div_mult_self3 mod_less mod_mult_self3 add.right_neutral not_less_zero)

lemma map_run_length: "map_run f xs = Inr ys \<Longrightarrow> length ys = length xs"
  by (induction xs arbitrary: ys) auto

text \<open>Subtraction of \<open>size_t\<close> values wraps.\<close>

definition size_sub :: "nat \<Rightarrow> nat \<Rightarrow> nat" where
  "size_sub a b = (if b \<le> a then a - b else 2 ^ 64 + a - b)"

text \<open>Reading one cell of a buffer.\<close>

definition load_cell :: "'a list \<Rightarrow> nat \<Rightarrow> 'a run" where
  "load_cell xs i = (if i < length xs then Inr (xs ! i) else Inl Out_Of_Bounds)"

lemma load_cell_in [simp]: "i < length xs \<Longrightarrow> load_cell xs i = Inr (xs ! i)"
  by (simp add: load_cell_def)

lemma load_cell_out [simp]: "length xs \<le> i \<Longrightarrow> load_cell xs i = Inl Out_Of_Bounds"
  by (simp add: load_cell_def)

lemma map_run_load:
  "a + n \<le> length xs \<Longrightarrow> map_run (\<lambda>i. load_cell xs (a + i)) [0..<n] = Inr (take n (drop a xs))"
  by (subst map_run_Inr [where g = "\<lambda>i. xs ! (a + i)"])
     (auto simp: load_cell_def intro!: nth_equalityI)

end
