(* ===== verification/Pqueue.thy ===== *)
theory Pqueue
  imports Prelude
begin

text \<open>
  The priority queue of \<open>lib/internal/pqueue.c\<close>: a binary heap in a fixed array, ordered by a
  comparison function stored in the queue. \<open>compare a b > 0\<close> means that \<open>a\<close> leaves the queue
  before \<open>b\<close>; the default comparison makes the smallest number leave first.

  The loops \<open>pq_sift_up\<close> and \<open>pq_sift_down\<close> are recursive functions with measures on the
  index. The locale \<open>pq_order\<close> states what the code relies on of a comparison function,
  \<open>priority_queue\<close> is the abstract contract of the component. Indices are natural numbers:
  they stay below the number of cells of an array of 16-byte elements, so \<open>2 * idx + 2\<close>
  does not wrap in \<open>size_t\<close>.
\<close>

section \<open>Data and operations\<close>

record 'v pq_elem =
  pqe_priority :: u64
  pqe_data :: "'v option"

record 'v pqueue =
  pq_heap :: "'v pq_elem list"
  pq_capacity :: nat
  pq_size :: nat
  pq_compare :: "u64 \<Rightarrow> u64 \<Rightarrow> int"

definition pq_default_compare :: "u64 \<Rightarrow> u64 \<Rightarrow> int" where
  "pq_default_compare a b = (if a < b then 1 else 0) - (if a > b then 1 else 0)"

text \<open>The elements, of 16 bytes each, in a block of \<open>n * sizeof(SNEPPXPQElement)\<close> bytes, a product that wraps.\<close>

definition pq_cells :: "nat \<Rightarrow> nat" where "pq_cells n = n * 16 mod 2 ^ 64 div 16"

definition SNEPPX_pq_create :: "alloc_outcome \<Rightarrow> nat \<Rightarrow> 'v pqueue option" where
  "SNEPPX_pq_create ok initial_capacity =
     (let initial_capacity = (if initial_capacity = 0 then 16 else initial_capacity) in
      if \<not> ok 0 then None
      else if \<not> ok 1 then None
      else Some \<lparr>pq_heap = replicate (pq_cells initial_capacity) \<lparr>pqe_priority = 0, pqe_data = None\<rparr>,
                 pq_capacity = initial_capacity, pq_size = 0, pq_compare = pq_default_compare\<rparr>)"

abbreviation pq_prio :: "'v pqueue \<Rightarrow> nat \<Rightarrow> u64" where
  "pq_prio pq i \<equiv> pqe_priority (pq_heap pq ! i)"

definition pq_swap :: "'v pqueue \<Rightarrow> nat \<Rightarrow> nat \<Rightarrow> 'v pqueue" where
  "pq_swap pq i j = pq\<lparr>pq_heap := swap_cells (pq_heap pq) i j\<rparr>"

function pq_sift_up :: "'v pqueue \<Rightarrow> nat \<Rightarrow> 'v pqueue" where
  "pq_sift_up pq idx =
     (if idx > 0 then
        let parent = (idx - 1) div 2 in
        if pq_compare pq (pq_prio pq parent) (pq_prio pq idx) \<ge> 0 then pq
        else pq_sift_up (pq_swap pq parent idx) parent
      else pq)"
  by pat_completeness auto
termination
  by (relation "measure snd") auto

definition pq_largest :: "'v pqueue \<Rightarrow> nat \<Rightarrow> nat" where
  "pq_largest pq idx =
     (let left = 2 * idx + 1; right = 2 * idx + 2; largest = idx;
          largest = (if left < pq_size pq \<and>
                        pq_compare pq (pq_prio pq left) (pq_prio pq largest) > 0
                     then left else largest);
          largest = (if right < pq_size pq \<and>
                        pq_compare pq (pq_prio pq right) (pq_prio pq largest) > 0
                     then right else largest)
      in largest)"

lemma pq_largest_cases:
  "pq_largest pq idx = idx \<or>
   pq_largest pq idx < pq_size pq \<and> (pq_largest pq idx = 2 * idx + 1 \<or> pq_largest pq idx = 2 * idx + 2)"
  by (auto simp: pq_largest_def Let_def)

lemma pq_size_swap [simp, frame_simps]: "pq_size (pq_swap pq i j) = pq_size pq"
  and pq_capacity_swap [simp, frame_simps]: "pq_capacity (pq_swap pq i j) = pq_capacity pq"
  and pq_compare_swap [simp, frame_simps]: "pq_compare (pq_swap pq i j) = pq_compare pq"
  and pq_heap_swap: "pq_heap (pq_swap pq i j) = swap_cells (pq_heap pq) i j"
  and pq_heap_swap_length [simp]: "length (pq_heap (pq_swap pq i j)) = length (pq_heap pq)"
  by (simp_all add: pq_swap_def)

function pq_sift_down :: "'v pqueue \<Rightarrow> nat \<Rightarrow> 'v pqueue" where
  "pq_sift_down pq idx =
     (let largest = pq_largest pq idx in
      if largest = idx then pq
      else pq_sift_down (pq_swap pq idx largest) largest)"
  by pat_completeness auto
termination
proof (relation "measure (\<lambda>(pq, idx). pq_size pq - idx)")
  fix pq :: "'v pqueue" and idx largest
  assume "largest = pq_largest pq idx" "largest \<noteq> idx"
  with pq_largest_cases [of pq idx]
  show "((pq_swap pq idx largest, largest), pq, idx) \<in> measure (\<lambda>(pq, idx). pq_size pq - idx)"
    by auto
qed simp

declare pq_sift_up.simps [simp del] pq_sift_down.simps [simp del]

definition SNEPPX_pq_push ::
  "'v pqueue option \<Rightarrow> u64 \<Rightarrow> 'v option \<Rightarrow> int \<times> 'v pqueue option" where
  "SNEPPX_pq_push pqp priority data =
     (case pqp of None \<Rightarrow> (- 1, None)
      | Some pq \<Rightarrow>
         if pq_size pq \<ge> pq_capacity pq then (- 1, Some pq)
         else
           let pq = pq\<lparr>pq_heap := (pq_heap pq)[pq_size pq := \<lparr>pqe_priority = priority, pqe_data = data\<rparr>]\<rparr>;
               pq = pq\<lparr>pq_size := pq_size pq + 1\<rparr>;
               pq = pq_sift_up pq (pq_size pq - 1)
           in (0, Some pq))"

text \<open>The out-parameters \<open>*priority\<close> and \<open>*data\<close> are an optional pair: \<open>None\<close> where the
  code leaves them unwritten.\<close>

definition SNEPPX_pq_pop ::
  "'v pqueue option \<Rightarrow> int \<times> (u64 \<times> 'v option) option \<times> 'v pqueue option" where
  "SNEPPX_pq_pop pqp =
     (case pqp of None \<Rightarrow> (- 1, None, None)
      | Some pq \<Rightarrow>
         if pq_size pq = 0 then (- 1, None, Some pq)
         else
           let priority = pq_prio pq 0; data = pqe_data (pq_heap pq ! 0);
               pq = pq\<lparr>pq_heap := (pq_heap pq)[0 := pq_heap pq ! (pq_size pq - 1)]\<rparr>;
               pq = pq\<lparr>pq_size := pq_size pq - 1\<rparr>;
               pq = (if pq_size pq > 0 then pq_sift_down pq 0 else pq)
           in (0, Some (priority, data), Some pq))"

definition SNEPPX_pq_peek :: "'v pqueue option \<Rightarrow> int \<times> (u64 \<times> 'v option) option" where
  "SNEPPX_pq_peek pqp =
     (case pqp of None \<Rightarrow> (- 1, None)
      | Some pq \<Rightarrow>
         if pq_size pq = 0 then (- 1, None)
         else (0, Some (pq_prio pq 0, pqe_data (pq_heap pq ! 0))))"

definition SNEPPX_pq_is_empty :: "'v pqueue option \<Rightarrow> bool" where
  "SNEPPX_pq_is_empty pqp = (case pqp of None \<Rightarrow> False | Some pq \<Rightarrow> pq_size pq = 0)"

definition SNEPPX_pq_size :: "'v pqueue option \<Rightarrow> nat" where
  "SNEPPX_pq_size pqp = (case pqp of None \<Rightarrow> 0 | Some pq \<Rightarrow> pq_size pq)"

definition SNEPPX_pq_heapify :: "'v pqueue option \<Rightarrow> nat \<Rightarrow> 'v pqueue option" where
  "SNEPPX_pq_heapify pqp idx =
     (case pqp of None \<Rightarrow> None
      | Some pq \<Rightarrow>
         if idx \<ge> pq_size pq then Some pq
         else let pq = pq_sift_down pq idx in Some (pq_sift_up pq idx))"

definition SNEPPX_pq_clear :: "'v pqueue option \<Rightarrow> 'v pqueue option" where
  "SNEPPX_pq_clear pqp = (case pqp of None \<Rightarrow> None | Some pq \<Rightarrow> Some (pq\<lparr>pq_size := 0\<rparr>))"


section \<open>Well-formed queues\<close>

text \<open>
  \<open>pq_edge pq i\<close>: the element at \<open>i\<close> does not leave before its parent. A well-formed queue has
  an array of \<open>pq_capacity\<close> cells, its first \<open>pq_size\<close> cells in use, and every edge in order.
  The contents are the multiset of the used cells.
\<close>

definition pq_edge :: "'v pqueue \<Rightarrow> nat \<Rightarrow> bool" where
  "pq_edge pq i \<longleftrightarrow> (0 < i \<longrightarrow> 0 \<le> pq_compare pq (pq_prio pq ((i - 1) div 2)) (pq_prio pq i))"

definition pq_bounds :: "'v pqueue \<Rightarrow> bool" where
  "pq_bounds pq \<longleftrightarrow> pq_size pq \<le> pq_capacity pq \<and> length (pq_heap pq) = pq_capacity pq"

definition pq_ordered :: "'v pqueue \<Rightarrow> bool" where
  "pq_ordered pq \<longleftrightarrow> (\<forall>i < pq_size pq. pq_edge pq i)"

definition pq_wf :: "'v pqueue \<Rightarrow> bool" where
  "pq_wf pq \<longleftrightarrow> pq_bounds pq \<and> pq_ordered pq"

definition pq_contents :: "'v pqueue \<Rightarrow> 'v pq_elem multiset" where
  "pq_contents pq = mset (take (pq_size pq) (pq_heap pq))"

text \<open>The heap order with a possible fault around one cell \<open>k\<close>: every edge that does not touch
  \<open>k\<close> is in order, and the children of \<open>k\<close> are in order below the parent of \<open>k\<close>.\<close>

definition pq_ordered_but :: "nat \<Rightarrow> 'v pqueue \<Rightarrow> bool" where
  "pq_ordered_but k pq \<longleftrightarrow>
     (\<forall>i < pq_size pq. i \<noteq> k \<longrightarrow> (i - 1) div 2 \<noteq> k \<longrightarrow> pq_edge pq i) \<and>
     (\<forall>i < pq_size pq. 0 < i \<longrightarrow> 0 < k \<longrightarrow> (i - 1) div 2 = k \<longrightarrow>
        0 \<le> pq_compare pq (pq_prio pq ((k - 1) div 2)) (pq_prio pq i))"

definition pq_ordered_below :: "nat \<Rightarrow> 'v pqueue \<Rightarrow> bool" where
  "pq_ordered_below k pq \<longleftrightarrow> (\<forall>i < pq_size pq. 0 < i \<longrightarrow> (i - 1) div 2 = k \<longrightarrow> pq_edge pq i)"

lemma pq_ordered_split:
  assumes "pq_ordered_but k pq" "pq_ordered_below k pq" "pq_edge pq k"
  shows "pq_ordered pq"
  unfolding pq_ordered_def
proof (intro allI impI)
  fix i assume "i < pq_size pq"
  with assms show "pq_edge pq i"
    by (cases "i = 0"; cases "i = k"; cases "(i - 1) div 2 = k")
       (auto simp: pq_ordered_but_def pq_ordered_below_def pq_edge_def)
qed

lemma pq_child_index: "0 < i \<Longrightarrow> (i - 1) div 2 = k \<longleftrightarrow> i = 2 * k + 1 \<or> i = 2 * k + 2" for i k :: nat
  by (cases i) auto

lemma pq_bounds_swap [simp]: "pq_bounds (pq_swap pq i j) = pq_bounds pq"
  by (simp add: pq_bounds_def)

lemma pq_bounds_length: "pq_bounds pq \<Longrightarrow> i < pq_size pq \<Longrightarrow> i < length (pq_heap pq)"
  by (simp add: pq_bounds_def)

lemma pq_prio_swap:
  assumes "pq_bounds pq" "i < pq_size pq" "j < pq_size pq" "k < pq_size pq"
  shows "pq_prio (pq_swap pq i j) k =
    (if k = j then pq_prio pq i else if k = i then pq_prio pq j else pq_prio pq k)"
  using assms by (simp add: pq_heap_swap nth_swap_cells pq_bounds_length)

lemma pq_contents_swap:
  assumes "pq_bounds pq" "i < pq_size pq" "j < pq_size pq"
  shows "pq_contents (pq_swap pq i j) = pq_contents pq"
  using assms by (simp add: pq_heap_swap pq_contents_def mset_take_swap_cells pq_bounds_def)

text \<open>The sift loops permute the used cells and change no other field, whatever the
  comparison function is.\<close>

lemma pq_sift_up_frame:
  "pq_size (pq_sift_up pq idx) = pq_size pq"
  "pq_capacity (pq_sift_up pq idx) = pq_capacity pq"
  "pq_compare (pq_sift_up pq idx) = pq_compare pq"
  "length (pq_heap (pq_sift_up pq idx)) = length (pq_heap pq)"
proof (induction pq idx rule: pq_sift_up.induct)
  case (1 pq idx)
  { case 1 show ?case using "1.IH"(1) by (subst pq_sift_up.simps) (simp add: Let_def) }
  { case 2 show ?case using "1.IH"(2) by (subst pq_sift_up.simps) (simp add: Let_def) }
  { case 3 show ?case using "1.IH"(3) by (subst pq_sift_up.simps) (simp add: Let_def) }
  { case 4 show ?case using "1.IH"(4) by (subst pq_sift_up.simps) (simp add: Let_def) }
qed

lemma pq_sift_down_frame:
  "pq_size (pq_sift_down pq idx) = pq_size pq"
  "pq_capacity (pq_sift_down pq idx) = pq_capacity pq"
  "pq_compare (pq_sift_down pq idx) = pq_compare pq"
  "length (pq_heap (pq_sift_down pq idx)) = length (pq_heap pq)"
proof (induction pq idx rule: pq_sift_down.induct)
  case (1 pq idx)
  { case 1 show ?case using "1.IH"(1) by (subst pq_sift_down.simps) (simp add: Let_def) }
  { case 2 show ?case using "1.IH"(2) by (subst pq_sift_down.simps) (simp add: Let_def) }
  { case 3 show ?case using "1.IH"(3) by (subst pq_sift_down.simps) (simp add: Let_def) }
  { case 4 show ?case using "1.IH"(4) by (subst pq_sift_down.simps) (simp add: Let_def) }
qed

lemmas pq_sift_frame [simp, frame_simps] = pq_sift_up_frame pq_sift_down_frame

lemma pq_bounds_sift [simp]:
  "pq_bounds (pq_sift_up pq idx) = pq_bounds pq"
  "pq_bounds (pq_sift_down pq idx) = pq_bounds pq"
  by (simp_all add: pq_bounds_def)

lemma pq_contents_sift_up:
  "pq_bounds pq \<Longrightarrow> idx < pq_size pq \<Longrightarrow> pq_contents (pq_sift_up pq idx) = pq_contents pq"
proof (induction pq idx rule: pq_sift_up.induct)
  case (1 pq idx)
  show ?case using "1.IH" "1.prems"
    by (subst pq_sift_up.simps) (auto simp: Let_def pq_contents_swap)
qed

lemma pq_contents_sift_down:
  "pq_bounds pq \<Longrightarrow> idx < pq_size pq \<Longrightarrow> pq_contents (pq_sift_down pq idx) = pq_contents pq"
proof (induction pq idx rule: pq_sift_down.induct)
  case (1 pq idx)
  show ?case using "1.IH" "1.prems" pq_largest_cases [of pq idx]
    by (subst pq_sift_down.simps) (auto simp: Let_def pq_contents_swap)
qed

section \<open>What the code relies on of a comparison function\<close>

locale pq_order =
  fixes cmp :: "u64 \<Rightarrow> u64 \<Rightarrow> int"
  assumes cmp_flip: "0 < cmp a b \<longleftrightarrow> cmp b a < 0"
    and cmp_trans: "0 \<le> cmp a b \<Longrightarrow> 0 \<le> cmp b c \<Longrightarrow> 0 \<le> cmp a c"
begin

lemma cmp_total: "0 \<le> cmp a b \<or> 0 \<le> cmp b a"
  using cmp_flip [of a b] cmp_flip [of b a] by linarith

lemma cmp_refl: "0 \<le> cmp a a"
  using cmp_total by blast

lemma cmp_not_pos: "\<not> 0 < cmp a b \<Longrightarrow> 0 \<le> cmp b a"
  using cmp_flip by force

text \<open>One step of the upward loop moves the fault from \<open>idx\<close> to its parent.\<close>

lemma swap_up_step:
  assumes c: "pq_compare pq = cmp" and b: "pq_bounds pq" and i: "0 < idx" "idx < pq_size pq"
    and but: "pq_ordered_but idx pq" and below: "pq_ordered_below idx pq"
    and viol: "\<not> 0 \<le> cmp (pq_prio pq ((idx - 1) div 2)) (pq_prio pq idx)"
  defines "p \<equiv> (idx - 1) div 2"
  shows "pq_ordered_but p (pq_swap pq p idx) \<and> pq_ordered_below p (pq_swap pq p idx)"
proof -
  let ?q = "pq_swap pq p idx" and ?n = "pq_size pq" and ?g = "pq_prio pq"
  have p: "p < idx" "p < ?n" using i by (auto simp: p_def)
  have up: "0 \<le> cmp (?g idx) (?g p)"
    using viol cmp_total unfolding p_def by blast
  have g: "pq_prio ?q k = (if k = idx then ?g p else if k = p then ?g idx else ?g k)" if "k < ?n" for k
    using pq_prio_swap [OF b p(2) i(2) that] by auto
  have edge: "0 \<le> cmp (?g ((k - 1) div 2)) (?g k)"
    if "k < ?n" "0 < k" "k \<noteq> idx" "(k - 1) div 2 \<noteq> idx" for k
    using but that c by (auto simp: pq_ordered_but_def pq_edge_def)
  have gp: "0 \<le> cmp (?g p) (?g k)" if "k < ?n" "0 < k" "(k - 1) div 2 = idx" for k
    using but that c i by (auto simp: pq_ordered_but_def p_def)
  have down: "0 \<le> cmp (?g idx) (?g k)" if "k < ?n" "0 < k" "(k - 1) div 2 = idx" for k
    using below that c by (auto simp: pq_ordered_below_def pq_edge_def)
  have sib: "0 \<le> cmp (?g p) (?g k)" if "k < ?n" "0 < k" "(k - 1) div 2 = p" "k \<noteq> idx" for k
    using edge [of k] that p by auto
  have par: "(k - 1) div 2 < ?n" if "k < ?n" for k :: nat using that by linarith
  have edge': "pq_edge ?q k" if "k < ?n" "k \<noteq> p" "(k - 1) div 2 \<noteq> p" for k
  proof (cases "0 < k \<and> (k - 1) div 2 = idx")
    case True
    with that show ?thesis using gp [of k] p i(2) by (auto simp: pq_edge_def g c)
  next
    case False
    moreover have "k \<noteq> idx" using that p_def by auto
    ultimately show ?thesis using that edge [of k] par [of k] by (auto simp: pq_edge_def g c)
  qed
  have gp': "0 \<le> cmp (pq_prio ?q ((p - 1) div 2)) (pq_prio ?q k)"
    if "k < ?n" "0 < k" "0 < p" "(k - 1) div 2 = p" for k
  proof -
    have e: "0 \<le> cmp (?g ((p - 1) div 2)) (?g p)" using edge [of p] p that by auto
    have ne: "(p - 1) div 2 \<noteq> p" "(p - 1) div 2 \<noteq> idx" "(p - 1) div 2 < ?n" using that p by auto
    show ?thesis
    proof (cases "k = idx")
      case True then show ?thesis using e ne that p by (simp add: g)
    next
      case False
      with that sib cmp_trans [OF e] have "0 \<le> cmp (?g ((p - 1) div 2)) (?g k)" by blast
      with False ne that show ?thesis by (auto simp: g)
    qed
  qed
  have below': "pq_edge ?q k" if "k < ?n" "0 < k" "(k - 1) div 2 = p" for k
    using that p up sib [of k] cmp_trans [OF up, of "?g k"] by (auto simp: pq_edge_def g c)
  show ?thesis
    using edge' gp' below' by (auto simp: pq_ordered_but_def pq_ordered_below_def c)
qed

lemma sift_up_ordered:
  "pq_compare pq = cmp \<Longrightarrow> pq_bounds pq \<Longrightarrow> idx < pq_size pq \<Longrightarrow>
   pq_ordered_but idx pq \<Longrightarrow> pq_ordered_below idx pq \<Longrightarrow> pq_ordered (pq_sift_up pq idx)"
proof (induction pq idx rule: pq_sift_up.induct)
  case (1 pq idx)
  let ?p = "(idx - 1) div 2"
  show ?case
  proof (cases "0 < idx \<and> \<not> 0 \<le> cmp (pq_prio pq ?p) (pq_prio pq idx)")
    case True
    with "1.prems" swap_up_step [of pq idx]
    have "pq_ordered (pq_sift_up (pq_swap pq ?p idx) ?p)"
      by (intro "1.IH") auto
    with True "1.prems" show ?thesis by (subst pq_sift_up.simps) (simp add: Let_def)
  next
    case False
    with "1.prems" have "pq_edge pq idx" by (auto simp: pq_edge_def)
    with "1.prems" have "pq_ordered pq" by (intro pq_ordered_split)
    with False "1.prems" show ?thesis by (subst pq_sift_up.simps) (auto simp: Let_def)
  qed
qed

text \<open>One step of the downward loop moves the fault from \<open>idx\<close> to the chosen child.\<close>

lemma largest_dominates:
  assumes c: "pq_compare pq = cmp"
    and k: "k < pq_size pq" "0 < k" "(k - 1) div 2 = idx"
  shows "0 \<le> cmp (pq_prio pq (pq_largest pq idx)) (pq_prio pq k)"
proof -
  have k: "k < pq_size pq" "k = 2 * idx + 1 \<or> k = 2 * idx + 2"
    using k pq_child_index [of k idx] by auto
  let ?g = "pq_prio pq"
  from k(2) show ?thesis
  proof
    assume l: "k = 2 * idx + 1"
    let ?l = "if 0 < cmp (?g k) (?g idx) then k else idx"
    have d: "0 \<le> cmp (?g ?l) (?g k)"
      using cmp_refl cmp_not_pos by simp
    have "pq_largest pq idx = ?l \<or>
        pq_largest pq idx = 2 * idx + 2 \<and> 0 < cmp (?g (pq_largest pq idx)) (?g ?l)"
      using k(1) l by (simp add: pq_largest_def Let_def c)
    then show ?thesis
      using d cmp_trans [OF _ d] by fastforce
  next
    assume "k = 2 * idx + 2"
    then show ?thesis
      using k(1) by (auto simp: pq_largest_def Let_def c intro: cmp_refl cmp_not_pos)
  qed
qed

lemma largest_improves:
  assumes c: "pq_compare pq = cmp" and l: "pq_largest pq idx \<noteq> idx"
  shows "0 \<le> cmp (pq_prio pq (pq_largest pq idx)) (pq_prio pq idx)"
  using l cmp_trans [of "pq_prio pq (2 * idx + 2)" "pq_prio pq (2 * idx + 1)" "pq_prio pq idx"]
  by (auto simp: pq_largest_def Let_def c split: if_splits)

lemma swap_down_step:
  assumes c: "pq_compare pq = cmp" and b: "pq_bounds pq" and i: "idx < pq_size pq"
    and but: "pq_ordered_but idx pq" and e: "pq_edge pq idx"
    and l: "pq_largest pq idx \<noteq> idx"
  defines "m \<equiv> pq_largest pq idx"
  shows "pq_ordered_but m (pq_swap pq idx m) \<and> pq_edge (pq_swap pq idx m) m"
proof -
  let ?q = "pq_swap pq idx m" and ?n = "pq_size pq" and ?g = "pq_prio pq"
  have m: "m < ?n" "idx < m" "0 < m" "(m - 1) div 2 = idx"
    using pq_largest_cases [of pq idx] l by (auto simp: m_def)
  have g: "pq_prio ?q k = (if k = m then ?g idx else if k = idx then ?g m else ?g k)" if "k < ?n" for k
    using pq_prio_swap [OF b i m(1) that] by auto
  have par: "(k - 1) div 2 < ?n" if "k < ?n" for k :: nat using that by linarith
  have edge: "0 \<le> cmp (?g ((k - 1) div 2)) (?g k)"
    if "k < ?n" "0 < k" "k \<noteq> idx" "(k - 1) div 2 \<noteq> idx" for k
    using but that c by (auto simp: pq_ordered_but_def pq_edge_def)
  have gp: "0 \<le> cmp (?g ((idx - 1) div 2)) (?g m)" if "0 < idx"
    using but that c m by (auto simp: pq_ordered_but_def)
  have dom: "0 \<le> cmp (?g m) (?g k)" if "k < ?n" "0 < k" "(k - 1) div 2 = idx" for k
    unfolding m_def using that by (rule largest_dominates [OF c])
  have edge': "pq_edge ?q k" if "k < ?n" "k \<noteq> m" "(k - 1) div 2 \<noteq> m" for k
  proof -
    consider "k = 0" | "0 < k" "k = idx" | "0 < k" "k \<noteq> idx" "(k - 1) div 2 = idx"
      | "0 < k" "k \<noteq> idx" "(k - 1) div 2 \<noteq> idx" by blast
    then show ?thesis
      using that gp dom [of k] edge [of k] par [of k] i by cases (auto simp: pq_edge_def g c)
  qed
  have gp': "0 \<le> cmp (pq_prio ?q ((m - 1) div 2)) (pq_prio ?q k)"
    if "k < ?n" "0 < k" "(k - 1) div 2 = m" for k
    using that edge [of k] m i by (auto simp: g)
  have "pq_edge ?q m"
    using largest_improves [OF c l] m i by (auto simp: pq_edge_def g c m_def [symmetric])
  with edge' gp' show ?thesis by (auto simp: pq_ordered_but_def c)
qed

lemma sift_down_ordered:
  "pq_compare pq = cmp \<Longrightarrow> pq_bounds pq \<Longrightarrow> idx < pq_size pq \<Longrightarrow>
   pq_ordered_but idx pq \<Longrightarrow> pq_edge pq idx \<Longrightarrow> pq_ordered (pq_sift_down pq idx)"
proof (induction pq idx rule: pq_sift_down.induct)
  case (1 pq idx)
  let ?m = "pq_largest pq idx"
  show ?case
  proof (cases "?m = idx")
    case True
    have "pq_ordered_below idx pq"
      using largest_dominates [OF "1.prems"(1), of _ idx] True "1.prems"(1)
      by (auto simp: pq_ordered_below_def pq_edge_def)
    with "1.prems" have "pq_ordered pq" by (intro pq_ordered_split)
    with True show ?thesis by (subst pq_sift_down.simps) simp
  next
    case False
    with pq_largest_cases [of pq idx] have "?m < pq_size pq" by auto
    with False "1.prems" swap_down_step [of pq idx]
    have "pq_ordered (pq_sift_down (pq_swap pq idx ?m) ?m)"
      by (intro "1.IH") auto
    with False show ?thesis by (subst pq_sift_down.simps) (simp add: Let_def)
  qed
qed

text \<open>The root leaves first.\<close>

lemma root_first:
  assumes c: "pq_compare pq = cmp" and o: "pq_ordered pq"
  shows "i < pq_size pq \<Longrightarrow> 0 \<le> cmp (pq_prio pq 0) (pq_prio pq i)"
proof (induction i rule: less_induct)
  case (less i)
  show ?case
  proof (cases "i = 0")
    case True then show ?thesis by (simp add: cmp_refl)
  next
    case False
    then have "0 \<le> cmp (pq_prio pq 0) (pq_prio pq ((i - 1) div 2))"
      using less by (intro less.IH) linarith+
    moreover have "0 \<le> cmp (pq_prio pq ((i - 1) div 2)) (pq_prio pq i)"
      using o less.prems False c by (auto simp: pq_ordered_def pq_edge_def)
    ultimately show ?thesis by (rule cmp_trans)
  qed
qed

lemma sift_up_id:
  assumes c: "pq_compare pq = cmp" and "pq_edge pq idx"
  shows "pq_sift_up pq idx = pq"
  using assms by (subst pq_sift_up.simps) (auto simp: pq_edge_def Let_def)

text \<open>Where the element at \<open>idx\<close> beats its parent it beats its children, so the downward loop
  stops at once.\<close>

lemma sift_down_id:
  assumes c: "pq_compare pq = cmp" and but: "pq_ordered_but idx pq" and e: "\<not> pq_edge pq idx"
  shows "pq_sift_down pq idx = pq"
proof -
  let ?g = "pq_prio pq" and ?p = "(idx - 1) div 2"
  have i: "0 < idx" and v: "\<not> 0 \<le> cmp (?g ?p) (?g idx)"
    using e c by (auto simp: pq_edge_def)
  then have u: "0 \<le> cmp (?g idx) (?g ?p)" using cmp_total by blast
  have dom: "\<not> 0 < cmp (?g k) (?g idx)"
    if "k < pq_size pq" "k = 2 * idx + 1 \<or> k = 2 * idx + 2" for k
  proof -
    have "0 \<le> cmp (?g ?p) (?g k)" using but that i c by (auto simp: pq_ordered_but_def)
    then have "0 \<le> cmp (?g idx) (?g k)" by (rule cmp_trans [OF u])
    then show ?thesis using cmp_flip by force
  qed
  then have "pq_largest pq idx = idx" by (auto simp: pq_largest_def Let_def c)
  then show ?thesis by (subst pq_sift_down.simps) simp
qed

lemma heapify_ordered:
  assumes c: "pq_compare pq = cmp" and b: "pq_bounds pq" and i: "idx < pq_size pq"
    and but: "pq_ordered_but idx pq"
  shows "pq_ordered (pq_sift_up (pq_sift_down pq idx) idx)"
proof (cases "pq_edge pq idx")
  case True
  with assms have o: "pq_ordered (pq_sift_down pq idx)" by (intro sift_down_ordered)
  then have "pq_edge (pq_sift_down pq idx) idx" using i by (simp add: pq_ordered_def)
  with o show ?thesis using c by (simp add: sift_up_id)
next
  case False
  have "pq_ordered_below idx pq"
  proof -
    have u: "0 \<le> cmp (pq_prio pq idx) (pq_prio pq ((idx - 1) div 2))" and z: "0 < idx"
      using False c cmp_total by (auto simp: pq_edge_def)
    then show ?thesis
      using but cmp_trans [OF u] c by (auto simp: pq_ordered_but_def pq_ordered_below_def pq_edge_def)
  qed
  with assms False show ?thesis by (simp add: sift_down_id sift_up_ordered)
qed

text \<open>The operations on a well-formed queue.\<close>

lemma push_wf:
  assumes c: "pq_compare pq = cmp" and w: "pq_wf pq" and r: "pq_size pq < pq_capacity pq"
  shows "\<exists>pq'. SNEPPX_pq_push (Some pq) p d = (0, Some pq') \<and> pq_wf pq' \<and>
     pq_compare pq' = cmp \<and> pq_capacity pq' = pq_capacity pq \<and>
     pq_contents pq' = add_mset \<lparr>pqe_priority = p, pqe_data = d\<rparr> (pq_contents pq)"
proof -
  let ?n = "pq_size pq" and ?x = "\<lparr>pqe_priority = p, pqe_data = d\<rparr>"
  let ?q = "pq\<lparr>pq_heap := (pq_heap pq)[?n := ?x], pq_size := ?n + 1\<rparr>"
  have b: "pq_bounds ?q" and l: "?n < length (pq_heap pq)"
    using w r by (auto simp: pq_wf_def pq_bounds_def)
  have "pq_edge ?q i" if "i < ?n" for i
    using that w by (cases "i = 0") (auto simp: pq_wf_def pq_ordered_def pq_edge_def nth_list_update)
  then have "pq_ordered_but ?n ?q" "pq_ordered_below ?n ?q"
    by (auto simp: pq_ordered_but_def pq_ordered_below_def less_Suc_eq)
  with c b have "pq_ordered (pq_sift_up ?q ?n)" by (intro sift_up_ordered) auto
  moreover have "pq_contents ?q = add_mset ?x (pq_contents pq)"
    using l by (simp add: pq_contents_def mset_take_Suc)
  ultimately show ?thesis
    using b c r by (auto simp: SNEPPX_pq_push_def Let_def pq_wf_def pq_contents_sift_up)
qed

lemma pop_wf:
  assumes c: "pq_compare pq = cmp" and w: "pq_wf pq" and r: "0 < pq_size pq"
  shows "\<exists>p d pq'. SNEPPX_pq_pop (Some pq) = (0, Some (p, d), Some pq') \<and> pq_wf pq' \<and>
     pq_compare pq' = cmp \<and> pq_capacity pq' = pq_capacity pq \<and>
     pq_contents pq = add_mset \<lparr>pqe_priority = p, pqe_data = d\<rparr> (pq_contents pq') \<and>
     (\<forall>e \<in># pq_contents pq. 0 \<le> cmp p (pqe_priority e))"
proof -
  obtain n where n: "pq_size pq = Suc n" using r by (cases "pq_size pq") auto
  let ?h = "pq_heap pq" and ?x = "pq_heap pq ! 0"
  let ?q = "pq\<lparr>pq_heap := ?h[0 := ?h ! n], pq_size := n\<rparr>"
  let ?r = "if n > 0 then pq_sift_down ?q 0 else ?q"
  have b: "pq_bounds ?q" and l: "n < length ?h"
    using w n by (auto simp: pq_wf_def pq_bounds_def)
  have "pq_edge ?q i" if "i < n" "(i - 1) div 2 \<noteq> 0" for i
    using that w n by (auto simp: pq_wf_def pq_ordered_def pq_edge_def nth_list_update)
  then have "pq_ordered_but 0 ?q" "pq_edge ?q 0"
    by (auto simp: pq_ordered_but_def pq_edge_def)
  with c b have o: "pq_ordered ?r"
    using sift_down_ordered [of ?q 0] by (auto simp: pq_ordered_def)
  have "mset (take (Suc n) ?h) = add_mset ?x (mset (take n (?h[0 := ?h ! n])))"
  proof (cases n)
    case 0 with l show ?thesis by (cases ?h) auto
  next
    case (Suc m)
    with l obtain a xs where h: "?h = a # xs" "m < length xs" by (cases ?h) auto
    with Suc show ?thesis by (simp add: mset_take_Suc take_Suc_conv_app_nth)
  qed
  moreover have "pq_contents ?r = pq_contents ?q"
    using b by (simp add: pq_contents_sift_down)
  ultimately have cont: "pq_contents pq = add_mset ?x (pq_contents ?r)"
    using n by (simp add: pq_contents_def)
  have first: "0 \<le> cmp (pqe_priority ?x) (pqe_priority e)" if "e \<in># pq_contents pq" for e
  proof -
    from that obtain i where "i < pq_size pq" "e = ?h ! i"
      by (auto simp: pq_contents_def in_set_conv_nth)
    then show ?thesis using root_first [OF c, of i] w by (simp add: pq_wf_def)
  qed
  have "SNEPPX_pq_pop (Some pq) = (0, Some (pqe_priority ?x, pqe_data ?x), Some ?r)"
    using n by (simp add: SNEPPX_pq_pop_def Let_def)
  with o b c cont first show ?thesis
    by (auto simp: pq_wf_def)
qed

end

interpretation pq_min: pq_order pq_default_compare
  by unfold_locales (auto simp: pq_default_compare_def split: if_splits)

lemma pq_default_compare_ge: "0 \<le> pq_default_compare a b \<longleftrightarrow> a \<le> b"
  by (auto simp: pq_default_compare_def)

section \<open>The abstract contract\<close>

text \<open>
  A bounded priority queue over elements ranked by \<open>rank\<close>, seen as a multiset. The client
  lemma: taking elements out until the queue is empty returns all of them, in rank order.
\<close>

locale priority_queue =
  fixes wf :: "'q \<Rightarrow> bool"
    and contents :: "'q \<Rightarrow> 'e multiset"
    and capacity :: "'q \<Rightarrow> nat"
    and rank :: "'e \<Rightarrow> 'r :: linorder"
    and push :: "'e \<Rightarrow> 'q \<Rightarrow> 'q option"
    and pop :: "'q \<Rightarrow> ('e \<times> 'q) option"
  assumes push_full: "wf q \<Longrightarrow> size (contents q) \<ge> capacity q \<Longrightarrow> push e q = None"
    and push_room: "wf q \<Longrightarrow> size (contents q) < capacity q \<Longrightarrow>
      \<exists>q'. push e q = Some q' \<and> wf q' \<and> capacity q' = capacity q \<and>
           contents q' = add_mset e (contents q)"
    and pop_empty: "wf q \<Longrightarrow> contents q = {#} \<Longrightarrow> pop q = None"
    and pop_first: "wf q \<Longrightarrow> contents q \<noteq> {#} \<Longrightarrow>
      \<exists>e q'. pop q = Some (e, q') \<and> wf q' \<and> capacity q' = capacity q \<and>
             contents q = add_mset e (contents q') \<and> (\<forall>f \<in># contents q. rank e \<le> rank f)"
begin

fun drain :: "nat \<Rightarrow> 'q \<Rightarrow> 'e list" where
  "drain 0 q = []"
| "drain (Suc n) q = (case pop q of None \<Rightarrow> [] | Some (e, q') \<Rightarrow> e # drain n q')"

lemma drain_all:
  "wf q \<Longrightarrow> size (contents q) \<le> n \<Longrightarrow> mset (drain n q) = contents q \<and> sorted (map rank (drain n q))"
proof (induction n arbitrary: q)
  case 0
  then show ?case by simp
next
  case (Suc n)
  show ?case
  proof (cases "contents q = {#}")
    case True
    with Suc.prems show ?thesis by (simp add: pop_empty)
  next
    case False
    with Suc.prems pop_first obtain e q' where
      pop: "pop q = Some (e, q')" "wf q'" "contents q = add_mset e (contents q')"
      and first: "\<forall>f \<in># contents q. rank e \<le> rank f" by blast
    with Suc have IH: "mset (drain n q') = contents q'" "sorted (map rank (drain n q'))" by auto
    then have "set (drain n q') \<subseteq> set_mset (contents q)" using pop by (metis set_mset_mset subset_insertI set_mset_add_mset_insert)
    with pop IH first show ?thesis by auto
  qed
qed

fun push_all :: "'e list \<Rightarrow> 'q \<Rightarrow> 'q option" where
  "push_all [] q = Some q"
| "push_all (e # es) q = (case push e q of None \<Rightarrow> None | Some q' \<Rightarrow> push_all es q')"

lemma push_all_room:
  "wf q \<Longrightarrow> size (contents q) + length es \<le> capacity q \<Longrightarrow>
   \<exists>q'. push_all es q = Some q' \<and> wf q' \<and> contents q' = mset es + contents q"
proof (induction es arbitrary: q)
  case Nil
  then show ?case by simp
next
  case (Cons e es)
  then obtain q' where "push e q = Some q'" "wf q'" "capacity q' = capacity q"
    "contents q' = add_mset e (contents q)"
    using push_room [of q e] by auto
  with Cons.IH [of q'] Cons.prems show ?case by auto
qed

end

definition pq_ready :: "'v pqueue \<Rightarrow> bool" where
  "pq_ready pq \<longleftrightarrow> pq_wf pq \<and> pq_compare pq = pq_default_compare"

definition pq_push_elem :: "'v pq_elem \<Rightarrow> 'v pqueue \<Rightarrow> 'v pqueue option" where
  "pq_push_elem e pq =
     (case SNEPPX_pq_push (Some pq) (pqe_priority e) (pqe_data e) of
        (r, pq') \<Rightarrow> if r = 0 then pq' else None)"

definition pq_pop_elem :: "'v pqueue \<Rightarrow> ('v pq_elem \<times> 'v pqueue) option" where
  "pq_pop_elem pq =
     (case SNEPPX_pq_pop (Some pq) of
        (r, Some (p, d), Some pq') \<Rightarrow> Some (\<lparr>pqe_priority = p, pqe_data = d\<rparr>, pq')
      | _ \<Rightarrow> None)"

lemma size_pq_contents: "pq_bounds pq \<Longrightarrow> size (pq_contents pq) = pq_size pq"
  by (simp add: pq_contents_def pq_bounds_def)

interpretation pq: priority_queue pq_ready pq_contents pq_capacity pqe_priority pq_push_elem pq_pop_elem
proof (unfold_locales, goal_cases)
  case (1 q e)
  then show ?case
    by (auto simp: pq_ready_def pq_wf_def size_pq_contents pq_push_elem_def SNEPPX_pq_push_def)
next
  case (2 q e)
  then show ?case
    using pq_min.push_wf [of q "pqe_priority e" "pqe_data e"]
    by (auto simp: pq_ready_def pq_wf_def size_pq_contents pq_push_elem_def)
next
  case (3 q)
  then have "pq_size q = 0" by (metis pq_ready_def pq_wf_def size_empty size_pq_contents)
  then show ?case by (simp add: pq_pop_elem_def SNEPPX_pq_pop_def)
next
  case (4 q)
  then have "0 < pq_size q"
    by (metis gr0I pq_ready_def pq_wf_def size_eq_0_iff_empty size_pq_contents)
  with 4 show ?case
    using pq_min.pop_wf [of q] by (auto simp: pq_ready_def pq_pop_elem_def pq_default_compare_ge)
qed

section \<open>Properties\<close>

text \<open>Two client loops: push a list of elements, stopping at the first failure; pop until the
  queue reports that it is empty.\<close>

fun pq_push_list :: "'v pq_elem list \<Rightarrow> 'v pqueue \<Rightarrow> 'v pqueue option" where
  "pq_push_list [] pq = Some pq"
| "pq_push_list (e # es) pq =
     (case pq_push_elem e pq of None \<Rightarrow> None | Some pq' \<Rightarrow> pq_push_list es pq')"

fun pq_pop_list :: "nat \<Rightarrow> 'v pqueue \<Rightarrow> 'v pq_elem list" where
  "pq_pop_list 0 pq = []"
| "pq_pop_list (Suc n) pq =
     (case pq_pop_elem pq of None \<Rightarrow> [] | Some (e, pq') \<Rightarrow> e # pq_pop_list n pq')"

lemma pq_push_list_eq: "pq_push_list es pq = pq.push_all es pq"
  by (induction es arbitrary: pq) (auto split: option.splits)

lemma pq_pop_list_eq: "pq_pop_list n pq = pq.drain n pq"
  by (induction n arbitrary: pq) (auto split: option.splits)

lemma pq_create_ready:
  assumes "SNEPPX_pq_create ok cap = Some pq" "cap < 2 ^ 60"
  shows "pq_ready pq \<and> pq_contents pq = {#} \<and> pq_capacity pq = (if cap = 0 then 16 else cap)"
  using assms
  by (auto simp: SNEPPX_pq_create_def pq_cells_def Let_def pq_ready_def pq_wf_def pq_bounds_def pq_ordered_def
      pq_contents_def split: if_splits)


definition pq_sample :: "nat pqueue" where
  "pq_sample = the (SNEPPX_pq_create (\<lambda>_. True) 4)"


text \<open>Restoring the order after a change of one priority: if the only edges of the heap out
  of order touch cell \<open>idx\<close>, then \<open>SNEPPX_pq_heapify\<close> at \<open>idx\<close> yields a well-formed queue
  with the same contents, size and capacity.\<close>

theorem pq_heapify_restores:
  assumes "pq_compare pq = pq_default_compare" and "pq_bounds pq" and "idx < pq_size pq"
    and "pq_ordered_but idx pq"
  shows "\<exists>pq'. SNEPPX_pq_heapify (Some pq) idx = Some pq' \<and> pq_wf pq' \<and>
     pq_contents pq' = pq_contents pq \<and> pq_size pq' = pq_size pq \<and>
     pq_capacity pq' = pq_capacity pq"
  using assms pq_min.heapify_ordered [OF assms]
  by (simp add: SNEPPX_pq_heapify_def Let_def pq_wf_def pq_contents_sift_up pq_contents_sift_down)

definition pq_changed :: "nat pqueue" where
  "pq_changed = \<lparr>pq_heap = map (\<lambda>p. \<lparr>pqe_priority = p, pqe_data = None\<rparr>) [1, 9, 3, 4, 5],
                 pq_capacity = 5, pq_size = 5, pq_compare = pq_default_compare\<rparr>"

theorem pq_heapify_restores_witness:
  "\<not> pq_wf pq_changed \<and>
   (\<exists>pq'. SNEPPX_pq_heapify (Some pq_changed) 1 = Some pq' \<and> pq_wf pq' \<and> pq_size pq' = 5)"
proof -
  have b: "pq_bounds pq_changed" and c: "pq_compare pq_changed = pq_default_compare"
    and s: "1 < pq_size pq_changed" "pq_size pq_changed = 5"
    by (simp_all add: pq_changed_def pq_bounds_def)
  have lt5: "(\<forall>i < 5. P i) \<longleftrightarrow> P 0 \<and> P 1 \<and> P 2 \<and> P 3 \<and> P (4 :: nat)" for P
    by (simp add: numeral_eq_Suc less_Suc_eq all_conj_distrib)
  have "pq_ordered_but 1 pq_changed"
    unfolding pq_ordered_but_def s lt5
    by (simp add: pq_changed_def pq_edge_def pq_default_compare_def)
  moreover have "\<not> pq_wf pq_changed"
    unfolding pq_wf_def pq_ordered_def s lt5
    by (simp add: pq_edge_def pq_changed_def pq_default_compare_def)
  ultimately show ?thesis
    using pq_heapify_restores [OF c b s(1)] s(2) by auto
qed

end
