(* ===== verification/Npe_Tensor.thy ===== *)
theory Npe_Tensor
  imports Prelude
begin

text \<open>
  The tensors of the neural VM and its kernels, the static functions at the head of
  \<open>algorithms/npe/core/vm.c\<close>.

  A tensor is its shape and its cells in row-major order; \<open>nt_size\<close> is the product of the
  shape, which is what \<open>npe_tensor_create\<close> stores in \<open>size\<close>. All tensors here are
  \<open>SNEPPX_FLOAT32\<close> on the CPU. The arithmetic of \<open>float\<close> is a parameter of every kernel (the record
  \<open>fops\<close>): no theorem assumes a law of it, so each holds for the IEEE operations of the
  platform. A kernel takes the outcomes of its allocations and returns a fault, or
  \<open>Inr None\<close> for \<open>NULL\<close>, or \<open>Inr (Some t)\<close>.
\<close>

section \<open>Floats and tensors\<close>

record 'f fops =
  f_zero :: 'f
  f_add :: "'f \<Rightarrow> 'f \<Rightarrow> 'f"
  f_sub :: "'f \<Rightarrow> 'f \<Rightarrow> 'f"
  f_mul :: "'f \<Rightarrow> 'f \<Rightarrow> 'f"
  f_div :: "'f \<Rightarrow> 'f \<Rightarrow> 'f"
  f_neg :: "'f \<Rightarrow> 'f"
  f_gt :: "'f \<Rightarrow> 'f \<Rightarrow> bool"
  f_ge :: "'f \<Rightarrow> 'f \<Rightarrow> bool"
  f_eq :: "'f \<Rightarrow> 'f \<Rightarrow> bool"
  f_exp :: "'f \<Rightarrow> 'f"
  f_log :: "'f \<Rightarrow> 'f"
  f_sqrt :: "'f \<Rightarrow> 'f"
  f_sin :: "'f \<Rightarrow> 'f"
  f_cos :: "'f \<Rightarrow> 'f"
  f_tanh :: "'f \<Rightarrow> 'f"
  f_pow :: "'f \<Rightarrow> 'f \<Rightarrow> 'f"
  f_of_size :: "nat \<Rightarrow> 'f" \<comment> \<open>\<open>(float)n\<close>\<close>
  f_to_size :: "'f \<Rightarrow> nat" \<comment> \<open>\<open>(size_t)x\<close>\<close>
  f_lit :: "int \<Rightarrow> int \<Rightarrow> 'f" \<comment> \<open>\<open>f_lit m e\<close>: the literal \<open>m * 10 ^ e\<close>\<close>
  f_of_bits :: "u32 \<Rightarrow> 'f" \<comment> \<open>\<open>*(float*)&imm\<close>\<close>

record 'f npe_tensor =
  nt_shape :: "nat list"
  nt_data :: "'f list"

definition nt_size :: "'f npe_tensor \<Rightarrow> nat" where
  "nt_size t = prod_list (nt_shape t)"

abbreviation nt_ndim :: "'f npe_tensor \<Rightarrow> nat" where
  "nt_ndim t \<equiv> length (nt_shape t)"

definition nt_wf :: "'f npe_tensor \<Rightarrow> bool" where
  "nt_wf t \<longleftrightarrow> length (nt_data t) = nt_size t"

text \<open>Reading \<open>t->shape[i]\<close>: the array has \<open>max 1 ndim\<close> cells, zero-filled.\<close>

definition nt_dim :: "'f npe_tensor \<Rightarrow> nat \<Rightarrow> nat run" where
  "nt_dim t i = (if i < nt_ndim t then Inr (nt_shape t ! i)
                else if i = 0 then Inr 0 else Inl Out_Of_Bounds)"

definition npe_tensor_create :: "bool \<Rightarrow> 'f fops \<Rightarrow> nat list \<Rightarrow> 'f npe_tensor option" where
  "npe_tensor_create ok F shape =
     (if ok then Some \<lparr>nt_shape = shape, nt_data = replicate (prod_list shape) (f_zero F)\<rparr> else None)"

text \<open>Create a tensor of the given shape and write the cells \<open>0, 1, \<dots>\<close> in order, one for each
  index of the loop nest \<open>ixs\<close>.\<close>

definition tensor_build ::
  "bool \<Rightarrow> 'f fops \<Rightarrow> nat list \<Rightarrow> ('i \<Rightarrow> 'f run) \<Rightarrow> 'i list \<Rightarrow> 'f npe_tensor option run" where
  "tensor_build ok F shape cell ixs =
     (case npe_tensor_create ok F shape of
        None \<Rightarrow> Inr None
      | Some c \<Rightarrow>
          if length ixs > nt_size c then Inl Out_Of_Bounds
          else bind_run (map_run cell ixs) (\<lambda>vs.
            Inr (Some (c\<lparr>nt_data := vs @ drop (length ixs) (nt_data c)\<rparr>))))"

definition pairs :: "nat \<Rightarrow> nat \<Rightarrow> (nat \<times> nat) list" where
  "pairs m n = concat (map (\<lambda>i. map (\<lambda>j. (i, j)) [0..<n]) [0..<m])"

section \<open>Kernels\<close>

text \<open>The common body of \<open>tensor_add\<close>, \<open>tensor_mul\<close>, \<open>tensor_sub\<close> and \<open>tensor_div\<close>: equal sizes
  cell by cell, or a row vector \<open>b\<close> combined with each row of a matrix \<open>a\<close>.\<close>

definition tensor_zip ::
  "('f \<Rightarrow> 'f \<Rightarrow> 'f) \<Rightarrow> bool \<Rightarrow> 'f fops \<Rightarrow> 'f npe_tensor \<Rightarrow> 'f npe_tensor \<Rightarrow> 'f npe_tensor option run" where
  "tensor_zip g ok F a b =
     (if nt_size a = nt_size b then
        tensor_build ok F (nt_shape a)
          (\<lambda>i. bind_run (load_cell (nt_data a) i) (\<lambda>x.
               bind_run (load_cell (nt_data b) i) (\<lambda>y. Inr (g x y)))) [0..<nt_size a]
      else if nt_ndim b = 1 \<and> nt_ndim a = 2 \<and> nt_shape a ! 1 = nt_shape b ! 0 then
        tensor_build ok F (nt_shape a)
          (\<lambda>(i, j). bind_run (load_cell (nt_data a) (i * nt_shape a ! 1 + j)) (\<lambda>x.
               bind_run (load_cell (nt_data b) j) (\<lambda>y. Inr (g x y))))
          (pairs (nt_shape a ! 0) (nt_shape a ! 1))
      else Inr None)"

definition tensor_add :: "bool \<Rightarrow> 'f fops \<Rightarrow> 'f npe_tensor \<Rightarrow> 'f npe_tensor \<Rightarrow> 'f npe_tensor option run" where
  "tensor_add ok F a b = tensor_zip (f_add F) ok F a b"

definition tensor_mul :: "bool \<Rightarrow> 'f fops \<Rightarrow> 'f npe_tensor \<Rightarrow> 'f npe_tensor \<Rightarrow> 'f npe_tensor option run" where
  "tensor_mul ok F a b = tensor_zip (f_mul F) ok F a b"

definition tensor_sub :: "bool \<Rightarrow> 'f fops \<Rightarrow> 'f npe_tensor \<Rightarrow> 'f npe_tensor \<Rightarrow> 'f npe_tensor option run" where
  "tensor_sub ok F a b = tensor_zip (f_sub F) ok F a b"

definition tensor_div :: "bool \<Rightarrow> 'f fops \<Rightarrow> 'f npe_tensor \<Rightarrow> 'f npe_tensor \<Rightarrow> 'f npe_tensor option run" where
  "tensor_div ok F a b =
     tensor_zip (\<lambda>x y. if \<not> f_eq F y (f_zero F) then f_div F x y else f_zero F) ok F a b"

definition tensor_matmul :: "bool \<Rightarrow> 'f fops \<Rightarrow> 'f npe_tensor \<Rightarrow> 'f npe_tensor \<Rightarrow> 'f npe_tensor option run" where
  "tensor_matmul ok F a b =
     bind_run (nt_dim a 0) (\<lambda>m. bind_run (nt_dim a 1) (\<lambda>k. bind_run (nt_dim b 1) (\<lambda>n.
       tensor_build ok F [m, n]
         (\<lambda>(i, j). fold_run (\<lambda>l acc.
             bind_run (load_cell (nt_data a) (i * k + l)) (\<lambda>x.
             bind_run (load_cell (nt_data b) (l * n + j)) (\<lambda>y.
               Inr (f_add F acc (f_mul F x y))))) [0..<k] (f_zero F))
         (pairs m n))))"

text \<open>The cell-by-cell kernels.\<close>

definition tensor_map1 ::
  "('f \<Rightarrow> 'f) \<Rightarrow> bool \<Rightarrow> 'f fops \<Rightarrow> 'f npe_tensor \<Rightarrow> 'f npe_tensor option run" where
  "tensor_map1 g ok F a =
     tensor_build ok F (nt_shape a) (\<lambda>i. bind_run (load_cell (nt_data a) i) (\<lambda>x. Inr (g x))) [0..<nt_size a]"

definition tensor_relu :: "bool \<Rightarrow> 'f fops \<Rightarrow> 'f npe_tensor \<Rightarrow> 'f npe_tensor option run" where
  "tensor_relu ok F = tensor_map1 (\<lambda>x. if f_gt F x (f_zero F) then x else f_zero F) ok F"

definition tensor_exp :: "bool \<Rightarrow> 'f fops \<Rightarrow> 'f npe_tensor \<Rightarrow> 'f npe_tensor option run" where
  "tensor_exp ok F = tensor_map1 (f_exp F) ok F"

definition tensor_log :: "bool \<Rightarrow> 'f fops \<Rightarrow> 'f npe_tensor \<Rightarrow> 'f npe_tensor option run" where
  "tensor_log ok F =
     tensor_map1 (\<lambda>x. if f_gt F x (f_zero F) then f_log F x else f_neg F (f_lit F 1 10)) ok F"

definition tensor_sqrt :: "bool \<Rightarrow> 'f fops \<Rightarrow> 'f npe_tensor \<Rightarrow> 'f npe_tensor option run" where
  "tensor_sqrt ok F = tensor_map1 (\<lambda>x. if f_ge F x (f_zero F) then f_sqrt F x else f_zero F) ok F"

definition tensor_pow :: "'f \<Rightarrow> bool \<Rightarrow> 'f fops \<Rightarrow> 'f npe_tensor \<Rightarrow> 'f npe_tensor option run" where
  "tensor_pow e ok F = tensor_map1 (\<lambda>x. f_pow F x e) ok F"

definition tensor_sin :: "bool \<Rightarrow> 'f fops \<Rightarrow> 'f npe_tensor \<Rightarrow> 'f npe_tensor option run" where
  "tensor_sin ok F = tensor_map1 (f_sin F) ok F"

definition tensor_cos :: "bool \<Rightarrow> 'f fops \<Rightarrow> 'f npe_tensor \<Rightarrow> 'f npe_tensor option run" where
  "tensor_cos ok F = tensor_map1 (f_cos F) ok F"

definition tensor_tanh :: "bool \<Rightarrow> 'f fops \<Rightarrow> 'f npe_tensor \<Rightarrow> 'f npe_tensor option run" where
  "tensor_tanh ok F = tensor_map1 (f_tanh F) ok F"

definition tensor_sigmoid :: "bool \<Rightarrow> 'f fops \<Rightarrow> 'f npe_tensor \<Rightarrow> 'f npe_tensor option run" where
  "tensor_sigmoid ok F =
     tensor_map1 (\<lambda>x. f_div F (f_lit F 1 0) (f_add F (f_lit F 1 0) (f_exp F (f_neg F x)))) ok F"

definition tensor_gelu :: "bool \<Rightarrow> 'f fops \<Rightarrow> 'f npe_tensor \<Rightarrow> 'f npe_tensor option run" where
  "tensor_gelu ok F =
     tensor_map1 (\<lambda>x.
       f_mul F (f_mul F (f_lit F 5 (- 1)) x)
         (f_add F (f_lit F 1 0)
           (f_tanh F (f_mul F (f_lit F 7978845608 (- 10))
             (f_add F x (f_mul F (f_mul F (f_mul F (f_lit F 44715 (- 6)) x) x) x)))))) ok F"

definition tensor_silu :: "bool \<Rightarrow> 'f fops \<Rightarrow> 'f npe_tensor \<Rightarrow> 'f npe_tensor option run" where
  "tensor_silu ok F =
     tensor_map1 (\<lambda>x. f_div F x (f_add F (f_lit F 1 0) (f_exp F (f_neg F x)))) ok F"

definition tensor_dropout :: "'f \<Rightarrow> bool \<Rightarrow> 'f fops \<Rightarrow> 'f npe_tensor \<Rightarrow> 'f npe_tensor option run" where
  "tensor_dropout rate ok F = tensor_map1 (\<lambda>x. x) ok F"

text \<open>The row-wise kernels. \<open>row_major g\<close> applies \<open>g\<close> to each row of the last dimension.\<close>

definition tensor_rows ::
  "('f list \<Rightarrow> 'f list run) \<Rightarrow> bool \<Rightarrow> 'f fops \<Rightarrow> 'f npe_tensor \<Rightarrow> 'f npe_tensor option run" where
  "tensor_rows g ok F a =
     (if nt_ndim a = 0 then Inl Out_Of_Bounds else
      let last_dim = nt_shape a ! (nt_ndim a - 1) in
      if last_dim = 0 then Inl Zero_Divide else
      let outer = nt_size a div last_dim in
      case npe_tensor_create ok F (nt_shape a) of
        None \<Rightarrow> Inr None
      | Some c \<Rightarrow>
          bind_run (map_run (\<lambda>ro.
              bind_run (map_run (\<lambda>i. load_cell (nt_data a) (ro * last_dim + i)) [0..<last_dim]) g)
            [0..<outer]) (\<lambda>rows.
          Inr (Some (c\<lparr>nt_data := concat rows @ drop (outer * last_dim) (nt_data c)\<rparr>))))"

definition softmax_row :: "'f fops \<Rightarrow> 'f list \<Rightarrow> 'f list run" where
  "softmax_row F row =
     bind_run (load_cell row 0) (\<lambda>r0.
       let maxv = fold (\<lambda>x m. if f_gt F x m then x else m) (tl row) r0;
           crow = map (\<lambda>x. f_exp F (f_sub F x maxv)) row;
           s = fold (\<lambda>x s. f_add F s x) crow (f_zero F)
       in Inr (map (\<lambda>x. f_div F x s) crow))"

definition tensor_softmax :: "bool \<Rightarrow> 'f fops \<Rightarrow> 'f npe_tensor \<Rightarrow> 'f npe_tensor option run" where
  "tensor_softmax ok F = tensor_rows (softmax_row F) ok F"

definition layernorm_row :: "'f fops \<Rightarrow> 'f list \<Rightarrow> 'f list run" where
  "layernorm_row F row =
     (let n = f_of_size F (length row);
          mean = f_div F (fold (\<lambda>x s. f_add F s x) row (f_zero F)) n;
          var = f_div F (fold (\<lambda>x s. let d = f_sub F x mean in f_add F s (f_mul F d d)) row (f_zero F)) n;
          std = f_sqrt F (f_add F var (f_lit F 1 (- 5)))
      in Inr (map (\<lambda>x. f_div F (f_sub F x mean) std) row))"

definition tensor_layernorm :: "bool \<Rightarrow> 'f fops \<Rightarrow> 'f npe_tensor \<Rightarrow> 'f npe_tensor option run" where
  "tensor_layernorm ok F = tensor_rows (layernorm_row F) ok F"

text \<open>A kernel result is used only where it is not \<open>NULL\<close>.\<close>

definition then_tensor ::
  "'f npe_tensor option run \<Rightarrow> ('f npe_tensor \<Rightarrow> 'f npe_tensor option run) \<Rightarrow> 'f npe_tensor option run" where
  "then_tensor m f = bind_run m (\<lambda>r. case r of None \<Rightarrow> Inr None | Some t \<Rightarrow> f t)"

definition tensor_attention ::
  "alloc_outcome \<Rightarrow> 'f fops \<Rightarrow> 'f npe_tensor \<Rightarrow> 'f npe_tensor \<Rightarrow> 'f npe_tensor \<Rightarrow> 'f npe_tensor option run" where
  "tensor_attention ok F q k v =
     bind_run (nt_dim q 0) (\<lambda>seq. bind_run (nt_dim q 1) (\<lambda>dim.
       let kt = \<lparr>nt_shape = [dim, seq], nt_data = nt_data k\<rparr> in
       then_tensor (tensor_matmul (ok 0) F q kt) (\<lambda>scores.
         let scale = f_sqrt F (f_of_size F dim);
             scores = scores\<lparr>nt_data := map (\<lambda>x. f_div F x scale) (nt_data scores)\<rparr>
         in then_tensor (tensor_softmax (ok 1) F scores) (\<lambda>attn. tensor_matmul (ok 2) F attn v))))"

definition tensor_conv2d :: "bool \<Rightarrow> 'f fops \<Rightarrow> 'f npe_tensor \<Rightarrow> 'f npe_tensor \<Rightarrow> 'f npe_tensor option run" where
  "tensor_conv2d ok F input kern =
     bind_run (nt_dim input 0) (\<lambda>ic. bind_run (nt_dim input 1) (\<lambda>ih. bind_run (nt_dim input 2) (\<lambda>iw.
     bind_run (nt_dim kern 0) (\<lambda>oc. bind_run (nt_dim kern 1) (\<lambda>kh. bind_run (nt_dim kern 2) (\<lambda>kw.
     let oh = (size_sub ih kh + 1) mod 2 ^ 64; ow = (size_sub iw kw + 1) mod 2 ^ 64 in
     tensor_build ok F [oc, oh, ow]
       (\<lambda>(ro, h, w). fold_run (\<lambda>i acc.
          bind_run (fold_run (\<lambda>(khh, kww) s.
              bind_run (load_cell (nt_data input) (i * ih * iw + (h + khh) * iw + (w + kww))) (\<lambda>x.
              bind_run (load_cell (nt_data kern) (ro * ic * kh * kw + i * kh * kw + khh * kw + kww)) (\<lambda>y.
                Inr (f_add F s (f_mul F x y))))) (pairs kh kw) (f_zero F))
            (\<lambda>s. Inr (f_add F acc s))) [0..<ic] (f_zero F))
       (concat (map (\<lambda>ro. map (Pair ro) (pairs oh ow)) [0..<oc]))))))))"

definition tensor_pool2d ::
  "nat \<Rightarrow> nat \<Rightarrow> bool \<Rightarrow> 'f fops \<Rightarrow> 'f npe_tensor \<Rightarrow> 'f npe_tensor option run" where
  "tensor_pool2d pool_h pool_w ok F a =
     bind_run (nt_dim a 0) (\<lambda>c. bind_run (nt_dim a 1) (\<lambda>h. bind_run (nt_dim a 2) (\<lambda>w.
     if pool_h = 0 \<or> pool_w = 0 then Inl Zero_Divide else
     let oh = h div pool_h; ow = w div pool_w in
     tensor_build ok F [c, oh, ow]
       (\<lambda>(ch, ph, pw). fold_run (\<lambda>(kh, kw) mx.
            bind_run (load_cell (nt_data a) (ch * h * w + (ph * pool_h + kh) * w + (pw * pool_w + kw))) (\<lambda>v.
              Inr (if f_gt F v mx then v else mx))) (pairs pool_h pool_w) (f_neg F (f_lit F 1 10)))
       (concat (map (\<lambda>ch. map (Pair ch) (pairs oh ow)) [0..<c])))))"

definition batchnorm_stats :: "'f fops \<Rightarrow> 'f npe_tensor \<Rightarrow> nat \<Rightarrow> nat \<Rightarrow> nat \<Rightarrow> ('f \<times> 'f) run" where
  "batchnorm_stats F a c n ch =
     bind_run (fold_run (\<lambda>i (sum, sq).
         bind_run (load_cell (nt_data a) (i * c + ch)) (\<lambda>v.
           Inr (f_add F sum v, f_add F sq (f_mul F v v)))) [0..<n] (f_zero F, f_zero F))
       (\<lambda>(sum, sq).
         let mean = f_div F sum (f_of_size F n);
             var = f_sub F (f_div F sq (f_of_size F n)) (f_mul F mean mean)
         in Inr (mean, f_sqrt F (f_add F var (f_lit F 1 (- 5)))))"

definition tensor_batchnorm ::
  "bool \<Rightarrow> 'f fops \<Rightarrow> 'f npe_tensor \<Rightarrow> 'f npe_tensor \<Rightarrow> 'f npe_tensor \<Rightarrow> 'f npe_tensor option run" where
  "tensor_batchnorm ok F a gamma beta =
     bind_run (nt_dim a 1) (\<lambda>c.
     let n = (if c = 0 then 0 else nt_size a div c) in
     tensor_build ok F (nt_shape a)
       (\<lambda>(i, ch). bind_run (batchnorm_stats F a c n ch) (\<lambda>(mean, std).
          bind_run (load_cell (nt_data gamma) ch) (\<lambda>g.
          bind_run (load_cell (nt_data a) (i * c + ch)) (\<lambda>x.
          bind_run (load_cell (nt_data beta) ch) (\<lambda>b.
            Inr (f_add F (f_div F (f_mul F g (f_sub F x mean)) std) b))))))
       (pairs n c))"

definition tensor_embedding :: "bool \<Rightarrow> 'f fops \<Rightarrow> 'f npe_tensor \<Rightarrow> 'f npe_tensor \<Rightarrow> 'f npe_tensor option run" where
  "tensor_embedding ok F indices weights =
     (let n = nt_size indices in
      bind_run (nt_dim weights 1) (\<lambda>d.
      tensor_build ok F [n, d]
        (\<lambda>(i, j). bind_run (load_cell (nt_data indices) i) (\<lambda>x.
           load_cell (nt_data weights) (f_to_size F x * d + j)))
        (pairs n d)))"

text \<open>The two losses store a scalar in a tensor of no dimensions.\<close>

definition tensor_crossentropy :: "bool \<Rightarrow> 'f fops \<Rightarrow> 'f npe_tensor \<Rightarrow> 'f npe_tensor \<Rightarrow> 'f npe_tensor option run" where
  "tensor_crossentropy ok F pred target =
     bind_run (nt_dim pred 0) (\<lambda>n. bind_run (nt_dim pred 1) (\<lambda>c.
     tensor_build ok F []
       (\<lambda>_. bind_run (fold_run (\<lambda>i ld.
            bind_run (load_cell (nt_data target) i) (\<lambda>t.
            bind_run (load_cell (nt_data pred) (i * c + f_to_size F t)) (\<lambda>p.
              let p = (if f_gt F (f_lit F 1 (- 7)) p then f_lit F 1 (- 7) else p)
              in Inr (f_sub F ld (f_log F p))))) [0..<n] (f_zero F))
          (\<lambda>ld. Inr (f_div F ld (f_of_size F n)))) [()]))"

definition tensor_mse :: "bool \<Rightarrow> 'f fops \<Rightarrow> 'f npe_tensor \<Rightarrow> 'f npe_tensor \<Rightarrow> 'f npe_tensor option run" where
  "tensor_mse ok F pred target =
     tensor_build ok F []
       (\<lambda>_. bind_run (fold_run (\<lambda>i ld.
            bind_run (load_cell (nt_data pred) i) (\<lambda>x.
            bind_run (load_cell (nt_data target) i) (\<lambda>y.
              let d = f_sub F x y in Inr (f_add F ld (f_mul F d d))))) [0..<nt_size pred] (f_zero F))
          (\<lambda>ld. Inr (f_div F ld (f_of_size F (nt_size pred))))) [()]"

text \<open>\<open>tensor_concat\<close> and \<open>tensor_split_half\<close> copy the shape into a stack array of one cell: with
  more than one dimension they write past it.\<close>

definition tensor_concat ::
  "int \<Rightarrow> bool \<Rightarrow> 'f fops \<Rightarrow> 'f npe_tensor \<Rightarrow> 'f npe_tensor \<Rightarrow> 'f npe_tensor option run" where
  "tensor_concat axis ok F a b =
     bind_run (nt_dim a 0) (\<lambda>a0. bind_run (nt_dim b 0) (\<lambda>b0.
     if nt_ndim a > 1 then Inl Out_Of_Bounds else
     tensor_build ok F (if nt_ndim a = 0 then [] else [a0 + b0])
       (\<lambda>(t, i). load_cell (nt_data t) i)
       (map (Pair a) [0..<nt_size a] @ map (Pair b) [0..<nt_size b])))"

definition tensor_split_half :: "bool \<Rightarrow> 'f fops \<Rightarrow> 'f npe_tensor \<Rightarrow> 'f npe_tensor option run" where
  "tensor_split_half ok F a =
     bind_run (nt_dim a 0) (\<lambda>a0.
     if nt_ndim a > 1 then Inl Out_Of_Bounds else
     tensor_build ok F (if nt_ndim a = 0 then [] else [a0 div 2])
       (\<lambda>i. load_cell (nt_data a) i) [0..<a0 div 2])"

section \<open>Kernels produce well-formed tensors\<close>

text \<open>\<open>yields_wf m\<close>: whatever tensor the computation returns has as many cells as its shape says.\<close>

definition yields_wf :: "'f npe_tensor option run \<Rightarrow> bool" where
  "yields_wf m \<longleftrightarrow> (\<forall>t. m = Inr (Some t) \<longrightarrow> nt_wf t)"

named_theorems kernel_wf \<open>kernels yield well-formed tensors\<close>

lemma tensor_create_wf: "npe_tensor_create ok F shape = Some t \<Longrightarrow> nt_wf t \<and> nt_shape t = shape"
  by (auto simp: npe_tensor_create_def nt_wf_def nt_size_def split: if_splits)

lemma tensor_build_Some:
  "tensor_build ok F shape cell ixs = Inr (Some t) \<Longrightarrow> nt_wf t \<and> nt_shape t = shape"
  by (auto simp: tensor_build_def npe_tensor_create_def nt_wf_def nt_size_def
      dest!: map_run_length split: if_splits)

lemma tensor_build_wf [kernel_wf]: "yields_wf (tensor_build ok F shape cell ixs)"
  by (simp add: yields_wf_def tensor_build_Some)

lemma yields_wf_bind [kernel_wf]: "(\<And>x. yields_wf (f x)) \<Longrightarrow> yields_wf (bind_run m f)"
  by (auto simp: yields_wf_def)

lemma yields_wf_then [kernel_wf]: "(\<And>t. yields_wf (f t)) \<Longrightarrow> yields_wf (then_tensor m f)"
  by (auto simp: yields_wf_def then_tensor_def split: option.splits)

lemma yields_wf_None [kernel_wf]: "yields_wf (Inr None)" "yields_wf (Inl e)"
  by (simp_all add: yields_wf_def)

lemma yields_wf_if [kernel_wf]: "yields_wf a \<Longrightarrow> yields_wf b \<Longrightarrow> yields_wf (if c then a else b)"
  by simp

lemma yields_wf_Let [kernel_wf]: "(\<And>x. yields_wf (f x)) \<Longrightarrow> yields_wf (let x = a in f x)"
  by simp

lemma concat_rows_length:
  "map_run f xs = Inr rows \<Longrightarrow> (\<And>x r. f x = Inr r \<Longrightarrow> length r = n) \<Longrightarrow>
   length (concat rows) = length xs * n"
  by (induction xs arbitrary: rows) auto

lemma tensor_rows_wf:
  assumes g: "\<And>row r. g row = Inr r \<Longrightarrow> length r = length row"
  shows "yields_wf (tensor_rows g ok F a)"
  unfolding yields_wf_def
proof (intro allI impI)
  fix t assume "tensor_rows g ok F a = Inr (Some t)"
  then obtain c rows where
    c: "npe_tensor_create ok F (nt_shape a) = Some c" and
    rows: "map_run (\<lambda>ro. bind_run (map_run (\<lambda>i. load_cell (nt_data a)
        (ro * nt_shape a ! (nt_ndim a - 1) + i)) [0..<nt_shape a ! (nt_ndim a - 1)]) g)
      [0..<nt_size a div nt_shape a ! (nt_ndim a - 1)] = Inr rows" and
    t: "t = c\<lparr>nt_data := concat rows @
       drop (nt_size a div nt_shape a ! (nt_ndim a - 1) * nt_shape a ! (nt_ndim a - 1)) (nt_data c)\<rparr>"
    by (auto simp: tensor_rows_def Let_def split: if_splits option.splits)
  let ?l = "nt_shape a ! (nt_ndim a - 1)"
  have "length (concat rows) = nt_size a div ?l * ?l"
  proof (subst concat_rows_length [OF rows, of ?l])
    fix ro r
    assume "bind_run (map_run (\<lambda>i. load_cell (nt_data a) (ro * ?l + i)) [0..<?l]) g = Inr r"
    then obtain row where "map_run (\<lambda>i. load_cell (nt_data a) (ro * ?l + i)) [0..<?l] = Inr row" "g row = Inr r"
      by (rule bind_run_InrE)
    from map_run_length [OF this(1)] g [OF this(2)] show "length r = ?l" by simp
  qed simp
  moreover have "nt_size a div ?l * ?l \<le> nt_size a" by simp
  ultimately show "nt_wf t"
    using c by (auto simp: t nt_wf_def nt_size_def npe_tensor_create_def split: if_splits)
qed

lemma softmax_wf [kernel_wf]: "yields_wf (tensor_softmax ok F a)"
  unfolding tensor_softmax_def
  by (rule tensor_rows_wf) (auto simp: softmax_row_def Let_def)

lemma layernorm_wf [kernel_wf]: "yields_wf (tensor_layernorm ok F a)"
  unfolding tensor_layernorm_def
  by (rule tensor_rows_wf) (auto simp: layernorm_row_def Let_def)

lemmas kernel_defs =
  tensor_add_def tensor_mul_def tensor_sub_def tensor_div_def tensor_zip_def tensor_matmul_def
  tensor_map1_def tensor_relu_def tensor_exp_def tensor_log_def tensor_sqrt_def tensor_pow_def
  tensor_sin_def tensor_cos_def tensor_tanh_def tensor_sigmoid_def tensor_gelu_def
  tensor_silu_def tensor_dropout_def tensor_conv2d_def tensor_pool2d_def tensor_batchnorm_def
  tensor_embedding_def tensor_crossentropy_def tensor_mse_def tensor_concat_def
  tensor_split_half_def

lemma matmul_wf [kernel_wf]: "yields_wf (tensor_matmul ok F a b)"
  unfolding kernel_defs by (intro kernel_wf)

lemma attention_wf [kernel_wf]: "yields_wf (tensor_attention ok F q k v)"
  unfolding tensor_attention_def by (intro kernel_wf)

lemma kernels_wf [kernel_wf]:
  "yields_wf (tensor_add ok F a b)" "yields_wf (tensor_mul ok F a b)"
  "yields_wf (tensor_sub ok F a b)" "yields_wf (tensor_div ok F a b)"
  "yields_wf (tensor_relu ok F a)" "yields_wf (tensor_exp ok F a)" "yields_wf (tensor_log ok F a)"
  "yields_wf (tensor_sqrt ok F a)" "yields_wf (tensor_pow e ok F a)" "yields_wf (tensor_sin ok F a)"
  "yields_wf (tensor_cos ok F a)" "yields_wf (tensor_tanh ok F a)"
  "yields_wf (tensor_sigmoid ok F a)" "yields_wf (tensor_gelu ok F a)"
  "yields_wf (tensor_silu ok F a)" "yields_wf (tensor_dropout e ok F a)"
  "yields_wf (tensor_conv2d ok F a b)" "yields_wf (tensor_pool2d m n ok F a)"
  "yields_wf (tensor_batchnorm ok F a b c)" "yields_wf (tensor_embedding ok F a b)"
  "yields_wf (tensor_crossentropy ok F a b)" "yields_wf (tensor_mse ok F a b)"
  "yields_wf (tensor_concat ax ok F a b)" "yields_wf (tensor_split_half ok F a)"
  unfolding kernel_defs by (intro kernel_wf)+

end
