(* ===== verification/Npe_Program.thy ===== *)
theory Npe_Program
  imports Npe_Tensor
begin

text \<open>
  Programs of the Neural Programming Engine: \<open>neural_programming_engine.h\<close>,
  \<open>algorithms/npe/core/program.c\<close> and the verifier \<open>algorithms/npe/core/verify.c\<close>.

  Register numbers and shapes are C \<open>int\<close>s that are only compared and converted, modelled as
  \<open>int\<close>; the immediate is kept as its 32 bits because the compiler sets flag bits in it
  (\<open>sint\<close> reads it as \<open>int\<close>). A register holds no tensor, a live tensor, or a pointer to a
  tensor that has been destroyed.
\<close>

section \<open>Instructions and programs\<close>

datatype npe_opcode =
    SNEPPX_NOP | SNEPPX_LOAD | SNEPPX_STORE | SNEPPX_ADD | SNEPPX_SUB | SNEPPX_MUL | SNEPPX_DIV | SNEPPX_MATMUL
  | SNEPPX_RELU | SNEPPX_SOFTMAX | SNEPPX_LAYERNORM | SNEPPX_ATTENTION | SNEPPX_BRANCH | SNEPPX_HALT | SNEPPX_NEG
  | SNEPPX_EXP | SNEPPX_LOG | SNEPPX_SQRT | SNEPPX_POW | SNEPPX_SIN | SNEPPX_COS | SNEPPX_TANH | SNEPPX_SIGMOID
  | SNEPPX_GELU | SNEPPX_SILU | SNEPPX_DROPOUT | SNEPPX_CONV2D | SNEPPX_POOL2D | SNEPPX_BATCHNORM | SNEPPX_EMBEDDING
  | SNEPPX_CROSSENTROPY | SNEPPX_MSE | SNEPPX_CONCAT | SNEPPX_SPLIT
  | NPE_OTHER int \<comment> \<open>an \<open>int\<close> that is no enumerator\<close>

fun opcode_number :: "npe_opcode \<Rightarrow> int" where
  "opcode_number SNEPPX_NOP = 0" | "opcode_number SNEPPX_LOAD = 1" | "opcode_number SNEPPX_STORE = 2"
| "opcode_number SNEPPX_ADD = 3" | "opcode_number SNEPPX_SUB = 4" | "opcode_number SNEPPX_MUL = 5"
| "opcode_number SNEPPX_DIV = 6" | "opcode_number SNEPPX_MATMUL = 7" | "opcode_number SNEPPX_RELU = 8"
| "opcode_number SNEPPX_SOFTMAX = 9" | "opcode_number SNEPPX_LAYERNORM = 10"
| "opcode_number SNEPPX_ATTENTION = 11" | "opcode_number SNEPPX_BRANCH = 12"
| "opcode_number SNEPPX_HALT = 13" | "opcode_number SNEPPX_NEG = 14" | "opcode_number SNEPPX_EXP = 15"
| "opcode_number SNEPPX_LOG = 16" | "opcode_number SNEPPX_SQRT = 17" | "opcode_number SNEPPX_POW = 18"
| "opcode_number SNEPPX_SIN = 19" | "opcode_number SNEPPX_COS = 20" | "opcode_number SNEPPX_TANH = 21"
| "opcode_number SNEPPX_SIGMOID = 22" | "opcode_number SNEPPX_GELU = 23"
| "opcode_number SNEPPX_SILU = 24" | "opcode_number SNEPPX_DROPOUT = 25"
| "opcode_number SNEPPX_CONV2D = 26" | "opcode_number SNEPPX_POOL2D = 27"
| "opcode_number SNEPPX_BATCHNORM = 28" | "opcode_number SNEPPX_EMBEDDING = 29"
| "opcode_number SNEPPX_CROSSENTROPY = 30" | "opcode_number SNEPPX_MSE = 31"
| "opcode_number SNEPPX_CONCAT = 32" | "opcode_number SNEPPX_SPLIT = 33"
| "opcode_number (NPE_OTHER n) = n"

record npe_inst =
  opcode :: npe_opcode
  dest_reg :: int
  src_reg_a :: int
  src_reg_b :: int
  immediate :: u32
  shape_a :: "int \<times> int"
  shape_b :: "int \<times> int"

text \<open>The instruction that \<open>memset(&inst, 0, \<dots>)\<close> leaves.\<close>

definition inst_zero :: npe_inst where
  "inst_zero = \<lparr>opcode = SNEPPX_NOP, dest_reg = 0, src_reg_a = 0, src_reg_b = 0, immediate = 0,
                shape_a = (0, 0), shape_b = (0, 0)\<rparr>"

datatype 'f reg = Null | Live "'f npe_tensor" | Dangling

text \<open>\<open>np_instructions\<close> holds the \<open>num_instructions\<close> instructions in use.\<close>

record 'f npe_program =
  np_instructions :: "npe_inst list"
  np_max_instructions :: nat
  np_registers :: "'f reg list"
  np_memory :: "'f npe_tensor option"
  np_pc :: nat

record npe_config =
  max_program_length :: nat
  register_count :: nat
  step_limit :: nat
  verification_mode :: int
  trace_execution :: int
  jit_enabled :: int
  jit_hot_threshold :: nat

definition SNEPPX_npe_config_default :: npe_config where
  "SNEPPX_npe_config_default =
     \<lparr>max_program_length = 256, register_count = 16, step_limit = 1024, verification_mode = 1,
      trace_execution = 1, jit_enabled = 0, jit_hot_threshold = 100\<rparr>"

definition SNEPPX_npe_program_create :: "alloc_outcome \<Rightarrow> 'f fops \<Rightarrow> nat \<Rightarrow> 'f npe_program option" where
  "SNEPPX_npe_program_create ok F max_instructions =
     (if \<not> ok 0 then None
      else if \<not> ok 1 then None
      else Some \<lparr>np_instructions = [], np_max_instructions = max_instructions,
                 np_registers = replicate 16 Null,
                 np_memory = npe_tensor_create (ok 2) F [65536], np_pc = 0\<rparr>)"

definition SNEPPX_npe_program_append :: "'f npe_program \<Rightarrow> npe_inst \<Rightarrow> 'f npe_program" where
  "SNEPPX_npe_program_append prog inst =
     (if length (np_instructions prog) \<ge> np_max_instructions prog then prog
      else prog\<lparr>np_instructions := np_instructions prog @ [inst]\<rparr>)"

definition append_all :: "npe_inst list \<Rightarrow> 'f npe_program \<Rightarrow> 'f npe_program" where
  "append_all insts prog = fold (\<lambda>inst p. SNEPPX_npe_program_append p inst) insts prog"

lemma append_frame [simp, frame_simps]:
  "np_max_instructions (SNEPPX_npe_program_append p i) = np_max_instructions p"
  "np_registers (SNEPPX_npe_program_append p i) = np_registers p"
  "np_memory (SNEPPX_npe_program_append p i) = np_memory p"
  "np_pc (SNEPPX_npe_program_append p i) = np_pc p"
  by (simp_all add: SNEPPX_npe_program_append_def)

lemma append_all_simps [simp]:
  "append_all [] p = p"
  "append_all (i # is) p = append_all is (SNEPPX_npe_program_append p i)"
  by (simp_all add: append_all_def)

lemma append_all_frame [simp, frame_simps]:
  "np_max_instructions (append_all is p) = np_max_instructions p"
  "np_registers (append_all is p) = np_registers p"
  "np_memory (append_all is p) = np_memory p"
  "np_pc (append_all is p) = np_pc p"
  by (induction "is" arbitrary: p) simp_all

text \<open>Appending keeps the first instructions that fit and drops the others silently.\<close>

lemma append_all_instructions:
  "length (np_instructions p) \<le> np_max_instructions p \<Longrightarrow>
   np_instructions (append_all is p) = take (np_max_instructions p) (np_instructions p @ is)"
proof (induction "is" arbitrary: p)
  case (Cons i "is")
  show ?case
  proof (cases "length (np_instructions p) < np_max_instructions p")
    case True
    then show ?thesis using Cons.IH [of "SNEPPX_npe_program_append p i"]
      by (simp add: SNEPPX_npe_program_append_def)
  next
    case False
    with Cons.prems have "length (np_instructions p) = np_max_instructions p" by simp
    then show ?thesis using Cons.IH [of p] by (simp add: SNEPPX_npe_program_append_def)
  qed
qed simp

section \<open>The verifier\<close>

text \<open>
  The verifier returns 1 (pass) or 0 and writes diagnostics. The diagnostics are modelled as
  values, in the order in which the code appends them to its buffer; their rendering as text
  and its truncation to the 4096 bytes of the buffer are not.
\<close>

datatype npe_diag =
    Null_Program
  | Dest_Out_Of_Range nat int
  | Address_Out_Of_Bounds nat int nat
  | Branch_Out_Of_Range nat int
  | Backward_Branch nat
  | No_Instructions
  | No_Final_Halt

definition verify_inst :: "'f npe_program \<Rightarrow> nat \<Rightarrow> npe_inst \<Rightarrow> (npe_diag list \<times> bool) run" where
  "verify_inst prog i inst =
     (let d1 = (if dest_reg inst < - 1 \<or> dest_reg inst \<ge> 16
                then ([Dest_Out_Of_Range i (dest_reg inst)], False) else ([], True)) in
      bind_run
        (if opcode inst = SNEPPX_LOAD \<or> opcode inst = SNEPPX_STORE then
           let addr = sint (immediate inst) in
           if addr < 0 then
             (case np_memory prog of None \<Rightarrow> Inl Null_Deref
              | Some mem \<Rightarrow> Inr ([Address_Out_Of_Bounds i addr (nt_size mem)], False))
           else
             (case np_memory prog of None \<Rightarrow> Inl Null_Deref
              | Some mem \<Rightarrow>
                  if nat addr \<ge> nt_size mem then Inr ([Address_Out_Of_Bounds i addr (nt_size mem)], False)
                  else Inr ([], True))
         else Inr ([], True))
        (\<lambda>d2.
          let target = sint (immediate inst);
              d3 = (if opcode inst = SNEPPX_BRANCH \<and>
                       (target < 0 \<or> nat target \<ge> length (np_instructions prog))
                    then ([Branch_Out_Of_Range i target], False) else ([], True));
              d4 = (if opcode inst = SNEPPX_BRANCH \<and> target \<le> int i
                    then [Backward_Branch i] else [])
          in Inr (fst d1 @ fst d2 @ fst d3 @ d4, snd d1 \<and> snd d2 \<and> snd d3)))"

definition SNEPPX_npe_verify_program :: "'f npe_program option \<Rightarrow> (int \<times> npe_diag list) run" where
  "SNEPPX_npe_verify_program pp =
     (case pp of None \<Rightarrow> Inr (0, [Null_Program])
      | Some prog \<Rightarrow>
          let insts = np_instructions prog; n = length insts in
          bind_run (map_run (\<lambda>i. verify_inst prog i (insts ! i)) [0..<n]) (\<lambda>rs.
            let e1 = (if n = 0 then ([No_Instructions], False) else ([], True));
                e2 = (if n > 0 \<and> opcode (insts ! (n - 1)) \<noteq> SNEPPX_HALT then [No_Final_Halt] else [])
            in Inr (if (\<forall>r \<in> set rs. snd r) \<and> snd e1 then 1 else 0, concat (map fst rs) @ fst e1 @ e2)))"

text \<open>What a passed verification means for one instruction.\<close>

definition inst_verified :: "'f npe_program \<Rightarrow> npe_inst \<Rightarrow> bool" where
  "inst_verified prog inst \<longleftrightarrow>
     - 1 \<le> dest_reg inst \<and> dest_reg inst < 16 \<and>
     (opcode inst \<in> {SNEPPX_LOAD, SNEPPX_STORE} \<longrightarrow>
        (\<exists>mem. np_memory prog = Some mem \<and> 0 \<le> sint (immediate inst) \<and>
               nat (sint (immediate inst)) < nt_size mem)) \<and>
     (opcode inst = SNEPPX_BRANCH \<longrightarrow>
        0 \<le> sint (immediate inst) \<and> nat (sint (immediate inst)) < length (np_instructions prog))"

lemma verify_inst_pass:
  "verify_inst prog i inst = Inr (ds, True) \<Longrightarrow> inst_verified prog inst"
  by (auto simp: verify_inst_def inst_verified_def Let_def not_less not_le
      split: if_splits option.splits)

lemma verify_inst_complete:
  assumes "inst_verified prog inst"
  shows "\<exists>ds. verify_inst prog i inst = Inr (ds, True)"
  using assms by (auto simp: verify_inst_def inst_verified_def Let_def not_less not_le)

lemma map_run_nth:
  "map_run f xs = Inr ys \<Longrightarrow> i < length xs \<Longrightarrow> f (xs ! i) = Inr (ys ! i)"
  by (induction xs arbitrary: ys i) (auto simp: less_Suc_eq_0_disj)

lemma verify_program_iff:
  "(\<exists>ds. SNEPPX_npe_verify_program (Some prog) = Inr (1, ds)) \<longleftrightarrow>
   np_instructions prog \<noteq> [] \<and> (\<forall>inst \<in> set (np_instructions prog). inst_verified prog inst)"
  (is "?L \<longleftrightarrow> ?R")
proof
  let ?n = "length (np_instructions prog)" and ?f = "\<lambda>i. verify_inst prog i (np_instructions prog ! i)"
  {
    assume ?L
    then obtain rs where rs: "map_run ?f [0..<?n] = Inr rs" "\<forall>r \<in> set rs. snd r"
      "np_instructions prog \<noteq> []"
      by (auto simp: SNEPPX_npe_verify_program_def Let_def split: if_splits)
    have "inst_verified prog (np_instructions prog ! i)" if "i < ?n" for i
    proof -
      have i: "i < length [0..<?n]" "[0..<?n] ! i = i" using that by auto
      have "?f i = Inr (rs ! i)" using map_run_nth [OF rs(1) i(1)] unfolding i(2) .
      moreover have "snd (rs ! i)"
        using rs(2) map_run_length [OF rs(1)] that by simp
      ultimately show ?thesis using verify_inst_pass [of prog i] by (metis prod.collapse)
    qed
    with rs(3) show ?R by (auto simp: in_set_conv_nth)
  next
    assume r: ?R
    have "\<exists>ds. ?f i = Inr (ds, True)" if "i < ?n" for i
      using r that by (intro verify_inst_complete) auto
    then obtain g where g: "?f i = Inr (g i, True)" if "i < ?n" for i by metis
    have "map_run ?f [0..<?n] = Inr (map (\<lambda>i. (g i, True)) [0..<?n])"
      by (rule map_run_Inr) (simp add: g)
    with r show ?L by (auto simp: SNEPPX_npe_verify_program_def Let_def)
  }
qed

end
