(* ===== verification/Npe_Jit.thy ===== *)
theory Npe_Jit
  imports Npe_Program
begin

text \<open>
  The program builders and the JIT passes of \<open>algorithms/npe/core/compiler.c\<close> and the pipeline of
  \<open>algorithms/npe/core/jit_pipeline.c\<close>. Each pass reads the instructions of a program and appends
  to a new one, so a pass is a function on instruction lists followed by \<open>append_all\<close>; the
  new program has cleared registers and memory. \<open>(int)n\<close> of a \<open>size_t\<close> keeps the low 32 bits.
\<close>

unbundle bit_operations_syntax

section \<open>Program builders\<close>

definition to_int :: "nat \<Rightarrow> int" where
  "to_int n = sint (of_nat n :: u32)"

definition attention_code :: "nat \<Rightarrow> nat \<Rightarrow> npe_inst list" where
  "attention_code seq_len dim =
     (let sh = (to_int seq_len, to_int dim);
          i1 = inst_zero\<lparr>opcode := SNEPPX_LOAD, dest_reg := 1, immediate := 0, shape_a := sh\<rparr>;
          i2 = i1\<lparr>opcode := SNEPPX_LOAD, dest_reg := 2, immediate := of_nat (seq_len * dim), shape_a := sh\<rparr>;
          i3 = i2\<lparr>opcode := SNEPPX_LOAD, dest_reg := 3, immediate := of_nat (2 * seq_len * dim), shape_a := sh\<rparr>;
          i4 = i3\<lparr>opcode := SNEPPX_MATMUL, dest_reg := 4, src_reg_a := 1, src_reg_b := 2\<rparr>;
          i5 = i4\<lparr>opcode := SNEPPX_SOFTMAX, dest_reg := 5, src_reg_a := 4\<rparr>;
          i6 = i5\<lparr>opcode := SNEPPX_MATMUL, dest_reg := 6, src_reg_a := 5, src_reg_b := 3\<rparr>;
          i7 = i6\<lparr>opcode := SNEPPX_STORE, src_reg_a := 6, immediate := of_nat (3 * seq_len * dim)\<rparr>;
          i8 = i7\<lparr>opcode := SNEPPX_HALT\<rparr>
      in [i1, i2, i3, i4, i5, i6, i7, i8])"

definition SNEPPX_npe_compile_attention ::
  "alloc_outcome \<Rightarrow> 'f fops \<Rightarrow> nat \<Rightarrow> nat \<Rightarrow> 'f npe_program option" where
  "SNEPPX_npe_compile_attention ok F seq_len dim =
     map_option (append_all (attention_code seq_len dim)) (SNEPPX_npe_program_create ok F 32)"

definition mlp_code :: "nat \<Rightarrow> nat \<Rightarrow> npe_inst list" where
  "mlp_code dim hidden_dim =
     [inst_zero\<lparr>opcode := SNEPPX_LOAD, dest_reg := 1, immediate := 0,
        shape_a := (to_int dim, to_int hidden_dim)\<rparr>,
      inst_zero\<lparr>opcode := SNEPPX_LOAD, dest_reg := 2, immediate := of_nat (dim * hidden_dim),
        shape_a := (to_int hidden_dim, 0)\<rparr>,
      inst_zero\<lparr>opcode := SNEPPX_MATMUL, dest_reg := 3, src_reg_a := 0, src_reg_b := 1\<rparr>,
      inst_zero\<lparr>opcode := SNEPPX_ADD, dest_reg := 4, src_reg_a := 3, src_reg_b := 2\<rparr>,
      inst_zero\<lparr>opcode := SNEPPX_RELU, dest_reg := 5, src_reg_a := 4\<rparr>,
      inst_zero\<lparr>opcode := SNEPPX_LOAD, dest_reg := 6,
        immediate := of_nat (hidden_dim * dim + hidden_dim),
        shape_a := (to_int hidden_dim, to_int dim)\<rparr>,
      inst_zero\<lparr>opcode := SNEPPX_LOAD, dest_reg := 7,
        immediate := of_nat (hidden_dim * dim + hidden_dim + dim * hidden_dim),
        shape_a := (to_int dim, 0)\<rparr>,
      inst_zero\<lparr>opcode := SNEPPX_MATMUL, dest_reg := 8, src_reg_a := 5, src_reg_b := 6\<rparr>,
      inst_zero\<lparr>opcode := SNEPPX_ADD, dest_reg := 9, src_reg_a := 8, src_reg_b := 7\<rparr>,
      inst_zero\<lparr>opcode := SNEPPX_STORE, src_reg_a := 9,
        immediate := of_nat (hidden_dim * dim + hidden_dim + dim * hidden_dim + dim)\<rparr>,
      inst_zero\<lparr>opcode := SNEPPX_HALT\<rparr>]"

definition SNEPPX_npe_compile_mlp ::
  "alloc_outcome \<Rightarrow> 'f fops \<Rightarrow> nat \<Rightarrow> nat \<Rightarrow> 'f npe_program option" where
  "SNEPPX_npe_compile_mlp ok F dim hidden_dim =
     map_option (append_all (mlp_code dim hidden_dim)) (SNEPPX_npe_program_create ok F 32)"

section \<open>The execution profile\<close>

record jit_profile =
  op_frequency :: "nat list"
  op_latency :: "nat list"
  total_instructions :: nat
  hot_threshold :: nat
  is_profiling :: bool

definition SNEPPX_npe_jit_profile_create :: "bool \<Rightarrow> nat \<Rightarrow> jit_profile option" where
  "SNEPPX_npe_jit_profile_create ok threshold =
     (if \<not> ok then None
      else Some \<lparr>op_frequency = replicate 32 0, op_latency = replicate 32 0,
                 total_instructions = 0,
                 hot_threshold = (if threshold \<noteq> 0 then threshold else 100),
                 is_profiling = True\<rparr>)"

definition SNEPPX_npe_jit_record ::
  "'f fops \<Rightarrow> jit_profile option \<Rightarrow> npe_opcode \<Rightarrow> 'f \<Rightarrow> jit_profile option" where
  "SNEPPX_npe_jit_record F pp opc latency_us =
     (case pp of None \<Rightarrow> None
      | Some p \<Rightarrow>
          if \<not> is_profiling p then Some p
          else let k = opcode_number opc in
            if k \<ge> 0 \<and> k < 32 then
              Some (p\<lparr>op_frequency := (op_frequency p)[nat k := op_frequency p ! nat k + 1],
                      op_latency := (op_latency p)[nat k := op_latency p ! nat k +
                        f_to_size F (f_mul F latency_us (f_lit F 1000 0))],
                      total_instructions := total_instructions p + 1\<rparr>)
            else Some p)"

section \<open>Passes\<close>

definition flag_relu :: u32 where "flag_relu = 0x80000000"
definition flag_bias :: u32 where "flag_bias = 0x40000000"
definition flag_bias_relu :: u32 where "flag_bias_relu = 0x20000000"

fun jit_compile_insts :: "npe_inst list \<Rightarrow> npe_inst list" where
  "jit_compile_insts [] = []"
| "jit_compile_insts (inst # rest) =
     (if opcode inst = SNEPPX_NOP then jit_compile_insts rest
      else case rest of
        nxt # rest' \<Rightarrow>
          if opcode inst = SNEPPX_MATMUL \<and> opcode nxt = SNEPPX_RELU \<and> src_reg_a nxt = dest_reg inst
          then inst\<lparr>immediate := immediate inst OR flag_relu\<rparr> # jit_compile_insts rest'
          else inst # jit_compile_insts rest
      | [] \<Rightarrow> inst # jit_compile_insts rest)"

text \<open>The most frequent opcode's count: the loop keeps the first maximum.\<close>

definition max_frequency :: "jit_profile \<Rightarrow> nat" where
  "max_frequency p = fold (\<lambda>i m. if op_frequency p ! i > m then op_frequency p ! i else m) [0..<32] 0"

definition SNEPPX_npe_jit_compile ::
  "alloc_outcome \<Rightarrow> 'f fops \<Rightarrow> jit_profile option \<Rightarrow> 'f npe_program option \<Rightarrow> 'f npe_program option" where
  "SNEPPX_npe_jit_compile ok F pp op =
     (case (pp, op) of
        (Some profile, Some original) \<Rightarrow>
          if max_frequency profile < hot_threshold profile then None
          else map_option (append_all (jit_compile_insts (np_instructions original)))
                 (SNEPPX_npe_program_create ok F (np_max_instructions original))
      | _ \<Rightarrow> None)"

definition specialize_shape :: "nat \<Rightarrow> nat \<Rightarrow> int \<times> int \<Rightarrow> int \<times> int" where
  "specialize_shape seq_len dim sh =
     (if fst sh > 0 then to_int seq_len else fst sh, if snd sh > 0 then to_int dim else snd sh)"

definition jit_specialize_insts :: "npe_inst list \<Rightarrow> nat \<Rightarrow> nat \<Rightarrow> nat \<Rightarrow> npe_inst list" where
  "jit_specialize_insts insts batch seq_len dim =
     concat (map (\<lambda>i.
       let inst = insts ! i;
           inst = inst\<lparr>shape_a := specialize_shape seq_len dim (shape_a inst),
                       shape_b := specialize_shape seq_len dim (shape_b inst)\<rparr>
       in if opcode inst = SNEPPX_BRANCH \<and> sint (immediate inst) < 0 then
            let body_start = nat ((int i + sint (immediate inst)) mod 2 ^ 64); body_end = i
            in concat (replicate batch (map (\<lambda>j. insts ! j) [body_start..<body_end]))
          else [inst]) [0..<length insts])"

definition SNEPPX_npe_jit_specialize ::
  "alloc_outcome \<Rightarrow> 'f fops \<Rightarrow> 'f npe_program option \<Rightarrow> nat \<Rightarrow> nat \<Rightarrow> nat \<Rightarrow> 'f npe_program option" where
  "SNEPPX_npe_jit_specialize ok F op batch seq_len dim =
     (case op of None \<Rightarrow> None
      | Some prog \<Rightarrow>
          map_option (append_all (jit_specialize_insts (np_instructions prog) batch seq_len dim))
            (SNEPPX_npe_program_create ok F (np_max_instructions prog)))"

text \<open>\<open>inst.immediate = (inst.immediate & ~0xFF) | (next.src_reg_b & 0xFF)\<close>\<close>

definition with_bias_reg :: "u32 \<Rightarrow> int \<Rightarrow> u32" where
  "with_bias_reg imm r = (imm AND NOT 0xFF) OR (word_of_int r AND 0xFF)"

definition is_op :: "npe_opcode \<Rightarrow> npe_inst \<Rightarrow> int \<Rightarrow> bool" where
  "is_op opc inst src \<longleftrightarrow> opcode inst = opc \<and> src_reg_a inst = src"

function jit_fuse_insts :: "npe_inst list \<Rightarrow> npe_inst list" where
  "jit_fuse_insts [] = []"
| "jit_fuse_insts (inst # rest) =
     (if opcode inst = SNEPPX_MATMUL \<and> length rest \<ge> 2 \<and> is_op SNEPPX_ADD (rest ! 0) (dest_reg inst) \<and>
         is_op SNEPPX_RELU (rest ! 1) (dest_reg (rest ! 0))
      then inst\<lparr>immediate := with_bias_reg (immediate inst OR flag_bias_relu) (src_reg_b (rest ! 0))\<rparr>
             # jit_fuse_insts (drop 2 rest)
      else if opcode inst = SNEPPX_MATMUL \<and> length rest \<ge> 1 \<and> is_op SNEPPX_RELU (rest ! 0) (dest_reg inst)
      then inst\<lparr>immediate := immediate inst OR flag_relu\<rparr> # jit_fuse_insts (drop 1 rest)
      else if opcode inst = SNEPPX_ADD \<and> length rest \<ge> 1 \<and> is_op SNEPPX_RELU (rest ! 0) (dest_reg inst)
      then inst\<lparr>immediate := immediate inst OR flag_relu\<rparr> # jit_fuse_insts (drop 1 rest)
      else if opcode inst = SNEPPX_MATMUL \<and> length rest \<ge> 1 \<and> is_op SNEPPX_ADD (rest ! 0) (dest_reg inst)
      then inst\<lparr>immediate := with_bias_reg (immediate inst OR flag_bias) (src_reg_b (rest ! 0))\<rparr>
             # jit_fuse_insts (drop 1 rest)
      else inst # jit_fuse_insts rest)"
  by pat_completeness auto
termination
  by (relation "measure length") auto

definition SNEPPX_npe_jit_fuse ::
  "alloc_outcome \<Rightarrow> 'f fops \<Rightarrow> 'f npe_program option \<Rightarrow> 'f npe_program option" where
  "SNEPPX_npe_jit_fuse ok F op =
     (case op of None \<Rightarrow> None
      | Some prog \<Rightarrow>
          map_option (append_all (jit_fuse_insts (np_instructions prog)))
            (SNEPPX_npe_program_create ok F (np_max_instructions prog)))"

text \<open>
  Constant folding tracks for each register whether its first cell is known. The C arrays
  \<open>reg_const\<close> and \<open>reg_value\<close> of 16 cells are indexed by register numbers without a range check:
  other numbers are out of bounds. The two arrays are one list of optional values.
\<close>

definition reg_index :: "int \<Rightarrow> nat run" where
  "reg_index r = (if 0 \<le> r \<and> r < 16 then Inr (nat r) else Inl Out_Of_Bounds)"

definition get_const :: "'f option list \<Rightarrow> int \<Rightarrow> 'f option run" where
  "get_const cs r = bind_run (reg_index r) (\<lambda>i. Inr (cs ! i))"

definition set_const :: "'f option list \<Rightarrow> int \<Rightarrow> 'f option \<Rightarrow> 'f option list run" where
  "set_const cs r v = bind_run (reg_index r) (\<lambda>i. Inr (cs[i := v]))"

text \<open>The last branch of the chain: an instruction that is not folded.\<close>

definition fold_other :: "'f option list \<Rightarrow> npe_inst \<Rightarrow> (npe_inst \<times> 'f option list) run" where
  "fold_other cs inst =
     (if opcode inst = SNEPPX_STORE \<or> opcode inst = SNEPPX_HALT then Inr (inst, cs)
      else if 0 \<le> dest_reg inst \<and> dest_reg inst < 16
      then Inr (inst, cs[nat (dest_reg inst) := None])
      else Inr (inst, cs))"

definition fold_result ::
  "'f option list \<Rightarrow> npe_inst \<Rightarrow> 'f \<Rightarrow> (npe_inst \<times> 'f option list) run" where
  "fold_result cs inst v =
     bind_run (set_const cs (dest_reg inst) (Some v)) (\<lambda>cs.
       Inr (inst\<lparr>opcode := SNEPPX_LOAD, immediate := 0\<rparr>, cs))"

definition fold_unary ::
  "('f \<Rightarrow> 'f) \<Rightarrow> 'f option list \<Rightarrow> npe_inst \<Rightarrow> (npe_inst \<times> 'f option list) run" where
  "fold_unary g cs inst =
     bind_run (get_const cs (src_reg_a inst)) (\<lambda>a.
       case a of None \<Rightarrow> fold_other cs inst | Some x \<Rightarrow> fold_result cs inst (g x))"

definition fold_binary ::
  "('f \<Rightarrow> 'f \<Rightarrow> 'f option) \<Rightarrow> 'f option list \<Rightarrow> npe_inst \<Rightarrow> (npe_inst \<times> 'f option list) run" where
  "fold_binary g cs inst =
     bind_run (get_const cs (src_reg_a inst)) (\<lambda>a.
       case a of None \<Rightarrow> fold_other cs inst
       | Some x \<Rightarrow> bind_run (get_const cs (src_reg_b inst)) (\<lambda>b.
           case b of None \<Rightarrow> fold_other cs inst
           | Some y \<Rightarrow> (case g x y of None \<Rightarrow> fold_other cs inst | Some v \<Rightarrow> fold_result cs inst v)))"

definition fold_inst ::
  "'f fops \<Rightarrow> 'f npe_tensor option \<Rightarrow> 'f option list \<Rightarrow> npe_inst \<Rightarrow> (npe_inst \<times> 'f option list) run" where
  "fold_inst F memory cs inst =
     (case opcode inst of
        SNEPPX_LOAD \<Rightarrow>
          (case memory of
             Some mem \<Rightarrow>
               if sint (immediate inst) \<ge> 0 \<and> nat (sint (immediate inst)) < nt_size mem
               then bind_run (load_cell (nt_data mem) (nat (sint (immediate inst)))) (\<lambda>v.
                      bind_run (set_const cs (dest_reg inst) (Some v)) (\<lambda>cs. Inr (inst, cs)))
               else bind_run (set_const cs (dest_reg inst) None) (\<lambda>cs. Inr (inst, cs))
           | None \<Rightarrow> bind_run (set_const cs (dest_reg inst) None) (\<lambda>cs. Inr (inst, cs)))
      | SNEPPX_MUL \<Rightarrow> fold_binary (\<lambda>x y. Some (f_mul F x y)) cs inst
      | SNEPPX_ADD \<Rightarrow> fold_binary (\<lambda>x y. Some (f_add F x y)) cs inst
      | SNEPPX_SUB \<Rightarrow> fold_binary (\<lambda>x y. Some (f_sub F x y)) cs inst
      | SNEPPX_DIV \<Rightarrow> fold_binary (\<lambda>x y. if \<not> f_eq F y (f_zero F) then Some (f_div F x y) else None) cs inst
      | SNEPPX_RELU \<Rightarrow> fold_unary (\<lambda>x. if f_gt F x (f_zero F) then x else f_zero F) cs inst
      | SNEPPX_EXP \<Rightarrow> fold_unary (f_exp F) cs inst
      | SNEPPX_NEG \<Rightarrow> fold_unary (f_neg F) cs inst
      | _ \<Rightarrow> fold_other cs inst)"

fun jit_fold_insts ::
  "'f fops \<Rightarrow> 'f npe_tensor option \<Rightarrow> 'f option list \<Rightarrow> npe_inst list \<Rightarrow> npe_inst list run" where
  "jit_fold_insts F memory cs [] = Inr []"
| "jit_fold_insts F memory cs (inst # rest) =
     bind_run (fold_inst F memory cs inst) (\<lambda>(inst', cs').
       bind_run (jit_fold_insts F memory cs' rest) (\<lambda>rest'. Inr (inst' # rest')))"

definition SNEPPX_npe_jit_constant_fold ::
  "alloc_outcome \<Rightarrow> 'f fops \<Rightarrow> 'f npe_program option \<Rightarrow> 'f npe_tensor option \<Rightarrow> 'f npe_program option run" where
  "SNEPPX_npe_jit_constant_fold ok F op memory =
     (case op of None \<Rightarrow> Inr None
      | Some prog \<Rightarrow>
          (case SNEPPX_npe_program_create ok F (np_max_instructions prog) of None \<Rightarrow> Inr None
           | Some folded \<Rightarrow>
               bind_run (jit_fold_insts F memory (replicate 16 None) (np_instructions prog)) (\<lambda>insts.
                 Inr (Some (append_all insts folded)))))"

definition in_file :: "int \<Rightarrow> bool" where
  "in_file r \<longleftrightarrow> 0 \<le> r \<and> r < 16"

definition reg_used :: "npe_inst list \<Rightarrow> int \<Rightarrow> bool" where
  "reg_used insts r =
     (in_file r \<and> list_ex (\<lambda>inst. r = src_reg_a inst \<or> r = src_reg_b inst \<or>
        (opcode inst = SNEPPX_STORE \<or> opcode inst = SNEPPX_HALT \<or> opcode inst = SNEPPX_BRANCH) \<and>
        r = dest_reg inst) insts)"

definition jit_dce_insts :: "npe_inst list \<Rightarrow> npe_inst list" where
  "jit_dce_insts insts =
     filter (\<lambda>inst.
       (opcode inst = SNEPPX_LOAD \<or> opcode inst = SNEPPX_STORE \<or> opcode inst = SNEPPX_HALT \<or>
        opcode inst = SNEPPX_BRANCH) \<or> reg_used insts (dest_reg inst)) insts"

definition SNEPPX_npe_jit_dce ::
  "alloc_outcome \<Rightarrow> 'f fops \<Rightarrow> 'f npe_program option \<Rightarrow> 'f npe_program option" where
  "SNEPPX_npe_jit_dce ok F op =
     (case op of None \<Rightarrow> None
      | Some prog \<Rightarrow>
          map_option (append_all (jit_dce_insts (np_instructions prog)))
            (SNEPPX_npe_program_create ok F (np_max_instructions prog)))"

section \<open>The pipeline\<close>

definition SNEPPX_npe_jit_optimize ::
  "alloc_outcome \<Rightarrow> 'f fops \<Rightarrow> jit_profile option \<Rightarrow> 'f npe_program option \<Rightarrow> 'f npe_tensor option \<Rightarrow>
   'f npe_program option run" where
  "SNEPPX_npe_jit_optimize ok F profile op memory =
     (case op of None \<Rightarrow> Inr None
      | Some prog \<Rightarrow>
        (case SNEPPX_npe_jit_dce ok F (Some prog) of None \<Rightarrow> Inr None
         | Some cur \<Rightarrow>
           bind_run (SNEPPX_npe_jit_constant_fold (\<lambda>i. ok (i + 3)) F (Some cur) memory) (\<lambda>fo.
           case fo of None \<Rightarrow> Inr None
           | Some folded \<Rightarrow>
             (case SNEPPX_npe_jit_fuse (\<lambda>i. ok (i + 6)) F (Some folded) of None \<Rightarrow> Inr None
              | Some fused \<Rightarrow>
                  (case profile of None \<Rightarrow> Inr (Some fused)
                   | Some p \<Rightarrow>
                       (case SNEPPX_npe_jit_compile (\<lambda>i. ok (i + 9)) F (Some p) (Some fused) of
                          Some compiled \<Rightarrow> Inr (Some compiled)
                        | None \<Rightarrow> Inr (Some fused)))))))"

end
