(* ===== verification/Npe_Vm.thy ===== *)
theory Npe_Vm
  imports Npe_Jit
begin

text \<open>
  The 16-register neural VM of \<open>algorithms/npe/core/vm.c\<close>: creation, loading, the dispatch of one
  instruction, the run loop and the profile-guided optimisation.

  A step takes the outcomes of the allocations it makes and returns a fault, or the code's return
  value (0 to go on, 1 to stop) and the new machine. Registers own their tensors: assigning to a
  register first destroys the tensor it holds, which leaves a dangling pointer until the new
  one is stored, and an operand read through a dangling pointer is a use after free. The trace is
  taken to have room for \<open>max_trace\<close> instructions, so its size in bytes is below \<open>2 ^ 64\<close>.
\<close>

unbundle bit_operations_syntax

section \<open>The machine\<close>

record 'f npe_vm =
  vm_program :: "'f npe_program option"
  vm_trace :: "npe_inst list"
  vm_max_trace :: nat
  vm_step_limit :: nat
  vm_jit :: "jit_profile option"

definition SNEPPX_npe_vm_create :: "alloc_outcome \<Rightarrow> npe_config option \<Rightarrow> 'f npe_vm option" where
  "SNEPPX_npe_vm_create ok cp =
     (case cp of None \<Rightarrow> None
      | Some config \<Rightarrow>
          if \<not> ok 0 then None
          else if \<not> ok 1 then None
          else Some \<lparr>vm_program = None, vm_trace = [], vm_max_trace = (max_program_length config * 2) mod 2 ^ 64,
                     vm_step_limit = step_limit config,
                     vm_jit = (if jit_enabled config \<noteq> 0
                               then SNEPPX_npe_jit_profile_create (ok 2) (jit_hot_threshold config)
                               else None)\<rparr>)"

definition SNEPPX_npe_vm_load :: "'f npe_vm \<Rightarrow> 'f npe_program option \<Rightarrow> 'f npe_vm" where
  "SNEPPX_npe_vm_load vm pp =
     vm\<lparr>vm_program := map_option (\<lambda>p. p\<lparr>np_pc := 0\<rparr>) pp, vm_trace := []\<rparr>"

section \<open>Registers\<close>

fun nonnull :: "'f reg \<Rightarrow> bool" where
  "nonnull Null = False" | "nonnull (Live t) = True" | "nonnull Dangling = True"

fun read_reg :: "'f reg \<Rightarrow> 'f npe_tensor run" where
  "read_reg Null = Inl Null_Deref"
| "read_reg (Live t) = Inr t"
| "read_reg Dangling = Inl Use_After_Free"

text \<open>\<open>if (prog->registers[d]) SNEPPX_tensor_destroy(prog->registers[d]);\<close>\<close>

fun destroy_reg :: "'f reg \<Rightarrow> 'f reg run" where
  "destroy_reg Null = Inr Null"
| "destroy_reg (Live t) = Inr Dangling"
| "destroy_reg Dangling = Inl Use_After_Free"

fun reg_of :: "'f npe_tensor option \<Rightarrow> 'f reg" where
  "reg_of None = Null" | "reg_of (Some t) = Live t"

abbreviation get_reg :: "'f npe_program \<Rightarrow> int \<Rightarrow> 'f reg" where
  "get_reg prog r \<equiv> np_registers prog ! nat r"

definition set_reg :: "'f npe_program \<Rightarrow> int \<Rightarrow> 'f reg \<Rightarrow> 'f npe_program" where
  "set_reg prog r v = prog\<lparr>np_registers := (np_registers prog)[nat r := v]\<rparr>"

definition usable :: "'f npe_program \<Rightarrow> int \<Rightarrow> bool" where
  "usable prog r \<longleftrightarrow> in_file r \<and> nonnull (get_reg prog r)"

text \<open>Destroy the tensor in register \<open>d\<close>, compute, store the result in \<open>d\<close>.\<close>

definition replace_reg ::
  "'f npe_program \<Rightarrow> int \<Rightarrow> ('f npe_program \<Rightarrow> 'f npe_tensor option run) \<Rightarrow> 'f npe_program run" where
  "replace_reg prog d compute =
     bind_run (destroy_reg (get_reg prog d)) (\<lambda>dead.
       let prog = set_reg prog d dead in
       bind_run (compute prog) (\<lambda>r. Inr (set_reg prog d (reg_of r))))"

definition exec_unary ::
  "('f npe_tensor \<Rightarrow> 'f npe_tensor option run) \<Rightarrow> 'f npe_program \<Rightarrow> int \<Rightarrow> int \<Rightarrow> 'f npe_program run" where
  "exec_unary kern prog d sa =
     (if in_file d \<and> usable prog sa then
        replace_reg prog d (\<lambda>p. bind_run (read_reg (get_reg p sa)) kern)
      else Inr prog)"

definition exec_binary ::
  "('f npe_tensor \<Rightarrow> 'f npe_tensor \<Rightarrow> 'f npe_tensor option run) \<Rightarrow> 'f npe_program \<Rightarrow> int \<Rightarrow> int \<Rightarrow> int \<Rightarrow>
   'f npe_program run" where
  "exec_binary kern prog d sa sb =
     (if in_file d \<and> usable prog sa \<and> usable prog sb then
        replace_reg prog d (\<lambda>p. bind_run (read_reg (get_reg p sa)) (\<lambda>a.
          bind_run (read_reg (get_reg p sb)) (kern a)))
      else Inr prog)"

text \<open>The kernels with a third operand in the register named by the immediate; where there is no
  such operand the destination stays destroyed.\<close>

definition exec_ternary ::
  "('f npe_tensor \<Rightarrow> 'f npe_tensor \<Rightarrow> 'f npe_tensor \<Rightarrow> 'f npe_tensor option run) \<Rightarrow> 'f npe_program \<Rightarrow>
   int \<Rightarrow> int \<Rightarrow> int \<Rightarrow> int \<Rightarrow> 'f npe_program run" where
  "exec_ternary kern prog d sa sb imm =
     (if in_file d \<and> usable prog sa \<and> usable prog sb then
        bind_run (destroy_reg (get_reg prog d)) (\<lambda>dead.
          let prog = set_reg prog d dead in
          if usable prog imm then
            bind_run (read_reg (get_reg prog sa)) (\<lambda>a.
            bind_run (read_reg (get_reg prog sb)) (\<lambda>b.
            bind_run (read_reg (get_reg prog imm)) (\<lambda>c.
            bind_run (kern a b c) (\<lambda>r. Inr (set_reg prog d (reg_of r))))))
          else Inr prog)
      else Inr prog)"

section \<open>Instructions\<close>

text \<open>\<open>(size_t)imm\<close>: the sign is extended to 64 bits.\<close>

definition imm_addr :: "u32 \<Rightarrow> nat" where
  "imm_addr imm = nat (sint imm mod 2 ^ 64)"

definition exec_load :: "bool \<Rightarrow> 'f fops \<Rightarrow> 'f npe_program \<Rightarrow> npe_inst \<Rightarrow> (int \<times> 'f npe_program) run" where
  "exec_load ok F prog inst =
     (let d = dest_reg inst; (s0, s1) = shape_a inst in
      if \<not> in_file d then Inr (1, prog)
      else bind_run (destroy_reg (get_reg prog d)) (\<lambda>dead.
        let prog = set_reg prog d dead;
            size_k = (if s0 > 0 then nat s0 else 1);
            size_k = (if s1 > 0 then size_k * nat s1 else size_k);
            addr = imm_addr (immediate inst)
        in case np_memory prog of None \<Rightarrow> Inl Null_Deref
           | Some mem \<Rightarrow>
               if (addr + size_k) mod 2 ^ 64 > nt_size mem then Inr (1, prog)
               else
                 let sh = (if s1 > 0 then [nat (s0 mod 2 ^ 64), nat s1] else [size_k]) in
                 (case npe_tensor_create ok F sh of
                    None \<Rightarrow> Inr (0, set_reg prog d Null)
                  | Some t \<Rightarrow>
                      if size_k > nt_size t \<or> addr + size_k > length (nt_data mem) then Inl Out_Of_Bounds
                      else Inr (0, set_reg prog d (Live (t\<lparr>nt_data :=
                             take size_k (drop addr (nt_data mem)) @ drop size_k (nt_data t)\<rparr>))))))"

definition exec_store :: "'f npe_program \<Rightarrow> npe_inst \<Rightarrow> (int \<times> 'f npe_program) run" where
  "exec_store prog inst =
     (let sa = src_reg_a inst in
      if \<not> usable prog sa then Inr (1, prog)
      else bind_run (read_reg (get_reg prog sa)) (\<lambda>t.
        let addr = imm_addr (immediate inst); sz = nt_size t in
        case np_memory prog of None \<Rightarrow> Inl Null_Deref
        | Some mem \<Rightarrow>
            if (addr + sz) mod 2 ^ 64 > nt_size mem then Inr (1, prog)
            else if addr + sz > length (nt_data mem) \<or> sz > length (nt_data t) then Inl Out_Of_Bounds
            else Inr (0, prog\<lparr>np_memory := Some (mem\<lparr>nt_data :=
                   take addr (nt_data mem) @ take sz (nt_data t) @ drop (addr + sz) (nt_data mem)\<rparr>)\<rparr>)))"

text \<open>Adding the register named by the low byte of the immediate to a product.\<close>

definition add_bias ::
  "bool \<Rightarrow> 'f fops \<Rightarrow> 'f npe_program \<Rightarrow> u32 \<Rightarrow> 'f npe_tensor \<Rightarrow> 'f npe_tensor option run" where
  "add_bias ok F prog imm mm =
     (let bias_reg = uint (imm AND 0xFF) in
      if usable prog bias_reg then bind_run (read_reg (get_reg prog bias_reg)) (tensor_add ok F mm)
      else Inr (Some mm))"

definition exec_matmul ::
  "alloc_outcome \<Rightarrow> 'f fops \<Rightarrow> 'f npe_program \<Rightarrow> npe_inst \<Rightarrow> 'f npe_program run" where
  "exec_matmul ok F prog inst =
     (let d = dest_reg inst; sa = src_reg_a inst; sb = src_reg_b inst; imm = immediate inst in
      if in_file d \<and> usable prog sa \<and> usable prog sb then
        bind_run (read_reg (get_reg prog sa)) (\<lambda>a. bind_run (read_reg (get_reg prog sb)) (\<lambda>b.
        bind_run
          (then_tensor (tensor_matmul (ok 0) F a b) (\<lambda>mm.
             if imm AND flag_bias_relu \<noteq> 0 then
               then_tensor (add_bias (ok 1) F prog imm mm) (tensor_relu (ok 2) F)
             else if imm AND flag_relu \<noteq> 0 then tensor_relu (ok 1) F mm
             else if imm AND flag_bias \<noteq> 0 then add_bias (ok 1) F prog imm mm
             else Inr (Some mm)))
          (\<lambda>mm. bind_run (destroy_reg (get_reg prog d)) (\<lambda>_.
             Inr (set_reg prog d (reg_of mm))))))
      else Inr prog)"

definition exec_branch :: "'f fops \<Rightarrow> 'f npe_program \<Rightarrow> npe_inst \<Rightarrow> nat run" where
  "exec_branch F prog inst =
     (if usable prog (src_reg_a inst) then
        bind_run (read_reg (get_reg prog (src_reg_a inst))) (\<lambda>t.
        bind_run (load_cell (nt_data t) 0) (\<lambda>x.
          Inr (if f_gt F x (f_zero F) then imm_addr (immediate inst) else np_pc prog + 1)))
      else Inr (np_pc prog + 1))"

definition exec_pool2d :: "bool \<Rightarrow> 'f fops \<Rightarrow> 'f npe_program \<Rightarrow> npe_inst \<Rightarrow> 'f npe_program run" where
  "exec_pool2d ok F prog inst =
     (let ph = unat (drop_bit 16 (immediate inst) AND 0xFFFF);
          pw = unat (immediate inst AND 0xFFFF);
          ph = (if ph = 0 then 2 else ph);
          pw = (if pw = 0 then 2 else pw)
      in exec_unary (tensor_pool2d ph pw ok F) prog (dest_reg inst) (src_reg_a inst))"

text \<open>The kernel instructions: everything but control flow and memory transfers.\<close>

definition exec_kernel ::
  "alloc_outcome \<Rightarrow> 'f fops \<Rightarrow> 'f npe_program \<Rightarrow> npe_inst \<Rightarrow> 'f npe_program run" where
  "exec_kernel ok F prog inst =
     (let d = dest_reg inst; sa = src_reg_a inst; sb = src_reg_b inst; imm = immediate inst in
      case opcode inst of
        SNEPPX_ADD \<Rightarrow> exec_binary (tensor_add (ok 0) F) prog d sa sb
      | SNEPPX_MUL \<Rightarrow> exec_binary (tensor_mul (ok 0) F) prog d sa sb
      | SNEPPX_MATMUL \<Rightarrow> exec_matmul ok F prog inst
      | SNEPPX_RELU \<Rightarrow> exec_unary (tensor_relu (ok 0) F) prog d sa
      | SNEPPX_SOFTMAX \<Rightarrow> exec_unary (tensor_softmax (ok 0) F) prog d sa
      | SNEPPX_LAYERNORM \<Rightarrow> exec_unary (tensor_layernorm (ok 0) F) prog d sa
      | SNEPPX_ATTENTION \<Rightarrow> exec_ternary (tensor_attention ok F) prog d sa sb (sint imm)
      | SNEPPX_SUB \<Rightarrow> exec_binary (tensor_sub (ok 0) F) prog d sa sb
      | SNEPPX_DIV \<Rightarrow> exec_binary (tensor_div (ok 0) F) prog d sa sb
      | SNEPPX_EXP \<Rightarrow> exec_unary (tensor_exp (ok 0) F) prog d sa
      | SNEPPX_LOG \<Rightarrow> exec_unary (tensor_log (ok 0) F) prog d sa
      | SNEPPX_SQRT \<Rightarrow> exec_unary (tensor_sqrt (ok 0) F) prog d sa
      | SNEPPX_POW \<Rightarrow> exec_unary (tensor_pow (f_of_bits F imm) (ok 0) F) prog d sa
      | SNEPPX_SIN \<Rightarrow> exec_unary (tensor_sin (ok 0) F) prog d sa
      | SNEPPX_COS \<Rightarrow> exec_unary (tensor_cos (ok 0) F) prog d sa
      | SNEPPX_TANH \<Rightarrow> exec_unary (tensor_tanh (ok 0) F) prog d sa
      | SNEPPX_SIGMOID \<Rightarrow> exec_unary (tensor_sigmoid (ok 0) F) prog d sa
      | SNEPPX_GELU \<Rightarrow> exec_unary (tensor_gelu (ok 0) F) prog d sa
      | SNEPPX_SILU \<Rightarrow> exec_unary (tensor_silu (ok 0) F) prog d sa
      | SNEPPX_DROPOUT \<Rightarrow> exec_unary (tensor_dropout (f_of_bits F imm) (ok 0) F) prog d sa
      | SNEPPX_CONV2D \<Rightarrow> exec_binary (tensor_conv2d (ok 0) F) prog d sa sb
      | SNEPPX_POOL2D \<Rightarrow> exec_pool2d (ok 0) F prog inst
      | SNEPPX_BATCHNORM \<Rightarrow> exec_ternary (tensor_batchnorm (ok 0) F) prog d sa sb (sint imm)
      | SNEPPX_EMBEDDING \<Rightarrow> exec_binary (tensor_embedding (ok 0) F) prog d sa sb
      | SNEPPX_CROSSENTROPY \<Rightarrow> exec_binary (tensor_crossentropy (ok 0) F) prog d sa sb
      | SNEPPX_MSE \<Rightarrow> exec_binary (tensor_mse (ok 0) F) prog d sa sb
      | SNEPPX_CONCAT \<Rightarrow> exec_binary (tensor_concat (sint imm) (ok 0) F) prog d sa sb
      | SNEPPX_SPLIT \<Rightarrow> exec_unary (tensor_split_half (ok 0) F) prog d sa
      | _ \<Rightarrow> Inr prog)"

definition bump_pc :: "'f npe_program \<Rightarrow> 'f npe_program" where
  "bump_pc prog = prog\<lparr>np_pc := np_pc prog + 1\<rparr>"

text \<open>The \<open>switch\<close>: the value of \<open>ret\<close> and the program after it.\<close>

definition exec_inst ::
  "alloc_outcome \<Rightarrow> 'f fops \<Rightarrow> 'f npe_program \<Rightarrow> npe_inst \<Rightarrow> (int \<times> 'f npe_program) run" where
  "exec_inst ok F prog inst =
     (case opcode inst of
        SNEPPX_LOAD \<Rightarrow> bind_run (exec_load (ok 0) F prog inst) (\<lambda>(r, p). Inr (r, if r = 0 then bump_pc p else p))
      | SNEPPX_STORE \<Rightarrow> bind_run (exec_store prog inst) (\<lambda>(r, p). Inr (r, if r = 0 then bump_pc p else p))
      | SNEPPX_BRANCH \<Rightarrow> bind_run (exec_branch F prog inst) (\<lambda>pc. Inr (0, prog\<lparr>np_pc := pc\<rparr>))
      | _ \<Rightarrow> bind_run (exec_kernel ok F prog inst) (\<lambda>p. Inr (0, bump_pc p)))"

definition SNEPPX_npe_vm_step :: "alloc_outcome \<Rightarrow> 'f fops \<Rightarrow> 'f npe_vm \<Rightarrow> (int \<times> 'f npe_vm) run" where
  "SNEPPX_npe_vm_step ok F vm =
     (case vm_program vm of None \<Rightarrow> Inr (1, vm)
      | Some prog \<Rightarrow>
          if np_pc prog \<ge> length (np_instructions prog) then Inr (1, vm)
          else
            let inst = np_instructions prog ! np_pc prog;
                vm = (if length (vm_trace vm) < vm_max_trace vm
                      then vm\<lparr>vm_trace := vm_trace vm @ [inst]\<rparr> else vm);
                vm = vm\<lparr>vm_jit := SNEPPX_npe_jit_record F (vm_jit vm) (opcode inst) (f_zero F)\<rparr>
            in if opcode inst = SNEPPX_HALT then Inr (1, vm)
               else bind_run (exec_inst ok F prog inst) (\<lambda>(ret, prog').
                 Inr (if np_pc prog' \<ge> length (np_instructions prog') then 1 else ret,
                      vm\<lparr>vm_program := Some prog'\<rparr>)))"

section \<open>Running a program\<close>

text \<open>\<open>SNEPPX_npe_program_destroy\<close> destroys every register: a dangling one is freed twice.\<close>

definition SNEPPX_npe_program_destroy :: "'f npe_program \<Rightarrow> unit run" where
  "SNEPPX_npe_program_destroy prog =
     bind_run (map_run destroy_reg (np_registers prog)) (\<lambda>_. Inr ())"

definition SNEPPX_npe_vm_optimize :: "alloc_outcome \<Rightarrow> 'f fops \<Rightarrow> 'f npe_vm \<Rightarrow> (int \<times> 'f npe_vm) run" where
  "SNEPPX_npe_vm_optimize ok F vm =
     (case (vm_program vm, vm_jit vm) of
        (Some prog, Some profile) \<Rightarrow>
          bind_run (SNEPPX_npe_jit_optimize ok F (Some profile) (Some prog) (np_memory prog)) (\<lambda>r.
            case r of None \<Rightarrow> Inr (- 1, vm)
            | Some optimized \<Rightarrow>
                bind_run (SNEPPX_npe_program_destroy prog) (\<lambda>_.
                  Inr (0, vm\<lparr>vm_program := Some (optimized\<lparr>np_pc := 0\<rparr>), vm_trace := [],
                             vm_jit := Some (profile\<lparr>is_profiling := False\<rparr>)\<rparr>)))
      | _ \<Rightarrow> Inr (- 1, vm))"

text \<open>The loop \<open>while (steps < vm->step_limit)\<close>: the first number counts the steps that are left,
  the second is \<open>steps\<close>. \<open>ok s\<close> are the allocation outcomes of step \<open>s\<close>.\<close>

fun vm_loop ::
  "(nat \<Rightarrow> alloc_outcome) \<Rightarrow> 'f fops \<Rightarrow> nat \<Rightarrow> nat \<Rightarrow> 'f npe_vm \<Rightarrow> (nat \<times> 'f npe_vm) run" where
  "vm_loop ok F 0 steps vm = Inr (steps, vm)"
| "vm_loop ok F (Suc n) steps vm =
     bind_run (SNEPPX_npe_vm_step (ok steps) F vm) (\<lambda>(r, vm').
       if r \<noteq> 0 then Inr (steps, vm') else vm_loop ok F n (steps + 1) vm')"

definition last_reg :: "'f npe_program \<Rightarrow> nat option" where
  "last_reg prog = find (\<lambda>i. nonnull (np_registers prog ! i)) (rev [0..<16])"

definition copy_tensor :: "bool \<Rightarrow> 'f fops \<Rightarrow> 'f npe_tensor \<Rightarrow> 'f npe_tensor option run" where
  "copy_tensor ok F t = tensor_map1 (\<lambda>x. x) ok F t"

text \<open>The result: the code's return value, \<open>*output\<close> and the machine.\<close>

definition SNEPPX_npe_vm_run ::
  "(nat \<Rightarrow> alloc_outcome) \<Rightarrow> alloc_outcome \<Rightarrow> 'f fops \<Rightarrow> 'f npe_vm \<Rightarrow> 'f npe_tensor \<Rightarrow>
   (int \<times> 'f npe_tensor option \<times> 'f npe_vm) run" where
  "SNEPPX_npe_vm_run ok ok' F vm input =
     (case vm_program vm of None \<Rightarrow> Inr (1, None, vm)
      | Some prog \<Rightarrow>
          let prog = prog\<lparr>np_pc := 0\<rparr>; vm = vm\<lparr>vm_trace := []\<rparr> in
          bind_run (replace_reg prog 0 (\<lambda>_. copy_tensor (ok' 0) F input)) (\<lambda>prog.
          bind_run (vm_loop ok F (vm_step_limit vm) 0 (vm\<lparr>vm_program := Some prog\<rparr>)) (\<lambda>(steps, vm).
          case vm_program vm of None \<Rightarrow> Inl Null_Deref
          | Some prog \<Rightarrow>
            (case last_reg prog of None \<Rightarrow> Inr (1, None, vm)
             | Some i \<Rightarrow>
                 bind_run (read_reg (np_registers prog ! i)) (\<lambda>t.
                 bind_run (copy_tensor (ok' 1) F t) (\<lambda>output.
                 let code = (if steps \<ge> vm_step_limit vm then 2 else 0) in
                 case vm_jit vm of
                   Some p \<Rightarrow>
                     if total_instructions p \<ge> hot_threshold p
                     then bind_run (SNEPPX_npe_vm_optimize (\<lambda>i. ok' (i + 2)) F vm) (\<lambda>(_, vm').
                            Inr (code, output, vm'))
                     else Inr (code, output, vm)
                 | None \<Rightarrow> Inr (code, output, vm)))))))"

section \<open>The machine invariant\<close>

text \<open>
  A well-formed program state has 16 registers, whose live tensors and whose memory have as many
  cells as their shapes say. No instruction changes the code or the extent of the memory.
\<close>

definition regs_wf :: "'f reg list \<Rightarrow> bool" where
  "regs_wf rs \<longleftrightarrow> length rs = 16 \<and> (\<forall>t. Live t \<in> set rs \<longrightarrow> nt_wf t)"

definition prog_wf :: "'f npe_program \<Rightarrow> bool" where
  "prog_wf prog \<longleftrightarrow> regs_wf (np_registers prog) \<and> (\<forall>mem. np_memory prog = Some mem \<longrightarrow> nt_wf mem)"

definition same_code :: "'f npe_program \<Rightarrow> 'f npe_program \<Rightarrow> bool" where
  "same_code p q \<longleftrightarrow> np_instructions q = np_instructions p \<and>
     np_max_instructions q = np_max_instructions p \<and>
     map_option nt_shape (np_memory q) = map_option nt_shape (np_memory p)"

definition steps_to_wf :: "'f npe_program \<Rightarrow> 'f npe_program run \<Rightarrow> bool" where
  "steps_to_wf p m \<longleftrightarrow> (\<forall>q. m = Inr q \<longrightarrow> prog_wf q \<and> same_code p q \<and> np_pc q = np_pc p)"

lemma same_code_refl [simp]: "same_code p p"
  by (simp add: same_code_def)

lemma same_code_trans: "same_code p q \<Longrightarrow> same_code q r \<Longrightarrow> same_code p r"
  by (simp add: same_code_def)

lemma same_code_set_reg [simp]: "same_code p (set_reg q r v) = same_code p q"
  by (simp add: same_code_def set_reg_def)

lemma np_pc_set_reg [simp]: "np_pc (set_reg q r v) = np_pc q"
  by (simp add: set_reg_def)

lemma regs_wf_update:
  "regs_wf rs \<Longrightarrow> (\<And>t. v = Live t \<Longrightarrow> nt_wf t) \<Longrightarrow> regs_wf (rs[i := v])"
  by (auto simp: regs_wf_def dest: set_update_subset_insert [THEN subsetD])

lemma prog_wf_set_reg:
  "prog_wf p \<Longrightarrow> (\<And>t. v = Live t \<Longrightarrow> nt_wf t) \<Longrightarrow> prog_wf (set_reg p r v)"
  by (simp add: prog_wf_def set_reg_def regs_wf_update)

lemma reg_of_eq_Live [simp]: "reg_of r = Live t \<longleftrightarrow> r = Some t"
  by (cases r) auto

lemma destroy_reg_not_live [simp]: "destroy_reg r \<noteq> Inr (Live t)"
  by (cases r) auto

lemma prog_wf_bump [simp]: "prog_wf (bump_pc p) = prog_wf p"
  by (simp add: bump_pc_def prog_wf_def)

lemma bump_pc_np: "np_pc (bump_pc p) = np_pc p + 1"
  by (simp add: bump_pc_def)

lemma same_code_bump [simp]: "same_code p (bump_pc q) = same_code p q"
  by (simp add: bump_pc_def same_code_def)

lemma same_code_pc [simp]: "same_code p (q\<lparr>np_pc := pc\<rparr>) = same_code p q"
  by (simp add: same_code_def)

lemma prog_wf_pc [simp]: "prog_wf (p\<lparr>np_pc := pc\<rparr>) = prog_wf p"
  by (simp add: prog_wf_def)

lemma steps_to_wf_Inr: "prog_wf p \<Longrightarrow> steps_to_wf p (Inr p)"
  by (simp add: steps_to_wf_def)

lemma replace_reg_wf:
  assumes "prog_wf p" and "\<And>q. yields_wf (compute q)"
  shows "steps_to_wf p (replace_reg p d compute)"
  using assms
  by (auto simp: steps_to_wf_def replace_reg_def Let_def yields_wf_def intro!: prog_wf_set_reg)

lemma exec_unary_wf:
  assumes "prog_wf p" "\<And>a. yields_wf (kern a)"
  shows "steps_to_wf p (exec_unary kern p d sa)"
  unfolding exec_unary_def using assms by (auto intro!: replace_reg_wf kernel_wf steps_to_wf_Inr)

lemma exec_binary_wf:
  assumes "prog_wf p" "\<And>a b. yields_wf (kern a b)"
  shows "steps_to_wf p (exec_binary kern p d sa sb)"
  unfolding exec_binary_def using assms by (auto intro!: replace_reg_wf kernel_wf steps_to_wf_Inr)

lemma exec_ternary_wf:
  assumes "prog_wf p" "\<And>a b c. yields_wf (kern a b c)"
  shows "steps_to_wf p (exec_ternary kern p d sa sb imm)"
  using assms
  by (auto simp: exec_ternary_def steps_to_wf_def yields_wf_def Let_def split: if_splits
      intro!: prog_wf_set_reg)

lemma then_tensor_wf:
  "yields_wf m \<Longrightarrow> (\<And>t. nt_wf t \<Longrightarrow> yields_wf (f t)) \<Longrightarrow> yields_wf (then_tensor m f)"
  by (auto simp: yields_wf_def then_tensor_def split: option.splits)

lemma yields_wf_Some: "nt_wf t \<Longrightarrow> yields_wf (Inr (Some t))"
  by (simp add: yields_wf_def)

lemma add_bias_wf: "nt_wf mm \<Longrightarrow> yields_wf (add_bias ok F p imm mm)"
  unfolding add_bias_def by (intro kernel_wf yields_wf_Some)

lemma exec_matmul_wf:
  assumes "prog_wf p"
  shows "steps_to_wf p (exec_matmul ok F p inst)"
proof -
  let ?m = "\<lambda>a b. then_tensor (tensor_matmul (ok 0) F a b) (\<lambda>mm.
      if immediate inst AND flag_bias_relu \<noteq> 0 then
        then_tensor (add_bias (ok 1) F p (immediate inst) mm) (tensor_relu (ok 2) F)
      else if immediate inst AND flag_relu \<noteq> 0 then tensor_relu (ok 1) F mm
      else if immediate inst AND flag_bias \<noteq> 0 then add_bias (ok 1) F p (immediate inst) mm
      else Inr (Some mm))"
  have "yields_wf (?m a b)" for a b
    by (intro then_tensor_wf matmul_wf yields_wf_if kernels_wf add_bias_wf yields_wf_Some)
  then have "nt_wf t" if "?m a b = Inr (Some t)" for a b t
    using that unfolding yields_wf_def by blast
  then show ?thesis
    using assms unfolding exec_matmul_def steps_to_wf_def Let_def
    by (auto split: if_split_asm intro!: prog_wf_set_reg)
qed

lemma exec_kernel_wf: "prog_wf p \<Longrightarrow> steps_to_wf p (exec_kernel ok F p inst)"
  unfolding exec_kernel_def exec_pool2d_def Let_def
  by (cases "opcode inst")
     (simp_all add: exec_unary_wf exec_binary_wf exec_ternary_wf exec_matmul_wf kernel_wf steps_to_wf_Inr)

lemma exec_load_wf:
  assumes "prog_wf p" and "exec_load ok F p inst = Inr (r, q)"
  shows "prog_wf q \<and> same_code p q \<and> np_pc q = np_pc p"
  using assms
  by (auto simp: exec_load_def Let_def nt_wf_def nt_size_def npe_tensor_create_def
      split: prod.splits if_splits option.splits
      intro!: prog_wf_set_reg)

lemma exec_store_wf:
  assumes "prog_wf p" and "exec_store p inst = Inr (r, q)"
  shows "prog_wf q \<and> same_code p q \<and> np_pc q = np_pc p"
  using assms
  by (auto simp: exec_store_def Let_def prog_wf_def same_code_def nt_wf_def nt_size_def
      split: if_splits option.splits)

lemma exec_inst_kernel:
  "opcode inst \<notin> {SNEPPX_LOAD, SNEPPX_STORE, SNEPPX_BRANCH} \<Longrightarrow>
   exec_inst ok F p inst = bind_run (exec_kernel ok F p inst) (\<lambda>p. Inr (0, bump_pc p))"
  by (cases "opcode inst") (simp_all add: exec_inst_def)

lemma exec_inst_wf:
  assumes "prog_wf p" and "exec_inst ok F p inst = Inr (r, q)"
  shows "prog_wf q \<and> same_code p q \<and>
    (r = 0 \<longrightarrow> np_pc q = np_pc p + 1 \<or> opcode inst = SNEPPX_BRANCH \<and> np_pc q = imm_addr (immediate inst))"
proof -
  consider (load) "opcode inst = SNEPPX_LOAD" | (store) "opcode inst = SNEPPX_STORE"
    | (branch) "opcode inst = SNEPPX_BRANCH" | (kern) "opcode inst \<notin> {SNEPPX_LOAD, SNEPPX_STORE, SNEPPX_BRANCH}"
    by blast
  then show ?thesis
  proof cases
    case load
    with assms(2) obtain q' where q: "exec_load (ok 0) F p inst = Inr (r, q')"
      "q = (if r = 0 then bump_pc q' else q')"
      by (auto simp: exec_inst_def)
    from exec_load_wf [OF assms(1) q(1)] q(2) show ?thesis by (auto simp: bump_pc_np)
  next
    case store
    with assms(2) obtain q' where q: "exec_store p inst = Inr (r, q')"
      "q = (if r = 0 then bump_pc q' else q')"
      by (auto simp: exec_inst_def)
    from exec_store_wf [OF assms(1) q(1)] q(2) show ?thesis by (auto simp: bump_pc_np)
  next
    case branch
    with assms show ?thesis
      by (auto simp: exec_inst_def exec_branch_def split: if_splits)
  next
    case kern
    with assms exec_kernel_wf [OF assms(1), of ok F inst] show ?thesis
      by (auto simp: exec_inst_kernel steps_to_wf_def bump_pc_np)
  qed
qed

definition vm_wf :: "'f npe_vm \<Rightarrow> bool" where
  "vm_wf vm \<longleftrightarrow> (\<forall>p. vm_program vm = Some p \<longrightarrow> prog_wf p) \<and> length (vm_trace vm) \<le> vm_max_trace vm"

definition vm_frame :: "'f npe_vm \<Rightarrow> 'f npe_vm \<Rightarrow> bool" where
  "vm_frame vm vm' \<longleftrightarrow> vm_max_trace vm' = vm_max_trace vm \<and> vm_step_limit vm' = vm_step_limit vm \<and>
     rel_option same_code (vm_program vm) (vm_program vm')"

lemma vm_frame_refl [simp]: "vm_frame vm vm"
  by (simp add: vm_frame_def option.rel_refl)

lemma vm_frame_trans: "vm_frame a b \<Longrightarrow> vm_frame b c \<Longrightarrow> vm_frame a c"
  by (auto simp: vm_frame_def option_rel_Some1 rel_option_iff split: option.splits
      elim: same_code_trans)

lemma vm_step_wf:
  assumes "vm_wf vm" and "SNEPPX_npe_vm_step ok F vm = Inr (r, vm')"
  shows "vm_wf vm' \<and> vm_frame vm vm'"
  using assms
  by (auto simp: SNEPPX_npe_vm_step_def Let_def vm_wf_def vm_frame_def split: option.splits if_splits
      dest: exec_inst_wf)

lemma vm_loop_wf:
  "vm_wf vm \<Longrightarrow> vm_loop ok F n s vm = Inr (s', vm') \<Longrightarrow> vm_wf vm' \<and> vm_frame vm vm' \<and> s \<le> s' \<and> s' \<le> s + n"
proof (induction n arbitrary: s vm)
  case (Suc n)
  then obtain r v where st: "SNEPPX_npe_vm_step (ok s) F vm = Inr (r, v)"
    and rest: "if r \<noteq> 0 then s' = s \<and> vm' = v else vm_loop ok F n (s + 1) v = Inr (s', vm')"
    by (auto split: if_splits)
  have v: "vm_wf v" "vm_frame vm v" using vm_step_wf [OF Suc.prems(1) st] by auto
  show ?case
  proof (cases "r = 0")
    case True
    with Suc.IH [OF v(1), of "s + 1"] rest v show ?thesis by (auto intro: vm_frame_trans)
  next
    case False
    with rest v show ?thesis by simp
  qed
qed simp

end
