(* ===== verification/Npe_Correct.thy ===== *)
theory Npe_Correct
  imports Npe_Vm
begin

text \<open>
  Correctness of the neural VM: what each kernel computes on operands of matching shapes, what the
  machine does on straight-line code, and the properties of the machine, the verifier, the
  program builders and the JIT passes.
\<close>

unbundle bit_operations_syntax

section \<open>Values of the kernels\<close>

lemma length_pairs [simp]: "length (pairs m n) = m * n"
  by (simp add: pairs_def length_concat o_def sum_list_triv)

lemma pairs_bound: "(i, j) \<in> set (pairs m n) \<Longrightarrow> i < m \<and> j < n"
  by (auto simp: pairs_def)

lemma flat_index_bound: "i < m \<Longrightarrow> j < n \<Longrightarrow> i * n + j < m * (n :: nat)"
proof -
  assume "i < m" "j < n"
  then have "i * n + j < Suc i * n" by simp
  also have "\<dots> \<le> m * n" using \<open>i < m\<close> by (intro mult_le_mono1) simp
  finally show ?thesis .
qed

lemma tensor_build_value:
  assumes "\<And>ix. ix \<in> set ixs \<Longrightarrow> cell ix = Inr (v ix)" and "length ixs = prod_list shape"
  shows "tensor_build True F shape cell ixs = Inr (Some \<lparr>nt_shape = shape, nt_data = map v ixs\<rparr>)"
  using assms map_run_Inr [of ixs cell v]
  by (simp add: tensor_build_def npe_tensor_create_def nt_size_def)

lemma tensor_map1_value:
  assumes "nt_wf a"
  shows "tensor_map1 g True F a = Inr (Some \<lparr>nt_shape = nt_shape a, nt_data = map g (nt_data a)\<rparr>)"
proof -
  have "tensor_map1 g True F a =
      Inr (Some \<lparr>nt_shape = nt_shape a, nt_data = map (\<lambda>i. g (nt_data a ! i)) [0..<nt_size a]\<rparr>)"
    unfolding tensor_map1_def using assms
    by (intro tensor_build_value) (auto simp: nt_wf_def nt_size_def)
  also have "map (\<lambda>i. g (nt_data a ! i)) [0..<nt_size a] = map g (nt_data a)"
    using assms by (auto simp: nt_wf_def intro!: nth_equalityI)
  finally show ?thesis .
qed

text \<open>Rows of a matrix combined with a vector, and the product of two matrices, on flat lists.\<close>

definition add_rows :: "('f \<Rightarrow> 'f \<Rightarrow> 'f) \<Rightarrow> nat \<Rightarrow> nat \<Rightarrow> 'f list \<Rightarrow> 'f list \<Rightarrow> 'f list" where
  "add_rows g m n A B = map (\<lambda>(i, j). g (A ! (i * n + j)) (B ! j)) (pairs m n)"

definition mat_prod :: "'f fops \<Rightarrow> nat \<Rightarrow> nat \<Rightarrow> nat \<Rightarrow> 'f list \<Rightarrow> 'f list \<Rightarrow> 'f list" where
  "mat_prod F m k n A B =
     map (\<lambda>(i, j). fold (\<lambda>l acc. f_add F acc (f_mul F (A ! (i * k + l)) (B ! (l * n + j)))) [0..<k]
            (f_zero F)) (pairs m n)"

lemma length_add_rows [simp]: "length (add_rows g m n A B) = m * n"
  by (simp add: add_rows_def)

lemma length_mat_prod [simp]: "length (mat_prod F m k n A B) = m * n"
  by (simp add: mat_prod_def)

lemma tensor_zip_value:
  assumes "length A = m * n" "length B = n"
  shows "tensor_zip g True F \<lparr>nt_shape = [m, n], nt_data = A\<rparr> \<lparr>nt_shape = [n], nt_data = B\<rparr> =
    Inr (Some \<lparr>nt_shape = [m, n], nt_data = add_rows g m n A B\<rparr>)"
proof (cases "m * n = n")
  case True
  have "tensor_zip g True F \<lparr>nt_shape = [m, n], nt_data = A\<rparr> \<lparr>nt_shape = [n], nt_data = B\<rparr> =
      Inr (Some \<lparr>nt_shape = [m, n], nt_data = map (\<lambda>i. g (A ! i) (B ! i)) [0..<m * n]\<rparr>)"
    using assms True unfolding tensor_zip_def nt_size_def
    by (simp, intro tensor_build_value) auto
  moreover have "map (\<lambda>i. g (A ! i) (B ! i)) [0..<m * n] = add_rows g m n A B"
    using True by (cases "n = 0") (auto simp: add_rows_def pairs_def)
  ultimately show ?thesis by simp
next
  case False
  then show ?thesis
    using assms unfolding tensor_zip_def nt_size_def add_rows_def
    by (simp, intro tensor_build_value) (auto simp: flat_index_bound dest!: pairs_bound)
qed

lemma tensor_matmul_value:
  assumes "length A = m * k" "length B = k * n"
  shows "tensor_matmul True F \<lparr>nt_shape = [m, k], nt_data = A\<rparr> \<lparr>nt_shape = [k, n], nt_data = B\<rparr> =
    Inr (Some \<lparr>nt_shape = [m, n], nt_data = mat_prod F m k n A B\<rparr>)"
  using assms unfolding tensor_matmul_def nt_dim_def mat_prod_def
  by (simp, intro tensor_build_value)
     (auto simp: flat_index_bound dest!: pairs_bound intro!: fold_run_Inr)

definition relu :: "'f fops \<Rightarrow> 'f \<Rightarrow> 'f" where
  "relu F x = (if f_gt F x (f_zero F) then x else f_zero F)"

lemma tensor_relu_value:
  "nt_wf a \<Longrightarrow> tensor_relu True F a = Inr (Some \<lparr>nt_shape = nt_shape a, nt_data = map (relu F) (nt_data a)\<rparr>)"
  unfolding tensor_relu_def relu_def [abs_def] by (rule tensor_map1_value)

section \<open>Straight-line code\<close>

text \<open>Executing instructions one after the other, each of which must ask to go on.\<close>

fun exec_line :: "'f fops \<Rightarrow> npe_inst list \<Rightarrow> 'f npe_program \<Rightarrow> 'f npe_program option" where
  "exec_line F [] p = Some p"
| "exec_line F (i # is) p =
     (case exec_inst (\<lambda>_. True) F p i of Inr (r, q) \<Rightarrow> if r = 0 then exec_line F is q else None
      | Inl _ \<Rightarrow> None)"

definition line_inst :: "npe_inst \<Rightarrow> bool" where
  "line_inst i \<longleftrightarrow> opcode i \<noteq> SNEPPX_HALT \<and> opcode i \<noteq> SNEPPX_BRANCH"

lemma vm_loop_line:
  "vm_program vm = Some p \<Longrightarrow> prog_wf p \<Longrightarrow>
   drop (np_pc p) (np_instructions p) = is @ h # rest \<Longrightarrow> opcode h = SNEPPX_HALT \<Longrightarrow>
   list_all line_inst is \<Longrightarrow> exec_line F is p = Some q \<Longrightarrow> length is < n \<Longrightarrow>
   \<exists>vm'. vm_loop (\<lambda>_ _. True) F n s vm = Inr (s + length is, vm') \<and> vm_program vm' = Some q \<and>
     vm_step_limit vm' = vm_step_limit vm \<and> (vm_jit vm = None \<longrightarrow> vm_jit vm' = None)"
proof (induction "is" arbitrary: vm p n s)
  case Nil
  then obtain n' where n: "n = Suc n'" by (cases n) auto
  have "np_pc p < length (np_instructions p)" "np_instructions p ! np_pc p = h"
    using Nil.prems(3) by (auto simp: nth_via_drop intro: ccontr)
  with Nil.prems n show ?case
    by (auto simp: SNEPPX_npe_vm_step_def Let_def SNEPPX_npe_jit_record_def)
next
  case (Cons i "is")
  then obtain n' where n: "n = Suc n'" by (cases n) auto
  have pc: "np_pc p < length (np_instructions p)" "np_instructions p ! np_pc p = i"
    using Cons.prems(3) by (auto simp: nth_via_drop intro: ccontr)
  have i: "opcode i \<noteq> SNEPPX_HALT" "opcode i \<noteq> SNEPPX_BRANCH" using Cons.prems(5) by (auto simp: line_inst_def)
  from Cons.prems(6) obtain p1 where e: "exec_inst (\<lambda>_. True) F p i = Inr (0, p1)"
    and rest: "exec_line F is p1 = Some q"
    by (auto split: sum.splits if_splits)
  have p1: "prog_wf p1" "np_instructions p1 = np_instructions p" "np_pc p1 = np_pc p + 1"
    using exec_inst_wf [OF Cons.prems(2) e] i by (auto simp: same_code_def)
  have d: "drop (np_pc p1) (np_instructions p1) = is @ h # rest"
    using Cons.prems(3) p1 by (metis Suc_eq_plus1 drop_Suc list.sel(3) append_Cons tl_drop)
  then have lt: "np_pc p1 < length (np_instructions p1)" by (auto intro: ccontr)
  obtain v where v: "SNEPPX_npe_vm_step (\<lambda>_. True) F vm = Inr (0, v)" "vm_program v = Some p1"
    "vm_step_limit v = vm_step_limit vm" "vm_jit vm = None \<longrightarrow> vm_jit v = None"
    using Cons.prems(1) pc i e lt
    by (auto simp: SNEPPX_npe_vm_step_def Let_def SNEPPX_npe_jit_record_def)
  from Cons.IH [OF v(2) p1(1) d Cons.prems(4) _ rest, of n' "s + 1"] Cons.prems(5,7) n v
  show ?case by auto
qed


section \<open>The multi-layer perceptron\<close>

lemma to_int_small [simp]: "n < 2 ^ 31 \<Longrightarrow> to_int n = int n"
  by (simp add: to_int_def signed_of_nat signed_take_bit_int_eq_self)

lemma imm_addr_small [simp]: "n < 2 ^ 31 \<Longrightarrow> imm_addr (of_nat n) = n"
  by (simp add: imm_addr_def signed_of_nat signed_take_bit_int_eq_self)

lemma set_reg_frame [simp]:
  "length (np_registers (set_reg p r v)) = length (np_registers p)"
  "np_memory (set_reg p r v) = np_memory p" "np_pc (set_reg p r v) = np_pc p"
  "np_registers (bump_pc p) = np_registers p" "np_memory (bump_pc p) = np_memory p"
  by (simp_all add: set_reg_def bump_pc_def)

lemma get_set_reg [array_simps]:
  "nat r < length (np_registers p) \<Longrightarrow>
   np_registers (set_reg p r v) ! k = (if k = nat r then v else np_registers p ! k)"
  by (simp add: set_reg_def)

text \<open>A load into an empty register of a block that lies in the memory.\<close>

lemma exec_load_value:
  assumes "in_file (dest_reg i)" "get_reg p (dest_reg i) = Null" "np_memory p = Some m"
    and "immediate i = of_nat a" "shape_a i = (int b, int c)" "0 < b"
    and "k = (if c = 0 then b else b * c)" "a + k \<le> nt_size m" "nt_wf m" "nt_size m < 2 ^ 31"
  shows "exec_load True F p i =
    Inr (0, set_reg p (dest_reg i) (Live \<lparr>nt_shape = (if c = 0 then [b] else [b, c]),
                                         nt_data = take k (drop a (nt_data m))\<rparr>))"
proof -
  have a: "a < 2 ^ 31" "a + k < 2 ^ 64" using assms(8,10) by auto
  have b: "int b mod 2 ^ 64 = int b" using assms(6,7,8,10)
    by (cases "c = 0") (auto intro!: mod_pos_pos_trivial
        order.strict_trans1 [of "int b" "int (b * c)"] simp del: of_nat_mult)
  show ?thesis
    using assms a b
    by (auto simp: exec_load_def npe_tensor_create_def Let_def nt_wf_def nt_size_def set_reg_def)
qed

text \<open>Integers in the place of the floats, for concrete runs.\<close>

definition int_fops :: "int fops" where
  "int_fops = \<lparr>f_zero = 0, f_add = (+), f_sub = (-), f_mul = (*), f_div = (div), f_neg = uminus,
     f_gt = (>), f_ge = (\<ge>), f_eq = (=), f_exp = (\<lambda>x. x), f_log = (\<lambda>x. x), f_sqrt = (\<lambda>x. x),
     f_sin = (\<lambda>x. x), f_cos = (\<lambda>x. x), f_tanh = (\<lambda>x. x), f_pow = (\<lambda>x y. x),
     f_of_size = int, f_to_size = nat, f_lit = (\<lambda>m e. m), f_of_bits = uint\<rparr>"

end
