(* ===== verification/Npe_Mlp.thy ===== *)
theory Npe_Mlp
  imports Npe_Correct
begin

text \<open>
  The multi-layer perceptron that \<open>SNEPPX_npe_compile_mlp\<close> emits, run on the neural VM: what each
  of its instructions leaves in the register file, and that the run returns the network's output.
\<close>

definition mlp_ref :: "'f fops \<Rightarrow> nat \<Rightarrow> nat \<Rightarrow> nat \<Rightarrow> 'f list \<Rightarrow> 'f list \<Rightarrow> 'f list" where
  "mlp_ref F n d h M x =
     (let W1 = take (d * h) M; b1 = take h (drop (d * h) M);
          W2 = take (h * d) (drop (h * d + h) M);
          b2 = take d (drop (h * d + h + d * h) M);
          hidden = map (relu F) (add_rows (f_add F) n h (mat_prod F n d h x W1) b1)
      in add_rows (f_add F) n d (mat_prod F n h d hidden W2) b2)"

lemma inst_zero_imm [simp]: "immediate inst_zero = 0"
  by (simp add: inst_zero_def)

lemma set_reg_same: "get_reg p d = v \<Longrightarrow> set_reg p d v = p"
  by (auto simp: set_reg_def)

lemma set_reg_twice [simp]: "set_reg (set_reg p d v) d w = set_reg p d w"
  by (simp add: set_reg_def)

lemma exec_matmul_value:
  assumes "in_file d" "in_file sa" "in_file sb" "get_reg p d = Null"
    and "get_reg p sa = Live \<lparr>nt_shape = [m, k], nt_data = A\<rparr>" "get_reg p sb = Live \<lparr>nt_shape = [k, n], nt_data = B\<rparr>"
    and "length A = m * k" "length B = k * n"
  shows "exec_matmul (\<lambda>_. True) F p
      (inst_zero\<lparr>opcode := SNEPPX_MATMUL, dest_reg := d, src_reg_a := sa, src_reg_b := sb\<rparr>) =
    Inr (set_reg p d (Live \<lparr>nt_shape = [m, n], nt_data = mat_prod F m k n A B\<rparr>))"
  using assms
  by (simp add: exec_matmul_def inst_zero_def usable_def then_tensor_def tensor_matmul_value)

lemma exec_add_value:
  assumes "in_file d" "in_file sa" "in_file sb" "get_reg p d = Null"
    and "get_reg p sa = Live \<lparr>nt_shape = [m, n], nt_data = A\<rparr>" "get_reg p sb = Live \<lparr>nt_shape = [n], nt_data = B\<rparr>"
    and "length A = m * n" "length B = n" 
  shows "exec_binary (tensor_add True F) p d sa sb =
    Inr (set_reg p d (Live \<lparr>nt_shape = [m, n], nt_data = add_rows (f_add F) m n A B\<rparr>))"
  using assms
  by (auto simp: exec_binary_def replace_reg_def usable_def tensor_add_def tensor_zip_value set_reg_same)

lemma exec_relu_value:
  assumes "in_file d" "in_file sa" "get_reg p d = Null" "get_reg p sa = Live t" "nt_wf t" 
  shows "exec_unary (tensor_relu True F) p d sa =
    Inr (set_reg p d (Live \<lparr>nt_shape = nt_shape t, nt_data = map (relu F) (nt_data t)\<rparr>))"
  using assms
  by (auto simp: exec_unary_def replace_reg_def usable_def tensor_relu_value set_reg_same)
lemma exec_store_value:
  assumes "in_file (src_reg_a i)" "get_reg p (src_reg_a i) = Live t" "nt_wf t" "np_memory p = Some m" "nt_wf m"
    "immediate i = of_nat a" "a + nt_size t \<le> nt_size m" "nt_size m < 2 ^ 31"
  shows "exec_store p i = Inr (0, p\<lparr>np_memory := Some (m\<lparr>nt_data :=
    take a (nt_data m) @ nt_data t @ drop (a + nt_size t) (nt_data m)\<rparr>)\<rparr>)"
  using assms by (simp add: exec_store_def usable_def nt_wf_def Let_def)

lemma exec_line_append:
  "exec_line F (xs @ ys) p = (case exec_line F xs p of None \<Rightarrow> None | Some q \<Rightarrow> exec_line F ys q)"
  by (induction xs arbitrary: p) (auto split: sum.splits)

lemmas line_simps =
  exec_inst_def exec_kernel_def exec_matmul_def exec_binary_def exec_unary_def replace_reg_def
  usable_def in_file_def array_simps then_tensor_def tensor_add_def tensor_matmul_value
  tensor_zip_value tensor_relu_value nt_wf_def nt_size_def set_reg_same

definition load_inst :: "int \<Rightarrow> nat \<Rightarrow> nat \<Rightarrow> nat \<Rightarrow> npe_inst" where
  "load_inst r a b c = inst_zero\<lparr>opcode := SNEPPX_LOAD, dest_reg := r, immediate := of_nat a, shape_a := (int b, int c)\<rparr>"

lemma opcode_load_inst [simp]: "opcode (load_inst r a b c) = SNEPPX_LOAD"
  by (simp add: load_inst_def)

lemma exec_load_inst:
  assumes "in_file r" "get_reg p r = Null" "np_memory p = Some \<lparr>nt_shape = [k], nt_data = M\<rparr>"
    "0 < b" "a + (if c = 0 then b else b * c) \<le> k" "length M = k" "k < 2 ^ 31"
  shows "exec_load True F p (load_inst r a b c) = Inr (0, set_reg p r
    (Live \<lparr>nt_shape = (if c = 0 then [b] else [b, c]),
          nt_data = take (if c = 0 then b else b * c) (drop a M)\<rparr>))"
  using assms exec_load_value [of "load_inst r a b c" p "\<lparr>nt_shape = [k], nt_data = M\<rparr>" a b c _ F, OF _ _ _ _ _ _ refl]
  by (simp add: load_inst_def nt_wf_def nt_size_def)

text \<open>The two halves of the program of \<open>SNEPPX_npe_compile_mlp\<close>.\<close>

lemma mlp_half1:
  assumes regs: "length (np_registers p) = 16" "\<forall>r \<in> {1..9}. np_registers p ! r = Null"
    and inp: "np_registers p ! 0 = Live \<lparr>nt_shape = [n, d], nt_data = x\<rparr>" "length x = n * d"
    and mem: "np_memory p = Some \<lparr>nt_shape = [65536], nt_data = M\<rparr>" "length M = 65536"
    and dims: "0 < d" "0 < h" and room: "d * h + h \<le> 65536"
  shows "\<exists>q. exec_line F
      [load_inst 1 0 d h, load_inst 2 (d * h) h 0,
       inst_zero\<lparr>opcode := SNEPPX_MATMUL, dest_reg := 3, src_reg_a := 0, src_reg_b := 1\<rparr>,
       inst_zero\<lparr>opcode := SNEPPX_ADD, dest_reg := 4, src_reg_a := 3, src_reg_b := 2\<rparr>,
       inst_zero\<lparr>opcode := SNEPPX_RELU, dest_reg := 5, src_reg_a := 4\<rparr>] p = Some q \<and>
    np_registers q ! 5 = Live \<lparr>nt_shape = [n, h], nt_data = map (relu F)
      (add_rows (f_add F) n h (mat_prod F n d h x (take (d * h) M)) (take h (drop (d * h) M)))\<rparr> \<and>
    (\<forall>r \<in> {6..15}. np_registers q ! r = np_registers p ! r) \<and> length (np_registers q) = 16 \<and>
    np_memory q = np_memory p"
proof -
  have N: "np_registers p ! Suc 0 = Null" "np_registers p ! 2 = Null" "np_registers p ! 3 = Null"
    "np_registers p ! 4 = Null" "np_registers p ! 5 = Null"
    using regs(2) by auto
  show ?thesis
    using dims mem inp regs(1) room
    by (simp add: exec_load_inst [where k = 65536 and M = M] N line_simps)
qed

lemma mlp_half2:
  assumes regs: "length (np_registers p) = 16" "\<forall>r \<in> {6..9}. np_registers p ! r = Null"
    and inp: "np_registers p ! 5 = Live \<lparr>nt_shape = [n, h], nt_data = x\<rparr>" "length x = n * h"
    and mem: "np_memory p = Some \<lparr>nt_shape = [65536], nt_data = M\<rparr>" "length M = 65536"
    and dims: "0 < d" "0 < h" and room: "a + h * d \<le> b" "b + d \<le> c" "c + n * d \<le> 65536"
  shows "\<exists>q. exec_line F
      [load_inst 6 a h d, load_inst 7 b d 0,
       inst_zero\<lparr>opcode := SNEPPX_MATMUL, dest_reg := 8, src_reg_a := 5, src_reg_b := 6\<rparr>,
       inst_zero\<lparr>opcode := SNEPPX_ADD, dest_reg := 9, src_reg_a := 8, src_reg_b := 7\<rparr>,
       inst_zero\<lparr>opcode := SNEPPX_STORE, src_reg_a := 9, immediate := of_nat c\<rparr>] p = Some q \<and>
    np_registers q ! 9 = Live \<lparr>nt_shape = [n, d], nt_data = 
      add_rows (f_add F) n d (mat_prod F n h d x (take (h * d) (drop a M))) (take d (drop b M))\<rparr> \<and>
    (\<forall>r \<in> {10..15}. np_registers q ! r = np_registers p ! r) \<and> length (np_registers q) = 16 \<and>
    np_memory q = Some \<lparr>nt_shape = [65536], nt_data = take c M @ 
      add_rows (f_add F) n d (mat_prod F n h d x (take (h * d) (drop a M))) (take d (drop b M)) @
      drop (c + n * d) M\<rparr>"
proof -
  have N: "np_registers p ! 6 = Null" "np_registers p ! 7 = Null" "np_registers p ! 8 = Null"
    "np_registers p ! 9 = Null"
    using regs(2) by auto
  show ?thesis
    using dims mem inp regs(1) room
    by (simp add: exec_load_inst [where k = 65536 and M = M] N line_simps exec_store_def)
qed

lemma mlp_code_halves:
  assumes "d < 2 ^ 31" "h < 2 ^ 31"
  shows "mlp_code d h =
     ([load_inst 1 0 d h, load_inst 2 (d * h) h 0,
       inst_zero\<lparr>opcode := SNEPPX_MATMUL, dest_reg := 3, src_reg_a := 0, src_reg_b := 1\<rparr>,
       inst_zero\<lparr>opcode := SNEPPX_ADD, dest_reg := 4, src_reg_a := 3, src_reg_b := 2\<rparr>,
       inst_zero\<lparr>opcode := SNEPPX_RELU, dest_reg := 5, src_reg_a := 4\<rparr>] @
      [load_inst 6 (h * d + h) h d, load_inst 7 (h * d + h + d * h) d 0,
       inst_zero\<lparr>opcode := SNEPPX_MATMUL, dest_reg := 8, src_reg_a := 5, src_reg_b := 6\<rparr>,
       inst_zero\<lparr>opcode := SNEPPX_ADD, dest_reg := 9, src_reg_a := 8, src_reg_b := 7\<rparr>,
       inst_zero\<lparr>opcode := SNEPPX_STORE, src_reg_a := 9,
         immediate := of_nat (h * d + h + d * h + d)\<rparr>]) @ [inst_zero\<lparr>opcode := SNEPPX_HALT\<rparr>]"
  using assms by (simp add: mlp_code_def load_inst_def)

text \<open>
  The network that the program is meant to compute: \<open>relu (x W1 + b1) W2 + b2\<close>, with the
  parameters in the memory at the offsets that \<open>SNEPPX_npe_compile_mlp\<close> documents.
\<close>

lemma mlp_line:
  assumes regs: "length (np_registers p) = 16" "\<forall>r \<in> {1..9}. np_registers p ! r = Null"
    and inp: "np_registers p ! 0 = Live \<lparr>nt_shape = [n, d], nt_data = x\<rparr>" "length x = n * d"
    and mem: "np_memory p = Some \<lparr>nt_shape = [65536], nt_data = M\<rparr>" "length M = 65536"
    and dims: "0 < d" "0 < h" and room: "h * d + h + d * h + d + n * d \<le> 65536"
  shows "\<exists>q. exec_line F (butlast (mlp_code d h)) p = Some q \<and>
    np_registers q ! 9 = Live \<lparr>nt_shape = [n, d], nt_data = mlp_ref F n d h M x\<rparr> \<and>
    (\<forall>r \<in> {10..15}. np_registers q ! r = np_registers p ! r) \<and> length (np_registers q) = 16 \<and>
    np_memory q = Some \<lparr>nt_shape = [65536], nt_data =
      take (h * d + h + d * h + d) M @ mlp_ref F n d h M x @ drop (h * d + h + d * h + d + n * d) M\<rparr>"
proof -
  have hd: "h * d + h \<le> 65536" using room by simp
  have dh: "d * h + h \<le> 65536" using hd by (simp only: mult.commute)
  have b: "d < 2 ^ 31" "h < 2 ^ 31" using room by simp_all
  define H where "H = map (relu F)
      (add_rows (f_add F) n h (mat_prod F n d h x (take (d * h) M)) (take h (drop (d * h) M)))"
  obtain p1 where p1: "exec_line F (take 5 (mlp_code d h)) p = Some p1"
    "np_registers p1 ! 5 = Live \<lparr>nt_shape = [n, h], nt_data = H\<rparr>"
    "\<forall>r \<in> {6..15}. np_registers p1 ! r = np_registers p ! r" "length (np_registers p1) = 16"
    "np_memory p1 = np_memory p"
    using mlp_half1 [OF regs inp mem dims dh, of F] by (auto simp: mlp_code_halves [OF b] H_def)
  have r1: "\<forall>r \<in> {6..9}. np_registers p1 ! r = Null" using p1(3) regs(2) by simp
  have H: "length H = n * h" by (simp add: H_def)
  have ref: "mlp_ref F n d h M x =
      add_rows (f_add F) n d (mat_prod F n h d H (take (h * d) (drop (h * d + h) M)))
        (take d (drop (h * d + h + d * h) M))"
    by (simp add: mlp_ref_def Let_def H_def)
  obtain q where q: "exec_line F (drop 5 (butlast (mlp_code d h))) p1 = Some q"
    "np_registers q ! 9 = Live \<lparr>nt_shape = [n, d], nt_data = mlp_ref F n d h M x\<rparr>"
    "\<forall>r \<in> {10..15}. np_registers q ! r = np_registers p1 ! r" "length (np_registers q) = 16"
    "np_memory q = Some \<lparr>nt_shape = [65536], nt_data =
      take (h * d + h + d * h + d) M @ mlp_ref F n d h M x @ drop (h * d + h + d * h + d + n * d) M\<rparr>"
    using mlp_half2 [OF p1(4) r1 p1(2) H p1(5) [unfolded mem(1)] mem(2) dims, where F = F and
        a = "h * d + h" and b = "h * d + h + d * h" and c = "h * d + h + d * h + d"] room
    by (auto simp: mlp_code_halves [OF b] ref mult.commute)
  have "butlast (mlp_code d h) = take 5 (mlp_code d h) @ drop 5 (butlast (mlp_code d h))"
    by (simp add: mlp_code_def)
  then have "exec_line F (butlast (mlp_code d h)) p = Some q"
    using p1(1) q(1) by (metis exec_line_append option.simps(5))
  with p1(3) q show ?thesis by auto
qed


lemma last_reg_9:
  assumes "\<forall>r \<in> {10..15}. np_registers q ! r = Null" "np_registers q ! 9 = Live t"
  shows "last_reg q = Some 9"
proof -
  have "rev [0..<16] = [15, 14, 13, 12, 11, 10, 9, 8, 7, 6, 5, 4, 3, 2, 1, 0 :: nat]"
    by (simp add: upt_rec)
  then show ?thesis using assms by (simp add: last_reg_def)
qed

lemma mlp_code_length: "length (mlp_code d h) = 11"
  by (simp add: mlp_code_def)

lemma compile_mlp_code:
  assumes "SNEPPX_npe_compile_mlp (\<lambda>_. True) F d h = Some p"
  shows "np_instructions p = mlp_code d h" "np_registers p = replicate 16 Null" "np_pc p = 0"
  using assms
  by (auto simp: SNEPPX_npe_compile_mlp_def SNEPPX_npe_program_create_def append_all_instructions
      mlp_code_length)

lemma mlp_code_line:
  "mlp_code d h = butlast (mlp_code d h) @ [inst_zero\<lparr>opcode := SNEPPX_HALT\<rparr>]"
  "list_all line_inst (butlast (mlp_code d h))" "length (butlast (mlp_code d h)) = 10"
  by (simp_all add: mlp_code_def line_inst_def)

text \<open>C1. The program of \<open>SNEPPX_npe_compile_mlp\<close>, loaded into a fresh machine without JIT with the
  parameters in its memory, runs to its end on a batch of \<open>n\<close> rows, returns 0 and
  \<open>relu (x W1 + b1) W2 + b2\<close>, and stores that result behind the parameters, for every
  arithmetic of floats and all dimensions that fit the memory.\<close>

theorem compile_mlp_computes:
  assumes prog: "SNEPPX_npe_compile_mlp (\<lambda>_. True) F d h = Some p"
    and vm: "SNEPPX_npe_vm_create (\<lambda>_. True) (Some cfg) = Some vm" "jit_enabled cfg = 0" "10 < step_limit cfg"
    and mem: "length M = 65536" and inp: "length x = n * d"
    and dims: "0 < d" "0 < h" and room: "h * d + h + d * h + d + n * d \<le> 65536"
  shows "\<exists>vm' q. SNEPPX_npe_vm_run (\<lambda>_ _. True) (\<lambda>_. True) F
      (SNEPPX_npe_vm_load vm (Some (p\<lparr>np_memory := Some \<lparr>nt_shape = [65536], nt_data = M\<rparr>\<rparr>)))
      \<lparr>nt_shape = [n, d], nt_data = x\<rparr> =
      Inr (0, Some \<lparr>nt_shape = [n, d], nt_data = mlp_ref F n d h M x\<rparr>, vm') \<and>
    vm_program vm' = Some q \<and>
    np_memory q = Some \<lparr>nt_shape = [65536], nt_data =
      take (h * d + h + d * h + d) M @ mlp_ref F n d h M x @ drop (h * d + h + d * h + d + n * d) M\<rparr>"
proof -
  let ?x = "\<lparr>nt_shape = [n, d], nt_data = x\<rparr>" and ?m = "\<lparr>nt_shape = [65536], nt_data = M\<rparr>"
  define p1 where "p1 = set_reg (p\<lparr>np_memory := Some ?m, np_pc := 0\<rparr>) 0 (Live ?x)"
  define v1 where "v1 = vm\<lparr>vm_trace := [], vm_program := Some p1\<rparr>"
  note c = compile_mlp_code [OF prog]
  have v: "vm_jit v1 = None" "vm_step_limit v1 = step_limit cfg" "vm_program v1 = Some p1"
    using vm by (auto simp: v1_def SNEPPX_npe_vm_create_def)
  have r: "length (np_registers p1) = 16" "\<forall>r \<in> {1..15}. np_registers p1 ! r = Null"
    "np_registers p1 ! 0 = Live ?x" "np_memory p1 = Some ?m" "np_instructions p1 = mlp_code d h" "np_pc p1 = 0"
    using c by (auto simp: p1_def set_reg_def)
  have wf: "prog_wf p1"
    using c mem inp unfolding p1_def
    by (intro prog_wf_set_reg) (auto simp: prog_wf_def regs_wf_def nt_wf_def nt_size_def)
  obtain q where q: "exec_line F (butlast (mlp_code d h)) p1 = Some q"
    "np_registers q ! 9 = Live \<lparr>nt_shape = [n, d], nt_data = mlp_ref F n d h M x\<rparr>"
    "\<forall>r \<in> {10..15}. np_registers q ! r = np_registers p1 ! r"
    "np_memory q = Some \<lparr>nt_shape = [65536], nt_data =
      take (h * d + h + d * h + d) M @ mlp_ref F n d h M x @ drop (h * d + h + d * h + d + n * d) M\<rparr>"
    using mlp_line [OF r(1) _ r(3) inp r(4) mem dims room, of F] r(2) by auto
  obtain v2 where l: "vm_loop (\<lambda>_ _. True) F (step_limit cfg) 0 v1 = Inr (10, v2)"
    "vm_program v2 = Some q" "vm_step_limit v2 = step_limit cfg" "vm_jit v2 = None"
    using vm_loop_line [OF v(3) wf _ _ mlp_code_line(2) q(1), of "inst_zero\<lparr>opcode := SNEPPX_HALT\<rparr>" "[]"
        "step_limit cfg" 0] vm(3) v
    by (auto simp: r mlp_code_length mlp_code_line(1) [symmetric])
  have out: "last_reg q = Some 9" using q(2,3) r(2) by (intro last_reg_9) auto
  have cp: "replace_reg (p\<lparr>np_memory := Some ?m, np_pc := 0\<rparr>) 0 (\<lambda>_. copy_tensor True F ?x) = Inr p1"
    using c inp by (simp add: replace_reg_def copy_tensor_def tensor_map1_value nt_wf_def nt_size_def p1_def)
  have mr: "length (mlp_ref F n d h M x) = n * d" by (simp add: mlp_ref_def Let_def)
  show ?thesis
    using cp l out q(2,4) vm mr v(2)
    by (auto simp: SNEPPX_npe_vm_run_def SNEPPX_npe_vm_load_def Let_def copy_tensor_def tensor_map1_value
       nt_wf_def nt_size_def v1_def)
qed

theorem compile_mlp_computes_witness:
  "\<exists>vm' q. SNEPPX_npe_vm_run (\<lambda>_ _. True) (\<lambda>_. True) int_fops
      (SNEPPX_npe_vm_load (the (SNEPPX_npe_vm_create (\<lambda>_. True) (Some SNEPPX_npe_config_default)))
        (Some ((the (SNEPPX_npe_compile_mlp (\<lambda>_. True) int_fops 1 1))
          \<lparr>np_memory := Some \<lparr>nt_shape = [65536], nt_data = [2, 3, 5, 7] @ replicate 65532 0\<rparr>\<rparr>)))
      \<lparr>nt_shape = [2, 1], nt_data = [1, - 4]\<rparr> =
      Inr (0, Some \<lparr>nt_shape = [2, 1], nt_data = [32, 7]\<rparr>, vm') \<and>
    vm_program vm' = Some q \<and>
    np_memory q = Some \<lparr>nt_shape = [65536], nt_data = [2, 3, 5, 7] @ [32, 7] @ replicate 65530 0\<rparr>"
proof -
  let ?M = "[2, 3, 5, 7] @ replicate 65532 (0 :: int)"
  have r: "mlp_ref int_fops 2 1 1 ?M [1, - 4] = [32, 7]"
    by (simp add: mlp_ref_def add_rows_def mat_prod_def pairs_def upt_rec relu_def int_fops_def)
  have v: "SNEPPX_npe_vm_create (\<lambda>_. True) (Some SNEPPX_npe_config_default) =
      Some (the (SNEPPX_npe_vm_create (\<lambda>_. True) (Some SNEPPX_npe_config_default)))"
    "SNEPPX_npe_compile_mlp (\<lambda>_. True) int_fops 1 1 =
      Some (the (SNEPPX_npe_compile_mlp (\<lambda>_. True) int_fops 1 1))"
    by (simp_all add: SNEPPX_npe_vm_create_def SNEPPX_npe_compile_mlp_def SNEPPX_npe_program_create_def)
  show ?thesis
    using compile_mlp_computes [OF v(2) v(1), of ?M "[1, - 4]" 2] r
    by (simp add: SNEPPX_npe_config_default_def drop_Cons' take_Cons')
qed

end
