(* ===== verification/Npe_Safety.thy ===== *)
theory Npe_Safety
  imports Npe_Mlp
begin

text \<open>
  Safety of the neural VM: the machine invariant, what a passed verification guarantees
  (memory transfers stay in bounds, programs without backward branches halt before the step
  limit), and what operator fusion keeps of a layer.
\<close>

unbundle bit_operations_syntax

section \<open>Verified programs\<close>

definition forward_branches :: "'f npe_program \<Rightarrow> bool" where
  "forward_branches p \<longleftrightarrow> (\<forall>i < length (np_instructions p).
     opcode (np_instructions p ! i) = SNEPPX_BRANCH \<longrightarrow> i < imm_addr (immediate (np_instructions p ! i)))"

lemma forward_branches_same_code: "same_code p q \<Longrightarrow> forward_branches q = forward_branches p"
  by (simp add: forward_branches_def same_code_def)

lemma imm_addr_nonneg: "0 \<le> sint w \<Longrightarrow> imm_addr w = nat (sint w)"
  using sint_lt [of w] by (simp add: imm_addr_def)

lemma verified_forward:
  assumes v: "SNEPPX_npe_verify_program (Some p) = Inr (1, ds)" and nb: "\<forall>i. Backward_Branch i \<notin> set ds"
  shows "forward_branches p"
  unfolding forward_branches_def
proof (intro allI impI)
  fix i assume i: "i < length (np_instructions p)" and b: "opcode (np_instructions p ! i) = SNEPPX_BRANCH"
  let ?f = "\<lambda>i. verify_inst p i (np_instructions p ! i)" and ?inst = "np_instructions p ! i"
  from v obtain rs where rs: "map_run ?f [0..<length (np_instructions p)] = Inr rs"
    and sub: "\<exists>es. ds = concat (map fst rs) @ es" and ok: "\<forall>r \<in> set rs. snd r"
    by (auto simp: SNEPPX_npe_verify_program_def Let_def split: if_splits)
  have fi: "?f i = Inr (rs ! i)"
    using map_run_nth [OF rs, of i] i by simp
  have mem: "rs ! i \<in> set rs" using map_run_length [OF rs] i by simp
  have "inst_verified p ?inst"
    using fi ok mem verify_inst_pass [of p i ?inst "fst (rs ! i)"] by (metis prod.collapse)
  moreover have "Backward_Branch i \<notin> set (fst (rs ! i))" using nb sub mem by fastforce
  then have "\<not> sint (immediate ?inst) \<le> int i"
    using fi b by (cases "rs ! i") (auto simp: verify_inst_def Let_def split: if_splits)
  ultimately show "i < imm_addr (immediate ?inst)" using b
    by (simp add: inst_verified_def imm_addr_nonneg)
qed

lemma vm_step_advances:
  assumes "vm_wf vm" "vm_program vm = Some p" "SNEPPX_npe_vm_step ok F vm = Inr (0, vm')" "forward_branches p"
  shows "\<exists>q. vm_program vm' = Some q \<and> same_code p q \<and> np_pc p < np_pc q \<and> np_pc q < length (np_instructions p)"
proof -
  let ?i = "np_instructions p ! np_pc p"
  from assms(2,3) obtain q where pc: "np_pc p < length (np_instructions p)" and
    q: "exec_inst ok F p ?i = Inr (0, q)" "vm_program vm' = Some q" "np_pc q < length (np_instructions q)"
    by (auto simp: SNEPPX_npe_vm_step_def Let_def split: if_splits)
  have "prog_wf p" using assms(1,2) by (simp add: vm_wf_def)
  from exec_inst_wf [OF this q(1)] pc q assms(4) show ?thesis
    by (auto simp: forward_branches_def same_code_def)
qed

lemma vm_loop_forward:
  "vm_wf vm \<Longrightarrow> vm_program vm = Some p \<Longrightarrow> forward_branches p \<Longrightarrow>
   vm_loop ok F n s vm = Inr (s', vm') \<Longrightarrow> s' \<le> s + (length (np_instructions p) - 1 - np_pc p)"
proof (induction n arbitrary: s vm p)
  case (Suc n)
  then obtain r v where st: "SNEPPX_npe_vm_step (ok s) F vm = Inr (r, v)"
    and rest: "if r \<noteq> 0 then s' = s else vm_loop ok F n (s + 1) v = Inr (s', vm')"
    by (auto split: if_splits)
  show ?case
  proof (cases "r = 0")
    case True
    with vm_step_advances [OF Suc.prems(1,2) _ Suc.prems(3)] st obtain q where
      q: "vm_program v = Some q" "same_code p q" "np_pc p < np_pc q" "np_pc q < length (np_instructions p)"
      by blast
    have "vm_wf v" using vm_step_wf [OF Suc.prems(1) st] by simp
    from Suc.IH [OF this q(1), of "s + 1"] rest True q Suc.prems(3) show ?thesis
      by (simp add: forward_branches_same_code [OF q(2)]) (auto simp: same_code_def)
  qed (use rest in simp)
qed simp

definition fits_int :: "int \<Rightarrow> bool" where
  "fits_int x \<longleftrightarrow> - (2 ^ 31) \<le> x \<and> x < 2 ^ 31"

lemma mult_int_bound: "0 \<le> a \<Longrightarrow> a < 2 ^ 31 \<Longrightarrow> 0 \<le> b \<Longrightarrow> b < 2 ^ 31 \<Longrightarrow> nat a * nat b < 2 ^ 62"
proof -
  assume "0 \<le> a" "a < 2 ^ 31" "0 \<le> b" "b < 2 ^ 31"
  then have "nat a * nat b \<le> 2 ^ 31 * (2 ^ 31 - 1)" by (intro mult_mono) auto
  then show ?thesis by simp
qed

section \<open>Fusion\<close>

lemma bias_reg_of_fused:
  assumes "in_file r"
  shows "uint (with_bias_reg (0 OR flag_bias_relu) r AND 0xFF) = r"
    "with_bias_reg (0 OR flag_bias_relu) r AND flag_bias_relu \<noteq> 0"
proof -
  have "r = 0 \<or> r = 1 \<or> r = 2 \<or> r = 3 \<or> r = 4 \<or> r = 5 \<or> r = 6 \<or> r = 7 \<or> r = 8 \<or> r = 9 \<or>
      r = 10 \<or> r = 11 \<or> r = 12 \<or> r = 13 \<or> r = 14 \<or> r = 15"
    using assms unfolding in_file_def by presburger
  then show "uint (with_bias_reg (0 OR flag_bias_relu) r AND 0xFF) = r"
    "with_bias_reg (0 OR flag_bias_relu) r AND flag_bias_relu \<noteq> 0"
    by (auto simp: with_bias_reg_def flag_bias_relu_def)
qed


section \<open>A small program\<close>

definition demo_program :: "int npe_program" where
  "demo_program =
     \<lparr>np_instructions =
        [load_inst 1 1 2 0,
         inst_zero\<lparr>opcode := SNEPPX_BRANCH, src_reg_a := 1, immediate := 3\<rparr>,
         inst_zero\<lparr>opcode := SNEPPX_RELU, dest_reg := 2, src_reg_a := 0\<rparr>,
         inst_zero\<lparr>opcode := SNEPPX_HALT\<rparr>],
      np_max_instructions = 4, np_registers = replicate 16 Null,
      np_memory = Some \<lparr>nt_shape = [3], nt_data = [5, 6, 7]\<rparr>, np_pc = 0\<rparr>"

definition demo_vm :: "int npe_vm" where
  "demo_vm = \<lparr>vm_program = Some demo_program, vm_trace = [], vm_max_trace = 4, vm_step_limit = 4, vm_jit = None\<rparr>"

lemma demo_verified: "SNEPPX_npe_verify_program (Some demo_program) = Inr (1, [])"
  by (simp add: SNEPPX_npe_verify_program_def demo_program_def verify_inst_def inst_zero_def load_inst_def
      nt_size_def upt_rec)

lemma demo_wf: "prog_wf demo_program" "vm_wf demo_vm"
  by (auto simp: prog_wf_def regs_wf_def demo_program_def demo_vm_def vm_wf_def nt_wf_def nt_size_def)

lemma demo_run:
  "\<exists>vm'. SNEPPX_npe_vm_run (\<lambda>_ _. True) (\<lambda>_. True) int_fops demo_vm \<lparr>nt_shape = [1], nt_data = [1]\<rparr> =
     Inr (0, Some \<lparr>nt_shape = [2], nt_data = [6, 7]\<rparr>, vm')"
proof -
  let ?x = "\<lparr>nt_shape = [1], nt_data = [1 :: int]\<rparr>"
  let ?run = "vm_loop (\<lambda>_ _. True) int_fops"
  define p0 where "p0 = set_reg demo_program 0 (Live ?x)"
  define p1 where "p1 = bump_pc (set_reg p0 1 (Live \<lparr>nt_shape = [2], nt_data = [6, 7]\<rparr>))"
  define p2 where "p2 = p1\<lparr>np_pc := 3\<rparr>"
  define v where "v = (\<lambda>p tr. demo_vm\<lparr>vm_trace := tr, vm_program := Some p\<rparr>)"
  note i = demo_program_def p0_def p1_def set_reg_def bump_pc_def
  have c: "replace_reg (demo_program\<lparr>np_pc := 0\<rparr>) 0 (\<lambda>_. copy_tensor True int_fops ?x) = Inr p0"
    by (simp add: i replace_reg_def copy_tensor_def tensor_map1_value nt_wf_def nt_size_def)
  have l: "exec_load True int_fops p0 (load_inst 1 1 2 0) =
      Inr (0, set_reg p0 1 (Live \<lparr>nt_shape = [2], nt_data = [6, 7]\<rparr>))"
    by (subst exec_load_inst [where k = 3 and M = "[5, 6, 7]"]) (simp_all add: i in_file_def)
  have b: "exec_branch int_fops p1 (inst_zero\<lparr>opcode := SNEPPX_BRANCH, src_reg_a := 1, immediate := 3\<rparr>) = Inr 3"
    by (simp add: i exec_branch_def usable_def in_file_def int_fops_def imm_addr_def)
  have s0: "SNEPPX_npe_vm_step (\<lambda>_. True) int_fops (v p0 []) = Inr (0, v p1 [load_inst 1 1 2 0])"
    using l by (simp add: SNEPPX_npe_vm_step_def v_def exec_inst_def demo_vm_def SNEPPX_npe_jit_record_def)
       (simp add: i exec_inst_def Let_def)
  have s1: "SNEPPX_npe_vm_step (\<lambda>_. True) int_fops (v p1 tr) = Inr (0, v p2 (tr @ [np_instructions demo_program ! 1]))"
    if "length tr = 1" for tr
    using b that
    by (simp add: SNEPPX_npe_vm_step_def v_def demo_vm_def SNEPPX_npe_jit_record_def)
       (simp add: i exec_inst_def p2_def Let_def)
  have s2: "\<exists>tr'. SNEPPX_npe_vm_step (\<lambda>_. True) int_fops (v p2 tr) = Inr (1, v p2 tr')" for tr
    by (simp add: SNEPPX_npe_vm_step_def v_def demo_vm_def SNEPPX_npe_jit_record_def p2_def Let_def)
       (auto simp: i)
  have "\<exists>tr. ?run (Suc (Suc (Suc (Suc 0)))) 0 (v p0 []) = Inr (2, v p2 tr)"
    using s0 s1 [of "[load_inst 1 1 2 0]"] s2 [of "[load_inst 1 1 2 0, np_instructions demo_program ! 1]"] by auto
  then obtain tr where r: "?run 4 0 (v p0 []) = Inr (2, v p2 tr)" by (auto simp: numeral_eq_Suc)
  have o: "last_reg p2 = Some 1"
    by (simp add: last_reg_def p2_def i upt_rec)
  show ?thesis
    using c r o
    by (auto simp: SNEPPX_npe_vm_run_def v_def demo_vm_def copy_tensor_def tensor_map1_value nt_wf_def nt_size_def Let_def)
       (simp add: i p2_def tensor_map1_value nt_wf_def nt_size_def)
qed

definition demo_layer :: "npe_inst list" where
  "demo_layer = [inst_zero\<lparr>opcode := SNEPPX_MATMUL, dest_reg := 3, src_reg_a := 0, src_reg_b := 1\<rparr>,
     inst_zero\<lparr>opcode := SNEPPX_ADD, dest_reg := 4, src_reg_a := 3, src_reg_b := 2\<rparr>,
     inst_zero\<lparr>opcode := SNEPPX_RELU, dest_reg := 5, src_reg_a := 4\<rparr>]"

definition demo_layer_program :: "int npe_program" where
  "demo_layer_program = demo_program\<lparr>np_registers :=
     [Live \<lparr>nt_shape = [1, 1], nt_data = [2]\<rparr>, Live \<lparr>nt_shape = [1, 1], nt_data = [3]\<rparr>,
      Live \<lparr>nt_shape = [1], nt_data = [- 5]\<rparr>] @ replicate 13 Null\<rparr>"


section \<open>Properties\<close>

text \<open>C18. A program that the verifier passes without reporting a backward branch halts: no run that
  starts from a well-formed machine with a step limit of at least the program's length returns
  the code 2 of an exhausted step limit, whatever allocations fail.\<close>

theorem verified_forward_program_halts:
  assumes "SNEPPX_npe_verify_program (Some p) = Inr (1, ds)" "\<forall>i. Backward_Branch i \<notin> set ds"
    and "vm_wf vm" "vm_program vm = Some p"
    and "length (np_instructions p) \<le> vm_step_limit vm"
    and "SNEPPX_npe_vm_run ok ok' F vm input = Inr (code, out, vm')"
  shows "code \<in> {0, 1}"
proof -
  have f: "forward_branches p" by (rule verified_forward [OF assms(1,2)])
  have ne: "0 < length (np_instructions p)" using verify_program_iff [of p] assms(1) by auto
  have "yields_wf (copy_tensor (ok' 0) F input)" unfolding copy_tensor_def kernel_defs by (intro kernel_wf)
  then have r: "steps_to_wf (p\<lparr>np_pc := 0\<rparr>) (replace_reg (p\<lparr>np_pc := 0\<rparr>) 0 (\<lambda>_. copy_tensor (ok' 0) F input))"
    using assms(3,4) by (intro replace_reg_wf) (auto simp: vm_wf_def)
  from assms(4,6) obtain q steps v where
    q: "replace_reg (p\<lparr>np_pc := 0\<rparr>) 0 (\<lambda>_. copy_tensor (ok' 0) F input) = Inr q" and
    l: "vm_loop ok F (vm_step_limit vm) 0 (vm\<lparr>vm_trace := [], vm_program := Some q\<rparr>) = Inr (steps, v)" and
    c: "code = 1 \<or> code = (if vm_step_limit v \<le> steps then 2 else 0)"
    by (auto simp: SNEPPX_npe_vm_run_def Let_def split: option.splits if_splits)
  have qw: "prog_wf q" "same_code p q" using r q by (auto simp: steps_to_wf_def same_code_def)
  have w: "vm_wf (vm\<lparr>vm_trace := [], vm_program := Some q\<rparr>)" using qw by (simp add: vm_wf_def)
  have len: "length (np_instructions q) = length (np_instructions p)" using qw(2) by (simp add: same_code_def)
  have "steps \<le> length (np_instructions q) - 1 - np_pc q"
    using vm_loop_forward [OF w _ _ l] f qw by (simp add: forward_branches_same_code)
  moreover have "vm_step_limit v = vm_step_limit vm"
    using vm_loop_wf [OF w l] by (simp add: vm_frame_def)
  ultimately have "steps < vm_step_limit v" using ne assms(5) len by linarith
  with c show ?thesis by auto
qed

theorem verified_forward_program_halts_witness:
  "\<exists>code out vm'. SNEPPX_npe_vm_run (\<lambda>_ _. True) (\<lambda>_. True) int_fops demo_vm \<lparr>nt_shape = [1], nt_data = [1]\<rparr> =
     Inr (code, out, vm') \<and> code \<in> {0, 1}"
  using demo_run verified_forward_program_halts [OF demo_verified _ demo_wf(2)]
  by (auto simp: demo_vm_def demo_program_def)

text \<open>C19. In a verified program no \<open>LOAD\<close> or \<open>STORE\<close> accesses the memory outside its bounds,
  in any state the program can reach, provided a two-dimensional shape has a positive
  first dimension, shapes are C ints and tensors are smaller than \<open>2 ^ 63\<close> cells. With the shape (0, 5) a \<open>LOAD\<close> copies five cells into a tensor of none.\<close>

theorem verified_load_store_in_bounds:
  assumes "SNEPPX_npe_verify_program (Some p) = Inr (1, ds)" "inst \<in> set (np_instructions p)"
    and "opcode inst = SNEPPX_LOAD \<or> opcode inst = SNEPPX_STORE"
    and "fits_int (fst (shape_a inst))" "fits_int (snd (shape_a inst))"
    and "snd (shape_a inst) > 0 \<longrightarrow> fst (shape_a inst) > 0"
    and "same_code p q" "prog_wf q" "\<forall>t. Live t \<in> set (np_registers q) \<longrightarrow> nt_size t < 2 ^ 63"
  shows "exec_load ok F q inst \<noteq> Inl Out_Of_Bounds \<and> exec_store q inst \<noteq> Inl Out_Of_Bounds"
proof -
  have iv: "inst_verified p inst" using verify_program_iff [of p] assms(1,2) by blast
  let ?a = "imm_addr (immediate inst)"
  obtain mem where m: "np_memory q = Some mem" "nt_wf mem"
    using iv assms(3,7,8) by (auto simp: inst_verified_def same_code_def prog_wf_def)
  have a: "?a < 2 ^ 31" using iv assms(3) sint_lt [of "immediate inst"]
    by (auto simp: inst_verified_def imm_addr_nonneg)
  obtain s0 s1 where s: "shape_a inst = (s0, s1)" by (cases "shape_a inst")
  have s': "s0 < 2 ^ 31" "s1 < 2 ^ 31" "s1 > 0 \<longrightarrow> s0 > 0" using assms(4-6) s by (auto simp: fits_int_def)
  have z: "\<And>k. k < 2 ^ 63 \<Longrightarrow> (?a + k) mod 2 ^ 64 = ?a + k" using a by simp
  define k where "k = (if s1 > 0 then nat s0 * nat s1 else if s0 > 0 then nat s0 else 1)"
  have k: "k < 2 ^ 63" using mult_int_bound [of s0 s1] s' by (auto simp: k_def)
  have "exec_load ok F q inst \<noteq> Inl Out_Of_Bounds"
    using m s s' z [OF k]
    apply (cases "destroy_reg (get_reg q (dest_reg inst))")
    subgoal by (cases "get_reg q (dest_reg inst)") (auto simp: exec_load_def Let_def)
    apply (cases "s1 > 0")
    apply (simp_all add: exec_load_def Let_def npe_tensor_create_def nt_wf_def nt_size_def k_def)
    done
  moreover have "exec_store q inst \<noteq> Inl Out_Of_Bounds"
  proof (cases "usable q (src_reg_a inst)")
    case True
    then have "get_reg q (src_reg_a inst) \<in> set (np_registers q)"
      using assms(8) by (auto simp: usable_def in_file_def prog_wf_def regs_wf_def)
    note reg = this
    show ?thesis
    proof (cases "get_reg q (src_reg_a inst)")
      case (Live t)
      with reg assms(8,9) have "nt_size t < 2 ^ 63" "nt_wf t" by (auto simp: prog_wf_def regs_wf_def)
      with True Live m z [OF this(1)] show ?thesis
        by (simp add: exec_store_def Let_def nt_wf_def)
    qed (use True in \<open>simp_all add: exec_store_def usable_def Let_def\<close>)
  qed (simp add: exec_store_def)
  ultimately show ?thesis ..
qed

theorem verified_load_store_in_bounds_witness:
  "exec_load True int_fops demo_program (np_instructions demo_program ! 0) \<noteq> Inl Out_Of_Bounds"
  using verified_load_store_in_bounds [OF demo_verified, of "np_instructions demo_program ! 0" demo_program True int_fops] demo_wf(1)
  by (simp add: demo_program_def fits_int_def load_inst_def)

text \<open>Fusing \<open>MATMUL\<close>, \<open>ADD\<close>, \<open>RELU\<close> into one instruction leaves in the destination of the
  \<open>MATMUL\<close> the tensor that the three instructions leave in the destination of the \<open>RELU\<close>;
  that register itself is no longer written.\<close>

theorem fused_layer_value:
  assumes regs: "length (np_registers p) = 16" "distinct [d, d2, d3, sa, sb, sc]"
      "list_all in_file [d, d2, d3, sa, sb, sc]"
    and null: "get_reg p d = Null" "get_reg p d2 = Null" "get_reg p d3 = Null"
    and ops: "get_reg p sa = Live \<lparr>nt_shape = [m, k], nt_data = A\<rparr>" "length A = m * k"
      "get_reg p sb = Live \<lparr>nt_shape = [k, n], nt_data = B\<rparr>" "length B = k * n"
      "get_reg p sc = Live \<lparr>nt_shape = [n], nt_data = C\<rparr>" "length C = n"
    and layer: "layer = [inst_zero\<lparr>opcode := SNEPPX_MATMUL, dest_reg := d, src_reg_a := sa, src_reg_b := sb\<rparr>,
      inst_zero\<lparr>opcode := SNEPPX_ADD, dest_reg := d2, src_reg_a := d, src_reg_b := sc\<rparr>,
      inst_zero\<lparr>opcode := SNEPPX_RELU, dest_reg := d3, src_reg_a := d2\<rparr>]"
  shows "\<exists>q q'. exec_line F layer p = Some q \<and> exec_line F (jit_fuse_insts layer) p = Some q' \<and>
    length (jit_fuse_insts layer) = 1 \<and> get_reg q' d = get_reg q d3 \<and>
    get_reg q d3 = Live \<lparr>nt_shape = [m, n],
      nt_data = map (relu F) (add_rows (f_add F) m n (mat_prod F m k n A B) C)\<rparr> \<and>
    get_reg q' d3 = Null"
proof -
  have f: "jit_fuse_insts layer = [inst_zero\<lparr>opcode := SNEPPX_MATMUL, dest_reg := d, src_reg_a := sa,
      src_reg_b := sb, immediate := with_bias_reg (0 OR flag_bias_relu) sc\<rparr>]"
    by (simp add: layer is_op_def)
  have b: "in_file d" "in_file d2" "in_file d3" "in_file sa" "in_file sb" "in_file sc" using regs(3) by auto
  have ix: "nat r < 16" if "in_file r" for r using that by (auto simp: in_file_def)
  have ne: "nat r = nat s \<longleftrightarrow> r = s" if "in_file r" "in_file s" for r s using that by (auto simp: in_file_def)
  note nes = b b [THEN ix] ne [OF b(1)] ne [OF b(2)] ne [OF b(3)] ne [OF b(4)] ne [OF b(5)] ne [OF b(6)]
  note bias = bias_reg_of_fused [OF b(6)]
  show ?thesis
    using regs(1,2) null ops
    unfolding f
    by (auto simp: layer exec_inst_def exec_kernel_def exec_matmul_def exec_binary_def exec_unary_def replace_reg_def
      usable_def array_simps then_tensor_def tensor_add_def tensor_matmul_value
      tensor_zip_value tensor_relu_value nt_wf_def nt_size_def set_reg_same nes bias [simplified] add_bias_def Let_def)
qed

theorem fused_layer_value_witness:
  "\<exists>q q'. exec_line int_fops demo_layer demo_layer_program = Some q \<and>
     exec_line int_fops (jit_fuse_insts demo_layer) demo_layer_program = Some q' \<and>
     length (jit_fuse_insts demo_layer) = 1 \<and> get_reg q' 3 = get_reg q 5 \<and>
     get_reg q 5 = Live \<lparr>nt_shape = [1, 1],
       nt_data = map (relu int_fops) (add_rows (f_add int_fops) 1 1 (mat_prod int_fops 1 1 1 [2] [3]) [- 5])\<rparr> \<and>
     get_reg q' 5 = Null"
  by (rule fused_layer_value [OF _ _ _ _ _ _ _ _ _ _ _ _ demo_layer_def])
     (simp_all add: demo_layer_program_def in_file_def)

section \<open>Defects\<close>

text \<open>The fused multi-layer perceptron multiplies register 5, which no instruction writes any more.\<close>

lemma fused_mlp_drops_hidden:
  "(\<forall>inst \<in> set (jit_fuse_insts (mlp_code d h)). dest_reg inst \<noteq> 5) \<and>
   (\<exists>inst \<in> set (jit_fuse_insts (mlp_code d h)). opcode inst = SNEPPX_MATMUL \<and> src_reg_a inst = 5)"
  by (simp add: mlp_code_def is_op_def inst_zero_def)

text \<open>An instruction whose destination is also its operand reads a tensor it has just destroyed.\<close>

lemma inplace_kernel_faults:
  assumes "in_file r" "length (np_registers p) = 16" "get_reg p r = Live t"
  shows "exec_inst ok F p (inst_zero\<lparr>opcode := SNEPPX_RELU, dest_reg := r, src_reg_a := r\<rparr>) = Inl Use_After_Free"
  using assms
  by (auto simp: exec_inst_def exec_kernel_def exec_unary_def usable_def replace_reg_def set_reg_def in_file_def)

end
