(* ===== verification/Hashtable.thy ===== *)
theory Hashtable
  imports Prelude Complex_Main "HOL-Library.Log_Nat"
begin

text \<open>
  The open-addressing hash table of \<open>lib/internal/hashtable.c\<close>: quadratic probing, tombstones and
  resizing. A value pointer is an \<open>option\<close> (\<open>None\<close> is \<open>NULL\<close>); the two \<open>int\<close> flags are booleans.
  \<open>size_t\<close> arithmetic of the probe index, of the doubled capacity and of the sizes of arrays wraps at
  \<open>2 ^ 64\<close>, so that an array for \<open>2 ^ 59\<close> entries or more is shorter than its capacity says. The load
  test rounds the count, the capacity and their quotient to \<open>float\<close>.

  The probe sequence does not visit every slot. The refinement of finite maps is therefore proved
  for operations whose probe sequence meets a usable slot, and the failure is exhibited.
\<close>

unbundle bit_operations_syntax

section \<open>Model\<close>

text \<open>
  Rounding to \<open>float\<close>, to nearest with ties to even, of numbers that are neither too large nor too small for it: the exponent of the leading bit,
  and the multiple of the unit in the last of the 24 places.
\<close>

definition leading_bit :: "rat \<Rightarrow> int" where
  "leading_bit x = (let (p, q) = quotient_of x; k = int (floorlog 2 (nat p)) - int (floorlog 2 (nat q)) in if 2 powi k \<le> x then k else k - 1)"

definition round_even :: "rat \<Rightarrow> int" where
  "round_even y = (let n = \<lfloor>y\<rfloor>; f = y - of_int n in if f < 1 / 2 \<or> f = 1 / 2 \<and> even n then n else n + 1)"

definition f32_round :: "rat \<Rightarrow> rat" where
  "f32_round x = (if x = 0 then 0 else let u = 2 powi (leading_bit x - 23) in of_int (round_even (x / u)) * u)"

definition f32_of_size :: "nat \<Rightarrow> rat" where "f32_of_size n = f32_round (of_nat n)"

record 'v ht_entry =
  e_hash :: u64
  e_key :: u64
  e_value :: "'v option"
  occupied :: bool
  deleted :: bool

record 'v hashtable =
  buckets :: "'v ht_entry list"
  capacity :: nat
  count :: nat
  load_factor_threshold :: rat
  hash_fn :: "u64 \<Rightarrow> u64"

definition default_hash :: "u64 \<Rightarrow> u64" where
  "default_hash key =
     (let key = key XOR drop_bit 33 key;
          key = key * 0xff51afd7ed558ccd;
          key = key XOR drop_bit 33 key;
          key = key * 0xc4ceb9fe1a85ec53;
          key = key XOR drop_bit 33 key
      in key)"

definition ht_zero_entry :: "'v ht_entry" where
  "ht_zero_entry = \<lparr>e_hash = 0, e_key = 0, e_value = None, occupied = False, deleted = False\<rparr>"

definition probe_slot :: "'v hashtable \<Rightarrow> nat \<Rightarrow> nat \<Rightarrow> nat" where
  "probe_slot ht idx probe = ((idx + probe * probe) mod 2 ^ 64) mod capacity ht"

fun ht_probe :: "'v hashtable \<Rightarrow> u64 \<Rightarrow> nat \<Rightarrow> nat list \<Rightarrow> nat option \<Rightarrow> nat \<times> bool" where
  "ht_probe ht key idx [] first_deleted =
     (case first_deleted of Some s \<Rightarrow> (s, False) | None \<Rightarrow> (idx, False))"
| "ht_probe ht key idx (probe # probes) first_deleted =
     (let slot = probe_slot ht idx probe; entry = buckets ht ! slot;
          fd = (case first_deleted of None \<Rightarrow> Some slot | Some s \<Rightarrow> Some s) in
      if \<not> occupied entry then
        if \<not> deleted entry then (case first_deleted of Some s \<Rightarrow> (s, False) | None \<Rightarrow> (slot, False))
        else ht_probe ht key idx probes fd
      else if deleted entry then ht_probe ht key idx probes fd
      else if e_key entry = key then (slot, True)
      else ht_probe ht key idx probes first_deleted)"

definition ht_find_slot :: "'v hashtable \<Rightarrow> u64 \<Rightarrow> nat \<times> bool" where
  "ht_find_slot ht key =
     (if capacity ht = 0 then (0, False)
      else ht_probe ht key (unat (hash_fn ht key) mod capacity ht) [0..<capacity ht] None)"

text \<open>The entries, of 32 bytes each, in a block of \<open>n * sizeof(SNEPPXHTEntry)\<close> bytes.\<close>

definition ht_cells :: "nat \<Rightarrow> nat" where "ht_cells n = n * 32 mod 2 ^ 64 div 32"

definition SNEPPX_ht_create :: "alloc_outcome \<Rightarrow> nat \<Rightarrow> 'v hashtable option" where
  "SNEPPX_ht_create ok initial_capacity =
     (let cap = (if initial_capacity = 0 then 64 else initial_capacity) in
      if \<not> ok 0 then None
      else if \<not> ok 1 then None
      else Some \<lparr>buckets = replicate (ht_cells cap) ht_zero_entry, capacity = cap, count = 0,
                 load_factor_threshold = 3 / 4, hash_fn = default_hash\<rparr>)"

definition below_load :: "'v hashtable \<Rightarrow> bool" where
  "below_load ht \<longleftrightarrow> capacity ht \<noteq> 0 \<and>
     f32_round (f32_of_size (count ht) / f32_of_size (capacity ht)) < load_factor_threshold ht"

text \<open>The part of \<open>SNEPPX_ht_insert\<close> after the resize.\<close>

definition ht_place :: "'v hashtable \<Rightarrow> u64 \<Rightarrow> 'v option \<Rightarrow> 'v hashtable" where
  "ht_place ht key v =
     (let (slot, found) = ht_find_slot ht key in
      if found then ht\<lparr>buckets := (buckets ht)[slot := (buckets ht ! slot)\<lparr>e_value := v\<rparr>]\<rparr>
      else ht\<lparr>buckets := (buckets ht)[slot := \<lparr>e_hash = hash_fn ht key, e_key = key, e_value = v,
                                            occupied = True, deleted = False\<rparr>],
              count := count ht + 1\<rparr>)"

text \<open>
  Insertion and resizing call each other. The first argument bounds the depth of the calls
  (\<open>None\<close> when it is exhausted), \<open>n\<close> counts the allocations made so far; the result is the code's
  return value, the table and the number of allocations.
\<close>

fun ht_insert_f ::
    "nat \<Rightarrow> alloc_outcome \<Rightarrow> 'v hashtable \<Rightarrow> u64 \<Rightarrow> 'v option \<Rightarrow> nat \<Rightarrow> (int \<times> 'v hashtable \<times> nat) option"
  and ht_resize_f ::
    "nat \<Rightarrow> alloc_outcome \<Rightarrow> 'v hashtable \<Rightarrow> nat \<Rightarrow> nat \<Rightarrow> (int \<times> 'v hashtable \<times> nat) option"
  and ht_rehash_f ::
    "nat \<Rightarrow> alloc_outcome \<Rightarrow> 'v ht_entry list \<Rightarrow> 'v hashtable \<Rightarrow> nat \<Rightarrow> ('v hashtable \<times> nat) option"
where
  "ht_insert_f 0 ok ht key v n = None"
| "ht_insert_f (Suc f) ok ht key v n =
     (if below_load ht then Some (0, ht_place ht key v, n)
      else case ht_resize_f f ok ht (2 * capacity ht mod 2 ^ 64) n of
             None \<Rightarrow> None
           | Some (r, ht', n') \<Rightarrow> if r \<noteq> 0 then Some (- 1, ht', n') else Some (0, ht_place ht' key v, n'))"
| "ht_resize_f 0 ok ht new_capacity n = None"
| "ht_resize_f (Suc f) ok ht new_capacity n =
     (if new_capacity \<le> count ht then Some (- 1, ht, n)
      else if \<not> ok n then Some (- 1, ht, n + 1)
      else map_option (\<lambda>(ht', n'). (0, ht', n'))
             (ht_rehash_f f ok (buckets ht)
               (ht\<lparr>buckets := replicate (ht_cells new_capacity) ht_zero_entry, capacity := new_capacity,
                   count := 0\<rparr>) (n + 1)))"
| "ht_rehash_f f ok [] ht n = Some (ht, n)"
| "ht_rehash_f f ok (e # es) ht n =
     (if occupied e \<and> \<not> deleted e then
        (case ht_insert_f f ok ht (e_key e) (e_value e) n of None \<Rightarrow> None
         | Some (_, ht', n') \<Rightarrow> ht_rehash_f f ok es ht' n')
      else ht_rehash_f f ok es ht n)"

text \<open>Calls nest at most this deep when the table is well formed (lemma \<open>ht_insert_refines\<close>).\<close>

definition SNEPPX_ht_insert ::
  "alloc_outcome \<Rightarrow> 'v hashtable option \<Rightarrow> u64 \<Rightarrow> 'v option \<Rightarrow> (int \<times> 'v hashtable option) option" where
  "SNEPPX_ht_insert ok hp key v =
     (case hp of None \<Rightarrow> Some (- 1, None)
      | Some ht \<Rightarrow> map_option (\<lambda>(r, ht', n). (r, Some ht')) (ht_insert_f 4 ok ht key v 0))"

definition SNEPPX_ht_resize ::
  "alloc_outcome \<Rightarrow> 'v hashtable option \<Rightarrow> nat \<Rightarrow> (int \<times> 'v hashtable option) option" where
  "SNEPPX_ht_resize ok hp new_capacity =
     (case hp of None \<Rightarrow> Some (- 1, None)
      | Some ht \<Rightarrow> map_option (\<lambda>(r, ht', n). (r, Some ht')) (ht_resize_f 5 ok ht new_capacity 0))"

definition SNEPPX_ht_lookup :: "'v hashtable option \<Rightarrow> u64 \<Rightarrow> 'v option" where
  "SNEPPX_ht_lookup hp key =
     (case hp of None \<Rightarrow> None
      | Some ht \<Rightarrow> let (slot, found) = ht_find_slot ht key in
          if found then e_value (buckets ht ! slot) else None)"

definition SNEPPX_ht_delete :: "'v hashtable option \<Rightarrow> u64 \<Rightarrow> int \<times> 'v hashtable option" where
  "SNEPPX_ht_delete hp key =
     (case hp of None \<Rightarrow> (- 1, None)
      | Some ht \<Rightarrow> let (slot, found) = ht_find_slot ht key in
          if \<not> found then (- 1, Some ht)
          else (0, Some (ht\<lparr>buckets := (buckets ht)[slot := (buckets ht ! slot)\<lparr>deleted := True, occupied := False\<rparr>],
                            count := size_sub (count ht) 1\<rparr>)))"

definition SNEPPX_ht_clear :: "'v hashtable option \<Rightarrow> 'v hashtable option" where
  "SNEPPX_ht_clear hp =
     map_option (\<lambda>ht. ht\<lparr>buckets := replicate (ht_cells (capacity ht)) ht_zero_entry @ drop (ht_cells (capacity ht)) (buckets ht), count := 0\<rparr>) hp"

text \<open>The callback with its context is a state transformer.\<close>

definition SNEPPX_ht_foreach ::
  "'v hashtable option \<Rightarrow> (u64 \<Rightarrow> 'v option \<Rightarrow> 'c \<Rightarrow> 'c) option \<Rightarrow> 'c \<Rightarrow> 'c" where
  "SNEPPX_ht_foreach hp fp ctx =
     (case (hp, fp) of
        (Some ht, Some fn) \<Rightarrow>
          fold (\<lambda>i ctx. if occupied (buckets ht ! i) \<and> \<not> deleted (buckets ht ! i)
                        then fn (e_key (buckets ht ! i)) (e_value (buckets ht ! i)) ctx else ctx)
            [0..<capacity ht] ctx
      | _ \<Rightarrow> ctx)"

section \<open>Invariant and abstraction\<close>

definition live :: "'v ht_entry \<Rightarrow> bool" where
  "live e \<longleftrightarrow> occupied e \<and> \<not> deleted e"

definition never_used :: "'v ht_entry \<Rightarrow> bool" where
  "never_used e \<longleftrightarrow> \<not> occupied e \<and> \<not> deleted e"

definition slot_of :: "'v hashtable \<Rightarrow> u64 \<Rightarrow> nat \<Rightarrow> nat" where
  "slot_of ht key = probe_slot ht (unat (hash_fn ht key) mod capacity ht)"

text \<open>Slot \<open>s\<close> is on the probe path of \<open>key\<close>, before any never used slot.\<close>

definition on_path :: "'v hashtable \<Rightarrow> u64 \<Rightarrow> nat \<Rightarrow> bool" where
  "on_path ht key s \<longleftrightarrow> (\<exists>p < capacity ht. slot_of ht key p = s \<and>
     (\<forall>q < p. \<not> never_used (buckets ht ! slot_of ht key q)))"

definition ht_inv :: "'v hashtable \<Rightarrow> bool" where
  "ht_inv ht \<longleftrightarrow> 0 < capacity ht \<and> length (buckets ht) = capacity ht \<and>
     count ht = length (filter live (buckets ht)) \<and>
     (\<forall>i < capacity ht. live (buckets ht ! i) \<longrightarrow> on_path ht (e_key (buckets ht ! i)) i) \<and>
     (\<forall>i < capacity ht. \<forall>j < capacity ht. live (buckets ht ! i) \<longrightarrow> live (buckets ht ! j) \<longrightarrow>
        e_key (buckets ht ! i) = e_key (buckets ht ! j) \<longrightarrow> i = j)"

definition ht_abs :: "'v hashtable \<Rightarrow> u64 \<Rightarrow> 'v option option" where
  "ht_abs ht key = map_option e_value (find (\<lambda>e. live e \<and> e_key e = key) (buckets ht))"

text \<open>The probe sequence of \<open>key\<close> meets a slot that is not live.\<close>

definition probe_room :: "'v hashtable \<Rightarrow> u64 \<Rightarrow> bool" where
  "probe_room ht key \<longleftrightarrow> (\<exists>p < capacity ht. \<not> live (buckets ht ! slot_of ht key p))"

lemma slot_bound [simp]: "0 < capacity ht \<Longrightarrow> slot_of ht key p < capacity ht"
  by (simp add: slot_of_def probe_slot_def)

lemma ht_abs_Some_iff:
  assumes "ht_inv ht"
  shows "ht_abs ht k = Some v \<longleftrightarrow>
    (\<exists>i < capacity ht. live (buckets ht ! i) \<and> e_key (buckets ht ! i) = k \<and> e_value (buckets ht ! i) = v)"
proof
  assume "ht_abs ht k = Some v"
  then show "\<exists>i < capacity ht. live (buckets ht ! i) \<and> e_key (buckets ht ! i) = k \<and> e_value (buckets ht ! i) = v"
    using assms by (auto simp: ht_abs_def find_Some_iff ht_inv_def)
next
  assume "\<exists>i < capacity ht. live (buckets ht ! i) \<and> e_key (buckets ht ! i) = k \<and> e_value (buckets ht ! i) = v"
  then obtain i where i: "i < capacity ht" "live (buckets ht ! i)" "e_key (buckets ht ! i) = k"
    "e_value (buckets ht ! i) = v" by blast
  have "find (\<lambda>e. live e \<and> e_key e = k) (buckets ht) = Some (buckets ht ! i)"
  proof -
    have "length (buckets ht) = capacity ht" using assms by (simp add: ht_inv_def)
    moreover have "\<not> (live (buckets ht ! j) \<and> e_key (buckets ht ! j) = k)" if "j < i" for j
      using assms i that unfolding ht_inv_def by (metis less_irrefl order.strict_trans)
    ultimately show ?thesis unfolding find_Some_iff using i by (intro exI [of _ i]) simp
  qed
  then show "ht_abs ht k = Some v" using i by (simp add: ht_abs_def)
qed

lemma ht_abs_None_iff:
  assumes "ht_inv ht"
  shows "ht_abs ht k = None \<longleftrightarrow>
    (\<forall>i < capacity ht. live (buckets ht ! i) \<longrightarrow> e_key (buckets ht ! i) \<noteq> k)"
  using ht_abs_Some_iff [OF assms, of k] by (metis not_None_eq)

section \<open>Probing\<close>

lemma ht_probe_hit:
  assumes "\<And>q. q \<in> set pre \<Longrightarrow> \<not> never_used (buckets ht ! probe_slot ht idx q) \<and>
      \<not> (live (buckets ht ! probe_slot ht idx q) \<and> e_key (buckets ht ! probe_slot ht idx q) = k)"
    and "live (buckets ht ! probe_slot ht idx p)" "e_key (buckets ht ! probe_slot ht idx p) = k"
  shows "ht_probe ht k idx (pre @ p # post) fd = (probe_slot ht idx p, True)"
  using assms(1)
proof (induction pre arbitrary: fd)
  case Nil
  then show ?case using assms(2,3) by (simp add: live_def Let_def)
next
  case (Cons q pre)
  from Cons.prems [of q] Cons.IH Cons.prems show ?case
    by (auto simp: live_def never_used_def Let_def)
qed

lemma ht_find_hit:
  assumes inv: "ht_inv ht" and s: "s < capacity ht" "live (buckets ht ! s)" "e_key (buckets ht ! s) = k"
  shows "ht_find_slot ht k = (s, True)"
proof -
  have "on_path ht k s" using inv s by (auto simp: ht_inv_def)
  then obtain p0 where p0: "p0 < capacity ht" "slot_of ht k p0 = s"
    "\<forall>q < p0. \<not> never_used (buckets ht ! slot_of ht k q)" by (auto simp: on_path_def)
  define p where "p = (LEAST p. slot_of ht k p = s)"
  have p: "slot_of ht k p = s" "p \<le> p0" using p0(2) by (auto simp: p_def intro: LeastI Least_le)
  have first: "\<forall>q < p. slot_of ht k q \<noteq> s" by (auto simp: p_def dest: not_less_Least)
  have split: "[0..<capacity ht] = [0..<p] @ p # [Suc p..<capacity ht]"
    using p(2) p0(1) by (metis le_less_trans upt_conv_Cons upt_add_eq_append less_imp_add_positive zero_le add.left_neutral le_add1)
  have "ht_probe ht k (unat (hash_fn ht k) mod capacity ht) ([0..<p] @ p # [Suc p..<capacity ht]) None = (slot_of ht k p, True)"
    unfolding slot_of_def
  proof (rule ht_probe_hit, goal_cases)
    case (1 q)
    then have "q < p" by simp
    have "0 < capacity ht" using inv by (simp add: ht_inv_def)
    with inv s first \<open>q < p\<close> p0(3) p(2) slot_bound [of ht k q] show ?case
      unfolding ht_inv_def slot_of_def [symmetric] by (metis less_le_trans)
  qed (use p s in \<open>simp_all add: slot_of_def\<close>)
  then show ?thesis using inv split p by (simp add: ht_find_slot_def ht_inv_def)
qed

text \<open>Slot \<open>s\<close> is free and probed before any never used slot.\<close>

definition reaches :: "'v hashtable \<Rightarrow> nat \<Rightarrow> nat list \<Rightarrow> nat \<Rightarrow> bool" where
  "reaches ht idx ps s \<longleftrightarrow> (\<exists>pre p post. ps = pre @ p # post \<and> s = probe_slot ht idx p \<and>
     \<not> live (buckets ht ! s) \<and> (\<forall>q \<in> set pre. \<not> never_used (buckets ht ! probe_slot ht idx q)))"

lemma reaches_here: "\<not> live (buckets ht ! probe_slot ht idx q) \<Longrightarrow> reaches ht idx (q # ps) (probe_slot ht idx q)"
  unfolding reaches_def by (intro exI [of _ "[]"] exI [of _ q] exI [of _ ps]) simp

lemma reaches_later:
  assumes "\<not> never_used (buckets ht ! probe_slot ht idx q)" "reaches ht idx ps s"
  shows "reaches ht idx (q # ps) s"
proof -
  from assms(2) obtain pre p post where "ps = pre @ p # post" "s = probe_slot ht idx p"
     "\<not> live (buckets ht ! s)" "\<forall>q \<in> set pre. \<not> never_used (buckets ht ! probe_slot ht idx q)"
    by (auto simp: reaches_def)
  then show ?thesis unfolding reaches_def using assms(1)
    by (intro exI [of _ "q # pre"] exI [of _ p] exI [of _ post]) simp
qed

lemma live_not_never_used: "live e \<Longrightarrow> \<not> never_used e"
  by (simp add: live_def never_used_def)

text \<open>When no live entry has the key the probe reports a free slot of the path, provided there is one.\<close>

lemma ht_probe_remembers:
  assumes "\<And>q. q \<in> set ps \<Longrightarrow> \<not> (live (buckets ht ! probe_slot ht idx q) \<and> e_key (buckets ht ! probe_slot ht idx q) = k)"
  shows "ht_probe ht k idx ps (Some t) = (t, False)"
  using assms by (induction ps) (auto simp: live_def Let_def)

lemma ht_probe_miss:
  assumes "\<And>q. q \<in> set ps \<Longrightarrow> \<not> (live (buckets ht ! probe_slot ht idx q) \<and> e_key (buckets ht ! probe_slot ht idx q) = k)"
  shows "\<exists>s. ht_probe ht k idx ps None = (s, False) \<and>
    ((\<forall>q \<in> set ps. live (buckets ht ! probe_slot ht idx q)) \<or> reaches ht idx ps s)"
  using assms
proof (induction ps)
  case (Cons q ps)
  let ?e = "buckets ht ! probe_slot ht idx q"
  show ?case
  proof (cases "live ?e")
    case True
    then have "ht_probe ht k idx (q # ps) None = ht_probe ht k idx ps None"
      using Cons.prems [of q] by (simp add: live_def Let_def)
    then show ?thesis using Cons True reaches_later [OF live_not_never_used [OF True]] by (auto simp del: ht_probe.simps)
  next
    case False
    then have "ht_probe ht k idx (q # ps) None = (probe_slot ht idx q, False)"
      using ht_probe_remembers [of ps ht idx k "probe_slot ht idx q"] Cons.prems
      by (auto simp: live_def Let_def)
    then show ?thesis using reaches_here [OF False] by (auto simp del: ht_probe.simps)
  qed
qed simp

lemma reaches_on_path:
  assumes "reaches ht (unat (hash_fn ht k) mod capacity ht) [0..<capacity ht] s"
  shows "on_path ht k s" "\<not> live (buckets ht ! s)"
proof -
  from assms obtain pre p post where s: "[0..<capacity ht] = pre @ p # post" "s = slot_of ht k p"
    "\<not> live (buckets ht ! s)" "\<forall>q \<in> set pre. \<not> never_used (buckets ht ! slot_of ht k q)"
    by (auto simp: reaches_def slot_of_def)
  have l: "length pre < capacity ht" using arg_cong [OF s(1), of length] by simp
  have p: "p = length pre" using arg_cong [OF s(1), of "\<lambda>xs. xs ! length pre"] l by (simp add: nth_append)
  have "pre = [0..<p]" using arg_cong [OF s(1), of "take p"] l p by simp
  then have "set pre = set [0..<p]" "p < capacity ht" using l p by simp_all
  with s show "on_path ht k s" "\<not> live (buckets ht ! s)" by (auto simp: on_path_def)
qed

lemma ht_find_miss:
  assumes inv: "ht_inv ht" and "ht_abs ht k = None" and "probe_room ht k"
  shows "\<exists>s < capacity ht. ht_find_slot ht k = (s, False) \<and> \<not> live (buckets ht ! s) \<and> on_path ht k s"
proof -
  have c: "0 < capacity ht" using inv by (simp add: ht_inv_def)
  have none: "\<not> (live (buckets ht ! slot_of ht k q) \<and> e_key (buckets ht ! slot_of ht k q) = k)" for q
    using assms(2) ht_abs_None_iff [OF inv] slot_bound [OF c] by blast
  from ht_probe_miss [of "[0..<capacity ht]" ht _ k, OF none [unfolded slot_of_def]] assms(3)
  obtain s where s: "ht_find_slot ht k = (s, False)"
    "reaches ht (unat (hash_fn ht k) mod capacity ht) [0..<capacity ht] s"
    using c by (auto simp: ht_find_slot_def probe_room_def slot_of_def)
  have "s < capacity ht" using reaches_on_path(1) [OF s(2)] c by (auto simp: on_path_def)
  with s reaches_on_path [OF s(2)] show ?thesis by blast
qed

section \<open>Operations keep the invariant and refine maps\<close>

lemma slot_of_frame [simp]:
  "slot_of (ht\<lparr>buckets := bs\<rparr>) = slot_of ht" "slot_of (ht\<lparr>count := n\<rparr>) = slot_of ht"
  "slot_of (ht\<lparr>buckets := bs, count := n\<rparr>) = slot_of ht"
  by (auto simp: slot_of_def probe_slot_def fun_eq_iff)

text \<open>Overwriting a slot with an entry that is not never used keeps every path.\<close>

lemma on_path_update:
  assumes "on_path ht k s" "\<not> never_used e"
  shows "on_path (ht\<lparr>buckets := (buckets ht)[t := e], count := n\<rparr>) k s"
proof -
  from assms(1) obtain p where "p < capacity ht" "slot_of ht k p = s"
    "\<forall>q < p. \<not> never_used (buckets ht ! slot_of ht k q)" by (auto simp: on_path_def)
  then show ?thesis using assms(2) unfolding on_path_def
    by (intro exI [of _ p], cases "t < length (buckets ht)")
       (auto simp: nth_list_update list_update_beyond)
qed

lemma count_pos:
  "i < length bs \<Longrightarrow> live (bs ! i) \<Longrightarrow> 0 < length (filter live bs)"
  by (metis filter_empty_conv length_greater_0_conv nth_mem)

lemma filter_live_update:
  "i < length bs \<Longrightarrow> length (filter live (bs[i := e])) =
     (length (filter live bs) + (if live e then 1 else 0)) - (if live (bs ! i) then 1 else 0)"
proof (induction bs arbitrary: i)
  case (Cons b bs)
  then show ?case using count_pos [of "i - 1" bs] by (cases i) auto
qed simp

lemma ht_update_inv:
  assumes inv: "ht_inv ht" and s: "s < capacity ht" "\<not> never_used e"
    and path: "live e \<Longrightarrow> on_path ht (e_key e) s"
    and fresh: "\<And>i. live e \<Longrightarrow> i < capacity ht \<Longrightarrow> i \<noteq> s \<Longrightarrow> live (buckets ht ! i) \<Longrightarrow> e_key (buckets ht ! i) \<noteq> e_key e"
    and n: "n = (count ht + (if live e then 1 else 0)) - (if live (buckets ht ! s) then 1 else 0)"
  shows "ht_inv (ht\<lparr>buckets := (buckets ht)[s := e], count := n\<rparr>)"
proof -
  let ?h = "ht\<lparr>buckets := (buckets ht)[s := e], count := n\<rparr>"
  have len: "length (buckets ht) = capacity ht" and c: "0 < capacity ht" using inv by (auto simp: ht_inv_def)
  have nth: "i < capacity ht \<Longrightarrow> (buckets ht)[s := e] ! i = (if i = s then e else buckets ht ! i)" for i
    using len by (simp add: nth_list_update)
  have "\<forall>i < capacity ht. live (buckets ?h ! i) \<longrightarrow> on_path ?h (e_key (buckets ?h ! i)) i"
    using inv path s(2) by (auto simp: nth ht_inv_def intro!: on_path_update)
  moreover have "count ?h = length (filter live (buckets ?h))"
    using inv s n by (simp add: filter_live_update len ht_inv_def)
  moreover have "\<forall>i < capacity ht. \<forall>j < capacity ht. live (buckets ?h ! i) \<longrightarrow> live (buckets ?h ! j) \<longrightarrow>
        e_key (buckets ?h ! i) = e_key (buckets ?h ! j) \<longrightarrow> i = j"
  proof (intro allI impI)
    fix i j assume a: "i < capacity ht" "j < capacity ht" "live (buckets ?h ! i)" "live (buckets ?h ! j)"
      "e_key (buckets ?h ! i) = e_key (buckets ?h ! j)"
    show "i = j"
      using a inv fresh [of i] fresh [of j] by (cases "i = s"; cases "j = s") (auto simp: nth ht_inv_def)
  qed
  ultimately show ?thesis using c len by (simp add: ht_inv_def)
qed

lemma ht_inv_unique:
  "ht_inv ht \<Longrightarrow> i < capacity ht \<Longrightarrow> j < capacity ht \<Longrightarrow> live (buckets ht ! i) \<Longrightarrow> live (buckets ht ! j) \<Longrightarrow>
   e_key (buckets ht ! i) = e_key (buckets ht ! j) \<Longrightarrow> i = j"
  by (simp add: ht_inv_def)

lemma ex_less_split: "s < (n :: nat) \<Longrightarrow> (\<exists>i < n. P i) \<longleftrightarrow> P s \<or> (\<exists>i < n. i \<noteq> s \<and> P i)"
  by blast

lemma ht_abs_update:
  assumes inv: "ht_inv ht" "ht_inv (ht\<lparr>buckets := (buckets ht)[s := e], count := n\<rparr>)" and s: "s < capacity ht"
    and old: "live (buckets ht ! s) \<Longrightarrow> e_key (buckets ht ! s) = e_key e"
  shows "ht_abs (ht\<lparr>buckets := (buckets ht)[s := e], count := n\<rparr>) =
    (if live e then (ht_abs ht)(e_key e \<mapsto> e_value e) else
     if live (buckets ht ! s) then (ht_abs ht)(e_key e := None) else ht_abs ht)"
    (is "ht_abs ?h = ?m")
proof
  fix k
  have len: "length (buckets ht) = capacity ht" using inv by (auto simp: ht_inv_def)
  have nth: "i < capacity ht \<Longrightarrow> (buckets ht)[s := e] ! i = (if i = s then e else buckets ht ! i)" for i
    using len by (simp add: nth_list_update)
  have uniq: "i = s" if "i < capacity ht" "live (buckets ht ! i)" "live (buckets ht ! s)" "e_key (buckets ht ! i) = e_key e" for i
    using ht_inv_unique [OF inv(1), of i s] that s old by simp
  have uniq': "i = s" if "i < capacity ht" "live (buckets ht ! i)" "live e" "e_key (buckets ht ! i) = e_key e" for i
    using ht_inv_unique [OF inv(2), of i s] that s len by (cases "i = s") auto
  define Q where "Q v \<longleftrightarrow> (\<exists>i < capacity ht. i \<noteq> s \<and> live (buckets ht ! i) \<and> e_key (buckets ht ! i) = k \<and> e_value (buckets ht ! i) = v)" for v
  have new: "ht_abs ?h k = Some v \<longleftrightarrow> live e \<and> e_key e = k \<and> e_value e = v \<or> Q v" for v
    unfolding ht_abs_Some_iff [OF inv(2)] Q_def using s
    by (simp, subst ex_less_split [OF s]) (auto simp: len)
  have prev: "ht_abs ht k = Some v \<longleftrightarrow>
      live (buckets ht ! s) \<and> e_key (buckets ht ! s) = k \<and> e_value (buckets ht ! s) = v \<or> Q v" for v
    unfolding ht_abs_Some_iff [OF inv(1)] Q_def by (rule ex_less_split [OF s])
  have none: "\<not> Q v" if "k = e_key e" "live e \<or> live (buckets ht ! s)" for v
    using that uniq uniq' by (auto simp: Q_def)
  have "ht_abs ?h k = Some v \<longleftrightarrow> ?m k = Some v" for v
    unfolding new using prev [of v] none [of v] old by auto
  then show "ht_abs ?h k = ?m k" by (metis not_None_eq)
qed

lemma ht_inv_basic: "ht_inv ht \<Longrightarrow> 0 < capacity ht" "ht_inv ht \<Longrightarrow> length (buckets ht) = capacity ht"
  by (simp_all add: ht_inv_def)

lemma ht_place_refines:
  assumes inv: "ht_inv ht" and room: "ht_abs ht k = None \<Longrightarrow> probe_room ht k"
  shows "ht_inv (ht_place ht k v) \<and> ht_abs (ht_place ht k v) = (ht_abs ht)(k \<mapsto> v) \<and>
    capacity (ht_place ht k v) = capacity ht \<and> hash_fn (ht_place ht k v) = hash_fn ht \<and>
    load_factor_threshold (ht_place ht k v) = load_factor_threshold ht \<and>
    count (ht_place ht k v) = count ht + (if ht_abs ht k = None then 1 else 0)"
proof (cases "ht_abs ht k")
  case None
  then obtain s where s: "s < capacity ht" "ht_find_slot ht k = (s, False)" "\<not> live (buckets ht ! s)" "on_path ht k s"
    using ht_find_miss [OF inv None room] by blast
  let ?e = "\<lparr>e_hash = hash_fn ht k, e_key = k, e_value = v, occupied = True, deleted = False\<rparr>"
  have p: "ht_place ht k v = ht\<lparr>buckets := (buckets ht)[s := ?e], count := count ht + 1\<rparr>"
    using s by (simp add: ht_place_def)
  have live: "live ?e" "\<not> never_used ?e" by (simp_all add: live_def never_used_def)
  have i: "ht_inv (ht_place ht k v)"
    unfolding p using s live None ht_abs_None_iff [OF inv]
    by (intro ht_update_inv [OF inv]) auto
  show ?thesis using i ht_abs_update [OF inv i [unfolded p] s(1)] s(3) live None by (simp add: p)
next
  case (Some w)
  then obtain s where s: "s < capacity ht" "live (buckets ht ! s)" "e_key (buckets ht ! s) = k"
    using ht_abs_Some_iff [OF inv] by blast
  let ?e = "(buckets ht ! s)\<lparr>e_value := v\<rparr>"
  have p: "ht_place ht k v = ht\<lparr>buckets := (buckets ht)[s := ?e], count := count ht\<rparr>"
    using ht_find_hit [OF inv s] by (simp add: ht_place_def)
  have live: "live ?e" "\<not> never_used ?e" using s(2) by (simp_all add: live_def never_used_def)
  have i: "ht_inv (ht_place ht k v)"
    unfolding p using s live inv ht_inv_unique [OF inv _ s(1) _ s(2)]
    by (intro ht_update_inv [OF inv]) (auto simp: ht_inv_def)
  show ?thesis using i ht_abs_update [OF inv i [unfolded p] s(1)] s live Some by (simp add: p)
qed

lemma ht_find_absent:
  assumes inv: "ht_inv ht" and "ht_abs ht k = None"
  shows "\<exists>s. ht_find_slot ht k = (s, False)"
proof -
  have c: "0 < capacity ht" using inv by (rule ht_inv_basic)
  have "\<not> (live (buckets ht ! slot_of ht k q) \<and> e_key (buckets ht ! slot_of ht k q) = k)" for q
    using assms(2) ht_abs_None_iff [OF inv] slot_bound [OF c] by blast
  from ht_probe_miss [of "[0..<capacity ht]" ht _ k, OF this [unfolded slot_of_def]] c show ?thesis
    by (auto simp: ht_find_slot_def)
qed

lemma ht_lookup_refines:
  assumes inv: "ht_inv ht"
  shows "SNEPPX_ht_lookup (Some ht) k = (case ht_abs ht k of None \<Rightarrow> None | Some v \<Rightarrow> v)"
proof (cases "ht_abs ht k")
  case None
  then show ?thesis using ht_find_absent [OF inv None] by (auto simp: SNEPPX_ht_lookup_def)
next
  case (Some v)
  then obtain s where s: "s < capacity ht" "live (buckets ht ! s)" "e_key (buckets ht ! s) = k" "e_value (buckets ht ! s) = v"
    using ht_abs_Some_iff [OF inv] by blast
  then show ?thesis using ht_find_hit [OF inv s(1-3)] Some by (simp add: SNEPPX_ht_lookup_def)
qed

lemma ht_delete_absent:
  assumes "ht_inv ht" "ht_abs ht k = None"
  shows "SNEPPX_ht_delete (Some ht) k = (- 1, Some ht)"
  using ht_find_absent [OF assms] by (auto simp: SNEPPX_ht_delete_def)

lemma ht_delete_present:
  assumes inv: "ht_inv ht" and "ht_abs ht k = Some v"
  shows "\<exists>ht'. SNEPPX_ht_delete (Some ht) k = (0, Some ht') \<and> ht_inv ht' \<and>
    ht_abs ht' = (ht_abs ht)(k := None) \<and> count ht' = count ht - 1 \<and>
    capacity ht' = capacity ht \<and> load_factor_threshold ht' = load_factor_threshold ht"
proof -
  obtain s where s: "s < capacity ht" "live (buckets ht ! s)" "e_key (buckets ht ! s) = k"
    using assms(2) ht_abs_Some_iff [OF inv] by blast
  let ?e = "(buckets ht ! s)\<lparr>deleted := True, occupied := False\<rparr>"
  let ?h = "ht\<lparr>buckets := (buckets ht)[s := ?e], count := count ht - 1\<rparr>"
  have "0 < count ht" using inv s count_pos [of s "buckets ht"] by (simp add: ht_inv_def)
  then have d: "SNEPPX_ht_delete (Some ht) k = (0, Some ?h)"
    using ht_find_hit [OF inv s] by (simp add: SNEPPX_ht_delete_def size_sub_def)
  have e: "\<not> live ?e" "\<not> never_used ?e" by (simp_all add: live_def never_used_def)
  have i: "ht_inv ?h"
    using s e by (intro ht_update_inv [OF inv]) auto
  have "ht_abs ?h = (ht_abs ht)(k := None)"
    using ht_abs_update [OF inv i s(1)] s e by simp
  with d i show ?thesis by simp
qed

section \<open>Resizing\<close>

definition ht_emptied :: "'v hashtable \<Rightarrow> nat \<Rightarrow> 'v hashtable" where
  "ht_emptied ht cap = ht\<lparr>buckets := replicate cap ht_zero_entry, capacity := cap, count := 0\<rparr>"

definition ht_place_all :: "'v ht_entry list \<Rightarrow> 'v hashtable \<Rightarrow> 'v hashtable" where
  "ht_place_all es ht = fold (\<lambda>e h. ht_place h (e_key e) (e_value e)) es ht"

fun place_all_room :: "'v ht_entry list \<Rightarrow> 'v hashtable \<Rightarrow> bool" where
  "place_all_room [] ht = True"
| "place_all_room (e # es) ht \<longleftrightarrow> probe_room ht (e_key e) \<and> place_all_room es (ht_place ht (e_key e) (e_value e))"

lemma not_live_zero [simp]: "\<not> live ht_zero_entry"
  by (simp add: live_def ht_zero_entry_def)

lemma ht_emptied_inv:
  assumes "0 < cap"
  shows "ht_inv (ht_emptied ht cap)" "ht_abs (ht_emptied ht cap) = Map.empty"
proof -
  show i: "ht_inv (ht_emptied ht cap)"
    using assms by (simp add: ht_inv_def ht_emptied_def filter_empty_conv)
  show "ht_abs (ht_emptied ht cap) = Map.empty"
    using ht_abs_None_iff [OF i] by (auto simp: ht_emptied_def)
qed

lemma ht_place_frame [simp]:
  "capacity (ht_place ht k v) = capacity ht"
  "load_factor_threshold (ht_place ht k v) = load_factor_threshold ht"
  "hash_fn (ht_place ht k v) = hash_fn ht"
  by (auto simp: ht_place_def split: prod.splits)

lemma ht_place_count: "count (ht_place ht k v) \<le> Suc (count ht)"
  by (auto simp: ht_place_def split: prod.splits)

lemma leading_bit_le: "0 < x \<Longrightarrow> 2 powi leading_bit x \<le> x"
proof -
  assume x: "0 < x"
  obtain p q where pq: "quotient_of x = (p, q)" by fastforce
  have q: "0 < q" using quotient_of_denom_pos [OF pq] .
  have xe: "x = of_int p / of_int q" using quotient_of_div [OF pq] .
  have p: "0 < p" using x q xe by (simp add: zero_less_divide_iff)
  let ?f = "\<lambda>n. floorlog 2 (nat n)"
  have lp: "2 ^ (?f p - 1) \<le> nat p" "0 < ?f p" using p floorlog_bounds [of "nat p" 2] floorlog_eq_zero_iff [of 2 "nat p"] by auto
  have uq: "nat q < 2 ^ ?f q" using q floorlog_bounds [of "nat q" 2] by auto
  have "(2 :: rat) powi (int (?f p) - int (?f q) - 1) = 2 ^ (?f p - 1) / 2 ^ ?f q"
    using lp(2) by (simp add: power_int_diff power_diff)
  also have "\<dots> \<le> of_int p / of_int q"
  proof (rule frac_le)
    have "(2 :: int) ^ (?f p - 1) \<le> p" using lp(1) p by (metis of_nat_le_iff of_nat_power of_nat_numeral nat_0_le less_imp_le)
    then show "(2 :: rat) ^ (?f p - 1) \<le> of_int p" by (metis of_int_le_iff of_int_power of_int_numeral)
    have "q \<le> (2 :: int) ^ ?f q" using uq q by (metis of_nat_less_iff of_nat_power of_nat_numeral nat_0_le less_imp_le)
    then show "(of_int q :: rat) \<le> 2 ^ ?f q" by (metis of_int_le_iff of_int_power of_int_numeral)
  qed (use p q in auto)
  finally show ?thesis unfolding leading_bit_def pq xe [symmetric] by (auto simp: Let_def)
qed

lemma round_even_error: "\<bar>of_int (round_even y) - y\<bar> \<le> 1 / 2"
proof -
  have "of_int \<lfloor>y\<rfloor> \<le> y" "y < of_int \<lfloor>y\<rfloor> + 1" by linarith+
  then show ?thesis unfolding round_even_def Let_def by (auto simp: abs_if) (linarith | simp add: field_simps)+
qed

lemma f32_round_error: "0 \<le> x \<Longrightarrow> \<bar>f32_round x - x\<bar> \<le> x / 2 ^ 24"
proof (cases "x = 0")
  case False
  assume "0 \<le> x"
  then have x: "0 < x" using False by simp
  define u where "u = (2 :: rat) powi (leading_bit x - 23)"
  have u: "0 < u" "u / 2 \<le> x / 2 ^ 24" using leading_bit_le [OF x] by (simp_all add: u_def power_int_diff)
  have "f32_round x - x = (of_int (round_even (x / u)) - x / u) * u" using False u(1) by (simp add: f32_round_def u_def [symmetric] Let_def field_simps)
  also have "\<bar>\<dots>\<bar> = \<bar>of_int (round_even (x / u)) - x / u\<bar> * u" using u(1) by (simp add: abs_mult)
  also have "\<dots> \<le> 1 / 2 * u" using round_even_error u(1) by (intro mult_right_mono) auto
  finally show ?thesis using u(2) by simp
qed (simp add: f32_round_def)

text \<open>A table at most half full is below the threshold.\<close>

lemma half_load:
  assumes "2 * c \<le> n" "0 < n"
  shows "f32_round (f32_of_size c / f32_of_size n) < 3 / 4"
proof -
  let ?c = "f32_of_size c" and ?n = "f32_of_size n" and ?u = "1 / 2 ^ 24 :: rat"
  have c: "\<bar>?c - of_nat c\<bar> \<le> of_nat c / 2 ^ 24" "\<bar>?n - of_nat n\<bar> \<le> of_nat n / 2 ^ 24" unfolding f32_of_size_def by (rule f32_round_error, simp)+
  have "(2 :: rat) * of_nat c \<le> of_nat n" using assms(1) by (metis of_nat_le_iff of_nat_mult of_nat_numeral)
  moreover have "?c \<le> of_nat c * (1 + ?u)" "0 \<le> ?c" "of_nat n * (1 - ?u) \<le> ?n" using c by (auto simp: abs_if field_simps split: if_splits)
  ultimately have b: "2 * ?c \<le> of_nat n * (1 + ?u)" "of_nat n * (1 - ?u) \<le> ?n" "0 \<le> ?c" by (auto simp: field_simps)
  have n: "0 < (of_nat n :: rat)" using assms(2) by simp
  then have np: "0 < ?n" using b(2) by (auto simp: field_simps)
  have "?c / ?n \<le> 2 / 3 - 1 / 10"
  proof -
    have "30 * ?c \<le> 17 * ?n" using b n by (simp add: field_simps)
    then show ?thesis using np by (simp add: field_simps)
  qed
  moreover have "0 \<le> ?c / ?n" using b(3) np by simp
  ultimately show ?thesis using f32_round_error [of "?c / ?n"] by (auto simp: abs_if field_simps split: if_splits)
qed

lemma below_load_half: "load_factor_threshold ht = 3 / 4 \<Longrightarrow> 0 < capacity ht \<Longrightarrow> 2 * count ht \<le> capacity ht \<Longrightarrow> below_load ht"
  using half_load [of "count ht" "capacity ht"] by (simp add: below_load_def)

lemma ht_cells_small: "n < 2 ^ 59 \<Longrightarrow> ht_cells n = n"
  by (simp add: ht_cells_def)

lemma ht_rehash_flat:
  assumes "load_factor_threshold ht = 3 / 4" "0 < capacity ht"
    and "2 * (count ht + length (filter live es)) \<le> capacity ht"
  shows "ht_rehash_f (Suc f) ok es ht n = Some (ht_place_all (filter live es) ht, n)"
  using assms
proof (induction es arbitrary: ht)
  case (Cons e es)
  show ?case
  proof (cases "live e")
    case True
    have "below_load ht" using Cons.prems True by (intro below_load_half) auto
    moreover have "2 * (count (ht_place ht (e_key e) (e_value e)) + length (filter live es)) \<le> capacity ht"
      using Cons.prems(3) True ht_place_count [of ht "e_key e" "e_value e"] by simp
    moreover have "occupied e" "\<not> deleted e" using True by (simp_all add: live_def)
    ultimately show ?thesis using True Cons.IH [of "ht_place ht (e_key e) (e_value e)"] Cons.prems
      by (simp add: ht_place_all_def)
  next
    case False
    then have "\<not> (occupied e \<and> \<not> deleted e)" by (simp add: live_def)
    then show ?thesis using Cons False by (auto simp: ht_place_all_def)
  qed
qed (simp add: ht_place_all_def)

lemma ht_place_all_refines:
  assumes "ht_inv ht" "distinct (map e_key es)" "\<forall>e \<in> set es. ht_abs ht (e_key e) = None" "place_all_room es ht"
  shows "ht_inv (ht_place_all es ht) \<and>
    ht_abs (ht_place_all es ht) = ht_abs ht ++ map_of (map (\<lambda>e. (e_key e, e_value e)) es)"
  using assms
proof (induction es arbitrary: ht)
  case (Cons e es)
  let ?h = "ht_place ht (e_key e) (e_value e)"
  have p: "ht_inv ?h" "ht_abs ?h = (ht_abs ht)(e_key e \<mapsto> e_value e)"
    using ht_place_refines [OF Cons.prems(1), of "e_key e" "e_value e"] Cons.prems(4) by auto
  have "\<forall>x \<in> set es. e_key x \<noteq> e_key e" using Cons.prems(2) by (auto simp: image_iff)
  then have "\<forall>x \<in> set es. ht_abs ?h (e_key x) = None" using Cons.prems(3) p(2) by simp
  moreover have "e_key e \<notin> dom (map_of (map (\<lambda>e. (e_key e, e_value e)) es))"
    using Cons.prems(2) by (auto simp: dom_map_of_conv_image_fst image_iff)
  ultimately show ?case using Cons.IH [OF p(1)] Cons.prems p(2)
    by (auto simp: ht_place_all_def map_add_def fun_eq_iff split: option.splits)
qed (simp add: ht_place_all_def)

lemma ht_live_entries:
  assumes inv: "ht_inv ht"
  shows "distinct (map e_key (filter live (buckets ht)))"
    "map_of (map (\<lambda>e. (e_key e, e_value e)) (filter live (buckets ht))) = ht_abs ht"
proof -
  have "distinct (map e_key (filter live bs))"
    if "\<forall>i < length bs. \<forall>j < length bs. live (bs ! i) \<longrightarrow> live (bs ! j) \<longrightarrow> e_key (bs ! i) = e_key (bs ! j) \<longrightarrow> i = j"
    for bs :: "'a ht_entry list"
    using that
  proof (induction bs)
    case (Cons b bs)
    have "\<forall>i < length bs. \<forall>j < length bs. live (bs ! i) \<longrightarrow> live (bs ! j) \<longrightarrow> e_key (bs ! i) = e_key (bs ! j) \<longrightarrow> i = j"
      using Cons.prems by (metis Suc_less_eq length_Cons nat.inject nth_Cons_Suc)
    moreover have "e_key x \<noteq> e_key b" if l: "live b" "x \<in> set bs" "live x" for x
    proof -
      obtain i where "i < length bs" "x = bs ! i" using l(2) by (metis in_set_conv_nth)
      then show ?thesis using Cons.prems [rule_format, of 0 "Suc i"] l by auto
    qed
    ultimately show ?case using Cons.IH by (auto simp: eq_commute [of "e_key b"])
  qed simp
  then show "distinct (map e_key (filter live (buckets ht)))"
    using ht_inv_unique [OF inv] ht_inv_basic [OF inv] by simp
  show "map_of (map (\<lambda>e. (e_key e, e_value e)) (filter live (buckets ht))) = ht_abs ht"
  proof
    fix k
    have "map_of (map (\<lambda>e. (e_key e, e_value e)) (filter live bs)) k =
        map_option e_value (find (\<lambda>e. live e \<and> e_key e = k) bs)" for bs :: "'a ht_entry list"
      by (induction bs) auto
    then show "map_of (map (\<lambda>e. (e_key e, e_value e)) (filter live (buckets ht))) k = ht_abs ht k"
      by (simp add: ht_abs_def)
  qed
qed

text \<open>Everything that insertion relies on: no wrap-around of the doubled capacity and a free slot
  on each probe path it follows.\<close>

definition insert_room :: "'v hashtable \<Rightarrow> u64 \<Rightarrow> bool" where
  "insert_room ht k \<longleftrightarrow>
     (if below_load ht then ht_abs ht k = None \<longrightarrow> probe_room ht k
      else let es = filter live (buckets ht); ht' = ht_emptied ht (2 * capacity ht) in
           2 * capacity ht < 2 ^ 59 \<and> place_all_room es ht' \<and>
           (ht_abs ht k = None \<longrightarrow> probe_room (ht_place_all es ht') k))"

definition ht_ready :: "'v hashtable \<Rightarrow> bool" where
  "ht_ready ht \<longleftrightarrow> ht_inv ht \<and> load_factor_threshold ht = 3 / 4"

lemma ht_place_all_frame [simp]:
  "load_factor_threshold (ht_place_all es ht) = load_factor_threshold ht"
  by (induction es arbitrary: ht) (simp_all add: ht_place_all_def)

lemma ht_grow_refines:
  assumes inv: "ht_ready ht" and cap: "capacity ht \<le> c" "2 * c < 2 ^ 59"
    and room: "place_all_room (filter live (buckets ht)) (ht_emptied ht (2 * c))" and ok: "ok n"
  shows "ht_resize_f (Suc (Suc f)) ok ht (2 * c) n = Some (0, ht_place_all (filter live (buckets ht)) (ht_emptied ht (2 * c)), n + 1)"
    "ht_ready (ht_place_all (filter live (buckets ht)) (ht_emptied ht (2 * c)))"
    "ht_abs (ht_place_all (filter live (buckets ht)) (ht_emptied ht (2 * c))) = ht_abs ht"
proof -
  let ?es = "filter live (buckets ht)" and ?h = "ht_emptied ht (2 * c)"
  have i: "ht_inv ht" "load_factor_threshold ht = 3 / 4" using inv by (auto simp: ht_ready_def)
  have c: "0 < c" using cap ht_inv_basic(1) [OF i(1)] by simp
  have "length ?es \<le> capacity ht" using ht_inv_basic(2) [OF i(1)] length_filter_le [of live "buckets ht"] by simp
  then have le: "length ?es \<le> c" using cap by simp
  have n: "count ht = length ?es" using i(1) by (simp add: ht_inv_def)
  have h: "load_factor_threshold ?h = 3 / 4" "0 < capacity ?h" "count ?h = 0" "capacity ?h = 2 * c"
    using i c by (simp_all add: ht_emptied_def)
  have "ht_rehash_f (Suc f) ok (buckets ht) ?h (n + 1) = Some (ht_place_all ?es ?h, n + 1)"
    using h le c by (intro ht_rehash_flat) auto
  then show "ht_resize_f (Suc (Suc f)) ok ht (2 * c) n = Some (0, ht_place_all ?es ?h, n + 1)"
    using le c ok n cap(2) by (simp add: ht_emptied_def ht_cells_small)
  have e: "ht_inv ?h" "ht_abs ?h = Map.empty" using c by (simp_all add: ht_emptied_inv)
  have p: "ht_inv (ht_place_all ?es ?h) \<and>
      ht_abs (ht_place_all ?es ?h) = ht_abs ?h ++ map_of (map (\<lambda>e. (e_key e, e_value e)) ?es)"
    using ht_live_entries(1) [OF i(1)] room e by (intro ht_place_all_refines) auto
  show "ht_ready (ht_place_all ?es ?h)" using p h by (simp add: ht_ready_def)
  show "ht_abs (ht_place_all ?es ?h) = ht_abs ht" using p e ht_live_entries(2) [OF i(1)] by simp
qed

lemma ht_insert_refines:
  assumes inv: "ht_ready ht" and room: "insert_room ht k" and ok: "ok 0"
  shows "\<exists>ht'. SNEPPX_ht_insert ok (Some ht) k v = Some (0, Some ht') \<and> ht_ready ht' \<and>
    ht_abs ht' = (ht_abs ht)(k \<mapsto> v)"
proof (cases "below_load ht")
  case True
  then show ?thesis using ht_place_refines [of ht k v] inv room
    by (auto simp: SNEPPX_ht_insert_def insert_room_def ht_ready_def numeral_eq_Suc)
next
  case False
  let ?h = "ht_place_all (filter live (buckets ht)) (ht_emptied ht (2 * capacity ht))"
  note g = ht_grow_refines [OF inv order_refl, of ok 0, OF _ _ ok]
  have w: "2 * capacity ht < 2 ^ 59" and r: "place_all_room (filter live (buckets ht)) (ht_emptied ht (2 * capacity ht))"
    using room False by (auto simp: insert_room_def Let_def)
  have w64: "2 * capacity ht < 2 ^ 64" using w by simp
  have p: "ht_ready (ht_place ?h k v) \<and> ht_abs (ht_place ?h k v) = (ht_abs ht)(k \<mapsto> v)"
    using ht_place_refines [of ?h k v] g(2,3) [OF w r] room False
    by (auto simp: insert_room_def ht_ready_def Let_def)
  have "ht_insert_f (Suc (Suc (Suc (Suc 0)))) ok ht k v 0 = Some (0, ht_place ?h k v, 1)"
    unfolding ht_insert_f.simps mod_less [OF w64] g(1) [OF w r] using False by simp
  then show ?thesis using p by (simp add: SNEPPX_ht_insert_def numeral_eq_Suc)
qed

lemma ht_insert_alloc_failure:
  assumes inv: "ht_ready ht" and full: "\<not> below_load ht" and w: "2 * capacity ht < 2 ^ 64" and no: "\<not> ok 0"
  shows "SNEPPX_ht_insert ok (Some ht) k v = Some (- 1, Some ht)"
proof -
  have "ht_resize_f (Suc (Suc (Suc 0))) ok ht (2 * capacity ht) 0 = Some (- 1, ht, if 2 * capacity ht \<le> count ht then 0 else 1)"
    using no by simp
  then have "ht_insert_f (Suc (Suc (Suc (Suc 0)))) ok ht k v 0 = Some (- 1, ht, if 2 * capacity ht \<le> count ht then 0 else 1)"
    unfolding ht_insert_f.simps mod_less [OF w] using full by simp
  then show ?thesis by (simp add: SNEPPX_ht_insert_def numeral_eq_Suc)
qed

section \<open>The map interface\<close>

text \<open>
  What a client of the table relies on: \<open>good\<close> states, their contents as a finite map, and three
  operations. An insertion needs \<open>room\<close>.
\<close>

datatype ('k, 'v) map_op = Put 'k "'v option" | Del 'k

primrec op_exec :: "('s \<Rightarrow> 'k \<Rightarrow> 'v option \<Rightarrow> 's) \<Rightarrow> ('s \<Rightarrow> 'k \<Rightarrow> 's) \<Rightarrow> ('k, 'v) map_op \<Rightarrow> 's \<Rightarrow> 's" where
  "op_exec put del (Put k v) s = put s k v"
| "op_exec put del (Del k) s = del s k"

primrec op_spec :: "('k, 'v) map_op \<Rightarrow> ('k \<Rightarrow> 'v option option) \<Rightarrow> ('k \<Rightarrow> 'v option option)" where
  "op_spec (Put k v) m = m(k \<mapsto> v)"
| "op_spec (Del k) m = m(k := None)"

primrec op_room :: "('s \<Rightarrow> 'k \<Rightarrow> bool) \<Rightarrow> ('k, 'v) map_op \<Rightarrow> 's \<Rightarrow> bool" where
  "op_room room (Put k v) s = room s k"
| "op_room room (Del k) s = True"

primrec ops_room ::
  "('s \<Rightarrow> 'k \<Rightarrow> bool) \<Rightarrow> (('k, 'v) map_op \<Rightarrow> 's \<Rightarrow> 's) \<Rightarrow> ('k, 'v) map_op list \<Rightarrow> 's \<Rightarrow> bool" where
  "ops_room room ex [] s = True"
| "ops_room room ex (x # xs) s \<longleftrightarrow> op_room room x s \<and> ops_room room ex xs (ex x s)"

locale map_store =
  fixes good :: "'s \<Rightarrow> bool" and contents :: "'s \<Rightarrow> 'k \<Rightarrow> 'v option option"
    and room :: "'s \<Rightarrow> 'k \<Rightarrow> bool" and get :: "'s \<Rightarrow> 'k \<Rightarrow> 'v option"
    and put :: "'s \<Rightarrow> 'k \<Rightarrow> 'v option \<Rightarrow> 's" and del :: "'s \<Rightarrow> 'k \<Rightarrow> 's"
  assumes get_contents: "good s \<Longrightarrow> get s k = (case contents s k of None \<Rightarrow> None | Some v \<Rightarrow> v)"
    and put_good: "good s \<Longrightarrow> room s k \<Longrightarrow> good (put s k v)"
    and put_contents: "good s \<Longrightarrow> room s k \<Longrightarrow> contents (put s k v) = (contents s)(k \<mapsto> v)"
    and del_good: "good s \<Longrightarrow> good (del s k)"
    and del_contents: "good s \<Longrightarrow> contents (del s k) = (contents s)(k := None)"
begin

lemma get_put: "good s \<Longrightarrow> room s k \<Longrightarrow> get (put s k v) k' = (if k' = k then v else get s k')"
  by (simp add: get_contents put_good put_contents)

lemma get_del: "good s \<Longrightarrow> get (del s k) k' = (if k' = k then None else get s k')"
  by (simp add: get_contents del_good del_contents)

lemma exec_simulates:
  "good s \<Longrightarrow> op_room room x s \<Longrightarrow>
   good (op_exec put del x s) \<and> contents (op_exec put del x s) = op_spec x (contents s)"
  by (cases x) (simp_all add: put_good put_contents del_good del_contents)

lemma run_simulates:
  "good s \<Longrightarrow> ops_room room (op_exec put del) xs s \<Longrightarrow>
   good (fold (op_exec put del) xs s) \<and> contents (fold (op_exec put del) xs s) = fold op_spec xs (contents s)"
proof (induction xs arbitrary: s)
  case (Cons x xs)
  with exec_simulates [of s x] show ?case by auto
qed simp

end

text \<open>The table as a client uses it, when allocations succeed.\<close>

definition ht_put :: "'v hashtable \<Rightarrow> u64 \<Rightarrow> 'v option \<Rightarrow> 'v hashtable" where
  "ht_put ht k v = (case SNEPPX_ht_insert (\<lambda>_. True) (Some ht) k v of Some (_, Some ht') \<Rightarrow> ht' | _ \<Rightarrow> ht)"

definition ht_del :: "'v hashtable \<Rightarrow> u64 \<Rightarrow> 'v hashtable" where
  "ht_del ht k = (case SNEPPX_ht_delete (Some ht) k of (_, Some ht') \<Rightarrow> ht' | _ \<Rightarrow> ht)"

interpretation ht: map_store ht_ready ht_abs insert_room "\<lambda>ht. SNEPPX_ht_lookup (Some ht)" ht_put ht_del
proof
  fix s :: "'v hashtable" and k v
  assume s: "ht_ready s"
  then have i: "ht_inv s" by (simp add: ht_ready_def)
  show "SNEPPX_ht_lookup (Some s) k = (case ht_abs s k of None \<Rightarrow> None | Some v \<Rightarrow> v)"
    by (rule ht_lookup_refines [OF i])
  show "ht_ready (ht_put s k v)" "ht_abs (ht_put s k v) = (ht_abs s)(k \<mapsto> v)" if "insert_room s k"
    using ht_insert_refines [OF s that, of "\<lambda>_. True" v] by (auto simp: ht_put_def)
  show "ht_ready (ht_del s k)" "ht_abs (ht_del s k) = (ht_abs s)(k := None)"
    using ht_delete_present [OF i, of k] ht_delete_absent [OF i, of k] s
    by (cases "ht_abs s k"; auto simp: ht_del_def ht_ready_def)+
qed

section \<open>Properties\<close>

lemma ht_create_ready:
  assumes "SNEPPX_ht_create ok c = Some ht" "c < 2 ^ 59"
  shows "ht_ready ht" "ht_abs ht = Map.empty"
proof -
  have h: "ht = ht_emptied ht (capacity ht)" "0 < capacity ht" "load_factor_threshold ht = 3 / 4"
    using assms by (auto simp: SNEPPX_ht_create_def ht_emptied_def ht_cells_small Let_def split: if_splits)
  show "ht_ready ht" using ht_emptied_inv(1) [OF h(2), of ht] h by (simp add: ht_ready_def)
  show "ht_abs ht = Map.empty" using ht_emptied_inv(2) [OF h(2), of ht] h(1) by simp
qed

text \<open>C6. A hash table implements a finite map: after any sequence of insertions and deletions on a
  new table of fewer than \<open>2 ^ 59\<close> entries, resizes included, a lookup returns what the same sequence of updates of an empty map
  yields (\<open>NULL\<close> for an absent key), provided each insertion is granted its memory, finds a free slot on the
  probe paths it follows and does not double the capacity to \<open>2 ^ 59\<close> entries or more, whose size in bytes wraps.\<close>

theorem hashtable_refines_map:
  assumes "SNEPPX_ht_create ok c = Some ht" "c < 2 ^ 59"
    and "ops_room insert_room (op_exec ht_put ht_del) ops ht"
  shows "SNEPPX_ht_lookup (Some (fold (op_exec ht_put ht_del) ops ht)) k =
    (case fold op_spec ops Map.empty k of None \<Rightarrow> None | Some v \<Rightarrow> v)"
proof -
  have r: "ht_ready ht" "ht_abs ht = Map.empty" using ht_create_ready [OF assms(1,2)] by auto
  from ht.run_simulates [OF r(1) assms(3)]
  have f: "ht_inv (fold (op_exec ht_put ht_del) ops ht)"
    "ht_abs (fold (op_exec ht_put ht_del) ops ht) = fold op_spec ops Map.empty"
    by (simp_all add: ht_ready_def r(2))
  show ?thesis unfolding ht_lookup_refines [OF f(1)] f(2) ..
qed

lemma default_hash_samples [simp]:
  "default_hash 0 = 0" "unat (default_hash 1) mod 4 = 0" "unat (default_hash 11) mod 4 = 0" "unat (default_hash 3) mod 4 = 2"
  by (simp_all add: default_hash_def)

lemma ht_put_below_load: "below_load ht \<Longrightarrow> ht_put ht k v = ht_place ht k v"
  by (simp add: ht_put_def SNEPPX_ht_insert_def numeral_eq_Suc)

definition entry :: "u64 \<Rightarrow> nat \<Rightarrow> nat ht_entry" where
  "entry k v = \<lparr>e_hash = default_hash k, e_key = k, e_value = Some v, occupied = True, deleted = False\<rparr>"

definition table4 :: "nat ht_entry list \<Rightarrow> nat \<Rightarrow> nat hashtable" where
  "table4 bs n = \<lparr>buckets = bs, capacity = 4, count = n, load_factor_threshold = 3 / 4, hash_fn = default_hash\<rparr>"

lemma entry_sel [simp]: "e_key (entry k v) = k" "occupied (entry k v)" "\<not> deleted (entry k v)" "e_value (entry k v) = Some v"
  by (simp_all add: entry_def)

lemma zero_sel [simp]: "\<not> occupied ht_zero_entry" "\<not> deleted ht_zero_entry"
  by (simp_all add: ht_zero_entry_def)

lemma upt4: "[0..<4] = [0, 1, 2, 3 :: nat]"
  by (simp add: upt_rec)

lemma table4_load: "n \<le> 2 \<Longrightarrow> below_load (table4 bs n)" "\<not> below_load (table4 bs 3)"
proof -
  show "below_load (table4 bs n)" if "n \<le> 2" using that by (intro below_load_half) (simp_all add: table4_def)
  have "f32_round (f32_of_size 3 / f32_of_size 4) = 3 / 4" by code_simp
  then show "\<not> below_load (table4 bs 3)" by (simp add: below_load_def table4_def)
qed

lemma table4_put:
  "ht_put (table4 [ht_zero_entry, z1, z2, z3] 0) 0 (Some v) = table4 [entry 0 v, z1, z2, z3] (Suc 0)"
  "ht_put (table4 [entry 0 v, ht_zero_entry, z2, z3] (Suc 0)) 1 (Some w) = table4 [entry 0 v, entry 1 w, z2, z3] 2"
  "ht_put (table4 [entry 0 v, entry 1 w, z2, z3] 2) 11 (Some x) = table4 [entry 11 x, entry 1 w, z2, z3] 3"
  "ht_put (table4 [entry 0 v, entry 1 w, ht_zero_entry, z3] 2) 3 (Some x) = table4 [entry 0 v, entry 1 w, entry 3 x, z3] 3"
  unfolding ht_put_below_load [OF table4_load(1) [of 0, simplified]] ht_put_below_load [OF table4_load(1) [of "Suc 0", simplified]]
    ht_put_below_load [OF table4_load(1) [of 2, simplified]]
  unfolding table4_def by (simp_all add: ht_place_def ht_find_slot_def probe_slot_def upt4 Let_def) (simp_all add: entry_def)

lemma table4_create: "SNEPPX_ht_create (\<lambda>_. True) 4 = Some (table4 [ht_zero_entry, ht_zero_entry, ht_zero_entry, ht_zero_entry] 0)"
proof -
  have "ht_cells 4 = 4" by (simp add: ht_cells_def)
  moreover have "replicate 4 z = [z, z, z, z]" for z :: "nat ht_entry" by (simp add: numeral_eq_Suc)
  ultimately show ?thesis by (simp add: SNEPPX_ht_create_def table4_def)
qed

lemma table4_room:
  "insert_room (table4 [ht_zero_entry, z1, z2, z3] 0) 0"
  "insert_room (table4 [entry 0 v, ht_zero_entry, z2, z3] (Suc 0)) 1"
  "insert_room (table4 [entry 0 v, entry 1 w, ht_zero_entry, z3] 2) 3"
proof -
  have "\<exists>p < 4. \<not> live ([ht_zero_entry, z1, z2, z3] ! slot_of (table4 [ht_zero_entry, z1, z2, z3] 0) 0 p)"
    by (intro exI [of _ 0]) (simp add: slot_of_def probe_slot_def table4_def)
  then show "insert_room (table4 [ht_zero_entry, z1, z2, z3] 0) 0"
    using table4_load(1) by (simp add: insert_room_def probe_room_def) (simp add: table4_def)
  have "\<exists>p < 4. \<not> live ([entry 0 v, ht_zero_entry, z2, z3] ! slot_of (table4 [entry 0 v, ht_zero_entry, z2, z3] (Suc 0)) 1 p)"
    by (intro exI [of _ 1]) (simp add: slot_of_def probe_slot_def table4_def)
  then show "insert_room (table4 [entry 0 v, ht_zero_entry, z2, z3] (Suc 0)) 1"
    using table4_load(1) by (simp add: insert_room_def probe_room_def) (simp add: table4_def)
  have "\<exists>p < 4. \<not> live ([entry 0 v, entry 1 w, ht_zero_entry, z3] !
      slot_of (table4 [entry 0 v, entry 1 w, ht_zero_entry, z3] 2) 3 p)"
    by (intro exI [of _ 0]) (simp add: slot_of_def probe_slot_def table4_def)
  then show "insert_room (table4 [entry 0 v, entry 1 w, ht_zero_entry, z3] 2) 3"
    using table4_load(1) by (simp add: insert_room_def probe_room_def) (simp add: table4_def)
qed

theorem hashtable_refines_map_witness:
  "SNEPPX_ht_lookup (Some (fold (op_exec ht_put ht_del) [Put 0 (Some 10), Put 1 (Some (20 :: nat)), Del 0]
     (the (SNEPPX_ht_create (\<lambda>_. True) 4)))) 1 = Some 20"
  using hashtable_refines_map [OF table4_create _, of "[Put 0 (Some 10), Put 1 (Some 20), Del 0]" 1]
  by (simp add: table4_create table4_room table4_put)

text \<open>An insertion whose probe path holds only other live keys overwrites one of them: three keys that
  hash to the same slot of a table of four lose the first one, although the table is below its
  load limit and every insertion succeeds.\<close>

theorem ht_insert_overwrites:
  "\<exists>ht. SNEPPX_ht_create (\<lambda>_. True) 4 = Some ht \<and>
     SNEPPX_ht_lookup (Some (fold (op_exec ht_put ht_del) [Put 0 (Some 10), Put 1 (Some 20)] ht)) 0 = Some (10 :: nat) \<and>
     SNEPPX_ht_lookup (Some (fold (op_exec ht_put ht_del) [Put 0 (Some 10), Put 1 (Some 20), Put 11 (Some 30)] ht)) 0 = None"
  by (simp add: table4_create table4_put)
     (simp add: table4_def SNEPPX_ht_lookup_def ht_find_slot_def probe_slot_def upt4 Let_def)

text \<open>When the table is at its load limit and the larger array cannot be allocated, the
  insertion reports an error and leaves the table as it was.\<close>

theorem ht_insert_error_keeps_table:
  assumes "ht_ready ht" "\<not> below_load ht" "2 * capacity ht < 2 ^ 64" "\<not> ok 0"
  shows "SNEPPX_ht_insert ok (Some ht) k v = Some (- 1, Some ht)"
  using assms by (rule ht_insert_alloc_failure)

theorem ht_insert_error_keeps_table_witness:
  "SNEPPX_ht_insert (\<lambda>_. False) (Some (table4 [entry 0 10, entry 1 20, entry 3 30, ht_zero_entry] 3)) 7 None =
     Some (- 1, Some (table4 [entry 0 10, entry 1 20, entry 3 30, ht_zero_entry] 3))"
proof -
  let ?h = "table4 [entry 0 10, entry 1 20, entry 3 30, ht_zero_entry] 3"
  have "ht_ready (fold (op_exec ht_put ht_del) [Put 0 (Some 10), Put 1 (Some 20), Put 3 (Some 30)]
      (table4 [ht_zero_entry, ht_zero_entry, ht_zero_entry, ht_zero_entry] 0))"
    using ht.run_simulates [OF ht_create_ready(1) [OF table4_create], OF _, of "[Put 0 (Some 10), Put 1 (Some 20), Put 3 (Some 30)]"]
    by (simp add: table4_put table4_room)
  then have "ht_ready ?h" by (simp add: table4_put)
  then show ?thesis
    using table4_load(2) by (rule ht_insert_error_keeps_table) (simp_all add: table4_def)
qed

end
