(* ===== verification/Bytes.thy ===== *)
theory Bytes
  imports Prelude
begin

text \<open>
  Bytes, words and buffers as the C code of \<open>security/crypto/c\<close> handles them: little- and
  big-endian loads and stores written with shifts, rotations, and \<open>memcpy\<close> into a buffer.
\<close>

unbundle bit_operations_syntax

type_synonym bytes = "u8 list"

section \<open>Loads, stores and rotations\<close>

definition ROTL32 :: "u32 \<Rightarrow> nat \<Rightarrow> u32" where
  "ROTL32 x n = push_bit n x OR drop_bit (32 - n) x"

definition ROTR32 :: "u32 \<Rightarrow> nat \<Rightarrow> u32" where
  "ROTR32 x n = drop_bit n x OR push_bit (32 - n) x"

definition ROTL64 :: "u64 \<Rightarrow> nat \<Rightarrow> u64" where
  "ROTL64 x n = push_bit n x OR drop_bit (64 - n) x"

definition ROTR64 :: "u64 \<Rightarrow> nat \<Rightarrow> u64" where
  "ROTR64 x n = drop_bit n x OR push_bit (64 - n) x"

definition le32 :: "bytes \<Rightarrow> nat \<Rightarrow> u32" where
  "le32 b i = ucast (b ! i) OR push_bit 8 (ucast (b ! (i + 1))) OR push_bit 16 (ucast (b ! (i + 2)))
     OR push_bit 24 (ucast (b ! (i + 3)))"

definition be32 :: "bytes \<Rightarrow> nat \<Rightarrow> u32" where
  "be32 b i = push_bit 24 (ucast (b ! i)) OR push_bit 16 (ucast (b ! (i + 1)))
     OR push_bit 8 (ucast (b ! (i + 2))) OR ucast (b ! (i + 3))"

definition le64 :: "bytes \<Rightarrow> nat \<Rightarrow> u64" where
  "le64 b i = ucast (b ! i) OR push_bit 8 (ucast (b ! (i + 1))) OR push_bit 16 (ucast (b ! (i + 2)))
     OR push_bit 24 (ucast (b ! (i + 3))) OR push_bit 32 (ucast (b ! (i + 4)))
     OR push_bit 40 (ucast (b ! (i + 5))) OR push_bit 48 (ucast (b ! (i + 6)))
     OR push_bit 56 (ucast (b ! (i + 7)))"

definition be64 :: "bytes \<Rightarrow> nat \<Rightarrow> u64" where
  "be64 b i = push_bit 56 (ucast (b ! i)) OR push_bit 48 (ucast (b ! (i + 1)))
     OR push_bit 40 (ucast (b ! (i + 2))) OR push_bit 32 (ucast (b ! (i + 3)))
     OR push_bit 24 (ucast (b ! (i + 4))) OR push_bit 16 (ucast (b ! (i + 5)))
     OR push_bit 8 (ucast (b ! (i + 6))) OR ucast (b ! (i + 7))"

definition le32_bytes :: "u32 \<Rightarrow> bytes" where
  "le32_bytes w = [ucast w, ucast (drop_bit 8 w), ucast (drop_bit 16 w), ucast (drop_bit 24 w)]"

definition be32_bytes :: "u32 \<Rightarrow> bytes" where
  "be32_bytes w = [ucast (drop_bit 24 w), ucast (drop_bit 16 w), ucast (drop_bit 8 w), ucast w]"

definition le64_bytes :: "u64 \<Rightarrow> bytes" where
  "le64_bytes w = map (\<lambda>i. ucast (drop_bit (8 * i) w)) [0..<8]"

definition be64_bytes :: "u64 \<Rightarrow> bytes" where
  "be64_bytes w = map (\<lambda>i. ucast (drop_bit (56 - 8 * i) w)) [0..<8]"

lemma length_word_bytes [simp]:
  "length (le32_bytes a) = 4" "length (be32_bytes a) = 4"
  "length (le64_bytes b) = 8" "length (be64_bytes b) = 8"
  by (simp_all add: le32_bytes_def be32_bytes_def le64_bytes_def be64_bytes_def)

lemma le32_bytes_inverse: "le32 (le32_bytes v) 0 = v"
proof (rule bit_eqI)
  fix n assume "possible_bit TYPE(32 word) n"
  then consider "n < 8" | "8 \<le> n" "n < 16" | "16 \<le> n" "n < 24" | "24 \<le> n" "n < 32" by force
  then show "bit (le32 (le32_bytes v) 0) n = bit v n"
    by cases (auto simp: le32_def le32_bytes_def bit_simps)
qed

lemma le32_append: "length b = 4 \<Longrightarrow> le32 (b @ f) 0 = le32 b 0"
  by (simp add: le32_def nth_append)

lemma le32_shift: "le32 (a @ b) (length a + i) = le32 b i"
  by (simp add: le32_def nth_append add.assoc)

text \<open>\<open>memcpy(buf + off, src, length src)\<close> inside the buffer.\<close>

definition put_bytes :: "bytes \<Rightarrow> nat \<Rightarrow> bytes \<Rightarrow> bytes" where
  "put_bytes buf off src = take off buf @ src @ drop (off + length src) buf"

lemma length_put_bytes [simp]:
  "off + length src \<le> length buf \<Longrightarrow> length (put_bytes buf off src) = length buf"
  by (simp add: put_bytes_def)

lemma take_put_bytes:
  "off \<le> length buf \<Longrightarrow> take (off + length src) (put_bytes buf off src) = take off buf @ src"
  by (simp add: put_bytes_def)

section \<open>Xor of buffers\<close>

definition xor_bytes :: "bytes \<Rightarrow> bytes \<Rightarrow> bytes" where
  "xor_bytes a b = map2 (XOR) a b"

lemma length_xor_bytes [simp]: "length (xor_bytes a b) = min (length a) (length b)"
  by (simp add: xor_bytes_def)

lemma xor_bytes_twice: "length a \<le> length b \<Longrightarrow> xor_bytes (xor_bytes a b) b = a"
  unfolding xor_bytes_def
  by (rule nth_equalityI) (simp_all add: xor.assoc)

section \<open>Writing files\<close>

text \<open>Calls of \<open>fwrite\<close> whose results the program does not look at: the \<open>k\<close>-th one writes all its bytes when \<open>io k\<close> is \<open>None\<close>, else the first few of them.\<close>

type_synonym io_outcome = "nat \<Rightarrow> nat option"

fun fwrites :: "io_outcome \<Rightarrow> nat \<Rightarrow> bytes list \<Rightarrow> bytes" where
  "fwrites io k [] = []"
| "fwrites io k (b # bs) = (case io k of None \<Rightarrow> b | Some n \<Rightarrow> take n b) @ fwrites io (k + 1) bs"

lemma fwrites_all [simp]: "fwrites (\<lambda>_. None) k bs = concat bs"
  by (induction bs arbitrary: k) simp_all

end
