(* ===== verification/Ct.thy ===== *)
theory Ct
  imports Bytes
begin

text \<open>
  The constant-time primitives of \<open>security/crypto/c/ct.c\<close>. The loops run over the first \<open>len\<close> cells
  whatever they contain; the theorems are about buffers of at least \<open>len\<close> cells.
\<close>

unbundle bit_operations_syntax

definition SNEPPX_ct_equal :: "bytes \<Rightarrow> bytes \<Rightarrow> nat \<Rightarrow> int" where
  "SNEPPX_ct_equal a b len =
     (let diff = fold (\<lambda>i diff. diff OR (a ! i XOR b ! i)) [0..<len] 0 in if diff = 0 then 1 else 0)"

definition SNEPPX_ct_select :: "u8 \<Rightarrow> u8 \<Rightarrow> u8 \<Rightarrow> u8" where
  "SNEPPX_ct_select m a b = b XOR (m AND (a XOR b))"

text \<open>The 16-bit smearing of the condition, and the copy.\<close>

definition ct_mask :: "u8 \<Rightarrow> u8" where
  "ct_mask condition =
     (let m = (ucast condition :: u16) OR push_bit 8 (ucast condition);
          m = m OR drop_bit 4 m; m = m OR drop_bit 2 m; m = m OR drop_bit 1 m
      in ucast m)"

definition SNEPPX_ct_copy :: "bytes \<Rightarrow> bytes \<Rightarrow> nat \<Rightarrow> u8 \<Rightarrow> bytes" where
  "SNEPPX_ct_copy dst src len condition =
     (let m = ct_mask condition in
      fold (\<lambda>i d. d[i := d ! i XOR (m AND (d ! i XOR src ! i))]) [0..<len] dst)"

definition SNEPPX_ct_is_zero :: "bytes \<Rightarrow> nat \<Rightarrow> int" where
  "SNEPPX_ct_is_zero data len =
     (let acc = fold (\<lambda>i acc. acc OR data ! i) [0..<len] 0 in if acc = 0 then 1 else 0)"

definition SNEPPX_ct_compare_32 :: "u32 list \<Rightarrow> u32 list \<Rightarrow> nat \<Rightarrow> u32" where
  "SNEPPX_ct_compare_32 a b len = fold (\<lambda>i diff. diff OR (a ! i XOR b ! i)) [0..<len] 0"

lemma fold_or_eq_0:
  "fold (\<lambda>i d. d OR f i) is d = (0 :: 'a :: len word) \<longleftrightarrow> d = 0 \<and> (\<forall>i \<in> set is. f i = 0)"
proof (induction "is" arbitrary: d)
  case (Cons i "is")
  have "d OR f i = 0 \<longleftrightarrow> d = 0 \<and> f i = 0" by (simp add: or_eq_0_iff)
  with Cons show ?case by auto
qed simp

lemma xor_eq_0_word: "a XOR b = (0 :: 'a :: len word) \<longleftrightarrow> a = b"
  by (metis xor.assoc xor.left_neutral xor_self_eq xor.right_neutral)

lemma take_eq_nth: "n \<le> length a \<Longrightarrow> n \<le> length b \<Longrightarrow> take n a = take n b \<longleftrightarrow> (\<forall>i < n. a ! i = b ! i)"
  by (auto simp: list_eq_iff_nth_eq)

lemma ct_equal_iff:
  "len \<le> length a \<Longrightarrow> len \<le> length b \<Longrightarrow>
   SNEPPX_ct_equal a b len = (if take len a = take len b then 1 else 0)"
  by (simp add: SNEPPX_ct_equal_def fold_or_eq_0 xor_eq_0_word take_eq_nth)

lemma ct_copy_loop:
  assumes "n \<le> length dst"
  shows "fold (\<lambda>i d. d[i := d ! i XOR (m AND (d ! i XOR src ! i))]) [0..<n] dst =
    map (\<lambda>i. SNEPPX_ct_select m (src ! i) (dst ! i)) [0..<n] @ drop n dst"
  using assms
proof (induction n)
  case (Suc n)
  have "SNEPPX_ct_select m (src ! n) (dst ! n) = dst ! n XOR (m AND (dst ! n XOR src ! n))"
    by (simp add: SNEPPX_ct_select_def xor.commute)
  with Suc show ?case
    by (simp add: list_update_append nth_append Cons_nth_drop_Suc [symmetric] drop_Suc_Cons)
qed simp

lemma ct_select_mask [simp]: "SNEPPX_ct_select 0 a b = b" "SNEPPX_ct_select (- 1) a b = a"
proof -
  have "b XOR (a XOR b) = (b XOR b) XOR a" by (simp only: xor.assoc xor.commute xor.left_commute)
  then show "SNEPPX_ct_select (- 1) a b = a" by (simp add: SNEPPX_ct_select_def)
qed (simp add: SNEPPX_ct_select_def)

lemma less8_cases: "(n :: nat) < 8 \<longleftrightarrow> n = 0 \<or> n = 1 \<or> n = 2 \<or> n = 3 \<or> n = 4 \<or> n = 5 \<or> n = 6 \<or> n = 7"
  by auto

text \<open>Smearing any nonzero condition gives the full mask.\<close>

lemma ct_mask_bit:
  assumes "n < 8"
  shows "bit (ct_mask c) n \<longleftrightarrow> bit c 0 \<or> bit c 1 \<or> bit c 2 \<or> bit c 3 \<or> bit c 4 \<or> bit c 5 \<or> bit c 6 \<or> bit c 7"
proof -
  have hi: "\<not> bit c 8" "\<not> bit c 9" "\<not> bit c 10" "\<not> bit c 11" "\<not> bit c 12" "\<not> bit c 13" "\<not> bit c 14"
    using bit_imp_le_length [of c] by fastforce+
  have suc: "Suc (Suc 0) = 2" "Suc 2 = 3" "Suc 3 = 4" "Suc 4 = 5"
    by simp_all
  show ?thesis using assms unfolding less8_cases
    by (elim disjE; simp add: ct_mask_def Let_def bit_simps hi; (simp only: suc)?; blast)
qed

lemma ct_mask_value: "ct_mask c = (if c = 0 then 0 else - 1)"
proof (cases "c = 0")
  case True
  then show ?thesis by (simp add: ct_mask_def)
next
  case False
  then obtain b where "bit c b" by (auto simp: bit_eq_iff)
  moreover from this have "b < 8" using bit_imp_le_length [of c b] by simp
  ultimately have b: "bit c 0 \<or> bit c 1 \<or> bit c 2 \<or> bit c 3 \<or> bit c 4 \<or> bit c 5 \<or> bit c 6 \<or> bit c 7"
    unfolding less8_cases by blast
  have "ct_mask c = - 1" by (rule bit_eqI) (use b in \<open>simp add: ct_mask_bit\<close>)
  with False show ?thesis by simp
qed

text \<open>\<open>SNEPPX_ct_equal\<close> returns 1 exactly when the first \<open>len\<close> bytes of both buffers agree, and
  \<open>SNEPPX_ct_copy\<close> overwrites the first \<open>len\<close> bytes exactly when the condition byte is
  nonzero, whichever of its bits are set.\<close>

theorem ct_equal_copy_correct:
  assumes "len \<le> length a" "len \<le> length b"
  shows "SNEPPX_ct_equal a b len = (if take len a = take len b then 1 else 0) \<and>
    SNEPPX_ct_copy a b len c = (if c = 0 then a else take len b @ drop len a)"
proof
  show "SNEPPX_ct_equal a b len = (if take len a = take len b then 1 else 0)"
    using assms by (rule ct_equal_iff)
  have "map (\<lambda>i. a ! i) [0..<len] = take len a" "map (\<lambda>i. b ! i) [0..<len] = take len b"
    using assms by (auto intro: nth_equalityI)
  then show "SNEPPX_ct_copy a b len c = (if c = 0 then a else take len b @ drop len a)"
    using assms by (simp add: SNEPPX_ct_copy_def ct_copy_loop ct_mask_value)
qed

theorem ct_equal_copy_correct_witness:
  "SNEPPX_ct_equal [1, 2, 3] [1, 2, 4] 2 = 1 \<and> SNEPPX_ct_copy [1, 2, 3] [7, 8] 2 64 = [7, 8, 3]"
  using ct_equal_copy_correct [of 2 "[1, 2, 3]" "[1, 2, 4]" 0] ct_equal_copy_correct [of 2 "[1, 2, 3]" "[7, 8]" 64]
  by simp

end
