(* ===== verification/Chacha20.thy ===== *)
theory Chacha20
  imports Bytes
begin

text \<open>
  The ChaCha20 stream cipher of \<open>security/crypto/c/chacha20.c\<close>. The state is the array of sixteen
  32-bit words; the block function returns the output and advances the block counter.
\<close>

unbundle bit_operations_syntax

section \<open>Model\<close>

definition qr :: "u32 \<Rightarrow> u32 \<Rightarrow> u32 \<Rightarrow> u32 \<Rightarrow> u32 \<times> u32 \<times> u32 \<times> u32" where
  "qr a b c d =
     (let a = a + b; d = d XOR a; d = ROTL32 d 16;
          c = c + d; b = b XOR c; b = ROTL32 b 12;
          a = a + b; d = d XOR a; d = ROTL32 d 8;
          c = c + d; b = b XOR c; b = ROTL32 b 7
      in (a, b, c, d))"

text \<open>The call \<open>qr(&x[i], &x[j], &x[k], &x[l])\<close>.\<close>

definition qr_at :: "nat \<Rightarrow> nat \<Rightarrow> nat \<Rightarrow> nat \<Rightarrow> u32 list \<Rightarrow> u32 list" where
  "qr_at i j k l x =
     (let (a, b, c, d) = qr (x ! i) (x ! j) (x ! k) (x ! l) in x[i := a, j := b, k := c, l := d])"

definition SNEPPX_chacha20_init :: "bytes \<Rightarrow> bytes \<Rightarrow> u32 \<Rightarrow> u32 list" where
  "SNEPPX_chacha20_init key nonce counter =
     [1634760805, 857760878, 2036477234, 1797285236] @
     map (\<lambda>i. le32 key (i * 4)) [0..<8] @
     [counter, le32 nonce 0, le32 nonce 4, le32 nonce 8]"

definition double_round :: "u32 list \<Rightarrow> u32 list" where
  "double_round x =
     (let x = qr_at 0 4 8 12 x; x = qr_at 1 5 9 13 x;
          x = qr_at 2 6 10 14 x; x = qr_at 3 7 11 15 x;
          x = qr_at 0 5 10 15 x; x = qr_at 1 6 11 12 x;
          x = qr_at 2 7 8 13 x; x = qr_at 3 4 9 14 x
      in x)"

definition SNEPPX_chacha20_block :: "u32 list \<Rightarrow> bytes \<times> u32 list" where
  "SNEPPX_chacha20_block s =
     (let x = (double_round ^^ 10) s;
          out = concat (map (\<lambda>i. le32_bytes (x ! i + s ! i)) [0..<16])
      in (out, s[12 := s ! 12 + 1]))"

function SNEPPX_chacha20_encrypt :: "u32 list \<Rightarrow> bytes \<Rightarrow> bytes \<times> u32 list" where
  "SNEPPX_chacha20_encrypt s data =
     (if data = [] then ([], s)
      else let (block, s') = SNEPPX_chacha20_block s;
               todo = (if length data > 64 then 64 else length data);
               (rest, s'') = SNEPPX_chacha20_encrypt s' (drop todo data)
           in (xor_bytes (take todo data) block @ rest, s''))"
  by pat_completeness auto
termination
  by (relation "measure (\<lambda>(s, data). length data)") auto

declare SNEPPX_chacha20_encrypt.simps [simp del]

section \<open>Properties\<close>

lemma length_chacha20_block [simp]: "length (fst (SNEPPX_chacha20_block s)) = 64"
  by (simp add: SNEPPX_chacha20_block_def Let_def length_concat o_def sum_list_triv)

lemma chacha20_encrypt_Nil [simp]: "SNEPPX_chacha20_encrypt s [] = ([], s)"
  by (simp add: SNEPPX_chacha20_encrypt.simps)

lemma chacha20_encrypt_step:
  "data \<noteq> [] \<Longrightarrow> SNEPPX_chacha20_encrypt s data =
    (xor_bytes (take 64 data) (fst (SNEPPX_chacha20_block s)) @
       fst (SNEPPX_chacha20_encrypt (snd (SNEPPX_chacha20_block s)) (drop 64 data)),
     snd (SNEPPX_chacha20_encrypt (snd (SNEPPX_chacha20_block s)) (drop 64 data)))"
  by (subst SNEPPX_chacha20_encrypt.simps) (auto simp: Let_def split: prod.splits)

text \<open>Induction over the blocks of a message.\<close>

lemma chacha20_induct [case_names Nil Block]:
  assumes "\<And>s. P s []" "\<And>s data. data \<noteq> [] \<Longrightarrow> P (snd (SNEPPX_chacha20_block s)) (drop 64 data) \<Longrightarrow> P s data"
  shows "P s data"
proof (induction "length data" arbitrary: s data rule: less_induct)
  case less
  then show ?case using assms by (cases "data = []") auto
qed

lemma length_chacha20_encrypt [simp]: "length (fst (SNEPPX_chacha20_encrypt s data)) = length data"
  by (induction s data rule: chacha20_induct) (auto simp: chacha20_encrypt_step)

text \<open>Encrypting in two calls agrees with one call when the first part is a multiple of the block size.\<close>

lemma chacha20_encrypt_append:
  assumes "length a = 64 * n"
  shows "SNEPPX_chacha20_encrypt s (a @ b) =
    (let (x, s') = SNEPPX_chacha20_encrypt s a; (y, s'') = SNEPPX_chacha20_encrypt s' b in (x @ y, s''))"
  using assms
proof (induction n arbitrary: a s)
  case (Suc n)
  then have a: "a \<noteq> []" "64 \<le> length a" by auto
  from Suc.IH [of "drop 64 a" "snd (SNEPPX_chacha20_block s)"] Suc.prems a show ?case
    by (simp add: chacha20_encrypt_step Let_def split: prod.splits)
qed simp

lemma chacha20_decrypts:
  "fst (SNEPPX_chacha20_encrypt s (fst (SNEPPX_chacha20_encrypt s data))) = data"
proof (induction s data rule: chacha20_induct)
  case (Block s data)
  let ?b = "fst (SNEPPX_chacha20_block s)" and ?s = "snd (SNEPPX_chacha20_block s)"
  let ?r = "fst (SNEPPX_chacha20_encrypt ?s (drop 64 data))"
  let ?x = "xor_bytes (take 64 data) ?b"
  have e: "fst (SNEPPX_chacha20_encrypt s data) = ?x @ ?r"
    using Block.hyps by (simp add: chacha20_encrypt_step)
  have t: "take 64 (?x @ ?r) = ?x" "drop 64 (?x @ ?r) = ?r"
    by (cases "length data \<le> 64"; simp)+
  have "?x @ ?r \<noteq> []"
    using Block.hyps length_chacha20_encrypt [of s data] unfolding e by force
  from chacha20_encrypt_step [OF this, of s]
  have "fst (SNEPPX_chacha20_encrypt s (?x @ ?r)) = xor_bytes ?x ?b @ drop 64 data"
    unfolding t Block.IH by simp
  also have "\<dots> = data" by (simp add: xor_bytes_twice)
  finally show ?case unfolding e .
qed simp

text \<open>ChaCha20 decrypts what it encrypts: applying the cipher twice from the same state returns the
  data, of the same length.\<close>

theorem chacha20_roundtrip:
  "fst (SNEPPX_chacha20_encrypt (SNEPPX_chacha20_init key nonce ctr)
     (fst (SNEPPX_chacha20_encrypt (SNEPPX_chacha20_init key nonce ctr) data))) = data \<and>
   length (fst (SNEPPX_chacha20_encrypt (SNEPPX_chacha20_init key nonce ctr) data)) = length data"
  by (simp add: chacha20_decrypts)

text \<open>A message may be encrypted in pieces: when every piece but the last is a multiple of 64 bytes,
  encrypting the pieces one after the other with the same state gives what encrypting their
  concatenation gives, and leaves the same state.\<close>

theorem chacha20_in_pieces:
  assumes "\<forall>p \<in> set (butlast ps). 64 dvd length p" "ps \<noteq> []"
  shows "fold (\<lambda>p (out, s). let (y, s') = SNEPPX_chacha20_encrypt s p in (out @ y, s')) ps (out, s) =
    (let (y, s') = SNEPPX_chacha20_encrypt s (concat ps) in (out @ y, s'))"
  using assms
proof (induction ps arbitrary: out s)
  case (Cons p ps)
  show ?case
  proof (cases "ps = []")
    case False
    with Cons.prems obtain n where "length p = 64 * n" by (auto elim!: dvdE)
    from chacha20_encrypt_append [OF this] Cons.IH Cons.prems False show ?thesis
      by (auto simp: Let_def split: prod.splits)
  qed simp
qed simp

theorem chacha20_in_pieces_witness:
  "fold (\<lambda>p (out, s). let (y, s') = SNEPPX_chacha20_encrypt s p in (out @ y, s'))
     [replicate 64 0, [1, 2, 3]] ([], replicate 16 0) =
   (let (y, s') = SNEPPX_chacha20_encrypt (replicate 16 0) (replicate 64 0 @ [1, 2, 3]) in (y, s'))"
  using chacha20_in_pieces [of "[replicate 64 0, [1, 2, 3]]" "[]" "replicate 16 0"] by simp

definition qr_inverse :: "u32 \<Rightarrow> u32 \<Rightarrow> u32 \<Rightarrow> u32 \<Rightarrow> u32 \<times> u32 \<times> u32 \<times> u32" where
  "qr_inverse a b c d =
     (let b = ROTR32 b 7; b = b XOR c; c = c - d;
          d = ROTR32 d 8; d = d XOR a; a = a - b;
          b = ROTR32 b 12; b = b XOR c; c = c - d;
          d = ROTR32 d 16; d = d XOR a; a = a - b
      in (a, b, c, d))"

lemma ROTR32_ROTL32: "0 < n \<Longrightarrow> n < 32 \<Longrightarrow> ROTR32 (ROTL32 x n) n = x"
proof (rule bit_eqI)
  fix k assume "0 < n" "n < 32" and k: "possible_bit TYPE(32 word) k"
  then show "bit (ROTR32 (ROTL32 x n) n) k = bit x k"
    by (cases "n + k < 32") (auto simp: ROTR32_def ROTL32_def bit_simps)
qed

lemma xor_cancel_right: "(x XOR y) XOR y = (x :: u32)"
  by (simp add: xor.assoc)

text \<open>The quarter round is a bijection on four words: it has the inverse that undoes its steps in
  reverse order.\<close>

theorem qr_bijective:
  "(case qr a b c d of (a', b', c', d') \<Rightarrow> qr_inverse a' b' c' d') = (a, b, c, d)"
  by (simp add: qr_def qr_inverse_def Let_def ROTR32_ROTL32 xor_cancel_right)

end
