(* ===== verification/Poly1305.thy ===== *)
theory Poly1305
  imports Bytes
begin

text \<open>
  The one-time authenticator of \<open>security/crypto/c/poly1305.c\<close>: radix \<open>2 ^ 26\<close> limbs in 64-bit words.
  The update loop does not end when the buffer is full at its start, and copies outside the buffer
  beyond that: its result is then \<open>None\<close>, which the invariant of the state excludes.
\<close>

unbundle bit_operations_syntax

section \<open>Model\<close>

record poly1305_state =
  p_r :: "u64 list"
  p_h :: "u64 list"
  p_s :: "u64 list"
  p_buf :: bytes
  p_buflen :: nat

definition MASK26 :: u64 where "MASK26 = 0x3ffffff"

text \<open>The five limbs of a 128-bit little-endian number.\<close>

definition limbs :: "u64 \<Rightarrow> u64 \<Rightarrow> u64 list" where
  "limbs lo hi =
     [lo AND MASK26, drop_bit 26 lo AND MASK26, (drop_bit 52 lo OR push_bit 12 hi) AND MASK26,
      drop_bit 14 hi AND MASK26, drop_bit 40 hi AND MASK26]"

text \<open>Multiplication by \<open>r\<close> and the carry chain of \<open>poly1305_block\<close>.\<close>

definition poly1305_mul :: "u64 list \<Rightarrow> u64 list \<Rightarrow> u64 list" where
  "poly1305_mul h r =
     (let h0 = h ! 0; h1 = h ! 1; h2 = h ! 2; h3 = h ! 3; h4 = h ! 4;
          r0 = r ! 0; r1 = r ! 1; r2 = r ! 2; r3 = r ! 3; r4 = r ! 4;
          d0 = h0 * r0 + h1 * 5 * r4 + h2 * 5 * r3 + h3 * 5 * r2 + h4 * 5 * r1;
          d1 = h0 * r1 + h1 * r0 + h2 * 5 * r4 + h3 * 5 * r3 + h4 * 5 * r2;
          d2 = h0 * r2 + h1 * r1 + h2 * r0 + h3 * 5 * r4 + h4 * 5 * r3;
          d3 = h0 * r3 + h1 * r2 + h2 * r1 + h3 * r0 + h4 * 5 * r4;
          d4 = h0 * r4 + h1 * r3 + h2 * r2 + h3 * r1 + h4 * r0;
          c = drop_bit 26 d0; h0 = d0 AND MASK26; d1 = d1 + c;
          c = drop_bit 26 d1; h1 = d1 AND MASK26; d2 = d2 + c;
          c = drop_bit 26 d2; h2 = d2 AND MASK26; d3 = d3 + c;
          c = drop_bit 26 d3; h3 = d3 AND MASK26; d4 = d4 + c;
          c = drop_bit 26 d4; h4 = d4 AND MASK26; h0 = h0 + c * 5;
          c = drop_bit 26 h0; h0 = h0 AND MASK26; h1 = h1 + c
      in [h0, h1, h2, h3, h4])"

definition poly1305_block :: "poly1305_state \<Rightarrow> bytes \<Rightarrow> u64 \<Rightarrow> poly1305_state" where
  "poly1305_block s m hibit =
     (let b_lo = le64 m 0; b_hi = le64 m 8; l = limbs b_lo b_hi; h = p_h s;
          h = [h ! 0 + l ! 0, h ! 1 + l ! 1, h ! 2 + l ! 2, h ! 3 + l ! 3, h ! 4 + l ! 4 + hibit]
      in s\<lparr>p_h := poly1305_mul h (p_r s)\<rparr>)"

definition clamp :: "bytes \<Rightarrow> bytes" where
  "clamp r =
     r[3 := r ! 3 AND 0x0f, 7 := r ! 7 AND 0x0f, 11 := r ! 11 AND 0x0f, 15 := r ! 15 AND 0x0f,
       4 := r ! 4 AND 0xfc, 8 := r ! 8 AND 0xfc, 12 := r ! 12 AND 0xfc]"

text \<open>The buffer is not initialised by the code; its contents are an argument.\<close>

definition SNEPPX_poly1305_init :: "bytes \<Rightarrow> bytes \<Rightarrow> poly1305_state" where
  "SNEPPX_poly1305_init buf0 key =
     (let r = clamp (take 16 key) in
      \<lparr>p_r = limbs (le64 r 0) (le64 r 8), p_h = [0, 0, 0, 0, 0],
       p_s = [le64 key 16, le64 key 24], p_buf = buf0, p_buflen = 0\<rparr>)"

function SNEPPX_poly1305_update :: "poly1305_state \<Rightarrow> bytes \<Rightarrow> poly1305_state option" where
  "SNEPPX_poly1305_update s data =
     (if data = [] then Some s
      else if 16 \<le> p_buflen s then None
      else let tk = (if 16 - p_buflen s > length data then length data else 16 - p_buflen s);
               s' = s\<lparr>p_buf := put_bytes (p_buf s) (p_buflen s) (take tk data), p_buflen := p_buflen s + tk\<rparr>;
               s'' = (if p_buflen s' = 16 then (poly1305_block s' (p_buf s') (2 ^ 24))\<lparr>p_buflen := 0\<rparr> else s')
           in SNEPPX_poly1305_update s'' (drop tk data))"
  by pat_completeness auto
termination
  by (relation "measure (\<lambda>(s, data). length data)") (auto split: if_splits)

declare SNEPPX_poly1305_update.simps [simp del]

text \<open>The carry propagation at the head of \<open>SNEPPX_poly1305_finish\<close>.\<close>

definition poly1305_carry :: "u64 list \<Rightarrow> u64 list" where
  "poly1305_carry h =
     (let h0 = h ! 0; h1 = h ! 1; h2 = h ! 2; h3 = h ! 3; h4 = h ! 4;
          c = drop_bit 26 h0; h0 = h0 AND MASK26; h1 = h1 + c;
          c = drop_bit 26 h1; h1 = h1 AND MASK26; h2 = h2 + c;
          c = drop_bit 26 h2; h2 = h2 AND MASK26; h3 = h3 + c;
          c = drop_bit 26 h3; h3 = h3 AND MASK26; h4 = h4 + c;
          c = drop_bit 26 h4; h4 = h4 AND MASK26; h0 = h0 + c * 5;
          c = drop_bit 26 h0; h0 = h0 AND MASK26; h1 = h1 + c
      in [h0, h1, h2, h3, h4])"

text \<open>The conditional subtraction of the modulus.\<close>

definition borrow :: "u64 \<Rightarrow> u64 \<Rightarrow> u64" where
  "borrow t h = (if t > h then 1 else 0)"

definition poly1305_reduce :: "u64 list \<Rightarrow> u64 list" where
  "poly1305_reduce h =
     (let h0 = h ! 0; h1 = h ! 1; h2 = h ! 2; h3 = h ! 3; h4 = h ! 4;
          t0 = h0 - 0x3ffffffb; b = borrow t0 h0;
          t1 = h1 - 0x3ffffff - b; b = borrow t1 h1;
          t2 = h2 - 0x3ffffff - b; b = borrow t2 h2;
          t3 = h3 - 0x3ffffff - b; b = borrow t3 h3;
          t4 = h4 - 0x3ffffff - b; b = borrow t4 h4;
          m = 0 - b
      in [(t0 AND NOT m) OR (h0 AND m), (t1 AND NOT m) OR (h1 AND m), (t2 AND NOT m) OR (h2 AND m),
          (t3 AND NOT m) OR (h3 AND m), (t4 AND NOT m) OR (h4 AND m)])"

text \<open>The addition of \<open>s\<close> and the serialisation.\<close>

definition poly1305_tag :: "u64 list \<Rightarrow> u64 list \<Rightarrow> bytes" where
  "poly1305_tag h s =
     (let h_lo = h ! 0 OR push_bit 26 (h ! 1) OR push_bit 52 (h ! 2 AND 0xfff);
          h_hi = drop_bit 12 (h ! 2) OR push_bit 14 (h ! 3) OR push_bit 40 (h ! 4 AND 0xffffff);
          old_lo = h_lo;
          h_lo = h_lo + s ! 0;
          h_hi = h_hi + (s ! 1 + (if h_lo < old_lo then 1 else 0))
      in le64_bytes h_lo @ le64_bytes h_hi)"

definition SNEPPX_poly1305_finish :: "poly1305_state \<Rightarrow> bytes" where
  "SNEPPX_poly1305_finish s =
     (let s = (if p_buflen s \<noteq> 0 then
                 let buf = put_bytes (p_buf s) (p_buflen s) (replicate (16 - p_buflen s) 0);
                     s = s\<lparr>p_buf := buf[p_buflen s := 1]\<rparr>
                 in poly1305_block s (p_buf s) 0
               else s)
      in poly1305_tag (poly1305_reduce (poly1305_carry (p_h s))) (p_s s))"

section \<open>Limb arithmetic\<close>

definition nval :: "nat list \<Rightarrow> nat" where
  "nval h = h ! 0 + 2 ^ 26 * h ! 1 + 2 ^ 52 * h ! 2 + 2 ^ 78 * h ! 3 + 2 ^ 104 * h ! 4"

abbreviation P1305 :: nat where "P1305 \<equiv> 2 ^ 130 - 5"

definition nat_mul :: "nat list \<Rightarrow> nat list \<Rightarrow> nat list" where
  "nat_mul h r =
     (let h0 = h ! 0; h1 = h ! 1; h2 = h ! 2; h3 = h ! 3; h4 = h ! 4;
          r0 = r ! 0; r1 = r ! 1; r2 = r ! 2; r3 = r ! 3; r4 = r ! 4;
          d0 = h0 * r0 + h1 * 5 * r4 + h2 * 5 * r3 + h3 * 5 * r2 + h4 * 5 * r1;
          d1 = h0 * r1 + h1 * r0 + h2 * 5 * r4 + h3 * 5 * r3 + h4 * 5 * r2;
          d2 = h0 * r2 + h1 * r1 + h2 * r0 + h3 * 5 * r4 + h4 * 5 * r3;
          d3 = h0 * r3 + h1 * r2 + h2 * r1 + h3 * r0 + h4 * 5 * r4;
          d4 = h0 * r4 + h1 * r3 + h2 * r2 + h3 * r1 + h4 * r0;
          e1 = d1 + d0 div 2 ^ 26; e2 = d2 + e1 div 2 ^ 26; e3 = d3 + e2 div 2 ^ 26; e4 = d4 + e3 div 2 ^ 26;
          e0 = d0 mod 2 ^ 26 + e4 div 2 ^ 26 * 5
      in [e0 mod 2 ^ 26, e1 mod 2 ^ 26 + e0 div 2 ^ 26, e2 mod 2 ^ 26, e3 mod 2 ^ 26, e4 mod 2 ^ 26])"

lemma drop_bit_of_nat64: "n < 2 ^ 64 \<Longrightarrow> drop_bit k (of_nat n :: u64) = of_nat (n div 2 ^ k)"
proof -
  assume n: "n < 2 ^ 64"
  then have "n div 2 ^ k < 2 ^ 64" by (meson div_le_dividend le_less_trans)
  then have "unat (of_nat (n div 2 ^ k) :: u64) = n div 2 ^ k" by (simp add: unat_of_nat)
  moreover have "unat (of_nat n :: u64) = n" using n by (simp add: unat_of_nat)
  then have "unat (drop_bit k (of_nat n :: u64)) = n div 2 ^ k" 
    by (subst unat_drop_bit_eq) (simp only: drop_bit_eq_div)
  ultimately show ?thesis by (simp only: word_unat_eq_iff)
qed

lemma mask26_of_nat: "(of_nat n :: u64) AND MASK26 = of_nat (n mod 2 ^ 26)"
proof -
  have "MASK26 = mask 26" by (simp add: MASK26_def mask_eq_exp_minus_1)
  then have "(of_nat n :: u64) AND MASK26 = take_bit 26 (of_nat n)" by (simp add: take_bit_eq_mask)
  also have "\<dots> = of_nat (take_bit 26 n)" by (simp add: take_bit_of_nat)
  finally show ?thesis by (simp add: take_bit_eq_mod)
qed


lemma mul_bound: "a < 2 ^ 28 \<Longrightarrow> b < 2 ^ 26 \<Longrightarrow> a * b \<le> (2 ^ 54 :: nat)"
proof -
  assume "a < 2 ^ 28" "b < 2 ^ 26"
  then have "a * b \<le> 2 ^ 28 * 2 ^ 26" by (intro mult_mono) auto
  then show ?thesis by simp
qed

lemma poly1305_mul_nat:
  assumes h: "h0 < 2 ^ 28" "h1 < 2 ^ 28" "h2 < 2 ^ 28" "h3 < 2 ^ 28" "h4 < 2 ^ 28"
    and r: "r0 < 2 ^ 26" "r1 < 2 ^ 26" "r2 < 2 ^ 26" "r3 < 2 ^ 26" "r4 < 2 ^ 26"
  shows "poly1305_mul (map of_nat [h0, h1, h2, h3, h4]) (map of_nat [r0, r1, r2, r3, r4]) =
    map of_nat (nat_mul [h0, h1, h2, h3, h4] [r0, r1, r2, r3, r4])"
proof -
  define d0 where "d0 = h0 * r0 + h1 * 5 * r4 + h2 * 5 * r3 + h3 * 5 * r2 + h4 * 5 * r1"
  define d1 where "d1 = h0 * r1 + h1 * r0 + h2 * 5 * r4 + h3 * 5 * r3 + h4 * 5 * r2"
  define d2 where "d2 = h0 * r2 + h1 * r1 + h2 * r0 + h3 * 5 * r4 + h4 * 5 * r3"
  define d3 where "d3 = h0 * r3 + h1 * r2 + h2 * r1 + h3 * r0 + h4 * 5 * r4"
  define d4 where "d4 = h0 * r4 + h1 * r3 + h2 * r2 + h3 * r1 + h4 * r0"
  note m = mul_bound [OF h(1)] mul_bound [OF h(2)] mul_bound [OF h(3)] mul_bound [OF h(4)] mul_bound [OF h(5)]
  have d: "d0 \<le> 21 * 2 ^ 54" "d1 \<le> 21 * 2 ^ 54" "d2 \<le> 21 * 2 ^ 54" "d3 \<le> 21 * 2 ^ 54" "d4 \<le> 21 * 2 ^ 54"
    using m(1) [OF r(1)] m(1) [OF r(2)] m(1) [OF r(3)] m(1) [OF r(4)] m(1) [OF r(5)]
      m(2) [OF r(1)] m(2) [OF r(2)] m(2) [OF r(3)] m(2) [OF r(4)] m(2) [OF r(5)]
      m(3) [OF r(1)] m(3) [OF r(2)] m(3) [OF r(3)] m(3) [OF r(4)] m(3) [OF r(5)]
      m(4) [OF r(1)] m(4) [OF r(2)] m(4) [OF r(3)] m(4) [OF r(4)] m(4) [OF r(5)]
      m(5) [OF r(1)] m(5) [OF r(2)] m(5) [OF r(3)] m(5) [OF r(4)] m(5) [OF r(5)]
    by (simp_all add: d0_def d1_def d2_def d3_def d4_def)
  define e1 where "e1 = d1 + d0 div 2 ^ 26"
  define e2 where "e2 = d2 + e1 div 2 ^ 26"
  define e3 where "e3 = d3 + e2 div 2 ^ 26"
  define e4 where "e4 = d4 + e3 div 2 ^ 26"
  define e0 where "e0 = d0 mod 2 ^ 26 + e4 div 2 ^ 26 * 5"
  have "d0 < 2 ^ 64" using d by simp
  moreover have e1: "e1 \<le> 22 * 2 ^ 54" using d by (simp add: e1_def)
  moreover have e2: "e2 \<le> 22 * 2 ^ 54" using d e1 by (simp add: e2_def)
  moreover have e3: "e3 \<le> 22 * 2 ^ 54" using d e2 by (simp add: e3_def)
  moreover have e4: "e4 \<le> 22 * 2 ^ 54" using d e3 by (simp add: e4_def)
  moreover have "e0 < 2 ^ 64" using e4 by (simp add: e0_def)
  ultimately have lt: "d0 < 2 ^ 64" "e1 < 2 ^ 64" "e2 < 2 ^ 64" "e3 < 2 ^ 64" "e4 < 2 ^ 64" "e0 < 2 ^ 64" by simp_all
  have w0: "(of_nat h0 * of_nat r0 + of_nat h1 * 5 * of_nat r4 + of_nat h2 * 5 * of_nat r3 +
      of_nat h3 * 5 * of_nat r2 + of_nat h4 * 5 * of_nat r1 :: u64) = of_nat d0"
    by (simp add: d0_def)
  have w1: "(of_nat h0 * of_nat r1 + of_nat h1 * of_nat r0 + of_nat h2 * 5 * of_nat r4 +
      of_nat h3 * 5 * of_nat r3 + of_nat h4 * 5 * of_nat r2 + of_nat (d0 div 2 ^ 26) :: u64) = of_nat e1"
    by (simp add: e1_def d1_def)
  have w2: "(of_nat h0 * of_nat r2 + of_nat h1 * of_nat r1 + of_nat h2 * of_nat r0 +
      of_nat h3 * 5 * of_nat r4 + of_nat h4 * 5 * of_nat r3 + of_nat (e1 div 2 ^ 26) :: u64) = of_nat e2"
    by (simp add: e2_def d2_def)
  have w3: "(of_nat h0 * of_nat r3 + of_nat h1 * of_nat r2 + of_nat h2 * of_nat r1 + of_nat h3 * of_nat r0 +
      of_nat h4 * 5 * of_nat r4 + of_nat (e2 div 2 ^ 26) :: u64) = of_nat e3"
    by (simp add: e3_def d3_def)
  have w4: "(of_nat h0 * of_nat r4 + of_nat h1 * of_nat r3 + of_nat h2 * of_nat r2 + of_nat h3 * of_nat r1 +
      of_nat h4 * of_nat r0 + of_nat (e3 div 2 ^ 26) :: u64) = of_nat e4"
    by (simp add: e4_def d4_def)
  have w5: "(of_nat (d0 mod 2 ^ 26) + of_nat (e4 div 2 ^ 26) * 5 :: u64) = of_nat e0"
    by (simp add: e0_def)
  note dr = lt [THEN drop_bit_of_nat64]
  have n: "nat_mul [h0, h1, h2, h3, h4] [r0, r1, r2, r3, r4] =
      [e0 mod 2 ^ 26, e1 mod 2 ^ 26 + e0 div 2 ^ 26, e2 mod 2 ^ 26, e3 mod 2 ^ 26, e4 mod 2 ^ 26]"
    by (simp add: nat_mul_def Let_def e0_def e1_def e2_def e3_def e4_def d0_def d1_def d2_def d3_def d4_def)
  have five: "[a, b, c, d, e] ! 0 = a" "[a, b, c, d, e] ! 1 = b" "[a, b, c, d, e] ! 2 = c"
    "[a, b, c, d, e] ! 3 = d" "[a, b, c, d, e] ! 4 = e" for a b c d e :: u64
    by simp_all
  show ?thesis
    unfolding poly1305_mul_def Let_def list.map five n w0 dr w1 w2 w3 w4 mask26_of_nat w5
    by (simp only: of_nat_add)
qed

text \<open>Polynomial identity of the schoolbook product modulo the prime: the products of weight
  \<open>2 ^ 130\<close> and above are folded back with factor 5.\<close>

lemma schoolbook:
  fixes h0 h1 h2 h3 h4 r0 r1 r2 r3 r4 :: nat
  shows "nval [h0, h1, h2, h3, h4] * nval [r0, r1, r2, r3, r4] =
    nval [h0 * r0 + h1 * 5 * r4 + h2 * 5 * r3 + h3 * 5 * r2 + h4 * 5 * r1,
          h0 * r1 + h1 * r0 + h2 * 5 * r4 + h3 * 5 * r3 + h4 * 5 * r2,
          h0 * r2 + h1 * r1 + h2 * r0 + h3 * 5 * r4 + h4 * 5 * r3,
          h0 * r3 + h1 * r2 + h2 * r1 + h3 * r0 + h4 * 5 * r4,
          h0 * r4 + h1 * r3 + h2 * r2 + h3 * r1 + h4 * r0] +
    P1305 * (h1 * r4 + h2 * r3 + h3 * r2 + h4 * r1 + 2 ^ 26 * (h2 * r4 + h3 * r3 + h4 * r2) +
             2 ^ 52 * (h3 * r4 + h4 * r3) + 2 ^ 78 * (h4 * r4))"
  by (simp add: nval_def algebra_simps)

lemma carry_id:
  fixes d0 d1 d2 d3 d4 :: nat
  assumes "d0 = 2 ^ 26 * q0 + m0" "d1 + q0 = 2 ^ 26 * q1 + m1" "d2 + q1 = 2 ^ 26 * q2 + m2"
    "d3 + q2 = 2 ^ 26 * q3 + m3" "d4 + q3 = 2 ^ 26 * q4 + m4" "m0 + q4 * 5 = 2 ^ 26 * q + m"
  shows "nval [d0, d1, d2, d3, d4] = nval [m, m1 + q, m2, m3, m4] + P1305 * q4"
  using assms by (simp add: nval_def)

lemma five_nth:
  "[a, b, c, d, e] ! 0 = a" "[a, b, c, d, e] ! 1 = b" "[a, b, c, d, e] ! 2 = c"
  "[a, b, c, d, e] ! 3 = d" "[a, b, c, d, e] ! 4 = e"
  by simp_all

lemma nat_mul_correct:
  "nval (nat_mul [h0, h1, h2, h3, h4] [r0, r1, r2, r3, r4]) mod P1305 =
   nval [h0, h1, h2, h3, h4] * nval [r0, r1, r2, r3, r4] mod P1305"
proof -
  have "\<exists>k. nval [h0, h1, h2, h3, h4] * nval [r0, r1, r2, r3, r4] =
      nval (nat_mul [h0, h1, h2, h3, h4] [r0, r1, r2, r3, r4]) + P1305 * k"
    unfolding schoolbook nat_mul_def Let_def five_nth
    by (subst carry_id, (rule mult_div_mod_eq [symmetric])+)
       (simp only: add.assoc distrib_left [symmetric], blast)
  then show ?thesis by (metis mod_mult_self2)
qed


lemma unat_lt64: "unat (w :: u64) < 2 ^ 64"
  using unsigned_less [of w] by simp

definition nat_limbs :: "nat \<Rightarrow> nat \<Rightarrow> nat list" where
  "nat_limbs lo hi =
     [lo mod 2 ^ 26, lo div 2 ^ 26 mod 2 ^ 26, lo div 2 ^ 52 + 2 ^ 12 * (hi mod 2 ^ 14),
      hi div 2 ^ 14 mod 2 ^ 26, hi div 2 ^ 40]"

lemma middle_limb:
  fixes lo hi :: u64
  shows "(drop_bit 52 lo OR push_bit 12 hi) AND MASK26 =
    of_nat (unat lo div 2 ^ 52 + 2 ^ 12 * (unat hi mod 2 ^ 14))"
proof -
  have m: "MASK26 = mask 26" by (simp add: MASK26_def mask_eq_exp_minus_1)
  have "(drop_bit 52 lo OR push_bit 12 hi) AND MASK26 = drop_bit 52 lo OR push_bit 12 (take_bit 14 hi)"
    by (rule bit_eqI) (auto simp: m bit_simps dest: bit_imp_le_length)
  also have "\<dots> = drop_bit 52 lo + push_bit 12 (take_bit 14 hi)"
    by (rule disjunctive_add [symmetric]) (auto simp: bit_simps dest: bit_imp_le_length)
  finally have e: "(drop_bit 52 lo OR push_bit 12 hi) AND MASK26 = drop_bit 52 lo + push_bit 12 (take_bit 14 hi)" .
  have d: "drop_bit 52 lo = of_nat (unat lo div 2 ^ 52)"
    using drop_bit_of_nat64 [OF unat_lt64 [of lo], of 52] by simp
  have "push_bit 12 (take_bit 14 hi) = of_nat (2 ^ 12 * (unat hi mod 2 ^ 14))"
  proof -
    have "take_bit 14 (of_nat (unat hi) :: u64) = of_nat (take_bit 14 (unat hi))" by (rule take_bit_of_nat)
    then have "take_bit 14 hi = of_nat (unat hi mod 2 ^ 14)" by (simp add: take_bit_eq_mod)
    then show ?thesis by (simp add: push_bit_eq_mult)
  qed
  then show ?thesis by (subst e, subst d, simp only: of_nat_add)
qed

lemma limbs_nat:
  fixes lo hi :: u64
  shows "limbs lo hi = map of_nat (nat_limbs (unat lo) (unat hi))"
proof -
  have w: "lo = of_nat (unat lo)" "hi = of_nat (unat hi)" by simp_all
  note lt = unat_lt64 [of lo] unat_lt64 [of hi]
  have "drop_bit 26 lo AND MASK26 = of_nat (unat lo div 2 ^ 26 mod 2 ^ 26)"
    using drop_bit_of_nat64 [OF lt(1), of 26] mask26_of_nat [of "unat lo div 2 ^ 26"] by simp
  moreover have "drop_bit 14 hi AND MASK26 = of_nat (unat hi div 2 ^ 14 mod 2 ^ 26)"
    using drop_bit_of_nat64 [OF lt(2), of 14] mask26_of_nat [of "unat hi div 2 ^ 14"] by simp
  moreover have "drop_bit 40 hi AND MASK26 = of_nat (unat hi div 2 ^ 40)"
    using drop_bit_of_nat64 [OF lt(2), of 40] mask26_of_nat [of "unat hi div 2 ^ 40"] lt by simp
  moreover have "lo AND MASK26 = of_nat (unat lo mod 2 ^ 26)" using mask26_of_nat [of "unat lo"] by simp
  ultimately show ?thesis by (simp only: limbs_def nat_limbs_def list.map middle_limb)
qed

lemma split_digit: "(a :: nat) div m = k * (a div (m * k)) + a div m mod k"
  by (simp add: div_mult2_eq)

lemma digits_id:
  fixes lo hi :: nat
  assumes "lo = 2 ^ 26 * q + a" "q = 2 ^ 26 * c + b" "hi = 2 ^ 14 * p + d" "p = 2 ^ 26 * f + e"
  shows "nval [a, b, c + 2 ^ 12 * d, e, f] = lo + 2 ^ 64 * hi"
  using assms by (simp add: nval_def)

lemma nat_limbs_value: "nval (nat_limbs lo hi) = lo + 2 ^ 64 * hi"
  unfolding nat_limbs_def
proof (rule digits_id)
  show "lo = 2 ^ 26 * (lo div 2 ^ 26) + lo mod 2 ^ 26" "hi = 2 ^ 14 * (hi div 2 ^ 14) + hi mod 2 ^ 14"
    by simp_all
  show "lo div 2 ^ 26 = 2 ^ 26 * (lo div 2 ^ 52) + lo div 2 ^ 26 mod 2 ^ 26"
    using split_digit [of lo "2 ^ 26" "2 ^ 26"] by simp
  show "hi div 2 ^ 14 = 2 ^ 26 * (hi div 2 ^ 40) + hi div 2 ^ 14 mod 2 ^ 26"
    using split_digit [of hi "2 ^ 14" "2 ^ 26"] by simp
qed

lemma nat_limbs_bound:
  assumes "lo < 2 ^ 64" "hi < 2 ^ 64"
  shows "\<forall>l \<in> set (nat_limbs lo hi). l < 2 ^ 26"
  using assms by (auto simp: nat_limbs_def)

section \<open>One block\<close>

definition limb_ok :: "u64 list \<Rightarrow> nat \<Rightarrow> bool" where
  "limb_ok h b \<longleftrightarrow> length h = 5 \<and> (\<forall>x \<in> set h. unat x < b)"

definition wval :: "u64 list \<Rightarrow> nat" where
  "wval h = nval (map unat h)"

definition poly_ok :: "poly1305_state \<Rightarrow> bool" where
  "poly_ok s \<longleftrightarrow> limb_ok (p_h s) (2 ^ 27) \<and> limb_ok (p_r s) (2 ^ 26) \<and> length (p_s s) = 2 \<and>
     length (p_buf s) = 16 \<and> p_buflen s < 16"

text \<open>The number that a 16-byte block stands for.\<close>

definition block_num :: "bytes \<Rightarrow> nat" where
  "block_num m = unat (le64 m 0) + 2 ^ 64 * unat (le64 m 8)"

lemma list5: "length xs = 5 \<longleftrightarrow> (\<exists>a b c d e. xs = [a, b, c, d, e])"
  by (auto simp: length_Suc_conv numeral_eq_Suc)

lemma unat_of_nat_small: "n < 2 ^ 64 \<Longrightarrow> unat (of_nat n :: u64) = n"
  by (simp add: unat_of_nat)

lemma product_bounds:
  fixes h0 h1 h2 h3 h4 r0 r1 r2 r3 r4 :: nat
  assumes h: "h0 < 2 ^ 28" "h1 < 2 ^ 28" "h2 < 2 ^ 28" "h3 < 2 ^ 28" "h4 < 2 ^ 28"
    and r: "r0 < 2 ^ 26" "r1 < 2 ^ 26" "r2 < 2 ^ 26" "r3 < 2 ^ 26" "r4 < 2 ^ 26"
  shows "h0 * r4 + h1 * r3 + h2 * r2 + h3 * r1 + h4 * r0 \<le> 5 * 2 ^ 54"
    "h0 * r3 + h1 * r2 + h2 * r1 + h3 * r0 + h4 * 5 * r4 \<le> 9 * 2 ^ 54"
    "h0 * r2 + h1 * r1 + h2 * r0 + h3 * 5 * r4 + h4 * 5 * r3 \<le> 13 * 2 ^ 54"
    "h0 * r1 + h1 * r0 + h2 * 5 * r4 + h3 * 5 * r3 + h4 * 5 * r2 \<le> 17 * 2 ^ 54"
    "h0 * r0 + h1 * 5 * r4 + h2 * 5 * r3 + h3 * 5 * r2 + h4 * 5 * r1 \<le> 21 * 2 ^ 54"
proof -
  note m = mul_bound [OF h(1)] mul_bound [OF h(2)] mul_bound [OF h(3)] mul_bound [OF h(4)] mul_bound [OF h(5)]
  note n = m [OF r(1)] m [OF r(2)] m [OF r(3)] m [OF r(4)] m [OF r(5)]
  show "h0 * r4 + h1 * r3 + h2 * r2 + h3 * r1 + h4 * r0 \<le> 5 * 2 ^ 54"
    "h0 * r3 + h1 * r2 + h2 * r1 + h3 * r0 + h4 * 5 * r4 \<le> 9 * 2 ^ 54"
    "h0 * r2 + h1 * r1 + h2 * r0 + h3 * 5 * r4 + h4 * 5 * r3 \<le> 13 * 2 ^ 54"
    "h0 * r1 + h1 * r0 + h2 * 5 * r4 + h3 * 5 * r3 + h4 * 5 * r2 \<le> 17 * 2 ^ 54"
    "h0 * r0 + h1 * 5 * r4 + h2 * 5 * r3 + h3 * 5 * r2 + h4 * 5 * r1 \<le> 21 * 2 ^ 54"
    using n by simp_all
qed

lemma carry_bound:
  fixes d0 d1 d2 d3 d4 :: nat
  assumes "d0 \<le> 21 * 2 ^ 54" "d1 \<le> 21 * 2 ^ 54" "d2 \<le> 21 * 2 ^ 54" "d3 \<le> 21 * 2 ^ 54" "d4 \<le> 21 * 2 ^ 54"
    and "e1 = d1 + d0 div 2 ^ 26" "e2 = d2 + e1 div 2 ^ 26" "e3 = d3 + e2 div 2 ^ 26" "e4 = d4 + e3 div 2 ^ 26"
    and "e0 = d0 mod 2 ^ 26 + e4 div 2 ^ 26 * 5"
  shows "e1 \<le> 22 * 2 ^ 54" "e2 \<le> 22 * 2 ^ 54" "e3 \<le> 22 * 2 ^ 54" "e4 \<le> 22 * 2 ^ 54" "e0 \<le> 111 * 2 ^ 28"
proof -
  show e1: "e1 \<le> 22 * 2 ^ 54" using assms(1,2,6) by simp
  show e2: "e2 \<le> 22 * 2 ^ 54" using assms(3,7) e1 by simp
  show e3: "e3 \<le> 22 * 2 ^ 54" using assms(4,8) e2 by simp
  show e4: "e4 \<le> 22 * 2 ^ 54" using assms(5,9) e3 by simp
  show "e0 \<le> 111 * 2 ^ 28" using assms(10) e4 mod_less_divisor [of "2 ^ 26" d0] by simp
qed

lemma nat_mul_bound:
  assumes h: "h0 < 2 ^ 28" "h1 < 2 ^ 28" "h2 < 2 ^ 28" "h3 < 2 ^ 28" "h4 < 2 ^ 28"
    and r: "r0 < 2 ^ 26" "r1 < 2 ^ 26" "r2 < 2 ^ 26" "r3 < 2 ^ 26" "r4 < 2 ^ 26"
  shows "\<exists>x0 x1 x2 x3 x4. nat_mul [h0, h1, h2, h3, h4] [r0, r1, r2, r3, r4] = [x0, x1, x2, x3, x4] \<and>
    x0 < 2 ^ 27 \<and> x1 < 2 ^ 27 \<and> x2 < 2 ^ 27 \<and> x3 < 2 ^ 27 \<and> x4 < 2 ^ 27"
proof -
  define d0 where "d0 = h0 * r0 + h1 * 5 * r4 + h2 * 5 * r3 + h3 * 5 * r2 + h4 * 5 * r1"
  define d1 where "d1 = h0 * r1 + h1 * r0 + h2 * 5 * r4 + h3 * 5 * r3 + h4 * 5 * r2"
  define d2 where "d2 = h0 * r2 + h1 * r1 + h2 * r0 + h3 * 5 * r4 + h4 * 5 * r3"
  define d3 where "d3 = h0 * r3 + h1 * r2 + h2 * r1 + h3 * r0 + h4 * 5 * r4"
  define d4 where "d4 = h0 * r4 + h1 * r3 + h2 * r2 + h3 * r1 + h4 * r0"
  define e1 where "e1 = d1 + d0 div 2 ^ 26"
  define e2 where "e2 = d2 + e1 div 2 ^ 26"
  define e3 where "e3 = d3 + e2 div 2 ^ 26"
  define e4 where "e4 = d4 + e3 div 2 ^ 26"
  define e0 where "e0 = d0 mod 2 ^ 26 + e4 div 2 ^ 26 * 5"
  have "d0 \<le> 21 * 2 ^ 54" "d1 \<le> 21 * 2 ^ 54" "d2 \<le> 21 * 2 ^ 54" "d3 \<le> 21 * 2 ^ 54" "d4 \<le> 21 * 2 ^ 54"
    using product_bounds [OF h r] by (simp_all add: d0_def d1_def d2_def d3_def d4_def)
  from carry_bound(5) [OF this e1_def e2_def e3_def e4_def e0_def]
  have "e0 div 2 ^ 26 < 2 ^ 26" by simp
  then have b: "e1 mod 2 ^ 26 + e0 div 2 ^ 26 < 2 ^ 27"
    using mod_less_divisor [of "2 ^ 26" e1] by simp
  have lt: "x mod 2 ^ 26 < 2 ^ 27" for x :: nat using mod_less_divisor [of "2 ^ 26" x] by simp
  have "nat_mul [h0, h1, h2, h3, h4] [r0, r1, r2, r3, r4] =
      [e0 mod 2 ^ 26, e1 mod 2 ^ 26 + e0 div 2 ^ 26, e2 mod 2 ^ 26, e3 mod 2 ^ 26, e4 mod 2 ^ 26]"
    by (simp add: nat_mul_def Let_def e0_def e1_def e2_def e3_def e4_def d0_def d1_def d2_def d3_def d4_def)
  with b lt show ?thesis by blast
qed

lemma limb_ok_unat: "limb_ok h b \<Longrightarrow> \<exists>a0 a1 a2 a3 a4. h = map of_nat [a0, a1, a2, a3, a4] \<and>
    a0 < b \<and> a1 < b \<and> a2 < b \<and> a3 < b \<and> a4 < b \<and> map unat h = [a0, a1, a2, a3, a4]"
  unfolding limb_ok_def list5 by fastforce

lemma poly1305_block_correct:
  assumes s: "poly_ok s" and hb: "unat hibit \<le> 2 ^ 24"
  shows "limb_ok (p_h (poly1305_block s m hibit)) (2 ^ 27) \<and>
    wval (p_h (poly1305_block s m hibit)) mod P1305 =
      (wval (p_h s) + block_num m + 2 ^ 104 * unat hibit) * wval (p_r s) mod P1305"
proof -
  let ?lo = "unat (le64 m 0)" and ?hi = "unat (le64 m 8)"
  obtain a0 a1 a2 a3 a4 where a: "p_h s = map of_nat [a0, a1, a2, a3, a4]" "map unat (p_h s) = [a0, a1, a2, a3, a4]"
    "a0 < 2 ^ 27" "a1 < 2 ^ 27" "a2 < 2 ^ 27" "a3 < 2 ^ 27" "a4 < 2 ^ 27"
    using limb_ok_unat [of "p_h s" "2 ^ 27"] s unfolding poly_ok_def by metis
  obtain r0 r1 r2 r3 r4 where r: "p_r s = map of_nat [r0, r1, r2, r3, r4]" "map unat (p_r s) = [r0, r1, r2, r3, r4]"
    "r0 < 2 ^ 26" "r1 < 2 ^ 26" "r2 < 2 ^ 26" "r3 < 2 ^ 26" "r4 < 2 ^ 26"
    using limb_ok_unat [of "p_r s" "2 ^ 26"] s unfolding poly_ok_def by metis
  obtain l0 l1 l2 l3 l4 where l: "nat_limbs ?lo ?hi = [l0, l1, l2, l3, l4]" by (simp add: nat_limbs_def)
  have lb: "l0 < 2 ^ 26" "l1 < 2 ^ 26" "l2 < 2 ^ 26" "l3 < 2 ^ 26" "l4 < 2 ^ 26"
    using nat_limbs_bound [OF unat_lt64 unat_lt64, of "le64 m 0" "le64 m 8"] unfolding l by simp_all
  let ?H = "[a0 + l0, a1 + l1, a2 + l2, a3 + l3, a4 + l4 + unat hibit]" and ?R = "[r0, r1, r2, r3, r4]"
  have hb': "a0 + l0 < 2 ^ 28" "a1 + l1 < 2 ^ 28" "a2 + l2 < 2 ^ 28" "a3 + l3 < 2 ^ 28" "a4 + l4 + unat hibit < 2 ^ 28"
    using a(3-7) lb hb by simp_all
  have blk: "p_h (poly1305_block s m hibit) = poly1305_mul (map of_nat ?H) (map of_nat ?R)"
    using a(1) r(1) by (simp add: poly1305_block_def Let_def limbs_nat l)
  obtain x0 x1 x2 x3 x4 where x: "nat_mul ?H ?R = [x0, x1, x2, x3, x4]"
    "x0 < 2 ^ 27" "x1 < 2 ^ 27" "x2 < 2 ^ 27" "x3 < 2 ^ 27" "x4 < 2 ^ 27"
    using nat_mul_bound [OF hb' r(3-7)] by blast
  have h': "p_h (poly1305_block s m hibit) = map of_nat [x0, x1, x2, x3, x4]"
    unfolding blk poly1305_mul_nat [OF hb' r(3-7)] x(1) ..
  have u: "map unat (p_h (poly1305_block s m hibit)) = [x0, x1, x2, x3, x4]"
    using x(2-6) by (simp add: h' unat_of_nat)
  have "nval ?H = nval [a0, a1, a2, a3, a4] + nval [l0, l1, l2, l3, l4] + 2 ^ 104 * unat hibit"
    by (simp add: nval_def)
  then have H: "nval ?H = wval (p_h s) + block_num m + 2 ^ 104 * unat hibit"
    by (simp only: wval_def a(2) l [symmetric] nat_limbs_value block_num_def)
  have "wval (p_h (poly1305_block s m hibit)) mod P1305 = nval ?H * nval ?R mod P1305"
    unfolding wval_def u x(1) [symmetric] by (rule nat_mul_correct)
  moreover have "limb_ok (p_h (poly1305_block s m hibit)) (2 ^ 27)"
    using x(2-6) by (simp add: limb_ok_def h' unat_of_nat)
  ultimately show ?thesis unfolding H by (simp only: wval_def r(2))
qed

section \<open>Messages\<close>

text \<open>Absorbing one byte.\<close>

definition poly1305_byte :: "u8 \<Rightarrow> poly1305_state \<Rightarrow> poly1305_state" where
  "poly1305_byte x s =
     (let s' = s\<lparr>p_buf := (p_buf s)[p_buflen s := x], p_buflen := p_buflen s + 1\<rparr>
      in if p_buflen s' = 16 then (poly1305_block s' (p_buf s') (2 ^ 24))\<lparr>p_buflen := 0\<rparr> else s')"

lemma poly1305_block_frame [simp]:
  "p_r (poly1305_block s m b) = p_r s" "p_s (poly1305_block s m b) = p_s s"
  "p_buf (poly1305_block s m b) = p_buf s" "p_buflen (poly1305_block s m b) = p_buflen s"
  by (simp_all add: poly1305_block_def Let_def)

lemma poly1305_block_buflen:
  "poly1305_block (s\<lparr>p_buf := b, p_buflen := n\<rparr>) m hb = (poly1305_block s m hb)\<lparr>p_buf := b, p_buflen := n\<rparr>"
  by (simp add: poly1305_block_def Let_def)

lemma put_bytes_Cons:
  "off < length buf \<Longrightarrow> put_bytes buf off (x # xs) = put_bytes (buf[off := x]) (Suc off) xs"
  by (simp add: put_bytes_def take_Suc_conv_app_nth upd_conv_take_nth_drop add.commute)

lemma fold_byte_chunk:
  "xs \<noteq> [] \<Longrightarrow> p_buflen s + length xs \<le> 16 \<Longrightarrow> length (p_buf s) = 16 \<Longrightarrow>
   fold poly1305_byte xs s =
     (let s' = s\<lparr>p_buf := put_bytes (p_buf s) (p_buflen s) xs, p_buflen := p_buflen s + length xs\<rparr>
      in if p_buflen s' = 16 then (poly1305_block s' (p_buf s') (2 ^ 24))\<lparr>p_buflen := 0\<rparr> else s')"
proof (induction xs arbitrary: s)
  case (Cons x xs)
  show ?case
  proof (cases "xs = []")
    case True
    have "put_bytes (p_buf s) (p_buflen s) [x] = (p_buf s)[p_buflen s := x]"
      using Cons.prems by (simp add: put_bytes_def upd_conv_take_nth_drop)
    then show ?thesis using True by (simp add: poly1305_byte_def Let_def)
  next
    case False
    then have b: "poly1305_byte x s = s\<lparr>p_buf := (p_buf s)[p_buflen s := x], p_buflen := p_buflen s + 1\<rparr>"
      using Cons.prems by (cases xs) (auto simp: poly1305_byte_def Let_def)
    show ?thesis using Cons.IH [OF False, of "poly1305_byte x s"] Cons.prems
      by (simp add: b put_bytes_Cons Let_def)
  qed
qed simp

lemma poly1305_byte_buffer:
  "p_buflen s < 16 \<Longrightarrow> length (p_buf s) = 16 \<Longrightarrow>
   p_buflen (poly1305_byte x s) < 16 \<and> length (p_buf (poly1305_byte x s)) = 16"
  by (auto simp: poly1305_byte_def Let_def)

lemma fold_byte_buffer:
  "p_buflen s < 16 \<Longrightarrow> length (p_buf s) = 16 \<Longrightarrow>
   p_buflen (fold poly1305_byte xs s) < 16 \<and> length (p_buf (fold poly1305_byte xs s)) = 16"
  by (induction xs arbitrary: s) (auto dest: poly1305_byte_buffer)

text \<open>The update loop absorbs the bytes one after the other; in particular it ends.\<close>

lemma poly1305_update_bytes:
  "p_buflen s < 16 \<Longrightarrow> length (p_buf s) = 16 \<Longrightarrow>
   SNEPPX_poly1305_update s data = Some (fold poly1305_byte data s)"
proof (induction "length data" arbitrary: s data rule: less_induct)
  case less
  show ?case
  proof (cases "data = []")
    case False
    let ?t = "min (16 - p_buflen s) (length data)"
    let ?s = "fold poly1305_byte (take ?t data) s"
    have t: "0 < ?t" "take ?t data \<noteq> []" "p_buflen s + length (take ?t data) \<le> 16" using less.prems False by auto
    have "SNEPPX_poly1305_update s data = SNEPPX_poly1305_update ?s (drop ?t data)"
      unfolding fold_byte_chunk [OF t(2,3) less.prems(2)]
      using less.prems(1) False by (subst SNEPPX_poly1305_update.simps) (auto simp: Let_def min_def)
    also have "\<dots> = Some (fold poly1305_byte (drop ?t data) ?s)"
      using fold_byte_buffer [OF less.prems, of "take ?t data"] t(1) False by (intro less.hyps) auto
    also have "fold poly1305_byte (drop ?t data) ?s = fold poly1305_byte data s"
      using fold_append [of poly1305_byte "take ?t data" "drop ?t data"] by simp
    finally show ?thesis .
  qed (simp add: SNEPPX_poly1305_update.simps)
qed

text \<open>Horner's rule over the 16-byte blocks of a message.\<close>

definition absorb :: "nat \<Rightarrow> bytes \<Rightarrow> nat" where
  "absorb r m = fold (\<lambda>i a. (a + block_num (take 16 (drop (16 * i) m)) + 2 ^ 128) * r mod P1305)
     [0..<length m div 16] 0"

definition absorbed :: "poly1305_state \<Rightarrow> bytes \<Rightarrow> bool" where
  "absorbed s m \<longleftrightarrow> poly_ok s \<and> p_buflen s = length m mod 16 \<and>
     take (p_buflen s) (p_buf s) = drop (16 * (length m div 16)) m \<and>
     wval (p_h s) mod P1305 = absorb (wval (p_r s)) m mod P1305"

lemma absorb_cong:
  "length m div 16 = length m' div 16 \<Longrightarrow> take (16 * (length m div 16)) m = take (16 * (length m div 16)) m' \<Longrightarrow>
   absorb r m = absorb r m'"
  unfolding absorb_def
proof (rule fold_cong)
  fix i assume "length m div 16 = length m' div 16" "take (16 * (length m div 16)) m = take (16 * (length m div 16)) m'"
    "i \<in> set [0..<length m div 16]"
  then have "16 * i + 16 \<le> 16 * (length m div 16)" by simp
  then have "take 16 (drop (16 * i) m) = drop (16 * i) (take (16 * i + 16) m)"
    "take 16 (drop (16 * i) m') = drop (16 * i) (take (16 * i + 16) m')" by (simp_all add: take_drop add.commute)
  moreover have "take (16 * i + 16) m = take (16 * i + 16) m'"
    using arg_cong [OF \<open>take _ m = _\<close>, of "take (16 * i + 16)"] \<open>16 * i + 16 \<le> _\<close>
    by (simp add: min_absorb1)
  ultimately show "(\<lambda>a. (a + block_num (take 16 (drop (16 * i) m)) + 2 ^ 128) * r mod P1305) =
      (\<lambda>a. (a + block_num (take 16 (drop (16 * i) m')) + 2 ^ 128) * r mod P1305)" by simp
qed auto

lemma absorb_snoc_block:
  assumes "length m = 16 * k + 15"
  shows "absorb r (m @ [x]) = (absorb r m + block_num (drop (16 * k) m @ [x]) + 2 ^ 128) * r mod P1305"
proof -
  have k: "length m div 16 = k" "length (m @ [x]) div 16 = Suc k" using assms by simp_all
  have "absorb r (m @ [x]) = (absorb r (take (16 * k) m) + block_num (take 16 (drop (16 * k) (m @ [x]))) + 2 ^ 128) * r mod P1305"
  proof -
    have "fold (\<lambda>i a. (a + block_num (take 16 (drop (16 * i) (m @ [x]))) + 2 ^ 128) * r mod P1305) [0..<k] 0 = absorb r (take (16 * k) m)"
      using assms unfolding absorb_def
      by (intro fold_cong) (auto simp: take_drop min_def fun_eq_iff)
    then show ?thesis unfolding absorb_def [of r "m @ [x]"] k(2)
      by (simp only: upt_Suc_append [OF le0] fold_append comp_apply fold_simps)
  qed
  moreover have "absorb r (take (16 * k) m) = absorb r m"
    using assms by (intro absorb_cong) auto
  ultimately show ?thesis using assms by simp
qed

lemma absorbed_byte_partial:
  assumes a: "absorbed s m" and j: "p_buflen s < 15"
  shows "absorbed (poly1305_byte x s) (m @ [x])"
proof -
  have ok: "poly_ok s" and n: "p_buflen s = length m mod 16"
    and t: "take (p_buflen s) (p_buf s) = drop (16 * (length m div 16)) m"
    and w: "wval (p_h s) mod P1305 = absorb (wval (p_r s)) m mod P1305"
    using a unfolding absorbed_def by blast+
  let ?s = "s\<lparr>p_buf := (p_buf s)[p_buflen s := x], p_buflen := p_buflen s + 1\<rparr>"
  have b: "poly1305_byte x s = ?s" using j by (simp add: poly1305_byte_def Let_def)
  have d: "length (m @ [x]) div 16 = length m div 16" "length (m @ [x]) mod 16 = length m mod 16 + 1"
    using j n by (simp_all add: div_Suc mod_Suc)
  have "poly_ok ?s" using ok j by (simp add: poly_ok_def)
  moreover have "take (p_buflen ?s) (p_buf ?s) = drop (16 * (length m div 16)) (m @ [x])"
    using t ok j by (simp add: take_Suc_conv_app_nth poly_ok_def)
  moreover have "absorb (wval (p_r s)) (m @ [x]) = absorb (wval (p_r s)) m"
    by (rule absorb_cong) (simp_all only: d(1), simp)
  ultimately show ?thesis using n w d by (simp only: b absorbed_def) simp
qed

lemma absorbed_byte_block:
  assumes a: "absorbed s m" and j: "p_buflen s = 15"
  shows "absorbed (poly1305_byte x s) (m @ [x])"
proof -
  have ok: "poly_ok s" and n: "p_buflen s = length m mod 16"
    and t: "take (p_buflen s) (p_buf s) = drop (16 * (length m div 16)) m"
    and w: "wval (p_h s) mod P1305 = absorb (wval (p_r s)) m mod P1305"
    using a unfolding absorbed_def by blast+
  let ?k = "length m div 16" and ?b = "(p_buf s)[15 := x]" and ?r = "wval (p_r s)"
  have len: "length m = 16 * ?k + 15" using n j by (metis mult_div_mod_eq)
  have buf: "?b = drop (16 * ?k) m @ [x]"
  proof -
    have "?b = take 15 (p_buf s) @ [x]"
      using ok by (auto simp: poly_ok_def upd_conv_take_nth_drop)
    then show ?thesis using t j by simp
  qed
  have u: "unat (2 ^ 24 :: u64) = 2 ^ 24" by simp
  let ?s = "(poly1305_block s ?b (2 ^ 24))\<lparr>p_buf := ?b, p_buflen := 0\<rparr>"
  have b: "poly1305_byte x s = ?s"
    using j by (simp add: poly1305_byte_def Let_def poly1305_block_buflen)
  have c: "limb_ok (p_h ?s) (2 ^ 27)"
    "wval (p_h ?s) mod P1305 = (wval (p_h s) + block_num ?b + 2 ^ 104 * unat (2 ^ 24 :: u64)) * ?r mod P1305"
    using poly1305_block_correct [OF ok, of "2 ^ 24" ?b] by simp_all
  have "(wval (p_h s) + block_num ?b + 2 ^ 104 * unat (2 ^ 24 :: u64)) * ?r mod P1305 =
      (absorb ?r m + block_num ?b + 2 ^ 128) * ?r mod P1305"
  proof -
    have "(wval (p_h s) + block_num ?b + 2 ^ 128) mod P1305 = (absorb ?r m + block_num ?b + 2 ^ 128) mod P1305"
      by (intro mod_add_cong refl w)
    from mod_mult_cong [OF this refl] show ?thesis unfolding u by simp
  qed
  also have "\<dots> = absorb ?r (m @ [x])" unfolding absorb_snoc_block [OF len] buf ..
  finally have h: "wval (p_h ?s) mod P1305 = absorb ?r (m @ [x]) mod P1305" unfolding c(2) by simp
  have "poly_ok ?s" using ok c(1) by (simp add: poly_ok_def)
  moreover have "length (m @ [x]) = 16 * Suc ?k" using len by simp
  then have "length (m @ [x]) mod 16 = 0" "length (m @ [x]) div 16 = Suc ?k"
    by (simp_all only: mod_mult_self1_is_0 nonzero_mult_div_cancel_left)
  ultimately show ?thesis using h len by (simp only: b absorbed_def) simp
qed

lemma absorbed_byte: "absorbed s m \<Longrightarrow> absorbed (poly1305_byte x s) (m @ [x])"
  using absorbed_byte_partial [of s m x] absorbed_byte_block [of s m x]
  by (cases "p_buflen s < 15") (auto simp: absorbed_def poly_ok_def)

lemma absorbed_bytes: "absorbed s m \<Longrightarrow> absorbed (fold poly1305_byte data s) (m @ data)"
proof (induction data arbitrary: s m)
  case (Cons x data)
  from Cons.IH [OF absorbed_byte [OF Cons.prems]] show ?case by simp
qed simp

lemma limbs_ok:
  "limb_ok (limbs lo hi) (2 ^ 26)" "wval (limbs lo hi) = unat lo + 2 ^ 64 * unat hi"
proof -
  let ?L = "nat_limbs (unat lo) (unat hi)"
  have b: "\<forall>l \<in> set ?L. l < 2 ^ 26" by (rule nat_limbs_bound [OF unat_lt64 unat_lt64])
  have "\<forall>l \<in> set ?L. unat (of_nat l :: u64) = l"
  proof
    fix l assume "l \<in> set ?L"
    with b have "l < 2 ^ 26" by blast
    then show "unat (of_nat l :: u64) = l" by (simp add: unat_of_nat)
  qed
  then have u: "map unat (limbs lo hi) = ?L" unfolding limbs_nat map_map comp_def by (simp add: map_idI)
  show "limb_ok (limbs lo hi) (2 ^ 26)"
    unfolding limb_ok_def
  proof
    show "length (limbs lo hi) = 5" by (simp add: limbs_def)
    have "set ?L = unat ` set (limbs lo hi)" by (simp flip: u)
    with b show "\<forall>x \<in> set (limbs lo hi). unat x < 2 ^ 26" by blast
  qed
  show "wval (limbs lo hi) = unat lo + 2 ^ 64 * unat hi" unfolding wval_def u by (rule nat_limbs_value)
qed

lemma absorbed_init:
  assumes "length buf0 = 16"
  shows "absorbed (SNEPPX_poly1305_init buf0 key) []"
    "wval (p_r (SNEPPX_poly1305_init buf0 key)) = block_num (clamp (take 16 key))"
  using assms limbs_ok
  by (simp_all add: absorbed_def SNEPPX_poly1305_init_def poly_ok_def Let_def absorb_def block_num_def)
     (simp add: limb_ok_def wval_def nval_def)

section \<open>Properties\<close>

text \<open>C12. The limb arithmetic of Poly1305 is exact: after any sequence of updates of a new state the
  accumulator is, modulo \<open>2 ^ 130 - 5\<close>, Horner's polynomial of the complete 16-byte blocks of the
  message at the clamped key, no 64-bit intermediate result overflows, and the
  buffer holds the remaining bytes, however the message was cut into pieces.\<close>

theorem poly1305_accumulates:
  assumes "length buf0 = 16"
  shows "\<exists>s. fold (\<lambda>d st. Option.bind st (\<lambda>st. SNEPPX_poly1305_update st d)) ds
      (Some (SNEPPX_poly1305_init buf0 key)) = Some s \<and> poly_ok s \<and>
    wval (p_h s) mod P1305 = absorb (block_num (clamp (take 16 key))) (concat ds) mod P1305 \<and>
    take (p_buflen s) (p_buf s) = drop (16 * (length (concat ds) div 16)) (concat ds)"
proof -
  let ?i = "SNEPPX_poly1305_init buf0 key"
  note i = absorbed_init [OF assms, of key]
  have run: "fold (\<lambda>d st. Option.bind st (\<lambda>st. SNEPPX_poly1305_update st d)) ds (Some s) =
      Some (fold poly1305_byte (concat ds) s)" if "absorbed s m" for s m
    using that
  proof (induction ds arbitrary: s m)
    case (Cons d ds)
    then have "SNEPPX_poly1305_update s d = Some (fold poly1305_byte d s)"
      by (intro poly1305_update_bytes) (simp_all add: absorbed_def poly_ok_def)
    with Cons.IH [OF absorbed_bytes [OF Cons.prems]] show ?case by simp
  qed simp
  have a: "absorbed (fold poly1305_byte (concat ds) ?i) (concat ds)"
    using absorbed_bytes [OF i(1)] by simp
  have r: "p_r (fold poly1305_byte xs s) = p_r s" for xs s
    by (induction xs arbitrary: s) (simp_all add: poly1305_byte_def Let_def)
  from a show ?thesis unfolding run [OF i(1)] absorbed_def r i(2) by blast
qed

theorem poly1305_accumulates_witness:
  "\<exists>s. fold (\<lambda>d st. Option.bind st (\<lambda>st. SNEPPX_poly1305_update st d)) [[1, 2], replicate 20 3]
      (Some (SNEPPX_poly1305_init (replicate 16 0) (replicate 32 7))) = Some s \<and> poly_ok s \<and>
    wval (p_h s) mod P1305 =
      absorb (block_num (clamp (take 16 (replicate 32 7)))) (concat [[1, 2], replicate 20 3]) mod P1305 \<and>
    take (p_buflen s) (p_buf s) = drop (16 * (length (concat [[1, 2], replicate 20 (3 :: u8)]) div 16)) (concat [[1, 2], replicate 20 3])"
  by (rule poly1305_accumulates) simp

text \<open>The final reduction of Poly1305 subtracts \<open>0x3ffffffb\<close> where the modulus has \<open>0x3fffffb\<close>: an
  accumulator equal to the modulus, which stands for 0, is not reduced, and the tag for the
  key part \<open>s = 0\<close> is \<open>2 ^ 128 - 5\<close> in place of 0.\<close>

theorem poly1305_final_reduction_fails:
  "wval [0x3fffffb, 0x3ffffff, 0x3ffffff, 0x3ffffff, 0x3ffffff] = P1305 \<and>
   SNEPPX_poly1305_finish
     \<lparr>p_r = r, p_h = [0x3fffffb, 0x3ffffff, 0x3ffffff, 0x3ffffff, 0x3ffffff], p_s = [0, 0],
      p_buf = b, p_buflen = 0\<rparr> =
   [0xfb, 0xff, 0xff, 0xff, 0xff, 0xff, 0xff, 0xff, 0xff, 0xff, 0xff, 0xff, 0xff, 0xff, 0xff, 0xff]"
proof
  let ?p = "[0x3fffffb, 0x3ffffff, 0x3ffffff, 0x3ffffff, 0x3ffffff] :: u64 list"
  show "wval ?p = P1305" by (simp add: wval_def nval_def)
  have c: "poly1305_carry ?p = ?p"
    by (simp add: poly1305_carry_def MASK26_def)
  have r: "poly1305_reduce ?p = ?p"
    by (simp add: poly1305_reduce_def borrow_def)
  have upt: "[0..<8] = [0, 1, 2, 3, 4, 5, 6, 7 :: nat]" by (simp add: upt_rec)
  have t: "poly1305_tag ?p [0, 0] =
     [0xfb, 0xff, 0xff, 0xff, 0xff, 0xff, 0xff, 0xff, 0xff, 0xff, 0xff, 0xff, 0xff, 0xff, 0xff, 0xff]"
    by (simp add: poly1305_tag_def le64_bytes_def upt)
  show "SNEPPX_poly1305_finish
     \<lparr>p_r = r, p_h = ?p, p_s = [0, 0], p_buf = b, p_buflen = 0\<rparr> =
   [0xfb, 0xff, 0xff, 0xff, 0xff, 0xff, 0xff, 0xff, 0xff, 0xff, 0xff, 0xff, 0xff, 0xff, 0xff, 0xff]"
    by (simp add: SNEPPX_poly1305_finish_def c r t)
qed

end
