(* ===== verification/Aead.thy ===== *)
theory Aead
  imports Ct Chacha20 Poly1305 "HOL-Library.Monad_Syntax"
begin

text \<open>
  The ChaCha20-Poly1305 construction of \<open>security/crypto/c/aead.c\<close>. Optional buffers are pointers that
  may be \<open>NULL\<close>; the lengths are those of the buffers. A result \<open>None\<close> would be an update loop
  that does not end, which the theorems exclude. The Poly1305 buffer is uninitialised
  stack memory (the argument \<open>junk\<close>), as is the plaintext buffer before a decryption.
\<close>

section \<open>Model\<close>

definition poly1305_key_gen :: "bytes \<Rightarrow> bytes \<Rightarrow> bytes" where
  "poly1305_key_gen key nonce =
     take 32 (fst (SNEPPX_chacha20_block (SNEPPX_chacha20_init key nonce 0)))"

text \<open>The authenticated data, the ciphertext and their lengths, padded. \<open>aad_len\<close> is passed beside the
  pointer, which may be \<open>NULL\<close>.\<close>

definition len_block :: "nat \<Rightarrow> nat \<Rightarrow> bytes" where
  "len_block aad_len len = le64_bytes (of_nat aad_len) @ le64_bytes (of_nat len)"

definition aead_mac ::
  "bytes \<Rightarrow> bytes \<Rightarrow> bytes option \<Rightarrow> nat \<Rightarrow> bytes \<Rightarrow> bytes option" where
  "aead_mac junk poly_key aad aad_len ct =
     (let mac = SNEPPX_poly1305_init junk poly_key;
          len = length ct;
          pad_aad = (if aad_len \<noteq> 0 then (16 - aad_len mod 16) mod 16 else 0);
          pad_ct = (16 - len mod 16) mod 16
      in do {
        mac \<leftarrow> (case aad of Some a \<Rightarrow> if aad_len \<noteq> 0 then SNEPPX_poly1305_update mac (take aad_len a) else Some mac
                | None \<Rightarrow> Some mac);
        mac \<leftarrow> (if pad_aad \<noteq> 0 then SNEPPX_poly1305_update mac (replicate pad_aad 0) else Some mac);
        mac \<leftarrow> (if len \<noteq> 0 then SNEPPX_poly1305_update mac ct else Some mac);
        mac \<leftarrow> (if pad_ct \<noteq> 0 then SNEPPX_poly1305_update mac (replicate pad_ct 0) else Some mac);
        mac \<leftarrow> SNEPPX_poly1305_update mac (len_block aad_len len);
        Some (SNEPPX_poly1305_finish mac)
      })"

text \<open>
  The return code and the output buffers. An output pointer is \<open>None\<close> when it is \<open>NULL\<close>, else the
  previous contents of its buffer, of which the first \<open>len\<close> bytes are replaced.
\<close>

definition SNEPPX_aead_encrypt ::
  "bytes \<Rightarrow> bytes option \<Rightarrow> bytes option \<Rightarrow> bytes option \<Rightarrow> bytes option \<Rightarrow> nat \<Rightarrow> bytes option \<Rightarrow>
   bytes option \<Rightarrow> (int \<times> bytes option \<times> bytes option) option" where
  "SNEPPX_aead_encrypt junk ciphertext tag plaintext aad aad_len key nonce =
     (case (ciphertext, tag, plaintext, key, nonce) of
        (Some c, Some t, Some pt, Some k, Some n) \<Rightarrow>
          (let poly_key = poly1305_key_gen k n;
               ct = fst (SNEPPX_chacha20_encrypt (SNEPPX_chacha20_init k n 1) pt)
           in do {
             new_tag \<leftarrow> aead_mac junk poly_key aad aad_len ct;
             Some (0, Some (put_bytes c 0 ct), Some (put_bytes t 0 new_tag))
           })
      | _ \<Rightarrow> Some (- 1, ciphertext, tag))"

definition SNEPPX_aead_decrypt ::
  "bytes \<Rightarrow> bytes option \<Rightarrow> bytes option \<Rightarrow> bytes option \<Rightarrow> bytes option \<Rightarrow> nat \<Rightarrow> bytes option \<Rightarrow>
   bytes option \<Rightarrow> (int \<times> bytes option) option" where
  "SNEPPX_aead_decrypt junk plaintext ciphertext tag aad aad_len key nonce =
     (case (plaintext, ciphertext, tag, key, nonce) of
        (Some p, Some ct, Some t, Some k, Some n) \<Rightarrow>
          (let block = fst (SNEPPX_chacha20_block (SNEPPX_chacha20_init k n 0));
               poly_key = take 32 block
           in do {
             expected_tag \<leftarrow> aead_mac junk poly_key aad aad_len ct;
             let ok = SNEPPX_ct_equal t expected_tag 16;
             Some (if ok \<noteq> 0
                   then (0, Some (put_bytes p 0 (fst (SNEPPX_chacha20_encrypt (SNEPPX_chacha20_init k n 1) ct))))
                   else (- 1, plaintext))
           })
      | _ \<Rightarrow> Some (- 1, plaintext))"

section \<open>The authenticated message\<close>

definition pad16 :: "nat \<Rightarrow> bytes" where
  "pad16 n = replicate ((16 - n mod 16) mod 16) 0"

definition aead_message :: "bytes option \<Rightarrow> nat \<Rightarrow> bytes \<Rightarrow> bytes" where
  "aead_message aad aad_len ct =
     (case aad of Some a \<Rightarrow> take aad_len a | None \<Rightarrow> []) @
     (if aad_len = 0 then [] else pad16 aad_len) @ ct @ pad16 (length ct) @ len_block aad_len (length ct)"

lemma update_Nil [simp]: "SNEPPX_poly1305_update s [] = Some s"
  by (simp add: SNEPPX_poly1305_update.simps)

lemma poly_bufferD:
  assumes "length junk = 16"
  shows "p_buflen (SNEPPX_poly1305_init junk k) < 16" "length (p_buf (SNEPPX_poly1305_init junk k)) = 16"
  using assms by (simp_all add: SNEPPX_poly1305_init_def Let_def)

lemma aead_mac_total:
  assumes j: "length junk = 16"
  shows "aead_mac junk pk aad aad_len ct =
    Some (SNEPPX_poly1305_finish (fold poly1305_byte (aead_message aad aad_len ct) (SNEPPX_poly1305_init junk pk)))"
proof -
  let ?s = "SNEPPX_poly1305_init junk pk"
  have u: "SNEPPX_poly1305_update (fold poly1305_byte xs ?s) d = Some (fold poly1305_byte (xs @ d) ?s)" for xs d
    using fold_byte_buffer [OF poly_bufferD [OF j]] by (subst poly1305_update_bytes) auto
  have u0: "SNEPPX_poly1305_update ?s d = Some (fold poly1305_byte d ?s)" for d
    using u [of "[]"] by simp
  have "aead_mac junk pk aad aad_len ct =
      Some (SNEPPX_poly1305_finish (fold poly1305_byte
        (((((case aad of Some a \<Rightarrow> take aad_len a | None \<Rightarrow> []) @
     (if aad_len = 0 then [] else pad16 aad_len)) @ ct) @ pad16 (length ct)) @ len_block aad_len (length ct)) ?s))"
    unfolding aead_mac_def Let_def pad16_def
    by (cases aad; cases "aad_len = 0"; cases "ct = []"; cases "(16 - length ct mod 16) mod 16 = 0";
        cases "(16 - aad_len mod 16) mod 16 = 0")
       (simp_all add: u u0 del: fold_append append_assoc fold_replicate)
  then show ?thesis by (simp add: aead_message_def)
qed

lemma length_finish [simp]: "length (SNEPPX_poly1305_finish s) = 16"
  by (simp add: SNEPPX_poly1305_finish_def poly1305_tag_def Let_def)

lemma ct_equal_same: "n \<le> length t \<Longrightarrow> SNEPPX_ct_equal t t n = 1"
  by (simp add: ct_equal_iff)

text \<open>The uninitialised buffer bytes never reach the tag: states that agree up to the bytes behind
  \<open>buflen\<close> stay so, and \<open>finish\<close> overwrites them.\<close>

definition poly_agree :: "poly1305_state \<Rightarrow> poly1305_state \<Rightarrow> bool" where
  "poly_agree s t \<longleftrightarrow> p_r s = p_r t \<and> p_h s = p_h t \<and> p_s s = p_s t \<and> p_buflen s = p_buflen t \<and>
     take (p_buflen s) (p_buf s) = take (p_buflen s) (p_buf t) \<and>
     length (p_buf s) = 16 \<and> length (p_buf t) = 16 \<and> p_buflen s < 16"

lemma poly_agree_byte: "poly_agree s t \<Longrightarrow> poly_agree (poly1305_byte x s) (poly1305_byte x t)"
proof -
  assume a: "poly_agree s t"
  let ?b = "(p_buf s)[p_buflen s := x]" and ?c = "(p_buf t)[p_buflen t := x]"
  have e: "take (Suc (p_buflen s)) ?b = take (Suc (p_buflen s)) ?c"
    using a by (auto simp: poly_agree_def take_Suc_conv_app_nth)
  moreover have "?b = ?c" if "Suc (p_buflen s) = 16"
    using e a that by (simp add: poly_agree_def)
  ultimately show ?thesis using a
    by (auto simp: poly_agree_def poly1305_byte_def Let_def poly1305_block_def)
qed

lemma poly_agree_fold: "poly_agree s t \<Longrightarrow> poly_agree (fold poly1305_byte xs s) (fold poly1305_byte xs t)"
  by (induction xs arbitrary: s t) (auto intro: poly_agree_byte)

lemma poly_agree_finish:
  assumes "poly_agree s t" shows "SNEPPX_poly1305_finish s = SNEPPX_poly1305_finish t"
proof -
  have "put_bytes (p_buf s) (p_buflen s) (replicate (16 - p_buflen s) 0)
      = put_bytes (p_buf t) (p_buflen t) (replicate (16 - p_buflen t) 0)"
    using assms by (auto simp: poly_agree_def put_bytes_def)
  then show ?thesis using assms
    by (simp add: SNEPPX_poly1305_finish_def Let_def poly_agree_def poly1305_block_def)
qed

lemma aead_mac_junk:
  assumes "length junk = 16" "length junk' = 16"
  shows "aead_mac junk pk aad aad_len ct = aead_mac junk' pk aad aad_len ct"
proof -
  have "poly_agree (SNEPPX_poly1305_init junk pk) (SNEPPX_poly1305_init junk' pk)"
    using assms by (simp add: poly_agree_def SNEPPX_poly1305_init_def Let_def)
  then show ?thesis
    by (simp add: aead_mac_total assms poly_agree_finish [OF poly_agree_fold])
qed

lemma put_all: "length b = length d \<Longrightarrow> put_bytes b 0 d = d"
  by (simp add: put_bytes_def)

text \<open>C4. Authenticated encryption: what \<open>SNEPPX_aead_encrypt\<close> produces, \<open>SNEPPX_aead_decrypt\<close> accepts
  under the same key, nonce and associated data and turns back into the plaintext, for messages and
  associated data of every length, whatever the stack memory of the two calls held before.\<close>

theorem aead_roundtrip:
  assumes "length junk = 16" "length junk' = 16" "length c = length pt" "length t = 16" "length p = length pt"
  shows "\<exists>ct tag. SNEPPX_aead_encrypt junk (Some c) (Some t) (Some pt) aad aad_len (Some key) (Some nonce)
      = Some (0, Some ct, Some tag) \<and> length ct = length pt \<and> length tag = 16 \<and>
    SNEPPX_aead_decrypt junk' (Some p) (Some ct) (Some tag) aad aad_len (Some key) (Some nonce) = Some (0, Some pt)"
proof -
  let ?s = "SNEPPX_chacha20_init key nonce 1"
  let ?ct = "fst (SNEPPX_chacha20_encrypt ?s pt)"
  obtain tag where m: "aead_mac junk (poly1305_key_gen key nonce) aad aad_len ?ct = Some tag" and l: "length tag = 16"
    using aead_mac_total [OF assms(1)] by simp
  have m': "aead_mac junk' (poly1305_key_gen key nonce) aad aad_len ?ct = Some tag"
    using m aead_mac_junk [OF assms(1,2)] by simp
  have lc: "length ?ct = length pt" by (rule length_chacha20_encrypt)
  have d: "fst (SNEPPX_chacha20_encrypt ?s ?ct) = pt" by (rule chacha20_decrypts)
  have "SNEPPX_aead_encrypt junk (Some c) (Some t) (Some pt) aad aad_len (Some key) (Some nonce)
      = Some (0, Some ?ct, Some tag)"
    using m assms lc l by (simp add: SNEPPX_aead_encrypt_def Let_def put_all)
  moreover have "SNEPPX_aead_decrypt junk' (Some p) (Some ?ct) (Some tag) aad aad_len (Some key) (Some nonce)
      = Some (0, Some pt)"
    using m' assms l
    by (simp add: SNEPPX_aead_decrypt_def poly1305_key_gen_def Let_def put_all d ct_equal_same)
  ultimately show ?thesis using lc l by blast
qed

theorem aead_roundtrip_witness:
  "\<exists>ct tag. SNEPPX_aead_encrypt (replicate 16 0) (Some [0, 0]) (Some (replicate 16 0)) (Some [72, 105]) (Some [1, 2, 3]) 3
      (Some (replicate 32 7)) (Some (replicate 12 9)) = Some (0, Some ct, Some tag) \<and> length ct = 2 \<and> length tag = 16 \<and>
    SNEPPX_aead_decrypt (replicate 16 255) (Some [0, 0]) (Some ct) (Some tag) (Some [1, 2, 3]) 3
      (Some (replicate 32 7)) (Some (replicate 12 9)) = Some (0, Some [72, 105])"
  using aead_roundtrip [of "replicate 16 0" "replicate 16 255" "[0, 0]" "[72, 105]" "replicate 16 0" "[0, 0]"
      "Some [1, 2, 3]" 3 "replicate 32 7" "replicate 12 9"] by (simp add: numeral_2_eq_2)

text \<open>C16. A decryption always returns. It returns 0 exactly when the presented tag is, in its 16 bytes, the tag of
  the padded associated data, ciphertext and lengths under the one-time key; otherwise it returns -1 and the
  plaintext buffer keeps its contents: nothing is released before the tag is checked.\<close>

theorem aead_decrypt_authenticates:
  assumes "length junk = 16" "length tag = 16"
  shows "\<exists>rc p'. SNEPPX_aead_decrypt junk (Some p) (Some ct) (Some tag) aad aad_len (Some key) (Some nonce)
      = Some (rc, Some p') \<and>
    (rc = 0 \<longleftrightarrow> tag = SNEPPX_poly1305_finish (fold poly1305_byte (aead_message aad aad_len ct)
       (SNEPPX_poly1305_init junk (poly1305_key_gen key nonce)))) \<and>
    (rc \<noteq> 0 \<longrightarrow> rc = - 1 \<and> p' = p)"
proof -
  let ?e = "SNEPPX_poly1305_finish (fold poly1305_byte (aead_message aad aad_len ct)
       (SNEPPX_poly1305_init junk (poly1305_key_gen key nonce)))"
  have m: "aead_mac junk (poly1305_key_gen key nonce) aad aad_len ct = Some ?e"
    using aead_mac_total [OF assms(1)] by simp
  have "SNEPPX_ct_equal tag ?e 16 \<noteq> 0 \<longleftrightarrow> tag = ?e"
    using assms(2) by (simp add: ct_equal_iff)
  then show ?thesis using m
    by (cases "tag = ?e") (simp_all add: SNEPPX_aead_decrypt_def poly1305_key_gen_def Let_def)
qed

theorem aead_decrypt_authenticates_witness:
  "\<exists>rc p'. SNEPPX_aead_decrypt (replicate 16 0) (Some [5]) (Some [8]) (Some (replicate 16 1)) None 0
      (Some (replicate 32 7)) (Some (replicate 12 9)) = Some (rc, Some p') \<and>
    (rc = 0 \<longleftrightarrow> replicate 16 1 = SNEPPX_poly1305_finish (fold poly1305_byte (aead_message None 0 [8])
       (SNEPPX_poly1305_init (replicate 16 0) (poly1305_key_gen (replicate 32 7) (replicate 12 9))))) \<and>
    (rc \<noteq> 0 \<longrightarrow> rc = - 1 \<and> p' = [5])"
  by (rule aead_decrypt_authenticates) simp_all

end
