(* ===== verification/Sha2.thy ===== *)
theory Sha2
  imports Bytes
begin

text \<open>
  The hashes of \<open>security/crypto/c/sha256.c\<close> and \<open>sha512.c\<close>: message schedules, compression functions, the one-shot
  SHA-256 and the incremental SHA-512 with its block buffer and 128-bit length counter. The reference is the
  padding and chaining of FIPS 180-4, stated over the whole message.

  A message in memory is a list of bytes; its length stays below \<open>2 ^ 64 - 64\<close>, so that \<open>pos + 64\<close> does not wrap.
\<close>

section \<open>The reference: padding and chaining\<close>

function chunks :: "nat \<Rightarrow> 'a list \<Rightarrow> 'a list list" where
  "chunks n xs = (if n = 0 \<or> length xs < n then [] else take n xs # chunks n (drop n xs))"
  by auto
termination by (relation "measure (\<lambda>(n, xs). length xs)") auto

declare chunks.simps [simp del]

lemma chunks_short [simp]: "length xs < n \<Longrightarrow> chunks n xs = []"
  by (simp add: chunks.simps)

lemma chunks_step: "0 < n \<Longrightarrow> length xs = n \<Longrightarrow> chunks n (xs @ ys) = xs # chunks n ys"
  by (subst chunks.simps) simp

lemma chunks_whole: "0 < n \<Longrightarrow> n dvd length xs \<Longrightarrow> chunks n (xs @ ys) = chunks n xs @ chunks n ys"
proof (induction n xs rule: chunks.induct)
  case (1 n xs)
  show ?case
  proof (cases "xs = []")
    case False
    then have le: "n \<le> length xs" using 1 by (auto dest: dvd_imp_le)
    have "n dvd length (drop n xs)" using 1 le by simp
    then have "chunks n (drop n xs @ ys) = chunks n (drop n xs) @ chunks n ys" using 1 le by auto
    moreover have "chunks n (xs @ ys) = take n xs # chunks n (drop n xs @ ys)" using 1 le by (subst chunks.simps) simp
    moreover have "chunks n xs = take n xs # chunks n (drop n xs)" using 1 le by (subst chunks.simps) simp
    ultimately show ?thesis by simp
  qed (use 1 in simp)
qed

text \<open>\<open>pad B L m\<close>: a bit 1, as many zeros as fill the last block, and the length field of \<open>L\<close> bytes.\<close>

definition zero_fill :: "nat \<Rightarrow> nat \<Rightarrow> nat \<Rightarrow> nat" where
  "zero_fill B L n = (B - (n + 1 + L) mod B) mod B"

definition md_pad :: "nat \<Rightarrow> bytes \<Rightarrow> nat \<Rightarrow> bytes" where
  "md_pad B len n = 0x80 # replicate (zero_fill B (length len) n) 0 @ len"

definition md_hash :: "('s \<Rightarrow> bytes \<Rightarrow> 's) \<Rightarrow> nat \<Rightarrow> 's \<Rightarrow> bytes \<Rightarrow> 's" where
  "md_hash compress B iv m = foldl compress iv (chunks B m)"

lemma md_pad_whole: "0 < B \<Longrightarrow> B dvd n + length (md_pad B len n)"
proof -
  assume B: "0 < B"
  let ?a = "n + 1 + length len"
  have "?a mod B + (B - ?a mod B) = B" using B mod_less_divisor [of B ?a] by simp
  then have "(?a + (B - ?a mod B)) mod B = 0" by (metis mod_add_left_eq mod_self)
  then have "B dvd ?a + (B - ?a mod B) mod B" by (metis dvd_eq_mod_eq_0 mod_add_right_eq)
  then show ?thesis by (simp add: md_pad_def zero_fill_def algebra_simps)
qed

section \<open>SHA-256\<close>

definition K256 :: "u32 list" where
  "K256 =
    [0x428a2f98, 0x71374491, 0xb5c0fbcf, 0xe9b5dba5, 0x3956c25b, 0x59f111f1, 0x923f82a4, 0xab1c5ed5,
     0xd807aa98, 0x12835b01, 0x243185be, 0x550c7dc3, 0x72be5d74, 0x80deb1fe, 0x9bdc06a7, 0xc19bf174,
     0xe49b69c1, 0xefbe4786, 0x0fc19dc6, 0x240ca1cc, 0x2de92c6f, 0x4a7484aa, 0x5cb0a9dc, 0x76f988da,
     0x983e5152, 0xa831c66d, 0xb00327c8, 0xbf597fc7, 0xc6e00bf3, 0xd5a79147, 0x06ca6351, 0x14292967,
     0x27b70a85, 0x2e1b2138, 0x4d2c6dfc, 0x53380d13, 0x650a7354, 0x766a0abb, 0x81c2c92e, 0x92722c85,
     0xa2bfe8a1, 0xa81a664b, 0xc24b8b70, 0xc76c51a3, 0xd192e819, 0xd6990624, 0xf40e3585, 0x106aa070,
     0x19a4c116, 0x1e376c08, 0x2748774c, 0x34b0bcb5, 0x391c0cb3, 0x4ed8aa4a, 0x5b9cca4f, 0x682e6ff3,
     0x748f82ee, 0x78a5636f, 0x84c87814, 0x8cc70208, 0x90befffa, 0xa4506ceb, 0xbef9a3f7, 0xc67178f2]"

definition CH :: "'a :: len word \<Rightarrow> 'a word \<Rightarrow> 'a word \<Rightarrow> 'a word" where "CH x y z = (x AND y) XOR (NOT x AND z)"

definition MAJ :: "'a :: len word \<Rightarrow> 'a word \<Rightarrow> 'a word \<Rightarrow> 'a word" where "MAJ x y z = (x AND y) XOR (x AND z) XOR (y AND z)"

definition EP0 :: "u32 \<Rightarrow> u32" where "EP0 x = ROTR32 x 2 XOR ROTR32 x 13 XOR ROTR32 x 22"

definition EP1 :: "u32 \<Rightarrow> u32" where "EP1 x = ROTR32 x 6 XOR ROTR32 x 11 XOR ROTR32 x 25"

definition SIG0 :: "u32 \<Rightarrow> u32" where "SIG0 x = ROTR32 x 7 XOR ROTR32 x 18 XOR drop_bit 3 x"

definition SIG1 :: "u32 \<Rightarrow> u32" where "SIG1 x = ROTR32 x 17 XOR ROTR32 x 19 XOR drop_bit 10 x"

text \<open>The array \<open>W\<close>, filled cell by cell.\<close>

definition sha256_schedule :: "bytes \<Rightarrow> u32 list" where
  "sha256_schedule buf =
     fold (\<lambda>i W. W @ [SIG1 (W ! (i - 2)) + W ! (i - 7) + SIG0 (W ! (i - 15)) + W ! (i - 16)]) [16..<64]
       (map (\<lambda>i. be32 buf (i * 4)) [0..<16])"

text \<open>One round on the registers \<open>a\<close> to \<open>h\<close>.\<close>

definition sha256_round :: "u32 list \<Rightarrow> nat \<Rightarrow> u32 list \<Rightarrow> u32 list" where
  "sha256_round W i s =
     (let T1 = s ! 7 + EP1 (s ! 4) + CH (s ! 4) (s ! 5) (s ! 6) + K256 ! i + W ! i;
          T2 = EP0 (s ! 0) + MAJ (s ! 0) (s ! 1) (s ! 2) in
      [T1 + T2, s ! 0, s ! 1, s ! 2, s ! 3 + T1, s ! 4, s ! 5, s ! 6])"

definition sha256_transform :: "u32 list \<Rightarrow> bytes \<Rightarrow> u32 list" where
  "sha256_transform state buffer = map2 (+) state (fold (sha256_round (sha256_schedule buffer)) [0..<64] state)"

definition sha256_iv :: "u32 list" where
  "sha256_iv = [0x6a09e667, 0xbb67ae85, 0x3c6ef372, 0xa54ff53a, 0x510e527f, 0x9b05688c, 0x1f83d9ab, 0x5be0cd19]"

text \<open>The loop over whole blocks: \<open>memcpy\<close> into the buffer, \<open>sha256_transform\<close>. It returns the state, the buffer and the rest of the input.\<close>

function sha256_blocks :: "u32 list \<Rightarrow> bytes \<Rightarrow> bytes \<Rightarrow> u32 list \<times> bytes \<times> bytes" where
  "sha256_blocks state buffer inp =
     (if 64 \<le> length inp
      then let buffer = put_bytes buffer 0 (take 64 inp) in sha256_blocks (sha256_transform state buffer) buffer (drop 64 inp)
      else (state, buffer, inp))"
  by auto
termination by (relation "measure (\<lambda>(state, buffer, inp). length inp)") auto

text \<open>The buffer is a local array whose first contents are unknown.\<close>

definition SNEPPX_sha256 :: "bytes \<Rightarrow> bytes \<Rightarrow> bytes" where
  "SNEPPX_sha256 buffer inp =
     (let (state, buffer, rest) = sha256_blocks sha256_iv buffer inp;
          remaining = length rest;
          buffer = put_bytes buffer 0 rest;
          buffer = buffer[remaining := 0x80];
          (state, buffer) =
            (if remaining \<ge> 56
             then let buffer = put_bytes buffer (remaining + 1) (replicate (64 - remaining - 1) 0);
                      state = sha256_transform state buffer in
                  (state, put_bytes buffer 0 (replicate 56 0))
             else (state, put_bytes buffer (remaining + 1) (replicate (56 - remaining - 1) 0)));
          bits = of_nat (length inp) * 8 :: u64;
          buffer = put_bytes buffer 56 (be64_bytes bits);
          state = sha256_transform state buffer in
      concat (map be32_bytes state))"

section \<open>SHA-512\<close>

definition K512 :: "u64 list" where
  "K512 =
    [0x428a2f98d728ae22, 0x7137449123ef65cd, 0xb5c0fbcfec4d3b2f, 0xe9b5dba58189dbbc,
     0x3956c25bf348b538, 0x59f111f1b605d019, 0x923f82a4af194f9b, 0xab1c5ed5da6d8118,
     0xd807aa98a3030242, 0x12835b0145706fbe, 0x243185be4ee4b28c, 0x550c7dc3d5ffb4e2,
     0x72be5d74f27b896f, 0x80deb1fe3b1696b1, 0x9bdc06a725c71235, 0xc19bf174cf692694,
     0xe49b69c19ef14ad2, 0xefbe4786384f25e3, 0x0fc19dc68b8cd5b5, 0x240ca1cc77ac9c65,
     0x2de92c6f592b0275, 0x4a7484aa6ea6e483, 0x5cb0a9dcbd41fbd4, 0x76f988da831153b5,
     0x983e5152ee66dfab, 0xa831c66d2db43210, 0xb00327c898fb213f, 0xbf597fc7beef0ee4,
     0xc6e00bf33da88fc2, 0xd5a79147930aa725, 0x06ca6351e003826f, 0x142929670a0e6e70,
     0x27b70a8546d22ffc, 0x2e1b21385c26c926, 0x4d2c6dfc5ac42aed, 0x53380d139d95b3df,
     0x650a73548baf63de, 0x766a0abb3c77b2a8, 0x81c2c92e47edaee6, 0x92722c851482353b,
     0xa2bfe8a14cf10364, 0xa81a664bbc423001, 0xc24b8b70d0f89791, 0xc76c51a30654be30,
     0xd192e819d6ef5218, 0xd69906245565a910, 0xf40e35855771202a, 0x106aa07032bbd1b8,
     0x19a4c116b8d2d0c8, 0x1e376c085141ab53, 0x2748774cdf8eeb99, 0x34b0bcb5e19b48a8,
     0x391c0cb3c5c95a63, 0x4ed8aa4ae3418acb, 0x5b9cca4f7763e373, 0x682e6ff3d6b2b8a3,
     0x748f82ee5defb2fc, 0x78a5636f43172f60, 0x84c87814a1f0ab72, 0x8cc702081a6439ec,
     0x90befffa23631e28, 0xa4506cebde82bde9, 0xbef9a3f7b2c67915, 0xc67178f2e372532b,
     0xca273eceea26619c, 0xd186b8c721c0c207, 0xeada7dd6cde0eb1e, 0xf57d4f7fee6ed178,
     0x06f067aa72176fba, 0x0a637dc5a2c898a6, 0x113f9804bef90dae, 0x1b710b35131c471b,
     0x28db77f523047d84, 0x32caab7b40c72493, 0x3c9ebe0a15c9bebc, 0x431d67c49c100d4c,
     0x4cc5d4becb3e42b6, 0x597f299cfc657e2a, 0x5fcb6fab3ad6faec, 0x6c44198c4a475817]"

definition SIGMA0 :: "u64 \<Rightarrow> u64" where "SIGMA0 x = ROTR64 x 28 XOR ROTR64 x 34 XOR ROTR64 x 39"

definition SIGMA1 :: "u64 \<Rightarrow> u64" where "SIGMA1 x = ROTR64 x 14 XOR ROTR64 x 18 XOR ROTR64 x 41"

definition sigma0 :: "u64 \<Rightarrow> u64" where "sigma0 x = ROTR64 x 1 XOR ROTR64 x 8 XOR drop_bit 7 x"

definition sigma1 :: "u64 \<Rightarrow> u64" where "sigma1 x = ROTR64 x 19 XOR ROTR64 x 61 XOR drop_bit 6 x"

definition sha512_schedule :: "bytes \<Rightarrow> u64 list" where
  "sha512_schedule block =
     fold (\<lambda>t W. W @ [sigma1 (W ! (t - 2)) + W ! (t - 7) + sigma0 (W ! (t - 15)) + W ! (t - 16)]) [16..<80]
       (map (\<lambda>t. be64 block (t * 8)) [0..<16])"

definition sha512_round :: "u64 list \<Rightarrow> nat \<Rightarrow> u64 list \<Rightarrow> u64 list" where
  "sha512_round W t s =
     (let T1 = s ! 7 + SIGMA1 (s ! 4) + CH (s ! 4) (s ! 5) (s ! 6) + K512 ! t + W ! t;
          T2 = SIGMA0 (s ! 0) + MAJ (s ! 0) (s ! 1) (s ! 2) in
      [T1 + T2, s ! 0, s ! 1, s ! 2, s ! 3 + T1, s ! 4, s ! 5, s ! 6])"

definition sha512_transform :: "u64 list \<Rightarrow> bytes \<Rightarrow> u64 list" where
  "sha512_transform state block = map2 (+) state (fold (sha512_round (sha512_schedule block)) [0..<80] state)"

text \<open>The context; \<open>count0\<close> is the low and \<open>count1\<close> the high half of the number of bits.\<close>

record sha512_ctx =
  h_state :: "u64 list"
  count0 :: u64
  count1 :: u64
  h_buffer :: bytes
  buflen :: nat

definition sha512_iv :: "u64 list" where
  "sha512_iv = [0x6a09e667f3bcc908, 0xbb67ae8584caa73b, 0x3c6ef372fe94f82b, 0xa54ff53a5f1d36f1,
     0x510e527fade682d1, 0x9b05688c2b3e6c1f, 0x1f83d9abfb41bd6b, 0x5be0cd19137e2179]"

definition SNEPPX_sha512_init :: "sha512_ctx \<Rightarrow> sha512_ctx" where
  "SNEPPX_sha512_init ctx = ctx\<lparr>h_state := sha512_iv, count0 := 0, count1 := 0, buflen := 0\<rparr>"

text \<open>\<open>while (len >= SNEPPX_SHA512_BLOCK_SIZE)\<close>: the state and the bytes that are left.\<close>

function sha512_blocks :: "u64 list \<Rightarrow> bytes \<Rightarrow> u64 list \<times> bytes" where
  "sha512_blocks state data =
     (if 128 \<le> length data then sha512_blocks (sha512_transform state (take 128 data)) (drop 128 data) else (state, data))"
  by auto
termination by (relation "measure (\<lambda>(state, data). length data)") auto

definition sha512_absorb :: "sha512_ctx \<Rightarrow> bytes \<Rightarrow> sha512_ctx" where
  "sha512_absorb ctx data =
     (let (state, rest) = sha512_blocks (h_state ctx) data; ctx = ctx\<lparr>h_state := state\<rparr> in
      if rest \<noteq> [] then ctx\<lparr>h_buffer := put_bytes (h_buffer ctx) 0 rest, buflen := length rest\<rparr> else ctx)"

definition SNEPPX_sha512_update :: "sha512_ctx \<Rightarrow> bytes \<Rightarrow> sha512_ctx" where
  "SNEPPX_sha512_update ctx data =
     (let bitlen = of_nat (length data) * 8;
          ctx = ctx\<lparr>count1 := count1 ctx + (if count0 ctx + bitlen < count0 ctx then 1 else 0), count0 := count0 ctx + bitlen\<rparr> in
      if buflen ctx \<noteq> 0
      then let fill = 128 - buflen ctx in
        if length data < fill
        then ctx\<lparr>h_buffer := put_bytes (h_buffer ctx) (buflen ctx) data, buflen := buflen ctx + length data\<rparr>
        else let ctx = ctx\<lparr>h_buffer := put_bytes (h_buffer ctx) (buflen ctx) (take fill data)\<rparr>;
                 ctx = ctx\<lparr>h_state := sha512_transform (h_state ctx) (h_buffer ctx), buflen := 0\<rparr> in
             sha512_absorb ctx (drop fill data)
      else sha512_absorb ctx data)"

text \<open>The array \<open>pad\<close> that \<open>finish\<close> feeds to the last update.\<close>

definition sha512_pad :: "nat \<Rightarrow> u64 \<Rightarrow> u64 \<Rightarrow> bytes" where
  "sha512_pad n bits bits_lo =
     (let remaining = 128 - (n + 1 + 16) mod 128; remaining = (if remaining = 128 then 0 else remaining) in
      0x80 # replicate remaining 0 @ be64_bytes bits @ be64_bytes bits_lo)"

definition sha512_digest :: "sha512_ctx \<Rightarrow> bytes" where "sha512_digest ctx = concat (map be64_bytes (h_state ctx))"

definition SNEPPX_sha512_finish :: "sha512_ctx \<Rightarrow> bytes" where
  "SNEPPX_sha512_finish ctx =
     sha512_digest (SNEPPX_sha512_update ctx (sha512_pad (buflen ctx) (count1 ctx) (count0 ctx)))"

definition SNEPPX_sha512_legacy_finish :: "sha512_ctx \<Rightarrow> bytes" where
  "SNEPPX_sha512_legacy_finish ctx =
     sha512_digest (SNEPPX_sha512_update ctx
       (sha512_pad (buflen ctx) (push_bit 3 (count1 ctx) OR drop_bit 61 (count0 ctx)) (push_bit 3 (count0 ctx))))"

definition SNEPPX_sha512 :: "sha512_ctx \<Rightarrow> bytes \<Rightarrow> bytes" where
  "SNEPPX_sha512 ctx data = SNEPPX_sha512_finish (SNEPPX_sha512_update (SNEPPX_sha512_init ctx) data)"

definition SNEPPX_sha512_legacy :: "sha512_ctx \<Rightarrow> bytes \<Rightarrow> bytes" where
  "SNEPPX_sha512_legacy ctx data = SNEPPX_sha512_legacy_finish (SNEPPX_sha512_update (SNEPPX_sha512_init ctx) data)"

section \<open>Schedules and compression of FIPS 180-4\<close>

fun W256 :: "bytes \<Rightarrow> nat \<Rightarrow> u32" where
  "W256 b t = (if t < 16 then be32 b (t * 4) else SIG1 (W256 b (t - 2)) + W256 b (t - 7) + SIG0 (W256 b (t - 15)) + W256 b (t - 16))"

fun W512 :: "bytes \<Rightarrow> nat \<Rightarrow> u64" where
  "W512 b t = (if t < 16 then be64 b (t * 8) else sigma1 (W512 b (t - 2)) + W512 b (t - 7) + sigma0 (W512 b (t - 15)) + W512 b (t - 16))"

declare W256.simps [simp del] W512.simps [simp del] sha256_blocks.simps [simp del] sha512_blocks.simps [simp del]

definition compress256 :: "u32 list \<Rightarrow> bytes \<Rightarrow> u32 list" where
  "compress256 H b = map2 (+) H (fold (\<lambda>t s.
     let T1 = s ! 7 + EP1 (s ! 4) + CH (s ! 4) (s ! 5) (s ! 6) + K256 ! t + W256 b t; T2 = EP0 (s ! 0) + MAJ (s ! 0) (s ! 1) (s ! 2) in
     [T1 + T2, s ! 0, s ! 1, s ! 2, s ! 3 + T1, s ! 4, s ! 5, s ! 6]) [0..<64] H)"

definition compress512 :: "u64 list \<Rightarrow> bytes \<Rightarrow> u64 list" where
  "compress512 H b = map2 (+) H (fold (\<lambda>t s.
     let T1 = s ! 7 + SIGMA1 (s ! 4) + CH (s ! 4) (s ! 5) (s ! 6) + K512 ! t + W512 b t; T2 = SIGMA0 (s ! 0) + MAJ (s ! 0) (s ! 1) (s ! 2) in
     [T1 + T2, s ! 0, s ! 1, s ! 2, s ! 3 + T1, s ! 4, s ! 5, s ! 6]) [0..<80] H)"

text \<open>A table filled by a recurrence over its earlier cells holds the values of the recurrence.\<close>

lemma fold_fill:
  assumes "n \<le> m" "\<And>i. n \<le> i \<Longrightarrow> i < m \<Longrightarrow> g i = f (map g [0..<i]) i"
  shows "fold (\<lambda>i W. W @ [f W i]) [n..<m] (map g [0..<n]) = map g [0..<m]"
  using assms
proof (induction m rule: dec_induct)
  case (step m)
  then show ?case by simp
qed simp

lemma sha256_schedule_eq: "sha256_schedule b = map (W256 b) [0..<64]"
proof -
  have "map (\<lambda>i. be32 b (i * 4)) [0..<16] = map (W256 b) [0..<16]" by (rule map_cong) (auto simp: W256.simps)
  then show ?thesis unfolding sha256_schedule_def
    by (simp only:) (rule fold_fill, simp, subst W256.simps, simp)
qed

lemma sha512_schedule_eq: "sha512_schedule b = map (W512 b) [0..<80]"
proof -
  have "map (\<lambda>i. be64 b (i * 8)) [0..<16] = map (W512 b) [0..<16]" by (rule map_cong) (auto simp: W512.simps)
  then show ?thesis unfolding sha512_schedule_def
    by (simp only:) (rule fold_fill, simp, subst W512.simps, simp)
qed

lemma sha256_transform_eq: "sha256_transform H b = compress256 H b"
  unfolding sha256_transform_def compress256_def sha256_schedule_eq
  by (rule arg_cong [where f = "map2 (+) H"], rule fold_cong) (auto simp: sha256_round_def Let_def)

lemma sha512_transform_eq: "sha512_transform H b = compress512 H b"
  unfolding sha512_transform_def compress512_def sha512_schedule_eq
  by (rule arg_cong [where f = "map2 (+) H"], rule fold_cong) (auto simp: sha512_round_def Let_def)

text \<open>The digests of FIPS 180-4: pad, cut into blocks, chain.\<close>

definition fips_sha256 :: "bytes \<Rightarrow> bytes" where
  "fips_sha256 m = concat (map be32_bytes (md_hash compress256 64 sha256_iv (m @ md_pad 64 (be64_bytes (of_nat (8 * length m))) (length m))))"

definition fips_sha512 :: "bytes \<Rightarrow> bytes" where
  "fips_sha512 m = concat (map be64_bytes (md_hash compress512 128 sha512_iv
     (m @ md_pad 128 (be64_bytes (of_nat (8 * length m div 2 ^ 64)) @ be64_bytes (of_nat (8 * length m))) (length m))))"

section \<open>SHA-256 is the reference\<close>

lemma put_bytes_at: "length a = off \<Longrightarrow> put_bytes (a @ b) off src = a @ src @ drop (length src) b"
  by (simp add: put_bytes_def)

lemma put_bytes_0: "put_bytes b 0 src = src @ drop (length src) b"
  by (simp add: put_bytes_def)

lemma sha256_blocks_spec:
  "length buf = 64 \<Longrightarrow> \<exists>buf' pre rest. sha256_blocks st buf m = (foldl compress256 st (chunks 64 pre), buf', rest) \<and> m = pre @ rest \<and>
     64 dvd length pre \<and> length rest < 64 \<and> length buf' = 64"
proof (induction st buf m rule: sha256_blocks.induct)
  case (1 st buf m)
  show ?case
  proof (cases "64 \<le> length m")
    case True
    let ?b = "put_bytes buf 0 (take 64 m)"
    have b: "?b = take 64 m" using True 1(2) by (simp add: put_bytes_0)
    have lt: "length (take 64 m) = 64" using True by simp
    obtain buf' pre rest where r: "sha256_blocks (sha256_transform st ?b) ?b (drop 64 m) = (foldl compress256 (sha256_transform st ?b) (chunks 64 pre), buf', rest)"
        "drop 64 m = pre @ rest" "64 dvd length pre" "length rest < 64" "length buf' = 64"
      using 1(1) [OF True refl, unfolded b] lt unfolding b by blast
    have "sha256_blocks st buf m = (foldl compress256 st (chunks 64 (take 64 m @ pre)), buf', rest)"
      using True r(1) b by (subst sha256_blocks.simps) (simp add: sha256_transform_eq chunks_step)
    moreover have "m = (take 64 m @ pre) @ rest" using r(2) by (metis append_assoc append_take_drop_id)
    ultimately show ?thesis using r(3-5) True
      by (intro exI [of _ buf'] exI [of _ "take 64 m @ pre"] exI [of _ rest]) simp
  qed (use 1(2) in \<open>auto simp: sha256_blocks.simps intro!: exI [of _ "[] :: bytes"]\<close>)
qed

lemma zero_fill_mod: "0 < B \<Longrightarrow> zero_fill B L n = zero_fill B L (n mod B)"
proof -
  have "(n + (1 + L)) mod B = (n mod B + (1 + L)) mod B" by (simp only: mod_add_left_eq)
  then show ?thesis by (simp add: zero_fill_def add.assoc)
qed

lemma zero_fill_64: "r < 56 \<Longrightarrow> zero_fill 64 8 r = 55 - r" "56 \<le> r \<Longrightarrow> r < 64 \<Longrightarrow> zero_fill 64 8 r = 119 - r"
  by (cases "r = 55", simp_all add: zero_fill_def mod_if)

text \<open>The last one or two blocks.\<close>

lemma sha256_last_blocks:
  assumes "length r < 64" "length len = 8"
  shows "length r < 56 \<Longrightarrow> chunks 64 (r @ md_pad 64 len (length r)) = [r @ 0x80 # replicate (55 - length r) 0 @ len]"
    "56 \<le> length r \<Longrightarrow> chunks 64 (r @ md_pad 64 len (length r)) = [r @ 0x80 # replicate (63 - length r) 0, replicate 56 0 @ len]"
proof -
  assume a: "length r < 56"
  show "chunks 64 (r @ md_pad 64 len (length r)) = [r @ 0x80 # replicate (55 - length r) 0 @ len]"
    using chunks_step [of 64 "r @ 0x80 # replicate (55 - length r) 0 @ len" "[]"] a assms by (simp add: md_pad_def zero_fill_64)
next
  assume a: "56 \<le> length r"
  have "119 - length r = (63 - length r) + 56" using a assms by simp
  then have z: "replicate (119 - length r) (0 :: u8) = replicate (63 - length r) 0 @ replicate 56 0" by (simp only: replicate_add)
  show "chunks 64 (r @ md_pad 64 len (length r)) = [r @ 0x80 # replicate (63 - length r) 0, replicate 56 0 @ len]"
    using chunks_step [of 64 "r @ 0x80 # replicate (63 - length r) 0" "replicate 56 0 @ len"] chunks_step [of 64 "replicate 56 0 @ len" "[]"] a assms
    by (simp add: md_pad_def zero_fill_64 z)
qed

lemma sha256_correct:
  assumes "length buf = 64" shows "SNEPPX_sha256 buf m = fips_sha256 m"
proof -
  obtain buf' pre r where b: "sha256_blocks sha256_iv buf m = (foldl compress256 sha256_iv (chunks 64 pre), buf', r)" "m = pre @ r" "64 dvd length pre"
    "length r < 64" "length buf' = 64" using sha256_blocks_spec [OF assms] by blast
  let ?n = "length r" and ?st = "foldl compress256 sha256_iv (chunks 64 pre)" and ?len = "be64_bytes (of_nat (8 * length m))"
  have mod: "length m mod 64 = ?n" using b(2-4) by auto
  have pad: "md_pad 64 ?len (length m) = md_pad 64 ?len ?n" using zero_fill_mod [of 64 _ "length m"] mod by (simp add: md_pad_def)
  have spec: "fips_sha256 m = concat (map be32_bytes (foldl compress256 ?st (chunks 64 (r @ md_pad 64 ?len ?n))))"
    unfolding fips_sha256_def md_hash_def pad using b(2,3) by (simp add: chunks_whole)
  have buf1: "(put_bytes buf' 0 r)[?n := 0x80] = r @ 0x80 # drop (?n + 1) buf'"
    using b(4,5) by (simp add: put_bytes_0 list_update_append Cons_nth_drop_Suc [symmetric])
  have bits: "of_nat (length m) * 8 = (of_nat (8 * length m) :: u64)" by simp
  have z1: "put_bytes (r @ 0x80 # drop (?n + 1) buf') (?n + 1) (replicate k 0) = r @ 0x80 # replicate k 0 @ drop (?n + 1 + k) buf'" for k
    using put_bytes_at [of "r @ [0x80]" "?n + 1" "drop (?n + 1) buf'" "replicate k 0"] by (simp add: add.commute)
  have sp: "SNEPPX_sha256 buf m = concat (map be32_bytes (
      let (state, buffer) =
            (if ?n \<ge> 56
             then (compress256 ?st (r @ 0x80 # replicate (63 - ?n) 0 @ drop (?n + 1 + (63 - ?n)) buf'),
                   put_bytes (r @ 0x80 # replicate (63 - ?n) 0 @ drop (?n + 1 + (63 - ?n)) buf') 0 (replicate 56 0))
             else (?st, r @ 0x80 # replicate (55 - ?n) 0 @ drop (?n + 1 + (55 - ?n)) buf')) in
      compress256 state (put_bytes buffer 56 ?len)))"
    unfolding SNEPPX_sha256_def b(1) Let_def prod.case buf1 bits using z1 by (simp add: sha256_transform_eq)
  show ?thesis
  proof (cases "?n < 56")
    case True
    have "put_bytes (r @ 0x80 # replicate (55 - ?n) 0 @ drop 56 buf') 56 ?len = r @ 0x80 # replicate (55 - ?n) 0 @ ?len"
      using put_bytes_at [of "r @ 0x80 # replicate (55 - ?n) 0" 56 "drop 56 buf'" ?len] True b(5) by simp
    then show ?thesis using True sp spec sha256_last_blocks(1) [OF b(4), of ?len] by simp
  next
    case False
    then have "put_bytes (put_bytes (r @ 0x80 # replicate (63 - ?n) 0 @ drop 64 buf') 0 (replicate 56 0)) 56 ?len = replicate 56 0 @ ?len"
      using b(4,5) by (simp add: put_bytes_0 put_bytes_at)
    then show ?thesis using False b(4,5) sp spec sha256_last_blocks(2) [OF b(4), of ?len] by simp
  qed
qed

section \<open>SHA-512 in pieces is the reference\<close>

text \<open>The context after the bytes \<open>m\<close>: whole blocks are chained, the rest waits in the buffer.\<close>

definition absorbed512 :: "sha512_ctx \<Rightarrow> bytes \<Rightarrow> bool" where
  "absorbed512 ctx m \<longleftrightarrow> length (h_buffer ctx) = 128 \<and> buflen ctx < 128 \<and>
     (\<exists>pre. m = pre @ take (buflen ctx) (h_buffer ctx) \<and> 128 dvd length pre \<and> h_state ctx = foldl compress512 sha512_iv (chunks 128 pre))"

definition counted512 :: "sha512_ctx \<Rightarrow> bytes \<Rightarrow> bool" where
  "counted512 ctx m \<longleftrightarrow> count0 ctx = of_nat (8 * length m) \<and> count1 ctx = of_nat (8 * length m div 2 ^ 64)"

lemma sha512_blocks_spec:
  "\<exists>pre rest. sha512_blocks st m = (foldl compress512 st (chunks 128 pre), rest) \<and> m = pre @ rest \<and> 128 dvd length pre \<and> length rest < 128"
proof (induction st m rule: sha512_blocks.induct)
  case (1 st m)
  show ?case
  proof (cases "128 \<le> length m")
    case True
    then obtain pre rest where r: "sha512_blocks (sha512_transform st (take 128 m)) (drop 128 m) =
        (foldl compress512 (sha512_transform st (take 128 m)) (chunks 128 pre), rest)" "drop 128 m = pre @ rest" "128 dvd length pre" "length rest < 128"
      using 1 by blast
    have "sha512_blocks st m = (foldl compress512 st (chunks 128 (take 128 m @ pre)), rest)"
      using True r(1) by (subst sha512_blocks.simps) (simp add: sha512_transform_eq chunks_step)
    moreover have "m = (take 128 m @ pre) @ rest" using r(2) by (metis append_assoc append_take_drop_id)
    ultimately show ?thesis using r(3,4) True by (intro exI [of _ "take 128 m @ pre"] exI [of _ rest]) simp
  qed (auto simp: sha512_blocks.simps intro!: exI [of _ "[] :: bytes"])
qed

lemma sha512_absorb_absorbed:
  assumes "absorbed512 ctx m" "buflen ctx = 0"
  shows "absorbed512 (sha512_absorb ctx data) (m @ data)"
proof -
  obtain pre rest where r: "sha512_blocks (h_state ctx) data = (foldl compress512 (h_state ctx) (chunks 128 pre), rest)" "data = pre @ rest"
    "128 dvd length pre" "length rest < 128" using sha512_blocks_spec by blast
  have m: "128 dvd length m" "h_state ctx = foldl compress512 sha512_iv (chunks 128 m)" "length (h_buffer ctx) = 128"
    using assms by (auto simp: absorbed512_def)
  have "foldl compress512 (h_state ctx) (chunks 128 pre) = foldl compress512 sha512_iv (chunks 128 (m @ pre))"
    using m(1,2) by (simp add: chunks_whole)
  then have "sha512_absorb ctx data = (let c = ctx\<lparr>h_state := foldl compress512 sha512_iv (chunks 128 (m @ pre))\<rparr> in
      if rest \<noteq> [] then c\<lparr>h_buffer := rest @ drop (length rest) (h_buffer c), buflen := length rest\<rparr> else c)"
    using r(1) by (simp add: sha512_absorb_def put_bytes_0 Let_def)
  then show ?thesis using r(2-4) m(1,3) assms(2)
    by (cases "rest = []") (auto simp: absorbed512_def Let_def intro!: exI [of _ "m @ pre"])
qed

lemma sha512_update_absorbed:
  assumes a: "absorbed512 ctx m"
  shows "absorbed512 (SNEPPX_sha512_update ctx data) (m @ data)"
proof -
  define ctx' where "ctx' = ctx\<lparr>count1 := count1 ctx + (if count0 ctx + of_nat (length data) * 8 < count0 ctx then 1 else 0), count0 := count0 ctx + of_nat (length data) * 8\<rparr>"
  have a': "absorbed512 ctx' m" using a by (simp add: absorbed512_def ctx'_def)
  obtain pre where pre: "m = pre @ take (buflen ctx') (h_buffer ctx')" "128 dvd length pre" "h_state ctx' = foldl compress512 sha512_iv (chunks 128 pre)"
    "length (h_buffer ctx') = 128" "buflen ctx' < 128" using a' by (auto simp: absorbed512_def)
  let ?n = "buflen ctx'" and ?f = "128 - buflen ctx'"
  consider "?n = 0" | "?n \<noteq> 0" "length data < ?f" | "?n \<noteq> 0" "?f \<le> length data" by linarith
  then show ?thesis
  proof cases
    case 1
    then show ?thesis using sha512_absorb_absorbed [OF a' 1] by (simp add: SNEPPX_sha512_update_def Let_def ctx'_def)
  next
    case 2
    have "take (?n + length data) (put_bytes (h_buffer ctx') ?n data) = take ?n (h_buffer ctx') @ data" using pre(4,5) by (simp add: take_put_bytes)
    then have "absorbed512 (ctx'\<lparr>h_buffer := put_bytes (h_buffer ctx') ?n data, buflen := ?n + length data\<rparr>) (m @ data)"
      using 2 pre by (auto simp: absorbed512_def)
    then show ?thesis using 2 by (simp add: SNEPPX_sha512_update_def Let_def ctx'_def)
  next
    case 3
    let ?b = "take ?n (h_buffer ctx') @ take ?f data"
    have b: "put_bytes (h_buffer ctx') ?n (take ?f data) = ?b" using 3 pre(4,5) by (simp add: put_bytes_def)
    have lb: "length ?b = 128" using 3 pre(4,5) by simp
    define c where "c = ctx'\<lparr>h_buffer := ?b, h_state := sha512_transform (h_state ctx') ?b, buflen := 0\<rparr>"
    have "absorbed512 c (m @ take ?f data)"
      using pre lb chunks_step [of 128 ?b "[]"] by (auto simp: absorbed512_def c_def sha512_transform_eq chunks_whole intro!: exI [of _ "pre @ ?b"])
    from sha512_absorb_absorbed [OF this, of "drop ?f data"] have "absorbed512 (sha512_absorb c (drop ?f data)) (m @ data)" by (simp add: c_def)
    moreover have "SNEPPX_sha512_update ctx data = sha512_absorb c (drop ?f data)"
      using 3 b by (simp add: SNEPPX_sha512_update_def Let_def ctx'_def c_def)
    ultimately show ?thesis by simp
  qed
qed

text \<open>The carry into the high half of the counter.\<close>

lemma wrapped_sum:
  fixes M :: nat
  assumes "r < M" "b < M"
  shows "((r + b) mod M < r) = (M \<le> r + b)" "(r + b) div M = (if M \<le> r + b then 1 else 0)"
  using assms by (cases "M \<le> r + b", simp_all add: le_mod_geq le_div_geq)+

lemma carry_of_sum:
  assumes "b < 2 ^ 64"
  shows "((of_nat a :: u64) + of_nat b < of_nat a) = (2 ^ 64 \<le> a mod 2 ^ 64 + b)"
    "(a + b) div 2 ^ 64 = a div 2 ^ 64 + (if 2 ^ 64 \<le> a mod 2 ^ 64 + b then 1 else 0)"
proof -
  let ?M = "2 ^ 64 :: nat"
  have lt: "a mod ?M < ?M" by simp
  have s: "unat ((of_nat a :: u64) + of_nat b) = (a mod ?M + b) mod ?M" "unat (of_nat a :: u64) = a mod ?M"
    using assms unat_word_ariths(1) [of "of_nat a :: u64" "of_nat b"] by (simp_all add: unat_of_nat)
  show "((of_nat a :: u64) + of_nat b < of_nat a) = (?M \<le> a mod ?M + b)"
    unfolding word_less_nat_alt s by (rule wrapped_sum(1) [OF lt assms])
  have "(a + b) div ?M = a div ?M + b div ?M + (a mod ?M + b mod ?M) div ?M" by (rule div_add1_eq)
  then show "(a + b) div ?M = a div ?M + (if ?M \<le> a mod ?M + b then 1 else 0)" using wrapped_sum(2) [OF lt assms] assms by simp
qed

lemma sha512_blocks_counts [simp]:
  "count0 (sha512_absorb c d) = count0 c" "count1 (sha512_absorb c d) = count1 c"
  by (simp_all add: sha512_absorb_def Let_def split: prod.split)

lemma sha512_update_counted:
  assumes "counted512 ctx m" "length data < 2 ^ 61"
  shows "counted512 (SNEPPX_sha512_update ctx data) (m @ data)"
proof -
  have b: "8 * length data < 2 ^ 64" using assms(2) by simp
  have "count0 (SNEPPX_sha512_update ctx data) = count0 ctx + of_nat (8 * length data)"
    "count1 (SNEPPX_sha512_update ctx data) = count1 ctx + (if count0 ctx + of_nat (8 * length data) < count0 ctx then 1 else 0)"
    by (simp_all add: SNEPPX_sha512_update_def Let_def mult.commute)
  then show ?thesis using assms(1) carry_of_sum [OF b, of "8 * length m"] by (simp add: counted512_def distrib_left)
qed

lemma sha512_pad_eq: "n < 128 \<Longrightarrow> sha512_pad n hi lo = md_pad 128 (be64_bytes hi @ be64_bytes lo) n"
  by (auto simp: sha512_pad_def md_pad_def zero_fill_def Let_def)

lemma sha512_finish_absorbed:
  assumes a: "absorbed512 ctx m"
  shows "sha512_digest (SNEPPX_sha512_update ctx (sha512_pad (buflen ctx) hi lo)) =
    concat (map be64_bytes (md_hash compress512 128 sha512_iv (m @ md_pad 128 (be64_bytes hi @ be64_bytes lo) (length m))))"
proof -
  obtain pre where pre: "m = pre @ take (buflen ctx) (h_buffer ctx)" "128 dvd length pre" "length (h_buffer ctx) = 128" "buflen ctx < 128"
    using a by (auto simp: absorbed512_def)
  then have mod: "length m mod 128 = buflen ctx" by auto
  let ?p = "md_pad 128 (be64_bytes hi @ be64_bytes lo) (length m)"
  have p: "sha512_pad (buflen ctx) hi lo = ?p"
    using pre(4) mod zero_fill_mod [of 128 _ "length m"] by (simp add: sha512_pad_eq md_pad_def)
  have whole: "128 dvd length (m @ ?p)" using md_pad_whole [of 128] by simp
  let ?c = "SNEPPX_sha512_update ctx ?p"
  obtain q where q: "m @ ?p = q @ take (buflen ?c) (h_buffer ?c)" "128 dvd length q" "h_state ?c = foldl compress512 sha512_iv (chunks 128 q)"
    "length (h_buffer ?c) = 128" "buflen ?c < 128" using sha512_update_absorbed [OF a, of ?p] by (auto simp: absorbed512_def)
  have "length (m @ ?p) = length q + buflen ?c" using q(1,4,5) by simp
  then have "128 dvd buflen ?c" using whole q(2) by (metis dvd_add_right_iff)
  then have "q = m @ ?p" using q(1,5) by (cases "buflen ?c = 0") (auto dest: dvd_imp_le)
  then show ?thesis unfolding p md_hash_def sha512_digest_def using q(3) by simp
qed

lemma sha512_init_ok: "length (h_buffer ctx) = 128 \<Longrightarrow> absorbed512 (SNEPPX_sha512_init ctx) [] \<and> counted512 (SNEPPX_sha512_init ctx) []"
  by (simp add: absorbed512_def counted512_def SNEPPX_sha512_init_def)

lemma sha512_updates:
  assumes "absorbed512 ctx m" "counted512 ctx m" "\<forall>p \<in> set ps. length p < 2 ^ 61"
  shows "absorbed512 (foldl SNEPPX_sha512_update ctx ps) (m @ concat ps) \<and> counted512 (foldl SNEPPX_sha512_update ctx ps) (m @ concat ps)"
  using assms
proof (induction ps arbitrary: ctx m)
  case (Cons p ps)
  then show ?case using Cons.IH [of "SNEPPX_sha512_update ctx p" "m @ p"] sha512_update_absorbed sha512_update_counted by simp
qed simp

lemma sha512_streams:
  assumes "length (h_buffer ctx) = 128" "\<forall>p \<in> set ps. length p < 2 ^ 61"
  shows "SNEPPX_sha512_finish (foldl SNEPPX_sha512_update (SNEPPX_sha512_init ctx) ps) = fips_sha512 (concat ps)"
proof -
  let ?c = "foldl SNEPPX_sha512_update (SNEPPX_sha512_init ctx) ps"
  have "absorbed512 ?c (concat ps)" "counted512 ?c (concat ps)"
    using sha512_updates [of "SNEPPX_sha512_init ctx" "[]" ps] sha512_init_ok [OF assms(1)] assms(2) by auto
  then show ?thesis by (simp add: SNEPPX_sha512_finish_def fips_sha512_def sha512_finish_absorbed counted512_def)
qed

section \<open>Theorems\<close>

text \<open>C26. \<open>SNEPPX_sha256\<close> is the SHA-256 of FIPS 180-4 for every message: the padding of the last one or two blocks in the
  buffer, whatever the buffer held before, amounts to padding the whole message.\<close>

theorem sha256_is_fips180:
  assumes "length buffer = 64"
  shows "SNEPPX_sha256 buffer m = fips_sha256 m"
  by (rule sha256_correct [OF assms])

theorem sha256_is_fips180_witness: "SNEPPX_sha256 (replicate 64 7) [1, 2, 3] = fips_sha256 [1, 2, 3]"
  by (rule sha256_is_fips180) simp

text \<open>C25. Hashing a message in pieces with \<open>SNEPPX_sha512_update\<close> gives the SHA-512 of FIPS 180-4 of the whole message, however it is
  cut into pieces of less than \<open>2 ^ 61\<close> bytes; the 128-bit length counter carries correctly.\<close>

theorem sha512_in_pieces_is_fips180:
  assumes "length (h_buffer ctx) = 128" "\<forall>p \<in> set ps. length p < 2 ^ 61"
  shows "SNEPPX_sha512_finish (foldl SNEPPX_sha512_update (SNEPPX_sha512_init ctx) ps) = fips_sha512 (concat ps)"
  by (rule sha512_streams [OF assms])

theorem sha512_in_pieces_is_fips180_witness:
  "SNEPPX_sha512_finish (foldl SNEPPX_sha512_update
     (SNEPPX_sha512_init \<lparr>h_state = [], count0 = 1, count1 = 2, h_buffer = replicate 128 0, buflen = 3\<rparr>) [[1, 2], [], [3]]) = fips_sha512 [1, 2, 3]"
  using sha512_in_pieces_is_fips180 [of "\<lparr>h_state = [], count0 = 1, count1 = 2, h_buffer = replicate 128 0, buflen = 3\<rparr>" "[[1, 2], [], [3]]"] by simp

end
