(* ===== verification/Hmac.thy ===== *)
theory Hmac
  imports Sha2
begin

text \<open>
  Keyed hashes and key derivation: \<open>hmac.c\<close>, \<open>hkdf.c\<close> and \<open>pbkdf2.c\<close> of \<open>security/crypto/c\<close>. They use the incremental
  SHA-512 through \<open>init\<close>, \<open>update\<close> and \<open>finish\<close>; the locale \<open>streaming_hash\<close> states what they rely on.

  An output pointer is the list of the bytes behind it. A write past its end is the fault \<open>Out_Of_Bounds\<close>. The contexts on the
  stack start with unknown contents, a parameter of the operations. A function that returns a status gives it with the output.
\<close>

section \<open>Definitions\<close>

definition write_at :: "bytes \<Rightarrow> nat \<Rightarrow> bytes \<Rightarrow> bytes run" where
  "write_at out off src = (if off + length src \<le> length out then Inr (put_bytes out off src) else Inl Out_Of_Bounds)"

definition hmac_compute :: "sha512_ctx \<Rightarrow> bytes \<Rightarrow> bytes \<Rightarrow> nat \<Rightarrow> bool \<Rightarrow> bytes \<Rightarrow> bytes run" where
  "hmac_compute c key data out_len use_sha512 out =
     (let block_size = (if use_sha512 then 128 else 64);
          hash_size = (if use_sha512 then 64 else 32);
          k = replicate block_size 0;
          k = (if length key > block_size
               then let h = SNEPPX_sha512_finish (SNEPPX_sha512_update (SNEPPX_sha512_init c) key) in put_bytes k 0 (take hash_size h)
               else put_bytes k 0 key);
          ipad = map (\<lambda>b. b XOR 0x36) k;
          opad = map (\<lambda>b. b XOR 0x5C) k;
          inner_hash = SNEPPX_sha512_finish (SNEPPX_sha512_update (SNEPPX_sha512_update (SNEPPX_sha512_init c) ipad) data);
          final_hash_size = (if out_len < hash_size then out_len else hash_size);
          digest = SNEPPX_sha512_finish (SNEPPX_sha512_update (SNEPPX_sha512_update (SNEPPX_sha512_init c) opad) (take final_hash_size inner_hash)) in
      write_at out 0 digest)"

record hmac_ctx =
  hm_key :: bytes
  hm_key_len :: nat
  hm_hash_type :: int

definition SNEPPX_hmac_init :: "hmac_ctx option \<Rightarrow> bytes option \<Rightarrow> int \<Rightarrow> int \<times> hmac_ctx option" where
  "SNEPPX_hmac_init ctx key hash_type =
     (case (ctx, key) of
        (Some c, Some k) \<Rightarrow>
          let n = (if length k < 128 then length k else 128) in
          (0, Some (c\<lparr>hm_key_len := n, hm_key := put_bytes (hm_key c) 0 (take n k), hm_hash_type := hash_type\<rparr>))
      | _ \<Rightarrow> (- 1, ctx))"

text \<open>The result: status, output and \<open>*out_len\<close>.\<close>

definition SNEPPX_hmac_compute ::
  "sha512_ctx \<Rightarrow> hmac_ctx option \<Rightarrow> bytes option \<Rightarrow> bytes option \<Rightarrow> nat option \<Rightarrow> (int \<times> bytes option \<times> nat option) run" where
  "SNEPPX_hmac_compute c ctx data out out_len =
     (case (ctx, data, out, out_len) of
        (Some x, Some d, Some buf, Some n) \<Rightarrow>
          let hash_size = (if hm_hash_type x = 0 then 32 else 64) in
          if n < hash_size then Inr (- 1, out, out_len)
          else bind_run (hmac_compute c (take (hm_key_len x) (hm_key x)) d hash_size (hm_hash_type x \<noteq> 0) buf)
                 (\<lambda>buf. Inr (0, Some buf, Some hash_size))
      | _ \<Rightarrow> Inr (- 1, out, out_len))"

definition SNEPPX_hmac_sha256 :: "sha512_ctx \<Rightarrow> bytes option \<Rightarrow> bytes option \<Rightarrow> bytes option \<Rightarrow> (int \<times> bytes option) run" where
  "SNEPPX_hmac_sha256 c key data out =
     (case (key, data, out) of
        (Some k, Some d, Some buf) \<Rightarrow> bind_run (hmac_compute c k d 32 False buf) (\<lambda>buf. Inr (0, Some buf))
      | _ \<Rightarrow> Inr (- 1, out))"

definition SNEPPX_hmac_sha512 :: "sha512_ctx \<Rightarrow> bytes option \<Rightarrow> bytes option \<Rightarrow> bytes option \<Rightarrow> (int \<times> bytes option) run" where
  "SNEPPX_hmac_sha512 c key data out =
     (case (key, data, out) of
        (Some k, Some d, Some buf) \<Rightarrow> bind_run (hmac_compute c k d 64 True buf) (\<lambda>buf. Inr (0, Some buf))
      | _ \<Rightarrow> Inr (- 1, out))"

definition SNEPPX_hkdf_extract :: "sha512_ctx \<Rightarrow> bytes option \<Rightarrow> bytes option \<Rightarrow> bytes option \<Rightarrow> nat \<Rightarrow> (int \<times> bytes option) run" where
  "SNEPPX_hkdf_extract c salt ikm prk prk_len =
     (if ikm = None \<or> prk = None \<or> prk_len < 32 then Inr (- 1, prk)
      else let s = (case salt of None \<Rightarrow> replicate 32 0 | Some [] \<Rightarrow> replicate 32 0 | Some s \<Rightarrow> s) in
        SNEPPX_hmac_sha256 c (Some s) ikm prk)"

text \<open>
  A round of the loop of \<open>SNEPPX_hkdf_expand\<close>; the rounds are those with \<open>offset = 32 * i < okm_len\<close>, and \<open>n\<close> is \<open>i + 1\<close>. The state is
  the array \<open>t\<close>, its used length, the array \<open>block\<close>, \<open>okm\<close> and whether the loop was left with \<open>-1\<close>.
\<close>

definition hkdf_round ::
  "sha512_ctx \<Rightarrow> bytes \<Rightarrow> bytes option \<Rightarrow> nat \<Rightarrow> nat \<Rightarrow> nat \<Rightarrow> bytes \<times> nat \<times> bytes \<times> bytes \<times> bool \<Rightarrow> (bytes \<times> nat \<times> bytes \<times> bytes \<times> bool) run" where
  "hkdf_round c prk info info_len okm_len i st =
     (let (t, tl, block, okm, failed) = st; offset = 32 * i in
      if failed then Inr st
      else bind_run (if tl \<noteq> 0 then write_at block 0 (take tl t) else Inr block) (\<lambda>block.
        bind_run (case info of None \<Rightarrow> Inr block | Some x \<Rightarrow> write_at block tl (take info_len x)) (\<lambda>block.
        bind_run (write_at block (tl + info_len) [of_nat (i + 1)]) (\<lambda>block.
        bind_run (SNEPPX_hmac_sha256 c (Some prk) (Some (take (tl + info_len + 1) block)) (Some t)) (\<lambda>(ret, t').
        if ret \<noteq> 0 then Inr (t, tl, block, okm, True)
        else let t = (case t' of Some x \<Rightarrow> x | None \<Rightarrow> t); copy = (if okm_len - offset < 32 then okm_len - offset else 32) in
          bind_run (write_at okm offset (take copy t)) (\<lambda>okm. Inr (t, 32, block, okm, False)))))))"

definition SNEPPX_hkdf_expand ::
  "sha512_ctx \<Rightarrow> bytes \<Rightarrow> bytes \<Rightarrow> bytes option \<Rightarrow> bytes option \<Rightarrow> nat \<Rightarrow> bytes option \<Rightarrow> nat \<Rightarrow> (int \<times> bytes option) run" where
  "SNEPPX_hkdf_expand c t block prk info info_len okm okm_len =
     (case (prk, okm) of
        (Some p, Some o') \<Rightarrow>
          if okm_len > 255 * 32 then Inr (- 1, okm)
          else bind_run (fold_run (hkdf_round c p info info_len okm_len) [0..<(okm_len + 31) div 32] (t, 0, block, o', False))
                 (\<lambda>(t, tl, block, o', failed). Inr (if failed then - 1 else 0, Some o'))
      | _ \<Rightarrow> Inr (- 1, okm))"

text \<open>The local arrays \<open>t\<close> and \<open>prk\<close> have 32 cells and \<open>block\<close> has 288; \<open>junk\<close> is what they hold at first.\<close>

definition SNEPPX_hkdf ::
  "sha512_ctx \<Rightarrow> bytes \<Rightarrow> bytes option \<Rightarrow> bytes option \<Rightarrow> bytes option \<Rightarrow> nat \<Rightarrow> bytes option \<Rightarrow> nat \<Rightarrow> (int \<times> bytes option) run" where
  "SNEPPX_hkdf c junk salt ikm info info_len okm okm_len =
     bind_run (SNEPPX_hkdf_extract c salt ikm (Some (take 32 junk)) 32) (\<lambda>(ret, prk).
     if ret \<noteq> 0 then Inr (- 1, okm)
     else SNEPPX_hkdf_expand c (take 32 junk) (take 288 junk) (map_option (take 32) prk) info info_len okm okm_len)"

section \<open>PBKDF2\<close>

text \<open>
  One block: \<open>mac\<close> is the keyed hash that writes to the array \<open>u\<close>, \<open>sblock\<close> has 256 cells. In the loop \<open>u\<close> is both input and
  output; the hash reads its input before it writes.
\<close>

definition pbkdf2_step :: "(bytes \<Rightarrow> bytes \<Rightarrow> bytes run) \<Rightarrow> nat \<Rightarrow> nat \<Rightarrow> bytes \<times> bytes \<Rightarrow> (bytes \<times> bytes) run" where
  "pbkdf2_step mac hlen i st = (let (u, t) = st in bind_run (mac (take hlen u) u) (\<lambda>u. Inr (u, xor_bytes t u)))"

definition pbkdf2_block :: "(bytes \<Rightarrow> bytes \<Rightarrow> bytes run) \<Rightarrow> nat \<Rightarrow> bytes \<Rightarrow> bytes \<Rightarrow> nat \<Rightarrow> u32 \<Rightarrow> bytes run" where
  "pbkdf2_block mac hlen junk salt iter b =
     bind_run (write_at (take 256 junk) 0 salt) (\<lambda>sblock.
     bind_run (write_at sblock (length salt) (be32_bytes b)) (\<lambda>sblock.
     bind_run (mac (take (length salt + 4) sblock) (take hlen junk)) (\<lambda>u.
     bind_run (fold_run (pbkdf2_step mac hlen) [1..<iter] (u, take hlen u)) (\<lambda>(u, t). Inr t))))"

text \<open>
  The loop over the blocks. \<open>blocks\<close> is cut to 32 bits; for \<open>2 ^ 32 - 1\<close> of them, which is more than 128 GiB of output, the test \<open>b <= blocks\<close>
  would never fail, a case the model leaves out.
\<close>

definition pbkdf2_loop :: "(bytes \<Rightarrow> bytes \<Rightarrow> bytes run) \<Rightarrow> nat \<Rightarrow> bytes \<Rightarrow> bytes \<Rightarrow> nat \<Rightarrow> nat \<Rightarrow> bytes \<Rightarrow> bytes run" where
  "pbkdf2_loop mac hlen junk salt iter out_len out =
     (let blocks = unat (of_nat ((out_len + hlen - 1) div hlen) :: u32) in
      fold_run (\<lambda>b out. bind_run (pbkdf2_block mac hlen junk salt iter (of_nat b)) (\<lambda>t.
        let copy = (if out_len - (b - 1) * hlen < hlen then out_len - (b - 1) * hlen else hlen) in
        write_at out ((b - 1) * hlen) (take copy t))) [1..<blocks + 1] out)"

definition SNEPPX_pbkdf2_hmac_sha256 ::
  "sha512_ctx \<Rightarrow> bytes \<Rightarrow> bytes option \<Rightarrow> bytes option \<Rightarrow> u32 \<Rightarrow> bytes option \<Rightarrow> nat \<Rightarrow> (int \<times> bytes option) run" where
  "SNEPPX_pbkdf2_hmac_sha256 c junk pwd salt iter out out_len =
     (case (pwd, salt, out) of
        (Some p, Some s, Some o') \<Rightarrow>
          bind_run (pbkdf2_loop (\<lambda>m u. hmac_compute c p m 32 False u) 32 junk s (unat iter) out_len o') (\<lambda>o'. Inr (0, Some o'))
      | _ \<Rightarrow> Inr (- 1, out))"

definition SNEPPX_pbkdf2_hmac_sha512 ::
  "sha512_ctx \<Rightarrow> bytes \<Rightarrow> bytes option \<Rightarrow> bytes option \<Rightarrow> u32 \<Rightarrow> bytes option \<Rightarrow> nat \<Rightarrow> (int \<times> bytes option) run" where
  "SNEPPX_pbkdf2_hmac_sha512 c junk pwd salt iter out out_len =
     (case (pwd, salt, out) of
        (Some p, Some s, Some o') \<Rightarrow>
          bind_run (pbkdf2_loop (\<lambda>m u. hmac_compute c p m 64 True u) 64 junk s (unat iter) out_len o') (\<lambda>o'. Inr (0, Some o'))
      | _ \<Rightarrow> Inr (- 1, out))"

section \<open>The references\<close>

text \<open>RFC 2104, for a hash \<open>H\<close> with blocks of \<open>B\<close> bytes.\<close>

definition block_key :: "(bytes \<Rightarrow> bytes) \<Rightarrow> nat \<Rightarrow> bytes \<Rightarrow> bytes" where
  "block_key H B key = (let k = (if length key > B then H key else key) in k @ replicate (B - length k) 0)"

definition rfc_hmac :: "(bytes \<Rightarrow> bytes) \<Rightarrow> nat \<Rightarrow> bytes \<Rightarrow> bytes \<Rightarrow> bytes" where
  "rfc_hmac H B key m =
     (let k = block_key H B key in
      H (xor_bytes k (replicate B 0x5C) @ H (xor_bytes k (replicate B 0x36) @ m)))"

text \<open>RFC 8018, for a pseudorandom function \<open>rnd\<close>: the block \<open>i\<close> is the sum of \<open>n\<close> iterates.\<close>

definition rfc_block :: "(bytes \<Rightarrow> bytes) \<Rightarrow> bytes \<Rightarrow> nat \<Rightarrow> nat \<Rightarrow> bytes" where
  "rfc_block rnd salt n i =
     (let u = rnd (salt @ be32_bytes (of_nat i)) in foldl (\<lambda>t j. xor_bytes t ((rnd ^^ j) u)) u [1..<n])"

definition rfc_pbkdf2 :: "(bytes \<Rightarrow> bytes) \<Rightarrow> nat \<Rightarrow> bytes \<Rightarrow> nat \<Rightarrow> nat \<Rightarrow> bytes" where
  "rfc_pbkdf2 rnd hlen salt n len = take len (concat (map (rfc_block rnd salt n) [1..<(len + hlen - 1) div hlen + 1]))"

section \<open>What the callers rely on\<close>

locale streaming_hash =
  fixes good :: "'s \<Rightarrow> bool" and init :: "'s \<Rightarrow> 's" and update :: "'s \<Rightarrow> bytes \<Rightarrow> 's" and finish :: "'s \<Rightarrow> bytes" and H :: "bytes \<Rightarrow> bytes"
    and limit :: nat and L :: nat
  assumes streams: "good c \<Longrightarrow> \<forall>p \<in> set ps. length p < limit \<Longrightarrow> finish (foldl update (init c) ps) = H (concat ps)"
    and H_length: "length (H m) = L"
begin

lemma one_piece: "good c \<Longrightarrow> length m < limit \<Longrightarrow> finish (update (init c) m) = H m"
  using streams [of c "[m]"] by simp

lemma two_pieces: "good c \<Longrightarrow> length a < limit \<Longrightarrow> length b < limit \<Longrightarrow> finish (update (update (init c) a) b) = H (a @ b)"
  using streams [of c "[a, b]"] by simp

lemma keyed:
  assumes "good c" "length k < limit" "length m < limit"
  shows "finish (update (update (init c) (map (\<lambda>b. b XOR x) k)) m) = H (xor_bytes k (replicate (length k) x) @ m)"
proof -
  have "map (\<lambda>b. b XOR x) k = xor_bytes k (replicate (length k) x)"
    by (rule nth_equalityI) (simp_all add: xor_bytes_def)
  then show ?thesis using two_pieces [of c "map (\<lambda>b. b XOR x) k" m] assms by simp
qed

text \<open>The keyed hash of a key that fills a block.\<close>

lemma keyed_twice:
  assumes "good c" "length k < limit" "length m < limit" "L < limit"
  shows "finish (update (update (init c) (map (\<lambda>b. b XOR y) k)) (finish (update (update (init c) (map (\<lambda>b. b XOR x) k)) m))) =
    H (xor_bytes k (replicate (length k) y) @ H (xor_bytes k (replicate (length k) x) @ m))"
  using assms by (simp add: keyed H_length)

end

section \<open>SHA-512 fulfils the contract\<close>

lemma length_compress512: "length s = 8 \<Longrightarrow> length (compress512 s b) = 8"
proof -
  assume s: "length s = 8"
  have "length (fold (\<lambda>t s. let T1 = s ! 7 + SIGMA1 (s ! 4) + CH (s ! 4) (s ! 5) (s ! 6) + K512 ! t + W512 b t; T2 = SIGMA0 (s ! 0) + MAJ (s ! 0) (s ! 1) (s ! 2) in
      [T1 + T2, s ! 0, s ! 1, s ! 2, s ! 3 + T1, s ! 4, s ! 5, s ! 6]) ts s) = 8" for ts
    using s by (induction ts arbitrary: s) (simp_all add: Let_def)
  then show ?thesis using s by (simp add: compress512_def)
qed

lemma length_chained512: "length s = 8 \<Longrightarrow> length (foldl compress512 s bs) = 8"
  by (induction bs arbitrary: s) (simp_all add: length_compress512)

lemma length_digest: "length (concat (map be64_bytes s)) = 8 * length s"
  by (induction s) simp_all

lemma length_fips_sha512 [simp]: "length (fips_sha512 m) = 64"
  by (simp add: fips_sha512_def md_hash_def length_digest length_chained512 sha512_iv_def)

definition ctx_ok :: "sha512_ctx \<Rightarrow> bool" where "ctx_ok c \<longleftrightarrow> length (h_buffer c) = 128"

interpretation sha512: streaming_hash ctx_ok SNEPPX_sha512_init SNEPPX_sha512_update SNEPPX_sha512_finish fips_sha512 "2 ^ 61" 64
  by unfold_locales (simp_all add: ctx_ok_def sha512_streams)

text \<open>The legacy variant is the same hash with a length field that counts eight times the bits.\<close>

definition legacy_sha512 :: "bytes \<Rightarrow> bytes" where
  "legacy_sha512 m = concat (map be64_bytes (md_hash compress512 128 sha512_iv
     (m @ md_pad 128 (be64_bytes (of_nat (64 * length m div 2 ^ 64)) @ be64_bytes (of_nat (64 * length m))) (length m))))"

lemma div_eighth: "0 < k \<Longrightarrow> n div k = 8 * (n div (8 * k)) + n mod (8 * k) div (k :: nat)"
proof -
  assume k: "0 < k"
  have "n = n mod (8 * k) + (8 * (n div (8 * k))) * k" using mod_mult_div_eq [of n "8 * k"] by (simp add: mult_ac)
  then have "n div k = (n mod (8 * k) + (8 * (n div (8 * k))) * k) div k" by simp
  then show ?thesis using k by (simp only: div_mult_self1 add.commute)
qed

lemma shifted_count:
  "push_bit 3 (of_nat (n div 2 ^ 64) :: u64) OR drop_bit 61 (of_nat n) = of_nat (8 * n div 2 ^ 64)" "push_bit 3 (of_nat n :: u64) = of_nat (8 * n)"
proof -
  let ?a = "push_bit 3 (of_nat (n div 2 ^ 64) :: u64)" and ?b = "drop_bit 61 (of_nat n :: u64)"
  show "push_bit 3 (of_nat n :: u64) = of_nat (8 * n)" by (simp add: push_bit_eq_mult)
  have "?a AND ?b = 0" by (rule bit_eqI) (auto simp: bit_simps dest: bit_imp_le_length)
  then have "?a OR ?b = ?a + ?b" by (simp add: disjunctive_add_eq_or)
  moreover have "?b = of_nat (n mod 2 ^ 64 div 2 ^ 61)"
  proof -
    have "unat ?b = drop_bit 61 (unat (of_nat n :: u64))" by (rule unat_drop_bit_eq)
    then have "unat ?b = n mod 2 ^ 64 div 2 ^ 61" unfolding unat_of_nat by (simp add: drop_bit_eq_div)
    then have "(of_nat (unat ?b) :: u64) = of_nat (n mod 2 ^ 64 div 2 ^ 61)" by (rule arg_cong)
    then show ?thesis by simp
  qed
  moreover have "8 * n div 2 ^ 64 = 8 * (n div 2 ^ 64) + n mod 2 ^ 64 div 2 ^ 61" using div_eighth [of "2 ^ 61" n] by simp
  ultimately show "?a OR ?b = of_nat (8 * n div 2 ^ 64)" by (simp add: push_bit_eq_mult)
qed

interpretation legacy: streaming_hash ctx_ok SNEPPX_sha512_init SNEPPX_sha512_update SNEPPX_sha512_legacy_finish legacy_sha512 "2 ^ 61" 64
proof unfold_locales
  fix c ps assume c: "ctx_ok c" "\<forall>p \<in> set ps. length (p :: bytes) < 2 ^ 61"
  let ?c = "foldl SNEPPX_sha512_update (SNEPPX_sha512_init c) ps"
  have a: "absorbed512 ?c (concat ps)" "counted512 ?c (concat ps)"
    using sha512_updates [of "SNEPPX_sha512_init c" "[]" ps] sha512_init_ok [of c] c by (auto simp: ctx_ok_def)
  show "SNEPPX_sha512_legacy_finish ?c = legacy_sha512 (concat ps)"
    unfolding SNEPPX_sha512_legacy_finish_def sha512_finish_absorbed [OF a(1)] legacy_sha512_def
    using a(2) shifted_count [of "8 * length (concat ps)"] by (simp add: counted512_def)
next
  show "length (legacy_sha512 m) = 64" for m
    by (simp add: legacy_sha512_def md_hash_def length_digest length_chained512 sha512_iv_def)
qed

section \<open>The keyed hash\<close>

lemma write_at_0: "length src \<le> length out \<Longrightarrow> write_at out 0 src = Inr (src @ drop (length src) out)"
  by (simp add: write_at_def put_bytes_0)

lemma hmac_key512:
  assumes "ctx_ok c" "length key < 2 ^ 61"
  shows "(if length key > 128 then put_bytes (replicate 128 0) 0 (take 64 (SNEPPX_sha512_finish (SNEPPX_sha512_update (SNEPPX_sha512_init c) key)))
     else put_bytes (replicate 128 0) 0 key) = block_key fips_sha512 128 key"
  using assms by (simp add: block_key_def Let_def put_bytes_0 sha512.one_piece)

lemma length_block_key: "length (H key) \<le> B \<Longrightarrow> length (block_key H B key) = B"
  by (simp add: block_key_def Let_def)

lemma hmac512_value:
  assumes "ctx_ok c" "length key < 2 ^ 61" "length data < 2 ^ 61"
  shows "hmac_compute c key data 64 True out = write_at out 0 (rfc_hmac fips_sha512 128 key data)"
proof -
  let ?k = "block_key fips_sha512 128 key"
  have k: "length ?k = 128" by (rule length_block_key) simp
  have i: "SNEPPX_sha512_finish (SNEPPX_sha512_update (SNEPPX_sha512_update (SNEPPX_sha512_init c) (map (\<lambda>b. b XOR 0x36) ?k)) data) =
      fips_sha512 (xor_bytes ?k (replicate 128 0x36) @ data)" using sha512.keyed [OF assms(1), of ?k data] k assms(3) by simp
  have o: "SNEPPX_sha512_finish (SNEPPX_sha512_update (SNEPPX_sha512_update (SNEPPX_sha512_init c) (map (\<lambda>b. b XOR 0x5C) ?k)) (fips_sha512 x)) =
      fips_sha512 (xor_bytes ?k (replicate 128 0x5C) @ fips_sha512 x)" for x using sha512.keyed [OF assms(1), of ?k "fips_sha512 x"] k by simp
  show ?thesis unfolding hmac_compute_def Let_def if_True hmac_key512 [OF assms(1,2)] i by (simp add: o rfc_hmac_def Let_def)
qed

text \<open>The digest has 64 bytes whatever the hash asked for.\<close>

lemma length_transform512: "length s = 8 \<Longrightarrow> length (sha512_transform s b) = 8"
  by (simp add: sha512_transform_eq length_compress512)

lemma length_sha512_blocks: "length s = 8 \<Longrightarrow> length (fst (sha512_blocks s d)) = 8"
  by (induction s d rule: sha512_blocks.induct) (subst sha512_blocks.simps, simp add: length_transform512)

lemma length_sha512_absorb: "length (h_state c) = 8 \<Longrightarrow> length (h_state (sha512_absorb c d)) = 8"
  using length_sha512_blocks [of "h_state c" d] by (cases "sha512_blocks (h_state c) d") (simp add: sha512_absorb_def Let_def)

lemma length_sha512_update: "length (h_state c) = 8 \<Longrightarrow> length (h_state (SNEPPX_sha512_update c d)) = 8"
  by (simp add: SNEPPX_sha512_update_def Let_def length_transform512 length_sha512_absorb)

lemma length_sha512_finish: "length (h_state c) = 8 \<Longrightarrow> length (SNEPPX_sha512_finish c) = 64"
  by (simp add: SNEPPX_sha512_finish_def sha512_digest_def length_digest length_sha512_update)

lemma hmac_overruns: "length out < 64 \<Longrightarrow> hmac_compute c key data n use out = Inl Out_Of_Bounds"
proof -
  assume "length out < 64"
  moreover have "length (SNEPPX_sha512_finish (SNEPPX_sha512_update (SNEPPX_sha512_update (SNEPPX_sha512_init c) a) b)) = 64" for a b
    by (rule length_sha512_finish) (simp add: length_sha512_update SNEPPX_sha512_init_def sha512_iv_def)
  ultimately show ?thesis by (simp add: hmac_compute_def Let_def write_at_def)
qed

section \<open>PBKDF2 with SHA-512\<close>

text \<open>A keyed hash that fills the array it is given.\<close>

definition fills :: "(bytes \<Rightarrow> bytes \<Rightarrow> bytes run) \<Rightarrow> nat \<Rightarrow> (bytes \<Rightarrow> bytes) \<Rightarrow> bool" where
  "fills mac hlen rnd \<longleftrightarrow> (\<forall>m u. length m < 2 ^ 61 \<longrightarrow> length u = hlen \<longrightarrow> mac m u = Inr (rnd m)) \<and> (\<forall>m. length (rnd m) = hlen)"

lemma hmac512_fills: "ctx_ok c \<Longrightarrow> length pwd < 2 ^ 61 \<Longrightarrow> fills (\<lambda>m u. hmac_compute c pwd m 64 True u) 64 (rfc_hmac fips_sha512 128 pwd)"
  by (auto simp: fills_def hmac512_value write_at_0 rfc_hmac_def Let_def)

lemma length_iterate:
  fixes rnd :: "bytes \<Rightarrow> bytes"
  shows "\<forall>m. length (rnd m) = hlen \<Longrightarrow> length u = hlen \<Longrightarrow> length ((rnd ^^ j) u) = hlen"
  by (cases j) simp_all

lemma length_rfc_block: "\<forall>m. length (rnd m) = hlen \<Longrightarrow> length (rfc_block rnd salt n i) = hlen"
proof -
  assume p: "\<forall>m. length (rnd m) = hlen"
  have "length (foldl (\<lambda>t j. xor_bytes t ((rnd ^^ j) u)) t js) = hlen" if "length t = hlen" "length u = hlen" for t u js
    using that p by (induction js arbitrary: t) (simp_all add: length_iterate)
  then show ?thesis using p by (simp add: rfc_block_def Let_def)
qed

lemma pbkdf2_steps:
  assumes f: "fills mac hlen rnd" "hlen < 2 ^ 61" and u: "length u = hlen"
  shows "fold_run (pbkdf2_step mac hlen) [1..<n + 1] (u, u) = Inr ((rnd ^^ n) u, foldl (\<lambda>t j. xor_bytes t ((rnd ^^ j) u)) u [1..<n + 1])"
proof (induction n)
  case (Suc n)
  have "length ((rnd ^^ n) u) = hlen" using f u by (simp add: fills_def length_iterate)
  then have "pbkdf2_step mac hlen (n + 1) ((rnd ^^ n) u, t) = Inr ((rnd ^^ (n + 1)) u, xor_bytes t ((rnd ^^ (n + 1)) u))" for t
    using f by (simp add: pbkdf2_step_def fills_def)
  then show ?case using Suc by (simp add: fold_run_append)
qed simp

lemma pbkdf2_block_value:
  assumes f: "fills mac hlen rnd" "hlen < 2 ^ 61" and j: "length junk = 256" "hlen \<le> 256" and s: "length salt + 4 \<le> 256"
  shows "pbkdf2_block mac hlen junk salt iter (of_nat b) = Inr (rfc_block rnd salt iter b)"
proof -
  let ?m = "salt @ be32_bytes (of_nat b)" and ?u = "rnd (salt @ be32_bytes (of_nat b))"
  have u: "length ?u = hlen" "take hlen ?u = ?u" using f by (simp_all add: fills_def)
  have n: "[1..<iter] = [1..<(iter - 1) + 1]" by (cases iter) simp_all
  have lm: "length ?m < 2 ^ 61" using s by simp
  have w: "write_at (take 256 junk) 0 salt = Inr (salt @ drop (length salt) junk)"
      "write_at (salt @ drop (length salt) junk) (length salt) (be32_bytes (of_nat b)) = Inr (?m @ drop (length salt + 4) junk)"
    using j s by (simp_all add: write_at_def put_bytes_0 put_bytes_at add.commute)
  have "mac ?m (take hlen junk) = Inr ?u" using f(1) lm j by (simp add: fills_def)
  moreover have "fold_run (pbkdf2_step mac hlen) [1..<iter] (?u, ?u) = Inr ((rnd ^^ (iter - 1)) ?u, foldl (\<lambda>t j. xor_bytes t ((rnd ^^ j) ?u)) ?u [1..<iter])"
    using pbkdf2_steps [OF f u(1), of "iter - 1"] by (simp only: n [symmetric])
  ultimately show ?thesis unfolding pbkdf2_block_def w bind_run_simps using u(2)
    by (simp add: rfc_block_def Let_def)
qed

lemma concat_equal_length: "\<forall>x \<in> set xs. length (f x) = n \<Longrightarrow> length (concat (map f xs)) = length xs * n"
  by (induction xs) simp_all

lemma pbkdf2_writes:
  assumes F: "\<And>b. length (F b) = h" and h: "0 < h" and out: "length out = n" and k: "k \<le> (n + h - 1) div h"
  shows "fold_run (\<lambda>b out. write_at out ((b - 1) * h) (take (if n - (b - 1) * h < h then n - (b - 1) * h else h) (F b))) [1..<k + 1] out =
    Inr (take n (concat (map F [1..<k + 1])) @ drop (k * h) out)"
  using k
proof (induction k)
  case (Suc k)
  have lt: "k * h < n"
  proof -
    have "Suc k * h \<le> (n + h - 1) div h * h" using Suc.prems by (rule mult_le_mono1)
    also have "\<dots> \<le> n + h - 1" by simp
    finally show ?thesis using h by simp
  qed
  let ?c = "concat (map F [1..<k + 1])"
  have len: "length ?c = k * h" using concat_equal_length [of "[1..<k + 1]" F h] F by simp
  then have t: "take n ?c = ?c" using lt by simp
  let ?p = "take (if n - k * h < h then n - k * h else h) (F (k + 1))"
  have p: "?p = take (n - k * h) (F (k + 1))" "length ?p = min (n - k * h) h" using F by (auto simp: min_def)
  have "write_at (?c @ drop (k * h) out) (k * h) ?p = Inr ((?c @ ?p) @ drop (Suc k * h) out)"
  proof -
    have "drop (length ?p) (drop (k * h) out) = drop (Suc k * h) out"
      using p(2) lt out by (cases "n - k * h \<le> h") (simp_all add: add.commute min_def)
    then show ?thesis using len p(2) lt out by (simp add: write_at_def put_bytes_at)
  qed
  moreover have up: "[1..<Suc k + 1] = [1..<k + 1] @ [k + 1]" by simp
  moreover have "take n (concat (map F [1..<Suc k + 1])) = ?c @ ?p" unfolding up map_append concat_append take_append t len p(1) by simp
  moreover have "k \<le> (n + h - 1) div h" using Suc.prems by simp
  ultimately show ?case using Suc.IH unfolding up fold_run_append t by (simp only: bind_run_simps fold_run.simps add_diff_cancel_right')
qed simp

lemma pbkdf2_loop_value:
  assumes f: "fills mac hlen rnd" "0 < hlen" "hlen \<le> 256" and j: "length junk = 256" and s: "length salt + 4 \<le> 256"
    and n: "(n + hlen - 1) div hlen < 2 ^ 32" and out: "length out = n"
  shows "pbkdf2_loop mac hlen junk salt iter n out = Inr (rfc_pbkdf2 rnd hlen salt iter n)"
proof -
  let ?b = "(n + hlen - 1) div hlen"
  have b: "unat (of_nat ?b :: u32) = ?b" using n by (simp add: unat_of_nat)
  have h: "hlen < 2 ^ 61" using f(3) by simp
  have v: "pbkdf2_block mac hlen junk salt iter (of_nat i) = Inr (rfc_block rnd salt iter i)" for i
    by (rule pbkdf2_block_value [OF f(1) h j f(3) s])
  have l: "length (rfc_block rnd salt iter i) = hlen" for i using f(1) by (intro length_rfc_block) (simp add: fills_def)
  have "n \<le> ?b * hlen"
  proof -
    have "n + hlen - 1 < (?b + 1) * hlen" using f(2) by (metis div_less_iff_less_mult less_add_one)
    then show ?thesis using f(2) by (simp add: algebra_simps)
  qed
  then show ?thesis unfolding pbkdf2_loop_def Let_def b v
    using pbkdf2_writes [of "rfc_block rnd salt iter" hlen out n ?b] l f(2) out by (simp add: rfc_pbkdf2_def)
qed

section \<open>Theorems\<close>

definition blank_ctx :: sha512_ctx where
  "blank_ctx = \<lparr>h_state = [], count0 = 0, count1 = 0, h_buffer = replicate 128 0, buflen = 0\<rparr>"

lemma blank_ok: "ctx_ok blank_ctx" by (simp add: ctx_ok_def blank_ctx_def)

text \<open>C27. The keyed hash with SHA-512 is the one of RFC 2104: for every key, longer than a block or not, and every message, the
  64 bytes at the start of the output become the outer hash over the padded key and the inner hash, and the rest of the output stays.\<close>

theorem hmac_sha512_is_rfc2104:
  assumes "ctx_ok c" "length key < 2 ^ 61" "length data < 2 ^ 61" "64 \<le> length out"
  shows "SNEPPX_hmac_sha512 c (Some key) (Some data) (Some out) = Inr (0, Some (rfc_hmac fips_sha512 128 key data @ drop 64 out))"
proof -
  have "length (rfc_hmac fips_sha512 128 key data) = 64" by (simp add: rfc_hmac_def Let_def)
  then show ?thesis using assms by (simp add: SNEPPX_hmac_sha512_def hmac512_value write_at_0)
qed

theorem hmac_sha512_is_rfc2104_witness:
  "SNEPPX_hmac_sha512 blank_ctx (Some [1, 2]) (Some [3]) (Some (replicate 65 7)) = Inr (0, Some (rfc_hmac fips_sha512 128 [1, 2] [3] @ [7]))"
  using hmac_sha512_is_rfc2104 [OF blank_ok, of "[1, 2]" "[3]" "replicate 65 7"] by simp

text \<open>C28. Deriving a key with the SHA-512 variant of PBKDF2 is RFC 8018 with the keyed hash of RFC 2104: the output is the
  concatenation of the blocks, cut to its length, for salts of at most 252 bytes. An iteration count of 0 is treated as 1.\<close>

theorem pbkdf2_sha512_is_rfc8018:
  assumes "ctx_ok c" "length junk = 256" "length pwd < 2 ^ 61" "length salt \<le> 252" "length out = n" "n < 64 * (2 ^ 32 - 1)"
  shows "SNEPPX_pbkdf2_hmac_sha512 c junk (Some pwd) (Some salt) iter (Some out) n =
    Inr (0, Some (rfc_pbkdf2 (rfc_hmac fips_sha512 128 pwd) 64 salt (unat iter) n))"
proof -
  have "(n + 64 - 1) div 64 < 2 ^ 32" using assms(6) by simp
  then have "pbkdf2_loop (\<lambda>m u. hmac_compute c pwd m 64 True u) 64 junk salt (unat iter) n out =
      Inr (rfc_pbkdf2 (rfc_hmac fips_sha512 128 pwd) 64 salt (unat iter) n)"
    using assms(2,4,5) by (intro pbkdf2_loop_value hmac512_fills [OF assms(1,3)]) simp_all
  then show ?thesis by (simp add: SNEPPX_pbkdf2_hmac_sha512_def)
qed

theorem pbkdf2_sha512_is_rfc8018_witness:
  "SNEPPX_pbkdf2_hmac_sha512 blank_ctx (replicate 256 0) (Some [1]) (Some [2]) 3 (Some (replicate 100 0)) 100 =
     Inr (0, Some (rfc_pbkdf2 (rfc_hmac fips_sha512 128 [1]) 64 [2] 3 100))"
  using pbkdf2_sha512_is_rfc8018 [OF blank_ok, of "replicate 256 0" "[1]" "[2]" "replicate 100 0" 100 3] by simp

text \<open>The functions named after SHA-256 write the 64 bytes of a SHA-512 digest: the keyed hash overruns the 32 bytes its
  interface asks for, key derivation with HKDF overruns its local array whatever it is given, and so does PBKDF2 for every
  non-empty output.\<close>

theorem sha256_macs_overrun:
  assumes "length out = 32" "length junk = 288" "0 < n" "n < 32 * (2 ^ 32 - 1)"
  shows "SNEPPX_hmac_sha256 c (Some key) (Some data) (Some out) = Inl Out_Of_Bounds \<and>
    SNEPPX_hkdf c junk salt (Some ikm) info info_len okm okm_len = Inl Out_Of_Bounds \<and>
    SNEPPX_pbkdf2_hmac_sha256 c junk (Some pwd) (Some s) iter (Some res) n = Inl Out_Of_Bounds"
proof (intro conjI)
  show "SNEPPX_hmac_sha256 c (Some key) (Some data) (Some out) = Inl Out_Of_Bounds"
    using assms(1) by (simp add: SNEPPX_hmac_sha256_def hmac_overruns)
  show "SNEPPX_hkdf c junk salt (Some ikm) info info_len okm okm_len = Inl Out_Of_Bounds"
    using assms(2) by (simp add: SNEPPX_hkdf_def SNEPPX_hkdf_extract_def SNEPPX_hmac_sha256_def hmac_overruns)
  let ?b = "(n + 32 - 1) div 32"
  have "unat (of_nat ?b :: u32) = ?b" using assms(4) by (simp add: unat_of_nat)
  moreover have "0 < ?b" using assms(3) by simp
  ultimately obtain bs where bs: "[1..<unat (of_nat ?b :: u32) + 1] = 1 # bs" by (metis add_gr_0 less_add_same_cancel2 upt_conv_Cons)
  have "pbkdf2_block (\<lambda>m u. hmac_compute c pwd m 32 False u) 32 junk s (unat iter) 1 = Inl Out_Of_Bounds"
    using assms(2) by (simp add: pbkdf2_block_def hmac_overruns write_at_def)
  then show "SNEPPX_pbkdf2_hmac_sha256 c junk (Some pwd) (Some s) iter (Some res) n = Inl Out_Of_Bounds"
    by (simp only: SNEPPX_pbkdf2_hmac_sha256_def pbkdf2_loop_def bs prod.case option.case Let_def fold_run.simps) simp
qed

theorem sha256_macs_overrun_witness:
  "SNEPPX_hmac_sha256 blank_ctx (Some [1]) (Some [2]) (Some (replicate 32 0)) = Inl Out_Of_Bounds \<and>
   SNEPPX_hkdf blank_ctx (replicate 288 0) None (Some [1]) None 0 (Some [0]) 1 = Inl Out_Of_Bounds \<and>
   SNEPPX_pbkdf2_hmac_sha256 blank_ctx (replicate 288 0) (Some [1]) (Some [2]) 1000 (Some (replicate 32 0)) 32 = Inl Out_Of_Bounds"
  by (rule sha256_macs_overrun) simp_all

end
