(* ===== verification/Tokenizer.thy ===== *)
theory Tokenizer
  imports Bytes
begin

text \<open>
  The byte-pair tokenizer of \<open>kernel/tokenizer/tokenizer.c\<close>: vocabulary, encoding, decoding, training and the file format.

  Token \<open>i\<close> has \<open>token_lens[i]\<close> bytes from position \<open>256 * i\<close> of \<open>token_bytes\<close>; nothing but the length keeps it within its 256 bytes.
  Identifiers are C \<open>int\<close>s, kept as \<open>int\<close>; texts are shorter than \<open>2 ^ 31\<close>. A text is the list of its bytes before the terminating
  zero. An \<open>IntArray\<close> is the list of its first \<open>len\<close> entries: its capacity is that of the text, so that pushing never grows it, and
  the loop that closes a gap is the removal of an element. \<open>ok k\<close> tells whether the \<open>k\<close>-th request for memory is granted; operations
  that allocate take the number of requests so far and return it increased. A write past an array is the fault \<open>Out_Of_Bounds\<close>.
\<close>

section \<open>Data\<close>

record special_tokens =
  pad_id :: int
  bos_id :: int
  eos_id :: int
  unk_id :: int

record bpe_merge =
  left_id :: int
  right_id :: int
  new_id :: int

record tokenizer =
  vocab_size :: int
  tk_capacity :: int
  token_bytes :: bytes
  token_lens :: "int list"
  merges :: "bpe_merge list"
  merge_capacity :: nat
  special :: special_tokens

definition MAX_TOKEN_LEN :: nat where "MAX_TOKEN_LEN = 256"

definition no_special :: special_tokens where "no_special = \<lparr>pad_id = - 1, bos_id = - 1, eos_id = - 1, unk_id = - 1\<rparr>"

text \<open>The bytes of a token as \<open>memcpy\<close> and \<open>memcmp\<close> read them.\<close>

definition tok_word :: "tokenizer \<Rightarrow> nat \<Rightarrow> bytes" where
  "tok_word tok i = take (nat (token_lens tok ! i)) (drop (i * MAX_TOKEN_LEN) (token_bytes tok))"

text \<open>The memory of a new tokenizer is zeroed before the 256 one-byte tokens are written.\<close>

definition fresh_tokenizer :: "int \<Rightarrow> tokenizer" where
  "fresh_tokenizer n =
     (let capacity = (if n > 256 then n else 256) in
      \<lparr>vocab_size = 256, tk_capacity = capacity,
       token_bytes = fold (\<lambda>i b. b[i * MAX_TOKEN_LEN := of_nat i]) [0..<256] (replicate (nat capacity * MAX_TOKEN_LEN) 0),
       token_lens = fold (\<lambda>i l. l[i := 1]) [0..<256] (replicate (nat capacity) 0),
       merges = [], merge_capacity = 0, special = no_special\<rparr>)"

definition SNEPPX_tokenizer_create :: "alloc_outcome \<Rightarrow> nat \<Rightarrow> int \<Rightarrow> tokenizer option \<times> nat" where
  "SNEPPX_tokenizer_create ok k n =
     (if \<not> ok k then (None, k + 1)
      else if \<not> ok (k + 1) \<or> \<not> ok (k + 2) then (None, k + 3)
      else (Some (fresh_tokenizer n), k + 3))"

definition SNEPPX_tokenizer_vocab_size :: "tokenizer option \<Rightarrow> int" where
  "SNEPPX_tokenizer_vocab_size tok = (case tok of None \<Rightarrow> 0 | Some t \<Rightarrow> vocab_size t)"

definition SNEPPX_tokenizer_special :: "tokenizer option \<Rightarrow> special_tokens" where
  "SNEPPX_tokenizer_special tok = (case tok of None \<Rightarrow> no_special | Some t \<Rightarrow> special t)"

definition SNEPPX_tokenizer_set_special :: "tokenizer option \<Rightarrow> special_tokens \<Rightarrow> tokenizer option" where
  "SNEPPX_tokenizer_set_special tok sp = map_option (\<lambda>t. t\<lparr>special := sp\<rparr>) tok"

text \<open>The first token with these bytes.\<close>

definition find_token :: "tokenizer \<Rightarrow> bytes \<Rightarrow> nat option" where
  "find_token tok bs =
     List.find (\<lambda>i. token_lens tok ! i = int (length bs) \<and> take (length bs) (drop (i * MAX_TOKEN_LEN) (token_bytes tok)) = bs)
       [0..<nat (vocab_size tok)]"

definition SNEPPX_tokenizer_add_token :: "tokenizer option \<Rightarrow> bytes \<Rightarrow> int \<Rightarrow> int \<times> tokenizer option" where
  "SNEPPX_tokenizer_add_token tok token i =
     (case tok of None \<Rightarrow> (- 1, None)
      | Some t \<Rightarrow>
          if i < 0 \<or> i \<ge> tk_capacity t then (- 1, tok)
          else let len = length token in
            if len > MAX_TOKEN_LEN - 1 \<or> find_token t token \<noteq> None then (0, tok)
            else let t = (if i \<ge> vocab_size t then t\<lparr>vocab_size := i + 1\<rparr> else t);
                     t = t\<lparr>token_bytes := put_bytes (token_bytes t) (nat i * MAX_TOKEN_LEN) (token @ [0])\<rparr> in
                 (0, Some (t\<lparr>token_lens := (token_lens t)[nat i := int len]\<rparr>)))"

section \<open>Encoding and decoding\<close>

definition byte_id :: "tokenizer \<Rightarrow> u8 \<Rightarrow> int" where
  "byte_id tok b =
     (case find_token tok [b] of Some i \<Rightarrow> int i
      | None \<Rightarrow> if unk_id (special tok) \<ge> 0 then unk_id (special tok) else sint b)"

text \<open>The loop of \<open>apply_merge\<close> at index \<open>i\<close>; after a merge the same index is looked at again.\<close>

function apply_merge :: "int \<Rightarrow> int \<Rightarrow> int \<Rightarrow> nat \<Rightarrow> int list \<Rightarrow> int list" where
  "apply_merge l r n i ids =
     (if i + 1 < length ids
      then if ids ! i = l \<and> ids ! (i + 1) = r then apply_merge l r n i (take i ids @ n # drop (i + 2) ids)
           else apply_merge l r n (i + 1) ids
      else ids)"
  by auto
termination by (relation "measure (\<lambda>(l, r, n, i, ids). length ids - i)") auto

declare apply_merge.simps [simp del]

definition merge_round :: "bpe_merge list \<Rightarrow> int list \<Rightarrow> int list" where
  "merge_round ms ids = fold (\<lambda>m. apply_merge (left_id m) (right_id m) (new_id m) 0) ms ids"

lemma length_apply_merge: "length (apply_merge l r n i ids) \<le> length ids"
proof (induction l r n i ids rule: apply_merge.induct)
  case (1 l r n i ids)
  show ?case
  proof (cases "i + 1 < length ids \<and> ids ! i = l \<and> ids ! (i + 1) = r")
    case True
    then have "length (apply_merge l r n i (take i ids @ n # drop (i + 2) ids)) \<le> length (take i ids @ n # drop (i + 2) ids)" using 1 by blast
    also have "\<dots> \<le> length ids" using True by auto
    finally show ?thesis using True by (subst apply_merge.simps) simp
  next
    case False
    then show ?thesis using 1(2) by (subst apply_merge.simps) auto
  qed
qed

text \<open>\<open>while (changed)\<close>: \<open>changed\<close> is set by every merge, and every merge shortens the array.\<close>

function encode_loop :: "bpe_merge list \<Rightarrow> int list \<Rightarrow> int list" where
  "encode_loop ms ids = (let ids' = merge_round ms ids in if length ids' < length ids then encode_loop ms ids' else ids')"
  by auto
termination by (relation "measure (\<lambda>(ms, ids). length ids)") auto

declare encode_loop.simps [simp del]

text \<open>The result is the number of identifiers; \<open>out_ids\<close> has at least \<open>max_len\<close> cells, of which the first ones are written.\<close>

definition SNEPPX_tokenizer_encode ::
  "alloc_outcome \<Rightarrow> nat \<Rightarrow> tokenizer option \<Rightarrow> bytes option \<Rightarrow> int list option \<Rightarrow> nat \<Rightarrow> int \<times> int list option" where
  "SNEPPX_tokenizer_encode ok k tok text out_ids max_len =
     (case (tok, text, out_ids) of
        (Some t, Some bs, Some out) \<Rightarrow>
          if max_len = 0 \<or> \<not> ok k \<or> \<not> ok (k + 1) then (- 1, out_ids)
          else let ids = encode_loop (merges t) (map (byte_id t) bs);
                   n = (if length ids < max_len then length ids else max_len) in
               (int (length ids), Some (take n ids @ drop n out))
      | _ \<Rightarrow> (- 1, out_ids))"

definition known_id :: "tokenizer \<Rightarrow> int \<Rightarrow> bool" where "known_id tok i \<longleftrightarrow> 0 \<le> i \<and> i < vocab_size tok"

text \<open>The buffer that is returned, without the final zero.\<close>

definition SNEPPX_tokenizer_decode :: "alloc_outcome \<Rightarrow> nat \<Rightarrow> tokenizer option \<Rightarrow> int list option \<Rightarrow> bytes option" where
  "SNEPPX_tokenizer_decode ok k tok ids =
     (case (tok, ids) of
        (Some t, Some is) \<Rightarrow>
          if is = [] \<or> \<not> ok k then None
          else Some (concat (map (\<lambda>i. tok_word t (nat i)) (filter (known_id t) is)))
      | _ \<Rightarrow> None)"

section \<open>Training\<close>

definition text_to_ids_bytewise :: "alloc_outcome \<Rightarrow> nat \<Rightarrow> tokenizer \<Rightarrow> bytes \<Rightarrow> int list option \<times> nat" where
  "text_to_ids_bytewise ok k tok text =
     (if \<not> ok k then (None, k + 1)
      else if \<not> ok (k + 1) then (None, k + 2)
      else (Some (map (\<lambda>b. case find_token tok [b] of Some i \<Rightarrow> int i | None \<Rightarrow> uint b) text), k + 2))"

text \<open>The array \<open>pair_counts\<close> is the function from its indices to the counts.\<close>

definition count_pair :: "nat \<Rightarrow> int \<times> int \<Rightarrow> (nat \<Rightarrow> nat) \<Rightarrow> nat \<Rightarrow> nat" where
  "count_pair max_id = (\<lambda>(l, r) c.
     if 0 \<le> l \<and> l < int max_id \<and> 0 \<le> r \<and> r < int max_id then c(nat l * max_id + nat r := c (nat l * max_id + nat r) + 1) else c)"

definition count_pairs :: "int list list \<Rightarrow> nat \<Rightarrow> nat \<Rightarrow> nat" where
  "count_pairs corpus max_id = fold (\<lambda>ids. fold (count_pair max_id) (zip ids (tl ids))) corpus (\<lambda>_. 0)"

text \<open>The two loops that look for the most frequent pair: the count, and the pair once one was counted.\<close>

definition best_pair :: "(nat \<Rightarrow> nat) \<Rightarrow> nat \<Rightarrow> nat \<times> (nat \<times> nat) option" where
  "best_pair counts dim =
     fold (\<lambda>(l, r) (best, p). if counts (l * dim + r) > best then (counts (l * dim + r), Some (l, r)) else (best, p))
       (List.product [0..<dim] [0..<dim]) (0, None)"

definition write_token :: "tokenizer \<Rightarrow> nat \<Rightarrow> bytes \<Rightarrow> tokenizer run" where
  "write_token tok i bs =
     (if i * MAX_TOKEN_LEN + length bs + 1 \<le> length (token_bytes tok)
      then Inr (tok\<lparr>token_bytes := put_bytes (token_bytes tok) (i * MAX_TOKEN_LEN) (bs @ [0]), token_lens := (token_lens tok)[i := int (length bs)],
                 vocab_size := vocab_size tok + 1\<rparr>)
      else Inl Out_Of_Bounds)"

text \<open>The loop over the merges; \<open>cur\<close> is \<open>current_max_id\<close>. Every \<open>break\<close> ends it with the tokenizer as it is.\<close>

fun train_loop :: "alloc_outcome \<Rightarrow> nat \<Rightarrow> nat \<Rightarrow> nat \<Rightarrow> tokenizer \<Rightarrow> int list list \<Rightarrow> tokenizer run" where
  "train_loop ok k 0 cur tok corpus = Inr tok"
| "train_loop ok k (Suc m) cur tok corpus =
     (if \<not> ok k then Inr tok
      else case best_pair (count_pairs corpus cur) cur of
        (_, None) \<Rightarrow> Inr tok
      | (_, Some (l, r)) \<Rightarrow>
          let new = nat (vocab_size tok) in
          if vocab_size tok \<ge> tk_capacity tok then Inr tok
          else bind_run (write_token tok new (tok_word tok l @ tok_word tok r)) (\<lambda>tok.
            let full = length (merges tok) \<ge> merge_capacity tok in
            if full \<and> \<not> ok (k + 1) then Inr tok
            else let tok = (if full then tok\<lparr>merge_capacity := (if merge_capacity tok \<noteq> 0 then merge_capacity tok * 2 else 1024)\<rparr> else tok);
                     tok = tok\<lparr>merges := merges tok @ [\<lparr>left_id = int l, right_id = int r, new_id = int new\<rparr>]\<rparr> in
                 train_loop ok (if full then k + 2 else k + 1) m (new + 1) tok (map (apply_merge (int l) (int r) (int new) 0) corpus)))"

fun all_ids :: "alloc_outcome \<Rightarrow> nat \<Rightarrow> tokenizer \<Rightarrow> bytes list \<Rightarrow> int list list option \<times> nat" where
  "all_ids ok k tok [] = (Some [], k)"
| "all_ids ok k tok (t # ts) =
     (case text_to_ids_bytewise ok k tok t of
        (None, k) \<Rightarrow> (None, k)
      | (Some ids, k) \<Rightarrow> (case all_ids ok k tok ts of (None, k) \<Rightarrow> (None, k) | (Some c, k) \<Rightarrow> (Some (ids # c), k)))"

text \<open>The conversion to \<open>int\<close> and arithmetic on the result, at the width of an \<open>int\<close>.\<close>

definition as_int :: "int \<Rightarrow> int" where "as_int i = sint (word_of_int i :: 32 word)"

definition SNEPPX_tokenizer_train_bpe :: "alloc_outcome \<Rightarrow> nat \<Rightarrow> bytes list option \<Rightarrow> nat \<Rightarrow> tokenizer option run" where
  "SNEPPX_tokenizer_train_bpe ok k texts target_vocab =
     (case texts of None \<Rightarrow> Inr None
      | Some ts \<Rightarrow>
          if ts = [] \<or> target_vocab \<le> 256 then Inr None
          else case SNEPPX_tokenizer_create ok k (as_int (as_int (int target_vocab) + 256)) of
            (None, _) \<Rightarrow> Inr None
          | (Some tok, k) \<Rightarrow>
              if \<not> ok k then Inr None
              else case all_ids ok (k + 1) tok ts of
                (None, _) \<Rightarrow> Inr None
              | (Some corpus, k) \<Rightarrow>
                  let max_merges = as_int (as_int (int target_vocab) - 256) in
                  bind_run (train_loop ok k (nat max_merges) 256 tok corpus) (\<lambda>tok. Inr (Some tok)))"

section \<open>Files\<close>

definition int_bytes :: "int \<Rightarrow> bytes" where "int_bytes i = le32_bytes (word_of_int i)"

text \<open>The bytes of every call of \<open>fwrite\<close>, in order.\<close>

definition save_items :: "tokenizer \<Rightarrow> bytes list" where
  "save_items tok =
     [le32_bytes 0x4250544F, int_bytes (vocab_size tok), int_bytes (int (length (merges tok))),
      (let s = special tok in int_bytes (pad_id s) @ int_bytes (bos_id s) @ int_bytes (eos_id s) @ int_bytes (unk_id s))] @
     concat (map (\<lambda>i. int_bytes (token_lens tok ! i) # (if token_lens tok ! i > 0 then [tok_word tok i] else [])) [0..<nat (vocab_size tok)]) @
     concat (map (\<lambda>m. [int_bytes (left_id m), int_bytes (right_id m), int_bytes (new_id m)]) (merges tok))"

text \<open>The return code and the file that is written. The path is \<open>None\<close> for \<open>NULL\<close>, \<open>Some None\<close> when \<open>fopen\<close> fails, else it has the outcomes of the
  writes, which the code does not look at.\<close>

definition SNEPPX_tokenizer_save :: "tokenizer option \<Rightarrow> io_outcome option option \<Rightarrow> int \<times> bytes option" where
  "SNEPPX_tokenizer_save tok path =
     (case (tok, path) of
        (Some tok, Some (Some io)) \<Rightarrow> (0, Some (fwrites io 0 (save_items tok)))
      | _ \<Rightarrow> (- 1, None))"

text \<open>\<open>fread\<close> of an \<open>int\<close>: the value and the rest of the file, or \<open>None\<close> when it is too short.\<close>

definition read_int :: "bytes \<Rightarrow> (int \<times> bytes) option" where
  "read_int f = (if length f < 4 then None else Some (sint (le32 f 0), drop 4 f))"

text \<open>The loop over the tokens. A short read ends it with \<open>None\<close>; the bytes of a token are written where its number says.\<close>

fun load_tokens :: "nat list \<Rightarrow> tokenizer \<Rightarrow> bytes \<Rightarrow> (tokenizer \<times> bytes) option run" where
  "load_tokens [] tok f = Inr (Some (tok, f))"
| "load_tokens (i # is) tok f =
     (case read_int f of None \<Rightarrow> Inr None
      | Some (len, f) \<Rightarrow>
          let tok = tok\<lparr>token_lens := (token_lens tok)[i := len]\<rparr>; n = nat len; got = take n f in
          if len > 0 \<and> i * MAX_TOKEN_LEN + length got > length (token_bytes tok) then Inl Out_Of_Bounds
          else if len > 0 \<and> length f < n then Inr None
          else load_tokens is (if len > 0 then tok\<lparr>token_bytes := put_bytes (token_bytes tok) (i * MAX_TOKEN_LEN) got\<rparr> else tok) (drop n f))"

fun load_merges :: "alloc_outcome \<Rightarrow> nat \<Rightarrow> nat \<Rightarrow> tokenizer \<Rightarrow> bytes \<Rightarrow> tokenizer option" where
  "load_merges ok k 0 tok f = Some tok"
| "load_merges ok k (Suc n) tok f =
     (case read_int f of None \<Rightarrow> None
      | Some (l, f) \<Rightarrow> case read_int f of None \<Rightarrow> None
      | Some (r, f) \<Rightarrow> case read_int f of None \<Rightarrow> None
      | Some (i, f) \<Rightarrow>
          let full = length (merges tok) \<ge> merge_capacity tok in
          if full \<and> \<not> ok k then Some tok
          else let tok = (if full then tok\<lparr>merge_capacity := (if merge_capacity tok \<noteq> 0 then merge_capacity tok * 2 else 1024)\<rparr> else tok) in
            load_merges ok (if full then k + 1 else k) n (tok\<lparr>merges := merges tok @ [\<lparr>left_id = l, right_id = r, new_id = i\<rparr>]\<rparr>) f)"

text \<open>A short read of the special tokens is not noticed: the bytes that are missing stay as they were, those of four times \<open>-1\<close>.\<close>

definition load_special :: "bytes \<Rightarrow> special_tokens \<times> bytes" where
  "load_special f =
     (let b = put_bytes (replicate 16 0xff) 0 (take 16 f) in
      (\<lparr>pad_id = sint (le32 b 0), bos_id = sint (le32 b 4), eos_id = sint (le32 b 8), unk_id = sint (le32 b 12)\<rparr>, drop 16 f))"

text \<open>The argument is \<open>None\<close> for a path that is \<open>NULL\<close> or cannot be opened, else the file.\<close>

definition SNEPPX_tokenizer_load :: "alloc_outcome \<Rightarrow> nat \<Rightarrow> bytes option \<Rightarrow> tokenizer option run" where
  "SNEPPX_tokenizer_load ok k path =
     (case path of None \<Rightarrow> Inr None | Some f \<Rightarrow>
      if length f < 4 \<or> le32 f 0 \<noteq> 0x4250544F then Inr None
      else case read_int (drop 4 f) of None \<Rightarrow> Inr None
      | Some (vs, f) \<Rightarrow> case read_int f of None \<Rightarrow> Inr None
      | Some (nm, f) \<Rightarrow> case SNEPPX_tokenizer_create ok k (if vs > 256 then vs else 256) of
          (None, _) \<Rightarrow> Inr None
        | (Some tok, k) \<Rightarrow>
            let (sp, f) = load_special f; tok = tok\<lparr>special := sp, vocab_size := vs\<rparr> in
            bind_run (load_tokens [0..<nat vs] tok f) (\<lambda>r.
            case r of None \<Rightarrow> Inr None | Some (tok, f) \<Rightarrow> Inr (load_merges ok k (nat nm) tok f)))"

section \<open>Well-formed vocabularies\<close>

text \<open>Every token fits its row, the first 256 tokens are the bytes, and every merge replaces two tokens by one with the same bytes.\<close>

definition tok_wf :: "tokenizer \<Rightarrow> bool" where
  "tok_wf t \<longleftrightarrow> 256 \<le> vocab_size t \<and> vocab_size t \<le> tk_capacity t \<and> length (token_bytes t) = nat (tk_capacity t) * 256 \<and>
     length (token_lens t) = nat (tk_capacity t) \<and> (\<forall>i < nat (vocab_size t). 0 \<le> token_lens t ! i \<and> token_lens t ! i \<le> 255) \<and>
     (\<forall>i < 256. tok_word t i = [of_nat i]) \<and>
     (\<forall>m \<in> set (merges t). known_id t (left_id m) \<and> known_id t (right_id m) \<and> known_id t (new_id m) \<and>
        tok_word t (nat (new_id m)) = tok_word t (nat (left_id m)) @ tok_word t (nat (right_id m)))"

definition spell :: "tokenizer \<Rightarrow> int list \<Rightarrow> bytes" where
  "spell t ids = concat (map (\<lambda>i. tok_word t (nat i)) ids)"

lemma spell_simps [simp]: "spell t [] = []" "spell t (i # ids) = tok_word t (nat i) @ spell t ids" "spell t (a @ b) = spell t a @ spell t b"
  by (simp_all add: spell_def)

lemma length_tok_word:
  assumes "tok_wf t" "i < nat (vocab_size t)"
  shows "length (tok_word t i) = nat (token_lens t ! i)" "length (tok_word t i) \<le> 255" "i * 256 + 256 \<le> length (token_bytes t)"
proof -
  have l: "0 \<le> token_lens t ! i" "token_lens t ! i \<le> 255" and c: "i < nat (tk_capacity t)" "length (token_bytes t) = nat (tk_capacity t) * 256"
    using assms by (auto simp: tok_wf_def)
  have "(i + 1) * 256 \<le> nat (tk_capacity t) * 256" using c(1) by (intro mult_le_mono1) simp
  then show room: "i * 256 + 256 \<le> length (token_bytes t)" using c(2) by simp
  then show "length (tok_word t i) = nat (token_lens t ! i)" "length (tok_word t i) \<le> 255"
    using l by (simp_all add: tok_word_def MAX_TOKEN_LEN_def)
qed

lemma wf_vocab: "tok_wf t \<Longrightarrow> 256 \<le> nat (vocab_size t)" "tok_wf t \<Longrightarrow> int (nat (vocab_size t)) = vocab_size t"
  unfolding tok_wf_def by linarith+

lemma find_byte:
  assumes t: "tok_wf t" shows "find_token t [b] = Some (unat b)"
proof -
  have w: "token_lens t ! i = 1 \<and> take 1 (drop (i * 256) (token_bytes t)) = [of_nat i]" if i: "i < 256" for i
  proof -
    have v: "i < nat (vocab_size t)" using wf_vocab(1) [OF t] i by simp
    have word: "tok_word t i = [of_nat i]" using t i by (simp add: tok_wf_def)
    then have "nat (token_lens t ! i) = 1" using length_tok_word(1) [OF t v] by simp
    then show ?thesis using word by (auto simp: tok_word_def MAX_TOKEN_LEN_def)
  qed
  have n: "unat b < 256" using unsigned_less [of b, where 'a = nat] by simp
  note v = wf_vocab(1) [OF t]
  have inj: "(of_nat j :: u8) \<noteq> b" if "j < unat b" for j
  proof
    assume "of_nat j = b"
    then have "unat (of_nat j :: u8) = unat b" by simp
    then show False using that n by (simp add: unat_of_nat)
  qed
  show ?thesis unfolding find_token_def find_Some_iff
    using w [OF n] n v inj w by (intro exI [of _ "unat b"]) (auto simp: MAX_TOKEN_LEN_def)
qed

lemma byte_ids:
  assumes t: "tok_wf t" shows "byte_id t b = uint b" "tok_word t (unat b) = [b]" "known_id t (uint b)"
proof -
  have n: "unat b < 256" using unsigned_less [of b, where 'a = nat] by simp
  have u: "uint b = int (unat b)" by simp
  show "byte_id t b = uint b" using find_byte [OF t] by (simp add: byte_id_def)
  show "tok_word t (unat b) = [b]" using t n by (simp add: tok_wf_def)
  show "known_id t (uint b)" using wf_vocab [OF t] n unfolding u known_id_def by linarith
qed

lemma spell_bytes: "tok_wf t \<Longrightarrow> spell t (map uint bs) = bs \<and> list_all (known_id t) (map uint bs)"
  by (induction bs) (simp_all add: byte_ids)

section \<open>Encoding keeps the text\<close>

lemma apply_merge_keeps:
  assumes "tok_word t (nat n) = tok_word t (nat l) @ tok_word t (nat r)" "known_id t n" "list_all (known_id t) ids"
  shows "spell t (apply_merge l r n i ids) = spell t ids \<and> list_all (known_id t) (apply_merge l r n i ids) \<and> (ids \<noteq> [] \<longrightarrow> apply_merge l r n i ids \<noteq> [])"
  using assms
proof (induction l r n i ids rule: apply_merge.induct)
  case (1 l r n i ids)
  show ?case
  proof (cases "i + 1 < length ids \<and> ids ! i = l \<and> ids ! (i + 1) = r")
    case True
    let ?ids = "take i ids @ n # drop (i + 2) ids"
    have split: "ids = take i ids @ l # r # drop (i + 2) ids"
      using True id_take_nth_drop [of i ids] Cons_nth_drop_Suc [of "i + 1" ids] by simp
    have "spell t ids = spell t (take i ids @ l # r # drop (i + 2) ids)" using split by simp
    also have "\<dots> = spell t ?ids" using 1(3) by simp
    finally have sp: "spell t ?ids = spell t ids" by simp
    have "list_all (known_id t) ?ids" using 1(4,5) by (auto simp: list_all_iff dest: in_set_takeD in_set_dropD)
    then have "spell t (apply_merge l r n i ?ids) = spell t ?ids \<and> list_all (known_id t) (apply_merge l r n i ?ids) \<and> apply_merge l r n i ?ids \<noteq> []"
      using 1(1) 1(3,4) True by blast
    moreover have "apply_merge l r n i ids = apply_merge l r n i ?ids" using True by (subst apply_merge.simps) simp
    ultimately show ?thesis using sp by simp
  next
    case False
    then show ?thesis using 1(2-5) by (subst (1 2 3) apply_merge.simps) auto
  qed
qed

lemma merge_round_keeps:
  assumes "\<forall>m \<in> set ms. known_id t (new_id m) \<and> tok_word t (nat (new_id m)) = tok_word t (nat (left_id m)) @ tok_word t (nat (right_id m))"
    "list_all (known_id t) ids"
  shows "spell t (merge_round ms ids) = spell t ids \<and> list_all (known_id t) (merge_round ms ids) \<and> (ids \<noteq> [] \<longrightarrow> merge_round ms ids \<noteq> [])"
  using assms unfolding merge_round_def
proof (induction ms arbitrary: ids)
  case (Cons m ms)
  then show ?case using apply_merge_keeps [of t "new_id m" "left_id m" "right_id m" ids 0] by simp
qed simp

lemma length_merge_round: "length (merge_round ms ids) \<le> length ids"
  unfolding merge_round_def
proof (induction ms arbitrary: ids)
  case (Cons m ms)
  show ?case using Cons [of "apply_merge (left_id m) (right_id m) (new_id m) 0 ids"] length_apply_merge by (fastforce intro: order.trans)
qed simp

lemma encode_loop_keeps:
  assumes "tok_wf t" "list_all (known_id t) ids"
  shows "spell t (encode_loop (merges t) ids) = spell t ids \<and> list_all (known_id t) (encode_loop (merges t) ids) \<and>
    (ids \<noteq> [] \<longrightarrow> encode_loop (merges t) ids \<noteq> []) \<and> length (encode_loop (merges t) ids) \<le> length ids"
  using assms(2)
proof (induction "length ids" arbitrary: ids rule: less_induct)
  case less
  let ?ids = "merge_round (merges t) ids"
  have r: "spell t ?ids = spell t ids" "list_all (known_id t) ?ids" "ids \<noteq> [] \<longrightarrow> ?ids \<noteq> []"
    using merge_round_keeps [of "merges t" t ids] assms(1) less.prems by (auto simp: tok_wf_def)
  have le: "length ?ids \<le> length ids" by (rule length_merge_round)
  show ?case using less.hyps [of ?ids] r le by (subst (1 2 3 4) encode_loop.simps) (auto simp: Let_def)
qed

lemma encode_spells:
  assumes "tok_wf t" "0 < length bs" "length bs \<le> max_len" "ok k" "ok (k + 1)"
  obtains n ids where "SNEPPX_tokenizer_encode ok k (Some t) (Some bs) (Some out) max_len = (int n, Some (ids @ drop n out))" "length ids = n" "0 < n"
    "n \<le> length bs" "spell t ids = bs" "list_all (known_id t) ids"
proof -
  let ?ids = "encode_loop (merges t) (map uint bs)"
  have m: "map (byte_id t) bs = map uint bs" using byte_ids(1) [OF assms(1)] by simp
  have e: "spell t ?ids = bs" "list_all (known_id t) ?ids" "?ids \<noteq> []" "length ?ids \<le> length bs"
    using encode_loop_keeps [OF assms(1), of "map uint bs"] spell_bytes [OF assms(1), of bs] assms(2) by auto
  have "0 < max_len" using assms(2,3) by linarith
  then have n: "(if length ?ids < max_len then length ?ids else max_len) = length ?ids" "0 < max_len" using e(4) assms(3) by auto
  have "SNEPPX_tokenizer_encode ok k (Some t) (Some bs) (Some out) max_len = (int (length ?ids), Some (?ids @ drop (length ?ids) out))"
    unfolding SNEPPX_tokenizer_encode_def Let_def prod.case option.case m n using n(2) assms(4,5) by simp
  then show thesis using that e by blast
qed

lemma decode_spells: "list_all (known_id t) ids \<Longrightarrow> ids \<noteq> [] \<Longrightarrow> ok k \<Longrightarrow> SNEPPX_tokenizer_decode ok k (Some t) (Some ids) = Some (spell t ids)"
  by (simp add: SNEPPX_tokenizer_decode_def spell_def list_all_iff filter_id_conv)

section \<open>Training keeps the vocabulary well formed\<close>

lemma fold_rows:
  assumes "\<And>i. i < n \<Longrightarrow> f i < length z" "inj_on f {..<n}" "j < n"
  shows "fold (\<lambda>i b. b[f i := g i]) [0..<n] z ! f j = g j"
  using assms
proof (induction n)
  case (Suc n)
  have len: "length (fold (\<lambda>i b. b[f i := g i]) is z) = length z" for "is" by (induction "is" arbitrary: z) simp_all
  show ?case
  proof (cases "j = n")
    case False
    then have "f j \<noteq> f n" using Suc.prems(2,3) by (auto simp: inj_on_def)
    moreover have "inj_on f {..<n}" using Suc.prems(2) by (auto simp: inj_on_def)
    ultimately show ?thesis using Suc.IH Suc.prems(1,3) False by (simp add: less_Suc_eq)
  qed (use Suc.prems(1) len in simp)
qed simp

lemma length_fold_update: "length (fold (\<lambda>i b. b[f i := g i]) is z) = length z"
  by (induction "is" arbitrary: z) simp_all

lemma fresh_tokenizer_wf: "tok_wf (fresh_tokenizer n)"
proof -
  let ?t = "fresh_tokenizer n" and ?c = "nat (if n > 256 then n else 256)"
  have c: "256 \<le> ?c" "int ?c = (if n > 256 then n else 256)" by auto
  have f: "vocab_size ?t = 256" "tk_capacity ?t = int ?c" "merges ?t = []" "length (token_bytes ?t) = ?c * 256" "length (token_lens ?t) = ?c"
    by (auto simp: fresh_tokenizer_def Let_def length_fold_update MAX_TOKEN_LEN_def)
  have b: "token_bytes ?t ! (i * 256) = of_nat i" if "i < 256" for i
  proof -
    have "j * 256 < ?c * 256" if "j < 256" for j using that c(1) by linarith
    then show ?thesis using fold_rows [of 256 "\<lambda>i. i * 256" "replicate (?c * 256) 0" i of_nat] that
      by (simp add: fresh_tokenizer_def Let_def MAX_TOKEN_LEN_def inj_on_def)
  qed
  have l: "token_lens ?t ! i = 1" if "i < 256" for i
    using fold_rows [of 256 id "replicate ?c (0 :: int)" i "\<lambda>_. 1"] that c(1) by (simp add: fresh_tokenizer_def Let_def)
  have "tok_word ?t i = [of_nat i]" if i: "i < 256" for i
  proof -
    have "i * 256 < length (token_bytes ?t)" using f(4) c(1) i by simp
    then show ?thesis using b [OF i] l [OF i] by (simp add: tok_word_def MAX_TOKEN_LEN_def take_Suc_conv_app_nth hd_drop_conv_nth take_Suc)
  qed
  then show ?thesis using f l c by (auto simp: tok_wf_def)
qed

text \<open>Writing a new token leaves the others alone.\<close>

lemma take_drop_before_put:
  "s + n \<le> off \<Longrightarrow> off \<le> length b \<Longrightarrow> take n (drop s (put_bytes b off w)) = take n (drop s b)"
  by (simp add: put_bytes_def take_drop min_def)

lemma write_token_wf:
  assumes t: "tok_wf t" and room: "vocab_size t < tk_capacity t" and bs: "length bs \<le> 255" and n: "n = nat (vocab_size t)"
  obtains t' where "write_token t n bs = Inr t'" "tok_wf t'" "tok_word t' n = bs" "\<And>i. i < n \<Longrightarrow> tok_word t' i = tok_word t i"
    "vocab_size t' = vocab_size t + 1" "tk_capacity t' = tk_capacity t" "merges t' = merges t"
proof -
  have c: "n < nat (tk_capacity t)" "length (token_bytes t) = nat (tk_capacity t) * 256" "length (token_lens t) = nat (tk_capacity t)"
    using t room n by (auto simp: tok_wf_def)
  have "(n + 1) * 256 \<le> nat (tk_capacity t) * 256" using c(1) by (intro mult_le_mono1) simp
  then have fits: "n * 256 + 256 \<le> length (token_bytes t)" using c(2) by simp
  let ?t = "t\<lparr>token_bytes := put_bytes (token_bytes t) (n * MAX_TOKEN_LEN) (bs @ [0]), token_lens := (token_lens t)[n := int (length bs)], vocab_size := vocab_size t + 1\<rparr>"
  have w: "write_token t n bs = Inr ?t" using fits bs by (simp add: write_token_def MAX_TOKEN_LEN_def)
  have new: "tok_word ?t n = bs" using fits c by (simp add: tok_word_def MAX_TOKEN_LEN_def put_bytes_def)
  have old: "tok_word ?t i = tok_word t i" if i: "i < n" for i
  proof -
    have l: "nat (token_lens t ! i) \<le> 255" using t i n by (simp add: tok_wf_def nat_le_iff)
    have "(i + 1) * 256 \<le> n * 256" using i by (intro mult_le_mono1) simp
    then have "i * 256 + nat (token_lens t ! i) \<le> n * 256" using l by simp
    moreover have "n * 256 \<le> length (token_bytes t)" using fits by simp
    ultimately have "take (nat (token_lens t ! i)) (drop (i * 256) (put_bytes (token_bytes t) (n * 256) (bs @ [0]))) =
        take (nat (token_lens t ! i)) (drop (i * 256) (token_bytes t))" by (rule take_drop_before_put)
    then show ?thesis using i by (simp add: tok_word_def MAX_TOKEN_LEN_def)
  qed
  have v: "256 \<le> n" "int n = vocab_size t" using wf_vocab [OF t] n by simp_all
  have k: "known_id ?t i \<and> nat i < n" if "known_id t i" for i using that v n by (simp add: known_id_def nat_less_iff)
  have "tok_wf ?t"
    unfolding tok_wf_def
  proof (intro conjI allI impI ballI)
    fix i assume "i < nat (vocab_size ?t)"
    then have i: "i < n \<or> i = n" using v by auto
    show "0 \<le> token_lens ?t ! i" "token_lens ?t ! i \<le> 255" using i t n c bs by (auto simp: tok_wf_def)
  next
    fix i :: nat assume "i < 256"
    then show "tok_word ?t i = [of_nat i]" using old t v by (simp add: tok_wf_def)
  next
    fix m assume "m \<in> set (merges ?t)"
    then have m: "known_id t (left_id m)" "known_id t (right_id m)" "known_id t (new_id m)"
      "tok_word t (nat (new_id m)) = tok_word t (nat (left_id m)) @ tok_word t (nat (right_id m))" using t by (auto simp: tok_wf_def)
    show "known_id ?t (left_id m)" "known_id ?t (right_id m)" "known_id ?t (new_id m)" using k m by auto
    show "tok_word ?t (nat (new_id m)) = tok_word ?t (nat (left_id m)) @ tok_word ?t (nat (right_id m))" using old k m by simp
  qed (use t room fits bs in \<open>simp_all add: tok_wf_def MAX_TOKEN_LEN_def\<close>)
  then show thesis using that w new old by simp
qed

text \<open>A pair that was counted stands in some text.\<close>

lemma counted_in:
  assumes "fold (count_pair dim) ps c x > 0"
  shows "c x > 0 \<or> (\<exists>(l, r) \<in> set ps. 0 \<le> l \<and> l < int dim \<and> 0 \<le> r \<and> r < int dim \<and> x = nat l * dim + nat r)"
  using assms
proof (induction ps arbitrary: c)
  case (Cons p ps)
  then have "count_pair dim p c x > 0 \<or> (\<exists>(l, r) \<in> set ps. 0 \<le> l \<and> l < int dim \<and> 0 \<le> r \<and> r < int dim \<and> x = nat l * dim + nat r)" by simp
  then show ?case by (cases p) (auto simp: count_pair_def split: if_splits)
qed simp

lemma count_pairs_in:
  assumes "count_pairs corpus dim x > 0"
  obtains ids l r where "ids \<in> set corpus" "(l, r) \<in> set (zip ids (tl ids))" "0 \<le> l" "l < int dim" "0 \<le> r" "r < int dim" "x = nat l * dim + nat r"
proof -
  have "c x > 0 \<or> (\<exists>ids \<in> set corpus. \<exists>(l, r) \<in> set (zip ids (tl ids)). 0 \<le> l \<and> l < int dim \<and> 0 \<le> r \<and> r < int dim \<and> x = nat l * dim + nat r)"
    if "fold (\<lambda>ids. fold (count_pair dim) (zip ids (tl ids))) corpus c x > 0" for c
    using that
  proof (induction corpus arbitrary: c)
    case (Cons ids corpus)
    then have "fold (count_pair dim) (zip ids (tl ids)) c x > 0 \<or> (\<exists>ids \<in> set corpus. \<exists>(l, r) \<in> set (zip ids (tl ids)). 0 \<le> l \<and> l < int dim \<and> 0 \<le> r \<and> r < int dim \<and> x = nat l * dim + nat r)"
      by simp
    then show ?case using counted_in [of dim "zip ids (tl ids)" c x] by auto
  qed simp
  from this [of "\<lambda>_. 0"] assms show thesis using that by (auto simp: count_pairs_def)
qed

lemma best_pair_counted:
  assumes "best_pair counts dim = (best, Some (l, r))"
  shows "counts (l * dim + r) > 0 \<and> l < dim \<and> r < dim"
proof -
  define f where "f = (\<lambda>(l, r) (best, p). if counts (l * dim + r) > best then (counts (l * dim + r), Some (l, r)) else (best, p))"
  define good where "good = (\<lambda>s :: nat \<times> (nat \<times> nat) option. \<forall>l r. snd s = Some (l, r) \<longrightarrow> counts (l * dim + r) > 0 \<and> l < dim \<and> r < dim)"
  have step: "good (f p s)" if "fst p < dim" "snd p < dim" "good s" for p s
    using that unfolding f_def good_def by (cases p; cases s) (simp split: if_split)
  have "good (fold f ps s)" if "\<forall>p \<in> set ps. fst p < dim \<and> snd p < dim" "good s" for ps s
    using that by (induction ps arbitrary: s) (simp_all add: step)
  moreover have "\<forall>p \<in> set (List.product [0..<dim] [0..<dim]). fst p < dim \<and> snd p < dim" by auto
  moreover have "good (0, None)" by (simp add: good_def)
  ultimately have "good (fold f (List.product [0..<dim] [0..<dim]) (0, None))" by blast
  then show ?thesis using assms by (simp add: best_pair_def f_def good_def)
qed

lemma adjacent_spelled:
  assumes "(l, r) \<in> set (zip ids (tl ids))"
  shows "length (tok_word t (nat l)) + length (tok_word t (nat r)) \<le> length (spell t ids)"
  using assms
proof (induction ids)
  case (Cons i ids)
  then show ?case by (cases ids) auto
qed simp

definition corpus_ok :: "tokenizer \<Rightarrow> int list list \<Rightarrow> bool" where
  "corpus_ok t corpus \<longleftrightarrow> (\<forall>ids \<in> set corpus. list_all (known_id t) ids \<and> length (spell t ids) \<le> 255)"

lemma spell_cong:
  assumes "\<And>i. i < nat (vocab_size t) \<Longrightarrow> tok_word t' i = tok_word t i" "list_all (known_id t) ids"
  shows "spell t' ids = spell t ids"
  unfolding spell_def using assms by (intro arg_cong [where f = concat] map_cong) (auto simp: list_all_iff known_id_def)

text \<open>Fields the loop changes apart from the vocabulary.\<close>

lemma tok_wf_merge:
  assumes "tok_wf t" "known_id t l" "known_id t r" "known_id t n" "tok_word t (nat n) = tok_word t (nat l) @ tok_word t (nat r)"
  shows "tok_wf (t\<lparr>merge_capacity := c, merges := merges t @ [\<lparr>left_id = l, right_id = r, new_id = n\<rparr>]\<rparr>)"
    "tok_wf (t\<lparr>merges := merges t @ [\<lparr>left_id = l, right_id = r, new_id = n\<rparr>]\<rparr>)"
  using assms by (auto simp: tok_wf_def tok_word_def known_id_def)

text \<open>The pair that is merged fits a row of the vocabulary.\<close>

lemma best_pair_fits:
  assumes bp: "best_pair (count_pairs corpus cur) cur = (best, Some (l, r))" and c: "corpus_ok t corpus"
  shows "l < cur \<and> r < cur \<and> length (tok_word t l @ tok_word t r) \<le> 255"
proof -
  note b = best_pair_counted [OF bp]
  obtain ids l' r' where ids: "ids \<in> set corpus" "(l', r') \<in> set (zip ids (tl ids))" "0 \<le> l'" "l' < int cur" "0 \<le> r'" "r' < int cur" "l * cur + r = nat l' * cur + nat r'"
    using b by (auto elim: count_pairs_in)
  have "nat l' = l" "nat r' = r" using index_unique [OF ids(7)] b ids(6) by auto
  then show ?thesis using adjacent_spelled [OF ids(2), of t] c ids(1) b by (auto simp: corpus_ok_def)
qed

lemma train_loop_wf:
  assumes "tok_wf t" "cur = nat (vocab_size t)" "corpus_ok t corpus"
  shows "\<exists>t'. train_loop ok k m cur t corpus = Inr t' \<and> tok_wf t'"
  using assms
proof (induction m arbitrary: k cur t corpus)
  case (Suc m)
  obtain best p where bp: "best_pair (count_pairs corpus cur) cur = (best, p)" by (cases "best_pair (count_pairs corpus cur) cur")
  show ?case
  proof (cases "ok k \<and> p \<noteq> None \<and> vocab_size t < tk_capacity t")
    case False
    then show ?thesis using Suc.prems(1) bp by (auto split: option.split)
  next
    case True
    then obtain l r where p: "p = Some (l, r)" by auto
    note b = best_pair_fits [OF bp [unfolded p] Suc.prems(3)]
    let ?n = "nat (vocab_size t)"
    obtain t1 where t1: "write_token t ?n (tok_word t l @ tok_word t r) = Inr t1" "tok_wf t1" "tok_word t1 ?n = tok_word t l @ tok_word t r"
      "\<And>i. i < ?n \<Longrightarrow> tok_word t1 i = tok_word t i" "vocab_size t1 = vocab_size t + 1" "merges t1 = merges t"
      using write_token_wf [OF Suc.prems(1), of "tok_word t l @ tok_word t r" ?n] b True by metis
    have v: "int ?n = vocab_size t" by (rule wf_vocab(2) [OF Suc.prems(1)])
    have known: "known_id t1 (int l)" "known_id t1 (int r)" "known_id t1 (int ?n)" "\<And>i. known_id t i \<Longrightarrow> known_id t1 i"
      using b Suc.prems(2) t1(5) v by (auto simp: known_id_def)
    have word: "tok_word t1 (nat (int ?n)) = tok_word t1 (nat (int l)) @ tok_word t1 (nat (int r))" using t1(3,4) b Suc.prems(2) by (simp only: nat_int)
    define t2 where "t2 = (if length (merges t1) \<ge> merge_capacity t1
      then t1\<lparr>merge_capacity := (if merge_capacity t1 \<noteq> 0 then merge_capacity t1 * 2 else 1024)\<rparr> else t1)"
    define t3 where "t3 = t2\<lparr>merges := merges t2 @ [\<lparr>left_id = int l, right_id = int r, new_id = int ?n\<rparr>]\<rparr>"
    have t3: "tok_wf t3" "vocab_size t3 = vocab_size t1" "tok_word t3 = tok_word t1"
      using tok_wf_merge [OF t1(2) known(1-3) word] by (auto simp: t3_def t2_def tok_word_def fun_eq_iff)
    have same: "spell t3 = spell t1" "known_id t3 = known_id t1" using t3(2,3) by (simp_all add: fun_eq_iff spell_def known_id_def)
    let ?c = "map (apply_merge (int l) (int r) (int ?n) 0) corpus"
    have "corpus_ok t3 ?c"
      unfolding corpus_ok_def
    proof (clarsimp simp only: set_map ball_simps)
      fix ids assume ids: "ids \<in> set corpus"
      have i: "list_all (known_id t) ids" "length (spell t ids) \<le> 255" using Suc.prems(3) ids by (auto simp: corpus_ok_def)
      have sp: "spell t1 ids = spell t ids" using spell_cong [of t t1 ids] t1(4) i(1) by blast
      have "list_all (known_id t1) ids" using i(1) known(4) by (auto simp: list_all_iff)
      from apply_merge_keeps [OF word known(3) this, of 0] sp i(2)
      show "list_all (known_id t3) (apply_merge (int l) (int r) (int ?n) 0 ids) \<and> length (spell t3 (apply_merge (int l) (int r) (int ?n) 0 ids)) \<le> 255"
        by (simp add: same)
    qed
    moreover have "?n + 1 = nat (vocab_size t3)" using t3(2) t1(5) v by linarith
    ultimately have "\<exists>t'. train_loop ok k' m (?n + 1) t3 ?c = Inr t' \<and> tok_wf t'" for k' using Suc.IH t3(1) by blast
    moreover have "train_loop ok k (Suc m) cur t corpus = (if length (merges t1) \<ge> merge_capacity t1 \<and> \<not> ok (k + 1) then Inr t1
        else train_loop ok (if length (merges t1) \<ge> merge_capacity t1 then k + 2 else k + 1) m (?n + 1) t3 ?c)"
      using True bp p t1(1) by (simp add: Let_def t2_def t3_def)
    ultimately show ?thesis using t1(2) by simp
  qed
qed simp

lemma all_ids_ok:
  assumes "tok_wf t"
  shows "all_ids ok k t ts = (Some corpus, k') \<Longrightarrow> corpus = map (map uint) ts"
  using find_byte [OF assms]
  by (induction ts arbitrary: k corpus) (auto simp: text_to_ids_bytewise_def split: if_splits option.splits prod.splits)

lemma train_bpe_wf:
  assumes "\<forall>t \<in> set ts. length t \<le> 255"
  shows "\<exists>r. SNEPPX_tokenizer_train_bpe ok k (Some ts) target = Inr r \<and> (\<forall>tok. r = Some tok \<longrightarrow> tok_wf tok)"
proof -
  let ?n = "as_int (as_int (int target) + 256)" and ?m = "nat (as_int (as_int (int target) - 256))"
  let ?t = "fresh_tokenizer ?n"
  note w = fresh_tokenizer_wf [of ?n]
  have v: "256 = nat (vocab_size ?t)" by (simp add: fresh_tokenizer_def Let_def)
  have "corpus_ok ?t (map (map uint) ts)" using assms spell_bytes [OF w] by (auto simp: corpus_ok_def)
  then have loop: "\<exists>t'. train_loop ok k' m 256 ?t (map (map uint) ts) = Inr t' \<and> tok_wf t'" for k' m
    using train_loop_wf [OF w v] by blast
  show ?thesis
  proof (cases "ts = [] \<or> target \<le> 256 \<or> \<not> ok k \<or> \<not> ok (k + 1) \<or> \<not> ok (k + 2) \<or> \<not> ok (k + 3)")
    case False
    obtain c k' where c: "all_ids ok (k + 3 + 1) ?t ts = (c, k')" by fastforce
    show ?thesis
    proof (cases c)
      case (Some corpus)
      then have "corpus = map (map uint) ts" using all_ids_ok [OF w] c by blast
      then show ?thesis using False c Some loop [of k' ?m] by (auto simp: SNEPPX_tokenizer_train_bpe_def SNEPPX_tokenizer_create_def)
    qed (use False c in \<open>simp add: SNEPPX_tokenizer_train_bpe_def SNEPPX_tokenizer_create_def\<close>)
  qed (auto simp: SNEPPX_tokenizer_train_bpe_def SNEPPX_tokenizer_create_def)
qed

section \<open>Files hold the vocabulary\<close>

definition int_range :: "int \<Rightarrow> bool" where "int_range i \<longleftrightarrow> - (2 ^ 31) \<le> i \<and> i < 2 ^ 31"

lemma read_int_bytes:
  assumes "int_range i" shows "read_int (int_bytes i @ f) = Some (i, f)"
proof -
  have "signed_take_bit 31 i = i" using assms by (intro signed_take_bit_int_eq_self) (simp_all add: int_range_def)
  then have "sint (word_of_int i :: u32) = i" by (simp add: signed_of_int)
  then show ?thesis by (simp add: read_int_def int_bytes_def le32_append le32_bytes_inverse)
qed

lemma length_int_bytes [simp]: "length (int_bytes i) = 4"
  by (simp add: int_bytes_def)

definition merge_range :: "bpe_merge \<Rightarrow> bool" where
  "merge_range m \<longleftrightarrow> int_range (left_id m) \<and> int_range (right_id m) \<and> int_range (new_id m)"

definition merge_bytes :: "bpe_merge \<Rightarrow> bytes" where
  "merge_bytes m = int_bytes (left_id m) @ int_bytes (right_id m) @ int_bytes (new_id m)"

lemma load_merges_bytes:
  assumes "list_all merge_range ms" "\<forall>k. ok k"
  shows "\<exists>c. load_merges ok k (length ms) t (concat (map merge_bytes ms)) = Some (t\<lparr>merge_capacity := c, merges := merges t @ ms\<rparr>)"
  using assms(1)
proof (induction ms arbitrary: k t)
  case Nil
  show ?case by (rule exI [of _ "merge_capacity t"]) simp
next
  case (Cons m ms)
  define full where "full \<longleftrightarrow> merge_capacity t \<le> length (merges t)"
  define u where "u = (if full then t\<lparr>merge_capacity := (if merge_capacity t \<noteq> 0 then merge_capacity t * 2 else 1024)\<rparr> else t)"
  have m: "\<lparr>left_id = left_id m, right_id = right_id m, new_id = new_id m\<rparr> = m" by simp
  obtain c where c: "load_merges ok (if full then k + 1 else k) (length ms) (u\<lparr>merges := merges t @ [m]\<rparr>) (concat (map merge_bytes ms)) =
      Some (u\<lparr>merges := merges t @ [m], merge_capacity := c, merges := merges t @ m # ms\<rparr>)"
    using Cons.IH [of "if full then k + 1 else k" "u\<lparr>merges := merges t @ [m]\<rparr>"] Cons.prems by auto
  have ok: "ok k" using assms(2) by blast
  have u: "merges u = merges t" "u\<lparr>merges := x, merge_capacity := c, merges := y\<rparr> = t\<lparr>merge_capacity := c, merges := y\<rparr>" for x y
    by (simp_all add: u_def)
  have r: "read_int (int_bytes (left_id m) @ f) = Some (left_id m, f)" "read_int (int_bytes (right_id m) @ f) = Some (right_id m, f)"
    "read_int (int_bytes (new_id m) @ f) = Some (new_id m, f)" for f
    using Cons.prems by (simp_all add: merge_range_def read_int_bytes)
  have "load_merges ok k (length (m # ms)) t (concat (map merge_bytes (m # ms))) =
      load_merges ok (if full then k + 1 else k) (length ms) (u\<lparr>merges := merges t @ [m]\<rparr>) (concat (map merge_bytes ms))"
    by (simp add: merge_bytes_def r ok m full_def [symmetric] u_def Let_def)
  then show ?case using c u(2) by auto
qed

definition token_record :: "tokenizer \<Rightarrow> nat \<Rightarrow> bytes" where
  "token_record t i = int_bytes (token_lens t ! i) @ (if token_lens t ! i > 0 then tok_word t i else [])"

text \<open>The tokenizer that is loaded holds the first \<open>j\<close> tokens of the one that was saved.\<close>

definition loaded :: "tokenizer \<Rightarrow> nat \<Rightarrow> tokenizer \<Rightarrow> bool" where
  "loaded t j u \<longleftrightarrow> length (token_bytes u) = length (token_lens u) * 256 \<and> nat (vocab_size t) \<le> length (token_lens u) \<and>
     (\<forall>i < j. token_lens u ! i = token_lens t ! i \<and> tok_word u i = tok_word t i)"

lemma load_token_step:
  assumes t: "tok_wf t" and j: "j < nat (vocab_size t)" and u: "loaded t j u"
  defines "u' \<equiv> u\<lparr>token_lens := (token_lens u)[j := token_lens t ! j]\<rparr>"
  defines "u2 \<equiv> (if token_lens t ! j > 0 then u'\<lparr>token_bytes := put_bytes (token_bytes u) (j * MAX_TOKEN_LEN) (tok_word t j)\<rparr> else u')"
  shows "load_tokens (j # is) u (token_record t j @ f) = load_tokens is u2 f" "loaded t (Suc j) u2"
proof -
  note len = length_tok_word(1,2) [OF t j]
  have l: "0 \<le> token_lens t ! j" "token_lens t ! j \<le> 255" using t j by (auto simp: tok_wf_def)
  have rd: "read_int (int_bytes (token_lens t ! j) @ g) = Some (token_lens t ! j, g)" for g
    using l by (simp add: read_int_bytes int_range_def)
  have jc: "j < length (token_lens u)" and b: "length (token_bytes u) = length (token_lens u) * 256" using u j by (auto simp: loaded_def)
  have "(j + 1) * 256 \<le> length (token_lens u) * 256" using jc by (intro mult_le_mono1) simp
  then have fits: "j * 256 + 256 \<le> length (token_bytes u)" using b by simp
  have fits': "j * 256 + length (tok_word t j) \<le> length (token_bytes u)" using fits len(2) by linarith
  show "load_tokens (j # is) u (token_record t j @ f) = load_tokens is u2 f"
    using fits' len(1) l by (auto simp: token_record_def rd u2_def u'_def Let_def MAX_TOKEN_LEN_def)
  have lens: "token_lens u2 = (token_lens u)[j := token_lens t ! j]" by (simp add: u2_def u'_def)
  have size: "length (token_bytes u2) = length (token_bytes u)" using fits' by (simp add: u2_def u'_def MAX_TOKEN_LEN_def)
  have new: "tok_word u2 j = tok_word t j"
    using jc fits' len(1) l by (auto simp: tok_word_def u2_def u'_def MAX_TOKEN_LEN_def put_bytes_def)
  have old: "tok_word u2 i = tok_word u i" if i: "i < j" for i
  proof -
    have "token_lens u ! i = token_lens t ! i" using u i by (simp add: loaded_def)
    then have le: "nat (token_lens u ! i) \<le> 255" using t i j by (simp add: tok_wf_def nat_le_iff)
    have "(i + 1) * 256 \<le> j * 256" using i by (intro mult_le_mono1) simp
    then have "i * 256 + nat (token_lens u ! i) \<le> j * 256" using le by simp
    moreover have "j * 256 \<le> length (token_bytes u)" using fits by simp
    ultimately have "take (nat (token_lens u ! i)) (drop (i * 256) (put_bytes (token_bytes u) (j * 256) w)) =
        take (nat (token_lens u ! i)) (drop (i * 256) (token_bytes u))" for w by (rule take_drop_before_put)
    then show ?thesis using i by (simp add: tok_word_def u2_def u'_def MAX_TOKEN_LEN_def)
  qed
  show "loaded t (Suc j) u2" unfolding loaded_def
    using u jc lens size new old by (auto simp: loaded_def less_Suc_eq)
qed

lemma load_tokens_bytes:
  assumes t: "tok_wf t" and n: "n = nat (vocab_size t)" and "j \<le> n" "loaded t j u"
  shows "\<exists>u'. load_tokens [j..<n] u (concat (map (token_record t) [j..<n]) @ f) = Inr (Some (u', f)) \<and> loaded t n u' \<and>
    vocab_size u' = vocab_size u \<and> special u' = special u \<and> merges u' = merges u"
  using assms(3,4)
proof (induction "n - j" arbitrary: j u)
  case 0
  then show ?case by simp
next
  case (Suc d)
  then have j: "j < n" "[j..<n] = j # [Suc j..<n]" by (auto simp: upt_conv_Cons)
  note step = load_token_step [OF t j(1) [unfolded n] Suc.prems(2)]
  show ?case
    using Suc.hyps(1) [OF _ _ step(2)] Suc.hyps(2) j step(1) [of "[Suc j..<n]"] by (auto split: if_splits)
qed

lemma sint_int_bytes:
  assumes "int_range i" shows "sint (le32 (int_bytes i @ f) 0) = i"
  using read_int_bytes [OF assms, of f] by (simp add: read_int_def)

lemma load_special_bytes:
  assumes "int_range (pad_id s)" "int_range (bos_id s)" "int_range (eos_id s)" "int_range (unk_id s)"
  shows "load_special (int_bytes (pad_id s) @ int_bytes (bos_id s) @ int_bytes (eos_id s) @ int_bytes (unk_id s) @ f) = (s, f)"
proof -
  let ?p = "int_bytes (pad_id s)" and ?b = "int_bytes (bos_id s)" and ?e = "int_bytes (eos_id s)" and ?u = "int_bytes (unk_id s)"
  have shift: "le32 (a @ g) (length a) = le32 g 0" for a g by (simp add: le32_def nth_append numeral_2_eq_2)
  have "le32 (?p @ ?b @ ?e @ ?u) 4 = le32 (?b @ ?e @ ?u) 0" "le32 (?p @ ?b @ ?e @ ?u) 8 = le32 (?e @ ?u) 0" "le32 (?p @ ?b @ ?e @ ?u) 12 = le32 (?u @ []) 0"
    using shift [of ?p] shift [of "?p @ ?b"] shift [of "?p @ ?b @ ?e"] by simp_all
  then show ?thesis using assms by (simp add: load_special_def Let_def put_bytes_def sint_int_bytes sint_int_bytes [of _ "[]", simplified])
qed

lemma concat_pieces: "concat (concat (map f xs)) = concat (map (\<lambda>x. concat (f x)) xs)"
  by (induction xs) simp_all

lemma save_layout:
  "concat (save_items t) = le32_bytes 0x4250544F @ int_bytes (vocab_size t) @ int_bytes (int (length (merges t))) @
     int_bytes (pad_id (special t)) @ int_bytes (bos_id (special t)) @ int_bytes (eos_id (special t)) @ int_bytes (unk_id (special t)) @
     concat (map (token_record t) [0..<nat (vocab_size t)]) @ concat (map merge_bytes (merges t))"
proof -
  have "(\<lambda>i. concat (int_bytes (token_lens t ! i) # (if token_lens t ! i > 0 then [tok_word t i] else []))) = token_record t"
    by (auto simp: fun_eq_iff token_record_def)
  moreover have "(\<lambda>m. concat [int_bytes (left_id m), int_bytes (right_id m), int_bytes (new_id m)]) = merge_bytes"
    by (simp add: fun_eq_iff merge_bytes_def)
  ultimately show ?thesis unfolding save_items_def concat_append concat_pieces by (simp add: Let_def)
qed



text \<open>
  C29. Encoding and decoding with a trained tokenizer. Training on texts of at most 255 bytes each never writes outside the arrays, whatever the target size and whatever requests for memory are refused. If
  a tokenizer is returned, then, with memory granted, every non-empty text that is no longer than \<open>max_len\<close>, of whatever bytes, is encoded into at most one identifier per byte, all of
  them in the vocabulary, and decoding what was written to \<open>out_ids\<close> gives back the text.
\<close>

theorem trained_tokenizer_roundtrip:
  assumes "\<forall>t \<in> set ts. length t \<le> 255" "\<forall>k. ok' k" "0 < length bs" "length bs \<le> max_len"
  shows "\<exists>r. SNEPPX_tokenizer_train_bpe ok k (Some ts) target = Inr r \<and>
    (\<forall>tok. r = Some tok \<longrightarrow> (\<exists>n out'. SNEPPX_tokenizer_encode ok' k' r (Some bs) (Some out) max_len = (int n, Some out') \<and>
       0 < n \<and> n \<le> length bs \<and> list_all (known_id tok) (take n out') \<and> SNEPPX_tokenizer_decode ok' k'' r (Some (take n out')) = Some bs))"
proof -
  obtain r where r: "SNEPPX_tokenizer_train_bpe ok k (Some ts) target = Inr r" "\<forall>tok. r = Some tok \<longrightarrow> tok_wf tok"
    using train_bpe_wf [OF assms(1)] by blast
  have ok: "ok' i" for i using assms(2) by blast
  have "\<exists>n out'. SNEPPX_tokenizer_encode ok' k' (Some tok) (Some bs) (Some out) max_len = (int n, Some out') \<and>
       0 < n \<and> n \<le> length bs \<and> list_all (known_id tok) (take n out') \<and> SNEPPX_tokenizer_decode ok' k'' (Some tok) (Some (take n out')) = Some bs"
    if tok: "tok_wf tok" for tok
  proof -
    obtain n ids where e: "SNEPPX_tokenizer_encode ok' k' (Some tok) (Some bs) (Some out) max_len = (int n, Some (ids @ drop n out))"
      "length ids = n" "0 < n" "n \<le> length bs" "spell tok ids = bs" "list_all (known_id tok) ids"
      by (rule encode_spells [where out = out, OF tok assms(3,4) ok ok])
    then have t: "take n (ids @ drop n out) = ids" "ids \<noteq> []" by auto
    show ?thesis
      by (intro exI [of _ n] exI [of _ "ids @ drop n out"]) (simp add: e t(1) decode_spells [where ok = ok' and k = k'', OF e(6) t(2) ok])
  qed
  then show ?thesis using r by blast
qed

text \<open>Without a text to count pairs in, a trained tokenizer is the fresh one.\<close>

lemma train_bpe_one_byte:
  "SNEPPX_tokenizer_train_bpe (\<lambda>_. True) k (Some [[b]]) 257 = Inr (Some (fresh_tokenizer 513))"
proof -
  have none: "best_pair (\<lambda>_. 0) n = (0, None)" for n
  proof -
    have "fold (\<lambda>(l, r) (best, p). if (0 :: nat) > best then (0, Some (l, r)) else (best, p)) ps (0, None) = (0, None :: (nat \<times> nat) option)" for ps :: "(nat \<times> nat) list"
      by (induction ps) auto
    then show ?thesis by (simp add: best_pair_def)
  qed
  have "count_pairs [[i]] n = (\<lambda>_. 0)" for i n by (simp add: count_pairs_def)
  moreover have "all_ids (\<lambda>_. True) k' (fresh_tokenizer 513) [[b]] = (Some [[uint b]], k' + 2)" for k'
    using find_byte [OF fresh_tokenizer_wf, of 513 b] by (simp add: text_to_ids_bytewise_def)
  moreover have "257 - 256 = Suc 0" by simp
  ultimately show ?thesis using none by (simp add: SNEPPX_tokenizer_train_bpe_def SNEPPX_tokenizer_create_def as_int_def)
qed

theorem trained_tokenizer_roundtrip_witness:
  "\<exists>tok n out'. SNEPPX_tokenizer_train_bpe (\<lambda>_. True) 0 (Some [[7]]) 257 = Inr (Some tok) \<and>
    SNEPPX_tokenizer_encode (\<lambda>_. True) 0 (Some tok) (Some [200, 7, 65]) (Some [0, 0, 0, 0]) 4 = (int n, Some out') \<and> n \<le> 3 \<and>
    SNEPPX_tokenizer_decode (\<lambda>_. True) 0 (Some tok) (Some (take n out')) = Some [200, 7, 65]"
  using trained_tokenizer_roundtrip [of "[[7]]" "\<lambda>_. True" "[200, 7, 65]" 4 "\<lambda>_. True" 0 257 0 "[0, 0, 0, 0]" 0] train_bpe_one_byte [of 0 7] by auto

lemma add_token_wf:
  assumes t: "tok_wf t"
  shows "\<exists>t'. snd (SNEPPX_tokenizer_add_token (Some t) w (vocab_size t)) = Some t' \<and> tok_wf t' \<and> (\<forall>i < nat (vocab_size t). tok_word t' i = tok_word t i)"
proof (cases "vocab_size t < tk_capacity t \<and> length w \<le> 255 \<and> find_token t w = None")
  case True
  obtain t' where t': "write_token t (nat (vocab_size t)) w = Inr t'" "tok_wf t'" "\<And>i. i < nat (vocab_size t) \<Longrightarrow> tok_word t' i = tok_word t i"
    using write_token_wf [OF t _ _ refl, of w] True by metis
  moreover have "SNEPPX_tokenizer_add_token (Some t) w (vocab_size t) = (0, Some t')"
    using True t t'(1) by (auto simp: SNEPPX_tokenizer_add_token_def write_token_def tok_wf_def MAX_TOKEN_LEN_def split: if_splits)
  ultimately show ?thesis by simp
next
  case False
  then have "snd (SNEPPX_tokenizer_add_token (Some t) w (vocab_size t)) = Some t"
    by (auto simp: SNEPPX_tokenizer_add_token_def MAX_TOKEN_LEN_def Let_def)
  then show ?thesis using t by simp
qed

text \<open>
  C30. The vocabulary keeps its shape. What training returns for texts of at most 255 bytes is a well-formed tokenizer: every token fits its row of 256 bytes,
  the first 256 tokens are the single bytes, and every merge names tokens of the vocabulary and concatenates their bytes. Adding any token with the identifier that is next, the size of the vocabulary,
  keeps it well formed, whether the token is stored, known already, too long or without room, and leaves every other token as it is. A smaller identifier would replace a token.
\<close>

theorem tokenizer_vocabulary_type:
  assumes "\<forall>t \<in> set ts. length t \<le> 255"
  shows "\<exists>r. SNEPPX_tokenizer_train_bpe ok k (Some ts) target = Inr r \<and> (\<forall>tok. r = Some tok \<longrightarrow> tok_wf tok \<and>
    (\<exists>tok'. snd (SNEPPX_tokenizer_add_token r w (vocab_size tok)) = Some tok' \<and> tok_wf tok' \<and>
      (\<forall>i < nat (vocab_size tok). tok_word tok' i = tok_word tok i)))"
  using train_bpe_wf [OF assms] add_token_wf by metis

theorem tokenizer_vocabulary_type_witness:
  "\<exists>tok tok'. SNEPPX_tokenizer_train_bpe (\<lambda>_. True) 0 (Some [[7]]) 257 = Inr (Some tok) \<and> tok_wf tok \<and>
    snd (SNEPPX_tokenizer_add_token (Some tok) [104, 105] (vocab_size tok)) = Some tok' \<and> tok_wf tok'"
  using tokenizer_vocabulary_type [of "[[7]]" "\<lambda>_. True" 0 257 "[104, 105]"] train_bpe_one_byte [of 0 7] by auto

end
