(* ===== verification/Tensor_Heap.thy ===== *)
theory Tensor_Heap
  imports Bytes
begin

text \<open>
  Storages, tensors and views of \<open>kernel/tensor/tensor.c\<close>. Reference-counted storages live in a heap
  indexed by address; a tensor is a record that names its storage. Every operation of the file keeps
  the field \<open>data\<close> equal to the storage's buffer plus \<open>offset * item_size\<close> bytes, so it is not a
  field of its own here, and \<open>ndim\<close> is the length of the shape. A result pointer is \<open>None\<close> when
  it is \<open>NULL\<close>; undefined behaviour is a fault.
\<close>

section \<open>Sizes\<close>

text \<open>Arithmetic on \<open>size_t\<close>.\<close>

definition wrap64 :: "nat \<Rightarrow> nat" where "wrap64 n = n mod 2 ^ 64"

definition sz_add :: "nat \<Rightarrow> nat \<Rightarrow> nat" where "sz_add a b = wrap64 (a + b)"

definition sz_mul :: "nat \<Rightarrow> nat \<Rightarrow> nat" where "sz_mul a b = wrap64 (a * b)"

definition sz_prod :: "nat list \<Rightarrow> nat" where "sz_prod xs = fold (\<lambda>d p. sz_mul p d) xs 1"

text \<open>The loops that fill the strides from the last dimension to the first.\<close>

definition row_major_loop :: "nat list \<Rightarrow> nat \<times> nat list" where
  "row_major_loop shape = foldr (\<lambda>d (stride, ss). (sz_mul stride d, stride # ss)) shape (1, [])"

definition row_major :: "nat list \<Rightarrow> nat list" where
  "row_major shape = snd (row_major_loop shape)"

section \<open>The heap\<close>

datatype dtype = SNEPPX_FLOAT32 | SNEPPX_FLOAT64 | SNEPPX_FLOAT16 | SNEPPX_BFLOAT16 | SNEPPX_FLOAT8
  | SNEPPX_INT32 | SNEPPX_INT64 | SNEPPX_INT16 | SNEPPX_INT8 | SNEPPX_UINT8 | SNEPPX_BOOL
  | SNEPPX_COMPLEX64 | SNEPPX_COMPLEX128 | DTYPE_OTHER nat

datatype device = SNEPPX_DEVICE_CPU | SNEPPX_DEVICE_CUDA | SNEPPX_DEVICE_METAL | SNEPPX_DEVICE_VULKAN
  | SNEPPX_DEVICE_TPU | SNEPPX_DEVICE_NPU

datatype layout = SNEPPX_LAYOUT_ROW_MAJOR | SNEPPX_LAYOUT_COL_MAJOR | SNEPPX_LAYOUT_CHANNELS_LAST
  | SNEPPX_LAYOUT_TILED

record storage =
  st_data :: "bytes option"
  num_bytes :: nat
  ref_count :: int

record tensor =
  t_storage :: nat
  t_offset :: nat
  t_shape :: "nat list"
  t_strides :: "nat list"
  t_size :: nat
  t_item :: nat
  t_dtype :: dtype
  t_device :: device
  t_device_id :: int
  t_layout :: layout
  t_owns_data :: int

text \<open>
  \<open>h_ok i\<close> tells whether the \<open>i\<close>-th request for memory is granted, \<open>h_tried\<close> counts the requests
  and \<open>h_blocks\<close> the blocks allocated and not yet freed, other than the ones of the caller.
\<close>

record heap =
  h_stores :: "nat \<rightharpoonup> storage"
  h_next :: nat
  h_ok :: "nat \<Rightarrow> bool"
  h_tried :: nat
  h_blocks :: int

abbreviation t_ndim :: "tensor \<Rightarrow> nat" where "t_ndim t \<equiv> length (t_shape t)"

definition aligned_alloc_wrapper :: "heap \<Rightarrow> bool \<times> heap" where
  "aligned_alloc_wrapper h =
     (if h_ok h (h_tried h) then (True, h\<lparr>h_tried := h_tried h + 1, h_blocks := h_blocks h + 1\<rparr>)
      else (False, h\<lparr>h_tried := h_tried h + 1\<rparr>))"

text \<open>\<open>SNEPPX_free\<close> of a pointer that is \<open>NULL\<close> when the flag is not set.\<close>

definition free_block :: "bool \<Rightarrow> heap \<Rightarrow> heap" where
  "free_block p h = (if p then h\<lparr>h_blocks := h_blocks h - 1\<rparr> else h)"

text \<open>\<open>memcpy\<close> from and to a buffer of the heap, at a byte position.\<close>

definition load_bytes :: "heap \<Rightarrow> nat \<Rightarrow> nat \<Rightarrow> nat \<Rightarrow> bytes run" where
  "load_bytes h a pos n =
     (case h_stores h a of
        None \<Rightarrow> Inl Use_After_Free
      | Some st \<Rightarrow> if n = 0 then Inr []
          else (case st_data st of
                  None \<Rightarrow> Inl Null_Deref
                | Some d \<Rightarrow> if pos + n \<le> length d then Inr (take n (drop pos d)) else Inl Out_Of_Bounds))"

definition store_bytes :: "heap \<Rightarrow> nat \<Rightarrow> nat \<Rightarrow> bytes \<Rightarrow> heap run" where
  "store_bytes h a pos bs =
     (case h_stores h a of
        None \<Rightarrow> Inl Use_After_Free
      | Some st \<Rightarrow> if bs = [] then Inr h
          else (case st_data st of
                  None \<Rightarrow> Inl Null_Deref
                | Some d \<Rightarrow> if pos + length bs \<le> length d
                     then Inr (h\<lparr>h_stores := (h_stores h)(a \<mapsto> st\<lparr>st_data := Some (put_bytes d pos bs)\<rparr>)\<rparr>)
                     else Inl Out_Of_Bounds))"

section \<open>Storages\<close>

definition SNEPPX_storage_create :: "nat \<Rightarrow> heap \<Rightarrow> nat option \<times> heap" where
  "SNEPPX_storage_create nb h =
     (let (s, h) = aligned_alloc_wrapper h in
      if \<not> s then (None, h)
      else let (d, h) = aligned_alloc_wrapper h in
        if \<not> d \<and> nb > 0 then (None, free_block s h)
        else (Some (h_next h),
              h\<lparr>h_stores := (h_stores h)(h_next h \<mapsto>
                  \<lparr>st_data = (if d then Some (replicate nb 0) else None), num_bytes = nb, ref_count = 1\<rparr>),
                h_next := h_next h + 1\<rparr>))"

definition SNEPPX_storage_retain :: "nat option \<Rightarrow> heap \<Rightarrow> heap run" where
  "SNEPPX_storage_retain s h =
     (case s of None \<Rightarrow> Inr h
      | Some a \<Rightarrow> (case h_stores h a of
           None \<Rightarrow> Inl Use_After_Free
         | Some st \<Rightarrow> Inr (h\<lparr>h_stores := (h_stores h)(a \<mapsto> st\<lparr>ref_count := ref_count st + 1\<rparr>)\<rparr>)))"

definition SNEPPX_storage_release :: "nat option \<Rightarrow> heap \<Rightarrow> heap run" where
  "SNEPPX_storage_release s h =
     (case s of None \<Rightarrow> Inr h
      | Some a \<Rightarrow> (case h_stores h a of
           None \<Rightarrow> Inl Use_After_Free
         | Some st \<Rightarrow>
             let st = st\<lparr>ref_count := ref_count st - 1\<rparr> in
             if ref_count st \<le> 0
             then Inr (free_block True (free_block (st_data st \<noteq> None) (h\<lparr>h_stores := (h_stores h)(a := None)\<rparr>)))
             else Inr (h\<lparr>h_stores := (h_stores h)(a \<mapsto> st)\<rparr>)))"

section \<open>Tensors\<close>

definition SNEPPX_tensor_dtype_size :: "dtype \<Rightarrow> nat" where
  "SNEPPX_tensor_dtype_size dt =
     (case dt of SNEPPX_FLOAT8 \<Rightarrow> 1 | SNEPPX_FLOAT16 \<Rightarrow> 2 | SNEPPX_BFLOAT16 \<Rightarrow> 2 | SNEPPX_FLOAT32 \<Rightarrow> 4
      | SNEPPX_FLOAT64 \<Rightarrow> 8 | SNEPPX_INT8 \<Rightarrow> 1 | SNEPPX_INT16 \<Rightarrow> 2 | SNEPPX_INT32 \<Rightarrow> 4 | SNEPPX_INT64 \<Rightarrow> 8
      | SNEPPX_UINT8 \<Rightarrow> 1 | SNEPPX_BOOL \<Rightarrow> 1 | SNEPPX_COMPLEX64 \<Rightarrow> 8 | SNEPPX_COMPLEX128 \<Rightarrow> 16
      | DTYPE_OTHER _ \<Rightarrow> 0)"

text \<open>The allocation of the structure, its shape and its strides, which views and new tensors share.\<close>

definition tensor_view_alloc :: "heap \<Rightarrow> bool \<times> heap" where
  "tensor_view_alloc h =
     (let (t, h) = aligned_alloc_wrapper h in
      if \<not> t then (False, h)
      else let (shape, h) = aligned_alloc_wrapper h;
               (strides, h) = aligned_alloc_wrapper h
           in if \<not> shape \<or> \<not> strides then (False, free_block t (free_block strides (free_block shape h)))
              else (True, h))"

definition fresh_tensor :: "nat \<Rightarrow> nat list \<Rightarrow> dtype \<Rightarrow> tensor" where
  "fresh_tensor a shape dt =
     \<lparr>t_storage = a, t_offset = 0, t_shape = shape, t_strides = row_major shape, t_size = sz_prod shape,
      t_item = SNEPPX_tensor_dtype_size dt, t_dtype = dt, t_device = SNEPPX_DEVICE_CPU, t_device_id = 0,
      t_layout = SNEPPX_LAYOUT_ROW_MAJOR, t_owns_data = 1\<rparr>"

text \<open>A shape that is \<open>NULL\<close> although \<open>ndim > 0\<close> is \<open>None\<close>.\<close>

definition SNEPPX_tensor_create :: "nat list option \<Rightarrow> dtype \<Rightarrow> heap \<Rightarrow> tensor option \<times> heap" where
  "SNEPPX_tensor_create shape dt h =
     (case shape of None \<Rightarrow> (None, h)
      | Some shape \<Rightarrow>
         let (ok, h) = tensor_view_alloc h in
         if \<not> ok then (None, h)
         else let (s, h) = SNEPPX_storage_create (sz_mul (sz_prod shape) (SNEPPX_tensor_dtype_size dt)) h
              in case s of
                   None \<Rightarrow> (None, free_block True (free_block True (free_block True h)))
                 | Some a \<Rightarrow> (Some (fresh_tensor a shape dt), h))"

definition SNEPPX_tensor_destroy :: "tensor option \<Rightarrow> heap \<Rightarrow> heap run" where
  "SNEPPX_tensor_destroy t h =
     (case t of None \<Rightarrow> Inr h
      | Some t \<Rightarrow> bind_run (SNEPPX_storage_release (Some (t_storage t)) h)
          (\<lambda>h. Inr (free_block True (free_block True (free_block True h)))))"

definition SNEPPX_tensor_as_strided ::
  "tensor option \<Rightarrow> nat \<Rightarrow> nat list \<Rightarrow> nat list \<Rightarrow> heap \<Rightarrow> (tensor option \<times> heap) run" where
  "SNEPPX_tensor_as_strided src offset shape strides h =
     (case src of None \<Rightarrow> Inr (None, h)
      | Some s \<Rightarrow>
         let (ok, h) = tensor_view_alloc h in
         if \<not> ok then Inr (None, h)
         else bind_run (SNEPPX_storage_retain (Some (t_storage s)) h) (\<lambda>h.
           Inr (Some (s\<lparr>t_offset := offset, t_shape := shape, t_strides := strides,
                        t_size := sz_prod shape, t_owns_data := 0\<rparr>), h)))"

text \<open>The local arrays of the view operations have 16 cells.\<close>

definition local_dims :: "nat \<Rightarrow> 'a run \<Rightarrow> 'a run" where
  "local_dims n m = (if n > 16 then Inl Out_Of_Bounds else m)"

definition SNEPPX_tensor_narrow ::
  "tensor option \<Rightarrow> nat \<Rightarrow> nat \<Rightarrow> nat \<Rightarrow> heap \<Rightarrow> (tensor option \<times> heap) run" where
  "SNEPPX_tensor_narrow src dim start sz h =
     (case src of None \<Rightarrow> Inr (None, h)
      | Some s \<Rightarrow>
         if dim \<ge> t_ndim s \<or> sz_add start sz > t_shape s ! dim then Inr (None, h)
         else local_dims (t_ndim s)
           (SNEPPX_tensor_as_strided src (sz_add (t_offset s) (sz_mul start (t_strides s ! dim)))
              ((t_shape s)[dim := sz]) (t_strides s) h))"

definition SNEPPX_tensor_slice ::
  "tensor option \<Rightarrow> nat \<Rightarrow> nat \<Rightarrow> nat \<Rightarrow> heap \<Rightarrow> (tensor option \<times> heap) run" where
  "SNEPPX_tensor_slice src dim start stop h =
     (case src of None \<Rightarrow> Inr (None, h)
      | Some s \<Rightarrow>
         if dim \<ge> t_ndim s \<or> start \<ge> stop \<or> stop > t_shape s ! dim then Inr (None, h)
         else SNEPPX_tensor_narrow src dim start (stop - start) h)"

definition SNEPPX_tensor_is_contiguous :: "tensor option \<Rightarrow> bool" where
  "SNEPPX_tensor_is_contiguous t =
     (case t of None \<Rightarrow> True
      | Some t \<Rightarrow> fst (foldr (\<lambda>(d, s) (ok, expected). (ok \<and> s = expected, sz_mul expected d))
                        (zip (t_shape t) (t_strides t)) (True, 1)))"

definition SNEPPX_tensor_numel :: "tensor option \<Rightarrow> nat" where
  "SNEPPX_tensor_numel t = (case t of None \<Rightarrow> 0 | Some t \<Rightarrow> t_size t)"

text \<open>\<open>axes\<close> has a cell for every dimension; a value that is no dimension reads outside the shape.\<close>

definition SNEPPX_tensor_permute ::
  "tensor option \<Rightarrow> nat list \<Rightarrow> heap \<Rightarrow> (tensor option \<times> heap) run" where
  "SNEPPX_tensor_permute src axes h =
     (case src of None \<Rightarrow> Inr (None, h)
      | Some s \<Rightarrow> local_dims (t_ndim s)
         (bind_run (map_run (\<lambda>i. bind_run (load_cell axes i) (load_cell (t_shape s))) [0..<t_ndim s]) (\<lambda>new_shape.
          bind_run (map_run (\<lambda>i. bind_run (load_cell axes i) (load_cell (t_strides s))) [0..<t_ndim s]) (\<lambda>new_strides.
          SNEPPX_tensor_as_strided src (t_offset s) new_shape new_strides h))))"

definition SNEPPX_tensor_transpose ::
  "tensor option \<Rightarrow> nat \<Rightarrow> nat \<Rightarrow> heap \<Rightarrow> (tensor option \<times> heap) run" where
  "SNEPPX_tensor_transpose src dim1 dim2 h =
     (case src of None \<Rightarrow> Inr (None, h)
      | Some s \<Rightarrow>
         if dim1 \<ge> t_ndim s \<or> dim2 \<ge> t_ndim s then Inr (None, h)
         else let (ok, h) = aligned_alloc_wrapper h in
           if \<not> ok then Inr (None, h)
           else bind_run (SNEPPX_tensor_permute src ([0..<t_ndim s][dim1 := dim2, dim2 := dim1]) h)
                  (\<lambda>(r, h). Inr (r, free_block True h)))"

text \<open>The last dimension given as \<open>(size_t)-1\<close> is computed from the others.\<close>

definition SZ_MAX :: nat where "SZ_MAX = 2 ^ 64 - 1"

definition auto_index :: "nat list \<Rightarrow> nat" where
  "auto_index new_shape = fold (\<lambda>i a. if new_shape ! i = SZ_MAX then i else a) [0..<length new_shape] (length new_shape)"

definition resolve_shape :: "nat \<Rightarrow> nat list \<Rightarrow> nat list run" where
  "resolve_shape sz new_shape =
     (let new_size = sz_prod (filter (\<lambda>d. d \<noteq> SZ_MAX) new_shape);
          auto_idx = auto_index new_shape
      in if auto_idx < length new_shape \<and> new_size = 0 then Inl Zero_Divide
         else Inr (if auto_idx < length new_shape then new_shape[auto_idx := sz div new_size] else new_shape))"

definition SNEPPX_tensor_reshape ::
  "tensor option \<Rightarrow> nat list \<Rightarrow> heap \<Rightarrow> (tensor option \<times> heap) run" where
  "SNEPPX_tensor_reshape src new_shape h =
     (case src of None \<Rightarrow> Inr (None, h)
      | Some s \<Rightarrow> local_dims (length new_shape)
         (bind_run (resolve_shape (t_size s) new_shape) (\<lambda>resolved.
            if SNEPPX_tensor_is_contiguous src \<and> t_ndim s > 0
            then SNEPPX_tensor_as_strided src (t_offset s) resolved (row_major resolved) h
            else (case SNEPPX_tensor_create (Some resolved) (t_dtype s) h of
                    (None, h) \<Rightarrow> Inr (None, h)
                  | (Some r, h) \<Rightarrow>
                      bind_run (load_bytes h (t_storage s) (t_offset s * t_item s) (sz_mul (t_size s) (t_item s))) (\<lambda>bs.
                      bind_run (store_bytes h (t_storage r) 0 bs) (\<lambda>h. Inr (Some r, h)))))))"

definition SNEPPX_tensor_copy :: "tensor option \<Rightarrow> heap \<Rightarrow> (tensor option \<times> heap) run" where
  "SNEPPX_tensor_copy src h =
     (case src of None \<Rightarrow> Inr (None, h)
      | Some s \<Rightarrow>
         (case SNEPPX_tensor_create (Some (t_shape s)) (t_dtype s) h of
            (None, h) \<Rightarrow> Inr (None, h)
          | (Some r, h) \<Rightarrow>
              bind_run (load_bytes h (t_storage s) (t_offset s * t_item s) (sz_mul (t_size s) (t_item s))) (\<lambda>bs.
              bind_run (store_bytes h (t_storage r) 0 bs) (\<lambda>h. Inr (Some r, h)))))"

definition drop_nth :: "nat \<Rightarrow> 'a list \<Rightarrow> 'a list" where
  "drop_nth i xs = take i xs @ drop (i + 1) xs"

definition insert_nth :: "nat \<Rightarrow> 'a \<Rightarrow> 'a list \<Rightarrow> 'a list" where
  "insert_nth i x xs = take i xs @ x # drop i xs"

definition SNEPPX_tensor_squeeze :: "tensor option \<Rightarrow> nat \<Rightarrow> heap \<Rightarrow> (tensor option \<times> heap) run" where
  "SNEPPX_tensor_squeeze src dim h =
     (case src of None \<Rightarrow> SNEPPX_tensor_copy src h
      | Some s \<Rightarrow>
         if dim \<ge> t_ndim s \<or> t_shape s ! dim \<noteq> 1 then SNEPPX_tensor_copy src h
         else local_dims (t_ndim s - 1)
           (SNEPPX_tensor_as_strided src (t_offset s) (drop_nth dim (t_shape s)) (drop_nth dim (t_strides s)) h))"

definition SNEPPX_tensor_unsqueeze :: "tensor option \<Rightarrow> nat \<Rightarrow> heap \<Rightarrow> (tensor option \<times> heap) run" where
  "SNEPPX_tensor_unsqueeze src dim h =
     (case src of None \<Rightarrow> Inr (None, h)
      | Some s \<Rightarrow>
         if dim > t_ndim s then Inr (None, h)
         else local_dims (t_ndim s + 1)
           (SNEPPX_tensor_as_strided src (t_offset s) (insert_nth dim 1 (t_shape s)) (insert_nth dim 0 (t_strides s)) h))"

end
