(* ===== verification/Tensor_Refs.thy ===== *)
theory Tensor_Refs
  imports Tensor_Heap
begin

text \<open>
  Ownership of storages: the reference counts, the storages and the allocated blocks are exactly
  those of the tensors that are alive, whatever tensors and views a program makes and destroys and
  whichever allocations fail.
\<close>

section \<open>The invariant\<close>

definition refs :: "tensor list \<Rightarrow> nat \<Rightarrow> nat" where
  "refs ts a = length (filter (\<lambda>t. t_storage t = a) ts)"

definition store_blocks :: "storage option \<Rightarrow> int" where
  "store_blocks s = (case s of None \<Rightarrow> 0 | Some st \<Rightarrow> if st_data st = None then 1 else 2)"

definition total_blocks :: "(nat \<rightharpoonup> storage) \<Rightarrow> nat \<Rightarrow> int" where
  "total_blocks s n = (\<Sum>a<n. store_blocks (s a))"

definition refs_ok :: "int \<Rightarrow> tensor list \<Rightarrow> heap \<Rightarrow> bool" where
  "refs_ok base ts h \<longleftrightarrow>
     (\<forall>a. h_stores h a = None \<longrightarrow> refs ts a = 0) \<and>
     (\<forall>a st. h_stores h a = Some st \<longrightarrow> 0 < refs ts a \<and> ref_count st = int (refs ts a) \<and> a < h_next h) \<and>
     h_blocks h = base + 3 * int (length ts) + total_blocks (h_stores h) (h_next h)"

lemma refs_simps [simp]:
  "refs [] a = 0" "refs (t # ts) a = (if t_storage t = a then refs ts a + 1 else refs ts a)"
  "refs (xs @ ys) a = refs xs a + refs ys a"
  by (simp_all add: refs_def)

lemma refs_pos: "t \<in> set ts \<Longrightarrow> 0 < refs ts (t_storage t)"
  by (auto simp: refs_def filter_empty_conv)

lemma refs_live: "refs_ok base ts h \<Longrightarrow> t \<in> set ts \<Longrightarrow> \<exists>st. h_stores h (t_storage t) = Some st"
  using refs_pos [of t ts] by (cases "h_stores h (t_storage t)") (force simp: refs_ok_def)+

lemma refs_mset: "refs ts a = size (filter_mset (\<lambda>t. t_storage t = a) (mset ts))"
  by (simp add: refs_def flip: mset_filter)

lemma refs_ok_perm:
  assumes "mset ts = mset us" shows "refs_ok base ts h \<longleftrightarrow> refs_ok base us h"
proof -
  have "refs ts = refs us" using assms by (intro ext) (simp add: refs_mset)
  moreover have "length ts = length us" using assms by (rule mset_eq_length)
  ultimately show ?thesis by (simp add: refs_ok_def)
qed

section \<open>Allocation\<close>

lemma alloc_cases:
  obtains "aligned_alloc_wrapper h = (True, h\<lparr>h_tried := h_tried h + 1, h_blocks := h_blocks h + 1\<rparr>)"
  | "aligned_alloc_wrapper h = (False, h\<lparr>h_tried := h_tried h + 1\<rparr>)"
  by (cases "h_ok h (h_tried h)") (auto simp: aligned_alloc_wrapper_def)

lemma view_alloc_cases:
  "\<exists>n. tensor_view_alloc h = (True, h\<lparr>h_tried := n, h_blocks := h_blocks h + 3\<rparr>) \<or>
       tensor_view_alloc h = (False, h\<lparr>h_tried := n\<rparr>)"
  by (rule exI [of _ "h_tried (snd (tensor_view_alloc h))"])
     (simp add: tensor_view_alloc_def aligned_alloc_wrapper_def free_block_def)

definition installed :: "heap \<Rightarrow> nat \<Rightarrow> nat \<Rightarrow> bytes option \<Rightarrow> heap" where
  "installed h n nb d =
     (let st = \<lparr>st_data = d, num_bytes = nb, ref_count = 1\<rparr> in
      h\<lparr>h_tried := n, h_blocks := h_blocks h + store_blocks (Some st),
        h_stores := (h_stores h)(h_next h \<mapsto> st), h_next := h_next h + 1\<rparr>)"

lemma storage_create_cases:
  "\<exists>n. (\<exists>d. SNEPPX_storage_create nb h = (Some (h_next h), installed h n nb d) \<and>
          (d = Some (replicate nb 0) \<or> nb = 0 \<and> d = None)) \<or>
       SNEPPX_storage_create nb h = (None, h\<lparr>h_tried := n\<rparr>)"
proof (cases "h_ok h (h_tried h) \<and> (nb = 0 \<or> h_ok h (h_tried h + 1))")
  case True
  then show ?thesis
    by (elim conjE disjE; intro exI [of _ "h_tried h + 2"] disjI1 exI [of _ "if h_ok h (h_tried h + 1) then Some (replicate nb 0) else None"])
       (simp_all add: SNEPPX_storage_create_def aligned_alloc_wrapper_def installed_def store_blocks_def)
next
  case False
  then show ?thesis
    by (intro exI [of _ "h_tried (snd (SNEPPX_storage_create nb h))"] disjI2)
       (simp add: SNEPPX_storage_create_def aligned_alloc_wrapper_def free_block_def)
qed

lemma refs_ok_tried [simp]: "refs_ok base ts (h\<lparr>h_tried := n\<rparr>) = refs_ok base ts h"
  by (simp add: refs_ok_def)

text \<open>What a successful creation does to the heap.\<close>

definition created :: "heap \<Rightarrow> nat list \<Rightarrow> dtype \<Rightarrow> tensor \<Rightarrow> heap \<Rightarrow> bool" where
  "created h shape dt t h' \<longleftrightarrow>
     (\<exists>n d. let nb = sz_mul (sz_prod shape) (SNEPPX_tensor_dtype_size dt) in
        (d = Some (replicate nb 0) \<or> nb = 0 \<and> d = None) \<and>
        t = fresh_tensor (h_next h) shape dt \<and> h' = installed (h\<lparr>h_blocks := h_blocks h + 3\<rparr>) n nb d)"

lemma create_cases:
  "(\<exists>t h'. SNEPPX_tensor_create (Some shape) dt h = (Some t, h') \<and> created h shape dt t h') \<or>
   (\<exists>n. SNEPPX_tensor_create (Some shape) dt h = (None, h\<lparr>h_tried := n\<rparr>))"
proof -
  let ?nb = "sz_mul (sz_prod shape) (SNEPPX_tensor_dtype_size dt)"
  obtain n where v: "tensor_view_alloc h = (True, h\<lparr>h_tried := n, h_blocks := h_blocks h + 3\<rparr>) \<or>
       tensor_view_alloc h = (False, h\<lparr>h_tried := n\<rparr>)" using view_alloc_cases by blast
  let ?h = "h\<lparr>h_tried := n, h_blocks := h_blocks h + 3\<rparr>"
  from storage_create_cases [of ?nb ?h] obtain m where
    s: "(\<exists>d. SNEPPX_storage_create ?nb ?h = (Some (h_next ?h), installed ?h m ?nb d) \<and>
          (d = Some (replicate ?nb 0) \<or> ?nb = 0 \<and> d = None)) \<or>
       SNEPPX_storage_create ?nb ?h = (None, ?h\<lparr>h_tried := m\<rparr>)" by blast
  have i: "installed ?h m ?nb d = installed (h\<lparr>h_blocks := h_blocks h + 3\<rparr>) m ?nb d" for d
    by (simp add: installed_def)
  from v s show ?thesis
    unfolding created_def SNEPPX_tensor_create_def i
    by (elim disjE exE conjE) (simp_all add: free_block_def, (metis (no_types))+)
qed

lemma total_new: "total_blocks (s(n \<mapsto> x)) (Suc n) = total_blocks s n + store_blocks (Some x)"
  by (simp add: total_blocks_def)

lemma total_change:
  assumes "a < n"
  shows "total_blocks (s(a := x)) n = total_blocks s n + store_blocks x - store_blocks (s a)"
proof -
  have r: "total_blocks f n = store_blocks (f a) + (\<Sum>b\<in>{..<n} - {a}. store_blocks (f b))" for f
    unfolding total_blocks_def by (rule sum.remove) (use assms in auto)
  have "(\<Sum>b\<in>{..<n} - {a}. store_blocks ((s(a := x)) b)) = (\<Sum>b\<in>{..<n} - {a}. store_blocks (s b))"
    by (rule sum.cong) auto
  with r [of "s(a := x)"] r [of s] show ?thesis by simp
qed

lemma refs_okD:
  assumes "refs_ok base ts h"
  shows "h_stores h a = None \<Longrightarrow> refs ts a = 0"
    and "h_stores h a = Some st \<Longrightarrow> 0 < refs ts a \<and> ref_count st = int (refs ts a) \<and> a < h_next h"
    and "h_next h \<le> a \<Longrightarrow> h_stores h a = None"
    and "h_blocks h = base + 3 * int (length ts) + total_blocks (h_stores h) (h_next h)"
  using assms by (auto simp: refs_ok_def simp del: not_None_eq) (metis not_le not_None_eq)

lemma refs_ok_created:
  assumes ok: "refs_ok base ts h" and c: "created h shape dt t h'"
  shows "refs_ok base (t # ts) h'"
proof -
  have "refs ts (h_next h) = 0" using refs_okD [OF ok] by simp
  then show ?thesis using ok c
    by (auto simp: refs_ok_def created_def Let_def fresh_tensor_def installed_def total_new less_SucI)
qed

lemma refs_ok_retained:
  assumes ok: "refs_ok base ts h" and t: "h_stores h (t_storage t) = Some st"
  shows "refs_ok base (t # ts) (h\<lparr>h_blocks := h_blocks h + 3, h_stores := (h_stores h)(t_storage t \<mapsto> st\<lparr>ref_count := ref_count st + 1\<rparr>)\<rparr>)"
  using refs_okD(2) [OF ok t] ok t
  by (auto simp: refs_ok_def total_change store_blocks_def)

lemma refs_ok_data:
  assumes "refs_ok base ts h" "h_stores h a = Some st" "st_data st \<noteq> None"
  shows "refs_ok base ts (h\<lparr>h_stores := (h_stores h)(a \<mapsto> st\<lparr>st_data := Some d\<rparr>)\<rparr>)"
  using refs_okD(2) [OF assms(1,2)] assms
  by (auto simp: refs_ok_def total_change store_blocks_def)

lemma refs_ok_store:
  assumes "refs_ok base ts h" "store_bytes h a pos bs = Inr h'" shows "refs_ok base ts h'"
  using assms refs_ok_data
  by (auto simp: store_bytes_def split: option.splits if_splits)

lemma refs_ok_destroy:
  assumes ok: "refs_ok base (t # ts) h"
  shows "\<exists>h'. SNEPPX_tensor_destroy (Some t) h = Inr h' \<and> refs_ok base ts h'"
proof -
  obtain st where st: "h_stores h (t_storage t) = Some st"
    using refs_live [OF ok] by auto
  note a = refs_okD(2) [OF ok st]
  have n: "refs ts b = 0" if "h_stores h b = None" for b
    using refs_okD(1) [OF ok that] by (simp split: if_splits)
  show ?thesis
  proof (cases "refs ts (t_storage t) = 0")
    case True
    then show ?thesis using ok st a n
      by (auto simp: SNEPPX_tensor_destroy_def SNEPPX_storage_release_def Let_def refs_ok_def total_change
          store_blocks_def free_block_def split: if_splits)
  next
    case False
    then show ?thesis using ok st a n
      by (auto simp: SNEPPX_tensor_destroy_def SNEPPX_storage_release_def Let_def refs_ok_def total_change
          store_blocks_def free_block_def split: if_splits)
  qed
qed

section \<open>Operations that make a tensor from a tensor\<close>

definition with_result :: "tensor option \<Rightarrow> tensor list \<Rightarrow> tensor list" where
  "with_result r ts = (case r of None \<Rightarrow> ts | Some t \<Rightarrow> t # ts)"

lemma with_result_simps [simp]: "with_result None ts = ts" "with_result (Some t) ts = t # ts"
  by (simp_all add: with_result_def)

text \<open>What a client relies on when it calls such an operation on a live tensor: the result is one
  more owner, and nothing else changes hands.\<close>

locale tensor_maker =
  fixes make :: "tensor \<Rightarrow> heap \<Rightarrow> (tensor option \<times> heap) run"
  assumes make_keeps:
    "refs_ok base ts h \<Longrightarrow> s \<in> set ts \<Longrightarrow> make s h = Inr (r, h') \<Longrightarrow> refs_ok base (with_result r ts) h'"
begin

lemma failed_make_keeps:
  "refs_ok base ts h \<Longrightarrow> s \<in> set ts \<Longrightarrow> make s h = Inr (None, h') \<Longrightarrow> refs_ok base ts h'"
  using make_keeps [of base ts h s None h'] by simp

lemma make_then_destroy:
  assumes "refs_ok base ts h" "s \<in> set ts" "make s h = Inr (Some t, h')"
  shows "\<exists>h''. SNEPPX_tensor_destroy (Some t) h' = Inr h'' \<and> refs_ok base ts h''"
  using make_keeps [OF assms] by (simp add: refs_ok_destroy)

end

lemma as_strided_keeps:
  assumes ok: "refs_ok base ts h" and s: "s \<in> set ts"
    and r: "SNEPPX_tensor_as_strided (Some s) off sh st h = Inr (r, h')"
  shows "refs_ok base (with_result r ts) h'"
proof -
  obtain n where "tensor_view_alloc h = (True, h\<lparr>h_tried := n, h_blocks := h_blocks h + 3\<rparr>) \<or>
       tensor_view_alloc h = (False, h\<lparr>h_tried := n\<rparr>)" using view_alloc_cases by blast
  then show ?thesis
  proof
    assume v: "tensor_view_alloc h = (True, h\<lparr>h_tried := n, h_blocks := h_blocks h + 3\<rparr>)"
    let ?t = "s\<lparr>t_offset := off, t_shape := sh, t_strides := st, t_size := sz_prod sh, t_owns_data := 0\<rparr>"
    obtain x where x: "h_stores h (t_storage s) = Some x" using refs_live [OF ok s] by blast
    from refs_ok_retained [of base ts "h\<lparr>h_tried := n\<rparr>" ?t x] ok x
    have "refs_ok base (?t # ts) (h\<lparr>h_tried := n, h_blocks := h_blocks h + 3,
        h_stores := (h_stores h)(t_storage s \<mapsto> x\<lparr>ref_count := ref_count x + 1\<rparr>)\<rparr>)" by simp
    then show ?thesis using r v x
      by (auto simp: SNEPPX_tensor_as_strided_def SNEPPX_storage_retain_def)
  next
    assume "tensor_view_alloc h = (False, h\<lparr>h_tried := n\<rparr>)"
    then show ?thesis using r ok by (auto simp: SNEPPX_tensor_as_strided_def)
  qed
qed

lemma create_keeps:
  assumes "refs_ok base ts h" "SNEPPX_tensor_create shape dt h = (r, h')"
  shows "refs_ok base (with_result r ts) h'"
proof (cases shape)
  case None
  then show ?thesis using assms by (simp add: SNEPPX_tensor_create_def)
next
  case (Some sh)
  then show ?thesis using assms create_cases [of sh dt h] by (auto intro: refs_ok_created)
qed

text \<open>A fresh tensor filled by one copy.\<close>

lemma create_store_keeps:
  assumes ok: "refs_ok base ts h"
    and r: "(case SNEPPX_tensor_create sh dt h of (None, h) \<Rightarrow> Inr (None, h)
       | (Some t, h) \<Rightarrow> bind_run (load_bytes h a p n) (\<lambda>bs. bind_run (store_bytes h (t_storage t) 0 bs) (\<lambda>h. Inr (Some t, h))))
       = Inr (r, h')"
  shows "refs_ok base (with_result r ts) h'"
proof -
  obtain t g where c: "SNEPPX_tensor_create sh dt h = (t, g)" by fastforce
  from create_keeps [OF ok c] r c show ?thesis
    by (cases t) (auto intro: refs_ok_store)
qed

datatype view_op = Narrow nat nat nat | Slice nat nat nat | Permute "nat list" | Transpose nat nat
  | Reshape "nat list" | Squeeze nat | Unsqueeze nat | Copy

fun run_view :: "view_op \<Rightarrow> tensor \<Rightarrow> heap \<Rightarrow> (tensor option \<times> heap) run" where
  "run_view (Narrow d a n) s = SNEPPX_tensor_narrow (Some s) d a n"
| "run_view (Slice d a b) s = SNEPPX_tensor_slice (Some s) d a b"
| "run_view (Permute axes) s = SNEPPX_tensor_permute (Some s) axes"
| "run_view (Transpose d e) s = SNEPPX_tensor_transpose (Some s) d e"
| "run_view (Reshape sh) s = SNEPPX_tensor_reshape (Some s) sh"
| "run_view (Squeeze d) s = SNEPPX_tensor_squeeze (Some s) d"
| "run_view (Unsqueeze d) s = SNEPPX_tensor_unsqueeze (Some s) d"
| "run_view Copy s = SNEPPX_tensor_copy (Some s)"

lemma local_dims_Inr: "local_dims n m = Inr x \<longleftrightarrow> n \<le> 16 \<and> m = Inr x"
  by (auto simp: local_dims_def)

lemma permute_keeps:
  assumes "refs_ok base ts h" "s \<in> set ts" "SNEPPX_tensor_permute (Some s) axes h = Inr (r, h')"
  shows "refs_ok base (with_result r ts) h'"
  using assms by (auto simp: SNEPPX_tensor_permute_def local_dims_Inr intro: as_strided_keeps)

lemma refs_ok_block: "refs_ok base ts (h\<lparr>h_blocks := b\<rparr>) \<longleftrightarrow> refs_ok (base + (h_blocks h - b)) ts h"
  by (auto simp: refs_ok_def)

lemma transpose_keeps:
  assumes ok: "refs_ok base ts h" and s: "s \<in> set ts"
    and r: "SNEPPX_tensor_transpose (Some s) d e h = Inr (r, h')"
  shows "refs_ok base (with_result r ts) h'"
proof (cases rule: alloc_cases [of h])
  case 1
  let ?h = "h\<lparr>h_tried := h_tried h + 1, h_blocks := h_blocks h + 1\<rparr>"
  have ok': "refs_ok (base + 1) ts ?h" using ok by (auto simp: refs_ok_def)
  show ?thesis
  proof (cases "d \<ge> t_ndim s \<or> e \<ge> t_ndim s")
    case True
    then show ?thesis using r ok by (auto simp: SNEPPX_tensor_transpose_def)
  next
    case False
    with r 1 obtain g where g: "SNEPPX_tensor_permute (Some s) ([0..<t_ndim s][d := e, e := d]) ?h = Inr (r, g)"
      and h': "h' = free_block True g"
      by (auto simp: SNEPPX_tensor_transpose_def)
    from permute_keeps [OF ok' s g] show ?thesis
      by (simp add: h' free_block_def refs_ok_block)
  qed
next
  case 2
  then show ?thesis using r ok by (auto simp: SNEPPX_tensor_transpose_def split: if_splits)
qed

lemma run_view_keeps:
  assumes ok: "refs_ok base ts h" and s: "s \<in> set ts" and r: "run_view op s h = Inr (r, h')"
  shows "refs_ok base (with_result r ts) h'"
proof (cases op)
  case (Reshape sh)
  with ok s r show ?thesis
    by (auto simp: SNEPPX_tensor_reshape_def local_dims_Inr split: if_splits
        intro: as_strided_keeps create_store_keeps)
next
  case (Transpose d e)
  with ok s r show ?thesis by (auto intro: transpose_keeps)
next
  case (Permute axes)
  with ok s r show ?thesis by (auto intro: permute_keeps)
next
  case Copy
  with ok s r show ?thesis by (auto simp: SNEPPX_tensor_copy_def intro: create_store_keeps)
next
  case (Squeeze d)
  with ok s r show ?thesis
    by (auto simp: SNEPPX_tensor_squeeze_def SNEPPX_tensor_copy_def local_dims_Inr split: if_splits
        intro: as_strided_keeps create_store_keeps)
qed (use ok s r in \<open>auto simp: SNEPPX_tensor_narrow_def SNEPPX_tensor_slice_def SNEPPX_tensor_unsqueeze_def
       local_dims_Inr split: if_splits intro: as_strided_keeps\<close>)

interpretation view: tensor_maker "run_view op" for op
  by unfold_locales (rule run_view_keeps)

section \<open>Programs that make and destroy tensors\<close>

inductive tensor_step :: "tensor list \<times> heap \<Rightarrow> tensor list \<times> heap \<Rightarrow> bool" where
  make_new: "SNEPPX_tensor_create shape dt h = (r, h') \<Longrightarrow> tensor_step (ts, h) (with_result r ts, h')"
| make_view: "s \<in> set ts \<Longrightarrow> run_view op s h = Inr (r, h') \<Longrightarrow> tensor_step (ts, h) (with_result r ts, h')"
| destroy: "SNEPPX_tensor_destroy (Some t) h = Inr h' \<Longrightarrow> tensor_step (xs @ t # ys, h) (xs @ ys, h')"

inductive_cases tensor_stepE: "tensor_step (ts, h) (us, g)"

lemma refs_ok_move: "refs_ok base (xs @ t # ys) h \<longleftrightarrow> refs_ok base (t # xs @ ys) h"
  by (rule refs_ok_perm) simp

lemma tensor_step_keeps: "tensor_step (ts, h) (us, g) \<Longrightarrow> refs_ok base ts h \<Longrightarrow> refs_ok base us g"
proof (erule tensor_stepE, goal_cases)
  case (3 t xs ys)
  then show ?case using refs_ok_destroy [of base t "xs @ ys" h] by (auto simp: refs_ok_move)
qed (auto intro: create_keeps view.make_keeps)

lemma tensor_steps_keep:
  "tensor_step\<^sup>*\<^sup>* (ts, h) (us, g) \<Longrightarrow> refs_ok base ts h \<Longrightarrow> refs_ok base us g"
  by (induction rule: rtranclp_induct2) (auto dest: tensor_step_keeps)

lemma refs_ok_empty: "refs_ok base [] h \<longleftrightarrow> h_stores h = Map.empty \<and> h_blocks h = base"
  by (auto simp: refs_ok_def total_blocks_def store_blocks_def fun_eq_iff)

lemma destroy_all:
  "refs_ok base ts h \<Longrightarrow>
   \<exists>h'. fold_run (\<lambda>t. SNEPPX_tensor_destroy (Some t)) ts h = Inr h' \<and> refs_ok base [] h'"
  by (induction ts arbitrary: h) (force dest: refs_ok_destroy)+

text \<open>C5. In every state a program reaches by creating tensors, making views and copies and destroying tensors,
  whichever allocations fail: the reference count of every storage is the number of live tensors on it, every
  live tensor's storage is allocated, and destroying the live tensors in any order meets no freed memory and gives
  back all storages and all blocks.\<close>

theorem tensor_ownership:
  assumes "h_stores h0 = Map.empty" "tensor_step\<^sup>*\<^sup>* ([], h0) (ts, h)"
  shows "(\<forall>a st. h_stores h a = Some st \<longrightarrow> ref_count st = int (refs ts a) \<and> 0 < refs ts a) \<and>
    (\<forall>t \<in> set ts. h_stores h (t_storage t) \<noteq> None) \<and>
    (\<forall>us. mset us = mset ts \<longrightarrow>
       (\<exists>h'. fold_run (\<lambda>t. SNEPPX_tensor_destroy (Some t)) us h = Inr h' \<and>
             h_stores h' = Map.empty \<and> h_blocks h' = h_blocks h0))"
proof -
  have "refs_ok (h_blocks h0) [] h0" using assms(1) by (simp add: refs_ok_empty)
  with tensor_steps_keep [OF assms(2)] have ok: "refs_ok (h_blocks h0) ts h" .
  moreover have "\<exists>h'. fold_run (\<lambda>t. SNEPPX_tensor_destroy (Some t)) us h = Inr h' \<and>
             h_stores h' = Map.empty \<and> h_blocks h' = h_blocks h0" if "mset us = mset ts" for us
    using destroy_all [of "h_blocks h0" us h] ok refs_ok_perm [OF that] by (auto simp: refs_ok_empty)
  ultimately show ?thesis using refs_okD(2) [OF ok] refs_live [OF ok] by auto
qed

definition empty_heap :: "(nat \<Rightarrow> bool) \<Rightarrow> heap" where
  "empty_heap ok = \<lparr>h_stores = Map.empty, h_next = 0, h_ok = ok, h_tried = 0, h_blocks = 0\<rparr>"

theorem tensor_ownership_witness:
  "\<exists>t h. SNEPPX_tensor_create (Some [2]) SNEPPX_INT8 (empty_heap (\<lambda>_. True)) = (Some t, h) \<and>
    (\<forall>a st. h_stores h a = Some st \<longrightarrow> ref_count st = int (refs [t] a) \<and> 0 < refs [t] a) \<and>
    (\<forall>t \<in> set [t]. h_stores h (t_storage t) \<noteq> None) \<and>
    (\<forall>us. mset us = mset [t] \<longrightarrow>
       (\<exists>h'. fold_run (\<lambda>t. SNEPPX_tensor_destroy (Some t)) us h = Inr h' \<and>
             h_stores h' = Map.empty \<and> h_blocks h' = h_blocks (empty_heap (\<lambda>_. True))))"
proof -
  let ?h0 = "empty_heap (\<lambda>_. True)"
  obtain t h where c: "SNEPPX_tensor_create (Some [2]) SNEPPX_INT8 ?h0 = (Some t, h)"
    by (simp add: SNEPPX_tensor_create_def tensor_view_alloc_def aligned_alloc_wrapper_def empty_heap_def
        SNEPPX_storage_create_def)
  have "tensor_step\<^sup>*\<^sup>* ([], ?h0) ([t], h)"
    using make_new [OF c, of "[]"] by simp
  from tensor_ownership [OF _ this] c show ?thesis
    by (intro exI [of _ t] exI [of _ h] conjI) (simp_all add: empty_heap_def)
qed

end
