(* ===== verification/Tensor_Index.thy ===== *)
theory Tensor_Index
  imports Tensor_Refs
begin

text \<open>
  Addresses of elements: \<open>compute_offset\<close> and the accessors of \<open>kernel/tensor/tensor.c\<close>, the bounds that
  creation establishes and views keep, and which element of the source a view's element is.
  Floating-point values are their bit patterns, on a little-endian machine.
\<close>

section \<open>Accessors\<close>

definition compute_offset :: "tensor \<Rightarrow> nat list \<Rightarrow> nat" where
  "compute_offset t indices =
     fold (\<lambda>i off. sz_add off (sz_mul (indices ! i) (t_strides t ! i))) [0..<t_ndim t] 0"

definition load_elem :: "nat \<Rightarrow> tensor \<Rightarrow> nat list \<Rightarrow> heap \<Rightarrow> bytes run" where
  "load_elem n t indices h = load_bytes h (t_storage t) (t_offset t * t_item t + compute_offset t indices * n) n"

definition store_elem :: "tensor \<Rightarrow> nat list \<Rightarrow> bytes \<Rightarrow> heap \<Rightarrow> heap run" where
  "store_elem t indices bs h =
     store_bytes h (t_storage t) (t_offset t * t_item t + compute_offset t indices * length bs) bs"

definition SNEPPX_tensor_get_f32 :: "tensor \<Rightarrow> nat list \<Rightarrow> heap \<Rightarrow> u32 run" where
  "SNEPPX_tensor_get_f32 t indices h =
     (if t_dtype t \<noteq> SNEPPX_FLOAT32 then Inr 0 else bind_run (load_elem 4 t indices h) (\<lambda>b. Inr (le32 b 0)))"

definition SNEPPX_tensor_set_f32 :: "tensor \<Rightarrow> nat list \<Rightarrow> u32 \<Rightarrow> heap \<Rightarrow> heap run" where
  "SNEPPX_tensor_set_f32 t indices v h =
     (if t_dtype t \<noteq> SNEPPX_FLOAT32 then Inr h else store_elem t indices (le32_bytes v) h)"

definition SNEPPX_tensor_get_f64 :: "tensor \<Rightarrow> nat list \<Rightarrow> heap \<Rightarrow> u64 run" where
  "SNEPPX_tensor_get_f64 t indices h =
     (if t_dtype t \<noteq> SNEPPX_FLOAT64 then Inr 0 else bind_run (load_elem 8 t indices h) (\<lambda>b. Inr (le64 b 0)))"

definition SNEPPX_tensor_set_f64 :: "tensor \<Rightarrow> nat list \<Rightarrow> u64 \<Rightarrow> heap \<Rightarrow> heap run" where
  "SNEPPX_tensor_set_f64 t indices v h =
     (if t_dtype t \<noteq> SNEPPX_FLOAT64 then Inr h else store_elem t indices (le64_bytes v) h)"

definition SNEPPX_tensor_get_i32 :: "tensor \<Rightarrow> nat list \<Rightarrow> heap \<Rightarrow> u32 run" where
  "SNEPPX_tensor_get_i32 t indices h =
     (if t_dtype t \<noteq> SNEPPX_INT32 then Inr 0 else bind_run (load_elem 4 t indices h) (\<lambda>b. Inr (le32 b 0)))"

definition SNEPPX_tensor_set_i32 :: "tensor \<Rightarrow> nat list \<Rightarrow> u32 \<Rightarrow> heap \<Rightarrow> heap run" where
  "SNEPPX_tensor_set_i32 t indices v h =
     (if t_dtype t \<noteq> SNEPPX_INT32 then Inr h else store_elem t indices (le32_bytes v) h)"

definition SNEPPX_tensor_get_i64 :: "tensor \<Rightarrow> nat list \<Rightarrow> heap \<Rightarrow> u64 run" where
  "SNEPPX_tensor_get_i64 t indices h =
     (if t_dtype t \<noteq> SNEPPX_INT64 then Inr 0 else bind_run (load_elem 8 t indices h) (\<lambda>b. Inr (le64 b 0)))"

definition SNEPPX_tensor_set_i64 :: "tensor \<Rightarrow> nat list \<Rightarrow> u64 \<Rightarrow> heap \<Rightarrow> heap run" where
  "SNEPPX_tensor_set_i64 t indices v h =
     (if t_dtype t \<noteq> SNEPPX_INT64 then Inr h else store_elem t indices (le64_bytes v) h)"

definition SNEPPX_tensor_get_bool :: "tensor \<Rightarrow> nat list \<Rightarrow> heap \<Rightarrow> u8 run" where
  "SNEPPX_tensor_get_bool t indices h =
     (if t_dtype t \<noteq> SNEPPX_BOOL then Inr 0 else bind_run (load_elem 1 t indices h) (\<lambda>b. Inr (b ! 0)))"

definition SNEPPX_tensor_set_bool :: "tensor \<Rightarrow> nat list \<Rightarrow> u8 \<Rightarrow> heap \<Rightarrow> heap run" where
  "SNEPPX_tensor_set_bool t indices v h =
     (if t_dtype t \<noteq> SNEPPX_BOOL then Inr h else store_elem t indices [if v \<noteq> 0 then 1 else 0] h)"

section \<open>Sizes without wrap-around\<close>

lemma wrap64_small: "n < 2 ^ 64 \<Longrightarrow> wrap64 n = n"
  by (simp add: wrap64_def)

lemma wrap64_0_1 [simp]: "wrap64 0 = 0" "wrap64 1 = 1" "wrap64 (Suc 0) = Suc 0"
  by (simp_all add: wrap64_def)

lemma wrap64_idem [simp]: "wrap64 (wrap64 n) = wrap64 n"
  by (simp add: wrap64_def)

lemma wrap64_add [simp]: "wrap64 (wrap64 a + b) = wrap64 (a + b)" "wrap64 (a + wrap64 b) = wrap64 (a + b)"
  unfolding wrap64_def by (rule mod_add_left_eq, rule mod_add_right_eq)

lemma wrap64_mult [simp]: "wrap64 (wrap64 a * b) = wrap64 (a * b)" "wrap64 (a * wrap64 b) = wrap64 (a * b)"
  unfolding wrap64_def by (rule mod_mult_left_eq, rule mod_mult_right_eq)

lemma sz_prod_wrap: "sz_prod xs = wrap64 (prod_list xs)"
proof -
  have "fold (\<lambda>d p. sz_mul p d) xs (wrap64 a) = wrap64 (a * prod_list xs)" for a
    by (induction xs arbitrary: a) (simp_all add: sz_mul_def mult.assoc)
  from this [of 1] show ?thesis by (simp add: sz_prod_def wrap64_def)
qed

lemma row_major_loop_Cons:
  "row_major_loop (d # ds) = (sz_mul (fst (row_major_loop ds)) d, fst (row_major_loop ds) # row_major ds)"
  by (simp add: row_major_loop_def row_major_def split: prod.split)

lemma row_major_loop_size: "fst (row_major_loop shape) = wrap64 (prod_list shape)"
  by (induction shape)
     (simp_all add: row_major_loop_Cons sz_mul_def mult.commute, simp add: row_major_loop_def wrap64_def)

lemma row_major_simps [simp]:
  "row_major [] = []" "row_major (d # ds) = wrap64 (prod_list ds) # row_major ds"
  by (simp_all add: row_major_def row_major_loop_Cons row_major_loop_size)
     (simp add: row_major_loop_def)

lemma length_row_major [simp]: "length (row_major shape) = length shape"
  by (induction shape) simp_all

lemma is_contiguous_iff:
  "length (t_strides t) = t_ndim t \<Longrightarrow>
   SNEPPX_tensor_is_contiguous (Some t) \<longleftrightarrow> t_strides t = row_major (t_shape t)"
proof -
  have "length st = length sh \<Longrightarrow>
    foldr (\<lambda>(d, s) (ok, expected). (ok \<and> s = expected, sz_mul expected d)) (zip sh st) (True, 1)
    = (st = row_major sh, wrap64 (prod_list sh))" for sh st
    by (induction st sh rule: list_induct2) (auto simp: sz_mul_def mult.commute)
  then show "length (t_strides t) = t_ndim t \<Longrightarrow> ?thesis"
    by (simp add: SNEPPX_tensor_is_contiguous_def)
qed

section \<open>Addresses\<close>

text \<open>The offset without wrap-around, and the greatest offset of an element.\<close>

fun dot_index :: "nat list \<Rightarrow> nat list \<Rightarrow> nat" where
  "dot_index (i # is) (s # ss) = i * s + dot_index is ss"
| "dot_index _ _ = 0"

definition valid_index :: "nat list \<Rightarrow> nat list \<Rightarrow> bool" where
  "valid_index shape idx \<longleftrightarrow> list_all2 (<) idx shape"

definition max_offset :: "tensor \<Rightarrow> nat" where
  "max_offset t = dot_index (map (\<lambda>d. d - 1) (t_shape t)) (t_strides t)"

text \<open>A tensor that stays inside a storage of \<open>n\<close> elements.\<close>

definition inside :: "nat \<Rightarrow> tensor \<Rightarrow> bool" where
  "inside n t \<longleftrightarrow> length (t_strides t) = t_ndim t \<and> n < 2 ^ 64 \<and>
     (0 \<notin> set (t_shape t) \<longrightarrow> t_offset t + max_offset t < n)"

lemma dot_index_nth:
  "length is = length ss \<Longrightarrow> dot_index is ss = (\<Sum>k<length ss. is ! k * ss ! k)"
  by (induction "is" ss rule: dot_index.induct) (auto simp: sum.lessThan_Suc_shift simp del: sum.lessThan_Suc)

lemma dot_index_mono: "list_all2 (\<le>) is js \<Longrightarrow> dot_index is ss \<le> dot_index js ss"
  by (induction "is" js arbitrary: ss rule: list_all2_induct)
     (auto simp: add_mono mult_le_mono1, (case_tac ss; simp add: add_mono)+)

lemma valid_indexD:
  assumes "valid_index shape idx"
  shows "length idx = length shape" "0 \<notin> set shape" "i < length shape \<Longrightarrow> idx ! i < shape ! i"
    "list_all2 (\<le>) idx (map (\<lambda>d. d - 1) shape)"
  using assms by (auto simp: valid_index_def list_all2_conv_all_nth in_set_conv_nth)

lemma compute_offset_dot:
  assumes "length (t_strides t) = t_ndim t" "length idx = t_ndim t"
  shows "compute_offset t idx = wrap64 (dot_index idx (t_strides t))"
proof -
  have "fold (\<lambda>i off. sz_add off (sz_mul (idx ! i) (t_strides t ! i))) [0..<n] 0
      = wrap64 (\<Sum>k<n. idx ! k * t_strides t ! k)" for n
    by (induction n) (simp_all add: sz_add_def sz_mul_def)
  then show ?thesis using assms by (simp add: compute_offset_def dot_index_nth)
qed

lemma compute_offset_inside:
  assumes "inside n t" "valid_index (t_shape t) idx"
  shows "compute_offset t idx = dot_index idx (t_strides t)"
    and "t_offset t + dot_index idx (t_strides t) < n"
proof -
  note v = valid_indexD [OF assms(2)]
  have "dot_index idx (t_strides t) \<le> max_offset t"
    unfolding max_offset_def by (rule dot_index_mono [OF v(4)])
  moreover have "t_offset t + max_offset t < n" using assms(1) v(2) by (simp add: inside_def)
  ultimately show b: "t_offset t + dot_index idx (t_strides t) < n" by simp
  then show "compute_offset t idx = dot_index idx (t_strides t)"
    using assms(1) v(1) by (simp add: compute_offset_dot wrap64_small inside_def)
qed

section \<open>Bounds of new tensors and views\<close>

lemma row_major_max_offset:
  assumes "0 \<notin> set shape" "prod_list shape < 2 ^ 64"
  shows "dot_index (map (\<lambda>d. d - 1) shape) (row_major shape) + 1 = prod_list shape"
  using assms
proof (induction shape)
  case (Cons d ds)
  have "prod_list ds \<le> prod_list (d # ds)" using Cons.prems(1) by simp
  then have "prod_list ds < 2 ^ 64" using Cons.prems(2) by (rule le_less_trans)
  with Cons have "dot_index (map (\<lambda>d. d - 1) (d # ds)) (row_major (d # ds)) + 1 = (d - 1) * prod_list ds + prod_list ds"
    by (simp add: wrap64_small)
  also have "\<dots> = d * prod_list ds" using Cons.prems(1) by (cases d) simp_all
  finally show ?case by simp
qed simp

lemma contiguous_inside:
  assumes "t_strides t = row_major (t_shape t)" "t_offset t + prod_list (t_shape t) \<le> n" "n < 2 ^ 64"
  shows "inside n t"
  using assms row_major_max_offset [of "t_shape t"] by (auto simp: inside_def max_offset_def)

lemma dot_index_update:
  "i < length xs \<Longrightarrow> length xs = length ss \<Longrightarrow> dot_index (xs[i := v]) ss + xs ! i * ss ! i = dot_index xs ss + v * ss ! i"
proof (induction xs ss arbitrary: i rule: dot_index.induct)
  case (1 a as s ss)
  then show ?case by (cases i) auto
qed auto

lemma dot_index_append:
  "length xs = length ss \<Longrightarrow> dot_index (xs @ ys) (ss @ ts) = dot_index xs ss + dot_index ys ts"
  by (induction xs ss rule: dot_index.induct) auto

lemma dot_index_split:
  assumes "k < length xs" "length xs = length ss"
  shows "dot_index xs ss = dot_index (drop_nth k xs) (drop_nth k ss) + xs ! k * ss ! k"
proof -
  have "dot_index (take k xs @ xs ! k # drop (Suc k) xs) (take k ss @ ss ! k # drop (Suc k) ss)
      = dot_index (drop_nth k xs) (drop_nth k ss) + xs ! k * ss ! k"
    using assms by (simp add: dot_index_append drop_nth_def)
  then show ?thesis using assms by (simp add: id_take_nth_drop [symmetric])
qed

lemma drop_nth_insert_nth [simp]: "k \<le> length xs \<Longrightarrow> drop_nth k (insert_nth k x xs) = xs"
  by (simp add: drop_nth_def insert_nth_def)

lemma insert_nth_facts [simp]:
  "k \<le> length xs \<Longrightarrow> length (insert_nth k x xs) = Suc (length xs)"
  "k \<le> length xs \<Longrightarrow> insert_nth k x xs ! k = x"
  by (simp_all add: insert_nth_def nth_append)

lemma map_drop_nth: "map f (drop_nth k xs) = drop_nth k (map f xs)"
  by (simp add: drop_nth_def take_map drop_map)

lemma length_drop_nth [simp]: "k < length xs \<Longrightarrow> length (drop_nth k xs) = length xs - 1"
  by (simp add: drop_nth_def)

lemma set_drop_nth: "k < length xs \<Longrightarrow> set xs = insert (xs ! k) (set (drop_nth k xs))"
proof -
  assume k: "k < length xs"
  have "set (take k xs @ xs ! k # drop (Suc k) xs) = insert (xs ! k) (set (drop_nth k xs))"
    by (auto simp: drop_nth_def)
  then show ?thesis using k by (simp add: id_take_nth_drop [symmetric])
qed

section \<open>Elements of views\<close>

definition contents :: "heap \<Rightarrow> nat \<Rightarrow> bytes option option" where
  "contents h a = map_option st_data (h_stores h a)"

lemma load_bytes_contents: "contents h a = contents g a \<Longrightarrow> load_bytes h a p n = load_bytes g a p n"
  by (cases "h_stores h a"; cases "h_stores g a") (simp_all add: contents_def load_bytes_def)

lemma as_strided_result:
  assumes "SNEPPX_tensor_as_strided (Some s) off sh st h = Inr (Some t, h')"
  shows "t = s\<lparr>t_offset := off, t_shape := sh, t_strides := st, t_size := sz_prod sh, t_owns_data := 0\<rparr>"
    and "contents h' = contents h"
proof -
  obtain n where "tensor_view_alloc h = (True, h\<lparr>h_tried := n, h_blocks := h_blocks h + 3\<rparr>) \<or>
       tensor_view_alloc h = (False, h\<lparr>h_tried := n\<rparr>)" using view_alloc_cases by blast
  with assms show "t = s\<lparr>t_offset := off, t_shape := sh, t_strides := st, t_size := sz_prod sh, t_owns_data := 0\<rparr>"
    and "contents h' = contents h"
    by (auto simp: SNEPPX_tensor_as_strided_def SNEPPX_storage_retain_def contents_def fun_eq_iff split: option.splits)
qed

text \<open>The bytes of an element at its address.\<close>

definition elem :: "tensor \<Rightarrow> nat list \<Rightarrow> heap \<Rightarrow> bytes run" where
  "elem t idx h = load_elem (t_item t) t idx h"

lemma elem_inside:
  assumes "inside n t" "valid_index (t_shape t) idx"
  shows "elem t idx h = load_bytes h (t_storage t) ((t_offset t + dot_index idx (t_strides t)) * t_item t) (t_item t)"
  by (simp add: elem_def load_elem_def compute_offset_inside(1) [OF assms] add_mult_distrib)

text \<open>The view shows, at every index, the element of the source at another valid index.\<close>

definition shows_source :: "nat \<Rightarrow> tensor \<Rightarrow> heap \<Rightarrow> tensor \<Rightarrow> heap \<Rightarrow> (nat list \<Rightarrow> nat list) \<Rightarrow> bool" where
  "shows_source n s h t h' f \<longleftrightarrow> inside n t \<and>
     (\<forall>idx. valid_index (t_shape t) idx \<longrightarrow> valid_index (t_shape s) (f idx) \<and> elem t idx h' = elem s (f idx) h)"

lemma shows_sourceI:
  assumes s: "inside n s" and r: "SNEPPX_tensor_as_strided (Some s) off sh st h = Inr (Some t, h')"
    and l: "length st = length sh"
    and f: "\<And>idx. valid_index sh idx \<Longrightarrow> valid_index (t_shape s) (f idx) \<and>
          off + dot_index idx st = t_offset s + dot_index (f idx) (t_strides s)"
  shows "shows_source n s h t h' f"
proof -
  note t = as_strided_result [OF r]
  have i: "inside n t"
  proof (cases "0 \<in> set sh")
    case False
    let ?m = "map (\<lambda>d. d - 1) sh"
    have "valid_index sh ?m" using False by (auto simp: valid_index_def list_all2_conv_all_nth in_set_conv_nth)
    from f [OF this] compute_offset_inside(2) [OF s, of "f ?m"] s l
    show ?thesis by (auto simp: inside_def max_offset_def t(1))
  qed (use s l in \<open>auto simp: inside_def t(1)\<close>)
  show ?thesis unfolding shows_source_def
  proof (intro conjI allI impI)
    fix idx assume v: "valid_index (t_shape t) idx"
    then have w: "valid_index sh idx" by (simp add: t(1))
    then show "valid_index (t_shape s) (f idx)" using f by blast
    then show "elem t idx h' = elem s (f idx) h"
      using elem_inside [OF i v] elem_inside [OF s, of "f idx"] f [OF w] fun_cong [OF t(2)]
      by (simp add: t(1) load_bytes_contents [of h' "t_storage s" h])
  qed (rule i)
qed

lemma narrow_shows:
  assumes s: "inside n s" and ov: "start + sz < 2 ^ 64"
    and r: "SNEPPX_tensor_narrow (Some s) dim start sz h = Inr (Some t, h')"
  shows "shows_source n s h t h' (\<lambda>idx. idx[dim := idx ! dim + start])"
proof -
  have d: "dim < t_ndim s" "start + sz \<le> t_shape s ! dim" and
    r': "SNEPPX_tensor_as_strided (Some s) (sz_add (t_offset s) (sz_mul start (t_strides s ! dim)))
      ((t_shape s)[dim := sz]) (t_strides s) h = Inr (Some t, h')"
    using r ov by (auto simp: SNEPPX_tensor_narrow_def local_dims_Inr sz_add_def wrap64_small split: if_splits)
  show ?thesis
  proof (rule shows_sourceI [OF s r'])
    fix idx assume v: "valid_index ((t_shape s)[dim := sz]) idx"
    let ?j = "idx[dim := idx ! dim + start]"
    note vd = valid_indexD(1,3) [OF v]
    have "?j ! i < t_shape s ! i" if "i < t_ndim s" for i
      using vd(2) [of i] vd(1) d that by (cases "i = dim") simp_all
    then have j: "valid_index (t_shape s) ?j"
      using vd(1) by (simp add: valid_index_def list_all2_conv_all_nth)
    have e: "dot_index ?j (t_strides s) = dot_index idx (t_strides s) + start * t_strides s ! dim"
      using dot_index_update [of dim idx "t_strides s" "idx ! dim + start"] vd d s
      by (simp add: inside_def add_mult_distrib)
    have "t_offset s + start * t_strides s ! dim < 2 ^ 64"
      using compute_offset_inside(2) [OF s j] s unfolding e inside_def by linarith
    then show "valid_index (t_shape s) ?j \<and>
        sz_add (t_offset s) (sz_mul start (t_strides s ! dim)) + dot_index idx (t_strides s) = t_offset s + dot_index ?j (t_strides s)"
      using j by (simp add: e sz_add_def sz_mul_def wrap64_small)
  qed (use s in \<open>simp add: inside_def\<close>)
qed

lemma slice_narrow:
  assumes "SNEPPX_tensor_slice (Some s) dim start stop h = Inr (Some t, h')"
  shows "start < stop" "stop \<le> t_shape s ! dim" "SNEPPX_tensor_narrow (Some s) dim start (stop - start) h = Inr (Some t, h')"
  using assms by (auto simp: SNEPPX_tensor_slice_def split: if_splits)

lemma nth_drop_nth: "i < length xs - 1 \<Longrightarrow> drop_nth k xs ! i = xs ! (if i < k then i else i + 1)"
  by (cases "k < length xs") (auto simp: drop_nth_def nth_append min_def)

lemma nth_insert_nth:
  "k \<le> length xs \<Longrightarrow> i \<le> length xs \<Longrightarrow>
   insert_nth k x xs ! i = (if i < k then xs ! i else if i = k then x else xs ! (i - 1))"
  by (auto simp: insert_nth_def nth_append nth_Cons' min_def)

lemma squeeze_shows:
  assumes s: "inside n s" and d: "dim < t_ndim s" "t_shape s ! dim = 1"
    and r: "SNEPPX_tensor_squeeze (Some s) dim h = Inr (Some t, h')"
  shows "shows_source n s h t h' (insert_nth dim 0)"
proof -
  have r': "SNEPPX_tensor_as_strided (Some s) (t_offset s) (drop_nth dim (t_shape s)) (drop_nth dim (t_strides s)) h = Inr (Some t, h')"
    using r d by (auto simp: SNEPPX_tensor_squeeze_def local_dims_Inr split: if_splits)
  have l: "length (t_strides s) = t_ndim s" using s by (simp add: inside_def)
  show ?thesis
  proof (rule shows_sourceI [OF s r'])
    fix idx assume v: "valid_index (drop_nth dim (t_shape s)) idx"
    then have li: "length idx = t_ndim s - 1" using valid_indexD(1) d(1) by fastforce
    have "insert_nth dim 0 idx ! i < t_shape s ! i" if "i < t_ndim s" for i
    proof (cases "i < dim")
      case True
      then show ?thesis using valid_indexD(3) [OF v, of i] d li by (simp add: nth_insert_nth nth_drop_nth)
    next
      case False
      show ?thesis
      proof (cases "i = dim")
        case False
        with \<open>\<not> i < dim\<close> obtain j where "i = Suc j" "dim \<le> j" by (cases i) auto
        then show ?thesis using valid_indexD(3) [OF v, of j] d li that by (simp add: nth_insert_nth nth_drop_nth)
      qed (use d li in \<open>simp add: nth_insert_nth\<close>)
    qed
    then have "valid_index (t_shape s) (insert_nth dim 0 idx)"
      using li d by (simp add: valid_index_def list_all2_conv_all_nth)
    moreover have "dot_index (insert_nth dim 0 idx) (t_strides s) = dot_index idx (drop_nth dim (t_strides s))"
      using dot_index_split [of dim "insert_nth dim 0 idx" "t_strides s"] li d l by simp
    ultimately show "valid_index (t_shape s) (insert_nth dim 0 idx) \<and>
        t_offset s + dot_index idx (drop_nth dim (t_strides s)) = t_offset s + dot_index (insert_nth dim 0 idx) (t_strides s)"
      by simp
  qed (use l d in simp)
qed

lemma unsqueeze_shows:
  assumes s: "inside n s" and r: "SNEPPX_tensor_unsqueeze (Some s) dim h = Inr (Some t, h')"
  shows "shows_source n s h t h' (drop_nth dim)"
proof -
  have d: "dim \<le> t_ndim s" and
    r': "SNEPPX_tensor_as_strided (Some s) (t_offset s) (insert_nth dim 1 (t_shape s)) (insert_nth dim 0 (t_strides s)) h = Inr (Some t, h')"
    using r by (auto simp: SNEPPX_tensor_unsqueeze_def local_dims_Inr split: if_splits)
  have l: "length (t_strides s) = t_ndim s" using s by (simp add: inside_def)
  show ?thesis
  proof (rule shows_sourceI [OF s r'])
    fix idx assume v: "valid_index (insert_nth dim 1 (t_shape s)) idx"
    then have li: "length idx = Suc (t_ndim s)" using valid_indexD(1) d by fastforce
    have "drop_nth dim idx ! i < t_shape s ! i" if "i < t_ndim s" for i
      using valid_indexD(3) [OF v, of "if i < dim then i else i + 1"] li d that
      by (cases "i < dim") (simp_all add: nth_drop_nth nth_insert_nth)
    then have "valid_index (t_shape s) (drop_nth dim idx)"
      using li d by (simp add: valid_index_def list_all2_conv_all_nth)
    moreover have "dot_index idx (insert_nth dim 0 (t_strides s)) = dot_index (drop_nth dim idx) (t_strides s)"
      using dot_index_split [of dim idx "insert_nth dim 0 (t_strides s)"] li d l by simp
    ultimately show "valid_index (t_shape s) (drop_nth dim idx) \<and>
        t_offset s + dot_index idx (insert_nth dim 0 (t_strides s)) = t_offset s + dot_index (drop_nth dim idx) (t_strides s)"
      by simp
  qed (use l d in simp)
qed

text \<open>A permutation of the axes.\<close>

lemma permute_sum:
  assumes "mset axes = mset [0..<m]" "length idx = m" "length ss = m" "length js = m"
    and "\<And>k. k < m \<Longrightarrow> js ! (axes ! k) = idx ! k"
  shows "dot_index idx (map (\<lambda>i. ss ! (axes ! i)) [0..<m]) = dot_index js ss"
proof -
  have l: "length axes = m" using mset_eq_length [OF assms(1)] by simp
  have s: "set axes = {..<m}" by (simp only: mset_eq_setD [OF assms(1)] atLeast_upt)
  have d: "distinct axes" by (simp only: mset_eq_imp_distinct_iff [OF assms(1)] distinct_upt)
  have b: "bij_betw ((!) axes) {..<m} {..<m}" by (rule bij_betw_nth [OF d]) (simp_all only: l s)
  have "dot_index idx (map (\<lambda>i. ss ! (axes ! i)) [0..<m]) = (\<Sum>k<m. js ! (axes ! k) * ss ! (axes ! k))"
    using assms by (simp add: dot_index_nth)
  also have "\<dots> = (\<Sum>k<m. js ! k * ss ! k)" by (rule sum.reindex_bij_betw [OF b])
  finally show ?thesis using assms by (simp add: dot_index_nth)
qed

lemma map_run_axes:
  assumes "length axes = m" "length xs = m" "\<forall>a \<in> set axes. a < m"
  shows "map_run (\<lambda>i. bind_run (load_cell axes i) (load_cell xs)) [0..<m] = Inr (map (\<lambda>i. xs ! (axes ! i)) [0..<m])"
  using assms by (intro map_run_Inr) simp

lemma permute_shows:
  assumes s: "inside n s" and a: "mset axes = mset [0..<t_ndim s]"
    and r: "SNEPPX_tensor_permute (Some s) axes h = Inr (Some t, h')"
    and lf: "\<And>idx. length idx = t_ndim s \<Longrightarrow> length (f idx) = t_ndim s"
    and f: "\<And>idx k. k < t_ndim s \<Longrightarrow> length idx = t_ndim s \<Longrightarrow> f idx ! (axes ! k) = idx ! k"
  shows "shows_source n s h t h' f"
proof -
  let ?m = "t_ndim s"
  have l: "length axes = ?m" "\<forall>x \<in> set axes. x < ?m" "length (t_strides s) = ?m"
    using mset_eq_length [OF a] mset_eq_setD [OF a] s by (auto simp: inside_def)
  have r': "SNEPPX_tensor_as_strided (Some s) (t_offset s) (map (\<lambda>i. t_shape s ! (axes ! i)) [0..<?m])
      (map (\<lambda>i. t_strides s ! (axes ! i)) [0..<?m]) h = Inr (Some t, h')"
    using r l by (simp add: SNEPPX_tensor_permute_def local_dims_Inr map_run_axes)
  show ?thesis
  proof (rule shows_sourceI [OF s r'])
    fix idx assume v: "valid_index (map (\<lambda>i. t_shape s ! (axes ! i)) [0..<?m]) idx"
    then have li: "length idx = ?m" using valid_indexD(1) by fastforce
    have "f idx ! j < t_shape s ! j" if "j < ?m" for j
    proof -
      have "j \<in> set axes" using that mset_eq_setD [OF a] by simp
      then obtain k where k: "k < ?m" "axes ! k = j" using l(1) by (auto simp: in_set_conv_nth)
      then show ?thesis using valid_indexD(3) [OF v, of k] f [OF k(1) li] by simp
    qed
    then have "valid_index (t_shape s) (f idx)" using lf [OF li] by (simp add: valid_index_def list_all2_conv_all_nth)
    moreover have "dot_index idx (map (\<lambda>i. t_strides s ! (axes ! i)) [0..<?m]) = dot_index (f idx) (t_strides s)"
      using permute_sum [OF a li l(3) lf [OF li]] f [OF _ li] by simp
    ultimately show "valid_index (t_shape s) (f idx) \<and>
      t_offset s + dot_index idx (map (\<lambda>i. t_strides s ! (axes ! i)) [0..<?m]) = t_offset s + dot_index (f idx) (t_strides s)"
      by simp
  qed simp
qed

section \<open>All views\<close>

text \<open>Where the axis \<open>j\<close> went.\<close>

definition axis_of :: "nat list \<Rightarrow> nat \<Rightarrow> nat" where
  "axis_of axes j = length (takeWhile (\<lambda>x. x \<noteq> j) axes)"

text \<open>The index of the source that a view's index stands for.\<close>

fun source_index :: "view_op \<Rightarrow> nat list \<Rightarrow> nat list" where
  "source_index (Narrow d a n) idx = idx[d := idx ! d + a]"
| "source_index (Slice d a b) idx = idx[d := idx ! d + a]"
| "source_index (Permute axes) idx = map (\<lambda>j. idx ! axis_of axes j) [0..<length idx]"
| "source_index (Transpose d e) idx = swap_cells idx d e"
| "source_index (Squeeze d) idx = insert_nth d 0 idx"
| "source_index (Unsqueeze d) idx = drop_nth d idx"
| "source_index _ idx = idx"

text \<open>The arguments for which a view is expected: sizes that do not wrap, a permutation of the axes, an axis
  of extent one.\<close>

fun view_args :: "view_op \<Rightarrow> tensor \<Rightarrow> bool" where
  "view_args (Narrow d a n) s \<longleftrightarrow> a + n < 2 ^ 64"
| "view_args (Slice d a b) s \<longleftrightarrow> b < 2 ^ 64"
| "view_args (Permute axes) s \<longleftrightarrow> mset axes = mset [0..<t_ndim s]"
| "view_args (Transpose d e) s \<longleftrightarrow> True"
| "view_args (Squeeze d) s \<longleftrightarrow> d < t_ndim s \<and> t_shape s ! d = 1"
| "view_args (Unsqueeze d) s \<longleftrightarrow> True"
| "view_args _ s \<longleftrightarrow> False"

lemma axis_of_nth: "distinct axes \<Longrightarrow> k < length axes \<Longrightarrow> axis_of axes (axes ! k) = k"
proof (induction axes arbitrary: k)
  case (Cons a axes)
  then show ?case by (cases k) (auto simp: axis_of_def)
qed simp

lemma contents_upd [simp]:
  "contents (h\<lparr>h_tried := n\<rparr>) = contents h" "contents (h\<lparr>h_blocks := b\<rparr>) = contents h"
  "contents (free_block p h) = contents h"
  by (simp_all add: contents_def fun_eq_iff free_block_def)

lemma transpose_permute:
  assumes "SNEPPX_tensor_transpose (Some s) d e h = Inr (Some t, h')"
  shows "d < t_ndim s" "e < t_ndim s"
    "\<exists>g g'. contents g = contents h \<and> contents h' = contents g' \<and>
       SNEPPX_tensor_permute (Some s) ([0..<t_ndim s][d := e, e := d]) g = Inr (Some t, g')"
proof -
  from assms obtain g where "d < t_ndim s" "e < t_ndim s" and
    g: "SNEPPX_tensor_permute (Some s) ([0..<t_ndim s][d := e, e := d])
        (h\<lparr>h_tried := h_tried h + 1, h_blocks := h_blocks h + 1\<rparr>) = Inr (Some t, g)" "h' = free_block True g"
    by (auto simp: SNEPPX_tensor_transpose_def aligned_alloc_wrapper_def split: if_splits)
  then show "d < t_ndim s" "e < t_ndim s" by blast+
  show "\<exists>g g'. contents g = contents h \<and> contents h' = contents g' \<and>
       SNEPPX_tensor_permute (Some s) ([0..<t_ndim s][d := e, e := d]) g = Inr (Some t, g')"
    by (intro exI conjI, rule_tac [3] g(1)) (simp_all add: g(2))
qed

lemma shows_source_contents:
  "contents g = contents h \<Longrightarrow> contents h' = contents g' \<Longrightarrow> shows_source n s g t g' f \<Longrightarrow> shows_source n s h t h' f"
  unfolding shows_source_def elem_def load_elem_def by (metis load_bytes_contents)

lemma swap_axes:
  assumes "d < m" "e < m"
  shows "mset ([0..<m][d := e, e := d]) = mset [0..<m]"
    "k < m \<Longrightarrow> length idx = m \<Longrightarrow> swap_cells idx d e ! ([0..<m][d := e, e := d] ! k) = idx ! k"
proof -
  have "[0..<m][d := e, e := d] = swap_cells [0..<m] d e"
    using assms by (simp add: swap_cells_def Let_def)
  then show "mset ([0..<m][d := e, e := d]) = mset [0..<m]" using assms by simp
  show "k < m \<Longrightarrow> length idx = m \<Longrightarrow> swap_cells idx d e ! ([0..<m][d := e, e := d] ! k) = idx ! k"
    using assms by (auto simp: nth_swap_cells nth_list_update)
qed

lemma view_shows:
  assumes s: "inside n s" and a: "view_args op s" and r: "run_view op s h = Inr (Some t, h')"
  shows "shows_source n s h t h' (source_index op)"
proof (cases op)
  case (Narrow d a b)
  with s a r narrow_shows show ?thesis by (simp add: shows_source_def)
next
  case (Slice d a b)
  with slice_narrow [of s d a b h t h'] r assms(2) narrow_shows [OF s, of a "b - a" d h t h']
  show ?thesis by (simp add: shows_source_def)
next
  case (Permute axes)
  then have m: "mset axes = mset [0..<t_ndim s]" using a by simp
  have d: "distinct axes" by (simp only: mset_eq_imp_distinct_iff [OF m] distinct_upt)
  have l: "length axes = t_ndim s" using mset_eq_length [OF m] by simp
  have x: "axes ! k < t_ndim s" if "k < t_ndim s" for k
  proof -
    have "axes ! k \<in> set [0..<t_ndim s]" using that by (simp only: mset_eq_setD [OF m, symmetric] l nth_mem)
    then show ?thesis by simp
  qed
  from r Permute show ?thesis
    by (intro permute_shows [OF s m]) (simp_all add: axis_of_nth d l x)
next
  case (Transpose d e)
  then have t: "SNEPPX_tensor_transpose (Some s) d e h = Inr (Some t, h')" using r by simp
  note p = transpose_permute [OF t]
  obtain g g' where g: "contents g = contents h" "contents h' = contents g'"
    "SNEPPX_tensor_permute (Some s) ([0..<t_ndim s][d := e, e := d]) g = Inr (Some t, g')" using p(3) by blast
  have "shows_source n s g t g' (\<lambda>idx. swap_cells idx d e)"
    by (rule permute_shows [OF s swap_axes(1) [OF p(1,2)] g(3)]) (simp_all add: swap_axes(2) p)
  from shows_source_contents [OF g(1,2) this] Transpose show ?thesis by (simp add: shows_source_def)
next
  case (Squeeze d)
  with s a r squeeze_shows [OF s, of d h t h'] show ?thesis by (simp add: shows_source_def)
next
  case (Unsqueeze d)
  with s a r unsqueeze_shows [OF s, of d h t h'] show ?thesis by (simp add: shows_source_def)
qed (use a in simp_all)

text \<open>C14. A view (narrow with \<open>start + size < 2 ^ 64\<close>, slice, permute by a permutation, transpose, squeeze of an axis of extent one, unsqueeze) of a tensor
  inside a storage of \<open>n\<close> elements that the code returns is inside it again, and each of its valid indices stands for a valid index of the source with the same
  bytes: adding the start, permuting or swapping indices, inserting or dropping the index of an axis of extent one. A narrow whose sum
  wraps around passes the check of the code and is not inside.\<close>

theorem view_elements:
  assumes "inside n s" "view_args op s" "run_view op s h = Inr (Some t, h')" "valid_index (t_shape t) idx"
  shows "inside n t \<and> t_offset t + compute_offset t idx < n \<and>
    valid_index (t_shape s) (source_index op idx) \<and> elem t idx h' = elem s (source_index op idx) h"
  using view_shows [OF assms(1-3)] assms(4) compute_offset_inside [of n t idx]
  by (auto simp: shows_source_def)

definition sample_heap :: "bytes \<Rightarrow> heap" where
  "sample_heap d = \<lparr>h_stores = [0 \<mapsto> \<lparr>st_data = Some d, num_bytes = length d, ref_count = 1\<rparr>], h_next = 1,
     h_ok = (\<lambda>_. True), h_tried = 0, h_blocks = 5\<rparr>"

theorem view_elements_witness:
  "\<exists>t h'. run_view (Transpose 0 1) (fresh_tensor 0 [2, 3] SNEPPX_INT8) (sample_heap [1, 2, 3, 4, 5, 6]) = Inr (Some t, h') \<and>
    inside 6 t \<and> t_offset t + compute_offset t [2, 1] < 6 \<and>
    valid_index [2, 3] (source_index (Transpose 0 1) [2, 1]) \<and>
    elem t [2, 1] h' = elem (fresh_tensor 0 [2, 3] SNEPPX_INT8) (source_index (Transpose 0 1) [2, 1]) (sample_heap [1, 2, 3, 4, 5, 6])"
proof -
  let ?s = "fresh_tensor 0 [2, 3] SNEPPX_INT8" and ?h = "sample_heap [1, 2, 3, 4, 5, 6]"
  have i: "inside 6 ?s" by (rule contiguous_inside) (simp_all add: fresh_tensor_def)
  have sh: "t_shape ?s = [2, 3]" "t_strides ?s = [3, 1]" "t_storage ?s = 0"
    by (simp_all add: fresh_tensor_def wrap64_def)
  obtain t h' where r: "run_view (Transpose 0 1) ?s ?h = Inr (Some t, h')" and t: "t_shape t = [3, 2]"
    by (simp add: SNEPPX_tensor_transpose_def sh sample_heap_def aligned_alloc_wrapper_def SNEPPX_tensor_permute_def
        local_dims_def SNEPPX_tensor_as_strided_def tensor_view_alloc_def SNEPPX_storage_retain_def upt_rec)
  from view_elements [OF i _ r, of "[2, 1]"] t r sh(1) show ?thesis
    by (simp add: valid_index_def)
qed

section \<open>Reading what was written\<close>

lemma le64_bytes_inverse: "le64 (le64_bytes v) 0 = v"
proof (rule bit_eqI)
  fix n assume "possible_bit TYPE(64 word) n"
  then consider "n < 8" | "8 \<le> n" "n < 16" | "16 \<le> n" "n < 24" | "24 \<le> n" "n < 32"
    | "32 \<le> n" "n < 40" | "40 \<le> n" "n < 48" | "48 \<le> n" "n < 56" | "56 \<le> n" "n < 64" by force
  then show "bit (le64 (le64_bytes v) 0) n = bit v n"
    by cases (auto simp: le64_def le64_bytes_def bit_simps)
qed

lemma row_major_dot_less:
  "valid_index shape idx \<Longrightarrow> prod_list shape < 2 ^ 64 \<Longrightarrow> dot_index idx (row_major shape) < prod_list shape"
proof -
  assume v: "valid_index shape idx" and p: "prod_list shape < 2 ^ 64"
  have "dot_index idx (row_major shape) \<le> dot_index (map (\<lambda>d. d - 1) shape) (row_major shape)"
    by (rule dot_index_mono [OF valid_indexD(4) [OF v]])
  with row_major_max_offset [OF valid_indexD(2) [OF v] p] show ?thesis by simp
qed

lemma row_major_inj:
  "valid_index shape i \<Longrightarrow> valid_index shape j \<Longrightarrow> prod_list shape < 2 ^ 64 \<Longrightarrow>
   dot_index i (row_major shape) = dot_index j (row_major shape) \<Longrightarrow> i = j"
proof (induction shape arbitrary: i j)
  case (Cons d ds)
  obtain a as b bs where ij: "i = a # as" "j = b # bs" "a < d" "b < d" "valid_index ds as" "valid_index ds bs"
    using Cons.prems(1,2) by (auto simp: valid_index_def list_all2_Cons2)
  have "prod_list ds \<le> prod_list (d # ds)" using ij(3) by simp
  then have p: "prod_list ds < 2 ^ 64" using Cons.prems(3) by (rule le_less_trans)
  let ?p = "prod_list ds" and ?x = "dot_index as (row_major ds)" and ?y = "dot_index bs (row_major ds)"
  have e: "a * ?p + ?x = b * ?p + ?y" using Cons.prems(4) p ij by (simp add: wrap64_small)
  have l: "?x < ?p" "?y < ?p" using row_major_dot_less [OF _ p] ij by blast+
  have "(a * ?p + ?x) div ?p = a" "(a * ?p + ?x) mod ?p = ?x" "(b * ?p + ?y) div ?p = b" "(b * ?p + ?y) mod ?p = ?y"
    using l by (simp_all add: div_add1_eq)
  then have "a = b" "?x = ?y" using e by metis+
  then show ?case using Cons.IH [OF ij(5,6) p] ij(1,2) by simp
qed (simp add: valid_index_def)

text \<open>A contiguous tensor whose elements its storage holds.\<close>

definition holds :: "heap \<Rightarrow> tensor \<Rightarrow> bool" where
  "holds h t \<longleftrightarrow> t_strides t = row_major (t_shape t) \<and> t_offset t + prod_list (t_shape t) < 2 ^ 64 \<and>
     (\<exists>d. contents h (t_storage t) = Some (Some d) \<and> (t_offset t + prod_list (t_shape t)) * t_item t \<le> length d)"

lemma take_drop_put:
  assumes "p + length bs \<le> length d" "q + n \<le> p \<or> p + length bs \<le> q"
  shows "take n (drop q (put_bytes d p bs)) = take n (drop q d)"
  using assms by (auto simp: put_bytes_def min_def drop_take)

lemma load_store_same:
  assumes "contents h a = Some (Some d)" "p + length bs \<le> length d" "bs \<noteq> []"
  obtains h' where "store_bytes h a p bs = Inr h'" "load_bytes h' a p (length bs) = Inr bs"
    "contents h' a = Some (Some (put_bytes d p bs))"
    "\<And>q n. 0 < n \<Longrightarrow> q + n \<le> length d \<Longrightarrow> q + n \<le> p \<or> p + length bs \<le> q \<Longrightarrow> load_bytes h' a q n = load_bytes h a q n"
proof -
  obtain st where st: "h_stores h a = Some st" "st_data st = Some d"
    using assms(1) by (auto simp: contents_def)
  let ?h = "h\<lparr>h_stores := (h_stores h)(a \<mapsto> st\<lparr>st_data := Some (put_bytes d p bs)\<rparr>)\<rparr>"
  have s: "store_bytes h a p bs = Inr ?h" using st assms by (simp add: store_bytes_def)
  have "load_bytes ?h a p (length bs) = Inr bs"
    using st assms by (simp add: load_bytes_def) (simp add: put_bytes_def)
  moreover have "load_bytes ?h a q n = load_bytes h a q n"
    if "0 < n" "q + n \<le> length d" "q + n \<le> p \<or> p + length bs \<le> q" for q n
    using st that assms take_drop_put [of p bs d q n] by (simp add: load_bytes_def)
  ultimately show thesis using that [OF s] by (simp add: contents_def)
qed

lemma store_elem_load:
  assumes h: "holds h t" and v: "valid_index (t_shape t) idx" and l: "length bs = t_item t" "bs \<noteq> []"
  obtains h' where "store_elem t idx bs h = Inr h'" "load_elem (t_item t) t idx h' = Inr bs"
    "\<And>j. valid_index (t_shape t) j \<Longrightarrow> j \<noteq> idx \<Longrightarrow> load_elem (t_item t) t j h' = load_elem (t_item t) t j h"
proof -
  let ?n = "t_offset t + prod_list (t_shape t)" and ?a = "t_storage t" and ?k = "t_item t"
  obtain d where d: "contents h ?a = Some (Some d)" "?n * ?k \<le> length d" using h by (auto simp: holds_def)
  have i: "inside ?n t" by (rule contiguous_inside) (use h in \<open>simp_all add: holds_def\<close>)
  define pos where "pos j = (t_offset t + dot_index j (t_strides t)) * ?k" for j
  have pos: "t_offset t * ?k + compute_offset t j * ?k = pos j" if "valid_index (t_shape t) j" for j
    using compute_offset_inside(1) [OF i that] by (simp add: pos_def add_mult_distrib)
  have up: "pos j + ?k \<le> length d" if "valid_index (t_shape t) j" for j
  proof -
    have "(t_offset t + dot_index j (t_strides t) + 1) * ?k \<le> ?n * ?k"
      using compute_offset_inside(2) [OF i that] by (intro mult_le_mono1) simp
    then show ?thesis using d(2) by (simp add: pos_def)
  qed
  have dj: "pos j + ?k \<le> pos idx \<or> pos idx + ?k \<le> pos j" if "valid_index (t_shape t) j" "j \<noteq> idx" for j
  proof -
    have "dot_index j (t_strides t) \<noteq> dot_index idx (t_strides t)"
      using row_major_inj [OF that(1) v] that(2) h by (auto simp: holds_def)
    moreover have "(t_offset t + x) * ?k + ?k \<le> (t_offset t + y) * ?k" if "x < y" for x y
      using mult_le_mono1 [of "Suc (t_offset t + x)" "t_offset t + y" ?k] that by simp
    ultimately show ?thesis unfolding pos_def by (meson nat_neq_iff)
  qed
  from load_store_same [OF d(1) _ l(2), of "pos idx"] up [OF v] l(1)
  obtain h' where h': "store_bytes h ?a (pos idx) bs = Inr h'" "load_bytes h' ?a (pos idx) ?k = Inr bs"
    "\<And>q n. 0 < n \<Longrightarrow> q + n \<le> length d \<Longrightarrow> q + n \<le> pos idx \<or> pos idx + ?k \<le> q \<Longrightarrow> load_bytes h' ?a q n = load_bytes h ?a q n"
    by metis
  have "0 < ?k" unfolding l(1) [symmetric] using l(2) by simp
  then show thesis using that [of h'] h' up dj pos v l by (simp add: store_elem_def load_elem_def)
qed

text \<open>Writing an element of a contiguous tensor that its storage holds succeeds; reading it back gives the
  written value, and every other element reads as before, for 32-bit floats and 64-bit integers (by their bits).
  A tensor of another type is left alone and reads as zero.\<close>

theorem tensor_set_get:
  assumes "holds h t" "valid_index (t_shape t) idx" "t_item t = SNEPPX_tensor_dtype_size (t_dtype t)"
  shows "(t_dtype t = SNEPPX_FLOAT32 \<longrightarrow> (\<exists>h'. SNEPPX_tensor_set_f32 t idx v h = Inr h' \<and>
      SNEPPX_tensor_get_f32 t idx h' = Inr v \<and>
      (\<forall>j. valid_index (t_shape t) j \<longrightarrow> j \<noteq> idx \<longrightarrow> SNEPPX_tensor_get_f32 t j h' = SNEPPX_tensor_get_f32 t j h))) \<and>
    (t_dtype t = SNEPPX_INT64 \<longrightarrow> (\<exists>h'. SNEPPX_tensor_set_i64 t idx w h = Inr h' \<and>
      SNEPPX_tensor_get_i64 t idx h' = Inr w \<and>
      (\<forall>j. valid_index (t_shape t) j \<longrightarrow> j \<noteq> idx \<longrightarrow> SNEPPX_tensor_get_i64 t j h' = SNEPPX_tensor_get_i64 t j h))) \<and>
    (t_dtype t \<noteq> SNEPPX_FLOAT32 \<longrightarrow> SNEPPX_tensor_set_f32 t idx v h = Inr h \<and> SNEPPX_tensor_get_f32 t idx h = Inr 0)"
proof (intro conjI impI)
  assume f: "t_dtype t = SNEPPX_FLOAT32"
  then have k: "t_item t = 4" using assms(3) by (simp add: SNEPPX_tensor_dtype_size_def)
  then have "length (le32_bytes v) = t_item t" "le32_bytes v \<noteq> []" by (simp_all add: le32_bytes_def)
  from store_elem_load [OF assms(1,2) this] obtain h' where "store_elem t idx (le32_bytes v) h = Inr h'"
    "load_elem 4 t idx h' = Inr (le32_bytes v)"
    "\<And>j. valid_index (t_shape t) j \<Longrightarrow> j \<noteq> idx \<Longrightarrow> load_elem 4 t j h' = load_elem 4 t j h" unfolding k by blast
  then show "\<exists>h'. SNEPPX_tensor_set_f32 t idx v h = Inr h' \<and> SNEPPX_tensor_get_f32 t idx h' = Inr v \<and>
      (\<forall>j. valid_index (t_shape t) j \<longrightarrow> j \<noteq> idx \<longrightarrow> SNEPPX_tensor_get_f32 t j h' = SNEPPX_tensor_get_f32 t j h)"
    using f by (intro exI [of _ h']) (simp add: SNEPPX_tensor_set_f32_def SNEPPX_tensor_get_f32_def le32_bytes_inverse)
next
  assume f: "t_dtype t = SNEPPX_INT64"
  then have k: "t_item t = 8" using assms(3) by (simp add: SNEPPX_tensor_dtype_size_def)
  then have "length (le64_bytes w) = t_item t" "le64_bytes w \<noteq> []" by (simp_all add: le64_bytes_def)
  from store_elem_load [OF assms(1,2) this] obtain h' where "store_elem t idx (le64_bytes w) h = Inr h'"
    "load_elem 8 t idx h' = Inr (le64_bytes w)"
    "\<And>j. valid_index (t_shape t) j \<Longrightarrow> j \<noteq> idx \<Longrightarrow> load_elem 8 t j h' = load_elem 8 t j h" unfolding k by blast
  then show "\<exists>h'. SNEPPX_tensor_set_i64 t idx w h = Inr h' \<and> SNEPPX_tensor_get_i64 t idx h' = Inr w \<and>
      (\<forall>j. valid_index (t_shape t) j \<longrightarrow> j \<noteq> idx \<longrightarrow> SNEPPX_tensor_get_i64 t j h' = SNEPPX_tensor_get_i64 t j h)"
    using f by (intro exI [of _ h']) (simp add: SNEPPX_tensor_set_i64_def SNEPPX_tensor_get_i64_def le64_bytes_inverse)
qed (simp_all add: SNEPPX_tensor_set_f32_def SNEPPX_tensor_get_f32_def)

theorem tensor_set_get_witness:
  "\<exists>h'. SNEPPX_tensor_set_f32 (fresh_tensor 0 [2, 2] SNEPPX_FLOAT32) [1, 0] 0x3f800000 (sample_heap (replicate 16 0)) = Inr h' \<and>
      SNEPPX_tensor_get_f32 (fresh_tensor 0 [2, 2] SNEPPX_FLOAT32) [1, 0] h' = Inr 0x3f800000"
proof -
  let ?t = "fresh_tensor 0 [2, 2] SNEPPX_FLOAT32" and ?h = "sample_heap (replicate 16 0)"
  have "holds ?h ?t" "valid_index (t_shape ?t) [1, 0]" "t_item ?t = SNEPPX_tensor_dtype_size (t_dtype ?t)" "t_dtype ?t = SNEPPX_FLOAT32"
    by (simp_all add: holds_def fresh_tensor_def sample_heap_def contents_def valid_index_def SNEPPX_tensor_dtype_size_def)
  from tensor_set_get [OF this(1-3), of "0x3f800000"] this(4) show ?thesis by blast
qed

end
