(* ===== verification/Tensor_Copy.thy ===== *)
theory Tensor_Copy
  imports Tensor_Index
begin

text \<open>
  The operations of \<open>kernel/tensor/tensor.c\<close> that fill new tensors and copy elements between
  tensors: constant tensors, contiguous copies, broadcasting, tiling, gathering and scattering,
  concatenation, splitting and masks.
\<close>

section \<open>Constant tensors\<close>

abbreviation data_pos :: "tensor \<Rightarrow> nat" where "data_pos t \<equiv> t_offset t * t_item t"

definition bind_new :: "tensor option \<times> heap \<Rightarrow> (tensor \<Rightarrow> heap \<Rightarrow> (tensor option \<times> heap) run) \<Rightarrow> (tensor option \<times> heap) run" where
  "bind_new r f = (case r of (None, h) \<Rightarrow> Inr (None, h) | (Some t, h) \<Rightarrow> f t h)"

text \<open>\<open>for (i = 0; i < n; i++) data[i] = v\<close> for cells of the size of \<open>v\<close>.\<close>

definition fill_cells :: "tensor \<Rightarrow> nat \<Rightarrow> bytes \<Rightarrow> heap \<Rightarrow> heap run" where
  "fill_cells t n v h =
     fold_run (\<lambda>i h. store_bytes h (t_storage t) (data_pos t + i * length v) v) [0..<n] h"

definition SNEPPX_tensor_empty :: "nat list option \<Rightarrow> dtype \<Rightarrow> heap \<Rightarrow> tensor option \<times> heap" where
  "SNEPPX_tensor_empty shape dt h = SNEPPX_tensor_create shape dt h"

definition SNEPPX_tensor_zeros :: "nat list option \<Rightarrow> dtype \<Rightarrow> heap \<Rightarrow> (tensor option \<times> heap) run" where
  "SNEPPX_tensor_zeros shape dt h =
     bind_new (SNEPPX_tensor_create shape dt h) (\<lambda>t h.
       bind_run (store_bytes h (t_storage t) (data_pos t) (replicate (sz_mul (t_size t) (t_item t)) 0)) (\<lambda>h.
       Inr (Some t, h)))"

definition f32_one :: u32 where "f32_one = 0x3f800000"
definition f64_one :: u64 where "f64_one = 0x3ff0000000000000"

definition SNEPPX_tensor_ones :: "nat list option \<Rightarrow> dtype \<Rightarrow> heap \<Rightarrow> (tensor option \<times> heap) run" where
  "SNEPPX_tensor_ones shape dt h =
     bind_new (SNEPPX_tensor_create shape dt h) (\<lambda>t h.
       bind_run
         (if dt \<in> {SNEPPX_FLOAT32, SNEPPX_FLOAT16, SNEPPX_BFLOAT16, SNEPPX_FLOAT8}
            then fill_cells t (t_size t) (le32_bytes f32_one) h
          else if dt = SNEPPX_FLOAT64 then fill_cells t (t_size t) (le64_bytes f64_one) h
          else if dt \<in> {SNEPPX_INT32, SNEPPX_INT64, SNEPPX_INT16, SNEPPX_INT8, SNEPPX_UINT8, SNEPPX_BOOL}
            then store_bytes h (t_storage t) (data_pos t) (replicate (sz_mul (t_size t) (t_item t)) 1)
          else Inr h)
         (\<lambda>h. Inr (Some t, h)))"

text \<open>\<open>value\<close> points to one item.\<close>

definition SNEPPX_tensor_full ::
  "nat list option \<Rightarrow> dtype \<Rightarrow> bytes option \<Rightarrow> heap \<Rightarrow> (tensor option \<times> heap) run" where
  "SNEPPX_tensor_full shape dt v h =
     bind_new (SNEPPX_tensor_create shape dt h) (\<lambda>t h.
       case v of None \<Rightarrow> Inr (Some t, h)
       | Some v \<Rightarrow> bind_run (fill_cells t (t_size t) (take (t_item t) v) h) (\<lambda>h. Inr (Some t, h)))"

definition SNEPPX_tensor_fill_f32 :: "tensor option \<Rightarrow> u32 \<Rightarrow> heap \<Rightarrow> heap run" where
  "SNEPPX_tensor_fill_f32 t v h =
     (case t of None \<Rightarrow> Inr h
      | Some t \<Rightarrow> if t_dtype t \<noteq> SNEPPX_FLOAT32 then Inr h else fill_cells t (t_size t) (le32_bytes v) h)"

definition SNEPPX_tensor_fill_f64 :: "tensor option \<Rightarrow> u64 \<Rightarrow> heap \<Rightarrow> heap run" where
  "SNEPPX_tensor_fill_f64 t v h =
     (case t of None \<Rightarrow> Inr h
      | Some t \<Rightarrow> if t_dtype t \<noteq> SNEPPX_FLOAT64 then Inr h else fill_cells t (t_size t) (le64_bytes v) h)"

definition SNEPPX_tensor_eye :: "nat \<Rightarrow> dtype \<Rightarrow> heap \<Rightarrow> (tensor option \<times> heap) run" where
  "SNEPPX_tensor_eye n dt h =
     bind_run (SNEPPX_tensor_zeros (Some [n, n]) dt h) (\<lambda>r. bind_new r (\<lambda>t h.
       bind_run (fold_run (\<lambda>i h. store_bytes h (t_storage t) (data_pos t + (i * n + i) * t_item t)
           (if dt = SNEPPX_FLOAT64 then le64_bytes f64_one
            else if dt = SNEPPX_INT32 \<or> dt = SNEPPX_INT64 then replicate (t_item t) 1
            else le32_bytes f32_one)) [0..<n] h) (\<lambda>h. Inr (Some t, h))))"

definition SNEPPX_tensor_clone :: "tensor option \<Rightarrow> heap \<Rightarrow> (tensor option \<times> heap) run" where
  "SNEPPX_tensor_clone src h = SNEPPX_tensor_copy src h"

definition SNEPPX_tensor_to_device :: "tensor option \<Rightarrow> device \<Rightarrow> heap \<Rightarrow> (tensor option \<times> heap) run" where
  "SNEPPX_tensor_to_device src device h =
     bind_run (SNEPPX_tensor_copy src h) (\<lambda>r. bind_new r (\<lambda>d h. Inr (Some (d\<lparr>t_device := device\<rparr>), h)))"

section \<open>Element copies\<close>

text \<open>The loop that recovers the indices of the element \<open>flat\<close> from the strides, last dimension first.\<close>

definition unflatten :: "nat list \<Rightarrow> nat list \<Rightarrow> nat \<Rightarrow> nat list" where
  "unflatten shape strides flat =
     snd (foldr (\<lambda>(d, s) (tmp, idx). if s > 0 then (tmp mod s, (tmp div s) mod d # idx) else (tmp, 0 # idx))
            (zip shape strides) (flat, []))"

text \<open>Copies the item at element \<open>f flat\<close> of the source to element \<open>flat\<close> of the destination.\<close>

definition copy_items :: "tensor \<Rightarrow> tensor \<Rightarrow> (nat \<Rightarrow> nat) \<Rightarrow> nat \<Rightarrow> heap \<Rightarrow> heap run" where
  "copy_items src dst f n h =
     fold_run (\<lambda>flat h.
       bind_run (load_bytes h (t_storage src) (data_pos src + f flat * t_item src) (t_item src)) (\<lambda>b.
       store_bytes h (t_storage dst) (data_pos dst + flat * t_item src) b)) [0..<n] h"

text \<open>A scratch array of indices; the new tensor is given up when there is no memory for it.\<close>

definition with_indices :: "tensor \<Rightarrow> (heap \<Rightarrow> heap run) \<Rightarrow> heap \<Rightarrow> (tensor option \<times> heap) run" where
  "with_indices t body h =
     (let (ok, h) = aligned_alloc_wrapper h in
      if \<not> ok then bind_run (SNEPPX_tensor_destroy (Some t) h) (\<lambda>h. Inr (None, h))
      else bind_run (body h) (\<lambda>h. Inr (Some t, free_block True h)))"

definition SNEPPX_tensor_contiguous :: "tensor option \<Rightarrow> heap \<Rightarrow> (tensor option \<times> heap) run" where
  "SNEPPX_tensor_contiguous src h =
     (case src of None \<Rightarrow> Inr (None, h)
      | Some s \<Rightarrow>
         if SNEPPX_tensor_is_contiguous src
         then bind_run (SNEPPX_storage_retain (Some (t_storage s)) h)
                (SNEPPX_tensor_as_strided src (t_offset s) (t_shape s) (t_strides s))
         else bind_new (SNEPPX_tensor_create (Some (t_shape s)) (t_dtype s) h) (\<lambda>r.
                with_indices r (copy_items s r
                  (\<lambda>flat. compute_offset s (unflatten (t_shape s) (t_strides s) flat)) (t_size s))))"

definition expand_indices :: "tensor \<Rightarrow> tensor \<Rightarrow> nat \<Rightarrow> nat list" where
  "expand_indices src r flat =
     (let dst_indices = unflatten (t_shape r) (t_strides r) flat;
          offset_src = t_ndim r - t_ndim src
      in map (\<lambda>i. let sdim = dst_indices ! (i + offset_src) in if sdim \<ge> t_shape src ! i then 0 else sdim)
           [0..<t_ndim src])"

definition SNEPPX_tensor_expand :: "tensor option \<Rightarrow> nat list \<Rightarrow> heap \<Rightarrow> (tensor option \<times> heap) run" where
  "SNEPPX_tensor_expand src new_shape h =
     (case src of None \<Rightarrow> Inr (None, h)
      | Some s \<Rightarrow>
         if length new_shape < t_ndim s then Inr (None, h)
         else bind_new (SNEPPX_tensor_empty (Some new_shape) (t_dtype s) h) (\<lambda>r h.
           let (p, h) = aligned_alloc_wrapper h; (q, h) = aligned_alloc_wrapper h in
           if \<not> p \<or> \<not> q
           then bind_run (SNEPPX_tensor_destroy (Some r) (free_block q (free_block p h))) (\<lambda>h. Inr (None, h))
           else bind_run (copy_items s r (\<lambda>flat. compute_offset s (expand_indices s r flat)) (t_size r) h)
                  (\<lambda>h. Inr (Some r, free_block True (free_block True h)))))"

definition tile_shape :: "nat list \<Rightarrow> nat list \<Rightarrow> nat list" where
  "tile_shape shape reps =
     (let out_ndim = max (length shape) (length reps); offset = out_ndim - length shape
      in map (\<lambda>i. sz_mul (if i < offset then 1 else shape ! (i - offset)) (if i < length reps then reps ! i else 1))
           [0..<out_ndim])"

definition tile_source :: "tensor \<Rightarrow> tensor \<Rightarrow> nat \<Rightarrow> nat" where
  "tile_source src r flat =
     (let indices = unflatten (t_shape r) (t_strides r) flat; offset = t_ndim r - t_ndim src
      in fold (\<lambda>i src_flat. sz_add src_flat (sz_mul (indices ! (offset + i) mod t_shape src ! i) (t_strides src ! i)))
           [0..<t_ndim src] 0)"

definition SNEPPX_tensor_tile :: "tensor option \<Rightarrow> nat list option \<Rightarrow> heap \<Rightarrow> (tensor option \<times> heap) run" where
  "SNEPPX_tensor_tile src reps h =
     (case (src, reps) of
        (Some s, Some reps) \<Rightarrow> local_dims (max (t_ndim s) (length reps))
          (bind_new (SNEPPX_tensor_empty (Some (tile_shape (t_shape s) reps)) (t_dtype s) h) (\<lambda>r.
             with_indices r (copy_items s r (tile_source s r) (t_size r))))
      | _ \<Rightarrow> Inr (None, h))"

definition SNEPPX_tensor_repeat :: "tensor option \<Rightarrow> nat \<Rightarrow> nat \<Rightarrow> heap \<Rightarrow> (tensor option \<times> heap) run" where
  "SNEPPX_tensor_repeat src repeats dim h =
     (case src of None \<Rightarrow> Inr (None, h)
      | Some s \<Rightarrow>
         if dim \<ge> t_ndim s then Inr (None, h)
         else let (ok, h) = aligned_alloc_wrapper h in
           if \<not> ok then Inr (None, h)
           else bind_run (SNEPPX_tensor_tile src (Some (map (\<lambda>i. if i = dim then repeats else 1) [0..<t_ndim s])) h)
                  (\<lambda>(r, h). Inr (r, free_block True h)))"

text \<open>An index read from an array of \<open>int32_t\<close>, as \<open>size_t\<close>, and cut to the extent.\<close>

definition clamp_index :: "u32 \<Rightarrow> nat \<Rightarrow> nat" where
  "clamp_index w extent =
     (let i = (if sint w < 0 then 2 ^ 64 - nat (- sint w) else nat (sint w))
      in if i \<ge> extent then size_sub extent 1 else i)"

definition load_index :: "heap \<Rightarrow> tensor \<Rightarrow> nat \<Rightarrow> u32 run" where
  "load_index h indices flat =
     bind_run (load_bytes h (t_storage indices) (data_pos indices + flat * 4) 4) (\<lambda>b. Inr (le32 b 0))"

definition SNEPPX_tensor_gather ::
  "tensor option \<Rightarrow> nat \<Rightarrow> tensor option \<Rightarrow> heap \<Rightarrow> (tensor option \<times> heap) run" where
  "SNEPPX_tensor_gather src dim indices h =
     (case (src, indices) of
        (Some s, Some ix) \<Rightarrow>
          if dim \<ge> t_ndim s \<or> t_ndim ix \<noteq> t_ndim s then Inr (None, h)
          else bind_new (SNEPPX_tensor_empty (Some (t_shape ix)) (t_dtype s) h) (\<lambda>r.
            with_indices r (fold_run (\<lambda>flat h.
              bind_run (load_index h ix flat) (\<lambda>w.
              let idx = (unflatten (t_shape r) (t_strides r) flat)[dim := clamp_index w (t_shape s ! dim)] in
              bind_run (load_bytes h (t_storage s) (data_pos s + compute_offset s idx * t_item s) (t_item s)) (\<lambda>b.
              store_bytes h (t_storage r) (data_pos r + flat * t_item s) b))) [0..<t_size r]))
      | _ \<Rightarrow> Inr (None, h))"

definition SNEPPX_tensor_scatter ::
  "tensor option \<Rightarrow> nat \<Rightarrow> tensor option \<Rightarrow> tensor option \<Rightarrow> heap \<Rightarrow> (tensor option \<times> heap) run" where
  "SNEPPX_tensor_scatter dest dim indices src h =
     (case (dest, indices, src) of
        (Some d, Some ix, Some s) \<Rightarrow>
          if dim \<ge> t_ndim d then Inr (None, h)
          else let (ok, h) = aligned_alloc_wrapper h in
            if \<not> ok then Inr (None, h)
            else bind_run (fold_run (\<lambda>flat h.
                if t_ndim s > t_ndim d then Inl Out_Of_Bounds
                else bind_run (load_index h ix flat) (\<lambda>w.
                  let idx = (unflatten (t_shape s) (t_strides s) flat @ replicate (t_ndim d - t_ndim s) 0)
                              [dim := clamp_index w (t_shape d ! dim)] in
                  bind_run (load_bytes h (t_storage s) (data_pos s + flat * t_item d) (t_item d)) (\<lambda>b.
                  store_bytes h (t_storage d) (data_pos d + compute_offset d idx * t_item d) b))) [0..<t_size s] h)
                (\<lambda>h. Inr (dest, free_block True h))
      | _ \<Rightarrow> Inr (None, h))"

section \<open>Concatenation and splitting\<close>

definition concat_fits :: "tensor \<Rightarrow> nat \<Rightarrow> tensor option \<Rightarrow> bool" where
  "concat_fits first dim t =
     (case t of None \<Rightarrow> False
      | Some t \<Rightarrow> t_ndim t = t_ndim first \<and> (\<forall>i < t_ndim first. i \<noteq> dim \<longrightarrow> t_shape t ! i = t_shape first ! i))"

definition concat_loop :: "tensor \<Rightarrow> tensor \<Rightarrow> nat \<Rightarrow> nat \<Rightarrow> tensor list \<Rightarrow> heap \<Rightarrow> heap run" where
  "concat_loop first r dim slice_size ts h =
     bind_run (fold_run (\<lambda>t (offset, h).
         let n = sz_mul (t_shape t ! dim) slice_size in
         bind_run (load_bytes h (t_storage t) (data_pos t) (sz_mul n (t_item first))) (\<lambda>b.
         bind_run (store_bytes h (t_storage r) (data_pos r + offset * t_item first) b) (\<lambda>h.
         Inr (sz_add offset n, h)))) ts (0, h)) (\<lambda>(_, h). Inr h)"

definition SNEPPX_tensor_concat ::
  "tensor option list \<Rightarrow> nat \<Rightarrow> heap \<Rightarrow> (tensor option \<times> heap) run" where
  "SNEPPX_tensor_concat tensors dim h =
     (case tensors of
        Some first # _ \<Rightarrow>
          if dim \<ge> t_ndim first \<or> \<not> list_all (concat_fits first dim) tensors then Inr (None, h)
          else let ts = map the tensors;
                   total_dim = fold (\<lambda>t s. sz_add s (t_shape t ! dim)) ts 0;
                   (ok, h) = aligned_alloc_wrapper h
            in if \<not> ok then Inr (None, h)
               else let (r, h) = SNEPPX_tensor_empty (Some ((t_shape first)[dim := total_dim])) (t_dtype first) h
                 in bind_new (r, free_block True h) (\<lambda>r h.
                      if t_shape first ! dim = 0 then Inl Zero_Divide
                      else bind_run (concat_loop first r dim (t_size first div t_shape first ! dim) ts h)
                             (\<lambda>h. Inr (Some r, h)))
      | _ \<Rightarrow> Inr (None, h))"

text \<open>The slices made so far are destroyed when one cannot be made.\<close>

fun split_loop :: "tensor \<Rightarrow> nat \<Rightarrow> nat \<Rightarrow> nat list \<Rightarrow> tensor list \<Rightarrow> heap \<Rightarrow> (tensor list option \<times> heap) run" where
  "split_loop s dim split_size [] results h = Inr (Some results, h)"
| "split_loop s dim split_size (k # ks) results h =
     bind_run (SNEPPX_tensor_slice (Some s) dim (sz_mul k split_size) (sz_mul (k + 1) split_size) h) (\<lambda>(r, h).
       case r of
         Some r \<Rightarrow> split_loop s dim split_size ks (results @ [r]) h
       | None \<Rightarrow> bind_run (fold_run (\<lambda>t. SNEPPX_tensor_destroy (Some t)) results h) (\<lambda>h.
                   Inr (None, free_block True h)))"

definition SNEPPX_tensor_split ::
  "tensor option \<Rightarrow> nat \<Rightarrow> nat \<Rightarrow> heap \<Rightarrow> (tensor list option \<times> heap) run" where
  "SNEPPX_tensor_split src num_splits dim h =
     (case src of None \<Rightarrow> Inr (None, h)
      | Some s \<Rightarrow>
         if num_splits = 0 \<or> dim \<ge> t_ndim s \<or> t_shape s ! dim mod num_splits \<noteq> 0 then Inr (None, h)
         else let (ok, h) = aligned_alloc_wrapper h in
           if \<not> ok then Inr (None, h)
           else split_loop s dim (t_shape s ! dim div num_splits) [0..<num_splits] [] h)"

section \<open>Masks\<close>

text \<open>Masks are read one byte per element.\<close>

definition load_mask :: "heap \<Rightarrow> tensor \<Rightarrow> nat \<Rightarrow> bool list run" where
  "load_mask h m n =
     map_run (\<lambda>i. bind_run (load_bytes h (t_storage m) (data_pos m + i) 1) (\<lambda>b. Inr (b ! 0 \<noteq> 0))) [0..<n]"

definition SNEPPX_tensor_masked_select ::
  "tensor option \<Rightarrow> tensor option \<Rightarrow> heap \<Rightarrow> (tensor option \<times> heap) run" where
  "SNEPPX_tensor_masked_select src msk h =
     (case (src, msk) of
        (Some s, Some m) \<Rightarrow>
          if t_size s \<noteq> t_size m then Inr (None, h)
          else bind_run (load_mask h m (t_size m)) (\<lambda>bs.
            let chosen = filter (\<lambda>i. bs ! i) [0..<t_size s] in
            bind_new (SNEPPX_tensor_empty (Some [length chosen]) (t_dtype s) h) (\<lambda>r h.
              bind_run (copy_items s r (\<lambda>j. chosen ! j) (length chosen) h) (\<lambda>h. Inr (Some r, h))))
      | _ \<Rightarrow> Inr (None, h))"

text \<open>\<open>value\<close> points to one item of the tensor; the tensor itself is returned.\<close>

definition SNEPPX_tensor_masked_fill ::
  "tensor option \<Rightarrow> tensor option \<Rightarrow> bytes option \<Rightarrow> heap \<Rightarrow> (tensor option \<times> heap) run" where
  "SNEPPX_tensor_masked_fill src msk v h =
     (case (src, msk, v) of
        (Some s, Some m, Some v) \<Rightarrow>
          if t_size s \<noteq> t_size m then Inr (src, h)
          else bind_run (fold_run (\<lambda>i h.
                 bind_run (load_bytes h (t_storage m) (data_pos m + i) 1) (\<lambda>b.
                 if b ! 0 \<noteq> 0 then store_bytes h (t_storage s) (data_pos s + i * t_item s) (take (t_item s) v)
                 else Inr h)) [0..<t_size s] h) (\<lambda>h. Inr (src, h))
      | _ \<Rightarrow> Inr (src, h))"

definition SNEPPX_tensor_where ::
  "tensor option \<Rightarrow> tensor option \<Rightarrow> tensor option \<Rightarrow> heap \<Rightarrow> (tensor option \<times> heap) run" where
  "SNEPPX_tensor_where condition x y h =
     (case (condition, x, y) of
        (Some c, Some x, Some y) \<Rightarrow>
          let n = min (t_size c) (min (t_size x) (t_size y)) in
          bind_run (SNEPPX_tensor_copy (Some x) h) (\<lambda>r. bind_new r (\<lambda>r h.
            bind_run (fold_run (\<lambda>i h.
               bind_run (load_bytes h (t_storage c) (data_pos c + i) 1) (\<lambda>b.
               if b ! 0 = 0
               then bind_run (load_bytes h (t_storage y) (data_pos y + i * t_item x) (t_item x)) (\<lambda>v.
                    store_bytes h (t_storage r) (data_pos r + i * t_item x) v)
               else Inr h)) [0..<n] h) (\<lambda>h. Inr (Some r, h))))
      | _ \<Rightarrow> Inr (None, h))"

end
