(* ===== verification/Tensor_Elems.thy ===== *)
theory Tensor_Elems
  imports Tensor_Copy
begin

text \<open>
  What the element-copying operations compute: the copy loop, the recovery of indices from strides,
  broadcasting, contiguous copies, concatenation and splitting.
\<close>

section \<open>The copy loop\<close>

lemma store_bytes_contents:
  assumes "contents h a = Some (Some d)" "p + length bs \<le> length d"
  obtains h' where "store_bytes h a p bs = Inr h'" "contents h' = (contents h)(a := Some (Some (put_bytes d p bs)))"
    "h_next h' = h_next h" "h_blocks h' = h_blocks h"
proof -
  obtain st where st: "h_stores h a = Some st" "st_data st = Some d" using assms(1) by (auto simp: contents_def)
  show thesis
  proof (cases "bs = []")
    case True
    then have "store_bytes h a p bs = Inr h" using st by (simp add: store_bytes_def)
    then show thesis using that True assms by (simp add: put_bytes_def fun_upd_idem)
  next
    case False
    then have "store_bytes h a p bs = Inr (h\<lparr>h_stores := (h_stores h)(a \<mapsto> st\<lparr>st_data := Some (put_bytes d p bs)\<rparr>)\<rparr>)"
      using st assms by (simp add: store_bytes_def)
    then show thesis using that by (simp add: contents_def fun_eq_iff)
  qed
qed

lemma load_bytes_Inr:
  assumes "contents h a = Some (Some d)" "p + n \<le> length d"
  shows "load_bytes h a p n = Inr (take n (drop p d))"
proof -
  obtain st where "h_stores h a = Some st" "st_data st = Some d" using assms(1) by (auto simp: contents_def)
  then show ?thesis using assms by (simp add: load_bytes_def)
qed

lemma put_bytes_put_bytes:
  assumes "p + length xs + length ys \<le> length d"
  shows "put_bytes (put_bytes d p xs) (p + length xs) ys = put_bytes d p (xs @ ys)"
  using assms by (simp add: put_bytes_def drop_drop ac_simps)

text \<open>The item at element \<open>k\<close> of a buffer.\<close>

definition item_at :: "bytes \<Rightarrow> nat \<Rightarrow> nat \<Rightarrow> nat \<Rightarrow> bytes" where
  "item_at d p sz k = take sz (drop (p + k * sz) d)"

lemma length_item_at: "p + k * sz + sz \<le> length d \<Longrightarrow> length (item_at d p sz k) = sz"
  by (simp add: item_at_def)

lemma length_items:
  "(\<And>k. k < n \<Longrightarrow> length (g k) = sz) \<Longrightarrow> length (concat (map g [0..<n])) = n * sz"
  by (induction n) auto

lemma items_nth:
  "(\<And>k. k < n \<Longrightarrow> length (g k) = sz) \<Longrightarrow> k < n \<Longrightarrow> item_at (concat (map g [0..<n])) 0 sz k = g k"
proof (induction n)
  case (Suc n)
  have l: "length (concat (map g [0..<n])) = n * sz" using Suc.prems by (intro length_items) simp
  show ?case
  proof (cases "k = n")
    case True
    then show ?thesis using Suc.prems l by (simp add: item_at_def)
  next
    case False
    then have k: "k < n" using Suc.prems by simp
    then have "Suc k * sz \<le> n * sz" by (intro mult_le_mono1) simp
    then have "item_at (concat (map g [0..<Suc n])) 0 sz k = item_at (concat (map g [0..<n])) 0 sz k"
      using l by (simp add: item_at_def)
    then show ?thesis using Suc k by simp
  qed
qed simp

lemma copy_items_correct:
  assumes s: "contents h (t_storage src) = Some (Some sd)" and d: "contents h (t_storage dst) = Some (Some dd)"
    and ne: "t_storage src \<noteq> t_storage dst" and ld: "data_pos dst + n * t_item src \<le> length dd"
    and f: "\<And>k. k < n \<Longrightarrow> data_pos src + f k * t_item src + t_item src \<le> length sd"
  shows "\<exists>h'. copy_items src dst f n h = Inr h' \<and> h_blocks h' = h_blocks h \<and>
    contents h' = (contents h)(t_storage dst := Some (Some (put_bytes dd (data_pos dst)
       (concat (map (\<lambda>k. item_at sd (data_pos src) (t_item src) (f k)) [0..<n])))))"
  using ld f
proof (induction n)
  case 0
  then show ?case using d by (simp add: copy_items_def put_bytes_def fun_upd_idem)
next
  case (Suc n)
  let ?g = "\<lambda>k. item_at sd (data_pos src) (t_item src) (f k)" and ?i = "t_item src"
  have lg: "length (?g k) = ?i" if "k < Suc n" for k using Suc.prems(2) [OF that] by (rule length_item_at)
  have lc: "length (concat (map ?g [0..<n])) = n * ?i" using lg by (intro length_items) simp
  have "data_pos dst + n * ?i \<le> length dd" using Suc.prems(1) by simp
  from Suc.IH [OF this Suc.prems(2)] obtain h' where h': "copy_items src dst f n h = Inr h'" "h_blocks h' = h_blocks h"
    "contents h' = (contents h)(t_storage dst := Some (Some (put_bytes dd (data_pos dst) (concat (map ?g [0..<n])))))"
    by (metis less_SucI)
  have ls: "load_bytes h' (t_storage src) (data_pos src + f n * ?i) ?i = Inr (?g n)"
    using load_bytes_Inr [of h' "t_storage src" sd] h'(3) ne s Suc.prems(2) [of n] by (simp add: item_at_def)
  obtain h2 where h2: "store_bytes h' (t_storage dst) (data_pos dst + n * ?i) (?g n) = Inr h2" "h_blocks h2 = h_blocks h'"
    "contents h2 = (contents h')(t_storage dst := Some (Some (put_bytes (put_bytes dd (data_pos dst) (concat (map ?g [0..<n]))) (data_pos dst + n * ?i) (?g n))))"
    using Suc.prems(1) lc lg [of n] h'(3)
    by (rule_tac store_bytes_contents [of h' "t_storage dst" "put_bytes dd (data_pos dst) (concat (map ?g [0..<n]))" "data_pos dst + n * ?i" "?g n"]) simp_all
  have "copy_items src dst f (Suc n) h = Inr h2"
    using h'(1) ls h2(1) by (simp add: copy_items_def fold_run_append)
  moreover have "contents h2 = (contents h)(t_storage dst := Some (Some (put_bytes dd (data_pos dst) (concat (map ?g [0..<Suc n])))))"
    using h2(3) h'(3) put_bytes_put_bytes [of "data_pos dst" "concat (map ?g [0..<n])" "?g n" dd] lc lg [of n] Suc.prems(1)
    by simp
  ultimately show ?case using h'(2) h2(2) by (intro exI [of _ h2]) (simp del: upt_Suc)
qed

section \<open>Recovering indices from strides\<close>

lemma unflatten_zero:
  "length ds = length ss \<Longrightarrow>
   foldr (\<lambda>(d, s) (tmp, idx). if s > 0 then (tmp mod s, (tmp div s) mod d # idx) else (tmp, 0 # idx)) (zip ds ss) (0 :: nat, idx)
   = (0, replicate (length ds) 0 @ idx)"
  by (induction ds ss rule: list_induct2) (simp_all split: if_splits)

lemma row_major_snoc: "\<exists>ss. length ss = length ds \<and> row_major (ds @ [d]) = ss @ [1]"
  by (induction ds) (auto intro: exI [of _ "_ # _"])

lemma unflatten_row_major:
  "unflatten (ds @ [d]) (row_major (ds @ [d])) flat = replicate (length ds) 0 @ [flat mod d]"
proof -
  obtain ss where ss: "length ss = length ds" "row_major (ds @ [d]) = ss @ [1]" using row_major_snoc by blast
  then show ?thesis by (simp add: unflatten_def unflatten_zero)
qed

lemma row_major_scale:
  "0 \<notin> set ds \<Longrightarrow> 0 < d \<Longrightarrow> prod_list (ds @ [d]) < 2 ^ 64 \<Longrightarrow> row_major (ds @ [d]) = map (\<lambda>s. s * d) (row_major ds) @ [1]"
proof (induction ds)
  case (Cons e ds)
  have e: "prod_list (ds @ [d]) \<le> prod_list ((e # ds) @ [d])" using Cons.prems(1) by (cases e) auto
  then have p: "prod_list (ds @ [d]) < 2 ^ 64" using Cons.prems(3) by (rule le_less_trans)
  have "prod_list ds \<le> prod_list (ds @ [d])" using Cons.prems(2) by (cases d) auto
  then have q: "prod_list ds < 2 ^ 64" using p by (rule le_less_trans)
  have "row_major ((e # ds) @ [d]) = prod_list (ds @ [d]) # row_major (ds @ [d])"
    using p by (simp only: append_Cons row_major_simps wrap64_small)
  also have "\<dots> = map (\<lambda>s. s * d) (row_major (e # ds)) @ [1]"
    using Cons.IH [OF _ Cons.prems(2) p] Cons.prems(1) q by (simp add: wrap64_small)
  finally show ?case .
qed simp

lemma dot_index_scale: "dot_index is (map (\<lambda>s. s * d) ss) = d * dot_index is ss"
  by (induction "is" ss rule: dot_index.induct) (simp_all add: algebra_simps)

lemma row_major_last:
  assumes v: "valid_index (ds @ [d]) idx" and p: "prod_list (ds @ [d]) < 2 ^ 64"
  shows "dot_index idx (row_major (ds @ [d])) mod d = last idx"
proof -
  obtain js j where idx: "idx = js @ [j]" and js: "length js = length ds" and j: "j < d"
    using v by (auto simp: valid_index_def list_all2_append2 list_all2_Cons2 dest: list_all2_lengthD)
  have "0 \<notin> set ds" "0 < d" using valid_indexD(2) [OF v] by auto
  from row_major_scale [OF this p] show ?thesis
    using idx js j by (simp add: dot_index_append dot_index_scale)
qed

text \<open>The index-recovery loop that broadcasting, tiling, gathering and contiguous copies share loses every
  index but the last: on row-major strides it divides by the last stride, which is one, first, so that for every
  element all leading indices come out as zero.\<close>

theorem index_recovery_loses_leading:
  "unflatten (ds @ [d]) (row_major (ds @ [d])) flat = replicate (length ds) 0 @ [flat mod d]"
  by (rule unflatten_row_major)

section \<open>New tensors\<close>

lemma created_facts:
  assumes "created h shape dt r h'"
  defines "nb \<equiv> sz_mul (sz_prod shape) (SNEPPX_tensor_dtype_size dt)"
  shows "r = fresh_tensor (h_next h) shape dt" "h_next h' = h_next h + 1"
    "0 < nb \<Longrightarrow> contents h' = (contents h)(h_next h := Some (Some (replicate nb 0)))"
    "a \<noteq> h_next h \<Longrightarrow> contents h' a = contents h a"
  using assms by (auto simp: created_def installed_def contents_def Let_def fun_eq_iff)

lemma created_NoneD: "refs_ok base ts h \<Longrightarrow> contents h (h_next h) = None"
  using refs_okD(3) [of base ts h "h_next h"] by (simp add: contents_def)

lemma put_all_bytes: "length d = length bs \<Longrightarrow> put_bytes d 0 bs = bs"
  by (simp add: put_bytes_def)

text \<open>A fresh tensor filled by the copy loop: its elements, in row-major order, are the chosen items.\<close>

lemma copy_to_fresh:
  assumes c: "created h shape dt r h1" and s: "contents h (t_storage s) = Some (Some sd)" and n: "contents h (h_next h) = None"
    and i: "t_item s = SNEPPX_tensor_dtype_size dt" "0 < t_item s" and p: "prod_list shape * t_item s < 2 ^ 64" "0 < prod_list shape"
    and f: "\<And>k. k < prod_list shape \<Longrightarrow> data_pos s + f k * t_item s + t_item s \<le> length sd"
    and g: "contents g = contents h1"
  shows "\<exists>h'. copy_items s r f (prod_list shape) g = Inr h' \<and> h_blocks h' = h_blocks g \<and>
    contents h' = (contents h)(h_next h := Some (Some (concat (map (\<lambda>k. item_at sd (data_pos s) (t_item s) (f k)) [0..<prod_list shape]))))"
proof -
  let ?n = "prod_list shape" and ?i = "t_item s"
  let ?x = "concat (map (\<lambda>k. item_at sd (data_pos s) ?i (f k)) [0..<?n])"
  note r = created_facts [OF c]
  have "?n \<le> ?n * ?i" using i(2) by simp
  then have "?n < 2 ^ 64" using p(1) by (rule le_less_trans)
  then have nb: "sz_mul (sz_prod shape) (SNEPPX_tensor_dtype_size dt) = ?n * ?i"
    using p by (simp add: sz_mul_def sz_prod_wrap wrap64_small i(1) [symmetric])
  have ne: "t_storage s \<noteq> t_storage r" using s n by (auto simp: r(1) fresh_tensor_def)
  have dr: "data_pos r = 0" "t_storage r = h_next h" by (simp_all add: r(1) fresh_tensor_def)
  have cg: "contents g = (contents h)(h_next h := Some (Some (replicate (?n * ?i) 0)))"
    using r(3) nb i(2) p(2) g by simp
  have lx: "length ?x = ?n * ?i" using f by (intro length_items length_item_at)
  have "\<exists>h'. copy_items s r f ?n g = Inr h' \<and> h_blocks h' = h_blocks g \<and>
    contents h' = (contents g)(t_storage r := Some (Some (put_bytes (replicate (?n * ?i) 0) (data_pos r) ?x)))"
    by (rule copy_items_correct [OF _ _ ne]) (use cg s ne dr f in auto)
  then show ?thesis using lx by (simp add: dr cg put_all_bytes)
qed

lemma item_load:
  assumes "contents h a = Some (Some d)" "p + k * sz + sz \<le> length d"
  shows "load_bytes h a (p + k * sz) sz = Inr (item_at d p sz k)"
  using load_bytes_Inr [OF assms(1), of "p + k * sz" sz] assms(2) by (simp add: item_at_def)

lemma holds_item:
  assumes h: "holds h t" and v: "valid_index (t_shape t) idx" and d: "contents h (t_storage t) = Some (Some d)"
  shows "elem t idx h = Inr (item_at d (data_pos t) (t_item t) (dot_index idx (t_strides t)))"
    and "data_pos t + dot_index idx (t_strides t) * t_item t + t_item t \<le> length d"
proof -
  let ?n = "t_offset t + prod_list (t_shape t)"
  have i: "inside ?n t" by (rule contiguous_inside) (use h in \<open>simp_all add: holds_def\<close>)
  have "(t_offset t + dot_index idx (t_strides t) + 1) * t_item t \<le> ?n * t_item t"
    using compute_offset_inside(2) [OF i v] by (intro mult_le_mono1) simp
  also have "\<dots> \<le> length d" using h d by (auto simp: holds_def)
  finally show b: "data_pos t + dot_index idx (t_strides t) * t_item t + t_item t \<le> length d"
    by (simp add: algebra_simps)
  then show "elem t idx h = Inr (item_at d (data_pos t) (t_item t) (dot_index idx (t_strides t)))"
    using item_load [OF d b] by (simp add: elem_inside [OF i v] add_mult_distrib)
qed

text \<open>The elements of a fresh tensor.\<close>

lemma fresh_elem:
  assumes d: "contents h a = Some (Some (concat (map g [0..<prod_list shape])))"
    and g: "\<And>k. k < prod_list shape \<Longrightarrow> length (g k) = SNEPPX_tensor_dtype_size dt"
    and v: "valid_index shape idx" and p: "prod_list shape < 2 ^ 64"
  shows "elem (fresh_tensor a shape dt) idx h = Inr (g (dot_index idx (row_major shape)))"
proof -
  let ?t = "fresh_tensor a shape dt"
  have "holds h ?t" using d p length_items [OF g] by (simp add: holds_def fresh_tensor_def)
  from holds_item(1) [OF this, of idx] v d
  have "elem ?t idx h = Inr (item_at (concat (map g [0..<prod_list shape])) 0 (SNEPPX_tensor_dtype_size dt) (dot_index idx (row_major shape)))"
    by (simp add: fresh_tensor_def)
  then show ?thesis using items_nth [OF g row_major_dot_less [OF v p]] by simp
qed

section \<open>Broadcasting\<close>

lemma expand_indices_first_row:
  assumes "t_shape r = ds @ [d]" "t_strides r = row_major (t_shape r)" "t_shape s = cs @ [c]" "length cs \<le> length ds"
  shows "expand_indices s r flat = replicate (length cs) 0 @ [if flat mod d \<ge> c then 0 else flat mod d]"
proof (rule nth_equalityI)
  fix i assume "i < length (expand_indices s r flat)"
  then have i: "i < Suc (length cs)" by (simp add: expand_indices_def Let_def assms)
  show "expand_indices s r flat ! i = (replicate (length cs) 0 @ [if flat mod d \<ge> c then 0 else flat mod d]) ! i"
  proof (cases "i < length cs")
    case True
    then have "i + (length ds - length cs) < length ds" using assms(4) by simp
    then show ?thesis using True i
      by (simp add: expand_indices_def assms(1,2,3) unflatten_row_major Let_def nth_append del: upt_Suc)
  next
    case False
    then have "i = length cs" using i by simp
    then show ?thesis using assms(4)
      by (simp add: expand_indices_def assms(1,2,3) unflatten_row_major Let_def nth_append del: upt_Suc)
  qed
qed (simp add: expand_indices_def Let_def assms)

lemma expand_steps:
  assumes "SNEPPX_tensor_expand (Some s) sh h = Inr (Some r, h')"
  obtains h1 g g' where "created h sh (t_dtype s) r h1" "contents g = contents h1"
    "copy_items s r (\<lambda>flat. compute_offset s (expand_indices s r flat)) (t_size r) g = Inr g'" "contents h' = contents g'"
proof -
  have "\<not> length sh < t_ndim s" using assms by (auto simp: SNEPPX_tensor_expand_def)
  with assms create_cases [of sh "t_dtype s" h] obtain h1 x where c: "created h sh (t_dtype s) r h1" and
    cp: "copy_items s r (\<lambda>flat. compute_offset s (expand_indices s r flat)) (t_size r)
       (h1\<lparr>h_tried := Suc (Suc (h_tried h1)), h_blocks := 2 + h_blocks h1\<rparr>) = Inr x" and
    "h' = free_block True (free_block True x)"
    by (auto simp: SNEPPX_tensor_expand_def SNEPPX_tensor_empty_def bind_new_def aligned_alloc_wrapper_def
        split: if_splits)
  then show thesis by (intro that [OF c _ cp]) simp_all
qed

text \<open>Broadcasting with \<open>SNEPPX_tensor_expand\<close> repeats the first row: whatever the leading indices, the
  element of the result is the element of the source whose leading indices are all zero (and whose last index
  is that of the result, or zero beyond the source's extent).\<close>

theorem expand_repeats_first_row:
  assumes ok: "refs_ok base ts h" and hs: "holds h s" and i: "t_item s = SNEPPX_tensor_dtype_size (t_dtype s)" "0 < t_item s"
    and sh: "t_shape s = cs @ [c]" "0 \<notin> set (cs @ [c])" "prod_list (ds @ [d]) * t_item s < 2 ^ 64"
    and r: "SNEPPX_tensor_expand (Some s) (ds @ [d]) h = Inr (Some r, h')" and v: "valid_index (ds @ [d]) idx"
  shows "elem r idx h' = elem s (replicate (length cs) 0 @ [if last idx \<ge> c then 0 else last idx]) h"
proof -
  let ?n = "prod_list (ds @ [d])" and ?i = "t_item s"
  obtain h1 g g' where c: "created h (ds @ [d]) (t_dtype s) r h1" and g: "contents g = contents h1"
    and cp: "copy_items s r (\<lambda>flat. compute_offset s (expand_indices s r flat)) (t_size r) g = Inr g'" "contents h' = contents g'"
    by (rule expand_steps [OF r])
  have le: "length cs \<le> length ds" using r sh(1) by (auto simp: SNEPPX_tensor_expand_def split: if_splits)
  obtain sd where sd: "contents h (t_storage s) = Some (Some sd)" using hs by (auto simp: holds_def)
  note rf = created_facts(1) [OF c]
  define src where "src k = replicate (length cs) 0 @ [if k mod d \<ge> c then 0 else k mod d]" for k :: nat
  have ei: "expand_indices s r k = src k" for k
    unfolding src_def by (rule expand_indices_first_row [OF _ _ sh(1) le]) (simp_all add: rf fresh_tensor_def)
  have vs: "valid_index (t_shape s) (src k)" for k
    using sh(2) by (auto simp: src_def sh(1) valid_index_def list_all2_conv_all_nth in_set_conv_nth nth_append less_Suc_eq)
  have ins: "inside (t_offset s + prod_list (t_shape s)) s" by (rule contiguous_inside) (use hs in \<open>simp_all add: holds_def\<close>)
  have co: "compute_offset s (src k) = dot_index (src k) (t_strides s)" for k by (rule compute_offset_inside(1) [OF ins vs])
  have "?n \<le> ?n * ?i" using i(2) by simp
  then have n: "?n < 2 ^ 64" using sh(3) by (rule le_less_trans)
  have pos: "0 < ?n" using valid_indexD(2) [OF v] unfolding neq0_conv [symmetric] prod_list_zero_iff .
  let ?G = "\<lambda>k. item_at sd (data_pos s) ?i (dot_index (src k) (t_strides s))"
  have "\<exists>g2. copy_items s r (\<lambda>k. dot_index (src k) (t_strides s)) ?n g = Inr g2 \<and> h_blocks g2 = h_blocks g \<and>
    contents g2 = (contents h)(h_next h := Some (Some (concat (map ?G [0..<?n]))))"
    by (rule copy_to_fresh [OF c sd created_NoneD [OF ok] i sh(3) pos _ g]) (rule holds_item(2) [OF hs vs sd])
  then obtain g2 where g2: "copy_items s r (\<lambda>k. dot_index (src k) (t_strides s)) ?n g = Inr g2"
    "contents g2 = (contents h)(h_next h := Some (Some (concat (map ?G [0..<?n]))))" by blast
  have "t_size r = ?n" using n by (simp add: rf fresh_tensor_def sz_prod_wrap wrap64_small del: prod_list.append)
  with cp(1) g2(1) have "g' = g2" by (simp add: ei co del: prod_list.append)
  then have ch: "contents h' (h_next h) = Some (Some (concat (map ?G [0..<?n])))" using cp(2) g2(2) by simp
  have "elem r idx h' = Inr (?G (dot_index idx (row_major (ds @ [d]))))"
    unfolding rf by (rule fresh_elem [OF ch _ v n]) (use holds_item(2) [OF hs vs sd] i in \<open>simp add: length_item_at\<close>)
  also have "\<dots> = elem s (src (dot_index idx (row_major (ds @ [d])))) h"
    by (rule holds_item(1) [OF hs vs sd, symmetric])
  finally show ?thesis by (simp add: src_def row_major_last [OF v n])
qed

theorem expand_repeats_first_row_witness:
  "\<exists>r h'. SNEPPX_tensor_expand (Some (fresh_tensor 0 [2, 1] SNEPPX_INT8)) [2, 2] (sample_heap [7, 8]) = Inr (Some r, h') \<and>
     elem r [1, 0] h' = elem (fresh_tensor 0 [2, 1] SNEPPX_INT8) [0, 0] (sample_heap [7, 8])"
proof -
  let ?s = "fresh_tensor 0 [2, 1] SNEPPX_INT8" and ?h = "sample_heap [7, 8]"
  have ok: "refs_ok 0 [?s] ?h"
    by (auto simp: refs_ok_def sample_heap_def fresh_tensor_def total_blocks_def store_blocks_def)
  have hs: "holds ?h ?s" by (simp add: holds_def fresh_tensor_def sample_heap_def contents_def SNEPPX_tensor_dtype_size_def)
  have i: "t_item ?s = SNEPPX_tensor_dtype_size (t_dtype ?s)" "0 < t_item ?s" and sh: "t_shape ?s = [2] @ [1]"
    by (simp_all add: fresh_tensor_def SNEPPX_tensor_dtype_size_def)
  obtain r h' where r: "SNEPPX_tensor_expand (Some ?s) ([2] @ [2]) ?h = Inr (Some r, h')"
    by (simp add: SNEPPX_tensor_expand_def SNEPPX_tensor_empty_def bind_new_def aligned_alloc_wrapper_def
        SNEPPX_tensor_create_def tensor_view_alloc_def SNEPPX_storage_create_def sample_heap_def fresh_tensor_def
        SNEPPX_tensor_dtype_size_def copy_items_def sz_prod_def sz_mul_def wrap64_def expand_indices_def unflatten_def
        compute_offset_def sz_add_def load_bytes_def store_bytes_def upt_rec put_bytes_def)
  have "valid_index ([2] @ [2]) [1, 0]" by (simp add: valid_index_def)
  from expand_repeats_first_row [OF ok hs i sh _ _ r this] r show ?thesis
    by (intro exI [of _ r] exI [of _ h']) (simp add: fresh_tensor_def SNEPPX_tensor_dtype_size_def)
qed

section \<open>Contiguous copies\<close>

lemma destroy_prefix:
  "refs_ok base (ts @ us) h \<Longrightarrow>
   \<exists>h'. fold_run (\<lambda>t. SNEPPX_tensor_destroy (Some t)) ts h = Inr h' \<and> refs_ok base us h'"
  by (induction ts arbitrary: h) (force dest: refs_ok_destroy)+

lemma unflatten_transposed:
  "1 < n \<Longrightarrow> k < n * m \<Longrightarrow> dot_index (unflatten [n, m] [1, n] k) [1, n] = k"
  by (simp add: unflatten_def less_mult_imp_div_less mult.commute)

lemma contiguous_steps:
  assumes "SNEPPX_tensor_contiguous (Some s) h = Inr (Some r, h')" "\<not> SNEPPX_tensor_is_contiguous (Some s)"
  obtains h1 g g' where "created h (t_shape s) (t_dtype s) r h1" "contents g = contents h1"
    "copy_items s r (\<lambda>flat. compute_offset s (unflatten (t_shape s) (t_strides s) flat)) (t_size s) g = Inr g'"
    "contents h' = contents g'"
proof -
  from assms create_cases [of "t_shape s" "t_dtype s" h] obtain h1 x where
    c: "created h (t_shape s) (t_dtype s) r h1" and
    cp: "copy_items s r (\<lambda>flat. compute_offset s (unflatten (t_shape s) (t_strides s) flat)) (t_size s)
       (h1\<lparr>h_tried := Suc (h_tried h1), h_blocks := h_blocks h1 + 1\<rparr>) = Inr x" and "h' = free_block True x"
    by (auto simp: SNEPPX_tensor_contiguous_def bind_new_def with_indices_def aligned_alloc_wrapper_def split: if_splits)
  then show thesis by (intro that [OF c _ cp]) simp_all
qed

lemma transpose_result:
  assumes r: "SNEPPX_tensor_transpose (Some s) 0 1 h = Inr (Some t, h')" and s: "t_shape s = [m, n]" "t_strides s = [a, b]"
  shows "t = s\<lparr>t_shape := [n, m], t_strides := [b, a], t_size := sz_prod [n, m], t_owns_data := 0\<rparr>"
    and "contents h' = contents h"
proof -
  obtain g g' where g: "contents g = contents h" "contents h' = contents g'"
    and p: "SNEPPX_tensor_permute (Some s) [1, 0] g = Inr (Some t, g')"
    using transpose_permute(3) [OF r] by (auto simp: s upt_rec)
  have p': "SNEPPX_tensor_as_strided (Some s) (t_offset s) [n, m] [b, a] g = Inr (Some t, g')"
    using p by (simp add: SNEPPX_tensor_permute_def local_dims_Inr s upt_rec)
  show "t = s\<lparr>t_shape := [n, m], t_strides := [b, a], t_size := sz_prod [n, m], t_owns_data := 0\<rparr>"
    "contents h' = contents h"
    using as_strided_result [OF p'] g by simp_all
qed

lemma items_all: "concat (map (item_at d p sz) [0..<n]) = take (n * sz) (drop p d)"
proof (induction n)
  case (Suc n)
  have "take (Suc n * sz) (drop p d) = take (n * sz + sz) (drop p d)" by (simp add: add.commute)
  also have "\<dots> = take (n * sz) (drop p d) @ item_at d p sz n"
    by (simp only: take_add drop_drop item_at_def) (simp add: add.commute)
  finally show ?case using Suc by simp
qed simp

text \<open>A contiguous copy of a transposed matrix is not transposed: after \<open>SNEPPX_tensor_transpose\<close> and
  \<open>SNEPPX_tensor_contiguous\<close>, with which every arithmetic operation prepares its operands, the buffer of the
  result holds the bytes of the original matrix in their original order.\<close>

theorem contiguous_transpose_raw:
  assumes ok: "refs_ok base ts h" "s \<in> set ts" and hs: "holds h s"
    and i: "t_item s = SNEPPX_tensor_dtype_size (t_dtype s)" "0 < t_item s"
    and sh: "t_shape s = [m, n]" "1 < m" "1 < n" "m * n * t_item s < 2 ^ 64"
    and t: "SNEPPX_tensor_transpose (Some s) 0 1 h = Inr (Some t, h1)"
    and r: "SNEPPX_tensor_contiguous (Some t) h1 = Inr (Some r, h2)"
  shows "t_shape r = [n, m] \<and>
    load_bytes h2 (t_storage r) 0 (m * n * t_item s) = load_bytes h (t_storage s) (data_pos s) (m * n * t_item s)"
proof -
  let ?i = "t_item s" and ?N = "prod_list [n, m]"
  have N: "?N = m * n" "?N < 2 ^ 64" "0 < ?N" using hs sh by (auto simp: holds_def mult.commute)
  have "n \<le> m * n" "m \<le> m * n" using sh by simp_all
  then have small: "n < 2 ^ 64" "m < 2 ^ 64" using N(1,2) by (metis le_less_trans)+
  have st: "t_strides s = [n, 1]" using hs sh small by (simp add: holds_def wrap64_small)
  note tr = transpose_result [OF t sh(1) st]
  obtain sd where sd: "contents h (t_storage s) = Some (Some sd)" "data_pos s + ?N * ?i \<le> length sd"
    using hs sh(1) by (auto simp: holds_def algebra_simps)
  have nc: "\<not> SNEPPX_tensor_is_contiguous (Some t)" using sh small by (simp add: tr(1) is_contiguous_iff wrap64_small)
  obtain h1' g g' where c: "created h1 [n, m] (t_dtype s) r h1'" and g: "contents g = contents h1'"
    and cp: "copy_items t r (\<lambda>k. compute_offset t (unflatten [n, m] [1, n] k)) (t_size t) g = Inr g'" "contents h2 = contents g'"
    using contiguous_steps [OF r nc] by (auto simp: tr(1))
  have f: "compute_offset t (unflatten [n, m] [1, n] k) = k" if "k < ?N" for k
  proof -
    have "compute_offset t (unflatten [n, m] [1, n] k) = wrap64 (dot_index (unflatten [n, m] [1, n] k) [1, n])"
      by (subst compute_offset_dot) (simp_all add: tr(1) unflatten_def)
    then show ?thesis using that sh N unflatten_transposed [of n k m] by (simp add: wrap64_small)
  qed
  have tp: "t_offset t = t_offset s" "t_item t = ?i" by (simp_all add: tr(1))
  have ex: "\<exists>x. copy_items t r (\<lambda>k. compute_offset t (unflatten [n, m] [1, n] k)) ?N g = Inr x \<and> h_blocks x = h_blocks g \<and>
     contents x = (contents h1)(h_next h1 := Some (Some (concat (map (\<lambda>k. item_at sd (data_pos t) (t_item t)
        (compute_offset t (unflatten [n, m] [1, n] k))) [0..<?N]))))"
  proof (rule copy_to_fresh [OF c _ created_NoneD _ _ _ N(3) _ g])
    show "refs_ok base (t # ts) h1" using transpose_keeps [OF ok t] by simp
    fix k assume k: "k < ?N"
    then have "Suc k * ?i \<le> ?N * ?i" by (intro mult_le_mono1) simp
    then show "data_pos t + compute_offset t (unflatten [n, m] [1, n] k) * t_item t + t_item t \<le> length sd"
      using sd(2) unfolding f [OF k] tp by simp
  qed (use sd i sh N in \<open>simp_all add: tr mult.commute\<close>)
  have mc: "map (\<lambda>k. item_at sd (data_pos t) (t_item t) (compute_offset t (unflatten [n, m] [1, n] k))) [0..<?N]
      = map (item_at sd (data_pos s) ?i) [0..<?N]"
  proof (rule map_cong [OF refl])
    fix k assume "k \<in> set [0..<?N]"
    then have k: "k < ?N" by simp
    show "item_at sd (data_pos t) (t_item t) (compute_offset t (unflatten [n, m] [1, n] k)) = item_at sd (data_pos s) ?i k"
      unfolding f [OF k] tp ..
  qed
  have "t_size t = ?N" using N by (simp add: tr(1) sz_prod_wrap wrap64_small)
  with ex [unfolded mc items_all] cp
  have "contents h2 (h_next h1) = Some (Some (take (?N * ?i) (drop (data_pos s) sd)))"
    by (auto simp del: One_nat_def)
  from load_bytes_Inr [OF this, of 0 "?N * ?i"] sd(2)
  have "load_bytes h2 (h_next h1) 0 (?N * ?i) = Inr (take (?N * ?i) (drop (data_pos s) sd))" by simp
  then show ?thesis using load_bytes_Inr [OF sd] created_facts(1) [OF c]
    unfolding N(1) [symmetric] by (simp add: fresh_tensor_def)
qed

theorem contiguous_transpose_raw_witness:
  "\<exists>t h1 r h2. SNEPPX_tensor_transpose (Some (fresh_tensor 0 [2, 3] SNEPPX_INT8)) 0 1 (sample_heap [1, 2, 3, 4, 5, 6]) = Inr (Some t, h1) \<and>
     SNEPPX_tensor_contiguous (Some t) h1 = Inr (Some r, h2) \<and> t_shape r = [3, 2] \<and>
     load_bytes h2 (t_storage r) 0 6 = Inr [1, 2, 3, 4, 5, 6]"
proof -
  let ?s = "fresh_tensor 0 [2, 3] SNEPPX_INT8" and ?h = "sample_heap [1, 2, 3, 4, 5, 6]"
  have ok: "refs_ok 0 [?s] ?h"
    by (auto simp: refs_ok_def sample_heap_def fresh_tensor_def total_blocks_def store_blocks_def)
  have hs: "holds ?h ?s" by (simp add: holds_def fresh_tensor_def sample_heap_def contents_def SNEPPX_tensor_dtype_size_def)
  have i: "t_item ?s = SNEPPX_tensor_dtype_size (t_dtype ?s)" "0 < t_item ?s" and sh: "t_shape ?s = [2, 3]" "t_strides ?s = [3, 1]"
    and sz: "t_item ?s = 1" "t_storage ?s = 0" "t_offset ?s = 0"
    by (simp_all add: fresh_tensor_def SNEPPX_tensor_dtype_size_def wrap64_def)
  obtain t h1 where t: "SNEPPX_tensor_transpose (Some ?s) 0 1 ?h = Inr (Some t, h1)"
    and t': "t = \<lparr>t_storage = 0, t_offset = 0, t_shape = [3, 2], t_strides = [1, 3], t_size = 6, t_item = 1, t_dtype = SNEPPX_INT8,
      t_device = SNEPPX_DEVICE_CPU, t_device_id = 0, t_layout = SNEPPX_LAYOUT_ROW_MAJOR, t_owns_data = 0\<rparr>"
    and h1: "h1 = \<lparr>h_stores = [0 \<mapsto> \<lparr>st_data = Some [1, 2, 3, 4, 5, 6], num_bytes = length [1, 2, 3, 4, 5, 6 :: u8], ref_count = 2\<rparr>], h_next = 1,
      h_ok = (\<lambda>_. True), h_tried = 4, h_blocks = 8\<rparr>"
    by (simp add: SNEPPX_tensor_transpose_def sample_heap_def aligned_alloc_wrapper_def SNEPPX_tensor_permute_def sh free_block_def
        local_dims_def SNEPPX_tensor_as_strided_def tensor_view_alloc_def SNEPPX_storage_retain_def upt_rec fresh_tensor_def
        sz_prod_def sz_mul_def wrap64_def SNEPPX_tensor_dtype_size_def)
  obtain r h2 where r: "SNEPPX_tensor_contiguous (Some t) h1 = Inr (Some r, h2)"
    by (simp add: t' h1 SNEPPX_tensor_contiguous_def SNEPPX_tensor_is_contiguous_def bind_new_def with_indices_def aligned_alloc_wrapper_def
        SNEPPX_tensor_create_def tensor_view_alloc_def SNEPPX_storage_create_def fresh_tensor_def
        SNEPPX_tensor_dtype_size_def copy_items_def sz_prod_def sz_mul_def wrap64_def unflatten_def
        compute_offset_def sz_add_def load_bytes_def store_bytes_def upt_rec put_bytes_def)
  have "load_bytes ?h 0 0 6 = Inr [1, 2, 3, 4, 5, 6]" by (simp add: load_bytes_def sample_heap_def)
  with contiguous_transpose_raw [OF ok _ hs i sh(1) _ _ _ t r]
  have "t_shape r = [3, 2] \<and> load_bytes h2 (t_storage r) 0 6 = Inr [1, 2, 3, 4, 5, 6]"
    unfolding sz by simp
  with t r show ?thesis by blast
qed

text \<open>\<open>SNEPPX_tensor_contiguous\<close> of a tensor that is contiguous already leaks: it counts two references for
  the one view it returns, so that destroying the view and every other live tensor leaves the storage allocated.\<close>

theorem contiguous_leaks:
  assumes ok: "refs_ok base ts h" "s \<in> set ts" and c: "SNEPPX_tensor_is_contiguous (Some s)"
    and r: "SNEPPX_tensor_contiguous (Some s) h = Inr (Some t, h1)"
  shows "\<exists>h2. fold_run (\<lambda>t. SNEPPX_tensor_destroy (Some t)) (t # ts) h1 = Inr h2 \<and> h_stores h2 (t_storage s) \<noteq> None"
proof -
  obtain st where st: "h_stores h (t_storage s) = Some st" using refs_live [OF ok] by blast
  let ?g = "h\<lparr>h_stores := (h_stores h)(t_storage s \<mapsto> st\<lparr>ref_count := ref_count st + 1\<rparr>)\<rparr>"
  have g: "SNEPPX_tensor_as_strided (Some s) (t_offset s) (t_shape s) (t_strides s) ?g = Inr (Some t, h1)"
    using r c st by (simp add: SNEPPX_tensor_contiguous_def SNEPPX_storage_retain_def)
  have "refs_ok base (s # ts) (?g\<lparr>h_blocks := h_blocks h + 3\<rparr>)"
  proof -
    have "?g\<lparr>h_blocks := h_blocks h + 3\<rparr> = h\<lparr>h_blocks := h_blocks h + 3,
        h_stores := (h_stores h)(t_storage s \<mapsto> st\<lparr>ref_count := ref_count st + 1\<rparr>)\<rparr>" by simp
    then show ?thesis using refs_ok_retained [OF ok(1) st] by (simp only:)
  qed
  then have "refs_ok (base - 3) (s # ts) ?g" unfolding refs_ok_block by simp
  from as_strided_keeps [OF this list.set_intros(1) g]
  have k: "refs_ok (base - 3) (t # s # ts) h1" by (simp only: with_result_simps)
  have "mset (t # s # ts) = mset ((t # ts) @ [s])" by simp
  from k [unfolded refs_ok_perm [OF this]]
  have "\<exists>h2. fold_run (\<lambda>t. SNEPPX_tensor_destroy (Some t)) (t # ts) h1 = Inr h2 \<and> refs_ok (base - 3) [s] h2"
    by (rule destroy_prefix)
  then show ?thesis using refs_live [of "base - 3" "[s]"] by auto
qed

theorem contiguous_leaks_witness:
  "\<exists>t h1 h2. SNEPPX_tensor_contiguous (Some (fresh_tensor 0 [2] SNEPPX_INT8)) (sample_heap [7, 8]) = Inr (Some t, h1) \<and>
     fold_run (\<lambda>t. SNEPPX_tensor_destroy (Some t)) [t, fresh_tensor 0 [2] SNEPPX_INT8] h1 = Inr h2 \<and> h_stores h2 0 \<noteq> None"
proof -
  let ?s = "fresh_tensor 0 [2] SNEPPX_INT8" and ?h = "sample_heap [7, 8]"
  have ok: "refs_ok 0 [?s] ?h"
    by (auto simp: refs_ok_def sample_heap_def fresh_tensor_def total_blocks_def store_blocks_def)
  have c: "SNEPPX_tensor_is_contiguous (Some ?s)" and z: "t_storage ?s = 0"
    by (simp_all add: SNEPPX_tensor_is_contiguous_def fresh_tensor_def)
  obtain t h1 where r: "SNEPPX_tensor_contiguous (Some ?s) ?h = Inr (Some t, h1)"
    using c by (simp add: SNEPPX_tensor_contiguous_def SNEPPX_storage_retain_def sample_heap_def z
        SNEPPX_tensor_as_strided_def tensor_view_alloc_def aligned_alloc_wrapper_def)
  from contiguous_leaks [OF ok _ c r] r show ?thesis unfolding z by (metis list.set_intros(1))
qed

end
