(* ===== verification/Tokenizer_Tensors.thy ===== *)
theory Tokenizer_Tensors
  imports Tokenizer Tensor_Elems
begin

text \<open>
  Identifiers as tensors: \<open>SNEPPX_tokenizer_ids_to_tensor\<close> and \<open>SNEPPX_tokenizer_tensor_to_ids\<close> of \<open>kernel/tokenizer/tokenizer.c\<close>.
\<close>

definition SNEPPX_tokenizer_ids_to_tensor :: "int list \<Rightarrow> heap \<Rightarrow> (tensor option \<times> heap) run" where
  "SNEPPX_tokenizer_ids_to_tensor ids h =
     (case SNEPPX_tensor_create (Some [1, length ids]) SNEPPX_INT32 h of
        (None, h) \<Rightarrow> Inr (None, h)
      | (Some t, h) \<Rightarrow> bind_run (store_bytes h (t_storage t) (data_pos t) (concat (map int_bytes ids))) (\<lambda>h. Inr (Some t, h)))"

definition SNEPPX_tokenizer_tensor_to_ids :: "tensor option \<Rightarrow> heap \<Rightarrow> (int list option \<times> heap) run" where
  "SNEPPX_tokenizer_tensor_to_ids t h =
     (case t of None \<Rightarrow> Inr (None, h)
      | Some t \<Rightarrow>
          if t_dtype t \<noteq> SNEPPX_INT32 then Inr (None, h)
          else let n = t_size t; (ok, h) = aligned_alloc_wrapper h in
            if \<not> ok then Inr (None, h)
            else bind_run (load_bytes h (t_storage t) (data_pos t) (sz_mul n 4)) (\<lambda>bs. Inr (Some (map (\<lambda>i. sint (le32 bs (4 * i))) [0..<n]), h)))"

lemma length_int_list: "length (concat (map int_bytes ids)) = 4 * length ids"
  by (induction ids) simp_all

lemma ints_read_back:
  assumes "list_all int_range ids"
  shows "map (\<lambda>i. sint (le32 (concat (map int_bytes ids)) (4 * i))) [0..<length ids] = ids"
  using assms
proof (induction ids)
  case (Cons x ids)
  have s: "le32 (int_bytes x @ b) (4 * Suc i) = le32 b (4 * i)" for b i using le32_shift [of "int_bytes x" b "4 * i"] by simp
  have "map (\<lambda>i. sint (le32 (concat (map int_bytes (x # ids))) (4 * i))) [0..<length (x # ids)] =
      sint (le32 (int_bytes x @ concat (map int_bytes ids)) 0) # map (\<lambda>i. sint (le32 (int_bytes x @ concat (map int_bytes ids)) (4 * Suc i))) [0..<length ids]"
    by (simp add: upt_conv_Cons map_Suc_upt [symmetric] del: upt_Suc)
  then show ?case using Cons by (simp only: s sint_int_bytes list.pred_inject(2))
qed simp

text \<open>
  Identifiers survive a tensor. For identifiers that are C ints, a tensor made of them has shape \<open>1 \<times> len\<close>, and reading it back, when the memory is granted,
  gives the identifiers; no other buffer of the heap changes.
\<close>

lemma ids_through_tensor:
  assumes "list_all int_range ids" "ids \<noteq> []" "length ids * 4 < 2 ^ 64" "SNEPPX_tensor_create (Some [1, length ids]) SNEPPX_INT32 h = (Some t, h1)"
  shows "\<exists>h2. SNEPPX_tokenizer_ids_to_tensor ids h = Inr (Some t, h2) \<and> t_shape t = [1, length ids] \<and> (\<forall>a. a \<noteq> h_next h \<longrightarrow> contents h2 a = contents h a) \<and>
    (h_ok h2 (h_tried h2) \<longrightarrow> (\<exists>h3. SNEPPX_tokenizer_tensor_to_ids (Some t) h2 = Inr (Some ids, h3)))"
proof -
  let ?b = "concat (map int_bytes ids)"
  have c: "created h [1, length ids] SNEPPX_INT32 t h1" using create_cases [of "[1, length ids]" SNEPPX_INT32 h] assms(4) by auto
  note cf = created_facts [OF c]
  have nb: "sz_mul (sz_prod [1, length ids]) (SNEPPX_tensor_dtype_size SNEPPX_INT32) = 4 * length ids" "sz_prod [1, length ids] = length ids"
    using assms(3) by (simp_all add: sz_prod_def sz_mul_def wrap64_def SNEPPX_tensor_dtype_size_def)
  have t: "t_storage t = h_next h" "data_pos t = 0" "t_shape t = [1, length ids]" "t_dtype t = SNEPPX_INT32" "t_size t = length ids"
    using cf(1) nb(2) by (simp_all add: fresh_tensor_def)
  have "contents h1 (h_next h) = Some (Some (replicate (4 * length ids) 0))" using cf(3) nb assms(2) by simp
  then obtain h2 where h2: "store_bytes h1 (h_next h) 0 ?b = Inr h2" "contents h2 = (contents h1)(h_next h := Some (Some ?b))"
    by (rule store_bytes_contents [of h1 "h_next h" _ 0 ?b]) (simp_all add: length_int_list put_all_bytes)
  have "load_bytes h3 (h_next h) 0 (sz_mul (length ids) 4) = Inr ?b" if "contents h3 = contents h2" for h3
    using load_bytes_Inr [of h3 "h_next h" ?b 0 "4 * length ids"] that h2(2) assms(3) by (simp add: length_int_list sz_mul_def wrap64_def mult.commute)
  moreover have "contents (h2\<lparr>h_tried := x, h_blocks := y\<rparr>) = contents h2" for x y by (simp add: contents_def fun_eq_iff)
  ultimately have "\<exists>h3. SNEPPX_tokenizer_tensor_to_ids (Some t) h2 = Inr (Some ids, h3)" if "h_ok h2 (h_tried h2)"
    using that by (simp add: SNEPPX_tokenizer_tensor_to_ids_def aligned_alloc_wrapper_def t ints_read_back [OF assms(1)])
  then show ?thesis using h2 assms(4) t cf(4) by (auto simp: SNEPPX_tokenizer_ids_to_tensor_def)
qed

end
