(* ===== verification/Json.thy ===== *)
theory Json
  imports Bytes
begin

text \<open>
  The JSON reader of \<open>fs/format/json.c\<close>: the recursive descent parser and the search along a path.

  The text is the string before its terminating zero and \<open>pos\<close> an index into it, which may pass the end. A result \<open>NULL\<close> is \<open>JFail\<close>; what
  was built so far is released then, and no caller looks at the position. \<open>ok k\<close> tells whether the \<open>k\<close>-th request for memory is granted. The parser calls
  itself and loops, so that the model takes fuel: one unit for every level of nesting, of which there are at most 129, and one for every round of a loop, as many as there are
  characters. Theorem \<open>json_parse_returns\<close> shows that this is enough. A C string is
  the list of all characters written to it, one of which may be zero. The value of a number is that of \<open>strtod\<close>: \<open>dbl\<close> turns the characters of
  a number into a double, and \<open>strtod_end\<close> tells how many characters are taken.
\<close>

section \<open>Characters and strings\<close>

definition isspace :: "char \<Rightarrow> bool" where "isspace c \<longleftrightarrow> (let n = (of_char c :: nat) in n = 32 \<or> 9 \<le> n \<and> n \<le> 13)"

definition isdigit :: "char \<Rightarrow> bool" where "isdigit c \<longleftrightarrow> (let n = (of_char c :: nat) in 48 \<le> n \<and> n \<le> 57)"

definition skip_whitespace :: "string \<Rightarrow> nat \<Rightarrow> nat" where
  "skip_whitespace json pos = pos + length (takeWhile isspace (drop pos json))"

definition json_hexval :: "char \<Rightarrow> int" where
  "json_hexval c =
     (let n = (of_char c :: int) in
      if 48 \<le> n \<and> n \<le> 57 then n - 48 else if 97 \<le> n \<and> n \<le> 102 then n - 97 + 10 else if 65 \<le> n \<and> n \<le> 70 then n - 65 + 10 else - 1)"

text \<open>The loop over four hexadecimal digits.\<close>

fun hex_code :: "u32 \<Rightarrow> string \<Rightarrow> u32 option" where
  "hex_code code [] = Some code"
| "hex_code code (c # s) = (if json_hexval c < 0 then None else hex_code (push_bit 4 code OR word_of_int (json_hexval c)) s)"

definition utf8 :: "u32 \<Rightarrow> string" where
  "utf8 code =
     (if code < 0x80 then [char_of (unat code)]
      else if code < 0x800 then [char_of (unat (0xC0 OR drop_bit 6 code)), char_of (unat (0x80 OR (code AND 0x3F)))]
      else [char_of (unat (0xE0 OR drop_bit 12 code)), char_of (unat (0x80 OR (drop_bit 6 code AND 0x3F))), char_of (unat (0x80 OR (code AND 0x3F)))])"

definition escaped :: "char \<Rightarrow> char" where
  "escaped c =
     (if c = CHR ''n'' then CHR 0x0A else if c = CHR ''t'' then CHR 0x09 else if c = CHR ''r'' then CHR 0x0D
      else if c = CHR ''b'' then CHR 0x08 else if c = CHR ''f'' then CHR 0x0C else c)"

text \<open>A faulty \<open>\u\<close> escape ends the string there.\<close>

function unescape_string :: "string \<Rightarrow> string" where
  "unescape_string [] = []"
| "unescape_string [c] = [c]"
| "unescape_string (c # e # s) =
     (if c \<noteq> CHR 0x5C then c # unescape_string (e # s)
      else if e \<noteq> CHR ''u'' then escaped e # unescape_string s
      else if length s < 4 then []
      else case hex_code 0 (take 4 s) of None \<Rightarrow> [] | Some code \<Rightarrow> utf8 code @ unescape_string (drop 4 s))"
  by pat_completeness auto
termination by (relation "measure length") auto

text \<open>How far the closing quote is; the character after a backslash is passed over.\<close>

fun string_end :: "string \<Rightarrow> nat" where
  "string_end [] = 0"
| "string_end [c] = (if c = CHR 0x22 then 0 else 1)"
| "string_end (c # d # s) = (if c = CHR 0x22 then 0 else if c = CHR 0x5C then 2 + string_end s else 1 + string_end (d # s))"

text \<open>The string, the next position and the number of requests made.\<close>

definition parse_string :: "alloc_outcome \<Rightarrow> string \<Rightarrow> nat \<Rightarrow> nat \<Rightarrow> (string \<times> nat \<times> nat) option" where
  "parse_string ok json pos k =
     (let start = pos + 1; j = start + string_end (drop start json) in
      if j \<ge> length json \<or> \<not> ok k \<or> \<not> ok (k + 1) then None
      else Some (unescape_string (take (j - start) (drop start json)), j + 1, k + 2))"

section \<open>Numbers and literals\<close>

definition starts :: "string \<Rightarrow> (char \<Rightarrow> bool) \<Rightarrow> bool" where "starts s p \<longleftrightarrow> (case s of [] \<Rightarrow> False | c # _ \<Rightarrow> p c)"

definition is_sign :: "char \<Rightarrow> bool" where "is_sign c \<longleftrightarrow> c = CHR ''+'' \<or> c = CHR ''-''"

definition count_while :: "(char \<Rightarrow> bool) \<Rightarrow> string \<Rightarrow> nat" where "count_while p s = length (takeWhile p s)"

text \<open>
  \<open>strtod\<close> of the C library: the length of the longest start of the text that has the form of a number, from its sign on. The exponent counts only if it has a digit.
\<close>

definition exponent_end :: "(char \<Rightarrow> bool) \<Rightarrow> string \<Rightarrow> nat" where
  "exponent_end mark s =
     (if starts s mark
      then let g = (if starts (tl s) is_sign then 1 else 0); n = count_while isdigit (drop g (tl s)) in if n = 0 then 0 else 1 + g + n
      else 0)"

definition mantissa_end :: "(char \<Rightarrow> bool) \<Rightarrow> (char \<Rightarrow> bool) \<Rightarrow> string \<Rightarrow> nat" where
  "mantissa_end digit mark s =
     (let d = count_while digit s; point = starts (drop d s) (\<lambda>c. c = CHR ''.''); f = (if point then count_while digit (drop (d + 1) s) else 0) in
      if d + f = 0 then 0
      else let m = (if point then d + 1 + f else d) in m + exponent_end mark (drop m s))"

definition to_lower :: "char \<Rightarrow> char" where
  "to_lower c = (let n = (of_char c :: nat) in if 65 \<le> n \<and> n \<le> 90 then char_of (n + 32) else c)"

definition word_end :: "string \<Rightarrow> nat" where
  "word_end s =
     (if map to_lower (take 8 s) = ''infinity'' then 8
      else if map to_lower (take 3 s) = ''inf'' then 3
      else if map to_lower (take 3 s) = ''nan''
      then let n = count_while (\<lambda>c. isdigit c \<or> c = CHR ''_'' \<or> (let l = (of_char (to_lower c) :: nat) in 97 \<le> l \<and> l \<le> 122)) (drop 4 s) in
           if starts (drop 3 s) (\<lambda>c. c = CHR ''('') \<and> starts (drop (4 + n) s) (\<lambda>c. c = CHR '')'') then 5 + n else 3
      else 0)"

definition hex_end :: "string \<Rightarrow> nat" where
  "hex_end s =
     (if starts s (\<lambda>c. c = CHR ''0'') \<and> starts (tl s) (\<lambda>c. to_lower c = CHR ''x'')
      then let m = mantissa_end (\<lambda>c. json_hexval c \<ge> 0) (\<lambda>c. to_lower c = CHR ''p'') (drop 2 s) in if m = 0 then 0 else 2 + m
      else 0)"

definition strtod_end :: "string \<Rightarrow> nat" where
  "strtod_end s =
     (let g = (if starts s is_sign then 1 else 0); t = drop g s;
          m = (if word_end t \<noteq> 0 then word_end t else if hex_end t \<noteq> 0 then hex_end t else mantissa_end isdigit (\<lambda>c. to_lower c = CHR ''e'') t) in
      if m = 0 then 0 else g + m)"

text \<open>\<open>*pos < len && json[*pos]\<close> is such a character.\<close>

definition char_at :: "string \<Rightarrow> nat \<Rightarrow> (char \<Rightarrow> bool) \<Rightarrow> bool" where "char_at json pos p \<longleftrightarrow> pos < length json \<and> p (json ! pos)"

definition skip_digits :: "string \<Rightarrow> nat \<Rightarrow> nat" where "skip_digits json pos = pos + length (takeWhile isdigit (drop pos json))"

datatype json =
    JNull
  | JBool bool
  | JNumber u64 bool
  | JString string
  | JArray "json list"
  | JObject "(string \<times> json) list"

text \<open>Where the scan of \<open>parse_number\<close> ends.\<close>

definition number_end :: "string \<Rightarrow> nat \<Rightarrow> nat" where
  "number_end json pos =
     (let pos = (if char_at json pos (\<lambda>c. c = CHR ''-'') then pos + 1 else pos);
          pos = skip_digits json pos;
          pos = (if char_at json pos (\<lambda>c. c = CHR ''.'') then skip_digits json (pos + 1) else pos) in
      if char_at json pos (\<lambda>c. c = CHR ''e'' \<or> c = CHR ''E'')
      then let pos = pos + 1; pos = (if char_at json pos is_sign then pos + 1 else pos) in skip_digits json pos
      else pos)"

definition parse_number :: "alloc_outcome \<Rightarrow> (string \<Rightarrow> u64) \<Rightarrow> string \<Rightarrow> nat \<Rightarrow> nat \<Rightarrow> (json \<times> nat \<times> nat) option" where
  "parse_number ok dbl json pos k =
     (let start = pos; pos = number_end json pos; token = take (pos - start) (drop start json) in
      if start + strtod_end (drop start json) \<noteq> pos \<or> \<not> ok k then None
      else Some (JNumber (dbl token) (list_all (\<lambda>c. c \<noteq> CHR ''.'' \<and> c \<noteq> CHR ''e'' \<and> c \<noteq> CHR ''E'') token), pos, k + 1))"

definition parse_literal :: "alloc_outcome \<Rightarrow> string \<Rightarrow> nat \<Rightarrow> nat \<Rightarrow> (json \<times> nat \<times> nat) option" where
  "parse_literal ok json pos k =
     (if pos + 4 \<le> length json \<and> take 4 (drop pos json) = ''true'' then if ok k then Some (JBool True, pos + 4, k + 1) else None
      else if pos + 5 \<le> length json \<and> take 5 (drop pos json) = ''false'' then if ok k then Some (JBool False, pos + 5, k + 1) else None
      else if pos + 4 \<le> length json \<and> take 4 (drop pos json) = ''null'' then if ok k then Some (JNull, pos + 4, k + 1) else None
      else None)"

section \<open>Values\<close>

datatype parsed = JFail | JOk "json \<times> nat \<times> nat" | JFuel

definition lift_parsed :: "(json \<times> nat \<times> nat) option \<Rightarrow> parsed" where
  "lift_parsed r = (case r of None \<Rightarrow> JFail | Some x \<Rightarrow> JOk x)"

definition JSON_MAX_DEPTH :: nat where "JSON_MAX_DEPTH = 128"

text \<open>
  The loop of \<open>parse_object\<close> carries the pairs read so far, that of \<open>parse_array\<close> the items and their capacity; \<open>value\<close> is \<open>parse_value\<close>
  one level deeper. Every round of a loop takes a unit of its fuel.
\<close>

fun object_loop :: "nat \<Rightarrow> (nat \<Rightarrow> nat \<Rightarrow> parsed) \<Rightarrow> alloc_outcome \<Rightarrow> string \<Rightarrow> nat \<Rightarrow> nat \<Rightarrow> (string \<times> json) list \<Rightarrow> parsed" where
  "object_loop 0 value ok json pos k ps = JFuel"
| "object_loop (Suc n) value ok json pos k ps =
     (let pos = skip_whitespace json pos in
      if pos \<ge> length json \<or> json ! pos \<noteq> CHR 0x22 then JFail
      else case parse_string ok json pos k of
        None \<Rightarrow> JFail
      | Some (key, pos, k) \<Rightarrow>
          let pos = skip_whitespace json pos in
          if pos \<ge> length json \<or> json ! pos \<noteq> CHR '':'' then JFail
          else case value (pos + 1) k of
            JOk (v, pos, k) \<Rightarrow>
              if \<not> ok k then JFail
              else let ps = ps @ [(key, v)]; pos = skip_whitespace json pos in
                if pos \<ge> length json then JFail
                else if json ! pos = CHR ''}'' then JOk (JObject ps, pos + 1, k + 1)
                else if json ! pos \<noteq> CHR '','' then JFail
                else object_loop n value ok json (pos + 1) (k + 1) ps
          | r \<Rightarrow> r)"

fun array_loop :: "nat \<Rightarrow> (nat \<Rightarrow> nat \<Rightarrow> parsed) \<Rightarrow> alloc_outcome \<Rightarrow> string \<Rightarrow> nat \<Rightarrow> nat \<Rightarrow> json list \<Rightarrow> nat \<Rightarrow> parsed" where
  "array_loop 0 value ok json pos k vs cap = JFuel"
| "array_loop (Suc n) value ok json pos k vs cap =
     (case value pos k of
        JOk (v, pos, k) \<Rightarrow>
          let full = length vs \<ge> cap in
          if full \<and> \<not> ok k then JFail
          else let k = (if full then k + 1 else k); cap = (if full then cap * 2 else cap); vs = vs @ [v]; pos = skip_whitespace json pos in
            if pos \<ge> length json then JFail
            else if json ! pos = CHR '']'' then JOk (JArray vs, pos + 1, k)
            else if json ! pos \<noteq> CHR '','' then JFail
            else array_loop n value ok json (pos + 1) k vs cap
      | r \<Rightarrow> r)"

declare object_loop.simps [simp del] array_loop.simps [simp del]

definition parse_object :: "(nat \<Rightarrow> nat \<Rightarrow> parsed) \<Rightarrow> alloc_outcome \<Rightarrow> string \<Rightarrow> nat \<Rightarrow> nat \<Rightarrow> parsed" where
  "parse_object value ok json pos k =
     (if \<not> ok k then JFail
      else let pos = skip_whitespace json (pos + 1) in
        if pos \<ge> length json \<or> json ! pos = CHR ''}'' then JOk (JObject [], pos + 1, k + 1)
        else object_loop (length json) value ok json pos (k + 1) [])"

definition parse_array :: "(nat \<Rightarrow> nat \<Rightarrow> parsed) \<Rightarrow> alloc_outcome \<Rightarrow> string \<Rightarrow> nat \<Rightarrow> nat \<Rightarrow> parsed" where
  "parse_array value ok json pos k =
     (if \<not> ok k then JFail
      else let pos = skip_whitespace json (pos + 1) in
        if pos \<ge> length json \<or> json ! pos = CHR '']'' then JOk (JArray [], pos + 1, k + 1)
        else if \<not> ok (k + 1) then JFail
        else array_loop (length json) value ok json pos (k + 2) [] 8)"

fun parse_value :: "nat \<Rightarrow> alloc_outcome \<Rightarrow> (string \<Rightarrow> u64) \<Rightarrow> string \<Rightarrow> nat \<Rightarrow> nat \<Rightarrow> nat \<Rightarrow> parsed" where
  "parse_value 0 ok dbl json depth pos k = JFuel"
| "parse_value (Suc n) ok dbl json depth pos k =
     (if depth > JSON_MAX_DEPTH then JFail
      else let pos = skip_whitespace json pos in
        if pos \<ge> length json then JFail
        else let c = json ! pos in
          if c = CHR ''{'' then parse_object (parse_value n ok dbl json (depth + 1)) ok json pos k
          else if c = CHR ''['' then parse_array (parse_value n ok dbl json (depth + 1)) ok json pos k
          else if c = CHR 0x22 then lift_parsed (map_option (\<lambda>(s, pos, k). (JString s, pos, k)) (parse_string ok json pos k))
          else if c = CHR ''-'' \<or> isdigit c then lift_parsed (parse_number ok dbl json pos k)
          else if c = CHR ''t'' \<or> c = CHR ''f'' \<or> c = CHR ''n'' then lift_parsed (parse_literal ok json pos k)
          else JFail)"

declare parse_value.simps [simp del]

text \<open>Values nest at most \<open>JSON_MAX_DEPTH\<close> deep.\<close>

definition json_fuel :: nat where "json_fuel = JSON_MAX_DEPTH + 2"

text \<open>\<open>None\<close> stands for a model out of fuel, \<open>Some None\<close> for the result \<open>NULL\<close>.\<close>

definition sneppx_json_parse :: "alloc_outcome \<Rightarrow> (string \<Rightarrow> u64) \<Rightarrow> nat \<Rightarrow> string option \<Rightarrow> json option option" where
  "sneppx_json_parse ok dbl k json =
     (case json of None \<Rightarrow> Some None
      | Some json \<Rightarrow> case parse_value json_fuel ok dbl json 0 0 k of
          JFuel \<Rightarrow> None
        | JFail \<Rightarrow> Some None
        | JOk (v, pos, k) \<Rightarrow> if skip_whitespace json pos < length json then Some None else Some (Some v))"

section \<open>Search along a path\<close>

text \<open>\<open>strtok(buf, ".")\<close>, called until it gives \<open>NULL\<close>.\<close>

function tokens :: "string \<Rightarrow> string list" where
  "tokens s =
     (let t = dropWhile (\<lambda>c. c = CHR ''.'') s in
      if t = [] then [] else takeWhile (\<lambda>c. c \<noteq> CHR ''.'') t # tokens (dropWhile (\<lambda>c. c \<noteq> CHR ''.'') t))"
  by auto
termination
proof (relation "measure length", simp, goal_cases)
  case (1 s t)
  then have "t \<noteq> []" "hd t \<noteq> CHR ''.''" using hd_dropWhile [of "\<lambda>c. c = CHR ''.''" s] by auto
  then have "dropWhile (\<lambda>c. c \<noteq> CHR ''.'') t = dropWhile (\<lambda>c. c \<noteq> CHR ''.'') (tl t)" by (cases t) auto
  then have "length (dropWhile (\<lambda>c. c \<noteq> CHR ''.'') t) \<le> length (tl t)" by (metis length_dropWhile_le)
  also have "\<dots> < length t" using \<open>t \<noteq> []\<close> by (cases t) auto
  also have "\<dots> \<le> length s" using 1(1) by (simp add: length_dropWhile_le)
  finally show ?case by simp
qed

declare tokens.simps [simp del]

text \<open>The value \<open>atoi\<close> has where it fits an \<open>int\<close>.\<close>

definition atoi :: "string \<Rightarrow> int" where
  "atoi s =
     (let s = dropWhile isspace s; neg = starts s (\<lambda>c. c = CHR ''-''); s = (if starts s is_sign then tl s else s);
          n = fold (\<lambda>c v. v * 10 + (of_char c - 48)) (takeWhile isdigit s) 0 in
      if neg then - n else n)"

text \<open>\<open>strcmp\<close> sees the characters before the first zero.\<close>

definition c_string :: "string \<Rightarrow> string" where "c_string s = takeWhile (\<lambda>c. c \<noteq> CHR 0x00) s"

fun find_tokens :: "string list \<Rightarrow> json \<Rightarrow> json option" where
  "find_tokens [] cur = Some cur"
| "find_tokens (token # ts) cur =
     (case cur of
        JObject ps \<Rightarrow> (case List.find (\<lambda>p. c_string (fst p) = token) ps of None \<Rightarrow> None | Some p \<Rightarrow> find_tokens ts (snd p))
      | JArray vs \<Rightarrow> let idx = atoi token in if idx < 0 \<or> nat idx \<ge> length vs then None else find_tokens ts (vs ! nat idx)
      | _ \<Rightarrow> None)"

definition sneppx_json_find :: "json option \<Rightarrow> string option \<Rightarrow> json option" where
  "sneppx_json_find root path = (case (root, path) of (Some v, Some p) \<Rightarrow> find_tokens (tokens (take 255 p)) v | _ \<Rightarrow> None)"

section \<open>The parser returns\<close>

lemma skip_whitespace_ge: "pos \<le> skip_whitespace json pos"
  by (simp add: skip_whitespace_def)

lemma parse_string_moves: "parse_string ok json pos k = Some (s, p, k') \<Longrightarrow> pos < p"
  by (auto simp: parse_string_def Let_def split: if_splits)

lemma parse_number_moves: "parse_number ok dbl json pos k = Some (v, p, k') \<Longrightarrow> pos \<le> p"
  by (auto simp: parse_number_def Let_def split: if_splits)

lemma parse_literal_moves: "parse_literal ok json pos k = Some (v, p, k') \<Longrightarrow> pos \<le> p"
  by (auto simp: parse_literal_def split: if_splits)

text \<open>A reader of values that returns and does not move back.\<close>

definition returns :: "(nat \<Rightarrow> nat \<Rightarrow> parsed) \<Rightarrow> bool" where
  "returns value \<longleftrightarrow> (\<forall>p k. value p k \<noteq> JFuel \<and> (\<forall>v p' k'. value p k = JOk (v, p', k') \<longrightarrow> p \<le> p'))"

definition moved :: "nat \<Rightarrow> parsed \<Rightarrow> bool" where
  "moved pos r \<longleftrightarrow> r \<noteq> JFuel \<and> (\<forall>v p k. r = JOk (v, p, k) \<longrightarrow> pos \<le> p)"

lemma moved_simps [simp]: "moved pos JFail" "\<not> moved pos JFuel" "moved pos (JOk (v, p, k)) \<longleftrightarrow> pos \<le> p"
  by (simp_all add: moved_def)

lemma moved_mono: "moved q r \<Longrightarrow> p \<le> q \<Longrightarrow> moved p r"
  by (auto simp: moved_def)

lemma returnsE:
  assumes "returns value"
  obtains "value p k = JFail" | v p' k' where "value p k = JOk (v, p', k')" "p \<le> p'"
  using assms unfolding returns_def by (metis parsed.exhaust prod.exhaust)

lemma array_loop_returns:
  assumes "returns value" "pos \<le> length json" "length json - pos < n"
  shows "moved pos (array_loop n value ok json pos k vs cap)"
  using assms(2,3)
proof (induction n arbitrary: pos k vs cap)
  case (Suc n)
  show ?case
  proof (rule returnsE [OF assms(1), of pos k])
    fix v p k' assume v: "value pos k = JOk (v, p, k')" "pos \<le> p"
    let ?p = "skip_whitespace json p"
    have p: "pos \<le> ?p" using v(2) skip_whitespace_ge [of p json] by simp
    have "moved pos (array_loop n value ok json (?p + 1) k'' vs' cap')" if "?p < length json" for k'' vs' cap'
      using Suc.IH [of "?p + 1" k'' vs' cap'] Suc.prems p that by (rule_tac moved_mono [of "?p + 1"]) auto
    then show ?thesis unfolding array_loop.simps(2) v(1) parsed.case prod.case Let_def using p by (simp split: if_split)
  qed (simp add: array_loop.simps)
qed simp

lemma object_loop_returns:
  assumes "returns value" "pos \<le> length json" "length json - pos < n"
  shows "moved pos (object_loop n value ok json pos k ps)"
  using assms(2,3)
proof (induction n arbitrary: pos k ps)
  case (Suc n)
  let ?p = "skip_whitespace json pos"
  show ?case
  proof (cases "?p < length json \<and> json ! ?p = CHR 0x22 \<and> parse_string ok json ?p k \<noteq> None")
    case True
    then obtain key q k1 where q: "parse_string ok json ?p k = Some (key, q, k1)" by auto
    let ?q = "skip_whitespace json q"
    have le: "pos \<le> ?q" using parse_string_moves [OF q] skip_whitespace_ge [of pos json] skip_whitespace_ge [of q json] by linarith
    show ?thesis
    proof (rule returnsE [OF assms(1), of "?q + 1" k1])
      fix v r k' assume v: "value (?q + 1) k1 = JOk (v, r, k')" "?q + 1 \<le> r"
      let ?r = "skip_whitespace json r"
      have r: "pos \<le> ?r" using le v(2) skip_whitespace_ge [of r json] by linarith
      have "moved pos (object_loop n value ok json (?r + 1) k'' ps')" if "?r < length json" for k'' ps'
        using Suc.IH [of "?r + 1" k'' ps'] Suc.prems r that by (rule_tac moved_mono [of "?r + 1"]) auto
      then show ?thesis unfolding object_loop.simps(2) Let_def q option.case prod.case v(1) parsed.case using r by (simp split: if_split)
    qed (use True q in \<open>simp add: object_loop.simps Let_def\<close>)
  next
    case False
    then show ?thesis by (cases "parse_string ok json ?p k") (auto simp: object_loop.simps Let_def)
  qed
qed simp

lemma parse_value_returns: "JSON_MAX_DEPTH + 2 \<le> n + depth \<Longrightarrow> depth \<le> JSON_MAX_DEPTH + 1 \<Longrightarrow> moved pos (parse_value n ok dbl json depth pos k)"
proof (induction n arbitrary: depth pos k)
  case (Suc n)
  let ?p = "skip_whitespace json pos" and ?deep = "parse_value n ok dbl json (depth + 1)"
  have p: "pos \<le> ?p" by (rule skip_whitespace_ge)
  show ?case
  proof (cases "depth \<le> JSON_MAX_DEPTH \<and> ?p < length json")
    case True
    have rd: "returns ?deep" using Suc.IH [of "depth + 1"] Suc.prems True by (auto simp: returns_def moved_def)
    let ?q = "skip_whitespace json (?p + 1)"
    have q: "?p + 1 \<le> ?q" by (rule skip_whitespace_ge)
    have le: "pos \<le> ?q" using p q by linarith
    have "moved pos (object_loop (length json) ?deep ok json ?q k' [])" "moved pos (array_loop (length json) ?deep ok json ?q k' [] 8)"
      if "?q < length json" for k'
      using moved_mono [OF object_loop_returns [OF rd] le] moved_mono [OF array_loop_returns [OF rd] le] that q by simp_all
    then have obj: "moved pos (parse_object ?deep ok json ?p k)" and arr: "moved pos (parse_array ?deep ok json ?p k)"
      using le unfolding parse_object_def parse_array_def Let_def by simp_all
    have "moved pos (lift_parsed (map_option (\<lambda>(s, pos, k). (JString s, pos, k)) (parse_string ok json ?p k)))"
      using parse_string_moves [of ok json ?p k] p by (auto simp: lift_parsed_def split: option.split)
    moreover have "moved pos (lift_parsed (parse_number ok dbl json ?p k))" "moved pos (lift_parsed (parse_literal ok json ?p k))"
      using parse_number_moves [of ok dbl json ?p k] parse_literal_moves [of ok json ?p k] p by (auto simp: lift_parsed_def split: option.split)
    ultimately show ?thesis using True obj arr by (simp add: parse_value.simps Let_def)
  qed (auto simp: parse_value.simps Let_def)
qed simp

section \<open>Well-formed texts\<close>

abbreviation blank :: "string \<Rightarrow> bool" where "blank w \<equiv> list_all isspace w"

text \<open>What the escapes of a string denote, after RFC 8259 and RFC 3629: the table of the escaped characters, and for four hexadecimal digits the UTF-8 encoding of the number.\<close>

definition escape_table :: "(char \<times> char) list" where
  "escape_table = [(CHR 0x22, CHR 0x22), (CHR 0x5C, CHR 0x5C), (CHR ''/'', CHR ''/''), (CHR ''b'', CHR 0x08), (CHR ''f'', CHR 0x0C), (CHR ''n'', CHR 0x0A),
     (CHR ''r'', CHR 0x0D), (CHR ''t'', CHR 0x09)]"

definition hex_table :: "(char \<times> nat) list" where
  "hex_table = zip ''0123456789abcdef'' [0..<16] @ zip ''ABCDEF'' [10..<16]"

fun hex_number :: "nat \<Rightarrow> string \<Rightarrow> nat option" where
  "hex_number n [] = Some n"
| "hex_number n (c # s) = (case map_of hex_table c of None \<Rightarrow> None | Some v \<Rightarrow> hex_number (16 * n + v) s)"

definition utf8_text :: "nat \<Rightarrow> string" where
  "utf8_text n = map char_of
     (if n < 2 ^ 7 then [n] else if n < 2 ^ 11 then [0xC0 + n div 2 ^ 6, 0x80 + n mod 2 ^ 6] else [0xE0 + n div 2 ^ 12, 0x80 + n div 2 ^ 6 mod 2 ^ 6, 0x80 + n mod 2 ^ 6])"

text \<open>The characters between the quotes and the string they denote. The halves of surrogate pairs and the character zero, which ends a C string, are left out among the
  escapes.\<close>

inductive string_text :: "string \<Rightarrow> string \<Rightarrow> bool" where
  string_end: "string_text [] []"
| string_char: "c \<noteq> CHR 0x22 \<Longrightarrow> c \<noteq> CHR 0x5C \<Longrightarrow> string_text s t \<Longrightarrow> string_text (c # s) (c # t)"
| string_escape: "map_of escape_table e = Some c \<Longrightarrow> string_text s t \<Longrightarrow> string_text (CHR 0x5C # e # s) (c # t)"
| string_unicode: "length h = 4 \<Longrightarrow> hex_number 0 h = Some n \<Longrightarrow> 0 < n \<Longrightarrow> n < 0xD800 \<or> 0xDFFF < n \<Longrightarrow> string_text s t \<Longrightarrow>
    string_text (CHR 0x5C # CHR ''u'' # h @ s) (utf8_text n @ t)"

definition digits :: "string \<Rightarrow> bool" where "digits d \<longleftrightarrow> d \<noteq> [] \<and> list_all isdigit d"

definition number_text :: "string \<Rightarrow> bool" where
  "number_text s \<longleftrightarrow> (\<exists>m i f e. s = m @ i @ f @ e \<and> (m = [] \<or> m = ''-'') \<and> digits i \<and> (f = [] \<or> (\<exists>d. f = CHR ''.'' # d \<and> digits d)) \<and>
     (e = [] \<or> (\<exists>x g d. e = x # g @ d \<and> (x = CHR ''e'' \<or> x = CHR ''E'') \<and> (g = [] \<or> g = ''+'' \<or> g = ''-'') \<and> digits d)))"

definition is_integer :: "string \<Rightarrow> bool" where "is_integer s \<longleftrightarrow> list_all (\<lambda>c. c \<noteq> CHR ''.'' \<and> c \<noteq> CHR ''e'' \<and> c \<noteq> CHR ''E'') s"

text \<open>The grammar of RFC 8259, with white space, for a value that stands at the given depth; leading zeros of numbers and control characters in strings are allowed besides.\<close>

inductive value_text :: "(string \<Rightarrow> u64) \<Rightarrow> nat \<Rightarrow> string \<Rightarrow> json \<Rightarrow> bool"
and elements_text :: "(string \<Rightarrow> u64) \<Rightarrow> nat \<Rightarrow> string \<Rightarrow> json list \<Rightarrow> bool"
and members_text :: "(string \<Rightarrow> u64) \<Rightarrow> nat \<Rightarrow> string \<Rightarrow> (string \<times> json) list \<Rightarrow> bool"
for dbl where
  text_null: "d \<le> 128 \<Longrightarrow> value_text dbl d ''null'' JNull"
| text_true: "d \<le> 128 \<Longrightarrow> value_text dbl d ''true'' (JBool True)"
| text_false: "d \<le> 128 \<Longrightarrow> value_text dbl d ''false'' (JBool False)"
| text_number: "d \<le> 128 \<Longrightarrow> number_text s \<Longrightarrow> value_text dbl d s (JNumber (dbl s) (is_integer s))"
| text_string: "d \<le> 128 \<Longrightarrow> string_text s t \<Longrightarrow> value_text dbl d (CHR 0x22 # s @ [CHR 0x22]) (JString t)"
| text_empty_array: "d \<le> 128 \<Longrightarrow> blank w \<Longrightarrow> value_text dbl d (CHR ''['' # w @ '']'') (JArray [])"
| text_array: "d \<le> 128 \<Longrightarrow> blank w \<Longrightarrow> elements_text dbl (d + 1) s vs \<Longrightarrow> value_text dbl d (CHR ''['' # w @ s @ '']'') (JArray vs)"
| text_empty_object: "d \<le> 128 \<Longrightarrow> blank w \<Longrightarrow> value_text dbl d (CHR ''{'' # w @ ''}'') (JObject [])"
| text_object: "d \<le> 128 \<Longrightarrow> blank w \<Longrightarrow> members_text dbl (d + 1) s ps \<Longrightarrow> value_text dbl d (CHR ''{'' # w @ s @ ''}'') (JObject ps)"
| text_element: "value_text dbl d s v \<Longrightarrow> blank w \<Longrightarrow> elements_text dbl d (s @ w) [v]"
| text_elements: "value_text dbl d s v \<Longrightarrow> blank w \<Longrightarrow> blank w' \<Longrightarrow> elements_text dbl d t vs \<Longrightarrow> elements_text dbl d (s @ w @ CHR '','' # w' @ t) (v # vs)"
| text_member: "string_text ks key \<Longrightarrow> blank w1 \<Longrightarrow> blank w2 \<Longrightarrow> value_text dbl d s v \<Longrightarrow> blank w3 \<Longrightarrow>
    members_text dbl d (CHR 0x22 # ks @ CHR 0x22 # w1 @ CHR '':'' # w2 @ s @ w3) [(key, v)]"
| text_members: "string_text ks key \<Longrightarrow> blank w1 \<Longrightarrow> blank w2 \<Longrightarrow> value_text dbl d s v \<Longrightarrow> blank w3 \<Longrightarrow> blank w4 \<Longrightarrow> members_text dbl d t ps \<Longrightarrow>
    members_text dbl d (CHR 0x22 # ks @ CHR 0x22 # w1 @ CHR '':'' # w2 @ s @ w3 @ CHR '','' # w4 @ t) ((key, v) # ps)"

section \<open>Reading the text\<close>

lemma isspace_simps [simp]:
  "isspace CHR '' ''" "\<not> isspace CHR ''{''" "\<not> isspace CHR ''}''" "\<not> isspace CHR ''[''" "\<not> isspace CHR '']''" "\<not> isspace CHR '',''" "\<not> isspace CHR '':''"
  "\<not> isspace CHR 0x22" "\<not> isspace CHR ''t''" "\<not> isspace CHR ''f''" "\<not> isspace CHR ''n''" "\<not> isspace CHR ''-''" "\<not> isspace CHR ''.''" "\<not> isspace CHR ''e''" "\<not> isspace CHR ''E''"
  by (simp_all add: isspace_def)

lemma isdigit_simps [simp]:
  "\<not> isdigit CHR ''{''" "\<not> isdigit CHR ''}''" "\<not> isdigit CHR ''[''" "\<not> isdigit CHR '']''" "\<not> isdigit CHR '',''" "\<not> isdigit CHR '':''" "\<not> isdigit CHR 0x22"
  "\<not> isdigit CHR ''t''" "\<not> isdigit CHR ''f''" "\<not> isdigit CHR ''n''" "\<not> isdigit CHR ''-''" "\<not> isdigit CHR ''+''" "\<not> isdigit CHR ''.''" "\<not> isdigit CHR ''e''" "\<not> isdigit CHR ''E''"
  by (simp_all add: isdigit_def)

lemma digit_not_space: "isdigit c \<Longrightarrow> \<not> isspace c"
  by (auto simp: isdigit_def isspace_def Let_def)

lemma drop_plus: "drop pos json = a @ b \<Longrightarrow> drop (pos + length a) json = b"
  by (metis add.commute append_eq_conv_conj drop_drop)

lemma drop_Suc_tail: "drop pos json = c # b \<Longrightarrow> drop (Suc pos) json = b"
  using drop_plus [of pos json "[c]" b] by simp

lemma nth_dropped: "drop pos json = c # b \<Longrightarrow> pos < length json \<and> json ! pos = c"
  by (metis drop_eq_Nil linorder_not_less list.distinct(1) nth_via_drop)

lemma skip_blank:
  assumes "drop pos json = w @ r" "blank w" "\<not> starts r isspace"
  shows "skip_whitespace json pos = pos + length w"
proof -
  have "takeWhile isspace r = []" using assms(3) by (cases r) (auto simp: starts_def)
  then have "takeWhile isspace (w @ r) = w" using assms(2) by (simp add: takeWhile_append2 list_all_iff)
  then show ?thesis using assms(1) by (simp add: skip_whitespace_def)
qed

lemma string_end_plain [simp]: "c \<noteq> CHR 0x22 \<Longrightarrow> c \<noteq> CHR 0x5C \<Longrightarrow> string_end (c # s) = Suc (string_end s)"
  by (cases s) simp_all

lemma string_end_quote [simp]: "string_end (CHR 0x22 # s) = 0"
  by (cases s) simp_all

lemma unescape_plain [simp]: "c \<noteq> CHR 0x5C \<Longrightarrow> unescape_string (c # s) = c # unescape_string s"
  by (cases s) simp_all

lemma or_add_nat:
  fixes a b :: nat
  assumes "b < 2 ^ k"
  shows "push_bit k a OR b = 2 ^ k * a + b"
proof -
  have "\<not> bit b i" if "k \<le> i" for i
    using less_le_trans [OF assms power_increasing [OF that, of "2 :: nat"]] by (simp add: bit_iff_odd)
  then have "push_bit k a AND b = 0" by (intro bit_eqI) (auto simp: bit_and_iff bit_push_bit_iff)
  then show ?thesis using disjunctive_add_eq_or [of "push_bit k a" b] by (simp add: push_bit_eq_mult mult.commute)
qed

lemma hex_table_val: "map_of hex_table c = Some v \<Longrightarrow> json_hexval c = int v \<and> v < 16"
  by (auto simp: hex_table_def json_hexval_def upt_rec split: if_splits)

lemma hex_step:
  assumes "n < 2 ^ 28" "v < 16"
  shows "push_bit 4 (of_nat n) OR of_nat v = (of_nat (16 * n + v) :: u32)"
proof (rule word_unat_eq_iff [THEN iffD2])
  have "unat (push_bit 4 (of_nat n) OR of_nat v :: u32) = push_bit 4 n OR v"
    using assms by (simp only: unsigned_or_eq unsigned_push_bit_eq) (simp add: unat_of_nat take_bit_eq_mod push_bit_eq_mult)
  then show "unat (push_bit 4 (of_nat n) OR of_nat v :: u32) = unat (of_nat (16 * n + v) :: u32)"
    unfolding or_add_nat [of v 4 n, simplified, OF assms(2)] using assms by (simp only: unat_of_nat) simp
qed

lemma hex_number_code:
  assumes "hex_number n h = Some m" "n < 16 ^ k" "k + length h \<le> 7"
  shows "hex_code (of_nat n) h = Some (of_nat m) \<and> m < 16 ^ (k + length h)"
  using assms
proof (induction h arbitrary: n k)
  case (Cons c h)
  then obtain v where v: "map_of hex_table c = Some v" "hex_number (16 * n + v) h = Some m" by (auto split: option.splits)
  note val = hex_table_val [OF v(1)]
  have "(16 :: nat) ^ k \<le> 16 ^ 7" using Cons.prems(3) by (intro power_increasing) simp_all
  then have n: "n < 2 ^ 28" using Cons.prems(2) by simp
  have lt: "16 * n + v < 16 ^ Suc k" using Cons.prems(2) val by simp
  have "hex_code (of_nat n) (c # h) = hex_code (of_nat (16 * n + v)) h" using val hex_step [OF n] by simp
  then show ?case using Cons.IH [OF v(2) lt] Cons.prems(3) by simp
qed simp

lemma utf8_denotes:
  assumes "n < 2 ^ 16"
  shows "utf8 (of_nat n) = utf8_text n"
proof -
  let ?w = "of_nat n :: u32"
  have u: "unat ?w = n" using assms by (simp add: unat_of_nat)
  have lo: "unat (0x80 OR (drop_bit k ?w AND 0x3F)) = 0x80 + n div 2 ^ k mod 2 ^ 6" for k
    using or_add_nat [of "n div 2 ^ k mod 2 ^ 6" 6 2] take_bit_eq_mask [of 6 "n div 2 ^ k"]
    by (simp only: unsigned_or_eq unsigned_and_eq unsigned_drop_bit_eq u) (use assms in \<open>simp add: drop_bit_eq_div take_bit_eq_mod mask_eq_exp_minus_1\<close>)
  have hi: "unat (0xC0 OR drop_bit 6 ?w) = 0xC0 + n div 2 ^ 6" if "n < 2 ^ 11"
    using that or_add_nat [of "n div 2 ^ 6" 6 3] by (simp only: unsigned_or_eq unsigned_drop_bit_eq u) (simp add: drop_bit_eq_div take_bit_eq_mod)
  have top: "unat (0xE0 OR drop_bit 12 ?w) = 0xE0 + n div 2 ^ 12"
    using assms or_add_nat [of "n div 2 ^ 12" 4 14] by (simp only: unsigned_or_eq unsigned_drop_bit_eq u) (simp add: drop_bit_eq_div take_bit_eq_mod)
  show ?thesis using lo [of 0] lo [of 6] hi top by (simp add: utf8_def utf8_text_def word_less_nat_alt u)
qed

lemma escape_char: "map_of escape_table e = Some c \<Longrightarrow> escaped e = c \<and> e \<noteq> CHR ''u''"
  by (auto simp: escape_table_def escaped_def split: if_splits)

lemma hex_digits_plain:
  assumes "hex_code code h = Some r"
  shows "list_all (\<lambda>c. c \<noteq> CHR 0x22 \<and> c \<noteq> CHR 0x5C) h"
  using assms by (induction h arbitrary: code) (auto simp: json_hexval_def split: if_splits)

lemma string_end_plains: "list_all (\<lambda>c. c \<noteq> CHR 0x22 \<and> c \<noteq> CHR 0x5C) p \<Longrightarrow> string_end (p @ s) = length p + string_end s"
  by (induction p) simp_all

lemma string_text_read:
  assumes "string_text s t"
  shows "string_end (s @ CHR 0x22 # r) = length s" "unescape_string s = t"
  using assms
proof (induction)
  case (string_unicode h n s t)
  have h: "hex_code 0 h = Some (of_nat n)" "n < 2 ^ 16" using hex_number_code [OF string_unicode(2), of 0] string_unicode(1) by simp_all
  { case 1 then show ?case using string_unicode string_end_plains [OF hex_digits_plain [OF h(1)]] by simp }
  { case 2 then show ?case using string_unicode h utf8_denotes [OF h(2)] by simp }
next
  case (string_escape e c s t)
  { case 1 then show ?case using string_escape by simp }
  { case 2 then show ?case using string_escape escape_char [OF string_escape(1)] by simp }
qed simp_all

lemma parse_string_text:
  assumes "drop pos json = CHR 0x22 # s @ CHR 0x22 # r" "string_text s t" "\<And>k. ok k"
  shows "parse_string ok json pos k = Some (t, pos + length s + 2, k + 2)"
proof -
  have d: "drop (pos + 1) json = s @ CHR 0x22 # r" using drop_Suc_tail [OF assms(1)] by simp
  have "length (drop (pos + 1) json) = length s + 1 + length r" using d by simp
  then have "pos + 1 + length s < length json" by simp
  then show ?thesis using string_text_read [OF assms(2)] d assms(3) by (simp add: parse_string_def Let_def)
qed

text \<open>What may stand after a number.\<close>

definition delim :: "string \<Rightarrow> bool" where
  "delim r \<longleftrightarrow> (case r of [] \<Rightarrow> True | c # _ \<Rightarrow> isspace c \<or> c = CHR '','' \<or> c = CHR '']'' \<or> c = CHR ''}'')"

lemma delim_simps [simp]: "delim []" "delim (CHR '','' # r)" "delim (CHR '']'' # r)" "delim (CHR ''}'' # r)" "blank w \<Longrightarrow> delim r \<Longrightarrow> delim (w @ r)"
  by (simp_all add: delim_def, cases w, simp_all)

lemma delim_starts:
  assumes "delim r"
  shows "\<not> starts r isdigit" "\<not> starts r (\<lambda>c. c = CHR ''.'')" "\<not> starts r (\<lambda>c. c = CHR ''e'' \<or> c = CHR ''E'')" "\<not> starts r (\<lambda>c. to_lower c = CHR ''e'')"
    "\<not> starts r (\<lambda>c. to_lower c = CHR ''x'')"
  using assms by (auto simp: delim_def starts_def isspace_def isdigit_def to_lower_def Let_def split: list.splits if_splits)

lemma char_at_drop: "char_at json pos p = starts (drop pos json) p"
  by (cases "drop pos json") (auto simp: char_at_def starts_def dest: nth_dropped)

lemma count_while_run:
  assumes "list_all p d" "\<not> starts r p" shows "count_while p (d @ r) = length d"
proof -
  have "takeWhile p r = []" using assms(2) by (cases r) (auto simp: starts_def)
  then have "takeWhile p (d @ r) = d" using assms(1) by (simp add: takeWhile_append2 list_all_iff)
  then show ?thesis by (simp add: count_while_def)
qed

lemma to_lower_simps [simp]: "to_lower CHR ''e'' = CHR ''e''" "to_lower CHR ''E'' = CHR ''e''" "to_lower CHR ''.'' = CHR ''.''"
  by code_simp+

lemma skip_digits_run:
  assumes "drop pos json = d @ r" "list_all isdigit d" "\<not> starts r isdigit"
  shows "skip_digits json pos = pos + length d" "drop (skip_digits json pos) json = r"
  using count_while_run [OF assms(2,3)] assms(1) drop_plus [OF assms(1)] by (simp_all add: skip_digits_def count_while_def)

lemma starts_simps [simp]: "\<not> starts [] p" "starts (c # s) p = p c"
  by (simp_all add: starts_def)

lemma digits_starts: "digits d \<Longrightarrow> starts (d @ r) isdigit"
  by (cases d) (simp_all add: digits_def)

lemma number_parts:
  assumes "number_text s"
  obtains m i f e where "s = m @ i @ f @ e" "m = [] \<or> m = ''-''" "digits i" "f = [] \<or> (\<exists>d. f = CHR ''.'' # d \<and> digits d)"
    "e = [] \<or> (\<exists>x g d. e = x # g @ d \<and> (x = CHR ''e'' \<or> x = CHR ''E'') \<and> (g = [] \<or> g = ''+'' \<or> g = ''-'') \<and> digits d)"
  using assms unfolding number_text_def by blast

text \<open>The scan ends where the number does.\<close>

lemma number_end_text:
  assumes "number_text s" "drop pos json = s @ r" "delim r"
  shows "number_end json pos = pos + length s"
  using assms(1)
proof (rule number_parts)
  fix m i f e
  assume s: "s = m @ i @ f @ e" and m: "m = [] \<or> m = ''-''" and i: "digits i" and f: "f = [] \<or> (\<exists>d. f = CHR ''.'' # d \<and> digits d)"
    and e: "e = [] \<or> (\<exists>x g d. e = x # g @ d \<and> (x = CHR ''e'' \<or> x = CHR ''E'') \<and> (g = [] \<or> g = ''+'' \<or> g = ''-'') \<and> digits d)"
  have "list_all isdigit i" using i by (simp add: digits_def)
  let ?p1 = "pos + length m" and ?p2 = "pos + length m + length i" and ?p3 = "pos + length m + length i + length f"
  have d0: "drop pos json = m @ i @ f @ e @ r" using assms(2) s by simp
  note d1 = drop_plus [OF d0] and d2 = drop_plus [OF drop_plus [OF d0]]
  note d3 = drop_plus [OF d2]
  have i0: "i \<noteq> []" "isdigit (hd i)" "list_all isdigit i" using i by (auto simp: digits_def neq_Nil_conv)
  have p1: "(if char_at json pos (\<lambda>c. c = CHR ''-'') then pos + 1 else pos) = ?p1"
    using m i0 d0 by (cases i) (auto simp: char_at_drop)
  have e_no: "\<not> starts (e @ r) isdigit" "\<not> starts (e @ r) (\<lambda>c. c = CHR ''.'')" using e delim_starts [OF assms(3)] by auto
  have f_no: "\<not> starts (f @ e @ r) isdigit" using f e_no by auto
  note p2 = skip_digits_run [OF d1 i0(3) f_no]
  have p3: "(if char_at json ?p2 (\<lambda>c. c = CHR ''.'') then skip_digits json (?p2 + 1) else ?p2) = ?p3"
  proof (cases f)
    case Nil
    then show ?thesis using d2 e_no by (simp add: char_at_drop)
  next
    case (Cons x d)
    then have x: "x = CHR ''.''" "digits d" using f by auto
    have "drop (?p2 + 1) json = d @ e @ r" using drop_Suc_tail [of ?p2 json x] d2 Cons by simp
    from skip_digits_run(1) [OF this] show ?thesis using x e_no d2 Cons by (simp add: char_at_drop digits_def)
  qed
  have p4: "(if char_at json ?p3 (\<lambda>c. c = CHR ''e'' \<or> c = CHR ''E'')
      then skip_digits json (if char_at json (?p3 + 1) is_sign then ?p3 + 1 + 1 else ?p3 + 1) else ?p3) = ?p3 + length e"
  proof (cases e)
    case Nil
    then show ?thesis using d3 delim_starts [OF assms(3)] by (simp add: char_at_drop)
  next
    case (Cons x t)
    then obtain g d where x: "x = CHR ''e'' \<or> x = CHR ''E''" "t = g @ d" "g = [] \<or> g = ''+'' \<or> g = ''-''" "digits d" using e by auto
    have d4: "drop (?p3 + 1) json = g @ d @ r" using drop_Suc_tail [of ?p3 json x] d3 Cons x(2) by simp
    have g: "(if char_at json (?p3 + 1) is_sign then ?p3 + 1 + 1 else ?p3 + 1) = ?p3 + 1 + length g"
      using x(3,4) d4 by (cases d) (auto simp: char_at_drop is_sign_def digits_def)
    have "skip_digits json (?p3 + 1 + length g) = ?p3 + 1 + length g + length d"
      using skip_digits_run(1) [OF drop_plus [OF d4]] x(4) delim_starts(1) [OF assms(3)] by (simp add: digits_def)
    then show ?thesis using g x(1,2) d3 Cons by (auto simp: char_at_drop)
  qed
  show ?thesis unfolding number_end_def Let_def p1 p2(1) p3 p4 by (simp add: s)
qed

lemma strtod_end_text:
  assumes "number_text s" "delim r"
  shows "strtod_end (s @ r) = length s"
  using assms(1)
proof (rule number_parts)
  fix m i f e
  assume s: "s = m @ i @ f @ e" and m: "m = [] \<or> m = ''-''" and i: "digits i" and f: "f = [] \<or> (\<exists>d. f = CHR ''.'' # d \<and> digits d)"
    and e: "e = [] \<or> (\<exists>x g d. e = x # g @ d \<and> (x = CHR ''e'' \<or> x = CHR ''E'') \<and> (g = [] \<or> g = ''+'' \<or> g = ''-'') \<and> digits d)"
  let ?t = "i @ f @ e @ r"
  have i0: "i \<noteq> []" "list_all isdigit i" using i by (auto simp: digits_def)
  have g: "drop (if starts (s @ r) is_sign then 1 else 0) (s @ r) = ?t" "(if starts (s @ r) is_sign then 1 else 0) = length m"
    using m i0 unfolding s by (cases i; auto simp: is_sign_def)+
  have e_no: "\<not> starts (e @ r) isdigit" "\<not> starts (e @ r) (\<lambda>c. c = CHR ''.'')" "\<not> starts (e @ r) (\<lambda>c. to_lower c = CHR ''x'')"
    using e delim_starts [OF assms(2)] by auto
  have x: "exponent_end (\<lambda>c. to_lower c = CHR ''e'') (e @ r) = length e"
  proof (cases e)
    case Nil
    then show ?thesis using delim_starts [OF assms(2)] by (simp add: exponent_end_def)
  next
    case (Cons y t)
    then obtain g d where y: "y = CHR ''e'' \<or> y = CHR ''E''" "t = g @ d" "g = [] \<or> g = ''+'' \<or> g = ''-''" "digits d" using e by auto
    have "to_lower y = CHR ''e''" using y(1) by auto
    moreover have "(if starts (g @ d @ r) is_sign then 1 else 0) = length g" using y(3,4) by (cases d) (auto simp: is_sign_def digits_def)
    moreover have "count_while isdigit (d @ r) = length d" "length d \<noteq> 0" using y(4) delim_starts(1) [OF assms(2)] by (auto simp: digits_def intro: count_while_run)
    ultimately show ?thesis using Cons y(2) by (simp add: exponent_end_def Let_def)
  qed
  have f_no: "\<not> starts (f @ e @ r) isdigit" "\<not> starts (f @ e @ r) (\<lambda>c. to_lower c = CHR ''x'')" using f e_no by auto
  have c: "count_while isdigit ?t = length i" using count_while_run [OF i0(2) f_no(1)] .
  have m0: "mantissa_end isdigit (\<lambda>c. to_lower c = CHR ''e'') ?t = length i + length f + length e"
  proof (cases f)
    case Nil
    then show ?thesis using c e_no(2) i0(1) x by (simp add: mantissa_end_def Let_def)
  next
    case (Cons y d)
    then have y: "y = CHR ''.''" "digits d" using f by auto
    have "count_while isdigit (d @ e @ r) = length d" using y(2) e_no(1) by (auto simp: digits_def intro: count_while_run)
    then show ?thesis using c Cons y(1) i0(1) x by (simp add: mantissa_end_def Let_def)
  qed
  have w: "word_end ?t = 0" using i0 by (cases i) (auto simp: word_end_def to_lower_def isdigit_def Let_def split: if_splits)
  have "\<not> starts (tl ?t) (\<lambda>c. to_lower c = CHR ''x'')"
    using i0 f_no(2) by (cases i rule: list.exhaust; cases "tl i") (auto simp: to_lower_def isdigit_def Let_def)
  then have h: "hex_end ?t = 0" by (simp add: hex_end_def)
  have "length i + length f + length e \<noteq> 0" using i0(1) by simp
  moreover have "drop (length m) (s @ r) = ?t" by (simp add: s)
  ultimately show ?thesis unfolding strtod_end_def Let_def g(2) using w h m0 i0(1) by (simp add: s)
qed

lemma parse_number_text:
  assumes "number_text s" "drop pos json = s @ r" "delim r" "\<And>k. ok k"
  shows "parse_number ok dbl json pos k = Some (JNumber (dbl s) (is_integer s), pos + length s, k + 1)"
  using number_end_text [OF assms(1-3)] strtod_end_text [OF assms(1,3)] assms(2,4) by (simp add: parse_number_def is_integer_def)

lemma number_first: "number_text s \<Longrightarrow> s \<noteq> [] \<and> (hd s = CHR ''-'' \<or> isdigit (hd s))"
  by (auto simp: number_text_def digits_def neq_Nil_conv)

lemma text_first:
  shows "value_text dbl d s v \<Longrightarrow> s \<noteq> [] \<and> \<not> isspace (hd s) \<and> hd s \<noteq> CHR '']''"
    and "elements_text dbl d s vs \<Longrightarrow> s \<noteq> [] \<and> \<not> isspace (hd s) \<and> hd s \<noteq> CHR '']''"
    and "members_text dbl d s ps \<Longrightarrow> s \<noteq> [] \<and> hd s = CHR 0x22"
proof (induction rule: value_text_elements_text_members_text.inducts)
  case (text_number d s)
  then show ?case using number_first [OF text_number(2)] digit_not_space by fastforce
qed auto

text \<open>\<open>parse_value\<close> decides by the first character after white space.\<close>

lemma parse_value_at:
  assumes "drop pos json = w @ s" "blank w" "s \<noteq> []" "\<not> isspace (hd s)" "d \<le> 128" "130 \<le> n + d"
  obtains m where "129 \<le> m + d" "drop (pos + length w) json = s" "parse_value n ok dbl json d pos k =
    (if hd s = CHR ''{'' then parse_object (parse_value m ok dbl json (d + 1)) ok json (pos + length w) k
     else if hd s = CHR ''['' then parse_array (parse_value m ok dbl json (d + 1)) ok json (pos + length w) k
     else if hd s = CHR 0x22 then lift_parsed (map_option (\<lambda>(s, pos, k). (JString s, pos, k)) (parse_string ok json (pos + length w) k))
     else if hd s = CHR ''-'' \<or> isdigit (hd s) then lift_parsed (parse_number ok dbl json (pos + length w) k)
     else if hd s = CHR ''t'' \<or> hd s = CHR ''f'' \<or> hd s = CHR ''n'' then lift_parsed (parse_literal ok json (pos + length w) k)
     else JFail)"
proof -
  obtain m where m: "n = Suc m" using assms(5,6) by (cases n) auto
  obtain c t where s: "s = c # t" using assms(3) by (cases s) auto
  have sk: "skip_whitespace json pos = pos + length w" using skip_blank [OF assms(1,2)] s assms(4) by simp
  note d = drop_plus [OF assms(1)]
  have c: "pos + length w < length json" "json ! (pos + length w) = c" using nth_dropped [OF d [unfolded s]] by auto
  show thesis using that [of m] m assms(5,6) d s sk c by (simp add: parse_value.simps Let_def JSON_MAX_DEPTH_def)
qed

definition reads_value :: "alloc_outcome \<Rightarrow> (string \<Rightarrow> u64) \<Rightarrow> nat \<Rightarrow> string \<Rightarrow> json \<Rightarrow> bool" where
  "reads_value ok dbl d s v \<longleftrightarrow> (\<forall>json pos w r n k. drop pos json = w @ s @ r \<longrightarrow> blank w \<longrightarrow> delim r \<longrightarrow> 130 \<le> n + d \<longrightarrow>
     (\<exists>k'. parse_value n ok dbl json d pos k = JOk (v, pos + length w + length s, k')))"

definition reads_elements :: "alloc_outcome \<Rightarrow> (string \<Rightarrow> u64) \<Rightarrow> nat \<Rightarrow> string \<Rightarrow> json list \<Rightarrow> bool" where
  "reads_elements ok dbl d s vs \<longleftrightarrow> (\<forall>json pos w r n m k us cap. drop pos json = w @ s @ CHR '']'' # r \<longrightarrow> blank w \<longrightarrow> 130 \<le> m + d \<longrightarrow> length json - pos < n \<longrightarrow>
     (\<exists>k'. array_loop n (parse_value m ok dbl json d) ok json pos k us cap = JOk (JArray (us @ vs), pos + length w + length s + 1, k')))"

definition reads_members :: "alloc_outcome \<Rightarrow> (string \<Rightarrow> u64) \<Rightarrow> nat \<Rightarrow> string \<Rightarrow> (string \<times> json) list \<Rightarrow> bool" where
  "reads_members ok dbl d s ps \<longleftrightarrow> (\<forall>json pos w r n m k qs. drop pos json = w @ s @ CHR ''}'' # r \<longrightarrow> blank w \<longrightarrow> 130 \<le> m + d \<longrightarrow> length json - pos < n \<longrightarrow>
     (\<exists>k'. object_loop n (parse_value m ok dbl json d) ok json pos k qs = JOk (JObject (qs @ ps), pos + length w + length s + 1, k')))"

lemma reads_string:
  assumes "string_text s t" "d \<le> 128" "\<And>k. ok k"
  shows "reads_value ok dbl d (CHR 0x22 # s @ [CHR 0x22]) (JString t)"
  unfolding reads_value_def
proof (intro allI impI)
  fix json pos w r n k
  assume a: "drop pos json = w @ (CHR 0x22 # s @ [CHR 0x22]) @ r" "blank w" "130 \<le> n + d"
  obtain m where m: "drop (pos + length w) json = (CHR 0x22 # s @ [CHR 0x22]) @ r"
    "parse_value n ok dbl json d pos k = lift_parsed (map_option (\<lambda>(s, pos, k). (JString s, pos, k)) (parse_string ok json (pos + length w) k))"
    by (rule parse_value_at [OF a(1,2) _ _ assms(2) a(3), of ok dbl k]) simp_all
  show "\<exists>k'. parse_value n ok dbl json d pos k = JOk (JString t, pos + length w + length (CHR 0x22 # s @ [CHR 0x22]), k')"
    using m parse_string_text [of "pos + length w" json s r t ok k] assms(1,3) by (simp add: lift_parsed_def)
qed

lemma reads_number:
  assumes "number_text s" "d \<le> 128" "\<And>k. ok k"
  shows "reads_value ok dbl d s (JNumber (dbl s) (is_integer s))"
  unfolding reads_value_def
proof (intro allI impI)
  fix json pos w r n k
  assume a: "drop pos json = w @ s @ r" "blank w" "delim r" "130 \<le> n + d"
  have f: "s \<noteq> []" "hd s = CHR ''-'' \<or> isdigit (hd s)" using number_first [OF assms(1)] by auto
  then have h: "s @ r \<noteq> []" "\<not> isspace (hd (s @ r))" "hd (s @ r) = hd s" using digit_not_space by auto
  have "parse_value n ok dbl json d pos k = lift_parsed (parse_number ok dbl json (pos + length w) k)"
    by (rule parse_value_at [OF a(1,2) h(1,2) assms(2) a(4), of ok dbl k]) (use f h(3) in auto)
  then show "\<exists>k'. parse_value n ok dbl json d pos k = JOk (JNumber (dbl s) (is_integer s), pos + length w + length s, k')"
    using parse_number_text [OF assms(1) drop_plus [OF a(1)] a(3)] assms(3) by (simp add: lift_parsed_def)
qed

lemma reads_literal:
  assumes "(s, v) = (''null'', JNull) \<or> (s, v) = (''true'', JBool True) \<or> (s, v) = (''false'', JBool False)" "d \<le> 128" "\<And>k. ok k"
  shows "reads_value ok dbl d s v"
  unfolding reads_value_def
proof (intro allI impI)
  fix json pos w r n k
  assume a: "drop pos json = w @ s @ r" "blank w" "130 \<le> n + d"
  have h: "s @ r \<noteq> []" "\<not> isspace (hd (s @ r))" using assms(1) by auto
  have dr: "drop (pos + length w) json = s @ r" by (rule drop_plus [OF a(1)])
  have "length json - (pos + length w) = length s + length r" using arg_cong [OF dr, of length] by simp
  moreover have "0 < length s" using assms(1) by auto
  ultimately have "pos + length w + length s \<le> length json" by linarith
  moreover have "parse_value n ok dbl json d pos k = lift_parsed (parse_literal ok json (pos + length w) k)"
    by (rule parse_value_at [OF a(1,2) h assms(2) a(3), of ok dbl k]) (use assms(1) in auto)
  ultimately show "\<exists>k'. parse_value n ok dbl json d pos k = JOk (v, pos + length w + length s, k')"
    using assms(1,3) dr by (auto simp: parse_literal_def lift_parsed_def)
qed

lemma reads_element:
  assumes v: "reads_value ok dbl d s v" and w: "blank w1" and ok: "\<And>k. ok k"
    and a: "drop pos json = w @ s @ w1 @ c # r" "blank w" "130 \<le> m + d" "c = CHR '','' \<or> c = CHR '']''"
  obtains k' where "array_loop (Suc n) (parse_value m ok dbl json d) ok json pos k us cap =
    (if c = CHR '']'' then JOk (JArray (us @ [v]), pos + length w + length s + length w1 + 1, k')
     else array_loop n (parse_value m ok dbl json d) ok json (pos + length w + length s + length w1 + 1) k' (us @ [v]) (if length us \<ge> cap then cap * 2 else cap))"
    "drop (pos + length w + length s + length w1 + 1) json = r"
proof -
  let ?p = "pos + length w + length s + length w1"
  have dl: "delim (w1 @ c # r)" using w a(4) by (auto intro!: delim_simps(5))
  obtain k1 where k1: "parse_value m ok dbl json d pos k = JOk (v, pos + length w + length s, k1)"
    using v a(1-3) dl unfolding reads_value_def by blast
  have d1: "drop (pos + length w + length s) json = w1 @ c # r" using drop_plus [OF drop_plus [OF a(1)]] by simp
  have sk: "skip_whitespace json (pos + length w + length s) = ?p" using skip_blank [OF d1 w] a(4) by auto
  note d2 = drop_plus [OF d1]
  have c: "?p < length json" "json ! ?p = c" using nth_dropped [OF d2] by auto
  have "drop (?p + 1) json = r" using drop_Suc_tail [OF d2] by simp
  moreover have "array_loop (Suc n) (parse_value m ok dbl json d) ok json pos k us cap =
    (if c = CHR '']'' then JOk (JArray (us @ [v]), ?p + 1, if length us \<ge> cap then k1 + 1 else k1)
     else array_loop n (parse_value m ok dbl json d) ok json (?p + 1) (if length us \<ge> cap then k1 + 1 else k1) (us @ [v]) (if length us \<ge> cap then cap * 2 else cap))"
    unfolding array_loop.simps(2) k1 parsed.case prod.case Let_def sk using c ok a(4) by auto
  ultimately show thesis using that by blast
qed

lemma reads_member:
  assumes key: "string_text ks key" and w: "blank w1" "blank w2" "blank w3" and v: "reads_value ok dbl d s v" and ok: "\<And>k. ok k"
    and a: "drop pos json = w @ (CHR 0x22 # ks @ CHR 0x22 # w1 @ CHR '':'' # w2 @ s @ w3) @ c # r" "blank w" "130 \<le> m + d" "c = CHR '','' \<or> c = CHR ''}''"
  defines "p \<equiv> pos + length w + length (CHR 0x22 # ks @ CHR 0x22 # w1 @ CHR '':'' # w2 @ s @ w3)"
  obtains k' where "object_loop (Suc n) (parse_value m ok dbl json d) ok json pos k qs =
    (if c = CHR ''}'' then JOk (JObject (qs @ [(key, v)]), p + 1, k') else object_loop n (parse_value m ok dbl json d) ok json (p + 1) k' (qs @ [(key, v)]))"
    "drop (p + 1) json = r"
proof -
  let ?p1 = "pos + length w" and ?p2 = "pos + length w + length ks + 2" and ?p3 = "pos + length w + length ks + 2 + length w1"
  let ?p4 = "pos + length w + length ks + 2 + length w1 + 1 + length w2 + length s"
  have d1: "drop ?p1 json = CHR 0x22 # ks @ CHR 0x22 # w1 @ CHR '':'' # w2 @ s @ w3 @ c # r" using drop_plus [OF a(1)] by simp
  have s1: "skip_whitespace json pos = ?p1" using skip_blank [OF a(1,2)] by simp
  note c1 = nth_dropped [OF d1]
  have ps: "parse_string ok json ?p1 k = Some (key, ?p2, k + 2)" by (rule parse_string_text [OF d1 key ok])
  have d2: "drop ?p2 json = w1 @ CHR '':'' # w2 @ s @ w3 @ c # r"
    using drop_plus [of ?p1 json "CHR 0x22 # ks @ [CHR 0x22]"] d1 by (simp add: add.assoc)
  have s2: "skip_whitespace json ?p2 = ?p3" using skip_blank [OF d2 w(1)] by simp
  have d3: "drop ?p3 json = CHR '':'' # w2 @ s @ w3 @ c # r" by (rule drop_plus [OF d2])
  note c3 = nth_dropped [OF d3]
  have d4: "drop (?p3 + 1) json = w2 @ s @ w3 @ c # r" using drop_Suc_tail [OF d3] by simp
  have dl: "delim (w3 @ c # r)" using w(3) a(4) by (auto intro!: delim_simps(5))
  obtain k1 where k1: "parse_value m ok dbl json d (?p3 + 1) (k + 2) = JOk (v, ?p4, k1)"
    using v d4 w(2) a(3) dl unfolding reads_value_def by metis
  have d5: "drop ?p4 json = w3 @ c # r" using drop_plus [OF drop_plus [OF d4]] by simp
  have p: "?p4 + length w3 = p" by (simp add: p_def)
  have s5: "skip_whitespace json ?p4 = p" using skip_blank [OF d5 w(3)] a(4) p by auto
  have d6: "drop p json = c # r" using drop_plus [OF d5] p by simp
  note c6 = nth_dropped [OF d6]
  have "drop (p + 1) json = r" using drop_Suc_tail [OF d6] by simp
  moreover have "object_loop (Suc n) (parse_value m ok dbl json d) ok json pos k qs =
    (if c = CHR ''}'' then JOk (JObject (qs @ [(key, v)]), p + 1, k1 + 1) else object_loop n (parse_value m ok dbl json d) ok json (p + 1) (k1 + 1) (qs @ [(key, v)]))"
    unfolding object_loop.simps(2) Let_def s1 ps option.case prod.case s2 k1 parsed.case s5 using c1 c3 c6 ok a(4) by auto
  ultimately show thesis using that by blast
qed

lemma reads_array:
  assumes "blank u" "reads_elements ok dbl (d + 1) s vs" "s \<noteq> []" "\<not> isspace (hd s)" "hd s \<noteq> CHR '']''" "d \<le> 128" "\<And>k. ok k"
  shows "reads_value ok dbl d (CHR ''['' # u @ s @ '']'') (JArray vs)"
  unfolding reads_value_def
proof (intro allI impI)
  fix json pos w r n k
  assume a: "drop pos json = w @ (CHR ''['' # u @ s @ '']'') @ r" "blank w" "130 \<le> n + d"
  let ?p = "pos + length w"
  obtain m where m: "129 \<le> m + d" "drop ?p json = (CHR ''['' # u @ s @ '']'') @ r"
    "parse_value n ok dbl json d pos k = parse_array (parse_value m ok dbl json (d + 1)) ok json ?p k"
    by (rule parse_value_at [OF a(1,2) _ _ assms(6) a(3), of ok dbl k]) simp_all
  have d1: "drop (?p + 1) json = u @ s @ CHR '']'' # r" using drop_Suc_tail [of ?p json] m(2) by simp
  obtain c t where s: "s = c # t" using assms(3) by (cases s) auto
  have sk: "skip_whitespace json (?p + 1) = ?p + 1 + length u" using skip_blank [OF d1 assms(1)] s assms(4) by simp
  have d2: "drop (?p + 1 + length u) json = [] @ s @ CHR '']'' # r" using drop_plus [OF d1] by simp
  have c: "?p + 1 + length u < length json" "json ! (?p + 1 + length u) = c" using nth_dropped [of "?p + 1 + length u" json c] d2 s by auto
  have "\<exists>k'. array_loop (length json) (parse_value m ok dbl json (d + 1)) ok json (?p + 1 + length u) (k + 2) [] 8 =
      JOk (JArray ([] @ vs), ?p + 1 + length u + length ([] :: string) + length s + 1, k')"
    by (rule assms(2) [unfolded reads_elements_def, rule_format, OF d2]) (use m(1) c(1) in simp_all)
  then show "\<exists>k'. parse_value n ok dbl json d pos k = JOk (JArray vs, pos + length w + length (CHR ''['' # u @ s @ '']''), k')"
    unfolding m(3) parse_array_def Let_def sk using c s assms(5,7) by auto
qed

lemma reads_object:
  assumes "blank u" "reads_members ok dbl (d + 1) s ps" "s \<noteq> []" "hd s = CHR 0x22" "d \<le> 128" "\<And>k. ok k"
  shows "reads_value ok dbl d (CHR ''{'' # u @ s @ ''}'') (JObject ps)"
  unfolding reads_value_def
proof (intro allI impI)
  fix json pos w r n k
  assume a: "drop pos json = w @ (CHR ''{'' # u @ s @ ''}'') @ r" "blank w" "130 \<le> n + d"
  let ?p = "pos + length w"
  obtain m where m: "129 \<le> m + d" "drop ?p json = (CHR ''{'' # u @ s @ ''}'') @ r"
    "parse_value n ok dbl json d pos k = parse_object (parse_value m ok dbl json (d + 1)) ok json ?p k"
    by (rule parse_value_at [OF a(1,2) _ _ assms(5) a(3), of ok dbl k]) simp_all
  have d1: "drop (?p + 1) json = u @ s @ CHR ''}'' # r" using drop_Suc_tail [of ?p json] m(2) by simp
  obtain t where s: "s = CHR 0x22 # t" using assms(3,4) by (cases s) auto
  have sk: "skip_whitespace json (?p + 1) = ?p + 1 + length u" using skip_blank [OF d1 assms(1)] s by simp
  have d2: "drop (?p + 1 + length u) json = [] @ s @ CHR ''}'' # r" using drop_plus [OF d1] by simp
  have c: "?p + 1 + length u < length json" "json ! (?p + 1 + length u) = CHR 0x22" using nth_dropped [of "?p + 1 + length u" json "CHR 0x22"] d2 s by auto
  have "\<exists>k'. object_loop (length json) (parse_value m ok dbl json (d + 1)) ok json (?p + 1 + length u) (k + 1) [] =
      JOk (JObject ([] @ ps), ?p + 1 + length u + length ([] :: string) + length s + 1, k')"
    by (rule assms(2) [unfolded reads_members_def, rule_format, OF d2]) (use m(1) c(1) in simp_all)
  then show "\<exists>k'. parse_value n ok dbl json d pos k = JOk (JObject ps, pos + length w + length (CHR ''{'' # u @ s @ ''}''), k')"
    unfolding m(3) parse_object_def Let_def sk using c assms(6) by auto
qed

lemma reads_empty:
  assumes "blank u" "d \<le> 128" "\<And>k. ok k"
  shows "reads_value ok dbl d (CHR ''['' # u @ '']'') (JArray [])" "reads_value ok dbl d (CHR ''{'' # u @ ''}'') (JObject [])"
proof -
  have "\<exists>k'. parse_value n ok dbl json d pos k = JOk (v, pos + length w + length (b # u @ [e]), k')"
    if a: "drop pos json = w @ (b # u @ [e]) @ r" "blank w" "130 \<le> n + d" "(b, e, v) = (CHR ''['', CHR '']'', JArray []) \<or> (b, e, v) = (CHR ''{'', CHR ''}'', JObject [])"
    for json pos w r n k b e v
  proof -
    let ?p = "pos + length w"
    have d0: "drop ?p json = b # u @ e # r" using drop_plus [OF a(1)] by simp
    have d1: "drop (?p + 1) json = u @ e # r" using drop_Suc_tail [OF d0] by simp
    have sk: "skip_whitespace json (?p + 1) = ?p + 1 + length u" using skip_blank [OF d1 assms(1)] a(4) by auto
    have c: "?p + 1 + length u < length json" "json ! (?p + 1 + length u) = e" using nth_dropped [OF drop_plus [OF d1]] by auto
    obtain m where m: "parse_value n ok dbl json d pos k =
        (if b = CHR ''{'' then parse_object (parse_value m ok dbl json (d + 1)) ok json ?p k else parse_array (parse_value m ok dbl json (d + 1)) ok json ?p k)"
      by (rule parse_value_at [OF a(1,2) _ _ assms(2) a(3), of ok dbl k]) (use a(4) in auto)
    show ?thesis unfolding m parse_object_def parse_array_def Let_def sk using c a(4) assms(3) by auto
  qed
  then show "reads_value ok dbl d (CHR ''['' # u @ '']'') (JArray [])" "reads_value ok dbl d (CHR ''{'' # u @ ''}'') (JObject [])"
    unfolding reads_value_def by blast+
qed

lemma reads_text:
  assumes ok: "\<And>k. ok k"
  shows "value_text dbl d s v \<Longrightarrow> reads_value ok dbl d s v"
    and "elements_text dbl d s vs \<Longrightarrow> reads_elements ok dbl d s vs"
    and "members_text dbl d s ps \<Longrightarrow> reads_members ok dbl d s ps"
proof (induction rule: value_text_elements_text_members_text.inducts)
  case (text_array d u s vs)
  then show ?case using text_first(2) [OF text_array(3)] ok by (intro reads_array) auto
next
  case (text_object d u s ps)
  then show ?case using text_first(3) [OF text_object(3)] ok by (intro reads_object) auto
next
  case (text_element d s v w1)
  show ?case unfolding reads_elements_def
  proof (intro allI impI)
    fix json pos w r n m k us cap
    assume a: "drop pos json = w @ (s @ w1) @ CHR '']'' # r" "blank w" "130 \<le> m + d" "length json - pos < n"
    obtain n' where n: "n = Suc n'" using a(4) by (cases n) auto
    show "\<exists>k'. array_loop n (parse_value m ok dbl json d) ok json pos k us cap = JOk (JArray (us @ [v]), pos + length w + length (s @ w1) + 1, k')"
      unfolding n by (rule reads_element [OF text_element(2,3) ok, of pos json w "CHR '']''" r m n' k us cap]) (use a in \<open>auto simp: add.assoc\<close>)
  qed
next
  case (text_elements d s v w1 w2 t vs)
  have b: "blank w1" "blank w2" using text_elements.hyps by auto
  show ?case unfolding reads_elements_def
  proof (intro allI impI)
    fix json pos w r n m k us cap
    assume a: "drop pos json = w @ (s @ w1 @ CHR '','' # w2 @ t) @ CHR '']'' # r" "blank w" "130 \<le> m + d" "length json - pos < n"
    obtain n' where n: "n = Suc n'" using a(4) by (cases n) auto
    let ?p = "pos + length w + length s + length w1 + 1"
    obtain k' where k': "array_loop n (parse_value m ok dbl json d) ok json pos k us cap =
        array_loop n' (parse_value m ok dbl json d) ok json ?p k' (us @ [v]) (if length us \<ge> cap then cap * 2 else cap)" "drop ?p json = w2 @ t @ CHR '']'' # r"
      unfolding n by (rule reads_element [OF text_elements.IH(2) b(1) ok, of pos json w "CHR '',''" "w2 @ t @ CHR '']'' # r" m n' k us cap]) (use a in auto)
    have "pos < length json" using a(1) by (cases "pos < length json") auto
    then have f: "length json - ?p < n'" using a(4) n by simp
    have "\<exists>k''. array_loop n' (parse_value m ok dbl json d) ok json ?p k' (us @ [v]) (if length us \<ge> cap then cap * 2 else cap) =
        JOk (JArray ((us @ [v]) @ vs), ?p + length w2 + length t + 1, k'')"
      by (rule text_elements.IH(4) [unfolded reads_elements_def, rule_format, OF k'(2) b(2) a(3) f])
    then show "\<exists>k'. array_loop n (parse_value m ok dbl json d) ok json pos k us cap =
        JOk (JArray (us @ v # vs), pos + length w + length (s @ w1 @ CHR '','' # w2 @ t) + 1, k')"
      unfolding k'(1) by (simp add: add.assoc)
  qed
next
  case (text_member ks key w1 w2 d s v w3)
  have b: "string_text ks key" "blank w1" "blank w2" "blank w3" using text_member.hyps by auto
  show ?case unfolding reads_members_def
  proof (intro allI impI)
    let ?s = "CHR 0x22 # ks @ CHR 0x22 # w1 @ CHR '':'' # w2 @ s @ w3"
    fix json pos w r n m k qs
    assume a: "drop pos json = w @ ?s @ CHR ''}'' # r" "blank w" "130 \<le> m + d" "length json - pos < n"
    obtain n' where n: "n = Suc n'" using a(4) by (cases n) auto
    show "\<exists>k'. object_loop n (parse_value m ok dbl json d) ok json pos k qs = JOk (JObject (qs @ [(key, v)]), pos + length w + length ?s + 1, k')"
      unfolding n by (rule reads_member [OF b text_member.IH(2) ok a(1-3), of n' k qs]) auto
  qed
next
  case (text_members ks key w1 w2 d s v w3 w4 t ps)
  have b: "string_text ks key" "blank w1" "blank w2" "blank w3" and b4: "blank w4" using text_members.hyps by auto
  show ?case unfolding reads_members_def
  proof (intro allI impI)
    let ?s = "CHR 0x22 # ks @ CHR 0x22 # w1 @ CHR '':'' # w2 @ s @ w3" and ?t = "CHR 0x22 # ks @ CHR 0x22 # w1 @ CHR '':'' # w2 @ s @ w3 @ CHR '','' # w4 @ t"
    fix json pos w r n m k qs
    assume a: "drop pos json = w @ ?t @ CHR ''}'' # r" "blank w" "130 \<le> m + d" "length json - pos < n"
    obtain n' where n: "n = Suc n'" using a(4) by (cases n) auto
    let ?p = "pos + length w + length ?s + 1"
    have a1: "drop pos json = w @ ?s @ CHR '','' # w4 @ t @ CHR ''}'' # r" using a(1) by simp
    obtain k' where k': "object_loop n (parse_value m ok dbl json d) ok json pos k qs =
        object_loop n' (parse_value m ok dbl json d) ok json ?p k' (qs @ [(key, v)])" "drop ?p json = w4 @ t @ CHR ''}'' # r"
      unfolding n by (rule reads_member [OF b text_members.IH(2) ok a1 a(2,3), of n' k qs]) auto
    have "pos < length json" using a(1) by (cases "pos < length json") auto
    then have f: "length json - ?p < n'" using a(4) n by simp
    have "\<exists>k''. object_loop n' (parse_value m ok dbl json d) ok json ?p k' (qs @ [(key, v)]) =
        JOk (JObject ((qs @ [(key, v)]) @ ps), ?p + length w4 + length t + 1, k'')"
      by (rule text_members.IH(4) [unfolded reads_members_def, rule_format, OF k'(2) b4 a(3) f])
    then show "\<exists>k'. object_loop n (parse_value m ok dbl json d) ok json pos k qs = JOk (JObject (qs @ (key, v) # ps), pos + length w + length ?t + 1, k')"
      unfolding k'(1) by (simp add: add.assoc)
  qed
qed (use ok in \<open>auto intro: reads_literal reads_number reads_string reads_empty\<close>)

text \<open>
  C32. Every JSON text is read. For a text of the grammar of RFC 8259, of any length, nested at most 128 levels deep, with white space around it and between its tokens, and without the escapes
  \<open>\u0000\<close> and \<open>\uD800\<close> to \<open>\uDFFF\<close> in its strings, the parser returns, when its requests for memory are granted, the value the text denotes: strings with
  their escapes replaced by the characters of the RFC's table and by UTF-8, numbers with the value that \<open>strtod\<close> gives to their characters, the items of arrays and the
  pairs of objects in order.
\<close>

theorem json_parse_complete:
  assumes "value_text dbl 0 s v" "blank w1" "blank w2" "\<forall>k. ok k"
  shows "sneppx_json_parse ok dbl k (Some (w1 @ s @ w2)) = Some (Some v)"
proof -
  let ?json = "w1 @ s @ w2"
  have "reads_value ok dbl 0 s v" using reads_text(1) [of ok dbl 0 s v] assms(1,4) by blast
  moreover have "delim w2" using delim_simps(5) [of w2 "[]"] assms(3) by simp
  ultimately have "\<exists>k'. parse_value json_fuel ok dbl ?json 0 0 k = JOk (v, 0 + length w1 + length s, k')"
    using assms(2) by (intro reads_value_def [THEN iffD1, rule_format]) (auto simp: json_fuel_def JSON_MAX_DEPTH_def)
  then obtain k' where k': "parse_value json_fuel ok dbl ?json 0 0 k = JOk (v, length w1 + length s, k')" by auto
  have "skip_whitespace ?json (length w1 + length s) = length ?json"
    using skip_blank [of "length w1 + length s" ?json w2 "[]"] assms(3) by simp
  then show ?thesis by (simp add: sneppx_json_parse_def k')
qed

text \<open>The text \<open>{"a": [1, true]}\<close> with a blank before and a line feed behind it.\<close>

theorem json_parse_complete_witness:
  "sneppx_json_parse (\<lambda>_. True) (\<lambda>s. of_nat (length s)) 0 (Some ('' '' @ (CHR ''{'' # [] @ (CHR 0x22 # ''a'' @ CHR 0x22 # [] @ CHR '':'' # '' '' @ ''[1, true]'' @ []) @ ''}'') @ [CHR 0x0A])) =
     Some (Some (JObject [(''a'', JArray [JNumber 1 True, JBool True])]))"
proof -
  let ?dbl = "\<lambda>s :: string. of_nat (length s) :: u64"
  have n: "number_text ''1''" unfolding number_text_def
    by (intro exI [of _ "[]"] exI [of _ "''1''"]) (simp add: digits_def isdigit_def)
  have "elements_text ?dbl 2 (''1'' @ [] @ CHR '','' # '' '' @ ''true'' @ []) [JNumber (?dbl ''1'') (is_integer ''1''), JBool True]"
    using n by (intro text_elements text_element text_number text_true) simp_all
  then have "elements_text ?dbl (1 + 1) ''1, true'' [JNumber 1 True, JBool True]" by (simp add: is_integer_def numeral_2_eq_2)
  then have "value_text ?dbl (0 + 1) (CHR ''['' # [] @ ''1, true'' @ '']'') (JArray [JNumber 1 True, JBool True])" by (intro text_array) simp_all
  then have "value_text ?dbl (0 + 1) ''[1, true]'' (JArray [JNumber 1 True, JBool True])" by simp
  moreover have "string_text ''a'' ''a''" by (intro string_text.intros) simp_all
  ultimately have "value_text ?dbl 0 (CHR ''{'' # [] @ (CHR 0x22 # ''a'' @ CHR 0x22 # [] @ CHR '':'' # '' '' @ ''[1, true]'' @ []) @ ''}'') (JObject [(''a'', JArray [JNumber 1 True, JBool True])])"
    by (intro text_object text_member) simp_all
  from json_parse_complete [OF this, of "'' ''" "[CHR 0x0A]" "\<lambda>_. True" 0] show ?thesis by (simp add: isspace_def)
qed

text \<open>
  C33. The parser always returns. For every text, whatever it holds and whichever requests for memory are refused, parsing ends with a value or with \<open>NULL\<close>: nesting
  stops at the depth limit, and every round of a loop moves forward in the text.
\<close>

theorem json_parse_returns: "sneppx_json_parse ok dbl k json \<noteq> None"
proof (cases json)
  case (Some t)
  have "moved 0 (parse_value json_fuel ok dbl t 0 0 k)" by (rule parse_value_returns) (simp_all add: json_fuel_def)
  then show ?thesis using Some by (cases "parse_value json_fuel ok dbl t 0 0 k") (auto simp: sneppx_json_parse_def)
qed (simp add: sneppx_json_parse_def)

text \<open>The buffer of \<open>unescape_string\<close> has room for the characters of the source and a final zero: nothing is written behind it.\<close>

lemma unescape_fits: "length (unescape_string s) \<le> length s"
proof (induction s rule: unescape_string.induct)
  case (3 c e s)
  have "length (utf8 code) \<le> 3" for code by (simp add: utf8_def)
  then have "length (utf8 code) + length (unescape_string (drop 4 s)) \<le> length s + 2" if "4 \<le> length s" "length (unescape_string (drop 4 s)) \<le> length (drop 4 s)" for code
    using that le_trans [OF add_le_mono, of "length (utf8 code)" 3] by fastforce
  then show ?case using 3 by (auto split: option.split)
qed simp_all

text \<open>An array or an object that ends with its opening bracket is taken for an empty one.\<close>

lemma json_accepts_unterminated:
  "sneppx_json_parse (\<lambda>_. True) dbl 0 (Some ''['') = Some (Some (JArray []))" "sneppx_json_parse (\<lambda>_. True) dbl 0 (Some ''{'') = Some (Some (JObject []))"
proof -
  have sk: "skip_whitespace [c] 0 = 0" "skip_whitespace [c] 1 = 1" "skip_whitespace [c] 2 = 2" if "\<not> isspace c" for c using that by (simp_all add: skip_whitespace_def)
  have f: "json_fuel = Suc 129" by (simp add: json_fuel_def JSON_MAX_DEPTH_def)
  show "sneppx_json_parse (\<lambda>_. True) dbl 0 (Some ''['') = Some (Some (JArray []))" "sneppx_json_parse (\<lambda>_. True) dbl 0 (Some ''{'') = Some (Some (JObject []))"
    unfolding sneppx_json_parse_def f parse_value.simps Let_def parse_array_def parse_object_def by (simp_all add: sk skip_whitespace_def)
qed

section \<open>Paths\<close>

definition join :: "string list \<Rightarrow> string" where
  "join ks = (case ks of [] \<Rightarrow> [] | k # ks \<Rightarrow> k @ concat (map (\<lambda>k. CHR ''.'' # k) ks))"

lemma tokens_key:
  assumes "k \<noteq> []" "CHR ''.'' \<notin> set k" "r = [] \<or> hd r = CHR ''.''"
  shows "tokens (k @ r) = k # tokens r"
proof -
  have d: "dropWhile (\<lambda>c. c = CHR ''.'') (k @ r) = k @ r" using assms(1,2) by (cases k) auto
  have r: "takeWhile (\<lambda>c. c \<noteq> CHR ''.'') r = [] \<and> dropWhile (\<lambda>c. c \<noteq> CHR ''.'') r = r" using assms(3) by (cases r) simp_all
  have "takeWhile (\<lambda>c. c \<noteq> CHR ''.'') (k @ r) = k" "dropWhile (\<lambda>c. c \<noteq> CHR ''.'') (k @ r) = r"
    using assms(2) r by (induction k) auto
  then show ?thesis using assms(1) by (subst tokens.simps) (simp add: d Let_def)
qed

lemma tokens_dot: "tokens (CHR ''.'' # s) = tokens s"
  by (simp only: tokens.simps [of "CHR ''.'' # s"] tokens.simps [of s] dropWhile.simps if_True simp_thms)

lemma tokens_join:
  assumes "\<forall>k \<in> set ks. k \<noteq> [] \<and> CHR ''.'' \<notin> set k"
  shows "tokens (join ks) = ks"
proof -
  have nil: "tokens [] = []" by (subst tokens.simps) simp
  have rest: "tokens (concat (map (\<lambda>k. CHR ''.'' # k) ks)) = ks" if "\<forall>k \<in> set ks. k \<noteq> [] \<and> CHR ''.'' \<notin> set k" for ks
    using that
  proof (induction ks)
    case (Cons k ks)
    have "hd (concat (map (\<lambda>k. CHR ''.'' # k) ks)) = CHR ''.'' \<or> concat (map (\<lambda>k. CHR ''.'' # k) ks) = []" by (cases ks) auto
    then show ?case using Cons tokens_key [of k "concat (map (\<lambda>k. CHR ''.'' # k) ks)"] by (auto simp: tokens_dot)
  qed (simp add: nil)
  show ?thesis
  proof (cases ks)
    case (Cons k t)
    have "hd (concat (map (\<lambda>k. CHR ''.'' # k) t)) = CHR ''.'' \<or> concat (map (\<lambda>k. CHR ''.'' # k) t) = []" by (cases t) auto
    then show ?thesis using assms Cons rest [of t] tokens_key [of k "concat (map (\<lambda>k. CHR ''.'' # k) t)"] by (auto simp: join_def)
  qed (simp add: join_def nil)
qed

text \<open>
  A path is followed key by key. For keys without a dot, joined by dots to a path of at most 255 characters, \<open>sneppx_json_find\<close> goes down one object or array for each key.
\<close>

lemma json_find_path:
  assumes "\<forall>k \<in> set ks. k \<noteq> [] \<and> CHR ''.'' \<notin> set k" "length (join ks) \<le> 255"
  shows "sneppx_json_find (Some v) (Some (join ks)) = find_tokens ks v"
  using tokens_join [OF assms(1)] assms(2) by (simp add: sneppx_json_find_def)

end
