(* ===== verification/Strutil.thy ===== *)
theory Strutil
  imports Prelude
begin

text \<open>
  The string utilities \<open>lib/internal/strutil.c\<close>: growing buffers, bounded copies, splitting and joining.

  A C string is the list of its characters before the terminating zero, which none of them is; a buffer is the list of all its cells. Allocations are numbered, \<open>ok k\<close>
  tells whether the \<open>k\<close>-th is granted; operations that allocate more than once take the number of the first. Fresh cells hold zero. Writing behind a buffer is \<open>Out_Of_Bounds\<close>.
\<close>

section \<open>Buffers\<close>

record string_buf =
  sb_buf :: string
  sb_length :: nat

abbreviation sb_capacity :: "string_buf \<Rightarrow> nat" where "sb_capacity sb \<equiv> length (sb_buf sb)"

text \<open>\<open>memcpy\<close> of characters into a buffer.\<close>

definition put_chars :: "string \<Rightarrow> nat \<Rightarrow> string \<Rightarrow> string run" where
  "put_chars buf off cs = (if off + length cs \<le> length buf then Inr (take off buf @ cs @ drop (off + length cs) buf) else Inl Out_Of_Bounds)"

abbreviation NUL :: char where "NUL \<equiv> CHR 0x00"

definition SNEPPX_strbuf_create :: "alloc_outcome \<Rightarrow> nat \<Rightarrow> nat \<Rightarrow> string_buf option run" where
  "SNEPPX_strbuf_create ok k capacity =
     (if \<not> ok k \<or> \<not> ok (k + 1) then Inr None
      else bind_run (put_chars (replicate capacity NUL) 0 [NUL]) (\<lambda>b. Inr (Some \<lparr>sb_buf = b, sb_length = 0\<rparr>)))"

definition strbuf_ensure_capacity :: "alloc_outcome \<Rightarrow> nat \<Rightarrow> nat \<Rightarrow> string_buf \<Rightarrow> int \<times> string_buf" where
  "strbuf_ensure_capacity ok k needed sb =
     (if sb_length sb + needed + 1 \<le> sb_capacity sb then (0, sb)
      else let cap = sb_capacity sb * 2; cap = (if sb_length sb + needed + 1 > cap then sb_length sb + needed + 16 else cap) in
        if \<not> ok k then (- 1, sb) else (0, sb\<lparr>sb_buf := sb_buf sb @ replicate (cap - sb_capacity sb) NUL\<rparr>))"

definition SNEPPX_strbuf_append :: "alloc_outcome \<Rightarrow> nat \<Rightarrow> string option \<Rightarrow> string_buf option \<Rightarrow> (int \<times> string_buf option) run" where
  "SNEPPX_strbuf_append ok k src sb =
     (case (sb, src) of
        (Some b, Some s) \<Rightarrow>
          let (r, b) = strbuf_ensure_capacity ok k (length s) b in
          if r \<noteq> 0 then Inr (- 1, Some b)
          else bind_run (put_chars (sb_buf b) (sb_length b) (s @ [NUL])) (\<lambda>c. Inr (0, Some (b\<lparr>sb_buf := c, sb_length := sb_length b + length s\<rparr>)))
      | _ \<Rightarrow> Inr (- 1, sb))"

text \<open>The source is the list of cells from \<open>src\<close> on; at least \<open>n\<close> of them are read.\<close>

definition SNEPPX_strbuf_append_n :: "alloc_outcome \<Rightarrow> nat \<Rightarrow> string option \<Rightarrow> nat \<Rightarrow> string_buf option \<Rightarrow> (int \<times> string_buf option) run" where
  "SNEPPX_strbuf_append_n ok k src n sb =
     (case (sb, src) of
        (Some b, Some s) \<Rightarrow>
          let (r, b) = strbuf_ensure_capacity ok k n b in
          if r \<noteq> 0 then Inr (- 1, Some b)
          else if length s < n then Inl Out_Of_Bounds
          else bind_run (put_chars (sb_buf b) (sb_length b) (take n s)) (\<lambda>c.
               bind_run (put_chars c (sb_length b + n) [NUL]) (\<lambda>c. Inr (0, Some (b\<lparr>sb_buf := c, sb_length := sb_length b + n\<rparr>))))
      | _ \<Rightarrow> Inr (- 1, sb))"

text \<open>\<open>out\<close> is what \<open>vsnprintf\<close> makes of the format and its arguments; it writes as much as fits and the final zero.\<close>

definition SNEPPX_strbuf_format :: "alloc_outcome \<Rightarrow> nat \<Rightarrow> string option \<Rightarrow> string_buf option \<Rightarrow> (int \<times> string_buf option) run" where
  "SNEPPX_strbuf_format ok k out sb =
     (case (sb, out) of
        (Some b, Some s) \<Rightarrow>
          let (r, b) = strbuf_ensure_capacity ok k (length s) b in
          if r \<noteq> 0 then Inr (- 1, Some b)
          else let room = sb_capacity b - sb_length b in
            bind_run (if room = 0 then Inr (sb_buf b) else put_chars (sb_buf b) (sb_length b) (take (room - 1) s @ [NUL]))
              (\<lambda>c. Inr (0, Some (b\<lparr>sb_buf := c, sb_length := sb_length b + length s\<rparr>)))
      | _ \<Rightarrow> Inr (- 1, sb))"

definition SNEPPX_strbuf_clear :: "string_buf option \<Rightarrow> string_buf option" where
  "SNEPPX_strbuf_clear sb = map_option (\<lambda>b. b\<lparr>sb_length := 0, sb_buf := (if sb_capacity b > 0 then (sb_buf b)[0 := NUL] else sb_buf b)\<rparr>) sb"

section \<open>Bounded copies\<close>

text \<open>\<open>strlen\<close> of a buffer, and the string it holds.\<close>

definition c_text :: "string \<Rightarrow> string" where "c_text b = takeWhile (\<lambda>c. c \<noteq> NUL) b"

definition SNEPPX_strlcpy :: "string option \<Rightarrow> string option \<Rightarrow> nat \<Rightarrow> (nat \<times> string option) run" where
  "SNEPPX_strlcpy dst src dst_cap =
     (let s = (case src of None \<Rightarrow> [] | Some s \<Rightarrow> s) in
      case dst of None \<Rightarrow> Inr (length s, dst)
      | Some d \<Rightarrow>
          if dst_cap = 0 then Inr (length s, dst)
          else let n = (if length s < dst_cap - 1 then length s else dst_cap - 1) in
            bind_run (put_chars d 0 (take n s)) (\<lambda>d. bind_run (put_chars d n [NUL]) (\<lambda>d. Inr (length s, Some d))))"

text \<open>A destination without a zero is read behind its end.\<close>

definition SNEPPX_strlcat :: "string option \<Rightarrow> string option \<Rightarrow> nat \<Rightarrow> (nat \<times> string option) run" where
  "SNEPPX_strlcat dst src dst_cap =
     (let s = (case src of None \<Rightarrow> [] | Some s \<Rightarrow> s) in
      case dst of None \<Rightarrow> Inr (length s, dst)
      | Some d \<Rightarrow>
          if dst_cap = 0 then Inr (length s, dst)
          else if NUL \<notin> set d then Inl Out_Of_Bounds
          else let dl = length (c_text d) in
            if dl \<ge> dst_cap then Inr (dst_cap + length s, dst)
            else let space = dst_cap - dl - 1; n = (if length s < space then length s else space) in
              bind_run (put_chars d dl (take n s)) (\<lambda>d. bind_run (put_chars d (dl + n) [NUL]) (\<lambda>d. Inr (dl + length s, Some d))))"

text \<open>The sign of \<open>strcmp\<close>, which compares characters as unsigned.\<close>

fun c_compare :: "string \<Rightarrow> string \<Rightarrow> int" where
  "c_compare [] [] = 0"
| "c_compare [] (b # bs) = - 1"
| "c_compare (a # as) [] = 1"
| "c_compare (a # as) (b # bs) = (if a = b then c_compare as bs else if (of_char a :: nat) < of_char b then - 1 else 1)"

definition SNEPPX_strcmp :: "string option \<Rightarrow> string option \<Rightarrow> int" where
  "SNEPPX_strcmp a b = (case (a, b) of (None, None) \<Rightarrow> 0 | (None, Some _) \<Rightarrow> - 1 | (Some _, None) \<Rightarrow> 1 | (Some s, Some t) \<Rightarrow> c_compare s t)"

definition SNEPPX_strdup_s :: "alloc_outcome \<Rightarrow> nat \<Rightarrow> string option \<Rightarrow> string option" where
  "SNEPPX_strdup_s ok k src = (case src of None \<Rightarrow> None | Some s \<Rightarrow> if ok k then Some s else None)"

section \<open>Splitting and joining\<close>

text \<open>
  Adding a token: the array grows when it is full, then the token is allocated. The state is the tokens, the capacity and the number of allocations; \<open>None\<close> is a failure, after
  which all tokens are released.
\<close>

definition add_token :: "alloc_outcome \<Rightarrow> string \<Rightarrow> string list \<times> nat \<times> nat \<Rightarrow> (string list \<times> nat \<times> nat) option" where
  "add_token ok token = (\<lambda>(ts, cap, k).
     let full = length ts \<ge> cap in
     if full \<and> \<not> ok k then None
     else let k = (if full then k + 1 else k); cap = (if full then cap * 2 else cap) in
       if \<not> ok k then None else Some (ts @ [token], cap, k + 1))"

text \<open>The loop over the characters; \<open>cur\<close> are the characters from \<open>start\<close> on.\<close>

fun split_chars :: "alloc_outcome \<Rightarrow> char \<Rightarrow> string \<Rightarrow> string \<Rightarrow> string list \<times> nat \<times> nat \<Rightarrow> (string \<times> string list \<times> nat \<times> nat) option" where
  "split_chars ok d [] cur st = Some (cur, st)"
| "split_chars ok d (c # cs) cur st =
     (if c = d then (case add_token ok cur st of None \<Rightarrow> None | Some st \<Rightarrow> split_chars ok d cs [] st)
      else split_chars ok d cs (cur @ [c]) st)"

definition SNEPPX_strsplit :: "alloc_outcome \<Rightarrow> nat \<Rightarrow> string option \<Rightarrow> char \<Rightarrow> nat \<Rightarrow> nat \<times> string list option" where
  "SNEPPX_strsplit ok k str d max_tokens =
     (case str of None \<Rightarrow> (0, None)
      | Some s \<Rightarrow>
          let cap = (if max_tokens > 0 then max_tokens else 32) in
          if \<not> ok k then (0, None)
          else case split_chars ok d s [] ([], cap, k + 1) of
            None \<Rightarrow> (0, None)
          | Some (cur, ts, cap, k) \<Rightarrow>
              if length ts < cap \<or> max_tokens = 0
              then (case add_token ok cur (ts, cap, k) of None \<Rightarrow> (0, None) | Some (ts, _, _) \<Rightarrow> (length ts, Some ts))
              else (length ts, Some ts))"

text \<open>The loop of \<open>SNEPPX_strjoin\<close>: what is written for the tokens from one index on.\<close>

fun join_tokens :: "char \<Rightarrow> string option list \<Rightarrow> string" where
  "join_tokens d [] = []"
| "join_tokens d (None # ts) = join_tokens d ts"
| "join_tokens d (Some t # ts) = t @ (if ts \<noteq> [] \<and> hd ts \<noteq> None then [d] else []) @ join_tokens d ts"

text \<open>The characters are written into \<open>total_len + 1\<close> cells; the result is the string they hold.\<close>

definition SNEPPX_strjoin :: "alloc_outcome \<Rightarrow> nat \<Rightarrow> string option list option \<Rightarrow> char \<Rightarrow> string option run" where
  "SNEPPX_strjoin ok k tokens d =
     (case tokens of None \<Rightarrow> Inr (SNEPPX_strdup_s ok k (Some []))
      | Some ts \<Rightarrow>
          if ts = [] then Inr (SNEPPX_strdup_s ok k (Some []))
          else let total = sum_list (map (\<lambda>t. case t of None \<Rightarrow> 0 | Some s \<Rightarrow> length s) ts) + (if length ts > 1 then length ts - 1 else 0) in
            if \<not> ok k then Inr None
            else bind_run (put_chars (replicate (total + 1) NUL) 0 (join_tokens d ts @ [NUL])) (\<lambda>b. Inr (Some (c_text b))))"

section \<open>Buffers hold what was appended\<close>

text \<open>The cells before \<open>sb_length\<close> are the text, followed by a zero, and the text has no zero.\<close>

definition holds_text :: "string_buf \<Rightarrow> string \<Rightarrow> bool" where
  "holds_text sb t \<longleftrightarrow> NUL \<notin> set t \<and> sb_length sb = length t \<and> length t < sb_capacity sb \<and> take (length t + 1) (sb_buf sb) = t @ [NUL]"

lemma c_text_until: "NUL \<notin> set t \<Longrightarrow> c_text (t @ NUL # r) = t"
  unfolding c_text_def by (induction t) auto

lemma holds_text_string: "holds_text sb t \<Longrightarrow> c_text (sb_buf sb) = t"
proof -
  assume h: "holds_text sb t"
  then have "sb_buf sb = (t @ [NUL]) @ drop (length t + 1) (sb_buf sb)" unfolding holds_text_def by (metis append_take_drop_id)
  then have "c_text (sb_buf sb) = c_text (t @ NUL # drop (length t + 1) (sb_buf sb))" by simp
  also have "\<dots> = t" using h by (simp add: c_text_until holds_text_def)
  finally show ?thesis .
qed

lemma ensure_capacity_keeps:
  assumes "holds_text sb t" "strbuf_ensure_capacity ok k n sb = (r, sb')"
  shows "holds_text sb' t" "r = 0 \<Longrightarrow> length t + n + 1 \<le> sb_capacity sb'" "\<forall>k. ok k \<Longrightarrow> r = 0"
  using assms by (auto simp: strbuf_ensure_capacity_def holds_text_def Let_def split: if_splits)

lemma put_chars_after:
  assumes "holds_text sb t" "length t + length s + 1 \<le> sb_capacity sb" "NUL \<notin> set s"
  obtains c where "put_chars (sb_buf sb) (sb_length sb) (s @ [NUL]) = Inr c" "holds_text (sb\<lparr>sb_buf := c, sb_length := sb_length sb + length s\<rparr>) (t @ s)"
proof -
  have t: "take (length t) (sb_buf sb) = t" using assms(1) unfolding holds_text_def by (metis append_eq_conv_conj le_add1 min.absorb1 take_take)
  let ?c = "take (length t) (sb_buf sb) @ (s @ [NUL]) @ drop (length t + length (s @ [NUL])) (sb_buf sb)"
  have "put_chars (sb_buf sb) (sb_length sb) (s @ [NUL]) = Inr ?c" using assms by (simp add: put_chars_def holds_text_def)
  moreover have "holds_text (sb\<lparr>sb_buf := ?c, sb_length := sb_length sb + length s\<rparr>) (t @ s)"
    using assms t by (simp add: holds_text_def)
  ultimately show thesis using that by blast
qed

text \<open>
  Appending never writes behind the buffer, whether the allocation is granted or not; afterwards the buffer holds the old text followed by the new one, or the old text when memory was refused.
\<close>

lemma strbuf_append_holds:
  assumes "holds_text sb t" "NUL \<notin> set s"
  shows "\<exists>r sb'. SNEPPX_strbuf_append ok k (Some s) (Some sb) = Inr (r, Some sb') \<and> (r = 0 \<and> holds_text sb' (t @ s) \<or> r = - 1 \<and> holds_text sb' t)"
proof -
  obtain r b where b: "strbuf_ensure_capacity ok k (length s) sb = (r, b)" by fastforce
  note e = ensure_capacity_keeps [OF assms(1) b]
  show ?thesis
  proof (cases "r = 0")
    case True
    obtain c where "put_chars (sb_buf b) (sb_length b) (s @ [NUL]) = Inr c" "holds_text (b\<lparr>sb_buf := c, sb_length := sb_length b + length s\<rparr>) (t @ s)"
      by (rule put_chars_after [OF e(1) e(2) [OF True] assms(2)])
    then show ?thesis using b True by (auto simp: SNEPPX_strbuf_append_def)
  next
    case False
    then show ?thesis using b e(1) by (auto simp: SNEPPX_strbuf_append_def)
  qed
qed

section \<open>Joining what was split\<close>

fun split_at :: "char \<Rightarrow> string \<Rightarrow> string \<Rightarrow> string list" where
  "split_at d [] cur = [cur]"
| "split_at d (c # cs) cur = (if c = d then cur # split_at d cs [] else split_at d cs (cur @ [c]))"

lemma split_at_ne [simp]: "split_at d cs cur \<noteq> []"
  by (induction cs arbitrary: cur) auto

lemma add_token_granted:
  assumes "\<forall>k. ok k" obtains cap' k' where "add_token ok t (ts, cap, k) = Some (ts @ [t], cap', k')" "cap \<le> cap'"
  using assms by (simp add: add_token_def Let_def)

lemma split_chars_granted:
  assumes "\<forall>k. ok k"
  shows "\<exists>cur' ts' cap' k'. split_chars ok d cs cur (ts, cap, k) = Some (cur', ts', cap', k') \<and> ts' @ [cur'] = ts @ split_at d cs cur \<and> cap \<le> cap'"
proof (induction cs arbitrary: cur ts cap k)
  case (Cons c cs)
  obtain cap' k' where "add_token ok cur (ts, cap, k) = Some (ts @ [cur], cap', k')" "cap \<le> cap'" by (rule add_token_granted [OF assms])
  then show ?case using Cons [of "[]" "ts @ [cur]" cap' k'] Cons [of "cur @ [c]" ts cap k] by fastforce
qed simp

lemma join_split: "join_tokens d (map Some (split_at d cs cur)) = cur @ cs"
proof (induction cs arbitrary: cur)
  case (Cons c cs)
  have "hd (map Some (split_at d cs [])) \<noteq> None" by (cases "split_at d cs []") (use split_at_ne in auto)
  then show ?case using Cons by simp
qed simp

lemma length_split: "length (split_at d cs cur) = count_list cs d + 1"
  by (induction cs arbitrary: cur) auto

lemma length_join: "ts \<noteq> [] \<Longrightarrow> length (join_tokens d (map Some ts)) = sum_list (map length ts) + (length ts - 1)"
proof (induction ts)
  case (Cons t ts)
  then show ?case by (cases ts) auto
qed simp



text \<open>The argument \<open>max_tokens\<close> is the first capacity of the array and no limit: three delimiters give four tokens where two were asked for, and of three tokens the last one is dropped.\<close>

lemma strsplit_limit:
  "SNEPPX_strsplit (\<lambda>_. True) 0 (Some ''a,b,c,d'') CHR '','' 2 = (4, Some [''a'', ''b'', ''c'', ''d''])"
  "SNEPPX_strsplit (\<lambda>_. True) 0 (Some ''a,b,c'') CHR '','' 2 = (2, Some [''a'', ''b''])"
  by (simp_all add: SNEPPX_strsplit_def add_token_def)

section \<open>Bounded copies stay bounded\<close>

text \<open>
  \<open>SNEPPX_strlcpy\<close> writes within the first \<open>dst_cap\<close> cells, leaves a string there, the longest start of the source that fits, and returns the length of the source.
\<close>

lemma strlcpy_bounded:
  assumes "0 < cap" "cap \<le> length d" "NUL \<notin> set s"
  shows "\<exists>d'. SNEPPX_strlcpy (Some d) (Some s) cap = Inr (length s, Some d') \<and> length d' = length d \<and> c_text d' = take (cap - 1) s \<and> drop cap d' = drop cap d"
proof -
  define n where "n = (if length s < cap - 1 then length s else cap - 1)"
  let ?d = "(take n s @ [NUL]) @ drop (n + 1) d"
  have t: "take n s = take (cap - 1) s" "length (take n s) = n" by (auto simp: n_def)
  have n: "n + 1 \<le> cap" using assms(1) by (auto simp: n_def)
  have "put_chars d 0 (take n s) = Inr (take n s @ drop n d)" using assms t n by (simp add: put_chars_def)
  moreover have "put_chars (take n s @ drop n d) n [NUL] = Inr ?d" using assms t(2) n by (simp add: put_chars_def)
  ultimately have "SNEPPX_strlcpy (Some d) (Some s) cap = Inr (length s, Some ?d)" 
    unfolding SNEPPX_strlcpy_def option.case Let_def n_def [symmetric] using assms(1) by simp
  moreover have "NUL \<notin> set (take n s)" using assms(3) by (meson in_set_takeD)
  then have "c_text ?d = take n s" using c_text_until [of "take n s"] by simp
  moreover have "length ?d = length d" using n assms(2) t(2) by simp
  moreover have "drop cap ?d = drop cap d" using n t(2) by (simp add: drop_Cons' not_le)
  ultimately show ?thesis using t(1) by auto
qed

end
