(* ===== verification/Compress.thy ===== *)
theory Compress
  imports Bytes
begin

text \<open>
  The compression of tensor memory, \<open>mm/internal/compress.c\<close>: the table of codecs, plain copies, sparse buffers and block floating point.

  A buffer of memory is the list of its bytes, a float the 32 bits of its encoding; \<open>x != 0.0f\<close> is false for both zeros. The other operations on floats that block
  floating point uses are a parameter: \<open>fabsf\<close>, the comparison, the exponent \<open>frexpf\<close> gives, \<open>ldexpf(1.0f, n)\<close>, the product and the conversions from and
  to \<open>int\<close>, of which the latter is undefined for floats that are not finite or too large for an \<open>int\<close>: there it is \<open>None\<close>, and the program has the fault
  \<open>Bad_Convert\<close>. \<open>ok k\<close> tells whether the \<open>k\<close>-th request for memory is granted. Reading behind a buffer is the fault \<open>Out_Of_Bounds\<close>, writing behind it as well.
\<close>

section \<open>Data\<close>

datatype compression_codec = SNEPPX_COMPRESS_NONE | SNEPPX_COMPRESS_BFP4 | SNEPPX_COMPRESS_BFP8 | SNEPPX_COMPRESS_SPARSE | COMPRESS_OTHER nat

text \<open>The metadata is an array of exponents, or the number of bytes of a bitmap cast to a pointer.\<close>

datatype metadata = No_Metadata | Exponents "int list" | Bitmap_Bytes nat

record compressed_buffer =
  c_codec :: compression_codec
  compressed_data :: "bytes option"
  compressed_bytes :: nat
  original_bytes :: nat
  original_elements :: nat
  original_dtype :: int
  c_block_size :: nat
  c_metadata :: metadata

definition empty_buffer :: compressed_buffer where
  "empty_buffer = \<lparr>c_codec = SNEPPX_COMPRESS_NONE, compressed_data = None, compressed_bytes = 0, original_bytes = 0, original_elements = 0,
     original_dtype = 0, c_block_size = 0, c_metadata = No_Metadata\<rparr>"

record codec_impl =
  i_codec :: compression_codec
  i_compress :: "bytes \<Rightarrow> int \<Rightarrow> compressed_buffer \<Rightarrow> int \<times> compressed_buffer"
  i_decompress :: "compressed_buffer \<Rightarrow> bytes \<Rightarrow> (int \<times> bytes) run"

record bfp_ops =
  fl_abs :: "u32 \<Rightarrow> u32"
  fl_gt :: "u32 \<Rightarrow> u32 \<Rightarrow> bool"
  fl_frexp :: "u32 \<Rightarrow> int"
  fl_ldexp1 :: "int \<Rightarrow> u32"
  fl_mul :: "u32 \<Rightarrow> u32 \<Rightarrow> u32"
  fl_to_int :: "u32 \<Rightarrow> int option"
  fl_of_int :: "int \<Rightarrow> u32"

section \<open>The table of codecs\<close>

definition MAX_CODECS :: nat where "MAX_CODECS = 8"

definition SNEPPX_compress_init :: "codec_impl list \<Rightarrow> int \<times> codec_impl list" where "SNEPPX_compress_init g = (0, [])"

definition SNEPPX_compress_shutdown :: "codec_impl list \<Rightarrow> int \<times> codec_impl list" where "SNEPPX_compress_shutdown g = (0, [])"

definition SNEPPX_compress_register_codec :: "codec_impl option \<Rightarrow> codec_impl list \<Rightarrow> int \<times> codec_impl list" where
  "SNEPPX_compress_register_codec codec g =
     (case codec of None \<Rightarrow> (- 1, g) | Some c \<Rightarrow> if length g \<ge> MAX_CODECS then (- 1, g) else (0, g @ [c]))"

fun remove_codec :: "compression_codec \<Rightarrow> codec_impl list \<Rightarrow> codec_impl list option" where
  "remove_codec codec [] = None"
| "remove_codec codec (c # g) = (if i_codec c = codec then Some g else map_option (Cons c) (remove_codec codec g))"

definition SNEPPX_compress_unregister_codec :: "compression_codec \<Rightarrow> codec_impl list \<Rightarrow> int \<times> codec_impl list" where
  "SNEPPX_compress_unregister_codec codec g = (case remove_codec codec g of None \<Rightarrow> (- 1, g) | Some g \<Rightarrow> (0, g))"

section \<open>Bits of a buffer\<close>

definition mark_bit :: "nat \<Rightarrow> bytes \<Rightarrow> bytes" where
  "mark_bit p d = d[p div 8 := d ! (p div 8) OR push_bit (p mod 8) 1]"

definition read_bit :: "bytes \<Rightarrow> nat \<Rightarrow> bool run" where
  "read_bit d p = bind_run (load_cell d (p div 8)) (\<lambda>b. Inr (bit b (p mod 8)))"

definition float_at :: "bytes \<Rightarrow> nat \<Rightarrow> u32" where "float_at src i = le32 src (4 * i)"

definition is_zero :: "u32 \<Rightarrow> bool" where "is_zero x \<longleftrightarrow> x = 0 \<or> x = 0x80000000"

definition store_float :: "nat \<Rightarrow> u32 \<Rightarrow> bytes \<Rightarrow> bytes run" where
  "store_float i x dst = (if 4 * i + 4 \<le> length dst then Inr (put_bytes dst (4 * i) (le32_bytes x)) else Inl Out_Of_Bounds)"

section \<open>Copies\<close>

definition none_compress :: "alloc_outcome \<Rightarrow> nat \<Rightarrow> bytes option \<Rightarrow> int \<Rightarrow> compressed_buffer option \<Rightarrow> int \<times> compressed_buffer option" where
  "none_compress ok k src dtype dst =
     (case (src, dst) of
        (Some s, Some d) \<Rightarrow>
          if s = [] \<or> \<not> ok k then (- 1, dst)
          else (0, Some \<lparr>c_codec = SNEPPX_COMPRESS_NONE, compressed_data = Some s, compressed_bytes = length s, original_bytes = length s,
                 original_elements = length s div 4, original_dtype = dtype, c_block_size = length s, c_metadata = No_Metadata\<rparr>)
      | _ \<Rightarrow> (- 1, dst))"

definition none_decompress :: "compressed_buffer option \<Rightarrow> bytes option \<Rightarrow> (int \<times> bytes option) run" where
  "none_decompress src dst =
     (case (src, dst) of
        (Some s, Some d) \<Rightarrow>
          if length d < original_bytes s then Inr (- 1, dst)
          else (case compressed_data s of
                  None \<Rightarrow> if original_bytes s = 0 then Inr (0, dst) else Inl Null_Deref
                | Some c \<Rightarrow> if length c < original_bytes s then Inl Out_Of_Bounds else Inr (0, Some (put_bytes d 0 (take (original_bytes s) c))))
      | _ \<Rightarrow> Inr (- 1, dst))"

section \<open>Sparse buffers\<close>

definition nonzero_at :: "bytes \<Rightarrow> nat \<Rightarrow> bool" where "nonzero_at src i \<longleftrightarrow> \<not> is_zero (float_at src i)"

definition sparse_bitmap :: "bytes \<Rightarrow> nat \<Rightarrow> bytes" where
  "sparse_bitmap src n = fold (\<lambda>i bm. if nonzero_at src i then mark_bit i bm else bm) [0..<n] (replicate ((n + 7) div 8) 0)"

definition sparse_compress :: "alloc_outcome \<Rightarrow> nat \<Rightarrow> bytes option \<Rightarrow> int \<Rightarrow> compressed_buffer option \<Rightarrow> int \<times> compressed_buffer option" where
  "sparse_compress ok k src dtype dst =
     (case (src, dst) of
        (Some s, Some d) \<Rightarrow>
          let n = length s div 4; bitmap = sparse_bitmap s n; bitmap_bytes = (n + 7) div 8;
              values = map (float_at s) (filter (\<lambda>i. bit (bitmap ! (i div 8)) (i mod 8)) [0..<n]) in
          if s = [] \<or> \<not> ok k \<or> \<not> ok (k + 1) \<or> \<not> ok (k + 2) then (- 1, dst)
          else (0, Some \<lparr>c_codec = SNEPPX_COMPRESS_SPARSE, compressed_data = Some (bitmap @ concat (map le32_bytes values)),
                 compressed_bytes = bitmap_bytes + length values * 4, original_bytes = length s, original_elements = n, original_dtype = dtype,
                 c_block_size = 0, c_metadata = Bitmap_Bytes bitmap_bytes\<rparr>)
      | _ \<Rightarrow> (- 1, dst))"

definition bitmap_size :: "metadata \<Rightarrow> nat" where "bitmap_size m = (case m of Bitmap_Bytes n \<Rightarrow> n | _ \<Rightarrow> 0)"

text \<open>One round of the loop; the state is \<open>vi\<close> and the destination.\<close>

definition sparse_round :: "bytes \<Rightarrow> nat \<Rightarrow> nat \<Rightarrow> nat \<times> bytes \<Rightarrow> (nat \<times> bytes) run" where
  "sparse_round data bitmap_bytes i = (\<lambda>(vi, dst). bind_run (read_bit data i) (\<lambda>b.
     if \<not> b then Inr (vi, dst)
     else if bitmap_bytes + 4 * vi + 4 > length data then Inl Out_Of_Bounds
     else bind_run (store_float i (le32 data (bitmap_bytes + 4 * vi)) dst) (\<lambda>dst. Inr (vi + 1, dst))))"

definition sparse_decompress :: "compressed_buffer option \<Rightarrow> bytes option \<Rightarrow> (int \<times> bytes option) run" where
  "sparse_decompress src dst =
     (case (src, dst) of
        (Some s, Some d) \<Rightarrow>
          let n = original_elements s in
          if length d < original_bytes s then Inr (- 1, dst)
          else if length d < 4 * n then Inl Out_Of_Bounds
          else (case compressed_data s of
                  None \<Rightarrow> if n = 0 then Inr (0, dst) else Inl Null_Deref
                | Some data \<Rightarrow> bind_run (fold_run (sparse_round data (bitmap_size (c_metadata s))) [0..<n] (0, put_bytes d 0 (replicate (4 * n) 0)))
                    (\<lambda>(vi, d). Inr (0, Some d)))
      | _ \<Rightarrow> Inr (- 1, dst))"

section \<open>Block floating point\<close>

definition clamp_mantissa :: "nat \<Rightarrow> int \<Rightarrow> int" where
  "clamp_mantissa m q =
     (let q = (if q > 2 ^ (m - 1) - 1 then 2 ^ (m - 1) - 1 else q) in
      if q < - (2 ^ (m - 1)) then - (2 ^ (m - 1)) else q)"

definition store_mantissa :: "nat \<Rightarrow> nat \<Rightarrow> int \<Rightarrow> bytes \<Rightarrow> bytes" where
  "store_mantissa m j q d = fold (\<lambda>mb d. if bit q mb then mark_bit (j * m + mb) d else d) [0..<m] d"

definition max_abs :: "bfp_ops \<Rightarrow> bytes \<Rightarrow> nat list \<Rightarrow> u32" where
  "max_abs F src is = fold (\<lambda>i best. let a = fl_abs F (float_at src i) in if fl_gt F a best then a else best) is 0"

definition to_short :: "int \<Rightarrow> int" where "to_short e = sint (word_of_int e :: 16 word)"

definition block_range :: "nat \<Rightarrow> nat \<Rightarrow> nat list" where
  "block_range n b = [b * 16..<(if b * 16 + 16 > n then n else b * 16 + 16)]"

definition quantise :: "bfp_ops \<Rightarrow> nat \<Rightarrow> u32 \<Rightarrow> int \<Rightarrow> int run" where
  "quantise F m x e =
     (case fl_to_int F (fl_mul F x (fl_ldexp1 F (int m - 1 - e))) of None \<Rightarrow> Inl Bad_Convert | Some q \<Rightarrow> Inr (clamp_mantissa m q))"

definition compress_block :: "bfp_ops \<Rightarrow> nat \<Rightarrow> bytes \<Rightarrow> nat \<Rightarrow> nat \<Rightarrow> bytes \<times> int list \<Rightarrow> (bytes \<times> int list) run" where
  "compress_block F m src n b = (\<lambda>(data, exps).
     let is = block_range n b; best = max_abs F src is in
     if is_zero best then Inr (data, exps[b := 0])
     else let e = fl_frexp F best in
       bind_run (fold_run (\<lambda>i d. bind_run (quantise F m (float_at src i) e) (\<lambda>q. Inr (store_mantissa m (b * 16 + (i - b * 16)) q d))) is data)
         (\<lambda>data. Inr (data, exps[b := to_short e])))"

definition bfp_compress ::
  "bfp_ops \<Rightarrow> alloc_outcome \<Rightarrow> nat \<Rightarrow> nat \<Rightarrow> bytes option \<Rightarrow> int \<Rightarrow> compressed_buffer option \<Rightarrow> (int \<times> compressed_buffer option) run" where
  "bfp_compress F ok k m src dtype dst =
     (case (src, dst) of
        (Some s, Some d) \<Rightarrow>
          let n = length s div 4; nb = (n + 16 - 1) div 16; size = nb * 16 * m div 8 + nb in
          if s = [] \<or> \<not> ok k \<or> \<not> ok (k + 1) then Inr (- 1, dst)
          else bind_run (fold_run (compress_block F m s n) [0..<nb] (replicate size 0, replicate nb 0)) (\<lambda>(data, exps).
            Inr (0, Some \<lparr>c_codec = (if m = 4 then SNEPPX_COMPRESS_BFP4 else SNEPPX_COMPRESS_BFP8), compressed_data = Some data, compressed_bytes = size,
                 original_bytes = length s, original_elements = n, original_dtype = dtype, c_block_size = 16, c_metadata = Exponents exps\<rparr>))
      | _ \<Rightarrow> Inr (- 1, dst))"

definition bfp4_compress where "bfp4_compress F ok k = bfp_compress F ok k 4"

definition bfp8_compress where "bfp8_compress F ok k = bfp_compress F ok k 8"

definition load_mantissa :: "nat \<Rightarrow> nat \<Rightarrow> bytes \<Rightarrow> int run" where
  "load_mantissa m j data =
     bind_run (fold_run (\<lambda>mb q. bind_run (read_bit data (j * m + mb)) (\<lambda>b. Inr (if b then q OR push_bit mb 1 else q))) [0..<m] 0)
       (\<lambda>q. Inr (if bit q (m - 1) then q OR NOT (push_bit m 1 - 1) else q))"

text \<open>The loop over a block; \<open>bs\<close> is the size of a block.\<close>

definition decompress_block :: "bfp_ops \<Rightarrow> nat \<Rightarrow> bytes \<Rightarrow> int list \<Rightarrow> nat \<Rightarrow> nat \<Rightarrow> nat \<Rightarrow> bytes \<Rightarrow> bytes run" where
  "decompress_block F m data exps bs n b dst =
     bind_run (load_cell exps b) (\<lambda>e.
     let scale = fl_ldexp1 F (e - (int m - 1)) in
     fold_run (\<lambda>i dst. bind_run (load_mantissa m (b * bs + (i - b * bs)) data) (\<lambda>q. store_float i (fl_mul F (fl_of_int F q) scale) dst))
       [b * bs..<(if b * bs + bs > n then n else b * bs + bs)] dst)"

definition exponents :: "metadata \<Rightarrow> int list" where "exponents m = (case m of Exponents e \<Rightarrow> e | _ \<Rightarrow> [])"

definition bfp_decompress :: "bfp_ops \<Rightarrow> compressed_buffer option \<Rightarrow> bytes option \<Rightarrow> (int \<times> bytes option) run" where
  "bfp_decompress F src dst =
     (case (src, dst) of
        (Some s, Some d) \<Rightarrow>
          if length d < original_bytes s then Inr (- 1, dst)
          else let n = original_elements s; bs = (if c_block_size s \<noteq> 0 then c_block_size s else 16);
                   m = (if c_codec s = SNEPPX_COMPRESS_BFP4 then 4 else 8); data = (case compressed_data s of None \<Rightarrow> [] | Some x \<Rightarrow> x) in
            bind_run (fold_run (decompress_block F m data (exponents (c_metadata s)) bs n) [0..<(n + bs - 1) div bs] d) (\<lambda>d. Inr (0, Some d))
      | _ \<Rightarrow> Inr (- 1, dst))"

section \<open>Selection of the codec\<close>

definition SNEPPX_compress_apply ::
  "bfp_ops \<Rightarrow> codec_impl list \<Rightarrow> alloc_outcome \<Rightarrow> nat \<Rightarrow> bytes option \<Rightarrow> int \<Rightarrow> compression_codec \<Rightarrow> compressed_buffer option \<Rightarrow> (int \<times> compressed_buffer option) run" where
  "SNEPPX_compress_apply F g ok k src dtype codec dst =
     (case (src, dst) of
        (Some s, Some _) \<Rightarrow>
          let dst = Some empty_buffer in
          (case List.find (\<lambda>c. i_codec c = codec) g of
             Some c \<Rightarrow> (let (r, d) = i_compress c s dtype empty_buffer in Inr (r, Some d))
           | None \<Rightarrow> (case codec of
               SNEPPX_COMPRESS_BFP4 \<Rightarrow> bfp4_compress F ok k src dtype dst
             | SNEPPX_COMPRESS_BFP8 \<Rightarrow> bfp8_compress F ok k src dtype dst
             | SNEPPX_COMPRESS_SPARSE \<Rightarrow> Inr (sparse_compress ok k src dtype dst)
             | SNEPPX_COMPRESS_NONE \<Rightarrow> Inr (none_compress ok k src dtype dst)
             | COMPRESS_OTHER _ \<Rightarrow> Inr (- 1, dst)))
      | _ \<Rightarrow> Inr (- 1, dst))"

definition SNEPPX_compress_decompress ::
  "bfp_ops \<Rightarrow> codec_impl list \<Rightarrow> compressed_buffer option \<Rightarrow> bytes option \<Rightarrow> (int \<times> bytes option) run" where
  "SNEPPX_compress_decompress F g src dst =
     (case (src, dst) of
        (Some s, Some d) \<Rightarrow>
          (case List.find (\<lambda>c. i_codec c = c_codec s) g of
             Some c \<Rightarrow> bind_run (i_decompress c s d) (\<lambda>(r, d). Inr (r, Some d))
           | None \<Rightarrow> (case c_codec s of
               SNEPPX_COMPRESS_BFP4 \<Rightarrow> bfp_decompress F src dst
             | SNEPPX_COMPRESS_BFP8 \<Rightarrow> bfp_decompress F src dst
             | SNEPPX_COMPRESS_SPARSE \<Rightarrow> sparse_decompress src dst
             | SNEPPX_COMPRESS_NONE \<Rightarrow> none_decompress src dst
             | COMPRESS_OTHER _ \<Rightarrow> Inr (- 1, dst)))
      | _ \<Rightarrow> Inr (- 1, dst))"

definition SNEPPX_compress_bfp_block_size :: "nat \<Rightarrow> nat option \<Rightarrow> int \<times> nat option" where
  "SNEPPX_compress_bfp_block_size element_bytes block_size = (0, map_option (\<lambda>_. if element_bytes \<le> 2 then 32 else 16) block_size)"

text \<open>\<open>free\<close> of the metadata is sound for an array of exponents only.\<close>

definition SNEPPX_compress_buffer_destroy :: "compressed_buffer option \<Rightarrow> compressed_buffer option run" where
  "SNEPPX_compress_buffer_destroy buf =
     (case buf of None \<Rightarrow> Inr None
      | Some b \<Rightarrow> (case c_metadata b of
          Bitmap_Bytes n \<Rightarrow> if n = 0 then Inr (Some empty_buffer) else Inl Bad_Free
        | _ \<Rightarrow> Inr (Some empty_buffer)))"

section \<open>What a bit holds\<close>

definition get_bit :: "bytes \<Rightarrow> nat \<Rightarrow> bool" where "get_bit d p \<longleftrightarrow> bit (d ! (p div 8)) (p mod 8)"

lemma length_mark_bit [simp]: "length (mark_bit p d) = length d"
  by (simp add: mark_bit_def)

lemma read_bit_in: "p div 8 < length d \<Longrightarrow> read_bit d p = Inr (get_bit d p)"
  by (simp add: read_bit_def get_bit_def)

lemma get_mark_bit:
  assumes "p div 8 < length d"
  shows "get_bit (mark_bit p d) x \<longleftrightarrow> x = p \<or> get_bit d x"
proof (cases "x div 8 = p div 8")
  case True
  have "x mod 8 < 8" by simp
  have "bit (push_bit (p mod 8) 1 :: u8) (x mod 8) \<longleftrightarrow> x mod 8 = p mod 8" by (auto simp: bit_simps bit_1_iff)
  moreover have "x mod 8 = p mod 8 \<longleftrightarrow> x = p" using True by (metis div_mult_mod_eq)
  ultimately show ?thesis using True assms by (auto simp: get_bit_def mark_bit_def bit_or_iff)
next
  case False
  then have "x \<noteq> p" by auto
  then show ?thesis using False by (simp add: get_bit_def mark_bit_def)
qed

lemma fold_marks:
  assumes "\<forall>x \<in> set xs. P x \<longrightarrow> f x div 8 < length d"
  shows "length (fold (\<lambda>x d. if P x then mark_bit (f x) d else d) xs d) = length d"
    "get_bit (fold (\<lambda>x d. if P x then mark_bit (f x) d else d) xs d) p \<longleftrightarrow> get_bit d p \<or> (\<exists>x \<in> set xs. P x \<and> f x = p)"
  using assms by (induction xs arbitrary: d) (auto simp: get_mark_bit)

lemma get_bit_zeros [simp]: "p div 8 < n \<Longrightarrow> \<not> get_bit (replicate n 0) p"
  by (simp add: get_bit_def)

section \<open>Sparse buffers come back\<close>

lemma le32_concat: "i < length vs \<Longrightarrow> le32 (concat (map le32_bytes vs)) (4 * i) = vs ! i"
proof (induction vs arbitrary: i)
  case (Cons v vs)
  show ?case
  proof (cases i)
    case 0
    then show ?thesis by (simp add: le32_append le32_bytes_inverse)
  next
    case (Suc j)
    then show ?thesis using Cons le32_shift [of "le32_bytes v" "concat (map le32_bytes vs)" "4 * j"] by simp
  qed
qed simp

lemma length_floats: "length (concat (map le32_bytes vs)) = 4 * length vs"
  by (induction vs) simp_all

lemma sparse_bitmap_bits:
  shows "length (sparse_bitmap src n) = (n + 7) div 8" "i < n \<Longrightarrow> get_bit (sparse_bitmap src n) i \<longleftrightarrow> nonzero_at src i"
proof -
  have r: "\<forall>x \<in> set [0..<n]. nonzero_at src x \<longrightarrow> x div 8 < length (replicate ((n + 7) div 8) (0 :: u8))" by auto
  show "length (sparse_bitmap src n) = (n + 7) div 8" using fold_marks(1) [OF r] by (simp add: sparse_bitmap_def)
  show "get_bit (sparse_bitmap src n) i \<longleftrightarrow> nonzero_at src i" if "i < n"
    using fold_marks(2) [OF r, of i] that by (auto simp: sparse_bitmap_def)
qed

lemma nth_filtered: "P j \<Longrightarrow> j < n \<Longrightarrow> length (filter P [0..<j]) < length (filter P [0..<n]) \<and> filter P [0..<n] ! length (filter P [0..<j]) = j"
proof -
  assume P: "P j" and j: "j < n"
  have "[0..<n] = [0..<j] @ j # [Suc j..<n]" using j by (metis le0 less_imp_le_nat upt_add_eq_append upt_conv_Cons le_add_diff_inverse)
  then show ?thesis using P by (simp add: nth_append)
qed

definition plus_zero :: "u32 \<Rightarrow> u32" where "plus_zero x = (if is_zero x then 0 else x)"

lemma put_next:
  assumes "length a = off" "length bs = m"
  shows "put_bytes (a @ replicate (m + r) 0 @ z) off bs = a @ bs @ replicate r 0 @ z"
  using assms by (simp add: put_bytes_def)

lemma sparse_loop:
  fixes src dst :: bytes
  defines "n \<equiv> length src div 4"
  defines "vals \<equiv> map (float_at src) (filter (nonzero_at src) [0..<n])"
  defines "data \<equiv> sparse_bitmap src n @ concat (map le32_bytes vals)"
  assumes "j \<le> n"
  shows "fold_run (sparse_round data ((n + 7) div 8)) [0..<j] (0, replicate (4 * n) 0 @ z) =
    Inr (length (filter (nonzero_at src) [0..<j]), concat (map (\<lambda>i. le32_bytes (plus_zero (float_at src i))) [0..<j]) @ replicate (4 * (n - j)) 0 @ z)"
  using assms(4)
proof (induction j)
  case (Suc j)
  let ?vi = "length (filter (nonzero_at src) [0..<j])" and ?done = "concat (map (\<lambda>i. le32_bytes (plus_zero (float_at src i))) [0..<j])"
  have j: "j < n" using Suc.prems by simp
  have bm: "length (sparse_bitmap src n) = (n + 7) div 8" by (rule sparse_bitmap_bits)
  have "j div 8 < (n + 7) div 8" using j by auto
  then have rd: "read_bit data j = Inr (nonzero_at src j)"
    using sparse_bitmap_bits(2) [OF j, of src] bm by (simp add: read_bit_in data_def get_bit_def nth_append)
  have rest: "replicate (4 * (n - j)) (0 :: u8) = replicate (4 + 4 * (n - Suc j)) 0" using j by (simp add: Suc_diff_Suc flip: mult_Suc_right)
  have len: "length ?done = 4 * j" using length_floats [of "map (\<lambda>i. plus_zero (float_at src i)) [0..<j]"] by (simp add: comp_def)
  have put: "put_bytes (?done @ replicate (4 * (n - j)) 0 @ z) (4 * j) bs = ?done @ bs @ replicate (4 * (n - Suc j)) 0 @ z" if "length bs = 4" for bs
    unfolding rest by (rule put_next [OF len that])
  have step: "sparse_round data ((n + 7) div 8) j (?vi, ?done @ replicate (4 * (n - j)) 0 @ z) =
      Inr (length (filter (nonzero_at src) [0..<Suc j]), ?done @ le32_bytes (plus_zero (float_at src j)) @ replicate (4 * (n - Suc j)) 0 @ z)"
  proof (cases "nonzero_at src j")
    case True
    have vi: "?vi < length vals" "vals ! ?vi = float_at src j" using nth_filtered [of "nonzero_at src", OF True j] by (auto simp: vals_def)
    have v: "le32 data ((n + 7) div 8 + 4 * ?vi) = float_at src j"
      using le32_shift [of "sparse_bitmap src n" "concat (map le32_bytes vals)" "4 * ?vi"] le32_concat [OF vi(1)] vi(2) bm by (simp add: data_def)
    have "(n + 7) div 8 + 4 * ?vi + 4 \<le> length data" using vi(1) bm by (simp add: data_def length_floats)
    moreover have "4 * j + 4 \<le> length (?done @ replicate (4 * (n - j)) 0 @ z)" using len j by simp
    moreover have "plus_zero (float_at src j) = float_at src j" using True by (simp add: plus_zero_def nonzero_at_def)
    ultimately show ?thesis using True rd v put by (simp add: sparse_round_def store_float_def)
  next
    case False
    then have "plus_zero (float_at src j) = 0" by (simp add: plus_zero_def nonzero_at_def)
    moreover have "le32_bytes 0 = replicate 4 0" by (simp add: le32_bytes_def eval_nat_numeral)
    ultimately show ?thesis using False rd rest by (simp add: sparse_round_def replicate_add)
  qed
  show ?case using Suc.IH j step by (simp add: fold_run_append)
qed simp

text \<open>Floats that are small integers, for the examples.\<close>

definition int_ops :: bfp_ops where
  "int_ops = \<lparr>fl_abs = (\<lambda>x. if bit x 31 then - x else x), fl_gt = (\<lambda>x y. y < x), fl_frexp = (\<lambda>x. if x < 128 then 7 else 31), fl_ldexp1 = (\<lambda>e. push_bit (nat e) 1),
     fl_mul = (*), fl_to_int = (\<lambda>x. Some (sint x)), fl_of_int = word_of_int\<rparr>"

text \<open>
  C34. A sparse buffer gives the tensor back. When memory is granted and no registered codec has taken the place of the sparse one, compressing a non-empty buffer succeeds,
  and decompressing the result into a destination at least as long stays within all buffers and writes every float of the source, bit by bit, except that a negative zero
  becomes a positive one; the bytes behind the last float are left alone.
\<close>

theorem sparse_roundtrip:
  assumes "\<forall>c \<in> set g. i_codec c \<noteq> SNEPPX_COMPRESS_SPARSE" "\<forall>k. ok k" "src \<noteq> []" "length src \<le> length dst"
  shows "\<exists>b. SNEPPX_compress_apply F g ok k (Some src) dtype SNEPPX_COMPRESS_SPARSE (Some b0) = Inr (0, Some b) \<and>
    SNEPPX_compress_decompress F g (Some b) (Some dst) =
      Inr (0, Some (concat (map (\<lambda>i. le32_bytes (plus_zero (float_at src i))) [0..<length src div 4]) @ drop (4 * (length src div 4)) dst))"
proof -
  let ?n = "length src div 4"
  have none: "List.find (\<lambda>c. i_codec c = SNEPPX_COMPRESS_SPARSE) g = None" using assms(1) by (simp add: find_None_iff)
  have f: "filter (\<lambda>i. bit (sparse_bitmap src ?n ! (i div 8)) (i mod 8)) [0..<?n] = filter (nonzero_at src) [0..<?n]"
    using sparse_bitmap_bits(2) [of _ ?n src] by (intro filter_cong) (simp_all add: get_bit_def)
  have n: "4 * ?n \<le> length dst" using assms(4) by linarith
  have z: "put_bytes dst 0 (replicate (4 * ?n) 0) = replicate (4 * ?n) 0 @ drop (4 * ?n) dst" by (simp add: put_bytes_def)
  show ?thesis
    unfolding SNEPPX_compress_apply_def SNEPPX_compress_decompress_def
    using none assms(2-4) n sparse_loop [of ?n src "drop (4 * ?n) dst"]
    by (simp add: sparse_compress_def f sparse_decompress_def bitmap_size_def z Let_def)
qed

theorem sparse_roundtrip_witness:
  "\<exists>b. SNEPPX_compress_apply int_ops [] (\<lambda>_. True) 0 (Some [0, 0, 0x80, 0x3f, 0, 0, 0, 0x80, 7]) 3 SNEPPX_COMPRESS_SPARSE (Some empty_buffer) = Inr (0, Some b) \<and>
    SNEPPX_compress_decompress int_ops [] (Some b) (Some (replicate 9 1)) = Inr (0, Some [0, 0, 0x80, 0x3f, 0, 0, 0, 0, 1])"
proof -
  let ?src = "[0, 0, 0x80, 0x3f, 0, 0, 0, 0x80, 7] :: bytes"
  have "concat (map (\<lambda>i. le32_bytes (plus_zero (float_at ?src i))) [0..<length ?src div 4]) @ drop (4 * (length ?src div 4)) (replicate 9 1) = [0, 0, 0x80, 0x3f, 0, 0, 0, 0, 1]"
    by code_simp
  moreover have "length ?src \<le> length (replicate 9 (1 :: u8))" by simp
  ultimately show ?thesis using sparse_roundtrip [of "[]" "\<lambda>_. True" ?src "replicate 9 1" int_ops 0 3 empty_buffer] by (metis (no_types, lifting) empty_iff list.distinct(1) list.set(1))
qed

section \<open>Mantissas come back\<close>

lemma store_mantissa_bits:
  assumes "\<And>mb. mb < m \<Longrightarrow> (j * m + mb) div 8 < length d"
  shows "length (store_mantissa m j q d) = length d" "get_bit (store_mantissa m j q d) p \<longleftrightarrow> get_bit d p \<or> (\<exists>mb < m. bit q mb \<and> j * m + mb = p)"
  using fold_marks [of "[0..<m]" "bit q" "\<lambda>mb. j * m + mb" d] assms by (auto simp: store_mantissa_def)

lemma load_mantissa_bits:
  assumes "\<And>mb. mb < m \<Longrightarrow> (j * m + mb) div 8 < length d" "\<And>mb. mb < m \<Longrightarrow> get_bit d (j * m + mb) \<longleftrightarrow> bit q mb"
    and "0 < m" "- (2 ^ (m - 1)) \<le> q" "q < 2 ^ (m - 1)"
  shows "load_mantissa m j d = Inr q"
proof -
  let ?f = "\<lambda>mb x. bind_run (read_bit d (j * m + mb)) (\<lambda>b. Inr (if b then x OR push_bit mb 1 else x))"
  have loop: "fold_run ?f [0..<l] 0 = Inr (take_bit l q)" if "l \<le> m" for l
    using that
  proof (induction l)
    case (Suc l)
    have "take_bit (Suc l) q = (if bit q l then take_bit l q OR push_bit l 1 else take_bit l q)"
      by (rule bit_eqI) (auto simp: bit_simps less_Suc_eq)
    then show ?case using Suc assms(1,2) by (simp add: fold_run_append read_bit_in)
  qed simp
  have q: "signed_take_bit (m - 1) q = q" using assms(4,5) by (intro signed_take_bit_int_eq_self) simp_all
  have "(if bit (take_bit m q) (m - 1) then take_bit m q OR NOT (push_bit m 1 - 1) else take_bit m q) = signed_take_bit (m - 1) q"
  proof (rule bit_eqI)
    fix i
    have mask: "push_bit m 1 - 1 = (mask m :: int)" by (simp add: mask_eq_exp_minus_1 push_bit_eq_mult)
    show "bit (if bit (take_bit m q) (m - 1) then take_bit m q OR NOT (push_bit m 1 - 1) else take_bit m q) i = bit (signed_take_bit (m - 1) q) i"
    proof (cases "i < m")
      case True
      then have "i < m - 1 \<or> i = m - 1" by linarith
      then show ?thesis unfolding mask using True by (auto simp: bit_simps bit_signed_take_bit_iff min_def)
    next
      case False
      then show ?thesis unfolding mask using assms(3) by (auto simp: bit_simps bit_signed_take_bit_iff min_def)
    qed
  qed
  then show ?thesis using loop [of m] q by (simp add: load_mantissa_def)
qed

section \<open>Block floating point keeps the quantised values\<close>

definition block_exponent :: "bfp_ops \<Rightarrow> bytes \<Rightarrow> nat \<Rightarrow> nat \<Rightarrow> int" where
  "block_exponent F src n b = (let best = max_abs F src (block_range n b) in if is_zero best then 0 else fl_frexp F best)"

definition mantissa :: "bfp_ops \<Rightarrow> nat \<Rightarrow> bytes \<Rightarrow> nat \<Rightarrow> nat \<Rightarrow> int" where
  "mantissa F m src n i =
     (let b = i div 16 in
      if is_zero (max_abs F src (block_range n b)) then 0
      else max (- (2 ^ (m - 1))) (min (2 ^ (m - 1) - 1) (the (fl_to_int F (fl_mul F (float_at src i) (fl_ldexp1 F (int m - 1 - block_exponent F src n b)))))))"

text \<open>The conversion of every element of a block that has one other than zero is defined.\<close>

definition converts :: "bfp_ops \<Rightarrow> nat \<Rightarrow> bytes \<Rightarrow> nat \<Rightarrow> bool" where
  "converts F m src n \<longleftrightarrow>
     (\<forall>i < n. is_zero (max_abs F src (block_range n (i div 16))) \<or>
        fl_to_int F (fl_mul F (float_at src i) (fl_ldexp1 F (int m - 1 - block_exponent F src n (i div 16)))) \<noteq> None)"

definition bfp_value :: "bfp_ops \<Rightarrow> nat \<Rightarrow> bytes \<Rightarrow> nat \<Rightarrow> u32" where
  "bfp_value F m src i =
     (let n = length src div 4 in fl_mul F (fl_of_int F (mantissa F m src n i)) (fl_ldexp1 F (block_exponent F src n (i div 16) - (int m - 1))))"

lemma mantissa_range: "- (2 ^ (m - 1)) \<le> mantissa F m src n i" "mantissa F m src n i < 2 ^ (m - 1)"
proof -
  have "(0 :: int) < 2 ^ (m - 1)" by simp
  then show "- (2 ^ (m - 1)) \<le> mantissa F m src n i" "mantissa F m src n i < 2 ^ (m - 1)"
    by (auto simp: mantissa_def Let_def)
qed

lemma block_range_div: "i \<in> set (block_range n b) \<longleftrightarrow> i < n \<and> i div 16 = b"
  by (auto simp: block_range_def)

lemma fold_mantissas:
  assumes "\<And>i mb. i \<in> set is \<Longrightarrow> mb < m \<Longrightarrow> (i * m + mb) div 8 < length d"
  shows "length (fold (\<lambda>i d. store_mantissa m i (q i) d) is d) = length d"
    "get_bit (fold (\<lambda>i d. store_mantissa m i (q i) d) is d) p \<longleftrightarrow> get_bit d p \<or> (\<exists>i \<in> set is. \<exists>mb < m. bit (q i) mb \<and> i * m + mb = p)"
  using assms by (induction "is" arbitrary: d) (auto simp: store_mantissa_bits)

lemma fold_unchanged: "(\<And>x s. x \<in> set xs \<Longrightarrow> f x s = s) \<Longrightarrow> fold f xs s = s"
  by (induction xs) simp_all

lemma store_mantissa_zero [simp]: "store_mantissa m j 0 d = d"
  by (simp add: store_mantissa_def fold_unchanged)

lemma clamp_mantissa_max: "clamp_mantissa m q = max (- (2 ^ (m - 1))) (min (2 ^ (m - 1) - 1) q)"
proof -
  define h :: int where "h = 2 ^ (m - 1)"
  have "0 < h" by (simp add: h_def)
  then show ?thesis unfolding clamp_mantissa_def Let_def h_def [symmetric] by auto
qed

lemma compress_block_run:
  assumes "converts F m src n"
  shows "compress_block F m src n b (data, exps) =
    Inr (fold (\<lambda>i d. store_mantissa m i (mantissa F m src n i) d) (block_range n b) data, exps[b := to_short (block_exponent F src n b)])"
proof (cases "is_zero (max_abs F src (block_range n b))")
  case True
  then have "mantissa F m src n i = 0" if "i \<in> set (block_range n b)" for i using that block_range_div by (auto simp: mantissa_def Let_def)
  then show ?thesis using True by (simp add: compress_block_def block_exponent_def to_short_def fold_unchanged Let_def)
next
  case False
  have "bind_run (quantise F m (float_at src i) (block_exponent F src n b)) (\<lambda>q. Inr (store_mantissa m (b * 16 + (i - b * 16)) q d)) =
      Inr (store_mantissa m i (mantissa F m src n i) d)" if "i \<in> set (block_range n b)" for i d
  proof -
    have i: "i < n" "i div 16 = b" "b * 16 + (i - b * 16) = i" using that block_range_div by (auto simp: block_range_def)
    then obtain q where "fl_to_int F (fl_mul F (float_at src i) (fl_ldexp1 F (int m - 1 - block_exponent F src n b))) = Some q"
      using assms False by (auto simp: converts_def)
    then show ?thesis using i False by (simp add: quantise_def mantissa_def clamp_mantissa_max Let_def)
  qed
  then have "fold_run (\<lambda>i d. bind_run (quantise F m (float_at src i) (block_exponent F src n b)) (\<lambda>q. Inr (store_mantissa m (b * 16 + (i - b * 16)) q d)))
      (block_range n b) data = Inr (fold (\<lambda>i d. store_mantissa m i (mantissa F m src n i) d) (block_range n b) data)" by (rule fold_run_Inr)
  then show ?thesis using False by (simp add: compress_block_def block_exponent_def Let_def)
qed

lemma compress_blocks_run:
  assumes "converts F m src n"
  shows "fold_run (compress_block F m src n) bs (data, exps) =
    Inr (fold (\<lambda>b d. fold (\<lambda>i d. store_mantissa m i (mantissa F m src n i) d) (block_range n b) d) bs data,
         fold (\<lambda>b e. e[b := to_short (block_exponent F src n b)]) bs exps)"
  by (induction bs arbitrary: data exps) (simp_all add: compress_block_run [OF assms])

lemma packed_mantissas:
  assumes bnd: "\<And>i mb. i < n \<Longrightarrow> mb < m \<Longrightarrow> (i * m + mb) div 8 < length d"
  shows "length (fold (\<lambda>b d. fold (\<lambda>i d. store_mantissa m i (q i) d) (block_range n b) d) [0..<nb] d) = length d \<and>
    (get_bit (fold (\<lambda>b d. fold (\<lambda>i d. store_mantissa m i (q i) d) (block_range n b) d) [0..<nb] d) p \<longleftrightarrow>
     get_bit d p \<or> (\<exists>i. i < n \<and> i div 16 < nb \<and> (\<exists>mb < m. bit (q i) mb \<and> i * m + mb = p)))"
proof (induction nb)
  case (Suc b)
  let ?d = "fold (\<lambda>b d. fold (\<lambda>i d. store_mantissa m i (q i) d) (block_range n b) d) [0..<b] d"
  have len: "length ?d = length d" using Suc by simp
  have "\<And>i mb. i \<in> set (block_range n b) \<Longrightarrow> mb < m \<Longrightarrow> (i * m + mb) div 8 < length ?d" using bnd len block_range_div by simp
  note step = fold_mantissas [of "block_range n b" m ?d q, OF this]
  show ?case using Suc step len block_range_div [of _ n b] by (auto simp: less_Suc_eq)
qed simp

lemma packed_exponents: "length (fold (\<lambda>b e. e[b := f b]) [0..<nb] e) = length e \<and> (\<forall>b < nb. b < length e \<longrightarrow> fold (\<lambda>b e. e[b := f b]) [0..<nb] e ! b = f b)"
  by (induction nb) (auto simp: less_Suc_eq nth_list_update)

text \<open>What compression leaves behind: every mantissa can be read back, and the exponents of all blocks.\<close>

lemma bfp_packed:
  assumes m: "0 < m" and ex: "\<forall>x. - (2 ^ 15) \<le> fl_frexp F x \<and> fl_frexp F x < 2 ^ 15" and "converts F m src n"
  defines "nb \<equiv> (n + 16 - 1) div 16"
  obtains data exps where
    "fold_run (compress_block F m src n) [0..<nb] (replicate (nb * 16 * m div 8 + nb) 0, replicate nb 0) = Inr (data, exps)"
    "\<And>i. i < n \<Longrightarrow> load_mantissa m i data = Inr (mantissa F m src n i)" "\<And>b. b < nb \<Longrightarrow> load_cell exps b = Inr (block_exponent F src n b)"
proof -
  define sz where "sz = nb * 16 * m div 8 + nb"
  define data where "data = fold (\<lambda>b d. fold (\<lambda>i d. store_mantissa m i (mantissa F m src n i) d) (block_range n b) d) [0..<nb] (replicate sz 0)"
  define exps where "exps = fold (\<lambda>b e. e[b := to_short (block_exponent F src n b)]) [0..<nb] (replicate nb 0)"
  have bnd: "(i * m + mb) div 8 < sz" if "i < n" "mb < m" for i mb
  proof -
    have "(i + 1) * m \<le> nb * 16 * m" using that by (intro mult_le_mono1) (simp add: nb_def)
    then have "i * m + mb < 8 * (nb * 2 * m)" using that by simp
    then have "(i * m + mb) div 8 < nb * 2 * m" by (simp add: less_mult_imp_div_less mult.commute)
    moreover have "nb * 16 * m div 8 = nb * 2 * m" by simp
    ultimately show ?thesis unfolding sz_def by linarith
  qed
  have C: "length data = sz" "get_bit data p \<longleftrightarrow> (\<exists>i. i < n \<and> i div 16 < nb \<and> (\<exists>mb < m. bit (mantissa F m src n i) mb \<and> i * m + mb = p))" if "p div 8 < sz" for p
    using packed_mantissas [of n m "replicate sz 0" "mantissa F m src n" nb p] bnd that by (auto simp: data_def get_bit_def)
  have load: "load_mantissa m i data = Inr (mantissa F m src n i)" if i: "i < n" for i
  proof (rule load_mantissa_bits [OF _ _ m mantissa_range])
    fix mb assume mb: "mb < m"
    show "(i * m + mb) div 8 < length data" using C(1) bnd [OF i mb] by simp
    have "i div 16 < nb" using i unfolding nb_def by auto
    then show "get_bit data (i * m + mb) \<longleftrightarrow> bit (mantissa F m src n i) mb" using C(2) bnd [OF i mb] i mb index_unique [of _ m] by blast
  qed
  have "to_short (block_exponent F src n b) = block_exponent F src n b" for b
  proof -
    have "- (2 ^ 15) \<le> block_exponent F src n b \<and> block_exponent F src n b < 2 ^ 15" using ex by (simp add: block_exponent_def Let_def)
    then have "signed_take_bit 15 (block_exponent F src n b) = block_exponent F src n b" by (intro signed_take_bit_int_eq_self) simp_all
    then show ?thesis by (simp add: to_short_def signed_of_int)
  qed
  then have "load_cell exps b = Inr (block_exponent F src n b)" if "b < nb" for b
    using packed_exponents [of "\<lambda>b. to_short (block_exponent F src n b)" nb "replicate nb 0"] that by (simp add: exps_def)
  then show ?thesis using that [of data exps] load compress_blocks_run [OF assms(3)] unfolding data_def exps_def sz_def by blast
qed

lemma store_run:
  assumes "a \<le> c" "4 * c \<le> length dst"
  shows "fold_run (\<lambda>i. store_float i (v i)) [a..<c] (concat (map (\<lambda>i. le32_bytes (v i)) [0..<a]) @ drop (4 * a) dst) =
    Inr (concat (map (\<lambda>i. le32_bytes (v i)) [0..<c]) @ drop (4 * c) dst)"
  using assms
proof (induction c)
  case (Suc c)
  show ?case
  proof (cases "a = Suc c")
    case False
    let ?d = "concat (map (\<lambda>i. le32_bytes (v i)) [0..<c])"
    have len: "length ?d = 4 * c" using length_floats [of "map v [0..<c]"] by (simp add: comp_def)
    have "store_float c (v c) (?d @ drop (4 * c) dst) = Inr (?d @ le32_bytes (v c) @ drop (4 * Suc c) dst)"
      using len Suc.prems(2) by (simp add: store_float_def put_bytes_def)
    then show ?thesis using Suc False by (simp add: fold_run_append)
  qed simp
qed simp

lemma bfp_unpacked:
  assumes load: "\<And>i. i < n \<Longrightarrow> load_mantissa m i data = Inr (mantissa F m src n i)"
    and exps: "\<And>b. b < nb \<Longrightarrow> load_cell exps b = Inr (block_exponent F src n b)"
    and n: "n = length src div 4" "4 * n \<le> length dst" "nb = (n + 16 - 1) div 16"
  shows "fold_run (decompress_block F m data exps 16 n) [0..<nb] dst =
    Inr (concat (map (\<lambda>i. le32_bytes (bfp_value F m src i)) [0..<n]) @ drop (4 * n) dst)"
proof -
  let ?v = "bfp_value F m src" and ?done = "\<lambda>j. concat (map (\<lambda>i. le32_bytes (bfp_value F m src i)) [0..<j]) @ drop (4 * j) dst"
  have block: "decompress_block F m data exps 16 n b (?done (min n (b * 16))) = Inr (?done (min n (Suc b * 16)))" if b: "b < nb" for b
  proof -
    let ?stop = "if b * 16 + 16 > n then n else b * 16 + 16"
    have start: "min n (b * 16) = b * 16" using b n(3) by (auto simp: min_def)
    have "fold_run (\<lambda>i dst. bind_run (load_mantissa m (b * 16 + (i - b * 16)) data)
        (\<lambda>q. store_float i (fl_mul F (fl_of_int F q) (fl_ldexp1 F (block_exponent F src n b - (int m - 1)))) dst)) [b * 16..<?stop] (?done (b * 16)) =
        fold_run (\<lambda>i. store_float i (?v i)) [b * 16..<?stop] (?done (b * 16))"
    proof (rule fold_run_cong)
      fix i s assume "i \<in> set [b * 16..<?stop]"
      then have i: "b * 16 \<le> i" "i < n" "i div 16 = b" by (auto split: if_splits)
      then show "bind_run (load_mantissa m (b * 16 + (i - b * 16)) data)
        (\<lambda>q. store_float i (fl_mul F (fl_of_int F q) (fl_ldexp1 F (block_exponent F src n b - (int m - 1)))) s) = store_float i (?v i) s"
        using load [OF i(2)] by (simp add: bfp_value_def n(1) [symmetric] Let_def)
    qed
    also have "\<dots> = Inr (?done ?stop)" using store_run [of "b * 16" ?stop dst ?v] start n(2) by (auto split: if_splits)
    finally show ?thesis using exps [OF b] start by (simp add: decompress_block_def Let_def min_def add.commute)
  qed
  have "fold_run (decompress_block F m data exps 16 n) [0..<b] dst = Inr (?done (min n (b * 16)))" if "b \<le> nb" for b
    using that by (induction b) (simp_all add: fold_run_append block)
  moreover have "min n (nb * 16) = n" unfolding n(3) by linarith
  ultimately show ?thesis by (metis order_refl)
qed

text \<open>
  Block floating point keeps the quantised values. For the 4-bit and the 8-bit codec, with memory granted, with no registered codec in their place, with exponents that fit a \<open>short\<close>
  and with conversions to \<open>int\<close> that are defined for all elements, compressing succeeds, and decompressing stays within all buffers and writes for every element the product of its mantissa, clamped to the
  range of the codec, and the scale of its block: packing the bits, unpacking them and extending the sign lose nothing. Elements that are not finite, and blocks so
  small that the scale overflows, have no such conversion.
\<close>

theorem bfp_roundtrip:
  assumes codec: "codec = SNEPPX_COMPRESS_BFP4 \<and> m = 4 \<or> codec = SNEPPX_COMPRESS_BFP8 \<and> m = 8"
    and "\<forall>c \<in> set g. i_codec c \<noteq> codec" "\<forall>k. ok k" "src \<noteq> []" "length src \<le> length dst" "\<forall>x. - (2 ^ 15) \<le> fl_frexp F x \<and> fl_frexp F x < 2 ^ 15"
    and "converts F m src (length src div 4)"
  shows "\<exists>b. SNEPPX_compress_apply F g ok k (Some src) dtype codec (Some b0) = Inr (0, Some b) \<and>
    SNEPPX_compress_decompress F g (Some b) (Some dst) =
      Inr (0, Some (concat (map (\<lambda>i. le32_bytes (bfp_value F m src i)) [0..<length src div 4]) @ drop (4 * (length src div 4)) dst))"
proof -
  define n where "n = length src div 4"
  define nb where "nb = (n + 16 - 1) div 16"
  have m: "0 < m" using codec by auto
  obtain data exps where p: "fold_run (compress_block F m src n) [0..<nb] (replicate (nb * 16 * m div 8 + nb) 0, replicate nb 0) = Inr (data, exps)"
    "\<And>i. i < n \<Longrightarrow> load_mantissa m i data = Inr (mantissa F m src n i)" "\<And>b. b < nb \<Longrightarrow> load_cell exps b = Inr (block_exponent F src n b)"
    using bfp_packed [OF m assms(6,7)] unfolding n_def nb_def by metis
  have "4 * n \<le> length dst" using assms(5) by (simp add: n_def)
  note u = bfp_unpacked [OF p(2,3) n_def this nb_def]
  have none: "List.find (\<lambda>c. i_codec c = codec) g = None" using assms(2) by (simp add: find_None_iff)
  have comp: "bfp_compress F ok k m (Some src) dtype (Some d) = Inr (0, Some \<lparr>c_codec = codec, compressed_data = Some data, compressed_bytes = nb * 16 * m div 8 + nb,
      original_bytes = length src, original_elements = n, original_dtype = dtype, c_block_size = 16, c_metadata = Exponents exps\<rparr>)" for d
    unfolding bfp_compress_def Let_def prod.case option.case n_def [symmetric] nb_def [symmetric] p(1) using codec assms(3,4) by auto
  show ?thesis
    unfolding SNEPPX_compress_apply_def SNEPPX_compress_decompress_def n_def [symmetric]
    using none codec comp u assms(5)
    by (auto simp: bfp4_compress_def bfp8_compress_def bfp_decompress_def exponents_def nb_def Let_def)
qed

theorem bfp_roundtrip_witness:
  "\<exists>b. SNEPPX_compress_apply int_ops [] (\<lambda>_. True) 0 (Some [5, 0, 0, 0, 0xfd, 0xff, 0xff, 0xff]) 3 SNEPPX_COMPRESS_BFP8 (Some empty_buffer) = Inr (0, Some b) \<and>
    SNEPPX_compress_decompress int_ops [] (Some b) (Some (replicate 8 1)) = Inr (0, Some [5, 0, 0, 0, 0xfd, 0xff, 0xff, 0xff])"
proof -
  let ?src = "[5, 0, 0, 0, 0xfd, 0xff, 0xff, 0xff] :: bytes"
  have "concat (map (\<lambda>i. le32_bytes (bfp_value int_ops 8 ?src i)) [0..<length ?src div 4]) @ drop (4 * (length ?src div 4)) (replicate 8 1) = ?src"
    by code_simp
  moreover have "length ?src \<le> length (replicate 8 (1 :: u8))" by simp
  moreover have "\<forall>x. - (2 ^ 15) \<le> fl_frexp int_ops x \<and> fl_frexp int_ops x < 2 ^ 15" by (simp add: int_ops_def)
  moreover have "converts int_ops 8 ?src (length ?src div 4)" by (simp add: converts_def int_ops_def)
  ultimately show ?thesis
    using bfp_roundtrip [of SNEPPX_COMPRESS_BFP8 8 "[]" "\<lambda>_. True" ?src "replicate 8 1" int_ops 0 3 empty_buffer]
    by (metis (no_types, lifting) empty_iff list.distinct(1) list.set(1))
qed

text \<open>
  The buffer of a sparse tensor with elements cannot be released: its metadata is a count, not a pointer, and \<open>free\<close> is called on it.
\<close>

lemma sparse_destroy_frees_count:
  assumes "sparse_compress ok k (Some src) dtype (Some b0) = (0, Some b)" "4 \<le> length src"
  shows "SNEPPX_compress_buffer_destroy (Some b) = Inl Bad_Free"
  using assms by (auto simp: sparse_compress_def SNEPPX_compress_buffer_destroy_def Let_def split: if_splits)

end
