(* ===== verification/Slab.thy ===== *)
theory Slab
  imports Bytes
begin

text \<open>
  The slab allocator \<open>mm/internal/slab_alloc.c\<close>: caches of blocks of one size and the small caches in front of them.

  A slab structure is named by the number of its mapping; \<open>sl_slabs\<close> holds the structures that are allocated, and following a pointer to another one is \<open>Use_After_Free\<close>.
  \<open>sl_words\<close> is the pointer in the first word of a block, by address. The operating system is a parameter: \<open>pages i\<close> is the address of the \<open>i\<close>-th mapping
  of \<open>SLAB_SIZE\<close> bytes, or \<open>None\<close> for \<open>MAP_FAILED\<close>, which the code takes for an address; \<open>ok i\<close> tells whether the \<open>i\<close>-th \<open>calloc\<close> is granted.
  Counters are unbounded integers. The search of a list need not end, since lists can become cyclic: it is a partial function, \<open>None\<close> when it does not return.
\<close>

section \<open>Data\<close>

definition SLAB_SIZE :: nat where "SLAB_SIZE = 1024 * 1024"

record slab =
  sl_next :: "nat option"
  mem_base :: nat
  sl_block_size :: nat
  num_blocks :: nat
  free_count :: nat
  sl_free :: "nat option"

record slab_cache =
  block_size :: nat
  blocks_per_slab :: nat
  partial_list :: "nat option"
  full_list :: "nat option"
  free_list :: "nat option"
  active_objects :: int
  total_objects :: int

record slab_heap =
  sl_slabs :: "nat \<rightharpoonup> slab"
  sl_words :: "nat \<Rightarrow> nat option"
  sl_mapped :: nat
  sl_requests :: nat

definition get_slab :: "slab_heap \<Rightarrow> nat \<Rightarrow> slab run" where
  "get_slab h i = (case sl_slabs h i of None \<Rightarrow> Inl Use_After_Free | Some s \<Rightarrow> Inr s)"

definition put_slab :: "nat \<Rightarrow> slab \<Rightarrow> slab_heap \<Rightarrow> slab_heap" where
  "put_slab i s h = h\<lparr>sl_slabs := (sl_slabs h)(i \<mapsto> s)\<rparr>"

section \<open>Operations\<close>

definition link_blocks :: "nat \<Rightarrow> nat \<Rightarrow> nat \<Rightarrow> (nat \<Rightarrow> nat option) \<Rightarrow> (nat \<Rightarrow> nat option) \<times> nat option" where
  "link_blocks base bsz n words = fold (\<lambda>i (w, fl). (w(base + i * bsz := fl), Some (base + i * bsz))) [0..<n] (words, None)"

definition slab_add_page :: "(nat \<Rightarrow> nat option) \<Rightarrow> alloc_outcome \<Rightarrow> slab_cache \<Rightarrow> slab_heap \<Rightarrow> (slab_cache \<times> slab_heap) run" where
  "slab_add_page pages ok c h =
     (let i = sl_mapped h; k = sl_requests h; h = h\<lparr>sl_mapped := i + 1, sl_requests := k + 1\<rparr> in
      if \<not> ok k then Inr (c, h)
      else let n = SLAB_SIZE div block_size c in
        (case pages i of
           None \<Rightarrow> if n = 0 then Inr (c, h) else Inl Out_Of_Bounds
         | Some base \<Rightarrow>
             let (w, fl) = link_blocks base (block_size c) n (sl_words h);
                 s = \<lparr>sl_next = free_list c, mem_base = base, sl_block_size = block_size c, num_blocks = n, free_count = n, sl_free = fl\<rparr> in
             Inr (c\<lparr>free_list := Some i, total_objects := total_objects c + int n\<rparr>, put_slab i s (h\<lparr>sl_words := w\<rparr>))))"

definition round_block :: "u64 \<Rightarrow> u64 \<Rightarrow> u64" where
  "round_block bsz alignment =
     (let bsz = (if bsz < 8 then 8 else bsz) in
      if alignment \<noteq> 0 \<and> alignment AND (alignment - 1) = 0 then (bsz + alignment - 1) AND NOT (alignment - 1) else bsz)"

definition SNEPPX_slab_cache_create ::
  "(nat \<Rightarrow> nat option) \<Rightarrow> alloc_outcome \<Rightarrow> u64 \<Rightarrow> u64 \<Rightarrow> slab_heap \<Rightarrow> (int \<times> slab_cache option \<times> slab_heap) run" where
  "SNEPPX_slab_cache_create pages ok bsz alignment h =
     (let bsz = unat (round_block bsz alignment); k = sl_requests h; h = h\<lparr>sl_requests := k + 1\<rparr> in
      if \<not> ok k then Inr (- 1, None, h)
      else if bsz = 0 then Inl Zero_Divide
      else let c = \<lparr>block_size = bsz, blocks_per_slab = SLAB_SIZE div bsz, partial_list = None, full_list = None, free_list = None,
                    active_objects = 0, total_objects = 0\<rparr> in
        bind_run (slab_add_page pages ok c h) (\<lambda>(c, h). Inr (0, Some c, h)))"

text \<open>The part of \<open>SNEPPX_slab_cache_alloc\<close> after a slab was chosen and taken off its list.\<close>

definition take_block :: "nat \<Rightarrow> slab_cache \<Rightarrow> slab_heap \<Rightarrow> (nat option \<times> slab_cache \<times> slab_heap) run" where
  "take_block i c h =
     bind_run (get_slab h i) (\<lambda>s.
     case sl_free s of
       None \<Rightarrow> Inr (None, c, h)
     | Some b \<Rightarrow>
         let s = s\<lparr>sl_free := sl_words h b, free_count := free_count s - 1\<rparr>; c = c\<lparr>active_objects := active_objects c + 1\<rparr> in
         if free_count s = 0 then Inr (Some b, c\<lparr>full_list := Some i\<rparr>, put_slab i (s\<lparr>sl_next := full_list c\<rparr>) h)
         else Inr (Some b, c\<lparr>partial_list := Some i\<rparr>, put_slab i (s\<lparr>sl_next := partial_list c\<rparr>) h))"

definition SNEPPX_slab_cache_alloc ::
  "(nat \<Rightarrow> nat option) \<Rightarrow> alloc_outcome \<Rightarrow> slab_cache \<Rightarrow> slab_heap \<Rightarrow> (nat option \<times> slab_cache \<times> slab_heap) run" where
  "SNEPPX_slab_cache_alloc pages ok c h =
     (case (if partial_list c = None then free_list c else partial_list c) of
        Some i \<Rightarrow> bind_run (get_slab h i) (\<lambda>s.
          let c = (if free_list c = Some i then c\<lparr>free_list := sl_next s\<rparr> else c);
              c = (if partial_list c = Some i then c\<lparr>partial_list := sl_next s\<rparr> else c) in
          take_block i c h)
      | None \<Rightarrow> bind_run (slab_add_page pages ok c h) (\<lambda>(c, h).
          case free_list c of
            None \<Rightarrow> Inr (None, c, h)
          | Some i \<Rightarrow> bind_run (get_slab h i) (\<lambda>s. take_block i (c\<lparr>free_list := sl_next s\<rparr>) h)))"

partial_function (option) find_slab :: "slab_heap \<Rightarrow> nat \<Rightarrow> nat option \<Rightarrow> nat option run option" where
  "find_slab h ptr p =
     (case p of None \<Rightarrow> Some (Inr None)
      | Some i \<Rightarrow> (case sl_slabs h i of
          None \<Rightarrow> Some (Inl Use_After_Free)
        | Some s \<Rightarrow> if mem_base s \<le> ptr \<and> ptr < mem_base s + SLAB_SIZE then Some (Inr (Some i)) else find_slab h ptr (sl_next s)))"

text \<open>The part of \<open>SNEPPX_slab_cache_free\<close> after the slab was found.\<close>

definition give_block :: "nat \<Rightarrow> nat \<Rightarrow> slab_cache \<Rightarrow> slab_heap \<Rightarrow> (slab_cache \<times> slab_heap) run" where
  "give_block i ptr c h =
     bind_run (get_slab h i) (\<lambda>s.
     let c = (if full_list c = Some i then c\<lparr>full_list := sl_next s\<rparr> else c);
         c = (if partial_list c = Some i then c\<lparr>partial_list := sl_next s\<rparr> else c);
         h = h\<lparr>sl_words := (sl_words h)(ptr := sl_free s)\<rparr>;
         s = s\<lparr>sl_free := Some ptr, free_count := free_count s + 1\<rparr>;
         c = c\<lparr>active_objects := active_objects c - 1\<rparr> in
     if free_count s = num_blocks s then Inr (c\<lparr>free_list := Some i\<rparr>, put_slab i (s\<lparr>sl_next := free_list c\<rparr>) h)
     else Inr (c\<lparr>partial_list := Some i\<rparr>, put_slab i (s\<lparr>sl_next := partial_list c\<rparr>) h))"

definition SNEPPX_slab_cache_free :: "nat option \<Rightarrow> slab_cache \<Rightarrow> slab_heap \<Rightarrow> (slab_cache \<times> slab_heap) run option" where
  "SNEPPX_slab_cache_free ptr c h =
     (case ptr of None \<Rightarrow> Some (Inr (c, h))
      | Some p \<Rightarrow> (case find_slab h p (full_list c) of
          None \<Rightarrow> None
        | Some (Inl e) \<Rightarrow> Some (Inl e)
        | Some (Inr (Some i)) \<Rightarrow> Some (give_block i p c h)
        | Some (Inr None) \<Rightarrow> (case find_slab h p (partial_list c) of
            None \<Rightarrow> None
          | Some (Inl e) \<Rightarrow> Some (Inl e)
          | Some (Inr (Some i)) \<Rightarrow> Some (give_block i p c h)
          | Some (Inr None) \<Rightarrow> Some (Inr (c, h)))))"

text \<open>
  The loop of \<open>SNEPPX_slab_cache_gc\<close>: \<open>prev\<close> is the slab whose \<open>next\<close> field \<open>pprev\<close> points to, or \<open>None\<close> for the head of the list.
\<close>

definition set_next :: "nat option \<Rightarrow> nat option \<Rightarrow> slab_cache \<times> slab_heap \<Rightarrow> (slab_cache \<times> slab_heap) run" where
  "set_next prev n = (\<lambda>(c, h). case prev of
       None \<Rightarrow> Inr (c\<lparr>free_list := n\<rparr>, h)
     | Some i \<Rightarrow> bind_run (get_slab h i) (\<lambda>s. Inr (c, put_slab i (s\<lparr>sl_next := n\<rparr>) h)))"

partial_function (option) gc_loop :: "nat option \<Rightarrow> nat option \<Rightarrow> slab_cache \<times> slab_heap \<Rightarrow> (slab_cache \<times> slab_heap) run option" where
  "gc_loop prev p ch =
     (case p of None \<Rightarrow> Some (Inr ch)
      | Some i \<Rightarrow> (case sl_slabs (snd ch) i of
          None \<Rightarrow> Some (Inl Use_After_Free)
        | Some s \<Rightarrow>
            if free_count s = num_blocks s
            then (case set_next prev (sl_next s) ch of
                    Inl e \<Rightarrow> Some (Inl e)
                  | Inr ch \<Rightarrow> gc_loop prev (sl_next s) ((fst ch)\<lparr>total_objects := total_objects (fst ch) - int (num_blocks s)\<rparr>, (snd ch)\<lparr>sl_slabs := (sl_slabs (snd ch))(i := None)\<rparr>))
            else gc_loop (Some i) (sl_next s) ch))"

definition SNEPPX_slab_cache_gc :: "slab_cache \<Rightarrow> slab_heap \<Rightarrow> (slab_cache \<times> slab_heap) run option" where
  "SNEPPX_slab_cache_gc c h = gc_loop None (free_list c) (c, h)"

text \<open>The loops of \<open>SNEPPX_slab_cache_destroy\<close>, one for each list.\<close>

partial_function (option) release_list :: "nat option \<Rightarrow> slab_heap \<Rightarrow> slab_heap run option" where
  "release_list p h =
     (case p of None \<Rightarrow> Some (Inr h)
      | Some i \<Rightarrow> (case sl_slabs h i of
          None \<Rightarrow> Some (Inl Use_After_Free)
        | Some s \<Rightarrow> release_list (sl_next s) (h\<lparr>sl_slabs := (sl_slabs h)(i := None)\<rparr>)))"

definition then_release :: "slab_heap run option \<Rightarrow> nat option \<Rightarrow> slab_heap run option" where
  "then_release r p = (case r of Some (Inr h) \<Rightarrow> release_list p h | _ \<Rightarrow> r)"

definition SNEPPX_slab_cache_destroy :: "slab_cache option \<Rightarrow> slab_heap \<Rightarrow> slab_heap run option" where
  "SNEPPX_slab_cache_destroy c h =
     (case c of None \<Rightarrow> Some (Inr h)
      | Some c \<Rightarrow> then_release (then_release (release_list (free_list c) h) (partial_list c)) (full_list c))"

section \<open>Caches in front\<close>

text \<open>\<open>free_blocks[0..count)\<close>, and the cache behind.\<close>

record slab_local =
  free_blocks :: "nat list"
  l_parent :: slab_cache

definition SNEPPX_slab_local_init :: "slab_cache \<Rightarrow> slab_local" where "SNEPPX_slab_local_init parent = \<lparr>free_blocks = [], l_parent = parent\<rparr>"

definition SNEPPX_slab_local_alloc ::
  "(nat \<Rightarrow> nat option) \<Rightarrow> alloc_outcome \<Rightarrow> slab_local \<Rightarrow> slab_heap \<Rightarrow> (nat option \<times> slab_local \<times> slab_heap) run" where
  "SNEPPX_slab_local_alloc pages ok l h =
     (if free_blocks l \<noteq> [] then Inr (Some (last (free_blocks l)), l\<lparr>free_blocks := butlast (free_blocks l)\<rparr>, h)
      else bind_run (SNEPPX_slab_cache_alloc pages ok (l_parent l) h) (\<lambda>(b, c, h). Inr (b, l\<lparr>l_parent := c\<rparr>, h)))"

definition SNEPPX_slab_local_free :: "nat option \<Rightarrow> slab_local \<Rightarrow> slab_heap \<Rightarrow> (slab_local \<times> slab_heap) run option" where
  "SNEPPX_slab_local_free ptr l h =
     (case ptr of None \<Rightarrow> Some (Inr (l, h))
      | Some p \<Rightarrow>
          if length (free_blocks l) < 32 then Some (Inr (l\<lparr>free_blocks := free_blocks l @ [p]\<rparr>, h))
          else map_option (\<lambda>r. bind_run r (\<lambda>(c, h). Inr (l\<lparr>l_parent := c\<rparr>, h))) (SNEPPX_slab_cache_free ptr (l_parent l) h))"

fun flush_loop :: "nat list \<Rightarrow> slab_cache \<Rightarrow> slab_heap \<Rightarrow> (slab_cache \<times> slab_heap) run option" where
  "flush_loop [] c h = Some (Inr (c, h))"
| "flush_loop (p # ps) c h = (case SNEPPX_slab_cache_free (Some p) c h of Some (Inr (c, h)) \<Rightarrow> flush_loop ps c h | r \<Rightarrow> r)"

definition SNEPPX_slab_local_flush :: "slab_local \<Rightarrow> slab_heap \<Rightarrow> (slab_local \<times> slab_heap) run option" where
  "SNEPPX_slab_local_flush l h =
     map_option (\<lambda>r. bind_run r (\<lambda>(c, h). Inr (\<lparr>free_blocks = [], l_parent = c\<rparr>, h))) (flush_loop (rev (free_blocks l)) (l_parent l) h)"

definition SNEPPX_slab_local_destroy :: "slab_local \<Rightarrow> slab_heap \<Rightarrow> (slab_local \<times> slab_heap) run option" where
  "SNEPPX_slab_local_destroy l h = SNEPPX_slab_local_flush l h"

section \<open>Free lists and live blocks\<close>

fun block_chain :: "(nat \<Rightarrow> nat option) \<Rightarrow> nat option \<Rightarrow> nat list \<Rightarrow> bool" where
  "block_chain w p [] \<longleftrightarrow> p = None"
| "block_chain w p (b # bs) \<longleftrightarrow> p = Some b \<and> block_chain w (w b) bs"

definition slab_blocks :: "slab \<Rightarrow> nat set" where "slab_blocks s = (\<lambda>j. mem_base s + j * sl_block_size s) ` {..<num_blocks s}"

text \<open>The blocks of a slab that are free form its list, and none of them is live.\<close>

definition slab_ok :: "(nat \<Rightarrow> nat option) \<Rightarrow> nat \<Rightarrow> nat set \<Rightarrow> (nat \<Rightarrow> nat option) \<Rightarrow> nat \<Rightarrow> slab \<Rightarrow> bool" where
  "slab_ok pages bsz live w i s \<longleftrightarrow> pages i = Some (mem_base s) \<and> sl_block_size s = bsz \<and> num_blocks s = SLAB_SIZE div bsz \<and>
     (\<exists>bs. block_chain w (sl_free s) bs \<and> distinct bs \<and> length bs = free_count s \<and> set bs \<subseteq> slab_blocks s - live)"

definition ptr_ok :: "slab_heap \<Rightarrow> nat option \<Rightarrow> bool" where
  "ptr_ok h p \<longleftrightarrow> (case p of None \<Rightarrow> True | Some i \<Rightarrow> sl_slabs h i \<noteq> None)"

definition slab_inv :: "(nat \<Rightarrow> nat option) \<Rightarrow> slab_cache \<Rightarrow> slab_heap \<Rightarrow> nat set \<Rightarrow> bool" where
  "slab_inv pages c h live \<longleftrightarrow> 0 < block_size c \<and> (\<forall>p \<in> live. \<exists>i s. sl_slabs h i = Some s \<and> p \<in> slab_blocks s) \<and>
     (\<forall>i s. sl_slabs h i = Some s \<longrightarrow> i < sl_mapped h \<and> slab_ok pages (block_size c) live (sl_words h) i s \<and> ptr_ok h (sl_next s)) \<and>
     ptr_ok h (partial_list c) \<and> ptr_ok h (full_list c) \<and> ptr_ok h (free_list c)"

text \<open>Mappings do not overlap.\<close>

definition pages_apart :: "(nat \<Rightarrow> nat option) \<Rightarrow> bool" where
  "pages_apart pages \<longleftrightarrow> (\<forall>i j a b. i \<noteq> j \<longrightarrow> pages i = Some a \<longrightarrow> pages j = Some b \<longrightarrow> a + SLAB_SIZE \<le> b \<or> b + SLAB_SIZE \<le> a)"

lemma block_chain_frame: "block_chain w p bs \<Longrightarrow> \<forall>b \<in> set bs. w' b = w b \<Longrightarrow> block_chain w' p bs"
  by (induction bs arbitrary: p) auto

lemma slab_block_range:
  assumes "p \<in> slab_blocks s" "num_blocks s = SLAB_SIZE div sl_block_size s"
  shows "mem_base s \<le> p \<and> p + sl_block_size s \<le> mem_base s + SLAB_SIZE"
proof -
  obtain j where j: "j < num_blocks s" "p = mem_base s + j * sl_block_size s" using assms(1) by (auto simp: slab_blocks_def)
  have "(j + 1) * sl_block_size s \<le> num_blocks s * sl_block_size s" using j(1) by (intro mult_le_mono1) simp
  also have "\<dots> \<le> SLAB_SIZE" unfolding assms(2) by simp
  finally show ?thesis using j(2) by simp
qed

lemma slab_blocks_fields: "mem_base t = mem_base s \<Longrightarrow> sl_block_size t = sl_block_size s \<Longrightarrow> num_blocks t = num_blocks s \<Longrightarrow> slab_blocks t = slab_blocks s"
  by (simp add: slab_blocks_def)

text \<open>An address lies in the mapping of one slab only.\<close>

lemma same_slab:
  assumes "pages_apart pages" "slab_inv pages c h live" "sl_slabs h i = Some s" "sl_slabs h j = Some t"
    "p \<in> slab_blocks s" "mem_base t \<le> p" "p < mem_base t + SLAB_SIZE"
  shows "i = j"
proof (rule ccontr)
  assume ij: "i \<noteq> j"
  have s: "slab_ok pages (block_size c) live (sl_words h) i s" "slab_ok pages (block_size c) live (sl_words h) j t" "0 < block_size c"
    using assms(2-4) by (auto simp: slab_inv_def)
  have r: "mem_base s \<le> p \<and> p + block_size c \<le> mem_base s + SLAB_SIZE" using slab_block_range [OF assms(5)] s(1) by (simp add: slab_ok_def)
  have "mem_base s + SLAB_SIZE \<le> mem_base t \<or> mem_base t + SLAB_SIZE \<le> mem_base s" using assms(1) s ij by (auto simp: pages_apart_def slab_ok_def)
  then show False using r s(3) assms(6,7) by linarith
qed

lemma slab_blocks_disjoint:
  assumes "pages_apart pages" "slab_inv pages c h live" "sl_slabs h i = Some s" "sl_slabs h j = Some t" "p \<in> slab_blocks s" "p \<in> slab_blocks t"
  shows "i = j"
proof -
  have t: "slab_ok pages (block_size c) live (sl_words h) j t" "0 < block_size c" using assms(2,4) by (auto simp: slab_inv_def)
  then show ?thesis using same_slab [OF assms(1-5)] slab_block_range [OF assms(6)] by (auto simp: slab_ok_def)
qed

text \<open>Blocks keep their distance.\<close>

lemma blocks_apart:
  assumes "pages_apart pages" "slab_inv pages c h live" "sl_slabs h i = Some s" "sl_slabs h j = Some t" "p \<in> slab_blocks s" "q \<in> slab_blocks t" "p \<noteq> q"
  shows "p + block_size c \<le> q \<or> q + block_size c \<le> p"
proof -
  have ok: "slab_ok pages (block_size c) live (sl_words h) i s" "slab_ok pages (block_size c) live (sl_words h) j t"
    using assms(2-4) by (auto simp: slab_inv_def)
  have r: "mem_base s \<le> p \<and> p + block_size c \<le> mem_base s + SLAB_SIZE" "mem_base t \<le> q \<and> q + block_size c \<le> mem_base t + SLAB_SIZE"
    using slab_block_range [OF assms(5)] slab_block_range [OF assms(6)] ok by (auto simp: slab_ok_def)
  show ?thesis
  proof (cases "i = j")
    case True
    then have st: "s = t" using assms(3,4) by simp
    have sz: "sl_block_size t = block_size c" using ok(2) by (simp add: slab_ok_def)
    obtain a b where ab: "p = mem_base t + a * block_size c" "q = mem_base t + b * block_size c"
      using assms(5,6) st sz by (auto simp: slab_blocks_def)
    have "a + 1 \<le> b \<or> b + 1 \<le> a" using ab assms(7) by (cases a b rule: linorder_cases) auto
    then have "(a + 1) * block_size c \<le> b * block_size c \<or> (b + 1) * block_size c \<le> a * block_size c" using mult_le_mono1 by blast
    then show ?thesis using ab by auto
  next
    case False
    then have "mem_base s + SLAB_SIZE \<le> mem_base t \<or> mem_base t + SLAB_SIZE \<le> mem_base s" using assms(1) ok by (auto simp: pages_apart_def slab_ok_def)
    then show ?thesis using r by linarith
  qed
qed

section \<open>Every operation keeps the invariant\<close>

text \<open>The lists of a cache do not matter as long as they lead to slabs.\<close>

lemma slab_inv_lists:
  assumes "slab_inv pages c h live" "block_size c' = block_size c" "ptr_ok h (partial_list c')" "ptr_ok h (full_list c')" "ptr_ok h (free_list c')"
  shows "slab_inv pages c' h live"
  using assms by (simp add: slab_inv_def)

lemma slab_inv_next:
  assumes "slab_inv pages c h live" "sl_slabs h i = Some s"
  shows "ptr_ok h (sl_next s)" "i < sl_mapped h" "slab_ok pages (block_size c) live (sl_words h) i s" "ptr_ok h (partial_list c)" "ptr_ok h (full_list c)" "ptr_ok h (free_list c)"
  using assms by (simp_all add: slab_inv_def)

lemma ptr_ok_simps [simp]: "ptr_ok h None" "ptr_ok h (Some i) \<longleftrightarrow> sl_slabs h i \<noteq> None"
  by (simp_all add: ptr_ok_def)

lemma slab_inv_counters:
  assumes "slab_inv pages c h live" "sl_mapped h \<le> n"
  shows "slab_inv pages c (h\<lparr>sl_mapped := n, sl_requests := m\<rparr>) live"
proof -
  have "ptr_ok (h\<lparr>sl_mapped := n, sl_requests := m\<rparr>) p = ptr_ok h p" for p by (simp add: ptr_ok_def split: option.split)
  then show ?thesis using assms unfolding slab_inv_def by fastforce
qed

text \<open>A slab is replaced by one with the same blocks, and words of the heap change outside the free lists of the others.\<close>

lemma slab_inv_update:
  assumes inv: "slab_inv pages c h live" and i: "sl_slabs h i = Some s"
    and t: "mem_base t = mem_base s" "sl_block_size t = sl_block_size s" "num_blocks t = num_blocks s" "ptr_ok h (sl_next t)"
    and ok: "slab_ok pages (block_size c) live' w i t"
    and others: "\<And>j u. j \<noteq> i \<Longrightarrow> sl_slabs h j = Some u \<Longrightarrow> slab_ok pages (block_size c) live' w j u"
    and live: "\<And>p. p \<in> live' \<Longrightarrow> p \<in> live \<or> p \<in> slab_blocks s"
    and c': "block_size c' = block_size c" "ptr_ok h (partial_list c')" "ptr_ok h (full_list c')" "ptr_ok h (free_list c')"
  shows "slab_inv pages c' (put_slab i t (h\<lparr>sl_words := w\<rparr>)) live'"
proof -
  let ?h = "put_slab i t (h\<lparr>sl_words := w\<rparr>)"
  have ptr: "ptr_ok ?h p = ptr_ok h p" for p using i by (auto simp: ptr_ok_def put_slab_def split: option.split)
  have blocks: "slab_blocks t = slab_blocks s" by (rule slab_blocks_fields [OF t(1-3)])
  have live': "\<exists>j u. sl_slabs ?h j = Some u \<and> p \<in> slab_blocks u" if "p \<in> live'" for p
  proof -
    have "p \<in> slab_blocks s \<or> (\<exists>j u. sl_slabs h j = Some u \<and> p \<in> slab_blocks u)" using live [OF that] inv by (auto simp: slab_inv_def)
    then obtain j u where ju: "sl_slabs h j = Some u" "p \<in> slab_blocks u" using i by blast
    show ?thesis
    proof (cases "j = i")
      case True
      then show ?thesis using ju i blocks by (intro exI [of _ i] exI [of _ t]) (simp add: put_slab_def)
    qed (use ju in \<open>intro exI [of _ j] exI [of _ u], simp add: put_slab_def\<close>)
  qed
  have slabs: "j < sl_mapped ?h \<and> slab_ok pages (block_size c) live' w j u \<and> ptr_ok ?h (sl_next u)" if "sl_slabs ?h j = Some u" for j u
    using that others ok t(4) slab_inv_next(1,2) [OF inv] i unfolding ptr by (cases "j = i") (auto simp: put_slab_def)
  have w: "sl_words ?h = w" by (simp add: put_slab_def)
  show ?thesis unfolding slab_inv_def ptr w c'(1) using live' slabs c' inv unfolding ptr by (auto simp: slab_inv_def)
qed

text \<open>What an allocation gives: no block, or one that was not live.\<close>

definition took :: "(nat \<Rightarrow> nat option) \<Rightarrow> nat set \<Rightarrow> (nat option \<times> slab_cache \<times> slab_heap) run \<Rightarrow> bool" where
  "took pages live x \<longleftrightarrow> (\<exists>r c h. x = Inr (r, c, h) \<and> (case r of None \<Rightarrow> slab_inv pages c h live | Some b \<Rightarrow> b \<notin> live \<and> slab_inv pages c h (insert b live)))"

lemma took_simps [simp]:
  "took pages live (Inr (None, c, h)) \<longleftrightarrow> slab_inv pages c h live" "took pages live (Inr (Some b, c, h)) \<longleftrightarrow> b \<notin> live \<and> slab_inv pages c h (insert b live)"
  by (auto simp: took_def)

lemma take_block_keeps:
  assumes ap: "pages_apart pages" and inv: "slab_inv pages c h live" and i: "sl_slabs h i = Some s"
  shows "took pages live (take_block i c h)"
proof (cases "sl_free s")
  case None
  then show ?thesis using i inv by (simp add: take_block_def get_slab_def)
next
  case (Some b)
  note n = slab_inv_next [OF inv i]
  obtain bs where bs: "block_chain (sl_words h) (sl_free s) bs" "distinct bs" "length bs = free_count s" "set bs \<subseteq> slab_blocks s - live" using n(3) by (auto simp: slab_ok_def)
  obtain rest where rest: "bs = b # rest" using bs(1) Some by (cases bs) auto
  have b: "b \<in> slab_blocks s" "b \<notin> live" using bs(4) rest by auto
  let ?t = "\<lambda>nx. s\<lparr>sl_free := sl_words h b, free_count := free_count s - 1, sl_next := nx\<rparr>"
  have ok: "slab_ok pages (block_size c) (insert b live) (sl_words h) i (?t nx)" for nx
  proof -
    have "slab_blocks (?t nx) = slab_blocks s" by (rule slab_blocks_fields) simp_all
    then show ?thesis using n(3) bs rest unfolding slab_ok_def by (intro conjI exI [of _ rest]) auto
  qed
  have others: "slab_ok pages (block_size c) (insert b live) (sl_words h) j u" if "j \<noteq> i" "sl_slabs h j = Some u" for j u
  proof -
    have "b \<notin> slab_blocks u" using slab_blocks_disjoint [OF ap inv i that(2) b(1)] that(1) by blast
    then show ?thesis using slab_inv_next(3) [OF inv that(2)] by (auto simp: slab_ok_def)
  qed
  have upd: "slab_inv pages c' (put_slab i (?t nx) h) (insert b live)"
    if "ptr_ok h nx" "block_size c' = block_size c" "ptr_ok h (partial_list c')" "ptr_ok h (full_list c')" "ptr_ok h (free_list c')" for nx c'
    using slab_inv_update [OF inv i, of "?t nx" "insert b live" "sl_words h" c'] that ok others b by auto
  show ?thesis
  proof (cases "free_count s - 1 = 0")
    case True
    have "take_block i c h = Inr (Some b, c\<lparr>active_objects := active_objects c + 1, full_list := Some i\<rparr>, put_slab i (?t (full_list c)) h)"
      using i Some True by (simp add: take_block_def get_slab_def Let_def)
    then show ?thesis using upd [of "full_list c" "c\<lparr>active_objects := active_objects c + 1, full_list := Some i\<rparr>"] n i b by auto
  next
    case False
    have "take_block i c h = Inr (Some b, c\<lparr>active_objects := active_objects c + 1, partial_list := Some i\<rparr>, put_slab i (?t (partial_list c)) h)"
      using i Some False by (simp add: take_block_def get_slab_def Let_def)
    then show ?thesis using upd [of "partial_list c" "c\<lparr>active_objects := active_objects c + 1, partial_list := Some i\<rparr>"] n i b by auto
  qed
qed

lemma give_block_keeps:
  assumes ap: "pages_apart pages" and inv: "slab_inv pages c h live" and i: "sl_slabs h i = Some s" and p: "p \<in> live" "mem_base s \<le> p" "p < mem_base s + SLAB_SIZE"
  shows "\<exists>c' h'. give_block i p c h = Inr (c', h') \<and> slab_inv pages c' h' (live - {p})"
proof -
  note n = slab_inv_next [OF inv i]
  obtain j u where ju: "sl_slabs h j = Some u" "p \<in> slab_blocks u" using inv p(1) by (auto simp: slab_inv_def)
  have "j = i" by (rule same_slab [OF ap inv ju(1) i ju(2) p(2,3)])
  then have b: "p \<in> slab_blocks s" using ju i by simp
  let ?w = "(sl_words h)(p := sl_free s)"
  let ?t = "\<lambda>nx. s\<lparr>sl_free := Some p, free_count := free_count s + 1, sl_next := nx\<rparr>"
  have ok: "slab_ok pages (block_size c) (live - {p}) ?w i (?t nx)" for nx
  proof -
    obtain bs where bs: "block_chain (sl_words h) (sl_free s) bs" "distinct bs" "length bs = free_count s" "set bs \<subseteq> slab_blocks s - live" using n(3) by (auto simp: slab_ok_def)
    have "p \<notin> set bs" using bs(4) p(1) by auto
    then have "block_chain ?w (sl_free s) bs" by (intro block_chain_frame [OF bs(1)]) auto
    moreover have "slab_blocks (?t nx) = slab_blocks s" by (rule slab_blocks_fields) simp_all
    ultimately show ?thesis using n(3) bs b \<open>p \<notin> set bs\<close> unfolding slab_ok_def by (intro conjI exI [of _ "p # bs"]) auto
  qed
  have others: "slab_ok pages (block_size c) (live - {p}) ?w k u" if ku: "k \<noteq> i" "sl_slabs h k = Some u" for k u
  proof -
    have no: "p \<notin> slab_blocks u" using slab_blocks_disjoint [OF ap inv i ku(2) b] ku(1) by blast
    obtain bs where bs: "block_chain (sl_words h) (sl_free u) bs" "distinct bs" "length bs = free_count u" "set bs \<subseteq> slab_blocks u - live"
      using slab_inv_next(3) [OF inv ku(2)] by (auto simp: slab_ok_def)
    have "block_chain ?w (sl_free u) bs" by (rule block_chain_frame [OF bs(1)]) (use bs(4) no in auto)
    then show ?thesis using slab_inv_next(3) [OF inv ku(2)] bs unfolding slab_ok_def by (intro conjI exI [of _ bs]) auto
  qed
  have upd: "slab_inv pages c' (put_slab i (?t nx) (h\<lparr>sl_words := ?w\<rparr>)) (live - {p})"
    if "ptr_ok h nx" "block_size c' = block_size c" "ptr_ok h (partial_list c')" "ptr_ok h (full_list c')" "ptr_ok h (free_list c')" for nx c'
    using slab_inv_update [OF inv i, of "?t nx" "live - {p}" ?w c'] that ok others by auto
  define c1 where "c1 = (if full_list c = Some i then c\<lparr>full_list := sl_next s\<rparr> else c)"
  define c2 where "c2 = (if partial_list c1 = Some i then c1\<lparr>partial_list := sl_next s\<rparr> else c1)"
  have c2: "block_size c2 = block_size c" "ptr_ok h (partial_list c2)" "ptr_ok h (full_list c2)" "ptr_ok h (free_list c2)"
    using n by (auto simp: c2_def c1_def)
  have "give_block i p c h = (let c = c2\<lparr>active_objects := active_objects c2 - 1\<rparr> in
      if free_count s + 1 = num_blocks s then Inr (c\<lparr>free_list := Some i\<rparr>, put_slab i (?t (free_list c)) (h\<lparr>sl_words := ?w\<rparr>))
      else Inr (c\<lparr>partial_list := Some i\<rparr>, put_slab i (?t (partial_list c)) (h\<lparr>sl_words := ?w\<rparr>)))"
    using i by (simp add: give_block_def get_slab_def Let_def c2_def c1_def put_slab_def)
  then show ?thesis using upd c2 i by (auto simp: Let_def)
qed

lemma link_blocks_chain:
  assumes "0 < bsz"
  shows "case link_blocks base bsz n w of (w', fl) \<Rightarrow> block_chain w' fl (rev (map (\<lambda>j. base + j * bsz) [0..<n])) \<and> (\<forall>a. a \<notin> (\<lambda>j. base + j * bsz) ` {..<n} \<longrightarrow> w' a = w a)"
proof (induction n)
  case 0
  show ?case by (simp add: link_blocks_def)
next
  case (Suc n)
  obtain w' fl where l: "link_blocks base bsz n w = (w', fl)" by fastforce
  have l': "link_blocks base bsz (Suc n) w = (w'(base + n * bsz := fl), Some (base + n * bsz))" using l by (simp add: link_blocks_def)
  let ?bs = "rev (map (\<lambda>j. base + j * bsz) [0..<n])"
  have no: "base + n * bsz \<notin> set ?bs" using assms by auto
  have "\<forall>b \<in> set ?bs. (w'(base + n * bsz := fl)) b = w' b"
  proof
    fix b assume "b \<in> set ?bs"
    then have "b \<noteq> base + n * bsz" using no by blast
    then show "(w'(base + n * bsz := fl)) b = w' b" by simp
  qed
  moreover have c: "block_chain w' fl ?bs" "\<forall>a. a \<notin> (\<lambda>j. base + j * bsz) ` {..<n} \<longrightarrow> w' a = w a" using Suc l by auto
  ultimately have "block_chain (w'(base + n * bsz := fl)) fl ?bs" using block_chain_frame by blast
  then show ?case using c(2) unfolding l' by (auto simp: lessThan_Suc)
qed

lemma add_page_keeps:
  assumes ap: "pages_apart pages" and inv: "slab_inv pages c h live" and granted: "\<forall>i. pages i \<noteq> None"
  shows "\<exists>c' h'. slab_add_page pages ok c h = Inr (c', h') \<and> slab_inv pages c' h' live"
proof (cases "ok (sl_requests h)")
  case False
  then show ?thesis using slab_inv_counters [OF inv, of "sl_mapped h + 1" "sl_requests h + 1"] by (simp add: slab_add_page_def Let_def)
next
  case True
  let ?i = "sl_mapped h" and ?n = "SLAB_SIZE div block_size c"
  obtain base where base: "pages ?i = Some base" using granted by blast
  obtain w fl where l: "link_blocks base (block_size c) ?n (sl_words h) = (w, fl)" by fastforce
  let ?s = "\<lparr>sl_next = free_list c, mem_base = base, sl_block_size = block_size c, num_blocks = ?n, free_count = ?n, sl_free = fl\<rparr>"
  let ?h = "put_slab ?i ?s (h\<lparr>sl_mapped := ?i + 1, sl_requests := sl_requests h + 1, sl_words := w\<rparr>)"
  let ?c = "c\<lparr>free_list := Some ?i, total_objects := total_objects c + int ?n\<rparr>"
  let ?bs = "rev (map (\<lambda>j. base + j * block_size c) [0..<?n])"
  have bsz: "0 < block_size c" using inv by (simp add: slab_inv_def)
  have ch: "block_chain w fl ?bs" "\<And>a. a \<notin> slab_blocks ?s \<Longrightarrow> w a = sl_words h a" using link_blocks_chain [OF bsz, of base ?n "sl_words h"] l by (auto simp: slab_blocks_def)
  have fresh: "sl_slabs h ?i = None" using inv by (metis less_irrefl not_Some_eq slab_inv_next(2))
  have away: "a \<notin> slab_blocks ?s" if a: "sl_slabs h j = Some u" "a \<in> slab_blocks u" for j u a
  proof
    assume "a \<in> slab_blocks ?s"
    then have r: "base \<le> a \<and> a + block_size c \<le> base + SLAB_SIZE" using slab_block_range [of a ?s] by simp
    have u: "slab_ok pages (block_size c) live (sl_words h) j u" "j \<noteq> ?i" using slab_inv_next [OF inv a(1)] by auto
    have "mem_base u \<le> a \<and> a + block_size c \<le> mem_base u + SLAB_SIZE" using slab_block_range [OF a(2)] u by (simp add: slab_ok_def)
    moreover have "base + SLAB_SIZE \<le> mem_base u \<or> mem_base u + SLAB_SIZE \<le> base" using ap u base by (auto simp: pages_apart_def slab_ok_def)
    ultimately show False using r bsz by linarith
  qed
  have ptr: "ptr_ok h p \<Longrightarrow> ptr_ok ?h p" for p using fresh by (auto simp: ptr_ok_def put_slab_def split: option.splits)
  have live: "\<exists>j u. sl_slabs ?h j = Some u \<and> p \<in> slab_blocks u" if p: "p \<in> live" for p
  proof -
    obtain j u where "sl_slabs h j = Some u" "p \<in> slab_blocks u" using inv p by (auto simp: slab_inv_def)
    moreover then have "j \<noteq> ?i" using fresh by auto
    ultimately show ?thesis by (intro exI [of _ j] exI [of _ u]) (simp add: put_slab_def)
  qed
  have new: "slab_ok pages (block_size c) live w ?i ?s"
  proof -
    have "distinct ?bs" using bsz by (simp add: distinct_map inj_on_def)
    moreover have "set ?bs = slab_blocks ?s" by (auto simp: slab_blocks_def)
    moreover have "slab_blocks ?s \<inter> live = {}" using inv away by (auto simp: slab_inv_def)
    ultimately show ?thesis using ch(1) base unfolding slab_ok_def by (intro conjI exI [of _ ?bs]) auto
  qed
  have old: "slab_ok pages (block_size c) live w j u" if su: "sl_slabs h j = Some u" for j u
  proof -
    obtain bs where bs: "block_chain (sl_words h) (sl_free u) bs" "distinct bs" "length bs = free_count u" "set bs \<subseteq> slab_blocks u - live"
      using slab_inv_next(3) [OF inv su] by (auto simp: slab_ok_def)
    have "block_chain w (sl_free u) bs" by (rule block_chain_frame [OF bs(1)]) (use bs(4) ch(2) away [OF su] in blast)
    then show ?thesis using slab_inv_next(3) [OF inv su] bs unfolding slab_ok_def by (intro conjI exI [of _ bs]) auto
  qed
  have slabs: "j < sl_mapped ?h \<and> slab_ok pages (block_size c) live w j u \<and> ptr_ok ?h (sl_next u)" if "sl_slabs ?h j = Some u" for j u
  proof (cases "j = ?i")
    case True
    then show ?thesis using that new ptr inv by (auto simp: put_slab_def slab_inv_def)
  next
    case False
    then have "sl_slabs h j = Some u" using that by (simp add: put_slab_def)
    then show ?thesis using old slab_inv_next(1,2) [OF inv] ptr by (force simp: put_slab_def)
  qed
  have "sl_slabs ?h ?i \<noteq> None" "sl_words ?h = w" by (simp_all add: put_slab_def)
  then have "slab_inv pages ?c ?h live" unfolding slab_inv_def using live slabs bsz ptr inv by (auto simp: slab_inv_def)
  moreover have "slab_add_page pages ok c h = Inr (?c, ?h)" using True base l by (simp add: slab_add_page_def Let_def)
  ultimately show ?thesis by blast
qed

lemma alloc_keeps:
  assumes ap: "pages_apart pages" and inv: "slab_inv pages c h live" and granted: "\<forall>i. pages i \<noteq> None"
  shows "took pages live (SNEPPX_slab_cache_alloc pages ok c h)"
proof (cases "if partial_list c = None then free_list c else partial_list c")
  case None
  obtain c1 h1 where a: "slab_add_page pages ok c h = Inr (c1, h1)" "slab_inv pages c1 h1 live" using add_page_keeps [OF ap inv granted] by blast
  show ?thesis
  proof (cases "free_list c1")
    case None
    then show ?thesis using \<open>(if partial_list c = None then free_list c else partial_list c) = None\<close> a by (simp add: SNEPPX_slab_cache_alloc_def)
  next
    case (Some i)
    then obtain s where s: "sl_slabs h1 i = Some s" using a(2) by (auto simp: slab_inv_def)
    let ?c = "c1\<lparr>free_list := sl_next s\<rparr>"
    have "slab_inv pages ?c h1 live" using slab_inv_next [OF a(2) s] by (intro slab_inv_lists [OF a(2)]) simp_all
    note t = take_block_keeps [OF ap this s]
    have "SNEPPX_slab_cache_alloc pages ok c h = take_block i ?c h1"
      unfolding SNEPPX_slab_cache_alloc_def using \<open>(if partial_list c = None then free_list c else partial_list c) = None\<close> a(1) Some s by (simp add: get_slab_def)
    then show ?thesis using t by simp
  qed
next
  case (Some i)
  then have "ptr_ok h (Some i)" using inv by (auto simp: slab_inv_def split: if_splits)
  then obtain s where s: "sl_slabs h i = Some s" by auto
  define c1 where "c1 = (if free_list c = Some i then c\<lparr>free_list := sl_next s\<rparr> else c)"
  define c2 where "c2 = (if partial_list c1 = Some i then c1\<lparr>partial_list := sl_next s\<rparr> else c1)"
  have "slab_inv pages c2 h live" using slab_inv_next [OF inv s] by (intro slab_inv_lists [OF inv]) (auto simp: c2_def c1_def)
  note t = take_block_keeps [OF ap this s]
  have "SNEPPX_slab_cache_alloc pages ok c h = take_block i c2 h"
    unfolding SNEPPX_slab_cache_alloc_def c2_def c1_def using Some s by (simp add: get_slab_def Let_def)
  then show ?thesis using t by simp
qed

lemma find_slab_sound:
  assumes "find_slab h p q = Some r" "\<forall>i s. sl_slabs h i = Some s \<longrightarrow> ptr_ok h (sl_next s)" "ptr_ok h q"
  shows "r = Inr None \<or> (\<exists>i s. r = Inr (Some i) \<and> sl_slabs h i = Some s \<and> mem_base s \<le> p \<and> p < mem_base s + SLAB_SIZE)"
proof -
  have "(\<forall>i s. sl_slabs h i = Some s \<longrightarrow> ptr_ok h (sl_next s)) \<longrightarrow> ptr_ok h q \<longrightarrow>
    r = Inr None \<or> (\<exists>i s. r = Inr (Some i) \<and> sl_slabs h i = Some s \<and> mem_base s \<le> p \<and> p < mem_base s + SLAB_SIZE)"
  proof (rule find_slab.raw_induct [OF _ assms(1)], intro impI, goal_cases)
    case (1 f h p q r)
    show ?case
    proof (cases q)
      case (Some i)
      then obtain s where s: "sl_slabs h i = Some s" using 1(4) by auto
      then show ?thesis using 1 Some by (auto split: if_splits)
    qed (use 1(2) in simp)
  qed
  then show ?thesis using assms(2,3) by blast
qed

lemma free_keeps:
  assumes ap: "pages_apart pages" and inv: "slab_inv pages c h live" and p: "p \<in> live" and r: "SNEPPX_slab_cache_free (Some p) c h = Some r"
  shows "\<exists>c' h'. r = Inr (c', h') \<and> slab_inv pages c' h' (live - {p})"
proof -
  have nx: "\<forall>i s. sl_slabs h i = Some s \<longrightarrow> ptr_ok h (sl_next s)" and l: "ptr_ok h (full_list c)" "ptr_ok h (partial_list c)" using inv by (auto simp: slab_inv_def)
  have give: "\<exists>c' h'. give_block i p c h = Inr (c', h') \<and> slab_inv pages c' h' (live - {p})"
    if "sl_slabs h i = Some s" "mem_base s \<le> p" "p < mem_base s + SLAB_SIZE" for i s using give_block_keeps [OF ap inv that(1) p that(2,3)] .
  have lost: "slab_inv pages c h (live - {p})"
  proof -
    have "slab_ok pages (block_size c) (live - {p}) (sl_words h) i s" if "sl_slabs h i = Some s" for i s
      using slab_inv_next(3) [OF inv that] by (auto simp: slab_ok_def)
    then show ?thesis using inv by (auto simp: slab_inv_def)
  qed
  obtain r1 where r1: "find_slab h p (full_list c) = Some r1" using r by (auto simp: SNEPPX_slab_cache_free_def split: option.splits)
  show ?thesis
  proof (cases "r1 = Inr None")
    case True
    obtain r2 where r2: "find_slab h p (partial_list c) = Some r2" using r r1 True by (auto simp: SNEPPX_slab_cache_free_def split: option.splits)
    have rr: "r = (case r2 of Inl e \<Rightarrow> Inl e | Inr (Some i) \<Rightarrow> give_block i p c h | Inr None \<Rightarrow> Inr (c, h))"
      using r r1 r2 True by (auto simp: SNEPPX_slab_cache_free_def split: sum.splits option.splits)
    from find_slab_sound [OF r2 nx l(2)] show ?thesis using rr give lost by (elim disjE exE conjE) (simp, metis (mono_tags, lifting) old.sum.simps(6) option.simps(5))
  next
    case False
    then obtain i s where i: "r1 = Inr (Some i)" "sl_slabs h i = Some s" "mem_base s \<le> p" "p < mem_base s + SLAB_SIZE" using find_slab_sound [OF r1 nx l(1)] by blast
    then have "r = give_block i p c h" using r r1 by (simp add: SNEPPX_slab_cache_free_def)
    then show ?thesis using give i by blast
  qed
qed

section \<open>Histories\<close>

text \<open>What a client does with a cache: it allocates, releases blocks it holds and writes to them. \<open>live\<close> are the blocks it holds.\<close>

type_synonym slab_state = "slab_cache \<times> slab_heap \<times> nat set"

inductive slab_reach :: "(nat \<Rightarrow> nat option) \<Rightarrow> alloc_outcome \<Rightarrow> slab_state \<Rightarrow> bool" for pages ok where
  created: "SNEPPX_slab_cache_create pages ok bsz alignment \<lparr>sl_slabs = Map.empty, sl_words = w, sl_mapped = 0, sl_requests = 0\<rparr> = Inr (0, Some c, h) \<Longrightarrow>
    slab_reach pages ok (c, h, {})"
| allocated: "slab_reach pages ok (c, h, live) \<Longrightarrow> SNEPPX_slab_cache_alloc pages ok c h = Inr (Some b, c', h') \<Longrightarrow> slab_reach pages ok (c', h', insert b live)"
| refused: "slab_reach pages ok (c, h, live) \<Longrightarrow> SNEPPX_slab_cache_alloc pages ok c h = Inr (None, c', h') \<Longrightarrow> slab_reach pages ok (c', h', live)"
| freed: "slab_reach pages ok (c, h, live) \<Longrightarrow> p \<in> live \<Longrightarrow> SNEPPX_slab_cache_free (Some p) c h = Some (Inr (c', h')) \<Longrightarrow> slab_reach pages ok (c', h', live - {p})"
| written: "slab_reach pages ok (c, h, live) \<Longrightarrow> p \<in> live \<Longrightarrow> slab_reach pages ok (c, h\<lparr>sl_words := (sl_words h)(p := v)\<rparr>, live)"

lemma create_inv:
  assumes "pages_apart pages" "\<forall>i. pages i \<noteq> None"
    "SNEPPX_slab_cache_create pages ok bsz alignment \<lparr>sl_slabs = Map.empty, sl_words = w, sl_mapped = 0, sl_requests = 0\<rparr> = Inr (0, Some c, h)"
  shows "slab_inv pages c h {}"
proof -
  let ?n = "unat (round_block bsz alignment)"
  let ?c = "\<lparr>block_size = ?n, blocks_per_slab = SLAB_SIZE div ?n, partial_list = None, full_list = None, free_list = None, active_objects = 0, total_objects = 0\<rparr>"
  let ?h = "\<lparr>sl_slabs = Map.empty, sl_words = w, sl_mapped = 0, sl_requests = 1\<rparr> :: slab_heap"
  have n: "0 < ?n" "slab_add_page pages ok ?c ?h = Inr (c, h)"
    using assms(3) by (auto simp: SNEPPX_slab_cache_create_def Let_def bind_run_eq_Inr split: if_splits)
  have "slab_inv pages ?c ?h {}" using n(1) by (simp add: slab_inv_def)
  from add_page_keeps [OF assms(1) this assms(2), of ok] show ?thesis using n(2) by auto
qed

lemma reach_inv:
  assumes "pages_apart pages" "\<forall>i. pages i \<noteq> None" "slab_reach pages ok (c, h, live)"
  shows "slab_inv pages c h live"
  using assms(3)
proof (induction "(c, h, live)" arbitrary: c h live)
  case (created bsz alignment w c h)
  then show ?case by (rule create_inv [OF assms(1,2)])
next
  case (allocated c h live b c' h')
  then show ?case using alloc_keeps [OF assms(1) allocated(2) assms(2), of ok] by simp
next
  case (refused c h live c' h')
  then show ?case using alloc_keeps [OF assms(1) refused(2) assms(2), of ok] by simp
next
  case (freed c h live p c' h')
  then show ?case using free_keeps [OF assms(1) freed(2,3,4)] by auto
next
  case (written c h live p v)
  have "slab_ok pages (block_size c) live ((sl_words h)(p := v)) i s" if su: "sl_slabs h i = Some s" for i s
  proof -
    obtain bs where bs: "block_chain (sl_words h) (sl_free s) bs" "distinct bs" "length bs = free_count s" "set bs \<subseteq> slab_blocks s - live"
      using slab_inv_next(3) [OF written(2) su] unfolding slab_ok_def by blast
    have "block_chain ((sl_words h)(p := v)) (sl_free s) bs" by (rule block_chain_frame [OF bs(1)]) (use bs(4) written(3) in auto)
    then show ?thesis using slab_inv_next(3) [OF written(2) su] bs unfolding slab_ok_def by (intro conjI exI [of _ bs]) auto
  qed
  moreover have "ptr_ok (h\<lparr>sl_words := (sl_words h)(p := v)\<rparr>) q = ptr_ok h q" for q by (simp add: ptr_ok_def split: option.split)
  ultimately show ?case using written(2) by (simp add: slab_inv_def)
qed

text \<open>
  C35. Blocks are never handed out twice by a cache that is never collected. Where \<open>mmap\<close> never fails and grants mappings that do not overlap, whatever a client did before with a cache it
  created, allocating, releasing blocks it holds and writing to them, all directly, without \<open>SNEPPX_slab_cache_gc\<close> and without local caches, an allocation runs without a fault, and a block
  it returns is not one the client holds: it does not overlap any of those, so that writing to it leaves them alone. Requests for the records of slabs may be refused. This holds although releasing a
  block can leave the lists of slabs tangled; a collection then makes them lead to released slabs, which is why it is left out.
\<close>

theorem slab_alloc_fresh:
  assumes "pages_apart pages" "\<forall>i. pages i \<noteq> None" "slab_reach pages ok (c, h, live)"
  shows "\<exists>r c' h'. SNEPPX_slab_cache_alloc pages ok c h = Inr (r, c', h') \<and>
    (\<forall>b. r = Some b \<longrightarrow> b \<notin> live \<and> (\<forall>p \<in> live. b + block_size c' \<le> p \<or> p + block_size c' \<le> b))"
proof -
  have inv: "slab_inv pages c h live" by (rule reach_inv [OF assms])
  obtain r c' h' where a: "SNEPPX_slab_cache_alloc pages ok c h = Inr (r, c', h')"
    "case r of None \<Rightarrow> slab_inv pages c' h' live | Some b \<Rightarrow> b \<notin> live \<and> slab_inv pages c' h' (insert b live)"
    using alloc_keeps [OF assms(1) inv assms(2), of ok] unfolding took_def by blast
  have "b + block_size c' \<le> p \<or> p + block_size c' \<le> b" if r: "r = Some b" and p: "p \<in> live" for b p
  proof -
    have i: "slab_inv pages c' h' (insert b live)" and b: "b \<noteq> p" using a(2) r p by auto
    obtain j u k v where "sl_slabs h' j = Some u" "b \<in> slab_blocks u" "sl_slabs h' k = Some v" "p \<in> slab_blocks v" using i p by (auto simp: slab_inv_def)
    then show ?thesis using blocks_apart [OF assms(1) i] b by blast
  qed
  then show ?thesis using a by auto
qed

text \<open>Mappings one behind the other, with blocks of half a slab.\<close>

lemma link_two: "link_blocks base bsz 2 w = (w(base := None, base + bsz := Some base), Some (base + bsz))"
  by (simp add: link_blocks_def numeral_2_eq_2)

theorem slab_alloc_fresh_witness:
  "\<exists>c h c' h'. slab_reach (\<lambda>i. Some (i * SLAB_SIZE)) (\<lambda>_. True) (c, h, {524288}) \<and>
    SNEPPX_slab_cache_alloc (\<lambda>i. Some (i * SLAB_SIZE)) (\<lambda>_. True) c h = Inr (Some 0, c', h') \<and> 0 + block_size c' \<le> 524288"
proof -
  let ?p = "\<lambda>i. Some (i * SLAB_SIZE)"
  let ?h = "\<lparr>sl_slabs = Map.empty, sl_words = (\<lambda>_. None), sl_mapped = 0, sl_requests = 0\<rparr> :: slab_heap"
  have ap: "pages_apart ?p"
  proof -
    have "i * SLAB_SIZE + SLAB_SIZE \<le> j * SLAB_SIZE" if "i < j" for i j using mult_le_mono1 [of "i + 1" j SLAB_SIZE] that by simp
    then show ?thesis unfolding pages_apart_def by (metis linorder_neqE_nat option.inject)
  qed
  obtain c h where ch: "SNEPPX_slab_cache_create ?p (\<lambda>_. True) 524288 0 ?h = Inr (0, Some c, h)" "\<exists>c' h'. SNEPPX_slab_cache_alloc ?p (\<lambda>_. True) c h = Inr (Some 524288, c', h') \<and>
      (\<exists>c2 h2. SNEPPX_slab_cache_alloc ?p (\<lambda>_. True) c' h' = Inr (Some 0, c2, h2) \<and> block_size c2 = 524288)"
    unfolding SNEPPX_slab_cache_create_def
    by (simp add: round_block_def slab_add_page_def SLAB_SIZE_def link_two put_slab_def SNEPPX_slab_cache_alloc_def get_slab_def take_block_def)
  then obtain c1 h1 c2 h2 where a: "SNEPPX_slab_cache_alloc ?p (\<lambda>_. True) c h = Inr (Some 524288, c1, h1)" "SNEPPX_slab_cache_alloc ?p (\<lambda>_. True) c1 h1 = Inr (Some 0, c2, h2)"
    by blast
  have r: "slab_reach ?p (\<lambda>_. True) (c1, h1, {524288})" by (rule slab_reach.allocated [OF slab_reach.created [OF ch(1)] a(1), simplified])
  from slab_alloc_fresh [OF ap _ r] a(2) have "0 + block_size c2 \<le> 524288" by auto
  then show ?thesis using r a(2) by blast
qed

text \<open>A list of calls, run one after the other; a block that is not granted ends it.\<close>

datatype slab_call = Alloc_Block | Free_Block nat | Collect

fun slab_calls :: "(nat \<Rightarrow> nat option) \<Rightarrow> alloc_outcome \<Rightarrow> slab_call list \<Rightarrow> slab_cache \<times> slab_heap \<Rightarrow> (slab_cache \<times> slab_heap) run option" where
  "slab_calls pages ok [] s = Some (Inr s)"
| "slab_calls pages ok (Alloc_Block # cs) (c, h) = (case SNEPPX_slab_cache_alloc pages ok c h of Inl e \<Rightarrow> Some (Inl e) | Inr (r, c, h) \<Rightarrow> slab_calls pages ok cs (c, h))"
| "slab_calls pages ok (Free_Block p # cs) (c, h) = (case SNEPPX_slab_cache_free (Some p) c h of Some (Inr s) \<Rightarrow> slab_calls pages ok cs s | r \<Rightarrow> r)"
| "slab_calls pages ok (Collect # cs) (c, h) = (case SNEPPX_slab_cache_gc c h of Some (Inr s) \<Rightarrow> slab_calls pages ok cs s | r \<Rightarrow> r)"

definition slab_session :: "u64 \<Rightarrow> slab_call list \<Rightarrow> (slab_cache \<times> slab_heap) run option" where
  "slab_session bsz cs =
     (case SNEPPX_slab_cache_create (\<lambda>i. Some (i * SLAB_SIZE)) (\<lambda>_. True) bsz 0 \<lparr>sl_slabs = Map.empty, sl_words = (\<lambda>_. None), sl_mapped = 0, sl_requests = 0\<rparr> of
        Inr (_, Some c, h) \<Rightarrow> slab_calls (\<lambda>i. Some (i * SLAB_SIZE)) (\<lambda>_. True) cs (c, h)
      | Inr (_, None, _) \<Rightarrow> None
      | Inl e \<Rightarrow> Some (Inl e))"

definition fault_of :: "'a run option \<Rightarrow> fault option" where
  "fault_of r = (case r of Some (Inl e) \<Rightarrow> Some e | _ \<Rightarrow> None)"

lemma find_slab_steps:
  "find_slab h ptr None = Some (Inr None)"
  "find_slab h ptr (Some i) = (case sl_slabs h i of None \<Rightarrow> Some (Inl Use_After_Free)
     | Some s \<Rightarrow> if mem_base s \<le> ptr \<and> ptr < mem_base s + SLAB_SIZE then Some (Inr (Some i)) else find_slab h ptr (sl_next s))"
  by (subst find_slab.simps, simp)+

lemma gc_loop_steps:
  "gc_loop prev None ch = Some (Inr ch)"
  "gc_loop prev (Some i) ch = (case sl_slabs (snd ch) i of None \<Rightarrow> Some (Inl Use_After_Free)
     | Some s \<Rightarrow>
         if free_count s = num_blocks s
         then (case set_next prev (sl_next s) ch of
                 Inl e \<Rightarrow> Some (Inl e)
               | Inr ch \<Rightarrow> gc_loop prev (sl_next s) ((fst ch)\<lparr>total_objects := total_objects (fst ch) - int (num_blocks s)\<rparr>, (snd ch)\<lparr>sl_slabs := (sl_slabs (snd ch))(i := None)\<rparr>))
         else gc_loop (Some i) (sl_next s) ch)"
  by (subst gc_loop.simps, simp)+

text \<open>
  Collecting empty slabs breaks a cache. With two blocks to a slab, after four allocations, three releases of blocks the client holds and one collection, the second of two further
  allocations follows the list of partly used slabs to a slab that was given back: releasing a block of a slab that is not the first of its list leaves the slab on that list.
\<close>

theorem slab_gc_use_after_free:
  "fault_of (slab_session 524288 [Alloc_Block, Alloc_Block, Alloc_Block, Alloc_Block, Free_Block 524288, Free_Block 1572864, Free_Block 0, Collect, Alloc_Block, Alloc_Block]) =
     Some Use_After_Free"
  unfolding slab_session_def SNEPPX_slab_cache_create_def
  by (simp add: round_block_def slab_add_page_def SLAB_SIZE_def link_two put_slab_def SNEPPX_slab_cache_alloc_def get_slab_def take_block_def
      SNEPPX_slab_cache_free_def find_slab_steps give_block_def SNEPPX_slab_cache_gc_def gc_loop_steps set_next_def fault_of_def)

section \<open>Blocks of the small caches\<close>

text \<open>The blocks in a small cache are allocated from its parent and not held by the client.\<close>

definition local_inv :: "(nat \<Rightarrow> nat option) \<Rightarrow> slab_local \<Rightarrow> slab_heap \<Rightarrow> nat set \<Rightarrow> bool" where
  "local_inv pages l h held \<longleftrightarrow> slab_inv pages (l_parent l) h (held \<union> set (free_blocks l)) \<and> distinct (free_blocks l) \<and> held \<inter> set (free_blocks l) = {} \<and> length (free_blocks l) \<le> 32"

lemma local_alloc_keeps:
  assumes ap: "pages_apart pages" "\<forall>i. pages i \<noteq> None" and inv: "local_inv pages l h held"
  shows "\<exists>r l' h'. SNEPPX_slab_local_alloc pages ok l h = Inr (r, l', h') \<and>
    (case r of None \<Rightarrow> local_inv pages l' h' held | Some b \<Rightarrow> b \<notin> held \<and> local_inv pages l' h' (insert b held))"
proof (cases "free_blocks l" rule: rev_cases)
  case (snoc bs b)
  then show ?thesis using inv by (auto simp: SNEPPX_slab_local_alloc_def local_inv_def)
next
  case Nil
  then have "slab_inv pages (l_parent l) h held" using inv by (simp add: local_inv_def)
  then obtain r c h' where a: "SNEPPX_slab_cache_alloc pages ok (l_parent l) h = Inr (r, c, h')"
    "case r of None \<Rightarrow> slab_inv pages c h' held | Some b \<Rightarrow> b \<notin> held \<and> slab_inv pages c h' (insert b held)"
    using alloc_keeps [OF ap(1) _ ap(2), of "l_parent l" h held ok] unfolding took_def by blast
  show ?thesis using Nil a by (intro exI [of _ r] exI [of _ "l\<lparr>l_parent := c\<rparr>"] exI [of _ h']) (cases r, auto simp: SNEPPX_slab_local_alloc_def local_inv_def)
qed

lemma local_free_keeps:
  assumes ap: "pages_apart pages" and inv: "local_inv pages l h held" and p: "p \<in> held" and r: "SNEPPX_slab_local_free (Some p) l h = Some x"
  shows "\<exists>l' h'. x = Inr (l', h') \<and> local_inv pages l' h' (held - {p})"
proof (cases "length (free_blocks l) < 32")
  case True
  have "held - {p} \<union> set (free_blocks l @ [p]) = held \<union> set (free_blocks l)" using p by auto
  moreover have "p \<notin> set (free_blocks l)" using inv p by (auto simp: local_inv_def)
  ultimately show ?thesis using True r inv p by (auto simp: SNEPPX_slab_local_free_def local_inv_def insert_absorb)
next
  case False
  then obtain y where y: "SNEPPX_slab_cache_free (Some p) (l_parent l) h = Some y" "x = bind_run y (\<lambda>(c, h). Inr (l\<lparr>l_parent := c\<rparr>, h))"
    using r by (auto simp: SNEPPX_slab_local_free_def)
  have "slab_inv pages (l_parent l) h (held \<union> set (free_blocks l))" "p \<in> held \<union> set (free_blocks l)" using inv p by (auto simp: local_inv_def)
  from free_keeps [OF ap this y(1)] obtain c h' where c: "y = Inr (c, h')" "slab_inv pages c h' (held \<union> set (free_blocks l) - {p})" by blast
  moreover have "held \<union> set (free_blocks l) - {p} = (held - {p}) \<union> set (free_blocks l)" using inv p by (auto simp: local_inv_def)
  ultimately show ?thesis using y(2) inv by (auto simp: local_inv_def)
qed

end
