(* ===== verification/Bignum.thy ===== *)
theory Bignum
  imports Bytes
begin

text \<open>
  Numbers of up to 128 words, \<open>security/crypto/c/bignum.c\<close>, in the variant with 128-bit products.

  A number is the record of the code: an array of 128 words of which the first \<open>bn_used\<close> count, lowest first, and a sign that no operation sets. The functions
  named \<open>bn_*\<close> are the bodies of those named \<open>SNEPPX_bn_*\<close>, on objects; the latter take pointers and answer as the code does when one is \<open>NULL\<close>. Bodies
  read the operands before the result of the same index is written, so that results may be operands. The array index \<open>i\<close> is below 128 for all numbers with
  \<open>bn_used \<le> 128\<close>, except where a definition tests it: there the code leaves its arrays, which is the fault \<open>Out_Of_Bounds\<close>.
\<close>

type_synonym u128 = "128 word"

definition BN_MAX_WORDS :: nat where "BN_MAX_WORDS = 128"

record big_num =
  bn_words :: "u64 list"
  bn_used :: nat
  bn_sign :: int

section \<open>Making and reading numbers\<close>

definition bn_zero :: big_num where
  "bn_zero = \<lparr>bn_words = replicate BN_MAX_WORDS 0, bn_used = 0, bn_sign = 0\<rparr>"

definition SNEPPX_bn_init :: "big_num option \<Rightarrow> big_num option" where
  "SNEPPX_bn_init bn = map_option (\<lambda>_. bn_zero) bn"

definition SNEPPX_bn_zero :: "big_num option \<Rightarrow> big_num option" where
  "SNEPPX_bn_zero bn = map_option (\<lambda>_. bn_zero) bn"

definition bn_set_word :: "u64 \<Rightarrow> big_num" where
  "bn_set_word x = \<lparr>bn_words = (replicate BN_MAX_WORDS 0)[0 := x], bn_used = 1, bn_sign = 0\<rparr>"

definition SNEPPX_bn_set_word :: "big_num option \<Rightarrow> u64 \<Rightarrow> int \<times> big_num option" where
  "SNEPPX_bn_set_word bn x = (case bn of None \<Rightarrow> (- 1, None) | Some _ \<Rightarrow> (0, Some (bn_set_word x)))"

text \<open>The loop \<open>while (used > 0 && !words[used-1]) used--\<close>.\<close>

fun trim :: "u64 list \<Rightarrow> nat \<Rightarrow> nat" where
  "trim ws 0 = 0"
| "trim ws (Suc n) = (if ws ! n = 0 then trim ws n else Suc n)"

definition trim1 :: "u64 list \<Rightarrow> nat \<Rightarrow> nat" where
  "trim1 ws n = (if trim ws n = 0 then 1 else trim ws n)"

text \<open>The loop over the bytes, last first, with the word and the byte in it that is filled next.\<close>

fun fill_words :: "bytes \<Rightarrow> nat \<Rightarrow> nat \<Rightarrow> u64 list \<Rightarrow> nat \<times> u64 list" where
  "fill_words [] wi bi ws = (wi, ws)"
| "fill_words (b # bs) wi bi ws =
     (let ws = ws[wi := ws ! wi OR push_bit (bi * 8) (ucast b)] in
      if bi + 1 = 8 then if wi + 1 \<ge> BN_MAX_WORDS then (wi + 1, ws) else fill_words bs (wi + 1) 0 ws
      else fill_words bs wi (bi + 1) ws)"

text \<open>When the last word is full the loop leaves with \<open>wi\<close> behind the array, and the search for the highest word reads there.\<close>

definition bn_set_array :: "bytes \<Rightarrow> big_num run" where
  "bn_set_array bs =
     (let (wi, ws) = fill_words (rev bs) 0 0 (replicate BN_MAX_WORDS 0) in
      if wi + 1 > BN_MAX_WORDS then Inl Out_Of_Bounds
      else Inr \<lparr>bn_words = ws, bn_used = trim1 ws (wi + 1), bn_sign = 0\<rparr>)"

definition SNEPPX_bn_set_array :: "big_num option \<Rightarrow> bytes option \<Rightarrow> (int \<times> big_num option) run" where
  "SNEPPX_bn_set_array bn bs =
     (case (bn, bs) of (Some _, Some bs) \<Rightarrow> bind_run (bn_set_array bs) (\<lambda>r. Inr (0, Some r)) | _ \<Rightarrow> Inr (- 1, bn))"

text \<open>
  The bytes of the words, highest first, as far as they fit; the first byte is written before the room is looked at. The result is the buffer and the
  number of bytes written.
\<close>

definition bn_to_array :: "big_num \<Rightarrow> bytes \<Rightarrow> nat \<Rightarrow> (bytes \<times> nat) run" where
  "bn_to_array bn out out_len =
     (let bs = take (max 1 out_len) (concat (map be64_bytes (rev (take (bn_used bn) (bn_words bn))))) in
      if length bs \<le> length out then Inr (bs @ drop (length bs) out, length bs) else Inl Out_Of_Bounds)"

definition SNEPPX_bn_to_array :: "big_num option \<Rightarrow> bytes option \<Rightarrow> nat option \<Rightarrow> (bytes option \<times> nat option) run" where
  "SNEPPX_bn_to_array bn out out_len =
     (case (bn, out, out_len) of (Some a, Some bs, Some n) \<Rightarrow> bind_run (bn_to_array a bs n) (\<lambda>(bs, n). Inr (Some bs, Some n)) | _ \<Rightarrow> Inr (out, out_len))"

definition SNEPPX_bn_copy :: "big_num option \<Rightarrow> big_num option \<Rightarrow> int \<times> big_num option" where
  "SNEPPX_bn_copy dst src = (case (dst, src) of (Some _, Some a) \<Rightarrow> (0, Some a) | _ \<Rightarrow> (- 1, dst))"

definition bn_is_zero :: "big_num \<Rightarrow> bool" where
  "bn_is_zero a \<longleftrightarrow> bn_used a = 1 \<and> bn_words a ! 0 = 0"

definition bn_is_one :: "big_num \<Rightarrow> bool" where
  "bn_is_one a \<longleftrightarrow> bn_used a = 1 \<and> bn_words a ! 0 = 1"

definition SNEPPX_bn_is_zero :: "big_num option \<Rightarrow> bool" where
  "SNEPPX_bn_is_zero a = (case a of None \<Rightarrow> False | Some a \<Rightarrow> bn_is_zero a)"

definition SNEPPX_bn_is_one :: "big_num option \<Rightarrow> bool" where
  "SNEPPX_bn_is_one a = (case a of None \<Rightarrow> False | Some a \<Rightarrow> bn_is_one a)"

text \<open>Comparison of the words below \<open>n\<close>, highest first.\<close>

fun cmp_words :: "nat \<Rightarrow> u64 list \<Rightarrow> u64 list \<Rightarrow> int" where
  "cmp_words 0 x y = 0"
| "cmp_words (Suc n) x y = (if x ! n > y ! n then 1 else if x ! n < y ! n then - 1 else cmp_words n x y)"

definition bn_cmp :: "big_num \<Rightarrow> big_num \<Rightarrow> int" where
  "bn_cmp a b =
     (if bn_used a > bn_used b then 1 else if bn_used a < bn_used b then - 1
      else cmp_words (bn_used a) (bn_words a) (bn_words b))"

definition SNEPPX_bn_cmp :: "big_num option \<Rightarrow> big_num option \<Rightarrow> int" where
  "SNEPPX_bn_cmp a b = (case (a, b) of (Some a, Some b) \<Rightarrow> bn_cmp a b | _ \<Rightarrow> - 2)"

definition bn_cmp_word :: "big_num \<Rightarrow> u64 \<Rightarrow> int" where
  "bn_cmp_word a b = (if bn_used a > 1 then 1 else if bn_words a ! 0 > b then 1 else if bn_words a ! 0 < b then - 1 else 0)"

definition SNEPPX_bn_cmp_word :: "big_num option \<Rightarrow> u64 \<Rightarrow> int" where
  "SNEPPX_bn_cmp_word a b = (case a of None \<Rightarrow> - 2 | Some a \<Rightarrow> bn_cmp_word a b)"

section \<open>Addition, subtraction, multiplication\<close>

text \<open>A word of an operand, zero above its length.\<close>

definition word_of :: "big_num \<Rightarrow> nat \<Rightarrow> u64" where
  "word_of a i = (if i < bn_used a then bn_words a ! i else 0)"

definition add_round :: "big_num \<Rightarrow> big_num \<Rightarrow> nat \<Rightarrow> u64 list \<times> u64 \<Rightarrow> u64 list \<times> u64" where
  "add_round a b i = (\<lambda>(ws, carry).
     let av = word_of a i; bv = word_of b i; s = av + carry; c = (if s < av then 1 else 0); s = s + bv; c = (if s < bv then 1 else c) in
     (ws[i := s], c))"

definition bn_add :: "big_num \<Rightarrow> big_num \<Rightarrow> big_num \<Rightarrow> int \<times> big_num" where
  "bn_add r a b =
     (let n = (if bn_used a > bn_used b then bn_used a else bn_used b);
          (ws, carry) = fold (add_round a b) [0..<n] (bn_words r, 0) in
      if carry \<noteq> 0
      then if n \<ge> BN_MAX_WORDS then (- 1, r\<lparr>bn_words := ws\<rparr>) else (0, r\<lparr>bn_words := ws[n := 1], bn_used := n + 1\<rparr>)
      else (0, r\<lparr>bn_words := ws, bn_used := n\<rparr>))"

definition sub_round :: "big_num \<Rightarrow> big_num \<Rightarrow> nat \<Rightarrow> u64 list \<times> u64 \<Rightarrow> u64 list \<times> u64" where
  "sub_round bg sm i = (\<lambda>(ws, borrow).
     let av = bn_words bg ! i; bv = word_of sm i; t = av - borrow; nb = (if t > av then 1 else 0); d = t - bv; nb = (if d > t then 1 else nb) in
     (ws[i := d], nb))"

definition bn_sub :: "big_num \<Rightarrow> big_num \<Rightarrow> big_num \<Rightarrow> int \<times> big_num" where
  "bn_sub r a b =
     (let c = bn_cmp a b in
      if c = 0 then (0, bn_zero)
      else let bg = (if c > 0 then a else b); sm = (if c > 0 then b else a);
               (ws, _) = fold (sub_round bg sm) [0..<bn_used bg] (bn_words r, 0); n = trim ws (bn_used bg) in
        (0, \<lparr>bn_words = (if n = 0 then ws[0 := 0] else ws), bn_used = (if n = 0 then 1 else n), bn_sign = 0\<rparr>))"

definition mul_word_round :: "u64 \<Rightarrow> nat \<Rightarrow> u64 list \<times> u64 \<Rightarrow> u64 list \<times> u64" where
  "mul_word_round w i = (\<lambda>(ws, carry).
     let prod = (ucast (ws ! i) * ucast w + ucast carry :: u128) in (ws[i := ucast prod], ucast (drop_bit 64 prod)))"

definition bn_mul_word :: "big_num \<Rightarrow> u64 \<Rightarrow> int \<times> big_num" where
  "bn_mul_word r w =
     (if w = 0 \<or> bn_is_zero r then (0, bn_zero)
      else if w = 1 then (0, r)
      else let (ws, carry) = fold (mul_word_round w) [0..<bn_used r] (bn_words r, 0) in
        if carry \<noteq> 0
        then if bn_used r \<ge> BN_MAX_WORDS then (- 1, r\<lparr>bn_words := ws\<rparr>) else (0, r\<lparr>bn_words := ws[bn_used r := carry], bn_used := bn_used r + 1\<rparr>)
        else (0, r\<lparr>bn_words := ws\<rparr>))"

definition mul_cell :: "u64 \<Rightarrow> u64 list \<Rightarrow> nat \<Rightarrow> nat \<Rightarrow> u64 list \<times> u64 \<Rightarrow> u64 list \<times> u64" where
  "mul_cell x bw i j = (\<lambda>(ws, carry).
     let p = (ucast x * ucast (bw ! j) + ucast (ws ! (i + j)) + ucast carry :: u128) in (ws[i + j := ucast p], ucast (drop_bit 64 p)))"

definition mul_row :: "big_num \<Rightarrow> big_num \<Rightarrow> nat \<Rightarrow> u64 list \<Rightarrow> u64 list" where
  "mul_row a b i ws =
     (let (ws, carry) = fold (mul_cell (bn_words a ! i) (bn_words b) i) [0..<bn_used b] (ws, 0) in ws[i + bn_used b := carry])"

definition bn_mul :: "big_num \<Rightarrow> big_num \<Rightarrow> big_num \<Rightarrow> int \<times> big_num" where
  "bn_mul r a b =
     (if bn_is_zero a \<or> bn_is_zero b then (0, bn_zero)
      else if bn_used a + bn_used b > BN_MAX_WORDS then (- 1, r)
      else let ws = fold (mul_row a b) [0..<bn_used a] (replicate BN_MAX_WORDS 0) in
        (0, \<lparr>bn_words = ws, bn_used = trim1 ws (bn_used a + bn_used b), bn_sign = 0\<rparr>))"

section \<open>Division\<close>

text \<open>The loop over the words, highest first.\<close>

fun div_words :: "u64 \<Rightarrow> nat \<Rightarrow> u64 list \<Rightarrow> u64 \<Rightarrow> u64 list \<times> u64" where
  "div_words d 0 ws rm = (ws, rm)"
| "div_words d (Suc i) ws rm =
     (let v = (push_bit 64 (ucast rm) OR ucast (ws ! i) :: u128) in div_words d i (ws[i := ucast (v div ucast d)]) (ucast (v mod ucast d)))"

definition bn_div_word :: "big_num \<Rightarrow> u64 \<Rightarrow> u64 \<times> big_num" where
  "bn_div_word r d =
     (if d = 0 then (- 1, r)
      else let (ws, rm) = div_words d (bn_used r) (bn_words r) 0; n = trim ws (bn_used r) in
        (rm, r\<lparr>bn_words := (if n = 0 then ws[0 := 0] else ws), bn_used := (if n = 0 then 1 else n)\<rparr>))"

fun mod_words :: "u64 \<Rightarrow> nat \<Rightarrow> u64 list \<Rightarrow> u64 \<Rightarrow> u64" where
  "mod_words d 0 ws rm = rm"
| "mod_words d (Suc i) ws rm = mod_words d i ws (ucast ((push_bit 64 (ucast rm) OR ucast (ws ! i) :: u128) mod ucast d))"

definition bn_mod_word :: "big_num \<Rightarrow> u64 \<Rightarrow> u64" where
  "bn_mod_word a d = (if d = 0 then - 1 else mod_words d (bn_used a) (bn_words a) 0)"

text \<open>Storing a word of a local number.\<close>

definition put_word :: "u64 list \<Rightarrow> nat \<Rightarrow> u64 \<Rightarrow> u64 list run" where
  "put_word ws i x = (if i < length ws then Inr (ws[i := x]) else Inl Out_Of_Bounds)"

text \<open>\<open>clz64\<close>; the code calls it for words that are not zero, of which the count is defined.\<close>

definition clz64 :: "u64 \<Rightarrow> nat" where
  "clz64 x = length (takeWhile (\<lambda>i. \<not> bit x i) (rev [0..<64]))"

definition shift_round :: "nat \<Rightarrow> u64 list \<Rightarrow> nat \<Rightarrow> u64 list \<times> u64 \<Rightarrow> u64 list \<times> u64" where
  "shift_round shift src i = (\<lambda>(ws, carry).
     let w = (push_bit shift (ucast (src ! i)) OR ucast carry :: u128) in (ws[i := ucast w], ucast (drop_bit 64 w)))"

text \<open>The correction of the estimated digit: \<open>vtop\<close> and \<open>second\<close> are the highest words of the divisor.\<close>

function fix_digit :: "u64 \<Rightarrow> u64 \<Rightarrow> u64 \<Rightarrow> u64 \<Rightarrow> u64 \<Rightarrow> u64" where
  "fix_digit vtop second u2 qhat rhat =
     (if qhat \<noteq> 0 \<and> (ucast qhat * ucast second :: u128) > push_bit 64 (ucast rhat) OR ucast u2
      then let qhat' = qhat - 1; rhat' = rhat + vtop in if rhat' < vtop then qhat' else fix_digit vtop second u2 qhat' rhat'
      else qhat)"
  by auto
termination by (relation "measure (\<lambda>(_, _, _, qhat, _). unat qhat)") (auto simp: unat_gt_0 measure_unat)

definition sub_digit_round :: "u64 \<Rightarrow> u64 list \<Rightarrow> nat \<Rightarrow> nat \<Rightarrow> u64 list \<times> u64 \<Rightarrow> u64 list \<times> u64" where
  "sub_digit_round qhat v j i = (\<lambda>(u, borrow).
     let p = (ucast qhat * ucast (v ! i) :: u128); pl = ucast p; ph = ucast (drop_bit 64 p); x = u ! (j + i); diff = x - pl - borrow;
         nb = (if borrow \<noteq> 0 \<and> x = 0 \<and> pl = 0 then 1 else if x - borrow < pl then 1 else 0); nb = (if diff > x \<and> borrow = 0 then 1 else nb) in
     (u[j + i := diff], ph + nb))"

definition add_back_round :: "u64 list \<Rightarrow> nat \<Rightarrow> nat \<Rightarrow> u64 list \<times> u64 \<Rightarrow> u64 list \<times> u64" where
  "add_back_round v j i = (\<lambda>(u, carry).
     let s = (ucast (u ! (j + i)) + ucast (v ! i) + ucast carry :: u128) in (u[j + i := ucast s], ucast (drop_bit 64 s)))"

text \<open>One digit of the quotient: the new remainder and the digit.\<close>

definition digit_round :: "nat \<Rightarrow> nat \<Rightarrow> u64 list \<Rightarrow> nat \<Rightarrow> u64 list \<times> u64 list \<Rightarrow> (u64 list \<times> u64 list) run" where
  "digit_round n u_used v j = (\<lambda>(u, qu).
     let at = (\<lambda>k. if k < u_used then u ! k else 0);
         num = (push_bit 64 (ucast (at (j + n))) OR ucast (at (j + n - 1)) :: u128); vtop = v ! (n - 1);
         qhat = ucast (num div ucast vtop); rhat = ucast (num mod ucast vtop) in
     if qhat = 0 then Inr (u, qu[j := 0])
     else let qhat = fix_digit vtop (v ! (n - 2)) (at (j + n - 2)) qhat rhat;
              (u, borrow) = fold (sub_digit_round qhat v j) [0..<n] (u, 0);
              ujn = (if j + n < u_used then u ! (j + n) else 0) in
       if sint (ujn - borrow) < 0
       then let (u, carry) = fold (add_back_round v j) [0..<n] (u, 0) in
         bind_run (load_cell u (j + n)) (\<lambda>x. bind_run (put_word u (j + n) (x + carry)) (\<lambda>u. Inr (u, qu[j := qhat - 1])))
       else Inr (u, qu[j := qhat]))"

text \<open>Shifting the remainder back, highest word first.\<close>

fun unshift_words :: "nat \<Rightarrow> nat \<Rightarrow> u64 list \<Rightarrow> u64 \<Rightarrow> u64 list" where
  "unshift_words shift 0 ws carry = ws"
| "unshift_words shift (Suc i) ws carry =
     (let w = (push_bit 64 (ucast carry) OR ucast (ws ! i) :: u128) in
      unshift_words shift i (ws[i := ucast (drop_bit shift w)]) (ucast (w AND (push_bit shift 1 - 1))))"

text \<open>The results are the return value, the quotient and the remainder. A divisor without words makes the code read before its array.\<close>

definition bn_div :: "big_num \<Rightarrow> big_num \<Rightarrow> big_num \<Rightarrow> big_num \<Rightarrow> (int \<times> big_num \<times> big_num) run" where
  "bn_div q rm a b =
     (if bn_is_zero b then Inr (- 1, q, rm)
      else if bn_cmp a b < 0 then Inr (0, bn_zero, a)
      else if bn_used b = 1 then (let (rv, t) = bn_div_word a (bn_words b ! 0) in Inr (0, t, bn_set_word rv))
      else let n = bn_used b; m = bn_used a - n in
        if bn_used a < n then Inr (0, bn_zero, a)
        else if n = 0 then Inl Out_Of_Bounds
        else if bn_words b ! (n - 1) = 0 then Inl Zero_Divide
        else let shift = clz64 (bn_words b ! (n - 1));
                 (uw, carry) = (if shift \<noteq> 0 then fold (shift_round shift (bn_words a)) [0..<bn_used a] (replicate BN_MAX_WORDS 0, 0) else (bn_words a, 0));
                 v = (if shift \<noteq> 0 then fst (fold (shift_round shift (bn_words b)) [0..<n] (bn_words b, 0)) else bn_words b);
                 u_used = bn_used a + (if carry \<noteq> 0 then 1 else 0) in
          bind_run (if carry \<noteq> 0 then put_word uw (bn_used a) carry else Inr uw) (\<lambda>u.
          bind_run (fold_run (digit_round n u_used v) (rev [0..<m + 1]) (u, replicate BN_MAX_WORDS 0)) (\<lambda>(u, qu).
          let u = unshift_words shift u_used u 0 in
          Inr (0, \<lparr>bn_words = qu, bn_used = trim1 qu (m + 1), bn_sign = 0\<rparr>, \<lparr>bn_words = u, bn_used = trim1 u n, bn_sign = 0\<rparr>))))"

definition bn_mod :: "big_num \<Rightarrow> big_num \<Rightarrow> big_num \<Rightarrow> (int \<times> big_num) run" where
  "bn_mod r a m =
     (if bn_is_zero m then Inr (- 1, r) else bind_run (bn_div bn_zero r a m) (\<lambda>(ret, _, r). Inr (ret, r)))"

section \<open>Powers, greatest common divisors, inverses\<close>

text \<open>
  The loops of these functions end when a number becomes zero, which depends on what division computes: they are partial functions, whose result \<open>None\<close> stands for
  not returning. Return values of the called functions are ignored where the code ignores them.
\<close>

definition mul_mod :: "big_num \<Rightarrow> big_num \<Rightarrow> big_num \<Rightarrow> big_num \<Rightarrow> big_num run" where
  "mul_mod r a b m = (let t = snd (bn_mul r a b) in bind_run (bn_mod t t m) (\<lambda>(_, t). Inr t))"

partial_function (option) exp_loop :: "big_num \<Rightarrow> big_num \<Rightarrow> big_num \<Rightarrow> big_num \<Rightarrow> big_num run option" where
  "exp_loop m b e t =
     (if bn_is_zero e then Some (Inr t)
      else case (if bit (bn_words e ! 0) 0 then mul_mod t t b m else Inr t) of
        Inl f \<Rightarrow> Some (Inl f)
      | Inr t \<Rightarrow> (case mul_mod b b b m of Inl f \<Rightarrow> Some (Inl f) | Inr b \<Rightarrow> exp_loop m b (snd (bn_div_word e 2)) t))"

definition bn_exp_mod :: "big_num \<Rightarrow> big_num \<Rightarrow> big_num \<Rightarrow> big_num \<Rightarrow> (int \<times> big_num) run option" where
  "bn_exp_mod r base e m =
     (if bn_is_zero m then Some (Inr (- 1, r))
      else case bn_mod base base m of
        Inl f \<Rightarrow> Some (Inl f)
      | Inr (_, b) \<Rightarrow>
          if bn_is_zero b then Some (Inr (0, bn_zero))
          else map_option (\<lambda>x. bind_run x (\<lambda>t. Inr (0, t\<lparr>bn_sign := 0\<rparr>))) (exp_loop m b e (bn_set_word 1)))"

text \<open>\<open>tr\<close> keeps its value when a division fails, which the loop does not test.\<close>

partial_function (option) gcd_loop :: "big_num \<Rightarrow> big_num \<Rightarrow> big_num \<Rightarrow> big_num run option" where
  "gcd_loop ta tb tr =
     (if bn_is_zero tb then Some (Inr ta)
      else case bn_mod tr ta tb of Inl f \<Rightarrow> Some (Inl f) | Inr (_, tr) \<Rightarrow> gcd_loop tb tr tr)"

definition bn_gcd :: "big_num \<Rightarrow> big_num \<Rightarrow> (int \<times> big_num) run option" where
  "bn_gcd a b = map_option (\<lambda>x. bind_run x (\<lambda>t. Inr (0, t\<lparr>bn_sign := 0\<rparr>))) (gcd_loop a b bn_zero)"

text \<open>One round of the extended algorithm: the new coefficient \<open>s0 - q * s1\<close> modulo \<open>m\<close>.\<close>

definition next_coefficient :: "big_num \<Rightarrow> big_num \<Rightarrow> big_num \<Rightarrow> big_num \<Rightarrow> big_num \<Rightarrow> big_num run" where
  "next_coefficient m q s0 s1 tmp =
     (let tmp = snd (bn_mul tmp q s1) in
      if bn_cmp s0 tmp \<ge> 0 then Inr (snd (bn_sub tmp s0 tmp))
      else let tmp = snd (bn_sub tmp tmp s0) in
        bind_run (bn_mod tmp tmp m) (\<lambda>(_, tmp). if bn_is_zero tmp then Inr tmp else Inr (snd (bn_sub tmp m tmp))))"

partial_function (option) inv_loop :: "big_num \<Rightarrow> big_num \<Rightarrow> big_num \<Rightarrow> big_num \<Rightarrow> big_num \<Rightarrow> big_num \<Rightarrow> big_num \<Rightarrow> (big_num \<times> big_num) run option" where
  "inv_loop m r0 r1 s0 s1 q tmp =
     (if bn_is_zero r1 then Some (Inr (r0, s0))
      else case bn_div q tmp r0 r1 of Inl f \<Rightarrow> Some (Inl f)
      | Inr (_, q, tmp) \<Rightarrow>
          (case next_coefficient m q s0 s1 tmp of Inl f \<Rightarrow> Some (Inl f)
           | Inr c \<Rightarrow> inv_loop m r1 tmp s1 c q c))"

definition bn_inv_mod :: "big_num \<Rightarrow> big_num \<Rightarrow> big_num \<Rightarrow> (int \<times> big_num) run option" where
  "bn_inv_mod r a m =
     (if bn_is_zero m then Some (Inr (- 1, r))
      else case bn_mod bn_zero a m of
        Inl f \<Rightarrow> Some (Inl f)
      | Inr (_, r1) \<Rightarrow> map_option (\<lambda>x. bind_run x (\<lambda>(r0, s0).
          if \<not> bn_is_one r0 then Inr (- 1, r)
          else bind_run (bn_mod s0 s0 m) (\<lambda>(_, s0). if bn_is_zero s0 then Inr (- 1, r) else Inr (0, s0\<lparr>bn_sign := 0\<rparr>))))
          (inv_loop m m r1 (bn_set_word 0) (bn_set_word 1) bn_zero bn_zero))"

section \<open>Primality\<close>

text \<open>Removing factors of two from \<open>d\<close>.\<close>

partial_function (option) halve_loop :: "big_num \<Rightarrow> nat \<Rightarrow> (big_num \<times> nat) option" where
  "halve_loop d s = (if \<not> bn_is_zero d \<and> \<not> bit (bn_words d ! 0) 0 then halve_loop (snd (bn_div_word d 2)) (s + 1) else Some (d, s))"

text \<open>The squarings for one base; \<open>True\<close> when the number may be prime. The loop variable counts the rounds left.\<close>

fun square_loop :: "big_num \<Rightarrow> big_num \<Rightarrow> nat \<Rightarrow> big_num \<Rightarrow> bool run" where
  "square_loop n n1 0 x = Inr False"
| "square_loop n n1 (Suc k) x =
     bind_run (mul_mod x x x n) (\<lambda>x. if bn_is_one x then Inr False else if bn_cmp x n1 = 0 then Inr True else square_loop n n1 k x)"

fun base_loop :: "big_num \<Rightarrow> big_num \<Rightarrow> big_num \<Rightarrow> nat \<Rightarrow> big_num \<Rightarrow> u64 list \<Rightarrow> int run option" where
  "base_loop n n1 d s x [] = Some (Inr 1)"
| "base_loop n n1 d s x (p # ps) =
     (if bn_cmp_word n p \<le> 0 then base_loop n n1 d s x ps
      else case bn_exp_mod x (bn_set_word p) d n of
        None \<Rightarrow> None
      | Some (Inl f) \<Rightarrow> Some (Inl f)
      | Some (Inr (_, x)) \<Rightarrow>
          if bn_is_one x \<or> bn_cmp x n1 = 0 then base_loop n n1 d s x ps
          else case square_loop n n1 (s - 1) x of Inl f \<Rightarrow> Some (Inl f) | Inr ok \<Rightarrow> if ok then base_loop n n1 d s x ps else Some (Inr 0))"

definition prime_bases :: "u64 list" where "prime_bases = [2, 3, 5, 7, 11, 13, 17]"

definition bn_is_prime :: "big_num \<Rightarrow> int run option" where
  "bn_is_prime n =
     (if bn_cmp_word n 2 < 0 then Some (Inr 0)
      else if bn_used n = 1 \<and> bn_words n ! 0 mod 2 = 0 then Some (Inr (if bn_cmp_word n 2 = 0 then 1 else 0))
      else let n1 = snd (bn_sub bn_zero n (bn_set_word 1)) in
        case halve_loop n1 0 of None \<Rightarrow> None | Some (d, s) \<Rightarrow> base_loop n n1 d s bn_zero prime_bases)"

section \<open>Hexadecimal texts\<close>

definition hex_digit :: "char \<Rightarrow> u64 option" where
  "hex_digit c = (let n = (of_char c :: nat) in
     if 48 \<le> n \<and> n \<le> 57 then Some (of_nat (n - 48)) else if 97 \<le> n \<and> n \<le> 102 then Some (of_nat (10 + n - 97))
     else if 65 \<le> n \<and> n \<le> 70 then Some (of_nat (10 + n - 65)) else None)"

text \<open>The propagation of a carry: the words and the index it stops at.\<close>

function carry_loop :: "nat \<Rightarrow> nat \<Rightarrow> u64 list \<Rightarrow> u64 list \<times> nat" where
  "carry_loop used i ws =
     (if i < used then let ws = ws[i := ws ! i + 1] in if ws ! i \<noteq> 0 then (ws, i) else carry_loop used (i + 1) ws else (ws, i))"
  by auto
termination by (relation "measure (\<lambda>(used, i, _). used - i)") auto

definition hex_round :: "u64 \<Rightarrow> big_num \<Rightarrow> int \<times> big_num" where
  "hex_round v bn =
     (let (r, bn) = bn_mul_word bn 16 in
      if r \<noteq> 0 then (- 1, bn)
      else let ov = bn_words bn ! 0; bn = bn\<lparr>bn_words := (bn_words bn)[0 := ov + v]\<rparr> in
        if ov + v < ov
        then let (ws, i) = carry_loop (bn_used bn) 1 (bn_words bn) in
          if i \<ge> bn_used bn
          then if bn_used bn \<ge> BN_MAX_WORDS then (- 1, bn\<lparr>bn_words := ws\<rparr>) else (0, bn\<lparr>bn_words := ws[bn_used bn := 1], bn_used := bn_used bn + 1\<rparr>)
          else (0, bn\<lparr>bn_words := ws\<rparr>)
        else (0, bn))"

fun hex_loop :: "string \<Rightarrow> big_num \<Rightarrow> int \<times> big_num" where
  "hex_loop [] bn = (0, bn)"
| "hex_loop (c # cs) bn =
     (case hex_digit c of None \<Rightarrow> (- 1, bn) | Some v \<Rightarrow> let (r, bn) = hex_round v bn in if r \<noteq> 0 then (- 1, bn) else hex_loop cs bn)"

definition bn_from_hex :: "string \<Rightarrow> int \<times> big_num" where
  "bn_from_hex hex = hex_loop hex (bn_zero\<lparr>bn_used := 1\<rparr>)"

section \<open>Pointers\<close>

text \<open>A \<open>NULL\<close> among the arguments gives \<open>- 1\<close> and leaves the results alone.\<close>

definition SNEPPX_bn_from_hex :: "big_num option \<Rightarrow> string option \<Rightarrow> int \<times> big_num option" where
  "SNEPPX_bn_from_hex bn hex = (case (bn, hex) of (Some _, Some h) \<Rightarrow> map_prod id Some (bn_from_hex h) | _ \<Rightarrow> (- 1, bn))"

definition SNEPPX_bn_add :: "big_num option \<Rightarrow> big_num option \<Rightarrow> big_num option \<Rightarrow> int \<times> big_num option" where
  "SNEPPX_bn_add r a b = (case (r, a, b) of (Some r, Some a, Some b) \<Rightarrow> map_prod id Some (bn_add r a b) | _ \<Rightarrow> (- 1, r))"

definition SNEPPX_bn_sub :: "big_num option \<Rightarrow> big_num option \<Rightarrow> big_num option \<Rightarrow> int \<times> big_num option" where
  "SNEPPX_bn_sub r a b = (case (r, a, b) of (Some r, Some a, Some b) \<Rightarrow> map_prod id Some (bn_sub r a b) | _ \<Rightarrow> (- 1, r))"

definition SNEPPX_bn_mul :: "big_num option \<Rightarrow> big_num option \<Rightarrow> big_num option \<Rightarrow> int \<times> big_num option" where
  "SNEPPX_bn_mul r a b = (case (r, a, b) of (Some r, Some a, Some b) \<Rightarrow> map_prod id Some (bn_mul r a b) | _ \<Rightarrow> (- 1, r))"

definition SNEPPX_bn_mul_word :: "big_num option \<Rightarrow> u64 \<Rightarrow> int \<times> big_num option" where
  "SNEPPX_bn_mul_word r w = (case r of Some r \<Rightarrow> map_prod id Some (bn_mul_word r w) | _ \<Rightarrow> (- 1, r))"

definition SNEPPX_bn_div_word :: "big_num option \<Rightarrow> u64 \<Rightarrow> u64 \<times> big_num option" where
  "SNEPPX_bn_div_word r d = (case r of Some r \<Rightarrow> map_prod id Some (bn_div_word r d) | _ \<Rightarrow> (- 1, r))"

definition SNEPPX_bn_mod_word :: "big_num option \<Rightarrow> u64 \<Rightarrow> u64" where
  "SNEPPX_bn_mod_word a d = (case a of Some a \<Rightarrow> bn_mod_word a d | _ \<Rightarrow> - 1)"

definition SNEPPX_bn_div :: "big_num option \<Rightarrow> big_num option \<Rightarrow> big_num option \<Rightarrow> big_num option \<Rightarrow> (int \<times> big_num option \<times> big_num option) run" where
  "SNEPPX_bn_div q rm a b = (case (q, rm, a, b) of
     (Some q, Some rm, Some a, Some b) \<Rightarrow> bind_run (bn_div q rm a b) (\<lambda>(c, q, rm). Inr (c, Some q, Some rm)) | _ \<Rightarrow> Inr (- 1, q, rm))"

definition SNEPPX_bn_mod :: "big_num option \<Rightarrow> big_num option \<Rightarrow> big_num option \<Rightarrow> (int \<times> big_num option) run" where
  "SNEPPX_bn_mod r a m = (case (r, a, m) of (Some r, Some a, Some m) \<Rightarrow> bind_run (bn_mod r a m) (\<lambda>(c, r). Inr (c, Some r)) | _ \<Rightarrow> Inr (- 1, r))"

definition SNEPPX_bn_exp_mod :: "big_num option \<Rightarrow> big_num option \<Rightarrow> big_num option \<Rightarrow> big_num option \<Rightarrow> (int \<times> big_num option) run option" where
  "SNEPPX_bn_exp_mod r base e m = (case (r, base, e, m) of
     (Some r, Some base, Some e, Some m) \<Rightarrow> map_option (\<lambda>x. bind_run x (\<lambda>(c, r). Inr (c, Some r))) (bn_exp_mod r base e m) | _ \<Rightarrow> Some (Inr (- 1, r)))"

definition SNEPPX_bn_gcd :: "big_num option \<Rightarrow> big_num option \<Rightarrow> big_num option \<Rightarrow> (int \<times> big_num option) run option" where
  "SNEPPX_bn_gcd r a b = (case (r, a, b) of
     (Some _, Some a, Some b) \<Rightarrow> map_option (\<lambda>x. bind_run x (\<lambda>(c, r). Inr (c, Some r))) (bn_gcd a b) | _ \<Rightarrow> Some (Inr (- 1, r)))"

definition SNEPPX_bn_inv_mod :: "big_num option \<Rightarrow> big_num option \<Rightarrow> big_num option \<Rightarrow> (int \<times> big_num option) run option" where
  "SNEPPX_bn_inv_mod r a m = (case (r, a, m) of
     (Some r, Some a, Some m) \<Rightarrow> map_option (\<lambda>x. bind_run x (\<lambda>(c, r). Inr (c, Some r))) (bn_inv_mod r a m) | _ \<Rightarrow> Some (Inr (- 1, r)))"

definition SNEPPX_bn_is_prime :: "big_num option \<Rightarrow> int run option" where
  "SNEPPX_bn_is_prime n = (case n of None \<Rightarrow> Some (Inr (- 1)) | Some n \<Rightarrow> bn_is_prime n)"

section \<open>The numbers the words stand for\<close>

definition words_val :: "u64 list \<Rightarrow> nat \<Rightarrow> nat" where
  "words_val ws n = (\<Sum>i<n. unat (ws ! i) * 2 ^ (64 * i))"

definition bn_val :: "big_num \<Rightarrow> nat" where
  "bn_val a = words_val (bn_words a) (bn_used a)"

definition bn_ok :: "big_num \<Rightarrow> bool" where
  "bn_ok a \<longleftrightarrow> length (bn_words a) = BN_MAX_WORDS \<and> bn_used a \<le> BN_MAX_WORDS"

text \<open>No leading zero words. A number without any words is zero as well, though \<open>bn_is_zero\<close> does not say so.\<close>

definition bn_trimmed :: "big_num \<Rightarrow> bool" where
  "bn_trimmed a \<longleftrightarrow> bn_ok a \<and> (bn_used a > 1 \<longrightarrow> bn_words a ! (bn_used a - 1) \<noteq> 0)"

definition bn_normal :: "big_num \<Rightarrow> bool" where
  "bn_normal a \<longleftrightarrow> bn_trimmed a \<and> bn_used a > 0"

lemma words_val_simps [simp]: "words_val ws 0 = 0" "words_val ws (Suc n) = words_val ws n + unat (ws ! n) * 2 ^ (64 * n)"
  by (simp_all add: words_val_def)

lemma words_val_cong: "(\<And>i. i < n \<Longrightarrow> ws ! i = vs ! i) \<Longrightarrow> words_val ws n = words_val vs n"
  by (simp add: words_val_def)

lemma words_val_above [simp]: "n \<le> i \<Longrightarrow> words_val (ws[i := x]) n = words_val ws n"
  by (rule words_val_cong) simp

lemma unat_digit: "unat (x :: u64) \<le> 2 ^ 64 - 1"
  using unsigned_less [of x, where ?'a = nat] by simp

lemma words_val_less: "words_val ws n < 2 ^ (64 * n)"
proof (induction n)
  case (Suc n)
  have "(unat (ws ! n) + 1) * 2 ^ (64 * n) \<le> 2 ^ 64 * 2 ^ (64 * n)" using unat_digit [of "ws ! n"] by (intro mult_right_mono) simp_all
  moreover have "(2 :: nat) ^ 64 * 2 ^ (64 * n) = 2 ^ (64 * Suc n)" by (simp only: power_add [symmetric] mult_Suc_right)
  ultimately show ?case using Suc by (simp only: words_val_simps add_mult_distrib)
qed simp

lemma trim_le: "trim ws n \<le> n"
  by (induction n) auto

lemma words_val_trim [simp]: "words_val ws (trim ws n) = words_val ws n"
  by (induction n) auto

lemma trim_top: "trim ws n = Suc k \<Longrightarrow> ws ! k \<noteq> 0"
  by (induction n) (auto split: if_splits)

lemma words_val_trim1 [simp]: "words_val ws (trim1 ws n) = words_val ws n" if "0 < n" for n
proof (cases "trim ws n")
  case 0
  then have "words_val ws n = 0" using words_val_trim [of ws n] by simp
  moreover have "words_val ws n \<ge> unat (ws ! 0)" unfolding words_val_def using that sum_mono2 [of "{..<n}" "{0}" "\<lambda>i. unat (ws ! i) * 2 ^ (64 * i)"] by simp
  ultimately show ?thesis using 0 by (simp add: trim1_def)
qed (use words_val_trim [of ws n] in \<open>simp add: trim1_def\<close>)

lemma trim1_facts: "0 < trim1 ws n" "0 < n \<Longrightarrow> trim1 ws n \<le> n" "trim1 ws n > 1 \<Longrightarrow> ws ! (trim1 ws n - 1) \<noteq> 0"
  using trim_le [of ws n] trim_top [of ws n "trim ws n - 1"] by (auto simp: trim1_def split: if_splits)

section \<open>Double words\<close>

lemma low_word: "unat (ucast (p :: u128) :: u64) = unat p mod 2 ^ 64"
  by (simp add: unsigned_ucast_eq take_bit_eq_mod)

lemma high_word: "unat (ucast (drop_bit 64 (p :: u128)) :: u64) = unat p div 2 ^ 64"
proof -
  have "unat p < 2 ^ 128" using unsigned_less [of p, where ?'a = nat] by simp
  then have "unat p div 2 ^ 64 < 2 ^ 64" by (simp add: div_less_iff_less_mult)
  moreover have "unat (drop_bit 64 p) = unat p div 2 ^ 64" by (subst unat_drop_bit_eq) (rule drop_bit_eq_div)
  ultimately show ?thesis unfolding unsigned_ucast_eq take_bit_eq_mod by simp
qed

lemma wide_word: "unat (ucast (x :: u64) :: u128) = unat x"
proof -
  have "unat x < 2 ^ 128" using unsigned_less [of x, where ?'a = nat] by simp
  then show ?thesis by (simp add: unsigned_ucast_eq take_bit_eq_mod)
qed

lemma mul_add_word: "unat (ucast x * ucast y + ucast z + ucast c :: u128) = unat (x :: u64) * unat (y :: u64) + unat (z :: u64) + unat (c :: u64)"
proof -
  have "unat x * unat y \<le> (2 ^ 64 - 1) * (2 ^ 64 - 1)" using unat_digit by (intro mult_mono) simp_all
  then have "unat x * unat y + unat z + unat c < 2 ^ 128" using unat_digit [of z] unat_digit [of c] by simp
  moreover have "(ucast x * ucast y + ucast z + ucast c :: u128) = of_nat (unat x * unat y + unat z + unat c)"
    by (simp add: wide_word [symmetric])
  ultimately show ?thesis by (simp only: unat_of_nat) simp
qed

lemma join_words: "unat (push_bit 64 (ucast r) OR ucast w :: u128) = unat (r :: u64) * 2 ^ 64 + unat (w :: u64)"
proof -
  have "(push_bit 64 (ucast r) AND ucast w :: u128) = 0" by (rule bit_eqI) (auto simp: bit_simps dest: bit_imp_le_length)
  then have "(push_bit 64 (ucast r) OR ucast w :: u128) = push_bit 64 (ucast r) + ucast w" by (simp add: disjunctive_add_eq_or)
  also have "\<dots> = of_nat (unat r * 2 ^ 64 + unat w)" by (simp add: push_bit_eq_mult wide_word [symmetric])
  finally have "(push_bit 64 (ucast r) OR ucast w :: u128) = of_nat (unat r * 2 ^ 64 + unat w)" .
  moreover have "unat r * 2 ^ 64 + unat w < 2 ^ 128" using unat_digit [of r] unat_digit [of w] by simp
  ultimately show ?thesis by (simp only: unat_of_nat) simp
qed

section \<open>Addition and subtraction\<close>

lemma add_digits:
  fixes x y c :: u64
  assumes "c \<le> 1"
  defines "s \<equiv> x + c + y"
  defines "d \<equiv> (if s < y then 1 else if x + c < x then 1 else 0 :: u64)"
  shows "d \<le> 1" "unat s + unat d * 2 ^ 64 = unat x + unat y + unat c"
proof -
  have c: "unat c \<le> 1" using assms(1) by (simp add: word_le_nat_alt)
  have xc: "unat (x + c) = (unat x + unat c) mod 2 ^ 64" by (simp add: unat_word_ariths)
  have s: "unat s = (unat (x + c) + unat y) mod 2 ^ 64" by (simp add: s_def unat_word_ariths)
  note b = unat_digit [of x] unat_digit [of y]
  show "d \<le> 1" by (simp add: d_def)
  show "unat s + unat d * 2 ^ 64 = unat x + unat y + unat c"
  proof (cases "unat x + unat c < 2 ^ 64")
    case True
    then have xc: "unat (x + c) = unat x + unat c" using xc by simp
    then have nc: "\<not> x + c < x" by (simp add: word_less_nat_alt)
    show ?thesis
    proof (cases "unat x + unat c + unat y < 2 ^ 64")
      case True
      then have "unat s = unat x + unat c + unat y" using s xc by simp
      then show ?thesis using nc by (simp add: d_def word_less_nat_alt)
    next
      case False
      then have "unat s = unat x + unat c + unat y - 2 ^ 64" using s xc b True by (simp add: le_mod_geq)
      then have "unat s + 2 ^ 64 = unat x + unat c + unat y" using False by simp
      moreover from this have "s < y" using True by (simp add: word_less_nat_alt)
      ultimately show ?thesis by (simp add: d_def)
    qed
  next
    case False
    then have e: "unat x = 2 ^ 64 - 1" "unat c = 1" using c b by auto
    then have xc: "unat (x + c) = 0" using xc by simp
    then have "x + c < x" using e by (simp add: word_less_nat_alt)
    moreover have "unat s = unat y" using s xc b by simp
    ultimately show ?thesis using e by (simp add: d_def word_less_nat_alt)
  qed
qed

lemma sub_digits:
  fixes x y c :: u64
  assumes "c \<le> 1"
  defines "s \<equiv> x - c - y"
  defines "d \<equiv> (if s > x - c then 1 else if x - c > x then 1 else 0 :: u64)"
  shows "d \<le> 1" "unat s + unat y + unat c = unat x + unat d * 2 ^ 64"
proof -
  have c: "unat c \<le> 1" using assms(1) by (simp add: word_le_nat_alt)
  have sub: "unat (a - b) = (if unat b \<le> unat a then unat a - unat b else unat a + 2 ^ 64 - unat b)" for a b :: u64
    by (simp add: unat_sub_if_size word_size)
  show "d \<le> 1" by (simp add: d_def)
  show "unat s + unat y + unat c = unat x + unat d * 2 ^ 64"
    using c unat_digit [of x] unat_digit [of y] by (auto simp: d_def s_def word_less_nat_alt sub split: if_splits)
qed

definition operand_val :: "big_num \<Rightarrow> nat \<Rightarrow> nat" where
  "operand_val a n = (\<Sum>i<n. unat (word_of a i) * 2 ^ (64 * i))"

lemma operand_val_simps [simp]: "operand_val a 0 = 0" "operand_val a (Suc n) = operand_val a n + unat (word_of a n) * 2 ^ (64 * n)"
  by (simp_all add: operand_val_def)

lemma operand_val_all: "bn_used a \<le> n \<Longrightarrow> operand_val a n = bn_val a"
proof (induction n)
  case (Suc n)
  show ?case
  proof (cases "bn_used a = Suc n")
    case True
    then show ?thesis unfolding operand_val_def bn_val_def words_val_def by (intro sum.cong) (simp_all add: word_of_def)
  qed (use Suc in \<open>simp add: word_of_def\<close>)
qed (simp add: bn_val_def)

lemma add_rounds:
  assumes "n \<le> length ws0" "fold (add_round a b) [0..<n] (ws0, 0) = (ws, c)"
  shows "length ws = length ws0" "c \<le> 1" "words_val ws n + unat c * 2 ^ (64 * n) = operand_val a n + operand_val b n"
  using assms
proof (induction n arbitrary: ws c)
  case (Suc n)
  obtain us d where u: "fold (add_round a b) [0..<n] (ws0, 0) = (us, d)" by fastforce
  have step: "fold (add_round a b) [0..<Suc n] (ws0, 0) = add_round a b n (us, d)" using u by simp
  { case 1
    have "length us = length ws0" using Suc.IH(1) [OF _ u] 1 by simp
    then show ?case using 1 unfolding step by (auto simp: add_round_def Let_def) }
  { case 2 then show ?case unfolding step by (auto simp: add_round_def Let_def split: if_splits) }
  { case 3
    have IH: "length us = length ws0" "d \<le> 1" "words_val us n + unat d * 2 ^ (64 * n) = operand_val a n + operand_val b n" using Suc.IH [of us d] 3 u by auto
    let ?s = "word_of a n + d + word_of b n" and ?d = "if word_of a n + d + word_of b n < word_of b n then 1 else if word_of a n + d < word_of a n then 1 else 0 :: u64"
    have ws: "ws = us[n := ?s]" "c = ?d" using 3 unfolding step by (auto simp: add_round_def Let_def split: if_splits)
    have "(unat ?s + unat ?d * 2 ^ 64) * 2 ^ (64 * n) = (unat (word_of a n) + unat (word_of b n) + unat d) * 2 ^ (64 * n)"
      using add_digits(2) [OF IH(2), of "word_of a n" "word_of b n"] by simp
    moreover have "(2 :: nat) ^ (64 * Suc n) = 2 ^ 64 * 2 ^ (64 * n)" by (simp add: power_add)
    ultimately show ?case using IH 3(1) unfolding ws by (simp add: algebra_simps) }
qed simp_all

text \<open>
  C40. \<open>SNEPPX_bn_add\<close> of two numbers of up to 128 words each gives their sum, and answers \<open>- 1\<close> exactly when the sum needs more than 128 words. The result object may be an
  operand.
\<close>

theorem bn_add_value:
  assumes "bn_ok r" "bn_ok a" "bn_ok b"
  shows "if bn_val a + bn_val b < 2 ^ (64 * max (bn_used a) (bn_used b)) \<or> max (bn_used a) (bn_used b) < BN_MAX_WORDS
    then \<exists>s. SNEPPX_bn_add (Some r) (Some a) (Some b) = (0, Some s) \<and> bn_ok s \<and> bn_val s = bn_val a + bn_val b
    else \<exists>s. SNEPPX_bn_add (Some r) (Some a) (Some b) = (- 1, Some s)"
proof -
  define n where "n = (if bn_used a > bn_used b then bn_used a else bn_used b)"
  have n: "n = max (bn_used a) (bn_used b)" "n \<le> BN_MAX_WORDS" "length (bn_words r) = BN_MAX_WORDS" using assms by (auto simp: n_def bn_ok_def)
  obtain ws c where f: "fold (add_round a b) [0..<n] (bn_words r, 0) = (ws, c)" by fastforce
  have w: "length ws = BN_MAX_WORDS" "c \<le> 1" "words_val ws n + unat c * 2 ^ (64 * n) = bn_val a + bn_val b"
    using add_rounds [OF _ f] n operand_val_all [of a n] operand_val_all [of b n] by auto
  have l: "words_val ws n < 2 ^ (64 * n)" by (rule words_val_less)
  show ?thesis
  proof (cases "c = 0")
    case True
    then have "bn_val a + bn_val b < 2 ^ (64 * n)" using w(3) l by simp
    moreover have "bn_add r a b = (0, r\<lparr>bn_words := ws, bn_used := n\<rparr>)" unfolding bn_add_def n_def [symmetric] using f True by simp
    ultimately show ?thesis using True w n(2) unfolding n(1) [symmetric] by (simp add: SNEPPX_bn_add_def bn_ok_def bn_val_def [of "r\<lparr>bn_words := ws, bn_used := n\<rparr>"])
  next
    case False
    then have c: "c = 1" using w(2) by (metis antisym_conv2 word_less_1 linorder_not_less)
    then have "\<not> bn_val a + bn_val b < 2 ^ (64 * n)" using w(3) by simp
    moreover have "bn_add r a b = (if n \<ge> BN_MAX_WORDS then (- 1, r\<lparr>bn_words := ws\<rparr>) else (0, r\<lparr>bn_words := ws[n := 1], bn_used := n + 1\<rparr>))"
      unfolding bn_add_def n_def [symmetric] using f False by simp
    ultimately show ?thesis using c w n(2) unfolding n(1) [symmetric] by (simp add: SNEPPX_bn_add_def bn_ok_def bn_val_def [of "r\<lparr>bn_words := ws[n := 1], bn_used := Suc n\<rparr>"])
  qed
qed

lemma sub_rounds:
  assumes "n \<le> length ws0" "n \<le> bn_used bg" "fold (sub_round bg sm) [0..<n] (ws0, 0) = (ws, c)"
  shows "length ws = length ws0" "c \<le> 1" "words_val ws n + operand_val sm n = words_val (bn_words bg) n + unat c * 2 ^ (64 * n)"
  using assms
proof (induction n arbitrary: ws c)
  case (Suc n)
  obtain us d where u: "fold (sub_round bg sm) [0..<n] (ws0, 0) = (us, d)" by fastforce
  have step: "fold (sub_round bg sm) [0..<Suc n] (ws0, 0) = sub_round bg sm n (us, d)" using u by simp
  { case 1
    have "length us = length ws0" using Suc.IH(1) [OF _ _ u] 1 by simp
    then show ?case using 1 unfolding step by (auto simp: sub_round_def Let_def) }
  { case 2 then show ?case unfolding step by (auto simp: sub_round_def Let_def split: if_splits) }
  { case 3
    have IH: "length us = length ws0" "d \<le> 1" "words_val us n + operand_val sm n = words_val (bn_words bg) n + unat d * 2 ^ (64 * n)" using Suc.IH [of us d] 3 u by auto
    let ?x = "bn_words bg ! n" and ?y = "word_of sm n"
    let ?s = "?x - d - ?y" and ?d = "if ?x - d - ?y > ?x - d then 1 else if ?x - d > ?x then 1 else 0 :: u64"
    have ws: "ws = us[n := ?s]" "c = ?d" using 3 unfolding step by (auto simp: sub_round_def Let_def split: if_splits)
    have "(unat ?s + unat ?y + unat d) * 2 ^ (64 * n) = (unat ?x + unat ?d * 2 ^ 64) * 2 ^ (64 * n)"
      using sub_digits(2) [OF IH(2), of ?x ?y] by simp
    moreover have "(2 :: nat) ^ (64 * Suc n) = 2 ^ 64 * 2 ^ (64 * n)" by (simp add: power_add)
    ultimately show ?case using IH 3(1) unfolding ws by (simp add: algebra_simps) }
qed simp_all

section \<open>Comparison\<close>

lemma cmp_words_value: "cmp_words n x y = sgn (int (words_val x n) - int (words_val y n))"
proof (induction n)
  case (Suc n)
  let ?p = "(2 :: nat) ^ (64 * n)"
  have lt: "words_val u n + unat i * ?p < words_val v n + unat j * ?p" if "i < j" for u v and i j :: u64
  proof -
    have "(unat i + 1) * ?p \<le> unat j * ?p" using that by (intro mult_right_mono) (simp_all add: word_less_nat_alt)
    then show ?thesis using words_val_less [of u n] by simp
  qed
  consider "x ! n > y ! n" | "x ! n < y ! n" | "x ! n = y ! n" by fastforce
  then show ?case
  proof cases
    case 1
    then have "words_val y (Suc n) < words_val x (Suc n)" using lt [OF 1, of y x] by simp
    then show ?thesis using 1 by (simp add: sgn_if del: words_val_simps)
  next
    case 2
    then have "words_val x (Suc n) < words_val y (Suc n)" using lt [OF 2, of x y] by simp
    then show ?thesis using 2 by (auto simp add: sgn_if simp del: words_val_simps)
  next
    case 3
    then show ?thesis using Suc by simp
  qed
qed simp

lemma trimmed_bounds: "bn_trimmed a \<Longrightarrow> bn_used a > 1 \<Longrightarrow> 2 ^ (64 * (bn_used a - 1)) \<le> bn_val a"
proof -
  assume a: "bn_trimmed a" "bn_used a > 1"
  then obtain n where n: "bn_used a = Suc n" by (cases "bn_used a") auto
  then have "bn_words a ! n \<noteq> 0" using a by (auto simp: bn_trimmed_def)
  then have "1 \<le> unat (bn_words a ! n)" by (simp add: Suc_leI unat_gt_0)
  then have "1 * 2 ^ (64 * n) \<le> unat (bn_words a ! n) * 2 ^ (64 * n)" by (rule mult_right_mono) simp
  then show ?thesis using n by (simp add: bn_val_def trans_le_add2)
qed

lemma trimmed_less: "bn_trimmed b \<Longrightarrow> bn_used a < bn_used b \<Longrightarrow> bn_val a < bn_val b \<or> bn_val a = 0 \<and> bn_used a = 0"
proof -
  assume b: "bn_trimmed b" "bn_used a < bn_used b"
  show ?thesis
  proof (cases "bn_used a = 0")
    case False
    then have "2 ^ (64 * (bn_used b - 1)) \<le> bn_val b" using b by (intro trimmed_bounds) auto
    moreover have "bn_val a < 2 ^ (64 * bn_used a)" unfolding bn_val_def by (rule words_val_less)
    moreover have "(2 :: nat) ^ (64 * bn_used a) \<le> 2 ^ (64 * (bn_used b - 1))" using b by (intro power_increasing) auto
    ultimately show ?thesis by linarith
  qed (simp add: bn_val_def)
qed

lemma trimmed_small: "bn_trimmed a \<Longrightarrow> bn_val a < 2 ^ 64 \<Longrightarrow> bn_used a \<le> 1"
proof (rule ccontr)
  assume a: "bn_trimmed a" "bn_val a < 2 ^ 64" "\<not> bn_used a \<le> 1"
  then have "2 ^ (64 * (bn_used a - 1)) \<le> bn_val a" by (intro trimmed_bounds) auto
  moreover have "(2 :: nat) ^ (64 * 1) \<le> 2 ^ (64 * (bn_used a - 1))" using a by (intro power_increasing) auto
  ultimately show False using a(2) by simp
qed

lemma bn_cmp_value:
  assumes "bn_trimmed a" "bn_trimmed b" "bn_val a \<noteq> 0 \<or> bn_val b \<noteq> 0 \<or> bn_used a = bn_used b"
  shows "bn_cmp a b = sgn (int (bn_val a) - int (bn_val b))"
proof -
  consider "bn_used a > bn_used b" | "bn_used a < bn_used b" | "bn_used a = bn_used b" by linarith
  then show ?thesis
  proof cases
    case 1
    then show ?thesis using trimmed_less [OF assms(1) 1] assms(3) by (auto simp: bn_cmp_def)
  next
    case 2
    then show ?thesis using trimmed_less [OF assms(2) 2] assms(3) by (auto simp: bn_cmp_def)
  next
    case 3
    then show ?thesis by (simp add: bn_cmp_def cmp_words_value bn_val_def)
  qed
qed

lemma bn_cmp_order:
  assumes "bn_trimmed a" "bn_trimmed b"
  shows "bn_cmp a b > 0 \<Longrightarrow> bn_val b \<le> bn_val a \<and> bn_used b \<le> bn_used a \<and> 0 < bn_used a"
    "bn_cmp a b < 0 \<Longrightarrow> bn_val a \<le> bn_val b \<and> bn_used a \<le> bn_used b \<and> 0 < bn_used b" "bn_cmp a b = 0 \<Longrightarrow> bn_val a = bn_val b"
  using trimmed_less [OF assms(1), of b] trimmed_less [OF assms(2), of a] cmp_words_value [of "bn_used a" "bn_words a" "bn_words b"]
  by (cases "bn_used a = 0"; auto simp: bn_cmp_def bn_val_def sgn_if split: if_splits)+

section \<open>Subtraction\<close>

lemma sub_value:
  assumes "bn_ok r" "bn_ok bg" "bn_used sm \<le> bn_used bg" "bn_val sm \<le> bn_val bg" "fold (sub_round bg sm) [0..<bn_used bg] (bn_words r, 0) = (ws, c)"
  shows "length ws = BN_MAX_WORDS" "words_val ws (bn_used bg) = bn_val bg - bn_val sm"
proof -
  let ?n = "bn_used bg"
  note f = sub_rounds [OF _ _ assms(5)]
  have w: "length ws = BN_MAX_WORDS" "c \<le> 1" "words_val ws ?n + bn_val sm = bn_val bg + unat c * 2 ^ (64 * ?n)"
    using f assms(1-3) operand_val_all [of sm ?n] by (auto simp: bn_ok_def bn_val_def)
  have "c = 0"
  proof (rule ccontr)
    assume "c \<noteq> 0"
    then have "c = 1" using w(2) by (metis antisym_conv2 word_less_1 linorder_not_less)
    then show False using w(3) words_val_less [of ws ?n] assms(4) by simp
  qed
  then show "words_val ws ?n = bn_val bg - bn_val sm" and "length ws = BN_MAX_WORDS" using w by simp_all
qed

lemma bn_zero_facts [simp]: "bn_val bn_zero = 0" "bn_trimmed bn_zero" "bn_used bn_zero = 0"
  by (simp_all add: bn_val_def bn_zero_def bn_ok_def bn_trimmed_def)

lemma trimmed_ok: "bn_trimmed a \<Longrightarrow> bn_ok a"
  by (simp add: bn_trimmed_def)

text \<open>A number whose words have been searched for the highest one.\<close>

lemma trim_number:
  assumes "length ws = BN_MAX_WORDS" "0 < n" "n \<le> BN_MAX_WORDS"
  defines "s \<equiv> \<lambda>sg. \<lparr>bn_words = (if trim ws n = 0 then ws[0 := 0] else ws), bn_used = (if trim ws n = 0 then 1 else trim ws n), bn_sign = sg\<rparr>"
  shows "bn_normal (s g)" "bn_val (s g) = words_val ws n"
proof -
  show "bn_normal (s g)"
    using assms(1,3) trim_le [of ws n] trim_top [of ws n "trim ws n - 1"] by (auto simp: s_def bn_normal_def bn_trimmed_def bn_ok_def BN_MAX_WORDS_def)
  show "bn_val (s g) = words_val ws n"
  proof (cases "trim ws n = 0")
    case True
    then have "words_val ws n = 0" using words_val_trim [of ws n] by simp
    then show ?thesis using True assms(1) by (simp add: s_def bn_val_def BN_MAX_WORDS_def)
  qed (simp add: s_def bn_val_def)
qed

lemma bn_sub_value:
  assumes "bn_ok r" "bn_trimmed a" "bn_trimmed b"
  obtains s where "bn_sub r a b = (0, s)" "bn_trimmed s" "bn_val s = (if bn_val b \<le> bn_val a then bn_val a - bn_val b else bn_val b - bn_val a)"
    "bn_cmp a b \<noteq> 0 \<Longrightarrow> bn_normal s"
proof (cases "bn_cmp a b = 0")
  case True
  then show ?thesis using that [of bn_zero] bn_cmp_order(3) [OF assms(2,3)] by (simp add: bn_sub_def)
next
  case False
  define bg where "bg = (if bn_cmp a b > 0 then a else b)"
  define sm where "sm = (if bn_cmp a b > 0 then b else a)"
  have u: "bn_used sm \<le> bn_used bg" "bn_val sm \<le> bn_val bg" "0 < bn_used bg" "bn_ok bg"
    using False bn_cmp_order [OF assms(2,3)] trimmed_ok assms(2,3) by (auto simp: bg_def sm_def)
  obtain ws d where f: "fold (sub_round bg sm) [0..<bn_used bg] (bn_words r, 0) = (ws, d)" by fastforce
  note v = sub_value [OF assms(1) u(4) u(1,2) f]
  let ?s = "\<lparr>bn_words = (if trim ws (bn_used bg) = 0 then ws[0 := 0] else ws), bn_used = (if trim ws (bn_used bg) = 0 then 1 else trim ws (bn_used bg)), bn_sign = 0\<rparr>"
  have "bn_sub r a b = (0, ?s)" using False f unfolding bn_sub_def by (auto simp: bg_def sm_def Let_def)
  moreover have "bn_normal ?s" "bn_val ?s = bn_val bg - bn_val sm" using trim_number [OF v(1) u(3), of 0] u(4) v(2) by (simp_all only: bn_ok_def)
  moreover have "bn_val bg - bn_val sm = (if bn_val b \<le> bn_val a then bn_val a - bn_val b else bn_val b - bn_val a)"
    using bn_cmp_order [OF assms(2,3)] False by (auto simp: bg_def sm_def)
  ultimately show ?thesis using that [of ?s] by (simp add: bn_normal_def)
qed

section \<open>Multiplication\<close>

lemma word_split: "unat (p :: u128) = unat (ucast p :: u64) + unat (ucast (drop_bit 64 p) :: u64) * 2 ^ 64"
  by (simp only: high_word low_word [of p] mod_div_mult_eq)

lemma mul_cells:
  assumes "i + n \<le> length ws0" "fold (mul_cell x bw i) [0..<n] (ws0, 0) = (ws, c)"
  shows "length ws = length ws0" "\<And>k. i + n \<le> k \<Longrightarrow> ws ! k = ws0 ! k"
    "words_val ws (i + n) + unat c * 2 ^ (64 * (i + n)) = words_val ws0 (i + n) + unat x * words_val bw n * 2 ^ (64 * i)"
  using assms
proof (induction n arbitrary: ws c)
  case (Suc n)
  obtain us d where u: "fold (mul_cell x bw i) [0..<n] (ws0, 0) = (us, d)" by fastforce
  have step: "fold (mul_cell x bw i) [0..<Suc n] (ws0, 0) = mul_cell x bw i n (us, d)" using u by simp
  { case 1
    have "length us = length ws0" using Suc.IH(1) [OF _ u] 1 by simp
    then show ?case using 1 unfolding step by (auto simp: mul_cell_def Let_def) }
  { case (2 k)
    have "us ! k = ws0 ! k" using Suc.IH(2) [of k us d] u 2 by simp
    then show ?case using 2 unfolding step by (auto simp: mul_cell_def Let_def) }
  { case 3
    have IH: "length us = length ws0" "us ! (i + n) = ws0 ! (i + n)" "words_val us (i + n) + unat d * 2 ^ (64 * (i + n)) = words_val ws0 (i + n) + unat x * words_val bw n * 2 ^ (64 * i)"
      using Suc.IH(1) [OF _ u] Suc.IH(3) [OF _ u] Suc.IH(2) [of "i + n" us d] u 3 by auto
    define p where "p = (ucast x * ucast (bw ! n) + ucast (us ! (i + n)) + ucast d :: u128)"
    have ws: "ws = us[i + n := ucast p]" "c = ucast (drop_bit 64 p)" using 3 unfolding step by (auto simp: mul_cell_def Let_def p_def)
    have "unat x * unat (bw ! n) + unat (us ! (i + n)) + unat d = unat (ucast p :: u64) + unat c * 2 ^ 64"
      using word_split [of p] mul_add_word [of x "bw ! n" "us ! (i + n)" d] unfolding ws p_def by simp
    then have "(unat x * unat (bw ! n) + unat (us ! (i + n)) + unat d) * 2 ^ (64 * (i + n)) = (unat (ucast p :: u64) + unat c * 2 ^ 64) * 2 ^ (64 * (i + n))" by simp
    moreover have "(2 :: nat) ^ (64 * (i + Suc n)) = 2 ^ 64 * 2 ^ (64 * (i + n))" "(2 :: nat) ^ (64 * (i + n)) = 2 ^ (64 * i) * 2 ^ (64 * n)"
      by (simp_all add: power_add algebra_simps)
    ultimately show ?case using IH 3(1) unfolding ws(1) by (simp add: algebra_simps) }
qed simp_all

lemma mul_rows:
  fixes a :: big_num
  assumes "bn_ok b" "n + bn_used b \<le> BN_MAX_WORDS"
  defines "ws \<equiv> fold (mul_row a b) [0..<n] (replicate BN_MAX_WORDS 0)"
  shows "length ws = BN_MAX_WORDS \<and> (\<forall>k. n + bn_used b \<le> k \<longrightarrow> k < BN_MAX_WORDS \<longrightarrow> ws ! k = 0) \<and> words_val ws (n + bn_used b) = words_val (bn_words a) n * bn_val b"
  unfolding ws_def using assms(2)
proof (induction n)
  case 0
  have "words_val (replicate BN_MAX_WORDS 0) (bn_used b) = words_val [] 0" if "bn_used b \<le> BN_MAX_WORDS" using that by (simp add: words_val_def)
  then show ?case using 0 by simp
next
  case (Suc n)
  let ?m = "bn_used b"
  define us where "us = fold (mul_row a b) [0..<n] (replicate BN_MAX_WORDS 0)"
  have IH: "length us = BN_MAX_WORDS" "\<And>k. n + ?m \<le> k \<Longrightarrow> k < BN_MAX_WORDS \<Longrightarrow> us ! k = 0" "words_val us (n + ?m) = words_val (bn_words a) n * bn_val b"
    using Suc unfolding us_def by auto
  obtain vs c where f: "fold (mul_cell (bn_words a ! n) (bn_words b) n) [0..<?m] (us, 0) = (vs, c)" by fastforce
  have v: "length vs = BN_MAX_WORDS" "\<And>k. n + ?m \<le> k \<Longrightarrow> vs ! k = us ! k"
    "words_val vs (n + ?m) + unat c * 2 ^ (64 * (n + ?m)) = words_val us (n + ?m) + unat (bn_words a ! n) * bn_val b * 2 ^ (64 * n)"
    using mul_cells [OF _ f] IH(1) Suc.prems by (auto simp: bn_val_def)
  have "fold (mul_row a b) [0..<Suc n] (replicate BN_MAX_WORDS 0) = vs[n + ?m := c]" using f by (simp add: us_def [symmetric] mul_row_def)
  moreover have "words_val (vs[n + ?m := c]) (Suc n + ?m) = words_val (bn_words a) (Suc n) * bn_val b"
    using v(1,3) IH(3) Suc.prems by (simp add: algebra_simps)
  ultimately show ?case using v(1,2) IH(2) by auto
qed

lemma is_zero_val: "bn_is_zero a \<Longrightarrow> bn_val a = 0"
  by (simp add: bn_is_zero_def bn_val_def)

lemma bn_mul_value:
  assumes "bn_ok a" "bn_ok b" "bn_used a + bn_used b \<le> BN_MAX_WORDS"
  obtains s where "bn_mul r a b = (0, s)" "bn_trimmed s" "bn_val s = bn_val a * bn_val b"
proof (cases "bn_is_zero a \<or> bn_is_zero b")
  case True
  then show ?thesis using that [of bn_zero] is_zero_val [of a] is_zero_val [of b] by (auto simp: bn_mul_def)
next
  case False
  define ws where "ws = fold (mul_row a b) [0..<bn_used a] (replicate BN_MAX_WORDS 0)"
  let ?n = "bn_used a + bn_used b"
  let ?s = "\<lparr>bn_words = ws, bn_used = trim1 ws ?n, bn_sign = 0\<rparr>"
  have w: "length ws = BN_MAX_WORDS" "words_val ws ?n = bn_val a * bn_val b" "\<And>k. ?n \<le> k \<Longrightarrow> k < BN_MAX_WORDS \<Longrightarrow> ws ! k = 0"
    using mul_rows [OF assms(2,3), of a] by (simp_all add: ws_def bn_val_def)
  have "bn_mul r a b = (0, ?s)" using False assms(3) by (simp add: bn_mul_def ws_def Let_def)
  moreover have v: "words_val ws (trim1 ws ?n) = words_val ws ?n"
  proof (cases "?n = 0")
    case True
    then show ?thesis using w(3) [of 0] by (simp add: trim1_def BN_MAX_WORDS_def)
  qed simp
  moreover have "bn_normal ?s"
    using trim1_facts(1) [of ws ?n] trim1_facts(2) [of ?n ws] trim1_facts(3) [of ws ?n] w(1) assms(3) by (cases "?n = 0") (auto simp: bn_normal_def bn_trimmed_def bn_ok_def trim1_def BN_MAX_WORDS_def)
  ultimately show ?thesis using that [of ?s] w(2) by (simp add: bn_normal_def bn_val_def)
qed

section \<open>Words as factors and divisors\<close>

lemma mul_word_rounds:
  assumes "n \<le> length ws0" "fold (mul_word_round w) [0..<n] (ws0, 0) = (ws, c)"
  shows "length ws = length ws0" "\<And>k. n \<le> k \<Longrightarrow> ws ! k = ws0 ! k" "words_val ws n + unat c * 2 ^ (64 * n) = words_val ws0 n * unat w"
  using assms
proof (induction n arbitrary: ws c)
  case (Suc n)
  obtain us d where u: "fold (mul_word_round w) [0..<n] (ws0, 0) = (us, d)" by fastforce
  have step: "fold (mul_word_round w) [0..<Suc n] (ws0, 0) = mul_word_round w n (us, d)" using u by simp
  { case 1
    have "length us = length ws0" using Suc.IH(1) [OF _ u] 1 by simp
    then show ?case using 1 unfolding step by (auto simp: mul_word_round_def Let_def) }
  { case (2 k)
    have "us ! k = ws0 ! k" using Suc.IH(2) [of k us d] u 2 by simp
    then show ?case using 2 unfolding step by (auto simp: mul_word_round_def Let_def) }
  { case 3
    have IH: "length us = length ws0" "us ! n = ws0 ! n" "words_val us n + unat d * 2 ^ (64 * n) = words_val ws0 n * unat w"
      using Suc.IH(1) [OF _ u] Suc.IH(3) [OF _ u] Suc.IH(2) [of n us d] u 3 by auto
    define p where "p = (ucast (us ! n) * ucast w + ucast d :: u128)"
    have ws: "ws = us[n := ucast p]" "c = ucast (drop_bit 64 p)" using 3 unfolding step by (auto simp: mul_word_round_def Let_def p_def)
    have "unat (us ! n) * unat w + unat d = unat (ucast p :: u64) + unat c * 2 ^ 64"
      using word_split [of p] mul_add_word [of "us ! n" w d 0] unfolding ws p_def by simp
    then have "(unat (us ! n) * unat w + unat d) * 2 ^ (64 * n) = (unat (ucast p :: u64) + unat c * 2 ^ 64) * 2 ^ (64 * n)" by simp
    moreover have "(2 :: nat) ^ (64 * Suc n) = 2 ^ 64 * 2 ^ (64 * n)" by (simp add: power_add)
    ultimately show ?case using IH 3(1) unfolding ws(1) by (simp add: algebra_simps) }
qed simp_all

lemma divide_step:
  fixes d r w :: u64
  assumes "r < d"
  defines "v \<equiv> (push_bit 64 (ucast r) OR ucast w :: u128)"
  shows "unat (ucast (v div ucast d) :: u64) * unat d + unat (ucast (v mod ucast d) :: u64) = unat r * 2 ^ 64 + unat w" "(ucast (v mod ucast d) :: u64) < d"
proof -
  have rd: "unat r < unat d" using assms(1) by (simp add: word_less_nat_alt)
  have v: "unat v = unat r * 2 ^ 64 + unat w" unfolding v_def by (rule join_words)
  have q: "unat (v div ucast d) = unat v div unat d" "unat (v mod ucast d) = unat v mod unat d" by (simp_all add: unat_div_distrib unat_mod_distrib wide_word)
  have "unat v < (unat r + 1) * 2 ^ 64" using v unat_digit [of w] by simp
  also have "\<dots> \<le> unat d * 2 ^ 64" using rd by (intro mult_right_mono) simp_all
  finally have "unat v div unat d < 2 ^ 64" using rd by (simp add: div_less_iff_less_mult mult.commute)
  then have "unat (ucast (v div ucast d) :: u64) = unat v div unat d" using q(1) by (simp only: low_word) simp
  moreover have m: "unat v mod unat d < unat d" using rd by simp
  then have "unat v mod unat d < 2 ^ 64" using unat_digit [of d] by simp
  then have "unat (ucast (v mod ucast d) :: u64) = unat v mod unat d" using q(2) by (simp only: low_word) simp
  ultimately show "unat (ucast (v div ucast d) :: u64) * unat d + unat (ucast (v mod ucast d) :: u64) = unat r * 2 ^ 64 + unat w" "(ucast (v mod ucast d) :: u64) < d"
    using v m by (simp_all add: word_less_nat_alt)
qed

lemma div_words_value:
  assumes "r < d" "n \<le> length ws" "div_words d n ws r = (vs, x)"
  shows "length vs = length ws \<and> (\<forall>k \<ge> n. vs ! k = ws ! k) \<and> words_val vs n * unat d + unat x = unat r * 2 ^ (64 * n) + words_val ws n \<and> x < d"
  using assms
proof (induction n arbitrary: ws r)
  case (Suc n)
  define v where "v = (push_bit 64 (ucast r) OR ucast (ws ! n) :: u128)"
  let ?q = "ucast (v div ucast d) :: u64" and ?r = "ucast (v mod ucast d) :: u64"
  note ds = divide_step [of r d "ws ! n", folded v_def, OF Suc.prems(1)]
  have "div_words d n (ws[n := ?q]) ?r = (vs, x)" using Suc.prems(3) by (simp add: v_def Let_def)
  then have IH: "length vs = length ws" "\<And>k. n \<le> k \<Longrightarrow> vs ! k = ws[n := ?q] ! k" "words_val vs n * unat d + unat x = unat ?r * 2 ^ (64 * n) + words_val ws n" "x < d"
    using Suc.IH [OF ds(2), of "ws[n := ?q]"] Suc.prems(2) by auto
  have "(unat ?q * unat d + unat ?r) * 2 ^ (64 * n) = (unat r * 2 ^ 64 + unat (ws ! n)) * 2 ^ (64 * n)" using ds(1) by simp
  moreover have "(2 :: nat) ^ (64 * Suc n) = 2 ^ 64 * 2 ^ (64 * n)" by (simp add: power_add)
  moreover have "vs ! n = ?q" using IH(2) [of n] Suc.prems(2) by simp
  ultimately have "words_val vs (Suc n) * unat d + unat x = unat r * 2 ^ (64 * Suc n) + words_val ws (Suc n)" using IH(3) by (simp add: algebra_simps)
  then show ?case using IH(1,2,4) by simp
qed simp

lemma bn_div_word_value:
  assumes "bn_ok a" "d \<noteq> 0" "0 < bn_used a"
  obtains q where "bn_div_word a d = (of_nat (bn_val a mod unat d), q)" "bn_normal q" "bn_val q = bn_val a div unat d"
proof -
  obtain ws r where f: "div_words d (bn_used a) (bn_words a) 0 = (ws, r)" by fastforce
  have d: "0 < d" using assms(2) by (simp add: word_neq_0_conv)
  note v = div_words_value [OF d _ f]
  have w: "length ws = BN_MAX_WORDS" "words_val ws (bn_used a) * unat d + unat r = bn_val a" "unat r < unat d"
    using v assms(1) by (simp_all add: bn_ok_def bn_val_def word_less_nat_alt)
  have e: "words_val ws (bn_used a) = bn_val a div unat d" "unat r = bn_val a mod unat d" unfolding w(2) [symmetric] using w(3) by simp_all
  let ?s = "\<lparr>bn_words = (if trim ws (bn_used a) = 0 then ws[0 := 0] else ws), bn_used = (if trim ws (bn_used a) = 0 then 1 else trim ws (bn_used a)), bn_sign = bn_sign a\<rparr>"
  have "r = of_nat (bn_val a mod unat d)" using e(2) by (simp flip: e(2))
  then have "bn_div_word a d = (of_nat (bn_val a mod unat d), ?s)" using f assms(2) by (simp add: bn_div_word_def Let_def)
  moreover have "bn_normal ?s" "bn_val ?s = bn_val a div unat d" using trim_number [OF w(1) assms(3), of "bn_sign a"] assms(1) e(1) by (simp_all only: bn_ok_def)
  ultimately show ?thesis using that [of ?s] by simp
qed

lemma mod_words_value: "r < d \<Longrightarrow> unat (mod_words d n ws r) = (unat r * 2 ^ (64 * n) + words_val ws n) mod unat d"
proof (induction n arbitrary: r)
  case 0
  then show ?case by (simp add: word_less_nat_alt)
next
  case (Suc n)
  define v where "v = (push_bit 64 (ucast r) OR ucast (ws ! n) :: u128)"
  let ?q = "ucast (v div ucast d) :: u64" and ?r = "ucast (v mod ucast d) :: u64"
  note ds = divide_step [of r d "ws ! n", folded v_def, OF Suc.prems]
  have "unat r * 2 ^ (64 * Suc n) + words_val ws (Suc n) = (unat r * 2 ^ 64 + unat (ws ! n)) * 2 ^ (64 * n) + words_val ws n" by (simp add: power_add algebra_simps)
  also have "\<dots> = (unat ?r * 2 ^ (64 * n) + words_val ws n) + unat d * (unat ?q * 2 ^ (64 * n))" unfolding ds(1) [symmetric] by (simp add: algebra_simps)
  finally have eq: "unat r * 2 ^ (64 * Suc n) + words_val ws (Suc n) = (unat ?r * 2 ^ (64 * n) + words_val ws n) + unat d * (unat ?q * 2 ^ (64 * n))" .
  have "(unat r * 2 ^ (64 * Suc n) + words_val ws (Suc n)) mod unat d = (unat ?r * 2 ^ (64 * n) + words_val ws n) mod unat d" unfolding eq by (rule mod_mult_self2)
  then show ?case using Suc.IH [OF ds(2)] by (simp add: v_def)
qed

lemma bn_mod_word_value: "d \<noteq> 0 \<Longrightarrow> unat (bn_mod_word a d) = bn_val a mod unat d"
  using mod_words_value [of 0 d "bn_used a" "bn_words a"] word_gt_0 [of d] by (simp add: bn_mod_word_def bn_val_def)

section \<open>Division by a number of one word\<close>

definition one_word :: "big_num \<Rightarrow> bool" where
  "one_word m \<longleftrightarrow> bn_ok m \<and> bn_used m = 1 \<and> bn_words m ! 0 \<noteq> 0"

lemma one_word_facts:
  assumes "one_word m"
  shows "bn_val m = unat (bn_words m ! 0)" "0 < bn_val m" "bn_val m < 2 ^ 64" "bn_normal m" "bn_trimmed m" "\<not> bn_is_zero m" "bn_used m = 1"
proof -
  show v: "bn_val m = unat (bn_words m ! 0)" using assms by (simp add: one_word_def bn_val_def)
  show "0 < bn_val m" "bn_val m < 2 ^ 64" using assms unat_digit [of "bn_words m ! 0"] by (simp_all add: v one_word_def unat_gt_0)
qed (use assms in \<open>simp_all add: one_word_def bn_normal_def bn_trimmed_def bn_is_zero_def\<close>)

lemma set_word_facts [simp]: "bn_normal (bn_set_word x)" "bn_val (bn_set_word x) = unat x" "bn_used (bn_set_word x) = 1" "bn_words (bn_set_word x) ! 0 = x"
  by (simp_all add: bn_set_word_def bn_normal_def bn_trimmed_def bn_ok_def bn_val_def BN_MAX_WORDS_def)

lemma bn_div_one_word:
  assumes "bn_trimmed a" "one_word m"
  obtains q s where "bn_div q0 r0 a m = Inr (0, q, s)" "bn_trimmed q" "bn_trimmed s" "bn_val q = bn_val a div bn_val m" "bn_val s = bn_val a mod bn_val m"
    "bn_used a \<noteq> 0 \<Longrightarrow> bn_normal s"
proof (cases "bn_val a < bn_val m")
  case True
  then have "bn_cmp a m < 0" using bn_cmp_value [OF assms(1) one_word_facts(5) [OF assms(2)]] one_word_facts(2) [OF assms(2)] by (simp add: sgn_if)
  then show ?thesis using that [of bn_zero a] assms True one_word_facts [OF assms(2)] by (simp add: bn_div_def bn_normal_def)
next
  case False
  note m = one_word_facts [OF assms(2)]
  have c: "\<not> bn_cmp a m < 0" using False bn_cmp_value [OF assms(1) m(5)] m(2) by (simp add: sgn_if)
  then have u: "0 < bn_used a" using m(7) by (auto simp: bn_cmp_def split: if_splits)
  obtain q where q: "bn_div_word a (bn_words m ! 0) = (of_nat (bn_val a mod bn_val m), q)" "bn_normal q" "bn_val q = bn_val a div bn_val m"
    using bn_div_word_value [OF trimmed_ok [OF assms(1)], of "bn_words m ! 0"] u assms(2) m(1) by (auto simp: one_word_def)
  have "bn_val a mod bn_val m < 2 ^ 64" using m(2,3) by (meson mod_less_divisor less_trans)
  then have "unat (of_nat (bn_val a mod bn_val m) :: u64) = bn_val a mod bn_val m" by (simp add: unat_of_nat)
  moreover have "bn_div q0 r0 a m = Inr (0, q, bn_set_word (of_nat (bn_val a mod bn_val m)))" using q(1) m c by (simp add: bn_div_def)
  ultimately show ?thesis using that [of q "bn_set_word (of_nat (bn_val a mod bn_val m))"] q(2,3) set_word_facts(1) by (simp add: bn_normal_def)
qed

lemma bn_mod_one_word:
  assumes "bn_trimmed a" "one_word m"
  obtains s where "bn_mod r a m = Inr (0, s)" "bn_trimmed s" "bn_val s = bn_val a mod bn_val m" "bn_used a \<noteq> 0 \<Longrightarrow> bn_normal s"
proof -
  obtain q s where s: "bn_div bn_zero r a m = Inr (0, q, s)" "bn_trimmed s" "bn_val s = bn_val a mod bn_val m" "bn_used a \<noteq> 0 \<Longrightarrow> bn_normal s"
    using bn_div_one_word [OF assms, where ?q0.0 = bn_zero and ?r0.0 = r] by blast
  then show ?thesis using that [of s] one_word_facts(6) [OF assms(2)] by (simp add: bn_mod_def)
qed

section \<open>Powers modulo a word\<close>

lemma trimmed_word: "bn_trimmed a \<Longrightarrow> bn_val a < 2 ^ 64 \<Longrightarrow> bn_used a \<noteq> 0 \<Longrightarrow> bn_used a = 1 \<and> bn_val a = unat (bn_words a ! 0)"
  using trimmed_small [of a] by (cases "bn_used a") (auto simp: bn_val_def)

lemma bn_is_zero_iff: "bn_normal a \<Longrightarrow> bn_is_zero a \<longleftrightarrow> bn_val a = 0"
  using trimmed_word [of a] is_zero_val [of a] by (auto simp: bn_normal_def bn_is_zero_def unat_eq_zero)

lemma bn_is_one_iff: "bn_trimmed a \<Longrightarrow> bn_is_one a \<longleftrightarrow> bn_val a = 1"
proof
  assume "bn_is_one a"
  then show "bn_val a = 1" by (simp add: bn_is_one_def bn_val_def)
next
  assume a: "bn_trimmed a" "bn_val a = 1"
  then have "bn_used a \<noteq> 0" by (cases "bn_used a") (auto simp: bn_val_def)
  then have "bn_used a = 1" "unat (bn_words a ! 0) = 1" using trimmed_word [of a] a by simp_all
  then show "bn_is_one a" by (simp add: bn_is_one_def word_unat_eq_iff)
qed

lemma bn_odd: "bn_used a \<noteq> 0 \<Longrightarrow> bit (bn_words a ! 0) 0 \<longleftrightarrow> odd (bn_val a)"
proof -
  have "odd (words_val ws (Suc n)) \<longleftrightarrow> odd (unat (ws ! 0))" for ws n by (induction n) (auto simp: even_mult_iff)
  moreover have "bit x 0 \<longleftrightarrow> odd (unat x)" for x :: u64 by (simp add: bit_unsigned_iff flip: bit_0)
  moreover assume "bn_used a \<noteq> 0"
  then obtain n where "bn_used a = Suc n" by (cases "bn_used a") auto
  ultimately show ?thesis by (simp add: bn_val_def del: words_val_simps)
qed

lemma mul_mod_value:
  assumes "bn_trimmed a" "bn_trimmed b" "bn_val a < 2 ^ 64" "bn_val b < 2 ^ 64" "one_word m"
  obtains t where "mul_mod r a b m = Inr t" "bn_trimmed t" "bn_val t = bn_val a * bn_val b mod bn_val m"
proof -
  have "bn_used a + bn_used b \<le> BN_MAX_WORDS" using trimmed_small [of a] trimmed_small [of b] assms(1-4) by (simp add: BN_MAX_WORDS_def)
  then obtain p where p: "bn_mul r a b = (0, p)" "bn_trimmed p" "bn_val p = bn_val a * bn_val b" by (rule bn_mul_value [OF trimmed_ok trimmed_ok, OF assms(1,2)])
  obtain t where "bn_mod p p m = Inr (0, t)" "bn_trimmed t" "bn_val t = bn_val p mod bn_val m" by (rule bn_mod_one_word [OF p(2) assms(5)])
  then show ?thesis using that [of t] p by (simp add: mul_mod_def)
qed

lemma bn_halved:
  assumes "bn_normal e"
  shows "bn_normal (snd (bn_div_word e 2))" "bn_val (snd (bn_div_word e 2)) = bn_val e div 2"
proof -
  have e: "bn_ok e" "0 < bn_used e" "(2 :: u64) \<noteq> 0" using assms by (simp_all add: bn_normal_def trimmed_ok)
  show "bn_normal (snd (bn_div_word e 2))" "bn_val (snd (bn_div_word e 2)) = bn_val e div 2" by (rule bn_div_word_value [OF e(1,3,2)]; simp)+
qed

lemma power_halves: "(x :: nat) ^ n = (x * x) ^ (n div 2) * (if odd n then x else 1)"
proof (cases "odd n")
  case True
  then obtain k where "n = 2 * k + 1" by (rule oddE)
  then show ?thesis by (simp add: power_mult power2_eq_square)
next
  case False
  then obtain k where "n = 2 * k" by auto
  then show ?thesis by (simp add: power_mult power2_eq_square)
qed

lemma exp_loop_value:
  assumes "one_word m" "bn_trimmed b" "bn_trimmed t" "bn_val b < bn_val m" "bn_val t < bn_val m" "bn_normal e"
  shows "\<exists>r. exp_loop m b e t = Some (Inr r) \<and> bn_trimmed r \<and> bn_val r = bn_val t * bn_val b ^ bn_val e mod bn_val m"
  using assms
proof (induction "bn_val e" arbitrary: b e t rule: less_induct)
  case less
  note m = one_word_facts [OF less.prems(1)]
  show ?case
  proof (cases "bn_val e = 0")
    case True
    then have "bn_is_zero e" using bn_is_zero_iff [OF less.prems(6)] by simp
    then show ?thesis using less.prems True by (simp add: exp_loop.simps)
  next
    case False
    then have nz: "\<not> bn_is_zero e" using bn_is_zero_iff [OF less.prems(6)] by simp
    have u: "0 < bn_used e" "bn_ok e" using less.prems(6) by (simp_all add: bn_normal_def trimmed_ok)
    have l: "bn_val b < 2 ^ 64" "bn_val t < 2 ^ 64" using less.prems(4,5) m(3) by linarith+
    obtain t' where t': "mul_mod t t b m = Inr t'" "bn_trimmed t'" "bn_val t' = bn_val t * bn_val b mod bn_val m"
      by (rule mul_mod_value [OF less.prems(3,2) l(2,1) less.prems(1)])
    obtain b' where b': "mul_mod b b b m = Inr b'" "bn_trimmed b'" "bn_val b' = bn_val b * bn_val b mod bn_val m"
      by (rule mul_mod_value [OF less.prems(2,2) l(1,1) less.prems(1)])
    define e' where "e' = snd (bn_div_word e 2)"
    note e' = e'_def [symmetric] bn_halved [OF less.prems(6), folded e'_def]
    define t2 where "t2 = (if odd (bn_val e) then t' else t)"
    have st: "exp_loop m b e t = exp_loop m b' e' t2"
      using nz t'(1) b'(1) e'(1) bn_odd [of e] u by (subst exp_loop.simps) (simp add: t2_def)
    have lt: "bn_val b' < bn_val m" "bn_val t2 < bn_val m" "bn_trimmed t2" using b'(3) t'(2,3) m(2) less.prems(3,5) by (auto simp: t2_def)
    obtain r where r: "exp_loop m b' e' t2 = Some (Inr r)" "bn_trimmed r" "bn_val r = bn_val t2 * bn_val b' ^ bn_val e' mod bn_val m"
      using less.hyps [of e' b' t2] False e'(2,3) b'(2) lt less.prems(1) by auto
    have "bn_val t2 * bn_val b' ^ bn_val e' mod bn_val m = bn_val t2 * (bn_val b * bn_val b) ^ (bn_val e div 2) mod bn_val m"
      unfolding b'(3) e'(3) by (metis mod_mult_right_eq power_mod)
    also have "\<dots> = bn_val t * bn_val b ^ bn_val e mod bn_val m"
    proof (cases "odd (bn_val e)")
      case True
      have "bn_val t2 * (bn_val b * bn_val b) ^ (bn_val e div 2) mod bn_val m = bn_val t * bn_val b * (bn_val b * bn_val b) ^ (bn_val e div 2) mod bn_val m"
        using True t'(3) by (simp add: t2_def mod_mult_left_eq)
      also have "\<dots> = bn_val t * bn_val b ^ bn_val e mod bn_val m" using True power_halves [of "bn_val b" "bn_val e"] by (simp add: ac_simps)
      finally show ?thesis .
    qed (use power_halves [of "bn_val b" "bn_val e"] in \<open>simp add: t2_def\<close>)
    finally show ?thesis using st r by simp
  qed
qed

lemma sign_facts [simp]: "bn_val (a\<lparr>bn_sign := g\<rparr>) = bn_val a" "bn_trimmed (a\<lparr>bn_sign := g\<rparr>) = bn_trimmed a"
  by (simp_all add: bn_val_def bn_trimmed_def bn_ok_def)

text \<open>
  C38. \<open>SNEPPX_bn_exp_mod\<close> with a modulus of one word that is not zero, and a base and an exponent of any length with at least one word and no leading zero words, ends without a
  fault and gives the power modulo \<open>m\<close>, except that it gives 0 whenever the base is a multiple of \<open>m\<close>, also for the exponent 0.
\<close>

theorem bn_exp_mod_power:
  assumes "bn_normal base" "bn_normal e" "one_word m"
  shows "\<exists>s. SNEPPX_bn_exp_mod (Some r) (Some base) (Some e) (Some m) = Some (Inr (0, Some s)) \<and> bn_trimmed s \<and>
    bn_val s = (if bn_val base mod bn_val m = 0 then 0 else bn_val base ^ bn_val e mod bn_val m)"
proof -
  note m = one_word_facts [OF assms(3)]
  obtain b where b: "bn_mod base base m = Inr (0, b)" "bn_trimmed b" "bn_val b = bn_val base mod bn_val m" "bn_normal b"
    using bn_mod_one_word [of base m base] assms(1,3) by (auto simp: bn_normal_def)
  show ?thesis
  proof (cases "bn_val b = 0")
    case True
    then show ?thesis using b m(6) bn_is_zero_iff [OF b(4)] by (simp add: SNEPPX_bn_exp_mod_def bn_exp_mod_def)
  next
    case False
    have t: "bn_trimmed (bn_set_word 1)" "bn_val (bn_set_word 1) < bn_val m" "bn_val b < bn_val m"
      using False b(3) m(2) set_word_facts(1) by (auto simp: bn_normal_def) (metis One_nat_def Suc_lessI mod_less_divisor mod_by_1 One_nat_def less_one not_gr_zero)?
    obtain s where "exp_loop m b e (bn_set_word 1) = Some (Inr s)" "bn_trimmed s" "bn_val s = 1 * bn_val b ^ bn_val e mod bn_val m"
      using exp_loop_value [OF assms(3) b(2) t(1,3,2) assms(2)] by auto
    then show ?thesis using False b m(6) bn_is_zero_iff [OF b(4)] by (simp add: SNEPPX_bn_exp_mod_def bn_exp_mod_def power_mod)
  qed
qed

section \<open>Greatest common divisors and inverses\<close>

lemma one_word_iff: "bn_normal a \<Longrightarrow> bn_val a < 2 ^ 64 \<Longrightarrow> bn_val a \<noteq> 0 \<Longrightarrow> one_word a"
  using trimmed_word [of a] by (auto simp: bn_normal_def one_word_def trimmed_ok)

lemma gcd_loop_value:
  assumes "bn_trimmed a" "0 < bn_used a" "bn_normal b" "bn_val b < 2 ^ 64"
  shows "\<exists>g. gcd_loop a b tr = Some (Inr g) \<and> bn_trimmed g \<and> bn_val g = gcd (bn_val a) (bn_val b)"
  using assms
proof (induction "bn_val b" arbitrary: a b tr rule: less_induct)
  case less
  show ?case
  proof (cases "bn_val b = 0")
    case True
    then show ?thesis using less.prems bn_is_zero_iff [OF less.prems(3)] by (simp add: gcd_loop.simps)
  next
    case False
    then have o: "one_word b" "\<not> bn_is_zero b" using one_word_iff less.prems(3,4) bn_is_zero_iff by auto
    obtain s where s: "bn_mod tr a b = Inr (0, s)" "bn_normal s" "bn_val s = bn_val a mod bn_val b"
      using bn_mod_one_word [OF less.prems(1) o(1), of tr] less.prems(2) by auto
    have lt: "bn_val s < bn_val b" using s(3) False by simp
    then obtain g where g: "gcd_loop b s s = Some (Inr g)" "bn_trimmed g" "bn_val g = gcd (bn_val b) (bn_val s)"
      using less.hyps [of s b s] less.prems(3,4) s(2) by (auto simp: bn_normal_def)
    moreover have "gcd_loop a b tr = gcd_loop b s s" using o(2) s(1) by (subst gcd_loop.simps) simp
    ultimately show ?thesis using s(3) by (simp add: gcd_red_nat [of "bn_val a"])
  qed
qed

theorem bn_gcd_value:
  assumes "bn_normal a" "bn_normal b" "bn_val b < 2 ^ 64"
  shows "\<exists>g. SNEPPX_bn_gcd (Some r) (Some a) (Some b) = Some (Inr (0, Some g)) \<and> bn_trimmed g \<and> bn_val g = gcd (bn_val a) (bn_val b)"
  using gcd_loop_value [of a b bn_zero] assms by (auto simp: SNEPPX_bn_gcd_def bn_gcd_def bn_normal_def)

lemma bn_cmp_zero_sym: "bn_trimmed a \<Longrightarrow> bn_trimmed b \<Longrightarrow> bn_cmp b a = 0 \<Longrightarrow> bn_cmp a b = 0"
  using bn_cmp_order(3) [of b a] bn_cmp_value [of a b] by (auto simp: bn_cmp_def split: if_splits)

lemma next_coefficient_value:
  assumes "one_word m" "bn_trimmed q" "bn_trimmed s0" "bn_trimmed s1" "bn_ok tmp" "bn_val q < 2 ^ 64" "bn_val s0 < bn_val m" "bn_val s1 < bn_val m"
  obtains c where "next_coefficient m q s0 s1 tmp = Inr c" "bn_trimmed c" "int (bn_val c) = (int (bn_val s0) - int (bn_val q) * int (bn_val s1)) mod int (bn_val m)"
proof -
  note m = one_word_facts [OF assms(1)]
  have "bn_used q + bn_used s1 \<le> BN_MAX_WORDS"
    using trimmed_small [of q] trimmed_small [of s1] assms(2,4,6,8) m(3) by (simp add: BN_MAX_WORDS_def)
  then obtain p where p: "bn_mul tmp q s1 = (0, p)" "bn_trimmed p" "bn_val p = bn_val q * bn_val s1" by (rule bn_mul_value [OF trimmed_ok trimmed_ok, OF assms(2,4)])
  let ?x = "int (bn_val s0) - int (bn_val q) * int (bn_val s1)"
  have x: "?x = int (bn_val s0) - int (bn_val p)" using p(3) by simp
  show ?thesis
  proof (cases "bn_cmp s0 p \<ge> 0")
    case True
    then have le: "bn_val p \<le> bn_val s0" using bn_cmp_order [OF assms(3) p(2)] by fastforce
    obtain c where c: "bn_sub p s0 p = (0, c)" "bn_trimmed c" "bn_val c = bn_val s0 - bn_val p"
      using bn_sub_value [OF trimmed_ok [OF p(2)] assms(3) p(2)] le by metis
    then have "int (bn_val c) = ?x mod int (bn_val m)" using le assms(7) unfolding x by simp
    then show ?thesis using that [of c] c p(1) True by (simp add: next_coefficient_def)
  next
    case False
    then have le: "bn_val s0 \<le> bn_val p" "bn_cmp p s0 \<noteq> 0" using bn_cmp_order [OF assms(3) p(2)] bn_cmp_zero_sym [OF assms(3) p(2)] by auto
    obtain d where d: "bn_sub p p s0 = (0, d)" "bn_normal d" "bn_val d = bn_val p - bn_val s0"
      using bn_sub_value [OF trimmed_ok [OF p(2)] p(2) assms(3)] le by (metis le_antisym diff_self_eq_0)
    then have dt: "bn_trimmed d" "bn_used d \<noteq> 0" by (simp_all add: bn_normal_def)
    obtain e where e: "bn_mod d d m = Inr (0, e)" "bn_normal e" "bn_val e = bn_val d mod bn_val m" using bn_mod_one_word [OF dt(1) assms(1), of d] dt(2) by metis
    have xd: "?x = - int (bn_val d)" using x le d(3) by simp
    have em: "int (bn_val d) mod int (bn_val m) = int (bn_val e)" using e(3) by (simp add: zmod_int)
    show ?thesis
    proof (cases "bn_val e = 0")
      case True
      then have "int (bn_val e) = ?x mod int (bn_val m)" unfolding xd using em by (simp add: zmod_zminus1_eq_if)
      then show ?thesis using that [of e] e d(1) p(1) False True bn_is_zero_iff [OF e(2)] by (simp add: next_coefficient_def bn_normal_def)
    next
      case nz: False
      have lt: "bn_val e < bn_val m" using e(3) m(2) by simp
      have et: "bn_trimmed e" using e(2) by (simp add: bn_normal_def)
      obtain c where c: "bn_sub e m e = (0, c)" "bn_trimmed c" "bn_val c = bn_val m - bn_val e"
        using bn_sub_value [OF trimmed_ok [OF et] m(5) et] lt by (metis less_imp_le_nat)
      then have "int (bn_val c) = ?x mod int (bn_val m)" unfolding xd using em nz lt by (simp add: zmod_zminus1_eq_if)
      then show ?thesis using that [of c] c e(1) d(1) p(1) False nz bn_is_zero_iff [OF e(2)] by (simp add: next_coefficient_def)
    qed
  qed
qed

lemma inv_loop_value:
  assumes "one_word m" "bn_normal r0" "bn_normal r1" "bn_val r0 < 2 ^ 64" "bn_val r1 < 2 ^ 64" "bn_trimmed s0" "bn_trimmed s1" "bn_val s0 < bn_val m" "bn_val s1 < bn_val m"
    and "int (bn_val s0) * x mod int (bn_val m) = int (bn_val r0) mod int (bn_val m)" "int (bn_val s1) * x mod int (bn_val m) = int (bn_val r1) mod int (bn_val m)"
  shows "\<exists>g s. inv_loop m r0 r1 s0 s1 q tmp = Some (Inr (g, s)) \<and> bn_trimmed g \<and> bn_val g = gcd (bn_val r0) (bn_val r1) \<and>
    bn_trimmed s \<and> bn_val s < bn_val m \<and> int (bn_val s) * x mod int (bn_val m) = int (bn_val g) mod int (bn_val m)"
  using assms
proof (induction "bn_val r1" arbitrary: r0 r1 s0 s1 q tmp rule: less_induct)
  case less
  note m = one_word_facts [OF less.prems(1)]
  show ?case
  proof (cases "bn_val r1 = 0")
    case True
    then show ?thesis using less.prems bn_is_zero_iff [OF less.prems(3)] by (simp add: inv_loop.simps bn_normal_def)
  next
    case False
    then have o: "one_word r1" "\<not> bn_is_zero r1" using one_word_iff less.prems(3,5) bn_is_zero_iff by auto
    have r0: "bn_trimmed r0" "bn_used r0 \<noteq> 0" using less.prems(2) by (simp_all add: bn_normal_def)
    obtain q' t where d: "bn_div q tmp r0 r1 = Inr (0, q', t)" "bn_trimmed q'" "bn_normal t" "bn_val q' = bn_val r0 div bn_val r1" "bn_val t = bn_val r0 mod bn_val r1"
      using bn_div_one_word [OF r0(1) o(1), where ?q0.0 = q and ?r0.0 = tmp] r0(2) by metis
    have tt: "bn_trimmed t" using d(3) by (simp add: bn_normal_def)
    have "bn_val q' < 2 ^ 64" using d(4) less.prems(4) div_le_dividend [of "bn_val r0" "bn_val r1"] by linarith
    then obtain c where c: "next_coefficient m q' s0 s1 t = Inr c" "bn_trimmed c" "int (bn_val c) = (int (bn_val s0) - int (bn_val q') * int (bn_val s1)) mod int (bn_val m)"
      by (rule next_coefficient_value [OF less.prems(1) d(2) less.prems(6,7) trimmed_ok [OF tt] _ less.prems(8,9)])
    have lt: "bn_val t < bn_val r1" using d(5) False by simp
    have lt': "bn_val t < 2 ^ 64" using lt less.prems(5) by (rule less_trans)
    have "int (bn_val c) < int (bn_val m)" unfolding c(3) using m(2) by simp
    then have cm: "bn_val c < bn_val m" by simp
    have "int (bn_val c) * x mod int (bn_val m) = (int (bn_val s0) * x - int (bn_val q') * (int (bn_val s1) * x)) mod int (bn_val m)"
      unfolding c(3) mod_mult_left_eq by (simp add: algebra_simps)
    also have "\<dots> = (int (bn_val r0) - int (bn_val q') * int (bn_val r1)) mod int (bn_val m)"
      using less.prems(10,11) by (metis mod_diff_eq mod_mult_right_eq)
    also have "int (bn_val r0) - int (bn_val q') * int (bn_val r1) = int (bn_val t)"
      unfolding d(4,5) zdiv_int zmod_int by (simp add: minus_div_mult_eq_mod)
    finally have cx: "int (bn_val c) * x mod int (bn_val m) = int (bn_val t) mod int (bn_val m)" .
    have st: "inv_loop m r0 r1 s0 s1 q tmp = inv_loop m r1 t s1 c q' c" using o(2) d(1) c(1) by (subst inv_loop.simps) simp
    show ?thesis unfolding st
      using less.hyps [OF lt less.prems(1,3) d(3) less.prems(5) lt' less.prems(7) c(2) less.prems(9) cm less.prems(11) cx, of q' c] d(5)
      by (simp add: gcd_red_nat [of "bn_val r0"])
  qed
qed

text \<open>
  C39. \<open>SNEPPX_bn_inv_mod\<close> for a modulus of one word above 1 and a number of any length with at least one word and no leading zero words: it ends without a fault, with the
  inverse below the modulus when there is one, and with \<open>- 1\<close> and the result untouched when the number and the modulus have a common divisor.
\<close>

theorem bn_inv_mod_inverse:
  assumes "bn_normal a" "one_word m" "1 < bn_val m"
  shows "if coprime (bn_val a) (bn_val m)
    then \<exists>s. SNEPPX_bn_inv_mod (Some r) (Some a) (Some m) = Some (Inr (0, Some s)) \<and> bn_trimmed s \<and> bn_val s < bn_val m \<and> bn_val s * bn_val a mod bn_val m = 1
    else SNEPPX_bn_inv_mod (Some r) (Some a) (Some m) = Some (Inr (- 1, Some r))"
proof -
  note m = one_word_facts [OF assms(2)]
  have a: "bn_trimmed a" "bn_used a \<noteq> 0" using assms(1) by (simp_all add: bn_normal_def)
  obtain r1 where r1: "bn_mod bn_zero a m = Inr (0, r1)" "bn_normal r1" "bn_val r1 = bn_val a mod bn_val m" using bn_mod_one_word [OF a(1) assms(2), of bn_zero] a(2) by metis
  have lt: "bn_val r1 < 2 ^ 64" using r1(3) m(2,3) by (metis mod_less_divisor less_trans)
  obtain g s where g: "inv_loop m m r1 (bn_set_word 0) (bn_set_word 1) bn_zero bn_zero = Some (Inr (g, s))" "bn_trimmed g" "bn_val g = gcd (bn_val m) (bn_val r1)"
    "bn_trimmed s" "bn_val s < bn_val m" "int (bn_val s) * int (bn_val a) mod int (bn_val m) = int (bn_val g) mod int (bn_val m)"
    using inv_loop_value [OF assms(2) m(4) r1(2) m(3) lt, of "bn_set_word 0" "bn_set_word 1" "int (bn_val a)" bn_zero bn_zero] assms(3) r1(3) set_word_facts(1)
    by (auto simp: bn_normal_def zmod_int)
  have gv: "bn_val g = gcd (bn_val a) (bn_val m)" using g(3) r1(3) by (metis gcd.commute gcd_red_nat)
  show ?thesis
  proof (cases "coprime (bn_val a) (bn_val m)")
    case False
    then have "\<not> bn_is_one g" using gv bn_is_one_iff [OF g(2)] by (simp add: coprime_iff_gcd_eq_1)
    then show ?thesis using False g(1) r1(1) m(6) by (simp add: SNEPPX_bn_inv_mod_def bn_inv_mod_def)
  next
    case True
    then have one: "bn_is_one g" "bn_val g = 1" using gv bn_is_one_iff [OF g(2)] by (simp_all add: coprime_iff_gcd_eq_1)
    then have "int (bn_val s * bn_val a mod bn_val m) = 1" using g(6) assms(3) by (simp add: zmod_int)
    then have p: "bn_val s * bn_val a mod bn_val m = 1" by simp
    then have nz: "bn_val s \<noteq> 0" by (intro notI) simp
    obtain u where u: "bn_mod s s m = Inr (0, u)" "bn_trimmed u" "bn_val u = bn_val s mod bn_val m" by (rule bn_mod_one_word [OF g(4) assms(2)])
    then have "\<not> bn_is_zero u" using nz g(5) is_zero_val [of u] by auto
    then show ?thesis using True p one u g(1,5) r1(1) m(6) by (simp add: SNEPPX_bn_inv_mod_def bn_inv_mod_def)
  qed
qed

lemma set_word_witness:
  "bn_normal (bn_set_word x)" "bn_ok (bn_set_word x)" "x \<noteq> 0 \<Longrightarrow> one_word (bn_set_word x)" "bn_val (bn_set_word x) = unat x" "bn_used (bn_set_word x) = 1"
  using set_word_facts [of x] trimmed_ok [of "bn_set_word x"] by (auto simp: bn_normal_def one_word_def bn_set_word_def BN_MAX_WORDS_def)

text \<open>
  C37. \<open>SNEPPX_bn_mul\<close> of two numbers of up to 128 words each: the product, without leading zero words, when the lengths add up to at most 128 words or a factor is
  the one-word zero, and the answer \<open>- 1\<close> with the result untouched otherwise. The result object may be an operand.
\<close>

theorem bn_mul_product:
  assumes "bn_ok a" "bn_ok b"
  shows "if bn_is_zero a \<or> bn_is_zero b \<or> bn_used a + bn_used b \<le> BN_MAX_WORDS
    then \<exists>s. SNEPPX_bn_mul (Some r) (Some a) (Some b) = (0, Some s) \<and> bn_trimmed s \<and> bn_val s = bn_val a * bn_val b
    else SNEPPX_bn_mul (Some r) (Some a) (Some b) = (- 1, Some r)"
proof (cases "bn_used a + bn_used b \<le> BN_MAX_WORDS")
  case True
  then obtain s where "bn_mul r a b = (0, s)" "bn_trimmed s" "bn_val s = bn_val a * bn_val b" by (rule bn_mul_value [OF assms])
  then show ?thesis using True by (simp add: SNEPPX_bn_mul_def)
next
  case False
  then show ?thesis using is_zero_val [of a] is_zero_val [of b] by (auto simp: SNEPPX_bn_mul_def bn_mul_def)
qed

theorem bn_add_value_witness:
  "\<exists>s. SNEPPX_bn_add (Some bn_zero) (Some (bn_set_word (2 ^ 63))) (Some (bn_set_word (2 ^ 63 + 1))) = (0, Some s) \<and> bn_val s = 2 ^ 64 + 1"
  using bn_add_value [of bn_zero "bn_set_word (2 ^ 63)" "bn_set_word (2 ^ 63 + 1)"] set_word_witness(2)
  by (auto simp: bn_ok_def bn_zero_def BN_MAX_WORDS_def)

theorem bn_mul_product_witness:
  "\<exists>s. SNEPPX_bn_mul (Some bn_zero) (Some (bn_set_word (2 ^ 63))) (Some (bn_set_word 6)) = (0, Some s) \<and> bn_trimmed s \<and> bn_val s = 6 * 2 ^ 63"
  using bn_mul_product [of "bn_set_word (2 ^ 63)" "bn_set_word 6" bn_zero]
  by (simp add: set_word_witness BN_MAX_WORDS_def)

theorem bn_exp_mod_power_witness:
  "\<exists>s. SNEPPX_bn_exp_mod (Some bn_zero) (Some (bn_set_word 3)) (Some (bn_set_word 5)) (Some (bn_set_word 7)) = Some (Inr (0, Some s)) \<and> bn_trimmed s \<and> bn_val s = 5"
  using bn_exp_mod_power [of "bn_set_word 3" "bn_set_word 5" "bn_set_word 7" bn_zero] by (simp add: set_word_witness)

theorem bn_inv_mod_inverse_witness:
  "\<exists>s. SNEPPX_bn_inv_mod (Some bn_zero) (Some (bn_set_word 3)) (Some (bn_set_word 7)) = Some (Inr (0, Some s)) \<and> bn_trimmed s \<and> bn_val s < 7 \<and> bn_val s * 3 mod 7 = 1"
proof -
  have "coprime (3 :: nat) 7" by (simp add: coprime_iff_gcd_eq_1 gcd_nat.simps)
  then show ?thesis using bn_inv_mod_inverse [of "bn_set_word 3" "bn_set_word 7" bn_zero] by (simp add: set_word_witness)
qed

section \<open>Where the code does not compute what it should\<close>

text \<open>
  \<open>SNEPPX_bn_from_hex\<close> does not read numbers: it starts from a zero with one word, which the multiplication by 16 replaces by a zero without words, so every
  later multiplication leaves the number alone and the digits are only added up in a word that does not count. The text ``10'' gives a number
  with no words.
\<close>

theorem from_hex_loses_digits: "bn_val (snd (bn_from_hex ''10'')) = 0 \<and> fst (bn_from_hex ''10'') = 0"
  by (simp add: bn_from_hex_def hex_digit_def hex_round_def bn_mul_word_def bn_is_zero_def bn_zero_def BN_MAX_WORDS_def bn_val_def words_val_def Let_def)

text \<open>
  Division by a number of two or more words is wrong when an estimated digit does not fit into a word: the estimate is truncated to 64 bits, and \<open>2 ^ 191\<close> divided by
  \<open>2 ^ 127 + 1\<close> gives the quotient zero.
\<close>

definition high_num :: "u64 list \<Rightarrow> big_num" where
  "high_num ws = \<lparr>bn_words = ws @ replicate (BN_MAX_WORDS - length ws) 0, bn_used = length ws, bn_sign = 0\<rparr>"

lemma high_quotient:
  "case bn_div bn_zero bn_zero (high_num [0, 0, 2 ^ 63]) (high_num [1, 2 ^ 63]) of
     Inr (c, q, r) \<Rightarrow> c = 0 \<and> bn_used q = 1 \<and> bn_words q ! 0 = 0 | _ \<Rightarrow> False"
  by code_simp

theorem div_loses_digit:
  "\<exists>q r. bn_div bn_zero bn_zero (high_num [0, 0, 2 ^ 63]) (high_num [1, 2 ^ 63]) = Inr (0, q, r) \<and>
     bn_val q = 0 \<and> bn_val (high_num [1, 2 ^ 63]) \<le> bn_val (high_num [0, 0, 2 ^ 63])"
proof -
  obtain q r where "bn_div bn_zero bn_zero (high_num [0, 0, 2 ^ 63]) (high_num [1, 2 ^ 63]) = Inr (0, q, r)" "bn_used q = 1" "bn_words q ! 0 = 0"
    using high_quotient by (auto split: sum.splits prod.splits)
  moreover have "bn_val (high_num [1, 2 ^ 63]) \<le> bn_val (high_num [0, 0, 2 ^ 63])" by (simp add: high_num_def bn_val_def)
  ultimately show ?thesis by (auto simp: bn_val_def)
qed


end
