(* ===== verification/Tensor_Io.thy ===== *)
theory Tensor_Io
  imports Tensor_Elems
begin

text \<open>
  Tensor files of \<open>kernel/tensor/tensor.c\<close>: \<open>SNEPPX_tensor_save\<close> and \<open>SNEPPX_tensor_load\<close>. A file is its
  list of bytes; whether it can be opened and how much of each write reaches it is decided outside the program.
\<close>

section \<open>Model\<close>

definition dtype_code :: "dtype \<Rightarrow> nat" where
  "dtype_code dt =
     (case dt of SNEPPX_FLOAT32 \<Rightarrow> 0 | SNEPPX_FLOAT64 \<Rightarrow> 1 | SNEPPX_FLOAT16 \<Rightarrow> 2 | SNEPPX_BFLOAT16 \<Rightarrow> 3
      | SNEPPX_FLOAT8 \<Rightarrow> 4 | SNEPPX_INT32 \<Rightarrow> 5 | SNEPPX_INT64 \<Rightarrow> 6 | SNEPPX_INT16 \<Rightarrow> 7 | SNEPPX_INT8 \<Rightarrow> 8
      | SNEPPX_UINT8 \<Rightarrow> 9 | SNEPPX_BOOL \<Rightarrow> 10 | SNEPPX_COMPLEX64 \<Rightarrow> 11 | SNEPPX_COMPLEX128 \<Rightarrow> 12
      | DTYPE_OTHER n \<Rightarrow> n)"

definition all_dtypes :: "dtype list" where
  "all_dtypes = [SNEPPX_FLOAT32, SNEPPX_FLOAT64, SNEPPX_FLOAT16, SNEPPX_BFLOAT16, SNEPPX_FLOAT8, SNEPPX_INT32,
     SNEPPX_INT64, SNEPPX_INT16, SNEPPX_INT8, SNEPPX_UINT8, SNEPPX_BOOL, SNEPPX_COMPLEX64, SNEPPX_COMPLEX128]"

definition dtype_of_code :: "nat \<Rightarrow> dtype" where
  "dtype_of_code n = (if n < 13 then all_dtypes ! n else DTYPE_OTHER n)"

definition tensor_magic :: u32 where "tensor_magic = 0x41524958"

text \<open>The bytes of the calls of \<open>fwrite\<close> before the one for the data, in order.\<close>

definition header_items :: "nat list \<Rightarrow> dtype \<Rightarrow> bytes list" where
  "header_items shape dt =
     [le32_bytes tensor_magic, le32_bytes 1, le64_bytes (of_nat (length shape))] @ map (\<lambda>d. le64_bytes (of_nat d)) shape @ [le32_bytes (of_nat (dtype_code dt))]"

text \<open>The return code and the file that is written. The path is \<open>None\<close> for \<open>NULL\<close>, \<open>Some None\<close> when \<open>fopen\<close> fails, else it has the outcomes of the
  writes, which the code does not look at.\<close>

definition SNEPPX_tensor_save :: "tensor option \<Rightarrow> io_outcome option option \<Rightarrow> heap \<Rightarrow> (int \<times> bytes option) run" where
  "SNEPPX_tensor_save src path h =
     (case (src, path) of
        (Some s, Some (Some io)) \<Rightarrow>
          bind_run (load_bytes h (t_storage s) (t_offset s * t_item s) (sz_mul (t_size s) (t_item s))) (\<lambda>data.
            Inr (0, Some (fwrites io 0 (header_items (t_shape s) (t_dtype s) @ [data]))))
      | _ \<Rightarrow> Inr (- 1, None))"

text \<open>\<open>fread(p, n, 1, f)\<close>: one item of \<open>n\<close> bytes and the rest of the file; an item of no bytes counts as none.\<close>

definition fread :: "nat \<Rightarrow> bytes \<Rightarrow> (bytes \<times> bytes) option" where
  "fread n f = (if n = 0 \<or> length f < n then None else Some (take n f, drop n f))"

fun read_dims :: "nat \<Rightarrow> nat \<Rightarrow> bytes \<Rightarrow> (nat list \<times> bytes) option run" where
  "read_dims 0 i f = Inr (Some ([], f))"
| "read_dims (Suc n) i f =
     (case fread 8 f of
        None \<Rightarrow> Inr None
      | Some (b, f) \<Rightarrow>
          if i \<ge> 16 then Inl Out_Of_Bounds
          else bind_run (read_dims n (i + 1) f) (\<lambda>r.
            Inr (case r of None \<Rightarrow> None | Some (ds, f) \<Rightarrow> Some (unat (le64 b 0) # ds, f))))"

definition load_data :: "bytes \<Rightarrow> tensor \<Rightarrow> heap \<Rightarrow> (tensor option \<times> heap) run" where
  "load_data f t h =
     (case fread (sz_mul (t_size t) (t_item t)) f of
        None \<Rightarrow> bind_run (SNEPPX_tensor_destroy (Some t) h) (\<lambda>h. Inr (None, h))
      | Some (b, _) \<Rightarrow> bind_run (store_bytes h (t_storage t) (data_pos t) b) (\<lambda>h. Inr (Some t, h)))"

definition load_body :: "bytes \<Rightarrow> heap \<Rightarrow> (tensor option \<times> heap) run" where
  "load_body f h =
     (case fread 8 f of
        None \<Rightarrow> Inr (None, h)
      | Some (b, f) \<Rightarrow> bind_run (read_dims (unat (le64 b 0)) 0 f) (\<lambda>r.
          case r of None \<Rightarrow> Inr (None, h)
          | Some (shape, f) \<Rightarrow>
              (case fread 4 f of
                 None \<Rightarrow> Inr (None, h)
               | Some (b, f) \<Rightarrow>
                   bind_new (SNEPPX_tensor_create (Some shape) (dtype_of_code (unat (le32 b 0))) h) (load_data f))))"

text \<open>\<open>file\<close> is \<open>None\<close> when the path is \<open>NULL\<close> or does not open.\<close>

definition SNEPPX_tensor_load :: "bytes option \<Rightarrow> heap \<Rightarrow> (tensor option \<times> heap) run" where
  "SNEPPX_tensor_load file h =
     (case file of None \<Rightarrow> Inr (None, h)
      | Some f \<Rightarrow>
         (case fread 4 f of
            None \<Rightarrow> Inr (None, h)
          | Some (b, f) \<Rightarrow>
             if le32 b 0 \<noteq> tensor_magic then Inr (None, h)
             else (case fread 4 f of
                None \<Rightarrow> Inr (None, h)
              | Some (b, f) \<Rightarrow> if le32 b 0 \<noteq> 1 then Inr (None, h) else load_body f h)))"

section \<open>Reading what was written\<close>

lemma fread_append: "length b = n \<Longrightarrow> 0 < n \<Longrightarrow> fread n (b @ f) = Some (b, f)"
  by (simp add: fread_def)

lemma dtype_roundtrip: "SNEPPX_tensor_dtype_size dt \<noteq> 0 \<Longrightarrow> dtype_of_code (dtype_code dt) = dt"
  by (cases dt) (simp_all add: dtype_of_code_def dtype_code_def all_dtypes_def SNEPPX_tensor_dtype_size_def)

lemma dtype_code_small: "SNEPPX_tensor_dtype_size dt \<noteq> 0 \<Longrightarrow> dtype_code dt < 13"
  by (cases dt) (simp_all add: dtype_code_def SNEPPX_tensor_dtype_size_def)

lemma read_dims_written:
  "(\<forall>d \<in> set ds. d < 2 ^ 64) \<Longrightarrow> i + length ds \<le> 16 \<Longrightarrow>
   read_dims (length ds) i (concat (map (\<lambda>d. le64_bytes (of_nat d)) ds) @ f) = Inr (Some (ds, f))"
proof (induction ds arbitrary: i)
  case (Cons d ds)
  then show ?case
    by (simp add: fread_append le64_bytes_inverse unat_of_nat)
qed simp

lemma all_ok_create:
  assumes "\<And>k. h_ok h k"
  obtains t h' where "SNEPPX_tensor_create (Some shape) dt h = (Some t, h')" "created h shape dt t h'"
proof -
  have "\<exists>t h'. SNEPPX_tensor_create (Some shape) dt h = (Some t, h')"
    by (simp add: SNEPPX_tensor_create_def tensor_view_alloc_def aligned_alloc_wrapper_def SNEPPX_storage_create_def assms)
  with create_cases [of shape dt h] that show thesis by force
qed

definition tensor_header :: "nat list \<Rightarrow> dtype \<Rightarrow> bytes" where
  "tensor_header shape dt = concat (header_items shape dt)"

lemma tensor_header_bytes:
  "tensor_header shape dt = le32_bytes tensor_magic @ le32_bytes 1 @ le64_bytes (of_nat (length shape)) @
     concat (map (\<lambda>d. le64_bytes (of_nat d)) shape) @ le32_bytes (of_nat (dtype_code dt))"
  by (simp add: tensor_header_def header_items_def)

text \<open>Reading the file of a tensor that has elements, into a heap that grants memory.\<close>

lemma load_written:
  assumes i: "SNEPPX_tensor_dtype_size dt = w" "0 < w" and sh: "length shape \<le> 16" "0 \<notin> set shape" "prod_list shape * w < 2 ^ 64"
    and d: "length data = prod_list shape * w" and g: "\<And>k. h_ok g k"
  obtains t g' where "SNEPPX_tensor_load (Some (tensor_header shape dt @ data)) g = Inr (Some t, g')" "t_shape t = shape" "t_dtype t = dt"
    "t_offset t = 0" "t_size t = prod_list shape" "t_item t = w" "contents g' (t_storage t) = Some (Some data)"
proof -
  have "prod_list shape \<noteq> 0" using sh(2) by (simp add: prod_list_zero_iff)
  then have pos: "0 < prod_list shape * w" using i(2) by simp
  have "prod_list shape \<le> prod_list shape * w" using i(2) by simp
  then have p: "prod_list shape < 2 ^ 64" using sh(3) by (rule le_less_trans)
  have dims: "\<forall>d \<in> set shape. d < 2 ^ 64"
  proof
    fix d assume "d \<in> set shape"
    then have "d dvd prod_list shape" by (rule prod_list_dvd)
    then have "d \<le> prod_list shape" using \<open>prod_list shape \<noteq> 0\<close> by (simp add: dvd_imp_le)
    then show "d < 2 ^ 64" using p by (rule le_less_trans)
  qed
  have szm: "sz_mul (prod_list shape) w = prod_list shape * w" using sh(3) by (simp add: sz_mul_def wrap64_small)
  have n16: "unat (of_nat (length shape) :: u64) = length shape" using sh(1) by (simp add: unat_of_nat)
  have dc: "dtype_of_code (unat (of_nat (dtype_code dt) :: u32)) = dt"
    using dtype_roundtrip [of dt] dtype_code_small [of dt] i by (simp add: unat_of_nat)
  obtain t g1 where c: "SNEPPX_tensor_create (Some shape) dt g = (Some t, g1)" "created g shape dt t g1" by (rule all_ok_create [OF g])
  note cf = created_facts [OF c(2)]
  have tf: "t_storage t = h_next g" "t_shape t = shape" "t_dtype t = dt" "t_offset t = 0" "t_size t = prod_list shape" "t_item t = w"
    using p i by (simp_all add: cf(1) fresh_tensor_def sz_prod_wrap wrap64_small)
  have cg: "contents g1 (h_next g) = Some (Some (replicate (prod_list shape * w) 0))"
    using cf(3) szm pos p i by (simp add: sz_prod_wrap wrap64_small)
  obtain g2 where g2: "store_bytes g1 (h_next g) 0 data = Inr g2"
    "contents g2 = (contents g1)(h_next g := Some (Some (put_bytes (replicate (prod_list shape * w) 0) 0 data)))"
    using store_bytes_contents [OF cg, of 0 data] d by auto
  have "SNEPPX_tensor_load (Some (tensor_header shape dt @ data)) g = load_data data t g1"
    using read_dims_written [OF dims, of 0] sh(1)
    by (simp add: SNEPPX_tensor_load_def tensor_header_bytes fread_append le32_bytes_inverse load_body_def le64_bytes_inverse n16 dc c(1) bind_new_def)
  also have "\<dots> = Inr (Some t, g2)"
    using fread_append [of data "prod_list shape * w" "[]"] d pos g2(1) by (simp add: load_data_def tf szm)
  finally show ?thesis using that tf g2(2) d by (simp add: put_all_bytes)
qed

text \<open>C17. Files round trip: a contiguous tensor with elements and with at most 16 dimensions, saved to a file that opens and takes all that is written,
  and loaded again into any heap with memory, comes back with its shape, its type and its bytes. A file with more dimensions overruns the loader's array.\<close>

theorem tensor_save_load:
  assumes hs: "holds h s" and i: "t_item s = SNEPPX_tensor_dtype_size (t_dtype s)" "0 < t_item s"
    and sh: "t_ndim s \<le> 16" "0 \<notin> set (t_shape s)" "prod_list (t_shape s) * t_item s < 2 ^ 64" "t_size s = prod_list (t_shape s)"
    and g: "refs_ok base ts g" "\<And>k. h_ok g k"
  shows "\<exists>file t g'. SNEPPX_tensor_save (Some s) (Some (Some (\<lambda>_. None))) h = Inr (0, Some file) \<and>
    SNEPPX_tensor_load (Some file) g = Inr (Some t, g') \<and>
    t_shape t = t_shape s \<and> t_dtype t = t_dtype s \<and>
    load_bytes g' (t_storage t) (data_pos t) (t_size t * t_item t) = load_bytes h (t_storage s) (data_pos s) (t_size s * t_item s)"
proof -
  let ?n = "prod_list (t_shape s) * t_item s"
  obtain sd where sd: "contents h (t_storage s) = Some (Some sd)" "data_pos s + ?n \<le> length sd"
    using hs by (auto simp: holds_def algebra_simps)
  define data where "data = take ?n (drop (data_pos s) sd)"
  have ld: "load_bytes h (t_storage s) (data_pos s) ?n = Inr data" unfolding data_def by (rule load_bytes_Inr [OF sd])
  have lend: "length data = ?n" using sd(2) by (simp add: data_def)
  have szm: "sz_mul (prod_list (t_shape s)) (t_item s) = ?n" using sh(3) by (simp add: sz_mul_def wrap64_small)
  have save: "SNEPPX_tensor_save (Some s) (Some (Some (\<lambda>_. None))) h = Inr (0, Some (tensor_header (t_shape s) (t_dtype s) @ data))"
    by (simp add: SNEPPX_tensor_save_def sh(4) szm ld tensor_header_def)
  obtain t g' where t: "SNEPPX_tensor_load (Some (tensor_header (t_shape s) (t_dtype s) @ data)) g = Inr (Some t, g')" "t_shape t = t_shape s" "t_dtype t = t_dtype s"
    "t_offset t = 0" "t_size t = prod_list (t_shape s)" "t_item t = t_item s" "contents g' (t_storage t) = Some (Some data)"
    by (rule load_written [OF i(1) [symmetric] i(2) sh(1-3) lend g(2)])
  have "load_bytes g' (t_storage t) 0 ?n = Inr data" using load_bytes_Inr [OF t(7), of 0 ?n] lend by simp
  with save t ld sh(4) show ?thesis by auto
qed

theorem tensor_save_load_witness:
  "\<exists>file t g'. SNEPPX_tensor_save (Some (fresh_tensor 0 [2, 1] SNEPPX_INT8)) (Some (Some (\<lambda>_. None))) (sample_heap [7, 8]) = Inr (0, Some file) \<and>
    SNEPPX_tensor_load (Some file) (empty_heap (\<lambda>_. True)) = Inr (Some t, g') \<and> t_shape t = [2, 1] \<and> t_dtype t = SNEPPX_INT8"
proof -
  let ?s = "fresh_tensor 0 [2, 1] SNEPPX_INT8" and ?h = "sample_heap [7, 8]" and ?g = "empty_heap (\<lambda>_. True)"
  have "holds ?h ?s" by (simp add: holds_def fresh_tensor_def sample_heap_def contents_def SNEPPX_tensor_dtype_size_def)
  moreover have "refs_ok 0 [] ?g" "\<And>k. h_ok ?g k" by (simp_all add: refs_ok_empty empty_heap_def)
  moreover have "t_shape ?s = [2, 1]" "t_item ?s = 1" "t_dtype ?s = SNEPPX_INT8" "t_size ?s = 2"
    by (simp_all add: fresh_tensor_def SNEPPX_tensor_dtype_size_def sz_prod_def sz_mul_def wrap64_def)
  ultimately show ?thesis
    using tensor_save_load [of ?h ?s 0 "[]" ?g] by (auto simp: SNEPPX_tensor_dtype_size_def)
qed

section \<open>Files that are refused\<close>

lemma fread_SomeD: "fread n f = Some (b, g) \<Longrightarrow> f = b @ g \<and> length b = n \<and> 0 < n"
  by (auto simp: fread_def split: if_splits)

lemma read_dims_length:
  "read_dims n i f = Inr (Some (ds, g)) \<Longrightarrow> length ds = n \<and> length f = 8 * n + length g"
proof (induction n i f arbitrary: ds g rule: read_dims.induct)
  case (2 n i f)
  then show ?case by (auto split: option.splits if_splits dest!: fread_SomeD)
qed simp

lemma load_data_keeps:
  assumes "refs_ok base (t # ts) h" "load_data f t h = Inr (r, h')"
  shows "refs_ok base (with_result r ts) h'"
  using assms refs_ok_destroy [OF assms(1)]
  by (auto simp: load_data_def split: option.splits intro: refs_ok_store)

lemma load_data_length: "load_data f t h = Inr (Some u, h') \<Longrightarrow> u = t \<and> sz_mul (t_size t) (t_item t) \<le> length f"
  by (auto simp: load_data_def split: option.splits dest!: fread_SomeD)

lemma read_dims_16: "read_dims n i f = Inr (Some (ds, g)) \<Longrightarrow> 0 < n \<Longrightarrow> i + n \<le> 16"
proof (induction n i f arbitrary: ds g rule: read_dims.induct)
  case (2 n i f)
  from "2.prems" obtain b f' ds' where f: "fread 8 f = Some (b, f')" "i < 16" "read_dims n (i + 1) f' = Inr (Some (ds', g))"
    by (auto split: option.splits if_splits)
  then show ?case using "2.IH" [OF f(1) refl, of ds' g] by (cases "n = 0") auto
qed simp

text \<open>Where the reading of a file can stop.\<close>

lemma load_body_cases:
  assumes "load_body f h = Inr (r, h')"
  obtains "r = None" "h' = h"
  | ds dt f' where "12 + 8 * length ds + length f' = length f" "length ds \<le> 16"
      "bind_new (SNEPPX_tensor_create (Some ds) dt h) (load_data f') = Inr (r, h')"
proof -
  consider "r = None" "h' = h"
    | b f1 ds f2 c f3 where "fread 8 f = Some (b, f1)" "read_dims (unat (le64 b 0)) 0 f1 = Inr (Some (ds, f2))"
      "fread 4 f2 = Some (c, f3)"
      "bind_new (SNEPPX_tensor_create (Some ds) (dtype_of_code (unat (le32 c 0))) h) (load_data f3) = Inr (r, h')"
    using assms by (auto simp: load_body_def split: option.splits)
  then show thesis
  proof cases
    case (2 b f1 ds f2 c f3)
    have "length ds \<le> 16"
      using read_dims_16 [OF 2(2)] read_dims_length [OF 2(2)] by (cases "unat (le64 b 0) = 0") auto
    then show thesis using that(2) [OF _ _ 2(4)] read_dims_length [OF 2(2)] fread_SomeD [OF 2(1)] fread_SomeD [OF 2(3)]
      by simp
  qed (rule that(1))
qed

lemma load_body_keeps:
  assumes ok: "refs_ok base ts h" and r: "load_body f h = Inr (r, h')"
  shows "refs_ok base (with_result r ts) h' \<and>
    (\<forall>t. r = Some t \<longrightarrow> 12 + 8 * t_ndim t + sz_mul (t_size t) (t_item t) \<le> length f \<and> t_ndim t \<le> 16)"
  using r
proof (cases rule: load_body_cases)
  case 1
  then show ?thesis using ok by simp
next
  case (2 ds dt f')
  from create_cases [of ds dt h] show ?thesis
  proof (elim disjE exE conjE)
    fix t h1 assume c: "SNEPPX_tensor_create (Some ds) dt h = (Some t, h1)" "created h ds dt t h1"
    have d: "load_data f' t h1 = Inr (r, h')" using 2(3) c(1) by (simp add: bind_new_def)
    have sh: "t_shape t = ds" using created_facts(1) [OF c(2)] by (simp add: fresh_tensor_def)
    have "refs_ok base (with_result r ts) h'" by (rule load_data_keeps [OF refs_ok_created [OF ok c(2)] d])
    moreover have "12 + 8 * t_ndim u + sz_mul (t_size u) (t_item u) \<le> length f \<and> t_ndim u \<le> 16" if "r = Some u" for u
      using load_data_length [of f' t h1 u h'] d 2(1,2) sh that by simp
    ultimately show ?thesis by blast
  next
    fix n assume "SNEPPX_tensor_create (Some ds) dt h = (None, h\<lparr>h_tried := n\<rparr>)"
    then show ?thesis using 2(3) ok by (auto simp: bind_new_def)
  qed
qed

lemma read_dims_returns: "i + n \<le> 16 \<Longrightarrow> \<exists>r. read_dims n i f = Inr r"
proof (induction n i f rule: read_dims.induct)
  case (2 n i f)
  show ?case
  proof (cases "fread 8 f")
    case (Some p)
    obtain b f' where p: "p = (b, f')" by (cases p)
    from "2.IH" [OF Some p [symmetric]] "2.prems" obtain r where "read_dims n (i + 1) f' = Inr r" by auto
    then show ?thesis using Some p "2.prems" by simp
  qed simp
qed simp

lemma load_data_returns:
  assumes c: "created h ds dt t h'" shows "\<exists>r g. load_data f t h' = Inr (r, g)"
proof -
  let ?nb = "sz_mul (t_size t) (t_item t)"
  have t: "t = fresh_tensor (h_next h) ds dt" "?nb = sz_mul (sz_prod ds) (SNEPPX_tensor_dtype_size dt)"
    using created_facts(1) [OF c] by (simp_all add: fresh_tensor_def)
  have live: "\<exists>st. h_stores h' (t_storage t) = Some st"
    using c by (auto simp: created_def installed_def t(1) fresh_tensor_def Let_def)
  show ?thesis
  proof (cases "fread ?nb f")
    case None
    then show ?thesis using live by (auto simp: load_data_def SNEPPX_tensor_destroy_def SNEPPX_storage_release_def Let_def)
  next
    case (Some p)
    obtain b f' where p: "p = (b, f')" by (cases p)
    have b: "length b = ?nb" "0 < ?nb" using fread_SomeD Some p by blast+
    then have d: "contents h' (t_storage t) = Some (Some (replicate ?nb 0))"
      using created_facts(3) [OF c] by (simp add: t fresh_tensor_def)
    have "t_offset t = 0" by (simp add: t(1) fresh_tensor_def)
    moreover obtain g where "store_bytes h' (t_storage t) 0 b = Inr g" using store_bytes_contents [OF d, of 0 b] b by auto
    ultimately show ?thesis using Some p by (simp add: load_data_def)
  qed
qed

lemma load_body_returns:
  assumes "8 \<le> length f \<Longrightarrow> unat (le64 (take 8 f) 0) \<le> 16" shows "\<exists>r g. load_body f h = Inr (r, g)"
proof (cases "8 \<le> length f")
  case True
  then have f: "fread 8 f = Some (take 8 f, drop 8 f)" by (simp add: fread_def)
  obtain q where q: "read_dims (unat (le64 (take 8 f) 0)) 0 (drop 8 f) = Inr q"
    using read_dims_returns [of 0 "unat (le64 (take 8 f) 0)" "drop 8 f"] assms True by auto
  have "\<exists>r g. bind_new (SNEPPX_tensor_create (Some ds) dt h) (load_data f') = Inr (r, g)" for ds dt f'
    using create_cases [of ds dt h] load_data_returns by (auto simp: bind_new_def)
  then show ?thesis using f q by (auto simp: load_body_def split: option.split)
qed (simp add: load_body_def fread_def)

lemma load_cases:
  obtains "SNEPPX_tensor_load file h = Inr (None, h)"
  | b c f2 where "file = Some (b @ c @ f2)" "length b = 4" "length c = 4" "le32 b 0 = tensor_magic" "le32 c 0 = 1"
      "SNEPPX_tensor_load file h = load_body f2 h"
proof (cases "\<exists>f b f1 c f2. file = Some f \<and> fread 4 f = Some (b, f1) \<and> le32 b 0 = tensor_magic \<and> fread 4 f1 = Some (c, f2) \<and> le32 c 0 = 1")
  case True
  then obtain f b f1 c f2 where f: "file = Some f" "fread 4 f = Some (b, f1)" "le32 b 0 = tensor_magic" "fread 4 f1 = Some (c, f2)" "le32 c 0 = 1"
    by blast
  have "SNEPPX_tensor_load file h = load_body f2 h" using f by (simp add: SNEPPX_tensor_load_def)
  then show thesis using that(2) [of b c f2] f fread_SomeD [OF f(2)] fread_SomeD [OF f(4)] by simp
next
  case False
  then have "SNEPPX_tensor_load file h = Inr (None, h)" by (auto simp: SNEPPX_tensor_load_def split: option.split)
  then show thesis by (rule that(1))
qed

text \<open>C20. Loading any file that announces at most 16 dimensions returns, refuses what it cannot read and leaks
  nothing: the ownership invariant holds with the result as one more tensor or, after \<open>NULL\<close>, as before, and a tensor
  is returned only for a file with the right magic and version that is long enough for its header and its data.\<close>

theorem tensor_load_safe:
  assumes ok: "refs_ok base ts h" and dims: "\<And>f. file = Some f \<Longrightarrow> 16 \<le> length f \<Longrightarrow> unat (le64 (take 8 (drop 8 f)) 0) \<le> 16"
  shows "\<exists>r h'. SNEPPX_tensor_load file h = Inr (r, h') \<and> refs_ok base (with_result r ts) h' \<and>
    (\<forall>t. r = Some t \<longrightarrow> (\<exists>f. file = Some f \<and> le32 f 0 = tensor_magic \<and> le32 f 4 = 1 \<and> t_ndim t \<le> 16 \<and>
       20 + 8 * t_ndim t + sz_mul (t_size t) (t_item t) \<le> length f))"
proof -
  consider "SNEPPX_tensor_load file h = Inr (None, h)"
    | b c f2 where "file = Some (b @ c @ f2)" "length b = 4" "length c = 4" "le32 b 0 = tensor_magic" "le32 c 0 = 1"
      "SNEPPX_tensor_load file h = load_body f2 h"
    by (rule load_cases)
  then show ?thesis
  proof cases
    case 1
    then show ?thesis using ok by simp
  next
    case (2 b c f2)
    have "\<exists>r g. load_body f2 h = Inr (r, g)"
      by (rule load_body_returns) (use dims [OF 2(1)] 2(2,3) in simp)
    then obtain r g where r: "load_body f2 h = Inr (r, g)" by blast
    have "le32 (b @ c @ f2) 0 = le32 b 0" "le32 (b @ c @ f2) 4 = le32 c 0"
      using 2(2,3) by (simp_all add: le32_def nth_append numeral_2_eq_2)
    then show ?thesis using load_body_keeps [OF ok r] 2 r by auto
  qed
qed

theorem tensor_load_safe_witness:
  "\<exists>r h'. SNEPPX_tensor_load (Some (le32_bytes tensor_magic @ le32_bytes 1 @ le64_bytes 2 @ le64_bytes 3)) (empty_heap (\<lambda>_. True)) = Inr (r, h') \<and>
     refs_ok 0 (with_result r []) h'"
proof -
  let ?f = "le32_bytes tensor_magic @ le32_bytes 1 @ le64_bytes 2 @ le64_bytes 3"
  have "refs_ok 0 [] (empty_heap (\<lambda>_. True))" by (simp add: refs_ok_empty empty_heap_def)
  moreover have "unat (le64 (take 8 (drop 8 f)) 0) \<le> 16" if "Some ?f = Some f" for f
    using that by (auto simp: le64_bytes_inverse)
  ultimately show ?thesis using tensor_load_safe [of 0 "[]" "empty_heap (\<lambda>_. True)" "Some ?f"] by blast
qed

text \<open>A file that announces more than 16 dimensions and has bytes for 17 of them makes the loader write
  behind its local array of 16 sizes.\<close>

theorem tensor_load_overflows:
  assumes "17 \<le> n" "n < 2 ^ 64" "136 \<le> length rest"
  shows "SNEPPX_tensor_load (Some (le32_bytes tensor_magic @ le32_bytes 1 @ le64_bytes (of_nat n) @ rest)) h = Inl Out_Of_Bounds"
proof -
  have "i \<le> 16 \<Longrightarrow> 17 - i \<le> n \<Longrightarrow> 8 * (17 - i) \<le> length f \<Longrightarrow> read_dims n i f = Inl Out_Of_Bounds" for n i f
  proof (induction n i f rule: read_dims.induct)
    case (2 n i f)
    then have f: "fread 8 f = Some (take 8 f, drop 8 f)" by (simp add: fread_def)
    show ?case
    proof (cases "i = 16")
      case False
      then show ?thesis using "2.IH" [OF f refl] "2.prems" f by (simp add: le_diff_conv)
    qed (simp add: f)
  qed simp
  from this [of 0 n rest] assms show ?thesis
    by (simp add: SNEPPX_tensor_load_def load_body_def fread_append le32_bytes_inverse le64_bytes_inverse unat_of_nat)
qed

theorem tensor_load_overflows_witness:
  "SNEPPX_tensor_load (Some (le32_bytes tensor_magic @ le32_bytes 1 @ le64_bytes (of_nat 17) @ replicate 136 0)) (empty_heap (\<lambda>_. True))
   = Inl Out_Of_Bounds"
  by (rule tensor_load_overflows) simp_all

end
