(* ===== verification/Tensor_Concat.thy ===== *)
theory Tensor_Concat
  imports Tensor_Io
begin

text \<open>
  Concatenation and splitting along the first dimension: \<open>SNEPPX_tensor_concat\<close> appends the rows of its
  arguments, \<open>SNEPPX_tensor_split\<close> cuts them apart again.
\<close>

section \<open>Concatenation\<close>

text \<open>The bytes of a contiguous tensor.\<close>

definition row_bytes :: "heap \<Rightarrow> tensor \<Rightarrow> bytes" where
  "row_bytes h t = (case contents h (t_storage t) of
     Some (Some d) \<Rightarrow> take (prod_list (t_shape t) * t_item t) (drop (data_pos t) d) | _ \<Rightarrow> [])"

lemma holds_row_bytes:
  assumes "holds h t"
  shows "load_bytes h (t_storage t) (data_pos t) (prod_list (t_shape t) * t_item t) = Inr (row_bytes h t)"
    and "length (row_bytes h t) = prod_list (t_shape t) * t_item t"
proof -
  obtain d where d: "contents h (t_storage t) = Some (Some d)" "data_pos t + prod_list (t_shape t) * t_item t \<le> length d"
    using assms by (auto simp: holds_def algebra_simps)
  show "load_bytes h (t_storage t) (data_pos t) (prod_list (t_shape t) * t_item t) = Inr (row_bytes h t)"
    using load_bytes_Inr [OF d] d by (simp add: row_bytes_def)
  show "length (row_bytes h t) = prod_list (t_shape t) * t_item t" using d by (simp add: row_bytes_def)
qed

text \<open>A list of row blocks with the same rows.\<close>

definition blocks_of :: "heap \<Rightarrow> nat list \<Rightarrow> nat \<Rightarrow> tensor list \<Rightarrow> bool" where
  "blocks_of h rest sz ts \<longleftrightarrow> (\<forall>t \<in> set ts. holds h t \<and> t_item t = sz \<and> (\<exists>d. t_shape t = d # rest))"

definition rows :: "tensor list \<Rightarrow> nat" where
  "rows ts = sum_list (map (\<lambda>t. t_shape t ! 0) ts)"

lemma rows_simps [simp]: "rows [] = 0" "rows (t # ts) = t_shape t ! 0 + rows ts"
  by (simp_all add: rows_def)

lemma holds_contents: "contents h' (t_storage t) = contents h (t_storage t) \<Longrightarrow> holds h' t = holds h t"
  "contents h' (t_storage t) = contents h (t_storage t) \<Longrightarrow> row_bytes h' t = row_bytes h t"
  by (simp_all add: holds_def row_bytes_def)

lemma concat_loop_rows:
  assumes "blocks_of h rest (t_item first) ts" "\<forall>t \<in> set ts. t_storage t \<noteq> t_storage r" "t_offset r = 0"
    and "contents h (t_storage r) = Some (Some rd)" "(off + rows ts * prod_list rest) * t_item first \<le> length rd"
    and "(off + rows ts * prod_list rest) * t_item first < 2 ^ 64" "0 < t_item first"
  shows "\<exists>h'. fold_run (\<lambda>t (offset, h).
         let n = sz_mul (t_shape t ! 0) (prod_list rest) in
         bind_run (load_bytes h (t_storage t) (data_pos t) (sz_mul n (t_item first))) (\<lambda>b.
         bind_run (store_bytes h (t_storage r) (data_pos r + offset * t_item first) b) (\<lambda>h.
         Inr (sz_add offset n, h)))) ts (off, h) = Inr (off + rows ts * prod_list rest, h') \<and>
    contents h' = (contents h)(t_storage r := Some (Some (put_bytes rd (off * t_item first) (concat (map (row_bytes h) ts)))))"
  using assms
proof (induction ts arbitrary: off h rd)
  case Nil
  then show ?case by (simp add: put_bytes_def fun_upd_idem)
next
  case (Cons t ts)
  let ?i = "t_item first" and ?R = "prod_list rest"
  obtain d where ht: "holds h t" "t_item t = ?i" "t_shape t = d # rest" using Cons.prems(1) by (auto simp: blocks_of_def)
  let ?n = "d * ?R"
  have le: "off + ?n + rows ts * ?R = off + rows (t # ts) * ?R" using ht(3) by (simp add: add_mult_distrib)
  have b1: "(off + ?n + rows ts * ?R) * ?i < 2 ^ 64" "(off + ?n + rows ts * ?R) * ?i \<le> length rd"
    using Cons.prems(5,6) by (simp_all only: le)
  have "off + ?n \<le> (off + ?n + rows ts * ?R) * ?i" using Cons.prems(7) by (cases ?i) auto
  then have o: "off + ?n < 2 ^ 64" using b1(1) by (rule le_less_trans)
  have "?n * ?i \<le> (off + ?n + rows ts * ?R) * ?i" "(off + ?n) * ?i \<le> (off + ?n + rows ts * ?R) * ?i" by (intro mult_le_mono1; simp)+
  then have ni: "?n * ?i < 2 ^ 64" "(off + ?n) * ?i \<le> length rd" using b1 by (blast intro: le_less_trans le_trans)+
  have n: "sz_mul (t_shape t ! 0) ?R = ?n" "sz_mul ?n ?i = ?n * ?i" "sz_add off ?n = off + ?n"
    using o ni(1) ht(3) by (simp_all add: sz_mul_def sz_add_def wrap64_small)
  have ld: "load_bytes h (t_storage t) (data_pos t) (?n * ?i) = Inr (row_bytes h t)" "length (row_bytes h t) = ?n * ?i"
    using holds_row_bytes [OF ht(1)] ht(2,3) by simp_all
  obtain h1 where h1: "store_bytes h (t_storage r) (off * ?i) (row_bytes h t) = Inr h1"
    "contents h1 = (contents h)(t_storage r := Some (Some (put_bytes rd (off * ?i) (row_bytes h t))))"
    using store_bytes_contents [OF Cons.prems(4), of "off * ?i" "row_bytes h t"] ni(2) ld(2)
    by (auto simp: add_mult_distrib)
  have same: "contents h1 (t_storage u) = contents h (t_storage u)" if "u \<in> set ts" for u
    using Cons.prems(2) that h1(2) by auto
  have bl: "blocks_of h1 rest ?i ts" "map (row_bytes h1) ts = map (row_bytes h) ts"
    using Cons.prems(1) holds_contents [OF same] by (auto simp: blocks_of_def)
  let ?rd = "put_bytes rd (off * ?i) (row_bytes h t)"
  have lrd: "length ?rd = length rd" using ni(2) ld(2) by (simp add: add_mult_distrib)
  have p2: "\<forall>t \<in> set ts. t_storage t \<noteq> t_storage r" using Cons.prems(2) by simp
  have p4: "contents h1 (t_storage r) = Some (Some ?rd)" using h1(2) by simp
  have p5: "(off + ?n + rows ts * ?R) * ?i \<le> length ?rd" using b1(2) lrd by simp
  from Cons.IH [OF bl(1) p2 Cons.prems(3) p4 p5 b1(1) Cons.prems(7)]
  obtain h2 where h2: "fold_run (\<lambda>t (offset, h).
         let n = sz_mul (t_shape t ! 0) (prod_list rest) in
         bind_run (load_bytes h (t_storage t) (data_pos t) (sz_mul n (t_item first))) (\<lambda>b.
         bind_run (store_bytes h (t_storage r) (data_pos r + offset * t_item first) b) (\<lambda>h.
         Inr (sz_add offset n, h)))) ts (off + ?n, h1) = Inr (off + ?n + rows ts * ?R, h2)"
    "contents h2 = (contents h1)(t_storage r := Some (Some (put_bytes ?rd ((off + ?n) * ?i) (concat (map (row_bytes h1) ts)))))"
    by blast
  have lc: "length (concat (map (row_bytes h) ts)) = rows ts * ?R * ?i"
    using Cons.prems(1)
  proof (induction ts)
    case (Cons u us)
    then have "length (row_bytes h u) = t_shape u ! 0 * ?R * ?i"
      using holds_row_bytes(2) [of h u] by (auto simp: blocks_of_def)
    then show ?case using Cons by (simp add: blocks_of_def add_mult_distrib)
  qed simp
  have "put_bytes ?rd ((off + ?n) * ?i) (concat (map (row_bytes h1) ts)) = put_bytes rd (off * ?i) (concat (map (row_bytes h) (t # ts)))"
    using put_bytes_put_bytes [of "off * ?i" "row_bytes h t" "concat (map (row_bytes h) ts)" rd] ld(2) lc b1(2)
    by (simp add: bl(2) add_mult_distrib)
  then have "contents h2 = (contents h)(t_storage r := Some (Some (put_bytes rd (off * ?i) (concat (map (row_bytes h) (t # ts))))))"
    using h2(2) h1(2) by (simp only: fun_upd_upd)
  moreover have "fold_run (\<lambda>t (offset, h).
         let n = sz_mul (t_shape t ! 0) (prod_list rest) in
         bind_run (load_bytes h (t_storage t) (data_pos t) (sz_mul n (t_item first))) (\<lambda>b.
         bind_run (store_bytes h (t_storage r) (data_pos r + offset * t_item first) b) (\<lambda>h.
         Inr (sz_add offset n, h)))) (t # ts) (off, h) = Inr (off + rows (t # ts) * ?R, h2)"
    using h1(1) h2(1) ld(1) n le Cons.prems(3) by (simp add: Let_def)
  ultimately show ?case by blast
qed

lemma total_rows: "rows ts < 2 ^ 64 \<Longrightarrow> fold (\<lambda>t s. sz_add s (t_shape t ! 0)) ts 0 = rows ts"
proof -
  have "fold (\<lambda>t s. sz_add s (t_shape t ! 0)) ts (wrap64 a) = wrap64 (a + rows ts)" for a
    by (induction ts arbitrary: a) (simp_all add: sz_add_def add.assoc)
  from this [of 0] show "rows ts < 2 ^ 64 \<Longrightarrow> ?thesis" by (simp add: wrap64_small)
qed

lemma concat_steps:
  assumes r: "SNEPPX_tensor_concat (Some t # map Some ts) 0 h = Inr (Some r, h')" and sh: "t_shape t = d # rest"
  obtains g g1 h1 where "contents g = contents h" "h_next g = h_next h"
    "created g (fold (\<lambda>t s. sz_add s (t_shape t ! 0)) (t # ts) 0 # rest) (t_dtype t) r g1" "contents h1 = contents g1" "0 < d"
    "concat_loop t r 0 (t_size t div d) (t # ts) h1 = Inr h'"
proof -
  let ?sh = "fold (\<lambda>t s. sz_add s (t_shape t ! 0)) (t # ts) 0 # rest"
  let ?g = "h\<lparr>h_tried := h_tried h + 1, h_blocks := h_blocks h + 1\<rparr>"
  have m: "map the (Some t # map Some ts) = t # ts" by (simp add: o_def)
  from r create_cases [of ?sh "t_dtype t" ?g] obtain g1 where c: "created ?g ?sh (t_dtype t) r g1" and d: "0 < d"
    and l: "concat_loop t r 0 (t_size t div d) (t # ts) (free_block True g1) = Inr h'"
    unfolding SNEPPX_tensor_concat_def m
    by (auto simp: aligned_alloc_wrapper_def SNEPPX_tensor_empty_def bind_new_def sh Let_def split: if_splits)
  show thesis by (rule that [of ?g, OF _ _ c _ d l]) simp_all
qed

lemma concat_rows:
  assumes ok: "contents h (h_next h) = None"
    and bl: "blocks_of h rest (t_item t) (t # ts)" "t_size t = prod_list (t_shape t)" "t_item t = SNEPPX_tensor_dtype_size (t_dtype t)" "0 < t_item t"
    and sm: "rows (t # ts) * prod_list rest * t_item t < 2 ^ 64" "0 < prod_list rest"
    and r: "SNEPPX_tensor_concat (Some t # map Some ts) 0 h = Inr (Some r, h')"
  shows "t_shape r = rows (t # ts) # rest \<and> row_bytes h' r = concat (map (row_bytes h) (t # ts))"
proof -
  let ?i = "t_item t" and ?R = "prod_list rest" and ?n = "rows (t # ts)"
  obtain d where sh: "t_shape t = d # rest" using bl(1) by (auto simp: blocks_of_def)
  have "?n \<le> ?n * ?R * ?i" "?n * ?R \<le> ?n * ?R * ?i" using sm(2) bl(4) by simp_all
  then have n: "?n < 2 ^ 64" "?n * ?R < 2 ^ 64" using sm(1) by (blast intro: le_less_trans)+
  obtain g g1 h1 where g: "contents g = contents h" "h_next g = h_next h" "created g (?n # rest) (t_dtype t) r g1"
    "contents h1 = contents g1" "0 < d" "concat_loop t r 0 (t_size t div d) (t # ts) h1 = Inr h'"
    by (rule concat_steps [OF r sh, unfolded total_rows [OF n(1)]])
  note cf = created_facts [OF g(3)]
  have nb: "sz_mul (sz_prod (?n # rest)) (SNEPPX_tensor_dtype_size (t_dtype t)) = ?n * ?R * ?i"
    using n sm(1) bl(3) by (simp add: sz_mul_def sz_prod_wrap wrap64_small)
  have pos: "0 < ?n * ?R * ?i" using g(5) sm(2) bl(4) sh by simp
  have rf: "t_storage r = h_next h" "t_offset r = 0" "t_shape r = ?n # rest" "t_item r = ?i"
    using bl(3) by (simp_all add: cf(1) g(2) fresh_tensor_def)
  have c1: "contents h1 = (contents h)(t_storage r := Some (Some (replicate (?n * ?R * ?i) 0)))"
    using cf(3) nb pos g by (simp add: rf)
  have ne: "\<forall>u \<in> set (t # ts). t_storage u \<noteq> t_storage r"
  proof
    fix u assume "u \<in> set (t # ts)"
    then have "contents h (t_storage u) \<noteq> None" using bl(1) by (auto simp: blocks_of_def holds_def)
    then show "t_storage u \<noteq> t_storage r" using ok rf(1) by auto
  qed
  have same: "contents h1 (t_storage u) = contents h (t_storage u)" if "u \<in> set (t # ts)" for u using ne that c1 by auto
  have b1: "blocks_of h1 rest ?i (t # ts)" using bl(1) holds_contents(1) [OF same] by (auto simp: blocks_of_def)
  have mb: "map (row_bytes h1) (t # ts) = map (row_bytes h) (t # ts)"
    by (rule map_cong [OF refl]) (rule holds_contents(2) [OF same])
  have ds: "t_size t div d = ?R" using bl(2) sh g(5) by simp
  have cr: "contents h1 (t_storage r) = Some (Some (replicate (?n * ?R * ?i) 0))" using c1 by simp
  have "\<exists>h2. concat_loop t r 0 ?R (t # ts) h1 = Inr h2 \<and>
    contents h2 = (contents h1)(t_storage r := Some (Some (put_bytes (replicate (?n * ?R * ?i) 0) (0 * ?i) (concat (map (row_bytes h1) (t # ts))))))"
    using concat_loop_rows [OF b1 ne _ cr _ _ bl(4), of 0] sm(1) rf(2) unfolding concat_loop_def by auto
  then obtain h2 where h2: "concat_loop t r 0 ?R (t # ts) h1 = Inr h2" "contents h2 (t_storage r) =
     Some (Some (put_bytes (replicate (?n * ?R * ?i) 0) 0 (concat (map (row_bytes h) (t # ts)))))" unfolding mb by auto
  have "length (concat (map (row_bytes h) us)) = rows us * ?R * ?i" if "set us \<subseteq> set (t # ts)" for us
    using that
  proof (induction us)
    case (Cons u us)
    then have "length (row_bytes h u) = t_shape u ! 0 * ?R * ?i"
      using holds_row_bytes(2) [of h u] bl(1) by (fastforce simp: blocks_of_def)
    then show ?case using Cons by (simp add: add_mult_distrib)
  qed simp
  then have "length (concat (map (row_bytes h) (t # ts))) = ?n * ?R * ?i" by blast
  then have "contents h2 (t_storage r) = Some (Some (concat (map (row_bytes h) (t # ts))))"
    "length (concat (map (row_bytes h) (t # ts))) = ?n * ?R * ?i"
    using h2(2) by (simp_all add: put_all_bytes del: concat.simps list.map)
  moreover have "h' = h2" using g(6) h2(1) ds by simp
  ultimately show ?thesis by (simp add: row_bytes_def rf del: concat.simps list.map)
qed

text \<open>Concatenating contiguous tensors along the first dimension appends their rows: the result's first extent
  is the sum of theirs and its bytes are their bytes, one after the other.\<close>

theorem concat_appends_rows:
  assumes ok: "contents h (h_next h) = None"
    and bl: "blocks_of h rest (t_item t) (t # ts)" "t_size t = prod_list (t_shape t)" "t_item t = SNEPPX_tensor_dtype_size (t_dtype t)" "0 < t_item t"
    and sm: "rows (t # ts) * prod_list rest * t_item t < 2 ^ 64" "0 < prod_list rest"
    and r: "SNEPPX_tensor_concat (Some t # map Some ts) 0 h = Inr (Some r, h')"
  shows "t_shape r = rows (t # ts) # rest \<and> row_bytes h' r = concat (map (row_bytes h) (t # ts))"
  using concat_rows assms by blast

theorem concat_appends_rows_witness:
  "\<exists>r h'. SNEPPX_tensor_concat [Some (fresh_tensor 0 [2, 2] SNEPPX_INT8), Some (fresh_tensor 0 [2, 2] SNEPPX_INT8)] 0 (sample_heap [7, 8, 5, 6])
     = Inr (Some r, h') \<and> t_shape r = [4, 2] \<and> row_bytes h' r = [7, 8, 5, 6, 7, 8, 5, 6]"
proof -
  let ?t = "fresh_tensor 0 [2, 2] SNEPPX_INT8" and ?h = "sample_heap [7, 8, 5, 6]"
  have tf: "t_shape ?t = [2, 2]" "t_item ?t = 1" "t_dtype ?t = SNEPPX_INT8" "t_size ?t = 4" "t_storage ?t = 0" "t_offset ?t = 0"
    by (simp_all add: fresh_tensor_def SNEPPX_tensor_dtype_size_def sz_prod_def sz_mul_def wrap64_def)
  have hs: "holds ?h ?t" by (simp add: holds_def fresh_tensor_def sample_heap_def contents_def SNEPPX_tensor_dtype_size_def)
  have ok: "contents ?h (h_next ?h) = None" by (simp add: contents_def sample_heap_def)
  have bl: "blocks_of ?h [2] (t_item ?t) [?t, ?t]" using hs tf by (simp add: blocks_of_def)
  obtain r h' where r: "SNEPPX_tensor_concat (Some ?t # map Some [?t]) 0 ?h = Inr (Some r, h')"
    by (simp add: SNEPPX_tensor_concat_def tf concat_fits_def aligned_alloc_wrapper_def SNEPPX_tensor_empty_def
        SNEPPX_tensor_create_def tensor_view_alloc_def SNEPPX_storage_create_def sample_heap_def fresh_tensor_def [of "Suc 0"]
        SNEPPX_tensor_dtype_size_def sz_prod_def sz_mul_def sz_add_def wrap64_def bind_new_def concat_loop_def free_block_def
        load_bytes_def store_bytes_def put_bytes_def)
  have "row_bytes ?h ?t = [7, 8, 5, 6]" by (simp add: row_bytes_def tf contents_def sample_heap_def)
  with concat_appends_rows [OF ok bl _ _ _ _ _ r] r show ?thesis
    by (simp add: tf SNEPPX_tensor_dtype_size_def)
qed

section \<open>Splitting\<close>

lemma as_strided_next:
  "SNEPPX_tensor_as_strided (Some s) off sh st h = Inr (r, h') \<Longrightarrow> h_next h' = h_next h"
  using view_alloc_cases [of h]
  by (auto simp: SNEPPX_tensor_as_strided_def SNEPPX_storage_retain_def split: option.splits)

text \<open>The \<open>k\<close>-th slice of \<open>c\<close> rows.\<close>

definition row_slice :: "tensor \<Rightarrow> nat \<Rightarrow> nat list \<Rightarrow> nat \<Rightarrow> tensor" where
  "row_slice s c rest k = s\<lparr>t_offset := t_offset s + k * c * prod_list rest, t_shape := c # rest,
     t_size := c * prod_list rest, t_owns_data := 0\<rparr>"

lemma slice_rows:
  assumes hs: "holds h0 s" and sh: "t_shape s = d # rest" "0 < prod_list rest" and k: "(k + 1) * c \<le> d" "0 < c"
    and r: "SNEPPX_tensor_slice (Some s) 0 (sz_mul k c) (sz_mul (k + 1) c) h = Inr (Some t, h')"
  shows "t = row_slice s c rest k" "contents h' = contents h" "h_next h' = h_next h"
proof -
  let ?R = "prod_list rest"
  have st: "t_strides s = wrap64 ?R # row_major rest" and b: "t_offset s + d * ?R < 2 ^ 64"
    using hs sh by (auto simp: holds_def)
  have "d \<le> d * ?R" using sh(2) by simp
  then have "d < 2 ^ 64" using b by linarith
  then have kc: "(k + 1) * c < 2 ^ 64" using k(1) by (rule le_less_trans [rotated])
  then have m: "sz_mul k c = k * c" "sz_mul (k + 1) c = (k + 1) * c" by (simp_all add: sz_mul_def wrap64_small)
  have "(k + 1) * c * ?R \<le> d * ?R" using k(1) by (rule mult_le_mono1)
  then have kR: "t_offset s + k * c * ?R + c * ?R < 2 ^ 64" using b by (simp add: add_mult_distrib)
  have "?R \<le> c * ?R" using k(2) by simp
  then have R: "?R < 2 ^ 64" using kR by linarith
  have o: "sz_add (t_offset s) (sz_mul (k * c) (t_strides s ! 0)) = t_offset s + k * c * ?R"
    using kR R by (simp add: st sz_add_def sz_mul_def wrap64_small)
  have "SNEPPX_tensor_narrow (Some s) 0 (k * c) c h = Inr (Some t, h')"
    using slice_narrow(3) [OF r] unfolding m by simp
  then have a: "SNEPPX_tensor_as_strided (Some s) (t_offset s + k * c * ?R) (c # rest) (t_strides s) h = Inr (Some t, h')"
    by (auto simp: SNEPPX_tensor_narrow_def local_dims_Inr o sh(1) split: if_splits)
  have "sz_prod (c # rest) = c * ?R" using kR by (simp add: sz_prod_wrap wrap64_small)
  with as_strided_result [OF a] as_strided_next [OF a]
  show "t = row_slice s c rest k" "contents h' = contents h" "h_next h' = h_next h"
    by (simp_all add: row_slice_def)
qed

lemma split_loop_rows:
  assumes hs: "holds h0 s" and sh: "t_shape s = d # rest" "0 < prod_list rest" "0 < c"
  shows "\<forall>k \<in> set ks. (k + 1) * c \<le> d \<Longrightarrow> split_loop s 0 c ks rs h = Inr (Some us, h') \<Longrightarrow>
    us = rs @ map (row_slice s c rest) ks \<and> contents h' = contents h \<and> h_next h' = h_next h"
proof (induction ks arbitrary: rs h)
  case (Cons k ks)
  obtain r g where r: "SNEPPX_tensor_slice (Some s) 0 (sz_mul k c) (sz_mul (k + 1) c) h = Inr (r, g)"
    using Cons.prems(2) by (auto simp: bind_run_eq_Inr)
  from Cons.prems(2) r obtain t where t: "r = Some t" "split_loop s 0 c ks (rs @ [t]) g = Inr (Some us, h')"
    by (auto split: option.splits)
  have kd: "(k + 1) * c \<le> d" using Cons.prems(1) by simp
  note sl = slice_rows [OF hs sh(1,2) kd sh(3) r [unfolded t(1)]]
  show ?case using Cons.IH [OF _ t(2)] Cons.prems(1) sl by simp
qed simp

lemma row_slice_holds:
  assumes hs: "holds h s" and sh: "t_shape s = d # rest" and k: "(k + 1) * c \<le> d"
  shows "holds h (row_slice s c rest k)"
proof -
  let ?R = "prod_list rest"
  have "(k + 1) * c * ?R \<le> d * ?R" using k by (rule mult_le_mono1)
  then have le: "t_offset s + k * c * ?R + c * ?R \<le> t_offset s + d * ?R" by (simp add: add_mult_distrib)
  obtain x where x: "contents h (t_storage s) = Some (Some x)" "(t_offset s + d * ?R) * t_item s \<le> length x" "t_offset s + d * ?R < 2 ^ 64"
    "t_strides s = row_major (d # rest)" using hs sh by (auto simp: holds_def)
  have "(t_offset s + k * c * ?R + c * ?R) * t_item s \<le> (t_offset s + d * ?R) * t_item s" using le by (rule mult_le_mono1)
  then have "(t_offset s + k * c * ?R + c * ?R) * t_item s \<le> length x" using x(2) by (rule le_trans)
  moreover have "t_offset s + k * c * ?R + c * ?R < 2 ^ 64" using le x(3) by (rule le_less_trans)
  ultimately show ?thesis using x(1,4) by (simp add: holds_def row_slice_def)
qed

lemma concat_row_slices:
  assumes x: "contents h (t_storage s) = Some (Some x)"
  shows "concat (map (\<lambda>k. row_bytes h (row_slice s c rest k)) [0..<n]) = take (n * (c * prod_list rest * t_item s)) (drop (data_pos s) x)"
proof -
  have "map (\<lambda>k. row_bytes h (row_slice s c rest k)) [0..<n] = map (item_at x (data_pos s) (c * prod_list rest * t_item s)) [0..<n]"
    using x by (simp add: row_bytes_def row_slice_def item_at_def algebra_simps)
  then show ?thesis by (simp only: items_all)
qed



end
