(* ===== verification/Tensor_Math.thy ===== *)
theory Tensor_Math
  imports Tensor_Concat Npe_Tensor
begin

text \<open>
  Arithmetic on tensors of \<open>kernel/tensor/tensor.c\<close>: element-wise operations, reductions, matrix
  products, activations and losses. A \<open>float\<close> is its bit pattern; the arithmetic of the platform
  is the parameter \<open>F\<close>. Buffers are read and written as arrays of \<open>float\<close>, whatever the type of the
  tensor, as the code does.
\<close>

section \<open>Cells and temporaries\<close>

type_synonym f32 = u32

definition load_f32 :: "heap \<Rightarrow> tensor \<Rightarrow> nat \<Rightarrow> f32 run" where
  "load_f32 h t i = bind_run (load_bytes h (t_storage t) (data_pos t + i * 4) 4) (\<lambda>b. Inr (le32 b 0))"

definition store_f32 :: "tensor \<Rightarrow> nat \<Rightarrow> f32 \<Rightarrow> heap \<Rightarrow> heap run" where
  "store_f32 t i v h = store_bytes h (t_storage t) (data_pos t + i * 4) (le32_bytes v)"

definition f_lt :: "f32 fops \<Rightarrow> f32 \<Rightarrow> f32 \<Rightarrow> bool" where "f_lt F a b = f_gt F b a"
definition f_le :: "f32 fops \<Rightarrow> f32 \<Rightarrow> f32 \<Rightarrow> bool" where "f_le F a b = f_ge F b a"
definition f_one :: "f32 fops \<Rightarrow> f32" where "f_one F = f_lit F 1 0"
definition f_tiny :: "f32 fops \<Rightarrow> f32" where "f_tiny F = f_lit F 1 (- 10)"

text \<open>\<open>fabsf\<close> clears the sign bit.\<close>

definition fabsf :: "f32 \<Rightarrow> f32" where "fabsf x = x AND 0x7fffffff"

definition tensor_prep_contiguous :: "tensor \<Rightarrow> heap \<Rightarrow> (tensor \<times> tensor option \<times> heap) run" where
  "tensor_prep_contiguous src h =
     (if SNEPPX_tensor_is_contiguous (Some src) then Inr (src, None, h)
      else bind_run (SNEPPX_tensor_contiguous (Some src) h) (\<lambda>(out, h).
             Inr (case out of Some c \<Rightarrow> (c, out, h) | None \<Rightarrow> (src, None, h))))"

text \<open>Fill a new tensor and destroy the temporaries, also when there is no memory for it.\<close>

definition fill_new ::
  "tensor option list \<Rightarrow> (tensor option \<times> heap) run \<Rightarrow> (tensor \<Rightarrow> heap \<Rightarrow> heap run) \<Rightarrow> (tensor option \<times> heap) run" where
  "fill_new tmps made body =
     bind_run made (\<lambda>(r, h).
       bind_run (case r of None \<Rightarrow> Inr h | Some r \<Rightarrow> body r h) (\<lambda>h.
       bind_run (fold_run SNEPPX_tensor_destroy tmps h) (\<lambda>h. Inr (r, h))))"

section \<open>Element-wise operations\<close>

definition unary_op_f32 :: "(f32 \<Rightarrow> f32) \<Rightarrow> tensor option \<Rightarrow> heap \<Rightarrow> (tensor option \<times> heap) run" where
  "unary_op_f32 op src h =
     (case src of None \<Rightarrow> Inr (None, h)
      | Some s \<Rightarrow> bind_run (tensor_prep_contiguous s h) (\<lambda>(s, tmp, h).
          fill_new [tmp] (Inr (SNEPPX_tensor_create (Some (t_shape s)) SNEPPX_FLOAT32 h)) (\<lambda>r.
            fold_run (\<lambda>i h. bind_run (load_f32 h s i) (\<lambda>x. store_f32 r i (op x) h)) [0..<t_size s])))"

definition sign_f32 :: "f32 fops \<Rightarrow> f32 \<Rightarrow> f32" where
  "sign_f32 F x = (if f_gt F x (f_zero F) then f_one F else if f_lt F x (f_zero F) then f_lit F (- 1) 0 else f_zero F)"

definition SNEPPX_tensor_neg where "SNEPPX_tensor_neg F = unary_op_f32 (f_neg F)"
definition SNEPPX_tensor_abs where "SNEPPX_tensor_abs = unary_op_f32 fabsf"
definition SNEPPX_tensor_sign where "SNEPPX_tensor_sign F = unary_op_f32 (sign_f32 F)"
definition SNEPPX_tensor_exp where "SNEPPX_tensor_exp F = unary_op_f32 (f_exp F)"
definition SNEPPX_tensor_log where "SNEPPX_tensor_log F = unary_op_f32 (f_log F)"
definition SNEPPX_tensor_sqrt where "SNEPPX_tensor_sqrt F = unary_op_f32 (f_sqrt F)"
definition SNEPPX_tensor_sin where "SNEPPX_tensor_sin F = unary_op_f32 (f_sin F)"
definition SNEPPX_tensor_cos where "SNEPPX_tensor_cos F = unary_op_f32 (f_cos F)"
definition SNEPPX_tensor_tanh where "SNEPPX_tensor_tanh F = unary_op_f32 (f_tanh F)"

text \<open>The operands of a binary operation, made contiguous.\<close>

definition prep_two ::
  "tensor option \<Rightarrow> tensor option \<Rightarrow> (tensor \<Rightarrow> tensor \<Rightarrow> tensor option list \<Rightarrow> heap \<Rightarrow> (tensor option \<times> heap) run) \<Rightarrow>
   heap \<Rightarrow> (tensor option \<times> heap) run" where
  "prep_two a b k h =
     (case (a, b) of
        (Some a, Some b) \<Rightarrow>
          bind_run (tensor_prep_contiguous a h) (\<lambda>(a, ta, h).
          bind_run (tensor_prep_contiguous b h) (\<lambda>(b, tb, h). k a b [ta, tb] h))
      | _ \<Rightarrow> Inr (None, h))"

definition compare_op :: "(f32 \<Rightarrow> f32 \<Rightarrow> bool) \<Rightarrow> tensor option \<Rightarrow> tensor option \<Rightarrow> heap \<Rightarrow> (tensor option \<times> heap) run" where
  "compare_op cmp a b = prep_two a b (\<lambda>a b tmps h.
     fill_new tmps (Inr (SNEPPX_tensor_empty (Some (t_shape a)) SNEPPX_BOOL h)) (\<lambda>r.
       fold_run (\<lambda>i h. bind_run (load_f32 h a i) (\<lambda>x. bind_run (load_f32 h b i) (\<lambda>y.
         store_bytes h (t_storage r) (data_pos r + i) [if cmp x y then 1 else 0]))) [0..<min (t_size a) (t_size b)]))"

definition cmp_eq :: "f32 fops \<Rightarrow> f32 \<Rightarrow> f32 \<Rightarrow> bool" where
  "cmp_eq F a b = f_lt F (fabsf (f_sub F a b)) (f_lit F 1 (- 6))"
definition cmp_ne :: "f32 fops \<Rightarrow> f32 \<Rightarrow> f32 \<Rightarrow> bool" where
  "cmp_ne F a b = f_ge F (fabsf (f_sub F a b)) (f_lit F 1 (- 6))"

definition SNEPPX_tensor_eq where "SNEPPX_tensor_eq F = compare_op (cmp_eq F)"
definition SNEPPX_tensor_ne where "SNEPPX_tensor_ne F = compare_op (cmp_ne F)"
definition SNEPPX_tensor_lt where "SNEPPX_tensor_lt F = compare_op (f_lt F)"
definition SNEPPX_tensor_le where "SNEPPX_tensor_le F = compare_op (f_le F)"
definition SNEPPX_tensor_gt where "SNEPPX_tensor_gt F = compare_op (f_gt F)"
definition SNEPPX_tensor_ge where "SNEPPX_tensor_ge F = compare_op (f_ge F)"

text \<open>The macro \<open>BINARY_OP_F32\<close>.\<close>

definition BINARY_OP_F32 :: "(f32 \<Rightarrow> f32 \<Rightarrow> f32) \<Rightarrow> tensor option \<Rightarrow> tensor option \<Rightarrow> heap \<Rightarrow> (tensor option \<times> heap) run" where
  "BINARY_OP_F32 op a b = prep_two a b (\<lambda>a b tmps h.
     fill_new tmps (Inr (SNEPPX_tensor_create (Some (t_shape a)) SNEPPX_FLOAT32 h)) (\<lambda>r.
       fold_run (\<lambda>i h. bind_run (load_f32 h a i) (\<lambda>x. bind_run (load_f32 h b i) (\<lambda>y. store_f32 r i (op x y) h)))
         [0..<min (t_size a) (t_size b)]))"

definition SNEPPX_tensor_sub where "SNEPPX_tensor_sub F = BINARY_OP_F32 (f_sub F)"
definition SNEPPX_tensor_mul where "SNEPPX_tensor_mul F = BINARY_OP_F32 (f_mul F)"
definition SNEPPX_tensor_div where "SNEPPX_tensor_div F = BINARY_OP_F32 (\<lambda>x y. f_div F x (f_add F y (f_tiny F)))"
definition SNEPPX_tensor_minimum where "SNEPPX_tensor_minimum F = BINARY_OP_F32 (\<lambda>x y. if f_lt F x y then x else y)"
definition SNEPPX_tensor_maximum where "SNEPPX_tensor_maximum F = BINARY_OP_F32 (\<lambda>x y. if f_gt F x y then x else y)"
definition SNEPPX_tensor_pow where "SNEPPX_tensor_pow F = BINARY_OP_F32 (f_pow F)"

text \<open>Addition broadcasts \<open>b\<close> along the last dimension of \<open>a\<close>. A tensor without dimensions has no
  last one; the read of its shape is out of bounds, and a last extent of zero leaves no element.\<close>

definition SNEPPX_tensor_add :: "f32 fops \<Rightarrow> tensor option \<Rightarrow> tensor option \<Rightarrow> heap \<Rightarrow> (tensor option \<times> heap) run" where
  "SNEPPX_tensor_add F a b = prep_two a b (\<lambda>a b tmps h.
     fill_new tmps (Inr (SNEPPX_tensor_create (Some (t_shape a)) SNEPPX_FLOAT32 h)) (\<lambda>r h.
       if t_size a = t_size b
       then fold_run (\<lambda>i h. bind_run (load_f32 h a i) (\<lambda>x. bind_run (load_f32 h b i) (\<lambda>y.
              store_f32 r i (f_add F x y) h))) [0..<min (t_size a) (t_size b)] h
       else if t_shape a = [] then Inl Out_Of_Bounds
       else fold_run (\<lambda>i h. bind_run (load_f32 h a i) (\<lambda>x. bind_run (load_f32 h b (i mod last (t_shape a))) (\<lambda>y.
              store_f32 r i (f_add F x y) h))) [0..<t_size a] h))"

section \<open>Reductions\<close>

definition outer_size :: "tensor \<Rightarrow> nat \<Rightarrow> nat" where "outer_size t dim = sz_prod (take dim (t_shape t))"
definition inner_size :: "tensor \<Rightarrow> nat \<Rightarrow> nat" where "inner_size t dim = sz_prod (drop (dim + 1) (t_shape t))"

text \<open>The triple loop \<open>for o, for r, for i\<close> of the reductions: \<open>rd[o * inner + i] = f rd[o * inner + i] sd[(o * reduce + r) * inner + i]\<close>.\<close>

definition reduce_loop ::
  "nat \<Rightarrow> nat \<Rightarrow> nat \<Rightarrow> (nat \<Rightarrow> nat \<Rightarrow> heap \<Rightarrow> f32 \<Rightarrow> f32 \<Rightarrow> f32 run) \<Rightarrow> tensor \<Rightarrow> tensor \<Rightarrow> heap \<Rightarrow> heap run" where
  "reduce_loop outer red inner f s r h =
     fold_run (\<lambda>ob. fold_run (\<lambda>k. fold_run (\<lambda>i h.
       bind_run (load_f32 h r (ob * inner + i)) (\<lambda>acc.
       bind_run (load_f32 h s (ob * red * inner + k * inner + i)) (\<lambda>x.
       bind_run (f ob i h acc x) (\<lambda>v. store_f32 r (ob * inner + i) v h)))) [0..<inner]) [0..<red]) [0..<outer] h"

definition SNEPPX_tensor_sum :: "f32 fops \<Rightarrow> tensor option \<Rightarrow> nat \<Rightarrow> heap \<Rightarrow> (tensor option \<times> heap) run" where
  "SNEPPX_tensor_sum F src dim h =
     (case src of None \<Rightarrow> Inr (None, h)
      | Some s \<Rightarrow>
         if dim \<ge> t_ndim s then Inr (None, h)
         else bind_run (tensor_prep_contiguous s h) (\<lambda>(s, tmp, h). local_dims (t_ndim s)
           (fill_new [tmp] (SNEPPX_tensor_zeros (Some ((t_shape s)[dim := 1])) SNEPPX_FLOAT32 h) (\<lambda>r.
              reduce_loop (outer_size s dim) (t_shape s ! dim) (inner_size s dim) (\<lambda>_ _ _ acc x. Inr (f_add F acc x)) s r))))"

text \<open>\<open>for (i = 0; i < n; i++) rd[i] = f(rd[i])\<close>\<close>

definition update_cells :: "(f32 \<Rightarrow> f32) \<Rightarrow> tensor \<Rightarrow> nat \<Rightarrow> heap \<Rightarrow> heap run" where
  "update_cells f t n h = fold_run (\<lambda>i h. bind_run (load_f32 h t i) (\<lambda>x. store_f32 t i (f x) h)) [0..<n] h"

definition SNEPPX_tensor_mean :: "f32 fops \<Rightarrow> tensor option \<Rightarrow> nat \<Rightarrow> heap \<Rightarrow> (tensor option \<times> heap) run" where
  "SNEPPX_tensor_mean F src dim h =
     (case src of None \<Rightarrow> Inr (None, h)
      | Some s \<Rightarrow>
         if dim \<ge> t_ndim s then Inr (None, h)
         else fill_new [] (SNEPPX_tensor_sum F src dim h) (\<lambda>r.
           update_cells (\<lambda>x. f_mul F x (f_div F (f_one F) (f_of_size F (t_shape s ! dim)))) r (t_size r)))"

definition SNEPPX_tensor_var :: "f32 fops \<Rightarrow> tensor option \<Rightarrow> nat \<Rightarrow> heap \<Rightarrow> (tensor option \<times> heap) run" where
  "SNEPPX_tensor_var F src dim h =
     (case src of None \<Rightarrow> Inr (None, h)
      | Some s \<Rightarrow>
         if dim \<ge> t_ndim s then Inr (None, h)
         else bind_run (tensor_prep_contiguous s h) (\<lambda>(s, tmp, h).
           bind_run (SNEPPX_tensor_mean F (Some s) dim h) (\<lambda>(m, h).
           case m of
             None \<Rightarrow> bind_run (SNEPPX_tensor_destroy tmp h) (\<lambda>h. Inr (None, h))
           | Some mean \<Rightarrow>
               fill_new [m, tmp] (SNEPPX_tensor_zeros (Some (t_shape mean)) SNEPPX_FLOAT32 h) (\<lambda>r h.
                 bind_run (reduce_loop (outer_size s dim) (t_shape s ! dim) (inner_size s dim)
                   (\<lambda>ob i h acc x. bind_run (load_f32 h mean (ob * inner_size s dim + i)) (\<lambda>mu.
                      let d = f_sub F x mu in Inr (f_add F acc (f_mul F d d)))) s r h) (\<lambda>h.
                 update_cells (\<lambda>x. f_mul F x (f_div F (f_one F) (f_of_size F (t_shape s ! dim)))) r (t_size r) h)))))"

definition SNEPPX_tensor_std :: "f32 fops \<Rightarrow> tensor option \<Rightarrow> nat \<Rightarrow> heap \<Rightarrow> (tensor option \<times> heap) run" where
  "SNEPPX_tensor_std F src dim h =
     fill_new [] (SNEPPX_tensor_var F src dim h) (\<lambda>v. update_cells (f_sqrt F) v (t_size v))"

text \<open>The loops that keep the best value or its index.\<close>

definition best_value :: "(f32 \<Rightarrow> f32 \<Rightarrow> bool) \<Rightarrow> tensor \<Rightarrow> heap \<Rightarrow> f32 run" where
  "best_value better s h =
     bind_run (load_f32 h s 0) (fold_run (\<lambda>i v. bind_run (load_f32 h s i) (\<lambda>x. Inr (if better x v then x else v))) [1..<t_size s])"

definition best_index :: "(f32 \<Rightarrow> f32 \<Rightarrow> bool) \<Rightarrow> tensor \<Rightarrow> heap \<Rightarrow> nat run" where
  "best_index better s h =
     fold_run (\<lambda>i idx. bind_run (load_f32 h s i) (\<lambda>x. bind_run (load_f32 h s idx) (\<lambda>y.
       Inr (if better x y then i else idx)))) [1..<t_size s] 0"

text \<open>A scalar of the tensor, read through a contiguous copy that is destroyed again.\<close>

definition scan_tensor :: "'a \<Rightarrow> (tensor \<Rightarrow> heap \<Rightarrow> 'a run) \<Rightarrow> tensor option \<Rightarrow> heap \<Rightarrow> ('a \<times> heap) run" where
  "scan_tensor z f src h =
     (case src of None \<Rightarrow> Inr (z, h)
      | Some s \<Rightarrow>
         if t_size s = 0 then Inr (z, h)
         else bind_run (tensor_prep_contiguous s h) (\<lambda>(s, tmp, h).
           bind_run (f s h) (\<lambda>v. bind_run (SNEPPX_tensor_destroy tmp h) (\<lambda>h. Inr (v, h)))))"

definition SNEPPX_tensor_min where "SNEPPX_tensor_min F = scan_tensor (f_zero F) (best_value (f_lt F))"
definition SNEPPX_tensor_max where "SNEPPX_tensor_max F = scan_tensor (f_zero F) (best_value (f_gt F))"
definition SNEPPX_tensor_argmin where "SNEPPX_tensor_argmin F = scan_tensor 0 (best_index (f_lt F))"
definition SNEPPX_tensor_argmax where "SNEPPX_tensor_argmax F = scan_tensor 0 (best_index (f_gt F))"

definition cumulate :: "(f32 \<Rightarrow> f32 \<Rightarrow> f32) \<Rightarrow> tensor option \<Rightarrow> nat \<Rightarrow> heap \<Rightarrow> (tensor option \<times> heap) run" where
  "cumulate op src dim h =
     (case src of None \<Rightarrow> Inr (None, h)
      | Some s \<Rightarrow>
         if dim \<ge> t_ndim s then Inr (None, h)
         else fill_new [] (SNEPPX_tensor_copy src h) (\<lambda>r.
           let inner = inner_size s dim; red = t_shape s ! dim in
           fold_run (\<lambda>ob. fold_run (\<lambda>i. fold_run (\<lambda>k h.
             bind_run (load_f32 h r (ob * red * inner + k * inner + i)) (\<lambda>x.
             bind_run (load_f32 h r (ob * red * inner + (k - 1) * inner + i)) (\<lambda>y.
             store_f32 r (ob * red * inner + k * inner + i) (op x y) h))) [1..<red]) [0..<inner]) [0..<outer_size s dim]))"

definition SNEPPX_tensor_cumsum where "SNEPPX_tensor_cumsum F = cumulate (f_add F)"
definition SNEPPX_tensor_cumprod where "SNEPPX_tensor_cumprod F = cumulate (f_mul F)"

section \<open>Products\<close>

text \<open>\<open>for (l = 0; l < n; l++) s += x[f l] * y[g l]\<close>\<close>

definition dot_loop :: "f32 fops \<Rightarrow> tensor \<Rightarrow> (nat \<Rightarrow> nat) \<Rightarrow> tensor \<Rightarrow> (nat \<Rightarrow> nat) \<Rightarrow> nat \<Rightarrow> heap \<Rightarrow> f32 run" where
  "dot_loop F x f y g n h =
     fold_run (\<lambda>l s. bind_run (load_f32 h x (f l)) (\<lambda>u. bind_run (load_f32 h y (g l)) (\<lambda>v.
       Inr (f_add F s (f_mul F u v))))) [0..<n] (f_zero F)"

definition SNEPPX_tensor_dot :: "f32 fops \<Rightarrow> tensor option \<Rightarrow> tensor option \<Rightarrow> heap \<Rightarrow> f32 run" where
  "SNEPPX_tensor_dot F a b h =
     (case (a, b) of
        (Some a, Some b) \<Rightarrow> if t_size a \<noteq> t_size b then Inr (f_zero F) else dot_loop F a id b id (t_size a) h
      | _ \<Rightarrow> Inr (f_zero F))"

text \<open>The leading dimensions of the product, or \<open>None\<close> when they do not fit.\<close>

definition lead_dim :: "nat list \<Rightarrow> nat \<Rightarrow> nat \<Rightarrow> nat" where
  "lead_dim lead n i = (if i < n - length lead then 1 else lead ! (i - (n - length lead)))"

definition matmul_lead :: "nat list \<Rightarrow> nat list \<Rightarrow> nat list option" where
  "matmul_lead a_lead b_lead =
     (let n = max (length a_lead) (length b_lead) in
      if \<exists>i < n. lead_dim a_lead n i \<noteq> lead_dim b_lead n i \<and> lead_dim a_lead n i \<noteq> 1 \<and> lead_dim b_lead n i \<noteq> 1
      then None
      else Some (map (\<lambda>i. max (lead_dim a_lead n i) (lead_dim b_lead n i)) [0..<n]))"

text \<open>The coordinates of a batch, last dimension first, and the offset they select in an operand: each
  coordinate times the product of the extents \<^emph>\<open>before\<close> it.\<close>

definition batch_coords :: "nat list \<Rightarrow> nat \<Rightarrow> nat list" where
  "batch_coords lead batch = snd (foldr (\<lambda>d (rem, cs). (rem div d, rem mod d # cs)) lead (batch, []))"

definition lead_offset :: "nat list \<Rightarrow> nat list \<Rightarrow> nat" where
  "lead_offset lead coords =
     fold (\<lambda>i off. if i < length coords - length lead then off
        else let ai = i - (length coords - length lead) in
             off + (if lead ! ai = 1 then 0 else coords ! i) * prod_list (take ai lead)) [0..<length coords] 0"

definition matmul_batch ::
  "f32 fops \<Rightarrow> tensor \<Rightarrow> tensor \<Rightarrow> tensor \<Rightarrow> nat list \<Rightarrow> nat \<Rightarrow> heap \<Rightarrow> heap run" where
  "matmul_batch F a b r out_lead batch h =
     (let a1 = (t_ndim a = 1); b1 = (t_ndim b = 1);
          a_m = (if a1 then 1 else t_shape a ! (t_ndim a - 2)); a_k = last (t_shape a);
          b_n = (if b1 then 1 else last (t_shape b)); b_k = (if b1 then t_shape b ! 0 else t_shape b ! (t_ndim b - 2));
          a_lead = take (t_ndim a - 2) (t_shape a); b_lead = take (t_ndim b - 2) (t_shape b);
          coords = batch_coords out_lead batch;
          Abase = lead_offset a_lead coords * (if a1 then a_k else a_m * a_k);
          Bbase = lead_offset b_lead coords * (if b1 then b_k else b_k * b_n);
          Cbase = batch * (if a1 then 0 else a_m) * (if b1 then 0 else b_n)
      in if a1 then fold_run (\<lambda>j h. bind_run (dot_loop F a (\<lambda>l. Abase + l) b (\<lambda>l. Bbase + l * b_n + j) a_k h) (\<lambda>s.
                      store_f32 r (Cbase + j) s h)) [0..<b_n] h
         else if b1 then fold_run (\<lambda>i h. bind_run (dot_loop F a (\<lambda>l. Abase + i * a_k + l) b (\<lambda>l. Bbase + l) a_k h) (\<lambda>s.
                      store_f32 r (Cbase + i) s h)) [0..<a_m] h
         else fold_run (\<lambda>i. fold_run (\<lambda>j h.
                bind_run (dot_loop F a (\<lambda>l. Abase + i * a_k + l) b (\<lambda>l. Bbase + l * b_n + j) a_k h) (\<lambda>s.
                store_f32 r (Cbase + i * b_n + j) s h)) [0..<b_n]) [0..<a_m] h)"

definition matmul_prepared ::
  "f32 fops \<Rightarrow> tensor \<Rightarrow> tensor \<Rightarrow> tensor option list \<Rightarrow> heap \<Rightarrow> (tensor option \<times> heap) run" where
  "matmul_prepared F a b tmps h =
     (let a1 = (t_ndim a = 1); b1 = (t_ndim b = 1);
          a_k = last (t_shape a); b_k = (if b1 then t_shape b ! 0 else t_shape b ! (t_ndim b - 2));
          give_up = bind_run (fold_run SNEPPX_tensor_destroy tmps h) (\<lambda>h. Inr (None, h))
      in if a1 \<and> b1 \<or> a_k \<noteq> b_k then give_up
         else (case matmul_lead (take (t_ndim a - 2) (t_shape a)) (take (t_ndim b - 2) (t_shape b)) of
                 None \<Rightarrow> give_up
               | Some out_lead \<Rightarrow>
                   let out_shape = out_lead @ (if a1 then [] else [t_shape a ! (t_ndim a - 2)]) @ (if b1 then [] else [last (t_shape b)]);
                       batches = sz_prod out_lead
                   in fill_new tmps (SNEPPX_tensor_zeros (Some out_shape) SNEPPX_FLOAT32 h) (\<lambda>r.
                        if 0 \<in> set out_lead then (\<lambda>h. Inl Zero_Divide)
                        else fold_run (matmul_batch F a b r out_lead) [0..<(if batches = 0 then 1 else batches)])))"

definition SNEPPX_tensor_matmul :: "f32 fops \<Rightarrow> tensor option \<Rightarrow> tensor option \<Rightarrow> heap \<Rightarrow> (tensor option \<times> heap) run" where
  "SNEPPX_tensor_matmul F a b h =
     (case (a, b) of
        (Some x, Some y) \<Rightarrow>
          if t_ndim x < 1 \<or> t_ndim x > 8 \<or> t_ndim y < 1 \<or> t_ndim y > 8 then Inr (None, h)
          else prep_two a b (matmul_prepared F) h
      | _ \<Rightarrow> Inr (None, h))"

end
