(* ===== verification/Tensor_Nn.thy ===== *)
theory Tensor_Nn
  imports Tensor_Math
begin

text \<open>
  Activations, normalisations, pooling and losses of \<open>kernel/tensor/tensor.c\<close>.
\<close>

section \<open>Activations\<close>

text \<open>The activations change a copy of their argument in place, cell by cell.\<close>

definition map_copy :: "(f32 \<Rightarrow> f32) \<Rightarrow> tensor option \<Rightarrow> heap \<Rightarrow> (tensor option \<times> heap) run" where
  "map_copy f src h =
     (case src of None \<Rightarrow> Inr (None, h)
      | Some s \<Rightarrow> fill_new [] (SNEPPX_tensor_copy src h) (\<lambda>r. update_cells f r (t_size r)))"

definition SNEPPX_tensor_relu :: "f32 fops \<Rightarrow> tensor option \<Rightarrow> heap \<Rightarrow> (tensor option \<times> heap) run" where
  "SNEPPX_tensor_relu F = map_copy (\<lambda>x. if f_lt F x (f_zero F) then f_zero F else x)"

definition SNEPPX_tensor_gelu :: "f32 fops \<Rightarrow> tensor option \<Rightarrow> heap \<Rightarrow> (tensor option \<times> heap) run" where
  "SNEPPX_tensor_gelu F = map_copy (\<lambda>x.
     f_mul F (f_mul F (f_lit F 5 (- 1)) x) (f_add F (f_one F) (f_tanh F (f_mul F (f_lit F 79788456 (- 8))
       (f_add F x (f_mul F (f_mul F (f_mul F (f_lit F 44715 (- 6)) x) x) x))))))"

definition SNEPPX_tensor_silu :: "f32 fops \<Rightarrow> tensor option \<Rightarrow> heap \<Rightarrow> (tensor option \<times> heap) run" where
  "SNEPPX_tensor_silu F = map_copy (\<lambda>x. f_div F x (f_add F (f_one F) (f_exp F (f_neg F x))))"

definition SNEPPX_tensor_sigmoid :: "f32 fops \<Rightarrow> tensor option \<Rightarrow> heap \<Rightarrow> (tensor option \<times> heap) run" where
  "SNEPPX_tensor_sigmoid F = map_copy (\<lambda>x. f_div F (f_one F) (f_add F (f_one F) (f_exp F (f_neg F x))))"

text \<open>Fake quantisation; \<open>floorf\<close> is a parameter, and so is the conversion of an \<open>int\<close>.\<close>

definition quant_cell :: "f32 fops \<Rightarrow> (f32 \<Rightarrow> f32) \<Rightarrow> (int \<Rightarrow> f32) \<Rightarrow> f32 \<Rightarrow> int \<Rightarrow> f32 \<Rightarrow> f32" where
  "quant_cell F floorf to_f scale bits x =
     (let qmax = to_f (2 ^ nat (bits - 1) - 1); qmin = to_f (- (2 ^ nat (bits - 1)));
          qf = floorf (f_add F (f_mul F x (f_div F (f_one F) scale)) (f_lit F 5 (- 1)));
          qf = (if f_lt F qf qmin then qmin else qf);
          qf = (if f_gt F qf qmax then qmax else qf)
      in f_mul F qf scale)"

text \<open>A tensor whose data pointer is not \<open>NULL\<close>.\<close>

definition with_data :: "heap \<Rightarrow> tensor option \<Rightarrow> tensor option" where
  "with_data h t = (case t of None \<Rightarrow> None
     | Some u \<Rightarrow> if map_option st_data (h_stores h (t_storage u)) = Some None then None else Some u)"

definition SNEPPX_tensor_fake_quant ::
  "f32 fops \<Rightarrow> (f32 \<Rightarrow> f32) \<Rightarrow> (int \<Rightarrow> f32) \<Rightarrow> tensor option \<Rightarrow> f32 \<Rightarrow> int \<Rightarrow> heap \<Rightarrow> (tensor option \<times> heap) run" where
  "SNEPPX_tensor_fake_quant F floorf to_f src scale bits h =
     (if with_data h src = None \<or> f_le F scale (f_zero F) \<or> bits < 2 \<or> bits > 16 then Inr (None, h)
      else map_copy (quant_cell F floorf to_f scale bits) src h)"

text \<open>The generator of \<open>SNEPPX_tensor_dropout\<close>, on \<open>unsigned long\<close>.\<close>

definition lcg_next :: "u64 \<Rightarrow> u64" where "lcg_next s = s * 1103515245 + 12345"

definition lcg_sample :: "f32 fops \<Rightarrow> u64 \<Rightarrow> f32" where
  "lcg_sample F s = f_div F (f_of_size F (unat (drop_bit 16 s AND 0x7FFF))) (f_of_size F 32767)"

definition SNEPPX_tensor_dropout ::
  "f32 fops \<Rightarrow> tensor option \<Rightarrow> f32 \<Rightarrow> u32 \<Rightarrow> heap \<Rightarrow> (tensor option \<times> heap) run" where
  "SNEPPX_tensor_dropout F src rate seed h =
     (case src of None \<Rightarrow> Inr (None, h)
      | Some s \<Rightarrow> fill_new [] (SNEPPX_tensor_copy src h) (\<lambda>r h.
          bind_run (fold_run (\<lambda>i (s, h).
            let s = lcg_next s in
            bind_run (load_f32 h r i) (\<lambda>x.
            bind_run (store_f32 r i (if f_lt F (lcg_sample F s) rate then f_zero F
                                     else f_mul F x (f_div F (f_one F) (f_sub F (f_one F) rate))) h) (\<lambda>h.
            Inr (s, h)))) [0..<t_size r] (if seed \<noteq> 0 then ucast seed else 123456789, h)) (\<lambda>(_, h). Inr h)))"

section \<open>Softmax and layer normalisation\<close>

text \<open>The cells \<open>base + r * step\<close> of one row, \<open>r < n\<close>.\<close>

definition softmax_cells :: "f32 fops \<Rightarrow> tensor \<Rightarrow> nat \<Rightarrow> nat \<Rightarrow> nat \<Rightarrow> heap \<Rightarrow> heap run" where
  "softmax_cells F t base step n h =
     bind_run (load_f32 h t base) (\<lambda>m0.
     bind_run (fold_run (\<lambda>r m. bind_run (load_f32 h t (base + r * step)) (\<lambda>v. Inr (if f_gt F v m then v else m))) [1..<n] m0) (\<lambda>max_val.
     bind_run (fold_run (\<lambda>r (sum, h).
         bind_run (load_f32 h t (base + r * step)) (\<lambda>v.
         let ex = f_exp F (f_sub F v max_val) in
         bind_run (store_f32 t (base + r * step) ex h) (\<lambda>h. Inr (f_add F sum ex, h)))) [0..<n] (f_zero F, h)) (\<lambda>(sum, h).
     let inv_sum = f_div F (f_one F) (f_add F sum (f_tiny F)) in
     fold_run (\<lambda>r h. bind_run (load_f32 h t (base + r * step)) (\<lambda>v.
       store_f32 t (base + r * step) (f_mul F v inv_sum) h)) [0..<n] h)))"

definition SNEPPX_tensor_softmax :: "f32 fops \<Rightarrow> tensor option \<Rightarrow> nat \<Rightarrow> heap \<Rightarrow> (tensor option \<times> heap) run" where
  "SNEPPX_tensor_softmax F src dim h =
     (case src of None \<Rightarrow> Inr (None, h)
      | Some s \<Rightarrow>
         if dim \<ge> t_ndim s then Inr (None, h)
         else fill_new [] (SNEPPX_tensor_copy src h) (\<lambda>r.
           let inner = inner_size s dim; red = t_shape s ! dim in
           fold_run (\<lambda>ob. fold_run (\<lambda>i. softmax_cells F r (ob * red * inner + i) inner red) [0..<inner]) [0..<outer_size s dim]))"

definition SNEPPX_tensor_log_softmax :: "f32 fops \<Rightarrow> tensor option \<Rightarrow> nat \<Rightarrow> heap \<Rightarrow> (tensor option \<times> heap) run" where
  "SNEPPX_tensor_log_softmax F src dim h =
     (case src of None \<Rightarrow> Inr (None, h)
      | Some s \<Rightarrow>
         if dim \<ge> t_ndim s then Inr (None, h)
         else fill_new [] (SNEPPX_tensor_softmax F src dim h) (\<lambda>r.
           update_cells (\<lambda>x. f_log F (f_add F x (f_tiny F))) r (t_size r)))"

text \<open>Optional scale and shift: \<open>if (gd)\<close> tests the data pointer.\<close>

definition scale_shift :: "f32 fops \<Rightarrow> tensor option \<Rightarrow> tensor option \<Rightarrow> nat \<Rightarrow> f32 \<Rightarrow> heap \<Rightarrow> f32 run" where
  "scale_shift F gamma beta j x h =
     bind_run (case with_data h gamma of None \<Rightarrow> Inr x | Some g \<Rightarrow> bind_run (load_f32 h g j) (\<lambda>v. Inr (f_mul F x v))) (\<lambda>x.
     case with_data h beta of None \<Rightarrow> Inr x | Some b \<Rightarrow> bind_run (load_f32 h b j) (\<lambda>v. Inr (f_add F x v)))"

text \<open>Normalises the cells \<open>ps\<close> of \<open>r\<close> by their mean and variance; each comes with the index of its scale and
  shift.\<close>

definition norm_cells :: "f32 fops \<Rightarrow> tensor option \<Rightarrow> tensor option \<Rightarrow> f32 \<Rightarrow> tensor \<Rightarrow> (nat \<times> nat) list \<Rightarrow> heap \<Rightarrow> heap run" where
  "norm_cells F gamma beta eps r ps h =
     bind_run (fold_run (\<lambda>(p, _) (sum, sum2). bind_run (load_f32 h r p) (\<lambda>v.
         Inr (f_add F sum v, f_add F sum2 (f_mul F v v)))) ps (f_zero F, f_zero F)) (\<lambda>(sum, sum2).
     let count = f_of_size F (length ps);
         mean = f_div F sum count;
         var = f_sub F (f_div F sum2 count) (f_mul F mean mean);
         inv_std = f_div F (f_one F) (f_sqrt F (f_add F var eps))
     in fold_run (\<lambda>(p, ch) h. bind_run (load_f32 h r p) (\<lambda>v.
          bind_run (scale_shift F gamma beta ch (f_mul F (f_sub F v mean) inv_std) h) (\<lambda>x.
          store_f32 r p x h))) ps h)"

definition layer_norm_row :: "f32 fops \<Rightarrow> tensor option \<Rightarrow> tensor option \<Rightarrow> f32 \<Rightarrow> tensor \<Rightarrow> nat \<Rightarrow> nat \<Rightarrow> heap \<Rightarrow> heap run" where
  "layer_norm_row F gamma beta eps r d i = norm_cells F gamma beta eps r (map (\<lambda>j. (i * d + j, j)) [0..<d])"

definition SNEPPX_tensor_layer_norm ::
  "f32 fops \<Rightarrow> tensor option \<Rightarrow> tensor option \<Rightarrow> tensor option \<Rightarrow> f32 \<Rightarrow> heap \<Rightarrow> (tensor option \<times> heap) run" where
  "SNEPPX_tensor_layer_norm F src gamma beta eps h =
     (case src of None \<Rightarrow> Inr (None, h)
      | Some s \<Rightarrow> fill_new [] (SNEPPX_tensor_copy src h) (\<lambda>r h.
          if t_shape s = [] then Inl Out_Of_Bounds
          else if last (t_shape s) = 0 then Inl Zero_Divide
          else fold_run (layer_norm_row F gamma beta eps r (last (t_shape s))) [0..<t_size s div last (t_shape s)] h))"

definition batch_norm_channel ::
  "f32 fops \<Rightarrow> tensor option \<Rightarrow> tensor option \<Rightarrow> tensor option \<Rightarrow> tensor option \<Rightarrow> f32 \<Rightarrow> tensor \<Rightarrow> nat \<Rightarrow> nat \<Rightarrow> nat \<Rightarrow> heap \<Rightarrow> heap run" where
  "batch_norm_channel F gamma beta rm rv eps r c hw ch h =
     bind_run (case with_data h rm of None \<Rightarrow> Inr (f_zero F) | Some m \<Rightarrow> load_f32 h m ch) (\<lambda>mean.
     bind_run (case with_data h rv of None \<Rightarrow> Inr (f_one F) | Some v \<Rightarrow> load_f32 h v ch) (\<lambda>var.
     let inv_std = f_div F (f_one F) (f_sqrt F (f_add F var eps)) in
     fold_run (\<lambda>p h. bind_run (load_f32 h r (p * c + ch)) (\<lambda>v.
       bind_run (scale_shift F gamma beta ch (f_mul F (f_sub F v mean) inv_std) h) (\<lambda>x.
       store_f32 r (p * c + ch) x h))) [0..<hw] h))"

definition SNEPPX_tensor_batch_norm ::
  "f32 fops \<Rightarrow> tensor option \<Rightarrow> tensor option \<Rightarrow> tensor option \<Rightarrow> tensor option \<Rightarrow> tensor option \<Rightarrow> f32 \<Rightarrow> heap \<Rightarrow>
   (tensor option \<times> heap) run" where
  "SNEPPX_tensor_batch_norm F src gamma beta running_mean running_var eps h =
     (case src of None \<Rightarrow> Inr (None, h)
      | Some s \<Rightarrow> fill_new [] (SNEPPX_tensor_copy src h) (\<lambda>r h.
          bind_run (load_cell (t_shape s) 1) (\<lambda>c.
          if c = 0 then Inl Zero_Divide
          else fold_run (batch_norm_channel F gamma beta running_mean running_var eps r c (t_size s div c)) [0..<c] h)))"

definition SNEPPX_tensor_group_norm ::
  "f32 fops \<Rightarrow> tensor option \<Rightarrow> tensor option \<Rightarrow> tensor option \<Rightarrow> nat \<Rightarrow> f32 \<Rightarrow> heap \<Rightarrow> (tensor option \<times> heap) run" where
  "SNEPPX_tensor_group_norm F src gamma beta num_groups eps h =
     (case src of None \<Rightarrow> Inr (None, h)
      | Some s \<Rightarrow> fill_new [] (SNEPPX_tensor_copy src h) (\<lambda>r h.
          bind_run (load_cell (t_shape s) 1) (\<lambda>c.
          let n = t_shape s ! 0 in
          if num_groups = 0 \<or> n * c = 0 then Inl Zero_Divide
          else let group_size = c div num_groups; hw = t_size s div (n * c) in
            fold_run (\<lambda>b. fold_run (\<lambda>g. norm_cells F gamma beta eps r
              (concat (map (\<lambda>ch. map (\<lambda>p. (b * c * hw + ch * hw + p, ch)) [0..<hw]) [g * group_size..<min (g * group_size + group_size) c])))
              [0..<num_groups]) [0..<n] h)))"

definition SNEPPX_tensor_instance_norm ::
  "f32 fops \<Rightarrow> tensor option \<Rightarrow> tensor option \<Rightarrow> tensor option \<Rightarrow> f32 \<Rightarrow> heap \<Rightarrow> (tensor option \<times> heap) run" where
  "SNEPPX_tensor_instance_norm F src gamma beta eps h =
     (case src of None \<Rightarrow> Inr (None, h)
      | Some s \<Rightarrow> fill_new [] (SNEPPX_tensor_copy src h) (\<lambda>r h.
          bind_run (load_cell (t_shape s) 1) (\<lambda>c.
          let n = t_shape s ! 0 in
          if n * c = 0 then Inl Zero_Divide
          else let hw = t_size s div (n * c) in
            fold_run (\<lambda>b. fold_run (\<lambda>ch. norm_cells F gamma beta eps r (map (\<lambda>p. (b * c * hw + ch * hw + p, ch)) [0..<hw]))
              [0..<c]) [0..<n] h)))"

section \<open>Embedding and pooling\<close>

definition read_index :: "f32 fops \<Rightarrow> heap \<Rightarrow> tensor \<Rightarrow> nat \<Rightarrow> nat run" where
  "read_index F h t i =
     (case t_dtype t of
        SNEPPX_INT32 \<Rightarrow> bind_run (load_bytes h (t_storage t) (data_pos t + i * 4) 4) (\<lambda>b. Inr (unat (scast (le32 b 0) :: u64)))
      | SNEPPX_FLOAT32 \<Rightarrow> bind_run (load_f32 h t i) (\<lambda>x. Inr (f_to_size F x))
      | _ \<Rightarrow> bind_run (load_bytes h (t_storage t) (data_pos t + i * 8) 8) (\<lambda>b. Inr (unat (le64 b 0))))"

definition SNEPPX_tensor_embedding ::
  "f32 fops \<Rightarrow> tensor option \<Rightarrow> tensor option \<Rightarrow> heap \<Rightarrow> (tensor option \<times> heap) run" where
  "SNEPPX_tensor_embedding F weight indices h =
     (case (weight, indices) of
        (Some w, Some ix) \<Rightarrow>
          if t_ndim w \<noteq> 2 then Inr (None, h)
          else fill_new [] (Inr (SNEPPX_tensor_empty (Some [t_size ix, t_shape w ! 1]) (t_dtype w) h)) (\<lambda>r.
            let n = t_shape w ! 1 * t_item w in
            fold_run (\<lambda>i h. bind_run (read_index F h ix i) (\<lambda>e.
              let e = (if e \<ge> t_shape w ! 0 then 0 else e) in
              bind_run (load_bytes h (t_storage w) (data_pos w + e * n) n) (\<lambda>b.
              store_bytes h (t_storage r) (data_pos r + i * n) b))) [0..<t_size ix])
      | _ \<Rightarrow> Inr (None, h))"

definition max_cells :: "f32 fops \<Rightarrow> tensor \<Rightarrow> nat list \<Rightarrow> heap \<Rightarrow> f32 run" where
  "max_cells F t ks h =
     fold_run (\<lambda>k m. bind_run (load_f32 h t k) (\<lambda>v. Inr (if f_gt F v m then v else m))) ks 0xff7fffff"

text \<open>\<open>L - kernel_size\<close> wraps when the kernel is longer than the row.\<close>

definition pool_extent :: "nat \<Rightarrow> nat \<Rightarrow> nat \<Rightarrow> nat" where
  "pool_extent L k stride = sz_add (size_sub L k div stride) 1"

definition SNEPPX_tensor_pool1d :: "f32 fops \<Rightarrow> tensor option \<Rightarrow> nat \<Rightarrow> nat \<Rightarrow> heap \<Rightarrow> (tensor option \<times> heap) run" where
  "SNEPPX_tensor_pool1d F src kernel_size stride h =
     (case src of None \<Rightarrow> Inr (None, h)
      | Some s \<Rightarrow>
         if kernel_size = 0 \<or> stride = 0 then Inr (None, h)
         else if t_ndim s < 1 then Inl Out_Of_Bounds
         else let L = last (t_shape s); out_len = pool_extent L kernel_size stride; channels = t_shape s ! (t_ndim s - 2) in
           if out_len = 0 then Inr (None, h)
           else local_dims (t_ndim s)
             (fill_new [] (SNEPPX_tensor_zeros (Some (butlast (t_shape s) @ [out_len])) SNEPPX_FLOAT32 h) (\<lambda>r.
                if t_ndim s < 2 then (\<lambda>h. Inl Out_Of_Bounds)
                else if channels * L = 0 then (\<lambda>h. Inl Zero_Divide)
                else fold_run (\<lambda>b. fold_run (\<lambda>c. fold_run (\<lambda>pos h.
                  bind_run (max_cells F s (map (\<lambda>k. b * channels * L + c * L + pos * stride + k) [0..<kernel_size]) h) (\<lambda>m.
                  store_f32 r (b * channels * out_len + c * out_len + pos) m h)) [0..<out_len]) [0..<channels])
                  [0..<t_size s div (channels * L)])))"

definition SNEPPX_tensor_pool2d ::
  "f32 fops \<Rightarrow> tensor option \<Rightarrow> nat \<Rightarrow> nat \<Rightarrow> nat \<Rightarrow> nat \<Rightarrow> heap \<Rightarrow> (tensor option \<times> heap) run" where
  "SNEPPX_tensor_pool2d F src kernel_h kernel_w stride_h stride_w h =
     (case src of None \<Rightarrow> Inr (None, h)
      | Some s \<Rightarrow>
         if kernel_h = 0 \<or> kernel_w = 0 \<or> stride_h = 0 \<or> stride_w = 0 then Inr (None, h)
         else if t_ndim s < 2 then Inl Out_Of_Bounds
         else let H = t_shape s ! (t_ndim s - 2); W = last (t_shape s);
                  out_h = pool_extent H kernel_h stride_h; out_w = pool_extent W kernel_w stride_w;
                  channels = t_shape s ! (t_ndim s - 3) in
           if out_h = 0 \<or> out_w = 0 then Inr (None, h)
           else local_dims (t_ndim s)
             (fill_new [] (SNEPPX_tensor_zeros (Some (take (t_ndim s - 2) (t_shape s) @ [out_h, out_w])) SNEPPX_FLOAT32 h) (\<lambda>r.
                if t_ndim s < 3 then (\<lambda>h. Inl Out_Of_Bounds)
                else if channels * H * W = 0 then (\<lambda>h. Inl Zero_Divide)
                else fold_run (\<lambda>b. fold_run (\<lambda>c. fold_run (\<lambda>oh. fold_run (\<lambda>ow h.
                  bind_run (max_cells F s (map (\<lambda>(kh, kw). b * channels * H * W + c * H * W + (oh * stride_h + kh) * W + (ow * stride_w + kw))
                    (List.product [0..<kernel_h] [0..<kernel_w])) h) (\<lambda>m.
                  store_f32 r (b * channels * out_h * out_w + c * out_h * out_w + oh * out_w + ow) m h)) [0..<out_w]) [0..<out_h]) [0..<channels])
                  [0..<t_size s div (channels * H * W)])))"

section \<open>Convolutions\<close>

definition conv_extent :: "nat \<Rightarrow> nat \<Rightarrow> nat \<Rightarrow> nat \<Rightarrow> nat" where
  "conv_extent L K stride padding = sz_add (size_sub (sz_add L (sz_mul 2 padding)) K div stride) 1"

text \<open>\<open>(int)n\<close>, and the position \<open>(int)(pos * stride + k) - (int)padding\<close> when it is inside the input.\<close>

definition int_of_size :: "nat \<Rightarrow> int" where "int_of_size n = sint (of_nat n :: 32 word)"

definition conv_position :: "nat \<Rightarrow> nat \<Rightarrow> nat \<Rightarrow> nat \<Rightarrow> nat \<Rightarrow> nat option" where
  "conv_position L stride padding pos k =
     (let i = int_of_size (pos * stride + k) - int_of_size padding in if 0 \<le> i \<and> i < int_of_size L then Some (nat i) else None)"

text \<open>\<open>sum += id[p] * kd[q]\<close> for the pairs of positions of one output cell.\<close>

definition conv_sum :: "f32 fops \<Rightarrow> tensor \<Rightarrow> tensor \<Rightarrow> (nat \<times> nat) list \<Rightarrow> heap \<Rightarrow> f32 run" where
  "conv_sum F x w ps h =
     fold_run (\<lambda>(p, q) sum. bind_run (load_f32 h x p) (\<lambda>u. bind_run (load_f32 h w q) (\<lambda>v.
       Inr (f_add F sum (f_mul F u v))))) ps (f_zero F)"

definition add_cell :: "f32 fops \<Rightarrow> tensor \<Rightarrow> nat \<Rightarrow> f32 \<Rightarrow> heap \<Rightarrow> heap run" where
  "add_cell F r p v h = bind_run (load_f32 h r p) (\<lambda>x. store_f32 r p (f_add F x v) h)"

definition conv1d_pairs :: "nat \<Rightarrow> nat \<Rightarrow> nat \<Rightarrow> nat \<Rightarrow> nat \<Rightarrow> nat \<Rightarrow> nat \<Rightarrow> nat \<Rightarrow> nat \<Rightarrow> (nat \<times> nat) list" where
  "conv1d_pairs L K in_channels stride padding b c_in c_out pos =
     concat (map (\<lambda>k. case conv_position L stride padding pos k of None \<Rightarrow> []
       | Some i \<Rightarrow> [(b * in_channels * L + c_in * L + i, c_out * in_channels * K + c_in * K + k)]) [0..<K])"

definition SNEPPX_tensor_conv1d ::
  "f32 fops \<Rightarrow> tensor option \<Rightarrow> tensor option \<Rightarrow> nat \<Rightarrow> nat \<Rightarrow> heap \<Rightarrow> (tensor option \<times> heap) run" where
  "SNEPPX_tensor_conv1d F input kern stride padding h =
     (case (input, kern) of
        (Some x, Some w) \<Rightarrow>
          if stride = 0 then Inr (None, h)
          else if t_ndim x < 1 \<or> t_ndim w < 1 then Inl Out_Of_Bounds
          else let L = last (t_shape x); K = last (t_shape w); out_len = conv_extent L K stride padding;
                   in_channels = t_shape x ! (t_ndim x - 2); kernel_channels = t_shape w ! (t_ndim w - 2) in
            if out_len = 0 then Inr (None, h)
            else local_dims (t_ndim x)
              (fill_new [] (SNEPPX_tensor_zeros (Some (butlast (t_shape x) @ [out_len])) SNEPPX_FLOAT32 h) (\<lambda>r.
                 if t_ndim x < 2 \<or> t_ndim w < 2 then (\<lambda>h. Inl Out_Of_Bounds)
                 else if in_channels * L = 0 then (\<lambda>h. Inl Zero_Divide)
                 else fold_run (\<lambda>b. fold_run (\<lambda>c_in. fold_run (\<lambda>c_out. fold_run (\<lambda>pos h.
                   bind_run (conv_sum F x w (conv1d_pairs L K in_channels stride padding b c_in c_out pos) h) (\<lambda>sum.
                   add_cell F r (b * kernel_channels * out_len + c_out * out_len + pos) sum h))
                   [0..<out_len]) [0..<kernel_channels]) [0..<in_channels]) [0..<t_size x div (in_channels * L)]))
      | _ \<Rightarrow> Inr (None, h))"

definition conv2d_pairs ::
  "nat \<Rightarrow> nat \<Rightarrow> nat \<Rightarrow> nat \<Rightarrow> nat \<Rightarrow> nat \<Rightarrow> nat \<Rightarrow> nat \<Rightarrow> nat \<Rightarrow> nat \<Rightarrow> nat \<Rightarrow> nat \<Rightarrow> nat \<Rightarrow> nat \<Rightarrow> (nat \<times> nat) list" where
  "conv2d_pairs H W KH KW in_channels stride_h stride_w pad_h pad_w b co ci oh ow =
     concat (map (\<lambda>(kh, kw). case (conv_position H stride_h pad_h oh kh, conv_position W stride_w pad_w ow kw) of
         (Some ih, Some iw) \<Rightarrow> [(b * in_channels * H * W + ci * H * W + ih * W + iw, co * in_channels * KH * KW + ci * KH * KW + kh * KW + kw)]
       | _ \<Rightarrow> []) (List.product [0..<KH] [0..<KW]))"

definition SNEPPX_tensor_conv2d ::
  "f32 fops \<Rightarrow> tensor option \<Rightarrow> tensor option \<Rightarrow> nat \<Rightarrow> nat \<Rightarrow> nat \<Rightarrow> nat \<Rightarrow> heap \<Rightarrow> (tensor option \<times> heap) run" where
  "SNEPPX_tensor_conv2d F input kern stride_h stride_w pad_h pad_w h =
     (case (input, kern) of
        (Some x, Some w) \<Rightarrow>
          if stride_h = 0 \<or> stride_w = 0 then Inr (None, h)
          else if t_ndim x < 2 \<or> t_ndim w < 2 then Inl Out_Of_Bounds
          else let H = t_shape x ! (t_ndim x - 2); W = last (t_shape x);
                   KH = t_shape w ! (t_ndim w - 2); KW = last (t_shape w);
                   out_h = conv_extent H KH stride_h pad_h; out_w = conv_extent W KW stride_w pad_w;
                   in_channels = t_shape x ! (t_ndim x - 3); out_channels = t_shape w ! (t_ndim w - 3) in
            if out_h = 0 \<or> out_w = 0 then Inr (None, h)
            else local_dims (t_ndim x)
              (fill_new [] (SNEPPX_tensor_zeros (Some (take (t_ndim x - 2) (t_shape x) @ [out_h, out_w])) SNEPPX_FLOAT32 h) (\<lambda>r.
                 if t_ndim x < 3 \<or> t_ndim w < 3 then (\<lambda>h. Inl Out_Of_Bounds)
                 else if in_channels * H * W = 0 then (\<lambda>h. Inl Zero_Divide)
                 else fold_run (\<lambda>b. fold_run (\<lambda>co. fold_run (\<lambda>ci. fold_run (\<lambda>oh. fold_run (\<lambda>ow h.
                   bind_run (conv_sum F x w (conv2d_pairs H W KH KW in_channels stride_h stride_w pad_h pad_w b co ci oh ow) h) (\<lambda>sum.
                   add_cell F r (b * out_channels * out_h * out_w + co * out_h * out_w + oh * out_w + ow) sum h))
                   [0..<out_w]) [0..<out_h]) [0..<in_channels]) [0..<out_channels]) [0..<t_size x div (in_channels * H * W)]))
      | _ \<Rightarrow> Inr (None, h))"

section \<open>Losses\<close>

text \<open>A loss is one cell: a sum over the cells of the prediction and the target.\<close>

definition loss_sum :: "(f32 \<Rightarrow> f32 \<Rightarrow> f32 \<Rightarrow> f32) \<Rightarrow> f32 fops \<Rightarrow> tensor \<Rightarrow> tensor \<Rightarrow> nat \<Rightarrow> heap \<Rightarrow> f32 run" where
  "loss_sum f F p t n h =
     fold_run (\<lambda>i s. bind_run (load_f32 h p i) (\<lambda>x. bind_run (load_f32 h t i) (\<lambda>y. Inr (f s x y)))) [0..<n] (f_zero F)"

definition loss_of ::
  "(f32 \<Rightarrow> f32 \<Rightarrow> f32 \<Rightarrow> f32) \<Rightarrow> (f32 \<Rightarrow> nat \<Rightarrow> f32) \<Rightarrow> f32 fops \<Rightarrow> tensor option \<Rightarrow> tensor option \<Rightarrow> heap \<Rightarrow> (tensor option \<times> heap) run" where
  "loss_of f final F pred target h =
     (case (pred, target) of
        (Some p, Some t) \<Rightarrow>
          if t_size p \<noteq> t_size t then Inr (None, h)
          else fill_new [] (SNEPPX_tensor_zeros (Some [1]) SNEPPX_FLOAT32 h) (\<lambda>r h.
            bind_run (loss_sum f F p t (t_size p) h) (\<lambda>sum. store_f32 r 0 (final sum (t_size p)) h))
      | _ \<Rightarrow> Inr (None, h))"

definition SNEPPX_tensor_mse_loss where
  "SNEPPX_tensor_mse_loss F = loss_of (\<lambda>s x y. let d = f_sub F x y in f_add F s (f_mul F d d))
     (\<lambda>s n. f_div F s (f_of_size F n)) F"

definition SNEPPX_tensor_mae_loss where
  "SNEPPX_tensor_mae_loss F = loss_of (\<lambda>s x y. f_add F s (fabsf (f_sub F x y))) (\<lambda>s n. f_div F s (f_of_size F n)) F"

definition SNEPPX_tensor_kl_div where
  "SNEPPX_tensor_kl_div F = loss_of (\<lambda>s x y. f_add F s (f_mul F y (f_log F (f_div F (f_add F y (f_tiny F)) (f_add F x (f_tiny F))))))
     (\<lambda>s n. s) F"

definition SNEPPX_tensor_binary_cross_entropy where
  "SNEPPX_tensor_binary_cross_entropy F = loss_of (\<lambda>s x y. f_add F s
       (f_sub F (f_mul F (f_neg F y) (f_log F (f_add F x (f_tiny F))))
                (f_mul F (f_sub F (f_one F) y) (f_log F (f_add F (f_sub F (f_one F) x) (f_tiny F))))))
     (\<lambda>s n. f_div F s (f_of_size F n)) F"

text \<open>The two losses over rows of classes do not compare the sizes of their arguments.\<close>

definition SNEPPX_tensor_cross_entropy ::
  "f32 fops \<Rightarrow> tensor option \<Rightarrow> tensor option \<Rightarrow> heap \<Rightarrow> (tensor option \<times> heap) run" where
  "SNEPPX_tensor_cross_entropy F pred target h =
     (case (pred, target) of
        (Some p, Some t) \<Rightarrow>
          if t_shape p = [] then Inl Out_Of_Bounds
          else if last (t_shape p) = 0 then Inl Zero_Divide
          else let c = last (t_shape p); n = t_size p div c in
            fill_new [] (SNEPPX_tensor_zeros (Some [1]) SNEPPX_FLOAT32 h) (\<lambda>r h.
              bind_run (loss_sum (\<lambda>s x y. f_sub F s (f_mul F y (f_log F (f_add F x (f_tiny F))))) F p t (n * c) h) (\<lambda>sum.
              store_f32 r 0 (f_div F sum (f_of_size F n)) h))
      | _ \<Rightarrow> Inr (None, h))"

definition SNEPPX_tensor_nll_loss ::
  "f32 fops \<Rightarrow> tensor option \<Rightarrow> tensor option \<Rightarrow> heap \<Rightarrow> (tensor option \<times> heap) run" where
  "SNEPPX_tensor_nll_loss F pred target h =
     (case (pred, target) of
        (Some p, Some t) \<Rightarrow>
          if t_shape p = [] then Inl Out_Of_Bounds
          else if last (t_shape p) = 0 then Inl Zero_Divide
          else let c = last (t_shape p); n = t_size p div c in
            fill_new [] (SNEPPX_tensor_zeros (Some [1]) SNEPPX_FLOAT32 h) (\<lambda>r h.
              bind_run (fold_run (\<lambda>i s. bind_run (load_f32 h t i) (\<lambda>y.
                  let k = f_to_size F y; k = (if k \<ge> c then 0 else k) in
                  bind_run (load_f32 h p (i * c + k)) (\<lambda>x. Inr (f_sub F s (f_log F (f_add F x (f_tiny F)))))))
                [0..<n] (f_zero F)) (\<lambda>sum.
              store_f32 r 0 (f_div F sum (f_of_size F n)) h))
      | _ \<Rightarrow> Inr (None, h))"

end
