(* ===== verification/Tensor_Linalg.thy ===== *)
theory Tensor_Linalg
  imports Tensor_Nn
begin

text \<open>
  Sequences, random numbers, conversions and elimination of \<open>kernel/tensor/tensor.c\<close>. The conversions between
  number formats are the parameter \<open>C\<close>.
\<close>

section \<open>Filling by index\<close>

record fconv =
  f32_to_f64 :: "f32 \<Rightarrow> u64"
  f64_to_f32 :: "u64 \<Rightarrow> f32"
  f32_to_i32 :: "f32 \<Rightarrow> u32"
  f32_to_i64 :: "f32 \<Rightarrow> u64"
  i32_to_f32 :: "u32 \<Rightarrow> f32"

text \<open>\<open>for (i = 0; i < n; i++) data[i] = g(i)\<close> on items of \<open>sz\<close> bytes.\<close>

definition fill_with :: "tensor \<Rightarrow> nat \<Rightarrow> nat \<Rightarrow> (nat \<Rightarrow> heap \<Rightarrow> bytes run) \<Rightarrow> heap \<Rightarrow> heap run" where
  "fill_with t n sz g h =
     fold_run (\<lambda>i h. bind_run (g i h) (\<lambda>b. store_bytes h (t_storage t) (data_pos t + i * sz) b)) [0..<n] h"

definition progression :: "f32 fops \<Rightarrow> f32 \<Rightarrow> f32 \<Rightarrow> nat \<Rightarrow> f32" where
  "progression F start step i = f_add F start (f_mul F (f_of_size F i) step)"

definition SNEPPX_tensor_arange ::
  "f32 fops \<Rightarrow> fconv \<Rightarrow> f32 \<Rightarrow> f32 \<Rightarrow> f32 \<Rightarrow> dtype \<Rightarrow> heap \<Rightarrow> (tensor option \<times> heap) run" where
  "SNEPPX_tensor_arange F C start stop step dt h =
     (if f_eq F step (f_zero F) then Inr (None, h)
      else if f_gt F step (f_zero F) \<and> f_ge F start stop \<or> f_lt F step (f_zero F) \<and> f_le F start stop then Inr (None, h)
      else let n = f_to_size F (f_div F (f_sub F stop start) step) in
        fill_new [] (Inr (SNEPPX_tensor_create (Some [n]) dt h)) (\<lambda>t.
          let x = progression F start step in
          case dt of
            SNEPPX_FLOAT32 \<Rightarrow> fill_with t n 4 (\<lambda>i h. Inr (le32_bytes (x i)))
          | SNEPPX_FLOAT64 \<Rightarrow> fill_with t n 8 (\<lambda>i h. Inr (le64_bytes (f32_to_f64 C (x i))))
          | SNEPPX_INT32 \<Rightarrow> fill_with t n 4 (\<lambda>i h. Inr (le32_bytes (f32_to_i32 C (x i))))
          | SNEPPX_INT64 \<Rightarrow> fill_with t n 8 (\<lambda>i h. Inr (le64_bytes (f32_to_i64 C (x i))))
          | _ \<Rightarrow> Inr))"

definition SNEPPX_tensor_linspace ::
  "f32 fops \<Rightarrow> fconv \<Rightarrow> f32 \<Rightarrow> f32 \<Rightarrow> nat \<Rightarrow> dtype \<Rightarrow> heap \<Rightarrow> (tensor option \<times> heap) run" where
  "SNEPPX_tensor_linspace F C start stop steps dt h =
     (if steps = 0 then Inr (None, h)
      else fill_new [] (Inr (SNEPPX_tensor_create (Some [steps]) dt h)) (\<lambda>t.
        let step = (if steps > 1 then f_div F (f_sub F stop start) (f_of_size F (steps - 1)) else f_zero F);
            x = progression F start step in
        case dt of
          SNEPPX_FLOAT32 \<Rightarrow> fill_with t steps 4 (\<lambda>i h. Inr (le32_bytes (x i)))
        | SNEPPX_FLOAT64 \<Rightarrow> fill_with t steps 8 (\<lambda>i h. Inr (le64_bytes (f32_to_f64 C (x i))))
        | _ \<Rightarrow> Inr))"

section \<open>Normal random numbers\<close>

text \<open>The static variable \<open>lcg_state\<close> is passed along.\<close>

definition uniform_01 :: "f32 fops \<Rightarrow> u64 \<Rightarrow> f32 \<times> u64" where
  "uniform_01 F s = (let s = lcg_next s in (lcg_sample F s, s))"

definition randn_pair :: "f32 fops \<Rightarrow> u64 \<Rightarrow> (f32 \<times> f32) \<times> u64" where
  "randn_pair F s =
     (let (u1, s) = uniform_01 F s; (u2, s) = uniform_01 F s;
          r = f_sqrt F (f_mul F (f_lit F (- 2) 0) (f_log F (f_add F u1 (f_tiny F))));
          theta = f_mul F (f_mul F (f_lit F 2 0) (f_lit F 314159265 (- 8))) u2
      in ((f_mul F r (f_cos F theta), f_mul F r (f_sin F theta)), s))"

definition SNEPPX_tensor_randn ::
  "f32 fops \<Rightarrow> nat list option \<Rightarrow> dtype \<Rightarrow> u64 \<Rightarrow> heap \<Rightarrow> (tensor option \<times> u64 \<times> heap) run" where
  "SNEPPX_tensor_randn F shape dt s h =
     (case SNEPPX_tensor_create shape dt h of
        (None, h) \<Rightarrow> Inr (None, s, h)
      | (Some t, h) \<Rightarrow>
          bind_run (fold_run (\<lambda>k (s, h).
            let i = 2 * k; ((x, y), s) = randn_pair F s in
            bind_run (store_f32 t i x h) (\<lambda>h.
            bind_run (if i + 1 < t_size t then store_f32 t (i + 1) y h else Inr h) (\<lambda>h.
            Inr (s, h)))) [0..<(t_size t + 1) div 2] (s, h)) (\<lambda>(s, h). Inr (Some t, s, h)))"

section \<open>Conversions\<close>

definition SNEPPX_tensor_cast :: "fconv \<Rightarrow> tensor option \<Rightarrow> dtype \<Rightarrow> heap \<Rightarrow> (tensor option \<times> heap) run" where
  "SNEPPX_tensor_cast C src dt h =
     (case src of None \<Rightarrow> SNEPPX_tensor_copy src h
      | Some s \<Rightarrow>
         if dt = t_dtype s then SNEPPX_tensor_copy src h
         else fill_new [] (Inr (SNEPPX_tensor_empty (Some (t_shape s)) dt h)) (\<lambda>r h.
           let n = t_size s in
           if t_dtype s = SNEPPX_FLOAT32 \<and> dt = SNEPPX_FLOAT64
             then fill_with r n 8 (\<lambda>i h. bind_run (load_f32 h s i) (\<lambda>x. Inr (le64_bytes (f32_to_f64 C x)))) h
           else if t_dtype s = SNEPPX_FLOAT64 \<and> dt = SNEPPX_FLOAT32
             then fill_with r n 4 (\<lambda>i h. bind_run (load_bytes h (t_storage s) (data_pos s + i * 8) 8) (\<lambda>b.
               Inr (le32_bytes (f64_to_f32 C (le64 b 0))))) h
           else if t_dtype s = SNEPPX_FLOAT32 \<and> dt = SNEPPX_INT32
             then fill_with r n 4 (\<lambda>i h. bind_run (load_f32 h s i) (\<lambda>x. Inr (le32_bytes (f32_to_i32 C x)))) h
           else if t_dtype s = SNEPPX_INT32 \<and> dt = SNEPPX_FLOAT32
             then fill_with r n 4 (\<lambda>i h. bind_run (load_f32 h s i) (\<lambda>x. Inr (le32_bytes (i32_to_f32 C x)))) h
           else if dt = SNEPPX_FLOAT32
             then fill_with r n 4 (\<lambda>i h. bind_run (SNEPPX_tensor_get_f32 s [i] h) (\<lambda>x. Inr (le32_bytes x))) h
           else bind_run (load_bytes h (t_storage s) (data_pos s) (sz_mul n (t_item r))) (\<lambda>b.
             store_bytes h (t_storage r) (data_pos r) b)))"

definition SNEPPX_tensor_to_layout :: "tensor option \<Rightarrow> layout \<Rightarrow> heap \<Rightarrow> (tensor option \<times> heap) run" where
  "SNEPPX_tensor_to_layout src lay h =
     (case src of None \<Rightarrow> Inr (None, h)
      | Some s \<Rightarrow>
         if t_layout s = lay then SNEPPX_tensor_copy src h
         else bind_run (SNEPPX_tensor_copy src h) (\<lambda>r. bind_new r (\<lambda>d h.
           if lay = SNEPPX_LAYOUT_COL_MAJOR \<and> t_ndim s = 2
           then let m = t_shape s ! 0; n = t_shape s ! 1 in
             bind_run (fold_run (\<lambda>i. fold_run (\<lambda>j h.
               bind_run (load_f32 h s (i * n + j)) (\<lambda>x. store_f32 d (j * m + i) x h)) [0..<n]) [0..<m] h) (\<lambda>h.
             Inr (Some (d\<lparr>t_strides := [1, m], t_layout := lay\<rparr>), h))
           else Inr (Some (d\<lparr>t_layout := lay\<rparr>), h))))"

section \<open>Elimination\<close>

text \<open>A scratch matrix is a list of rows of \<open>w\<close> cells.\<close>

definition find_pivot :: "f32 fops \<Rightarrow> f32 list \<Rightarrow> nat \<Rightarrow> nat \<Rightarrow> nat \<Rightarrow> nat" where
  "find_pivot F m w n i =
     fold (\<lambda>j pivot. if f_gt F (fabsf (m ! (j * w + i))) (fabsf (m ! (pivot * w + i))) then j else pivot) [i + 1..<n] i"

definition swap_rows :: "f32 list \<Rightarrow> nat \<Rightarrow> nat \<Rightarrow> nat \<Rightarrow> f32 list" where
  "swap_rows m w i p =
     fold (\<lambda>j m. let t = m ! (i * w + j) in m[i * w + j := m ! (p * w + j), p * w + j := t]) [0..<w] m"

text \<open>\<open>row k -= f * row i\<close> on the columns \<open>js\<close>.\<close>

definition subtract_row :: "f32 fops \<Rightarrow> nat \<Rightarrow> nat list \<Rightarrow> f32 \<Rightarrow> nat \<Rightarrow> nat \<Rightarrow> f32 list \<Rightarrow> f32 list" where
  "subtract_row F w js f i k m =
     fold (\<lambda>j m. m[k * w + j := f_sub F (m ! (k * w + j)) (f_mul F f (m ! (i * w + j)))]) js m"

definition det_step :: "f32 fops \<Rightarrow> nat \<Rightarrow> nat \<Rightarrow> f32 list \<times> f32 \<Rightarrow> (f32 list \<times> f32) option" where
  "det_step F n i = (\<lambda>(m, det).
     let pivot = find_pivot F m n n i;
         (m, det) = (if pivot \<noteq> i then (swap_rows m n i pivot, f_neg F det) else (m, det))
     in if f_lt F (fabsf (m ! (i * n + i))) (f_tiny F) then None
        else Some (fold (\<lambda>j m. subtract_row F n [i + 1..<n] (f_div F (m ! (j * n + i)) (m ! (i * n + i))) i j m) [i + 1..<n] m,
                   f_mul F det (m ! (i * n + i))))"

fun eliminate :: "(nat \<Rightarrow> 's \<Rightarrow> 's option) \<Rightarrow> nat list \<Rightarrow> 's \<Rightarrow> 's option" where
  "eliminate step [] s = Some s"
| "eliminate step (i # is) s = (case step i s of None \<Rightarrow> None | Some s \<Rightarrow> eliminate step is s)"

definition SNEPPX_tensor_det :: "f32 fops \<Rightarrow> tensor option \<Rightarrow> heap \<Rightarrow> (f32 \<times> heap) run" where
  "SNEPPX_tensor_det F src h =
     (case src of None \<Rightarrow> Inr (f_zero F, h)
      | Some s \<Rightarrow>
         if t_ndim s \<noteq> 2 \<or> t_shape s ! 0 \<noteq> t_shape s ! 1 then Inr (f_zero F, h)
         else let n = t_shape s ! 0; (ok, h) = aligned_alloc_wrapper h in
           if \<not> ok then Inr (f_zero F, h)
           else bind_run (map_run (load_f32 h s) [0..<n * n]) (\<lambda>m.
             Inr (case eliminate (det_step F n) [0..<n] (m, f_one F) of None \<Rightarrow> f_zero F | Some (_, det) \<Rightarrow> det,
                  free_block True h)))"

definition inverse_step :: "f32 fops \<Rightarrow> nat \<Rightarrow> nat \<Rightarrow> f32 list \<Rightarrow> f32 list option" where
  "inverse_step F n i a =
     (let w = 2 * n; pivot = find_pivot F a w n i;
          a = (if pivot \<noteq> i then swap_rows a w i pivot else a);
          piv = a ! (i * w + i)
      in if f_lt F (fabsf piv) (f_tiny F) then None
         else let a = fold (\<lambda>j a. a[i * w + j := f_div F (a ! (i * w + j)) piv]) [0..<w] a
              in Some (fold (\<lambda>k a. if k = i then a else subtract_row F w [0..<w] (a ! (k * w + i)) i k a) [0..<n] a))"

text \<open>The matrix beside the identity.\<close>

definition augment :: "f32 fops \<Rightarrow> nat \<Rightarrow> f32 list \<Rightarrow> f32 list" where
  "augment F n s = concat (map (\<lambda>i. map (\<lambda>j. s ! (i * n + j)) [0..<n] @ map (\<lambda>j. if i = j then f_one F else f_zero F) [0..<n]) [0..<n])"

definition SNEPPX_tensor_inverse :: "f32 fops \<Rightarrow> tensor option \<Rightarrow> heap \<Rightarrow> (tensor option \<times> heap) run" where
  "SNEPPX_tensor_inverse F src h =
     (case src of None \<Rightarrow> Inr (None, h)
      | Some s \<Rightarrow>
         if t_ndim s \<noteq> 2 \<or> t_shape s ! 0 \<noteq> t_shape s ! 1 then Inr (None, h)
         else let n = t_shape s ! 0 in bind_new (SNEPPX_tensor_create (Some (t_shape s)) SNEPPX_FLOAT32 h) (\<lambda>r h.
           let (ok, h) = aligned_alloc_wrapper h in
           if \<not> ok then bind_run (SNEPPX_tensor_destroy (Some r) h) (\<lambda>h. Inr (None, h))
           else bind_run (map_run (load_f32 h s) [0..<n * n]) (\<lambda>xs.
             case eliminate (inverse_step F n) [0..<n] (augment F n xs) of
               None \<Rightarrow> bind_run (SNEPPX_tensor_destroy (Some r) (free_block True h)) (\<lambda>h. Inr (None, h))
             | Some a \<Rightarrow> bind_run (fold_run (\<lambda>i. fold_run (\<lambda>j. store_f32 r (i * n + j) (a ! (i * 2 * n + n + j))) [0..<n]) [0..<n] h)
                 (\<lambda>h. Inr (Some r, free_block True h)))))"

end
