(* ===== verification/Tensor_Reduce.thy ===== *)
theory Tensor_Reduce
  imports Tensor_Linalg
begin

text \<open>
  What the arithmetic loops over tensors compute: every loop that loads and stores cells is a fold
  over a list, from which the value of a sum, a matrix product or an index of a maximum is read off.
\<close>

section \<open>Buffers as lists of floats\<close>

definition cells :: "heap \<Rightarrow> tensor \<Rightarrow> f32 list \<Rightarrow> bool" where
  "cells h t xs \<longleftrightarrow> (\<exists>d. contents h (t_storage t) = Some (Some d) \<and> data_pos t + length xs * 4 \<le> length d \<and>
     (\<forall>i < length xs. le32 (item_at d (data_pos t) 4 i) 0 = xs ! i))"

lemma cells_cong: "contents h' (t_storage t) = contents h (t_storage t) \<Longrightarrow> cells h' t xs = cells h t xs"
  by (simp add: cells_def)

text \<open>Only the storage of \<open>t\<close> changes.\<close>

definition frame :: "tensor \<Rightarrow> heap \<Rightarrow> heap \<Rightarrow> bool" where
  "frame t h h' \<longleftrightarrow> (\<forall>a. a \<noteq> t_storage t \<longrightarrow> contents h' a = contents h a)"

lemma frame_refl [simp]: "frame t h h" and frame_trans: "frame t h g \<Longrightarrow> frame t g k \<Longrightarrow> frame t h k"
  by (simp_all add: frame_def)

lemma cells_frame: "cells h u xs \<Longrightarrow> frame t h h' \<Longrightarrow> t_storage u \<noteq> t_storage t \<Longrightarrow> cells h' u xs"
  by (simp add: cells_def frame_def)

lemma load_cells:
  assumes "cells h t xs" "i < length xs" shows "load_f32 h t i = Inr (xs ! i)"
proof -
  obtain d where d: "contents h (t_storage t) = Some (Some d)" "data_pos t + length xs * 4 \<le> length d"
    "\<forall>i < length xs. le32 (item_at d (data_pos t) 4 i) 0 = xs ! i" using assms(1) by (auto simp: cells_def)
  have "data_pos t + i * 4 + 4 \<le> length d" using d(2) assms(2) by linarith
  from item_load [OF d(1) this] d(3) assms(2) show ?thesis by (simp add: load_f32_def)
qed

lemma item_at_put:
  assumes "p + n * sz \<le> length d" "i < n" "j < n" "length v = sz"
  shows "item_at (put_bytes d (p + i * sz) v) p sz j = (if j = i then v else item_at d p sz j)"
proof (cases "j = i")
  case True
  have "Suc i * sz \<le> n * sz" using assms(2) by (intro mult_le_mono1) simp
  then show ?thesis using True assms by (simp add: item_at_def put_bytes_def)
next
  case False
  have u: "Suc i * sz \<le> n * sz" "Suc j * sz \<le> n * sz" using assms by (intro mult_le_mono1; simp)+
  have "j * sz + sz \<le> i * sz \<or> i * sz + sz \<le> j * sz"
    using False mult_le_mono1 [of "Suc j" i sz] mult_le_mono1 [of "Suc i" j sz] by (cases "j < i") auto
  then show ?thesis using False u assms take_drop_put [of "p + i * sz" v d "p + j * sz" sz]
    by (simp add: item_at_def)
qed

lemma store_cells:
  assumes c: "cells h t xs" and i: "i < length xs"
  obtains h' where "store_f32 t i v h = Inr h'" "cells h' t (xs[i := v])" "frame t h h'"
proof -
  obtain d where d: "contents h (t_storage t) = Some (Some d)" "data_pos t + length xs * 4 \<le> length d"
    "\<forall>i < length xs. le32 (item_at d (data_pos t) 4 i) 0 = xs ! i" using c by (auto simp: cells_def)
  have l: "data_pos t + i * 4 + length (le32_bytes v) \<le> length d" using d(2) i by simp
  obtain h' where h': "store_bytes h (t_storage t) (data_pos t + i * 4) (le32_bytes v) = Inr h'"
    "contents h' = (contents h)(t_storage t := Some (Some (put_bytes d (data_pos t + i * 4) (le32_bytes v))))"
    using store_bytes_contents [OF d(1) l] by blast
  have "cells h' t (xs[i := v])"
    unfolding cells_def using h'(2) l d i item_at_put [OF d(2) i, of _ "le32_bytes v"]
    by (auto simp: nth_list_update le32_bytes_inverse)
  then show thesis using that h' by (simp add: store_f32_def frame_def)
qed

section \<open>Loops\<close>

text \<open>The pure counterpart of a loop that reads and rewrites the cells \<open>idx j\<close>.\<close>

definition upd_cells :: "('j \<Rightarrow> nat) \<Rightarrow> ('j \<Rightarrow> 'a \<Rightarrow> 'a) \<Rightarrow> 'j list \<Rightarrow> 'a list \<Rightarrow> 'a list" where
  "upd_cells idx f js xs = fold (\<lambda>j xs. xs[idx j := f j (xs ! idx j)]) js xs"

lemma length_upd_cells [simp]: "length (upd_cells idx f js xs) = length xs"
  unfolding upd_cells_def by (induction js arbitrary: xs) simp_all

lemma nth_upd_cells:
  "p < length xs \<Longrightarrow> upd_cells idx f js xs ! p = fold f (filter (\<lambda>j. idx j = p) js) (xs ! p)"
  unfolding upd_cells_def by (induction js arbitrary: xs) simp_all

lemma cell_loop:
  assumes "cells h r xs" "\<And>j. j \<in> set js \<Longrightarrow> idx j < length xs"
    and "\<And>j g acc. j \<in> set js \<Longrightarrow> frame r h g \<Longrightarrow> load_f32 g r (idx j) = Inr acc \<Longrightarrow> body j g = store_f32 r (idx j) (f j acc) g"
  shows "\<exists>h'. fold_run body js h = Inr h' \<and> cells h' r (upd_cells idx f js xs) \<and> frame r h h'"
  using assms
proof (induction js arbitrary: h xs)
  case (Cons j js)
  have ld: "load_f32 h r (idx j) = Inr (xs ! idx j)" using Cons.prems by (intro load_cells) auto
  obtain h1 where h1: "store_f32 r (idx j) (f j (xs ! idx j)) h = Inr h1"
    "cells h1 r (xs[idx j := f j (xs ! idx j)])" "frame r h h1"
    using store_cells [OF Cons.prems(1), of "idx j" "f j (xs ! idx j)"] Cons.prems(2) by auto
  have b: "body j h = Inr h1" using Cons.prems(3) [OF _ frame_refl ld] h1(1) by simp
  have "\<exists>h'. fold_run body js h1 = Inr h' \<and> cells h' r (upd_cells idx f js (xs[idx j := f j (xs ! idx j)])) \<and> frame r h1 h'"
    by (rule Cons.IH [OF h1(2)]) (use Cons.prems(2,3) frame_trans [OF h1(3)] in auto)
  then show ?case using b frame_trans [OF h1(3)] by (auto simp: upd_cells_def)
qed (auto simp: upd_cells_def)

lemma fold_run_map: "fold_run f (map g xs) s = fold_run (\<lambda>x. f (g x)) xs s"
  by (induction xs arbitrary: s) (auto simp: bind_run_def split: sum.splits)

lemma fold_run_product:
  "fold_run (\<lambda>x. fold_run (f x) ys) xs s = fold_run (\<lambda>(x, y). f x y) (List.product xs ys) s"
  by (induction xs arbitrary: s)
     (auto simp: fold_run_append fold_run_map bind_run_def split: sum.splits)

lemma fold_run_product3:
  "fold_run (\<lambda>x. fold_run (\<lambda>y. fold_run (f x y) zs) ys) xs s =
   fold_run (\<lambda>(x, y, z). f x y z) (List.product xs (List.product ys zs)) s"
proof -
  have "fold_run (\<lambda>y. fold_run (f x y) zs) ys = fold_run (\<lambda>(y, z). f x y z) (List.product ys zs)" for x
    by (rule ext) (rule fold_run_product)
  then show ?thesis unfolding fold_run_product [of "\<lambda>x. \<lambda>(y, z). f x y z", symmetric] by simp
qed

lemma filter_pairs: "filter P (map (Pair x) ys) = map (Pair x) (filter (\<lambda>y. P (x, y)) ys)"
  by (simp add: filter_map o_def)

lemma filter_product_fst:
  assumes "distinct xs" "x0 \<in> set xs" "\<And>x y. x \<in> set xs \<Longrightarrow> y \<in> set ys \<Longrightarrow> P (x, y) \<Longrightarrow> x = x0"
  shows "filter P (List.product xs ys) = map (Pair x0) (filter (\<lambda>y. P (x0, y)) ys)"
  using assms
proof (induction xs)
  case (Cons x xs)
  show ?case
  proof (cases "x = x0")
    case True
    have "\<not> P z" if "z \<in> set (List.product xs ys)" for z
      using that True Cons.prems(1) Cons.prems(3) [of "fst z" "snd z"] by auto
    then have "filter P (List.product xs ys) = []" unfolding filter_empty_conv by blast
    then show ?thesis using True by (simp add: filter_pairs)
  next
    case False
    then have "filter (\<lambda>y. P (x, y)) ys = []"
      unfolding filter_empty_conv using Cons.prems(3) [of x] by (metis list.set_intros(1))
    moreover have "filter P (List.product xs ys) = map (Pair x0) (filter (\<lambda>y. P (x0, y)) ys)"
      using False Cons.prems by (intro Cons.IH) (auto intro: Cons.prems(3))
    ultimately show ?thesis by (simp add: filter_pairs)
  qed
qed simp

lemma filter_eq_upt: "k < n \<Longrightarrow> filter (\<lambda>j. j = k) [0..<n] = [k]"
  by (induction n) (auto simp: less_Suc_eq filter_empty_conv)

lemma block_index:
  fixes m :: nat
  assumes "a * m + i = b * m + j" "i < m" "j < m" shows "a = b" "i = j"
proof -
  have "(i + a * m) div m = a" "(j + b * m) div m = b" using assms(2,3) by (simp_all add: div_mult_self1)
  then show "a = b" using assms(1) by (simp add: add.commute)
  then show "i = j" using assms(1) by simp
qed

lemma filter_product_snd:
  assumes "k < n" shows "filter (\<lambda>z. snd z = k) (List.product xs [0..<n]) = map (\<lambda>x. (x, k)) xs"
  by (induction xs) (simp_all add: filter_pairs filter_eq_upt [OF assms])

section \<open>New tensors of floats\<close>

text \<open>The size of the buffer behind a tensor.\<close>

definition buffer_size :: "tensor \<Rightarrow> nat \<Rightarrow> heap \<Rightarrow> bool" where
  "buffer_size r n h \<longleftrightarrow> (\<exists>d. contents h (t_storage r) = Some (Some d) \<and> length d = n)"

definition fresh_cells :: "heap \<Rightarrow> nat list \<Rightarrow> tensor \<Rightarrow> heap \<Rightarrow> bool" where
  "fresh_cells h shape r h' \<longleftrightarrow> cells h' r (replicate (prod_list shape) 0) \<and> t_shape r = shape \<and> t_size r = prod_list shape \<and>
     t_storage r = h_next h \<and> t_offset r = 0 \<and> buffer_size r (prod_list shape * 4) h' \<and> (\<forall>a. a \<noteq> h_next h \<longrightarrow> contents h' a = contents h a)"

lemma item_at_zeros: "p + k * 4 + 4 \<le> n \<Longrightarrow> le32 (item_at (replicate n 0) p 4 k) 0 = 0"
  by (simp add: item_at_def le32_def numeral_eq_Suc)

lemma created_cells:
  assumes "created h shape SNEPPX_FLOAT32 r h'" "prod_list shape * 4 < 2 ^ 64" "0 < prod_list shape"
  shows "fresh_cells h shape r h'"
proof -
  note cf = created_facts [OF assms(1)]
  have "prod_list shape \<le> prod_list shape * 4" by simp
  then have p: "prod_list shape < 2 ^ 64" using assms(2) by (rule le_less_trans)
  have "sz_mul (sz_prod shape) 4 = prod_list shape * 4"
    using assms(2) p by (simp add: sz_mul_def sz_prod_wrap wrap64_small)
  then have c: "contents h' = (contents h)(h_next h := Some (Some (replicate (prod_list shape * 4) 0)))"
    using cf(3) assms(3) by (simp add: SNEPPX_tensor_dtype_size_def)
  have "cells h' r (replicate (prod_list shape) 0)"
    unfolding cells_def using c by (auto simp: cf(1) fresh_tensor_def intro!: item_at_zeros)
  then show ?thesis using c p by (simp add: fresh_cells_def buffer_size_def cf(1) fresh_tensor_def sz_prod_wrap wrap64_small)
qed

lemma put_zeros: "put_bytes (replicate n 0) 0 (replicate n 0) = replicate n 0"
  by (simp add: put_bytes_def)

lemma zeros_cases:
  assumes "prod_list shape * 4 < 2 ^ 64" "0 < prod_list shape"
  shows "(\<exists>r h'. SNEPPX_tensor_zeros (Some shape) SNEPPX_FLOAT32 h = Inr (Some r, h') \<and> fresh_cells h shape r h') \<or>
         (\<exists>h'. SNEPPX_tensor_zeros (Some shape) SNEPPX_FLOAT32 h = Inr (None, h') \<and> \<not> (\<forall>k. h_ok h k))"
proof (cases "\<exists>r h1. SNEPPX_tensor_create (Some shape) SNEPPX_FLOAT32 h = (Some r, h1)")
  case False
  then have "\<not> (\<forall>k. h_ok h k)" using all_ok_create [of h shape SNEPPX_FLOAT32] by metis
  moreover obtain h1 where "SNEPPX_tensor_create (Some shape) SNEPPX_FLOAT32 h = (None, h1)"
    using False create_cases [of shape SNEPPX_FLOAT32 h] by blast
  ultimately show ?thesis by (auto simp: SNEPPX_tensor_zeros_def bind_new_def)
next
  case True
  then obtain r h1 where c: "SNEPPX_tensor_create (Some shape) SNEPPX_FLOAT32 h = (Some r, h1)" "created h shape SNEPPX_FLOAT32 r h1"
    using create_cases [of shape SNEPPX_FLOAT32 h] by force
  note fc = created_cells [OF c(2) assms]
  note cf = created_facts [OF c(2)]
  have "prod_list shape \<le> prod_list shape * 4" by simp
  then have p: "prod_list shape < 2 ^ 64" using assms(1) by (rule le_less_trans)
  let ?nb = "prod_list shape * 4"
  have rf: "t_item r = 4" "t_offset r = 0" "t_storage r = h_next h" "t_size r = prod_list shape"
    using p by (simp_all add: cf(1) fresh_tensor_def SNEPPX_tensor_dtype_size_def sz_prod_wrap wrap64_small)
  have m: "sz_mul (t_size r) (t_item r) = ?nb" using assms(1) rf by (simp add: sz_mul_def wrap64_small)
  have "sz_mul (sz_prod shape) 4 = ?nb" using assms(1) p by (simp add: sz_mul_def sz_prod_wrap wrap64_small)
  then have d: "contents h1 (t_storage r) = Some (Some (replicate ?nb 0))"
    using cf(3) assms(2) rf(3) by (simp add: SNEPPX_tensor_dtype_size_def)
  obtain h2 where h2: "store_bytes h1 (t_storage r) 0 (replicate ?nb 0) = Inr h2"
    "contents h2 = (contents h1)(t_storage r := Some (Some (put_bytes (replicate ?nb 0) 0 (replicate ?nb 0))))"
    using store_bytes_contents [OF d, of 0 "replicate ?nb 0"] by auto
  then have "contents h2 = contents h1" using d by (simp add: put_zeros fun_upd_idem)
  then have "fresh_cells h shape r h2" using fc by (auto simp: fresh_cells_def buffer_size_def cells_cong [of h2 r h1])
  then show ?thesis using h2(1) c(1) m rf by (simp add: SNEPPX_tensor_zeros_def bind_new_def)
qed

text \<open>The outcomes of making a tensor of floats: a cleared tensor, or \<open>NULL\<close> when a request for memory fails.\<close>

definition makes_cells :: "heap \<Rightarrow> nat list \<Rightarrow> (tensor option \<times> heap) run \<Rightarrow> bool" where
  "makes_cells h shape made \<longleftrightarrow> (\<exists>r g. made = Inr (Some r, g) \<and> fresh_cells h shape r g) \<or>
     (\<exists>g. made = Inr (None, g) \<and> \<not> (\<forall>k. h_ok h k))"

lemma zeros_makes:
  "prod_list shape * 4 < 2 ^ 64 \<Longrightarrow> 0 < prod_list shape \<Longrightarrow> makes_cells h shape (SNEPPX_tensor_zeros (Some shape) SNEPPX_FLOAT32 h)"
  unfolding makes_cells_def by (rule zeros_cases)

lemma create_makes:
  assumes "prod_list shape * 4 < 2 ^ 64" "0 < prod_list shape"
  shows "makes_cells h shape (Inr (SNEPPX_tensor_create (Some shape) SNEPPX_FLOAT32 h))"
proof (cases "\<exists>r h1. SNEPPX_tensor_create (Some shape) SNEPPX_FLOAT32 h = (Some r, h1)")
  case True
  then obtain r h1 where "SNEPPX_tensor_create (Some shape) SNEPPX_FLOAT32 h = (Some r, h1)" "created h shape SNEPPX_FLOAT32 r h1"
    using create_cases [of shape SNEPPX_FLOAT32 h] by force
  then show ?thesis using created_cells assms by (auto simp: makes_cells_def)
next
  case False
  then have "\<not> (\<forall>k. h_ok h k)" using all_ok_create [of h shape SNEPPX_FLOAT32] by metis
  then show ?thesis using False create_cases [of shape SNEPPX_FLOAT32 h] by (auto simp: makes_cells_def)
qed

lemma fill_new_made:
  assumes "makes_cells h shape made" "set tmps \<subseteq> {None}"
    and "\<And>r g. fresh_cells h shape r g \<Longrightarrow> \<exists>h'. body r g = Inr h' \<and> Q r h'"
  shows "\<exists>res h'. fill_new tmps made body = Inr (res, h') \<and>
    ((\<forall>k. h_ok h k) \<longrightarrow> res \<noteq> None) \<and> (\<forall>r. res = Some r \<longrightarrow> t_shape r = shape \<and> Q r h')"
proof -
  have d: "fold_run SNEPPX_tensor_destroy tmps g = Inr g" for g
    using assms(2) by (induction tmps) (auto simp: SNEPPX_tensor_destroy_def)
  from assms(1) show ?thesis unfolding makes_cells_def
  proof (elim disjE exE conjE)
    fix r g assume z: "made = Inr (Some r, g)" "fresh_cells h shape r g"
    from assms(3) [OF z(2)] obtain h' where "body r g = Inr h'" "Q r h'" by blast
    then show ?thesis using z by (simp add: fill_new_def d fresh_cells_def)
  qed (simp add: fill_new_def d)
qed

lemmas fill_new_zeros = fill_new_made [OF zeros_makes]
lemmas fill_new_create = fill_new_made [OF create_makes]

lemma fresh_cells_other:
  assumes fc: "fresh_cells h shape r g" and c: "cells h s xs" and n: "contents h (h_next h) = None"
  shows "cells g s xs" "t_storage s \<noteq> t_storage r"
proof -
  have ne: "t_storage s \<noteq> h_next h" using c n by (auto simp: cells_def)
  then have eq: "contents g (t_storage s) = contents h (t_storage s)" using fc by (simp add: fresh_cells_def)
  show "cells g s xs" using c unfolding cells_cong [OF eq] .
  show "t_storage s \<noteq> t_storage r" using ne fc by (simp add: fresh_cells_def)
qed

section \<open>Sums\<close>

lemma nested_index:
  fixes i k m ob :: nat
  assumes "i < inner" "k < red" "ob < outer"
  shows "ob * red * inner + k * inner + i < outer * red * inner" "ob * inner + i < outer * inner"
proof -
  have "Suc ob * inner \<le> outer * inner" "Suc ob * red \<le> outer * red" using assms(3) by (intro mult_le_mono1; simp)+
  moreover from this(2) assms(2) have "Suc (ob * red + k) * inner \<le> outer * red * inner" by (intro mult_le_mono1) simp
  ultimately show "ob * red * inner + k * inner + i < outer * red * inner" "ob * inner + i < outer * inner"
    using assms(1) by (simp_all add: add_mult_distrib)
qed

text \<open>The nested loops of a reduction whose step does not read the heap.\<close>

lemma reduce_loop_cells:
  assumes s: "cells h s xs" "t_storage s \<noteq> t_storage r" and r: "cells h r ys"
    and len: "length xs = outer * red * inner" "length ys = outer * inner"
  shows "\<exists>h'. reduce_loop outer red inner (\<lambda>_ _ _ acc x. Inr (f acc x)) s r h = Inr h' \<and>
    (\<exists>zs. cells h' r zs \<and> length zs = outer * inner \<and> (\<forall>ob < outer. \<forall>i < inner.
       zs ! (ob * inner + i) = fold (\<lambda>k acc. f acc (xs ! (ob * red * inner + k * inner + i))) [0..<red] (ys ! (ob * inner + i))))"
proof -
  define js where "js = List.product [0..<outer] (List.product [0..<red] [0..<inner])"
  define idx where "idx = (\<lambda>(ob, k :: nat, i). ob * inner + i)"
  define F where "F = (\<lambda>(ob, k, i) acc. f acc (xs ! (ob * red * inner + k * inner + i)))"
  define body where "body = (\<lambda>(ob, k, i) h. bind_run (load_f32 h r (ob * inner + i)) (\<lambda>acc.
       bind_run (load_f32 h s (ob * red * inner + k * inner + i)) (\<lambda>x. store_f32 r (ob * inner + i) (f acc x) h)))"
  have loop: "reduce_loop outer red inner (\<lambda>_ _ _ acc x. Inr (f acc x)) s r h = fold_run body js h"
    unfolding reduce_loop_def fold_run_product3 js_def body_def by simp
  have "\<exists>h'. fold_run body js h = Inr h' \<and> cells h' r (upd_cells idx F js ys) \<and> frame r h h'"
  proof (rule cell_loop [OF r])
    fix j assume j: "j \<in> set js"
    obtain ob k i where e: "j = (ob, k, i)" by (cases j)
    with j have b: "i < inner" "k < red" "ob < outer" by (auto simp: js_def)
    show "idx j < length ys" using nested_index [OF b] by (simp add: e idx_def len)
    show "body j g = store_f32 r (idx j) (F j acc) g" if "frame r h g" "load_f32 g r (idx j) = Inr acc" for g acc
    proof -
      have "load_f32 g s (ob * red * inner + k * inner + i) = Inr (xs ! (ob * red * inner + k * inner + i))"
        using nested_index [OF b] by (intro load_cells [OF cells_frame [OF s(1) that(1) s(2)]]) (simp add: len)
      then show ?thesis using that(2) by (simp add: e idx_def body_def F_def)
    qed
  qed
  moreover have "upd_cells idx F js ys ! (ob * inner + i) =
      fold (\<lambda>k acc. f acc (xs ! (ob * red * inner + k * inner + i))) [0..<red] (ys ! (ob * inner + i))"
    if b: "ob < outer" "i < inner" for ob i
  proof -
    have *: "filter (\<lambda>j. idx j = ob * inner + i) js = map (\<lambda>k. (ob, k, i)) [0..<red]"
    proof -
      have "filter (\<lambda>j. idx j = ob * inner + i) js =
          map (Pair ob) (filter (\<lambda>z. idx (ob, z) = ob * inner + i) (List.product [0..<red] [0..<inner]))"
        unfolding js_def by (rule filter_product_fst) (use b in \<open>auto simp: idx_def dest: block_index(1)\<close>)
      also have "filter (\<lambda>z. idx (ob, z) = ob * inner + i) (List.product [0..<red] [0..<inner]) = map (\<lambda>k. (k, i)) [0..<red]"
        using filter_product_snd [OF b(2), of "[0..<red]"] by (simp add: idx_def split_def)
      finally show ?thesis by simp
    qed
    show ?thesis using nested_index(2) [of i inner 0 1 ob outer] b
      by (simp add: nth_upd_cells len * fold_map o_def F_def)
  qed
  ultimately show ?thesis unfolding loop using len(2) by (metis length_upd_cells)
qed

lemma shape_split:
  assumes "dim < length sh"
  shows "prod_list sh = prod_list (take dim sh) * sh ! dim * prod_list (drop (dim + 1) sh)"
    "prod_list (sh[dim := 1]) = prod_list (take dim sh) * prod_list (drop (dim + 1) sh)"
proof -
  have "prod_list (take dim sh @ sh ! dim # drop (Suc dim) sh) = prod_list (take dim sh) * sh ! dim * prod_list (drop (dim + 1) sh)"
    by (simp add: mult.assoc)
  then show "prod_list sh = prod_list (take dim sh) * sh ! dim * prod_list (drop (dim + 1) sh)"
    using assms by (simp only: id_take_nth_drop [symmetric])
  show "prod_list (sh[dim := 1]) = prod_list (take dim sh) * prod_list (drop (dim + 1) sh)"
    using assms by (simp add: upd_conv_take_nth_drop)
qed

lemma outer_inner_size:
  assumes "dim < t_ndim s" "0 \<notin> set (t_shape s)" "prod_list (t_shape s) < 2 ^ 64"
  shows "outer_size s dim = prod_list (take dim (t_shape s))" "inner_size s dim = prod_list (drop (dim + 1) (t_shape s))"
    "prod_list (t_shape s) = outer_size s dim * t_shape s ! dim * inner_size s dim"
    "prod_list ((t_shape s)[dim := 1]) = outer_size s dim * inner_size s dim"
    "0 < outer_size s dim" "0 < inner_size s dim" "0 < t_shape s ! dim"
proof -
  let ?a = "prod_list (take dim (t_shape s))" and ?b = "prod_list (drop (dim + 1) (t_shape s))"
  have z: "?a \<noteq> 0" "?b \<noteq> 0" using assms(2) by (auto simp: prod_list_zero_iff dest: in_set_takeD in_set_dropD)
  have n0: "t_shape s ! dim \<noteq> 0" using assms(2) nth_mem [OF assms(1)] by metis
  have "?a \<le> prod_list (t_shape s)" "?b \<le> prod_list (t_shape s)"
    unfolding shape_split(1) [OF assms(1)] using z n0 by simp_all
  then have "?a < 2 ^ 64" "?b < 2 ^ 64" using assms(3) by (blast intro: le_less_trans)+
  then show o: "outer_size s dim = ?a" "inner_size s dim = ?b"
    by (simp_all add: outer_size_def inner_size_def sz_prod_wrap wrap64_small)
  show "prod_list (t_shape s) = outer_size s dim * t_shape s ! dim * inner_size s dim"
    "prod_list ((t_shape s)[dim := 1]) = outer_size s dim * inner_size s dim"
    "0 < outer_size s dim" "0 < inner_size s dim" "0 < t_shape s ! dim"
    using shape_split [OF assms(1)] z n0 by (simp_all add: o)
qed

text \<open>A contiguous tensor without empty dimensions whose elements are \<open>xs\<close>, in row-major order.\<close>

definition float_tensor :: "heap \<Rightarrow> tensor \<Rightarrow> f32 list \<Rightarrow> bool" where
  "float_tensor h s xs \<longleftrightarrow> cells h s xs \<and> SNEPPX_tensor_is_contiguous (Some s) \<and> t_ndim s \<le> 16 \<and> 0 \<notin> set (t_shape s) \<and>
     length xs = prod_list (t_shape s) \<and> t_size s = length xs \<and> length xs * 4 < 2 ^ 64"

text \<open>Summing a contiguous tensor along a dimension never fails other than for lack of memory, and the cell
  of the result at outer position \<open>ob\<close> and inner position \<open>i\<close> is the sum, from zero and in order, of the
  elements of the source at these positions, for every coordinate of the summed dimension.\<close>

theorem tensor_sum_folds:
  assumes s: "float_tensor h s xs" and n: "contents h (h_next h) = None" and d: "dim < t_ndim s"
  shows "\<exists>res h'. SNEPPX_tensor_sum F (Some s) dim h = Inr (res, h') \<and> ((\<forall>k. h_ok h k) \<longrightarrow> res \<noteq> None) \<and>
    (\<forall>r. res = Some r \<longrightarrow> t_shape r = (t_shape s)[dim := 1] \<and>
      (\<forall>ob < outer_size s dim. \<forall>i < inner_size s dim. load_f32 h' r (ob * inner_size s dim + i) =
         Inr (fold (\<lambda>k acc. f_add F acc (xs ! (ob * t_shape s ! dim * inner_size s dim + k * inner_size s dim + i)))
           [0..<t_shape s ! dim] 0)))"
proof -
  have "length xs \<le> length xs * 4" by simp
  then have p: "prod_list (t_shape s) < 2 ^ 64" using s by (auto simp: float_tensor_def)
  have z: "0 \<notin> set (t_shape s)" and c: "cells h s xs" and ct: "SNEPPX_tensor_is_contiguous (Some s)" "t_ndim s \<le> 16"
    using s by (simp_all add: float_tensor_def)
  note oi = outer_inner_size [OF d z p]
  let ?sh = "(t_shape s)[dim := 1]" and ?o = "outer_size s dim" and ?i = "inner_size s dim" and ?n = "t_shape s ! dim"
  have len: "length xs = ?o * ?n * ?i" using s oi(3) by (simp add: float_tensor_def)
  have "?o * ?i \<le> ?o * ?n * ?i" using oi(7) by (cases ?n) auto
  then have "prod_list ?sh * 4 \<le> length xs * 4" unfolding oi(4) len by (rule mult_le_mono1)
  moreover have "length xs * 4 < 2 ^ 64" using s by (simp add: float_tensor_def)
  ultimately have sz: "prod_list ?sh * 4 < 2 ^ 64" by (rule le_less_trans)
  have po: "0 < prod_list ?sh" using oi(5,6) unfolding oi(4) by simp
  define Q where "Q = (\<lambda>r h'. \<forall>ob < ?o. \<forall>i < ?i. load_f32 h' r (ob * ?i + i) =
         Inr (fold (\<lambda>k acc. f_add F acc (xs ! (ob * ?n * ?i + k * ?i + i))) [0..<?n] 0))"
  have "\<exists>h'. reduce_loop ?o ?n ?i (\<lambda>_ _ _ acc x. Inr (f_add F acc x)) s r g = Inr h' \<and> Q r h'"
    if fc: "fresh_cells h ?sh r g" for r g
  proof -
    have cg: "cells g s xs" "t_storage s \<noteq> t_storage r" by (rule fresh_cells_other [OF fc c n])+
    have cr: "cells g r (replicate (?o * ?i) 0)" using fc oi(4) by (simp add: fresh_cells_def)
    from reduce_loop_cells [OF cg cr len, of "f_add F"] obtain h' zs
      where "reduce_loop ?o ?n ?i (\<lambda>_ _ _ acc x. Inr (f_add F acc x)) s r g = Inr h'" "cells h' r zs" "length zs = ?o * ?i"
        "\<forall>ob < ?o. \<forall>i < ?i. zs ! (ob * ?i + i) = fold (\<lambda>k acc. f_add F acc (xs ! (ob * ?n * ?i + k * ?i + i))) [0..<?n] 0"
      using nested_index(2) [of _ ?i 0 1 _ ?o] by auto
    then show ?thesis using nested_index(2) [of _ ?i 0 1 _ ?o] by (auto simp: Q_def load_cells)
  qed
  from fill_new_zeros [OF sz po _ this, of "[None]"] ct d c show ?thesis
    unfolding Q_def by (simp add: SNEPPX_tensor_sum_def tensor_prep_contiguous_def local_dims_def)
qed

definition word_fops :: "f32 fops" where
  "word_fops = \<lparr>f_zero = 0, f_add = (+), f_sub = (-), f_mul = (*), f_div = (div), f_neg = uminus, f_gt = (>), f_ge = (\<ge>), f_eq = (=),
     f_exp = id, f_log = id, f_sqrt = id, f_sin = id, f_cos = id, f_tanh = id, f_pow = (\<lambda>x y. x ^ unat y), f_of_size = of_nat,
     f_to_size = unat, f_lit = (\<lambda>m e. of_int m), f_of_bits = id\<rparr>"

lemma sample_floats:
  assumes "ws \<noteq> []" "length ws * 4 < 2 ^ 64" "prod_list sh = length ws" "0 \<notin> set sh" "length sh \<le> 16"
  shows "float_tensor (sample_heap (concat (map le32_bytes ws))) (fresh_tensor 0 sh SNEPPX_FLOAT32) ws"
proof -
  have "length ws \<le> length ws * 4" by simp
  then have p: "length ws < 2 ^ 64" using assms(2) by (rule le_less_trans)
  have c: "concat (map le32_bytes ws) = concat (map (\<lambda>k. le32_bytes (ws ! k)) [0..<length ws])"
    by (subst map_nth [of ws, symmetric], subst map_map) (simp add: o_def del: map_nth)
  have "le32 (item_at (concat (map le32_bytes ws)) 0 4 i) 0 = ws ! i" if "i < length ws" for i
    unfolding c using that by (subst items_nth) (simp_all add: le32_bytes_inverse)
  moreover have "length (concat (map le32_bytes ws)) = length ws * 4" unfolding c by (rule length_items) simp
  ultimately have "cells (sample_heap (concat (map le32_bytes ws))) (fresh_tensor 0 sh SNEPPX_FLOAT32) ws"
    by (simp add: cells_def fresh_tensor_def sample_heap_def contents_def)
  then show ?thesis using assms p
    by (simp add: float_tensor_def fresh_tensor_def is_contiguous_iff sz_prod_wrap wrap64_small)
qed

lemma sample_heap_facts: "contents (sample_heap d) (h_next (sample_heap d)) = None" "h_ok (sample_heap d) k"
  by (simp_all add: sample_heap_def contents_def)

theorem tensor_sum_folds_witness:
  "\<exists>r h'. SNEPPX_tensor_sum word_fops (Some (fresh_tensor 0 [2, 2] SNEPPX_FLOAT32)) 0
       (sample_heap (concat (map le32_bytes [1, 2, 30, 40]))) = Inr (Some r, h') \<and>
     t_shape r = [1, 2] \<and> load_f32 h' r 0 = Inr 31 \<and> load_f32 h' r 1 = Inr 42"
proof -
  let ?s = "fresh_tensor 0 [2, 2] SNEPPX_FLOAT32" and ?h = "sample_heap (concat (map le32_bytes [1, 2, 30, 40]))"
  have ft: "float_tensor ?h ?s [1, 2, 30, 40]" by (rule sample_floats) simp_all
  have sf: "t_shape ?s = [2, 2]" "outer_size ?s 0 = 1" "inner_size ?s 0 = 2"
    by (simp_all add: fresh_tensor_def outer_size_def inner_size_def sz_prod_def sz_mul_def wrap64_def)
  from tensor_sum_folds [OF ft sample_heap_facts(1), of 0 word_fops] sample_heap_facts(2)
  obtain r h' where r: "SNEPPX_tensor_sum word_fops (Some ?s) 0 ?h = Inr (Some r, h')" "t_shape r = [1, 2]"
    "\<forall>i < 2. load_f32 h' r i = Inr (fold (\<lambda>k acc. f_add word_fops acc ([1, 2, 30, 40] ! (k * 2 + i))) [0..<2] 0)"
    by (auto simp: sf)
  have "load_f32 h' r 0 = Inr 31" "load_f32 h' r 1 = Inr 42"
    using r(3) [rule_format, of 0] r(3) [rule_format, of 1] by (simp_all add: upt_rec word_fops_def)
  with r show ?thesis by blast
qed

section \<open>Matrix products\<close>

lemma dot_loop_cells:
  assumes "cells h x xs" "cells h y ys" "\<And>l. l < n \<Longrightarrow> f l < length xs" "\<And>l. l < n \<Longrightarrow> g l < length ys"
  shows "dot_loop F x f y g n h = Inr (fold (\<lambda>l s. f_add F s (f_mul F (xs ! f l) (ys ! g l))) [0..<n] (f_zero F))"
proof -
  have "fold_run (\<lambda>l s. bind_run (load_f32 h x (f l)) (\<lambda>u. bind_run (load_f32 h y (g l)) (\<lambda>v. Inr (f_add F s (f_mul F u v))))) ls z =
     Inr (fold (\<lambda>l s. f_add F s (f_mul F (xs ! f l) (ys ! g l))) ls z)" if "\<forall>l \<in> set ls. l < n" for ls z
    using that by (induction ls arbitrary: z) (simp_all add: load_cells [OF assms(1,3)] load_cells [OF assms(2,4)])
  then show ?thesis by (simp add: dot_loop_def)
qed

lemma matmul_loop_cells:
  assumes a: "cells h a xs" "t_storage a \<noteq> t_storage r" and b: "cells h b ys" "t_storage b \<noteq> t_storage r" and r: "cells h r zs"
    and len: "length xs = m * k" "length ys = k * n" "length zs = m * n"
  shows "\<exists>h'. fold_run (\<lambda>i. fold_run (\<lambda>j h.
           bind_run (dot_loop F a (\<lambda>l. i * k + l) b (\<lambda>l. l * n + j) k h) (\<lambda>s. store_f32 r (i * n + j) s h)) [0..<n]) [0..<m] h = Inr h' \<and> frame r h h' \<and>
    (\<forall>i < m. \<forall>j < n. load_f32 h' r (i * n + j) =
       Inr (fold (\<lambda>l s. f_add F s (f_mul F (xs ! (i * k + l)) (ys ! (l * n + j)))) [0..<k] (f_zero F)))"
proof -
  define v where "v i j = fold (\<lambda>l s. f_add F s (f_mul F (xs ! (i * k + l)) (ys ! (l * n + j)))) [0..<k] (f_zero F)" for i j
  define js where "js = List.product [0..<m] [0..<n]"
  define idx where "idx = (\<lambda>(i, j). i * n + j)"
  let ?body = "\<lambda>(i, j) h. bind_run (dot_loop F a (\<lambda>l. i * k + l) b (\<lambda>l. l * n + j) k h) (\<lambda>s. store_f32 r (i * n + j) s h)"
  let ?f = "\<lambda>(i, j) _. v i j"
  have "\<exists>h'. fold_run ?body js h = Inr h' \<and> cells h' r (upd_cells idx ?f js zs) \<and> frame r h h'"
  proof (rule cell_loop [OF r])
    fix z assume z: "z \<in> set js"
    obtain i j where e: "z = (i, j)" by (cases z)
    with z have ij: "i < m" "j < n" by (auto simp: js_def)
    show "idx z < length zs" using nested_index(2) [of j n 0 1 i m] ij by (simp add: e idx_def len)
    show "?body z g = store_f32 r (idx z) (?f z acc) g" if "frame r h g" for g acc
    proof -
      have c: "cells g a xs" "cells g b ys" using cells_frame that a b by blast+
      have "dot_loop F a (\<lambda>l. i * k + l) b (\<lambda>l. l * n + j) k g = Inr (v i j)"
        unfolding v_def using nested_index(2) [of _ k 0 1 i m] nested_index(2) [of j n 0 1 _ k] ij
        by (intro dot_loop_cells [OF c]) (simp_all add: len)
      then show ?thesis by (simp add: e idx_def)
    qed
  qed
  then obtain h' where h': "fold_run ?body js h = Inr h'" "cells h' r (upd_cells idx ?f js zs)" "frame r h h'" by blast
  have "upd_cells idx ?f js zs ! (i * n + j) = v i j" if ij: "i < m" "j < n" for i j
  proof -
    have "filter (\<lambda>z. idx z = i * n + j) js = map (Pair i) (filter (\<lambda>y. idx (i, y) = i * n + j) [0..<n])"
      unfolding js_def by (rule filter_product_fst) (use ij in \<open>auto simp: idx_def dest: block_index(1)\<close>)
    also have "filter (\<lambda>y. idx (i, y) = i * n + j) [0..<n] = [j]" using filter_eq_upt [OF ij(2)] by (simp add: idx_def)
    finally show ?thesis using nested_index(2) [of j n 0 1 i m] ij by (simp add: nth_upd_cells len)
  qed
  then have "load_f32 h' r (i * n + j) = Inr (v i j)" if "i < m" "j < n" for i j
    using nested_index(2) [of j n 0 1 i m] that by (simp add: load_cells [OF h'(2)] len)
  then show ?thesis using h'(1,3) unfolding fold_run_product js_def v_def by blast
qed

text \<open>For two matrices the loop over batches is the loop over rows and columns.\<close>

lemma matmul_2d_unfold:
  assumes a: "float_tensor h a xs" "t_shape a = [m, k]" and b: "float_tensor h b ys" "t_shape b = [k, n]"
  shows "SNEPPX_tensor_matmul F (Some a) (Some b) h = fill_new [None, None] (SNEPPX_tensor_zeros (Some [m, n]) SNEPPX_FLOAT32 h)
    (\<lambda>r. fold_run (\<lambda>i. fold_run (\<lambda>j h.
       bind_run (dot_loop F a (\<lambda>l. i * k + l) b (\<lambda>l. l * n + j) k h) (\<lambda>s. store_f32 r (i * n + j) s h)) [0..<n]) [0..<m])"
proof -
  have body: "fold_run (matmul_batch F a b r []) [0..<1] = fold_run (\<lambda>i. fold_run (\<lambda>j h.
       bind_run (dot_loop F a (\<lambda>l. i * k + l) b (\<lambda>l. l * n + j) k h) (\<lambda>s. store_f32 r (i * n + j) s h)) [0..<n]) [0..<m]" for r
    using a(2) b(2) by (intro ext)
      (simp add: matmul_batch_def [of F a b r "[]" 0] lead_offset_def batch_coords_def bind_run_def split: sum.split)
  have "SNEPPX_tensor_matmul F (Some a) (Some b) h =
      fill_new [None, None] (SNEPPX_tensor_zeros (Some [m, n]) SNEPPX_FLOAT32 h) (\<lambda>r. fold_run (matmul_batch F a b r []) [0..<1])"
    using a b by (simp add: SNEPPX_tensor_matmul_def prep_two_def tensor_prep_contiguous_def float_tensor_def matmul_prepared_def
        matmul_lead_def sz_prod_def Let_def)
  then show ?thesis unfolding body .
qed

text \<open>C15. The product of two contiguous matrices of floats never fails other than for lack of memory: it has a
  row for each row of \<open>a\<close> and a column for each column of \<open>b\<close>, and its cells are the sums of products, from zero
  and in order, of the rows of \<open>a\<close> and the columns of \<open>b\<close>.\<close>

theorem tensor_matmul_2d:
  assumes a: "float_tensor h a xs" "t_shape a = [m, k]" and b: "float_tensor h b ys" "t_shape b = [k, n]"
    and nx: "contents h (h_next h) = None" and sz: "m * n * 4 < 2 ^ 64"
  shows "\<exists>res h'. SNEPPX_tensor_matmul F (Some a) (Some b) h = Inr (res, h') \<and> ((\<forall>k. h_ok h k) \<longrightarrow> res \<noteq> None) \<and>
    (\<forall>r. res = Some r \<longrightarrow> t_shape r = [m, n] \<and> (\<forall>i < m. \<forall>j < n. load_f32 h' r (i * n + j) =
       Inr (fold (\<lambda>l s. f_add F s (f_mul F (xs ! (i * k + l)) (ys ! (l * n + j)))) [0..<k] (f_zero F))))"
proof -
  define Q where "Q = (\<lambda>r h'. \<forall>i < m. \<forall>j < n. load_f32 h' r (i * n + j) =
       Inr (fold (\<lambda>l s. f_add F s (f_mul F (xs ! (i * k + l)) (ys ! (l * n + j)))) [0..<k] (f_zero F)))"
  have len: "length xs = m * k" "length ys = k * n" and pos: "0 < m * n" and c: "cells h a xs" "cells h b ys"
    using a b by (simp_all add: float_tensor_def)
  let ?body = "\<lambda>r. fold_run (\<lambda>i. fold_run (\<lambda>j h.
       bind_run (dot_loop F a (\<lambda>l. i * k + l) b (\<lambda>l. l * n + j) k h) (\<lambda>s. store_f32 r (i * n + j) s h)) [0..<n]) [0..<m]"
  have "\<exists>h'. ?body r g = Inr h' \<and> Q r h'" if fc: "fresh_cells h [m, n] r g" for r g
    using matmul_loop_cells [OF fresh_cells_other [OF fc c(1) nx] fresh_cells_other [OF fc c(2) nx] _ len, of "replicate (m * n) 0" F] fc
    unfolding Q_def by (auto simp: fresh_cells_def)
  then have "\<exists>res h'. fill_new [None, None] (SNEPPX_tensor_zeros (Some [m, n]) SNEPPX_FLOAT32 h) ?body = Inr (res, h') \<and>
    ((\<forall>k. h_ok h k) \<longrightarrow> res \<noteq> None) \<and> (\<forall>r. res = Some r \<longrightarrow> t_shape r = [m, n] \<and> Q r h')"
    by (intro fill_new_zeros) (use sz pos in simp_all)
  then show ?thesis unfolding Q_def matmul_2d_unfold [OF a b] by simp
qed

theorem tensor_matmul_2d_witness:
  "\<exists>r h'. SNEPPX_tensor_matmul word_fops (Some (fresh_tensor 0 [2, 2] SNEPPX_FLOAT32)) (Some (fresh_tensor 0 [2, 2] SNEPPX_FLOAT32))
       (sample_heap (concat (map le32_bytes [1, 2, 3, 4]))) = Inr (Some r, h') \<and>
     t_shape r = [2, 2] \<and> load_f32 h' r 0 = Inr 7 \<and> load_f32 h' r 3 = Inr 22"
proof -
  let ?s = "fresh_tensor 0 [2, 2] SNEPPX_FLOAT32" and ?h = "sample_heap (concat (map le32_bytes [1, 2, 3, 4]))"
  have ft: "float_tensor ?h ?s [1, 2, 3, 4]" by (rule sample_floats) simp_all
  have sf: "t_shape ?s = [2, 2]" by (simp add: fresh_tensor_def)
  from tensor_matmul_2d [OF ft sf ft sf sample_heap_facts(1), of word_fops] sample_heap_facts(2)
  obtain r h' where r: "SNEPPX_tensor_matmul word_fops (Some ?s) (Some ?s) ?h = Inr (Some r, h')" "t_shape r = [2, 2]"
    "\<forall>i < 2. \<forall>j < 2. load_f32 h' r (i * 2 + j) = Inr (fold (\<lambda>l s. f_add word_fops s (f_mul word_fops ([1, 2, 3, 4] ! (i * 2 + l)) ([1, 2, 3, 4] ! (l * 2 + j)))) [0..<2] (f_zero word_fops))"
    by auto
  have "load_f32 h' r 0 = Inr 7" "load_f32 h' r 3 = Inr 22"
    using r(3) [rule_format, of 0 0] r(3) [rule_format, of 1 1] by (simp_all add: upt_rec word_fops_def)
  with r show ?thesis by blast
qed

section \<open>The index of a maximum\<close>

lemma best_index_cells:
  assumes c: "cells h s xs" and n: "t_size s = length xs" "xs \<noteq> []"
    and better: "\<And>x y z. better x y \<Longrightarrow> better x z \<or> better z y" "\<And>x y. better x y \<Longrightarrow> \<not> better y x"
  shows "\<exists>i < length xs. best_index better s h = Inr i \<and> (\<forall>j < length xs. \<not> better (xs ! j) (xs ! i)) \<and>
    (\<forall>j < i. better (xs ! i) (xs ! j))"
proof -
  have loop: "\<exists>i < n. fold_run (\<lambda>i idx. bind_run (load_f32 h s i) (\<lambda>x. bind_run (load_f32 h s idx) (\<lambda>y. Inr (if better x y then i else idx)))) [1..<n] 0
      = Inr i \<and> (\<forall>j < n. \<not> better (xs ! j) (xs ! i)) \<and> (\<forall>j < i. better (xs ! i) (xs ! j))" if "n \<le> length xs" "1 \<le> n" for n
    using that
  proof (induction n)
    case (Suc n)
    show ?case
    proof (cases "n = 0")
      case True
      then show ?thesis using better(2) [of "xs ! 0" "xs ! 0"] by auto
    next
      case False
      with Suc obtain i where i: "i < n" "\<forall>j < n. \<not> better (xs ! j) (xs ! i)" "\<forall>j < i. better (xs ! i) (xs ! j)"
        "fold_run (\<lambda>i idx. bind_run (load_f32 h s i) (\<lambda>x. bind_run (load_f32 h s idx) (\<lambda>y. Inr (if better x y then i else idx)))) [1..<n] 0 = Inr i"
        by auto
      have ld: "load_f32 h s n = Inr (xs ! n)" "load_f32 h s i = Inr (xs ! i)" using Suc.prems i(1) by (auto intro: load_cells [OF c])
      let ?k = "if better (xs ! n) (xs ! i) then n else i"
      have f: "fold_run (\<lambda>i idx. bind_run (load_f32 h s i) (\<lambda>x. bind_run (load_f32 h s idx) (\<lambda>y. Inr (if better x y then i else idx)))) [1..<Suc n] 0 = Inr ?k"
        using False i(4) ld by (simp add: fold_run_append)
      have "\<not> better (xs ! j) (xs ! ?k)" if "j < Suc n" for j
        using that i(2) better(1) [of "xs ! j" "xs ! n" "xs ! i"] better(2) [of "xs ! n" "xs ! i"] better(2) [of "xs ! n" "xs ! n"]
        by (auto simp: less_Suc_eq)
      moreover have "better (xs ! ?k) (xs ! j)" if "j < ?k" for j
        using that i(2,3) better(1) [of "xs ! n" "xs ! i" "xs ! j"] by (auto split: if_splits)
      ultimately show ?thesis using f i(1) by (intro exI [of _ ?k]) auto
    qed
  qed simp
  show ?thesis using loop [of "length xs"] n by (cases xs) (auto simp: best_index_def)
qed

text \<open>The index of the maximum of a contiguous tensor, under a comparison that orders the elements (no element
  is a NaN), is the first one of an element that no other exceeds; the heap is left as it is.\<close>

theorem tensor_argmax_first_maximum:
  assumes s: "float_tensor h s xs"
    and ord: "\<And>x y z. f_gt F x y \<Longrightarrow> f_gt F x z \<or> f_gt F z y" "\<And>x y. f_gt F x y \<Longrightarrow> \<not> f_gt F y x"
  shows "\<exists>i < length xs. SNEPPX_tensor_argmax F (Some s) h = Inr (i, h) \<and>
    (\<forall>j < length xs. \<not> f_gt F (xs ! j) (xs ! i)) \<and> (\<forall>j < i. f_gt F (xs ! i) (xs ! j))"
proof -
  have n: "t_size s = length xs" "cells h s xs" "SNEPPX_tensor_is_contiguous (Some s)" using s by (simp_all add: float_tensor_def)
  have "prod_list (t_shape s) \<noteq> 0" using s by (simp add: float_tensor_def prod_list_zero_iff)
  then have ne: "xs \<noteq> []" using s by (auto simp: float_tensor_def)
  from best_index_cells [OF n(2,1) ne, of "f_gt F", OF ord] obtain i where
    "i < length xs" "best_index (f_gt F) s h = Inr i" "\<forall>j < length xs. \<not> f_gt F (xs ! j) (xs ! i)" "\<forall>j < i. f_gt F (xs ! i) (xs ! j)" by blast
  then show ?thesis using n ne
    by (intro exI [of _ i]) (simp add: SNEPPX_tensor_argmax_def scan_tensor_def tensor_prep_contiguous_def SNEPPX_tensor_destroy_def)
qed

theorem tensor_argmax_first_maximum_witness:
  "SNEPPX_tensor_argmax word_fops (Some (fresh_tensor 0 [2, 2] SNEPPX_FLOAT32)) (sample_heap (concat (map le32_bytes [1, 9, 3, 9])))
   = Inr (1, sample_heap (concat (map le32_bytes [1, 9, 3, 9])))"
proof -
  have ft: "float_tensor (sample_heap (concat (map le32_bytes [1, 9, 3, 9]))) (fresh_tensor 0 [2, 2] SNEPPX_FLOAT32) [1, 9, 3, 9]"
    by (rule sample_floats) simp_all
  have g: "f_gt word_fops = (>)" by (simp add: word_fops_def)
  have "\<exists>i < length [1, 9, 3, 9 :: f32]. SNEPPX_tensor_argmax word_fops (Some (fresh_tensor 0 [2, 2] SNEPPX_FLOAT32)) (sample_heap (concat (map le32_bytes [1, 9, 3, 9]))) =
      Inr (i, sample_heap (concat (map le32_bytes [1, 9, 3, 9]))) \<and>
    (\<forall>j < length [1, 9, 3, 9 :: f32]. \<not> f_gt word_fops ([1, 9, 3, 9] ! j) ([1, 9, 3, 9] ! i)) \<and> (\<forall>j < i. f_gt word_fops ([1, 9, 3, 9] ! i) ([1, 9, 3, 9] ! j))"
    by (rule tensor_argmax_first_maximum [OF ft]) (auto simp: g)
  then obtain i where i: "i < 4" "SNEPPX_tensor_argmax word_fops (Some (fresh_tensor 0 [2, 2] SNEPPX_FLOAT32)) (sample_heap (concat (map le32_bytes [1, 9, 3, 9]))) =
      Inr (i, sample_heap (concat (map le32_bytes [1, 9, 3, 9])))"
    "\<forall>j < 4. \<not> [1, 9, 3, 9] ! j > ([1, 9, 3, 9] ! i :: f32)" "\<forall>j < i. [1, 9, 3, 9] ! i > ([1, 9, 3, 9] ! j :: f32)"
    unfolding g by (elim exE conjE) (simp only: list.size add_0_right, simp)
  have "i = 0 \<or> i = 1 \<or> i = 2 \<or> i = 3" using i(1) by auto
  then have "i = 1" using i(3) [rule_format, of 1] i(4) [rule_format, of 1] by auto
  then show ?thesis using i(2) by simp
qed

section \<open>Element-wise loops\<close>

text \<open>A loop that sets the cells \<open>0, \<dots>, n - 1\<close> of a new tensor from values that do not depend on it.\<close>

lemma set_cells:
  assumes r: "cells h r zs" and n: "n \<le> length zs"
    and body: "\<And>i g. i < n \<Longrightarrow> frame r h g \<Longrightarrow> body i g = store_f32 r i (v i) g"
  shows "\<exists>h'. fold_run body [0..<n] h = Inr h' \<and> (\<forall>i < n. load_f32 h' r i = Inr (v i))"
proof -
  have "\<exists>h'. fold_run body [0..<n] h = Inr h' \<and> cells h' r (upd_cells id (\<lambda>i _. v i) [0..<n] zs) \<and> frame r h h'"
    by (rule cell_loop [OF r]) (use n body in auto)
  moreover have "upd_cells id (\<lambda>i _. v i) [0..<n] zs ! i = v i" if "i < n" for i
    using that n filter_eq_upt [OF that] by (simp add: nth_upd_cells)
  ultimately show ?thesis using n by (auto simp: load_cells)
qed

text \<open>Adding a tensor \<open>b\<close> of another size than \<open>a\<close> broadcasts it along the last dimension: with as many
  elements as \<open>a\<close> has in that dimension, cell \<open>i\<close> of the result is \<open>a[i] + b[i mod d]\<close>.\<close>

theorem tensor_add_broadcasts:
  assumes a: "float_tensor h a xs" "t_shape a \<noteq> []" and b: "float_tensor h b ys" "length ys = last (t_shape a)"
    and ne: "length xs \<noteq> length ys" and nx: "contents h (h_next h) = None"
  shows "\<exists>res h'. SNEPPX_tensor_add F (Some a) (Some b) h = Inr (res, h') \<and> ((\<forall>k. h_ok h k) \<longrightarrow> res \<noteq> None) \<and>
    (\<forall>r. res = Some r \<longrightarrow> t_shape r = t_shape a \<and>
      (\<forall>i < length xs. load_f32 h' r i = Inr (f_add F (xs ! i) (ys ! (i mod last (t_shape a))))))"
proof -
  let ?d = "last (t_shape a)"
  let ?body = "\<lambda>r. fold_run (\<lambda>i h. bind_run (load_f32 h a i) (\<lambda>x. bind_run (load_f32 h b (i mod ?d)) (\<lambda>y.
              store_f32 r i (f_add F x y) h))) [0..<length xs]"
  have p: "prod_list (t_shape a) = length xs" "length xs * 4 < 2 ^ 64" "t_size a = length xs" "t_size b = length ys" "cells h a xs" "cells h b ys"
    using a b by (simp_all add: float_tensor_def)
  have "prod_list (t_shape a) \<noteq> 0" using a by (simp add: float_tensor_def prod_list_zero_iff)
  then have pos: "0 < length xs" using p(1) by simp
  have "0 \<notin> set (t_shape a)" using a by (simp add: float_tensor_def)
  then have "?d \<noteq> 0" using last_in_set [OF a(2)] by metis
  have "\<exists>h'. ?body r g = Inr h' \<and> (\<forall>i < length xs. load_f32 h' r i = Inr (f_add F (xs ! i) (ys ! (i mod ?d))))"
    if fc: "fresh_cells h (t_shape a) r g" for r g
  proof (rule set_cells)
    show "cells g r (replicate (length xs) 0)" using fc p(1) by (simp add: fresh_cells_def)
    fix i k assume i: "i < length xs" and k: "frame r g k"
    have "cells k a xs" "cells k b ys"
      using cells_frame [OF _ k] fresh_cells_other [OF fc p(5) nx] fresh_cells_other [OF fc p(6) nx] by blast+
    then have "load_f32 k a i = Inr (xs ! i)" "load_f32 k b (i mod ?d) = Inr (ys ! (i mod ?d))"
      using i \<open>?d \<noteq> 0\<close> b(2) by (auto intro: load_cells)
    then show "bind_run (load_f32 k a i) (\<lambda>x. bind_run (load_f32 k b (i mod ?d)) (\<lambda>y. store_f32 r i (f_add F x y) k)) =
        store_f32 r i (f_add F (xs ! i) (ys ! (i mod ?d))) k" by simp
  qed simp
  then have "\<exists>res h'. fill_new [None, None] (Inr (SNEPPX_tensor_create (Some (t_shape a)) SNEPPX_FLOAT32 h)) ?body = Inr (res, h') \<and>
      ((\<forall>k. h_ok h k) \<longrightarrow> res \<noteq> None) \<and> (\<forall>r. res = Some r \<longrightarrow> t_shape r = t_shape a \<and>
        (\<forall>i < length xs. load_f32 h' r i = Inr (f_add F (xs ! i) (ys ! (i mod ?d)))))"
    by (intro fill_new_create) (use p pos in simp_all)
  moreover have "SNEPPX_tensor_add F (Some a) (Some b) h = fill_new [None, None] (Inr (SNEPPX_tensor_create (Some (t_shape a)) SNEPPX_FLOAT32 h)) ?body"
    using a b ne p(3,4) by (simp add: SNEPPX_tensor_add_def prep_two_def tensor_prep_contiguous_def float_tensor_def eta_contract_eq)
  ultimately show ?thesis by simp
qed

theorem tensor_add_broadcasts_witness:
  "\<exists>r h'. SNEPPX_tensor_add word_fops (Some (fresh_tensor 0 [2, 2] SNEPPX_FLOAT32)) (Some (fresh_tensor 0 [2] SNEPPX_FLOAT32))
       (sample_heap (concat (map le32_bytes [1, 2, 3, 4]))) = Inr (Some r, h') \<and>
     t_shape r = [2, 2] \<and> load_f32 h' r 2 = Inr 4 \<and> load_f32 h' r 3 = Inr 6"
proof -
  let ?a = "fresh_tensor 0 [2, 2] SNEPPX_FLOAT32" and ?b = "fresh_tensor 0 [2] SNEPPX_FLOAT32"
    and ?h = "sample_heap (concat (map le32_bytes [1, 2, 3, 4]))"
  have fa: "float_tensor ?h ?a [1, 2, 3, 4]" by (rule sample_floats) simp_all
  have "cells ?h ?b [1, 2]"
  proof -
    have "cells ?h ?a [1, 2, 3, 4]" using fa by (simp add: float_tensor_def)
    moreover have "[1, 2] ! i = [1, 2, 3, 4 :: f32] ! i" if "i < 2" for i using that by (auto simp: less_2_cases_iff)
    ultimately show ?thesis by (auto simp: cells_def fresh_tensor_def less_Suc_eq numeral_eq_Suc)
  qed
  then have fb: "float_tensor ?h ?b [1, 2]"
    by (simp add: float_tensor_def fresh_tensor_def is_contiguous_iff sz_prod_def sz_mul_def wrap64_def)
  have sf: "t_shape ?a = [2, 2]" by (simp add: fresh_tensor_def)
  from tensor_add_broadcasts [OF fa _ fb _ _ sample_heap_facts(1), of word_fops] sample_heap_facts(2)
  obtain r h' where r: "SNEPPX_tensor_add word_fops (Some ?a) (Some ?b) ?h = Inr (Some r, h')" "t_shape r = [2, 2]"
    "\<forall>i < 4. load_f32 h' r i = Inr (f_add word_fops ([1, 2, 3, 4] ! i) ([1, 2] ! (i mod 2)))"
    by (auto simp: sf)
  have "load_f32 h' r 2 = Inr 4" "load_f32 h' r 3 = Inr 6"
    using r(3) [rule_format, of 2] r(3) [rule_format, of 3] by (simp_all add: word_fops_def)
  with r show ?thesis by blast
qed

section \<open>Two defects\<close>

text \<open>Casting to \<open>float\<close> from any type other than \<open>float\<close>, \<open>double\<close> and \<open>int32\<close> reads the elements with
  \<open>SNEPPX_tensor_get_f32\<close>, which answers zero for them: every element of the result is zero, whatever the source
  holds.\<close>

theorem cast_to_float_zeroes:
  assumes ty: "t_dtype s \<notin> {SNEPPX_FLOAT32, SNEPPX_FLOAT64, SNEPPX_INT32}"
    and sz: "t_size s = prod_list (t_shape s)" "prod_list (t_shape s) * 4 < 2 ^ 64" "0 \<notin> set (t_shape s)"
  shows "\<exists>res h'. SNEPPX_tensor_cast C (Some s) SNEPPX_FLOAT32 h = Inr (res, h') \<and> ((\<forall>k. h_ok h k) \<longrightarrow> res \<noteq> None) \<and>
    (\<forall>r. res = Some r \<longrightarrow> t_shape r = t_shape s \<and> (\<forall>i < t_size s. load_f32 h' r i = Inr 0))"
proof -
  let ?body = "\<lambda>r. fill_with r (t_size s) 4 (\<lambda>i h. bind_run (SNEPPX_tensor_get_f32 s [i] h) (\<lambda>x. Inr (le32_bytes x)))"
  have pos: "0 < prod_list (t_shape s)" using sz(3) prod_list_zero_iff [of "t_shape s"] by auto
  have "\<exists>h'. ?body r g = Inr h' \<and> (\<forall>i < t_size s. load_f32 h' r i = Inr 0)" if fc: "fresh_cells h (t_shape s) r g" for r g
    unfolding fill_with_def
    by (rule set_cells [of _ _ "replicate (t_size s) 0"]) (use fc sz ty in \<open>auto simp: fresh_cells_def SNEPPX_tensor_get_f32_def store_f32_def\<close>)
  then have "\<exists>res h'. fill_new [] (Inr (SNEPPX_tensor_create (Some (t_shape s)) SNEPPX_FLOAT32 h)) ?body = Inr (res, h') \<and>
      ((\<forall>k. h_ok h k) \<longrightarrow> res \<noteq> None) \<and> (\<forall>r. res = Some r \<longrightarrow> t_shape r = t_shape s \<and> (\<forall>i < t_size s. load_f32 h' r i = Inr 0))"
    by (intro fill_new_create) (use sz pos in simp_all)
  moreover have "SNEPPX_tensor_cast C (Some s) SNEPPX_FLOAT32 h = fill_new [] (Inr (SNEPPX_tensor_create (Some (t_shape s)) SNEPPX_FLOAT32 h)) ?body"
    using ty by (auto simp: SNEPPX_tensor_cast_def SNEPPX_tensor_empty_def)
  ultimately show ?thesis by simp
qed

theorem cast_to_float_zeroes_witness:
  "\<exists>r h'. SNEPPX_tensor_cast \<lparr>f32_to_f64 = ucast, f64_to_f32 = ucast, f32_to_i32 = id, f32_to_i64 = ucast, i32_to_f32 = id\<rparr>
       (Some (fresh_tensor 0 [2, 2] SNEPPX_INT8)) SNEPPX_FLOAT32 (sample_heap [7, 8, 5, 6]) = Inr (Some r, h') \<and>
     load_f32 h' r 3 = Inr 0"
proof -
  let ?s = "fresh_tensor 0 [2, 2] SNEPPX_INT8" and ?h = "sample_heap [7, 8, 5, 6]"
  let ?C = "\<lparr>f32_to_f64 = ucast, f64_to_f32 = ucast, f32_to_i32 = id, f32_to_i64 = ucast, i32_to_f32 = id\<rparr>"
  have sf: "t_shape ?s = [2, 2]" "t_dtype ?s = SNEPPX_INT8" "t_size ?s = 4"
    by (simp_all add: fresh_tensor_def sz_prod_def sz_mul_def wrap64_def)
  from cast_to_float_zeroes [of ?s ?C ?h] sample_heap_facts(2)
  obtain r h' where "SNEPPX_tensor_cast ?C (Some ?s) SNEPPX_FLOAT32 ?h = Inr (Some r, h')" "\<forall>i < 4. load_f32 h' r i = Inr 0"
    by (auto simp: sf)
  then show ?thesis by (intro exI [of _ r] exI [of _ h']) simp
qed

lemma fold_run_visits:
  assumes "fold_run f js s = Inr s'" "j \<in> set js" "I s" "\<And>j s s'. f j s = Inr s' \<Longrightarrow> I s \<Longrightarrow> I s'"
  shows "\<exists>u u'. I u \<and> f j u = Inr u'"
  using assms(1,2,3)
proof (induction js arbitrary: s)
  case (Cons i js)
  obtain u where u: "f i s = Inr u" "fold_run f js u = Inr s'" using Cons.prems(1) by (auto simp: bind_run_eq_Inr)
  show ?case
  proof (cases "j = i")
    case True
    then show ?thesis using u(1) Cons.prems(3) by blast
  next
    case False
    then show ?thesis using Cons.IH [OF u(2)] Cons.prems(2) assms(4) [OF u(1) Cons.prems(3)] by simp
  qed
qed simp

lemma fold_run_invariant:
  "fold_run f js s = Inr s' \<Longrightarrow> I s \<Longrightarrow> (\<And>j s s'. f j s = Inr s' \<Longrightarrow> I s \<Longrightarrow> I s') \<Longrightarrow> I s'"
proof (induction js arbitrary: s)
  case (Cons j js)
  then show ?case by (auto simp: bind_run_eq_Inr)
qed simp

lemma add_cell_size:
  assumes "add_cell F r p v h = Inr h'" "buffer_size r n h"
  shows "buffer_size r n h'" "data_pos r + p * 4 + 4 \<le> n"
proof -
  obtain d st where d: "h_stores h (t_storage r) = Some st" "st_data st = Some d" "length d = n"
    using assms(2) by (auto simp: buffer_size_def contents_def)
  show "data_pos r + p * 4 + 4 \<le> n" using assms(1) d
    by (auto simp: add_cell_def load_f32_def load_bytes_def bind_run_eq_Inr split: if_splits)
  then show "buffer_size r n h'" using assms(1) d
    by (auto simp: add_cell_def store_f32_def store_bytes_def bind_run_eq_Inr buffer_size_def contents_def split: if_splits)
qed

text \<open>\<open>SNEPPX_tensor_conv1d\<close> gives its result as many channels as the input has, and adds into as many as the
  kernel has: with more channels in the kernel it never returns a tensor, since it runs past the end of the
  result's buffer.\<close>

theorem conv1d_overruns:
  assumes x: "t_shape x = [n, c, L]" "t_size x = n * c * L" "0 < n" "0 < c" "0 < L"
    and w: "2 \<le> t_ndim w" "c < t_shape w ! (t_ndim w - 2)"
    and sz: "n * c * conv_extent L (last (t_shape w)) stride padding * 4 < 2 ^ 64"
  shows "SNEPPX_tensor_conv1d F (Some x) (Some w) stride padding h \<noteq> Inr (Some r, h')"
proof
  assume run: "SNEPPX_tensor_conv1d F (Some x) (Some w) stride padding h = Inr (Some r, h')"
  define K where "K = last (t_shape w)"
  define m where "m = conv_extent L K stride padding"
  define kc where "kc = t_shape w ! (t_ndim w - 2)"
  define cell where "cell r b c_in c_out pos h = bind_run (conv_sum F x w (conv1d_pairs L K c stride padding b c_in c_out pos) h)
    (\<lambda>sum. add_cell F r (b * kc * m + c_out * m + pos) sum h)" for r b c_in c_out pos h
  have m: "0 < m" using run x w by (auto simp: SNEPPX_tensor_conv1d_def Let_def m_def K_def split: if_splits)
  have dv: "n * c * L div (c * L) = n" using x(4,5) by (simp add: mult.assoc)
  have "fill_new [] (SNEPPX_tensor_zeros (Some [n, c, m]) SNEPPX_FLOAT32 h)
      (\<lambda>r. fold_run (\<lambda>b. fold_run (\<lambda>c_in. fold_run (\<lambda>c_out. fold_run (cell r b c_in c_out) [0..<m]) [0..<kc]) [0..<c]) [0..<n]) = Inr (Some r, h')"
    using run m x w dv
    by (auto simp: SNEPPX_tensor_conv1d_def Let_def local_dims_def cell_def [abs_def] m_def [symmetric] K_def [symmetric] kc_def [symmetric] split: if_splits)
  moreover have "n * c * m * 4 < 2 ^ 64" "0 < n * c * m" using sz m x by (simp_all add: m_def K_def)
  then have mk: "makes_cells h [n, c, m] (SNEPPX_tensor_zeros (Some [n, c, m]) SNEPPX_FLOAT32 h)"
    by (intro zeros_makes) (simp_all add: mult.assoc)
  ultimately obtain g g' where fc: "fresh_cells h [n, c, m] r g"
    and loop: "fold_run (\<lambda>b. fold_run (\<lambda>c_in. fold_run (\<lambda>c_out. fold_run (cell r b c_in c_out) [0..<m]) [0..<kc]) [0..<c]) [0..<n] g = Inr g'"
    by (auto simp: makes_cells_def fill_new_def bind_run_eq_Inr)
  let ?I = "buffer_size r (n * c * m * 4)"
  have st: "?I h'" if "cell r b c_in c_out pos h = Inr h'" "?I h" for b c_in c_out pos h h'
    using that add_cell_size(1) by (auto simp: cell_def bind_run_eq_Inr)
  have st1: "?I h'" if "fold_run (cell r b c_in c_out) [0..<m] h = Inr h'" "?I h" for b c_in c_out h h'
    by (rule fold_run_invariant [where I = ?I, OF that]) (rule st)
  have st2: "?I h'" if "fold_run (\<lambda>c_out. fold_run (cell r b c_in c_out) [0..<m]) [0..<kc] h = Inr h'" "?I h" for b c_in h h'
    by (rule fold_run_invariant [where I = ?I, OF that]) (rule st1)
  have st3: "?I h'" if "fold_run (\<lambda>c_in. fold_run (\<lambda>c_out. fold_run (cell r b c_in c_out) [0..<m]) [0..<kc]) [0..<c] h = Inr h'" "?I h" for b h h'
    by (rule fold_run_invariant [where I = ?I, OF that]) (rule st2)
  have Ig: "?I g" using fc by (simp add: fresh_cells_def mult.assoc)
  have "\<exists>u v. ?I u \<and> fold_run (\<lambda>c_in. fold_run (\<lambda>c_out. fold_run (cell r (n - 1) c_in c_out) [0..<m]) [0..<kc]) [0..<c] u = Inr v"
    by (rule fold_run_visits [where I = ?I, OF loop _ Ig]) (use x(3) in simp, erule st3, assumption)
  then obtain u1 v1 where 1: "?I u1" "fold_run (\<lambda>c_in. fold_run (\<lambda>c_out. fold_run (cell r (n - 1) c_in c_out) [0..<m]) [0..<kc]) [0..<c] u1 = Inr v1" by blast
  have "\<exists>u v. ?I u \<and> fold_run (\<lambda>c_out. fold_run (cell r (n - 1) 0 c_out) [0..<m]) [0..<kc] u = Inr v"
    by (rule fold_run_visits [where I = ?I, OF 1(2) _ 1(1)]) (use x(4) in simp, erule st2, assumption)
  then obtain u2 v2 where 2: "?I u2" "fold_run (\<lambda>c_out. fold_run (cell r (n - 1) 0 c_out) [0..<m]) [0..<kc] u2 = Inr v2" by blast
  have "\<exists>u v. ?I u \<and> fold_run (cell r (n - 1) 0 (kc - 1)) [0..<m] u = Inr v"
    by (rule fold_run_visits [where I = ?I, OF 2(2) _ 2(1)]) (use w kc_def in simp, erule st1, assumption)
  then obtain u3 v3 where 3: "?I u3" "fold_run (cell r (n - 1) 0 (kc - 1)) [0..<m] u3 = Inr v3" by blast
  have "\<exists>u v. ?I u \<and> cell r (n - 1) 0 (kc - 1) 0 u = Inr v"
    by (rule fold_run_visits [where I = ?I, OF 3(2) _ 3(1)]) (use m in simp, erule st, assumption)
  then obtain u4 v4 where 4: "?I u4" "cell r (n - 1) 0 (kc - 1) 0 u4 = Inr v4" by blast
  obtain y where y: "add_cell F r ((n - 1) * kc * m + (kc - 1) * m + 0) y u4 = Inr v4" using 4(2) by (auto simp: cell_def bind_run_eq_Inr)
  have "t_offset r = 0" using fc by (simp add: fresh_cells_def)
  then have "((n - 1) * kc * m + (kc - 1) * m) * 4 + 4 \<le> n * c * m * 4" using add_cell_size(2) [OF y 4(1)] by simp
  moreover have "p * 4 + 4 \<le> q * 4 \<Longrightarrow> p < q" for p q :: nat by linarith
  ultimately have "(n - 1) * kc * m + (kc - 1) * m < n * c * m" by blast
  moreover have "n * c \<le> (n - 1) * kc + (kc - 1)"
    using x(3) w(2) mult_le_mono2 [of "c + 1" kc "n - 1"] by (cases n) (auto simp: kc_def)
  then have "n * c * m \<le> ((n - 1) * kc + (kc - 1)) * m" by (rule mult_le_mono1)
  ultimately show False by (simp add: add_mult_distrib)
qed

theorem conv1d_overruns_witness:
  "SNEPPX_tensor_conv1d word_fops (Some (fresh_tensor 0 [1, 1, 2] SNEPPX_FLOAT32)) (Some (fresh_tensor 0 [2, 2] SNEPPX_FLOAT32)) 1 0
     (sample_heap (concat (map le32_bytes [1, 2, 3, 4]))) \<notin> {Inr (Some r, h') | r h'. True}"
proof -
  have "\<forall>r h'. SNEPPX_tensor_conv1d word_fops (Some (fresh_tensor 0 [1, 1, 2] SNEPPX_FLOAT32)) (Some (fresh_tensor 0 [2, 2] SNEPPX_FLOAT32)) 1 0
     (sample_heap (concat (map le32_bytes [1, 2, 3, 4]))) \<noteq> Inr (Some r, h')"
    by (intro allI conv1d_overruns [of _ 1 1 2])
       (simp_all add: fresh_tensor_def sz_prod_def sz_mul_def wrap64_def conv_extent_def sz_add_def size_sub_def)
  then show ?thesis by blast
qed

end
