(* ===== verification/Autodiff.thy ===== *)
theory Autodiff
  imports Tensor_Linalg
begin

text \<open>
  Variables and the gradient tape: \<open>kernel/autodiff/variable.c\<close> and \<open>kernel/autodiff/tape.c\<close>, on the heap of the
  tensor library. Variables live at addresses; the functions that an operation attaches to its result (backward
  function, release and recomputation of the context) are the parameter \<open>K\<close>, as is the type \<open>'c\<close> of contexts.
\<close>

section \<open>Variables\<close>

text \<open>
  The functions of \<open>ops.c\<close> that rebuild the context of an operation, named after the structures. Nineteen structures
  have one operand, eight an operand and a dimension, twelve two operands; the other ten differ.
\<close>

datatype unary_kind =
    U_Neg | U_Relu | U_Gelu | U_Silu | U_Sigmoid | U_Tanh | U_Exp | U_Log | U_Reshape | U_Sqrt | U_Abs
  | U_Sin | U_Cos | U_Tan | U_Asin | U_Acos | U_Atan | U_Sinh | U_Cosh

datatype dim_kind = D_Cumsum | D_Cumprod | D_Softmax | D_Sum | D_Mean | D_LogSoftmax | D_Var | D_Std

datatype binary_kind =
    B_Add | B_Sub | B_Mul | B_Div | B_Binop | B_MseLoss | B_Embedding | B_CrossEntropy | B_Min | B_Max
  | B_NllLoss | B_BceLoss

datatype recompute_fn =
    Re_Unary unary_kind | Re_Dim dim_kind | Re_Binary binary_kind
  | Re_Conv1D | Re_Pow | Re_FakeQuant | Re_Transpose | Re_Dropout | Re_LayerNorm | Re_Conv2D | Re_Concat | Re_Rope
  | Re_BatchNorm

record 'c variable =
  v_data :: "tensor option"
  v_grad :: "tensor option"
  v_requires_grad :: int
  v_checkpointed :: bool
  v_backward_fn :: bool
  v_backward_ctx :: "'c option"
  v_free_ctx :: bool
  v_recompute_ctx :: "recompute_fn option"
  v_params :: "nat list"
  v_ref_count :: int
  v_parents :: "nat option list"

text \<open>The heap, the variables by address and the depth of \<open>no_grad\<close> scopes.\<close>

record 'c ad =
  a_heap :: heap
  a_vars :: "nat \<rightharpoonup> 'c variable"
  a_next :: nat
  a_no_grad :: nat

record 'c hooks =
  backward_hook :: "nat \<Rightarrow> 'c \<Rightarrow> tensor option \<Rightarrow> 'c ad \<Rightarrow> 'c ad run"
  free_hook :: "nat \<Rightarrow> 'c \<Rightarrow> 'c ad \<Rightarrow> 'c ad run"
  recompute_hook :: "nat \<Rightarrow> 'c ad \<Rightarrow> ('c option \<times> 'c ad) run"

definition get_var :: "nat \<Rightarrow> 'c ad \<Rightarrow> 'c variable run" where
  "get_var v s = (case a_vars s v of None \<Rightarrow> Inl Use_After_Free | Some x \<Rightarrow> Inr x)"

definition put_var :: "nat \<Rightarrow> 'c variable \<Rightarrow> 'c ad \<Rightarrow> 'c ad" where
  "put_var v x s = s\<lparr>a_vars := (a_vars s)(v \<mapsto> x)\<rparr>"

definition on_heap :: "(heap \<Rightarrow> heap run) \<Rightarrow> 'c ad \<Rightarrow> 'c ad run" where
  "on_heap f s = bind_run (f (a_heap s)) (\<lambda>h. Inr (s\<lparr>a_heap := h\<rparr>))"

definition SNEPPX_no_grad_enter :: "'c ad \<Rightarrow> 'c ad" where "SNEPPX_no_grad_enter s = s\<lparr>a_no_grad := a_no_grad s + 1\<rparr>"
definition SNEPPX_no_grad_exit :: "'c ad \<Rightarrow> 'c ad" where
  "SNEPPX_no_grad_exit s = (if a_no_grad s > 0 then s\<lparr>a_no_grad := a_no_grad s - 1\<rparr> else s)"
definition SNEPPX_no_grad_is_active :: "'c ad \<Rightarrow> bool" where "SNEPPX_no_grad_is_active s \<longleftrightarrow> a_no_grad s > 0"

definition SNEPPX_variable_create :: "tensor option \<Rightarrow> int \<Rightarrow> 'c ad \<Rightarrow> nat option \<times> 'c ad" where
  "SNEPPX_variable_create data requires_grad s =
     (let (ok, h) = aligned_alloc_wrapper (a_heap s); s = s\<lparr>a_heap := h\<rparr> in
      if \<not> ok then (None, s)
      else (Some (a_next s),
            s\<lparr>a_vars := (a_vars s)(a_next s \<mapsto>
                \<lparr>v_data = data, v_grad = None, v_requires_grad = (if SNEPPX_no_grad_is_active s then 0 else requires_grad),
                 v_checkpointed = False, v_backward_fn = False, v_backward_ctx = None, v_free_ctx = False,
                 v_recompute_ctx = None, v_params = [], v_ref_count = 0, v_parents = []\<rparr>),
              a_next := a_next s + 1\<rparr>))"

definition SNEPPX_variable_destroy :: "'c hooks \<Rightarrow> nat option \<Rightarrow> 'c ad \<Rightarrow> 'c ad run" where
  "SNEPPX_variable_destroy K var s =
     (case var of None \<Rightarrow> Inr s
      | Some v \<Rightarrow>
         bind_run (get_var v s) (\<lambda>x.
         bind_run (on_heap (SNEPPX_tensor_destroy (v_data x)) s) (\<lambda>s.
         bind_run (on_heap (SNEPPX_tensor_destroy (v_grad x)) s) (\<lambda>s.
         bind_run (case v_backward_ctx x of Some c \<Rightarrow> if v_free_ctx x then free_hook K v c s else Inr s | None \<Rightarrow> Inr s) (\<lambda>s.
         Inr (s\<lparr>a_heap := free_block True (free_block (v_parents x \<noteq> []) (a_heap s)), a_vars := (a_vars s)(v := None)\<rparr>))))))"

definition SNEPPX_variable_set_requires_grad :: "nat option \<Rightarrow> int \<Rightarrow> 'c ad \<Rightarrow> 'c ad run" where
  "SNEPPX_variable_set_requires_grad var r s =
     (case var of None \<Rightarrow> Inr s | Some v \<Rightarrow> bind_run (get_var v s) (\<lambda>x. Inr (put_var v (x\<lparr>v_requires_grad := r\<rparr>) s)))"

text \<open>\<open>memcpy\<close> of \<open>size\<close> floats from one tensor to another.\<close>

definition copy_floats :: "tensor \<Rightarrow> tensor \<Rightarrow> heap \<Rightarrow> heap run" where
  "copy_floats src dst h =
     bind_run (load_bytes h (t_storage src) (data_pos src) (sz_mul (t_size src) 4)) (\<lambda>b.
     store_bytes h (t_storage dst) (data_pos dst) b)"

definition SNEPPX_variable_detach :: "nat option \<Rightarrow> 'c ad \<Rightarrow> (nat option \<times> 'c ad) run" where
  "SNEPPX_variable_detach var s =
     (case var of None \<Rightarrow> Inr (None, s)
      | Some v \<Rightarrow>
         bind_run (get_var v s) (\<lambda>x.
         case v_data x of None \<Rightarrow> Inr (None, s)
         | Some d \<Rightarrow>
             let (t, h) = SNEPPX_tensor_create (Some (t_shape d)) SNEPPX_FLOAT32 (a_heap s);
                 (out, s) = SNEPPX_variable_create t 0 (s\<lparr>a_heap := h\<rparr>)
             in case (out, t) of
                  (Some _, Some t) \<Rightarrow> bind_run (on_heap (copy_floats d t) s) (\<lambda>s. Inr (out, s))
                | _ \<Rightarrow> Inr (out, s)))"

definition SNEPPX_variable_copy :: "nat option \<Rightarrow> 'c ad \<Rightarrow> (nat option \<times> 'c ad) run" where
  "SNEPPX_variable_copy var s =
     (case var of None \<Rightarrow> Inr (None, s)
      | Some v \<Rightarrow>
         bind_run (get_var v s) (\<lambda>x.
         case v_data x of None \<Rightarrow> Inr (None, s)
         | Some d \<Rightarrow>
             let (t, h) = SNEPPX_tensor_create (Some (t_shape d)) SNEPPX_FLOAT32 (a_heap s);
                 (out, s) = SNEPPX_variable_create t (v_requires_grad x) (s\<lparr>a_heap := h\<rparr>)
             in case (out, t) of
                  (Some o', Some t) \<Rightarrow>
                    bind_run (on_heap (copy_floats d t) s) (\<lambda>s.
                    case v_grad x of None \<Rightarrow> Inr (out, s)
                    | Some g \<Rightarrow>
                        let (r, h) = SNEPPX_tensor_create (Some (t_shape g)) SNEPPX_FLOAT32 (a_heap s); s = s\<lparr>a_heap := h\<rparr> in
                        bind_run (get_var o' s) (\<lambda>y.
                        let s = put_var o' (y\<lparr>v_grad := r\<rparr>) s in
                        case r of None \<Rightarrow> Inr (out, s)
                        | Some r \<Rightarrow> bind_run (on_heap (copy_floats g r) s) (\<lambda>s. Inr (out, s))))
                | _ \<Rightarrow> Inr (out, s)))"

definition SNEPPX_variable_zero_grad :: "nat option \<Rightarrow> 'c ad \<Rightarrow> 'c ad run" where
  "SNEPPX_variable_zero_grad var s =
     (case var of None \<Rightarrow> Inr s
      | Some v \<Rightarrow> bind_run (get_var v s) (\<lambda>x.
          bind_run (on_heap (SNEPPX_tensor_destroy (v_grad x)) s) (\<lambda>s. Inr (put_var v (x\<lparr>v_grad := None\<rparr>) s))))"

definition SNEPPX_variable_item :: "f32 fops \<Rightarrow> nat option \<Rightarrow> 'c ad \<Rightarrow> f32 run" where
  "SNEPPX_variable_item F var s =
     (case var of None \<Rightarrow> Inr (f_zero F)
      | Some v \<Rightarrow> bind_run (get_var v s) (\<lambda>x.
          case v_data x of None \<Rightarrow> Inr (f_zero F)
          | Some d \<Rightarrow> if t_size d = 0 then Inr (f_zero F) else load_f32 (a_heap s) d 0))"

definition SNEPPX_variable_numel :: "nat option \<Rightarrow> 'c ad \<Rightarrow> nat run" where
  "SNEPPX_variable_numel var s =
     (case var of None \<Rightarrow> Inr 0
      | Some v \<Rightarrow> bind_run (get_var v s) (\<lambda>x. Inr (case v_data x of None \<Rightarrow> 0 | Some d \<Rightarrow> t_size d)))"

section \<open>The tape\<close>

text \<open>\<open>tp_vars\<close> is the allocated array; \<open>capacity\<close> is what the tape believes its length to be.\<close>

record tape =
  tp_vars :: "nat option list"
  num_vars :: nat
  tp_capacity :: nat
  checkpointing :: bool

definition SNEPPX_tape_create :: "heap \<Rightarrow> tape option \<times> heap" where
  "SNEPPX_tape_create h =
     (let (ok, h) = aligned_alloc_wrapper h in
      if \<not> ok then (None, h)
      else let (ok, h) = aligned_alloc_wrapper h in
        if \<not> ok then (None, free_block True h)
        else (Some \<lparr>tp_vars = replicate 64 None, num_vars = 0, tp_capacity = 64, checkpointing = False\<rparr>, h))"

definition SNEPPX_tape_destroy :: "'c hooks \<Rightarrow> tape option \<Rightarrow> 'c ad \<Rightarrow> 'c ad run" where
  "SNEPPX_tape_destroy K tape s =
     (case tape of None \<Rightarrow> Inr s
      | Some t \<Rightarrow> bind_run (fold_run (\<lambda>i s. bind_run (load_cell (tp_vars t) i) (\<lambda>v. SNEPPX_variable_destroy K v s)) [0..<num_vars t] s)
          (\<lambda>s. Inr (s\<lparr>a_heap := free_block True (free_block True (a_heap s))\<rparr>)))"

text \<open>Doubling the array: the capacity is doubled before the memory is asked for. The cells after the old ones are
  not initialised.\<close>

definition tape_grow :: "tape \<Rightarrow> heap \<Rightarrow> bool \<times> tape \<times> heap" where
  "tape_grow t h =
     (let t = t\<lparr>tp_capacity := sz_mul (tp_capacity t) 2\<rparr>; (ok, h) = aligned_alloc_wrapper h in
      if \<not> ok then (False, t, h)
      else (True, t\<lparr>tp_vars := take (num_vars t) (tp_vars t) @ replicate (tp_capacity t - num_vars t) None\<rparr>, free_block True h))"

definition SNEPPX_tape_record :: "'c hooks \<Rightarrow> tape option \<Rightarrow> nat option \<Rightarrow> 'c ad \<Rightarrow> (tape option \<times> 'c ad) run" where
  "SNEPPX_tape_record K tape var s =
     (case (tape, var) of
        (Some t, Some v) \<Rightarrow>
          let (ok, t, h) = (if num_vars t \<ge> tp_capacity t then tape_grow t (a_heap s) else (True, t, a_heap s));
              s = s\<lparr>a_heap := h\<rparr> in
          if \<not> ok then Inr (Some t, s)
          else if num_vars t \<ge> length (tp_vars t) then Inl Out_Of_Bounds
          else let t = t\<lparr>tp_vars := (tp_vars t)[num_vars t := Some v], num_vars := num_vars t + 1\<rparr> in
            if \<not> checkpointing t then Inr (Some t, s)
            else bind_run (get_var v s) (\<lambda>x.
              case v_backward_ctx x of
                None \<Rightarrow> Inr (Some t, s)
              | Some c \<Rightarrow>
                  if v_recompute_ctx x = None then Inr (Some t, s)
                  else if \<not> v_free_ctx x then Inl Null_Deref
                  else bind_run (free_hook K v c (put_var v (x\<lparr>v_checkpointed := True\<rparr>) s)) (\<lambda>s.
                    bind_run (get_var v s) (\<lambda>x. Inr (Some t, put_var v (x\<lparr>v_backward_ctx := None\<rparr>) s))))
      | _ \<Rightarrow> Inr (tape, s))"

definition SNEPPX_tape_checkpoint_begin :: "tape option \<Rightarrow> tape option" where
  "SNEPPX_tape_checkpoint_begin = map_option (checkpointing_update (\<lambda>_. True))"
definition SNEPPX_tape_checkpoint_end :: "tape option \<Rightarrow> tape option" where
  "SNEPPX_tape_checkpoint_end = map_option (checkpointing_update (\<lambda>_. False))"

section \<open>Topological order\<close>

definition tape_index :: "nat option list \<Rightarrow> nat \<Rightarrow> nat option" where
  "tape_index vs p = List.find (\<lambda>i. vs ! i = Some p) [0..<length vs]"

text \<open>The stack of the depth-first search, its top first; \<open>d_cap\<close> is the capacity the code believes it has,
  \<open>d_size\<close> the number of allocated cells.\<close>

record dfs =
  d_stack :: "nat list"
  d_size :: nat
  d_cap :: nat
  on_stack :: "bool list"
  d_heap :: heap

definition dfs_grow :: "dfs \<Rightarrow> bool \<times> dfs" where
  "dfs_grow d =
     (if length (d_stack d) < d_cap d then (True, d)
      else let d = d\<lparr>d_cap := sz_mul (d_cap d) 2\<rparr>; (ok, h) = aligned_alloc_wrapper (d_heap d) in
        if \<not> ok then (False, d\<lparr>d_heap := h\<rparr>)
        else (True, d\<lparr>d_size := d_cap d, d_heap := free_block True h\<rparr>))"

text \<open>The parents of the top of the stack: push the first one that is neither visited nor on the stack. When there
  is no memory for a larger stack the parent is passed over.\<close>

fun scan_parents :: "nat option list \<Rightarrow> bool list \<Rightarrow> nat option list \<Rightarrow> dfs \<Rightarrow> (bool \<times> dfs) run" where
  "scan_parents vs visited [] d = Inr (False, d)"
| "scan_parents vs visited (None # ps) d = scan_parents vs visited ps d"
| "scan_parents vs visited (Some p # ps) d =
     (case tape_index vs p of
        None \<Rightarrow> scan_parents vs visited ps d
      | Some i \<Rightarrow>
          if visited ! i \<or> on_stack d ! i then scan_parents vs visited ps d
          else let (ok, d) = dfs_grow d in
            if \<not> ok then scan_parents vs visited ps d
            else if length (d_stack d) \<ge> d_size d then Inl Out_Of_Bounds
            else Inr (True, d\<lparr>d_stack := i # d_stack d, on_stack := (on_stack d)[i := True]\<rparr>))"

text \<open>The loop \<open>while (sp > 0)\<close>, left after \<open>loop_guard\<close> rounds.\<close>

fun dfs_loop :: "nat option list \<Rightarrow> (nat option \<Rightarrow> nat option list run) \<Rightarrow> nat \<Rightarrow> bool list \<Rightarrow> nat option list \<Rightarrow> dfs \<Rightarrow>
    (bool list \<times> nat option list \<times> dfs) run" where
  "dfs_loop vs par 0 visited sorted' d = Inr (visited, sorted', d)"
| "dfs_loop vs par (Suc guard) visited sorted' d =
     (case d_stack d of
        [] \<Rightarrow> Inr (visited, sorted', d)
      | idx # rest \<Rightarrow>
          bind_run (par (vs ! idx)) (\<lambda>ps.
          bind_run (scan_parents vs visited ps d) (\<lambda>(pushed, d).
          if pushed then dfs_loop vs par guard visited sorted' d
          else dfs_loop vs par guard (visited[idx := True]) (sorted' @ [vs ! idx])
                 (d\<lparr>on_stack := (on_stack d)[idx := False], d_stack := tl (d_stack d)\<rparr>))))"

definition loop_guard :: nat where "loop_guard = 1000000"

text \<open>The loop over the recorded variables, left when a stack cannot be allocated.\<close>

fun sort_from :: "nat option list \<Rightarrow> (nat option \<Rightarrow> nat option list run) \<Rightarrow> nat list \<Rightarrow> bool list \<Rightarrow> nat option list \<Rightarrow> heap \<Rightarrow>
    (nat option list \<times> heap) run" where
  "sort_from vs par [] visited sorted' h = Inr (sorted', h)"
| "sort_from vs par (i # is) visited sorted' h =
     (if visited ! i then sort_from vs par is visited sorted' h
      else let (a, h) = aligned_alloc_wrapper h; (b, h) = aligned_alloc_wrapper h in
        if \<not> a \<or> \<not> b then Inr (sorted', free_block b (free_block a h))
        else bind_run (dfs_loop vs par loop_guard visited sorted'
               \<lparr>d_stack = [i], d_size = 64, d_cap = 64, on_stack = (replicate (length vs) False)[i := True], d_heap = h\<rparr>)
             (\<lambda>(visited, sorted', d). sort_from vs par is visited sorted' (free_block True (free_block True (d_heap d)))))"

definition var_parents :: "'c ad \<Rightarrow> nat option \<Rightarrow> nat option list run" where
  "var_parents s var = (case var of None \<Rightarrow> Inr [] | Some v \<Rightarrow> bind_run (get_var v s) (\<lambda>x. Inr (v_parents x)))"

definition tape_topological_sort :: "tape \<Rightarrow> 'c ad \<Rightarrow> (nat option list \<times> 'c ad) run" where
  "tape_topological_sort t s =
     (let vs = take (num_vars t) (tp_vars t) in
      if num_vars t = 0 then Inr ([], s)
      else let (ok, h) = aligned_alloc_wrapper (a_heap s) in
        if \<not> ok then Inr ([], s\<lparr>a_heap := h\<rparr>)
        else bind_run (sort_from vs (var_parents s) [0..<num_vars t] (replicate (num_vars t) False) [] h)
               (\<lambda>(sorted', h). Inr (sorted', s\<lparr>a_heap := free_block True h\<rparr>)))"

section \<open>The backward pass\<close>

definition release_parents :: "nat option list \<Rightarrow> 'c ad \<Rightarrow> 'c ad run" where
  "release_parents =
     fold_run (\<lambda>p s. case p of None \<Rightarrow> Inr s
       | Some q \<Rightarrow> bind_run (get_var q s) (\<lambda>y. Inr (put_var q (y\<lparr>v_ref_count := v_ref_count y - 1\<rparr>) s)))"

text \<open>\<open>if (!var->backward_ctx && var->checkpointed && var->recompute_ctx)\<close>\<close>

definition restore_ctx :: "'c hooks \<Rightarrow> nat \<Rightarrow> 'c ad \<Rightarrow> 'c ad run" where
  "restore_ctx K v s =
     bind_run (get_var v s) (\<lambda>x.
     if v_backward_ctx x = None \<and> v_checkpointed x \<and> v_recompute_ctx x \<noteq> None
     then bind_run (recompute_hook K v s) (\<lambda>(c, s). bind_run (get_var v s) (\<lambda>x. Inr (put_var v (x\<lparr>v_backward_ctx := c\<rparr>) s)))
     else Inr s)"

definition backward_step :: "'c hooks \<Rightarrow> nat option \<Rightarrow> 'c ad \<Rightarrow> 'c ad run" where
  "backward_step K var s =
     (case var of None \<Rightarrow> Inr s
      | Some v \<Rightarrow>
         bind_run (get_var v s) (\<lambda>x.
         if \<not> v_backward_fn x \<or> v_grad x = None then Inr s
         else bind_run (restore_ctx K v s) (\<lambda>s.
           bind_run (get_var v s) (\<lambda>x.
           case v_backward_ctx x of
             None \<Rightarrow> Inr s
           | Some c \<Rightarrow>
               bind_run (backward_hook K v c (v_grad x) s) (\<lambda>s.
               bind_run (get_var v s) (\<lambda>x.
               bind_run (case v_backward_ctx x of
                   Some c \<Rightarrow> if v_free_ctx x
                     then bind_run (free_hook K v c s) (\<lambda>s. bind_run (get_var v s) (\<lambda>x. Inr (put_var v (x\<lparr>v_backward_ctx := None\<rparr>) s)))
                     else Inr s
                 | None \<Rightarrow> Inr s) (\<lambda>s.
               release_parents (v_parents x) s)))))))"

definition SNEPPX_tape_backward :: "'c hooks \<Rightarrow> tape option \<Rightarrow> nat option \<Rightarrow> 'c ad \<Rightarrow> 'c ad run" where
  "SNEPPX_tape_backward K tape loss s =
     (case (tape, loss) of
        (Some t, Some l) \<Rightarrow>
          bind_run (get_var l s) (\<lambda>x.
          bind_run (on_heap (SNEPPX_tensor_destroy (v_grad x)) s) (\<lambda>s.
          case v_data x of None \<Rightarrow> Inl Null_Deref
          | Some d \<Rightarrow>
              bind_run (SNEPPX_tensor_ones (Some (t_shape d)) SNEPPX_FLOAT32 (a_heap s)) (\<lambda>(g, h).
              let s = put_var l (x\<lparr>v_grad := g\<rparr>) (s\<lparr>a_heap := h\<rparr>) in
              if num_vars t = 0 then Inr s
              else let (ok, h) = aligned_alloc_wrapper (a_heap s); s = s\<lparr>a_heap := h\<rparr> in
                if \<not> ok then Inr s
                else bind_run (tape_topological_sort t s) (\<lambda>(sorted', s).
                  bind_run (fold_run (backward_step K) (rev sorted') s) (\<lambda>s.
                  Inr (s\<lparr>a_heap := free_block True (a_heap s)\<rparr>))))))
      | _ \<Rightarrow> Inr s)"

section \<open>Gradients\<close>

definition SNEPPX_tape_zero_grad :: "tape option \<Rightarrow> 'c ad \<Rightarrow> 'c ad run" where
  "SNEPPX_tape_zero_grad tape s =
     (case tape of None \<Rightarrow> Inr s
      | Some t \<Rightarrow> fold_run SNEPPX_variable_zero_grad (take (num_vars t) (tp_vars t)) s)"

definition add_squares :: "f32 fops \<Rightarrow> 'c ad \<Rightarrow> nat option \<Rightarrow> f32 \<Rightarrow> f32 run" where
  "add_squares F s var acc =
     (case var of None \<Rightarrow> Inr acc
      | Some v \<Rightarrow> bind_run (get_var v s) (\<lambda>x.
          case v_grad x of None \<Rightarrow> Inr acc
          | Some g \<Rightarrow> fold_run (\<lambda>j acc. bind_run (load_f32 (a_heap s) g j) (\<lambda>y. Inr (f_add F acc (f_mul F y y)))) [0..<t_size g] acc))"

definition SNEPPX_tape_global_norm :: "f32 fops \<Rightarrow> tape option \<Rightarrow> 'c ad \<Rightarrow> f32 run" where
  "SNEPPX_tape_global_norm F tape s =
     (case tape of None \<Rightarrow> Inr (f_zero F)
      | Some t \<Rightarrow> bind_run (fold_run (add_squares F s) (take (num_vars t) (tp_vars t)) (f_zero F)) (\<lambda>sum. Inr (f_sqrt F sum)))"

definition scale_grad :: "f32 fops \<Rightarrow> f32 \<Rightarrow> nat option \<Rightarrow> 'c ad \<Rightarrow> 'c ad run" where
  "scale_grad F scale var s =
     (case var of None \<Rightarrow> Inr s
      | Some v \<Rightarrow> bind_run (get_var v s) (\<lambda>x.
          case v_grad x of None \<Rightarrow> Inr s
          | Some g \<Rightarrow> on_heap (update_cells (\<lambda>y. f_mul F y scale) g (t_size g)) s))"

definition SNEPPX_tape_clip_grad_norm :: "f32 fops \<Rightarrow> tape option \<Rightarrow> f32 \<Rightarrow> 'c ad \<Rightarrow> 'c ad run" where
  "SNEPPX_tape_clip_grad_norm F tape max_norm s =
     (case tape of None \<Rightarrow> Inr s
      | Some t \<Rightarrow>
         if f_le F max_norm (f_zero F) then Inr s
         else bind_run (SNEPPX_tape_global_norm F tape s) (\<lambda>total_norm.
           if f_le F total_norm max_norm then Inr s
           else fold_run (scale_grad F (f_div F max_norm (f_add F total_norm (f_lit F 1 (- 7))))) (take (num_vars t) (tp_vars t)) s))"

end
