(* ===== verification/Autodiff_Back.thy ===== *)
theory Autodiff_Back
  imports Autodiff
begin

text \<open>
  The backward functions of \<open>kernel/autodiff/ops.c\<close>: how each operation turns the gradient of its result into
  gradients of its operands. A context is a value of \<open>op_ctx\<close> with the fields of its C structure;
  pointers to variables may be \<open>NULL\<close> (\<open>None\<close>). Tensors are made and changed on the heap of the tensor library, so
  that a missing test of a \<open>NULL\<close> result is the fault \<open>Null_Deref\<close> and an index behind a buffer \<open>Out_Of_Bounds\<close>.

  The functions of \<open>math.h\<close> and the arithmetic of \<open>double\<close> are the parameter \<open>L\<close>.
\<close>

section \<open>Contexts\<close>

type_synonym var_ptr = "nat option"

datatype op_ctx =
    Unary_Ctx unary_kind var_ptr
  | Dim_Ctx dim_kind var_ptr nat
  | Binary_Ctx binary_kind var_ptr var_ptr
  | Conv1DCtx var_ptr var_ptr nat nat
  | PowCtx var_ptr var_ptr "tensor option"
  | FakeQuantCtx var_ptr f32 int
  | TransposeCtx var_ptr nat nat
  | DropoutCtx var_ptr f32 u32 "tensor option"
  | LayerNormCtx var_ptr var_ptr var_ptr f32
  | Conv2DCtx var_ptr var_ptr nat nat nat nat
  | ConcatCtx bool "var_ptr list option" nat nat "nat list option"
  | RopeCtx var_ptr "tensor option"
  | BatchNormCtx var_ptr var_ptr var_ptr var_ptr var_ptr f32

text \<open>\<open>Unary_Ctx U_Neg a\<close> is a \<open>NegCtx\<close>, and so on. The flag of \<open>ConcatCtx\<close> tells that \<open>vars\<close> is the array \<open>parents\<close> of
  the variable itself.\<close>

type_synonym ops = "op_ctx ad"

record mathlib =
  ml_f :: "f32 fops"
  ml_d :: "u64 fops"
  ml_widen :: "f32 \<Rightarrow> u64"
  ml_narrow :: "u64 \<Rightarrow> f32"
  ml_tan :: "f32 \<Rightarrow> f32"
  ml_asin :: "f32 \<Rightarrow> f32"
  ml_acos :: "f32 \<Rightarrow> f32"
  ml_atan :: "f32 \<Rightarrow> f32"
  ml_sinh :: "f32 \<Rightarrow> f32"
  ml_cosh :: "f32 \<Rightarrow> f32"
  ml_floor :: "f32 \<Rightarrow> f32"
  ml_ceil :: "f32 \<Rightarrow> f32"
  ml_round :: "f32 \<Rightarrow> f32"
  ml_trunc :: "f32 \<Rightarrow> f32"
  ml_of_int :: "int \<Rightarrow> f32"

section \<open>Access to variables and tensors\<close>

definition get_ptr :: "var_ptr \<Rightarrow> ops \<Rightarrow> (nat \<times> op_ctx variable) run" where
  "get_ptr p s = (case p of None \<Rightarrow> Inl Null_Deref | Some v \<Rightarrow> bind_run (get_var v s) (\<lambda>x. Inr (v, x)))"

definition deref :: "'a option \<Rightarrow> 'a run" where
  "deref t = (case t of None \<Rightarrow> Inl Null_Deref | Some t \<Rightarrow> Inr t)"

text \<open>\<open>p->data\<close>\<close>

definition data_ptr :: "var_ptr \<Rightarrow> ops \<Rightarrow> tensor option run" where
  "data_ptr p s = bind_run (get_ptr p s) (\<lambda>(v, x). Inr (v_data x))"

definition with_heap :: "(heap \<Rightarrow> ('a \<times> heap) run) \<Rightarrow> ops \<Rightarrow> ('a \<times> ops) run" where
  "with_heap f s = bind_run (f (a_heap s)) (\<lambda>(x, h). Inr (x, s\<lparr>a_heap := h\<rparr>))"

definition dim_of :: "tensor \<Rightarrow> nat \<Rightarrow> nat run" where
  "dim_of t i = (if i < t_ndim t then Inr (t_shape t ! i) else Inl Out_Of_Bounds)"

definition wants_grad :: "op_ctx variable \<Rightarrow> bool" where
  "wants_grad x \<longleftrightarrow> v_requires_grad x \<noteq> 0"

definition drop_tensors :: "tensor option list \<Rightarrow> ops \<Rightarrow> ops run" where
  "drop_tensors ts s = on_heap (fold_run SNEPPX_tensor_destroy ts) s"

definition add_to :: "f32 fops \<Rightarrow> tensor \<Rightarrow> nat \<Rightarrow> f32 \<Rightarrow> heap \<Rightarrow> heap run" where
  "add_to F t i v h = bind_run (load_f32 h t i) (\<lambda>x. store_f32 t i (f_add F x v) h)"

section \<open>Accumulation\<close>

definition grad_accum :: "f32 fops \<Rightarrow> nat \<Rightarrow> tensor option \<Rightarrow> ops \<Rightarrow> ops run" where
  "grad_accum F v new_grad s =
     (case new_grad of
        None \<Rightarrow> Inr s
      | Some ng \<Rightarrow>
          bind_run (get_var v s) (\<lambda>x.
          case v_grad x of
            None \<Rightarrow> Inr (put_var v (x\<lparr>v_grad := new_grad\<rparr>) s)
          | Some g \<Rightarrow>
              bind_run (on_heap (fold_run (\<lambda>i h. bind_run (load_f32 h ng i) (\<lambda>y. add_to F g i y h))
                [0..<min (t_size g) (t_size ng)]) s) (\<lambda>s.
              on_heap (SNEPPX_tensor_destroy new_grad) s)))"

text \<open>Shapes aligned at their last dimension; the cells in front come from \<open>calloc\<close>.\<close>

definition pad_shape :: "nat \<Rightarrow> nat list \<Rightarrow> nat list" where
  "pad_shape n sh = replicate (n - length sh) 0 @ sh"

fun place_strides :: "nat list \<Rightarrow> nat list" where
  "place_strides [] = []"
| "place_strides [d] = [1]"
| "place_strides (d # e # ds) = (let st = place_strides (e # ds) in sz_mul (hd st) e # st)"

text \<open>The index in the gradient of cell \<open>i\<close> of the target: each coordinate of the target, or 0 where the
  gradient has one cell.\<close>

definition reduced_index :: "nat list \<Rightarrow> nat list \<Rightarrow> nat \<Rightarrow> nat" where
  "reduced_index g_shape target i =
     (let strides_t = place_strides target; strides_g = place_strides g_shape;
          off = length g_shape - length target in
      snd (fold (\<lambda>d (tmp, g_idx).
        let t_dim_idx = tmp div strides_t ! d; tmp = tmp mod strides_t ! d;
            g_dim = off + d;
            g_dim_idx = (if g_shape ! g_dim = 1 then 0 else t_dim_idx) in
        (tmp, sz_add g_idx (sz_mul g_dim_idx (strides_g ! g_dim)))) [0..<length target] (i, 0)))"

text \<open>The code allocates two shapes, the reduced values and two arrays of strides, and gives up when one of them is
  missing. A target without dimensions makes it write before an empty array. When there is no memory for the new shape
  the tensor is left with the shape \<open>NULL\<close>, which the model reports at once.\<close>

definition alloc_two :: "heap \<Rightarrow> bool \<times> heap" where
  "alloc_two h =
     (let (a, h) = aligned_alloc_wrapper h; (b, h) = aligned_alloc_wrapper h in
      if a \<and> b then (True, h) else (False, free_block b (free_block a h)))"

definition free_two :: "heap \<Rightarrow> heap" where
  "free_two h = free_block True (free_block True h)"

definition reduce_cells :: "tensor \<Rightarrow> nat list \<Rightarrow> tensor \<Rightarrow> heap \<Rightarrow> (tensor \<times> heap) run" where
  "reduce_cells g g_shape target h =
     (let flat_size = sz_prod (t_shape target);
          (r, h) = aligned_alloc_wrapper h in
      if \<not> r then Inr (g, free_two h)
      else let (st, h) = alloc_two h in
        if \<not> st then Inr (g, free_block True (free_two h))
        else if t_shape target = [] then Inl Out_Of_Bounds
        else bind_run (map_run (\<lambda>i. load_f32 h g (reduced_index g_shape (t_shape target) i)) [0..<flat_size]) (\<lambda>reduced.
          bind_run (fold_run (\<lambda>i. store_f32 g i (reduced ! i)) [0..<flat_size] h) (\<lambda>h.
          let (sh, h) = aligned_alloc_wrapper h in
          if \<not> sh then Inl Null_Deref
          else Inr (g\<lparr>t_size := flat_size, t_shape := t_shape target\<rparr>,
                    free_two (free_block True (free_two (free_block True h)))))))"

definition reduce_grad_to_shape :: "tensor option \<Rightarrow> tensor option \<Rightarrow> heap \<Rightarrow> (tensor option \<times> heap) run" where
  "reduce_grad_to_shape grad target h =
     (case grad of
        None \<Rightarrow> Inr (None, h)
      | Some g \<Rightarrow>
          bind_run (deref target) (\<lambda>target.
          if t_ndim g = t_ndim target \<and> t_size g = t_size target then Inr (grad, h)
          else
            let n = max (t_ndim g) (t_ndim target); (ok, h) = alloc_two h in
            if \<not> ok then Inr (grad, h)
            else if pad_shape n (t_shape g) = pad_shape n (t_shape target) then Inr (grad, free_two h)
            else bind_run (reduce_cells g (pad_shape n (t_shape g)) target h) (\<lambda>(g, h). Inr (Some g, h))))"

text \<open>\<open>if (p->requires_grad) { g = mk(); reduce_grad_to_shape(&g, p->data); grad_accum(&p->grad, g); }\<close>\<close>

definition reduced_grad :: "f32 fops \<Rightarrow> var_ptr \<Rightarrow> (ops \<Rightarrow> (tensor option \<times> ops) run) \<Rightarrow> ops \<Rightarrow> ops run" where
  "reduced_grad F p mk s =
     bind_run (get_ptr p s) (\<lambda>(v, x).
     if \<not> wants_grad x then Inr s
     else bind_run (mk s) (\<lambda>(g, s).
          bind_run (with_heap (reduce_grad_to_shape g (v_data x)) s) (\<lambda>(g, s).
          grad_accum F v g s)))"

section \<open>Element-wise operations\<close>

definition backward_add :: "mathlib \<Rightarrow> var_ptr \<Rightarrow> var_ptr \<Rightarrow> tensor option \<Rightarrow> ops \<Rightarrow> ops run" where
  "backward_add L a b go s =
     bind_run (reduced_grad (ml_f L) a (with_heap (SNEPPX_tensor_copy go)) s)
       (reduced_grad (ml_f L) b (with_heap (SNEPPX_tensor_copy go)))"

definition backward_sub :: "mathlib \<Rightarrow> var_ptr \<Rightarrow> var_ptr \<Rightarrow> tensor option \<Rightarrow> ops \<Rightarrow> ops run" where
  "backward_sub L a b go s =
     bind_run (reduced_grad (ml_f L) a (with_heap (SNEPPX_tensor_copy go)) s)
       (reduced_grad (ml_f L) b (with_heap (SNEPPX_tensor_neg (ml_f L) go)))"

definition backward_mul :: "mathlib \<Rightarrow> var_ptr \<Rightarrow> var_ptr \<Rightarrow> tensor option \<Rightarrow> ops \<Rightarrow> ops run" where
  "backward_mul L a b go s =
     (let F = ml_f L in
      bind_run (reduced_grad F a (\<lambda>s. bind_run (data_ptr b s) (\<lambda>db. with_heap (SNEPPX_tensor_mul F db go) s)) s)
        (reduced_grad F b (\<lambda>s. bind_run (data_ptr a s) (\<lambda>da. with_heap (SNEPPX_tensor_mul F da go) s))))"

definition div_grad :: "f32 fops \<Rightarrow> tensor option \<Rightarrow> tensor option \<Rightarrow> tensor option \<Rightarrow> heap \<Rightarrow> (tensor option \<times> heap) run" where
  "div_grad F da db go h =
     bind_run (SNEPPX_tensor_mul F db db h) (\<lambda>(b2, h).
     bind_run (SNEPPX_tensor_neg F da h) (\<lambda>(a_neg, h).
     bind_run (SNEPPX_tensor_mul F a_neg go h) (\<lambda>(num, h).
     bind_run (SNEPPX_tensor_div F num b2 h) (\<lambda>(gb, h).
     bind_run (fold_run SNEPPX_tensor_destroy [b2, a_neg, num] h) (\<lambda>h. Inr (gb, h))))))"

definition backward_div :: "mathlib \<Rightarrow> var_ptr \<Rightarrow> var_ptr \<Rightarrow> tensor option \<Rightarrow> ops \<Rightarrow> ops run" where
  "backward_div L a b go s =
     (let F = ml_f L in
      bind_run (reduced_grad F a (\<lambda>s. bind_run (data_ptr b s) (\<lambda>db. with_heap (SNEPPX_tensor_div F go db) s)) s)
        (reduced_grad F b (\<lambda>s. bind_run (data_ptr b s) (\<lambda>db. bind_run (data_ptr a s) (\<lambda>da.
           with_heap (div_grad F da db go) s)))))"

text \<open>The exponent minus one: changed in place when it has one cell.\<close>

definition minus_one :: "f32 fops \<Rightarrow> tensor option \<Rightarrow> heap \<Rightarrow> (tensor option \<times> heap) run" where
  "minus_one F db h =
     bind_run (deref db) (\<lambda>b.
     if t_size b = 1 then
       bind_run (SNEPPX_tensor_copy db h) (\<lambda>(c, h).
       bind_run (deref c) (\<lambda>c'.
       bind_run (load_f32 h c' 0) (\<lambda>bv.
       bind_run (store_f32 c' 0 (f_sub F bv (f_one F)) h) (\<lambda>h. Inr (c, h)))))
     else
       bind_run (SNEPPX_tensor_ones (Some (t_shape b)) SNEPPX_FLOAT32 h) (\<lambda>(ones, h).
       bind_run (SNEPPX_tensor_sub F db ones h) (\<lambda>(c, h).
       bind_run (SNEPPX_tensor_destroy ones h) (\<lambda>h. Inr (c, h)))))"

definition pow_base_grad :: "f32 fops \<Rightarrow> tensor option \<Rightarrow> tensor option \<Rightarrow> tensor option \<Rightarrow> heap \<Rightarrow> (tensor option \<times> heap) run" where
  "pow_base_grad F da db go h =
     bind_run (minus_one F db h) (\<lambda>(bm1, h).
     bind_run (SNEPPX_tensor_pow F da bm1 h) (\<lambda>(p, h).
     bind_run (SNEPPX_tensor_mul F db p h) (\<lambda>(d, h).
     bind_run (SNEPPX_tensor_mul F go d h) (\<lambda>(ga, h).
     bind_run (fold_run SNEPPX_tensor_destroy [bm1, p, d] h) (\<lambda>h. Inr (ga, h))))))"

definition pow_exponent_grad ::
  "f32 fops \<Rightarrow> tensor option \<Rightarrow> tensor option \<Rightarrow> tensor option \<Rightarrow> heap \<Rightarrow> (tensor option \<times> heap) run" where
  "pow_exponent_grad F da result go h =
     bind_run (SNEPPX_tensor_log F da h) (\<lambda>(log_a, h).
     bind_run (SNEPPX_tensor_mul F result log_a h) (\<lambda>(db, h).
     bind_run (SNEPPX_tensor_mul F go db h) (\<lambda>(gb, h).
     bind_run (fold_run SNEPPX_tensor_destroy [log_a, db] h) (\<lambda>h. Inr (gb, h)))))"

definition backward_pow :: "mathlib \<Rightarrow> var_ptr \<Rightarrow> var_ptr \<Rightarrow> tensor option \<Rightarrow> tensor option \<Rightarrow> ops \<Rightarrow> ops run" where
  "backward_pow L a b result go s =
     (let F = ml_f L in
      bind_run (reduced_grad F a (\<lambda>s. bind_run (data_ptr b s) (\<lambda>db. bind_run (data_ptr a s) (\<lambda>da.
        with_heap (pow_base_grad F da db go) s))) s) (\<lambda>s.
      bind_run (get_ptr b s) (\<lambda>(_, y).
      if \<not> wants_grad y \<or> result = None then Inr s
      else reduced_grad F b (\<lambda>s. bind_run (data_ptr a s) (\<lambda>da. with_heap (pow_exponent_grad F da result go) s)) s)))"

text \<open>\<open>if (!p->requires_grad) return; ... grad_accum(&p->grad, mk());\<close>\<close>

definition plain_grad :: "f32 fops \<Rightarrow> var_ptr \<Rightarrow> (tensor option \<Rightarrow> ops \<Rightarrow> (tensor option \<times> ops) run) \<Rightarrow> ops \<Rightarrow> ops run" where
  "plain_grad F p mk s =
     bind_run (get_ptr p s) (\<lambda>(v, x).
     if \<not> wants_grad x then Inr s
     else bind_run (mk (v_data x) s) (\<lambda>(g, s). grad_accum F v g s))"

definition backward_neg :: "mathlib \<Rightarrow> var_ptr \<Rightarrow> tensor option \<Rightarrow> ops \<Rightarrow> ops run" where
  "backward_neg L a go = plain_grad (ml_f L) a (\<lambda>_. with_heap (SNEPPX_tensor_neg (ml_f L) go))"

definition backward_log :: "mathlib \<Rightarrow> var_ptr \<Rightarrow> tensor option \<Rightarrow> ops \<Rightarrow> ops run" where
  "backward_log L a go = plain_grad (ml_f L) a (\<lambda>d. with_heap (SNEPPX_tensor_div (ml_f L) go d))"

definition backward_transpose :: "mathlib \<Rightarrow> var_ptr \<Rightarrow> nat \<Rightarrow> nat \<Rightarrow> tensor option \<Rightarrow> ops \<Rightarrow> ops run" where
  "backward_transpose L a dim1 dim2 go = plain_grad (ml_f L) a (\<lambda>_. with_heap (SNEPPX_tensor_transpose go dim1 dim2))"

definition backward_reshape :: "mathlib \<Rightarrow> var_ptr \<Rightarrow> tensor option \<Rightarrow> ops \<Rightarrow> ops run" where
  "backward_reshape L a go = plain_grad (ml_f L) a (\<lambda>d s. bind_run (deref d) (\<lambda>d.
     with_heap (SNEPPX_tensor_reshape go (t_shape d)) s))"

definition backward_fake_quant :: "mathlib \<Rightarrow> var_ptr \<Rightarrow> tensor option \<Rightarrow> ops \<Rightarrow> ops run" where
  "backward_fake_quant L a go = plain_grad (ml_f L) a (\<lambda>_. with_heap (SNEPPX_tensor_copy go))"

text \<open>The activations change a copy of the incoming gradient cell by cell; \<open>checked\<close> tells whether the code tests the
  copy for \<open>NULL\<close>.\<close>

definition cell_grad ::
  "bool \<Rightarrow> (f32 \<Rightarrow> f32 \<Rightarrow> f32) \<Rightarrow> tensor option \<Rightarrow> tensor option \<Rightarrow> heap \<Rightarrow> (tensor option \<times> heap) run" where
  "cell_grad checked f go d h =
     bind_run (SNEPPX_tensor_copy go h) (\<lambda>(ga, h).
     case ga of
       None \<Rightarrow> if checked then Inr (None, h) else Inl Null_Deref
     | Some g \<Rightarrow>
         bind_run (deref d) (\<lambda>d.
         bind_run (fold_run (\<lambda>i h. bind_run (load_f32 h d i) (\<lambda>x. bind_run (load_f32 h g i) (\<lambda>y.
           store_f32 g i (f x y) h))) [0..<t_size g] h) (\<lambda>h. Inr (ga, h))))"

definition cell_back :: "bool \<Rightarrow> (f32 \<Rightarrow> f32 \<Rightarrow> f32) \<Rightarrow> mathlib \<Rightarrow> var_ptr \<Rightarrow> tensor option \<Rightarrow> ops \<Rightarrow> ops run" where
  "cell_back checked f L a go = plain_grad (ml_f L) a (\<lambda>d. with_heap (cell_grad checked f go d))"

definition backward_relu :: "mathlib \<Rightarrow> var_ptr \<Rightarrow> tensor option \<Rightarrow> ops \<Rightarrow> ops run" where
  "backward_relu L = cell_back False (\<lambda>x g. if f_le (ml_f L) x (f_zero (ml_f L)) then f_zero (ml_f L) else g) L"

definition d_gelu :: "f32 fops \<Rightarrow> f32 \<Rightarrow> f32" where
  "d_gelu F x =
     (let c = f_lit F 7978845608028654 (- 16);
          x3 = f_mul F (f_mul F x x) x;
          tanh_in = f_mul F c (f_add F x (f_mul F (f_lit F 44715 (- 6)) x3));
          th = f_tanh F tanh_in;
          sech2 = f_sub F (f_one F) (f_mul F th th);
          half = f_lit F 5 (- 1) in
      f_add F (f_mul F half (f_add F (f_one F) th))
        (f_mul F (f_mul F (f_mul F (f_mul F half x) sech2) c)
          (f_add F (f_one F) (f_mul F (f_mul F (f_mul F (f_lit F 3 0) (f_lit F 44715 (- 6))) x) x))))"

definition backward_gelu :: "mathlib \<Rightarrow> var_ptr \<Rightarrow> tensor option \<Rightarrow> ops \<Rightarrow> ops run" where
  "backward_gelu L = cell_back False (\<lambda>x g. f_mul (ml_f L) g (d_gelu (ml_f L) x)) L"

definition sigmoid_f :: "f32 fops \<Rightarrow> f32 \<Rightarrow> f32" where
  "sigmoid_f F x = f_div F (f_one F) (f_add F (f_one F) (f_exp F (f_neg F x)))"

definition backward_silu :: "mathlib \<Rightarrow> var_ptr \<Rightarrow> tensor option \<Rightarrow> ops \<Rightarrow> ops run" where
  "backward_silu L = (let F = ml_f L in cell_back False (\<lambda>x g.
     let sg = sigmoid_f F x; ds = f_mul F sg (f_add F (f_one F) (f_mul F x (f_sub F (f_one F) sg))) in f_mul F g ds) L)"

definition backward_sigmoid :: "mathlib \<Rightarrow> var_ptr \<Rightarrow> tensor option \<Rightarrow> ops \<Rightarrow> ops run" where
  "backward_sigmoid L = (let F = ml_f L in cell_back False (\<lambda>x g.
     let sg = sigmoid_f F x in f_mul F g (f_mul F sg (f_sub F (f_one F) sg))) L)"

definition backward_tanh :: "mathlib \<Rightarrow> var_ptr \<Rightarrow> tensor option \<Rightarrow> ops \<Rightarrow> ops run" where
  "backward_tanh L = (let F = ml_f L in cell_back False (\<lambda>x g.
     let t = f_tanh F x in f_mul F g (f_sub F (f_one F) (f_mul F t t))) L)"

definition backward_sqrt :: "mathlib \<Rightarrow> var_ptr \<Rightarrow> tensor option \<Rightarrow> ops \<Rightarrow> ops run" where
  "backward_sqrt L = (let F = ml_f L in cell_back True (\<lambda>x g. f_mul F g (f_div F (f_lit F 5 (- 1)) (f_sqrt F x))) L)"

definition arc_root :: "f32 fops \<Rightarrow> f32 \<Rightarrow> f32" where
  "arc_root F x = f_sqrt F (f_add F (f_sub F (f_one F) (f_mul F x x)) (f_lit F 1 (- 12)))"

definition backward_asin :: "mathlib \<Rightarrow> var_ptr \<Rightarrow> tensor option \<Rightarrow> ops \<Rightarrow> ops run" where
  "backward_asin L = (let F = ml_f L in cell_back True (\<lambda>x g. f_div F g (arc_root F x)) L)"

definition backward_acos :: "mathlib \<Rightarrow> var_ptr \<Rightarrow> tensor option \<Rightarrow> ops \<Rightarrow> ops run" where
  "backward_acos L = (let F = ml_f L in cell_back True (\<lambda>x g. f_div F g (f_neg F (arc_root F x))) L)"

definition backward_atan :: "mathlib \<Rightarrow> var_ptr \<Rightarrow> tensor option \<Rightarrow> ops \<Rightarrow> ops run" where
  "backward_atan L = (let F = ml_f L in cell_back True (\<lambda>x g. f_div F g (f_add F (f_one F) (f_mul F x x))) L)"

text \<open>Others multiply the incoming gradient with a tensor computed from the operand and changed in place.\<close>

definition factor_grad ::
  "f32 fops \<Rightarrow> (tensor option \<Rightarrow> heap \<Rightarrow> (tensor option \<times> heap) run) \<Rightarrow> (f32 \<Rightarrow> f32) \<Rightarrow> tensor option \<Rightarrow> var_ptr \<Rightarrow> ops \<Rightarrow> ops run"
where
  "factor_grad F op f go a s =
     bind_run (get_ptr a s) (\<lambda>(v, x).
     if \<not> wants_grad x then Inr s
     else bind_run (with_heap (op (v_data x)) s) (\<lambda>(t, s).
       bind_run (case t of None \<Rightarrow> Inr s | Some t \<Rightarrow> on_heap (update_cells f t (t_size t)) s) (\<lambda>s.
       bind_run (with_heap (SNEPPX_tensor_mul F t go) s) (\<lambda>(ga, s).
       bind_run (grad_accum F v ga s) (drop_tensors [t])))))"

definition backward_exp :: "mathlib \<Rightarrow> var_ptr \<Rightarrow> tensor option \<Rightarrow> ops \<Rightarrow> ops run" where
  "backward_exp L a go = factor_grad (ml_f L) (SNEPPX_tensor_exp (ml_f L)) id go a"

definition backward_abs :: "mathlib \<Rightarrow> var_ptr \<Rightarrow> tensor option \<Rightarrow> ops \<Rightarrow> ops run" where
  "backward_abs L a go = factor_grad (ml_f L) (SNEPPX_tensor_sign (ml_f L)) id go a"

definition backward_sin :: "mathlib \<Rightarrow> var_ptr \<Rightarrow> tensor option \<Rightarrow> ops \<Rightarrow> ops run" where
  "backward_sin L a go = factor_grad (ml_f L) (SNEPPX_tensor_cos (ml_f L)) id go a"

definition backward_cos :: "mathlib \<Rightarrow> var_ptr \<Rightarrow> tensor option \<Rightarrow> ops \<Rightarrow> ops run" where
  "backward_cos L a go = factor_grad (ml_f L) (SNEPPX_tensor_sin (ml_f L)) (f_neg (ml_f L)) go a"

definition backward_tan :: "mathlib \<Rightarrow> var_ptr \<Rightarrow> tensor option \<Rightarrow> ops \<Rightarrow> ops run" where
  "backward_tan L a go = (let F = ml_f L in factor_grad F (SNEPPX_tensor_cos F)
     (\<lambda>x. f_div F (f_one F) (f_add F (f_mul F x x) (f_lit F 1 (- 12)))) go a)"

definition backward_sinh :: "mathlib \<Rightarrow> var_ptr \<Rightarrow> tensor option \<Rightarrow> ops \<Rightarrow> ops run" where
  "backward_sinh L a go = factor_grad (ml_f L) (unary_op_f32 (ml_cosh L)) id go a"

definition backward_cosh :: "mathlib \<Rightarrow> var_ptr \<Rightarrow> tensor option \<Rightarrow> ops \<Rightarrow> ops run" where
  "backward_cosh L a go = factor_grad (ml_f L) (unary_op_f32 (ml_sinh L)) id go a"

text \<open>The gradient of the smaller operand; equal operands get one half each.\<close>

definition select_grad ::
  "f32 fops \<Rightarrow> (f32 \<Rightarrow> f32 \<Rightarrow> bool) \<Rightarrow> tensor option \<Rightarrow> tensor \<Rightarrow> tensor \<Rightarrow> heap \<Rightarrow> (tensor option \<times> heap) run" where
  "select_grad F loses go da db h =
     bind_run (SNEPPX_tensor_copy go h) (\<lambda>(ga, h).
     case ga of
       None \<Rightarrow> Inr (None, h)
     | Some g \<Rightarrow>
         bind_run (fold_run (\<lambda>i h. bind_run (load_f32 h da i) (\<lambda>x. bind_run (load_f32 h db i) (\<lambda>y.
           if loses x y then store_f32 g i (f_zero F) h
           else if f_eq F x y then bind_run (load_f32 h g i) (\<lambda>z. store_f32 g i (f_mul F z (f_lit F 5 (- 1))) h)
           else Inr h))) [0..<t_size g] h) (\<lambda>h. Inr (ga, h)))"

definition select_back ::
  "(f32 \<Rightarrow> f32 \<Rightarrow> bool) \<Rightarrow> (f32 \<Rightarrow> f32 \<Rightarrow> bool) \<Rightarrow> mathlib \<Rightarrow> var_ptr \<Rightarrow> var_ptr \<Rightarrow> tensor option \<Rightarrow> ops \<Rightarrow> ops run" where
  "select_back loses_a loses_b L a b go s =
     bind_run (data_ptr a s) (\<lambda>da. bind_run (deref da) (\<lambda>da.
     bind_run (data_ptr b s) (\<lambda>db. bind_run (deref db) (\<lambda>db.
     bind_run (plain_grad (ml_f L) a (\<lambda>_. with_heap (select_grad (ml_f L) loses_a go da db)) s)
       (plain_grad (ml_f L) b (\<lambda>_. with_heap (select_grad (ml_f L) loses_b go da db)))))))"

definition backward_min :: "mathlib \<Rightarrow> var_ptr \<Rightarrow> var_ptr \<Rightarrow> tensor option \<Rightarrow> ops \<Rightarrow> ops run" where
  "backward_min L = select_back (f_gt (ml_f L)) (f_lt (ml_f L)) L"

definition backward_max :: "mathlib \<Rightarrow> var_ptr \<Rightarrow> var_ptr \<Rightarrow> tensor option \<Rightarrow> ops \<Rightarrow> ops run" where
  "backward_max L = select_back (f_lt (ml_f L)) (f_gt (ml_f L)) L"

end
