(* ===== verification/Autodiff_Layers.thy ===== *)
theory Autodiff_Layers
  imports Autodiff_Back
begin

text \<open>
  The backward functions of \<open>kernel/autodiff/ops.c\<close> that are loops over matrices, windows, rows and channels, and
  \<open>SNEPPX_tensor_rope\<close> of \<open>kernel/attention/attention.c\<close>, which one of them calls. Positions are natural numbers:
  a position behind the buffer is the fault \<open>Out_Of_Bounds\<close>.
\<close>

section \<open>New gradients\<close>

text \<open>A gradient with the shape of \<open>d\<close>, filled by \<open>body\<close> and added to the gradient of \<open>v\<close>; \<open>checked\<close> tells whether the
  code tests the new tensor for \<open>NULL\<close>.\<close>

definition zeros_grad ::
  "bool \<Rightarrow> f32 fops \<Rightarrow> nat \<Rightarrow> tensor \<Rightarrow> (tensor \<Rightarrow> heap \<Rightarrow> heap run) \<Rightarrow> ops \<Rightarrow> ops run" where
  "zeros_grad checked F v d body s =
     bind_run (with_heap (SNEPPX_tensor_zeros (Some (t_shape d)) SNEPPX_FLOAT32) s) (\<lambda>(g, s).
     case g of
       None \<Rightarrow> if checked then Inr s else Inl Null_Deref
     | Some t \<Rightarrow> bind_run (on_heap (body t) s) (grad_accum F v g))"

text \<open>A gradient that leaves temporaries behind, which are destroyed after the accumulation.\<close>

definition temp_grad ::
  "f32 fops \<Rightarrow> var_ptr \<Rightarrow> (tensor option \<Rightarrow> heap \<Rightarrow> ((tensor option \<times> tensor option list) \<times> heap) run) \<Rightarrow> ops \<Rightarrow> ops run" where
  "temp_grad F p mk s =
     bind_run (get_ptr p s) (\<lambda>(v, x).
     if \<not> wants_grad x then Inr s
     else bind_run (with_heap (mk (v_data x)) s) (\<lambda>((g, tmps), s).
          bind_run (grad_accum F v g s) (drop_tensors tmps)))"

text \<open>Give up: destroy what there is.\<close>

definition give_up :: "tensor option list \<Rightarrow> heap \<Rightarrow> ((tensor option \<times> tensor option list) \<times> heap) run" where
  "give_up tmps h = bind_run (fold_run SNEPPX_tensor_destroy tmps h) (\<lambda>h. Inr ((None, []), h))"

text \<open>\<open>g[p] += x[q] * v\<close>\<close>

definition add_scaled :: "f32 fops \<Rightarrow> tensor \<Rightarrow> nat \<Rightarrow> tensor \<Rightarrow> nat \<Rightarrow> f32 \<Rightarrow> heap \<Rightarrow> heap run" where
  "add_scaled F g p x q v h = bind_run (load_f32 h x q) (\<lambda>u. add_to F g p (f_mul F u v) h)"

section \<open>Products and convolutions\<close>

definition matmul_grad_a :: "f32 fops \<Rightarrow> nat \<Rightarrow> nat \<Rightarrow> nat \<Rightarrow> tensor \<Rightarrow> tensor \<Rightarrow> tensor \<Rightarrow> heap \<Rightarrow> heap run" where
  "matmul_grad_a F m n k go b g =
     fold_run (\<lambda>i. fold_run (\<lambda>j. fold_run (\<lambda>l h. bind_run (load_f32 h b (j * n + l)) (\<lambda>w.
       add_scaled F g (i * k + j) go (i * n + l) w h)) [0..<n]) [0..<k]) [0..<m]"

definition matmul_grad_b :: "f32 fops \<Rightarrow> nat \<Rightarrow> nat \<Rightarrow> nat \<Rightarrow> tensor \<Rightarrow> tensor \<Rightarrow> tensor \<Rightarrow> heap \<Rightarrow> heap run" where
  "matmul_grad_b F m n k go a g =
     fold_run (\<lambda>i. fold_run (\<lambda>j. fold_run (\<lambda>l h. bind_run (load_f32 h go (i * n + l)) (\<lambda>w.
       add_scaled F g (j * n + l) a (i * k + j) w h)) [0..<n]) [0..<k]) [0..<m]"

definition backward_matmul :: "mathlib \<Rightarrow> var_ptr \<Rightarrow> var_ptr \<Rightarrow> tensor option \<Rightarrow> ops \<Rightarrow> ops run" where
  "backward_matmul L a b go s =
     bind_run (deref go) (\<lambda>go. bind_run (dim_of go 0) (\<lambda>m. bind_run (dim_of go 1) (\<lambda>n.
     bind_run (data_ptr b s) (\<lambda>db. bind_run (deref db) (\<lambda>db. bind_run (dim_of db 0) (\<lambda>k.
     bind_run (get_ptr a s) (\<lambda>(va, xa). bind_run (get_ptr b s) (\<lambda>(vb, _).
     bind_run (if wants_grad xa then bind_run (deref (v_data xa)) (\<lambda>da.
         zeros_grad False (ml_f L) va da (matmul_grad_a (ml_f L) m n k go db) s) else Inr s) (\<lambda>s.
     bind_run (get_var vb s) (\<lambda>xb.
     if wants_grad xb then bind_run (deref (v_data xa)) (\<lambda>da.
         zeros_grad False (ml_f L) vb db (matmul_grad_b (ml_f L) m n k go da) s) else Inr s))))))))))"

definition backward_mse_loss :: "mathlib \<Rightarrow> var_ptr \<Rightarrow> var_ptr \<Rightarrow> tensor option \<Rightarrow> ops \<Rightarrow> ops run" where
  "backward_mse_loss L pred target go s =
     (let F = ml_f L in
      plain_grad F pred (\<lambda>dp s.
        bind_run (data_ptr target s) (\<lambda>dt.
        bind_run (with_heap (SNEPPX_tensor_sub F dp dt) s) (\<lambda>(diff, s).
        bind_run (deref diff) (\<lambda>d. bind_run (deref go) (\<lambda>go.
        let scale = f_div F (f_lit F 2 0) (f_of_size F (t_size d)) in
        bind_run (on_heap (fold_run (\<lambda>i h.
          if t_size go = 0 then Inl Zero_Divide
          else bind_run (load_f32 h d i) (\<lambda>x. bind_run (load_f32 h go (i mod t_size go)) (\<lambda>y.
            store_f32 d i (f_mul F x (f_mul F scale y)) h))) [0..<t_size d]) s) (\<lambda>s. Inr (diff, s))))))) s)"

text \<open>The loops of the convolutions visit the pairs of a position in the input and a position in the kernel; \<open>pick\<close>
  tells which of the two is written.\<close>

definition conv1d_grad ::
  "f32 fops \<Rightarrow> (nat \<times> nat \<Rightarrow> nat \<times> nat) \<Rightarrow> tensor \<Rightarrow> nat list \<Rightarrow> nat list \<Rightarrow> nat \<Rightarrow> nat \<Rightarrow> tensor \<Rightarrow> tensor \<Rightarrow> heap \<Rightarrow> heap run" where
  "conv1d_grad F pick go ishape kshape stride padding x g =
     (let N = ishape ! 0; C = ishape ! 1; L = ishape ! 2; K = kshape ! 0; KH = kshape ! 2;
          OH = conv_extent L KH stride padding in
      fold_run (\<lambda>n. fold_run (\<lambda>k. fold_run (\<lambda>oh h.
        bind_run (load_f32 h go (n * K * OH + k * OH + oh)) (\<lambda>grad_val.
        fold_run (\<lambda>kh h.
          let ih = size_sub (sz_add (sz_mul oh stride) kh) padding in
          if ih < L then fold_run (\<lambda>cc.
            let (p, q) = pick (n * C * L + cc * L + ih, k * C * KH + cc * KH + kh) in
            add_scaled F g p x q grad_val) [0..<C] h
          else Inr h) [0..<KH] h)) [0..<OH]) [0..<K]) [0..<N])"

definition backward_conv1d :: "mathlib \<Rightarrow> var_ptr \<Rightarrow> var_ptr \<Rightarrow> nat \<Rightarrow> nat \<Rightarrow> tensor option \<Rightarrow> ops \<Rightarrow> ops run" where
  "backward_conv1d L input kern stride padding go s =
     bind_run (deref go) (\<lambda>go.
     bind_run (get_ptr input s) (\<lambda>(vi, xi). bind_run (deref (v_data xi)) (\<lambda>di.
     bind_run (get_ptr kern s) (\<lambda>(vk, _). bind_run (data_ptr kern s) (\<lambda>dk. bind_run (deref dk) (\<lambda>dk.
     if t_ndim di < 3 \<or> t_ndim dk < 3 then Inl Out_Of_Bounds
     else if stride = 0 then Inl Zero_Divide
     else bind_run (if wants_grad xi
         then zeros_grad False (ml_f L) vi di (conv1d_grad (ml_f L) id go (t_shape di) (t_shape dk) stride padding dk) s
         else Inr s) (\<lambda>s.
       bind_run (get_var vk s) (\<lambda>xk.
       if wants_grad xk
       then zeros_grad False (ml_f L) vk dk (conv1d_grad (ml_f L) prod.swap go (t_shape di) (t_shape dk) stride padding di) s
       else Inr s))))))))"

definition conv2d_grad ::
  "f32 fops \<Rightarrow> (nat \<times> nat \<Rightarrow> nat \<times> nat) \<Rightarrow> tensor \<Rightarrow> nat list \<Rightarrow> nat list \<Rightarrow> nat \<Rightarrow> nat \<Rightarrow> nat \<Rightarrow> nat \<Rightarrow> tensor \<Rightarrow> tensor \<Rightarrow> heap \<Rightarrow> heap run"
where
  "conv2d_grad F pick go ishape kshape stride_h stride_w pad_h pad_w x g =
     (let N = ishape ! 0; C = ishape ! 1; H = ishape ! 2; W = ishape ! 3;
          K = kshape ! 0; KH = kshape ! 2; KW = kshape ! 3;
          OH = conv_extent H KH stride_h pad_h; OW = conv_extent W KW stride_w pad_w in
      fold_run (\<lambda>n. fold_run (\<lambda>k. fold_run (\<lambda>oh. fold_run (\<lambda>ow h.
        bind_run (load_f32 h go (n * K * OH * OW + k * OH * OW + oh * OW + ow)) (\<lambda>grad_val.
        fold_run (\<lambda>kh h.
          let ih = size_sub (sz_add (sz_mul oh stride_h) kh) pad_h in
          if ih \<ge> H then Inr h
          else fold_run (\<lambda>kw h.
            let iw = size_sub (sz_add (sz_mul ow stride_w) kw) pad_w in
            if iw \<ge> W then Inr h
            else fold_run (\<lambda>cc.
              let (p, q) = pick (n * C * H * W + cc * H * W + ih * W + iw, k * C * KH * KW + cc * KH * KW + kh * KW + kw) in
              add_scaled F g p x q grad_val) [0..<C] h) [0..<KW] h) [0..<KH] h)) [0..<OW]) [0..<OH]) [0..<K]) [0..<N])"

definition backward_conv2d ::
  "mathlib \<Rightarrow> var_ptr \<Rightarrow> var_ptr \<Rightarrow> nat \<Rightarrow> nat \<Rightarrow> nat \<Rightarrow> nat \<Rightarrow> tensor option \<Rightarrow> ops \<Rightarrow> ops run" where
  "backward_conv2d L input kern stride_h stride_w pad_h pad_w go s =
     bind_run (deref go) (\<lambda>go.
     bind_run (get_ptr input s) (\<lambda>(vi, xi). bind_run (deref (v_data xi)) (\<lambda>di.
     bind_run (get_ptr kern s) (\<lambda>(vk, _). bind_run (data_ptr kern s) (\<lambda>dk. bind_run (deref dk) (\<lambda>dk.
     if t_ndim di < 4 \<or> t_ndim dk < 4 then Inl Out_Of_Bounds
     else if stride_h = 0 \<or> stride_w = 0 then Inl Zero_Divide
     else bind_run (if wants_grad xi
         then zeros_grad False (ml_f L) vi di
                (conv2d_grad (ml_f L) id go (t_shape di) (t_shape dk) stride_h stride_w pad_h pad_w dk) s
         else Inr s) (\<lambda>s.
       bind_run (get_var vk s) (\<lambda>xk.
       if wants_grad xk
       then zeros_grad False (ml_f L) vk dk
              (conv2d_grad (ml_f L) prod.swap go (t_shape di) (t_shape dk) stride_h stride_w pad_h pad_w di) s
       else Inr s))))))))"

section \<open>Reductions along a dimension\<close>

text \<open>\<open>if (!a->requires_grad) return;\<close> then the extent of the dimension and a new gradient; \<open>body\<close> gets the operand, the
  number of outer blocks, the extent and the size of an inner block.\<close>

definition dim_back ::
  "f32 fops \<Rightarrow> var_ptr \<Rightarrow> nat \<Rightarrow> tensor option \<Rightarrow> (tensor \<Rightarrow> tensor \<Rightarrow> nat \<Rightarrow> nat \<Rightarrow> nat \<Rightarrow> tensor \<Rightarrow> heap \<Rightarrow> heap run) \<Rightarrow> ops \<Rightarrow> ops run" where
  "dim_back F a dim go body s =
     bind_run (get_ptr a s) (\<lambda>(v, x).
     if \<not> wants_grad x then Inr s
     else bind_run (deref go) (\<lambda>go. bind_run (deref (v_data x)) (\<lambda>d. bind_run (dim_of d dim) (\<lambda>dim_size.
       zeros_grad False F v d (body go d (outer_size d dim) dim_size (inner_size d dim)) s))))"

definition backward_cumsum :: "mathlib \<Rightarrow> var_ptr \<Rightarrow> nat \<Rightarrow> tensor option \<Rightarrow> ops \<Rightarrow> ops run" where
  "backward_cumsum L a dim go =
     dim_back (ml_f L) a dim go (\<lambda>go _ outer dim_size inner g.
       fold_run (\<lambda>ob. fold_run (\<lambda>i h.
         bind_run (fold_run (\<lambda>d (cum, h).
           let idx = ob * dim_size * inner + d * inner + i in
           bind_run (load_f32 h go idx) (\<lambda>y. let cum = f_add (ml_f L) cum y in
           bind_run (store_f32 g idx cum h) (\<lambda>h. Inr (cum, h)))) (rev [0..<dim_size]) (f_zero (ml_f L), h)) (\<lambda>(_, h). Inr h))
         [0..<inner]) [0..<outer])"

definition backward_cumprod :: "mathlib \<Rightarrow> var_ptr \<Rightarrow> nat \<Rightarrow> tensor option \<Rightarrow> ops \<Rightarrow> ops run" where
  "backward_cumprod L a dim go =
     (let F = ml_f L in
      dim_back F a dim go (\<lambda>go x outer dim_size inner g.
        fold_run (\<lambda>ob. fold_run (\<lambda>i h.
          bind_run (fold_run (\<lambda>d (cumprod, h).
            let idx = ob * dim_size * inner + d * inner + i in
            bind_run (load_f32 h x idx) (\<lambda>u. let cumprod = f_mul F cumprod u in
            bind_run (load_f32 h go idx) (\<lambda>y.
            bind_run (store_f32 g idx (f_mul F y (f_div F cumprod (f_add F u (f_lit F 1 (- 12))))) h) (\<lambda>h.
            Inr (cumprod, h))))) (rev [0..<dim_size]) (f_one F, h)) (\<lambda>(_, h). Inr h))
          [0..<inner]) [0..<outer]))"

definition backward_sum :: "mathlib \<Rightarrow> var_ptr \<Rightarrow> nat \<Rightarrow> tensor option \<Rightarrow> ops \<Rightarrow> ops run" where
  "backward_sum L a dim go =
     dim_back (ml_f L) a dim go (\<lambda>go _ outer dim_size inner g.
       fold_run (\<lambda>ob. fold_run (\<lambda>d. fold_run (\<lambda>i h.
         bind_run (load_f32 h go (ob * inner + i)) (\<lambda>y.
         store_f32 g (ob * dim_size * inner + d * inner + i) y h)) [0..<inner]) [0..<dim_size]) [0..<outer])"

text \<open>The shape given to \<open>SNEPPX_tensor_expand\<close>: the extent of the reduced dimension, and 1 for every other one.\<close>

definition expand_shape :: "tensor \<Rightarrow> nat \<Rightarrow> nat list" where
  "expand_shape d dim = map (\<lambda>i. if i = dim then t_shape d ! dim else 1) [0..<t_ndim d]"

definition expand_reduced :: "tensor option \<Rightarrow> tensor \<Rightarrow> nat \<Rightarrow> heap \<Rightarrow> (tensor option \<times> heap) run" where
  "expand_reduced t d dim h =
     (let (ok, h) = aligned_alloc_wrapper h in
      if \<not> ok then Inr (None, h)
      else bind_run (SNEPPX_tensor_expand t (expand_shape d dim) h) (\<lambda>(e, h). Inr (e, free_block True h)))"

definition mean_grad ::
  "f32 fops \<Rightarrow> nat \<Rightarrow> tensor option \<Rightarrow> tensor option \<Rightarrow> heap \<Rightarrow> ((tensor option \<times> tensor option list) \<times> heap) run" where
  "mean_grad F dim grad_output da h =
     bind_run (deref da) (\<lambda>d. bind_run (dim_of d dim) (\<lambda>dim_size.
     bind_run (SNEPPX_tensor_copy grad_output h) (\<lambda>(go, h).
     bind_run (deref go) (\<lambda>g.
     bind_run (update_cells (\<lambda>x. f_mul F x (f_div F (f_one F) (f_of_size F dim_size))) g (t_size g) h) (\<lambda>h.
     bind_run (expand_reduced go d dim h) (\<lambda>(expanded, h). Inr ((expanded, [go]), h)))))))"

definition backward_mean :: "mathlib \<Rightarrow> var_ptr \<Rightarrow> nat \<Rightarrow> tensor option \<Rightarrow> ops \<Rightarrow> ops run" where
  "backward_mean L a dim go = temp_grad (ml_f L) a (mean_grad (ml_f L) dim go)"

definition softmax_grad ::
  "f32 fops \<Rightarrow> nat \<Rightarrow> tensor option \<Rightarrow> tensor option \<Rightarrow> heap \<Rightarrow> ((tensor option \<times> tensor option list) \<times> heap) run" where
  "softmax_grad F dim go da h =
     bind_run (SNEPPX_tensor_softmax F da dim h) (\<lambda>(sm, h).
     bind_run (SNEPPX_tensor_mul F sm go h) (\<lambda>(s_grad, h).
     bind_run (SNEPPX_tensor_sum F s_grad dim h) (\<lambda>(sum_s_grad, h).
     bind_run (deref da) (\<lambda>d.
     bind_run (expand_reduced sum_s_grad d dim h) (\<lambda>(expanded, h).
     if expanded = None then give_up [sm, s_grad, sum_s_grad] h
     else bind_run (SNEPPX_tensor_sub F go expanded h) (\<lambda>(sub, h).
          bind_run (SNEPPX_tensor_mul F sm sub h) (\<lambda>(ga, h).
          Inr ((ga, [sm, s_grad, sum_s_grad, expanded, sub]), h))))))))"

definition backward_softmax :: "mathlib \<Rightarrow> var_ptr \<Rightarrow> nat \<Rightarrow> tensor option \<Rightarrow> ops \<Rightarrow> ops run" where
  "backward_softmax L a dim go = temp_grad (ml_f L) a (softmax_grad (ml_f L) dim go)"

definition log_softmax_grad ::
  "f32 fops \<Rightarrow> nat \<Rightarrow> tensor option \<Rightarrow> tensor option \<Rightarrow> heap \<Rightarrow> ((tensor option \<times> tensor option list) \<times> heap) run" where
  "log_softmax_grad F dim go da h =
     bind_run (SNEPPX_tensor_softmax F da dim h) (\<lambda>(sm, h).
     if sm = None then give_up [] h
     else bind_run (SNEPPX_tensor_sum F go dim h) (\<lambda>(sum_go, h).
     if sum_go = None then give_up [sm] h
     else bind_run (deref da) (\<lambda>d.
     bind_run (expand_reduced sum_go d dim h) (\<lambda>(expanded, h).
     if expanded = None then give_up [sm, sum_go] h
     else bind_run (SNEPPX_tensor_mul F sm expanded h) (\<lambda>(trm, h).
     if trm = None then give_up [sm, sum_go, expanded] h
     else bind_run (SNEPPX_tensor_sub F go trm h) (\<lambda>(ga, h).
       Inr ((ga, [sm, sum_go, expanded, trm]), h)))))))"

definition backward_log_softmax :: "mathlib \<Rightarrow> var_ptr \<Rightarrow> nat \<Rightarrow> tensor option \<Rightarrow> ops \<Rightarrow> ops run" where
  "backward_log_softmax L a dim go = temp_grad (ml_f L) a (log_softmax_grad (ml_f L) dim go)"

text \<open>\<open>1.0f / (float)(N > 1 ? N - 1 : 1)\<close>, and the operand minus its mean.\<close>

definition inv_n1 :: "f32 fops \<Rightarrow> nat \<Rightarrow> f32" where
  "inv_n1 F N = f_div F (f_one F) (f_of_size F (if N > 1 then N - 1 else 1))"

definition centered :: "f32 fops \<Rightarrow> nat \<Rightarrow> tensor option \<Rightarrow> heap \<Rightarrow> (tensor option \<times> heap) run" where
  "centered F dim da h =
     bind_run (SNEPPX_tensor_mean F da dim h) (\<lambda>(mean_t, h).
     if mean_t = None then Inr (None, h)
     else bind_run (SNEPPX_tensor_sub F da mean_t h) (\<lambda>(c, h).
          bind_run (SNEPPX_tensor_destroy mean_t h) (\<lambda>h. Inr (c, h))))"

definition var_grad ::
  "f32 fops \<Rightarrow> nat \<Rightarrow> tensor option \<Rightarrow> tensor option \<Rightarrow> heap \<Rightarrow> ((tensor option \<times> tensor option list) \<times> heap) run" where
  "var_grad F dim go da h =
     bind_run (deref da) (\<lambda>d. bind_run (dim_of d dim) (\<lambda>N.
     bind_run (centered F dim da h) (\<lambda>(c, h).
     if c = None then give_up [] h
     else bind_run (SNEPPX_tensor_mul F c go h) (\<lambda>(ga, h).
       case ga of
         None \<Rightarrow> give_up [c] h
       | Some g \<Rightarrow> bind_run (update_cells (\<lambda>x. f_mul F x (f_mul F (f_lit F 2 0) (inv_n1 F N))) g (t_size g) h) (\<lambda>h.
           Inr ((ga, [c]), h))))))"

definition backward_var :: "mathlib \<Rightarrow> var_ptr \<Rightarrow> nat \<Rightarrow> tensor option \<Rightarrow> ops \<Rightarrow> ops run" where
  "backward_var L a dim go = temp_grad (ml_f L) a (var_grad (ml_f L) dim go)"

definition std_grad ::
  "f32 fops \<Rightarrow> nat \<Rightarrow> tensor option \<Rightarrow> tensor option \<Rightarrow> heap \<Rightarrow> ((tensor option \<times> tensor option list) \<times> heap) run" where
  "std_grad F dim go da h =
     bind_run (deref da) (\<lambda>d. bind_run (dim_of d dim) (\<lambda>N.
     bind_run (centered F dim da h) (\<lambda>(c, h).
     if c = None then give_up [] h
     else bind_run (SNEPPX_tensor_std F da dim h) (\<lambda>(std_t, h).
       case std_t of
         None \<Rightarrow> give_up [c] h
       | Some sd \<Rightarrow>
           bind_run (SNEPPX_tensor_mul F c go h) (\<lambda>(ga, h).
           case ga of
             None \<Rightarrow> give_up [c, std_t] h
           | Some g \<Rightarrow>
               bind_run (fold_run (\<lambda>i h.
                 if t_size sd = 0 then Inl Zero_Divide
                 else bind_run (load_f32 h g i) (\<lambda>x. bind_run (load_f32 h sd (i mod t_size sd)) (\<lambda>y.
                   store_f32 g i (f_mul F x (f_div F (inv_n1 F N) (f_add F y (f_lit F 1 (- 12))))) h))) [0..<t_size g] h) (\<lambda>h.
               Inr ((ga, [c, std_t]), h)))))))"

definition backward_std :: "mathlib \<Rightarrow> var_ptr \<Rightarrow> nat \<Rightarrow> tensor option \<Rightarrow> ops \<Rightarrow> ops run" where
  "backward_std L a dim go = temp_grad (ml_f L) a (std_grad (ml_f L) dim go)"

end
