(* ===== verification/Autodiff_Norms.thy ===== *)
theory Autodiff_Norms
  imports Autodiff_Layers
begin

text \<open>
  The backward functions of \<open>kernel/autodiff/ops.c\<close> for dropout, normalisations, concatenation, embeddings, rotary
  positions and the losses over classes. The normalisations compute in \<open>double\<close>.
\<close>

section \<open>Dropout\<close>

text \<open>The mask is made at the first call and kept in the context.\<close>

definition dropout_mask :: "f32 fops \<Rightarrow> f32 \<Rightarrow> u32 \<Rightarrow> tensor \<Rightarrow> heap \<Rightarrow> heap run" where
  "dropout_mask F rate seed m h =
     (let scale = f_div F (f_one F) (f_sub F (f_one F) rate) in
      bind_run (fold_run (\<lambda>i (r, h).
        let r = lcg_next r in
        bind_run (store_f32 m i (if f_ge F (lcg_sample F r) rate then scale else f_zero F) h) (\<lambda>h. Inr (r, h)))
        [0..<t_size m] (if seed \<noteq> 0 then ucast seed else 123456789, h)) (\<lambda>(_, h). Inr h))"

definition backward_dropout ::
  "mathlib \<Rightarrow> nat \<Rightarrow> var_ptr \<Rightarrow> f32 \<Rightarrow> u32 \<Rightarrow> tensor option \<Rightarrow> tensor option \<Rightarrow> ops \<Rightarrow> ops run" where
  "backward_dropout L self a rate seed msk go s =
     bind_run (get_ptr a s) (\<lambda>(v, x).
     if \<not> wants_grad x then Inr s
     else
       bind_run (case msk of
           Some _ \<Rightarrow> Inr (msk, s)
         | None \<Rightarrow>
             bind_run (deref (v_data x)) (\<lambda>d.
             bind_run (with_heap (\<lambda>h. fill_new [] (SNEPPX_tensor_zeros (Some (t_shape d)) SNEPPX_FLOAT32 h)
                 (dropout_mask (ml_f L) rate seed)) s) (\<lambda>(m, s).
             bind_run (get_var self s) (\<lambda>y.
             Inr (m, put_var self (y\<lparr>v_backward_ctx := Some (DropoutCtx a rate seed m)\<rparr>) s))))) (\<lambda>(m, s).
       if m = None then Inr s
       else bind_run (with_heap (SNEPPX_tensor_mul (ml_f L) m go) s) (\<lambda>(ga, s). grad_accum (ml_f L) v ga s)))"

section \<open>Normalisations\<close>

text \<open>Mean and inverse standard deviation of the cells \<open>ps\<close>; \<open>avg\<close> divides a sum by their number.\<close>

definition row_stats :: "mathlib \<Rightarrow> (u64 \<Rightarrow> u64) \<Rightarrow> f32 \<Rightarrow> tensor \<Rightarrow> nat list \<Rightarrow> heap \<Rightarrow> (u64 \<times> u64) run" where
  "row_stats L avg eps x ps h =
     (let D = ml_d L; w = ml_widen L in
      bind_run (fold_run (\<lambda>p (sum, sum2). bind_run (load_f32 h x p) (\<lambda>v.
        Inr (f_add D sum (w v), f_add D sum2 (f_mul D (w v) (w v))))) ps (f_zero D, f_zero D)) (\<lambda>(sum, sum2).
      let mean = avg sum; var = f_sub D (avg sum2) (f_mul D mean mean) in
      Inr (mean, f_div D (f_lit D 1 0) (f_sqrt D (f_add D var (w eps))))))"

definition x_hat :: "mathlib \<Rightarrow> u64 \<times> u64 \<Rightarrow> f32 \<Rightarrow> u64" where
  "x_hat L st x = f_mul (ml_d L) (f_sub (ml_d L) (ml_widen L x) (fst st)) (snd st)"

text \<open>\<open>gd ? gd[j] : 1.0\<close>\<close>

definition scale_at :: "mathlib \<Rightarrow> tensor option \<Rightarrow> nat \<Rightarrow> heap \<Rightarrow> u64 run" where
  "scale_at L gamma j h =
     (case with_data h gamma of
        None \<Rightarrow> Inr (f_lit (ml_d L) 1 0)
      | Some g \<Rightarrow> bind_run (load_f32 h g j) (\<lambda>v. Inr (ml_widen L v)))"

definition layer_row_grad :: "mathlib \<Rightarrow> f32 \<Rightarrow> tensor option \<Rightarrow> tensor \<Rightarrow> tensor \<Rightarrow> nat \<Rightarrow> tensor \<Rightarrow> nat \<Rightarrow> heap \<Rightarrow> heap run" where
  "layer_row_grad L eps gamma go x d gx i h =
     (let D = ml_d L; w = ml_widen L; dd = f_of_size D d in
      bind_run (row_stats L (\<lambda>s. f_div D s dd) eps x (map (\<lambda>j. i * d + j) [0..<d]) h) (\<lambda>st.
      bind_run (fold_run (\<lambda>j h. bind_run (scale_at L gamma j h) (\<lambda>g. bind_run (load_f32 h go (i * d + j)) (\<lambda>y.
        store_f32 gx (i * d + j) (ml_narrow L (f_mul D g (w y))) h))) [0..<d] h) (\<lambda>h.
      bind_run (fold_run (\<lambda>j (s1, s2). bind_run (load_f32 h gx (i * d + j)) (\<lambda>g. bind_run (load_f32 h x (i * d + j)) (\<lambda>v.
        Inr (f_add D s1 (w g), f_add D s2 (f_mul D (f_mul D (w g) (f_sub D (w v) (fst st))) (snd st))))))
        [0..<d] (f_zero D, f_zero D)) (\<lambda>(s1, s2).
      fold_run (\<lambda>j h. bind_run (load_f32 h x (i * d + j)) (\<lambda>v. bind_run (load_f32 h gx (i * d + j)) (\<lambda>g.
        let grad = f_sub D (f_sub D (w g) (f_div D s1 dd)) (f_div D (f_mul D (x_hat L st v) s2) dd) in
        store_f32 gx (i * d + j) (ml_narrow L (f_mul D grad (snd st))) h))) [0..<d] h))))"

definition layer_gamma_grad :: "mathlib \<Rightarrow> f32 \<Rightarrow> tensor \<Rightarrow> tensor \<Rightarrow> nat \<Rightarrow> tensor \<Rightarrow> nat \<Rightarrow> heap \<Rightarrow> heap run" where
  "layer_gamma_grad L eps go x d gg i h =
     (let D = ml_d L in
      bind_run (row_stats L (\<lambda>s. f_div D s (f_of_size D d)) eps x (map (\<lambda>j. i * d + j) [0..<d]) h) (\<lambda>st.
      fold_run (\<lambda>j h. bind_run (load_f32 h x (i * d + j)) (\<lambda>v. bind_run (load_f32 h go (i * d + j)) (\<lambda>y.
        add_to (ml_f L) gg j (ml_narrow L (f_mul D (x_hat L st v) (ml_widen L y))) h))) [0..<d] h))"

definition layer_beta_grad :: "mathlib \<Rightarrow> tensor \<Rightarrow> nat \<Rightarrow> tensor \<Rightarrow> nat \<Rightarrow> heap \<Rightarrow> heap run" where
  "layer_beta_grad L go d gb i h =
     fold_run (\<lambda>j h. bind_run (load_f32 h go (i * d + j)) (\<lambda>y. add_to (ml_f L) gb j y h)) [0..<d] h"

text \<open>\<open>p && p->requires_grad\<close>, and a gradient for an optional variable with the shape of its data.\<close>

definition opt_wants :: "var_ptr \<Rightarrow> ops \<Rightarrow> bool run" where
  "opt_wants p s = (case p of None \<Rightarrow> Inr False | Some v \<Rightarrow> bind_run (get_var v s) (\<lambda>x. Inr (wants_grad x)))"

definition opt_grad :: "f32 fops \<Rightarrow> var_ptr \<Rightarrow> (tensor \<Rightarrow> heap \<Rightarrow> heap run) \<Rightarrow> ops \<Rightarrow> ops run" where
  "opt_grad F p body s =
     (case p of None \<Rightarrow> Inr s
      | Some v \<Rightarrow> bind_run (get_var v s) (\<lambda>x.
          if \<not> wants_grad x then Inr s
          else bind_run (deref (v_data x)) (\<lambda>d. zeros_grad True F v d body s)))"

text \<open>\<open>p ? p->data : NULL\<close>, where the code follows the pointer to the tensor.\<close>

definition opt_data :: "var_ptr \<Rightarrow> ops \<Rightarrow> tensor option run" where
  "opt_data p s = (case p of None \<Rightarrow> Inr None
     | Some v \<Rightarrow> bind_run (get_var v s) (\<lambda>x. bind_run (deref (v_data x)) (\<lambda>d. Inr (Some d))))"

definition backward_layer_norm ::
  "mathlib \<Rightarrow> var_ptr \<Rightarrow> var_ptr \<Rightarrow> var_ptr \<Rightarrow> f32 \<Rightarrow> tensor option \<Rightarrow> ops \<Rightarrow> ops run" where
  "backward_layer_norm L a gamma beta eps go s =
     bind_run (get_ptr a s) (\<lambda>(v, x).
     bind_run (opt_wants gamma s) (\<lambda>wg. bind_run (opt_wants beta s) (\<lambda>wb.
     if \<not> wants_grad x \<and> \<not> wg \<and> \<not> wb then Inr s
     else bind_run (deref (v_data x)) (\<lambda>da. bind_run (dim_of da (t_ndim da - 1)) (\<lambda>d.
       if d = 0 then Inl Zero_Divide
       else bind_run (opt_data gamma s) (\<lambda>dg. bind_run (deref go) (\<lambda>go.
         let n = t_size da div d in
         bind_run (opt_grad (ml_f L) a (\<lambda>gx. fold_run (layer_row_grad L eps dg go da d gx) [0..<n]) s) (\<lambda>s.
         bind_run (opt_grad (ml_f L) gamma (\<lambda>gg. fold_run (layer_gamma_grad L eps go da d gg) [0..<n]) s) (\<lambda>s.
         opt_grad (ml_f L) beta (\<lambda>gb. fold_run (layer_beta_grad L go d gb) [0..<n]) s))))))))) "

text \<open>Batch normalisation: the cells \<open>ch * per_chn + i\<close> are taken for those of channel \<open>ch\<close>.\<close>

definition channel_grad ::
  "mathlib \<Rightarrow> f32 \<Rightarrow> tensor option \<Rightarrow> tensor \<Rightarrow> tensor \<Rightarrow> f32 \<Rightarrow> nat \<Rightarrow> tensor \<Rightarrow> nat \<Rightarrow> heap \<Rightarrow> heap run" where
  "channel_grad L eps gamma go x inv_N per_chn gx ch h =
     (let D = ml_d L; w = ml_widen L; ps = map (\<lambda>i. ch * per_chn + i) [0..<per_chn] in
      bind_run (row_stats L (\<lambda>s. f_mul D s (w inv_N)) eps x ps h) (\<lambda>st.
      bind_run (scale_at L gamma ch h) (\<lambda>gamma_val.
      bind_run (fold_run (\<lambda>p (gsum, gxsum). bind_run (load_f32 h x p) (\<lambda>v. bind_run (load_f32 h go p) (\<lambda>y.
        Inr (f_add D gsum (f_mul D (w y) gamma_val),
             f_add D gxsum (f_mul D (f_mul D (w y) gamma_val) (x_hat L st v)))))) ps (f_zero D, f_zero D)) (\<lambda>(gsum, gxsum).
      fold_run (\<lambda>p h. bind_run (load_f32 h x p) (\<lambda>v. bind_run (load_f32 h go p) (\<lambda>y.
        store_f32 gx p (ml_narrow L (f_mul D (f_mul D gamma_val (snd st))
          (f_sub D (f_sub D (w y) (f_mul D gsum (w inv_N))) (f_mul D (x_hat L st v) (f_mul D gxsum (w inv_N)))))) h))) ps h))))"

definition channel_gamma_grad ::
  "mathlib \<Rightarrow> f32 \<Rightarrow> tensor \<Rightarrow> tensor \<Rightarrow> f32 \<Rightarrow> nat \<Rightarrow> tensor \<Rightarrow> nat \<Rightarrow> heap \<Rightarrow> heap run" where
  "channel_gamma_grad L eps go x inv_N per_chn gg ch h =
     (let D = ml_d L; ps = map (\<lambda>i. ch * per_chn + i) [0..<per_chn] in
      bind_run (row_stats L (\<lambda>s. f_mul D s (ml_widen L inv_N)) eps x ps h) (\<lambda>st.
      bind_run (fold_run (\<lambda>p accum. bind_run (load_f32 h x p) (\<lambda>v. bind_run (load_f32 h go p) (\<lambda>y.
        Inr (f_add D accum (f_mul D (ml_widen L y) (x_hat L st v)))))) ps (f_zero D)) (\<lambda>accum.
      store_f32 gg ch (ml_narrow L accum) h)))"

definition channel_beta_grad :: "mathlib \<Rightarrow> tensor \<Rightarrow> nat \<Rightarrow> tensor \<Rightarrow> nat \<Rightarrow> heap \<Rightarrow> heap run" where
  "channel_beta_grad L go per_chn gb ch h =
     bind_run (fold_run (\<lambda>i accum. bind_run (load_f32 h go (ch * per_chn + i)) (\<lambda>y.
       Inr (f_add (ml_d L) accum (ml_widen L y)))) [0..<per_chn] (f_zero (ml_d L))) (\<lambda>accum.
     store_f32 gb ch (ml_narrow L accum) h)"

definition backward_batch_norm ::
  "mathlib \<Rightarrow> var_ptr \<Rightarrow> var_ptr \<Rightarrow> var_ptr \<Rightarrow> f32 \<Rightarrow> tensor option \<Rightarrow> ops \<Rightarrow> ops run" where
  "backward_batch_norm L a gamma beta eps go s =
     bind_run (get_ptr a s) (\<lambda>(v, x).
     bind_run (opt_wants gamma s) (\<lambda>wg. bind_run (opt_wants beta s) (\<lambda>wb.
     if \<not> wants_grad x \<and> \<not> wg \<and> \<not> wb then Inr s
     else bind_run (deref (v_data x)) (\<lambda>da. bind_run (deref go) (\<lambda>go. bind_run (opt_data gamma s) (\<lambda>dg.
       bind_run (dim_of da 0) (\<lambda>N. bind_run (dim_of da 1) (\<lambda>C.
       let H = (if t_ndim da > 2 then t_shape da ! 2 else 1); W = (if t_ndim da > 3 then t_shape da ! 3 else 1);
           per_chn = sz_mul N (sz_mul H W);
           inv_N = f_div (ml_f L) (f_one (ml_f L)) (f_of_size (ml_f L) per_chn) in
       bind_run (opt_grad (ml_f L) a (\<lambda>gx. fold_run (channel_grad L eps dg go da inv_N per_chn gx) [0..<C]) s) (\<lambda>s.
       bind_run (opt_grad (ml_f L) gamma (\<lambda>gg. fold_run (channel_gamma_grad L eps go da inv_N per_chn gg) [0..<C]) s) (\<lambda>s.
       opt_grad (ml_f L) beta (\<lambda>gb. fold_run (channel_beta_grad L go per_chn gb) [0..<C]) s))))))))))"

section \<open>Concatenation\<close>

text \<open>The loop stops at a \<open>NULL\<close> operand. Its extent is taken from the context, or from its data when the context has no
  sizes.\<close>

fun concat_back :: "f32 fops \<Rightarrow> tensor option \<Rightarrow> nat \<Rightarrow> nat list option \<Rightarrow> var_ptr list \<Rightarrow> nat list \<Rightarrow> nat \<Rightarrow> ops \<Rightarrow> ops run" where
  "concat_back F go dim sizes vars [] offset s = Inr s"
| "concat_back F go dim sizes vars (i # is) offset s =
     bind_run (load_cell vars i) (\<lambda>p.
     case p of None \<Rightarrow> Inr s
     | Some v \<Rightarrow>
         bind_run (get_var v s) (\<lambda>x.
         bind_run (case sizes of Some sz \<Rightarrow> load_cell sz i
                   | None \<Rightarrow> bind_run (deref (v_data x)) (\<lambda>d. dim_of d dim)) (\<lambda>sz.
         bind_run (if \<not> wants_grad x then Inr s
                   else bind_run (with_heap (SNEPPX_tensor_narrow go dim offset sz) s) (\<lambda>(g, s). grad_accum F v g s)) (\<lambda>s.
         concat_back F go dim sizes vars is (sz_add offset sz) s))))"

definition backward_concat ::
  "mathlib \<Rightarrow> var_ptr list option \<Rightarrow> nat \<Rightarrow> nat \<Rightarrow> nat list option \<Rightarrow> tensor option \<Rightarrow> ops \<Rightarrow> ops run" where
  "backward_concat L vars n dim sizes go s =
     (if n = 0 then Inr s
      else bind_run (deref vars) (\<lambda>vars. concat_back (ml_f L) go dim sizes vars [0..<n] 0 s))"

section \<open>Embeddings and losses over classes\<close>

text \<open>\<open>cl >= 0 && (size_t)cl < n\<close> for an \<open>int\<close>.\<close>

definition class_of :: "u32 \<Rightarrow> nat \<Rightarrow> nat option" where
  "class_of w n = (if 0 \<le> sint w \<and> nat (sint w) < n then Some (nat (sint w)) else None)"

definition backward_embedding :: "mathlib \<Rightarrow> var_ptr \<Rightarrow> var_ptr \<Rightarrow> tensor option \<Rightarrow> ops \<Rightarrow> ops run" where
  "backward_embedding L weight indices go s =
     bind_run (get_ptr weight s) (\<lambda>(v, x).
     if \<not> wants_grad x then Inr s
     else bind_run (data_ptr indices s) (\<lambda>ix. bind_run (deref ix) (\<lambda>ix. bind_run (deref (v_data x)) (\<lambda>w.
       bind_run (dim_of w 1) (\<lambda>embed_dim. bind_run (deref go) (\<lambda>go. bind_run (dim_of w 0) (\<lambda>vocab_size.
       zeros_grad True (ml_f L) v w (\<lambda>gw. fold_run (\<lambda>i h.
         bind_run (load_index h ix i) (\<lambda>k.
         case class_of k vocab_size of None \<Rightarrow> Inr h
         | Some k \<Rightarrow> fold_run (\<lambda>j h. bind_run (load_f32 h go (i * embed_dim + j)) (\<lambda>y.
             add_to (ml_f L) gw (k * embed_dim + j) y h)) [0..<embed_dim] h)) [0..<t_size ix]) s)))))))"

definition backward_cross_entropy :: "mathlib \<Rightarrow> var_ptr \<Rightarrow> var_ptr \<Rightarrow> tensor option \<Rightarrow> ops \<Rightarrow> ops run" where
  "backward_cross_entropy L pred target go s =
     (let F = ml_f L in
      plain_grad F pred (\<lambda>dp s.
        bind_run (deref dp) (\<lambda>d. bind_run (dim_of d 0) (\<lambda>N. bind_run (dim_of d 1) (\<lambda>C.
        bind_run (with_heap (SNEPPX_tensor_softmax F dp 1) s) (\<lambda>(sm, s).
        case sm of None \<Rightarrow> Inr (None, s)
        | Some t \<Rightarrow>
            bind_run (deref go) (\<lambda>go. bind_run (load_f32 (a_heap s) go 0) (\<lambda>y.
            let scale = f_mul F y (f_div F (f_one F) (f_of_size F N)) in
            bind_run (data_ptr target s) (\<lambda>dt. bind_run (deref dt) (\<lambda>dt.
            bind_run (on_heap (update_cells (\<lambda>x. f_mul F x scale) t (sz_mul N C)) s) (\<lambda>s.
            bind_run (on_heap (fold_run (\<lambda>i h. bind_run (load_index h dt i) (\<lambda>k.
              case class_of k C of None \<Rightarrow> Inr h
              | Some k \<Rightarrow> bind_run (load_f32 h t (i * C + k)) (\<lambda>x. store_f32 t (i * C + k) (f_sub F x scale) h))) [0..<N]) s) (\<lambda>s.
            Inr (sm, s)))))))))))) s)"

definition backward_nll_loss :: "mathlib \<Rightarrow> var_ptr \<Rightarrow> var_ptr \<Rightarrow> tensor option \<Rightarrow> ops \<Rightarrow> ops run" where
  "backward_nll_loss L pred target go s =
     (let F = ml_f L in
      bind_run (get_ptr pred s) (\<lambda>(v, x).
      if \<not> wants_grad x then Inr s
      else bind_run (deref (v_data x)) (\<lambda>d. bind_run (dim_of d 0) (\<lambda>N. bind_run (dim_of d 1) (\<lambda>C.
        let inv_N = f_div F (f_lit F (- 1) 0) (f_of_size F N) in
        bind_run (case go of None \<Rightarrow> Inr inv_N
          | Some g \<Rightarrow> bind_run (load_f32 (a_heap s) g 0) (\<lambda>y. Inr (f_mul F y inv_N))) (\<lambda>scale.
        bind_run (data_ptr target s) (\<lambda>dt. bind_run (deref dt) (\<lambda>dt.
        zeros_grad True F v d (\<lambda>g. fold_run (\<lambda>i h. bind_run (load_index h dt i) (\<lambda>k.
          case class_of k C of None \<Rightarrow> Inr h | Some k \<Rightarrow> store_f32 g (i * C + k) scale h)) [0..<N]) s))))))))"

definition backward_bce_loss :: "mathlib \<Rightarrow> var_ptr \<Rightarrow> var_ptr \<Rightarrow> tensor option \<Rightarrow> ops \<Rightarrow> ops run" where
  "backward_bce_loss L pred target go s =
     (let F = ml_f L in
      bind_run (get_ptr pred s) (\<lambda>(v, x).
      if \<not> wants_grad x then Inr s
      else bind_run (deref (v_data x)) (\<lambda>d.
        bind_run (data_ptr target s) (\<lambda>dt. bind_run (deref dt) (\<lambda>dt.
        let n = f_of_size F (t_size d) in
        bind_run (case go of None \<Rightarrow> Inr (f_div F (f_one F) n)
          | Some g \<Rightarrow> bind_run (load_f32 (a_heap s) g 0) (\<lambda>y. Inr (f_div F y n))) (\<lambda>scale.
        zeros_grad True F v d (\<lambda>g. fold_run (\<lambda>i h. bind_run (load_f32 h d i) (\<lambda>p. bind_run (load_f32 h dt i) (\<lambda>t.
          store_f32 g i (f_mul F scale (f_sub F p t)) h))) [0..<t_size g]) s))))))"

section \<open>Rotary positions\<close>

definition rope_cell :: "f32 fops \<Rightarrow> nat \<Rightarrow> nat \<Rightarrow> tensor \<Rightarrow> tensor \<Rightarrow> tensor \<Rightarrow> nat \<Rightarrow> heap \<Rightarrow> heap run" where
  "rope_cell F d cd_last x table out i h =
     (let half = d div 2 in
      if half = 0 then Inl Zero_Divide
      else let pos = i div d; j = i mod d; pair = j mod half; base = pos * d;
               partner = (if j < half then base + j + half else base + j - half) in
        bind_run (load_f32 h table (pos * cd_last + pair)) (\<lambda>cos_val.
        bind_run (load_f32 h table (pos * cd_last + half + pair)) (\<lambda>sin_val.
        bind_run (load_f32 h x i) (\<lambda>x_i. bind_run (load_f32 h x partner) (\<lambda>x_p.
        store_f32 out i (if j < half then f_sub F (f_mul F x_i cos_val) (f_mul F x_p sin_val)
                         else f_add F (f_mul F x_p sin_val) (f_mul F x_i cos_val)) h)))))"

definition SNEPPX_tensor_rope :: "f32 fops \<Rightarrow> tensor option \<Rightarrow> tensor option \<Rightarrow> heap \<Rightarrow> (tensor option \<times> heap) run" where
  "SNEPPX_tensor_rope F x cos_table h =
     (case (x, cos_table) of
        (Some t, Some c) \<Rightarrow>
          bind_run (dim_of t (t_ndim t - 1)) (\<lambda>d.
          fill_new [] (SNEPPX_tensor_copy x h) (\<lambda>out h.
            bind_run (dim_of c (t_ndim c - 1)) (\<lambda>cd_last.
            fold_run (rope_cell F d cd_last t c out) [0..<t_size t] h)))
      | _ \<Rightarrow> Inr (None, h))"

text \<open>The table for the inverse rotation: every cell with an odd index changes its sign.\<close>

definition rope_grad ::
  "f32 fops \<Rightarrow> tensor option \<Rightarrow> tensor option \<Rightarrow> heap \<Rightarrow> ((tensor option \<times> tensor option list) \<times> heap) run" where
  "rope_grad F cos_table go h =
     bind_run (SNEPPX_tensor_copy cos_table h) (\<lambda>(inv_table, h).
     case inv_table of None \<Rightarrow> Inr ((None, []), h)
     | Some t \<Rightarrow>
         bind_run (fold_run (\<lambda>i h. bind_run (load_f32 h t i) (\<lambda>x. store_f32 t i (f_neg F x) h))
           (filter odd [0..<t_size t]) h) (\<lambda>h.
         bind_run (SNEPPX_tensor_rope F go inv_table h) (\<lambda>(ga, h). Inr ((ga, [inv_table]), h))))"

definition backward_rope :: "mathlib \<Rightarrow> var_ptr \<Rightarrow> tensor option \<Rightarrow> tensor option \<Rightarrow> ops \<Rightarrow> ops run" where
  "backward_rope L a cos_table go s =
     bind_run (get_ptr a s) (\<lambda>(v, x).
     if \<not> wants_grad x \<or> cos_table = None then Inr s
     else temp_grad (ml_f L) a (\<lambda>_. rope_grad (ml_f L) cos_table go) s)"

end
