(* ===== verification/Autodiff_Ops.thy ===== *)
theory Autodiff_Ops
  imports Autodiff_Norms
begin

text \<open>
  The differentiable operations of \<open>kernel/autodiff/ops.c\<close>: contexts and their release and recomputation, the functions
  a tape calls, and the operations that compute a result and record it.
\<close>

section \<open>Backward functions by context\<close>

fun unary_back :: "unary_kind \<Rightarrow> mathlib \<Rightarrow> var_ptr \<Rightarrow> tensor option \<Rightarrow> ops \<Rightarrow> ops run" where
  "unary_back U_Neg = backward_neg"
| "unary_back U_Relu = backward_relu"
| "unary_back U_Gelu = backward_gelu"
| "unary_back U_Silu = backward_silu"
| "unary_back U_Sigmoid = backward_sigmoid"
| "unary_back U_Tanh = backward_tanh"
| "unary_back U_Exp = backward_exp"
| "unary_back U_Log = backward_log"
| "unary_back U_Reshape = backward_reshape"
| "unary_back U_Sqrt = backward_sqrt"
| "unary_back U_Abs = backward_abs"
| "unary_back U_Sin = backward_sin"
| "unary_back U_Cos = backward_cos"
| "unary_back U_Tan = backward_tan"
| "unary_back U_Asin = backward_asin"
| "unary_back U_Acos = backward_acos"
| "unary_back U_Atan = backward_atan"
| "unary_back U_Sinh = backward_sinh"
| "unary_back U_Cosh = backward_cosh"

fun dim_kind_back :: "dim_kind \<Rightarrow> mathlib \<Rightarrow> var_ptr \<Rightarrow> nat \<Rightarrow> tensor option \<Rightarrow> ops \<Rightarrow> ops run" where
  "dim_kind_back D_Cumsum = backward_cumsum"
| "dim_kind_back D_Cumprod = backward_cumprod"
| "dim_kind_back D_Softmax = backward_softmax"
| "dim_kind_back D_Sum = backward_sum"
| "dim_kind_back D_Mean = backward_mean"
| "dim_kind_back D_LogSoftmax = backward_log_softmax"
| "dim_kind_back D_Var = backward_var"
| "dim_kind_back D_Std = backward_std"

fun binary_back :: "binary_kind \<Rightarrow> mathlib \<Rightarrow> var_ptr \<Rightarrow> var_ptr \<Rightarrow> tensor option \<Rightarrow> ops \<Rightarrow> ops run" where
  "binary_back B_Add = backward_add"
| "binary_back B_Sub = backward_sub"
| "binary_back B_Mul = backward_mul"
| "binary_back B_Div = backward_div"
| "binary_back B_Binop = backward_matmul"
| "binary_back B_MseLoss = backward_mse_loss"
| "binary_back B_Embedding = backward_embedding"
| "binary_back B_CrossEntropy = backward_cross_entropy"
| "binary_back B_Min = backward_min"
| "binary_back B_Max = backward_max"
| "binary_back B_NllLoss = backward_nll_loss"
| "binary_back B_BceLoss = backward_bce_loss"

text \<open>\<open>var->backward_fn(var->backward_ctx, grad)\<close> for the variable at \<open>self\<close>.\<close>

fun run_backward :: "mathlib \<Rightarrow> nat \<Rightarrow> op_ctx \<Rightarrow> tensor option \<Rightarrow> ops \<Rightarrow> ops run" where
  "run_backward L self (Unary_Ctx k a) go s = unary_back k L a go s"
| "run_backward L self (Dim_Ctx k a dim) go s = dim_kind_back k L a dim go s"
| "run_backward L self (Binary_Ctx k a b) go s = binary_back k L a b go s"
| "run_backward L self (Conv1DCtx input kern stride padding) go s = backward_conv1d L input kern stride padding go s"
| "run_backward L self (PowCtx a b result) go s = backward_pow L a b result go s"
| "run_backward L self (FakeQuantCtx a scale bits) go s = backward_fake_quant L a go s"
| "run_backward L self (TransposeCtx a dim1 dim2) go s = backward_transpose L a dim1 dim2 go s"
| "run_backward L self (DropoutCtx a rate seed msk) go s = backward_dropout L self a rate seed msk go s"
| "run_backward L self (LayerNormCtx a gamma beta eps) go s = backward_layer_norm L a gamma beta eps go s"
| "run_backward L self (Conv2DCtx input kern sh sw ph pw) go s = backward_conv2d L input kern sh sw ph pw go s"
| "run_backward L self (ConcatCtx shared vars n dim sizes) go s = backward_concat L vars n dim sizes go s"
| "run_backward L self (RopeCtx a cos_table) go s = backward_rope L a cos_table go s"
| "run_backward L self (BatchNormCtx a gamma beta rm rv eps) go s = backward_batch_norm L a gamma beta eps go s"

section \<open>Release and recomputation of contexts\<close>

text \<open>
  The release of a concatenation's context also releases \<open>vars\<close>. In a recomputed context this is the array
  \<open>parents\<close> of the variable, which every caller reads or releases next; the model reports the fault at once.
\<close>

fun free_ctx :: "op_ctx \<Rightarrow> ops \<Rightarrow> ops run" where
  "free_ctx (PowCtx a b result) s =
     bind_run (drop_tensors [result] s) (\<lambda>s. Inr (s\<lparr>a_heap := free_block True (a_heap s)\<rparr>))"
| "free_ctx (DropoutCtx a rate seed msk) s =
     bind_run (drop_tensors [msk] s) (\<lambda>s. Inr (s\<lparr>a_heap := free_block True (a_heap s)\<rparr>))"
| "free_ctx (ConcatCtx shared vars n dim sizes) s =
     (if shared \<and> vars \<noteq> None then Inl Use_After_Free
      else Inr (s\<lparr>a_heap := free_block True (free_block (vars \<noteq> None) (free_block (sizes \<noteq> None) (a_heap s)))\<rparr>))"
| "free_ctx c s = Inr (s\<lparr>a_heap := free_block True (a_heap s)\<rparr>)"

text \<open>\<open>var->parents[i]\<close>, and a parameter of the variable or its default. A \<open>float\<close> parameter is the low half of its cell.\<close>

definition parent_at :: "op_ctx variable \<Rightarrow> nat \<Rightarrow> var_ptr run" where
  "parent_at x i = (if v_parents x = [] then Inl Null_Deref else load_cell (v_parents x) i)"

definition param_at :: "op_ctx variable \<Rightarrow> nat \<Rightarrow> nat \<Rightarrow> nat" where
  "param_at x i dflt = (if i < length (v_params x) then v_params x ! i else dflt)"

definition float_param :: "op_ctx variable \<Rightarrow> nat \<Rightarrow> f32 \<Rightarrow> f32" where
  "float_param x i dflt = (if i < length (v_params x) then of_nat (v_params x ! i) else dflt)"

definition one_parent :: "op_ctx variable \<Rightarrow> (var_ptr \<Rightarrow> op_ctx) \<Rightarrow> op_ctx run" where
  "one_parent x f = bind_run (parent_at x 0) (\<lambda>a. Inr (f a))"

definition two_parents :: "op_ctx variable \<Rightarrow> (var_ptr \<Rightarrow> var_ptr \<Rightarrow> op_ctx) \<Rightarrow> op_ctx run" where
  "two_parents x f = bind_run (parent_at x 0) (\<lambda>a. bind_run (parent_at x 1) (\<lambda>b. Inr (f a b)))"

definition three_parents :: "op_ctx variable \<Rightarrow> (var_ptr \<Rightarrow> var_ptr \<Rightarrow> var_ptr \<Rightarrow> op_ctx) \<Rightarrow> op_ctx run" where
  "three_parents x f =
     bind_run (parent_at x 0) (\<lambda>a. bind_run (parent_at x 1) (\<lambda>b. bind_run (parent_at x 2) (\<lambda>c. Inr (f a b c))))"

fun rebuild_ctx :: "mathlib \<Rightarrow> recompute_fn \<Rightarrow> op_ctx variable \<Rightarrow> op_ctx run" where
  "rebuild_ctx L (Re_Unary k) x = one_parent x (Unary_Ctx k)"
| "rebuild_ctx L (Re_Dim k) x = one_parent x (\<lambda>a. Dim_Ctx k a (param_at x 0 0))"
| "rebuild_ctx L (Re_Binary k) x = two_parents x (Binary_Ctx k)"
| "rebuild_ctx L Re_Conv1D x = two_parents x (\<lambda>a b. Conv1DCtx a b (param_at x 0 1) (param_at x 1 0))"
| "rebuild_ctx L Re_Pow x = two_parents x (\<lambda>a b. PowCtx a b None)"
| "rebuild_ctx L Re_FakeQuant x = one_parent x (\<lambda>a. FakeQuantCtx a (f_zero (ml_f L)) 0)"
| "rebuild_ctx L Re_Transpose x = one_parent x (\<lambda>a. TransposeCtx a (param_at x 0 0) (param_at x 1 1))"
| "rebuild_ctx L Re_Dropout x = one_parent x (\<lambda>a.
     DropoutCtx a (float_param x 0 (f_lit (ml_f L) 5 (- 1))) (of_nat (param_at x 1 0)) None)"
| "rebuild_ctx L Re_LayerNorm x = three_parents x (\<lambda>a g b. LayerNormCtx a g b (float_param x 0 (f_lit (ml_f L) 1 (- 5))))"
| "rebuild_ctx L Re_Conv2D x = two_parents x (\<lambda>a b.
     Conv2DCtx a b (param_at x 0 1) (param_at x 1 1) (param_at x 2 0) (param_at x 3 0))"
| "rebuild_ctx L Re_Concat x =
     Inr (ConcatCtx True (if v_parents x = [] then None else Some (v_parents x)) (length (v_parents x)) (param_at x 0 0) None)"
| "rebuild_ctx L Re_Rope x = one_parent x (\<lambda>a. RopeCtx a None)"
| "rebuild_ctx L Re_BatchNorm x = three_parents x (\<lambda>a g b.
     BatchNormCtx a g b None None (float_param x 0 (f_lit (ml_f L) 1 (- 5))))"

text \<open>\<open>var->recompute_ctx(var, var->params, var->param_count)\<close>\<close>

definition recompute_ctx :: "mathlib \<Rightarrow> nat \<Rightarrow> ops \<Rightarrow> (op_ctx option \<times> ops) run" where
  "recompute_ctx L self s =
     bind_run (get_var self s) (\<lambda>x.
     bind_run (deref (v_recompute_ctx x)) (\<lambda>re.
     let (ok, h) = aligned_alloc_wrapper (a_heap s); s = s\<lparr>a_heap := h\<rparr> in
     if \<not> ok then Inr (None, s)
     else bind_run (rebuild_ctx L re x) (\<lambda>c. Inr (Some c, put_var self (x\<lparr>v_free_ctx := True\<rparr>) s))))"

definition op_hooks :: "mathlib \<Rightarrow> op_ctx hooks" where
  "op_hooks L = \<lparr>backward_hook = run_backward L, free_hook = (\<lambda>self. free_ctx), recompute_hook = recompute_ctx L\<rparr>"

section \<open>Recording a result\<close>

type_synonym op_result = "(var_ptr \<times> tape option \<times> ops) run"

definition requires_grad1 :: "var_ptr \<Rightarrow> ops \<Rightarrow> bool run" where "requires_grad1 = opt_wants"

definition requires_grad :: "var_ptr \<Rightarrow> var_ptr \<Rightarrow> ops \<Rightarrow> bool run" where
  "requires_grad a b s = bind_run (opt_wants a s) (\<lambda>ra. if ra then Inr True else opt_wants b s)"

definition set_parents :: "nat \<Rightarrow> var_ptr list \<Rightarrow> ops \<Rightarrow> ops run" where
  "set_parents v parents s =
     (if parents = [] then Inr s
      else let (ok, h) = aligned_alloc_wrapper (a_heap s); s = s\<lparr>a_heap := h\<rparr> in
        if \<not> ok then Inr s
        else bind_run (get_var v s) (\<lambda>x. Inr (put_var v (x\<lparr>v_parents := parents\<rparr>) s)))"

text \<open>The context of the new variable; without memory for it the variable has no backward function. \<open>mk\<close> fills the
  fields.\<close>

definition attach_ctx :: "nat \<Rightarrow> recompute_fn \<Rightarrow> nat list \<Rightarrow> (ops \<Rightarrow> (op_ctx \<times> ops) run) \<Rightarrow> ops \<Rightarrow> ops run" where
  "attach_ctx v re params mk s =
     (let (ok, h) = aligned_alloc_wrapper (a_heap s); s = s\<lparr>a_heap := h\<rparr> in
      if \<not> ok then Inr s
      else bind_run (mk s) (\<lambda>(c, s).
        bind_run (get_var v s) (\<lambda>x.
        Inr (put_var v (x\<lparr>v_backward_fn := True, v_backward_ctx := Some c, v_free_ctx := True,
                         v_recompute_ctx := Some re, v_params := params\<rparr>) s))))"

definition op_finish ::
  "mathlib \<Rightarrow> tape option \<Rightarrow> bool \<Rightarrow> tensor option \<Rightarrow> (nat \<Rightarrow> ops \<Rightarrow> ops run) \<Rightarrow> var_ptr list \<Rightarrow> ops \<Rightarrow> op_result" where
  "op_finish L tape rg result attach parents s =
     (case result of None \<Rightarrow> Inr (None, tape, s)
      | Some _ \<Rightarrow>
         let (var, s) = SNEPPX_variable_create result (of_bool rg) s in
         case var of
           None \<Rightarrow> bind_run (drop_tensors [result] s) (\<lambda>s. Inr (None, tape, s))
         | Some v \<Rightarrow>
             bind_run (if rg \<and> \<not> SNEPPX_no_grad_is_active s
                       then bind_run (attach v s) (set_parents v parents) else Inr s) (\<lambda>s.
             if SNEPPX_no_grad_is_active s then Inr (var, tape, s)
             else bind_run (SNEPPX_tape_record (op_hooks L) tape var s) (\<lambda>(tape, s). Inr (var, tape, s))))"

text \<open>A context whose fields are known.\<close>

definition plain_ctx :: "recompute_fn \<Rightarrow> nat list \<Rightarrow> op_ctx \<Rightarrow> nat \<Rightarrow> ops \<Rightarrow> ops run" where
  "plain_ctx re params c v = attach_ctx v re params (\<lambda>s. Inr (c, s))"

text \<open>\<open>if (!a || !a->data) return NULL;\<close>: the data of the operands, or \<open>None\<close>.\<close>

fun operands :: "var_ptr list \<Rightarrow> ops \<Rightarrow> tensor option list option run" where
  "operands [] s = Inr (Some [])"
| "operands (None # ps) s = Inr None"
| "operands (Some v # ps) s =
     bind_run (get_var v s) (\<lambda>x.
     if v_data x = None then Inr None
     else bind_run (operands ps s) (\<lambda>r. Inr (map_option ((#) (v_data x)) r)))"

definition unary_op ::
  "mathlib \<Rightarrow> (tensor option \<Rightarrow> heap \<Rightarrow> (tensor option \<times> heap) run) \<Rightarrow> (nat \<Rightarrow> ops \<Rightarrow> ops run) \<Rightarrow> tape option \<Rightarrow> var_ptr \<Rightarrow> ops \<Rightarrow> op_result"
where
  "unary_op L f attach tape a s =
     bind_run (requires_grad1 a s) (\<lambda>rg.
     bind_run (operands [a] s) (\<lambda>ds.
     case ds of None \<Rightarrow> Inr (None, tape, s)
     | Some ds \<Rightarrow> bind_run (with_heap (f (ds ! 0)) s) (\<lambda>(r, s). op_finish L tape rg r attach [a] s)))"

text \<open>The losses and the embedding ask only their first operand for \<open>requires_grad\<close>.\<close>

definition binary_op ::
  "mathlib \<Rightarrow> bool \<Rightarrow> (tensor option \<Rightarrow> tensor option \<Rightarrow> heap \<Rightarrow> (tensor option \<times> heap) run) \<Rightarrow> (nat \<Rightarrow> ops \<Rightarrow> ops run) \<Rightarrow>
   tape option \<Rightarrow> var_ptr \<Rightarrow> var_ptr \<Rightarrow> ops \<Rightarrow> op_result"
where
  "binary_op L both f attach tape a b s =
     bind_run (if both then requires_grad a b s else requires_grad1 a s) (\<lambda>rg.
     bind_run (operands [a, b] s) (\<lambda>ds.
     case ds of None \<Rightarrow> Inr (None, tape, s)
     | Some ds \<Rightarrow> bind_run (with_heap (f (ds ! 0) (ds ! 1)) s) (\<lambda>(r, s). op_finish L tape rg r attach [a, b] s)))"

text \<open>Operations without a gradient: recorded also inside a \<open>no_grad\<close> scope.\<close>

definition op_plain :: "mathlib \<Rightarrow> tape option \<Rightarrow> tensor option \<Rightarrow> ops \<Rightarrow> op_result" where
  "op_plain L tape result s =
     (case result of None \<Rightarrow> Inr (None, tape, s)
      | Some _ \<Rightarrow>
         let (var, s) = SNEPPX_variable_create result 0 s in
         case var of
           None \<Rightarrow> bind_run (drop_tensors [result] s) (\<lambda>s. Inr (None, tape, s))
         | Some v \<Rightarrow> bind_run (SNEPPX_tape_record (op_hooks L) tape var s) (\<lambda>(tape, s). Inr (var, tape, s)))"

definition op_zero_grad ::
  "mathlib \<Rightarrow> (tensor option \<Rightarrow> tensor option \<Rightarrow> heap \<Rightarrow> (tensor option \<times> heap) run) \<Rightarrow> tape option \<Rightarrow> var_ptr \<Rightarrow> var_ptr \<Rightarrow> ops \<Rightarrow> op_result"
where
  "op_zero_grad L f tape a b s =
     bind_run (operands [a, b] s) (\<lambda>ds.
     case ds of None \<Rightarrow> Inr (None, tape, s)
     | Some ds \<Rightarrow> bind_run (with_heap (f (ds ! 0) (ds ! 1)) s) (\<lambda>(r, s). op_plain L tape r s))"

definition step_op ::
  "mathlib \<Rightarrow> (tensor option \<Rightarrow> heap \<Rightarrow> (tensor option \<times> heap) run) \<Rightarrow> tape option \<Rightarrow> var_ptr \<Rightarrow> ops \<Rightarrow> op_result" where
  "step_op L f tape a s =
     bind_run (operands [a] s) (\<lambda>ds.
     case ds of None \<Rightarrow> Inr (None, tape, s)
     | Some ds \<Rightarrow> bind_run (with_heap (f (ds ! 0)) s) (\<lambda>(r, s). op_plain L tape r s))"

section \<open>The operations\<close>

definition SNEPPX_eq :: "mathlib \<Rightarrow> tape option \<Rightarrow> var_ptr \<Rightarrow> var_ptr \<Rightarrow> ops \<Rightarrow> op_result" where
  "SNEPPX_eq L = op_zero_grad L (SNEPPX_tensor_eq (ml_f L))"

definition SNEPPX_ne :: "mathlib \<Rightarrow> tape option \<Rightarrow> var_ptr \<Rightarrow> var_ptr \<Rightarrow> ops \<Rightarrow> op_result" where
  "SNEPPX_ne L = op_zero_grad L (SNEPPX_tensor_ne (ml_f L))"

definition SNEPPX_lt :: "mathlib \<Rightarrow> tape option \<Rightarrow> var_ptr \<Rightarrow> var_ptr \<Rightarrow> ops \<Rightarrow> op_result" where
  "SNEPPX_lt L = op_zero_grad L (SNEPPX_tensor_lt (ml_f L))"

definition SNEPPX_le :: "mathlib \<Rightarrow> tape option \<Rightarrow> var_ptr \<Rightarrow> var_ptr \<Rightarrow> ops \<Rightarrow> op_result" where
  "SNEPPX_le L = op_zero_grad L (SNEPPX_tensor_le (ml_f L))"

definition SNEPPX_gt :: "mathlib \<Rightarrow> tape option \<Rightarrow> var_ptr \<Rightarrow> var_ptr \<Rightarrow> ops \<Rightarrow> op_result" where
  "SNEPPX_gt L = op_zero_grad L (SNEPPX_tensor_gt (ml_f L))"

definition SNEPPX_ge :: "mathlib \<Rightarrow> tape option \<Rightarrow> var_ptr \<Rightarrow> var_ptr \<Rightarrow> ops \<Rightarrow> op_result" where
  "SNEPPX_ge L = op_zero_grad L (SNEPPX_tensor_ge (ml_f L))"

definition SNEPPX_sign :: "mathlib \<Rightarrow> tape option \<Rightarrow> var_ptr \<Rightarrow> ops \<Rightarrow> op_result" where
  "SNEPPX_sign L = step_op L (SNEPPX_tensor_sign (ml_f L))"

definition SNEPPX_floor :: "mathlib \<Rightarrow> tape option \<Rightarrow> var_ptr \<Rightarrow> ops \<Rightarrow> op_result" where
  "SNEPPX_floor L = step_op L (unary_op_f32 (ml_floor L))"

definition SNEPPX_ceil :: "mathlib \<Rightarrow> tape option \<Rightarrow> var_ptr \<Rightarrow> ops \<Rightarrow> op_result" where
  "SNEPPX_ceil L = step_op L (unary_op_f32 (ml_ceil L))"

definition SNEPPX_round :: "mathlib \<Rightarrow> tape option \<Rightarrow> var_ptr \<Rightarrow> ops \<Rightarrow> op_result" where
  "SNEPPX_round L = step_op L (unary_op_f32 (ml_round L))"

definition SNEPPX_trunc :: "mathlib \<Rightarrow> tape option \<Rightarrow> var_ptr \<Rightarrow> ops \<Rightarrow> op_result" where
  "SNEPPX_trunc L = step_op L (unary_op_f32 (ml_trunc L))"

definition SNEPPX_neg :: "mathlib \<Rightarrow> tape option \<Rightarrow> var_ptr \<Rightarrow> ops \<Rightarrow> op_result" where
  "SNEPPX_neg L tape a = unary_op L (SNEPPX_tensor_neg (ml_f L)) (plain_ctx (Re_Unary U_Neg) [] (Unary_Ctx U_Neg a)) tape a"

definition SNEPPX_relu :: "mathlib \<Rightarrow> tape option \<Rightarrow> var_ptr \<Rightarrow> ops \<Rightarrow> op_result" where
  "SNEPPX_relu L tape a = unary_op L (SNEPPX_tensor_relu (ml_f L)) (plain_ctx (Re_Unary U_Relu) [] (Unary_Ctx U_Relu a)) tape a"

definition SNEPPX_gelu :: "mathlib \<Rightarrow> tape option \<Rightarrow> var_ptr \<Rightarrow> ops \<Rightarrow> op_result" where
  "SNEPPX_gelu L tape a = unary_op L (SNEPPX_tensor_gelu (ml_f L)) (plain_ctx (Re_Unary U_Gelu) [] (Unary_Ctx U_Gelu a)) tape a"

definition SNEPPX_silu :: "mathlib \<Rightarrow> tape option \<Rightarrow> var_ptr \<Rightarrow> ops \<Rightarrow> op_result" where
  "SNEPPX_silu L tape a = unary_op L (SNEPPX_tensor_silu (ml_f L)) (plain_ctx (Re_Unary U_Silu) [] (Unary_Ctx U_Silu a)) tape a"

definition SNEPPX_sigmoid :: "mathlib \<Rightarrow> tape option \<Rightarrow> var_ptr \<Rightarrow> ops \<Rightarrow> op_result" where
  "SNEPPX_sigmoid L tape a = unary_op L (SNEPPX_tensor_sigmoid (ml_f L)) (plain_ctx (Re_Unary U_Sigmoid) [] (Unary_Ctx U_Sigmoid a)) tape a"

definition SNEPPX_tanh :: "mathlib \<Rightarrow> tape option \<Rightarrow> var_ptr \<Rightarrow> ops \<Rightarrow> op_result" where
  "SNEPPX_tanh L tape a = unary_op L (SNEPPX_tensor_tanh (ml_f L)) (plain_ctx (Re_Unary U_Tanh) [] (Unary_Ctx U_Tanh a)) tape a"

definition SNEPPX_exp :: "mathlib \<Rightarrow> tape option \<Rightarrow> var_ptr \<Rightarrow> ops \<Rightarrow> op_result" where
  "SNEPPX_exp L tape a = unary_op L (SNEPPX_tensor_exp (ml_f L)) (plain_ctx (Re_Unary U_Exp) [] (Unary_Ctx U_Exp a)) tape a"

definition SNEPPX_log :: "mathlib \<Rightarrow> tape option \<Rightarrow> var_ptr \<Rightarrow> ops \<Rightarrow> op_result" where
  "SNEPPX_log L tape a = unary_op L (SNEPPX_tensor_log (ml_f L)) (plain_ctx (Re_Unary U_Log) [] (Unary_Ctx U_Log a)) tape a"

definition SNEPPX_sqrt :: "mathlib \<Rightarrow> tape option \<Rightarrow> var_ptr \<Rightarrow> ops \<Rightarrow> op_result" where
  "SNEPPX_sqrt L tape a = unary_op L (SNEPPX_tensor_sqrt (ml_f L)) (plain_ctx (Re_Unary U_Sqrt) [] (Unary_Ctx U_Sqrt a)) tape a"

definition SNEPPX_abs :: "mathlib \<Rightarrow> tape option \<Rightarrow> var_ptr \<Rightarrow> ops \<Rightarrow> op_result" where
  "SNEPPX_abs L tape a = unary_op L (SNEPPX_tensor_abs) (plain_ctx (Re_Unary U_Abs) [] (Unary_Ctx U_Abs a)) tape a"

definition SNEPPX_sin :: "mathlib \<Rightarrow> tape option \<Rightarrow> var_ptr \<Rightarrow> ops \<Rightarrow> op_result" where
  "SNEPPX_sin L tape a = unary_op L (SNEPPX_tensor_sin (ml_f L)) (plain_ctx (Re_Unary U_Sin) [] (Unary_Ctx U_Sin a)) tape a"

definition SNEPPX_cos :: "mathlib \<Rightarrow> tape option \<Rightarrow> var_ptr \<Rightarrow> ops \<Rightarrow> op_result" where
  "SNEPPX_cos L tape a = unary_op L (SNEPPX_tensor_cos (ml_f L)) (plain_ctx (Re_Unary U_Cos) [] (Unary_Ctx U_Cos a)) tape a"

definition SNEPPX_tan :: "mathlib \<Rightarrow> tape option \<Rightarrow> var_ptr \<Rightarrow> ops \<Rightarrow> op_result" where
  "SNEPPX_tan L tape a = unary_op L (unary_op_f32 (ml_tan L)) (plain_ctx (Re_Unary U_Tan) [] (Unary_Ctx U_Tan a)) tape a"

definition SNEPPX_asin :: "mathlib \<Rightarrow> tape option \<Rightarrow> var_ptr \<Rightarrow> ops \<Rightarrow> op_result" where
  "SNEPPX_asin L tape a = unary_op L (unary_op_f32 (ml_asin L)) (plain_ctx (Re_Unary U_Asin) [] (Unary_Ctx U_Asin a)) tape a"

definition SNEPPX_acos :: "mathlib \<Rightarrow> tape option \<Rightarrow> var_ptr \<Rightarrow> ops \<Rightarrow> op_result" where
  "SNEPPX_acos L tape a = unary_op L (unary_op_f32 (ml_acos L)) (plain_ctx (Re_Unary U_Acos) [] (Unary_Ctx U_Acos a)) tape a"

definition SNEPPX_atan :: "mathlib \<Rightarrow> tape option \<Rightarrow> var_ptr \<Rightarrow> ops \<Rightarrow> op_result" where
  "SNEPPX_atan L tape a = unary_op L (unary_op_f32 (ml_atan L)) (plain_ctx (Re_Unary U_Atan) [] (Unary_Ctx U_Atan a)) tape a"

definition SNEPPX_sinh :: "mathlib \<Rightarrow> tape option \<Rightarrow> var_ptr \<Rightarrow> ops \<Rightarrow> op_result" where
  "SNEPPX_sinh L tape a = unary_op L (unary_op_f32 (ml_sinh L)) (plain_ctx (Re_Unary U_Sinh) [] (Unary_Ctx U_Sinh a)) tape a"

definition SNEPPX_cosh :: "mathlib \<Rightarrow> tape option \<Rightarrow> var_ptr \<Rightarrow> ops \<Rightarrow> op_result" where
  "SNEPPX_cosh L tape a = unary_op L (unary_op_f32 (ml_cosh L)) (plain_ctx (Re_Unary U_Cosh) [] (Unary_Ctx U_Cosh a)) tape a"

definition SNEPPX_reshape :: "mathlib \<Rightarrow> tape option \<Rightarrow> var_ptr \<Rightarrow> nat list \<Rightarrow> ops \<Rightarrow> op_result" where
  "SNEPPX_reshape L tape a shape =
     unary_op L (\<lambda>d. SNEPPX_tensor_reshape d shape) (plain_ctx (Re_Unary U_Reshape) [] (Unary_Ctx U_Reshape a)) tape a"

definition SNEPPX_cumsum :: "mathlib \<Rightarrow> tape option \<Rightarrow> var_ptr \<Rightarrow> nat \<Rightarrow> ops \<Rightarrow> op_result" where
  "SNEPPX_cumsum L tape a dim =
     unary_op L (\<lambda>d. SNEPPX_tensor_cumsum (ml_f L) d dim) (plain_ctx (Re_Dim D_Cumsum) [dim] (Dim_Ctx D_Cumsum a dim)) tape a"

definition SNEPPX_cumprod :: "mathlib \<Rightarrow> tape option \<Rightarrow> var_ptr \<Rightarrow> nat \<Rightarrow> ops \<Rightarrow> op_result" where
  "SNEPPX_cumprod L tape a dim =
     unary_op L (\<lambda>d. SNEPPX_tensor_cumprod (ml_f L) d dim) (plain_ctx (Re_Dim D_Cumprod) [dim] (Dim_Ctx D_Cumprod a dim)) tape a"

definition SNEPPX_softmax :: "mathlib \<Rightarrow> tape option \<Rightarrow> var_ptr \<Rightarrow> nat \<Rightarrow> ops \<Rightarrow> op_result" where
  "SNEPPX_softmax L tape a dim =
     unary_op L (\<lambda>d. SNEPPX_tensor_softmax (ml_f L) d dim) (plain_ctx (Re_Dim D_Softmax) [dim] (Dim_Ctx D_Softmax a dim)) tape a"

definition SNEPPX_sum :: "mathlib \<Rightarrow> tape option \<Rightarrow> var_ptr \<Rightarrow> nat \<Rightarrow> ops \<Rightarrow> op_result" where
  "SNEPPX_sum L tape a dim =
     unary_op L (\<lambda>d. SNEPPX_tensor_sum (ml_f L) d dim) (plain_ctx (Re_Dim D_Sum) [dim] (Dim_Ctx D_Sum a dim)) tape a"

definition SNEPPX_mean :: "mathlib \<Rightarrow> tape option \<Rightarrow> var_ptr \<Rightarrow> nat \<Rightarrow> ops \<Rightarrow> op_result" where
  "SNEPPX_mean L tape a dim =
     unary_op L (\<lambda>d. SNEPPX_tensor_mean (ml_f L) d dim) (plain_ctx (Re_Dim D_Mean) [dim] (Dim_Ctx D_Mean a dim)) tape a"

definition SNEPPX_log_softmax :: "mathlib \<Rightarrow> tape option \<Rightarrow> var_ptr \<Rightarrow> nat \<Rightarrow> ops \<Rightarrow> op_result" where
  "SNEPPX_log_softmax L tape a dim =
     unary_op L (\<lambda>d. SNEPPX_tensor_log_softmax (ml_f L) d dim) (plain_ctx (Re_Dim D_LogSoftmax) [dim] (Dim_Ctx D_LogSoftmax a dim)) tape a"

definition SNEPPX_var :: "mathlib \<Rightarrow> tape option \<Rightarrow> var_ptr \<Rightarrow> nat \<Rightarrow> ops \<Rightarrow> op_result" where
  "SNEPPX_var L tape a dim =
     unary_op L (\<lambda>d. SNEPPX_tensor_var (ml_f L) d dim) (plain_ctx (Re_Dim D_Var) [dim] (Dim_Ctx D_Var a dim)) tape a"

definition SNEPPX_std :: "mathlib \<Rightarrow> tape option \<Rightarrow> var_ptr \<Rightarrow> nat \<Rightarrow> ops \<Rightarrow> op_result" where
  "SNEPPX_std L tape a dim =
     unary_op L (\<lambda>d. SNEPPX_tensor_std (ml_f L) d dim) (plain_ctx (Re_Dim D_Std) [dim] (Dim_Ctx D_Std a dim)) tape a"

definition SNEPPX_add :: "mathlib \<Rightarrow> tape option \<Rightarrow> var_ptr \<Rightarrow> var_ptr \<Rightarrow> ops \<Rightarrow> op_result" where
  "SNEPPX_add L tape a b =
     binary_op L True (SNEPPX_tensor_add (ml_f L)) (plain_ctx (Re_Binary B_Add) [] (Binary_Ctx B_Add a b)) tape a b"

definition SNEPPX_sub :: "mathlib \<Rightarrow> tape option \<Rightarrow> var_ptr \<Rightarrow> var_ptr \<Rightarrow> ops \<Rightarrow> op_result" where
  "SNEPPX_sub L tape a b =
     binary_op L True (SNEPPX_tensor_sub (ml_f L)) (plain_ctx (Re_Binary B_Sub) [] (Binary_Ctx B_Sub a b)) tape a b"

definition SNEPPX_mul :: "mathlib \<Rightarrow> tape option \<Rightarrow> var_ptr \<Rightarrow> var_ptr \<Rightarrow> ops \<Rightarrow> op_result" where
  "SNEPPX_mul L tape a b =
     binary_op L True (SNEPPX_tensor_mul (ml_f L)) (plain_ctx (Re_Binary B_Mul) [] (Binary_Ctx B_Mul a b)) tape a b"

definition SNEPPX_div :: "mathlib \<Rightarrow> tape option \<Rightarrow> var_ptr \<Rightarrow> var_ptr \<Rightarrow> ops \<Rightarrow> op_result" where
  "SNEPPX_div L tape a b =
     binary_op L True (SNEPPX_tensor_div (ml_f L)) (plain_ctx (Re_Binary B_Div) [] (Binary_Ctx B_Div a b)) tape a b"

definition SNEPPX_matmul :: "mathlib \<Rightarrow> tape option \<Rightarrow> var_ptr \<Rightarrow> var_ptr \<Rightarrow> ops \<Rightarrow> op_result" where
  "SNEPPX_matmul L tape a b =
     binary_op L True (SNEPPX_tensor_matmul (ml_f L)) (plain_ctx (Re_Binary B_Binop) [] (Binary_Ctx B_Binop a b)) tape a b"

definition SNEPPX_mse_loss :: "mathlib \<Rightarrow> tape option \<Rightarrow> var_ptr \<Rightarrow> var_ptr \<Rightarrow> ops \<Rightarrow> op_result" where
  "SNEPPX_mse_loss L tape a b =
     binary_op L False (SNEPPX_tensor_mse_loss (ml_f L)) (plain_ctx (Re_Binary B_MseLoss) [] (Binary_Ctx B_MseLoss a b)) tape a b"

definition SNEPPX_embedding :: "mathlib \<Rightarrow> tape option \<Rightarrow> var_ptr \<Rightarrow> var_ptr \<Rightarrow> ops \<Rightarrow> op_result" where
  "SNEPPX_embedding L tape a b =
     binary_op L False (SNEPPX_tensor_embedding (ml_f L)) (plain_ctx (Re_Binary B_Embedding) [] (Binary_Ctx B_Embedding a b)) tape a b"

definition SNEPPX_cross_entropy :: "mathlib \<Rightarrow> tape option \<Rightarrow> var_ptr \<Rightarrow> var_ptr \<Rightarrow> ops \<Rightarrow> op_result" where
  "SNEPPX_cross_entropy L tape a b =
     binary_op L False (SNEPPX_tensor_cross_entropy (ml_f L)) (plain_ctx (Re_Binary B_CrossEntropy) [] (Binary_Ctx B_CrossEntropy a b)) tape a b"

definition SNEPPX_minimum :: "mathlib \<Rightarrow> tape option \<Rightarrow> var_ptr \<Rightarrow> var_ptr \<Rightarrow> ops \<Rightarrow> op_result" where
  "SNEPPX_minimum L tape a b =
     binary_op L True (SNEPPX_tensor_minimum (ml_f L)) (plain_ctx (Re_Binary B_Min) [] (Binary_Ctx B_Min a b)) tape a b"

definition SNEPPX_maximum :: "mathlib \<Rightarrow> tape option \<Rightarrow> var_ptr \<Rightarrow> var_ptr \<Rightarrow> ops \<Rightarrow> op_result" where
  "SNEPPX_maximum L tape a b =
     binary_op L True (SNEPPX_tensor_maximum (ml_f L)) (plain_ctx (Re_Binary B_Max) [] (Binary_Ctx B_Max a b)) tape a b"

definition SNEPPX_nll_loss :: "mathlib \<Rightarrow> tape option \<Rightarrow> var_ptr \<Rightarrow> var_ptr \<Rightarrow> ops \<Rightarrow> op_result" where
  "SNEPPX_nll_loss L tape a b =
     binary_op L False (SNEPPX_tensor_nll_loss (ml_f L)) (plain_ctx (Re_Binary B_NllLoss) [] (Binary_Ctx B_NllLoss a b)) tape a b"

definition SNEPPX_bce_loss :: "mathlib \<Rightarrow> tape option \<Rightarrow> var_ptr \<Rightarrow> var_ptr \<Rightarrow> ops \<Rightarrow> op_result" where
  "SNEPPX_bce_loss L tape a b =
     binary_op L False (SNEPPX_tensor_binary_cross_entropy (ml_f L)) (plain_ctx (Re_Binary B_BceLoss) [] (Binary_Ctx B_BceLoss a b)) tape a b"

definition SNEPPX_transpose :: "mathlib \<Rightarrow> tape option \<Rightarrow> var_ptr \<Rightarrow> nat \<Rightarrow> nat \<Rightarrow> ops \<Rightarrow> op_result" where
  "SNEPPX_transpose L tape a dim1 dim2 =
     unary_op L (\<lambda>d. SNEPPX_tensor_transpose d dim1 dim2) (plain_ctx Re_Transpose [dim1, dim2] (TransposeCtx a dim1 dim2)) tape a"

definition SNEPPX_fake_quant :: "mathlib \<Rightarrow> tape option \<Rightarrow> var_ptr \<Rightarrow> f32 \<Rightarrow> int \<Rightarrow> ops \<Rightarrow> op_result" where
  "SNEPPX_fake_quant L tape a scale bits =
     unary_op L (\<lambda>d. SNEPPX_tensor_fake_quant (ml_f L) (ml_floor L) (ml_of_int L) d scale bits)
       (plain_ctx Re_FakeQuant [] (FakeQuantCtx a scale bits)) tape a"

definition SNEPPX_dropout :: "mathlib \<Rightarrow> tape option \<Rightarrow> var_ptr \<Rightarrow> f32 \<Rightarrow> u32 \<Rightarrow> ops \<Rightarrow> op_result" where
  "SNEPPX_dropout L tape a rate seed =
     unary_op L (\<lambda>d. SNEPPX_tensor_dropout (ml_f L) d rate seed)
       (plain_ctx Re_Dropout [unat rate, unat seed] (DropoutCtx a rate seed None)) tape a"

definition SNEPPX_conv1d :: "mathlib \<Rightarrow> tape option \<Rightarrow> var_ptr \<Rightarrow> var_ptr \<Rightarrow> nat \<Rightarrow> nat \<Rightarrow> ops \<Rightarrow> op_result" where
  "SNEPPX_conv1d L tape input kern stride padding =
     binary_op L True (\<lambda>x w. SNEPPX_tensor_conv1d (ml_f L) x w stride padding)
       (plain_ctx Re_Conv1D [stride, padding] (Conv1DCtx input kern stride padding)) tape input kern"

definition SNEPPX_conv2d ::
  "mathlib \<Rightarrow> tape option \<Rightarrow> var_ptr \<Rightarrow> var_ptr \<Rightarrow> nat \<Rightarrow> nat \<Rightarrow> nat \<Rightarrow> nat \<Rightarrow> ops \<Rightarrow> op_result" where
  "SNEPPX_conv2d L tape input kern stride_h stride_w pad_h pad_w =
     binary_op L True (\<lambda>x w. SNEPPX_tensor_conv2d (ml_f L) x w stride_h stride_w pad_h pad_w)
       (plain_ctx Re_Conv2D [stride_h, stride_w, pad_h, pad_w] (Conv2DCtx input kern stride_h stride_w pad_h pad_w)) tape input kern"

text \<open>The context of a power keeps a copy of the result.\<close>

definition SNEPPX_pow :: "mathlib \<Rightarrow> tape option \<Rightarrow> var_ptr \<Rightarrow> var_ptr \<Rightarrow> ops \<Rightarrow> op_result" where
  "SNEPPX_pow L tape a b =
     binary_op L True (SNEPPX_tensor_pow (ml_f L)) (\<lambda>v. attach_ctx v Re_Pow [] (\<lambda>s.
       bind_run (get_var v s) (\<lambda>x.
       bind_run (with_heap (SNEPPX_tensor_copy (v_data x)) s) (\<lambda>(r, s). Inr (PowCtx a b r, s))))) tape a b"

definition SNEPPX_rope :: "mathlib \<Rightarrow> tape option \<Rightarrow> var_ptr \<Rightarrow> tensor option \<Rightarrow> ops \<Rightarrow> op_result" where
  "SNEPPX_rope L tape a cos_table s =
     (if cos_table = None then Inr (None, tape, s)
      else unary_op L (\<lambda>d. SNEPPX_tensor_rope (ml_f L) d cos_table) (plain_ctx Re_Rope [] (RopeCtx a cos_table)) tape a s)"

text \<open>\<open>p ? p->data : NULL\<close>\<close>

definition data_or_null :: "var_ptr \<Rightarrow> ops \<Rightarrow> tensor option run" where
  "data_or_null p s = (case p of None \<Rightarrow> Inr None | Some _ \<Rightarrow> data_ptr p s)"

definition norm_requires_grad :: "var_ptr \<Rightarrow> var_ptr \<Rightarrow> var_ptr \<Rightarrow> ops \<Rightarrow> bool run" where
  "norm_requires_grad a gamma beta s =
     bind_run (requires_grad a gamma s) (\<lambda>r. if r then Inr True else opt_wants beta s)"

definition SNEPPX_layer_norm :: "mathlib \<Rightarrow> tape option \<Rightarrow> var_ptr \<Rightarrow> var_ptr \<Rightarrow> var_ptr \<Rightarrow> f32 \<Rightarrow> ops \<Rightarrow> op_result" where
  "SNEPPX_layer_norm L tape a gamma beta eps s =
     bind_run (norm_requires_grad a gamma beta s) (\<lambda>rg.
     bind_run (operands [a] s) (\<lambda>ds.
     case ds of None \<Rightarrow> Inr (None, tape, s)
     | Some ds \<Rightarrow>
         bind_run (data_or_null gamma s) (\<lambda>dg. bind_run (data_or_null beta s) (\<lambda>db.
         bind_run (with_heap (SNEPPX_tensor_layer_norm (ml_f L) (ds ! 0) dg db eps) s) (\<lambda>(r, s).
         op_finish L tape rg r (plain_ctx Re_LayerNorm [unat eps] (LayerNormCtx a gamma beta eps)) [a, gamma, beta] s)))))"

definition SNEPPX_batch_norm ::
  "mathlib \<Rightarrow> tape option \<Rightarrow> var_ptr \<Rightarrow> var_ptr \<Rightarrow> var_ptr \<Rightarrow> var_ptr \<Rightarrow> var_ptr \<Rightarrow> f32 \<Rightarrow> ops \<Rightarrow> op_result" where
  "SNEPPX_batch_norm L tape a gamma beta running_mean running_var eps s =
     bind_run (norm_requires_grad a gamma beta s) (\<lambda>rg.
     bind_run (operands [a, gamma, beta, running_mean, running_var] s) (\<lambda>ds.
     case ds of None \<Rightarrow> Inr (None, tape, s)
     | Some ds \<Rightarrow>
         bind_run (with_heap (SNEPPX_tensor_batch_norm (ml_f L) (ds ! 0) (ds ! 1) (ds ! 2) (ds ! 3) (ds ! 4) eps) s) (\<lambda>(r, s).
         op_finish L tape rg r (plain_ctx Re_BatchNorm [unat eps] (BatchNormCtx a gamma beta running_mean running_var eps))
           [a, gamma, beta] s)))"

text \<open>Concatenation: the first loop stops at an operand without data.\<close>

fun any_wants :: "var_ptr list \<Rightarrow> ops \<Rightarrow> bool run" where
  "any_wants [] s = Inr False"
| "any_wants (p # ps) s = bind_run (opt_wants p s) (\<lambda>r. bind_run (any_wants ps s) (\<lambda>rs. Inr (r \<or> rs)))"

definition concat_ctx :: "var_ptr list \<Rightarrow> nat \<Rightarrow> ops \<Rightarrow> (op_ctx \<times> ops) run" where
  "concat_ctx vars dim s =
     (let (v_ok, h) = aligned_alloc_wrapper (a_heap s); (s_ok, h) = aligned_alloc_wrapper h; s = s\<lparr>a_heap := h\<rparr>;
          vs = (if v_ok then Some vars else None) in
      if \<not> s_ok then Inr (ConcatCtx False vs (length vars) dim None, s)
      else bind_run (map_run (\<lambda>p. bind_run (data_ptr p s) (\<lambda>d. bind_run (deref d) (\<lambda>d. dim_of d dim))) vars) (\<lambda>sizes.
        Inr (ConcatCtx False vs (length vars) dim (Some sizes), s)))"

definition SNEPPX_concat :: "mathlib \<Rightarrow> tape option \<Rightarrow> var_ptr list option \<Rightarrow> nat \<Rightarrow> ops \<Rightarrow> op_result" where
  "SNEPPX_concat L tape vars dim s =
     (case vars of None \<Rightarrow> Inr (None, tape, s)
      | Some vs \<Rightarrow>
         if vs = [] then Inr (None, tape, s)
         else bind_run (operands vs s) (\<lambda>ds.
           case ds of None \<Rightarrow> Inr (None, tape, s)
           | Some ds \<Rightarrow>
               bind_run (any_wants vs s) (\<lambda>rg.
               let (ok, h) = aligned_alloc_wrapper (a_heap s); s = s\<lparr>a_heap := h\<rparr> in
               if \<not> ok then Inr (None, tape, s)
               else bind_run (with_heap (SNEPPX_tensor_concat ds dim) s) (\<lambda>(r, s).
                 let s = s\<lparr>a_heap := free_block True (a_heap s)\<rparr> in
                 op_finish L tape rg r (\<lambda>v. attach_ctx v Re_Concat [dim] (concat_ctx vs dim)) vs s))))"

end
