(* ===== verification/Autodiff_Frame.thy ===== *)
theory Autodiff_Frame
  imports Autodiff_Ops
begin

text \<open>
  What a backward pass leaves alone: the graph of variables, that is their data, parents, parameters and
  flags. The rules \<open>keeps\<close> follow the structure of the functions.
\<close>

section \<open>The graph of a state\<close>

text \<open>A variable without its gradient, its context and the bookkeeping of the pass.\<close>

definition core :: "'c variable \<Rightarrow> 'c variable" where
  "core x = x\<lparr>v_grad := None, v_backward_ctx := None, v_free_ctx := False, v_checkpointed := False, v_ref_count := 0\<rparr>"

definition graph :: "'c ad \<Rightarrow> nat \<times> nat \<times> (nat \<rightharpoonup> 'c variable)" where
  "graph s = (a_next s, a_no_grad s, \<lambda>v. map_option core (a_vars s v))"

definition kept :: "'c ad \<Rightarrow> 'c ad run \<Rightarrow> bool" where
  "kept s m \<longleftrightarrow> (\<forall>s'. m = Inr s' \<longrightarrow> graph s' = graph s)"

definition kept_with :: "'c ad \<Rightarrow> ('r \<times> 'c ad) run \<Rightarrow> bool" where
  "kept_with s m \<longleftrightarrow> (\<forall>r s'. m = Inr (r, s') \<longrightarrow> graph s' = graph s)"

named_theorems keeps

lemma core_updates [simp]:
  "core (x\<lparr>v_grad := g\<rparr>) = core x" "core (x\<lparr>v_backward_ctx := c\<rparr>) = core x" "core (x\<lparr>v_free_ctx := b\<rparr>) = core x"
  "core (x\<lparr>v_checkpointed := b\<rparr>) = core x" "core (x\<lparr>v_ref_count := n\<rparr>) = core x"
  by (simp_all add: core_def)

lemma graph_heap [simp]: "graph (s\<lparr>a_heap := h\<rparr>) = graph s"
  by (simp add: graph_def)

lemma graph_put: "a_vars s v = Some x \<Longrightarrow> core y = core x \<Longrightarrow> graph (put_var v y s) = graph s"
  by (auto simp: graph_def put_var_def fun_eq_iff)

lemma get_var_some: "get_var v s = Inr x \<longleftrightarrow> a_vars s v = Some x"
  by (simp add: get_var_def split: option.splits)

text \<open>A computation that returns a state passes it on; one that only reads has no effect.\<close>

lemma kept_state:
  assumes "kept s m" "\<And>s'. graph s' = graph s \<Longrightarrow> kept s' (f s')" shows "kept s (bind_run m f)"
  using assms unfolding kept_def bind_run_eq_Inr by (metis)

lemma kept_pair:
  assumes "kept_with s m" "\<And>r s'. graph s' = graph s \<Longrightarrow> kept s' (f r s')" shows "kept s (bind_run m (\<lambda>(r, s'). f r s'))"
  using assms unfolding kept_def kept_with_def bind_run_eq_Inr by (metis case_prod_conv surj_pair)

lemma kept_read:
  assumes "\<And>x. m = Inr x \<Longrightarrow> kept s (f x)" shows "kept s (bind_run m f)"
  using assms unfolding kept_def bind_run_eq_Inr by (metis)

lemma kept_with_state:
  assumes "kept s m" "\<And>s'. graph s' = graph s \<Longrightarrow> kept_with s' (f s')" shows "kept_with s (bind_run m f)"
  using assms unfolding kept_def kept_with_def bind_run_eq_Inr by (metis case_prod_conv surj_pair)

lemma kept_with_pair:
  assumes "kept_with s m" "\<And>r s'. graph s' = graph s \<Longrightarrow> kept_with s' (f r s')"
  shows "kept_with s (bind_run m (\<lambda>(r, s'). f r s'))"
  using assms unfolding kept_with_def bind_run_eq_Inr by (metis case_prod_conv surj_pair)

lemma kept_with_read:
  assumes "\<And>x. m = Inr x \<Longrightarrow> kept_with s (f x)" shows "kept_with s (bind_run m f)"
  using assms unfolding kept_with_def bind_run_eq_Inr by (metis case_prod_conv surj_pair)

lemma kept_if: "(P \<Longrightarrow> kept s a) \<Longrightarrow> (\<not> P \<Longrightarrow> kept s b) \<Longrightarrow> kept s (if P then a else b)"
  and kept_option: "(t = None \<Longrightarrow> kept s a) \<Longrightarrow> (\<And>x. t = Some x \<Longrightarrow> kept s (g x)) \<Longrightarrow> kept s (case t of None \<Rightarrow> a | Some x \<Rightarrow> g x)"
  and kept_prod: "(\<And>x y. p = (x, y) \<Longrightarrow> kept s (k x y)) \<Longrightarrow> kept s (case p of (x, y) \<Rightarrow> k x y)"
  and kept_prod_on: "(\<And>x y. p = (x, y) \<Longrightarrow> kept s (k2 x y s)) \<Longrightarrow> kept s ((case p of (x, y) \<Rightarrow> k2 x y) s)"
  and kept_let: "(\<And>z. z = u \<Longrightarrow> kept s (l z)) \<Longrightarrow> kept s (let z = u in l z)"
  by (simp_all split: option.splits prod.splits)

lemma kept_with_if: "(P \<Longrightarrow> kept_with s a) \<Longrightarrow> (\<not> P \<Longrightarrow> kept_with s b) \<Longrightarrow> kept_with s (if P then a else b)"
  and kept_with_option:
    "(t = None \<Longrightarrow> kept_with s a) \<Longrightarrow> (\<And>x. t = Some x \<Longrightarrow> kept_with s (g x)) \<Longrightarrow> kept_with s (case t of None \<Rightarrow> a | Some x \<Rightarrow> g x)"
  and kept_with_prod: "(\<And>x y. p = (x, y) \<Longrightarrow> kept_with s (k x y)) \<Longrightarrow> kept_with s (case p of (x, y) \<Rightarrow> k x y)"
  and kept_with_let: "(\<And>z. z = u \<Longrightarrow> kept_with s (l z)) \<Longrightarrow> kept_with s (let z = u in l z)"
  by (simp_all split: option.splits prod.splits)

lemma kept_basic [keeps]:
  "kept s (Inr s)" "kept s (Inl e)" "kept_with s (Inr (r, s))" "kept_with s (Inl e)" "kept s (on_heap f s)"
  "kept s (Inr (s\<lparr>a_heap := h\<rparr>))"
  by (auto simp: kept_def kept_with_def on_heap_def)

lemma kept_heap_ops [keeps]: "kept_with s (with_heap g s)" "kept s (drop_tensors ts s)"
  by (auto simp: kept_def kept_with_def on_heap_def with_heap_def drop_tensors_def)

lemmas kept_structure = kept_if kept_option kept_prod kept_prod_on kept_let kept_with_if kept_with_option kept_with_prod kept_with_let
  kept_state kept_pair kept_with_state kept_with_pair kept_read kept_with_read

lemma kept_put [keeps]: "get_var v s = Inr x \<Longrightarrow> core y = core x \<Longrightarrow> kept s (Inr (put_var v y s))"
  and kept_with_put [keeps]: "get_var v s = Inr x \<Longrightarrow> core y = core x \<Longrightarrow> kept_with s (Inr (r, put_var v y s))"
  by (auto simp: kept_def kept_with_def get_var_some intro: graph_put)

lemma kept_fold [keeps]: "(\<And>x s. kept s (f x s)) \<Longrightarrow> kept s (fold_run f xs s)"
  by (induction xs arbitrary: s) (auto intro: kept_basic(1) kept_state)

section \<open>Backward functions\<close>

lemma kept_grad_accum [keeps]: "kept s (grad_accum F v g s)"
  unfolding grad_accum_def by (rule kept_structure keeps | assumption | simp)+

lemma kept_reduced_grad: "(\<And>s. kept_with s (mk s)) \<Longrightarrow> kept s (reduced_grad F p mk s)"
  unfolding reduced_grad_def by (rule kept_structure keeps | assumption | simp)+

lemma kept_plain_grad: "(\<And>d s. kept_with s (mk d s)) \<Longrightarrow> kept s (plain_grad F p mk s)"
  unfolding plain_grad_def by (rule kept_structure keeps | assumption | simp)+

lemma kept_zeros_grad [keeps]: "kept s (zeros_grad checked F v d body s)"
  unfolding zeros_grad_def by (rule kept_structure keeps | assumption | simp)+

lemma kept_temp_grad [keeps]: "kept s (temp_grad F p mk s)"
  unfolding temp_grad_def by (rule kept_structure keeps | assumption | simp)+

lemma kept_dim_back [keeps]: "kept s (dim_back F a dim go body s)"
  unfolding dim_back_def by (rule kept_structure keeps | assumption | simp)+

lemma kept_opt_grad [keeps]: "kept s (opt_grad F p body s)"
  unfolding opt_grad_def by (rule kept_structure keeps | assumption | simp)+

lemma kept_factor_grad [keeps]: "kept s (factor_grad F op f go a s)"
  unfolding factor_grad_def by (rule kept_structure keeps | assumption | simp)+

lemmas kept_grads = kept_reduced_grad kept_plain_grad

lemma kept_select_back [keeps]: "kept s (select_back la lb L a b go s)"
  unfolding select_back_def by (rule kept_structure kept_grads keeps | assumption | simp)+

lemma kept_unary_back: "kept s (unary_back k L a go s)"
  by (cases k; simp add: backward_neg_def backward_relu_def backward_gelu_def backward_silu_def backward_sigmoid_def
      backward_tanh_def backward_exp_def backward_log_def backward_reshape_def backward_sqrt_def backward_abs_def backward_sin_def
      backward_cos_def backward_tan_def backward_asin_def backward_acos_def backward_atan_def backward_sinh_def backward_cosh_def
      cell_back_def Let_def;
      (rule kept_structure kept_grads keeps | assumption | simp)+)

lemma kept_dim_kind_back: "kept s (dim_kind_back k L a dim go s)"
  by (cases k; simp add: backward_cumsum_def backward_cumprod_def backward_softmax_def backward_sum_def backward_mean_def
      backward_log_softmax_def backward_var_def backward_std_def Let_def kept_dim_back kept_temp_grad)

lemma kept_binary_back: "kept s (binary_back k L a b go s)"
  by (cases k; simp add: backward_add_def backward_sub_def backward_mul_def backward_div_def backward_matmul_def
      backward_mse_loss_def backward_embedding_def backward_cross_entropy_def backward_min_def backward_max_def
      backward_nll_loss_def backward_bce_loss_def Let_def del: bind_run_simps;
      (rule kept_structure kept_grads keeps | assumption | simp)+)

lemma kept_concat_back [keeps]: "kept s (concat_back F go dim sizes vars is offset s)"
  by (induction "is" arbitrary: offset s) (simp add: kept_basic, unfold concat_back.simps,
      (rule kept_structure kept_grads keeps | assumption | simp)+)

lemma kept_run_backward: "kept s (run_backward L self c go s)"
  by (cases c; simp add: kept_unary_back kept_dim_kind_back kept_binary_back;
      unfold backward_conv1d_def backward_pow_def backward_fake_quant_def backward_transpose_def backward_dropout_def
        backward_layer_norm_def backward_conv2d_def backward_concat_def backward_rope_def backward_batch_norm_def Let_def;
      (rule kept_structure kept_grads keeps | assumption | simp)+)

section \<open>The pass\<close>

lemma kept_free_ctx [keeps]: "kept s (free_ctx c s)"
  by (cases c; simp add: kept_basic; (rule kept_structure keeps | assumption | simp)+)

lemma kept_recompute_ctx [keeps]: "kept_with s (recompute_ctx L self s)"
  unfolding recompute_ctx_def Let_def
  by (rule kept_structure keeps | assumption | simp)+
     (auto simp: kept_with_def bind_run_eq_Inr get_var_some put_var_def graph_def fun_eq_iff)

lemma kept_op_hooks [keeps]:
  "kept s (backward_hook (op_hooks L) v c go s)" "kept s (free_hook (op_hooks L) v c s)"
  "kept_with s (recompute_hook (op_hooks L) v s)"
  by (simp_all add: op_hooks_def kept_run_backward kept_free_ctx kept_recompute_ctx)

lemma kept_restore [keeps]: "kept s (restore_ctx (op_hooks L) v s)"
  unfolding restore_ctx_def by (rule kept_structure keeps | assumption | simp)+

lemma kept_release_parents [keeps]: "kept s (release_parents ps s)"
  unfolding release_parents_def by (rule kept_structure keeps | assumption | simp)+

lemma kept_backward_step [keeps]: "kept s (backward_step (op_hooks L) v s)"
  unfolding backward_step_def by (rule kept_structure keeps | assumption | simp)+

lemma kept_sort [keeps]: "kept_with s (tape_topological_sort t (s\<lparr>a_heap := h\<rparr>))"
  by (auto simp: kept_with_def tape_topological_sort_def Let_def split: if_splits prod.splits)

lemma kept_put_later:
  assumes "get_var v s0 = Inr x" "graph s = graph s0" "core y = core x"
  shows "graph (put_var v y (s\<lparr>a_heap := h\<rparr>)) = graph s"
proof -
  have "map_option core (a_vars s v) = map_option core (a_vars s0 v)" using assms(2) by (auto simp: graph_def dest: fun_cong)
  then obtain x' where "a_vars s v = Some x'" "core x' = core x" using assms(1) by (auto simp: get_var_some)
  then show ?thesis using assms(3) by (auto simp: graph_def put_var_def)
qed

lemma kept_from: "graph s' = graph s \<Longrightarrow> kept s' m \<Longrightarrow> kept s m"
  by (simp add: kept_def)

lemma kept_tape_backward [keeps]: "kept s (SNEPPX_tape_backward (op_hooks L) tape loss s)"
proof (cases tape)
  case None
  then show ?thesis by (simp add: SNEPPX_tape_backward_def kept_basic)
next
  case (Some t)
  show ?thesis
  proof (cases loss)
    case None
    then show ?thesis by (simp add: SNEPPX_tape_backward_def kept_basic Some)
  next
    case l: (Some l)
    have rest: "kept s1 (bind_run m (\<lambda>(g, h). let s2 = put_var l (x\<lparr>v_grad := g\<rparr>) (s1\<lparr>a_heap := h\<rparr>) in f s2))"
      if "get_var l s = Inr x" "graph s1 = graph s" "\<And>s2. kept s2 (f s2)" for s1 x m f
      by (rule kept_read, rule kept_prod, unfold Let_def, rule kept_from [OF kept_put_later [OF that(1,2)] that(3)]) simp
    show ?thesis unfolding SNEPPX_tape_backward_def Some l option.case prod.case
      by (rule rest | rule kept_structure keeps | assumption | simp)+
  qed
qed

end
