(* ===== verification/Autodiff_Order.thy ===== *)
theory Autodiff_Order
  imports Autodiff
begin

text \<open>
  The order of the backward pass: the depth-first search of \<open>tape_topological_sort\<close> ends before its guard on any
  graph, lists every recorded variable once, and puts parents first when the graph has no cycle.
\<close>

section \<open>The invariant of the search\<close>

definition edge :: "nat option list \<Rightarrow> (nat option \<Rightarrow> nat option list run) \<Rightarrow> nat \<Rightarrow> nat \<Rightarrow> bool" where
  "edge vs par i j \<longleftrightarrow> (\<exists>ps p. par (vs ! i) = Inr ps \<and> Some p \<in> set ps \<and> tape_index vs p = Some j)"

definition ranked :: "nat option list \<Rightarrow> (nat option \<Rightarrow> nat option list run) \<Rightarrow> (nat \<Rightarrow> nat) \<Rightarrow> bool" where
  "ranked vs par rank \<longleftrightarrow> (\<forall>i j. i < length vs \<longrightarrow> edge vs par i j \<longrightarrow> rank j < rank i)"

definition parents_first :: "nat option list \<Rightarrow> (nat option \<Rightarrow> nat option list run) \<Rightarrow> nat list \<Rightarrow> bool" where
  "parents_first vs par is \<longleftrightarrow> (\<forall>k < length is. \<forall>j. edge vs par (is ! k) j \<longrightarrow> j \<in> set (take k is))"

definition stack_ok :: "nat \<Rightarrow> bool list \<Rightarrow> dfs \<Rightarrow> bool" where
  "stack_ok n visited d \<longleftrightarrow> length visited = n \<and> length (on_stack d) = n \<and> distinct (d_stack d) \<and>
     (\<forall>i < n. on_stack d ! i \<longleftrightarrow> i \<in> set (d_stack d)) \<and> (\<forall>i \<in> set (d_stack d). i < n \<and> \<not> visited ! i) \<and>
     d_size d = d_cap d \<and> 0 < d_cap d \<and> d_cap d \<le> 2 * n + 64 \<and> length (d_stack d) \<le> d_cap d \<and> (\<forall>k. h_ok (d_heap d) k)"

definition done_ok :: "nat \<Rightarrow> bool list \<Rightarrow> nat list \<Rightarrow> bool" where
  "done_ok n visited is \<longleftrightarrow> length visited = n \<and> distinct is \<and> set is = {i. i < n \<and> visited ! i}"

definition order_ok :: "nat option list \<Rightarrow> (nat option \<Rightarrow> nat option list run) \<Rightarrow> (nat \<Rightarrow> nat) \<Rightarrow> nat list \<Rightarrow> nat list \<Rightarrow> bool" where
  "order_ok vs par rank stack is \<longleftrightarrow>
     (ranked vs par rank \<longrightarrow> sorted_wrt (\<lambda>a b. rank a < rank b) stack \<and> parents_first vs par is)"

lemma tape_index_less: "tape_index vs p = Some i \<Longrightarrow> i < length vs \<and> vs ! i = Some p"
  by (auto simp: tape_index_def find_Some_iff)

lemma edge_less: "edge vs par i j \<Longrightarrow> j < length vs"
  using tape_index_less by (auto simp: edge_def)

lemma distinct_length: "distinct xs \<Longrightarrow> \<forall>x \<in> set xs. x < n \<Longrightarrow> length xs \<le> (n :: nat)"
  using card_mono [of "{..<n}" "set xs"] by (auto simp: distinct_card)

section \<open>One round\<close>

lemma dfs_grow_ok:
  assumes s: "stack_ok n visited d" and i: "i < n" "i \<notin> set (d_stack d)" and n: "n \<le> 500000"
  obtains d' where "dfs_grow d = (True, d')" "d_stack d' = d_stack d" "on_stack d' = on_stack d" "d_size d' = d_cap d'"
    "length (d_stack d) < d_cap d'" "d_cap d' \<le> 2 * n + 64" "h_ok (d_heap d') = h_ok (d_heap d)"
proof (cases "length (d_stack d) < d_cap d")
  case True
  then show thesis using that [of d] s by (simp add: dfs_grow_def stack_ok_def)
next
  case False
  have "length (i # d_stack d) \<le> n" by (rule distinct_length) (use s i in \<open>auto simp: stack_ok_def\<close>)
  then have c: "d_cap d < n" "length (d_stack d) = d_cap d" using False s by (auto simp: stack_ok_def)
  have "sz_mul (d_cap d) 2 = d_cap d * 2" using c n by (simp add: sz_mul_def wrap64_def)
  then show thesis using False s c that
    by (simp add: dfs_grow_def stack_ok_def aligned_alloc_wrapper_def free_block_def)
qed

lemma scan_parents_cases:
  assumes s: "stack_ok (length vs) visited d" and n: "length vs \<le> 500000"
  shows "(scan_parents vs visited ps d = Inr (False, d) \<and>
      (\<forall>p i. Some p \<in> set ps \<longrightarrow> tape_index vs p = Some i \<longrightarrow> visited ! i \<or> i \<in> set (d_stack d))) \<or>
    (\<exists>p i d'. scan_parents vs visited ps d = Inr (True, d') \<and> Some p \<in> set ps \<and> tape_index vs p = Some i \<and>
       d_stack d' = i # d_stack d \<and> stack_ok (length vs) visited d')"
  using s n
proof (induction vs visited ps d rule: scan_parents.induct)
  case (3 vs visited p ps d)
  show ?case
  proof (cases "tape_index vs p")
    case None
    then show ?thesis using 3 by auto
  next
    case (Some i)
    have i: "i < length vs" using tape_index_less [OF Some] by simp
    show ?thesis
    proof (cases "visited ! i \<or> on_stack d ! i")
      case True
      then have "visited ! i \<or> i \<in> set (d_stack d)" using "3.prems" i by (auto simp: stack_ok_def)
      then show ?thesis using 3 Some True by auto
    next
      case False
      then have "i \<notin> set (d_stack d)" using "3.prems" i by (simp add: stack_ok_def)
      then obtain d' where g: "dfs_grow d = (True, d')" "d_stack d' = d_stack d" "on_stack d' = on_stack d" "d_size d' = d_cap d'"
        "length (d_stack d) < d_cap d'" "d_cap d' \<le> 2 * length vs + 64" "h_ok (d_heap d') = h_ok (d_heap d)"
        using dfs_grow_ok [OF "3.prems"(1) i _ "3.prems"(2)] by blast
      let ?d = "d'\<lparr>d_stack := i # d_stack d', on_stack := (on_stack d')[i := True]\<rparr>"
      have "scan_parents vs visited (Some p # ps) d = Inr (True, ?d)" using Some False g by simp
      moreover have "stack_ok (length vs) visited ?d"
        using "3.prems"(1) False i g \<open>i \<notin> set (d_stack d)\<close> by (auto simp: stack_ok_def nth_list_update)
      ultimately show ?thesis using Some g(2) by (intro disjI2 exI [of _ p] exI [of _ i] exI [of _ ?d]) simp
    qed
  qed
qed auto

section \<open>The search\<close>

lemma parents_first_snoc:
  "parents_first vs par is \<Longrightarrow> (\<And>j. edge vs par i j \<Longrightarrow> j \<in> set is) \<Longrightarrow> parents_first vs par (is @ [i])"
  by (auto simp: parents_first_def nth_append less_Suc_eq)

lemma done_ok_visit: "done_ok n visited is \<Longrightarrow> i < n \<Longrightarrow> \<not> visited ! i \<Longrightarrow> done_ok n (visited[i := True]) (is @ [i])"
  by (auto simp: done_ok_def nth_list_update split: if_splits)

lemma stack_ok_pop:
  "stack_ok n visited d \<Longrightarrow> d_stack d = i # rest \<Longrightarrow>
   stack_ok n (visited[i := True]) (d\<lparr>on_stack := (on_stack d)[i := False], d_stack := tl (d_stack d)\<rparr>)"
  by (auto simp: stack_ok_def nth_list_update)

lemma order_push:
  assumes "order_ok vs par rank (i # rest) is" "edge vs par i j" "i < length vs"
  shows "order_ok vs par rank (j # i # rest) is"
  using assms by (auto simp: order_ok_def ranked_def intro: less_trans)

lemma order_pop:
  assumes o: "order_ok vs par rank (i # rest) is" and i: "i < length vs" and d: "done_ok (length vs) visited is"
    and p: "\<And>j. edge vs par i j \<Longrightarrow> visited ! j \<or> j \<in> set (i # rest)"
  shows "order_ok vs par rank rest (is @ [i])"
  unfolding order_ok_def
proof
  assume r: "ranked vs par rank"
  then have s: "sorted_wrt (\<lambda>a b. rank a < rank b) (i # rest)" "parents_first vs par is" using o by (simp_all add: order_ok_def)
  have "j \<in> set is" if e: "edge vs par i j" for j
  proof -
    have "rank j < rank i" using r i e by (simp add: ranked_def)
    then have "j \<notin> set (i # rest)" using s(1) by auto
    then show ?thesis using p [OF e] edge_less [OF e] d by (simp add: done_ok_def)
  qed
  then show "sorted_wrt (\<lambda>a b. rank a < rank b) rest \<and> parents_first vs par (is @ [i])"
    using s parents_first_snoc by simp
qed

text \<open>Each round pushes a variable that is neither visited nor on the stack, or visits the top one: a stack of \<open>k\<close>
  variables, with \<open>m\<close> variables visited, is empty after at most \<open>2 * (n - m) - k\<close> rounds.\<close>

lemma dfs_loop_ends:
  assumes "stack_ok (length vs) visited d" "done_ok (length vs) visited is" "order_ok vs par rank (d_stack d) is"
    and "2 * (length vs - length is) \<le> guard + length (d_stack d)"
    and par: "\<And>i. i < length vs \<Longrightarrow> \<exists>ps. par (vs ! i) = Inr ps" and n: "length vs \<le> 500000"
  shows "\<exists>visited' is' d'. dfs_loop vs par guard visited (map ((!) vs) is) d = Inr (visited', map ((!) vs) is', d') \<and>
    done_ok (length vs) visited' is' \<and> order_ok vs par rank [] is' \<and> set is \<union> set (d_stack d) \<subseteq> set is' \<and> (\<forall>k. h_ok (d_heap d') k)"
  using assms(1-4)
proof (induction guard arbitrary: visited "is" d)
  case 0
  have "length is + length (d_stack d) \<le> length vs"
  proof -
    have "distinct (is @ d_stack d)" "\<forall>i \<in> set (is @ d_stack d). i < length vs"
      using 0 by (auto simp: stack_ok_def done_ok_def)
    then show ?thesis using distinct_length [of "is @ d_stack d" "length vs"] by simp
  qed
  then have "length (d_stack d) = 0" using 0(4) by linarith
  then have "d_stack d = []" by simp
  then show ?case using 0 by (intro exI [of _ visited] exI [of _ "is"] exI [of _ d]) (simp add: stack_ok_def)
next
  case (Suc guard)
  show ?case
  proof (cases "d_stack d")
    case Nil
    then show ?thesis using Suc.prems by (intro exI [of _ visited] exI [of _ "is"] exI [of _ d]) (simp add: stack_ok_def)
  next
    case (Cons i rest)
    have i: "i < length vs" "\<not> visited ! i" using Suc.prems(1) Cons by (auto simp: stack_ok_def)
    obtain ps where ps: "par (vs ! i) = Inr ps" using par [OF i(1)] by blast
    from scan_parents_cases [OF Suc.prems(1) n, of ps] show ?thesis
    proof (elim disjE exE conjE)
      assume sc: "scan_parents vs visited ps d = Inr (False, d)"
        "\<forall>p i. Some p \<in> set ps \<longrightarrow> tape_index vs p = Some i \<longrightarrow> visited ! i \<or> i \<in> set (d_stack d)"
      let ?d = "d\<lparr>on_stack := (on_stack d)[i := False], d_stack := tl (d_stack d)\<rparr>"
      have "order_ok vs par rank (d_stack ?d) (is @ [i])"
        using order_pop [of vs par rank i rest "is" visited] Suc.prems(2,3) i(1) sc(2) ps Cons by (auto simp: edge_def)
      moreover have "2 * (length vs - length (is @ [i])) \<le> guard + length (d_stack ?d)" using Suc.prems(4) Cons by simp
      ultimately have "\<exists>visited' is' d'. dfs_loop vs par guard (visited[i := True]) (map ((!) vs) (is @ [i])) ?d = Inr (visited', map ((!) vs) is', d') \<and>
          done_ok (length vs) visited' is' \<and> order_ok vs par rank [] is' \<and> set (is @ [i]) \<union> set (d_stack ?d) \<subseteq> set is' \<and> (\<forall>k. h_ok (d_heap d') k)"
        by (intro Suc.IH stack_ok_pop [OF Suc.prems(1) Cons] done_ok_visit [OF Suc.prems(2) i])
      then show ?thesis using sc(1) ps Cons by auto
    next
      fix p j d' assume sc: "scan_parents vs visited ps d = Inr (True, d')" "Some p \<in> set ps" "tape_index vs p = Some j"
        "d_stack d' = j # d_stack d" "stack_ok (length vs) visited d'"
      have e: "edge vs par i j" using ps sc by (auto simp: edge_def)
      have "order_ok vs par rank (d_stack d') is" using order_push [OF _ e i(1)] Suc.prems(3) Cons sc(4) by simp
      moreover have "2 * (length vs - length is) \<le> guard + length (d_stack d')" using Suc.prems(4) sc(4) by simp
      ultimately have "\<exists>visited' is' d''. dfs_loop vs par guard visited (map ((!) vs) is) d' = Inr (visited', map ((!) vs) is', d'') \<and>
          done_ok (length vs) visited' is' \<and> order_ok vs par rank [] is' \<and> set is \<union> set (d_stack d') \<subseteq> set is' \<and> (\<forall>k. h_ok (d_heap d'') k)"
        by (intro Suc.IH [OF sc(5) Suc.prems(2)])
      then show ?thesis using sc(1,4) ps Cons by auto
    qed
  qed
qed

lemma sort_from_ends:
  assumes par: "\<And>i. i < length vs \<Longrightarrow> \<exists>ps. par (vs ! i) = Inr ps" and n: "length vs \<le> 500000"
    and "\<forall>i \<in> set js. i < length vs" "done_ok (length vs) visited is" "order_ok vs par rank [] is" "\<And>k. h_ok h k"
  shows "\<exists>is' h'. sort_from vs par js visited (map ((!) vs) is) h = Inr (map ((!) vs) is', h') \<and>
    distinct is' \<and> set is \<union> set js \<subseteq> set is' \<and> set is' \<subseteq> {..<length vs} \<and> order_ok vs par rank [] is'"
  using assms(3-6)
proof (induction js arbitrary: visited "is" h)
  case Nil
  then show ?case by (intro exI [of _ "is"] exI [of _ h]) (auto simp: done_ok_def)
next
  case (Cons i js)
  show ?case
  proof (cases "visited ! i")
    case True
    have "\<exists>is' h'. sort_from vs par js visited (map ((!) vs) is) h = Inr (map ((!) vs) is', h') \<and>
        distinct is' \<and> set is \<union> set js \<subseteq> set is' \<and> set is' \<subseteq> {..<length vs} \<and> order_ok vs par rank [] is'"
      by (rule Cons.IH [OF _ Cons.prems(2-4)]) (use Cons.prems(1) in simp)
    moreover have "i \<in> set is" using True Cons.prems(1,2) by (simp add: done_ok_def)
    ultimately show ?thesis using True by auto
  next
    case False
    let ?h = "h\<lparr>h_tried := h_tried h + 2, h_blocks := 2 + h_blocks h\<rparr>"
    let ?d = "\<lparr>d_stack = [i], d_size = 64, d_cap = 64, on_stack = (replicate (length vs) False)[i := True], d_heap = ?h\<rparr>"
    have "stack_ok (length vs) visited ?d" using Cons.prems False by (auto simp: stack_ok_def done_ok_def nth_list_update)
    moreover have "order_ok vs par rank (d_stack ?d) is" using Cons.prems(3) by (simp add: order_ok_def)
    moreover have "2 * (length vs - length is) \<le> loop_guard + length (d_stack ?d)" using n by (simp add: loop_guard_def)
    ultimately obtain visited' is' d' where l: "dfs_loop vs par loop_guard visited (map ((!) vs) is) ?d = Inr (visited', map ((!) vs) is', d')"
      "done_ok (length vs) visited' is'" "order_ok vs par rank [] is'" "set is \<union> {i} \<subseteq> set is'" "\<forall>k. h_ok (d_heap d') k"
      using dfs_loop_ends [where vs = vs and par = par and visited = visited and d = ?d and rank = rank and guard = loop_guard,
        OF _ Cons.prems(2) _ _ par n] by auto
    let ?g = "free_block True (free_block True (d_heap d'))"
    have "\<exists>is'' h'. sort_from vs par js visited' (map ((!) vs) is') ?g = Inr (map ((!) vs) is'', h') \<and>
        distinct is'' \<and> set is' \<union> set js \<subseteq> set is'' \<and> set is'' \<subseteq> {..<length vs} \<and> order_ok vs par rank [] is''"
      by (rule Cons.IH) (use Cons.prems(1) l in \<open>auto simp: free_block_def\<close>)
    then show ?thesis using False Cons.prems(4) l(1,4)
      by (auto simp: aligned_alloc_wrapper_def Let_def)
  qed
qed

section \<open>Sorted tapes\<close>

text \<open>A tape of at most half a million live variables.\<close>

definition recorded :: "tape \<Rightarrow> nat option list" where "recorded t = take (num_vars t) (tp_vars t)"

definition tape_ok :: "tape \<Rightarrow> 'c ad \<Rightarrow> bool" where
  "tape_ok t s \<longleftrightarrow> num_vars t \<le> length (tp_vars t) \<and> num_vars t \<le> 500000 \<and>
     (\<forall>v \<in> set (recorded t). \<exists>a x. v = Some a \<and> a_vars s a = Some x)"

lemma sort_result:
  assumes t: "tape_ok t s" and m: "\<And>k. h_ok (a_heap s) k"
  obtains "is" s' where "tape_topological_sort t s = Inr (map ((!) (recorded t)) is, s')" "distinct is" "set is = {..<num_vars t}"
    "order_ok (recorded t) (var_parents s) rank [] is" "a_vars s' = a_vars s"
proof -
  let ?vs = "recorded t"
  have len: "length ?vs = num_vars t" using t by (simp add: tape_ok_def recorded_def)
  show thesis
  proof (cases "num_vars t = 0")
    case True
    then show thesis using that [of "[]" s] by (simp add: tape_topological_sort_def order_ok_def parents_first_def)
  next
    case False
    let ?h = "(a_heap s)\<lparr>h_tried := h_tried (a_heap s) + 1, h_blocks := h_blocks (a_heap s) + 1\<rparr>"
    have par: "\<exists>ps. var_parents s (?vs ! i) = Inr ps" if "i < length ?vs" for i
      using t nth_mem [OF that] by (auto simp: tape_ok_def var_parents_def get_var_def)
    have "\<exists>is' h'. sort_from ?vs (var_parents s) [0..<num_vars t] (replicate (num_vars t) False) (map ((!) ?vs) []) ?h = Inr (map ((!) ?vs) is', h') \<and>
        distinct is' \<and> set [] \<union> set [0..<num_vars t] \<subseteq> set is' \<and> set is' \<subseteq> {..<length ?vs} \<and> order_ok ?vs (var_parents s) rank [] is'"
      by (rule sort_from_ends [where vs = ?vs and par = "var_parents s", OF par]) (use t m len in \<open>auto simp: tape_ok_def done_ok_def order_ok_def parents_first_def\<close>)
    then obtain js h' where js: "sort_from ?vs (var_parents s) [0..<num_vars t] (replicate (num_vars t) False) [] ?h = Inr (map ((!) ?vs) js, h')"
      "distinct js" "{..<num_vars t} \<subseteq> set js" "set js \<subseteq> {..<num_vars t}" "order_ok ?vs (var_parents s) rank [] js"
      unfolding len by (auto simp: atLeast0LessThan)
    show thesis
      by (rule that [of js "s\<lparr>a_heap := free_block True h'\<rparr>"])
         (use js m False in \<open>auto simp: tape_topological_sort_def recorded_def [symmetric] aligned_alloc_wrapper_def\<close>)
  qed
qed

lemma sort_lists_all:
  assumes t: "tape_ok t s" and m: "\<And>k. h_ok (a_heap s) k"
  shows "\<exists>vs s'. tape_topological_sort t s = Inr (vs, s') \<and> mset vs = mset (recorded t) \<and> a_vars s' = a_vars s"
proof -
  obtain js s' where r: "tape_topological_sort t s = Inr (map ((!) (recorded t)) js, s')" "distinct js" "set js = {..<num_vars t}" "a_vars s' = a_vars s"
    by (rule sort_result [OF t m])
  have len: "length (recorded t) = num_vars t" using t by (simp add: tape_ok_def recorded_def)
  have "mset js = mset [0..<num_vars t]" 
    using mset_set_set [OF r(2)] mset_set_set [of "[0..<num_vars t]"] r(3) by (simp add: atLeast0LessThan)
  then have "mset (map ((!) (recorded t)) js) = mset (map ((!) (recorded t)) [0..<length (recorded t)])" unfolding len by simp
  then show ?thesis using r(1,4) by (simp add: map_nth)
qed

text \<open>C11. On a tape of at most 500000 recorded variables, all of them alive, with or without cycles between them, and
  with all allocations granted, the sort ends before its guard of a million rounds and lists every recorded variable exactly once. Longer tapes can reach
  the guard, and a stack that cannot grow loses variables.\<close>

theorem topological_sort_lists_all:
  assumes "tape_ok t s" "\<And>k. h_ok (a_heap s) k"
  shows "\<exists>vs s'. tape_topological_sort t s = Inr (vs, s') \<and> mset vs = mset (recorded t) \<and> a_vars s' = a_vars s"
  by (rule sort_lists_all [OF assms])

definition sample_var :: "nat option list \<Rightarrow> unit variable" where
  "sample_var ps = \<lparr>v_data = None, v_grad = None, v_requires_grad = 1, v_checkpointed = False, v_backward_fn = False, v_backward_ctx = None,
     v_free_ctx = False, v_recompute_ctx = None, v_params = [], v_ref_count = 0, v_parents = ps\<rparr>"

definition sample_ad :: "nat option list \<Rightarrow> nat option list \<Rightarrow> unit ad" where
  "sample_ad ps qs = \<lparr>a_heap = sample_heap [], a_vars = [0 \<mapsto> sample_var ps, 1 \<mapsto> sample_var qs], a_next = 2, a_no_grad = 0\<rparr>"

definition sample_tape :: "nat option list \<Rightarrow> tape" where
  "sample_tape vs = \<lparr>tp_vars = vs, num_vars = length vs, tp_capacity = length vs, checkpointing = False\<rparr>"

lemma sample_tape_ok: "tape_ok (sample_tape [Some 1, Some 0]) (sample_ad ps qs)" "recorded (sample_tape vs) = vs"
  "h_ok (a_heap (sample_ad ps qs)) k"
  by (simp_all add: tape_ok_def recorded_def sample_tape_def sample_ad_def sample_heap_def)

theorem topological_sort_lists_all_witness:
  "\<exists>vs s'. tape_topological_sort (sample_tape [Some 1, Some 0]) (sample_ad [Some 1] [Some 0]) = Inr (vs, s') \<and> mset vs = {#Some 1, Some 0#}"
  using topological_sort_lists_all [OF sample_tape_ok(1,3), of "[Some 1]" "[Some 0]"] by (auto simp: sample_tape_ok)

text \<open>When the recorded variables can be ranked so that a variable's recorded parents rank below it, the sort puts
  every parent before the variables computed from it.\<close>

lemma sort_parents_first:
  assumes t: "tape_ok t s" "distinct (recorded t)" and m: "\<And>k. h_ok (a_heap s) k"
    and acyclic: "\<And>v x p. Some v \<in> set (recorded t) \<Longrightarrow> a_vars s v = Some x \<Longrightarrow> Some p \<in> set (v_parents x) \<Longrightarrow>
      Some p \<in> set (recorded t) \<Longrightarrow> rank p < (rank v :: nat)"
  shows "\<exists>vs s'. tape_topological_sort t s = Inr (vs, s') \<and>
    (\<forall>i < length vs. \<forall>v x p. vs ! i = Some v \<longrightarrow> a_vars s v = Some x \<longrightarrow> Some p \<in> set (v_parents x) \<longrightarrow> Some p \<in> set (recorded t) \<longrightarrow>
      (\<exists>j < i. vs ! j = Some p))"
proof -
  let ?vs = "recorded t" and ?par = "var_parents s"
  define rk where "rk i = rank (the (?vs ! i))" for i
  obtain js s' where r: "tape_topological_sort t s = Inr (map ((!) ?vs) js, s')" "distinct js" "set js = {..<num_vars t}"
    "order_ok ?vs ?par rk [] js" by (rule sort_result [OF t(1) m, of rk])
  have len: "length ?vs = num_vars t" using t by (simp add: tape_ok_def recorded_def)
  have "ranked ?vs ?par rk" unfolding ranked_def
  proof (intro allI impI)
    fix i j assume i: "i < length ?vs" "edge ?vs ?par i j"
    then obtain ps p where p: "?par (?vs ! i) = Inr ps" "Some p \<in> set ps" "tape_index ?vs p = Some j" by (auto simp: edge_def)
    obtain v x where v: "?vs ! i = Some v" "a_vars s v = Some x" using t(1) nth_mem [OF i(1)] by (auto simp: tape_ok_def)
    have ps: "ps = v_parents x" using p(1) v by (simp add: var_parents_def get_var_def)
    have j: "j < length ?vs" "?vs ! j = Some p" using tape_index_less [OF p(3)] by simp_all
    have "Some v \<in> set ?vs" "Some p \<in> set ?vs" using nth_mem [OF i(1)] nth_mem [OF j(1)] v(1) j(2) by simp_all
    then have "rank p < rank v" using acyclic v(2) p(2) ps by blast
    then show "rk j < rk i" using v(1) j(2) by (simp add: rk_def)
  qed
  then have pf: "parents_first ?vs ?par js" using r(4) by (simp add: order_ok_def)
  have "\<exists>j < i. map ((!) ?vs) js ! j = Some p"
    if i: "i < length js" and v: "?vs ! (js ! i) = Some v" "a_vars s v = Some x" "Some p \<in> set (v_parents x)" "Some p \<in> set ?vs" for i v x p
  proof -
    obtain k where k: "k < length ?vs" "?vs ! k = Some p" using v(4) by (auto simp: in_set_conv_nth)
    then have "\<exists>q. tape_index ?vs p = Some q" unfolding tape_index_def
      by (cases "List.find (\<lambda>i. ?vs ! i = Some p) [0..<length ?vs]") (auto simp: find_None_iff)
    then obtain q where q: "tape_index ?vs p = Some q" by blast
    have "edge ?vs ?par (js ! i) q" using v q by (auto simp: edge_def var_parents_def get_var_def)
    then have "q \<in> set (take i js)" using pf i by (simp add: parents_first_def)
    then obtain j where "j < i" "js ! j = q" "j < length js" by (auto simp: in_set_conv_nth)
    then show ?thesis using tape_index_less [OF q] by (intro exI [of _ j]) simp
  qed
  then show ?thesis using r(1) by (intro exI [of _ "map ((!) ?vs) js"] exI [of _ s']) simp
qed

text \<open>A full tape that cannot grow has already doubled its capacity: the variable is dropped and the next one is
  written behind the end of the array.\<close>

theorem record_after_failed_growth:
  assumes full: "num_vars t = tp_capacity t" "tp_capacity t = length (tp_vars t)" "0 < tp_capacity t" "tp_capacity t * 2 < 2 ^ 64"
    and refused: "\<not> h_ok (a_heap s) (h_tried (a_heap s))"
  shows "\<exists>t' s'. SNEPPX_tape_record K (Some t) (Some v) s = Inr (Some t', s') \<and> recorded t' = recorded t \<and>
    SNEPPX_tape_record K (Some t') (Some w) s' = Inl Out_Of_Bounds"
proof -
  let ?t = "t\<lparr>tp_capacity := tp_capacity t * 2\<rparr>"
  have "sz_mul (tp_capacity t) 2 = tp_capacity t * 2" using full(4) by (simp add: sz_mul_def wrap64_small)
  then have g: "tape_grow t (a_heap s) = (False, ?t, (a_heap s)\<lparr>h_tried := h_tried (a_heap s) + 1\<rparr>)"
    using refused by (simp add: tape_grow_def aligned_alloc_wrapper_def)
  let ?s = "s\<lparr>a_heap := (a_heap s)\<lparr>h_tried := h_tried (a_heap s) + 1\<rparr>\<rparr>"
  have "SNEPPX_tape_record K (Some t) (Some v) s = Inr (Some ?t, ?s)" using full(1) g by (simp add: SNEPPX_tape_record_def)
  moreover have "SNEPPX_tape_record K (Some ?t) (Some w) ?s = Inl Out_Of_Bounds" using full by (simp add: SNEPPX_tape_record_def)
  ultimately show ?thesis by (simp add: recorded_def)
qed

theorem record_after_failed_growth_witness:
  "\<forall>K. \<exists>t' s'. SNEPPX_tape_record K (Some (sample_tape [Some 0, Some 1])) (Some 0) ((sample_ad [] [])\<lparr>a_heap := empty_heap (\<lambda>_. False)\<rparr>) =
       Inr (Some t', s') \<and> SNEPPX_tape_record K (Some t') (Some 1) s' = Inl Out_Of_Bounds"
proof
  fix K :: "unit hooks"
  let ?t = "sample_tape [Some 0, Some 1]" and ?s = "(sample_ad [] [])\<lparr>a_heap := empty_heap (\<lambda>_. False)\<rparr>"
  have "num_vars ?t = tp_capacity ?t" "tp_capacity ?t = length (tp_vars ?t)" "0 < tp_capacity ?t" "tp_capacity ?t * 2 < 2 ^ 64"
    "\<not> h_ok (a_heap ?s) (h_tried (a_heap ?s))"
    by (simp_all add: sample_tape_def empty_heap_def)
  from record_after_failed_growth [OF this, of K 0 1]
  show "\<exists>t' s'. SNEPPX_tape_record K (Some ?t) (Some 0) ?s = Inr (Some t', s') \<and> SNEPPX_tape_record K (Some t') (Some 1) s' = Inl Out_Of_Bounds" by blast
qed

end
