(* ===== verification/Autodiff_Graph.thy ===== *)
theory Autodiff_Graph
  imports Autodiff_Frame Autodiff_Order
begin

text \<open>
  What the operations build: each of them adds at most one variable, at a new address, whose operands are alive and
  whose context can be recomputed. Hence the graph has no cycle, whatever sequence of operations and backward passes
  is run.
\<close>

section \<open>What an operation adds\<close>

definition var_alive :: "ops \<Rightarrow> var_ptr \<Rightarrow> bool" where
  "var_alive s p \<longleftrightarrow> (case p of None \<Rightarrow> True | Some v \<Rightarrow> a_vars s v \<noteq> None)"

text \<open>What is left of a context after it was released and recomputed: powers lose their result, rotations their table,
  quantisation its parameters, batch normalisation its running statistics, dropout its mask and concatenation its sizes.\<close>

fun restores :: "mathlib \<Rightarrow> op_ctx \<Rightarrow> op_ctx \<Rightarrow> bool" where
  "restores L (PowCtx a b r) c \<longleftrightarrow> c = PowCtx a b None"
| "restores L (RopeCtx a t) c \<longleftrightarrow> c = RopeCtx a None"
| "restores L (FakeQuantCtx a scale bits) c \<longleftrightarrow> c = FakeQuantCtx a (f_zero (ml_f L)) 0"
| "restores L (BatchNormCtx a g b rm rv eps) c \<longleftrightarrow> c = BatchNormCtx a g b None None eps"
| "restores L (DropoutCtx a rate seed m) c \<longleftrightarrow> c = DropoutCtx a rate seed None"
| "restores L (ConcatCtx sh vars n dim sizes) c \<longleftrightarrow> (\<exists>vs. c = ConcatCtx True (Some vs) n dim None \<and> (vars = None \<or> vars = Some vs))"
| "restores L c c' \<longleftrightarrow> c' = c"

definition restorable :: "mathlib \<Rightarrow> op_ctx variable \<Rightarrow> bool" where
  "restorable L x \<longleftrightarrow> (\<forall>c. v_backward_ctx x = Some c \<longrightarrow> v_parents x \<noteq> [] \<longrightarrow>
     (\<exists>re c'. v_recompute_ctx x = Some re \<and> rebuild_ctx L re x = Inr c' \<and> restores L c c'))"

definition tape_extends :: "tape option \<Rightarrow> tape option \<Rightarrow> nat \<Rightarrow> bool" where
  "tape_extends tape tape' v \<longleftrightarrow>
     (case tape of None \<Rightarrow> tape' = None
      | Some t \<Rightarrow> num_vars t \<le> length (tp_vars t) \<longrightarrow> (\<exists>t'. tape' = Some t' \<and> num_vars t' \<le> length (tp_vars t') \<and>
          (recorded t' = recorded t \<or> recorded t' = recorded t @ [Some v])))"

definition adds_one :: "mathlib \<Rightarrow> tape option \<Rightarrow> ops \<Rightarrow> op_result \<Rightarrow> bool" where
  "adds_one L tape s m \<longleftrightarrow> (\<forall>w tape' s'. m = Inr (w, tape', s') \<longrightarrow> a_no_grad s' = a_no_grad s \<and>
     ((w = None \<and> tape' = tape \<and> a_vars s' = a_vars s \<and> a_next s' = a_next s) \<or>
      (\<exists>x. w = Some (a_next s) \<and> a_next s' = a_next s + 1 \<and> a_vars s' = (a_vars s)(a_next s \<mapsto> x) \<and> restorable L x \<and>
         (\<forall>p \<in> set (v_parents x). var_alive s p) \<and> tape_extends tape tape' (a_next s))))"

lemma free_ctx_heap: "free_ctx c s = Inr s' \<Longrightarrow> \<exists>h. s' = s\<lparr>a_heap := h\<rparr>"
  by (cases c) (auto simp: drop_tensors_def on_heap_def split: if_splits)

lemma tape_extends_refl: "tape_extends tape tape v"
  by (auto simp: tape_extends_def split: option.splits)

lemma recorded_grow:
  "tape_grow t h = (ok, t', h') \<Longrightarrow> num_vars t \<le> length (tp_vars t) \<Longrightarrow>
     num_vars t' = num_vars t \<and> num_vars t' \<le> length (tp_vars t') \<and> recorded t' = recorded t"
  by (auto simp: tape_grow_def recorded_def Let_def split: prod.splits if_splits)

lemma recorded_snoc:
  assumes "num_vars t < length (tp_vars t)"
  shows "recorded (t\<lparr>tp_vars := (tp_vars t)[num_vars t := Some v], num_vars := num_vars t + 1\<rparr>) = recorded t @ [Some v]"
  using assms by (simp add: recorded_def take_Suc_conv_app_nth)

lemma checkpoint_release:
  assumes "bind_run (free_hook (op_hooks L) v c (put_var v (x\<lparr>v_checkpointed := True\<rparr>) s)) (\<lambda>s.
      bind_run (get_var v s) (\<lambda>x. Inr (tape, put_var v (x\<lparr>v_backward_ctx := None\<rparr>) s))) = Inr (tape', s')"
  shows "\<exists>h. tape' = tape \<and> s' = s\<lparr>a_heap := h, a_vars := (a_vars s)(v \<mapsto> x\<lparr>v_checkpointed := True, v_backward_ctx := None\<rparr>)\<rparr>"
  using assms by (auto simp: op_hooks_def bind_run_eq_Inr put_var_def get_var_def dest!: free_ctx_heap)

lemma release_cases:
  assumes "(if \<not> b then A else (case c of None \<Rightarrow> A | Some c \<Rightarrow> if P then A else if \<not> Q then Inl e else rel c)) = Inr y"
  shows "A = Inr y \<or> (\<exists>c. rel c = Inr y)"
  using assms by (auto split: if_splits option.splits)

lemma tape_record_adds:
  assumes r: "SNEPPX_tape_record (op_hooks L) tape (Some v) s = Inr (tape', s')" and x: "a_vars s v = Some x"
  shows "tape_extends tape tape' v \<and> a_next s' = a_next s \<and> a_no_grad s' = a_no_grad s \<and>
    (\<exists>y. a_vars s' = (a_vars s)(v \<mapsto> y) \<and> (y = x \<or> y = x\<lparr>v_checkpointed := True, v_backward_ctx := None\<rparr>))"
proof (cases tape)
  case None
  then show ?thesis using r x by (simp add: SNEPPX_tape_record_def tape_extends_refl) (metis fun_upd_triv)
next
  case (Some t)
  obtain ok t1 h where g: "(if num_vars t \<ge> tp_capacity t then tape_grow t (a_heap s) else (True, t, a_heap s)) = (ok, t1, h)"
    by (cases "if num_vars t \<ge> tp_capacity t then tape_grow t (a_heap s) else (True, t, a_heap s)")
  have t1: "num_vars t \<le> length (tp_vars t) \<Longrightarrow> num_vars t1 \<le> length (tp_vars t1) \<and> recorded t1 = recorded t"
    using g recorded_grow [of t "a_heap s" ok t1 h] by (auto split: if_splits)
  let ?t2 = "t1\<lparr>tp_vars := (tp_vars t1)[num_vars t1 := Some v], num_vars := num_vars t1 + 1\<rparr>"
  have ext: "tape_extends tape (Some t1) v" "num_vars t1 < length (tp_vars t1) \<Longrightarrow> tape_extends tape (Some ?t2) v"
    using t1 recorded_snoc [of t1 v] by (auto simp: tape_extends_def Some)
  have same: "tape' = Some t' \<Longrightarrow> s' = s\<lparr>a_heap := h\<rparr> \<Longrightarrow> tape_extends tape (Some t') v \<Longrightarrow> ?thesis" for t'
    using x fun_upd_triv [of "a_vars s" v] by (intro conjI exI [of _ x]) simp_all
  show ?thesis
  proof (cases "ok \<and> num_vars t1 < length (tp_vars t1)")
    case False
    then show ?thesis using r g same ext(1) by (auto simp: SNEPPX_tape_record_def Some Let_def split: if_splits)
  next
    case True
    let ?rel = "\<lambda>c. bind_run (free_hook (op_hooks L) v c (put_var v (x\<lparr>v_checkpointed := True\<rparr>) (s\<lparr>a_heap := h\<rparr>))) (\<lambda>s.
           bind_run (get_var v s) (\<lambda>x. Inr (Some ?t2, put_var v (x\<lparr>v_backward_ctx := None\<rparr>) s)))"
    have gv: "get_var v (s\<lparr>a_heap := h\<rparr>) = Inr x" using x by (simp add: get_var_def)
    have eq: "SNEPPX_tape_record (op_hooks L) tape (Some v) s = (if \<not> checkpointing ?t2 then Inr (Some ?t2, s\<lparr>a_heap := h\<rparr>) else
       (case v_backward_ctx x of None \<Rightarrow> Inr (Some ?t2, s\<lparr>a_heap := h\<rparr>)
        | Some c \<Rightarrow> if v_recompute_ctx x = None then Inr (Some ?t2, s\<lparr>a_heap := h\<rparr>) else if \<not> v_free_ctx x then Inl Null_Deref else ?rel c))"
      using True by (cases "v_backward_ctx x") (simp_all add: SNEPPX_tape_record_def Some g Let_def gv)
    from release_cases [OF r [unfolded eq]] show ?thesis
    proof (elim disjE exE)
      assume "Inr (Some ?t2, s\<lparr>a_heap := h\<rparr>) = Inr (tape', s')"
      then show ?thesis using same [of ?t2] ext(2) True by simp
    next
      fix c assume "?rel c = Inr (tape', s')"
      from checkpoint_release [OF this] show ?thesis using ext(2) True by auto
    qed
  qed
qed

text \<open>A new variable, as \<open>SNEPPX_variable_create\<close> makes it.\<close>

definition fresh_var :: "op_ctx variable \<Rightarrow> bool" where
  "fresh_var x \<longleftrightarrow> v_backward_ctx x = None \<and> v_parents x = []"

lemma variable_create_cases:
  assumes "SNEPPX_variable_create d rg s = (w, s')"
  shows "(w = None \<and> (\<exists>h. s' = s\<lparr>a_heap := h\<rparr>)) \<or>
    (\<exists>h x. w = Some (a_next s) \<and> fresh_var x \<and> s' = s\<lparr>a_heap := h, a_vars := (a_vars s)(a_next s \<mapsto> x), a_next := a_next s + 1\<rparr>)"
proof -
  obtain ok h where al: "aligned_alloc_wrapper (a_heap s) = (ok, h)" by (cases "aligned_alloc_wrapper (a_heap s)")
  show ?thesis
  proof (cases ok)
    case False
    then show ?thesis using assms al by (auto simp: SNEPPX_variable_create_def)
  next
    case True
    let ?x = "\<lparr>v_data = d, v_grad = None, v_requires_grad = (if SNEPPX_no_grad_is_active (s\<lparr>a_heap := h\<rparr>) then 0 else rg),
      v_checkpointed = False, v_backward_fn = False, v_backward_ctx = None, v_free_ctx = False,
      v_recompute_ctx = None, v_params = [], v_ref_count = 0, v_parents = []\<rparr> :: op_ctx variable"
    have "w = Some (a_next s) \<and> s' = s\<lparr>a_heap := h, a_vars := (a_vars s)(a_next s \<mapsto> ?x), a_next := a_next s + 1\<rparr>"
      using assms al True by (auto simp: SNEPPX_variable_create_def Let_def)
    then show ?thesis by (intro disjI2 exI [of _ h] exI [of _ ?x]) (simp add: fresh_var_def)
  qed
qed

text \<open>Attaching a context changes the new variable only, and the context can be recomputed from the parents and
  parameters.\<close>

definition attach_ok :: "mathlib \<Rightarrow> var_ptr list \<Rightarrow> (nat \<Rightarrow> ops \<Rightarrow> ops run) \<Rightarrow> bool" where
  "attach_ok L parents attach \<longleftrightarrow> (\<forall>v s s' x. attach v s = Inr s' \<longrightarrow> a_vars s v = Some x \<longrightarrow> fresh_var x \<longrightarrow>
     (\<exists>h y. s' = s\<lparr>a_heap := h, a_vars := (a_vars s)(v \<mapsto> y)\<rparr> \<and> v_parents y = [] \<and> restorable L (y\<lparr>v_parents := parents\<rparr>)))"

lemma attach_ctx_ok:
  assumes mk: "\<And>v s c s'. mk v s = Inr (c, s') \<Longrightarrow> (\<exists>h. s' = s\<lparr>a_heap := h\<rparr>) \<and>
      (\<forall>z. v_parents z = parents \<longrightarrow> v_params z = params \<longrightarrow> (\<exists>c'. rebuild_ctx L re z = Inr c' \<and> restores L c c'))"
  shows "attach_ok L parents (\<lambda>v. attach_ctx v re params (mk v))"
  unfolding attach_ok_def
proof (intro allI impI)
  fix v s s' x
  assume a: "attach_ctx v re params (mk v) s = Inr s'" "a_vars s v = Some x" "fresh_var x"
  obtain ok h where al: "aligned_alloc_wrapper (a_heap s) = (ok, h)" by (cases "aligned_alloc_wrapper (a_heap s)")
  show "\<exists>h y. s' = s\<lparr>a_heap := h, a_vars := (a_vars s)(v \<mapsto> y)\<rparr> \<and> v_parents y = [] \<and> restorable L (y\<lparr>v_parents := parents\<rparr>)"
  proof (cases ok)
    case False
    then have "s' = s\<lparr>a_heap := h\<rparr>" using a(1) al by (simp add: attach_ctx_def)
    then have "s' = s\<lparr>a_heap := h, a_vars := (a_vars s)(v \<mapsto> x)\<rparr>" using a(2) by (simp add: fun_upd_idem)
    then show ?thesis using a(3) by (intro exI [of _ h] exI [of _ x]) (simp add: fresh_var_def restorable_def)
  next
    case True
    then obtain c s2 where c: "mk v (s\<lparr>a_heap := h\<rparr>) = Inr (c, s2)"
      "bind_run (get_var v s2) (\<lambda>x. Inr (put_var v (x\<lparr>v_backward_fn := True, v_backward_ctx := Some c, v_free_ctx := True,
         v_recompute_ctx := Some re, v_params := params\<rparr>) s2)) = Inr s'"
      using a(1) al by (auto simp: attach_ctx_def)
    obtain k where k: "s2 = s\<lparr>a_heap := k\<rparr>" using mk [OF c(1)] by auto
    let ?y = "x\<lparr>v_backward_fn := True, v_backward_ctx := Some c, v_free_ctx := True, v_recompute_ctx := Some re, v_params := params\<rparr>"
    have "s' = s\<lparr>a_heap := k, a_vars := (a_vars s)(v \<mapsto> ?y)\<rparr>" using c(2) k a(2) by (simp add: get_var_def put_var_def)
    then show ?thesis using a(3) mk [OF c(1)]
      by (intro exI [of _ k] exI [of _ ?y]) (simp add: fresh_var_def restorable_def)
  qed
qed

lemma plain_ctx_ok:
  assumes "\<And>z. v_parents z = parents \<Longrightarrow> v_params z = params \<Longrightarrow> \<exists>c'. rebuild_ctx L re z = Inr c' \<and> restores L c c'"
  shows "attach_ok L parents (plain_ctx re params c)"
proof -
  have "s\<lparr>a_heap := a_heap s\<rparr> = s" for s :: ops by simp
  then have "\<exists>h. s = s\<lparr>a_heap := h\<rparr>" for s :: ops by metis
  then show ?thesis unfolding plain_ctx_def using assms by (intro attach_ctx_ok) auto
qed

lemma set_parents_cases:
  assumes "set_parents v parents s = Inr s'" "a_vars s v = Some x" "v_parents x = []"
  shows "\<exists>h. s' = s\<lparr>a_heap := h\<rparr> \<or> s' = s\<lparr>a_heap := h, a_vars := (a_vars s)(v \<mapsto> x\<lparr>v_parents := parents\<rparr>)\<rparr>"
proof (cases "parents = []")
  case True
  then have "s' = s\<lparr>a_heap := a_heap s\<rparr>" using assms by (simp add: set_parents_def)
  then show ?thesis by blast
next
  case False
  then show ?thesis
    using assms by (auto simp: set_parents_def Let_def get_var_def put_var_def split: if_splits prod.splits)
qed

lemma restorable_variants:
  "restorable L (x\<lparr>v_parents := ps\<rparr>) \<Longrightarrow> restorable L (x\<lparr>v_parents := ps, v_checkpointed := True, v_backward_ctx := None\<rparr>)"
  "v_parents x = [] \<Longrightarrow> restorable L x" "v_backward_ctx x = None \<Longrightarrow> restorable L x"
  by (simp_all add: restorable_def)

lemma record_new:
  assumes r: "bind_run (SNEPPX_tape_record (op_hooks L) tape (Some (a_next s)) s1) (\<lambda>(tape, s). Inr (Some (a_next s0), tape, s)) =
      Inr (w, tape', s')" and s1: "a_vars s1 = (a_vars s)(a_next s \<mapsto> x)" "a_next s1 = a_next s + 1" "a_no_grad s1 = a_no_grad s"
    and x: "restorable L x" "\<forall>p \<in> set (v_parents x). var_alive s p" and s0: "a_next s0 = a_next s"
  shows "a_no_grad s' = a_no_grad s \<and> (\<exists>x. w = Some (a_next s) \<and> a_next s' = a_next s + 1 \<and> a_vars s' = (a_vars s)(a_next s \<mapsto> x) \<and> restorable L x \<and>
      (\<forall>p \<in> set (v_parents x). var_alive s p) \<and> tape_extends tape tape' (a_next s))"
proof -
  have "SNEPPX_tape_record (op_hooks L) tape (Some (a_next s)) s1 = Inr (tape', s')" "w = Some (a_next s)"
    using r s0 by auto
  then have t: "tape_extends tape tape' (a_next s) \<and> a_next s' = a_next s1 \<and> a_no_grad s' = a_no_grad s1 \<and>
      (\<exists>y. a_vars s' = (a_vars s1)(a_next s \<mapsto> y) \<and> (y = x \<or> y = x\<lparr>v_checkpointed := True, v_backward_ctx := None\<rparr>))"
    using tape_record_adds [of L tape "a_next s" s1 tape' s' x] s1(1) by simp
  then obtain y where y: "a_vars s' = (a_vars s1)(a_next s \<mapsto> y)" "y = x \<or> y = x\<lparr>v_checkpointed := True, v_backward_ctx := None\<rparr>" by blast
  have "restorable L y" "v_parents y = v_parents x" using y(2) x(1) by (auto simp: restorable_def)
  then show ?thesis using t y(1) s1 x(2) \<open>w = Some (a_next s)\<close> by auto
qed

text \<open>The states reached by heap operations.\<close>

lemma with_heap_state: "with_heap f s = Inr (r, s') \<Longrightarrow> \<exists>h. s' = s\<lparr>a_heap := h\<rparr>"
  by (auto simp: with_heap_def)

lemma drop_tensors_state: "drop_tensors ts s = Inr s' \<Longrightarrow> \<exists>h. s' = s\<lparr>a_heap := h\<rparr>"
  by (auto simp: drop_tensors_def on_heap_def)

lemma adds_none: "adds_one L tape s (Inr (None, tape, s\<lparr>a_heap := h\<rparr>))" "adds_one L tape s (Inr (None, tape, s))"
  by (simp_all add: adds_one_def)

lemma adds_one_heap: "adds_one L tape (s\<lparr>a_heap := h\<rparr>) m \<longleftrightarrow> adds_one L tape s m"
  by (simp add: adds_one_def var_alive_def cong: option.case_cong)

lemma op_plain_adds: "adds_one L tape s (op_plain L tape result s)"
proof (cases result)
  case None
  then show ?thesis by (simp add: op_plain_def adds_none)
next
  case (Some r)
  obtain w s1 where c: "SNEPPX_variable_create result 0 s = (w, s1)" by fastforce
  show ?thesis
  proof (cases w)
    case None
    then show ?thesis using variable_create_cases [OF c] c Some
      by (auto simp: op_plain_def adds_one_def bind_run_eq_Inr dest!: drop_tensors_state)
  next
    case w: (Some v)
    obtain h x where x: "v = a_next s" "fresh_var x"
      "s1 = s\<lparr>a_heap := h, a_vars := (a_vars s)(a_next s \<mapsto> x), a_next := a_next s + 1\<rparr>"
      using variable_create_cases [OF c] w by auto
    have eq: "op_plain L tape result s =
        bind_run (SNEPPX_tape_record (op_hooks L) tape (Some (a_next s)) s1) (\<lambda>(tape, s'). Inr (Some (a_next s), tape, s'))"
      using c Some w x(1) by (simp add: op_plain_def)
    have s1: "a_vars s1 = (a_vars s)(a_next s \<mapsto> x)" "a_next s1 = a_next s + 1" "a_no_grad s1 = a_no_grad s"
      "restorable L x" "\<forall>p \<in> set (v_parents x). var_alive s p"
      using x(2,3) by (simp_all add: fresh_var_def restorable_variants)
    show ?thesis unfolding adds_one_def eq by (intro allI impI, drule record_new [OF _ s1 refl]) simp
  qed
qed

lemma op_finish_adds:
  assumes a: "attach_ok L parents attach" and p: "\<forall>p \<in> set parents. var_alive s p"
  shows "adds_one L tape s (op_finish L tape rg result attach parents s)"
proof (cases result)
  case None
  then show ?thesis by (simp add: op_finish_def adds_none)
next
  case (Some r)
  obtain w s1 where c: "SNEPPX_variable_create result (of_bool rg) s = (w, s1)" by fastforce
  show ?thesis
  proof (cases w)
    case None
    then show ?thesis using variable_create_cases [OF c] c Some
      by (auto simp: op_finish_def adds_one_def bind_run_eq_Inr dest!: drop_tensors_state)
  next
    case w: (Some v)
    obtain h x where x: "v = a_next s" "fresh_var x"
      "s1 = s\<lparr>a_heap := h, a_vars := (a_vars s)(a_next s \<mapsto> x), a_next := a_next s + 1\<rparr>"
      using variable_create_cases [OF c] w by auto
    let ?m = "if rg \<and> \<not> SNEPPX_no_grad_is_active s1 then bind_run (attach v s1) (set_parents v parents) else Inr s1"
    have built: "\<exists>y. a_vars s2 = (a_vars s)(a_next s \<mapsto> y) \<and> a_next s2 = a_next s + 1 \<and> a_no_grad s2 = a_no_grad s \<and>
        restorable L y \<and> (\<forall>p \<in> set (v_parents y). var_alive s p)" if m: "?m = Inr s2" for s2
    proof (cases "rg \<and> \<not> SNEPPX_no_grad_is_active s1")
      case False
      then show ?thesis using m x by (intro exI [of _ x]) (auto simp: fresh_var_def restorable_variants)
    next
      case True
      then obtain s3 where s3: "attach v s1 = Inr s3" "set_parents v parents s3 = Inr s2" using m by auto
      obtain h' y where y: "s3 = s1\<lparr>a_heap := h', a_vars := (a_vars s1)(v \<mapsto> y)\<rparr>" "v_parents y = []" "restorable L (y\<lparr>v_parents := parents\<rparr>)"
        using a [unfolded attach_ok_def, rule_format, OF s3(1) _ x(2)] x(1,3) by auto
      have "a_vars s3 v = Some y" using y(1) by simp
      from set_parents_cases [OF s3(2) this y(2)] show ?thesis
      proof (elim exE disjE)
        fix k assume "s2 = s3\<lparr>a_heap := k\<rparr>"
        then show ?thesis using y x by (intro exI [of _ y]) (simp add: restorable_variants)
      next
        fix k assume "s2 = s3\<lparr>a_heap := k, a_vars := (a_vars s3)(v \<mapsto> y\<lparr>v_parents := parents\<rparr>)\<rparr>"
        then show ?thesis using y x p by (intro exI [of _ "y\<lparr>v_parents := parents\<rparr>"]) simp
      qed
    qed
    have eq: "op_finish L tape rg result attach parents s = bind_run ?m (\<lambda>s2.
        if SNEPPX_no_grad_is_active s2 then Inr (Some (a_next s), tape, s2)
        else bind_run (SNEPPX_tape_record (op_hooks L) tape (Some (a_next s)) s2) (\<lambda>(tape, s'). Inr (Some (a_next s), tape, s')))"
      using c Some w x(1) by (simp add: op_finish_def)
    show ?thesis unfolding adds_one_def
    proof (intro allI impI)
      fix u tape' s'
      assume "op_finish L tape rg result attach parents s = Inr (u, tape', s')"
      then obtain s2 where s2: "?m = Inr s2" "(if SNEPPX_no_grad_is_active s2 then Inr (Some (a_next s), tape, s2)
        else bind_run (SNEPPX_tape_record (op_hooks L) tape (Some (a_next s)) s2) (\<lambda>(tape, s'). Inr (Some (a_next s), tape, s'))) = Inr (u, tape', s')"
        unfolding eq by blast
      obtain y where y: "a_vars s2 = (a_vars s)(a_next s \<mapsto> y)" "a_next s2 = a_next s + 1" "a_no_grad s2 = a_no_grad s"
        "restorable L y" "\<forall>p \<in> set (v_parents y). var_alive s p" using built [OF s2(1)] by blast
      show "a_no_grad s' = a_no_grad s \<and> ((u = None \<and> tape' = tape \<and> a_vars s' = a_vars s \<and> a_next s' = a_next s) \<or>
        (\<exists>x. u = Some (a_next s) \<and> a_next s' = a_next s + 1 \<and> a_vars s' = (a_vars s)(a_next s \<mapsto> x) \<and> restorable L x \<and>
         (\<forall>p \<in> set (v_parents x). var_alive s p) \<and> tape_extends tape tape' (a_next s)))"
      proof (cases "SNEPPX_no_grad_is_active s2")
        case True
        then show ?thesis using s2(2) y tape_extends_refl [of tape] by (intro conjI disjI2 exI [of _ y]) simp_all
      next
        case False
        then have "bind_run (SNEPPX_tape_record (op_hooks L) tape (Some (a_next s)) s2) (\<lambda>(tape, s'). Inr (Some (a_next s), tape, s')) = Inr (u, tape', s')"
          using s2(2) by simp
        from record_new [OF this y refl] show ?thesis by simp
      qed
    qed
  qed
qed

section \<open>The operations one by one\<close>

lemma adds_read: "(\<And>x. m = Inr x \<Longrightarrow> adds_one L tape s (f x)) \<Longrightarrow> adds_one L tape s (bind_run m f)"
  by (cases m) (simp_all add: adds_one_def)

lemma adds_with_heap:
  "(\<And>r h. adds_one L tape (s\<lparr>a_heap := h\<rparr>) (f r (s\<lparr>a_heap := h\<rparr>))) \<Longrightarrow> adds_one L tape s (bind_run (with_heap g s) (\<lambda>(r, s). f r s))"
  by (rule adds_read) (auto dest!: with_heap_state simp: adds_one_heap)

lemma operands_live: "operands ps s = Inr (Some ds) \<Longrightarrow> \<forall>p \<in> set ps. var_alive s p"
proof (induction ps arbitrary: ds)
  case (Cons p ps)
  then obtain v x es where "p = Some v" "a_vars s v = Some x" "operands ps s = Inr (Some es)"
    by (cases p) (auto simp: get_var_some split: if_splits)
  then show ?case using Cons.IH by (simp add: var_alive_def)
qed simp

lemma live_heap [simp]: "var_alive (s\<lparr>a_heap := h\<rparr>) p = var_alive s p"
  by (simp add: var_alive_def cong: option.case_cong)

lemma adds_operands:
  assumes "\<And>ds. operands ps s = Inr (Some ds) \<Longrightarrow> adds_one L tape s (f ds)"
  shows "adds_one L tape s (bind_run (operands ps s) (\<lambda>ds. case ds of None \<Rightarrow> Inr (None, tape, s) | Some ds \<Rightarrow> f ds))"
  by (rule adds_read) (auto simp: adds_none assms split: option.splits)

lemma unary_op_adds: "attach_ok L [a] attach \<Longrightarrow> adds_one L tape s (unary_op L f attach tape a s)"
  unfolding unary_op_def
  by (rule adds_read, rule adds_operands, rule adds_with_heap, rule op_finish_adds) (auto dest: operands_live)

lemma binary_op_adds: "attach_ok L [a, b] attach \<Longrightarrow> adds_one L tape s (binary_op L both f attach tape a b s)"
  unfolding binary_op_def
  by (rule adds_read, rule adds_operands, rule adds_with_heap, rule op_finish_adds) (auto dest: operands_live)

lemma step_op_adds: "adds_one L tape s (step_op L f tape a s)"
  unfolding step_op_def by (rule adds_operands, rule adds_with_heap, rule op_plain_adds)

lemma op_zero_grad_adds: "adds_one L tape s (op_zero_grad L f tape a b s)"
  unfolding op_zero_grad_def by (rule adds_operands, rule adds_with_heap, rule op_plain_adds)

lemmas rebuild_simps = one_parent_def two_parents_def three_parents_def parent_at_def param_at_def float_param_def load_cell_def

lemma unary_ctx_ok: "attach_ok L [a] (plain_ctx (Re_Unary k) [] (Unary_Ctx k a))"
  and dim_ctx_ok: "attach_ok L [a] (plain_ctx (Re_Dim dk) [dim] (Dim_Ctx dk a dim))"
  and binary_ctx_ok: "attach_ok L [a, b] (plain_ctx (Re_Binary bk) [] (Binary_Ctx bk a b))"
  by (rule plain_ctx_ok, simp add: rebuild_simps)+

lemma get_var_live: "get_var v s = Inr x \<Longrightarrow> var_alive s (Some v)"
  by (simp add: var_alive_def get_var_some)

lemma pow_ctx_ok: "attach_ok L [a, b] (\<lambda>v. attach_ctx v Re_Pow [] (\<lambda>s.
       bind_run (get_var v s) (\<lambda>x.
       bind_run (with_heap (SNEPPX_tensor_copy (v_data x)) s) (\<lambda>(r, s). Inr (PowCtx a b r, s)))))"
  by (rule attach_ctx_ok) (auto simp: rebuild_simps dest: with_heap_state)

lemma concat_ctx_ok:
  assumes "vs \<noteq> []"
  shows "attach_ok L vs (\<lambda>v. attach_ctx v Re_Concat [dim] (concat_ctx vs dim))"
  by (rule attach_ctx_ok)
     (use assms in \<open>auto simp: concat_ctx_def Let_def rebuild_simps bind_run_eq_Inr split: prod.splits if_splits\<close>)

lemma data_or_null_live: "data_or_null p s = Inr d \<Longrightarrow> var_alive s p"
  by (auto simp: data_or_null_def data_ptr_def get_ptr_def var_alive_def get_var_some split: option.splits)

lemma layer_norm_adds: "adds_one L tape s (SNEPPX_layer_norm L tape a gamma beta eps s)"
  unfolding SNEPPX_layer_norm_def
  by (rule adds_read, rule adds_operands, rule adds_read, rule adds_read, rule adds_with_heap, rule op_finish_adds)
     (auto intro!: plain_ctx_ok simp: rebuild_simps dest: operands_live data_or_null_live)

lemma batch_norm_adds: "adds_one L tape s (SNEPPX_batch_norm L tape a gamma beta rm rv eps s)"
  unfolding SNEPPX_batch_norm_def
  by (rule adds_read, rule adds_operands, rule adds_with_heap, rule op_finish_adds)
     (auto intro!: plain_ctx_ok simp: rebuild_simps dest: operands_live)

lemma concat_adds: "adds_one L tape s (SNEPPX_concat L tape vars dim s)"
proof (cases vars)
  case None
  then show ?thesis by (simp add: SNEPPX_concat_def adds_none)
next
  case (Some vs)
  show ?thesis
  proof (cases "vs = []")
    case True
    then show ?thesis by (simp add: SNEPPX_concat_def adds_none Some)
  next
    case False
    have fin: "adds_one L tape s (bind_run (with_heap g (s\<lparr>a_heap := h\<rparr>)) (\<lambda>(r, s). op_finish L tape rg r
        (\<lambda>v. attach_ctx v Re_Concat [dim] (concat_ctx vs dim)) vs (s\<lparr>a_heap := free_block True (a_heap s)\<rparr>)))"
      if "operands vs s = Inr (Some ds)" for ds g h rg
    proof -
      have "adds_one L tape (s\<lparr>a_heap := h\<rparr>) (bind_run (with_heap g (s\<lparr>a_heap := h\<rparr>)) (\<lambda>(r, s). op_finish L tape rg r
        (\<lambda>v. attach_ctx v Re_Concat [dim] (concat_ctx vs dim)) vs (s\<lparr>a_heap := free_block True (a_heap s)\<rparr>)))"
        by (rule adds_with_heap, subst adds_one_heap [symmetric, where h = "free_block True k" for k], rule op_finish_adds [OF concat_ctx_ok [OF False]])
           (use operands_live [OF that] in simp)
      then show ?thesis by (simp add: adds_one_heap)
    qed
    show ?thesis unfolding SNEPPX_concat_def Some option.case Let_def if_not_P [OF False]
      by (rule adds_operands, rule adds_read) (auto simp: adds_none fin split: prod.splits)
  qed
qed

lemma rope_adds: "adds_one L tape s (SNEPPX_rope L tape a cos_table s)"
  by (auto simp: SNEPPX_rope_def adds_none rebuild_simps intro!: unary_op_adds plain_ctx_ok)

text \<open>The calls of the operations of \<open>ops.c\<close> with a tape in a state.\<close>

inductive op_run :: "mathlib \<Rightarrow> tape option \<Rightarrow> ops \<Rightarrow> op_result \<Rightarrow> bool" for L tape s where
  op_eq: "op_run L tape s (SNEPPX_eq L tape a b s)"
| op_ne: "op_run L tape s (SNEPPX_ne L tape a b s)"
| op_lt: "op_run L tape s (SNEPPX_lt L tape a b s)"
| op_le: "op_run L tape s (SNEPPX_le L tape a b s)"
| op_gt: "op_run L tape s (SNEPPX_gt L tape a b s)"
| op_ge: "op_run L tape s (SNEPPX_ge L tape a b s)"
| op_add: "op_run L tape s (SNEPPX_add L tape a b s)"
| op_sub: "op_run L tape s (SNEPPX_sub L tape a b s)"
| op_mul: "op_run L tape s (SNEPPX_mul L tape a b s)"
| op_div: "op_run L tape s (SNEPPX_div L tape a b s)"
| op_matmul: "op_run L tape s (SNEPPX_matmul L tape a b s)"
| op_mse_loss: "op_run L tape s (SNEPPX_mse_loss L tape a b s)"
| op_embedding: "op_run L tape s (SNEPPX_embedding L tape a b s)"
| op_cross_entropy: "op_run L tape s (SNEPPX_cross_entropy L tape a b s)"
| op_minimum: "op_run L tape s (SNEPPX_minimum L tape a b s)"
| op_maximum: "op_run L tape s (SNEPPX_maximum L tape a b s)"
| op_nll_loss: "op_run L tape s (SNEPPX_nll_loss L tape a b s)"
| op_bce_loss: "op_run L tape s (SNEPPX_bce_loss L tape a b s)"
| op_pow: "op_run L tape s (SNEPPX_pow L tape a b s)"
| op_sign: "op_run L tape s (SNEPPX_sign L tape a s)"
| op_floor: "op_run L tape s (SNEPPX_floor L tape a s)"
| op_ceil: "op_run L tape s (SNEPPX_ceil L tape a s)"
| op_round: "op_run L tape s (SNEPPX_round L tape a s)"
| op_trunc: "op_run L tape s (SNEPPX_trunc L tape a s)"
| op_neg: "op_run L tape s (SNEPPX_neg L tape a s)"
| op_relu: "op_run L tape s (SNEPPX_relu L tape a s)"
| op_gelu: "op_run L tape s (SNEPPX_gelu L tape a s)"
| op_silu: "op_run L tape s (SNEPPX_silu L tape a s)"
| op_sigmoid: "op_run L tape s (SNEPPX_sigmoid L tape a s)"
| op_tanh: "op_run L tape s (SNEPPX_tanh L tape a s)"
| op_exp: "op_run L tape s (SNEPPX_exp L tape a s)"
| op_log: "op_run L tape s (SNEPPX_log L tape a s)"
| op_sqrt: "op_run L tape s (SNEPPX_sqrt L tape a s)"
| op_abs: "op_run L tape s (SNEPPX_abs L tape a s)"
| op_sin: "op_run L tape s (SNEPPX_sin L tape a s)"
| op_cos: "op_run L tape s (SNEPPX_cos L tape a s)"
| op_tan: "op_run L tape s (SNEPPX_tan L tape a s)"
| op_asin: "op_run L tape s (SNEPPX_asin L tape a s)"
| op_acos: "op_run L tape s (SNEPPX_acos L tape a s)"
| op_atan: "op_run L tape s (SNEPPX_atan L tape a s)"
| op_sinh: "op_run L tape s (SNEPPX_sinh L tape a s)"
| op_cosh: "op_run L tape s (SNEPPX_cosh L tape a s)"
| op_cumsum: "op_run L tape s (SNEPPX_cumsum L tape a dim s)"
| op_cumprod: "op_run L tape s (SNEPPX_cumprod L tape a dim s)"
| op_softmax: "op_run L tape s (SNEPPX_softmax L tape a dim s)"
| op_sum: "op_run L tape s (SNEPPX_sum L tape a dim s)"
| op_mean: "op_run L tape s (SNEPPX_mean L tape a dim s)"
| op_log_softmax: "op_run L tape s (SNEPPX_log_softmax L tape a dim s)"
| op_var: "op_run L tape s (SNEPPX_var L tape a dim s)"
| op_std: "op_run L tape s (SNEPPX_std L tape a dim s)"
| op_reshape: "op_run L tape s (SNEPPX_reshape L tape a shape s)"
| op_transpose: "op_run L tape s (SNEPPX_transpose L tape a dim1 dim2 s)"
| op_fake_quant: "op_run L tape s (SNEPPX_fake_quant L tape a scale bits s)"
| op_dropout: "op_run L tape s (SNEPPX_dropout L tape a rate seed s)"
| op_conv1d: "op_run L tape s (SNEPPX_conv1d L tape a b stride padding s)"
| op_conv2d: "op_run L tape s (SNEPPX_conv2d L tape a b sh sw ph pw s)"
| op_rope: "op_run L tape s (SNEPPX_rope L tape a cos_table s)"
| op_layer_norm: "op_run L tape s (SNEPPX_layer_norm L tape a gamma beta eps s)"
| op_batch_norm: "op_run L tape s (SNEPPX_batch_norm L tape a gamma beta rm rv eps s)"
| op_concat: "op_run L tape s (SNEPPX_concat L tape vars dim s)"

lemmas operation_defs =
  SNEPPX_eq_def SNEPPX_ne_def SNEPPX_lt_def SNEPPX_le_def SNEPPX_gt_def SNEPPX_ge_def SNEPPX_add_def SNEPPX_sub_def
  SNEPPX_mul_def SNEPPX_div_def SNEPPX_matmul_def SNEPPX_mse_loss_def SNEPPX_embedding_def SNEPPX_cross_entropy_def
  SNEPPX_minimum_def SNEPPX_maximum_def SNEPPX_nll_loss_def SNEPPX_bce_loss_def SNEPPX_pow_def SNEPPX_sign_def
  SNEPPX_floor_def SNEPPX_ceil_def SNEPPX_round_def SNEPPX_trunc_def SNEPPX_neg_def SNEPPX_relu_def SNEPPX_gelu_def
  SNEPPX_silu_def SNEPPX_sigmoid_def SNEPPX_tanh_def SNEPPX_exp_def SNEPPX_log_def SNEPPX_sqrt_def SNEPPX_abs_def
  SNEPPX_sin_def SNEPPX_cos_def SNEPPX_tan_def SNEPPX_asin_def SNEPPX_acos_def SNEPPX_atan_def SNEPPX_sinh_def
  SNEPPX_cosh_def SNEPPX_cumsum_def SNEPPX_cumprod_def SNEPPX_softmax_def SNEPPX_sum_def SNEPPX_mean_def
  SNEPPX_log_softmax_def SNEPPX_var_def SNEPPX_std_def SNEPPX_reshape_def SNEPPX_transpose_def SNEPPX_fake_quant_def
  SNEPPX_dropout_def SNEPPX_conv1d_def SNEPPX_conv2d_def

lemma op_run_adds:
  assumes "op_run L tape s m" shows "adds_one L tape s m"
  using assms
  by cases
     (auto simp: operation_defs rebuild_simps
       intro!: op_zero_grad_adds step_op_adds unary_op_adds binary_op_adds unary_ctx_ok dim_ctx_ok binary_ctx_ok pow_ctx_ok
         plain_ctx_ok rope_adds layer_norm_adds batch_norm_adds concat_adds)

end
