(* ===== verification/Autodiff_Session.thy ===== *)
theory Autodiff_Session
  imports Autodiff_Graph
begin

text \<open>
  Sessions: any sequence of operations, new leaves, backward passes and changes of mode, with one tape.
  The graph a session builds has no cycle, so that a backward pass meets every variable after those computed from it.
\<close>

section \<open>Steps\<close>

inductive session_step :: "mathlib \<Rightarrow> tape option \<times> ops \<Rightarrow> tape option \<times> ops \<Rightarrow> bool" for L where
  leaf: "SNEPPX_variable_create d rg s = (w, s') \<Longrightarrow> session_step L (tape, s) (tape, s')"
| operation: "op_run L tape s m \<Longrightarrow> m = Inr (w, tape', s') \<Longrightarrow> session_step L (tape, s) (tape', s')"
| backward: "SNEPPX_tape_backward (op_hooks L) tape loss s = Inr s' \<Longrightarrow> session_step L (tape, s) (tape, s')"
| zero_grad: "SNEPPX_tape_zero_grad tape s = Inr s' \<Longrightarrow> session_step L (tape, s) (tape, s')"
| clip: "SNEPPX_tape_clip_grad_norm (ml_f L) tape max_norm s = Inr s' \<Longrightarrow> session_step L (tape, s) (tape, s')"
| requires: "SNEPPX_variable_set_requires_grad w r s = Inr s' \<Longrightarrow> session_step L (tape, s) (tape, s')"
| no_grad_enter: "session_step L (tape, s) (tape, SNEPPX_no_grad_enter s)"
| no_grad_exit: "session_step L (tape, s) (tape, SNEPPX_no_grad_exit s)"
| checkpoint_begin: "session_step L (tape, s) (SNEPPX_tape_checkpoint_begin tape, s)"
| checkpoint_end: "session_step L (tape, s) (SNEPPX_tape_checkpoint_end tape, s)"

definition session_start :: "tape \<times> ops \<Rightarrow> bool" where
  "session_start = (\<lambda>(t, s). num_vars t = 0 \<and> a_vars s = Map.empty)"

section \<open>The invariant\<close>

definition parents_of :: "'c ad \<Rightarrow> nat \<rightharpoonup> nat option list" where
  "parents_of s v = map_option v_parents (a_vars s v)"

definition session_ok :: "tape option \<times> ops \<Rightarrow> bool" where
  "session_ok = (\<lambda>(tape, s).
     (\<forall>v ps. parents_of s v = Some ps \<longrightarrow> v < a_next s \<and> (\<forall>p. Some p \<in> set ps \<longrightarrow> p < v)) \<and>
     (\<forall>t. tape = Some t \<longrightarrow> num_vars t \<le> length (tp_vars t) \<and>
        (\<exists>vs. recorded t = map Some vs \<and> sorted_wrt (<) vs \<and> (\<forall>v \<in> set vs. parents_of s v \<noteq> None))))"

lemma parents_of_graph:
  assumes "graph s' = graph s" shows "parents_of s' = parents_of s" "a_next s' = a_next s"
proof -
  have c: "v_parents (core x) = v_parents x" for x :: "'c variable" by (simp add: core_def)
  have "map_option core (a_vars s' v) = map_option core (a_vars s v)" for v using assms by (auto simp: graph_def dest: fun_cong)
  then have "map_option (v_parents \<circ> core) (a_vars s' v) = map_option (v_parents \<circ> core) (a_vars s v)" for v
    by (metis option.map_comp)
  then show "parents_of s' = parents_of s" by (auto simp: parents_of_def c o_def)
  show "a_next s' = a_next s" using assms by (simp add: graph_def)
qed

lemma parents_of_cong: "a_vars s' = a_vars s \<Longrightarrow> parents_of s' = parents_of s"
  by (simp add: parents_of_def fun_eq_iff)

lemma session_ok_cong:
  "parents_of s' = parents_of s \<Longrightarrow> a_next s' = a_next s \<Longrightarrow> session_ok (tape, s) \<Longrightarrow> session_ok (tape, s')"
  by (simp add: session_ok_def)

lemma session_ok_kept: "kept s (Inr s') \<Longrightarrow> session_ok (tape, s) \<Longrightarrow> session_ok (tape, s')"
  using session_ok_cong parents_of_graph by (metis kept_def)

lemma session_ok_add:
  assumes ok: "session_ok (tape, s)" and s': "a_vars s' = (a_vars s)(a_next s \<mapsto> x)" "a_next s' = a_next s + 1"
    and p: "\<forall>p \<in> set (v_parents x). var_alive s p" and t: "tape_extends tape tape' (a_next s)"
  shows "session_ok (tape', s')"
proof -
  have old: "v < a_next s" "\<forall>p. Some p \<in> set ps \<longrightarrow> p < v" if "parents_of s v = Some ps" for v ps
    using ok that by (auto simp: session_ok_def)
  have par: "parents_of s' = (parents_of s)(a_next s \<mapsto> v_parents x)" by (auto simp: parents_of_def s'(1) fun_eq_iff)
  have new: "p < a_next s" if "Some p \<in> set (v_parents x)" for p
    using p that old(1) by (fastforce simp: var_alive_def parents_of_def)
  have vars: "\<forall>v ps. parents_of s' v = Some ps \<longrightarrow> v < a_next s' \<and> (\<forall>p. Some p \<in> set ps \<longrightarrow> p < v)"
    using old new by (auto simp: par s'(2) less_Suc_eq)
  have "num_vars t' \<le> length (tp_vars t') \<and> (\<exists>vs. recorded t' = map Some vs \<and> sorted_wrt (<) vs \<and> (\<forall>v \<in> set vs. parents_of s' v \<noteq> None))"
    if t': "tape' = Some t'" for t'
  proof -
    obtain t0 where t0: "tape = Some t0" using t t' by (cases tape) (auto simp: tape_extends_def)
    then obtain vs where vs: "num_vars t0 \<le> length (tp_vars t0)" "recorded t0 = map Some vs" "sorted_wrt (<) vs" "\<forall>v \<in> set vs. parents_of s v \<noteq> None"
      using ok by (auto simp: session_ok_def)
    have less: "\<forall>v \<in> set vs. v < a_next s" using vs(4) old(1) by auto
    have "num_vars t' \<le> length (tp_vars t')" "recorded t' = map Some vs \<or> recorded t' = map Some (vs @ [a_next s])"
      using t vs(1,2) by (auto simp: tape_extends_def t0 t')
    moreover have "sorted_wrt (<) (vs @ [a_next s])" using vs(3) less by (simp add: sorted_wrt_append)
    ultimately show ?thesis using vs(3,4) by (fastforce simp: par)
  qed
  then show ?thesis using vars by (simp add: session_ok_def)
qed

lemma kept_scale_grad: "kept s (scale_grad F k w s)"
  unfolding scale_grad_def by (rule kept_structure keeps | assumption | simp)+

lemma kept_zero_grad: "kept s (SNEPPX_variable_zero_grad w s)"
  by (auto simp: kept_def SNEPPX_variable_zero_grad_def bind_run_eq_Inr get_var_some on_heap_def put_var_def graph_def fun_eq_iff
      split: option.splits)

lemma kept_clip: "kept s (SNEPPX_tape_clip_grad_norm F tape m s)"
  unfolding SNEPPX_tape_clip_grad_norm_def
  by (rule kept_structure keeps kept_scale_grad | assumption | simp)+

lemma kept_tape_zero_grad: "kept s (SNEPPX_tape_zero_grad tape s)"
  unfolding SNEPPX_tape_zero_grad_def by (rule kept_structure keeps kept_zero_grad | assumption | simp)+

lemma session_step_ok:
  assumes "session_step L c c'" "session_ok c" shows "session_ok c'"
  using assms
proof cases
  case (leaf d rg s w s' tape)
  have ok: "session_ok (tape, s)" using assms(2) leaf by simp
  have "session_ok (tape, s')" using variable_create_cases [OF leaf(3)]
  proof (elim disjE exE conjE)
    fix h assume "s' = s\<lparr>a_heap := h\<rparr>"
    then show ?thesis using session_ok_cong [OF _ _ ok] by (simp add: parents_of_def fun_eq_iff)
  next
    fix h x assume "fresh_var x" "s' = s\<lparr>a_heap := h, a_vars := (a_vars s)(a_next s \<mapsto> x), a_next := a_next s + 1\<rparr>"
    then show ?thesis by (intro session_ok_add [OF ok _ _ _ tape_extends_refl, where x = x]) (simp_all add: fresh_var_def)
  qed
  then show ?thesis using leaf by simp
next
  case (operation tape s m w tape' s')
  then show ?thesis using op_run_adds [OF operation(3)] assms(2) session_ok_add [of tape s s' _ tape']
    by (auto simp: adds_one_def intro: session_ok_cong [OF parents_of_cong])
next
  case (backward tape loss s s')
  then show ?thesis using kept_tape_backward [of s L tape loss] session_ok_kept assms(2) by simp
next
  case (zero_grad tape s s')
  then show ?thesis using kept_tape_zero_grad [of s tape] session_ok_kept assms(2) by simp
next
  case (clip tape m s s')
  then show ?thesis using kept_clip [of s "ml_f L" tape m] session_ok_kept assms(2) by simp
next
  case (requires w r s s' tape)
  then have "parents_of s' = parents_of s" "a_next s' = a_next s"
    by (auto simp: SNEPPX_variable_set_requires_grad_def parents_of_def put_var_def get_var_some fun_eq_iff split: option.splits)
  then show ?thesis using assms(2) requires session_ok_cong by blast
next
  case (no_grad_enter tape s)
  then show ?thesis using assms(2) by (auto simp: SNEPPX_no_grad_enter_def parents_of_def fun_eq_iff intro: session_ok_cong)
next
  case (no_grad_exit tape s)
  then show ?thesis using assms(2) by (auto simp: SNEPPX_no_grad_exit_def parents_of_def fun_eq_iff intro: session_ok_cong)
next
  case (checkpoint_begin tape s)
  then show ?thesis using assms(2) by (auto simp: SNEPPX_tape_checkpoint_begin_def session_ok_def recorded_def)
next
  case (checkpoint_end tape s)
  then show ?thesis using assms(2) by (auto simp: SNEPPX_tape_checkpoint_end_def session_ok_def recorded_def)
qed

lemma session_steps_ok: "(session_step L)\<^sup>*\<^sup>* c c' \<Longrightarrow> session_ok c \<Longrightarrow> session_ok c'"
  by (induction rule: rtranclp_induct) (auto intro: session_step_ok)

lemma session_start_ok: "session_start (t, s) \<Longrightarrow> session_ok (Some t, s)"
  by (auto simp: session_start_def session_ok_def parents_of_def recorded_def)

end
