(* ===== verification/Autodiff_Grads.thy ===== *)
theory Autodiff_Grads
  imports Autodiff_Session Tensor_Reduce
begin

text \<open>
  The values of gradients, cell by cell, on the heap.
\<close>

section \<open>Requests for memory that succeed\<close>

text \<open>No storage at or above the next address, and every request granted.\<close>

definition tidy :: "heap \<Rightarrow> bool" where
  "tidy h \<longleftrightarrow> (\<forall>a. h_next h \<le> a \<longrightarrow> contents h a = None) \<and> (\<forall>k. h_ok h k)"

definition same_alloc :: "heap \<Rightarrow> heap \<Rightarrow> bool" where
  "same_alloc h h' \<longleftrightarrow> h_next h' = h_next h \<and> h_ok h' = h_ok h \<and> (\<forall>a. contents h' a = None \<longleftrightarrow> contents h a = None)"

lemma same_alloc_refl: "same_alloc h h" and same_alloc_trans: "same_alloc h g \<Longrightarrow> same_alloc g k \<Longrightarrow> same_alloc h k"
  and same_alloc_tidy: "same_alloc h h' \<Longrightarrow> tidy h \<Longrightarrow> tidy h'"
  by (simp_all add: same_alloc_def tidy_def)

lemma store_same_alloc: "store_bytes h a p bs = Inr h' \<Longrightarrow> same_alloc h h'"
  by (auto simp: store_bytes_def same_alloc_def contents_def split: option.splits if_splits)

lemma store_f32_same_alloc: "store_f32 t i v h = Inr h' \<Longrightarrow> same_alloc h h'"
  unfolding store_f32_def by (rule store_same_alloc)

lemma fold_same_alloc:
  assumes "\<And>j h h'. f j h = Inr h' \<Longrightarrow> same_alloc h h'" shows "fold_run f js h = Inr h' \<Longrightarrow> same_alloc h h'"
  by (induction js arbitrary: h) (auto intro: same_alloc_refl dest: assms same_alloc_trans)

lemma tidy_create:
  assumes "tidy h" "SNEPPX_tensor_create (Some sh) dt h = (Some t, h')" shows "tidy h'"
proof -
  have "created h sh dt t h'" using create_cases [of sh dt h] assms(2) by auto
  then show ?thesis using assms(1) by (auto simp: created_def installed_def Let_def tidy_def contents_def)
qed

lemma tidy_zeros:
  assumes t: "tidy h" and sh: "prod_list sh * 4 < 2 ^ 64" "0 < prod_list sh"
  obtains r h' where "SNEPPX_tensor_zeros (Some sh) SNEPPX_FLOAT32 h = Inr (Some r, h')" "fresh_cells h sh r h'" "tidy h'"
proof -
  obtain r h' where z: "SNEPPX_tensor_zeros (Some sh) SNEPPX_FLOAT32 h = Inr (Some r, h')" "fresh_cells h sh r h'"
    using zeros_makes [OF sh, of h] t by (auto simp: makes_cells_def tidy_def)
  obtain r1 h1 where c: "SNEPPX_tensor_create (Some sh) SNEPPX_FLOAT32 h = (Some r1, h1)"
    using all_ok_create [of h sh SNEPPX_FLOAT32] t by (metis tidy_def)
  have "store_bytes h1 (t_storage r1) (data_pos r1) (replicate (sz_mul (t_size r1) (t_item r1)) 0) = Inr h'"
    using z(1) c by (auto simp: SNEPPX_tensor_zeros_def bind_new_def)
  then show thesis using that z tidy_create [OF t c] store_same_alloc same_alloc_tidy by blast
qed

text \<open>A new gradient, filled by a loop that changes nothing else.\<close>

definition gets_grad :: "nat \<Rightarrow> nat list \<Rightarrow> f32 list \<Rightarrow> ops \<Rightarrow> ops \<Rightarrow> bool" where
  "gets_grad v sh gs s s' \<longleftrightarrow> (\<exists>x r. a_vars s v = Some x \<and> a_vars s' = (a_vars s)(v \<mapsto> x\<lparr>v_grad := Some r\<rparr>) \<and> t_shape r = sh \<and>
     t_size r = length gs \<and> cells (a_heap s') r gs \<and> t_storage r = h_next (a_heap s) \<and> tidy (a_heap s') \<and>
     (\<forall>a. a \<noteq> h_next (a_heap s) \<longrightarrow> contents (a_heap s') a = contents (a_heap s) a))"

lemma zeros_grad_new:
  assumes t: "tidy (a_heap s)" and v: "a_vars s v = Some x" "v_grad x = None"
    and sh: "prod_list (t_shape d) * 4 < 2 ^ 64" "0 < prod_list (t_shape d)" "\<And>gs. Q gs \<Longrightarrow> length gs = prod_list (t_shape d)"
    and body: "\<And>r g. fresh_cells (a_heap s) (t_shape d) r g \<Longrightarrow>
      \<exists>h' gs. body r g = Inr h' \<and> cells h' r gs \<and> frame r g h' \<and> same_alloc g h' \<and> Q gs"
  shows "\<exists>s' gs. zeros_grad checked F v d body s = Inr s' \<and> gets_grad v (t_shape d) gs s s' \<and> Q gs"
proof -
  obtain r g where z: "SNEPPX_tensor_zeros (Some (t_shape d)) SNEPPX_FLOAT32 (a_heap s) = Inr (Some r, g)" "fresh_cells (a_heap s) (t_shape d) r g" "tidy g"
    by (rule tidy_zeros [OF t sh(1,2)])
  obtain h' gs where h': "body r g = Inr h'" "cells h' r gs" "frame r g h'" "same_alloc g h'" "Q gs" using body [OF z(2)] by blast
  let ?s = "put_var v (x\<lparr>v_grad := Some r\<rparr>) (s\<lparr>a_heap := h'\<rparr>)"
  have "zeros_grad checked F v d body s = Inr ?s"
    using z(1) h'(1) v by (simp add: zeros_grad_def with_heap_def on_heap_def grad_accum_def get_var_def)
  moreover have "gets_grad v (t_shape d) gs s ?s"
    unfolding gets_grad_def using v z(2,3) h' same_alloc_tidy [OF h'(4) z(3)] sh(3) [OF h'(5)]
    by (intro exI [of _ x] exI [of _ r]) (auto simp: put_var_def fresh_cells_def frame_def)
  ultimately show ?thesis using h'(5) by blast
qed

section \<open>The gradients of a matrix product\<close>

lemma filter_product_snd_P: "filter (\<lambda>(x, z). Q z) (List.product xs zs) = List.product xs (filter Q zs)"
  by (induction xs) (simp_all add: filter_map o_def)

lemma filter_cell_a:
  assumes "i0 < m" "j0 < k"
  shows "filter (\<lambda>(i, j, l). i * k + j = i0 * k + j0) (List.product [0..<m] (List.product [0..<k] [0..<n])) =
    map (\<lambda>l. (i0, j0, l)) [0..<n]"
proof -
  let ?P = "\<lambda>(i, j, l :: nat). i * k + j = i0 * k + j0"
  have "filter ?P (List.product [0..<m] (List.product [0..<k] [0..<n])) = map (Pair i0) (filter (\<lambda>y. ?P (i0, y)) (List.product [0..<k] [0..<n]))"
    by (rule filter_product_fst) (use assms in \<open>auto dest: block_index(1)\<close>)
  also have "filter (\<lambda>y. ?P (i0, y)) (List.product [0..<k] [0..<n]) = map (Pair j0) (filter (\<lambda>l. ?P (i0, j0, l)) [0..<n])"
    by (rule filter_product_fst) (use assms in auto)
  finally show ?thesis by simp
qed

lemma filter_cell_b:
  assumes "j0 < k" "l0 < n"
  shows "filter (\<lambda>(i, j, l). j * n + l = j0 * n + l0) (List.product [0..<m] (List.product [0..<k] [0..<n])) =
    map (\<lambda>i. (i, j0, l0)) [0..<m]"
proof -
  let ?Q = "\<lambda>(j, l). j * n + l = j0 * n + l0"
  have "filter ?Q (List.product [0..<k] [0..<n]) = map (Pair j0) (filter (\<lambda>l. ?Q (j0, l)) [0..<n])"
    by (rule filter_product_fst) (use assms in \<open>auto dest: block_index(1)\<close>)
  also have "\<dots> = [(j0, l0)]" using filter_eq_upt [OF assms(2)] by simp
  finally have "filter (\<lambda>(i, z). ?Q z) (List.product [0..<m] (List.product [0..<k] [0..<n])) = List.product [0..<m] [(j0, l0)]"
    unfolding filter_product_snd_P by simp
  then show ?thesis by (simp add: case_prod_unfold product_concat_map concat_map_singleton)
qed

text \<open>A loop of \<open>g[idx t] += y[q t] * x[p t]\<close>.\<close>

lemma product_loop_cells:
  assumes x: "cells h x xs" "t_storage x \<noteq> t_storage g" and y: "cells h y ys" "t_storage y \<noteq> t_storage g" and g: "cells h g gs"
    and bd: "\<And>t. t \<in> set js \<Longrightarrow> p t < length xs \<and> q t < length ys \<and> idx t < length gs"
  shows "\<exists>h'. fold_run (\<lambda>t h. bind_run (load_f32 h x (p t)) (\<lambda>w. add_scaled F g (idx t) y (q t) w h)) js h = Inr h' \<and>
    cells h' g (upd_cells idx (\<lambda>t acc. f_add F acc (f_mul F (ys ! q t) (xs ! p t))) js gs) \<and> frame g h h' \<and> same_alloc h h'"
proof -
  let ?body = "\<lambda>t h. bind_run (load_f32 h x (p t)) (\<lambda>w. add_scaled F g (idx t) y (q t) w h)"
  let ?f = "\<lambda>t acc. f_add F acc (f_mul F (ys ! q t) (xs ! p t))"
  have "\<exists>h'. fold_run ?body js h = Inr h' \<and> cells h' g (upd_cells idx ?f js gs) \<and> frame g h h'"
  proof (rule cell_loop [OF g])
    fix t k acc assume t: "t \<in> set js" and fr: "frame g h k" and ld: "load_f32 k g (idx t) = Inr acc"
    have "load_f32 k x (p t) = Inr (xs ! p t)" "load_f32 k y (q t) = Inr (ys ! q t)"
      using bd [OF t] cells_frame [OF x(1) fr x(2)] cells_frame [OF y(1) fr y(2)] by (auto intro: load_cells)
    then show "?body t k = store_f32 g (idx t) (?f t acc) k" using ld by (simp add: add_scaled_def add_to_def)
  qed (use bd in auto)
  then obtain h' where h': "fold_run ?body js h = Inr h'" "cells h' g (upd_cells idx ?f js gs)" "frame g h h'" by blast
  have "same_alloc h h'"
    by (rule fold_same_alloc [OF _ h'(1)]) (auto simp: add_scaled_def add_to_def bind_run_eq_Inr dest: store_f32_same_alloc)
  then show ?thesis using h' by blast
qed

text \<open>The rows and columns of the two gradients, over the cells of row-major matrices.\<close>

definition grad_a_cells :: "f32 fops \<Rightarrow> nat \<Rightarrow> nat \<Rightarrow> nat \<Rightarrow> f32 list \<Rightarrow> f32 list \<Rightarrow> f32 list \<Rightarrow> bool" where
  "grad_a_cells F m n k zs ys gs \<longleftrightarrow> length gs = m * k \<and> (\<forall>i < m. \<forall>j < k. gs ! (i * k + j) =
     fold (\<lambda>l acc. f_add F acc (f_mul F (zs ! (i * n + l)) (ys ! (j * n + l)))) [0..<n] 0)"

definition grad_b_cells :: "f32 fops \<Rightarrow> nat \<Rightarrow> nat \<Rightarrow> nat \<Rightarrow> f32 list \<Rightarrow> f32 list \<Rightarrow> f32 list \<Rightarrow> bool" where
  "grad_b_cells F m n k xs zs gs \<longleftrightarrow> length gs = k * n \<and> (\<forall>j < k. \<forall>l < n. gs ! (j * n + l) =
     fold (\<lambda>i acc. f_add F acc (f_mul F (xs ! (i * k + j)) (zs ! (i * n + l)))) [0..<m] 0)"

lemma matrix_bounds:
  assumes "(i, j, l) \<in> set (List.product [0..<m] (List.product [0..<k] [0..<n]))"
  shows "i * k + j < m * k" "i * n + l < m * n" "j * n + l < k * n"
  using assms nested_index(2) [of j k i m] nested_index(2) [of l n i m] nested_index(2) [of l n j k] by auto

lemma matmul_grad_a_cells:
  assumes go: "cells h go zs" "t_storage go \<noteq> t_storage g" and b: "cells h b ys" "t_storage b \<noteq> t_storage g"
    and g: "cells h g (replicate (m * k) 0)" and len: "length zs = m * n" "length ys = k * n"
  shows "\<exists>h' gs. matmul_grad_a F m n k go b g h = Inr h' \<and> cells h' g gs \<and> frame g h h' \<and> same_alloc h h' \<and> grad_a_cells F m n k zs ys gs"
proof -
  let ?js = "List.product [0..<m] (List.product [0..<k] [0..<n])"
  let ?idx = "\<lambda>(i, j, l). i * k + j" and ?p = "\<lambda>(i, j, l). j * n + l" and ?q = "\<lambda>(i, j, l). i * n + l"
  let ?gs = "upd_cells ?idx (\<lambda>t acc. f_add F acc (f_mul F (zs ! ?q t) (ys ! ?p t))) ?js (replicate (m * k) 0)"
  have eq: "matmul_grad_a F m n k go b g = fold_run (\<lambda>t h. bind_run (load_f32 h b (?p t)) (\<lambda>w. add_scaled F g (?idx t) go (?q t) w h)) ?js"
    unfolding matmul_grad_a_def by (rule ext) (simp add: fold_run_product3 case_prod_unfold)
  have "grad_a_cells F m n k zs ys ?gs" unfolding grad_a_cells_def
    using filter_cell_a [of _ m _ k n] nested_index(2) [of _ k _ m] by (simp add: nth_upd_cells case_prod_unfold fold_map o_def)
  moreover have "?p t < length ys \<and> ?q t < length zs \<and> ?idx t < length (replicate (m * k) (0 :: f32))" if "t \<in> set ?js" for t
    by (cases t, use that len matrix_bounds in auto)
  ultimately show ?thesis unfolding eq using product_loop_cells [OF b go g, of ?js ?p ?q ?idx F] by blast
qed

lemma matmul_grad_b_cells:
  assumes go: "cells h go zs" "t_storage go \<noteq> t_storage g" and a: "cells h a xs" "t_storage a \<noteq> t_storage g"
    and g: "cells h g (replicate (k * n) 0)" and len: "length zs = m * n" "length xs = m * k"
  shows "\<exists>h' gs. matmul_grad_b F m n k go a g h = Inr h' \<and> cells h' g gs \<and> frame g h h' \<and> same_alloc h h' \<and> grad_b_cells F m n k xs zs gs"
proof -
  let ?js = "List.product [0..<m] (List.product [0..<k] [0..<n])"
  let ?idx = "\<lambda>(i, j, l). j * n + l" and ?p = "\<lambda>(i, j, l). i * n + l" and ?q = "\<lambda>(i, j, l). i * k + j"
  let ?gs = "upd_cells ?idx (\<lambda>t acc. f_add F acc (f_mul F (xs ! ?q t) (zs ! ?p t))) ?js (replicate (k * n) 0)"
  have eq: "matmul_grad_b F m n k go a g = fold_run (\<lambda>t h. bind_run (load_f32 h go (?p t)) (\<lambda>w. add_scaled F g (?idx t) a (?q t) w h)) ?js"
    unfolding matmul_grad_b_def by (rule ext) (simp add: fold_run_product3 case_prod_unfold)
  have "grad_b_cells F m n k xs zs ?gs" unfolding grad_b_cells_def
    using filter_cell_b [of _ k _ n m] nested_index(2) [of _ n _ k] by (simp add: nth_upd_cells case_prod_unfold fold_map o_def)
  moreover have "?p t < length zs \<and> ?q t < length xs \<and> ?idx t < length (replicate (k * n) (0 :: f32))" if "t \<in> set ?js" for t
    by (cases t, use that len matrix_bounds in auto)
  ultimately show ?thesis unfolding eq using product_loop_cells [OF go a g, of ?js ?p ?q ?idx F] by blast
qed

lemma float_tensor_size:
  assumes "float_tensor h t xs" shows "prod_list (t_shape t) * 4 < 2 ^ 64" "0 < prod_list (t_shape t)"
proof -
  show "prod_list (t_shape t) * 4 < 2 ^ 64" using assms unfolding float_tensor_def by metis
  have "prod_list (t_shape t) \<noteq> 0" using assms by (simp add: float_tensor_def prod_list_zero_iff)
  then show "0 < prod_list (t_shape t)" by simp
qed

lemma tidy_other:
  assumes "tidy h" "fresh_cells h sh r g" "cells h u us" shows "cells g u us" "t_storage u \<noteq> t_storage r"
  using assms fresh_cells_other by (auto simp: tidy_def)

lemma gets_grad_keeps:
  assumes "gets_grad v sh gs s s'" "tidy (a_heap s)" "cells (a_heap s) u us" shows "cells (a_heap s') u us"
proof -
  have "t_storage u \<noteq> h_next (a_heap s)" using assms(2,3) by (auto simp: cells_def tidy_def)
  then have "contents (a_heap s') (t_storage u) = contents (a_heap s) (t_storage u)" using assms(1) by (auto simp: gets_grad_def)
  then show ?thesis using assms(3) cells_cong by blast
qed

lemma matmul_a_step:
  assumes t: "tidy (a_heap s)" and a: "a_vars s va = Some xa" "v_grad xa = None"
    and da: "float_tensor (a_heap s) da xs" "t_shape da = [m, k]" and db: "cells (a_heap s) db ys" "length ys = k * n"
    and go: "cells (a_heap s) go zs" "length zs = m * n"
  shows "\<exists>s1 gs. zeros_grad False F va da (matmul_grad_a F m n k go db) s = Inr s1 \<and> gets_grad va (t_shape da) gs s s1 \<and> grad_a_cells F m n k zs ys gs"
proof (rule zeros_grad_new [OF t a float_tensor_size [OF da(1)]])
  fix r g assume fc: "fresh_cells (a_heap s) (t_shape da) r g"
  show "\<exists>h' gs. matmul_grad_a F m n k go db r g = Inr h' \<and> cells h' r gs \<and> frame r g h' \<and> same_alloc g h' \<and> grad_a_cells F m n k zs ys gs"
    by (rule matmul_grad_a_cells) (use da(2) db(2) go(2) tidy_other [OF t fc] db(1) go(1) fc in \<open>auto simp: fresh_cells_def\<close>)
qed (use da(2) in \<open>simp add: grad_a_cells_def\<close>)

lemma matmul_b_step:
  assumes t: "tidy (a_heap s)" and b: "a_vars s vb = Some xb" "v_grad xb = None"
    and db: "prod_list (t_shape db) * 4 < 2 ^ 64" "0 < prod_list (t_shape db)" "t_shape db = [k, n]"
    and da: "cells (a_heap s) da xs" "length xs = m * k" and go: "cells (a_heap s) go zs" "length zs = m * n"
  shows "\<exists>s1 gs. zeros_grad False F vb db (matmul_grad_b F m n k go da) s = Inr s1 \<and> gets_grad vb (t_shape db) gs s s1 \<and> grad_b_cells F m n k xs zs gs"
proof (rule zeros_grad_new [OF t b db(1,2)])
  fix r g assume fc: "fresh_cells (a_heap s) (t_shape db) r g"
  show "\<exists>h' gs. matmul_grad_b F m n k go da r g = Inr h' \<and> cells h' r gs \<and> frame r g h' \<and> same_alloc g h' \<and> grad_b_cells F m n k xs zs gs"
    by (rule matmul_grad_b_cells) (use db(3) da(2) go(2) tidy_other [OF t fc] da(1) go(1) fc in \<open>auto simp: fresh_cells_def\<close>)
qed (use db(3) in \<open>simp add: grad_b_cells_def\<close>)

lemma matmul_gradients:
  assumes t: "tidy (a_heap s)" and ab: "va \<noteq> vb"
    and a: "a_vars s va = Some xa" "v_data xa = Some da" "v_grad xa = None" "v_requires_grad xa \<noteq> 0"
    and b: "a_vars s vb = Some xb" "v_data xb = Some db" "v_grad xb = None" "v_requires_grad xb \<noteq> 0"
    and da: "float_tensor (a_heap s) da xs" "t_shape da = [m, k]" and db: "float_tensor (a_heap s) db ys" "t_shape db = [k, n]"
    and go: "float_tensor (a_heap s) go zs" "t_shape go = [m, n]"
  shows "\<exists>s' ga gb gs hs. backward_matmul L (Some va) (Some vb) (Some go) s = Inr s' \<and>
    a_vars s' = (a_vars s)(va \<mapsto> xa\<lparr>v_grad := Some ga\<rparr>, vb \<mapsto> xb\<lparr>v_grad := Some gb\<rparr>) \<and>
    t_shape ga = [m, k] \<and> cells (a_heap s') ga gs \<and> grad_a_cells (ml_f L) m n k zs ys gs \<and>
    t_shape gb = [k, n] \<and> cells (a_heap s') gb hs \<and> grad_b_cells (ml_f L) m n k xs zs hs \<and>
    (\<forall>c. c \<noteq> t_storage ga \<longrightarrow> c \<noteq> t_storage gb \<longrightarrow> contents (a_heap s') c = contents (a_heap s) c)"
proof -
  let ?F = "ml_f L"
  have f: "cells (a_heap s) da xs" "length xs = m * k" "cells (a_heap s) db ys" "length ys = k * n" "cells (a_heap s) go zs" "length zs = m * n"
    using da db go by (auto simp: float_tensor_def)
  obtain s1 gs where s1: "zeros_grad False ?F va da (matmul_grad_a ?F m n k go db) s = Inr s1" "gets_grad va [m, k] gs s s1" "grad_a_cells ?F m n k zs ys gs"
    using matmul_a_step [OF t a(1,3) da f(3-6), of ?F] da(2) by auto
  then obtain ga where ga: "a_vars s1 = (a_vars s)(va \<mapsto> xa\<lparr>v_grad := Some ga\<rparr>)" "t_shape ga = [m, k]" "cells (a_heap s1) ga gs"
    "t_storage ga = h_next (a_heap s)" "tidy (a_heap s1)" "\<forall>c. c \<noteq> h_next (a_heap s) \<longrightarrow> contents (a_heap s1) c = contents (a_heap s) c"
    using a(1) by (auto simp: gets_grad_def)
  have b1: "a_vars s1 vb = Some xb" using ga(1) b(1) ab by simp
  note keep = gets_grad_keeps [OF s1(2) t]
  obtain s2 hs where s2: "zeros_grad False ?F vb db (matmul_grad_b ?F m n k go da) s1 = Inr s2" "gets_grad vb [k, n] hs s1 s2" "grad_b_cells ?F m n k xs zs hs"
    using matmul_b_step [OF ga(5) b1 b(3) float_tensor_size [OF db(1)] db(2) keep [OF f(1)] f(2) keep [OF f(5)] f(6), of ?F] db(2) by auto
  then obtain gb where gb: "a_vars s2 = (a_vars s1)(vb \<mapsto> xb\<lparr>v_grad := Some gb\<rparr>)" "t_shape gb = [k, n]" "cells (a_heap s2) gb hs"
    "t_storage gb = h_next (a_heap s1)" "\<forall>c. c \<noteq> h_next (a_heap s1) \<longrightarrow> contents (a_heap s2) c = contents (a_heap s1) c"
    using b1 by (auto simp: gets_grad_def)
  have "cells (a_heap s2) ga gs" by (rule gets_grad_keeps [OF s2(2) ga(5,3)])
  moreover have "backward_matmul L (Some va) (Some vb) (Some go) s = Inr s2"
    using a b ab da(2) db(2) go(2) s1(1) s2(1) b1
    by (simp add: backward_matmul_def deref_def dim_of_def data_ptr_def get_ptr_def get_var_def wants_grad_def)
  ultimately show ?thesis using ga gb s1(3) s2(3)
    by (intro exI [of _ s2] exI [of _ ga] exI [of _ gb] exI [of _ gs] exI [of _ hs]) auto
qed

text \<open>For a product of two matrices, the backward function gives the left operand the product of the incoming
  gradient with the transposed right operand, and the right operand the product of the transposed left operand with
  the incoming gradient, cell by cell and summed in the order of the loops; both gradients are new tensors with the shapes of
  their operands, and no other storage changes.\<close>

theorem backward_matmul_gradients:
  assumes t: "tidy (a_heap s)" and ab: "va \<noteq> vb"
    and a: "a_vars s va = Some xa" "v_data xa = Some da" "v_grad xa = None" "v_requires_grad xa \<noteq> 0"
    and b: "a_vars s vb = Some xb" "v_data xb = Some db" "v_grad xb = None" "v_requires_grad xb \<noteq> 0"
    and da: "float_tensor (a_heap s) da xs" "t_shape da = [m, k]" and db: "float_tensor (a_heap s) db ys" "t_shape db = [k, n]"
    and go: "float_tensor (a_heap s) go zs" "t_shape go = [m, n]"
  shows "\<exists>s' ga gb gs hs. backward_matmul L (Some va) (Some vb) (Some go) s = Inr s' \<and>
    a_vars s' = (a_vars s)(va \<mapsto> xa\<lparr>v_grad := Some ga\<rparr>, vb \<mapsto> xb\<lparr>v_grad := Some gb\<rparr>) \<and>
    t_shape ga = [m, k] \<and> cells (a_heap s') ga gs \<and> grad_a_cells (ml_f L) m n k zs ys gs \<and>
    t_shape gb = [k, n] \<and> cells (a_heap s') gb hs \<and> grad_b_cells (ml_f L) m n k xs zs hs \<and>
    (\<forall>c. c \<noteq> t_storage ga \<longrightarrow> c \<noteq> t_storage gb \<longrightarrow> contents (a_heap s') c = contents (a_heap s) c)"
  by (rule matmul_gradients [OF assms])

text \<open>A state with two leaves that share a matrix, and arithmetic on bit patterns.\<close>

definition sample_math :: mathlib where
  "sample_math = \<lparr>ml_f = word_fops, ml_d = \<lparr>f_zero = 0, f_add = (+), f_sub = (-), f_mul = (*), f_div = (\<lambda>x y. x), f_neg = uminus,
     f_gt = (>), f_ge = (\<ge>), f_eq = (=), f_exp = id, f_log = id, f_sqrt = id, f_sin = id, f_cos = id, f_tanh = id, f_pow = (\<lambda>x y. x),
     f_of_size = of_nat, f_to_size = unat, f_lit = (\<lambda>m e. of_int m), f_of_bits = ucast\<rparr>,
   ml_widen = ucast, ml_narrow = ucast, ml_tan = id, ml_asin = id, ml_acos = id, ml_atan = id, ml_sinh = id, ml_cosh = id,
   ml_floor = id, ml_ceil = id, ml_round = id, ml_trunc = id, ml_of_int = of_int\<rparr>"

definition leaf_var :: "tensor option \<Rightarrow> op_ctx variable" where
  "leaf_var d = \<lparr>v_data = d, v_grad = None, v_requires_grad = 1, v_checkpointed = False, v_backward_fn = False, v_backward_ctx = None,
     v_free_ctx = False, v_recompute_ctx = None, v_params = [], v_ref_count = 0, v_parents = []\<rparr>"

definition sample_matrix :: tensor where "sample_matrix = fresh_tensor 0 [2, 2] SNEPPX_FLOAT32"

definition sample_state :: ops where
  "sample_state = \<lparr>a_heap = sample_heap (concat (map le32_bytes [1, 2, 3, 4])),
     a_vars = [0 \<mapsto> leaf_var (Some sample_matrix), 1 \<mapsto> leaf_var (Some sample_matrix)], a_next = 2, a_no_grad = 0\<rparr>"

lemma sample_state_facts:
  "tidy (a_heap sample_state)" "float_tensor (a_heap sample_state) sample_matrix [1, 2, 3, 4]" "t_shape sample_matrix = [2, 2]"
  "a_vars sample_state 0 = Some (leaf_var (Some sample_matrix))" "a_vars sample_state 1 = Some (leaf_var (Some sample_matrix))"
  "a_next sample_state = 2" "a_no_grad sample_state = 0"
  using sample_floats [of "[1, 2, 3, 4]" "[2, 2]"]
  by (simp_all add: sample_state_def sample_matrix_def tidy_def sample_heap_def contents_def fresh_tensor_def)

theorem backward_matmul_gradients_witness:
  "\<exists>s' ga gs. backward_matmul sample_math (Some 0) (Some 1) (Some sample_matrix) sample_state = Inr s' \<and>
     map_option v_grad (a_vars s' 0) = Some (Some ga) \<and> cells (a_heap s') ga gs \<and> gs ! 3 = 25"
proof -
  let ?x = "leaf_var (Some sample_matrix)"
  have x: "v_data ?x = Some sample_matrix" "v_grad ?x = None" "v_requires_grad ?x \<noteq> 0" by (simp_all add: leaf_var_def)
  note sf = sample_state_facts
  have ne: "(0 :: nat) \<noteq> 1" by simp
  from backward_matmul_gradients [OF sf(1) ne sf(4) x sf(5) x sf(2,3) sf(2,3) sf(2,3), of sample_math]
  obtain s' ga gb gs where r: "backward_matmul sample_math (Some 0) (Some 1) (Some sample_matrix) sample_state = Inr s'"
    "a_vars s' = (a_vars sample_state)(0 \<mapsto> ?x\<lparr>v_grad := Some ga\<rparr>, 1 \<mapsto> ?x\<lparr>v_grad := Some gb\<rparr>)" "cells (a_heap s') ga gs"
    "grad_a_cells (ml_f sample_math) 2 2 2 [1, 2, 3, 4] [1, 2, 3, 4] gs" by blast
  have "gs ! (1 * 2 + 1) = 25" using r(4) unfolding grad_a_cells_def
    by (auto simp: sample_math_def word_fops_def numeral_2_eq_2 upt_rec)
  then show ?thesis using r(1-3) by (intro exI [of _ s'] exI [of _ ga] exI [of _ gs]) simp
qed

end
