(* ===== verification/Autodiff_Props.thy ===== *)
theory Autodiff_Props
  imports Autodiff_Grads
begin

text \<open>
  The theorems about the operations of \<open>kernel/autodiff/ops.c\<close> as a whole: sessions, contexts, backward passes, and the
  defects of single operations.
\<close>

section \<open>An operation that succeeds\<close>

definition granted :: "heap \<Rightarrow> bool" where "granted h \<longleftrightarrow> (\<forall>k. h_ok h k)"

definition has_room :: "tape \<Rightarrow> bool" where
  "has_room t \<longleftrightarrow> num_vars t < tp_capacity t \<and> tp_capacity t = length (tp_vars t) \<and> \<not> checkpointing t"

definition made_var :: "tensor \<Rightarrow> recompute_fn \<Rightarrow> nat list \<Rightarrow> op_ctx \<Rightarrow> var_ptr list \<Rightarrow> op_ctx variable" where
  "made_var r re ps c parents = \<lparr>v_data = Some r, v_grad = None, v_requires_grad = 1, v_checkpointed = False, v_backward_fn = True,
     v_backward_ctx = Some c, v_free_ctx = True, v_recompute_ctx = Some re, v_params = ps, v_ref_count = 0, v_parents = parents\<rparr>"

lemma op_finish_granted:
  assumes s: "granted (a_heap s)" "a_no_grad s = 0" and t: "has_room t" and p: "parents \<noteq> []"
  shows "\<exists>h. op_finish L (Some t) True (Some r) (plain_ctx re ps c) parents s =
      Inr (Some (a_next s), Some (t\<lparr>tp_vars := (tp_vars t)[num_vars t := Some (a_next s)], num_vars := num_vars t + 1\<rparr>),
           s\<lparr>a_heap := h, a_vars := (a_vars s)(a_next s \<mapsto> made_var r re ps c parents), a_next := a_next s + 1\<rparr>) \<and>
    h_ok h = h_ok (a_heap s) \<and> h_stores h = h_stores (a_heap s) \<and> h_next h = h_next (a_heap s)"
  using s t p
  by (intro exI [of _ "(a_heap s)\<lparr>h_tried := h_tried (a_heap s) + 3, h_blocks := h_blocks (a_heap s) + 3\<rparr>"])
     (simp add: made_var_def op_finish_def SNEPPX_variable_create_def aligned_alloc_wrapper_def granted_def SNEPPX_no_grad_is_active_def plain_ctx_def
      attach_ctx_def set_parents_def get_var_def put_var_def SNEPPX_tape_record_def has_room_def Let_def)

lemma transpose_granted:
  assumes "granted h" "t_ndim r = 2" "length (t_strides r) = 2" "h_stores h (t_storage r) \<noteq> None"
  shows "\<exists>q h'. SNEPPX_tensor_transpose (Some r) 0 1 h = Inr (Some q, h') \<and> granted h' \<and> t_ndim q = 2 \<and> length (t_strides q) = 2 \<and>
    h_stores h' (t_storage q) \<noteq> None"
  using assms
  by (auto simp: SNEPPX_tensor_transpose_def SNEPPX_tensor_permute_def SNEPPX_tensor_as_strided_def local_dims_def load_cell_def
      tensor_view_alloc_def aligned_alloc_wrapper_def free_block_def SNEPPX_storage_retain_def numeral_2_eq_2 granted_def Let_def)

text \<open>Transposing a matrix variable.\<close>

definition matrix_var :: "ops \<Rightarrow> nat \<Rightarrow> bool" where
  "matrix_var s v \<longleftrightarrow> (\<exists>x r. a_vars s v = Some x \<and> v_data x = Some r \<and> v_requires_grad x \<noteq> 0 \<and> t_ndim r = 2 \<and>
     length (t_strides r) = 2 \<and> h_stores (a_heap s) (t_storage r) \<noteq> None)"

lemma transpose_runs:
  assumes s: "granted (a_heap s)" "a_no_grad s = 0" and t: "has_room t" and v: "matrix_var s v"
  shows "\<exists>x h. SNEPPX_transpose L (Some t) (Some v) 0 1 s =
      Inr (Some (a_next s), Some (t\<lparr>tp_vars := (tp_vars t)[num_vars t := Some (a_next s)], num_vars := num_vars t + 1\<rparr>),
           s\<lparr>a_heap := h, a_vars := (a_vars s)(a_next s \<mapsto> x), a_next := a_next s + 1\<rparr>) \<and>
    v_parents x = [Some v] \<and> v_backward_ctx x = Some (TransposeCtx (Some v) 0 1) \<and> granted h \<and>
    matrix_var (s\<lparr>a_heap := h, a_vars := (a_vars s)(a_next s \<mapsto> x), a_next := a_next s + 1\<rparr>) (a_next s)"
proof -
  obtain y r where y: "a_vars s v = Some y" "v_data y = Some r" "v_requires_grad y \<noteq> 0" "t_ndim r = 2" "length (t_strides r) = 2"
    "h_stores (a_heap s) (t_storage r) \<noteq> None" using v by (auto simp: matrix_var_def)
  obtain q h where q: "SNEPPX_tensor_transpose (Some r) 0 1 (a_heap s) = Inr (Some q, h)" "granted h" "t_ndim q = 2" "length (t_strides q) = 2"
    "h_stores h (t_storage q) \<noteq> None" using transpose_granted [OF s(1) y(4-6)] by blast
  let ?x = "made_var q Re_Transpose [0, 1] (TransposeCtx (Some v) 0 1) [Some v]"
  obtain k where x: "op_finish L (Some t) True (Some q) (plain_ctx Re_Transpose [0, 1] (TransposeCtx (Some v) 0 1)) [Some v] (s\<lparr>a_heap := h\<rparr>) =
      Inr (Some (a_next s), Some (t\<lparr>tp_vars := (tp_vars t)[num_vars t := Some (a_next s)], num_vars := num_vars t + 1\<rparr>),
           s\<lparr>a_heap := k, a_vars := (a_vars s)(a_next s \<mapsto> ?x), a_next := a_next s + 1\<rparr>)" "h_ok k = h_ok h" "h_stores k = h_stores h"
    using op_finish_granted [of "s\<lparr>a_heap := h\<rparr>" t "[Some v]" L q Re_Transpose "[0, 1]" "TransposeCtx (Some v) 0 1"] q(2) s(2) t by auto
  have "SNEPPX_transpose L (Some t) (Some v) 0 1 s = op_finish L (Some t) True (Some q)
      (plain_ctx Re_Transpose [0, 1] (TransposeCtx (Some v) 0 1)) [Some v] (s\<lparr>a_heap := h\<rparr>)"
    using y q(1) by (simp add: SNEPPX_transpose_def unary_op_def requires_grad1_def opt_wants_def get_var_def wants_grad_def with_heap_def)
  then show ?thesis using x q by (intro exI [of _ ?x] exI [of _ k]) (simp add: granted_def matrix_var_def made_var_def)
qed

definition empty_tape :: tape where
  "empty_tape = \<lparr>tp_vars = replicate 4 None, num_vars = 0, tp_capacity = 4, checkpointing = False\<rparr>"

lemma sample_runs:
  shows "granted (a_heap sample_state)" "matrix_var sample_state 0" "matrix_var sample_state 1" "has_room empty_tape" "a_no_grad sample_state = 0"
  by (auto simp: granted_def matrix_var_def has_room_def empty_tape_def sample_state_def sample_heap_def leaf_var_def sample_matrix_def fresh_tensor_def
      row_major_def row_major_loop_def)

section \<open>Theorems\<close>

text \<open>C10. Each of the 60 operations of \<open>op_run\<close>, when it runs without a fault, either gives \<open>NULL\<close> and leaves the tape and all variables as they were, or
  adds one variable at a new address: its parents were alive before, every other variable is unchanged, and the tape is extended by this
  variable or, when it cannot grow or a \<open>no_grad\<close> scope is active, not at all.\<close>

theorem operation_adds_one_variable:
  assumes "op_run L tape s (Inr (w, tape', s'))"
  shows "(w = None \<and> tape' = tape \<and> a_vars s' = a_vars s) \<or>
    (\<exists>x. w = Some (a_next s) \<and> a_next s' = a_next s + 1 \<and> a_vars s' = (a_vars s)(a_next s \<mapsto> x) \<and>
       (\<forall>p. Some p \<in> set (v_parents x) \<longrightarrow> a_vars s p \<noteq> None) \<and>
       (\<forall>t. tape = Some t \<longrightarrow> num_vars t \<le> length (tp_vars t) \<longrightarrow>
          (\<exists>t'. tape' = Some t' \<and> (recorded t' = recorded t \<or> recorded t' = recorded t @ [Some (a_next s)]))))"
proof -
  have live: "a_vars s p \<noteq> None" if "\<forall>q \<in> set (v_parents x). var_alive s q" "Some p \<in> set (v_parents x)" for x p
    using bspec [OF that] by (simp add: var_alive_def)
  have ext: "\<exists>t'. tape' = Some t' \<and> (recorded t' = recorded t \<or> recorded t' = recorded t @ [Some (a_next s)])"
    if "tape_extends tape tape' (a_next s)" "tape = Some t" "num_vars t \<le> length (tp_vars t)" for t
    using that by (auto simp: tape_extends_def)
  from op_run_adds [OF assms, unfolded adds_one_def, rule_format, OF refl] show ?thesis
  proof (elim conjE disjE exE)
    fix x assume "w = Some (a_next s)" "a_next s' = a_next s + 1" "a_vars s' = (a_vars s)(a_next s \<mapsto> x)"
      "\<forall>p \<in> set (v_parents x). var_alive s p" "tape_extends tape tape' (a_next s)"
    then show ?thesis using live ext by (intro disjI2 exI [of _ x]) blast
  qed simp
qed

theorem operation_adds_one_variable_witness:
  "\<exists>t s' x. SNEPPX_transpose sample_math (Some empty_tape) (Some 0) 0 1 sample_state = Inr (Some 2, Some t, s') \<and>
     a_vars s' = (a_vars sample_state)(2 \<mapsto> x) \<and> a_next s' = 3"
proof -
  obtain t s' where r: "SNEPPX_transpose sample_math (Some empty_tape) (Some 0) 0 1 sample_state = Inr (Some 2, Some t, s')"
    using transpose_runs [OF sample_runs(1,5,4,2), of sample_math] sample_state_facts(6) by auto
  then have "op_run sample_math (Some empty_tape) sample_state (Inr (Some 2, Some t, s'))" by (metis op_transpose)
  from operation_adds_one_variable [OF this] r show ?thesis using sample_state_facts(6) by auto
qed

text \<open>C3. Composition of operations, tape and sort: whatever operations, leaves, backward passes and changes of mode a session
  that starts with an empty tape and no variables runs, the sort of its tape lists every recorded variable once, and
  each one after all its recorded parents. The backward pass walks this list from its end, so that it meets a variable only
  when every variable computed from it has passed its gradient on.\<close>

theorem session_sorts_parents_first:
  assumes run: "(session_step L)\<^sup>*\<^sup>* (Some t0, s0) (Some t, s)" and start: "num_vars t0 = 0" "a_vars s0 = Map.empty"
    and n: "num_vars t \<le> 500000" and m: "\<And>k. h_ok (a_heap s) k"
  shows "\<exists>vs s'. tape_topological_sort t s = Inr (vs, s') \<and> mset vs = mset (recorded t) \<and>
    (\<forall>i < length vs. \<forall>v x p. vs ! i = Some v \<longrightarrow> a_vars s v = Some x \<longrightarrow> Some p \<in> set (v_parents x) \<longrightarrow> Some p \<in> set (recorded t) \<longrightarrow>
      (\<exists>j < i. vs ! j = Some p))"
proof -
  have "session_ok (Some t, s)"
    by (rule session_steps_ok [OF run session_start_ok]) (simp add: session_start_def start)
  then obtain ws where ok: "num_vars t \<le> length (tp_vars t)" "recorded t = map Some ws" "sorted_wrt (<) ws" "\<forall>v \<in> set ws. parents_of s v \<noteq> None"
    "\<And>v ps p. parents_of s v = Some ps \<Longrightarrow> Some p \<in> set ps \<Longrightarrow> p < v" by (auto simp: session_ok_def)
  have t: "tape_ok t s" using ok(1,2,4) n by (auto simp: tape_ok_def parents_of_def)
  have d: "distinct (recorded t)" unfolding ok(2) using ok(3) by (simp add: distinct_map strict_sorted_iff)
  have acyclic: "p < v" if "a_vars s v = Some x" "Some p \<in> set (v_parents x)" for v x p
    using ok(5) [of v "v_parents x" p] that by (simp add: parents_of_def)
  obtain vs s' where vs: "tape_topological_sort t s = Inr (vs, s')" "\<forall>i < length vs. \<forall>v x p. vs ! i = Some v \<longrightarrow> a_vars s v = Some x \<longrightarrow>
      Some p \<in> set (v_parents x) \<longrightarrow> Some p \<in> set (recorded t) \<longrightarrow> (\<exists>j < i. vs ! j = Some p)"
    using sort_parents_first [OF t d m, where rank = "\<lambda>v. v"] acyclic by blast
  then show ?thesis using sort_lists_all [OF t m] by auto
qed

definition start_state :: ops where
  "start_state = \<lparr>a_heap = sample_heap (concat (map le32_bytes [1, 2, 3, 4])), a_vars = Map.empty, a_next = 0, a_no_grad = 0\<rparr>"

lemma sample_session:
  "\<exists>t s. (session_step L)\<^sup>*\<^sup>* (Some empty_tape, start_state) (Some t, s) \<and> recorded t = [Some 1, Some 2] \<and> num_vars t = 2 \<and> granted (a_heap s) \<and>
     map_option v_parents (a_vars s 2) = Some [Some 1]"
proof -
  obtain w s1 where c: "SNEPPX_variable_create (Some sample_matrix) 1 start_state = (w, s1)" by fastforce
  then have s1: "granted (a_heap s1)" "a_no_grad s1 = 0" "matrix_var s1 0" "a_next s1 = 1"
    by (auto simp: SNEPPX_variable_create_def start_state_def aligned_alloc_wrapper_def sample_heap_def granted_def SNEPPX_no_grad_is_active_def
        matrix_var_def sample_matrix_def fresh_tensor_def row_major_def row_major_loop_def)
  let ?t1 = "empty_tape\<lparr>tp_vars := (tp_vars empty_tape)[num_vars empty_tape := Some 1], num_vars := num_vars empty_tape + 1\<rparr>"
  obtain s2 where s2: "SNEPPX_transpose L (Some empty_tape) (Some 0) 0 1 s1 = Inr (Some 1, Some ?t1, s2)" "granted (a_heap s2)" "a_no_grad s2 = 0"
      "matrix_var s2 1" "a_next s2 = 2"
    using transpose_runs [OF s1(1,2) sample_runs(4) s1(3), of L] s1(2,4) by auto
  let ?t2 = "?t1\<lparr>tp_vars := (tp_vars ?t1)[num_vars ?t1 := Some 2], num_vars := num_vars ?t1 + 1\<rparr>"
  have room: "has_room ?t1" by (simp add: has_room_def empty_tape_def)
  obtain s3 x where s3: "SNEPPX_transpose L (Some ?t1) (Some 1) 0 1 s2 = Inr (Some 2, Some ?t2, s3)" "granted (a_heap s3)" "a_vars s3 2 = Some x" "v_parents x = [Some 1]"
    using transpose_runs [OF s2(2,3) room s2(4), of L] s2(5) by auto
  have "session_step L (Some empty_tape, start_state) (Some empty_tape, s1)" by (rule leaf [OF c])
  moreover have "session_step L (Some empty_tape, s1) (Some ?t1, s2)" by (rule operation [OF op_transpose s2(1)])
  moreover have "session_step L (Some ?t1, s2) (Some ?t2, s3)" by (rule operation [OF op_transpose s3(1)])
  moreover have "recorded ?t2 = [Some 1, Some 2]" "num_vars ?t2 = 2" by (simp_all add: recorded_def empty_tape_def numeral_eq_Suc)
  ultimately show ?thesis using s3(2-4) by (intro exI [of _ ?t2] exI [of _ s3]) (auto intro: converse_rtranclp_into_rtranclp)
qed

theorem session_sorts_parents_first_witness:
  "\<exists>t s vs s' i j. (session_step sample_math)\<^sup>*\<^sup>* (Some empty_tape, start_state) (Some t, s) \<and> tape_topological_sort t s = Inr (vs, s') \<and>
     mset vs = {#Some 1, Some 2#} \<and> j < i \<and> vs ! i = Some 2 \<and> vs ! j = Some 1"
proof -
  obtain t s x where r: "(session_step sample_math)\<^sup>*\<^sup>* (Some empty_tape, start_state) (Some t, s)" "recorded t = [Some 1, Some 2]" "num_vars t = 2"
    "granted (a_heap s)" "a_vars s 2 = Some x" "v_parents x = [Some 1]" using sample_session [of sample_math] by auto
  obtain vs s' where vs: "tape_topological_sort t s = Inr (vs, s')" "mset vs = mset (recorded t)"
      "\<And>i v x p. i < length vs \<Longrightarrow> vs ! i = Some v \<Longrightarrow> a_vars s v = Some x \<Longrightarrow> Some p \<in> set (v_parents x) \<Longrightarrow> Some p \<in> set (recorded t) \<Longrightarrow> \<exists>j < i. vs ! j = Some p"
    using session_sorts_parents_first [OF r(1)] r(3,4) by (auto simp: empty_tape_def start_state_def granted_def)
  have "Some 2 \<in> set vs" using vs(2) r(2) by (metis list.set_intros mset_eq_setD)
  then obtain i where i: "i < length vs" "vs ! i = Some 2" by (auto simp: in_set_conv_nth)
  obtain j where "j < i" "vs ! j = Some 1" using vs(3) [OF i r(5)] r(2,6) by auto
  then show ?thesis using r(1,2) vs(1,2) i by (intro exI [of _ t] exI [of _ s] exI [of _ vs] exI [of _ s'] exI [of _ i] exI [of _ j]) simp
qed

end
