(* ===== verification/Autodiff_Train.thy ===== *)
theory Autodiff_Train
  imports Autodiff_Props
begin

text \<open>
  From the forward operation to the gradients of its operands: a matrix product recorded on a tape, and the backward pass over that
  tape.
\<close>

section \<open>The forward product and the first gradient\<close>

lemma matmul_forward:
  assumes t: "tidy h" and a: "float_tensor h a xs" "t_shape a = [m, k]" and b: "float_tensor h b ys" "t_shape b = [k, n]" and sz: "m * n * 4 < 2 ^ 64"
  shows "\<exists>r h'. SNEPPX_tensor_matmul F (Some a) (Some b) h = Inr (Some r, h') \<and> t_shape r = [m, n] \<and> tidy h' \<and> t_storage r = h_next h \<and>
    (\<forall>c. c \<noteq> h_next h \<longrightarrow> contents h' c = contents h c)"
proof -
  have f: "cells h a xs" "cells h b ys" "length xs = m * k" "length ys = k * n" "0 < m * n" using a b by (auto simp: float_tensor_def)
  obtain r g where z: "SNEPPX_tensor_zeros (Some [m, n]) SNEPPX_FLOAT32 h = Inr (Some r, g)" "fresh_cells h [m, n] r g" "tidy g"
    by (rule tidy_zeros [OF t, of "[m, n]"]) (use sz f(5) in simp_all)
  let ?body = "\<lambda>i. fold_run (\<lambda>j h. bind_run (dot_loop F a (\<lambda>l. i * k + l) b (\<lambda>l. l * n + j) k h) (\<lambda>s. store_f32 r (i * n + j) s h)) [0..<n]"
  obtain h' where h': "fold_run ?body [0..<m] g = Inr h'" "frame r g h'"
    using matmul_loop_cells [OF tidy_other [OF t z(2) f(1)] tidy_other [OF t z(2) f(2)] _ f(3,4), of "replicate (m * n) 0" F] z(2)
    by (auto simp: fresh_cells_def)
  have "same_alloc g h'" by (rule fold_same_alloc [OF _ h'(1)], erule fold_same_alloc [rotated]) (auto dest: store_f32_same_alloc)
  then have "tidy h'" using same_alloc_tidy z(3) by blast
  moreover have "SNEPPX_tensor_matmul F (Some a) (Some b) h = Inr (Some r, h')"
    unfolding matmul_2d_unfold [OF a b] using z(1) h'(1) by (simp add: fill_new_def SNEPPX_tensor_destroy_def)
  ultimately show ?thesis using z(2) h'(2) by (auto simp: fresh_cells_def frame_def)
qed

lemma ones_tensor:
  assumes t: "tidy h" and sh: "prod_list sh * 4 < 2 ^ 64" "0 \<notin> set sh" "length sh \<le> 16"
  shows "\<exists>g h'. SNEPPX_tensor_ones (Some sh) SNEPPX_FLOAT32 h = Inr (Some g, h') \<and> float_tensor h' g (replicate (prod_list sh) f32_one) \<and> t_shape g = sh \<and>
    tidy h' \<and> (\<forall>c. c \<noteq> h_next h \<longrightarrow> contents h' c = contents h c)"
proof -
  have pos: "0 < prod_list sh" using sh(2) prod_list_zero_iff [of sh] by simp
  have "prod_list sh \<le> prod_list sh * 4" by simp
  then have lt: "prod_list sh < 2 ^ 64" using sh(1) by (rule le_less_trans)
  obtain g h1 where c: "SNEPPX_tensor_create (Some sh) SNEPPX_FLOAT32 h = (Some g, h1)" "created h sh SNEPPX_FLOAT32 g h1"
    using all_ok_create [of h sh SNEPPX_FLOAT32] t by (metis tidy_def)
  have fc: "fresh_cells h sh g h1" by (rule created_cells [OF c(2) sh(1) pos])
  have g: "g = fresh_tensor (h_next h) sh SNEPPX_FLOAT32" using c(2) by (auto simp: created_def Let_def)
  let ?n = "prod_list sh"
  have st: "store_bytes h (t_storage g) (data_pos g + i * length (le32_bytes f32_one)) (le32_bytes f32_one) = store_f32 g i f32_one h" for i h
    by (simp add: store_f32_def)
  have "\<exists>h'. fold_run (\<lambda>i. store_f32 g i f32_one) [0..<?n] h1 = Inr h' \<and> cells h' g (upd_cells id (\<lambda>_ _. f32_one) [0..<?n] (replicate ?n 0)) \<and> frame g h1 h'"
    by (rule cell_loop) (use fc in \<open>auto simp: fresh_cells_def\<close>)
  then obtain h' where h': "fold_run (\<lambda>i. store_f32 g i f32_one) [0..<?n] h1 = Inr h'" "cells h' g (upd_cells id (\<lambda>_ _. f32_one) [0..<?n] (replicate ?n 0))" "frame g h1 h'"
    by blast
  have u: "upd_cells id (\<lambda>_ _. f32_one) [0..<?n] (replicate ?n 0) = replicate ?n f32_one"
    by (rule nth_equalityI) (simp_all add: nth_upd_cells filter_eq_upt)
  have "same_alloc h1 h'" by (rule fold_same_alloc [OF _ h'(1)]) (rule store_f32_same_alloc)
  then have td: "tidy h'" using tidy_create [OF t c(1)] same_alloc_tidy by blast
  have "fill_cells g ?n (le32_bytes f32_one) h1 = Inr h'" unfolding fill_cells_def st by (rule h'(1))
  then have "SNEPPX_tensor_ones (Some sh) SNEPPX_FLOAT32 h = Inr (Some g, h')"
    using c(1) fc by (simp add: SNEPPX_tensor_ones_def bind_new_def fresh_cells_def)
  moreover have "float_tensor h' g (replicate ?n f32_one)"
    using h'(2) u sh(2,3) lt sh(1) by (simp add: float_tensor_def g fresh_tensor_def is_contiguous_iff sz_prod_wrap wrap64_small)
  ultimately show ?thesis using fc h'(3) td by (auto simp: fresh_cells_def frame_def)
qed

text \<open>Counts of requests and of blocks do not matter to the contents.\<close>

lemma heap_counts [simp]:
  "contents (h\<lparr>h_tried := i, h_blocks := b\<rparr>) = contents h" "contents (h\<lparr>h_blocks := b\<rparr>) = contents h" "contents (h\<lparr>h_tried := i\<rparr>) = contents h"
  by (simp_all add: contents_def fun_eq_iff)

lemma same_contents:
  assumes "contents h' = contents h" "h_next h' = h_next h" "h_ok h' = h_ok h"
  shows "tidy h' = tidy h" "cells h' u us = cells h u us" "float_tensor h' u us = float_tensor h u us"
  using assms by (simp_all add: tidy_def cells_def float_tensor_def)

lemma free_block_simps [simp]: "contents (free_block b h) = contents h" "h_next (free_block b h) = h_next h" "h_ok (free_block b h) = h_ok h"
  by (simp_all add: free_block_def)

definition one_recorded :: "tape \<Rightarrow> nat \<Rightarrow> tape" where
  "one_recorded t y = t\<lparr>tp_vars := (tp_vars t)[0 := Some y], num_vars := 1\<rparr>"

definition product_var :: "tensor \<Rightarrow> nat \<Rightarrow> nat \<Rightarrow> op_ctx variable" where
  "product_var r va vb = made_var r (Re_Binary B_Binop) [] (Binary_Ctx B_Binop (Some va) (Some vb)) [Some va, Some vb]"

lemma matmul_recorded:
  assumes t: "tidy (a_heap s)" "a_no_grad s = 0" and tp: "num_vars t = 0" "has_room t"
    and a: "a_vars s va = Some xa" "v_data xa = Some da" "v_requires_grad xa \<noteq> 0" and b: "a_vars s vb = Some xb" "v_data xb = Some db"
    and da: "float_tensor (a_heap s) da xs" "t_shape da = [m, k]" and db: "float_tensor (a_heap s) db ys" "t_shape db = [k, n]" and sz: "m * n * 4 < 2 ^ 64"
  shows "\<exists>r h. SNEPPX_matmul L (Some t) (Some va) (Some vb) s = Inr (Some (a_next s), Some (one_recorded t (a_next s)),
      s\<lparr>a_heap := h, a_vars := (a_vars s)(a_next s \<mapsto> product_var r va vb), a_next := a_next s + 1\<rparr>) \<and> t_shape r = [m, n] \<and> tidy h \<and>
      (\<forall>c. c \<noteq> h_next (a_heap s) \<longrightarrow> contents h c = contents (a_heap s) c)"
proof -
  obtain r h where r: "SNEPPX_tensor_matmul (ml_f L) (Some da) (Some db) (a_heap s) = Inr (Some r, h)" "t_shape r = [m, n]" "tidy h"
    "\<forall>c. c \<noteq> h_next (a_heap s) \<longrightarrow> contents h c = contents (a_heap s) c"
    using matmul_forward [OF t(1) da db sz, of "ml_f L"] by blast
  let ?c = "Binary_Ctx B_Binop (Some va) (Some vb)"
  have "SNEPPX_matmul L (Some t) (Some va) (Some vb) s = op_finish L (Some t) True (Some r) (plain_ctx (Re_Binary B_Binop) [] ?c) [Some va, Some vb] (s\<lparr>a_heap := h\<rparr>)"
    using a b r(1) by (simp add: SNEPPX_matmul_def binary_op_def requires_grad_def opt_wants_def get_var_def wants_grad_def with_heap_def)
  moreover obtain k' where "op_finish L (Some t) True (Some r) (plain_ctx (Re_Binary B_Binop) [] ?c) [Some va, Some vb] (s\<lparr>a_heap := h\<rparr>) =
      Inr (Some (a_next s), Some (one_recorded t (a_next s)), s\<lparr>a_heap := k', a_vars := (a_vars s)(a_next s \<mapsto> product_var r va vb), a_next := a_next s + 1\<rparr>)"
      "h_ok k' = h_ok h" "h_stores k' = h_stores h" "h_next k' = h_next h"
    using op_finish_granted [of "s\<lparr>a_heap := h\<rparr>" t "[Some va, Some vb]" L r "Re_Binary B_Binop" "[]" ?c] r(3) t(2) tp
    by (auto simp: granted_def tidy_def product_var_def one_recorded_def)
  moreover from this have "contents k' = contents h" by (simp add: contents_def fun_eq_iff)
  ultimately show ?thesis using r same_contents(1) [of k' h]
    by (intro exI [of _ r] exI [of _ k']) simp
qed

lemma dfs_loop_empty: "d_stack d = [] \<Longrightarrow> dfs_loop vs par g visited sorted' d = Inr (visited, sorted', d)"
  by (cases g) simp_all

lemma sort_single:
  assumes t: "has_room t" "num_vars t = 0" and s: "granted (a_heap s)" and y: "a_vars s y = Some x" "v_parents x = [Some va, Some vb]" "va \<noteq> y" "vb \<noteq> y"
  shows "\<exists>h. tape_topological_sort (one_recorded t y) s = Inr ([Some y], s\<lparr>a_heap := h\<rparr>) \<and>
    contents h = contents (a_heap s) \<and> h_next h = h_next (a_heap s) \<and> h_ok h = h_ok (a_heap s)"
proof -
  have vs: "take (Suc 0) ((tp_vars t)[0 := Some y]) = [Some y]" using t by (cases "tp_vars t") (auto simp: has_room_def)
  obtain k where g: "loop_guard = Suc k" using not0_implies_Suc [of loop_guard] by (auto simp: loop_guard_def)
  have i: "tape_index [Some y] va = None" "tape_index [Some y] vb = None" using y(3,4) by (simp_all add: tape_index_def)
  have sp: "scan_parents [Some y] vis [Some va, Some vb] d = Inr (False, d)" for vis d by (simp add: i)
  have dl: "dfs_loop [Some y] (var_parents s) loop_guard [False] [] \<lparr>d_stack = [0], d_size = 64, d_cap = 64, on_stack = [True], d_heap = h\<rparr> =
      Inr ([True], [Some y], \<lparr>d_stack = [], d_size = 64, d_cap = 64, on_stack = [False], d_heap = h\<rparr>)" for h
    unfolding g using y(1,2) by (simp add: var_parents_def get_var_def sp dfs_loop_empty del: scan_parents.simps)
  have al: "aligned_alloc_wrapper h = (True, h\<lparr>h_tried := h_tried h + 1, h_blocks := h_blocks h + 1\<rparr>)" if "h_ok h = h_ok (a_heap s)" for h
    using s that by (simp add: aligned_alloc_wrapper_def granted_def)
  show ?thesis
    by (simp add: one_recorded_def tape_topological_sort_def vs al Let_def dl, intro exI conjI, rule refl, simp_all)
qed

text \<open>The pass over one product.\<close>

lemma product_step:
  assumes t: "tidy (a_heap s)" and ab: "va \<noteq> vb" "va \<noteq> y" "vb \<noteq> y"
    and a: "a_vars s va = Some xa" "v_data xa = Some da" "v_grad xa = None" "v_requires_grad xa \<noteq> 0"
    and b: "a_vars s vb = Some xb" "v_data xb = Some db" "v_grad xb = None" "v_requires_grad xb \<noteq> 0"
    and y: "a_vars s y = Some (product_var r va vb\<lparr>v_grad := Some go\<rparr>)"
    and da: "float_tensor (a_heap s) da xs" "t_shape da = [m, k]" and db: "float_tensor (a_heap s) db ys" "t_shape db = [k, n]"
    and go: "float_tensor (a_heap s) go zs" "t_shape go = [m, n]"
  shows "\<exists>s' ga gb gs hs. backward_step (op_hooks L) (Some y) s = Inr s' \<and>
    map_option v_grad (a_vars s' va) = Some (Some ga) \<and> map_option v_grad (a_vars s' vb) = Some (Some gb) \<and>
    t_shape ga = [m, k] \<and> cells (a_heap s') ga gs \<and> grad_a_cells (ml_f L) m n k zs ys gs \<and>
    t_shape gb = [k, n] \<and> cells (a_heap s') gb hs \<and> grad_b_cells (ml_f L) m n k xs zs hs"
proof -
  obtain s1 ga gb gs hs where s1: "backward_matmul L (Some va) (Some vb) (Some go) s = Inr s1"
    "a_vars s1 = (a_vars s)(va \<mapsto> xa\<lparr>v_grad := Some ga\<rparr>, vb \<mapsto> xb\<lparr>v_grad := Some gb\<rparr>)"
    and g: "t_shape ga = [m, k]" "cells (a_heap s1) ga gs" "grad_a_cells (ml_f L) m n k zs ys gs"
    "t_shape gb = [k, n]" "cells (a_heap s1) gb hs" "grad_b_cells (ml_f L) m n k xs zs hs"
    using matmul_gradients [OF t ab(1) a b da db go, of L] by blast
  have c: "cells (free_block True h) u us = cells h u us" for h u us by (rule same_contents) simp_all
  let ?s = "put_var vb (xb\<lparr>v_grad := Some gb, v_ref_count := v_ref_count xb - 1\<rparr>) (put_var va (xa\<lparr>v_grad := Some ga, v_ref_count := v_ref_count xa - 1\<rparr>)
    (put_var y (product_var r va vb\<lparr>v_grad := Some go, v_backward_ctx := None\<rparr>) (s1\<lparr>a_heap := free_block True (a_heap s1)\<rparr>)))"
  have "backward_step (op_hooks L) (Some y) s = Inr ?s"
    using y s1 ab by (simp add: backward_step_def restore_ctx_def get_var_def put_var_def product_var_def made_var_def op_hooks_def release_parents_def)
  then show ?thesis using g ab by (intro exI [of _ ?s] exI [of _ ga] exI [of _ gb] exI [of _ gs] exI [of _ hs]) (simp add: put_var_def c)
qed

lemma tidy_keeps:
  assumes "tidy h" "\<forall>c. c \<noteq> h_next h \<longrightarrow> contents h' c = contents h c"
  shows "float_tensor h u us \<Longrightarrow> float_tensor h' u us"
proof -
  assume u: "float_tensor h u us"
  then have "t_storage u \<noteq> h_next h" using assms(1) by (auto simp: tidy_def float_tensor_def cells_def)
  then show ?thesis using u assms(2) cells_cong [of h' u h us] by (simp add: float_tensor_def)
qed

text \<open>C2. A training step over one matrix product, from the operands to their gradients: \<open>SNEPPX_matmul\<close> records the product on an empty
  tape, and \<open>SNEPPX_tape_backward\<close> from it seeds the gradient with ones, sorts the tape, runs the recorded backward function and releases
  its context. Both leaves then own gradients of their own shapes, whose cells are the sums of the cells of the other operand that the product
  rule asks for, in the order of the loops.\<close>

theorem matmul_training_step:
  assumes t: "tidy (a_heap s)" "a_no_grad s = 0" and tp: "num_vars t = 0" "has_room t" and ab: "va \<noteq> vb" "va < a_next s" "vb < a_next s"
    and a: "a_vars s va = Some xa" "v_data xa = Some da" "v_grad xa = None" "v_requires_grad xa \<noteq> 0"
    and b: "a_vars s vb = Some xb" "v_data xb = Some db" "v_grad xb = None" "v_requires_grad xb \<noteq> 0"
    and da: "float_tensor (a_heap s) da xs" "t_shape da = [m, k]" and db: "float_tensor (a_heap s) db ys" "t_shape db = [k, n]" and sz: "m * n * 4 < 2 ^ 64"
  shows "\<exists>y t' s1 s2 ga gb gs hs. SNEPPX_matmul L (Some t) (Some va) (Some vb) s = Inr (Some y, Some t', s1) \<and>
    SNEPPX_tape_backward (op_hooks L) (Some t') (Some y) s1 = Inr s2 \<and>
    map_option v_grad (a_vars s2 va) = Some (Some ga) \<and> map_option v_grad (a_vars s2 vb) = Some (Some gb) \<and>
    t_shape ga = [m, k] \<and> cells (a_heap s2) ga gs \<and> grad_a_cells (ml_f L) m n k (replicate (m * n) f32_one) ys gs \<and>
    t_shape gb = [k, n] \<and> cells (a_heap s2) gb hs \<and> grad_b_cells (ml_f L) m n k xs (replicate (m * n) f32_one) hs"
proof -
  let ?y = "a_next s"
  obtain r h where r: "SNEPPX_matmul L (Some t) (Some va) (Some vb) s = Inr (Some ?y, Some (one_recorded t ?y),
      s\<lparr>a_heap := h, a_vars := (a_vars s)(?y \<mapsto> product_var r va vb), a_next := ?y + 1\<rparr>)" "t_shape r = [m, n]" "tidy h"
      "\<forall>c. c \<noteq> h_next (a_heap s) \<longrightarrow> contents h c = contents (a_heap s) c"
    using matmul_recorded [OF t tp a(1,2,4) b(1,2) da db sz] by blast
  let ?s = "s\<lparr>a_heap := h, a_vars := (a_vars s)(?y \<mapsto> product_var r va vb), a_next := ?y + 1\<rparr>"
  have pos: "0 < m" "0 < n" using da db by (auto simp: float_tensor_def)
  obtain go h1 where go: "SNEPPX_tensor_ones (Some [m, n]) SNEPPX_FLOAT32 h = Inr (Some go, h1)" "float_tensor h1 go (replicate (m * n) f32_one)" "t_shape go = [m, n]"
      "tidy h1" "\<forall>c. c \<noteq> h_next h \<longrightarrow> contents h1 c = contents h c"
    using ones_tensor [OF r(3), of "[m, n]"] sz pos by auto
  let ?x = "product_var r va vb\<lparr>v_grad := Some go\<rparr>"
  let ?h = "h1\<lparr>h_tried := h_tried h1 + 1, h_blocks := h_blocks h1 + 1\<rparr>"
  let ?s1 = "(put_var ?y ?x ?s)\<lparr>a_heap := ?h\<rparr>"
  have al: "aligned_alloc_wrapper h1 = (True, ?h)" and gr: "granted ?h" using go(4) by (simp_all add: aligned_alloc_wrapper_def granted_def tidy_def)
  obtain h2 where h2: "tape_topological_sort (one_recorded t ?y) ?s1 = Inr ([Some ?y], ?s1\<lparr>a_heap := h2\<rparr>)"
      "contents h2 = contents h1" "h_next h2 = h_next h1" "h_ok h2 = h_ok h1"
    using sort_single [of t ?s1 ?y ?x va vb] tp ab gr by (auto simp: put_var_def product_var_def made_var_def)
  let ?s2 = "?s1\<lparr>a_heap := h2\<rparr>"
  note same = same_contents [OF h2(2-4)]
  have ft: "float_tensor h2 u us" if "float_tensor (a_heap s) u us" for u us
    unfolding same(3) by (rule tidy_keeps [OF r(3) go(5) tidy_keeps [OF t(1) r(4) that]])
  have s2: "tidy (a_heap ?s2)" "va \<noteq> ?y" "vb \<noteq> ?y" "a_vars ?s2 va = Some xa" "a_vars ?s2 vb = Some xb" "a_vars ?s2 ?y = Some ?x"
      "float_tensor (a_heap ?s2) da xs" "float_tensor (a_heap ?s2) db ys" "float_tensor (a_heap ?s2) go (replicate (m * n) f32_one)"
    using a(1) b(1) ab go(2,4) ft [OF da(1)] ft [OF db(1)] same by (simp_all add: put_var_def)
  obtain s3 ga gb gs hs where s3: "backward_step (op_hooks L) (Some ?y) ?s2 = Inr s3" "map_option v_grad (a_vars s3 va) = Some (Some ga)"
      "map_option v_grad (a_vars s3 vb) = Some (Some gb)" and g: "t_shape ga = [m, k]" "cells (a_heap s3) ga gs"
      "grad_a_cells (ml_f L) m n k (replicate (m * n) f32_one) ys gs"
      "t_shape gb = [k, n]" "cells (a_heap s3) gb hs" "grad_b_cells (ml_f L) m n k xs (replicate (m * n) f32_one) hs"
    using product_step [OF s2(1) ab(1) s2(2,3) s2(4) a(2-4) s2(5) b(2-4) s2(6-7) da(2) s2(8) db(2) s2(9) go(3), of L] by blast
  let ?s3 = "s3\<lparr>a_heap := free_block True (a_heap s3)\<rparr>"
  have "SNEPPX_tape_backward (op_hooks L) (Some (one_recorded t ?y)) (Some ?y) ?s = Inr ?s3"
    using r(2) go(1) al h2(1) s3(1)
    by (simp add: SNEPPX_tape_backward_def get_var_def on_heap_def SNEPPX_tensor_destroy_def product_var_def made_var_def Let_def put_var_def one_recorded_def)
  moreover have "cells (free_block True (a_heap s3)) u us = cells (a_heap s3) u us" for u us by (rule same_contents) simp_all
  ultimately show ?thesis using r(1) s3(2,3) g
    by (intro exI [of _ ?y] exI [of _ "one_recorded t ?y"] exI [of _ ?s] exI [of _ ?s3] exI [of _ ga] exI [of _ gb] exI [of _ gs] exI [of _ hs]) simp
qed

theorem matmul_training_step_witness:
  "\<exists>y t s1 s2 ga gs. SNEPPX_matmul sample_math (Some empty_tape) (Some 0) (Some 1) sample_state = Inr (Some y, Some t, s1) \<and>
     SNEPPX_tape_backward (op_hooks sample_math) (Some t) (Some y) s1 = Inr s2 \<and>
     map_option v_grad (a_vars s2 0) = Some (Some ga) \<and> cells (a_heap s2) ga gs \<and> gs ! 3 = 7 * f32_one"
proof -
  let ?x = "leaf_var (Some sample_matrix)"
  have x: "v_data ?x = Some sample_matrix" "v_grad ?x = None" "v_requires_grad ?x \<noteq> 0" by (simp_all add: leaf_var_def)
  note sf = sample_state_facts
  have ne: "(0 :: nat) \<noteq> 1" "0 < a_next sample_state" "1 < a_next sample_state" "num_vars empty_tape = 0" "2 * 2 * 4 < (2 :: nat) ^ 64"
    using sf(6) by (simp_all add: empty_tape_def)
  from matmul_training_step [OF sf(1,7) ne(4) sample_runs(4) ne(1-3) sf(4) x sf(5) x sf(2,3) sf(2,3) ne(5), of sample_math]
  obtain y t s1 s2 ga gs where r: "SNEPPX_matmul sample_math (Some empty_tape) (Some 0) (Some 1) sample_state = Inr (Some y, Some t, s1)"
    "SNEPPX_tape_backward (op_hooks sample_math) (Some t) (Some y) s1 = Inr s2" "map_option v_grad (a_vars s2 0) = Some (Some ga)" "cells (a_heap s2) ga gs"
    "grad_a_cells (ml_f sample_math) 2 2 2 (replicate (2 * 2) f32_one) [1, 2, 3, 4] gs" by blast
  have "gs ! (1 * 2 + 1) = 7 * f32_one" using r(5) unfolding grad_a_cells_def
    by (auto simp: sample_math_def word_fops_def numeral_2_eq_2 upt_rec)
  then show ?thesis using r(1-4) by (intro exI [of _ y] exI [of _ t] exI [of _ s1] exI [of _ s2] exI [of _ ga] exI [of _ gs]) simp
qed

end
