(* ===== verification/Work_Deque.thy ===== *)
theory Work_Deque
  imports Prelude
begin

text \<open>
  The work-stealing deques of \<open>kernel/thread/threadpool.c\<close>: one singly linked list of task
  nodes per worker, with a head (stolen from) and a tail (where the owner pushes and pops). Each
  operation runs between the lock and the unlock of the deque's mutex, so it is one transition of
  the node heap here.

  Nodes live in a heap from addresses to nodes; reading or writing a node that is not allocated
  is the fault \<open>Use_After_Free\<close>. The walk of \<open>deque_pop\<close> to the tail is a
  \<open>partial_function\<close>: it has no result when the list does not lead to the tail. The locale
  \<open>deque_vector\<close> is the contract the pool relies on: the queues of a pool behave as a vector of
  sequences, and no operation on one queue touches another.
\<close>

section \<open>Nodes and deques\<close>

record 't work_node =
  wn_task :: 't
  wn_next :: "nat option"

record work_deque =
  dq_head :: "nat option"
  dq_tail :: "nat option"

type_synonym 't node_heap = "nat \<rightharpoonup> 't work_node"

definition deque_init :: work_deque where
  "deque_init = \<lparr>dq_head = None, dq_tail = None\<rparr>"

definition load_node :: "'t node_heap \<Rightarrow> nat \<Rightarrow> 't work_node run" where
  "load_node h p = (case h p of None \<Rightarrow> Inl Use_After_Free | Some n \<Rightarrow> Inr n)"

text \<open>\<open>malloc\<close> answers an unused address, or \<open>None\<close>. The first component of the result is the
  return code.\<close>

definition deque_push ::
  "nat option \<Rightarrow> 't node_heap \<Rightarrow> work_deque \<Rightarrow> 't \<Rightarrow> (int \<times> 't node_heap \<times> work_deque) run" where
  "deque_push malloc h q task =
     (case malloc of
        None \<Rightarrow> Inr (- 1, h, q)
      | Some n \<Rightarrow>
          let h = h(n \<mapsto> \<lparr>wn_task = task, wn_next = None\<rparr>) in
          (case dq_tail q of
             Some t \<Rightarrow> bind_run (load_node h t) (\<lambda>tn.
               Inr (0, h(t \<mapsto> tn\<lparr>wn_next := Some n\<rparr>), q\<lparr>dq_tail := Some n\<rparr>))
           | None \<Rightarrow> Inr (0, h, q\<lparr>dq_head := Some n, dq_tail := Some n\<rparr>)))"

partial_function (option) deque_walk ::
  "'t node_heap \<Rightarrow> nat option \<Rightarrow> nat option \<Rightarrow> nat option \<Rightarrow> (nat option \<times> nat option) run option"
where
  "deque_walk h tail prev cur =
     (case cur of
        None \<Rightarrow> Some (Inr (prev, None))
      | Some c \<Rightarrow>
          if cur = tail then Some (Inr (prev, cur))
          else (case h c of
                  None \<Rightarrow> Some (Inl Use_After_Free)
                | Some n \<Rightarrow> deque_walk h tail cur (wn_next n)))"

text \<open>The task is \<open>None\<close> when the code returns -1.\<close>

definition deque_pop ::
  "'t node_heap \<Rightarrow> work_deque \<Rightarrow> ('t option \<times> 't node_heap \<times> work_deque) run option" where
  "deque_pop h q =
     map_option (\<lambda>w. bind_run w (\<lambda>(prev, cur).
       case cur of
         None \<Rightarrow> Inr (None, h, q)
       | Some c \<Rightarrow> bind_run (load_node h c) (\<lambda>n.
           bind_run (case prev of
                       Some p \<Rightarrow> bind_run (load_node h p) (\<lambda>pn. Inr (h(p \<mapsto> pn\<lparr>wn_next := None\<rparr>), q))
                     | None \<Rightarrow> Inr (h, q\<lparr>dq_head := None\<rparr>))
             (\<lambda>(h, q). Inr (Some (wn_task n), h(c := None), q\<lparr>dq_tail := prev\<rparr>)))))
       (deque_walk h (dq_tail q) None (dq_head q))"

definition deque_steal ::
  "'t node_heap \<Rightarrow> work_deque \<Rightarrow> ('t option \<times> 't node_heap \<times> work_deque) run" where
  "deque_steal h q =
     (case dq_head q of
        None \<Rightarrow> Inr (None, h, q)
      | Some p \<Rightarrow> bind_run (load_node h p) (\<lambda>n.
          let q = q\<lparr>dq_head := wn_next n\<rparr>;
              q = (if dq_head q = None then q\<lparr>dq_tail := None\<rparr> else q) in
          Inr (Some (wn_task n), h(p := None), q)))"

partial_function (option) deque_count_loop ::
  "'t node_heap \<Rightarrow> nat option \<Rightarrow> int \<Rightarrow> int run option"
where
  "deque_count_loop h n cnt =
     (case n of
        None \<Rightarrow> Some (Inr cnt)
      | Some p \<Rightarrow> (case h p of
                     None \<Rightarrow> Some (Inl Use_After_Free)
                   | Some nd \<Rightarrow> deque_count_loop h (wn_next nd) (cnt + 1)))"

definition deque_count :: "'t node_heap \<Rightarrow> work_deque \<Rightarrow> int run option" where
  "deque_count h q = deque_count_loop h (dq_head q) 0"

partial_function (option) deque_drain :: "'t node_heap \<Rightarrow> nat option \<Rightarrow> 't node_heap run option"
where
  "deque_drain h n =
     (case n of
        None \<Rightarrow> Some (Inr h)
      | Some p \<Rightarrow> (case h p of
                     None \<Rightarrow> Some (Inl Use_After_Free)
                   | Some nd \<Rightarrow> deque_drain (h(p := None)) (wn_next nd)))"

definition deque_destroy ::
  "'t node_heap \<Rightarrow> work_deque \<Rightarrow> ('t node_heap \<times> work_deque) run option" where
  "deque_destroy h q =
     map_option (\<lambda>r. bind_run r (\<lambda>h. Inr (h, q\<lparr>dq_head := None, dq_tail := None\<rparr>)))
       (deque_drain h (dq_head q))"

section \<open>Linked segments\<close>

fun chain :: "'t node_heap \<Rightarrow> nat option \<Rightarrow> (nat \<times> 't) list \<Rightarrow> nat option \<Rightarrow> bool" where
  "chain h a [] b \<longleftrightarrow> a = b"
| "chain h a ((p, x) # ps) b \<longleftrightarrow>
     a = Some p \<and> (\<exists>nx. h p = Some \<lparr>wn_task = x, wn_next = nx\<rparr> \<and> chain h nx ps b)"

lemma chain_append:
  "chain h a (ps @ qs) b \<longleftrightarrow> (\<exists>c. chain h a ps c \<and> chain h c qs b)"
proof (induction ps arbitrary: a)
  case (Cons y ps)
  then show ?case
    by (cases y) (simp, blast)
qed simp

lemma chain_cong:
  "(\<And>p. p \<in> fst ` set ps \<Longrightarrow> h' p = h p) \<Longrightarrow> chain h' a ps b \<longleftrightarrow> chain h a ps b"
proof (induction ps arbitrary: a)
  case (Cons y ps)
  then show ?case
    by (cases y) simp
qed simp

lemma chain_upd:
  "p \<notin> fst ` set ps \<Longrightarrow> chain (h(p := v)) a ps b \<longleftrightarrow> chain h a ps b"
  by (rule chain_cong) (metis fun_upd_apply)

lemma chain_alloc: "chain h a ps b \<Longrightarrow> p \<in> fst ` set ps \<Longrightarrow> h p \<noteq> None"
proof (induction ps arbitrary: a)
  case (Cons y ps)
  show ?case
  proof (cases "p = fst y")
    case True
    with Cons.prems show ?thesis
      by (cases y) auto
  next
    case False
    with Cons.prems obtain nx where "chain h nx ps b" "p \<in> fst ` set ps"
      by (cases y) auto
    then show ?thesis
      by (rule Cons.IH)
  qed
qed simp

lemma chain_end:
  "chain h a ps None \<Longrightarrow> a = (if ps = [] then None else Some (fst (hd ps)))"
  by (cases ps) auto

text \<open>A deque holds the nodes \<open>ps\<close>, in order from the head.\<close>

definition deque_nodes :: "'t node_heap \<Rightarrow> work_deque \<Rightarrow> (nat \<times> 't) list \<Rightarrow> bool" where
  "deque_nodes h q ps \<longleftrightarrow>
     distinct (map fst ps) \<and> chain h (dq_head q) ps None \<and>
     dq_tail q = (if ps = [] then None else Some (fst (last ps)))"

lemma deque_nodes_upd:
  "p \<notin> fst ` set ps \<Longrightarrow> deque_nodes (h(p := v)) q ps \<longleftrightarrow> deque_nodes h q ps"
  by (simp add: deque_nodes_def chain_upd)

lemma deque_init_nodes [simp]: "deque_nodes h deque_init []"
  by (simp add: deque_nodes_def deque_init_def)

lemma deque_push_nodes:
  assumes "deque_nodes h q ps" "h n = None"
  obtains h' q' where "deque_push (Some n) h q t = Inr (0, h', q')"
    "deque_nodes h' q' (ps @ [(n, t)])"
    "\<And>p. p \<noteq> n \<Longrightarrow> p \<notin> fst ` set ps \<Longrightarrow> h' p = h p" "h' n \<noteq> None"
proof (cases ps rule: rev_cases)
  case Nil
  with assms that [of "h(n \<mapsto> \<lparr>wn_task = t, wn_next = None\<rparr>)" "\<lparr>dq_head = Some n, dq_tail = Some n\<rparr>"]
  show thesis
    by (cases q) (auto simp: deque_push_def deque_nodes_def Let_def)
next
  case (snoc xs y)
  obtain l x where y: "y = (l, x)"
    by (cases y)
  have ch: "chain h (dq_head q) xs (Some l)" and hl: "h l = Some \<lparr>wn_task = x, wn_next = None\<rparr>"
    and tl: "dq_tail q = Some l" and di: "distinct (map fst xs)" "l \<notin> fst ` set xs"
    using assms(1) snoc y by (auto simp: deque_nodes_def chain_append)
  have n: "n \<noteq> l" "n \<notin> fst ` set xs"
    using hl assms(2) chain_alloc [OF ch, of n] by (metis option.distinct(1), metis)
  let ?h = "h(n \<mapsto> \<lparr>wn_task = t, wn_next = None\<rparr>, l \<mapsto> \<lparr>wn_task = x, wn_next = Some n\<rparr>)"
  have "deque_push (Some n) h q t = Inr (0, ?h, q\<lparr>dq_tail := Some n\<rparr>)"
    using tl hl n by (simp add: deque_push_def load_node_def)
  moreover have "deque_nodes ?h (q\<lparr>dq_tail := Some n\<rparr>) (ps @ [(n, t)])"
    using ch n di snoc y by (simp add: deque_nodes_def chain_append chain_upd)
  ultimately show thesis
    using that n snoc y by auto
qed

lemma deque_walk_last:
  assumes "chain h a (ps @ [(l, x)]) None" "l \<notin> fst ` set ps"
  shows "deque_walk h (Some l) pr a =
           Some (Inr (if ps = [] then pr else Some (fst (last ps)), Some l))"
  using assms
proof (induction ps arbitrary: a pr)
  case Nil
  then show ?case
    by (subst deque_walk.simps) simp
next
  case (Cons y ps)
  obtain p z where y: "y = (p, z)"
    by (cases y)
  from Cons.prems y obtain nx where nx: "a = Some p" "h p = Some \<lparr>wn_task = z, wn_next = nx\<rparr>"
    "chain h nx (ps @ [(l, x)]) None" "p \<noteq> l"
    by auto
  have "deque_walk h (Some l) pr a = deque_walk h (Some l) (Some p) nx"
    using nx by (subst deque_walk.simps) simp
  then show ?case
    using Cons.IH [OF nx(3)] Cons.prems(2) y by simp
qed

lemma deque_pop_empty: "deque_nodes h q [] \<Longrightarrow> deque_pop h q = Some (Inr (None, h, q))"
  by (simp add: deque_pop_def deque_nodes_def deque_walk.simps)

lemma deque_pop_nodes:
  assumes "deque_nodes h q (ps @ [(l, x)])"
  obtains h' q' where "deque_pop h q = Some (Inr (Some x, h', q'))"
    "deque_nodes h' q' ps" "\<And>p. p \<notin> insert l (fst ` set ps) \<Longrightarrow> h' p = h p" "h' l = None"
proof -
  have ch: "chain h (dq_head q) ps (Some l)" and hl: "h l = Some \<lparr>wn_task = x, wn_next = None\<rparr>"
    and full: "chain h (dq_head q) (ps @ [(l, x)]) None"
    and tl: "dq_tail q = Some l" and di: "distinct (map fst ps)" "l \<notin> fst ` set ps"
    using assms by (auto simp: deque_nodes_def chain_append)
  have walk: "deque_walk h (dq_tail q) None (dq_head q) =
      Some (Inr (if ps = [] then None else Some (fst (last ps)), Some l))"
    using deque_walk_last [OF full di(2)] tl by simp
  show thesis
  proof (cases ps rule: rev_cases)
    case Nil
    show thesis
    proof (rule that [of "h(l := None)" "q\<lparr>dq_head := None, dq_tail := None\<rparr>"])
      show "deque_pop h q = Some (Inr (Some x, h(l := None), q\<lparr>dq_head := None, dq_tail := None\<rparr>))"
        using walk Nil hl by (simp add: deque_pop_def load_node_def)
    qed (auto simp: deque_nodes_def Nil)
  next
    case (snoc xs y)
    obtain r z where y: "y = (r, z)"
      by (cases y)
    have chx: "chain h (dq_head q) xs (Some r)" and hr: "h r = Some \<lparr>wn_task = z, wn_next = Some l\<rparr>"
      and r: "r \<noteq> l" "r \<notin> fst ` set xs" "l \<notin> fst ` set xs" "distinct (map fst xs)"
      using ch di snoc y by (auto simp: chain_append)
    let ?h = "h(r \<mapsto> \<lparr>wn_task = z, wn_next = None\<rparr>, l := None)"
    show thesis
    proof (rule that [of ?h "q\<lparr>dq_tail := Some r\<rparr>"])
      show "deque_pop h q = Some (Inr (Some x, ?h, q\<lparr>dq_tail := Some r\<rparr>))"
        using walk snoc y hl hr by (simp add: deque_pop_def load_node_def)
      show "deque_nodes ?h (q\<lparr>dq_tail := Some r\<rparr>) ps"
        using chx r snoc y by (simp add: deque_nodes_def chain_append chain_upd)
    qed (use snoc y in auto)
  qed
qed

lemma deque_steal_empty: "deque_nodes h q [] \<Longrightarrow> deque_steal h q = Inr (None, h, q)"
  by (simp add: deque_steal_def deque_nodes_def)

lemma deque_steal_nodes:
  assumes "deque_nodes h q ((p, x) # ps)"
  obtains h' q' where "deque_steal h q = Inr (Some x, h', q')"
    "deque_nodes h' q' ps" "\<And>a. a \<noteq> p \<Longrightarrow> h' a = h a" "h' p = None"
proof -
  obtain nx where hd: "dq_head q = Some p" "h p = Some \<lparr>wn_task = x, wn_next = nx\<rparr>"
    and ch: "chain h nx ps None" and di: "p \<notin> fst ` set ps" "distinct (map fst ps)"
    and tl: "dq_tail q = Some (fst (last ((p, x) # ps)))"
    using assms by (auto simp: deque_nodes_def)
  have nx: "nx = (if ps = [] then None else Some (fst (hd ps)))"
    using chain_end [OF ch] .
  let ?q = "(if nx = None then q\<lparr>dq_head := None, dq_tail := None\<rparr> else q\<lparr>dq_head := nx\<rparr>)"
  have "deque_steal h q = Inr (Some x, h(p := None), ?q)"
    using hd by (simp add: deque_steal_def load_node_def Let_def)
  moreover have "deque_nodes (h(p := None)) ?q ps"
  proof (cases ps)
    case Nil
    then show ?thesis
      using nx by (simp add: deque_nodes_def)
  next
    case (Cons y ys)
    then have "nx \<noteq> None"
      using nx by simp
    then show ?thesis
      using ch di tl Cons by (simp add: deque_nodes_def chain_upd)
  qed
  ultimately show thesis
    using that by auto
qed

lemma deque_count_loop_chain:
  "chain h a ps None \<Longrightarrow> deque_count_loop h a cnt = Some (Inr (cnt + int (length ps)))"
proof (induction ps arbitrary: a cnt)
  case Nil
  then show ?case
    by (simp add: deque_count_loop.simps)
next
  case (Cons y ps)
  then obtain p nx where "a = Some p" "\<exists>z. h p = Some \<lparr>wn_task = z, wn_next = nx\<rparr>" "chain h nx ps None"
    by (cases y) auto
  then show ?case
    using Cons.IH [of nx "cnt + 1"] by (subst deque_count_loop.simps) auto
qed

lemma deque_count_nodes: "deque_nodes h q ps \<Longrightarrow> deque_count h q = Some (Inr (int (length ps)))"
  by (simp add: deque_count_def deque_nodes_def deque_count_loop_chain [where ps = ps])

lemma deque_drain_chain:
  assumes "chain h a ps None" "distinct (map fst ps)"
  shows "deque_drain h a = Some (Inr (\<lambda>p. if p \<in> fst ` set ps then None else h p))"
  using assms
proof (induction ps arbitrary: h a)
  case Nil
  then show ?case
    by (simp add: deque_drain.simps)
next
  case (Cons y ps)
  obtain p z where y: "y = (p, z)"
    by (cases y)
  from Cons.prems y obtain nx where nx: "a = Some p" "h p = Some \<lparr>wn_task = z, wn_next = nx\<rparr>"
    "chain (h(p := None)) nx ps None" "distinct (map fst ps)"
    by (auto simp: chain_upd)
  have "deque_drain h a = deque_drain (h(p := None)) nx"
    using nx by (subst deque_drain.simps) simp
  then show ?case
    using Cons.IH [OF nx(3,4)] y by (simp add: fun_eq_iff)
qed

lemma deque_destroy_frees:
  assumes "deque_nodes h q ps"
  shows "deque_destroy h q = Some (Inr (\<lambda>p. if p \<in> fst ` set ps then None else h p, deque_init))"
  using assms deque_drain_chain [of h "dq_head q" ps]
  by (cases q) (simp add: deque_destroy_def deque_nodes_def deque_init_def)

section \<open>The queues of a pool\<close>

text \<open>The queues share one heap. \<open>mem_push\<close>, \<open>mem_pop\<close> and \<open>mem_steal\<close> are the deque operations
  on \<open>pool->queues[i]\<close>.\<close>

record 't pool_mem =
  pm_heap :: "'t node_heap"
  pm_queues :: "work_deque list"

definition mem_push :: "nat option \<Rightarrow> 't pool_mem \<Rightarrow> nat \<Rightarrow> 't \<Rightarrow> (int \<times> 't pool_mem) run" where
  "mem_push malloc m i t =
     bind_run (deque_push malloc (pm_heap m) (pm_queues m ! i) t)
       (\<lambda>(r, h, q). Inr (r, \<lparr>pm_heap = h, pm_queues = (pm_queues m)[i := q]\<rparr>))"

definition mem_pop :: "'t pool_mem \<Rightarrow> nat \<Rightarrow> ('t option \<times> 't pool_mem) run option" where
  "mem_pop m i =
     map_option (\<lambda>r. bind_run r (\<lambda>(t, h, q). Inr (t, \<lparr>pm_heap = h, pm_queues = (pm_queues m)[i := q]\<rparr>)))
       (deque_pop (pm_heap m) (pm_queues m ! i))"

definition mem_steal :: "'t pool_mem \<Rightarrow> nat \<Rightarrow> ('t option \<times> 't pool_mem) run" where
  "mem_steal m i =
     bind_run (deque_steal (pm_heap m) (pm_queues m ! i))
       (\<lambda>(t, h, q). Inr (t, \<lparr>pm_heap = h, pm_queues = (pm_queues m)[i := q]\<rparr>))"

definition mem_fresh :: "'t pool_mem \<Rightarrow> nat \<Rightarrow> bool" where
  "mem_fresh m n \<longleftrightarrow> pm_heap m n = None"

abbreviation addrs :: "(nat \<times> 't) list \<Rightarrow> nat set" where
  "addrs ps \<equiv> fst ` set ps"

definition mem_nodes :: "'t pool_mem \<Rightarrow> (nat \<times> 't) list list \<Rightarrow> bool" where
  "mem_nodes m pss \<longleftrightarrow>
     length pss = length (pm_queues m) \<and>
     (\<forall>i < length pss. deque_nodes (pm_heap m) (pm_queues m ! i) (pss ! i)) \<and>
     (\<forall>i < length pss. \<forall>j < length pss. i \<noteq> j \<longrightarrow> addrs (pss ! i) \<inter> addrs (pss ! j) = {})"

definition mem_rep :: "'t pool_mem \<Rightarrow> 't list list \<Rightarrow> bool" where
  "mem_rep m xss \<longleftrightarrow> (\<exists>pss. mem_nodes m pss \<and> xss = map (map snd) pss)"

lemma mem_nodes_alloc:
  "mem_nodes m pss \<Longrightarrow> i < length pss \<Longrightarrow> p \<in> addrs (pss ! i) \<Longrightarrow> pm_heap m p \<noteq> None"
  unfolding mem_nodes_def deque_nodes_def using chain_alloc by blast

text \<open>An operation that only changes the nodes of queue \<open>i\<close> and unused addresses \<open>N\<close> keeps the
  other queues.\<close>

lemma mem_nodes_update:
  assumes rep: "mem_nodes m pss" and i: "i < length pss"
    and q: "deque_nodes h q ps"
    and frame: "\<And>p. p \<notin> addrs (pss ! i) \<union> N \<Longrightarrow> h p = pm_heap m p"
    and sub: "addrs ps \<subseteq> addrs (pss ! i) \<union> N"
    and fresh: "\<And>p. p \<in> N \<Longrightarrow> pm_heap m p = None"
  shows "mem_nodes \<lparr>pm_heap = h, pm_queues = (pm_queues m)[i := q]\<rparr> (pss[i := ps])"
proof -
  have other: "(addrs (pss ! i) \<union> N) \<inter> addrs (pss ! j) = {}" if "j < length pss" "j \<noteq> i" for j
    using rep i that fresh mem_nodes_alloc [OF rep that(1)] unfolding mem_nodes_def by blast
  have "deque_nodes h (pm_queues m ! j) (pss ! j)" if "j < length pss" "j \<noteq> i" for j
  proof -
    have "chain h (dq_head (pm_queues m ! j)) (pss ! j) None \<longleftrightarrow>
          chain (pm_heap m) (dq_head (pm_queues m ! j)) (pss ! j) None"
      by (rule chain_cong) (use frame other [OF that] in blast)
    with rep that show ?thesis
      by (simp add: mem_nodes_def deque_nodes_def)
  qed
  then have "deque_nodes h ((pm_queues m)[i := q] ! j) (pss[i := ps] ! j)" if "j < length pss" for j
    using that q rep i by (cases "j = i") (auto simp: mem_nodes_def)
  moreover have "addrs (pss[i := ps] ! j) \<inter> addrs (pss[i := ps] ! k) = {}"
    if "j < length pss" "k < length pss" "j \<noteq> k" for j k
  proof -
    consider "j = i" | "k = i" | "j \<noteq> i" "k \<noteq> i" by blast
    then show ?thesis
    proof cases
      case 1
      with other [of k] sub that show ?thesis
        by simp blast
    next
      case 2
      with other [of j] sub that show ?thesis
        by simp blast
    next
      case 3
      with rep that show ?thesis
        by (simp add: mem_nodes_def)
    qed
  qed
  ultimately show ?thesis
    using rep by (simp add: mem_nodes_def)
qed

lemma mem_repE:
  assumes "mem_rep m xss"
  obtains pss where "mem_nodes m pss" "xss = map (map snd) pss" "length xss = length pss"
  using assms by (auto simp: mem_rep_def)

lemma mem_nodes_queue:
  "mem_nodes m pss \<Longrightarrow> i < length pss \<Longrightarrow> deque_nodes (pm_heap m) (pm_queues m ! i) (pss ! i)"
  by (simp add: mem_nodes_def)

lemma mem_push_rep:
  assumes "mem_rep m xss" "i < length xss" "mem_fresh m n"
  shows "\<exists>m'. mem_push (Some n) m i t = Inr (0, m') \<and> mem_rep m' (xss[i := xss ! i @ [t]])"
proof -
  obtain pss where pss: "mem_nodes m pss" "xss = map (map snd) pss" "length xss = length pss"
    using mem_repE [OF assms(1)] .
  with assms(2) have i: "i < length pss" by simp
  have n: "pm_heap m n = None"
    using assms(3) by (simp add: mem_fresh_def)
  obtain h q where push: "deque_push (Some n) (pm_heap m) (pm_queues m ! i) t = Inr (0, h, q)"
    and q: "deque_nodes h q (pss ! i @ [(n, t)])"
    and fr: "\<And>p. p \<noteq> n \<Longrightarrow> p \<notin> addrs (pss ! i) \<Longrightarrow> h p = pm_heap m p"
    using deque_push_nodes [OF mem_nodes_queue [OF pss(1) i] n] by blast
  have "mem_nodes \<lparr>pm_heap = h, pm_queues = (pm_queues m)[i := q]\<rparr> (pss[i := pss ! i @ [(n, t)]])"
    by (rule mem_nodes_update [OF pss(1) i q, where N = "{n}"]) (use fr n in auto)
  then have "mem_rep \<lparr>pm_heap = h, pm_queues = (pm_queues m)[i := q]\<rparr> (xss[i := xss ! i @ [t]])"
    unfolding mem_rep_def using pss i by (intro exI [of _ "pss[i := pss ! i @ [(n, t)]]"]) (simp add: map_update)
  with push show ?thesis
    by (simp add: mem_push_def)
qed

lemma mem_push_fail:
  assumes "i < length (pm_queues m)"
  shows "mem_push None m i t = Inr (- 1, m)"
  using assms by (simp add: mem_push_def deque_push_def)

lemma pool_mem_eta [simp]: "\<lparr>pm_heap = pm_heap m, pm_queues = pm_queues m\<rparr> = m"
  by (cases m) simp

lemma mem_pop_rep:
  assumes "mem_rep m xss" "i < length xss"
  shows "\<exists>m'. mem_pop m i = Some (Inr (if xss ! i = [] then None else Some (last (xss ! i)), m')) \<and>
              mem_rep m' (xss[i := butlast (xss ! i)])"
proof -
  obtain pss where pss: "mem_nodes m pss" "xss = map (map snd) pss" "length xss = length pss"
    using mem_repE [OF assms(1)] .
  with assms(2) have i: "i < length pss" by simp
  show ?thesis
  proof (cases "pss ! i" rule: rev_cases)
    case Nil
    then have "deque_nodes (pm_heap m) (pm_queues m ! i) []" "xss ! i = []"
      using mem_nodes_queue [OF pss(1) i] pss i by simp_all
    moreover from this have "xss[i := butlast (xss ! i)] = xss"
      by (metis butlast.simps(1) list_update_id)
    ultimately show ?thesis
      using assms by (simp add: mem_pop_def deque_pop_empty)
  next
    case (snoc ps y)
    obtain l x where y: "y = (l, x)" by (cases y)
    have dq: "deque_nodes (pm_heap m) (pm_queues m ! i) (ps @ [(l, x)])"
      using mem_nodes_queue [OF pss(1) i] snoc y by simp
    obtain h q where pop: "deque_pop (pm_heap m) (pm_queues m ! i) = Some (Inr (Some x, h, q))"
      and q: "deque_nodes h q ps"
      and fr: "\<And>p. p \<notin> insert l (addrs ps) \<Longrightarrow> h p = pm_heap m p"
      using deque_pop_nodes [OF dq] by blast
    have "mem_nodes \<lparr>pm_heap = h, pm_queues = (pm_queues m)[i := q]\<rparr> (pss[i := ps])"
      by (rule mem_nodes_update [OF pss(1) i q, where N = "{}"]) (use fr snoc y in auto)
    then have "mem_rep \<lparr>pm_heap = h, pm_queues = (pm_queues m)[i := q]\<rparr> (xss[i := butlast (xss ! i)])"
      unfolding mem_rep_def using pss i snoc y by (intro exI [of _ "pss[i := ps]"]) (simp add: map_update)
    with pop show ?thesis
      using pss i snoc y by (simp add: mem_pop_def)
  qed
qed

lemma mem_steal_rep:
  assumes "mem_rep m xss" "i < length xss"
  shows "\<exists>m'. mem_steal m i = Inr (if xss ! i = [] then None else Some (hd (xss ! i)), m') \<and>
              mem_rep m' (xss[i := tl (xss ! i)])"
proof -
  obtain pss where pss: "mem_nodes m pss" "xss = map (map snd) pss" "length xss = length pss"
    using mem_repE [OF assms(1)] .
  with assms(2) have i: "i < length pss" by simp
  show ?thesis
  proof (cases "pss ! i")
    case Nil
    then have "deque_nodes (pm_heap m) (pm_queues m ! i) []" "xss ! i = []"
      using mem_nodes_queue [OF pss(1) i] pss i by simp_all
    moreover from this have "xss[i := tl (xss ! i)] = xss"
      by (metis list.sel(2) list_update_id)
    ultimately show ?thesis
      using assms by (simp add: mem_steal_def deque_steal_empty)
  next
    case (Cons y ps)
    obtain l x where y: "y = (l, x)" by (cases y)
    have dq: "deque_nodes (pm_heap m) (pm_queues m ! i) ((l, x) # ps)"
      using mem_nodes_queue [OF pss(1) i] Cons y by simp
    obtain h q where steal: "deque_steal (pm_heap m) (pm_queues m ! i) = Inr (Some x, h, q)"
      and q: "deque_nodes h q ps"
      and fr: "\<And>p. p \<noteq> l \<Longrightarrow> h p = pm_heap m p"
      using deque_steal_nodes [OF dq] by blast
    have "mem_nodes \<lparr>pm_heap = h, pm_queues = (pm_queues m)[i := q]\<rparr> (pss[i := ps])"
      by (rule mem_nodes_update [OF pss(1) i q, where N = "{}"]) (use fr Cons y in auto)
    then have "mem_rep \<lparr>pm_heap = h, pm_queues = (pm_queues m)[i := q]\<rparr> (xss[i := tl (xss ! i)])"
      unfolding mem_rep_def using pss i Cons y by (intro exI [of _ "pss[i := ps]"]) (simp add: map_update)
    with steal show ?thesis
      using pss i Cons y by (simp add: mem_steal_def)
  qed
qed

section \<open>The contract of the queues\<close>

datatype 't dq_call = Push nat "nat option" 't | Pop nat | Steal nat

fun call_queue :: "'t dq_call \<Rightarrow> nat" where
  "call_queue (Push i a t) = i"
| "call_queue (Pop i) = i"
| "call_queue (Steal i) = i"

text \<open>What a call does to the sequences: \<open>push\<close> appends, the owner takes the last element, a
  thief the first.\<close>

fun seq_call :: "'t dq_call \<Rightarrow> 't list list \<Rightarrow> 't option \<times> 't list list" where
  "seq_call (Push i a t) xss = (None, if a = None then xss else xss[i := xss ! i @ [t]])"
| "seq_call (Pop i) xss =
     (if xss ! i = [] then None else Some (last (xss ! i)), xss[i := butlast (xss ! i)])"
| "seq_call (Steal i) xss =
     (if xss ! i = [] then None else Some (hd (xss ! i)), xss[i := tl (xss ! i)])"

fun seq_calls :: "'t dq_call list \<Rightarrow> 't list list \<Rightarrow> 't option list \<times> 't list list" where
  "seq_calls [] xss = ([], xss)"
| "seq_calls (c # cs) xss =
     (let (out, xss) = seq_call c xss; (outs, xss) = seq_calls cs xss in (out # outs, xss))"

fun dq_call_run ::
  "(nat option \<Rightarrow> 'm \<Rightarrow> nat \<Rightarrow> 't \<Rightarrow> (int \<times> 'm) run) \<Rightarrow> ('m \<Rightarrow> nat \<Rightarrow> ('t option \<times> 'm) run option) \<Rightarrow>
   ('m \<Rightarrow> nat \<Rightarrow> ('t option \<times> 'm) run) \<Rightarrow> 't dq_call \<Rightarrow> 'm \<Rightarrow> ('t option \<times> 'm) run option"
where
  "dq_call_run push pop steal (Push i a t) m = Some (bind_run (push a m i t) (\<lambda>(r, m). Inr (None, m)))"
| "dq_call_run push pop steal (Pop i) m = pop m i"
| "dq_call_run push pop steal (Steal i) m = Some (steal m i)"

text \<open>A sequence of calls, each on the memory the one before left; every address \<open>malloc\<close>
  answers has to be unused at that moment.\<close>

fun dq_calls_run ::
  "('t dq_call \<Rightarrow> 'm \<Rightarrow> ('t option \<times> 'm) run option) \<Rightarrow> 't dq_call list \<Rightarrow> 'm \<Rightarrow>
   ('t option list \<times> 'm) run option"
where
  "dq_calls_run run [] m = Some (Inr ([], m))"
| "dq_calls_run run (c # cs) m =
     Option.bind (run c m) (\<lambda>r. case r of
        Inl e \<Rightarrow> Some (Inl e)
      | Inr (out, m) \<Rightarrow>
          map_option (\<lambda>r. bind_run r (\<lambda>(outs, m). Inr (out # outs, m))) (dq_calls_run run cs m))"

fun malloc_fresh ::
  "('t dq_call \<Rightarrow> 'm \<Rightarrow> ('t option \<times> 'm) run option) \<Rightarrow> ('m \<Rightarrow> nat \<Rightarrow> bool) \<Rightarrow> 't dq_call list \<Rightarrow> 'm \<Rightarrow> bool"
where
  "malloc_fresh run fresh [] m \<longleftrightarrow> True"
| "malloc_fresh run fresh (c # cs) m \<longleftrightarrow>
     (case c of Push i (Some n) t \<Rightarrow> fresh m n | _ \<Rightarrow> True) \<and>
     (case run c m of Some (Inr (out, m)) \<Rightarrow> malloc_fresh run fresh cs m | _ \<Rightarrow> True)"

locale deque_vector =
  fixes rep :: "'m \<Rightarrow> 't list list \<Rightarrow> bool"
    and fresh :: "'m \<Rightarrow> nat \<Rightarrow> bool"
    and push :: "nat option \<Rightarrow> 'm \<Rightarrow> nat \<Rightarrow> 't \<Rightarrow> (int \<times> 'm) run"
    and pop :: "'m \<Rightarrow> nat \<Rightarrow> ('t option \<times> 'm) run option"
    and steal :: "'m \<Rightarrow> nat \<Rightarrow> ('t option \<times> 'm) run"
  assumes push_law: "rep m xss \<Longrightarrow> i < length xss \<Longrightarrow> fresh m n \<Longrightarrow>
      \<exists>m'. push (Some n) m i t = Inr (0, m') \<and> rep m' (xss[i := xss ! i @ [t]])"
    and push_none_law: "rep m xss \<Longrightarrow> i < length xss \<Longrightarrow> push None m i t = Inr (- 1, m)"
    and pop_law: "rep m xss \<Longrightarrow> i < length xss \<Longrightarrow>
      \<exists>m'. pop m i = Some (Inr (if xss ! i = [] then None else Some (last (xss ! i)), m')) \<and>
           rep m' (xss[i := butlast (xss ! i)])"
    and steal_law: "rep m xss \<Longrightarrow> i < length xss \<Longrightarrow>
      \<exists>m'. steal m i = Inr (if xss ! i = [] then None else Some (hd (xss ! i)), m') \<and>
           rep m' (xss[i := tl (xss ! i)])"
begin

lemma call_refines:
  assumes "rep m xss" "call_queue c < length xss"
    and "case c of Push i (Some n) t \<Rightarrow> fresh m n | _ \<Rightarrow> True"
  shows "\<exists>m'. dq_call_run push pop steal c m = Some (Inr (fst (seq_call c xss), m')) \<and>
              rep m' (snd (seq_call c xss))"
proof (cases c)
  case (Push i a t)
  then show ?thesis
    using assms push_law [of m xss i _ t] push_none_law [of m xss i t]
    by (cases a) fastforce+
qed (use assms pop_law steal_law in auto)

lemma calls_refine:
  assumes "rep m xss" "\<And>c. c \<in> set cs \<Longrightarrow> call_queue c < length xss"
    and "malloc_fresh (dq_call_run push pop steal) fresh cs m"
  shows "\<exists>m'. dq_calls_run (dq_call_run push pop steal) cs m = Some (Inr (fst (seq_calls cs xss), m')) \<and>
              rep m' (snd (seq_calls cs xss))"
  using assms
proof (induction cs arbitrary: m xss)
  case (Cons c cs)
  have "\<exists>m'. dq_call_run push pop steal c m = Some (Inr (fst (seq_call c xss), m')) \<and>
              rep m' (snd (seq_call c xss))"
    by (rule call_refines) (use Cons.prems in auto)
  then obtain m1 where m1: "dq_call_run push pop steal c m = Some (Inr (fst (seq_call c xss), m1))"
    "rep m1 (snd (seq_call c xss))"
    by blast
  have "length (snd (seq_call c xss)) = length xss"
    by (cases c) auto
  then have "\<exists>m'. dq_calls_run (dq_call_run push pop steal) cs m1 =
        Some (Inr (fst (seq_calls cs (snd (seq_call c xss))), m')) \<and>
      rep m' (snd (seq_calls cs (snd (seq_call c xss))))"
    using Cons.prems m1 by (intro Cons.IH) auto
  with m1 show ?case
    by (auto simp: case_prod_beta Let_def)
qed auto

end

lemma mem_rep_length: "mem_rep m xss \<Longrightarrow> length (pm_queues m) = length xss"
  by (auto simp: mem_rep_def mem_nodes_def)

interpretation pool_queues: deque_vector mem_rep mem_fresh mem_push mem_pop mem_steal
proof (unfold_locales, goal_cases)
  case (2 m xss i t)
  then show ?case
    by (simp add: mem_push_fail mem_rep_length)
qed (simp_all add: mem_push_rep mem_pop_rep mem_steal_rep)

abbreviation deque_run :: "'t dq_call \<Rightarrow> 't pool_mem \<Rightarrow> ('t option \<times> 't pool_mem) run option" where
  "deque_run \<equiv> dq_call_run mem_push mem_pop mem_steal"

text \<open>
  C22. Any sequence of pushes, pops and steals on the linked deques of a pool that share one heap
  ends without touching a freed node, gives each caller what the sequences give (the owner the
  newest task, a thief the oldest, nothing from an empty queue; a push whose \<open>malloc\<close> fails
  changes nothing) and leaves the queues representing the resulting sequences.
\<close>

theorem deques_refine_sequences:
  assumes "mem_rep m xss" "\<forall>c \<in> set cs. call_queue c < length xss"
    and "malloc_fresh deque_run mem_fresh cs m"
  shows "\<exists>m'. dq_calls_run deque_run cs m = Some (Inr (fst (seq_calls cs xss), m')) \<and>
              mem_rep m' (snd (seq_calls cs xss))"
  using assms by (intro pool_queues.calls_refine) auto

definition two_queues :: "nat pool_mem" where
  "two_queues = \<lparr>pm_heap = (\<lambda>_. None), pm_queues = [deque_init, deque_init]\<rparr>"

definition two_queues_calls :: "nat dq_call list" where
  "two_queues_calls = [Push 0 (Some 7) 1, Push 0 (Some 8) 2, Steal 0, Pop 0, Push 1 None 3, Pop 1]"

lemma two_queues_rep: "mem_rep two_queues [[], []]"
  unfolding mem_rep_def two_queues_def
  by (rule exI [of _ "[[], []]"]) (auto simp: mem_nodes_def nth_Cons split: nat.splits)

theorem deques_refine_sequences_witness:
  "\<exists>m'. dq_calls_run deque_run two_queues_calls two_queues =
          Some (Inr ([None, None, Some 1, Some 2, None, None], m')) \<and> mem_rep m' [[], []]"
proof -
  have "malloc_fresh deque_run mem_fresh two_queues_calls two_queues"
    by (simp add: two_queues_calls_def two_queues_def mem_fresh_def mem_push_def deque_push_def
        deque_init_def load_node_def mem_steal_def deque_steal_def mem_pop_def deque_pop_def
        deque_walk.simps)
  from deques_refine_sequences [OF two_queues_rep _ this] show ?thesis
    by (simp add: two_queues_calls_def)
qed

end
