(* ===== verification/Threadpool.thy ===== *)
theory Threadpool
  imports Work_Deque "HOL-Library.Signed_Division"
begin

text \<open>
  The thread pool of \<open>kernel/thread/threadpool.c\<close> as a transition system: \<open>num_threads\<close> workers
  running \<open>worker_entry\<close> and one client thread that creates the pool, submits tasks, waits and
  destroys it. Every access to shared memory is a step of its own except that a section between
  the lock and the unlock of a mutex that does not wait inside is one step, taken when the mutex is
  free. The sleep loop of a worker keeps \<open>global_lock\<close> over several steps, so the pool state has
  the holder of that lock.

  The queues are the sequences that the linked deques represent (theory \<open>Work_Deque\<close>). A task is
  any value; \<open>body t\<close> lists the tasks that \<open>t.func(t.arg)\<close> itself submits, which is all a task
  does to the pool. What the program does not decide is an argument of a step: whether an
  allocation or a thread creation succeeds (\<open>ok\<close>), which sleeper a signal wakes (\<open>v\<close>) and which
  operation the client calls next. The tasks submitted, finished and dropped so far are recorded
  in three fields the code does not have.
\<close>

section \<open>State\<close>

datatype 't wpc =
    W_Unborn
  | W_Test
  | W_Pop
  | W_Steal nat
  | W_Run 't "'t list"
  | W_Count 't "'t list"
  | W_Done 't
  | W_Lock
  | W_Pred
  | W_Enter
  | W_Asleep
  | W_Woken
  | W_Leave
  | W_Exit

datatype 't cpc =
    C_Create nat
  | C_Fail nat nat
  | C_Failed
  | C_Ready
  | C_Count 't
  | C_Scan nat
  | C_Check
  | C_Broadcast
  | C_Join nat
  | C_Destroyed

datatype 't client_call = Call_Submit 't | Call_Wait | Call_Destroy

record 't pool =
  num_threads :: nat
  shutdown :: bool
  queues :: "'t list list"
  global_lock :: "nat option"
  active_tasks :: int
  waiting_count :: int
  workers :: "'t wpc list"
  client :: "'t cpc"
  rr_counter :: u64
  submitted :: "'t multiset"
  finished :: "'t multiset"
  dropped :: "'t multiset"

definition SNEPPX_threadpool_default_count :: "int \<Rightarrow> int" where
  "SNEPPX_threadpool_default_count nprocs =
     (let n = (if nprocs \<le> 0 then 4 else nprocs) in if n < 2 then 2 else n)"

text \<open>The pool when \<open>SNEPPX_threadpool_create\<close> begins to start its workers; \<open>nprocs\<close> is what
  \<open>sysconf\<close> answers.\<close>

definition threadpool_begin :: "int \<Rightarrow> nat \<Rightarrow> 't pool" where
  "threadpool_begin nprocs n =
     (let n = (if n = 0 then nat (SNEPPX_threadpool_default_count nprocs) else n) in
      \<lparr>num_threads = n, shutdown = False, queues = replicate n [], global_lock = None,
       active_tasks = 0, waiting_count = 0, workers = replicate n W_Unborn, client = C_Create 0,
       rr_counter = 0, submitted = {#}, finished = {#}, dropped = {#}\<rparr>)"

section \<open>Workers\<close>

abbreviation set_worker :: "nat \<Rightarrow> 't wpc \<Rightarrow> 't pool \<Rightarrow> 't pool" where
  "set_worker w pc s \<equiv> s\<lparr>workers := (workers s)[w := pc]\<rparr>"

text \<open>\<open>pthread_cond_signal\<close> wakes a sleeper when there is one: the choice \<open>v\<close> has to be one.\<close>

definition cond_signal :: "nat \<Rightarrow> 't pool \<Rightarrow> 't pool option" where
  "cond_signal v s =
     (if v < length (workers s) \<and> workers s ! v = W_Asleep then Some (set_worker v W_Woken s)
      else if W_Asleep \<in> set (workers s) then None
      else Some s)"

definition cond_broadcast :: "'t pool \<Rightarrow> 't pool" where
  "cond_broadcast s = s\<lparr>workers := map (\<lambda>pc. if pc = W_Asleep then W_Woken else pc) (workers s)\<rparr>"

text \<open>The second half of \<open>SNEPPX_threadpool_submit\<close>, after the push: count the task, wake a sleeper.\<close>

definition submit_count :: "nat \<Rightarrow> 't pool \<Rightarrow> 't pool option" where
  "submit_count v s =
     (if global_lock s \<noteq> None then None
      else let s = s\<lparr>active_tasks := active_tasks s + 1\<rparr> in
           if waiting_count s > 0 then cond_signal v s else Some s)"

definition worker_step :: "('t \<Rightarrow> 't list) \<Rightarrow> bool \<Rightarrow> nat \<Rightarrow> nat \<Rightarrow> 't pool \<Rightarrow> 't pool option" where
  "worker_step body ok v w s =
     (case workers s ! w of
        W_Unborn \<Rightarrow> None
      | W_Test \<Rightarrow> Some (set_worker w (if shutdown s then W_Exit else W_Pop) s)
      | W_Pop \<Rightarrow>
          (case queues s ! w of
             [] \<Rightarrow> Some (set_worker w (W_Steal 1) s)
           | q \<Rightarrow> let t = last q in
                  Some (set_worker w (W_Run t (body t)) (s\<lparr>queues := (queues s)[w := butlast q]\<rparr>)))
      | W_Steal i \<Rightarrow>
          if i < num_threads s then
            let victim = (w + i) mod num_threads s in
            (case queues s ! victim of
               [] \<Rightarrow> Some (set_worker w (W_Steal (i + 1)) s)
             | t # q \<Rightarrow>
                 Some (set_worker w (W_Run t (body t)) (s\<lparr>queues := (queues s)[victim := q]\<rparr>)))
          else Some (set_worker w W_Lock s)
      | W_Run t [] \<Rightarrow> Some (set_worker w (W_Done t) (s\<lparr>finished := add_mset t (finished s)\<rparr>))
      | W_Run t (c # cs) \<Rightarrow>
          if ok then
            Some (set_worker w (W_Count t cs)
              (s\<lparr>queues := (queues s)[w := queues s ! w @ [c]], submitted := add_mset c (submitted s)\<rparr>))
          else Some (set_worker w (W_Run t cs) s)
      | W_Count t cs \<Rightarrow> map_option (set_worker w (W_Run t cs)) (submit_count v s)
      | W_Done t \<Rightarrow>
          if global_lock s = None
          then Some (set_worker w W_Test (s\<lparr>active_tasks := active_tasks s - 1\<rparr>))
          else None
      | W_Lock \<Rightarrow>
          if global_lock s = None
          then Some (set_worker w W_Pred
                 (s\<lparr>global_lock := Some w, waiting_count := waiting_count s + 1\<rparr>))
          else None
      | W_Pred \<Rightarrow>
          Some (set_worker w (if \<not> shutdown s \<and> active_tasks s = 0 then W_Enter else W_Leave) s)
      | W_Enter \<Rightarrow> Some (set_worker w W_Asleep (s\<lparr>global_lock := None\<rparr>))
      | W_Asleep \<Rightarrow> None
      | W_Woken \<Rightarrow>
          if global_lock s = None
          then Some (set_worker w W_Pred (s\<lparr>global_lock := Some w\<rparr>))
          else None
      | W_Leave \<Rightarrow>
          Some (set_worker w W_Test
            (s\<lparr>global_lock := None, waiting_count := waiting_count s - 1\<rparr>))
      | W_Exit \<Rightarrow> None)"

section \<open>The client\<close>

text \<open>The index of the queue an outside thread submits to: the old value of the shared counter,
  a signed \<open>long\<close>, modulo the number of threads in C's sense, read as \<open>size_t\<close>.\<close>

definition submit_index :: "u64 \<Rightarrow> nat \<Rightarrow> nat" where
  "submit_index c n =
     (let idx = unat (word_of_int (sint c smod int n) :: u64) in if idx \<ge> n then 0 else idx)"

text \<open>\<open>SNEPPX_threadpool_create\<close> starts worker \<open>i\<close>; when that fails it joins the workers started so
  far and frees the queues.\<close>

definition create_step :: "bool \<Rightarrow> nat \<Rightarrow> 't pool \<Rightarrow> 't pool" where
  "create_step ok i s =
     (if i < num_threads s then
        if ok then set_worker i W_Test (s\<lparr>client := C_Create (i + 1)\<rparr>)
        else s\<lparr>client := C_Fail 0 i\<rparr>
      else s\<lparr>client := C_Ready\<rparr>)"

definition free_queue :: "nat \<Rightarrow> 't pool \<Rightarrow> 't pool" where
  "free_queue j s = s\<lparr>queues := (queues s)[j := []], dropped := dropped s + mset (queues s ! j)\<rparr>"

definition create_fail_step :: "nat \<Rightarrow> nat \<Rightarrow> 't pool \<Rightarrow> 't pool option" where
  "create_fail_step j i s =
     (if j < num_threads s then
        if j < i \<and> workers s ! j \<noteq> W_Exit then None
        else Some ((free_queue j s)\<lparr>client := C_Fail (j + 1) i\<rparr>)
      else Some (s\<lparr>client := C_Failed\<rparr>))"

definition submit_push :: "bool \<Rightarrow> 't \<Rightarrow> 't pool \<Rightarrow> 't pool" where
  "submit_push ok t s =
     (let idx = submit_index (rr_counter s) (num_threads s);
          s = s\<lparr>rr_counter := rr_counter s + 1\<rparr> in
      if ok then
        s\<lparr>queues := (queues s)[idx := queues s ! idx @ [t]],
          submitted := add_mset t (submitted s), client := C_Count t\<rparr>
      else s)"

definition wait_scan :: "nat \<Rightarrow> 't pool \<Rightarrow> 't pool" where
  "wait_scan i s =
     (if i < num_threads s then
        s\<lparr>client := (if length (queues s ! i) > 0 then C_Scan 0 else C_Scan (i + 1))\<rparr>
      else s\<lparr>client := C_Check\<rparr>)"

definition wait_check :: "'t pool \<Rightarrow> 't pool" where
  "wait_check s = s\<lparr>client := (if active_tasks s = 0 then C_Ready else C_Scan 0)\<rparr>"

definition destroy_join :: "nat \<Rightarrow> 't pool \<Rightarrow> 't pool option" where
  "destroy_join i s =
     (if i < num_threads s then
        if workers s ! i \<noteq> W_Exit then None
        else Some ((free_queue i s)\<lparr>client := C_Join (i + 1)\<rparr>)
      else Some (s\<lparr>client := C_Destroyed\<rparr>))"

definition client_step :: "bool \<Rightarrow> nat \<Rightarrow> 't client_call \<Rightarrow> 't pool \<Rightarrow> 't pool option" where
  "client_step ok v call s =
     (case client s of
        C_Create i \<Rightarrow> Some (create_step ok i s)
      | C_Fail j i \<Rightarrow> create_fail_step j i s
      | C_Failed \<Rightarrow> None
      | C_Ready \<Rightarrow>
          (case call of
             Call_Submit t \<Rightarrow> Some (submit_push ok t s)
           | Call_Wait \<Rightarrow> Some (s\<lparr>client := C_Scan 0\<rparr>)
           | Call_Destroy \<Rightarrow> Some (s\<lparr>shutdown := True, client := C_Broadcast\<rparr>))
      | C_Count t \<Rightarrow> map_option (\<lambda>s. s\<lparr>client := C_Ready\<rparr>) (submit_count v s)
      | C_Scan i \<Rightarrow> Some (wait_scan i s)
      | C_Check \<Rightarrow> Some (wait_check s)
      | C_Broadcast \<Rightarrow> Some ((cond_broadcast s)\<lparr>client := C_Join 0\<rparr>)
      | C_Join i \<Rightarrow> destroy_join i s
      | C_Destroyed \<Rightarrow> None)"

lemmas client_defs = client_step_def create_step_def create_fail_step_def submit_push_def wait_scan_def
  wait_check_def destroy_join_def free_queue_def

section \<open>Runs\<close>

inductive pool_step :: "('t \<Rightarrow> 't list) \<Rightarrow> 't pool \<Rightarrow> 't pool \<Rightarrow> bool" for body where
  Worker: "w < num_threads s \<Longrightarrow> worker_step body ok v w s = Some s' \<Longrightarrow> pool_step body s s'"
| Client: "client_step ok v call s = Some s' \<Longrightarrow> pool_step body s s'"

text \<open>POSIX lets \<open>pthread_cond_wait\<close> return without a signal.\<close>

inductive pool_reachable :: "('t \<Rightarrow> 't list) \<Rightarrow> int \<Rightarrow> nat \<Rightarrow> 't pool \<Rightarrow> bool" for body nprocs n where
  Begin: "pool_reachable body nprocs n (threadpool_begin nprocs n)"
| Step: "pool_reachable body nprocs n s \<Longrightarrow> pool_step body s s' \<Longrightarrow> pool_reachable body nprocs n s'"
| Spurious: "pool_reachable body nprocs n s \<Longrightarrow> w < num_threads s \<Longrightarrow> workers s ! w = W_Asleep \<Longrightarrow>
    pool_reachable body nprocs n (set_worker w W_Woken s)"

section \<open>Counting over the workers\<close>

lemma sum_list_map_update:
  fixes f :: "'a \<Rightarrow> 'b :: comm_monoid_add"
  assumes "i < length xs"
  shows "sum_list (map f (xs[i := y])) + f (xs ! i) = sum_list (map f xs) + f y"
  using assms
proof (induction xs arbitrary: i)
  case (Cons x xs)
  then show ?case
    by (cases i) (simp_all add: ac_simps)
qed simp

lemma sum_list_map_update_int:
  fixes f :: "'a \<Rightarrow> int"
  assumes "i < length xs"
  shows "sum_list (map f (xs[i := y])) = sum_list (map f xs) + f y - f (xs ! i)"
  using sum_list_map_update [OF assms, of f y] by simp

text \<open>\<open>weight g xs\<close> counts tasks: all of them with \<open>g = (\<lambda>_. 1)\<close>, the occurrences of one with an
  indicator function.\<close>

definition weight :: "('t \<Rightarrow> int) \<Rightarrow> 't list \<Rightarrow> int" where
  "weight g xs = sum_list (map g xs)"

definition mweight :: "('t \<Rightarrow> int) \<Rightarrow> 't multiset \<Rightarrow> int" where
  "mweight g M = (\<Sum>x\<in>#M. g x)"

lemma weight_simps [simp]:
  "weight g [] = 0" "weight g (x # xs) = g x + weight g xs" "weight g (xs @ ys) = weight g xs + weight g ys"
  by (simp_all add: weight_def)

lemma weight_butlast: "xs \<noteq> [] \<Longrightarrow> weight g (butlast xs) = weight g xs - g (last xs)"
  by (induction xs rule: rev_induct) simp_all

lemma mweight_simps [simp]:
  "mweight g {#} = 0" "mweight g (add_mset x M) = g x + mweight g M"
  "mweight g (M + N) = mweight g M + mweight g N" "mweight g (mset xs) = weight g xs"
  by (simp_all add: mweight_def weight_def flip: mset_map sum_mset_sum_list)

lemma mweight_count: "mweight (\<lambda>x. of_bool (x = t)) M = int (count M t)"
  by (induction M) simp_all

lemma mweight_size: "mweight (\<lambda>_. 1) M = int (size M)"
  by (induction M) simp_all

text \<open>What a worker at a given place holds: a task taken from a queue and not yet subtracted from
  \<open>active_tasks\<close>, a pushed task not yet added, a task that has not returned, a place among the
  sleepers, the lock.\<close>

fun pc_hand :: "'t wpc \<Rightarrow> int" where
  "pc_hand (W_Run t cs) = 1"
| "pc_hand (W_Count t cs) = 1"
| "pc_hand (W_Done t) = 1"
| "pc_hand _ = 0"

fun pc_counting :: "'t wpc \<Rightarrow> int" where
  "pc_counting (W_Count t cs) = 1"
| "pc_counting _ = 0"

fun pc_running :: "('t \<Rightarrow> int) \<Rightarrow> 't wpc \<Rightarrow> int" where
  "pc_running g (W_Run t cs) = g t"
| "pc_running g (W_Count t cs) = g t"
| "pc_running g _ = 0"

fun pc_waiting :: "'t wpc \<Rightarrow> int" where
  "pc_waiting W_Pred = 1"
| "pc_waiting W_Enter = 1"
| "pc_waiting W_Asleep = 1"
| "pc_waiting W_Woken = 1"
| "pc_waiting W_Leave = 1"
| "pc_waiting _ = 0"

fun pc_locked :: "'t wpc \<Rightarrow> bool" where
  "pc_locked W_Pred = True"
| "pc_locked W_Enter = True"
| "pc_locked W_Leave = True"
| "pc_locked _ = False"

fun client_counting :: "'t cpc \<Rightarrow> int" where
  "client_counting (C_Count t) = 1"
| "client_counting _ = 0"

fun client_creating :: "'t cpc \<Rightarrow> bool" where
  "client_creating (C_Create i) = True"
| "client_creating (C_Fail j i) = True"
| "client_creating C_Failed = True"
| "client_creating _ = False"

fun client_closing :: "'t cpc \<Rightarrow> bool" where
  "client_closing C_Broadcast = True"
| "client_closing (C_Join i) = True"
| "client_closing C_Destroyed = True"
| "client_closing _ = False"

abbreviation worker_sum :: "('t wpc \<Rightarrow> int) \<Rightarrow> 't pool \<Rightarrow> int" where
  "worker_sum f s \<equiv> sum_list (map f (workers s))"

abbreviation queue_weight :: "('t \<Rightarrow> int) \<Rightarrow> 't pool \<Rightarrow> int" where
  "queue_weight g s \<equiv> sum_list (map (weight g) (queues s))"

section \<open>The invariant\<close>

definition pool_shape :: "'t pool \<Rightarrow> bool" where
  "pool_shape s \<longleftrightarrow> num_threads s > 0 \<and> length (queues s) = num_threads s \<and>
                  length (workers s) = num_threads s"

definition lock_inv :: "'t pool \<Rightarrow> bool" where
  "lock_inv s \<longleftrightarrow> (\<forall>w < num_threads s. pc_locked (workers s ! w) \<longleftrightarrow> global_lock s = Some w) \<and>
     (\<forall>w. global_lock s = Some w \<longrightarrow> w < num_threads s)"

definition active_inv :: "'t pool \<Rightarrow> bool" where
  "active_inv s \<longleftrightarrow>
     active_tasks s + worker_sum pc_counting s + client_counting (client s) =
     queue_weight (\<lambda>_. 1) s + mweight (\<lambda>_. 1) (dropped s) + worker_sum pc_hand s"

definition task_inv :: "('t \<Rightarrow> int) \<Rightarrow> 't pool \<Rightarrow> bool" where
  "task_inv g s \<longleftrightarrow>
     mweight g (submitted s) =
     mweight g (finished s) + mweight g (dropped s) + queue_weight g s + worker_sum (pc_running g) s"

definition waiting_inv :: "'t pool \<Rightarrow> bool" where
  "waiting_inv s \<longleftrightarrow> waiting_count s = worker_sum pc_waiting s"

definition enter_inv :: "'t pool \<Rightarrow> bool" where
  "enter_inv s \<longleftrightarrow> (\<forall>w < num_threads s. workers s ! w = W_Enter \<longrightarrow> active_tasks s = 0)"

definition awake_inv :: "'t pool \<Rightarrow> bool" where
  "awake_inv s \<longleftrightarrow> active_tasks s \<noteq> 0 \<longrightarrow> (\<exists>w < num_threads s. workers s ! w \<noteq> W_Asleep)"

definition phase_inv :: "'t pool \<Rightarrow> bool" where
  "phase_inv s \<longleftrightarrow>
     (\<forall>w < num_threads s. workers s ! w = W_Exit \<longrightarrow> shutdown s) \<and>
     (shutdown s \<longleftrightarrow> client_closing (client s)) \<and>
     (\<not> shutdown s \<longrightarrow> dropped s = {#}) \<and>
     (client_creating (client s) \<longrightarrow> submitted s = {#} \<and>
        (\<forall>w < num_threads s. queues s ! w = [] \<and> pc_hand (workers s ! w) = 0))"

definition unborn_inv :: "'t pool \<Rightarrow> bool" where
  "unborn_inv s \<longleftrightarrow> (\<forall>w < num_threads s. workers s ! w = W_Unborn \<longleftrightarrow>
     (case client s of
        C_Create i \<Rightarrow> i \<le> w | C_Fail j i \<Rightarrow> i \<le> w | C_Failed \<Rightarrow> workers s ! w = W_Unborn | _ \<Rightarrow> False))"

named_theorems pool_defs \<open>the steps of the pool\<close>

lemmas [pool_defs] = worker_step_def client_defs submit_count_def cond_signal_def cond_broadcast_def Let_def

lemma submit_index_less: "0 < n \<Longrightarrow> submit_index c n < n"
  by (simp add: submit_index_def Let_def)

lemma weight_1_eq: "weight (\<lambda>_. 1) xs = int (length xs)"
  by (induction xs) simp_all

lemma pool_step_shape:
  assumes "pool_step body s s'" "pool_shape s"
  shows "pool_shape s'" "num_threads s' = num_threads s"
  using assms
  by (auto elim!: pool_step.cases simp: pool_defs pool_shape_def
      split: wpc.splits cpc.splits client_call.splits list.splits if_splits)

lemma map_wake:
  "f W_Woken = f W_Asleep \<Longrightarrow> map (f \<circ> (\<lambda>pc. if pc = W_Asleep then W_Woken else pc)) pcs = map f pcs"
  by simp

lemmas pool_splits = wpc.splits cpc.splits client_call.splits list.splits if_splits

lemma worker_lt: "workers s ! w = pc \<Longrightarrow> pool_shape s \<Longrightarrow> w < num_threads s \<Longrightarrow> w < length (workers s)"
  by (simp add: pool_shape_def)

text \<open>What a step leaves alone.\<close>

lemma worker_step_frame:
  assumes "worker_step body ok v w s = Some s'" "pool_shape s" "w < num_threads s"
  shows "client s' = client s" "shutdown s' = shutdown s" "dropped s' = dropped s"
    "rr_counter s' = rr_counter s" "num_threads s' = num_threads s"
    "workers s ! w \<noteq> W_Unborn" "workers s' ! w \<noteq> W_Unborn"
    "workers s' ! w = W_Asleep \<Longrightarrow> workers s ! w = W_Enter \<and> active_tasks s' = active_tasks s"
    "workers s' ! w = W_Enter \<Longrightarrow> active_tasks s' = 0"
    "workers s' ! w = W_Exit \<Longrightarrow> shutdown s"
  using assms
  by (auto simp: pool_defs pool_shape_def nth_list_update split: wpc.splits list.splits if_splits)

lemma worker_step_others:
  assumes "worker_step body ok v w s = Some s'" "pool_shape s" "w < num_threads s"
    "u < num_threads s" "u \<noteq> w"
  shows "workers s' ! u = workers s ! u \<or> workers s ! u = W_Asleep \<and> workers s' ! u = W_Woken"
  using assms
  by (auto simp: pool_defs pool_shape_def nth_list_update split: wpc.splits list.splits if_splits)

lemma client_step_workers:
  assumes "client_step ok v call s = Some s'" "pool_shape s" "u < num_threads s"
  shows "workers s' ! u = workers s ! u \<or> workers s ! u = W_Asleep \<and> workers s' ! u = W_Woken \<or>
         client s = C_Create u \<and> workers s' ! u = W_Test"
  using assms
  by (auto simp: pool_defs pool_shape_def nth_list_update split: pool_splits)

lemma client_step_frame:
  assumes "client_step ok v call s = Some s'" "pool_shape s"
  shows "num_threads s' = num_threads s" "global_lock s' = global_lock s" "finished s' = finished s"
    "global_lock s \<noteq> None \<Longrightarrow> active_tasks s' = active_tasks s"
  using assms by (auto simp: pool_defs split: pool_splits)

lemma pool_step_unborn:
  assumes "pool_step body s s'" "pool_shape s" "unborn_inv s"
  shows "unborn_inv s'"
  using assms(1)
proof cases
  case (Worker w ok v)
  note frame = worker_step_frame [OF Worker(2) assms(2) Worker(1)]
  have "workers s' ! u = W_Unborn \<longleftrightarrow> workers s ! u = W_Unborn" if "u < num_threads s" for u
    using that worker_step_others [OF Worker(2) assms(2) Worker(1) that] frame(6,7)
    by (cases "u = w") auto
  with assms(3) frame(1,5) show ?thesis
    by (cases "client s") (simp_all add: unborn_inv_def)
next
  case (Client ok v call)
  show ?thesis
  proof (cases "\<exists>i. client s = C_Create i \<and> i < num_threads s")
    case True
    with Client assms(2-) show ?thesis
      by (auto simp: pool_defs pool_shape_def unborn_inv_def nth_list_update split: if_splits)
  next
    case False
    have "workers s' ! u = W_Unborn \<longleftrightarrow> workers s ! u = W_Unborn" if "u < num_threads s" for u
      using client_step_workers [OF Client assms(2) that] False that by auto
    with False Client assms(2-) show ?thesis
      by (simp add: unborn_inv_def client_step_frame(1) [OF Client assms(2)])
         (auto simp: pool_defs split: pool_splits)
  qed
qed

lemma pool_step_active:
  assumes "pool_step body s s'" "pool_shape s" "unborn_inv s" "active_inv s"
  shows "active_inv s'"
  using assms(1)
proof cases
  case (Worker w ok v)
  with assms(2-) show ?thesis
    by (auto simp: pool_defs pool_shape_def unborn_inv_def active_inv_def sum_list_map_update_int nth_list_update
        weight_butlast split: pool_splits)
next
  case (Client ok v call)
  with assms(2-) show ?thesis
    by (auto simp: pool_defs pool_shape_def unborn_inv_def active_inv_def sum_list_map_update_int
        submit_index_less map_wake split: pool_splits)
qed

lemma pool_step_tasks:
  assumes "pool_step body s s'" "pool_shape s" "unborn_inv s" "task_inv g s"
  shows "task_inv g s'"
  using assms(1)
proof cases
  case (Worker w ok v)
  with assms(2-) show ?thesis
    by (auto simp: pool_defs pool_shape_def unborn_inv_def task_inv_def sum_list_map_update_int nth_list_update
        weight_butlast split: pool_splits)
next
  case (Client ok v call)
  with assms(2-) show ?thesis
    by (auto simp: pool_defs pool_shape_def unborn_inv_def task_inv_def sum_list_map_update_int
        submit_index_less map_wake split: pool_splits)
qed

lemma pool_step_waiting:
  assumes "pool_step body s s'" "pool_shape s" "unborn_inv s" "waiting_inv s"
  shows "waiting_inv s'"
  using assms(1)
proof cases
  case (Worker w ok v)
  with assms(2-) show ?thesis
    by (auto simp: pool_defs pool_shape_def unborn_inv_def waiting_inv_def sum_list_map_update_int nth_list_update
        split: pool_splits)
next
  case (Client ok v call)
  with assms(2-) show ?thesis
    by (auto simp: pool_defs pool_shape_def unborn_inv_def waiting_inv_def sum_list_map_update_int
        map_wake split: pool_splits)
qed

lemma worker_step_lock:
  assumes "worker_step body ok v w s = Some s'" "pool_shape s" "w < num_threads s" "lock_inv s"
  shows "global_lock s' = (if pc_locked (workers s' ! w) then Some w
                           else if pc_locked (workers s ! w) then None else global_lock s)"
    "pc_locked (workers s' ! w) \<Longrightarrow> global_lock s = None \<or> global_lock s = Some w"
    "active_tasks s' \<noteq> active_tasks s \<Longrightarrow> global_lock s = None \<and> \<not> pc_locked (workers s' ! w)"
  using assms
  by (auto simp: pool_defs pool_shape_def lock_inv_def nth_list_update split: wpc.splits list.splits if_splits)

lemma pool_step_lock:
  assumes "pool_step body s s'" "pool_shape s" "unborn_inv s" "lock_inv s"
  shows "lock_inv s'"
  using assms(1)
proof cases
  case (Worker w ok v)
  note lock = worker_step_lock [OF Worker(2) assms(2) Worker(1) assms(4)]
  have "pc_locked (workers s' ! u) \<longleftrightarrow> global_lock s' = Some u" if u: "u < num_threads s" for u
  proof (cases "u = w")
    case True
    then show ?thesis
      using lock(1) assms(4) u by (auto simp: lock_inv_def)
  next
    case False
    then have "pc_locked (workers s' ! u) \<longleftrightarrow> pc_locked (workers s ! u)"
      using worker_step_others [OF Worker(2) assms(2) Worker(1) u] by auto
    also have "\<dots> \<longleftrightarrow> global_lock s = Some u"
      using assms(4) u by (simp add: lock_inv_def)
    also have "\<dots> \<longleftrightarrow> global_lock s' = Some u"
      using lock(1,2) assms(4) u Worker(1) False by (auto simp: lock_inv_def)
    finally show ?thesis .
  qed
  moreover have "u < num_threads s" if "global_lock s' = Some u" for u
    using lock(1) that Worker(1) assms(4) by (auto simp: lock_inv_def split: if_splits)
  ultimately show ?thesis
    using worker_step_frame(5) [OF Worker(2) assms(2) Worker(1)] by (auto simp: lock_inv_def)
next
  case (Client ok v call)
  have "pc_locked (workers s' ! u) \<longleftrightarrow> pc_locked (workers s ! u)" if "u < num_threads s" for u
    using client_step_workers [OF Client assms(2) that] assms(3) that by (auto simp: unborn_inv_def)
  then show ?thesis
    using assms(4) client_step_frame [OF Client assms(2)] by (simp add: lock_inv_def)
qed

lemma pool_step_enter:
  assumes "pool_step body s s'" "pool_shape s" "unborn_inv s" "lock_inv s" "enter_inv s"
  shows "enter_inv s'"
  unfolding enter_inv_def
proof (intro allI impI)
  fix u assume u: "u < num_threads s'" "workers s' ! u = W_Enter"
  have n: "num_threads s' = num_threads s"
    by (rule pool_step_shape(2) [OF assms(1,2)])
  show "active_tasks s' = 0"
    using assms(1)
  proof cases
    case (Worker w ok v)
    show ?thesis
    proof (cases "u = w")
      case True
      then show ?thesis
        using worker_step_frame(9) [OF Worker(2) assms(2) Worker(1)] u by simp
    next
      case False
      then have "workers s ! u = W_Enter"
        using worker_step_others [OF Worker(2) assms(2) Worker(1), of u] u n by auto
      with assms(4,5) u n have "active_tasks s = 0" "global_lock s = Some u"
        by (auto simp: enter_inv_def lock_inv_def)
      then show ?thesis
        using worker_step_lock(3) [OF Worker(2) assms(2) Worker(1) assms(4)] by fastforce
    qed
  next
    case (Client ok v call)
    have "workers s ! u = W_Enter"
      using client_step_workers [OF Client assms(2), of u] u n by auto
    with assms(4,5) u n have "active_tasks s = 0" "global_lock s = Some u"
      by (auto simp: enter_inv_def lock_inv_def)
    then show ?thesis
      using client_step_frame(4) [OF Client assms(2)] by simp
  qed
qed

lemma sum_waiting_zero:
  assumes "worker_sum pc_waiting s = 0" "w < length (workers s)"
  shows "workers s ! w \<noteq> W_Asleep"
proof
  have nonneg: "0 \<le> pc_waiting pc" for pc :: "'a wpc"
    by (cases pc) auto
  assume "workers s ! w = W_Asleep"
  then have "1 \<in> set (map pc_waiting (workers s))"
    using assms(2) by (metis in_set_conv_nth length_map nth_map pc_waiting.simps(3))
  then show False
    using assms(1) nonneg by (metis imageE list.set_map one_neq_zero sum_list_nonneg_eq_0_iff)
qed

lemma submit_count_awake:
  assumes "submit_count v s = Some s'" "pool_shape s" "waiting_inv s"
  shows "\<exists>w < num_threads s. workers s' ! w \<noteq> W_Asleep"
proof (cases "waiting_count s > 0")
  case True
  then have "s' = set_worker v W_Woken (s\<lparr>active_tasks := active_tasks s + 1\<rparr>) \<and> v < num_threads s \<or>
             workers s' = workers s \<and> W_Asleep \<notin> set (workers s)"
    using assms by (auto simp: pool_defs pool_shape_def split: if_splits)
  moreover have "workers s ! 0 \<noteq> W_Asleep" if "W_Asleep \<notin> set (workers s)"
    using that assms(2) unfolding pool_shape_def by (metis nth_mem)
  ultimately show ?thesis
    using assms(2) by (auto simp: pool_shape_def)
next
  case False
  have "0 \<le> pc_waiting pc" for pc :: "'a wpc"
    by (cases pc) auto
  then have "0 \<le> worker_sum pc_waiting s"
    by (intro sum_list_nonneg) auto
  with False assms(3) have "worker_sum pc_waiting s = 0"
    by (simp add: waiting_inv_def)
  then have "workers s ! 0 \<noteq> W_Asleep"
    using assms(2) by (intro sum_waiting_zero) (auto simp: pool_shape_def)
  then show ?thesis
    using assms False by (auto simp: pool_defs pool_shape_def split: if_splits)
qed

lemma pool_step_awake:
  assumes "pool_step body s s'" "pool_shape s" "waiting_inv s" "enter_inv s" "awake_inv s"
  shows "awake_inv s'"
  unfolding awake_inv_def
proof
  assume active: "active_tasks s' \<noteq> 0"
  have n: "num_threads s' = num_threads s"
    by (rule pool_step_shape(2) [OF assms(1,2)])
  show "\<exists>w < num_threads s'. workers s' ! w \<noteq> W_Asleep"
    using assms(1)
  proof cases
    case (Worker w ok v)
    have "workers s' ! w \<noteq> W_Asleep"
      using worker_step_frame(8) [OF Worker(2) assms(2) Worker(1)] active assms(4) Worker(1)
      by (auto simp: enter_inv_def)
    with Worker(1) n show ?thesis by auto
  next
    case (Client ok v call)
    show ?thesis
    proof (cases "\<exists>t. client s = C_Count t")
      case True
      with Client obtain s1 where "submit_count v s = Some s1" "s' = s1\<lparr>client := C_Ready\<rparr>"
        by (auto simp: client_step_def)
      then show ?thesis
        using submit_count_awake [OF _ assms(2,3)] n by fastforce
    next
      case False
      with Client have "active_tasks s' = active_tasks s"
        by (auto simp: pool_defs split: pool_splits)
      with active assms(5) obtain w where "w < num_threads s" "workers s ! w \<noteq> W_Asleep"
        by (auto simp: awake_inv_def)
      then show ?thesis
        using client_step_workers [OF Client assms(2), of w] n by auto
    qed
  qed
qed

lemma worker_step_creating:
  assumes "worker_step body ok v w s = Some s'" "pool_shape s" "w < num_threads s"
    "\<forall>u < num_threads s. queues s ! u = [] \<and> pc_hand (workers s ! u) = 0"
  shows "queues s' = queues s" "submitted s' = submitted s" "pc_hand (workers s' ! w) = 0"
proof -
  have pc: "pc_hand (workers s ! w) = 0" "queues s ! w = []"
    "\<And>i. queues s ! ((w + i) mod num_threads s) = []"
    using assms(2-) by (auto simp: pool_shape_def)
  show "queues s' = queues s" "submitted s' = submitted s" "pc_hand (workers s' ! w) = 0"
    using assms(1-3) pc
    by (auto simp: pool_defs pool_shape_def split: wpc.splits list.splits if_splits)
qed

lemma pool_step_phase:
  assumes "pool_step body s s'" "pool_shape s" "unborn_inv s" "phase_inv s"
  shows "phase_inv s'"
  using assms(1)
proof cases
  case (Worker w ok v)
  note frame = worker_step_frame [OF Worker(2) assms(2) Worker(1)]
  note others = worker_step_others [OF Worker(2) assms(2) Worker(1)]
  have "shutdown s" if "u < num_threads s" "workers s' ! u = W_Exit" for u
    using that frame(10) others [of u] assms(4) by (cases "u = w") (auto simp: phase_inv_def)
  moreover have "submitted s' = {#} \<and> (\<forall>u < num_threads s. queues s' ! u = [] \<and> pc_hand (workers s' ! u) = 0)"
    if "client_creating (client s)"
  proof -
    have idle: "\<forall>u < num_threads s. queues s ! u = [] \<and> pc_hand (workers s ! u) = 0" "submitted s = {#}"
      using assms(4) that by (auto simp: phase_inv_def)
    have "pc_hand (workers s' ! u) = 0" if "u < num_threads s" for u
      using worker_step_creating(3) [OF Worker(2) assms(2) Worker(1) idle(1)] others [OF that] idle(1) that
      by (cases "u = w") auto
    then show ?thesis
      using worker_step_creating(1,2) [OF Worker(2) assms(2) Worker(1) idle(1)] idle by simp
  qed
  ultimately show ?thesis
    using assms(4) frame(1,2,3,5) by (simp add: phase_inv_def)
next
  case (Client ok v call)
  have n: "num_threads s' = num_threads s"
    by (rule pool_step_shape(2) [OF assms(1,2)])
  have pcs: "workers s' ! u = W_Exit \<longrightarrow> workers s ! u = W_Exit"
    "pc_hand (workers s' ! u) = pc_hand (workers s ! u)" if "u < num_threads s" for u
    using client_step_workers [OF Client assms(2) that] assms(3) that by (auto simp: unborn_inv_def)
  have mono: "shutdown s \<longrightarrow> shutdown s'"
    using Client by (auto simp: pool_defs split: pool_splits)
  have "shutdown s' \<longleftrightarrow> client_closing (client s')"
    using Client assms(4) by (auto simp: phase_inv_def pool_defs split: pool_splits)
  moreover have "dropped s' = {#}" if "\<not> shutdown s'"
    using Client assms(4) that by (auto simp: phase_inv_def pool_defs split: pool_splits)
  moreover have "client_creating (client s)" "submitted s' = submitted s"
    "\<forall>u < num_threads s. queues s ! u = [] \<longrightarrow> queues s' ! u = []"
    if "client_creating (client s')"
    using Client that assms(2) by (auto simp: pool_defs nth_list_update pool_shape_def split: pool_splits)
  ultimately show ?thesis
    using assms(4) n pcs mono unfolding phase_inv_def by (metis (no_types))
qed

section \<open>Reachable pools\<close>

definition pool_inv :: "'t pool \<Rightarrow> bool" where
  "pool_inv s \<longleftrightarrow> pool_shape s \<and> unborn_inv s \<and> phase_inv s \<and> lock_inv s \<and> enter_inv s \<and>
     waiting_inv s \<and> awake_inv s \<and> active_inv s \<and> (\<forall>g. task_inv g s)"

lemma pool_inv_begin: "pool_inv (threadpool_begin nprocs n)"
  by (auto simp: pool_inv_def pool_shape_def unborn_inv_def phase_inv_def lock_inv_def enter_inv_def
      waiting_inv_def awake_inv_def active_inv_def task_inv_def threadpool_begin_def Let_def
      SNEPPX_threadpool_default_count_def sum_list_replicate)

lemma pool_inv_step:
  assumes "pool_step body s s'" "pool_inv s"
  shows "pool_inv s'"
  using assms unfolding pool_inv_def
  by (auto intro: pool_step_shape(1) pool_step_unborn pool_step_phase pool_step_lock pool_step_enter
      pool_step_waiting pool_step_awake pool_step_active pool_step_tasks)

lemma pool_inv_spurious:
  assumes "pool_inv s" "w < num_threads s" "workers s ! w = W_Asleep"
  shows "pool_inv (set_worker w W_Woken s)"
proof -
  have len: "w < length (workers s)"
    using assms by (simp add: pool_inv_def pool_shape_def)
  have upd: "(workers s)[w := W_Woken] ! u = (if u = w then W_Woken else workers s ! u)" for u
    using len by (simp add: nth_list_update)
  have "unborn_inv (set_worker w W_Woken s)"
    using assms by (cases "client s") (auto simp: pool_inv_def unborn_inv_def upd)
  moreover have "phase_inv (set_worker w W_Woken s)"
    using assms by (auto simp: pool_inv_def phase_inv_def upd)
  moreover have "lock_inv (set_worker w W_Woken s)" "enter_inv (set_worker w W_Woken s)"
    "awake_inv (set_worker w W_Woken s)"
    using assms by (auto simp: pool_inv_def lock_inv_def enter_inv_def awake_inv_def upd)
  moreover have "waiting_inv (set_worker w W_Woken s)" "active_inv (set_worker w W_Woken s)"
    "task_inv g (set_worker w W_Woken s)" for g
    using assms len
    by (auto simp: pool_inv_def waiting_inv_def active_inv_def task_inv_def sum_list_map_update_int)
  ultimately show ?thesis
    using assms by (auto simp: pool_inv_def pool_shape_def)
qed

lemma pool_reachable_inv: "pool_reachable body nprocs n s \<Longrightarrow> pool_inv s"
  by (induction rule: pool_reachable.induct)
     (simp_all add: pool_inv_begin pool_inv_spurious, simp add: pool_inv_step)

end
