(* ===== verification/Threadpool_Props.thy ===== *)
theory Threadpool_Props
  imports Threadpool
begin

text \<open>
  What the thread pool guarantees and where it does not: no task is lost or run twice, a wait
  returns only when every task has finished (unless a task submits tasks itself), no submission
  loses its wake-up and a wait can always return; but destroying the pool can lose the wake-up of
  a worker for good, and a failed creation joins workers that nobody stops.
\<close>

section \<open>Tasks are neither lost nor duplicated\<close>

abbreviation queued_tasks :: "'t pool \<Rightarrow> 't multiset" where
  "queued_tasks s \<equiv> mset (concat (queues s))"

fun pc_tasks :: "'t wpc \<Rightarrow> 't multiset" where
  "pc_tasks (W_Run t cs) = {#t#}"
| "pc_tasks (W_Count t cs) = {#t#}"
| "pc_tasks _ = {#}"

definition running_tasks :: "'t pool \<Rightarrow> 't multiset" where
  "running_tasks s = sum_list (map pc_tasks (workers s))"

lemma mweight_queued: "mweight g (queued_tasks s) = queue_weight g s"
proof -
  have "weight g (concat qs) = sum_list (map (weight g) qs)" for qs
    by (induction qs) simp_all
  then show ?thesis
    by simp
qed

lemma mweight_running: "mweight g (running_tasks s) = worker_sum (pc_running g) s"
proof -
  have "mweight g (pc_tasks pc) = pc_running g pc" for pc
    by (cases pc) simp_all
  then have "mweight g (sum_list (map pc_tasks pcs)) = sum_list (map (pc_running g) pcs)" for pcs
    by (induction pcs) simp_all
  then show ?thesis
    by (simp add: running_tasks_def)
qed

lemma mweight_eqI: "(\<And>g. mweight g M = mweight g N) \<Longrightarrow> M = N"
  by (rule multiset_eqI) (metis mweight_count of_nat_eq_iff)

lemma pool_tasks:
  assumes "pool_inv s"
  shows "submitted s = finished s + running_tasks s + queued_tasks s + dropped s"
proof (rule mweight_eqI)
  fix g show "mweight g (submitted s) = mweight g (finished s + running_tasks s + queued_tasks s + dropped s)"
    using assms by (simp add: pool_inv_def task_inv_def mweight_running mweight_queued del: mset_concat mweight_simps(4))
qed

text \<open>
  C9. At every moment of every run, each task submitted so far is exactly one of: finished, being
  run by a worker, in a queue, or freed unrun by the destruction of the pool; so no task is lost
  or run twice. \<open>active_tasks\<close>, plus the tasks pushed and not yet counted, is the number of tasks
  in the queues, dropped, or taken by a worker that has not yet subtracted its task.
\<close>

theorem tasks_accounted:
  assumes "pool_reachable body nprocs n s"
  shows "submitted s = finished s + running_tasks s + queued_tasks s + dropped s \<and>
    active_tasks s + worker_sum pc_counting s + client_counting (client s) =
      int (size (queued_tasks s)) + int (size (dropped s)) + worker_sum pc_hand s"
proof
  have inv: "active_inv s"
    using pool_reachable_inv [OF assms] by (auto simp: pool_inv_def)
  show "submitted s = finished s + running_tasks s + queued_tasks s + dropped s"
    by (rule pool_tasks [OF pool_reachable_inv [OF assms]])
  show "active_tasks s + worker_sum pc_counting s + client_counting (client s) =
         int (size (queued_tasks s)) + int (size (dropped s)) + worker_sum pc_hand s"
    using inv by (simp add: active_inv_def mweight_queued flip: mweight_size del: mset_concat mweight_simps(4) size_mset)
qed

section \<open>Waiting\<close>

lemma pc_nonneg: "0 \<le> pc_hand pc" "0 \<le> pc_counting pc" "0 \<le> pc_waiting pc"
  by (cases pc; simp)+

lemma worker_sum_zero:
  assumes "\<And>pc. 0 \<le> f pc" "worker_sum f s = 0" "w < length (workers s)"
  shows "f (workers s ! w) = 0"
proof -
  have "\<forall>x \<in> set (map f (workers s)). x = 0"
    using assms(1,2) by (subst (asm) sum_list_nonneg_eq_0_iff) auto
  with assms(3) show ?thesis
    by simp
qed

lemma worker_sum_zeroI:
  assumes "\<And>w. w < length (workers s) \<Longrightarrow> f (workers s ! w) = 0"
  shows "worker_sum f s = 0"
proof -
  have "map f (workers s) = replicate (length (workers s)) 0"
    using assms by (intro nth_equalityI) simp_all
  then show ?thesis
    by (simp only: sum_list_replicate)
qed

definition nesting :: "'t pool \<Rightarrow> bool" where
  "nesting s \<longleftrightarrow> (\<exists>w < num_threads s. \<exists>t cs. workers s ! w = W_Count t cs)"

lemma wait_idle:
  assumes inv: "pool_inv s" and up: "\<not> shutdown s" and cl: "client_counting (client s) = 0"
    and act: "active_tasks s = 0" and nest: "\<not> nesting s"
  shows "queued_tasks s = {#}" "running_tasks s = {#}" "dropped s = {#}" "finished s = submitted s"
proof -
  have shape: "length (workers s) = num_threads s"
    using inv by (simp add: pool_inv_def pool_shape_def)
  show dr: "dropped s = {#}"
    using inv up by (simp add: pool_inv_def phase_inv_def)
  have "pc_counting (workers s ! w) = 0" if "w < num_threads s" for w
    using nest that by (cases "workers s ! w") (auto simp: nesting_def)
  then have cnt: "worker_sum pc_counting s = 0"
    using shape by (intro worker_sum_zeroI) simp
  have q: "queue_weight (\<lambda>_. 1) s = int (size (queued_tasks s))"
    by (simp add: mweight_queued flip: mweight_size del: mset_concat mweight_simps(4) size_mset)
  have "0 \<le> worker_sum pc_hand s"
    by (intro sum_list_nonneg) (auto simp: pc_nonneg)
  moreover have "int (size (queued_tasks s)) + worker_sum pc_hand s = 0"
    using inv cl act cnt dr q by (simp add: pool_inv_def active_inv_def del: mset_concat size_mset)
  ultimately have h: "int (size (queued_tasks s)) = 0" "worker_sum pc_hand s = 0"
    by linarith+
  from h(1) show queued: "queued_tasks s = {#}"
    by (simp del: mset_concat size_mset)
  have "pc_tasks (workers s ! w) = {#}" if "w < length (workers s)" for w
    using worker_sum_zero [OF pc_nonneg(1) h(2) that] by (cases "workers s ! w") auto
  then have "\<forall>pc \<in> set (workers s). pc_tasks pc = {#}"
    by (metis in_set_conv_nth)
  then show running: "running_tasks s = {#}"
    by (simp add: running_tasks_def cong: map_cong)
  have "mweight g (finished s) = mweight g (submitted s)" for g
  proof -
    have "task_inv g s"
      using inv by (simp add: pool_inv_def)
    then show ?thesis
      using mweight_running [of g s] mweight_queued [of g s] running queued dr
      by (simp add: task_inv_def)
  qed
  then show "finished s = submitted s"
    by (rule mweight_eqI)
qed

text \<open>When tasks submit nothing themselves no worker is ever inside a submission.\<close>

definition flat_pc :: "'t wpc \<Rightarrow> bool" where
  "flat_pc pc \<longleftrightarrow> (case pc of W_Run t cs \<Rightarrow> cs = [] | W_Count t cs \<Rightarrow> False | _ \<Rightarrow> True)"

definition flat :: "'t pool \<Rightarrow> bool" where
  "flat s \<longleftrightarrow> (\<forall>w < num_threads s. flat_pc (workers s ! w))"

lemma flat_pc_simps [simp]:
  "flat_pc W_Unborn" "flat_pc W_Test" "flat_pc W_Pop" "flat_pc (W_Steal i)" "flat_pc (W_Run t [])"
  "flat_pc (W_Done t)" "flat_pc W_Lock" "flat_pc W_Pred" "flat_pc W_Enter" "flat_pc W_Asleep"
  "flat_pc W_Woken" "flat_pc W_Leave" "flat_pc W_Exit"
  "\<not> flat_pc (W_Count t cs)" "\<not> flat_pc (W_Run t (c # cs))"
  by (simp_all add: flat_pc_def)

lemma flat_pc_counting: "flat_pc pc \<Longrightarrow> pc_counting pc = 0"
  by (cases pc) simp_all

lemma worker_step_flat:
  assumes "worker_step (\<lambda>_. []) ok v w s = Some s'" "pool_shape s" "w < num_threads s"
    "flat_pc (workers s ! w)"
  shows "flat_pc (workers s' ! w)"
  using assms by (auto simp: pool_defs pool_shape_def split: wpc.splits list.splits if_splits)

lemma flat_step:
  assumes "pool_step (\<lambda>_. []) s s'" "pool_shape s" "flat s"
  shows "flat s'"
proof -
  have "flat_pc (workers s' ! u)" if u: "u < num_threads s" for u
    using assms(1)
  proof cases
    case (Worker w ok v)
    show ?thesis
    proof (cases "u = w")
      case True
      then show ?thesis
        using worker_step_flat [OF Worker(2) assms(2) Worker(1)] assms(3) u by (simp add: flat_def)
    next
      case False
      then show ?thesis
        using worker_step_others [OF Worker(2) assms(2) Worker(1) u] assms(3) u by (auto simp: flat_def)
    qed
  next
    case (Client ok v call)
    then show ?thesis
      using client_step_workers [OF Client assms(2) u] assms(3) u by (auto simp: flat_def)
  qed
  then show ?thesis
    using pool_step_shape(2) [OF assms(1,2)] by (simp add: flat_def)
qed

lemma flat_reachable: "pool_reachable (\<lambda>_. []) nprocs n s \<Longrightarrow> flat s"
proof (induction rule: pool_reachable.induct)
  case Begin
  show ?case
    by (simp add: flat_def threadpool_begin_def Let_def)
next
  case (Step s s')
  then show ?case
    using pool_reachable_inv [OF Step(1)] by (auto intro: flat_step simp: pool_inv_def)
next
  case (Spurious s w)
  then show ?case
    using pool_reachable_inv [OF Spurious(1)]
    by (auto simp: flat_def nth_list_update pool_inv_def pool_shape_def)
qed

lemma flat_not_nesting: "flat s \<Longrightarrow> \<not> nesting s"
  by (auto simp: flat_def nesting_def)

lemma check_finished:
  assumes "pool_reachable (\<lambda>_. []) nprocs n s" "client s = C_Check"
    and "client_step ok v call s = Some s'" "client s' = C_Ready"
  shows "finished s' = submitted s' \<and> queued_tasks s' = {#} \<and> running_tasks s' = {#}"
proof -
  have s': "s' = s\<lparr>client := C_Ready\<rparr>" "active_tasks s = 0"
    using assms(2-4) by (auto simp: client_defs split: if_splits)
  have "\<not> shutdown s" "client_counting (client s) = 0"
    using pool_reachable_inv [OF assms(1)] assms(2) by (simp_all add: pool_inv_def phase_inv_def)
  note idle = wait_idle [OF pool_reachable_inv [OF assms(1)] this s'(2)
      flat_not_nesting [OF flat_reachable [OF assms(1)]]]
  show ?thesis
    using idle s'(1) by (simp add: running_tasks_def)
qed

text \<open>
  C7. \<open>SNEPPX_threadpool_wait\<close> returns only when every task submitted so far has finished, in
  any run of a pool that one thread submits to, waits for and destroys, and whose tasks do not
  themselves submit tasks. With a second submitter, as with tasks that submit, a task can finish
  before it is counted, and the claim fails (\<open>nested_submit_wait_early\<close>).
\<close>

theorem wait_returns_when_finished:
  assumes "pool_reachable (\<lambda>_. []) nprocs n s" "client s = C_Check"
    and "client_step ok v call s = Some s'" "client s' = C_Ready"
  shows "finished s' = submitted s' \<and> queued_tasks s' = {#} \<and> running_tasks s' = {#}"
  using assms by (rule check_finished)

section \<open>Wake-ups\<close>

lemma started_workers:
  assumes "pool_inv s" "\<not> shutdown s" "\<not> client_creating (client s)" "w < num_threads s"
  shows "workers s ! w \<noteq> W_Exit" "workers s ! w \<noteq> W_Unborn"
  using assms by (cases "client s"; simp add: pool_inv_def phase_inv_def unborn_inv_def)+

lemma busy_worker:
  assumes inv: "pool_inv s" and q: "queued_tasks s \<noteq> {#}" and up: "\<not> shutdown s" "\<not> client_creating (client s)"
    and cl: "client_counting (client s) = 0"
  shows "\<exists>w < num_threads s. workers s ! w \<notin> {W_Asleep, W_Exit, W_Unborn}"
proof -
  have shape: "length (workers s) = num_threads s"
    using inv by (simp add: pool_inv_def pool_shape_def)
  note alive = started_workers [OF inv up]
  show ?thesis
  proof (cases "worker_sum pc_hand s = 0")
    case False
    then obtain w where "w < num_threads s" "pc_hand (workers s ! w) \<noteq> 0"
      using worker_sum_zeroI [of s pc_hand] shape by auto
    then show ?thesis
      using alive by (intro exI [of _ w]) auto
  next
    case True
    have "pc_counting (workers s ! w) = 0" if "w < num_threads s" for w
      using worker_sum_zero [OF pc_nonneg(1) True, of w] that shape by (cases "workers s ! w") auto
    then have "worker_sum pc_counting s = 0"
      using shape by (intro worker_sum_zeroI) simp
    moreover have "dropped s = {#}"
      using inv up by (simp add: pool_inv_def phase_inv_def)
    moreover have "queue_weight (\<lambda>_. 1) s = int (size (queued_tasks s))"
      by (simp add: mweight_queued flip: mweight_size del: mset_concat mweight_simps(4) size_mset)
    ultimately have "active_tasks s = int (size (queued_tasks s))"
      using inv cl True by (simp add: pool_inv_def active_inv_def del: mset_concat size_mset)
    with q have "active_tasks s \<noteq> 0"
      by (simp del: mset_concat size_mset)
    then obtain w where "w < num_threads s" "workers s ! w \<noteq> W_Asleep"
      using inv by (auto simp: pool_inv_def awake_inv_def)
    then show ?thesis
      using alive by auto
  qed
qed

text \<open>
  While the pool is not being destroyed, as soon as a submission has counted its task, some
  worker that has been started is neither asleep nor gone as long as a task is queued: the
  predicate loop of the workers does not lose the wake-up of a submission.
\<close>

theorem submission_wakes_worker:
  assumes "pool_reachable body nprocs n s" "\<not> shutdown s" "queued_tasks s \<noteq> {#}"
    and "\<forall>t. client s \<noteq> C_Count t"
  shows "\<exists>w < num_threads s. workers s ! w \<notin> {W_Asleep, W_Exit, W_Unborn}"
proof (rule busy_worker)
  show inv: "pool_inv s"
    by (rule pool_reachable_inv [OF assms(1)])
  show "\<not> client_creating (client s)"
  proof
    assume "client_creating (client s)"
    then have "\<forall>w < num_threads s. queues s ! w = []"
      using inv by (simp add: pool_inv_def phase_inv_def)
    then have "\<forall>q \<in> set (queues s). q = []"
      using inv by (auto simp: pool_inv_def pool_shape_def in_set_conv_nth)
    with assms(3) show False
      by (simp del: mset_concat)
  qed
  show "client_counting (client s) = 0"
    using assms(4) by (cases "client s") auto
qed (use assms in auto)

section \<open>A wait can return\<close>

text \<open>The work left: three steps of a task in a queue, two of a running one, one of a finished one.
  \<open>steal_dist\<close> bounds the steps a worker alone needs to find a queued task.\<close>

fun pc_work :: "'t wpc \<Rightarrow> nat" where
  "pc_work (W_Run t cs) = 2"
| "pc_work (W_Count t cs) = 2"
| "pc_work (W_Done t) = 1"
| "pc_work _ = 0"

definition work_left :: "'t pool \<Rightarrow> nat" where
  "work_left s = 3 * sum_list (map length (queues s)) + sum_list (map pc_work (workers s))"

definition found_from :: "'t pool \<Rightarrow> nat \<Rightarrow> nat \<Rightarrow> bool" where
  "found_from s w i \<longleftrightarrow> (\<exists>j. i \<le> j \<and> j < num_threads s \<and> queues s ! ((w + j) mod num_threads s) \<noteq> [])"

definition steal_dist :: "'t pool \<Rightarrow> nat \<Rightarrow> nat" where
  "steal_dist s w =
     (let n = num_threads s in
      case workers s ! w of
        W_Test \<Rightarrow> n + 2
      | W_Pop \<Rightarrow> n + 1
      | W_Steal i \<Rightarrow> if found_from s w i then n - i else (n - i) + n + 7
      | W_Lock \<Rightarrow> n + 6
      | W_Woken \<Rightarrow> n + 6
      | W_Pred \<Rightarrow> n + 5
      | W_Leave \<Rightarrow> n + 4
      | _ \<Rightarrow> 0)"

definition total_dist :: "'t pool \<Rightarrow> nat" where
  "total_dist s = (\<Sum>w < num_threads s. steal_dist s w)"

lemma total_dist_less:
  assumes "w < num_threads s" "steal_dist s' w < steal_dist s w" "num_threads s' = num_threads s"
    and "\<And>u. u < num_threads s \<Longrightarrow> u \<noteq> w \<Longrightarrow> steal_dist s' u = steal_dist s u"
  shows "total_dist s' < total_dist s"
  unfolding total_dist_def assms(3)
proof (rule sum_strict_mono_ex1)
  show "\<forall>u \<in> {..<num_threads s}. steal_dist s' u \<le> steal_dist s u"
  proof
    fix u assume "u \<in> {..<num_threads s}"
    with assms(2) assms(4) [of u] show "steal_dist s' u \<le> steal_dist s u"
      by (cases "u = w") auto
  qed
  show "\<exists>u \<in> {..<num_threads s}. steal_dist s' u < steal_dist s u"
    using assms(1,2) by auto
qed simp

text \<open>A step of worker \<open>w\<close> that keeps the queues and moves it from \<open>pc\<close> to \<open>pc'\<close>.\<close>

lemma steal_dist_cong:
  assumes "queues s' = queues s" "num_threads s' = num_threads s" "workers s' ! u = workers s ! u"
  shows "steal_dist s' u = steal_dist s u"
  using assms by (simp add: steal_dist_def found_from_def cong: wpc.case_cong)

lemma found_from_step:
  assumes "i < num_threads s" "queues s ! ((w + i) mod num_threads s) = []"
  shows "found_from s w (Suc i) \<longleftrightarrow> found_from s w i"
proof
  assume "found_from s w i"
  then obtain j where j: "i \<le> j" "j < num_threads s" "queues s ! ((w + j) mod num_threads s) \<noteq> []"
    by (auto simp: found_from_def)
  with assms have "i \<noteq> j" by auto
  with j show "found_from s w (Suc i)"
    by (auto simp: found_from_def intro!: exI [of _ j])
qed (auto simp: found_from_def intro: Suc_leD)

lemma found_from_0:
  assumes "pool_shape s" "queued_tasks s \<noteq> {#}" "w < num_threads s"
  shows "found_from s w 0"
proof -
  obtain i where i: "i < num_threads s" "queues s ! i \<noteq> []"
    using assms(1,2) by (auto simp: pool_shape_def in_set_conv_nth)
  have "(w + (num_threads s + i - w)) mod num_threads s = i"
    using i assms(3) by simp
  then have "(w + (num_threads s + i - w) mod num_threads s) mod num_threads s = i"
    by (simp add: mod_add_right_eq)
  then show ?thesis
    unfolding found_from_def using i by (intro exI [of _ "(num_threads s + i - w) mod num_threads s"]) auto
qed

definition closer :: "'t pool \<Rightarrow> 't pool \<Rightarrow> bool" where
  "closer s' s \<longleftrightarrow> work_left s' < work_left s \<or> work_left s' = work_left s \<and> total_dist s' < total_dist s"

lemma wf_closer: "wfP (closer :: 't pool \<Rightarrow> 't pool \<Rightarrow> bool)"
proof -
  have "{(s', s). closer s' s} = measures [work_left, total_dist :: 't pool \<Rightarrow> nat]"
    by (auto simp: closer_def)
  then show ?thesis
    by (simp add: wfp_def)
qed

lemma closer_move:
  assumes "s' = set_worker w pc (s\<lparr>global_lock := l, waiting_count := c\<rparr>)"
    and "w < num_threads s" "pool_shape s" "pc_work pc = pc_work (workers s ! w)"
    and "steal_dist s' w < steal_dist s w"
  shows "closer s' s"
proof -
  have "work_left s' = work_left s"
    using sum_list_map_update [of w "workers s" pc_work pc] assms(1-4)
    by (simp add: work_left_def pool_shape_def)
  moreover have "total_dist s' < total_dist s"
    by (rule total_dist_less [OF assms(2,5)]) (use assms(1) in \<open>auto intro!: steal_dist_cong\<close>)
  ultimately show ?thesis
    by (simp add: closer_def)
qed

lemma closer_take:
  assumes "s' = set_worker w (W_Run t []) (s\<lparr>queues := (queues s)[i := q]\<rparr>)"
    and "w < num_threads s" "i < num_threads s" "pool_shape s" "pc_work (workers s ! w) = 0"
    and "length q < length (queues s ! i)"
  shows "closer s' s"
proof -
  have "sum_list (map length ((queues s)[i := q])) < sum_list (map length (queues s))"
    using sum_list_map_update [of i "queues s" length q] assms(3,4,6) by (simp add: pool_shape_def)
  then have "work_left s' < work_left s"
    using sum_list_map_update [of w "workers s" pc_work "W_Run t []"] assms(1-5)
    by (simp add: work_left_def pool_shape_def)
  then show ?thesis
    by (simp add: closer_def)
qed

lemma closer_work:
  assumes "queues s' = queues s" "workers s' = (workers s)[w := pc]"
    and "w < num_threads s" "pool_shape s" "pc_work pc < pc_work (workers s ! w)"
  shows "closer s' s"
  using sum_list_map_update [of w "workers s" pc_work pc] assms
  by (simp add: closer_def work_left_def pool_shape_def)

text \<open>One worker alone gets closer to the end, when it is not stopped by the lock and there is a
  task for it.\<close>

lemma worker_progress:
  assumes shape: "pool_shape s" and w: "w < num_threads s" and flat: "flat_pc (workers s ! w)"
    and pc: "workers s ! w \<notin> {W_Asleep, W_Exit, W_Unborn, W_Enter}"
    and lock: "global_lock s = None \<or> pc_locked (workers s ! w)"
    and up: "\<not> shutdown s" "active_tasks s \<noteq> 0"
    and task: "pc_hand (workers s ! w) = 1 \<or> pc_locked (workers s ! w) \<or> queued_tasks s \<noteq> {#}"
  shows "\<exists>s'. worker_step (\<lambda>_. []) True 0 w s = Some s' \<and> closer s' s"
proof (cases "workers s ! w")
  case W_Test
  then show ?thesis
    using up w shape
    by (auto simp: worker_step_def steal_dist_def pool_shape_def
        intro!: closer_move [where l = "global_lock s" and c = "waiting_count s"])
next
  case W_Pop
  show ?thesis
  proof (cases "queues s ! w")
    case Nil
    have "found_from s w 0"
      using found_from_0 [OF shape _ w] task W_Pop by simp
    then have "found_from s w 1"
      using found_from_step [of 0 s w] w Nil by simp
    then have "found_from (set_worker w (W_Steal 1) s) w 1"
      by (simp add: found_from_def)
    then show ?thesis
      using W_Pop Nil w shape
      by (auto simp: worker_step_def steal_dist_def pool_shape_def
          intro!: closer_move [where l = "global_lock s" and c = "waiting_count s"])
  next
    case (Cons t q)
    then show ?thesis
      using W_Pop w shape
      by (auto simp: worker_step_def Let_def intro!: closer_take [where i = w])
  qed
next
  case (W_Steal i)
  show ?thesis
  proof (cases "i < num_threads s")
    case True
    define victim where "victim = (w + i) mod num_threads s"
    have v: "victim < num_threads s"
      using w by (simp add: victim_def)
    show ?thesis
    proof (cases "queues s ! victim")
      case Nil
      then have "found_from (set_worker w (W_Steal (Suc i)) s) w (Suc i) \<longleftrightarrow> found_from s w i"
        using found_from_step [OF True, of w] by (simp add: found_from_def victim_def)
      then show ?thesis
        using W_Steal True Nil w shape
        by (auto simp: worker_step_def Let_def steal_dist_def pool_shape_def victim_def
            intro!: closer_move [where l = "global_lock s" and c = "waiting_count s"])
    next
      case (Cons t q)
      then show ?thesis
        using W_Steal True w shape v
        by (auto simp: worker_step_def Let_def victim_def [symmetric] intro!: closer_take [where i = victim])
    qed
  next
    case False
    then have "\<not> found_from s w i"
      by (auto simp: found_from_def)
    then show ?thesis
      using W_Steal False w shape
      by (auto simp: worker_step_def steal_dist_def pool_shape_def
          intro!: closer_move [where l = "global_lock s" and c = "waiting_count s"])
  qed
next
  case (W_Run t cs)
  with flat have "cs = []" by (simp add: flat_pc_def)
  then show ?thesis
    using W_Run w shape by (auto simp: worker_step_def intro!: closer_work)
next
  case (W_Done t)
  then show ?thesis
    using lock w shape by (auto simp: worker_step_def intro!: closer_work)
next
  case W_Lock
  then show ?thesis
    using lock w shape
    by (auto simp: worker_step_def steal_dist_def pool_shape_def
        intro!: closer_move [where l = "Some w" and c = "waiting_count s + 1"])
next
  case W_Pred
  then show ?thesis
    using up w shape
    by (auto simp: worker_step_def steal_dist_def pool_shape_def
        intro!: closer_move [where l = "global_lock s" and c = "waiting_count s"])
next
  case W_Woken
  then show ?thesis
    using lock w shape
    by (auto simp: worker_step_def steal_dist_def pool_shape_def
        intro!: closer_move [where l = "Some w" and c = "waiting_count s"])
next
  case W_Leave
  then show ?thesis
    using w shape
    by (auto simp: worker_step_def steal_dist_def pool_shape_def
        intro!: closer_move [where l = None and c = "waiting_count s - 1"])
qed (use pc flat in \<open>simp_all add: flat_pc_def\<close>)

definition client_waits :: "'t pool \<Rightarrow> bool" where
  "client_waits s \<longleftrightarrow> (case client s of C_Scan i \<Rightarrow> True | C_Check \<Rightarrow> True | _ \<Rightarrow> False)"

lemma client_waits_up:
  assumes "pool_inv s" "client_waits s"
  shows "\<not> shutdown s" "\<not> client_creating (client s)" "client_counting (client s) = 0"
  using assms by (auto simp: pool_inv_def phase_inv_def client_waits_def split: cpc.splits)

lemma wait_progress:
  assumes inv: "pool_inv s" and flat: "flat s" and wait: "client_waits s" and act: "active_tasks s \<noteq> 0"
  shows "\<exists>w s'. w < num_threads s \<and> worker_step (\<lambda>_. []) True 0 w s = Some s' \<and> closer s' s"
proof -
  note up = client_waits_up [OF inv wait]
  have shape: "pool_shape s" and lk: "lock_inv s" and en: "enter_inv s"
    using inv by (simp_all add: pool_inv_def)
  have "\<exists>w < num_threads s. workers s ! w \<notin> {W_Asleep, W_Exit, W_Unborn, W_Enter} \<and>
          (global_lock s = None \<or> pc_locked (workers s ! w)) \<and>
          (pc_hand (workers s ! w) = 1 \<or> pc_locked (workers s ! w) \<or> queued_tasks s \<noteq> {#})"
  proof (cases "global_lock s")
    case (Some w)
    with lk have "w < num_threads s" "pc_locked (workers s ! w)"
      by (auto simp: lock_inv_def)
    then show ?thesis
      using act en by (intro exI [of _ w]) (auto simp: enter_inv_def)
  next
    case None
    have enter: "workers s ! w \<noteq> W_Enter" if "w < num_threads s" for w
      using en act that by (auto simp: enter_inv_def)
    show ?thesis
    proof (cases "queued_tasks s = {#}")
      case False
      then show ?thesis
        using busy_worker [OF inv False up] enter None by (auto simp del: mset_concat)
    next
      case True
      have "queue_weight (\<lambda>_. 1) s = 0"
        using mweight_queued [of "\<lambda>_. 1" s] True by (simp del: mset_concat mweight_simps(4))
      moreover have "worker_sum pc_counting s = 0"
        using flat shape by (intro worker_sum_zeroI) (simp add: flat_def pool_shape_def flat_pc_counting)
      moreover have "dropped s = {#}"
        using inv up by (simp add: pool_inv_def phase_inv_def)
      ultimately have "worker_sum pc_hand s \<noteq> 0"
        using inv act up(3) by (simp add: pool_inv_def active_inv_def)
      then obtain w where w: "w < num_threads s" "pc_hand (workers s ! w) \<noteq> 0"
        using worker_sum_zeroI [of s pc_hand] shape by (auto simp: pool_shape_def)
      then have "pc_hand (workers s ! w) = 1"
        by (cases "workers s ! w") auto
      with w show ?thesis
        using None by (intro exI [of _ w]) auto
    qed
  qed
  then obtain w where "w < num_threads s" "workers s ! w \<notin> {W_Asleep, W_Exit, W_Unborn, W_Enter}"
    "global_lock s = None \<or> pc_locked (workers s ! w)"
    "pc_hand (workers s ! w) = 1 \<or> pc_locked (workers s ! w) \<or> queued_tasks s \<noteq> {#}"
    by blast
  then show ?thesis
    using worker_progress [OF shape, of w] flat up act by (auto simp: flat_def)
qed

lemma flat_worker_submits_nothing:
  assumes "worker_step (\<lambda>_. []) ok v w s = Some s'" "flat_pc (workers s ! w)"
  shows "submitted s' = submitted s"
  using assms by (auto simp: pool_defs split: wpc.splits list.splits if_splits)

abbreviation flat_steps :: "'t pool \<Rightarrow> 't pool \<Rightarrow> bool" where
  "flat_steps \<equiv> (pool_step (\<lambda>_. []))\<^sup>*\<^sup>*"

lemma wait_drains:
  assumes "pool_inv s" "flat s" "client_waits s"
  shows "\<exists>s'. flat_steps s s' \<and> pool_inv s' \<and> flat s' \<and> client s' = client s \<and>
              submitted s' = submitted s \<and> active_tasks s' = 0"
  using assms
proof (induction s rule: wfp_induct_rule [OF wf_closer])
  case (1 s)
  show ?case
  proof (cases "active_tasks s = 0")
    case True
    then show ?thesis
      using 1 by blast
  next
    case False
    obtain w s1 where w: "w < num_threads s" "worker_step (\<lambda>_. []) True 0 w s = Some s1" "closer s1 s"
      using wait_progress [OF 1(2-4) False] by blast
    have step: "pool_step (\<lambda>_. []) s s1"
      by (rule pool_step.Worker [OF w(1,2)])
    have shape: "pool_shape s"
      using 1(2) by (simp add: pool_inv_def)
    have cl: "client s1 = client s"
      by (rule worker_step_frame(1) [OF w(2) shape w(1)])
    have sub: "submitted s1 = submitted s"
      using flat_worker_submits_nothing [OF w(2)] 1(3) w(1) by (simp add: flat_def)
    have "\<exists>s'. flat_steps s1 s' \<and> pool_inv s' \<and> flat s' \<and> client s' = client s1 \<and>
              submitted s' = submitted s1 \<and> active_tasks s' = 0"
      using w(3) pool_inv_step [OF step 1(2)] flat_step [OF step shape 1(3)] 1(4) cl
      by (intro 1(1)) (auto simp: client_waits_def)
    then show ?thesis
      using cl sub converse_rtranclp_into_rtranclp [where r = "pool_step (\<lambda>_. [])", OF step] by metis
  qed
qed

lemma scan_returns:
  assumes "client s = C_Scan i" "active_tasks s = 0" "\<And>j. j < num_threads s \<Longrightarrow> queues s ! j = []"
  shows "flat_steps s (s\<lparr>client := C_Ready\<rparr>)"
  using assms
proof (induction "num_threads s - i" arbitrary: i s)
  case 0
  have "pool_step (\<lambda>_. []) s (s\<lparr>client := C_Check\<rparr>)"
    by (rule pool_step.Client [where ok = True and v = 0 and call = Call_Wait]) (use 0 in \<open>simp add: client_defs\<close>)
  moreover have "pool_step (\<lambda>_. []) (s\<lparr>client := C_Check\<rparr>) (s\<lparr>client := C_Ready\<rparr>)"
    by (rule pool_step.Client [where ok = True and v = 0 and call = Call_Wait]) (use 0 in \<open>simp add: client_defs\<close>)
  ultimately show ?case
    by (meson r_into_rtranclp rtranclp.rtrancl_into_rtrancl)
next
  case (Suc k)
  have "pool_step (\<lambda>_. []) s (s\<lparr>client := C_Scan (Suc i)\<rparr>)"
    by (rule pool_step.Client [where ok = True and v = 0 and call = Call_Wait])
       (use Suc(2-) in \<open>simp add: client_defs\<close>)
  moreover have "flat_steps (s\<lparr>client := C_Scan (Suc i)\<rparr>) (s\<lparr>client := C_Scan (Suc i)\<rparr>\<lparr>client := C_Ready\<rparr>)"
    by (rule Suc(1)) (use Suc(2-) in auto)
  ultimately show ?case
    by simp
qed

lemma check_returns:
  assumes "client s = C_Check" "active_tasks s = 0"
  shows "flat_steps s (s\<lparr>client := C_Ready\<rparr>)"
proof (rule r_into_rtranclp)
  show "pool_step (\<lambda>_. []) s (s\<lparr>client := C_Ready\<rparr>)"
    by (rule pool_step.Client [where ok = True and v = 0 and call = Call_Wait])
       (use assms in \<open>simp add: client_defs\<close>)
qed

text \<open>
  C8. A wait can always still return: from every state of every run of a pool that one thread
  submits to, waits for and destroys, and whose tasks submit no tasks, in which that thread is inside \<open>SNEPPX_threadpool_wait\<close>, the threads have a
  continuation in which the wait returns, with every task submitted finished.
\<close>

theorem wait_can_return:
  assumes "pool_reachable (\<lambda>_. []) nprocs n s" "client_waits s"
  shows "\<exists>s'. flat_steps s s' \<and> client s' = C_Ready \<and> finished s' = submitted s"
proof -
  have "\<exists>s1. flat_steps s s1 \<and> pool_inv s1 \<and> flat s1 \<and> client s1 = client s \<and>
              submitted s1 = submitted s \<and> active_tasks s1 = 0"
    by (rule wait_drains [OF pool_reachable_inv [OF assms(1)] flat_reachable [OF assms(1)] assms(2)])
  then obtain s1 where s1: "flat_steps s s1" "pool_inv s1" "flat s1" "client s1 = client s"
    "submitted s1 = submitted s" "active_tasks s1 = 0"
    by blast
  have waits: "client_waits s1"
    using s1(4) assms(2) by (simp add: client_waits_def)
  note up = client_waits_up [OF s1(2) waits]
  note idle = wait_idle [OF s1(2) up(1,3) s1(6) flat_not_nesting [OF s1(3)]]
  have "queues s1 ! j = []" if "j < num_threads s1" for j
    using idle(1) that s1(2) nth_mem [of j "queues s1"] by (auto simp: pool_inv_def pool_shape_def)
  then have "flat_steps s1 (s1\<lparr>client := C_Ready\<rparr>)"
    using waits s1(6) scan_returns check_returns by (auto simp: client_waits_def split: cpc.splits)
  then show ?thesis
    using s1 idle(4) by (intro exI [of _ "s1\<lparr>client := C_Ready\<rparr>"]) auto
qed

section \<open>Concrete runs\<close>

text \<open>A schedule lists the threads that move, with the choices each step takes.\<close>

datatype 't move = By_Worker bool nat nat | By_Client bool nat "'t client_call" | Wakes nat

fun run_move :: "('t \<Rightarrow> 't list) \<Rightarrow> 't move \<Rightarrow> 't pool \<Rightarrow> 't pool option" where
  "run_move body (By_Worker ok v w) s = (if w < num_threads s then worker_step body ok v w s else None)"
| "run_move body (By_Client ok v call) s = client_step ok v call s"
| "run_move body (Wakes w) s =
     (if w < num_threads s \<and> workers s ! w = W_Asleep then Some (set_worker w W_Woken s) else None)"

fun run_moves :: "('t \<Rightarrow> 't list) \<Rightarrow> 't move list \<Rightarrow> 't pool \<Rightarrow> 't pool option" where
  "run_moves body [] s = Some s"
| "run_moves body (m # ms) s =
     (case run_move body m s of None \<Rightarrow> None | Some s \<Rightarrow> run_moves body ms s)"

lemma run_move_reachable:
  assumes "run_move body m s = Some s'" "pool_reachable body nprocs n s"
  shows "pool_reachable body nprocs n s'"
  using assms
  by (cases m) (auto split: if_splits intro: pool_reachable.intros pool_step.intros)

lemma run_moves_reachable:
  "run_moves body ms s = Some s' \<Longrightarrow> pool_reachable body nprocs n s \<Longrightarrow> pool_reachable body nprocs n s'"
  by (induction ms arbitrary: s) (auto split: option.splits intro: run_move_reachable)

lemma run_moves_begin:
  "run_moves body ms (threadpool_begin nprocs n) = Some s \<Longrightarrow> pool_reachable body nprocs n s"
  using run_moves_reachable [OF _ pool_reachable.Begin] .

lemmas run_simps = threadpool_begin_def worker_step_def client_defs submit_count_def cond_signal_def
  cond_broadcast_def submit_index_def Let_def

text \<open>Worker 0 finds nothing to do and is about to sleep when the client destroys the pool.\<close>

definition destroy_race :: "nat move list" where
  "destroy_race =
     [By_Client True 0 Call_Wait, By_Client True 0 Call_Wait,
      By_Worker True 0 0, By_Worker True 0 0, By_Worker True 0 0, By_Worker True 0 0, By_Worker True 0 0,
      By_Client True 0 Call_Destroy, By_Client True 0 Call_Destroy, By_Worker True 0 0]"

definition destroy_stuck :: "nat pool" where
  "destroy_stuck =
     \<lparr>num_threads = 1, shutdown = True, queues = [[]], global_lock = None, active_tasks = 0,
      waiting_count = 1, workers = [W_Asleep], client = C_Join 0, rr_counter = 0,
      submitted = {#}, finished = {#}, dropped = {#}\<rparr>"

lemma destroy_race_runs: "run_moves (\<lambda>_. []) destroy_race (threadpool_begin 1 1) = Some destroy_stuck"
  by (simp add: destroy_race_def destroy_stuck_def run_simps)

text \<open>
  \<open>SNEPPX_threadpool_destroy\<close> can deadlock: it sets \<open>shutdown\<close> and broadcasts without holding
  \<open>global_lock\<close>, so a worker that has just seen the predicate of its sleep loop hold goes to sleep
  after the broadcast. In the state this reaches the client joins a worker that is asleep, and no
  thread can move.
\<close>

theorem destroy_can_deadlock:
  "\<exists>s. pool_reachable (\<lambda>_ :: nat. []) 1 1 s \<and> client s = C_Join 0 \<and> shutdown s \<and>
       workers s = [W_Asleep] \<and> \<not> (\<exists>s'. pool_step (\<lambda>_. []) s s')"
proof (intro exI conjI)
  show "pool_reachable (\<lambda>_. []) 1 1 destroy_stuck"
    by (rule run_moves_begin [OF destroy_race_runs])
  show "\<not> (\<exists>s'. pool_step (\<lambda>_. []) destroy_stuck s')"
    by (auto simp: destroy_stuck_def worker_step_def client_defs elim!: pool_step.cases)
qed (simp_all add: destroy_stuck_def)

text \<open>Task 0 submits task 1, which the other worker steals, runs and subtracts before it is added.\<close>

definition parent_task :: "nat \<Rightarrow> nat list" where
  "parent_task t = (if t = 0 then [1] else [])"

definition early_wait :: "nat move list" where
  "early_wait =
     [By_Client True 0 Call_Wait, By_Client True 0 Call_Wait, By_Client True 0 Call_Wait,
      By_Client True 0 (Call_Submit 0), By_Client True 0 Call_Wait,
      By_Worker True 0 0, By_Worker True 0 0, By_Worker True 0 0,
      By_Worker True 0 1, By_Worker True 0 1, By_Worker True 0 1, By_Worker True 0 1, By_Worker True 0 1,
      By_Client True 0 Call_Wait, By_Client True 0 Call_Wait, By_Client True 0 Call_Wait,
      By_Client True 0 Call_Wait]"

definition early_state :: "nat pool" where
  "early_state =
     \<lparr>num_threads = 2, shutdown = False, queues = [[], []], global_lock = None, active_tasks = 0,
      waiting_count = 0, workers = [W_Count 0 [], W_Test], client = C_Check, rr_counter = 1,
      submitted = {#0, 1#}, finished = {#1#}, dropped = {#}\<rparr>"

lemma early_wait_runs: "run_moves parent_task early_wait (threadpool_begin 1 2) = Some early_state"
  by (simp add: early_wait_def early_state_def parent_task_def run_simps numeral_2_eq_2 add_mset_commute)

text \<open>
  With tasks that submit tasks a wait can return too early: \<open>SNEPPX_threadpool_submit\<close> pushes
  before it counts, so a stolen subtask can be subtracted from \<open>active_tasks\<close> first. In a pool of
  two workers the wait returns while the parent task is still running.
\<close>

theorem nested_submit_wait_early:
  "\<exists>s s'. pool_reachable parent_task 1 2 s \<and> client s = C_Check \<and>
          client_step True 0 Call_Wait s = Some s' \<and> client s' = C_Ready \<and>
          running_tasks s' = {#0#} \<and> finished s' \<noteq> submitted s'"
proof (intro exI conjI)
  show "pool_reachable parent_task 1 2 early_state"
    by (rule run_moves_begin [OF early_wait_runs])
  show "client_step True 0 Call_Wait early_state = Some (early_state\<lparr>client := C_Ready\<rparr>)"
    by (simp add: early_state_def client_defs)
qed (simp_all add: early_state_def running_tasks_def)

theorem tasks_accounted_witness:
  "submitted early_state = finished early_state + running_tasks early_state +
     queued_tasks early_state + dropped early_state \<and> running_tasks early_state = {#0#}"
  using tasks_accounted [OF run_moves_begin [OF early_wait_runs]]
  by (simp add: early_state_def running_tasks_def)

text \<open>A pool of one worker, one task submitted; then the worker runs it and the client waits.\<close>

definition one_submitted :: "nat move list" where
  "one_submitted =
     [By_Client True 0 Call_Wait, By_Client True 0 Call_Wait, By_Client True 0 (Call_Submit 7),
      By_Client True 0 Call_Wait]"

definition one_pool :: "nat list \<Rightarrow> nat wpc \<Rightarrow> nat cpc \<Rightarrow> nat multiset \<Rightarrow> nat pool" where
  "one_pool q pc c fin =
     \<lparr>num_threads = 1, shutdown = False, queues = [q], global_lock = None,
      active_tasks = (if q = [] then 0 else 1), waiting_count = 0, workers = [pc], client = c,
      rr_counter = 1, submitted = {#7#}, finished = fin, dropped = {#}\<rparr>"

lemma one_submitted_runs:
  "run_moves (\<lambda>_. []) one_submitted (threadpool_begin 1 1) = Some (one_pool [7] W_Test C_Ready {#})"
  by (simp add: one_submitted_def one_pool_def run_simps)

lemma one_waiting_runs:
  "run_moves (\<lambda>_. []) (one_submitted @ [By_Client True 0 Call_Wait]) (threadpool_begin 1 1) =
   Some (one_pool [7] W_Test (C_Scan 0) {#})"
  by (simp add: one_submitted_def one_pool_def run_simps)

lemma one_checked_runs:
  "run_moves (\<lambda>_. [])
     (one_submitted @ replicate 4 (By_Worker True 0 0) @ replicate 3 (By_Client True 0 Call_Wait))
     (threadpool_begin 1 1) = Some (one_pool [] W_Test C_Check {#7#})"
  by (simp add: one_submitted_def one_pool_def run_simps eval_nat_numeral)

theorem wait_returns_when_finished_witness:
  "client_step True 0 Call_Wait (one_pool [] W_Test C_Check {#7#}) =
     Some (one_pool [] W_Test C_Ready {#7#}) \<and>
   finished (one_pool [] W_Test C_Ready {#7#}) = submitted (one_pool [] W_Test C_Ready {#7#})"
proof
  show step: "client_step True 0 Call_Wait (one_pool [] W_Test C_Check {#7#}) =
      Some (one_pool [] W_Test C_Ready {#7#})"
    by (simp add: one_pool_def client_defs)
  show "finished (one_pool [] W_Test C_Ready {#7#}) = submitted (one_pool [] W_Test C_Ready {#7#})"
    using wait_returns_when_finished [OF run_moves_begin [OF one_checked_runs] _ step]
    by (simp add: one_pool_def)
qed

theorem submission_wakes_worker_witness:
  "\<exists>w < 1. workers (one_pool [7] W_Test C_Ready {#}) ! w \<notin> {W_Asleep, W_Exit, W_Unborn}"
  using submission_wakes_worker [OF run_moves_begin [OF one_submitted_runs]]
  by (simp add: one_pool_def)

theorem wait_can_return_witness:
  "\<exists>s'. flat_steps (one_pool [7] W_Test (C_Scan 0) {#}) s' \<and> client s' = C_Ready \<and> finished s' = {#7#}"
  using wait_can_return [OF run_moves_begin [OF one_waiting_runs]]
  by (simp add: one_pool_def client_waits_def)

section \<open>Failed creation\<close>

lemma fail_reachable:
  "pool_reachable body nprocs n s \<Longrightarrow> client s = C_Fail j i \<Longrightarrow> j = 0 \<or> i = 0"
proof (induction arbitrary: j i rule: pool_reachable.induct)
  case Begin
  then show ?case
    by (simp add: threadpool_begin_def Let_def)
next
  case (Step s s')
  have inv: "pool_inv s"
    by (rule pool_reachable_inv [OF Step(1)])
  have shape: "pool_shape s" and alive: "workers s ! w \<noteq> W_Exit" if "client_creating (client s)" "w < num_threads s" for w
    using inv that by (cases "client s"; auto simp: pool_inv_def phase_inv_def)+
  from Step(2) show ?case
  proof cases
    case (Worker w ok v)
    then have "client s' = client s"
      using inv worker_step_frame(1) [OF Worker(2) _ Worker(1)] by (simp add: pool_inv_def)
    with Step show ?thesis by simp
  next
    case (Client ok v call)
    have "0 < num_threads s"
      using inv by (simp add: pool_inv_def pool_shape_def)
    with Client Step(3,4) alive [of 0] show ?thesis
      by (auto simp: pool_defs split: pool_splits)
  qed
next
  case (Spurious s w)
  then show ?case by simp
qed

text \<open>
  When starting a worker fails after at least one worker was started,
  \<open>SNEPPX_threadpool_create\<close> never returns: it joins the workers without setting \<open>shutdown\<close>, so
  the client cannot move in any state of the cleanup.
\<close>

theorem create_failure_hangs:
  assumes "pool_reachable body nprocs n s" "client s = C_Fail j i" "0 < i"
  shows "client_step ok v call s = None"
proof -
  have inv: "pool_inv s"
    by (rule pool_reachable_inv [OF assms(1)])
  have "j = 0"
    using fail_reachable [OF assms(1,2)] assms(3) by simp
  moreover have "0 < num_threads s" "workers s ! 0 \<noteq> W_Exit"
    using inv assms(2) by (auto simp: pool_inv_def phase_inv_def pool_shape_def)
  ultimately show ?thesis
    using assms(2,3) by (simp add: client_defs)
qed

definition failed_second :: "nat pool" where
  "failed_second =
     \<lparr>num_threads = 2, shutdown = False, queues = [[], []], global_lock = None, active_tasks = 0,
      waiting_count = 0, workers = [W_Test, W_Unborn], client = C_Fail 0 1, rr_counter = 0,
      submitted = {#}, finished = {#}, dropped = {#}\<rparr>"

lemma failed_second_runs:
  "run_moves (\<lambda>_. []) [By_Client True 0 Call_Wait, By_Client False 0 Call_Wait] (threadpool_begin 1 2) =
   Some failed_second"
  by (simp add: failed_second_def run_simps numeral_2_eq_2)

theorem create_failure_hangs_witness: "client_step True 0 Call_Wait failed_second = None"
  by (rule create_failure_hangs [OF run_moves_begin [OF failed_second_runs], of 0 1])
     (simp_all add: failed_second_def)

end
