(* ===== verification/Parallel_Loops.thy ===== *)
theory Parallel_Loops
  imports Threadpool_Props
begin

text \<open>
  What \<open>kernel/thread/threadpool.c\<close> builds on the pool: \<open>SNEPPX_parallel_for\<close>, \<open>SNEPPX_parallel_reduce\<close> and
  futures. A call of the two loops makes calls on the pool; a run of the pool in which its only client makes
  these calls and returns from the last is \<open>script_run\<close>, and what the call has done when it returns is read off the tasks finished
  there. Sizes are natural numbers below \<open>2 ^ 64\<close>; the variable of the two loops wraps, so they are partial functions.
\<close>

section \<open>Programs of the client\<close>

text \<open>
  A run in which the client makes the given calls one after the other, each with the outcome of its allocation, and has returned from the last
  one at the end; the workers run in between, with tasks that submit nothing themselves.
\<close>

inductive script_run :: "(bool \<times> 't client_call) list \<Rightarrow> 't pool \<Rightarrow> 't pool \<Rightarrow> bool" where
  Finish: "client s = C_Ready \<Longrightarrow> script_run [] s s"
| Others: "w < num_threads s \<Longrightarrow> worker_step (\<lambda>_. []) ok v w s = Some s1 \<Longrightarrow> script_run cs s1 s' \<Longrightarrow> script_run cs s s'"
| Wake: "w < num_threads s \<Longrightarrow> workers s ! w = W_Asleep \<Longrightarrow> script_run cs (set_worker w W_Woken s) s' \<Longrightarrow> script_run cs s s'"
| Inside: "client s \<noteq> C_Ready \<Longrightarrow> client_step ok v call s = Some s1 \<Longrightarrow> script_run cs s1 s' \<Longrightarrow> script_run cs s s'"
| Next: "client s = C_Ready \<Longrightarrow> client_step ok v c s = Some s1 \<Longrightarrow> script_run cs s1 s' \<Longrightarrow> script_run ((ok, c) # cs) s s'"

fun submits :: "(bool \<times> 't client_call) list \<Rightarrow> 't multiset" where
  "submits [] = {#}"
| "submits ((b, c) # cs) = (case c of Call_Submit t \<Rightarrow> if b then {#t#} else {#} | _ \<Rightarrow> {#}) + submits cs"

lemma submits_append [simp]: "submits (as @ bs) = submits as + submits bs"
  by (induction as rule: submits.induct) (auto simp: ac_simps)

text \<open>The client is waiting, or has waited and submitted nothing since.\<close>

definition waited :: "'t pool \<Rightarrow> bool" where
  "waited s \<longleftrightarrow> client s = C_Check \<or> (\<exists>i. client s = C_Scan i) \<or> client s = C_Ready \<and> finished s = submitted s"

lemma worker_step_tasks:
  assumes "worker_step (\<lambda>_. []) ok v w s = Some s'" "w < num_threads s" "flat s"
  shows "submitted s' = submitted s" "finished s \<subseteq># finished s'" "client s' = client s"
  using assms by (auto simp: pool_defs flat_def split: wpc.splits list.splits if_splits)

lemma finished_sub: "pool_inv s \<Longrightarrow> finished s \<subseteq># submitted s"
  using pool_tasks [of s] by (simp add: ac_simps)

lemma waited_worker:
  assumes "waited s" "worker_step (\<lambda>_. []) ok v w s = Some s'" "w < num_threads s" "flat s" "pool_inv s'"
  shows "waited s'"
  using assms(1) worker_step_tasks [OF assms(2-4)] finished_sub [OF assms(5)]
  by (auto simp: waited_def intro: subset_mset.antisym)

lemma client_step_inside:
  assumes "client s \<noteq> C_Ready" "client_step ok v call s = Some s'"
  shows "submitted s' = submitted s"
  using assms by (auto simp: pool_defs split: cpc.splits if_splits)

lemma script_step:
  assumes "pool_reachable (\<lambda>_. []) nprocs n s"
  shows "w < num_threads s \<Longrightarrow> worker_step (\<lambda>_. []) ok v w s = Some s1 \<Longrightarrow> pool_reachable (\<lambda>_. []) nprocs n s1"
    "w < num_threads s \<Longrightarrow> workers s ! w = W_Asleep \<Longrightarrow> pool_reachable (\<lambda>_. []) nprocs n (set_worker w W_Woken s)"
    "client_step ok v call s = Some s1 \<Longrightarrow> pool_reachable (\<lambda>_. []) nprocs n s1"
  using assms by (blast intro: pool_reachable.Step pool_reachable.Spurious pool_step.intros)+

lemma script_reachable: "script_run cs s s' \<Longrightarrow> pool_reachable (\<lambda>_. []) nprocs n s \<Longrightarrow> pool_reachable (\<lambda>_. []) nprocs n s'"
  by (induction rule: script_run.induct) (auto intro: script_step)

lemma script_submitted:
  "script_run cs s s' \<Longrightarrow> pool_reachable (\<lambda>_. []) nprocs n s \<Longrightarrow> submitted s' = submitted s + submits cs"
proof (induction rule: script_run.induct)
  case (Others w s ok v s1 cs s')
  then show ?case using script_step(1) [OF Others.prems Others.hyps(1,2)] worker_step_tasks(1) [OF Others.hyps(2,1) flat_reachable [OF Others.prems]] by simp
next
  case (Wake w s cs s')
  then show ?case using script_step(2) [OF Wake.prems Wake.hyps(1,2)] by simp
next
  case (Inside s ok v call s1 cs s')
  then show ?case using script_step(3) [OF Inside.prems Inside.hyps(2)] client_step_inside [OF Inside.hyps(1,2)] by simp
next
  case (Next s ok v c s1 cs s')
  have "submitted s1 = submitted s + submits [(ok, c)]"
    using Next.hyps(1,2) by (auto simp: client_defs Let_def split: client_call.splits if_splits)
  then show ?case using Next.IH [OF script_step(3) [OF Next.prems Next.hyps(2)]] by (simp add: ac_simps split: client_call.splits)
qed simp

lemma script_waits:
  assumes "script_run cs s s'" "pool_reachable (\<lambda>_. []) nprocs n s" "if cs = [] then waited s else snd (last cs) = Call_Wait"
  shows "finished s' = submitted s'"
  using assms
proof (induction rule: script_run.induct)
  case (Finish s)
  then show ?case by (auto simp: waited_def)
next
  case (Others w s ok v s1 cs s')
  have r: "pool_reachable (\<lambda>_. []) nprocs n s1" by (rule script_step(1) [OF Others.prems(1) Others.hyps(1,2)])
  show ?case
  proof (rule Others.IH [OF r])
    show "if cs = [] then waited s1 else snd (last cs) = Call_Wait"
      using Others.prems(2) waited_worker [OF _ Others.hyps(2,1) flat_reachable [OF Others.prems(1)] pool_reachable_inv [OF r]] by simp
  qed
next
  case (Wake w s cs s')
  then show ?case using script_step(2) [OF Wake.prems(1) Wake.hyps(1,2)] by (cases cs) (simp_all add: waited_def)
next
  case (Inside s ok v call s1 cs s')
  have r: "pool_reachable (\<lambda>_. []) nprocs n s1" by (rule script_step(3) [OF Inside.prems(1) Inside.hyps(2)])
  have "waited s1" if w: "waited s"
  proof (cases "client s = C_Check \<and> client s1 = C_Ready")
    case True
    then show ?thesis using check_finished [OF Inside.prems(1) _ Inside.hyps(2)] by (simp add: waited_def)
  next
    case False
    then consider "client s = C_Check" "client s1 \<noteq> C_Ready" | i where "client s = C_Scan i" using w Inside.hyps(1) by (auto simp: waited_def)
    then show ?thesis
    proof cases
      case 1
      then have "client s1 = C_Scan 0" using Inside.hyps(2) by (auto simp: client_defs split: if_splits)
      then show ?thesis by (simp add: waited_def)
    next
      case 2
      then have "client s1 = C_Check \<or> (\<exists>j. client s1 = C_Scan j)" using Inside.hyps(2) by (auto simp: client_defs split: if_splits)
      then show ?thesis by (auto simp: waited_def)
    qed
  qed
  then show ?case using Inside.IH [OF r] Inside.prems(2) by (auto split: if_splits)
next
  case (Next s ok v c s1 cs s')
  have r: "pool_reachable (\<lambda>_. []) nprocs n s1" by (rule script_step(3) [OF Next.prems(1) Next.hyps(2)])
  have "waited s1" if "cs = []" using that Next.prems(2) Next.hyps(1,2) by (auto simp: waited_def client_defs)
  then show ?case using Next.IH [OF r] Next.prems(2) by (auto split: if_splits)
qed

text \<open>What a program that ends with a wait, or that makes no calls, has got done at its end: the tasks it submitted.\<close>

lemma script_done:
  assumes "script_run cs s s'" "pool_reachable (\<lambda>_. []) nprocs n s" "cs = [] \<or> snd (last cs) = Call_Wait"
  shows "finished s' - submitted s = submits cs"
proof (cases "cs = []")
  case True
  then have "finished s' \<subseteq># submitted s" using script_submitted [OF assms(1,2)] finished_sub [OF pool_reachable_inv [OF script_reachable [OF assms(1,2)]]] by simp
  then show ?thesis using True Diff_eq_empty_iff_mset [of "finished s'" "submitted s"] by simp
next
  case False
  then have "finished s' = submitted s'" using script_waits [OF assms(1,2)] assms(3) by simp
  then show ?thesis using script_submitted [OF assms(1,2)] by simp
qed

section \<open>Splitting a range\<close>

text \<open>The bounds of the chunks: \<open>for (s = start; s < end; s += chunk_size)\<close>, whose variable wraps.\<close>

partial_function (option) chunk_bounds :: "nat \<Rightarrow> nat \<Rightarrow> nat \<Rightarrow> (nat \<times> nat) list option" where
  "chunk_bounds chunk_size s end =
     (if s < end then
        let e = (s + chunk_size) mod 2 ^ 64; e = (if e > end then end else e) in
        Option.bind (chunk_bounds chunk_size ((s + chunk_size) mod 2 ^ 64) end) (\<lambda>bs. Some ((s, e) # bs))
      else Some [])"

text \<open>What the caller does: process a chunk itself, submit one, with the outcome, or wait for the pool.\<close>

datatype for_event = Inline nat nat | Submit bool nat nat | Wait

text \<open>For the \<open>k\<close>-th chunk, \<open>fst (ok k)\<close> tells whether \<open>malloc\<close> succeeds and \<open>snd (ok k)\<close> whether
  the submission does. A chunk that cannot be submitted is processed by the caller.\<close>

definition for_body :: "(nat \<Rightarrow> bool \<times> bool) \<Rightarrow> nat \<times> nat \<times> nat \<Rightarrow> for_event list" where
  "for_body ok = (\<lambda>(k, s, e).
     if \<not> fst (ok k) then [Inline s e] else if snd (ok k) then [Submit True s e] else [Submit False s e, Inline s e])"

definition SNEPPX_parallel_for :: "(nat \<Rightarrow> bool \<times> bool) \<Rightarrow> nat \<Rightarrow> nat \<Rightarrow> nat \<Rightarrow> for_event list option" where
  "SNEPPX_parallel_for ok nthreads start end =
     (let range = size_sub end start in
      if range = 0 then Some []
      else if nthreads \<le> 1 \<or> range < 64 then Some [Inline start end]
      else
        let chunk_size = ((range + nthreads - 1) mod 2 ^ 64) div nthreads in
        map_option (\<lambda>bs. concat (map (for_body ok) (enumerate 0 bs)) @ [Wait]) (chunk_bounds chunk_size start end))"

text \<open>The calls of the pool among the events; a task of the pool is the chunk \<open>for_task_func\<close> runs.\<close>

fun event_calls :: "for_event \<Rightarrow> (bool \<times> (nat \<times> nat) client_call) list" where
  "event_calls (Inline s e) = []"
| "event_calls (Submit b s e) = [(b, Call_Submit (s, e))]"
| "event_calls Wait = [(True, Call_Wait)]"

abbreviation for_calls :: "for_event list \<Rightarrow> (bool \<times> (nat \<times> nat) client_call) list" where
  "for_calls evs \<equiv> concat (map event_calls evs)"

fun inline_chunk :: "for_event \<Rightarrow> (nat \<times> nat) multiset" where
  "inline_chunk (Inline s e) = {#(s, e)#}"
| "inline_chunk _ = {#}"

definition covered :: "(nat \<times> nat) multiset \<Rightarrow> nat multiset" where
  "covered M = (\<Sum>(s, e) \<in># M. mset [s..<e])"

lemma covered_simps [simp]:
  "covered {#} = {#}" "covered (M + N) = covered M + covered N"
  "covered (add_mset (s, e) M) = mset [s..<e] + covered M"
  by (simp_all add: covered_def)

lemma chunk_bounds_done: "\<not> s < end \<Longrightarrow> chunk_bounds c s end = Some []"
  by (subst chunk_bounds.simps) simp

lemma chunk_bounds_more:
  assumes "s < end" "end + c \<le> 2 ^ 64"
  shows "chunk_bounds c s end = Option.bind (chunk_bounds c (s + c) end) (\<lambda>bs. Some ((s, if s + c > end then end else s + c) # bs))"
proof -
  have m: "(s + c) mod 2 ^ 64 = s + c" using assms by (intro mod_less) linarith
  show ?thesis by (subst chunk_bounds.simps) (simp only: m Let_def assms(1) if_True)
qed

lemma chunk_count:
  fixes c :: nat
  assumes "0 < c" "s < end"
  shows "Suc ((end - (s + c) + c - 1) div c) = (end - s + c - 1) div c"
proof (cases "s + c < end")
  case True
  then have "end - s + c - 1 = (end - (s + c) + c - 1) + c" using assms(1) by linarith
  then have "(end - s + c - 1) div c = (end - (s + c) + c - 1) div c + 1" using assms(1) by (simp only: div_add_self2)
  then show ?thesis by simp
next
  case False
  then have a: "end - (s + c) + c - 1 < c" "end - s + c - 1 < 2 * c" "c \<le> end - s + c - 1" using assms by linarith+
  then have "(end - s + c - 1) div c = 1" by (intro div_nat_eqI) simp_all
  with a(1) show ?thesis by simp
qed

lemma chunk_bounds_partition:
  assumes "0 < c" "end + c \<le> 2 ^ 64"
  shows "\<exists>bs. chunk_bounds c s end = Some bs \<and> concat (map (\<lambda>(s, e). [s..<e]) bs) = [s..<end] \<and> length bs = (end - s + c - 1) div c"
proof (induction "end - s" arbitrary: s rule: less_induct)
  case less
  show ?case
  proof (cases "s < end")
    case False
    then show ?thesis using assms by (simp add: chunk_bounds_done)
  next
    case True
    define e where "e = (if s + c > end then end else s + c)"
    have "end - (s + c) < end - s" using True assms(1) by linarith
    from less [OF this] obtain bs where
      bs: "chunk_bounds c (s + c) end = Some bs" "concat (map (\<lambda>(s, e). [s..<e]) bs) = [s + c..<end]" "length bs = (end - (s + c) + c - 1) div c"
      by blast
    have "[s..<e] @ [s + c..<end] = [s..<end]"
    proof (cases "s + c > end")
      case False
      then have "[s..<end] = [s..<s + c] @ [s + c..<s + c + (end - (s + c))]"
        by (metis le_add1 le_add_diff_inverse not_less upt_add_eq_append)
      with False show ?thesis by (simp add: e_def)
    qed (simp add: e_def)
    then show ?thesis using bs chunk_bounds_more [OF True assms(2), folded e_def] chunk_count [OF assms(1) True] by simp
  qed
qed

lemma chunk_size_bounds:
  fixes r n :: nat
  assumes "1 < n" "64 \<le> r" "r + n \<le> 2 ^ 64"
  shows "0 < (r + n - 1) mod 2 ^ 64 div n" "(r + (r + n - 1) mod 2 ^ 64 div n - 1) div ((r + n - 1) mod 2 ^ 64 div n) \<le> n"
    "(r + n - 1) mod 2 ^ 64 div n \<le> r"
proof -
  have m: "(r + n - 1) mod 2 ^ 64 = r + n - 1"
    using assms by (intro mod_less) linarith
  define c where "c = (r + n - 1) div n"
  have cpos: "0 < c"
    unfolding c_def using assms by (simp add: div_greater_zero_iff)
  have "r \<le> c * n"
  proof -
    have "r + n - 1 < (c + 1) * n"
      unfolding c_def using assms(1) dividend_less_div_times [of n "r + n - 1"] by (simp add: algebra_simps)
    then show ?thesis
      by (simp add: algebra_simps)
  qed
  then have "r + c - 1 < (n + 1) * c"
    using cpos by (simp add: algebra_simps)
  then have "(r + c - 1) div c < n + 1"
    by (simp add: less_mult_imp_div_less)
  moreover have "c \<le> r"
  proof -
    have "r \<le> r * n" using assms(1) by simp
    moreover have "(r + 1) * n = r * n + n" by simp
    ultimately have "r + n - 1 < (r + 1) * n" using assms(1) by linarith
    then have "c < r + 1"
      unfolding c_def by (simp add: less_mult_imp_div_less)
    then show ?thesis
      by simp
  qed
  ultimately show "0 < (r + n - 1) mod 2 ^ 64 div n" "(r + (r + n - 1) mod 2 ^ 64 div n - 1) div ((r + n - 1) mod 2 ^ 64 div n) \<le> n"
    "(r + n - 1) mod 2 ^ 64 div n \<le> r"
    using cpos unfolding m c_def [symmetric] by simp_all
qed

text \<open>The chunks of a range that the pool is used for.\<close>

lemma range_chunks:
  fixes n :: nat
  assumes "start \<le> end" "1 < n" "2 * end + n \<le> 2 ^ 64" "64 \<le> end - start"
  defines "c \<equiv> (end - start + n - 1) mod 2 ^ 64 div n"
  obtains bs where "chunk_bounds c start end = Some bs" "concat (map (\<lambda>(s, e). [s..<e]) bs) = [start..<end]"
    "length bs = (end - start + c - 1) div c" "length bs \<le> n" "0 < c" "end + c \<le> 2 ^ 64" "(end - start + c - 1) mod 2 ^ 64 = end - start + c - 1"
proof -
  have "end - start + n \<le> 2 ^ 64" using assms(1-3) by linarith
  note c = chunk_size_bounds [OF assms(2,4) this, folded c_def]
  have ec: "end + c \<le> 2 ^ 64" using c(3) assms(3) by linarith
  moreover have "(end - start + c - 1) mod 2 ^ 64 = end - start + c - 1" using ec c(1) assms(4) by (intro mod_less) linarith
  ultimately show ?thesis using that chunk_bounds_partition [OF c(1) ec, of start] c(1,2) by auto
qed

lemma covered_body:
  "covered (submits (for_calls (for_body ok b)) + sum_list (map inline_chunk (for_body ok b))) = mset [fst (snd b)..<snd (snd b)]"
  by (cases b) (simp add: for_body_def)

lemma covered_events:
  "covered (submits (for_calls (concat (map (for_body ok) bs))) + sum_list (map inline_chunk (concat (map (for_body ok) bs)))) =
   mset (concat (map (\<lambda>(s, e). [s..<e]) (map snd bs)))"
proof (induction bs)
  case (Cons b bs)
  then show ?case using covered_body [of ok b] by (cases b) (simp add: ac_simps)
qed simp

lemma parallel_for_events:
  assumes "start \<le> end" "0 < n" "2 * end + n \<le> 2 ^ 64"
  obtains evs where "SNEPPX_parallel_for ok n start end = Some evs" "covered (submits (for_calls evs) + sum_list (map inline_chunk evs)) = mset [start..<end]"
    "for_calls evs = [] \<or> snd (last (for_calls evs)) = Call_Wait"
proof -
  have sub: "size_sub end start = end - start" using assms(1) by (simp add: size_sub_def)
  consider "end - start = 0" | "end - start \<noteq> 0" "n \<le> 1 \<or> end - start < 64" | "1 < n" "64 \<le> end - start" by linarith
  then show ?thesis
  proof cases
    case 1
    then show ?thesis using that [of "[]"] by (simp add: SNEPPX_parallel_for_def sub)
  next
    case 2
    then show ?thesis using that [of "[Inline start end]"] by (simp add: SNEPPX_parallel_for_def sub)
  next
    case 3
    define c where "c = (end - start + n - 1) mod 2 ^ 64 div n"
    obtain bs where bs: "chunk_bounds c start end = Some bs" "concat (map (\<lambda>(s, e). [s..<e]) bs) = [start..<end]"
      unfolding c_def by (rule range_chunks [OF assms(1) 3(1) assms(3) 3(2)])
    have "SNEPPX_parallel_for ok n start end = Some (concat (map (for_body ok) (enumerate 0 bs)) @ [Wait])"
      using 3 bs(1) by (simp add: SNEPPX_parallel_for_def sub c_def Let_def)
    then show ?thesis using that covered_events [of ok "enumerate 0 bs"] bs(2) by simp
  qed
qed

text \<open>
  C23. \<open>SNEPPX_parallel_for\<close> on \<open>[start, end)\<close>, called by the only client of a pool whose tasks submit nothing, with \<open>2 * end + nthreads \<le> 2 ^ 64\<close>:
  the call splits the range, and whatever allocations and submissions fail and however the workers are scheduled, once it has returned, the
  chunks of the call that the workers have finished and those the caller processed itself together cover every index of the range
  exactly once. Nothing is left running: the wait at the end of the call is what makes this so.
\<close>

theorem parallel_for_covers:
  assumes "start \<le> end" "2 * end + num_threads s \<le> 2 ^ 64" "pool_reachable (\<lambda>_. []) nprocs n s"
  shows "\<exists>evs. SNEPPX_parallel_for ok (num_threads s) start end = Some evs \<and>
    (\<forall>s'. script_run (for_calls evs) s s' \<longrightarrow> covered (finished s' - submitted s + sum_list (map inline_chunk evs)) = mset [start..<end])"
proof -
  have "0 < num_threads s" using pool_reachable_inv [OF assms(3)] by (simp add: pool_inv_def pool_shape_def)
  then obtain evs where e: "SNEPPX_parallel_for ok (num_threads s) start end = Some evs" "covered (submits (for_calls evs) + sum_list (map inline_chunk evs)) = mset [start..<end]"
    "for_calls evs = [] \<or> snd (last (for_calls evs)) = Call_Wait" by (rule parallel_for_events [OF assms(1) _ assms(2)])
  have "finished s' - submitted s = submits (for_calls evs)" if "script_run (for_calls evs) s s'" for s'
    by (rule script_done [OF that assms(3) e(3)])
  then show ?thesis using e(1,2) by auto
qed

text \<open>The calls of the pool that a schedule contains.\<close>

fun moves_script :: "'t move list \<Rightarrow> 't pool \<Rightarrow> (bool \<times> 't client_call) list" where
  "moves_script [] s = []"
| "moves_script (m # ms) s =
     (case m of By_Client ok v call \<Rightarrow> if client s = C_Ready then [(ok, call)] else [] | _ \<Rightarrow> []) @
     (case run_move (\<lambda>_. []) m s of None \<Rightarrow> [] | Some s \<Rightarrow> moves_script ms s)"

lemma moves_script_run:
  "run_moves (\<lambda>_. []) ms s = Some s' \<Longrightarrow> client s' = C_Ready \<Longrightarrow> script_run (moves_script ms s) s s'"
proof (induction ms arbitrary: s)
  case (Cons m ms)
  then obtain s1 where s1: "run_move (\<lambda>_. []) m s = Some s1" "run_moves (\<lambda>_. []) ms s1 = Some s'" by (auto split: option.splits)
  note r = Cons.IH [OF s1(2) Cons.prems(2)]
  show ?case
    using s1(1) r by (cases m) (auto split: if_splits intro: script_run.intros)
qed (auto intro: script_run.Finish)

definition for_create :: "'t move list" where
  "for_create = [By_Client True 0 Call_Wait, By_Client True 0 Call_Wait, By_Client True 0 Call_Wait]"

definition for_run :: "(nat \<times> nat) move list" where
  "for_run =
     [By_Client True 0 (Call_Submit (0, 32)), By_Client True 0 Call_Wait,
      By_Client True 0 (Call_Submit (32, 64)), By_Client True 0 Call_Wait,
      By_Worker True 0 0, By_Worker True 0 0, By_Worker True 0 0, By_Worker True 0 0,
      By_Worker True 0 1, By_Worker True 0 1, By_Worker True 0 1, By_Worker True 0 1,
      By_Client True 0 Call_Wait, By_Client True 0 Call_Wait, By_Client True 0 Call_Wait,
      By_Client True 0 Call_Wait, By_Client True 0 Call_Wait]"

definition for_pool :: "64 word \<Rightarrow> 't multiset \<Rightarrow> 't pool" where
  "for_pool k M =
     \<lparr>num_threads = 2, shutdown = False, queues = [[], []], global_lock = None, active_tasks = 0,
      waiting_count = 0, workers = [W_Test, W_Test], client = C_Ready, rr_counter = k,
      submitted = M, finished = M, dropped = {#}\<rparr>"

lemma submit_index_2: "submit_index 0 2 = 0" "submit_index 1 2 = 1"
  by (simp_all add: submit_index_def signed_modulo_int_def Let_def)

lemma for_create_runs: "run_moves (\<lambda>_. []) for_create (threadpool_begin 1 2) = Some (for_pool 0 {#})"
  by (simp add: for_create_def for_pool_def threadpool_begin_def client_defs Let_def numeral_2_eq_2 [symmetric] del: One_nat_def)
     (simp add: numeral_2_eq_2)

lemma for_run_runs:
  "run_moves (\<lambda>_. []) for_run (for_pool 0 {#}) = Some (for_pool 2 {#(0, 32), (32, 64)#})"
  "moves_script for_run (for_pool 0 {#}) = [(True, Call_Submit (0, 32)), (True, Call_Submit (32, 64)), (True, Call_Wait)]"
  by (simp_all add: for_run_def for_pool_def worker_step_def client_defs
      submit_count_def Let_def submit_index_2 numeral_2_eq_2 [symmetric] add_mset_commute del: One_nat_def)
     (simp_all add: numeral_2_eq_2 add_mset_commute worker_step_def client_defs)

lemma for_64_2: "SNEPPX_parallel_for (\<lambda>_. (True, True)) 2 0 64 = Some [Submit True 0 32, Submit True 32 64, Wait]"
proof -
  have "chunk_bounds 32 0 64 = Some [(0, 32), (32, 64)]"
    by (simp add: chunk_bounds_more chunk_bounds_done)
  then show ?thesis by (simp add: SNEPPX_parallel_for_def size_sub_def for_body_def)
qed

theorem parallel_for_covers_witness:
  "covered (finished (for_pool 2 {#(0, 32), (32, 64)#})) = mset [0..<64]"
proof -
  have r: "script_run [(True, Call_Submit (0 :: nat, 32 :: nat)), (True, Call_Submit (32, 64)), (True, Call_Wait)] (for_pool 0 {#}) (for_pool 2 {#(0, 32), (32, 64)#})"
    using moves_script_run [OF for_run_runs(1)] unfolding for_run_runs(2) by (simp add: for_pool_def)
  show ?thesis
    using parallel_for_covers [where ok = "\<lambda>_. (True, True)", OF _ _ run_moves_begin [OF for_create_runs], of 0 64] r for_64_2
    by (auto simp: for_pool_def)
qed

section \<open>Reduction\<close>

text \<open>The bytes of the result are a value of any type; \<open>zero\<close> is the value of cleared memory.
  \<open>reduce s e arg acc\<close> is the buffer \<open>reduce_func\<close> leaves when it starts from \<open>acc\<close>, \<open>arg\<close> is \<open>None\<close> for a
  \<open>NULL\<close> argument. \<open>ok k\<close> are again the outcomes for chunk \<open>k\<close>. A task \<open>(k, s, e)\<close> of the pool clears the \<open>k\<close>-th partial result and
  reduces \<open>[s, e)\<close> into it (\<open>reduce_task_func\<close>). \<open>reduce_chunks\<close> gives the submissions of the loop, with their outcomes; a
  failing \<open>malloc\<close> ends it with the bounds of the chunk it was for.\<close>

partial_function (option) reduce_chunks ::
  "(nat \<Rightarrow> bool \<times> bool) \<Rightarrow> nat \<Rightarrow> nat \<Rightarrow> nat \<Rightarrow> nat \<Rightarrow> ((bool \<times> nat \<times> nat \<times> nat) list \<times> (nat \<times> nat) option) option"
where
  "reduce_chunks ok k chunk_size s end =
     (if s < end then
        let e = (s + chunk_size) mod 2 ^ 64;
            e = (if e > end then end else e) in
        if \<not> fst (ok k) then Some ([], Some (s, e))
        else
          Option.bind (reduce_chunks ok (k + 1) chunk_size ((s + chunk_size) mod 2 ^ 64) end)
            (\<lambda>(ts, failed). Some ((snd (ok k), k, s, e) # ts, failed))
      else Some ([], None))"

definition reduce_task_func :: "(nat \<Rightarrow> nat \<Rightarrow> 'u option \<Rightarrow> 'r \<Rightarrow> 'r) \<Rightarrow> 'r \<Rightarrow> 'u option \<Rightarrow> nat \<times> nat \<times> nat \<Rightarrow> 'r" where
  "reduce_task_func reduce zero arg = (\<lambda>(k, s, e). reduce s e arg zero)"

text \<open>What the call does after its calls on the pool have returned, with the tasks of the call that are finished then. A partial result
  of a task that has not run holds the zeros of \<open>calloc\<close>. The result is \<open>Inl Use_After_Free\<close> when the code frees the partial
  results while a chunk it submitted can still write to them, and \<open>Inl Out_Of_Bounds\<close> when there were more chunks than partial
  results.\<close>

definition reduce_result ::
  "nat \<Rightarrow> 'r \<Rightarrow> 'r \<Rightarrow> (nat \<Rightarrow> nat \<Rightarrow> 'u option \<Rightarrow> 'r \<Rightarrow> 'r) \<Rightarrow> ('r \<Rightarrow> 'r \<Rightarrow> 'r) \<Rightarrow> 'u option \<Rightarrow>
   (bool \<times> nat \<times> nat \<times> nat) list \<times> (nat \<times> nat) option \<Rightarrow> (nat \<times> nat \<times> nat) multiset \<Rightarrow> 'r run"
where
  "reduce_result max_chunks result zero reduce combine user_arg = (\<lambda>(ts, failed) fin.
     let partials = map (\<lambda>(b, t). if t \<in># fin then reduce_task_func reduce zero user_arg t else zero) ts in
     if length ts > max_chunks then Inl Out_Of_Bounds
     else if \<not> mset (map snd (filter fst ts)) \<subseteq># fin then Inl Use_After_Free
     else case failed of
       Some (s, e) \<Rightarrow> Inr (reduce s e None result)
     | None \<Rightarrow> (case partials of [] \<Rightarrow> Inr result | p # ps \<Rightarrow> Inr (foldl combine p ps)))"

definition reduce_calls :: "(bool \<times> nat \<times> nat \<times> nat) list \<times> (nat \<times> nat) option \<Rightarrow> (bool \<times> (nat \<times> nat \<times> nat) client_call) list" where
  "reduce_calls = (\<lambda>(ts, failed). map (\<lambda>(b, t). (b, Call_Submit t)) ts @ (if failed = None then [(True, Call_Wait)] else []))"

text \<open>The call: the calls it makes on the pool, and its result.\<close>

definition SNEPPX_parallel_reduce ::
  "bool \<Rightarrow> (nat \<Rightarrow> bool \<times> bool) \<Rightarrow> nat \<Rightarrow> nat \<Rightarrow> nat \<Rightarrow> 'r option \<Rightarrow> 'r \<Rightarrow>
   (nat \<Rightarrow> nat \<Rightarrow> 'u option \<Rightarrow> 'r \<Rightarrow> 'r) \<Rightarrow> ('r \<Rightarrow> 'r \<Rightarrow> 'r) \<Rightarrow> 'u option \<Rightarrow>
   ((bool \<times> (nat \<times> nat \<times> nat) client_call) list \<times> ((nat \<times> nat \<times> nat) multiset \<Rightarrow> 'r run)) option"
where
  "SNEPPX_parallel_reduce calloc_ok ok nthreads start end init zero reduce combine user_arg =
     (let range = size_sub end start;
          result = (case init of Some v \<Rightarrow> v | None \<Rightarrow> zero) in
      if range = 0 then Some ([], \<lambda>_. Inr result)
      else if nthreads \<le> 1 \<or> range < 64 then Some ([], \<lambda>_. Inr (reduce start end user_arg zero))
      else
        let chunk_size = ((range + nthreads - 1) mod 2 ^ 64) div nthreads;
            num_chunks = ((range + chunk_size - 1) mod 2 ^ 64) div chunk_size;
            max_chunks = (if num_chunks < nthreads then num_chunks else nthreads) in
        if \<not> calloc_ok then Some ([], \<lambda>_. Inr (reduce start end None result))
        else map_option (\<lambda>r. (reduce_calls r, reduce_result max_chunks result zero reduce combine user_arg r))
          (reduce_chunks ok 0 chunk_size start end))"

text \<open>When nothing fails, the loop submits the chunks of the range in order.\<close>

lemma reduce_chunks_all:
  assumes "0 < c" "end + c \<le> 2 ^ 64"
  shows "reduce_chunks (\<lambda>_. (True, True)) k c s end =
    map_option (\<lambda>bs. (map (Pair True) (enumerate k bs), None)) (chunk_bounds c s end)"
proof (induction "end - s" arbitrary: s k rule: less_induct)
  case less
  show ?case
  proof (cases "s < end")
    case False
    then show ?thesis by (simp add: chunk_bounds_done) (subst reduce_chunks.simps, simp)
  next
    case True
    then have m: "(s + c) mod 2 ^ 64 = s + c" using assms by (intro mod_less) linarith
    have "end - (s + c) < end - s" using True assms(1) by linarith
    note IH = less [OF this, of "k + 1"]
    have "reduce_chunks (\<lambda>_. (True, True)) k c s end = Option.bind (reduce_chunks (\<lambda>_. (True, True)) (k + 1) c (s + c) end)
        (\<lambda>(ts, failed). Some ((True, k, s, if s + c > end then end else s + c) # ts, failed))"
      by (subst reduce_chunks.simps) (simp only: m Let_def True if_True fst_conv snd_conv not_True_eq_False if_False)
    then show ?thesis
      unfolding chunk_bounds_more [OF True assms(2)] IH by (cases "chunk_bounds c (s + c) end") simp_all
  qed
qed

text \<open>Chunks that follow each other.\<close>

fun chunk_chain :: "nat \<Rightarrow> (nat \<times> nat) list \<Rightarrow> nat \<Rightarrow> bool" where
  "chunk_chain a [] b \<longleftrightarrow> a = b"
| "chunk_chain a ((s, e) # bs) b \<longleftrightarrow> s = a \<and> a < e \<and> chunk_chain e bs b"

lemma chunk_bounds_chain:
  assumes "0 < c" "end + c \<le> 2 ^ 64"
  shows "s \<le> end \<Longrightarrow> \<exists>bs. chunk_bounds c s end = Some bs \<and> chunk_chain s bs end"
proof (induction "end - s" arbitrary: s rule: less_induct)
  case less
  show ?case
  proof (cases "s < end")
    case False
    then show ?thesis using less.prems by (simp add: chunk_bounds_done)
  next
    case True
    show ?thesis
    proof (cases "s + c \<le> end")
      case le: True
      have "end - (s + c) < end - s" using True assms(1) by linarith
      then obtain bs where "chunk_bounds c (s + c) end = Some bs" "chunk_chain (s + c) bs end" using less.hyps le by blast
      then show ?thesis using le assms(1) chunk_bounds_more [OF True assms(2)] by simp
    next
      case False
      then show ?thesis using True chunk_bounds_more [OF True assms(2)] by (simp add: chunk_bounds_done)
    qed
  qed
qed

lemma foldl_combine_chain:
  assumes "\<And>a b c. a < b \<Longrightarrow> b < c \<Longrightarrow> combine (red a b) (red b c) = red a c"
  shows "chunk_chain s bs b \<Longrightarrow> a < s \<Longrightarrow> foldl combine (red a s) (map (\<lambda>(s, e). red s e) bs) = red a b"
proof (induction bs arbitrary: s)
  case (Cons x bs)
  then show ?case using assms by (cases x) (auto simp: less_trans)
qed simp

lemma combine_chunks:
  assumes "\<And>a b c. a < b \<Longrightarrow> b < c \<Longrightarrow> combine (red a b) (red b c) = red a c" "chunk_chain a bs b" "a < b"
  shows "(case map (\<lambda>(s, e). red s e) bs of [] \<Rightarrow> Inr r | p # ps \<Rightarrow> Inr (foldl combine p ps)) = (Inr (red a b) :: 'r run)"
proof (cases bs)
  case (Cons x xs)
  then show ?thesis using assms(2) foldl_combine_chain [of combine red, OF assms(1)] by (cases x) auto
qed (use assms in auto)

lemma submits_all [simp]: "submits (map (\<lambda>(b, t). (b, Call_Submit t)) (map (Pair True) ts)) = mset ts"
  by (induction ts) simp_all

lemma map_enumerate_snd: "map (\<lambda>(k, s, e). f s e) (enumerate k bs) = map (\<lambda>(s, e). f s e) bs"
  by (induction bs arbitrary: k) auto

lemma reduce_result_all:
  fixes combine :: "'r \<Rightarrow> 'r \<Rightarrow> 'r"
  assumes "\<And>a b c. a < b \<Longrightarrow> b < c \<Longrightarrow> combine (reduce a b arg zero) (reduce b c arg zero) = reduce a c arg zero"
    and "chunk_chain start bs end" "start < end" "length bs \<le> m"
  shows "reduce_result m r zero reduce combine arg (map (Pair True) (enumerate 0 bs), None) (mset (enumerate 0 bs)) = Inr (reduce start end arg zero)"
proof -
  define ts where "ts = enumerate (0 :: nat) bs"
  have parts: "map (\<lambda>(b, t). if t \<in># mset ts then reduce_task_func reduce zero arg t else zero) (map (Pair True) ts) = map (\<lambda>(s, e). reduce s e arg zero) bs"
    unfolding map_enumerate_snd [of "\<lambda>s e. reduce s e arg zero" 0, symmetric] by (auto simp: ts_def reduce_task_func_def)
  have eq: "filter fst (map (Pair True) ts) = map (Pair True) ts" "map snd (map (Pair True) ts) = ts" by (simp_all add: comp_def)
  have len: "\<not> length (map (Pair True) ts) > m" using assms(4) by (simp add: ts_def)
  show ?thesis
    unfolding reduce_result_def prod.case ts_def [symmetric] parts eq Let_def if_not_P [OF len] option.case
    using combine_chunks [of combine "\<lambda>a b. reduce a b arg zero", OF assms(1-3)] by simp
qed

lemma parallel_reduce_calls:
  fixes n :: nat and combine :: "'r \<Rightarrow> 'r \<Rightarrow> 'r"
  assumes "start < end" "0 < n" "2 * end + n \<le> 2 ^ 64"
    and law: "\<And>a b c. a < b \<Longrightarrow> b < c \<Longrightarrow> combine (reduce a b arg zero) (reduce b c arg zero) = reduce a c arg zero"
  obtains calls res where "SNEPPX_parallel_reduce True (\<lambda>_. (True, True)) n start end init zero reduce combine arg = Some (calls, res)"
    "calls = [] \<or> snd (last calls) = Call_Wait" "res (submits calls) = Inr (reduce start end arg zero)"
proof (cases "n \<le> 1 \<or> end - start < 64")
  case True
  then show ?thesis using that [of "[]" "\<lambda>_. Inr (reduce start end arg zero)"] assms(1) by (simp add: SNEPPX_parallel_reduce_def size_sub_def)
next
  case False
  then have n: "1 < n" "64 \<le> end - start" by simp_all
  define c where "c = (end - start + n - 1) mod 2 ^ 64 div n"
  obtain bs where bs: "chunk_bounds c start end = Some bs" "length bs = (end - start + c - 1) div c" "length bs \<le> n" "0 < c" "end + c \<le> 2 ^ 64"
    "(end - start + c - 1) mod 2 ^ 64 = end - start + c - 1"
    unfolding c_def by (rule range_chunks [OF less_imp_le [OF assms(1)] n(1) assms(3) n(2)])
  have chunk_chain: "chunk_chain start bs end" using chunk_bounds_chain [OF bs(4,5), of start] assms(1) bs(1) by simp
  have sub: "size_sub end start = end - start" using assms(1) by (simp add: size_sub_def)
  define m where "m = (if (end - start + c - 1) div c < n then (end - start + c - 1) div c else n)"
  let ?r = "(map (Pair True) (enumerate 0 bs), None)"
  let ?res = "reduce_result m (case init of Some v \<Rightarrow> v | None \<Rightarrow> zero) zero reduce combine arg ?r"
  have calls: "submits (reduce_calls ?r) = mset (enumerate 0 bs)" "snd (last (reduce_calls ?r)) = Call_Wait"
    using submits_all [of "enumerate 0 bs"] by (simp_all add: reduce_calls_def)
  have "length bs \<le> m" using bs(2,3) by (simp add: m_def)
  then have "?res (submits (reduce_calls ?r)) = Inr (reduce start end arg zero)"
    unfolding calls(1) using chunk_chain assms(1) by (intro reduce_result_all law)
  moreover have "SNEPPX_parallel_reduce True (\<lambda>_. (True, True)) n start end init zero reduce combine arg = Some (reduce_calls ?r, ?res)"
    unfolding SNEPPX_parallel_reduce_def Let_def sub c_def [symmetric] bs(6) m_def [symmetric] reduce_chunks_all [OF bs(4,5)] bs(1)
    using False assms(1) by (simp del: One_nat_def)
  ultimately show ?thesis using that [of "reduce_calls ?r" ?res] calls(2) by blast
qed

text \<open>
  C24. \<open>SNEPPX_parallel_reduce\<close> on a range that is not empty, with \<open>2 * end + num_threads \<le> 2 ^ 64\<close>, called by the only client of a
  pool whose tasks submit nothing, when every allocation and submission succeeds and combining the results of two adjacent ranges gives the
  result of the joined range: however the workers are scheduled, the result of the call is what the sequential reduction of the whole
  range computes from cleared memory. The partial results are read and released only after the workers have finished with them, and every
  one of them is combined in order. The initial value is not used.
\<close>

theorem parallel_reduce_sequential:
  assumes "start < end" "2 * end + num_threads s \<le> 2 ^ 64" "pool_reachable (\<lambda>_. []) nprocs n s"
    and "\<forall>a b c. a < b \<longrightarrow> b < c \<longrightarrow>
           combine (reduce a b arg zero) (reduce b c arg zero) = reduce a c arg zero"
  shows "\<exists>calls res. SNEPPX_parallel_reduce True (\<lambda>_. (True, True)) (num_threads s) start end init zero reduce combine arg = Some (calls, res) \<and>
    (\<forall>s'. script_run calls s s' \<longrightarrow> res (finished s' - submitted s) = Inr (reduce start end arg zero))"
proof -
  have "0 < num_threads s" using pool_reachable_inv [OF assms(3)] by (simp add: pool_inv_def pool_shape_def)
  then obtain calls res where r: "SNEPPX_parallel_reduce True (\<lambda>_. (True, True)) (num_threads s) start end init zero reduce combine arg = Some (calls, res)"
    "calls = [] \<or> snd (last calls) = Call_Wait" "res (submits calls) = Inr (reduce start end arg zero)"
    using parallel_reduce_calls [of start "end" "num_threads s" combine reduce arg zero init] assms by metis
  then show ?thesis using script_done [OF _ assms(3) r(2)] by auto
qed

definition reduce_run :: "(nat \<times> nat \<times> nat) move list" where
  "reduce_run =
     [By_Client True 0 (Call_Submit (0, 0, 32)), By_Client True 0 Call_Wait,
      By_Client True 0 (Call_Submit (1, 32, 64)), By_Client True 0 Call_Wait,
      By_Worker True 0 0, By_Worker True 0 0, By_Worker True 0 0, By_Worker True 0 0,
      By_Worker True 0 1, By_Worker True 0 1, By_Worker True 0 1, By_Worker True 0 1,
      By_Client True 0 Call_Wait, By_Client True 0 Call_Wait, By_Client True 0 Call_Wait,
      By_Client True 0 Call_Wait, By_Client True 0 Call_Wait]"

lemma reduce_run_runs:
  "run_moves (\<lambda>_. []) reduce_run (for_pool 0 {#}) = Some (for_pool 2 {#(0, 0, 32), (1, 32, 64)#})"
  "moves_script reduce_run (for_pool 0 {#}) = [(True, Call_Submit (0, 0, 32)), (True, Call_Submit (1, 32, 64)), (True, Call_Wait)]"
  by (simp_all add: reduce_run_def for_pool_def worker_step_def client_defs
      submit_count_def Let_def submit_index_2 numeral_2_eq_2 [symmetric] add_mset_commute del: One_nat_def)
     (simp_all add: numeral_2_eq_2 add_mset_commute worker_step_def client_defs)

theorem parallel_reduce_sequential_witness:
  "\<exists>calls res. SNEPPX_parallel_reduce True (\<lambda>_. (True, True)) 2 0 64 (Some 5) 0 (\<lambda>s e (_ :: unit option) acc. acc + (e - s)) (+) None = Some (calls, res) \<and>
     script_run calls (for_pool 0 {#}) (for_pool 2 {#(0, 0, 32), (1, 32, 64)#}) \<and> res {#(0, 0, 32), (1, 32, 64)#} = Inr (64 :: nat)"
proof -
  let ?calls = "[(True, Call_Submit (0 :: nat, 0 :: nat, 32 :: nat)), (True, Call_Submit (1, 32, 64)), (True, Call_Wait)]"
  have run: "script_run ?calls (for_pool 0 {#}) (for_pool 2 {#(0, 0, 32), (1, 32, 64)#})"
    using moves_script_run [OF reduce_run_runs(1)] unfolding reduce_run_runs(2) by (simp add: for_pool_def)
  have "chunk_bounds 32 0 64 = Some [(0, 32), (32, 64)]"
    by (simp add: chunk_bounds_more chunk_bounds_done)
  then have "map_option fst (SNEPPX_parallel_reduce True (\<lambda>_. (True, True)) 2 0 64 (Some 5) 0 (\<lambda>s e (_ :: unit option) acc. acc + (e - s)) (+) None) = Some ?calls"
    by (simp add: SNEPPX_parallel_reduce_def size_sub_def reduce_chunks_all reduce_calls_def)
  then show ?thesis
    using parallel_reduce_sequential [where init = "Some 5" and zero = 0 and arg = "None :: unit option" and combine = "(+)" and reduce = "\<lambda>s e _ acc. acc + (e - s)",
        OF _ _ run_moves_begin [OF for_create_runs], of 0 64] run
    by (auto simp: for_pool_def)
qed

section \<open>Futures\<close>

text \<open>
  One thread sets the result while any number of threads get it. Setting the fields is one step
  taken when the lock is free; the broadcast comes after the unlock. A waiter holds the lock from
  the test of \<open>ready\<close> to the moment it sleeps. \<open>future_wrapper_func\<close> sets the result \<open>NULL\<close> after the
  task, so the value of a future of \<open>SNEPPX_threadpool_submit_future\<close> is always \<open>None\<close>.
\<close>

datatype spc = S_Set | S_Broadcast | S_Done

datatype 'r fpc = F_Lock | F_Pred | F_Enter | F_Asleep | F_Woken | F_Leave | F_Read | F_Return "'r option"

record 'r future =
  fut_ready :: bool
  fut_result :: "'r option"
  fut_lock :: "nat option"
  fut_setter :: spc
  fut_waiters :: "'r fpc list"

definition SNEPPX_future_create :: "nat \<Rightarrow> 'r future" where
  "SNEPPX_future_create k =
     \<lparr>fut_ready = False, fut_result = None, fut_lock = None, fut_setter = S_Set,
      fut_waiters = replicate k F_Lock\<rparr>"

definition SNEPPX_future_is_ready :: "'r future \<Rightarrow> bool" where
  "SNEPPX_future_is_ready f = fut_ready f"

definition set_result_step :: "'r option \<Rightarrow> 'r future \<Rightarrow> 'r future option" where
  "set_result_step v f =
     (case fut_setter f of
        S_Set \<Rightarrow>
          if fut_lock f = None
          then Some (f\<lparr>fut_result := v, fut_ready := True, fut_setter := S_Broadcast\<rparr>) else None
      | S_Broadcast \<Rightarrow>
          Some (f\<lparr>fut_waiters := map (\<lambda>pc. if pc = F_Asleep then F_Woken else pc) (fut_waiters f),
                  fut_setter := S_Done\<rparr>)
      | S_Done \<Rightarrow> None)"

definition get_result_step :: "nat \<Rightarrow> 'r future \<Rightarrow> 'r future option" where
  "get_result_step w f =
     (let go = (\<lambda>pc f. f\<lparr>fut_waiters := (fut_waiters f)[w := pc]\<rparr>) in
      case fut_waiters f ! w of
        F_Lock \<Rightarrow> if fut_lock f = None then Some (go F_Pred (f\<lparr>fut_lock := Some w\<rparr>)) else None
      | F_Pred \<Rightarrow> Some (go (if \<not> fut_ready f then F_Enter else F_Leave) f)
      | F_Enter \<Rightarrow> Some (go F_Asleep (f\<lparr>fut_lock := None\<rparr>))
      | F_Asleep \<Rightarrow> None
      | F_Woken \<Rightarrow> if fut_lock f = None then Some (go F_Pred (f\<lparr>fut_lock := Some w\<rparr>)) else None
      | F_Leave \<Rightarrow> Some (go F_Read (f\<lparr>fut_lock := None\<rparr>))
      | F_Read \<Rightarrow> Some (go (F_Return (fut_result f)) f)
      | F_Return r \<Rightarrow> None)"

inductive future_reachable :: "'r option \<Rightarrow> nat \<Rightarrow> 'r future \<Rightarrow> bool" for v k where
  Create: "future_reachable v k (SNEPPX_future_create k)"
| Set: "future_reachable v k f \<Longrightarrow> set_result_step v f = Some f' \<Longrightarrow> future_reachable v k f'"
| Get: "future_reachable v k f \<Longrightarrow> w < k \<Longrightarrow> get_result_step w f = Some f' \<Longrightarrow> future_reachable v k f'"
| Spurious: "future_reachable v k f \<Longrightarrow> w < k \<Longrightarrow> fut_waiters f ! w = F_Asleep \<Longrightarrow>
    future_reachable v k (f\<lparr>fut_waiters := (fut_waiters f)[w := F_Woken]\<rparr>)"

fun fpc_ok :: "'r option \<Rightarrow> 'r future \<Rightarrow> nat \<Rightarrow> 'r fpc \<Rightarrow> bool" where
  "fpc_ok v f w F_Pred \<longleftrightarrow> fut_lock f = Some w"
| "fpc_ok v f w F_Enter \<longleftrightarrow> fut_lock f = Some w \<and> \<not> fut_ready f"
| "fpc_ok v f w F_Asleep \<longleftrightarrow> fut_lock f \<noteq> Some w \<and> fut_setter f \<noteq> S_Done"
| "fpc_ok v f w F_Leave \<longleftrightarrow> fut_lock f = Some w \<and> fut_ready f"
| "fpc_ok v f w F_Read \<longleftrightarrow> fut_lock f \<noteq> Some w \<and> fut_ready f"
| "fpc_ok v f w (F_Return r) \<longleftrightarrow> fut_lock f \<noteq> Some w \<and> fut_ready f \<and> r = v"
| "fpc_ok v f w _ \<longleftrightarrow> fut_lock f \<noteq> Some w"

definition future_inv :: "'r option \<Rightarrow> nat \<Rightarrow> 'r future \<Rightarrow> bool" where
  "future_inv v k f \<longleftrightarrow>
     length (fut_waiters f) = k \<and> (fut_ready f \<longleftrightarrow> fut_setter f \<noteq> S_Set) \<and>
     (fut_ready f \<longrightarrow> fut_result f = v) \<and> (\<forall>w < k. fpc_ok v f w (fut_waiters f ! w))"

lemma set_result_inv:
  assumes "set_result_step v f = Some f'" "future_inv v k f"
  shows "future_inv v k f'"
proof -
  have "fpc_ok v f' w (fut_waiters f' ! w)" if "w < k" for w
  proof -
    have "fpc_ok v f w (fut_waiters f ! w)" "w < length (fut_waiters f)" "fut_ready f \<longleftrightarrow> fut_setter f \<noteq> S_Set"
      using assms(2) that by (auto simp: future_inv_def)
    with assms(1) show ?thesis
      by (cases "fut_waiters f ! w") (auto simp: set_result_step_def split: spc.splits if_splits)
  qed
  then show ?thesis
    using assms by (auto simp: future_inv_def set_result_step_def split: spc.splits if_splits)
qed

lemma get_result_inv:
  assumes "get_result_step w f = Some f'" "future_inv v k f" "w < k"
  shows "future_inv v k f'"
proof -
  have w: "fpc_ok v f w (fut_waiters f ! w)" "w < length (fut_waiters f)"
    "fut_ready f \<longleftrightarrow> fut_setter f \<noteq> S_Set" "fut_ready f \<longrightarrow> fut_result f = v"
    using assms(2,3) by (auto simp: future_inv_def)
  have "fpc_ok v f' u (fut_waiters f' ! u)" if "u < k" for u
  proof (cases "u = w")
    case True
    then show ?thesis
      using assms(1) w by (auto simp: get_result_step_def Let_def split: fpc.splits if_splits)
  next
    case False
    have "fpc_ok v f u (fut_waiters f ! u)"
      using assms(2) that by (auto simp: future_inv_def)
    then show ?thesis
      using assms(1) w False
      by (cases "fut_waiters f ! u") (auto simp: get_result_step_def Let_def split: fpc.splits if_splits)
  qed
  then show ?thesis
    using assms w by (auto simp: future_inv_def get_result_step_def Let_def split: fpc.splits if_splits)
qed

lemma future_reachable_inv: "future_reachable v k f \<Longrightarrow> future_inv v k f"
proof (induction rule: future_reachable.induct)
  case Create
  show ?case
    by (simp add: future_inv_def SNEPPX_future_create_def)
next
  case (Set f f')
  then show ?case by (auto intro: set_result_inv)
next
  case (Get f w f')
  then show ?case by (auto intro: get_result_inv)
next
  case (Spurious f w)
  have "fpc_ok v f u (fut_waiters f ! u)" if "u < k" for u
    using Spurious that by (auto simp: future_inv_def)
  moreover from this [of w] have "fut_lock f \<noteq> Some w"
    using Spurious by simp
  moreover have "fpc_ok v (f\<lparr>fut_waiters := ws\<rparr>) u pc \<longleftrightarrow> fpc_ok v f u pc" for ws u pc
    by (cases pc) simp_all
  ultimately show ?case
    using Spurious by (auto simp: future_inv_def nth_list_update)
qed

text \<open>
  Futures do not lose a wake-up: once \<open>SNEPPX_future_set_result\<close> has returned no thread in
  \<open>SNEPPX_future_get_result\<close> is asleep, and every thread that has returned from it has the value
  that was set.
\<close>

theorem future_delivers:
  assumes "future_reachable v k f" "w < k"
  shows "(fut_setter f = S_Done \<longrightarrow> fut_waiters f ! w \<noteq> F_Asleep) \<and>
         (\<forall>r. fut_waiters f ! w = F_Return r \<longrightarrow> SNEPPX_future_is_ready f \<and> r = v)"
proof -
  have "fpc_ok v f w (fut_waiters f ! w)"
    using future_reachable_inv [OF assms(1)] assms(2) by (simp add: future_inv_def)
  then show ?thesis
    by (cases "fut_waiters f ! w") (auto simp: SNEPPX_future_is_ready_def)
qed

definition future_set :: "nat future" where
  "future_set = \<lparr>fut_ready = True, fut_result = Some 3, fut_lock = None, fut_setter = S_Done,
                 fut_waiters = [F_Woken]\<rparr>"

lemma future_set_reachable: "future_reachable (Some 3) 1 future_set"
proof -
  have "future_reachable (Some 3) 1 (SNEPPX_future_create 1 :: nat future)"
    by (rule future_reachable.Create)
  then have "future_reachable (Some 3) 1 \<lparr>fut_ready = False, fut_result = None :: nat option,
      fut_lock = Some 0, fut_setter = S_Set, fut_waiters = [F_Pred]\<rparr>"
    by (rule future_reachable.Get [where w = 0]) (simp_all add: get_result_step_def SNEPPX_future_create_def)
  then have "future_reachable (Some 3) 1 \<lparr>fut_ready = False, fut_result = None :: nat option,
      fut_lock = Some 0, fut_setter = S_Set, fut_waiters = [F_Enter]\<rparr>"
    by (rule future_reachable.Get [where w = 0]) (simp_all add: get_result_step_def)
  then have "future_reachable (Some 3) 1 \<lparr>fut_ready = False, fut_result = None :: nat option,
      fut_lock = None, fut_setter = S_Set, fut_waiters = [F_Asleep]\<rparr>"
    by (rule future_reachable.Get [where w = 0]) (simp_all add: get_result_step_def)
  then have "future_reachable (Some 3) 1 \<lparr>fut_ready = True, fut_result = Some (3 :: nat),
      fut_lock = None, fut_setter = S_Broadcast, fut_waiters = [F_Asleep]\<rparr>"
    by (rule future_reachable.Set) (simp add: set_result_step_def)
  then show ?thesis
    unfolding future_set_def by (rule future_reachable.Set) (simp add: set_result_step_def)
qed

theorem future_delivers_witness: "fut_waiters future_set ! 0 \<noteq> F_Asleep"
  using future_delivers [OF future_set_reachable, of 0] by (simp add: future_set_def)

end
