(* ===== verification/Spec2Isabelle.thy ===== *)
theory Spec2Isabelle
  imports Pqueue Npe_Safety Hashtable Aead Hmac Tokenizer_Tensors Json Strutil Compress Slab Bignum Tensor_Reduce Autodiff_Train Parallel_Loops
begin

text \<open>
  A verification of the core of SNEPPX-ALG, a neural network framework in C.

  \<^bold>\<open>The program.\<close> \<open>kernel/tensor/tensor.c\<close> holds the tensor engine: reference-counted storages, views into
  them, and loops over their elements. \<open>kernel/autodiff\<close> records the operations on variables, which own tensors, on
  a tape and runs them backwards. \<open>kernel/thread/threadpool.c\<close> runs tasks on workers that steal from each other, and
  parallel loops on top of them. \<open>kernel/tokenizer\<close> turns texts into identifiers. \<open>algorithms/npe/core\<close> is a
  register machine whose instructions work on tensors, with a verifier, program builders and a just-in-time pipeline.
  \<open>lib/internal\<close> has the containers (priority queue, hash table) and string utilities, \<open>fs/format/json.c\<close> reads the
  headers of model files, \<open>mm/internal\<close> compresses tensors and allocates small blocks, and \<open>security/crypto/c\<close> has the
  primitives that protect models at rest.

  \<^bold>\<open>Theories and sources.\<close>
  \<^item> \<open>Prelude\<close>: results of a C computation (\<open>'a run\<close>: a fault such as an out-of-bounds access, a use after free, a
    \<open>NULL\<close> dereference, a bad argument of \<open>free\<close>, a division by zero or an undefined conversion, or a value), sequencing and loops over them.
  \<^item> \<open>Pqueue\<close>: \<open>lib/internal/pqueue.c\<close>. The heap array is a list; the two sift loops are recursive functions with
    their termination proofs; \<open>SNEPPX_pq_*\<close> are the operations of the same names.
  \<^item> \<open>Hashtable\<close>: \<open>lib/internal/hashtable.c\<close>, open addressing with tombstones. The locale \<open>map_store\<close> is what a client
    may rely on; it is interpreted on the table.
  \<^item> \<open>Strutil\<close>: \<open>lib/internal/strutil.c\<close>, growing buffers, bounded copies, splitting and joining.
  \<^item> \<open>Json\<close>: \<open>fs/format/json.c\<close>. The parser is a function on the text and a position, with a relation that gives the
    grammar it accepts and the values it builds.
  \<^item> \<open>Npe_Tensor\<close> (static kernels of \<open>vm.c\<close>), \<open>Npe_Program\<close> (\<open>program.c\<close>, \<open>verify.c\<close>), \<open>Npe_Jit\<close> (\<open>compiler.c\<close>,
    \<open>jit_pipeline.c\<close>), \<open>Npe_Vm\<close> (\<open>vm.c\<close>) are the model of the register machine; \<open>Npe_Correct\<close>, \<open>Npe_Mlp\<close> and
    \<open>Npe_Safety\<close> its theorems.
  \<^item> \<open>Bytes\<close>, \<open>Ct\<close>, \<open>Chacha20\<close>, \<open>Poly1305\<close>, \<open>Aead\<close>: the files of the same names under \<open>security/crypto/c\<close>, on
    32-bit and 64-bit words. \<open>Sha2\<close>: \<open>sha256.c\<close> and \<open>sha512.c\<close>, beside definitions of the hashes on whole messages.
    \<open>Hmac\<close>: \<open>hmac.c\<close>, \<open>hkdf.c\<close>, \<open>pbkdf2.c\<close>; its locale \<open>streaming_hash\<close> is what a keyed hash needs of an incremental
    hash, interpreted on SHA-512 with each of its two ways to finish.
  \<^item> \<open>Bignum\<close>: \<open>bignum.c\<close>, numbers of up to 128 words, in the variant with 128-bit products.
  \<^item> \<open>Tensor_Heap\<close> is the memory of the tensor engine: storages by address, with their bytes and reference counts, an
    oracle \<open>h_ok\<close> that says which requests for memory are granted, and a count of the blocks in use; creation,
    destruction and the view operations. \<open>Tensor_Index\<close>: addresses and accessors. \<open>Tensor_Copy\<close>: construction,
    copying, gathering, concatenation, masks. \<open>Tensor_Io\<close>: files. \<open>Tensor_Math\<close>, \<open>Tensor_Nn\<close>, \<open>Tensor_Linalg\<close>:
    arithmetic, reductions, products, neural network operations, conversions and elimination. \<open>Tensor_Refs\<close>,
    \<open>Tensor_Elems\<close>, \<open>Tensor_Concat\<close> and \<open>Tensor_Reduce\<close> hold the theorems about them; the locale \<open>tensor_maker\<close> in
    \<open>Tensor_Refs\<close> is the contract of every operation that returns a tensor, interpreted on the view operations.
  \<^item> \<open>Autodiff\<close>: \<open>variable.c\<close> and \<open>tape.c\<close> on the tensor heap; \<open>Autodiff_Order\<close>: the order of the backward pass.
    \<open>Autodiff_Back\<close>, \<open>Autodiff_Layers\<close>, \<open>Autodiff_Norms\<close>: the backward functions of \<open>ops.c\<close> with their contexts;
    \<open>Autodiff_Ops\<close>: its forward operations, and the functions they attach to variables. \<open>Autodiff_Frame\<close>,
    \<open>Autodiff_Graph\<close>, \<open>Autodiff_Session\<close>, \<open>Autodiff_Grads\<close>, \<open>Autodiff_Props\<close> and \<open>Autodiff_Train\<close> hold the theorems.
  \<^item> \<open>Work_Deque\<close>: the linked lists of tasks of \<open>threadpool.c\<close>. \<open>Threadpool\<close>: the workers and one client
    thread, which creates the pool, submits, waits and destroys it, as threads of a step relation, one step per action under a
    lock or between two. \<open>Threadpool_Props\<close>: its theorems. \<open>Parallel_Loops\<close>: parallel loops and reductions, given by the
    calls they make on the pool and what they have done when these have returned, and futures.
  \<^item> \<open>Tokenizer\<close>: the byte-pair tokenizer and its file format; \<open>Tokenizer_Tensors\<close>: identifiers as tensors.
  \<^item> \<open>Compress\<close>: \<open>mm/internal/compress.c\<close>, the table of codecs, sparse buffers and block floating point.
    \<open>Slab\<close>: \<open>mm/internal/slab_alloc.c\<close>, slabs, their intrusive free lists and the caches in front of them.

  \<^bold>\<open>How the model corresponds to the code.\<close> A pointer that may be \<open>NULL\<close> is an option; sizes are naturals that wrap at
  \<open>2 ^ 64\<close> where the code multiplies or adds them before a check (\<open>sz_mul\<close>, \<open>sz_add\<close>); a \<open>float\<close> is its bit pattern in
  the tensor engine and of any type in the register machine, and the arithmetic of the platform is the parameter \<open>F\<close>
  (\<open>fops\<close>), about which only the theorem on the index of a maximum assumes anything: that \<open>>\<close> orders the elements.
  The functions an operation attaches to a variable are the parameter \<open>K\<close> (\<open>hooks\<close>) of the tape, which \<open>Autodiff_Ops\<close>
  instantiates. Which requests for memory are granted, which pages the system maps, how much of each write reaches a file and
  what \<open>strtod\<close> makes of a number are parameters of the operations that use them.

  \<^bold>\<open>What is shown.\<close> The priority queue sorts and \<open>heapify\<close> repairs one cell; the hash table refines a finite map as long
  as its probe sequence finds room, and an error leaves it as it was; a compiled perceptron computes its formula, a
  verified program whose shapes are positive stays in bounds and, without backward branches, halts, and fusion computes the
  same layer; the AEAD decrypts what it encrypted and releases no plaintext without the right tag,
  the Poly1305 accumulator is the polynomial modulo \<open>2 ^ 130 - 5\<close>, the hashes fed in pieces are those of FIPS 180, and
  keyed hashes and derived keys on SHA-512 are those of RFC 2104 and RFC 8018; sums and products of big numbers are exact,
  and powers and inverses modulo one word are right; reference counts equal the number of
  live tensors whatever requests for memory fail, and destroying all tensors frees every block; every element of a view
  is the element of the source the operation selects; set and get, save and load, split and concatenation are inverse;
  sums, matrix products, broadcast additions and indices of maxima are what their definitions say; the tape's sort ends
  before its guard on every graph of up to 500000 variables; every operation adds at most one variable, so that the graph of a
  session has no cycle and the sort puts parents first, and the gradients of a recorded matrix product are the products with the transposed operands. No task of the pool is lost or
  run twice; with one client and tasks that submit nothing, a wait returns only when all tasks have finished and can always
  return, and parallel loops and reductions, once they have returned, have visited each index once and agree with the
  sequential fold; deques refine sequences. A trained tokenizer decodes what it encodes
  and survives saving and loading; the JSON parser returns on every text and accepts every text of the grammar with its
  value; sparse and block compression restore what their formats can hold; a slab cache that is never collected never hands out a
  block twice;
  splitting and joining strings are inverse. Defects of the code are theorems as well, among them: a full tape that
  fails to grow is overrun, broadcasting and contiguous copies lose leading indices, a convolution with more output
  channels overruns its result, casts to \<open>float\<close> give zeros, a file with more than 16 dimensions overruns the loader's
  array, division of big numbers loses digits and hexadecimal texts are read as zero, the keyed hashes named after SHA-256 overrun their outputs, the destruction of a pool can lose a wake-up, and a
  collection of slabs leaves lists that lead to released slabs.

  \<^bold>\<open>Bounds and fuel.\<close> The probe loop of the hash table and the run loop of the machine have the bounds of the code
  (capacity, step limit). The search of the tape has the code's own guard of a million rounds, which is enough for
  500000 variables since each round pushes or visits one. The JSON parser has the code's own limit on nesting as the fuel
  of its recursion, and the length of the text as that of its loops, each of whose rounds consumes a character. The
  searches through lists of slabs are partial functions, as the lists of the code can become cyclic; that they return is
  part of the invariant theorem. The loops on big numbers that end when a division has made one zero are partial functions as well,
  and that they end is shown for moduli of one word. Hashes take pieces below \<open>2 ^ 61\<close> bytes, where the counts of bits are exact; tokens of a
  trained vocabulary fit their 256 bytes when the text has at most 255. Programs of the register machine have fewer than
  \<open>2 ^ 31\<close> instructions, and reference counts stay below that number: both are C \<open>int\<close>s that the model does not bound. All
  other loops are structural.

  \<^bold>\<open>Not modelled.\<close> Printing, sockets, devices, and what is built on top of these components: layers, optimisers,
  distributed training, the readers of model files other than JSON and the tensor file, the security services, the
  model hub. The hashes beyond SHA-2, the elliptic-curve and post-quantum primitives, the red-black tree and the arenas and
  pools of \<open>mm\<close> are not started. Of the tensor engine, the unary operations that differ from a modelled one only in the
  library function they pass are left out.
\<close>

section \<open>Variables and tensors\<close>

lemma copy_floats_cells:
  assumes s: "cells h d xs" "t_size d = length xs" "length xs * 4 < 2 ^ 64" and t: "cells h t ys" "length ys = length xs"
  shows "\<exists>h'. copy_floats d t h = Inr h' \<and> cells h' t xs \<and> frame t h h'"
proof -
  let ?n = "length xs * 4"
  obtain a where a: "contents h (t_storage d) = Some (Some a)" "data_pos d + ?n \<le> length a"
    "\<forall>i < length xs. le32 (item_at a (data_pos d) 4 i) 0 = xs ! i" using s(1) by (auto simp: cells_def)
  obtain b where b: "contents h (t_storage t) = Some (Some b)" "data_pos t + ?n \<le> length b" using t by (auto simp: cells_def)
  let ?x = "take ?n (drop (data_pos d) a)"
  have lx: "length ?x = ?n" using a(2) by simp
  obtain h' where h': "store_bytes h (t_storage t) (data_pos t) ?x = Inr h'"
    "contents h' = (contents h)(t_storage t := Some (Some (put_bytes b (data_pos t) ?x)))"
    using store_bytes_contents [OF b(1), of "data_pos t" ?x] b(2) lx by auto
  have "item_at (put_bytes b (data_pos t) ?x) (data_pos t) 4 i = item_at a (data_pos d) 4 i" if i: "i < length xs" for i
  proof -
    have "item_at (put_bytes b (data_pos t) ?x) (data_pos t) 4 i = take 4 (drop (i * 4) ?x)"
      using b(2) lx i by (simp add: item_at_def put_bytes_def drop_append take_append)
    also have "\<dots> = item_at a (data_pos d) 4 i" using i by (simp add: item_at_def drop_take min_def add.commute)
    finally show ?thesis .
  qed
  then have "cells h' t xs" unfolding cells_def using h'(2) a(3) b(2) lx by auto
  moreover have "load_bytes h (t_storage d) (data_pos d) ?n = Inr ?x" by (rule load_bytes_Inr [OF a(1,2)])
  moreover have "sz_mul (t_size d) 4 = ?n" using s(2,3) by (simp add: sz_mul_def wrap64_small)
  ultimately show ?thesis using h' by (simp add: copy_floats_def frame_def)
qed

text \<open>Detaching a variable, when memory is available, gives a new variable that does not require a gradient and whose
  tensor has the shape and the elements of the source in a storage of its own; the source keeps its elements.\<close>

theorem variable_detach_copies:
  assumes x: "a_vars s v = Some x" "v_data x = Some d" and d: "float_tensor (a_heap s) d xs"
    and n: "contents (a_heap s) (h_next (a_heap s)) = None" "a_vars s (a_next s) = None" and m: "\<And>k. h_ok (a_heap s) k"
  shows "\<exists>w s' y t. SNEPPX_variable_detach (Some v) s = Inr (Some w, s') \<and> a_vars s' w = Some y \<and> w \<noteq> v \<and> v_data y = Some t \<and>
    v_requires_grad y = 0 \<and> t_shape t = t_shape d \<and> t_storage t \<noteq> t_storage d \<and>
    (\<forall>i < length xs. load_f32 (a_heap s') t i = Inr (xs ! i) \<and> load_f32 (a_heap s') d i = Inr (xs ! i))"
proof -
  have df: "cells (a_heap s) d xs" "t_size d = length xs" "length xs * 4 < 2 ^ 64" "length xs = prod_list (t_shape d)" "0 \<notin> set (t_shape d)"
    using d by (simp_all add: float_tensor_def)
  have "prod_list (t_shape d) \<noteq> 0" using df(5) by (simp add: prod_list_zero_iff)
  obtain t h1 where c: "SNEPPX_tensor_create (Some (t_shape d)) SNEPPX_FLOAT32 (a_heap s) = (Some t, h1)" "created (a_heap s) (t_shape d) SNEPPX_FLOAT32 t h1"
    by (rule all_ok_create [OF m])
  have fc: "fresh_cells (a_heap s) (t_shape d) t h1"
    by (rule created_cells [OF c(2)]) (use df(3,4) \<open>prod_list (t_shape d) \<noteq> 0\<close> in simp_all)
  have ok: "h_ok h1 k" for k using c(2) m by (auto simp: created_def installed_def Let_def)
  let ?h2 = "h1\<lparr>h_tried := h_tried h1 + 1, h_blocks := h_blocks h1 + 1\<rparr>"
  have same: "contents ?h2 = contents h1" by (simp add: contents_def fun_eq_iff)
  have eq: "cells ?h2 u zs = cells h1 u zs" for u zs by (rule cells_cong) (simp add: same)
  have r0: "cells h1 t (replicate (length xs) 0)" using fc df(4) by (simp add: fresh_cells_def)
  have c2: "cells ?h2 d xs" "t_storage d \<noteq> t_storage t" "cells ?h2 t (replicate (length xs) 0)"
    unfolding eq by (rule fresh_cells_other [OF fc df(1) n(1)] r0)+
  obtain h3 where h3: "copy_floats d t ?h2 = Inr h3" "cells h3 t xs" "frame t ?h2 h3"
    using copy_floats_cells [OF c2(1) df(2,3) c2(3)] by auto
  have "cells h3 d xs" by (rule cells_frame [OF c2(1) h3(3) c2(2)])
  let ?y = "\<lparr>v_data = Some t, v_grad = None, v_requires_grad = 0, v_checkpointed = False, v_backward_fn = False, v_backward_ctx = None,
     v_free_ctx = False, v_recompute_ctx = None, v_params = [], v_ref_count = 0, v_parents = []\<rparr>"
  let ?s = "s\<lparr>a_heap := h3, a_vars := (a_vars s)(a_next s \<mapsto> ?y), a_next := a_next s + 1\<rparr>"
  have "SNEPPX_variable_detach (Some v) s = Inr (Some (a_next s), ?s)"
    using x c(1) ok h3(1) by (simp add: SNEPPX_variable_detach_def get_var_def SNEPPX_variable_create_def aligned_alloc_wrapper_def on_heap_def Let_def)
  moreover have "t_shape t = t_shape d" using fc by (simp add: fresh_cells_def)
  moreover have "a_next s \<noteq> v" using x(1) n(2) by auto
  ultimately show ?thesis
    using load_cells [OF h3(2)] load_cells [OF \<open>cells h3 d xs\<close>] c2(2)
    by (intro exI [of _ "a_next s"] exI [of _ ?s] exI [of _ ?y] exI [of _ t]) simp
qed

theorem variable_detach_copies_witness:
  "\<exists>w s' y t. SNEPPX_variable_detach (Some 0) ((sample_ad [] [])\<lparr>a_heap := sample_heap (concat (map le32_bytes [5, 6])),
       a_vars := [0 \<mapsto> (sample_var [])\<lparr>v_data := Some (fresh_tensor 0 [2] SNEPPX_FLOAT32)\<rparr>]\<rparr>) = Inr (Some w, s') \<and>
     a_vars s' w = Some y \<and> v_data y = Some t \<and> load_f32 (a_heap s') t 1 = Inr 6"
proof -
  let ?d = "fresh_tensor 0 [2] SNEPPX_FLOAT32" and ?h = "sample_heap (concat (map le32_bytes [5, 6]))"
  let ?x = "(sample_var [])\<lparr>v_data := Some ?d\<rparr>"
  let ?s = "(sample_ad [] [])\<lparr>a_heap := ?h, a_vars := [0 \<mapsto> ?x]\<rparr>"
  have ft: "float_tensor ?h ?d [5, 6]" by (rule sample_floats) simp_all
  have "\<exists>w s' y t. SNEPPX_variable_detach (Some 0) ?s = Inr (Some w, s') \<and> a_vars s' w = Some y \<and> w \<noteq> 0 \<and> v_data y = Some t \<and>
    v_requires_grad y = 0 \<and> t_shape t = t_shape ?d \<and> t_storage t \<noteq> t_storage ?d \<and>
    (\<forall>i < length [5, 6 :: f32]. load_f32 (a_heap s') t i = Inr ([5, 6] ! i) \<and> load_f32 (a_heap s') ?d i = Inr ([5, 6] ! i))"
    by (rule variable_detach_copies [where x = ?x])
       (use ft sample_heap_facts in \<open>simp_all add: sample_ad_def\<close>)
  then show ?thesis by (elim exE conjE) (intro exI conjI, assumption+, simp)
qed

end
